(* ===== verification/Rust_Prelude.thy ===== *)
theory Rust_Prelude
  imports Main
begin

text \<open>
  Shared vocabulary of the development: what the modelled Rust code uses of the language and
  of its standard library.

  \<^item> A Rust \<open>str\<close> or \<open>String\<close> is a sequence of Unicode scalar values. It is modelled as a list
    of code points (\<open>ustr\<close>). Rust indexes strings by byte offset; where the code slices a string
    at offsets that \<open>find\<close>, \<open>rfind\<close> and pattern lengths gave for that same string, counting code
    points instead of bytes selects the same slices. Where it computes with byte offsets (spans of
    a syntax tree, truncation to a number of bytes) the model does too, with \<open>byte_len\<close>,
    \<open>split_at_byte\<close> and \<open>is_char_boundary\<close>.
  \<^item> \<open>usize\<close>, \<open>u32\<close> and \<open>u64\<close> values are natural numbers; where the source saturates, wraps or
    truncates, the operations below write it out.
  \<^item> \<open>f64\<close> values are in \<open>Rust_Float\<close>.
  \<^item> \<open>Result<T, E>\<close> is \<open>E + T\<close>, with \<open>Inl\<close> the error.
\<close>

named_theorems str_eval \<open>the primitives that are unfolded to evaluate a program on concrete text\<close>

section \<open>Types\<close>

type_synonym uchar = int
type_synonym ustr = "uchar list"
type_synonym u32 = nat
type_synonym u64 = nat
type_synonym usize = nat

definition lit :: "string \<Rightarrow> ustr" where
  "lit s = map of_char s"

lemma lit_inject: "lit a = lit b \<longleftrightarrow> a = b"
proof -
  have "inj (\<lambda>c :: char. (of_char c :: int))" by (rule injI) simp
  then show ?thesis by (simp add: lit_def inj_map_eq_map)
qed

abbreviation NL :: uchar where "NL \<equiv> 10"
abbreviation CR :: uchar where "CR \<equiv> 13"

section \<open>Characters\<close>

text \<open>\<open>char::is_whitespace\<close>: the Unicode \<open>White_Space\<close> property.\<close>

definition is_ws :: "uchar \<Rightarrow> bool" where
  "is_ws c \<longleftrightarrow> (9 \<le> c \<and> c \<le> 13) \<or> c = 32 \<or> c = 133 \<or> c = 160 \<or> c = 5760 \<or>
     (8192 \<le> c \<and> c \<le> 8202) \<or> c = 8232 \<or> c = 8233 \<or> c = 8239 \<or> c = 8287 \<or> c = 12288"

definition is_ascii_digit :: "uchar \<Rightarrow> bool" where
  "is_ascii_digit c \<longleftrightarrow> 48 \<le> c \<and> c \<le> 57"

definition ascii_lower :: "uchar \<Rightarrow> uchar" where
  "ascii_lower c = (if 65 \<le> c \<and> c \<le> 90 then c + 32 else c)"

section \<open>Slices\<close>

definition trim_start :: "ustr \<Rightarrow> ustr" where
  "trim_start s = dropWhile is_ws s"

definition trim_end :: "ustr \<Rightarrow> ustr" where
  "trim_end s = rev (dropWhile is_ws (rev s))"

definition trim :: "ustr \<Rightarrow> ustr" where
  "trim s = trim_end (trim_start s)"

lemma trim_end_Cons: "\<not> is_ws c \<Longrightarrow> trim_end (c # s) = c # trim_end s"
  by (simp add: trim_end_def dropWhile_append3)

lemma trim_nonempty: "\<not> is_ws c \<Longrightarrow> trim (c # s) \<noteq> []"
  by (simp add: trim_def trim_start_def trim_end_Cons)

lemma trim_id: "s \<noteq> [] \<Longrightarrow> \<not> is_ws (hd s) \<Longrightarrow> \<not> is_ws (last s) \<Longrightarrow> trim s = s"
  by (simp add: trim_def trim_start_def trim_end_def dropWhile_eq_self_iff[THEN iffD2] hd_rev)

lemma trim_idem [simp]: "trim (trim s) = trim s"
proof (cases "trim_start s")
  case Nil
  then have e: "trim s = []" by (simp add: trim_def trim_end_def)
  show ?thesis unfolding e by (simp add: trim_def trim_start_def trim_end_def)
next
  case (Cons c u)
  then have c: "\<not> is_ws c" by (auto simp: trim_start_def dropWhile_eq_Cons_conv)
  have "trim_end (trim_end u) = trim_end u" by (simp add: trim_end_def)
  with c Cons show ?thesis by (simp add: trim_def trim_end_Cons, simp add: trim_start_def trim_end_Cons)
qed

lemma trim_ends: "trim s \<noteq> [] \<Longrightarrow> \<not> is_ws (hd (trim s)) \<and> \<not> is_ws (last (trim s))"
proof -
  assume ne: "trim s \<noteq> []"
  have last: "trim_end u \<noteq> [] \<Longrightarrow> \<not> is_ws (last (trim_end u))" for u
    by (simp add: trim_end_def last_rev hd_dropWhile)
  obtain c u where cu: "trim_start s = c # u" using ne by (cases "trim_start s") (auto simp: trim_def trim_end_def)
  then have "\<not> is_ws c" by (auto simp: trim_start_def dropWhile_eq_Cons_conv)
  with cu ne last[of "c # u"] show ?thesis by (simp add: trim_def trim_end_Cons)
qed

lemma trim_append_ws: "list_all is_ws w \<Longrightarrow> trim (w @ s) = trim s"
  by (simp add: trim_def trim_start_def dropWhile_append2 list_all_iff)

lemma trim_substring: "\<exists>a b. s = a @ trim s @ b"
proof -
  have "s = takeWhile is_ws s @ trim_start s" by (simp add: trim_start_def)
  moreover have "u = trim_end u @ rev (takeWhile is_ws (rev u))" for u
    unfolding trim_end_def by (metis rev_append rev_rev_ident takeWhile_dropWhile_id)
  ultimately show ?thesis unfolding trim_def by metis
qed

fun strip_prefix :: "'a list \<Rightarrow> 'a list \<Rightarrow> 'a list option" where
  "strip_prefix [] s = Some s"
| "strip_prefix (p # ps) [] = None"
| "strip_prefix (p # ps) (c # s) = (if p = c then strip_prefix ps s else None)"

definition starts_with :: "'a list \<Rightarrow> 'a list \<Rightarrow> bool" where
  "starts_with s p \<longleftrightarrow> strip_prefix p s \<noteq> None"

definition ends_with :: "'a list \<Rightarrow> 'a list \<Rightarrow> bool" where
  "ends_with s p \<longleftrightarrow> starts_with (rev s) (rev p)"

text \<open>\<open>str::find\<close> and \<open>str::rfind\<close> with a string pattern.\<close>

fun find_str :: "'a list \<Rightarrow> 'a list \<Rightarrow> nat option" where
  "find_str pat [] = (if starts_with [] pat then Some 0 else None)"
| "find_str pat (c # s) =
     (if starts_with (c # s) pat then Some 0 else map_option Suc (find_str pat s))"

fun rfind_str :: "'a list \<Rightarrow> 'a list \<Rightarrow> nat option" where
  "rfind_str pat [] = (if starts_with [] pat then Some 0 else None)"
| "rfind_str pat (c # s) =
     (case rfind_str pat s of
        Some i \<Rightarrow> Some (Suc i)
      | None \<Rightarrow> if starts_with (c # s) pat then Some 0 else None)"

definition contains :: "'a list \<Rightarrow> 'a list \<Rightarrow> bool" where
  "contains s pat \<longleftrightarrow> find_str pat s \<noteq> None"

lemma strip_prefix_Some_iff: "strip_prefix p s = Some r \<longleftrightarrow> s = p @ r"
  by (induction p s rule: strip_prefix.induct) auto

lemma starts_with_iff: "starts_with s p \<longleftrightarrow> (\<exists>r. s = p @ r)"
  by (auto simp: starts_with_def strip_prefix_Some_iff[symmetric])

lemma strip_prefix_shrinks:
  "strip_prefix p s = Some r \<Longrightarrow> p \<noteq> [] \<Longrightarrow> length r < length s"
  by (auto simp: strip_prefix_Some_iff)

text \<open>
  \<open>str::replace\<close>, \<open>str::matches(..).count()\<close> and \<open>str::split\<close> with a non-empty string pattern:
  the leftmost, non-overlapping occurrences.
\<close>

function replace_all :: "'a list \<Rightarrow> 'a list \<Rightarrow> 'a list \<Rightarrow> 'a list" where
  "replace_all pat rep [] = []"
| "replace_all pat rep (c # s) =
     (case strip_prefix pat (c # s) of
        Some r \<Rightarrow> if pat = [] then c # s else rep @ replace_all pat rep r
      | None \<Rightarrow> c # replace_all pat rep s)"
  by pat_completeness auto
termination
  by (relation "measure (\<lambda>(pat, rep, s). length s)")
    (auto dest: strip_prefix_shrinks)

function match_count :: "'a list \<Rightarrow> 'a list \<Rightarrow> nat" where
  "match_count pat [] = 0"
| "match_count pat (c # s) =
     (case strip_prefix pat (c # s) of
        Some r \<Rightarrow> if pat = [] then 0 else Suc (match_count pat r)
      | None \<Rightarrow> match_count pat s)"
  by pat_completeness auto
termination
  by (relation "measure (\<lambda>(pat, s). length s)") (auto dest: strip_prefix_shrinks)

function split_str :: "'a list \<Rightarrow> 'a list \<Rightarrow> 'a list \<Rightarrow> 'a list list" where
  "split_str pat acc [] = [rev acc]"
| "split_str pat acc (c # s) =
     (case strip_prefix pat (c # s) of
        Some r \<Rightarrow> if pat = [] then [rev acc @ c # s] else rev acc # split_str pat [] r
      | None \<Rightarrow> split_str pat (c # acc) s)"
  by pat_completeness auto
termination
  by (relation "measure (\<lambda>(pat, acc, s). length s)") (auto dest: strip_prefix_shrinks)

text \<open>\<open>str::split\<close> with a single character: at least one piece, empty pieces kept.\<close>

fun split_char :: "'a \<Rightarrow> 'a list \<Rightarrow> 'a list list" where
  "split_char c [] = [[]]"
| "split_char c (x # s) =
     (if x = c then [] # split_char c s
      else (case split_char c s of
              [] \<Rightarrow> [[x]]
            | y # ys \<Rightarrow> (x # y) # ys))"

text \<open>
  \<open>str::lines\<close>: a line ends at a newline, which is dropped together with one carriage return
  before it; the text after the last newline is a line only when it is not empty, and it keeps
  its carriage return.
\<close>

definition strip_cr :: "ustr \<Rightarrow> ustr" where
  "strip_cr l = (if l \<noteq> [] \<and> last l = CR then butlast l else l)"

definition str_lines :: "ustr \<Rightarrow> ustr list" where
  "str_lines s =
     (let ps = split_char NL s in
      map strip_cr (butlast ps) @ (if last ps = [] then [] else [last ps]))"

text \<open>\<open>[T]::join\<close> on strings.\<close>

fun join :: "'a list \<Rightarrow> 'a list list \<Rightarrow> 'a list" where
  "join sep [] = []"
| "join sep [x] = x"
| "join sep (x # y # xs) = x @ sep @ join sep (y # xs)"

text \<open>\<open>Display\<close> of an unsigned integer: decimal digits.\<close>

fun nat_str :: "nat \<Rightarrow> ustr" where
  "nat_str n = (if n < 10 then [48 + int n] else nat_str (n div 10) @ [48 + int (n mod 10)])"

declare nat_str.simps [simp del]

text \<open>\<open>str::parse\<close> for unsigned integers up to \<open>mx\<close>: an optional plus sign and decimal digits.\<close>

fun digits_val :: "nat \<Rightarrow> ustr \<Rightarrow> nat option" where
  "digits_val acc [] = Some acc"
| "digits_val acc (c # s) =
     (if is_ascii_digit c then digits_val (10 * acc + nat (c - 48)) s else None)"

definition parse_uint :: "nat \<Rightarrow> ustr \<Rightarrow> nat option" where
  "parse_uint mx s =
     (let ds = (case s of c # r \<Rightarrow> if c = 43 then r else s | [] \<Rightarrow> s) in
      if ds = [] then None
      else (case digits_val 0 ds of
              None \<Rightarrow> None
            | Some n \<Rightarrow> if n \<le> mx then Some n else None))"

lemma digits_val_append: "digits_val acc (s @ t) = Option.bind (digits_val acc s) (\<lambda>a. digits_val a t)"
  by (induction acc s rule: digits_val.induct) auto

lemma nat_str_digits: "list_all is_ascii_digit (nat_str n) \<and> nat_str n \<noteq> []"
proof (induction n rule: nat_str.induct)
  case (1 n)
  show ?case
  proof (cases "n < 10")
    case False
    with 1 have "list_all is_ascii_digit (nat_str (n div 10))" by simp
    moreover have "n mod 10 < 10" by simp
    then have "is_ascii_digit (48 + int (n mod 10))" unfolding is_ascii_digit_def by linarith
    ultimately show ?thesis using False by (simp add: nat_str.simps[of n])
  qed (simp add: nat_str.simps[of n] is_ascii_digit_def)
qed

lemma digits_val_nat_str: "digits_val 0 (nat_str n) = Some n"
proof (induction n rule: nat_str.induct)
  case (1 n)
  show ?case
  proof (cases "n < 10")
    case True
    then show ?thesis by (simp add: nat_str.simps[of n] is_ascii_digit_def)
  next
    case False
    then have "digits_val 0 (nat_str (n div 10)) = Some (n div 10)" using 1 by simp
    with False show ?thesis
      by (simp add: nat_str.simps[of n] digits_val_append is_ascii_digit_def)
  qed
qed

text \<open>Printing and parsing of numbers.\<close>

lemma parse_uint_nat_str: "n \<le> mx \<Longrightarrow> parse_uint mx (nat_str n) = Some n"
proof -
  assume "n \<le> mx"
  obtain c r where s: "nat_str n = c # r" "is_ascii_digit c"
    using nat_str_digits[of n] by (cases "nat_str n") auto
  then have "c \<noteq> 43" by (auto simp: is_ascii_digit_def)
  with s digits_val_nat_str[of n] \<open>n \<le> mx\<close> show ?thesis by (simp add: parse_uint_def del: digits_val.simps)
qed

lemma nat_str_inject: "nat_str m = nat_str n \<longleftrightarrow> m = n"
  by (metis digits_val_nat_str option.inject)

lemma nat_str_no_colon: "58 \<notin> set (nat_str n)"
  using nat_str_digits[of n] by (auto simp: list_all_iff is_ascii_digit_def)

lemma split_char_nonempty [simp]: "split_char c s \<noteq> []"
  by (induction c s rule: split_char.induct) (auto split: list.splits)

lemma split_char_no_sep: "s \<in> set (split_char c t) \<Longrightarrow> c \<notin> set s"
  by (induction c t arbitrary: s rule: split_char.induct) (auto split: list.splits if_splits)

lemma split_char_plain: "c \<notin> set s \<Longrightarrow> split_char c s = [s]"
  by (induction c s rule: split_char.induct) auto

lemma split_char_append: "c \<notin> set s \<Longrightarrow> split_char c (s @ c # t) = s # split_char c t"
  by (induction s) auto

lemma split_char_join: "ss \<noteq> [] \<Longrightarrow> \<forall>s \<in> set ss. c \<notin> set s \<Longrightarrow> split_char c (join [c] ss) = ss"
  by (induction "[c]" ss rule: join.induct) (auto simp: split_char_plain split_char_append)

section \<open>Byte offsets\<close>

definition utf8_len :: "uchar \<Rightarrow> nat" where
  "utf8_len c = (if c < 128 then 1 else if c < 2048 then 2 else if c < 65536 then 3 else 4)"

definition byte_len :: "ustr \<Rightarrow> nat" where
  "byte_len s = sum_list (map utf8_len s)"

text \<open>The string split at a byte offset; \<open>None\<close> off a character boundary or past the end.\<close>

fun split_at_byte :: "ustr \<Rightarrow> nat \<Rightarrow> (ustr \<times> ustr) option" where
  "split_at_byte [] n = (if n = 0 then Some ([], []) else None)"
| "split_at_byte (c # s) n =
     (if n = 0 then Some ([], c # s)
      else if utf8_len c \<le> n then map_option (apfst ((#) c)) (split_at_byte s (n - utf8_len c))
      else None)"

definition is_char_boundary :: "ustr \<Rightarrow> nat \<Rightarrow> bool" where
  "is_char_boundary s n \<longleftrightarrow> split_at_byte s n \<noteq> None"

definition str_to :: "ustr \<Rightarrow> nat \<Rightarrow> ustr option" where
  "str_to s n = map_option fst (split_at_byte s n)"

definition str_from :: "ustr \<Rightarrow> nat \<Rightarrow> ustr option" where
  "str_from s n = map_option snd (split_at_byte s n)"

definition str_range :: "ustr \<Rightarrow> nat \<Rightarrow> nat \<Rightarrow> ustr option" where
  "str_range s a b =
     (if a \<le> b then Option.bind (str_to s b) (\<lambda>pre. str_from pre a) else None)"

lemma utf8_len_pos: "0 < utf8_len c" by (simp add: utf8_len_def)

lemma byte_len_simps [simp]:
  "byte_len [] = 0" "byte_len (c # s) = utf8_len c + byte_len s" "byte_len (s @ t) = byte_len s + byte_len t"
  by (simp_all add: byte_len_def)

lemma byte_len_0 [simp]: "byte_len s = 0 \<longleftrightarrow> s = []"
  using utf8_len_pos by (cases s) auto

lemma split_at_byte_iff: "split_at_byte s n = Some (a, b) \<longleftrightarrow> s = a @ b \<and> byte_len a = n"
proof (induction s n arbitrary: a b rule: split_at_byte.induct)
  case (2 c s n)
  show ?case
  proof (cases "n = 0")
    case False
    show ?thesis
    proof (cases a)
      case (Cons x a')
      with False 2 show ?thesis by auto
    qed (use False in \<open>auto split: if_splits\<close>)
  qed auto
qed auto

lemma str_to_iff: "str_to s n = Some a \<longleftrightarrow> (\<exists>b. s = a @ b \<and> byte_len a = n)"
  by (auto simp: str_to_def split_at_byte_iff)

lemma str_from_iff: "str_from s n = Some b \<longleftrightarrow> (\<exists>a. s = a @ b \<and> byte_len a = n)"
  by (auto simp: str_from_def split_at_byte_iff)

section \<open>Integer arithmetic\<close>

definition u32_max :: nat where "u32_max = 2 ^ 32 - 1"
definition u64_max :: nat where "u64_max = 2 ^ 64 - 1"

definition sat_add32 :: "u32 \<Rightarrow> u32 \<Rightarrow> u32" where
  "sat_add32 a b = min (a + b) u32_max"

definition wrap_add32 :: "u32 \<Rightarrow> u32 \<Rightarrow> u32" where
  "wrap_add32 a b = (a + b) mod 2 ^ 32"

definition as_u32 :: "nat \<Rightarrow> u32" where
  "as_u32 n = n mod 2 ^ 32"

definition as_u64 :: "nat \<Rightarrow> u64" where
  "as_u64 n = n mod 2 ^ 64"

definition wrap_inc64 :: "u64 \<Rightarrow> u64" where
  "wrap_inc64 n = (n + 1) mod 2 ^ 64"

definition wrap_dec64 :: "u64 \<Rightarrow> u64" where
  "wrap_dec64 n = (if n = 0 then u64_max else n - 1)"

lemmas [str_eval] = lit_def is_ws_def is_ascii_digit_def trim_def trim_start_def trim_end_def
  starts_with_def ends_with_def contains_def str_lines_def strip_cr_def

end
