(* ===== verification/Rust_Float.thy ===== *)
theory Rust_Float
  imports Complex_Main "HOL-Library.Log_Nat" Rust_Prelude
begin

text \<open>
  \<open>f64\<close> arithmetic as the modelled code uses it: non-negative values in the normal range. A value
  is a rational, and every arithmetic result is rounded by \<open>f64_round\<close>: IEEE 754
  round-to-nearest, ties-to-even, to 53 significant bits. The lemmas bound the rounded value and
  show that comparing a rounded ratio of small counts with one half gives the exact answer.
\<close>

type_synonym f64 = rat

section \<open>Floating point\<close>

text \<open>Round half to even.\<close>

definition round_even :: "rat \<Rightarrow> int" where
  "round_even y =
     (let f = \<lfloor>y\<rfloor>; d = y - of_int f in
      if d < 1 / 2 then f else if d > 1 / 2 then f + 1 else if even f then f else f + 1)"

definition pow2 :: "int \<Rightarrow> rat" where
  "pow2 k = (if 0 \<le> k then 2 ^ nat k else 1 / 2 ^ nat (- k))"

text \<open>
  The shift \<open>k\<close> that puts \<open>x\<close> into \<open>[2^52, 2^53)\<close>: the bit lengths of the numerator and the
  denominator give it up to one position.
\<close>

definition f64_shift :: "rat \<Rightarrow> int" where
  "f64_shift x =
     (let (p, q) = quotient_of x; k = 53 - (bitlen p - bitlen q) in
      if x * pow2 k \<ge> 2 ^ 53 then k - 1 else k)"

definition f64_round :: "rat \<Rightarrow> f64" where
  "f64_round x = (if x \<le> 0 then 0 else
     (let k = f64_shift x in of_int (round_even (x * pow2 k)) / pow2 k))"

definition f64_div :: "f64 \<Rightarrow> f64 \<Rightarrow> f64" where
  "f64_div a b = f64_round (a / b)"

definition f64_mul :: "f64 \<Rightarrow> f64 \<Rightarrow> f64" where
  "f64_mul a b = f64_round (a * b)"

text \<open>\<open>x as u32\<close> and \<open>x.ceil() as u64\<close> of a non-negative \<open>f64\<close>: truncate, then saturate.\<close>

definition f64_as_u32 :: "f64 \<Rightarrow> u32" where
  "f64_as_u32 x = min (nat \<lfloor>x\<rfloor>) u32_max"

definition f64_ceil_as_u64 :: "f64 \<Rightarrow> u64" where
  "f64_ceil_as_u64 x = min (nat \<lceil>x\<rceil>) u64_max"

section \<open>Facts on rounding\<close>

lemma round_even_bounds: "\<lfloor>y\<rfloor> \<le> round_even y" "round_even y \<le> \<lfloor>y\<rfloor> + 1"
  by (simp_all add: round_even_def Let_def)

lemma round_even_of_int [simp]: "round_even (of_int m) = m"
  by (simp add: round_even_def)

lemma round_even_close: "\<bar>of_int (round_even y) - y\<bar> \<le> 1 / 2"
proof -
  have "of_int \<lfloor>y\<rfloor> \<le> y" "y < of_int \<lfloor>y\<rfloor> + 1" by linarith+
  then show ?thesis by (auto simp: round_even_def Let_def abs_le_iff)
qed

lemma round_even_le: "y \<le> of_int m \<Longrightarrow> round_even y \<le> m"
proof -
  assume y: "y \<le> of_int m"
  show ?thesis
  proof (cases "y = of_int m")
    case False
    with y have "y < of_int m" by simp
    then have "\<lfloor>y\<rfloor> < m" by (simp add: floor_less_iff)
    then show ?thesis using round_even_bounds(2)[of y] by linarith
  qed simp
qed

lemma round_even_ge: "of_int m \<le> y \<Longrightarrow> m \<le> round_even y"
  using round_even_bounds(1)[of y] by (simp add: le_floor_iff[symmetric])

lemma pow2_pos [simp]: "0 < pow2 k"
  by (simp add: pow2_def)

lemma pow2_nonneg [simp]: "0 \<le> pow2 k"
  by (rule less_imp_le) simp

lemma pow2_neq_0 [simp]: "pow2 k \<noteq> 0"
  by (simp add: pow2_def)

lemma pow2_add: "pow2 (a + b) = pow2 a * pow2 b"
proof -
  have "pow2 (k + 1) = 2 * pow2 k" for k
  proof (cases "0 \<le> k")
    case True
    then show ?thesis by (simp add: pow2_def nat_add_distrib)
  next
    case False
    then have "nat (- k) = Suc (nat (- (k + 1)))" by linarith
    with False show ?thesis by (simp add: pow2_def)
  qed
  note step = this
  show ?thesis
  proof (induction b rule: int_induct[where k = 0])
    case base
    show ?case by (simp add: pow2_def)
  next
    case (step1 i)
    then show ?case using step[of "a + i"] step[of i] by (simp add: add.assoc)
  next
    case (step2 i)
    then show ?case using step[of "a + (i - 1)"] step[of "i - 1"] by (simp add: algebra_simps)
  qed
qed

lemma pow2_int: "0 \<le> k \<Longrightarrow> pow2 k = of_int (2 ^ nat k)"
  by (simp add: pow2_def)

lemma pow2_neg_le_1: "k \<le> 0 \<Longrightarrow> pow2 k \<le> 1"
  by (auto simp: pow2_def)

lemma pow2_mono: "a \<le> b \<Longrightarrow> pow2 a \<le> pow2 b"
proof -
  assume "a \<le> b"
  then have "pow2 b = pow2 a * pow2 (b - a)" using pow2_add[of a "b - a"] by simp
  moreover have "1 \<le> pow2 (b - a)" using \<open>a \<le> b\<close> by (simp add: pow2_def)
  ultimately show ?thesis using mult_left_mono[of 1 "pow2 (b - a)" "pow2 a"] by simp
qed

lemma bitlen_rat: "0 < p \<Longrightarrow> pow2 (bitlen p - 1) \<le> of_int p \<and> of_int p < pow2 (bitlen p)"
proof -
  assume p: "0 < p"
  then have b: "1 \<le> bitlen p" by (metis bitlen_eq_zero_iff bitlen_nonneg less_le_not_le linorder_not_le order_le_less zle_add1_eq_le add_0)
  have "2 ^ nat (bitlen p - 1) \<le> p" "p < 2 ^ nat (bitlen p)" using bitlen_bounds[OF p] by auto
  then have "(of_int (2 ^ nat (bitlen p - 1)) :: rat) \<le> of_int p"
    "(of_int p :: rat) < of_int (2 ^ nat (bitlen p))" by (simp_all only: of_int_le_iff of_int_less_iff)
  with b show ?thesis by (simp add: pow2_int)
qed

lemma f64_shift_range:
  assumes "0 < x"
  shows "2 ^ 52 \<le> x * pow2 (f64_shift x)" "x * pow2 (f64_shift x) < 2 ^ 53"
proof -
  obtain p q where pq: "quotient_of x = (p, q)" by (cases "quotient_of x")
  have q: "0 < q" using quotient_of_denom_pos[OF pq] .
  have x: "x = of_int p / of_int q" using quotient_of_div[OF pq] .
  have p: "0 < p" using assms q unfolding x by (simp add: zero_less_divide_iff)
  define k where "k = 53 - (bitlen p - bitlen q)"
  have lo: "2 ^ 52 \<le> x * pow2 k"
  proof -
    have "pow2 52 * of_int q \<le> pow2 52 * pow2 (bitlen q)"
      using bitlen_rat[OF q] by (intro mult_left_mono) (auto simp: less_imp_le)
    also have "\<dots> = pow2 (bitlen p - 1) * pow2 k"
      by (simp add: pow2_add[symmetric] k_def)
    also have "\<dots> \<le> of_int p * pow2 k"
      using bitlen_rat[OF p] by (intro mult_right_mono) (auto simp: less_imp_le)
    finally show ?thesis using q unfolding x by (simp add: field_simps pow2_def)
  qed
  have hi: "x * pow2 k < 2 ^ 54"
  proof -
    have "of_int p * pow2 k < pow2 (bitlen p) * pow2 k"
      using bitlen_rat[OF p] by (intro mult_strict_right_mono) auto
    also have "\<dots> = pow2 54 * pow2 (bitlen q - 1)"
      by (simp add: pow2_add[symmetric] k_def)
    also have "\<dots> \<le> pow2 54 * of_int q"
      using bitlen_rat[OF q] by (intro mult_left_mono) (auto simp: less_imp_le)
    finally show ?thesis using q unfolding x by (simp add: field_simps pow2_def)
  qed
  have sh: "f64_shift x = (if x * pow2 k \<ge> 2 ^ 53 then k - 1 else k)"
    by (simp add: f64_shift_def pq k_def Let_def)
  have half: "x * pow2 (k - 1) = x * pow2 k / 2"
    using pow2_add[of "k - 1" 1] by (simp add: pow2_def[of 1])
  have "2 ^ 52 \<le> x * pow2 (f64_shift x) \<and> x * pow2 (f64_shift x) < 2 ^ 53"
  proof (cases "x * pow2 k \<ge> 2 ^ 53")
    case True
    then have "f64_shift x = k - 1" by (simp add: sh)
    then have eq: "x * pow2 (f64_shift x) = x * pow2 k / 2" using half by (simp only:)
    show ?thesis unfolding eq using True hi by simp
  next
    case False
    then have "f64_shift x = k" by (simp add: sh)
    with lo False show ?thesis by simp
  qed
  then show "2 ^ 52 \<le> x * pow2 (f64_shift x)" "x * pow2 (f64_shift x) < 2 ^ 53" by auto
qed

lemma f64_shift_nonneg: "0 < x \<Longrightarrow> x \<le> 2 ^ 52 \<Longrightarrow> 0 \<le> f64_shift x"
proof (rule ccontr)
  assume x: "0 < x" "x \<le> 2 ^ 52" and "\<not> 0 \<le> f64_shift x"
  then have "pow2 (f64_shift x) \<le> pow2 (- 1)" by (intro pow2_mono) simp
  then have "x * pow2 (f64_shift x) \<le> 2 ^ 52 * pow2 (- 1)" using x by (intro mult_mono) (auto simp: less_imp_le)
  also have "\<dots> < 2 ^ 52" by (simp add: pow2_def)
  finally show False using f64_shift_range(1)[OF x(1)] by simp
qed

lemma f64_round_nonneg [simp]: "0 \<le> f64_round x"
proof (cases "0 < x")
  case True
  then have "(of_int 0 :: rat) \<le> x * pow2 (f64_shift x)" by simp
  then have "0 \<le> round_even (x * pow2 (f64_shift x))" by (rule round_even_ge)
  with True show ?thesis by (simp add: f64_round_def Let_def)
qed (simp add: f64_round_def)

lemma f64_round_0 [simp]: "f64_round 0 = 0"
  by (simp add: f64_round_def)

lemma f64_round_of_nat: assumes "n \<le> 2 ^ 52" shows "f64_round (of_nat n) = of_nat n"
proof (cases "n = 0")
  case False
  let ?x = "of_nat n :: rat"
  have "?x \<le> of_nat (2 ^ 52)" using assms by (simp only: of_nat_le_iff)
  then have x: "0 < ?x" "?x \<le> 2 ^ 52" using False by simp_all
  then have k: "0 \<le> f64_shift ?x" by (rule f64_shift_nonneg)
  have "?x * pow2 (f64_shift ?x) = of_int (int n * 2 ^ nat (f64_shift ?x))"
    by (simp add: pow2_int[OF k])
  then have "of_int (round_even (?x * pow2 (f64_shift ?x))) = ?x * pow2 (f64_shift ?x)"
    by (simp only: round_even_of_int)
  then show ?thesis using x by (simp add: f64_round_def Let_def)
qed simp

lemma f64_round_le_nat: assumes "x \<le> of_nat n" "n \<le> 2 ^ 52" shows "f64_round x \<le> of_nat n"
proof (cases "0 < x")
  case True
  have "(of_nat n :: rat) \<le> of_nat (2 ^ 52)" using assms(2) by (simp only: of_nat_le_iff)
  with assms(1) have "x \<le> 2 ^ 52" by simp
  with True have k: "0 \<le> f64_shift x" by (rule f64_shift_nonneg)
  have "x * pow2 (f64_shift x) \<le> of_nat n * pow2 (f64_shift x)"
    using assms by (intro mult_right_mono) (auto simp: less_imp_le)
  also have "\<dots> = of_int (int n * 2 ^ nat (f64_shift x))" by (simp add: pow2_int[OF k])
  finally have "round_even (x * pow2 (f64_shift x)) \<le> int n * 2 ^ nat (f64_shift x)"
    by (rule round_even_le)
  then have "(of_int (round_even (x * pow2 (f64_shift x))) :: rat) \<le> of_int (int n * 2 ^ nat (f64_shift x))"
    by (simp only: of_int_le_iff)
  also have "\<dots> = of_nat n * pow2 (f64_shift x)" by (simp add: pow2_int[OF k])
  finally show ?thesis using True by (simp add: f64_round_def Let_def divide_le_eq)
qed (simp add: f64_round_def)

lemma f64_round_half_iff:
  assumes "0 < n" "n \<le> 10000"
  shows "1 / 2 \<le> f64_round (of_nat f / of_nat n) \<longleftrightarrow> n \<le> 2 * f"
proof
  let ?x = "of_nat f / of_nat n :: rat" and ?k = "f64_shift (of_nat f / of_nat n :: rat)"
  assume "n \<le> 2 * f"
  then have "(of_nat n :: rat) \<le> of_nat (2 * f)" by (simp only: of_nat_le_iff)
  then have x: "1 / 2 \<le> ?x" using assms by (simp add: field_simps)
  then have x0: "0 < ?x" by (rule less_le_trans[rotated]) simp
  show "1 / 2 \<le> f64_round ?x"
  proof (cases "1 \<le> ?k")
    case True
    then have "pow2 ?k = 2 * pow2 (?k - 1)" using pow2_add[of 1 "?k - 1"] by (simp add: pow2_def[of 1])
    moreover have "pow2 (?k - 1) = of_int (2 ^ nat (?k - 1))" using True by (intro pow2_int) simp
    ultimately have h: "1 / 2 * pow2 ?k = of_int (2 ^ nat (?k - 1))" by simp
    have "1 / 2 * pow2 ?k \<le> ?x * pow2 ?k" using x by (intro mult_right_mono) (auto simp: less_imp_le)
    then have "of_int (2 ^ nat (?k - 1)) \<le> ?x * pow2 ?k" unfolding h .
    then have "2 ^ nat (?k - 1) \<le> round_even (?x * pow2 ?k)" by (rule round_even_ge)
    then have "(of_int (2 ^ nat (?k - 1)) :: rat) \<le> of_int (round_even (?x * pow2 ?k))"
      by (simp only: of_int_le_iff)
    then have "1 / 2 * pow2 ?k \<le> of_int (round_even (?x * pow2 ?k))" unfolding h .
    then show ?thesis using x0 by (simp add: f64_round_def Let_def le_divide_eq)
  next
    case False
    have "of_int (2 ^ 52) \<le> ?x * pow2 ?k" using f64_shift_range(1)[OF x0] by simp
    then have "2 ^ 52 \<le> round_even (?x * pow2 ?k)" by (rule round_even_ge)
    then have "(of_int (2 ^ 52) :: rat) \<le> of_int (round_even (?x * pow2 ?k))"
      by (simp only: of_int_le_iff)
    then have "(1 :: rat) \<le> of_int (round_even (?x * pow2 ?k))" by simp
    moreover have "pow2 ?k \<le> 1" using False by (intro pow2_neg_le_1) simp
    ultimately have "1 / 2 * pow2 ?k \<le> of_int (round_even (?x * pow2 ?k))" by linarith
    then show ?thesis using x0 by (simp add: f64_round_def Let_def le_divide_eq)
  qed
next
  let ?x = "of_nat f / of_nat n :: rat" and ?k = "f64_shift (of_nat f / of_nat n :: rat)"
  assume half: "1 / 2 \<le> f64_round ?x"
  show "n \<le> 2 * f"
  proof (rule ccontr)
    assume "\<not> n \<le> 2 * f"
    then have "(of_nat (2 * f + 1) :: rat) \<le> of_nat n" by (simp only: of_nat_le_iff)
    then have x: "?x \<le> 1 / 2 - 1 / (2 * of_nat n)" using assms by (simp add: field_simps)
    have n: "(of_nat n :: rat) \<le> of_nat 10000" using assms by (simp only: of_nat_le_iff)
    have "1 / 20000 \<le> 1 / (2 * of_nat n :: rat)" using n assms by (simp add: field_simps)
    with x have x2: "?x \<le> 1 / 2 - 1 / 20000" by linarith
    have x0: "0 < ?x"
      using half by (cases "0 < ?x") (auto simp: f64_round_def)
    have "0 < pow2 ?k" by simp
    have "?x \<le> 1" using x2 by linarith
    then have "?x * pow2 ?k \<le> 1 * pow2 ?k" by (intro mult_right_mono) auto
    with f64_shift_range(1)[OF x0] have k: "2 ^ 52 \<le> pow2 ?k" by linarith
    have "of_int (round_even (?x * pow2 ?k)) \<le> ?x * pow2 ?k + 1 / 2"
      using round_even_close[of "?x * pow2 ?k"] by linarith
    also have "\<dots> \<le> (1 / 2 - 1 / 20000) * pow2 ?k + 1 / 2"
      using x2 by (intro add_right_mono mult_right_mono) (auto simp: less_imp_le)
    also have "\<dots> < 1 / 2 * pow2 ?k" using k by (simp add: algebra_simps)
    finally have "f64_round ?x < 1 / 2" using x0 by (simp add: f64_round_def Let_def divide_less_eq)
    with half show False by simp
  qed
qed
end
