(* ===== verification/Breaker_Window.thy ===== *)
theory Breaker_Window
  imports Rust_Float
begin

text \<open>
  The bounded sliding window of the circuit breaker
  (\<open>crates/common/xai-circuit-breaker/src/window.rs\<close>).

  An \<open>Instant\<close> is the number of nanoseconds since the earliest representable instant, so that
  \<open>checked_sub\<close> fails exactly when the difference would be negative. The queue is a list with its
  front first. The locale \<open>outcome_window\<close> is the contract the breaker relies on, stated against
  the list of samples; its client lemmas say which outcomes a window holds after a run.
\<close>

section \<open>Model\<close>

type_synonym instant = nat
type_synonym duration = nat

definition MAX_WINDOW_ENTRIES :: nat where
  "MAX_WINDOW_ENTRIES = 10000"

record sliding_window =
  entries :: "(instant \<times> bool) list"
  failures :: nat

definition window_new :: sliding_window where
  "window_new = \<lparr>entries = [], failures = 0\<rparr>"

definition window_push :: "bool \<Rightarrow> instant \<Rightarrow> sliding_window \<Rightarrow> sliding_window" where
  "window_push is_failure now w =
     (let w1 = (if length (entries w) \<ge> MAX_WINDOW_ENTRIES
                then (case entries w of
                        [] \<Rightarrow> w
                      | (ts, was_failure) # es \<Rightarrow>
                          w\<lparr>entries := es,
                            failures := (if was_failure then failures w - 1 else failures w)\<rparr>)
                else w)
      in w1\<lparr>entries := entries w1 @ [(now, is_failure)],
            failures := (if is_failure then failures w1 + 1 else failures w1)\<rparr>)"

fun evict_loop :: "instant \<Rightarrow> (instant \<times> bool) list \<Rightarrow> nat \<Rightarrow> (instant \<times> bool) list \<times> nat" where
  "evict_loop cutoff [] f = ([], f)"
| "evict_loop cutoff ((ts, was_failure) # es) f =
     (if ts < cutoff then evict_loop cutoff es (if was_failure then f - 1 else f)
      else ((ts, was_failure) # es, f))"

definition checked_sub :: "instant \<Rightarrow> duration \<Rightarrow> instant option" where
  "checked_sub now d = (if d \<le> now then Some (now - d) else None)"

definition window_evict :: "duration \<Rightarrow> instant \<Rightarrow> sliding_window \<Rightarrow> sliding_window" where
  "window_evict d now w =
     (case checked_sub now d of
        None \<Rightarrow> w
      | Some cutoff \<Rightarrow>
          (let (es, f) = evict_loop cutoff (entries w) (failures w)
           in w\<lparr>entries := es, failures := f\<rparr>))"

definition error_rate :: "sliding_window \<Rightarrow> f64" where
  "error_rate w =
     (if entries w = [] then 0
      else f64_div (of_nat (failures w)) (of_nat (length (entries w))))"

definition sample_count :: "sliding_window \<Rightarrow> nat" where
  "sample_count w = length (entries w)"

definition window_clear :: "sliding_window \<Rightarrow> sliding_window" where
  "window_clear w = w\<lparr>entries := [], failures := 0\<rparr>"

text \<open>
  The representation invariant: the incremental counter is the number of failures in the queue,
  and the queue is within its cap.
\<close>

definition failure_count :: "(instant \<times> bool) list \<Rightarrow> nat" where
  "failure_count es = length (filter snd es)"

definition window_ok :: "sliding_window \<Rightarrow> bool" where
  "window_ok w \<longleftrightarrow>
     failures w = failure_count (entries w) \<and> length (entries w) \<le> MAX_WINDOW_ENTRIES"

section \<open>The interface\<close>

text \<open>
  What a client may assume: operations read as operations on the list of samples, oldest first.
\<close>

locale outcome_window =
  fixes new :: 'w
    and push :: "bool \<Rightarrow> instant \<Rightarrow> 'w \<Rightarrow> 'w"
    and evict :: "duration \<Rightarrow> instant \<Rightarrow> 'w \<Rightarrow> 'w"
    and clear :: "'w \<Rightarrow> 'w"
    and samples :: "'w \<Rightarrow> (instant \<times> bool) list"
    and invar :: "'w \<Rightarrow> bool"
    and cap :: nat
  assumes samples_new: "samples new = []"
    and samples_push: "invar w \<Longrightarrow> samples (push b t w) =
          (if length (samples w) < cap then samples w else tl (samples w)) @ [(t, b)]"
    and samples_evict: "invar w \<Longrightarrow>
          samples (evict d t w) = dropWhile (\<lambda>(ts, _). ts < t - d) (samples w)"
    and samples_clear: "samples (clear w) = []"
    and invar_new: "invar new"
    and invar_push: "invar w \<Longrightarrow> invar (push b t w)"
    and invar_evict: "invar w \<Longrightarrow> invar (evict d t w)"
    and invar_clear: "invar (clear w)"
begin

text \<open>Recording an outcome pushes it and evicts against the same instant.\<close>

fun observe :: "duration \<Rightarrow> 'w \<Rightarrow> (instant \<times> bool) list \<Rightarrow> 'w" where
  "observe d w [] = w"
| "observe d w ((t, b) # xs) = observe d (evict d t (push b t w)) xs"

lemma invar_observe: "invar w \<Longrightarrow> invar (observe d w xs)"
  by (induction d w xs rule: observe.induct) (auto simp: invar_push invar_evict)

lemma observe_append: "observe d w (xs @ ys) = observe d (observe d w xs) ys"
  by (induction d w xs rule: observe.induct) auto

lemma dropWhile_filter_sorted:
  "sorted (map fst xs) \<Longrightarrow> dropWhile (\<lambda>(ts, _). ts < c) xs = filter (\<lambda>(ts, _). c \<le> ts) xs"
proof (induction xs)
  case (Cons a xs)
  then show ?case
    by (cases a) (auto simp: not_less intro!: filter_True[symmetric])
qed simp

text \<open>
  A run with a monotonic clock that never fills the queue: the window then holds exactly the
  outcomes of the run that are at most \<open>d\<close> old at its last instant.
\<close>

lemma observe_exact:
  assumes "sorted (map fst (xs @ [(t, b)]))" and "length (xs @ [(t, b)]) \<le> cap"
  shows "samples (observe d new (xs @ [(t, b)])) =
    filter (\<lambda>(ts, _). t - d \<le> ts) (xs @ [(t, b)])"
  using assms
proof (induction xs arbitrary: t b rule: rev_induct)
  case Nil
  then show ?case by (simp add: samples_evict samples_push samples_new invar_new invar_push)
next
  case (snoc x xs)
  obtain s c where x: "x = (s, c)" by (cases x)
  let ?w = "observe d new (xs @ [(s, c)])"
  have sorted: "sorted (map fst (xs @ [(s, c)]))" and st: "s \<le> t"
    using snoc.prems by (auto simp: x sorted_append)
  have IH: "samples ?w = filter (\<lambda>(ts, _). s - d \<le> ts) (xs @ [(s, c)])"
    using snoc.IH[of s c] sorted snoc.prems by (simp add: x)
  have inv: "invar ?w" by (simp add: invar_observe invar_new)
  have "length (samples ?w) \<le> length (xs @ [(s, c)])" unfolding IH by (rule length_filter_le)
  then have len: "length (samples ?w) < cap" using snoc.prems by (simp add: x)
  have "samples (observe d new ((xs @ [x]) @ [(t, b)])) =
      dropWhile (\<lambda>(ts, _). ts < t - d) (samples ?w @ [(t, b)])"
    using inv len by (simp add: observe_append x samples_evict invar_push samples_push)
  also have "\<dots> = filter (\<lambda>(ts, _). t - d \<le> ts) (samples ?w @ [(t, b)])"
    using snoc.prems unfolding IH
    by (intro dropWhile_filter_sorted) (auto simp: x sorted_append intro: sorted_filter)
  also have "\<dots> = filter (\<lambda>(ts, _). t - d \<le> ts) ((xs @ [x]) @ [(t, b)])"
    using st unfolding IH by (auto simp: x filter_empty_conv intro!: filter_cong)
  finally show ?case .
qed

end

section \<open>The window implements the interface\<close>

lemma failure_count_simps [simp]:
  "failure_count [] = 0"
  "failure_count ((t, b) # es) = (if b then Suc (failure_count es) else failure_count es)"
  "failure_count (es @ es') = failure_count es + failure_count es'"
  by (simp_all add: failure_count_def)

lemma failure_count_le: "failure_count es \<le> length es"
  by (simp add: failure_count_def)

lemma evict_loop_spec:
  "evict_loop c es (failure_count es) =
     (let es' = dropWhile (\<lambda>(ts, _). ts < c) es in (es', failure_count es'))"
  by (induction c es "failure_count es" rule: evict_loop.induct) (auto simp: Let_def)

lemma window_evict_entries:
  "window_ok w \<Longrightarrow> entries (window_evict d t w) = dropWhile (\<lambda>(ts, _). ts < t - d) (entries w)"
  by (auto simp: window_evict_def checked_sub_def window_ok_def evict_loop_spec Let_def
      dropWhile_eq_self_iff split: list.splits)

lemma window_ok_evict: "window_ok w \<Longrightarrow> window_ok (window_evict d t w)"
  by (auto simp: window_evict_def checked_sub_def window_ok_def evict_loop_spec Let_def
      intro: order_trans[OF length_dropWhile_le])

lemma window_push_entries:
  "window_ok w \<Longrightarrow> entries (window_push b t w) =
     (if length (entries w) < MAX_WINDOW_ENTRIES then entries w else tl (entries w)) @ [(t, b)]"
  by (auto simp: window_push_def Let_def MAX_WINDOW_ENTRIES_def split: list.splits)

lemma window_ok_push: "window_ok w \<Longrightarrow> window_ok (window_push b t w)"
  by (auto simp: window_push_def window_ok_def Let_def MAX_WINDOW_ENTRIES_def split: list.splits)

interpretation win: outcome_window window_new window_push window_evict window_clear entries
  window_ok MAX_WINDOW_ENTRIES
  by unfold_locales
    (simp_all add: window_push_entries window_evict_entries window_ok_push window_ok_evict,
     simp_all add: window_new_def window_clear_def window_ok_def)

section \<open>Properties\<close>

text \<open>The window part of \<open>CircuitBreaker::record\<close>, over a run of timed outcomes.\<close>

fun window_run :: "duration \<Rightarrow> sliding_window \<Rightarrow> (instant \<times> bool) list \<Rightarrow> sliding_window" where
  "window_run d w [] = w"
| "window_run d w ((t, b) # xs) = window_run d (window_evict d t (window_push b t w)) xs"

lemma window_run_observe: "window_run d w xs = win.observe d w xs"
  by (induction d w xs rule: window_run.induct) auto

lemma window_ok_run: "window_ok w \<Longrightarrow> window_ok (window_run d w xs)"
  by (simp add: window_run_observe win.invar_observe)

lemma sample_count_bound: "window_ok w \<Longrightarrow> sample_count w \<le> MAX_WINDOW_ENTRIES"
  by (simp add: sample_count_def window_ok_def)

lemma error_rate_bounds: "window_ok w \<Longrightarrow> 0 \<le> error_rate w \<and> error_rate w \<le> 1"
proof -
  assume w: "window_ok w"
  have "f64_round (of_nat (failures w) / of_nat (length (entries w))) \<le> of_nat 1"
    using w failure_count_le[of "entries w"]
    by (intro f64_round_le_nat) (auto simp: window_ok_def divide_le_eq_1)
  then show ?thesis by (simp add: error_rate_def f64_div_def)
qed

lemma error_rate_half_iff:
  assumes "window_ok w" and "entries w \<noteq> []"
  shows "1 / 2 \<le> error_rate w \<longleftrightarrow> length (entries w) \<le> 2 * failure_count (entries w)"
  using assms f64_round_half_iff[of "length (entries w)" "failure_count (entries w)"]
  by (simp add: error_rate_def f64_div_def window_ok_def MAX_WINDOW_ENTRIES_def)

text \<open>
  After any run of recorded outcomes with a monotonic clock that does not fill the queue, the
  window holds exactly the outcomes that are no older than the window duration at the last one, in
  order, and the incremental counter is the number of failures among them.
\<close>

lemma window_holds_recent:
  assumes "sorted (map fst (xs @ [(t, b)]))" and "length (xs @ [(t, b)]) \<le> MAX_WINDOW_ENTRIES"
  shows "let w = window_run d window_new (xs @ [(t, b)]) in
    entries w = filter (\<lambda>(ts, _). t - d \<le> ts) (xs @ [(t, b)]) \<and>
    failures w = length (filter snd (entries w))"
  using win.observe_exact[OF assms(1,2), of d] window_ok_run[OF win.invar_new, of d "xs @ [(t, b)]"]
  by (simp add: window_run_observe window_ok_def failure_count_def Let_def)

lemma window_holds_recent_witness:
  "entries (window_run 5 window_new ([(1, True), (7, False)] @ [(9, True)])) =
     filter (\<lambda>(ts, _). 9 - 5 \<le> ts) ([(1, True), (7, False)] @ [(9, True)])"
  using window_holds_recent[of "[(1, True), (7, False)]" 9 True 5] by (simp add: MAX_WINDOW_ENTRIES_def Let_def)

end
