(* ===== verification/Breaker_Config.thy ===== *)
theory Breaker_Config
  imports Breaker_Window
begin

text \<open>
  Configuration and classification of the circuit breaker crate
  (\<open>crates/common/xai-circuit-breaker/src/\<close>): \<open>state.rs\<close>, \<open>config.rs\<close>, \<open>retry_policy.rs\<close> and
  \<open>grpc.rs\<close>. Durations are nanoseconds. A \<open>HashSet<u16>\<close> is a set of status codes. Environment
  look-up is a function argument, as it is in \<open>from_lookup_with_prefix\<close>; the standard library's
  parser of \<open>f64\<close> is an argument of the one definition that uses it.
\<close>

section \<open>State and outcome\<close>

datatype breaker_state = Closed | Open | HalfOpen

definition state_as_u8 :: "breaker_state \<Rightarrow> nat" where
  "state_as_u8 s = (case s of Closed \<Rightarrow> 0 | Open \<Rightarrow> 1 | HalfOpen \<Rightarrow> 2)"

text \<open>A release build: the \<open>debug_assert!\<close> of the invalid arm is off.\<close>

definition from_u8 :: "nat \<Rightarrow> breaker_state" where
  "from_u8 v = (if v = 0 then Closed else if v = 1 then Open else if v = 2 then HalfOpen else Closed)"

datatype outcome = Success | Failure

record breaker_open =
  retry_after :: duration

section \<open>Configuration\<close>

definition secs :: "nat \<Rightarrow> duration" where
  "secs n = n * 1000000000"

definition millis :: "nat \<Rightarrow> duration" where
  "millis n = n * 1000000"

record breaker_config =
  window_duration :: duration
  min_samples :: nat
  error_rate_threshold :: f64
  open_duration :: duration
  half_open_max_probes :: nat
  failure_codes :: "nat set"
  enabled :: bool

definition default_failure_codes :: "nat set" where
  "default_failure_codes = {429, 500, 502, 503, 504}"

definition config_server :: breaker_config where
  "config_server = \<lparr>window_duration = secs 60, min_samples = 10, error_rate_threshold = 1 / 2,
     open_duration = secs 10, half_open_max_probes = 1, failure_codes = default_failure_codes,
     enabled = True\<rparr>"

definition config_client :: breaker_config where
  "config_client = \<lparr>window_duration = secs 60, min_samples = 5, error_rate_threshold = 1 / 2,
     open_duration = secs 60, half_open_max_probes = 1, failure_codes = {401},
     enabled = True\<rparr>"

text \<open>
  \<open>str::parse\<close> for unsigned integers of at most \<open>mx\<close>: an optional plus sign and at least one
  digit, no overflow.
\<close>

definition parse_bool :: "ustr \<Rightarrow> bool option" where
  "parse_bool s =
     (if s = lit ''true'' then Some True else if s = lit ''false'' then Some False else None)"

definition lookup_or :: "(ustr \<Rightarrow> ustr option) \<Rightarrow> (ustr \<Rightarrow> 'v option) \<Rightarrow> ustr \<Rightarrow> 'v \<Rightarrow> 'v" where
  "lookup_or get parse key dflt =
     (case get key of
        Some v \<Rightarrow> (case parse v of Some parsed \<Rightarrow> parsed | None \<Rightarrow> dflt)
      | None \<Rightarrow> dflt)"

definition parse_failure_codes :: "ustr \<Rightarrow> nat set" where
  "parse_failure_codes s =
     set (List.map_filter (\<lambda>c. parse_uint 65535 (trim c)) (split_char 44 s))"

definition from_lookup_with_prefix ::
    "(ustr \<Rightarrow> f64 option) \<Rightarrow> ustr \<Rightarrow> (ustr \<Rightarrow> ustr option) \<Rightarrow> breaker_config" where
  "from_lookup_with_prefix parse_f64 pre get =
     (let key = (\<lambda>k. pre @ lit k);
          codes = (case get (key ''FAILURE_CODES'') of
                     Some raw \<Rightarrow>
                       (let cs = parse_failure_codes raw in
                        if cs = {} then default_failure_codes else cs)
                   | None \<Rightarrow> default_failure_codes)
      in \<lparr>window_duration = secs (lookup_or get (parse_uint u64_max) (key ''WINDOW_SECS'') 60),
          min_samples = lookup_or get (parse_uint u64_max) (key ''MIN_SAMPLES'') 10,
          error_rate_threshold = lookup_or get parse_f64 (key ''ERROR_RATE_THRESHOLD'') (1 / 2),
          open_duration = secs (lookup_or get (parse_uint u64_max) (key ''OPEN_DURATION_SECS'') 10),
          half_open_max_probes =
            max (lookup_or get (parse_uint u64_max) (key ''HALF_OPEN_MAX_PROBES'') 1) 1,
          failure_codes = codes,
          enabled = lookup_or get parse_bool (key ''ENABLED'') True\<rparr>)"

definition is_failure_status :: "breaker_config \<Rightarrow> nat \<Rightarrow> bool" where
  "is_failure_status cfg status \<longleftrightarrow> status \<in> failure_codes cfg"

section \<open>Retry policies\<close>

datatype disposition = Retryable | AuthRefresh | Terminal

record retry_policy =
  retryable :: "nat list"
  auth_refresh :: "nat list"
  terminal :: "nat list"
  default_disposition :: disposition

definition classify :: "retry_policy \<Rightarrow> nat \<Rightarrow> disposition option" where
  "classify p status =
     (if 200 \<le> status \<and> status < 300 then None
      else if status \<in> set (auth_refresh p) then Some AuthRefresh
      else if status \<in> set (terminal p) then Some Terminal
      else if status \<in> set (retryable p) \<or> (500 \<le> status \<and> status < 600) then Some Retryable
      else Some (default_disposition p))"

definition should_retry :: "retry_policy \<Rightarrow> nat \<Rightarrow> bool" where
  "should_retry p status \<longleftrightarrow> classify p status = Some Retryable"

definition policy_server :: retry_policy where
  "policy_server =
     \<lparr>retryable = [429], auth_refresh = [], terminal = [], default_disposition = Terminal\<rparr>"

definition policy_edge_client :: retry_policy where
  "policy_edge_client =
     \<lparr>retryable = [429], auth_refresh = [], terminal = [525, 526], default_disposition = Terminal\<rparr>"

definition policy_client_storage :: retry_policy where
  "policy_client_storage =
     \<lparr>retryable = [], auth_refresh = [401], terminal = [400, 403, 404, 525, 526],
      default_disposition = Retryable\<rparr>"

text \<open>
  The codes the policies name (\<open>tonic::Code\<close>, of the tonic crate) are a parameter: the type of codes
  and its values that the source mentions.
\<close>

record 'c grpc_codes =
  code_ok :: 'c
  code_unavailable :: 'c
  code_unknown :: 'c
  code_internal :: 'c
  code_deadline_exceeded :: 'c

record 'c grpc_retry_policy =
  grpc_retryable :: "'c list"

definition grpc_default :: "'c grpc_codes \<Rightarrow> 'c grpc_retry_policy" where
  "grpc_default g = \<lparr>grpc_retryable = [code_unavailable g, code_unknown g]\<rparr>"

definition grpc_permissive :: "'c grpc_codes \<Rightarrow> 'c grpc_retry_policy" where
  "grpc_permissive g =
     \<lparr>grpc_retryable = [code_unavailable g, code_unknown g, code_internal g, code_deadline_exceeded g]\<rparr>"

definition is_retryable :: "'c grpc_retry_policy \<Rightarrow> 'c \<Rightarrow> bool" where
  "is_retryable p c \<longleftrightarrow> c \<in> set (grpc_retryable p)"

definition grpc_classify :: "'c grpc_codes \<Rightarrow> 'c grpc_retry_policy \<Rightarrow> 'c \<Rightarrow> disposition option" where
  "grpc_classify g p code =
     (if code = code_ok g then None
      else if is_retryable p code then Some Retryable else Some Terminal)"

section \<open>Facts\<close>

lemma from_u8_roundtrip [simp]: "from_u8 (state_as_u8 s) = s"
  by (cases s) (simp_all add: from_u8_def state_as_u8_def)

lemma state_as_u8_eq_iff [simp]: "state_as_u8 s = state_as_u8 t \<longleftrightarrow> s = t"
  by (metis from_u8_roundtrip)

lemma from_lookup_probes: "1 \<le> half_open_max_probes (from_lookup_with_prefix pf pre get)"
  by (simp add: from_lookup_with_prefix_def Let_def)

lemma parse_failure_codes_nonempty:
  "failure_codes (from_lookup_with_prefix pf pre get) \<noteq> {}"
  by (auto simp: from_lookup_with_prefix_def Let_def default_failure_codes_def split: option.splits)

lemma lookup_or_default: "get key = None \<or> get key = Some v \<and> parse v = None \<Longrightarrow>
    lookup_or get parse key d = d"
  by (auto simp: lookup_or_def)

text \<open>With no variable set, the environment gives the server preset.\<close>

lemma from_lookup_empty: "from_lookup_with_prefix pf pre (\<lambda>_. None) = config_server"
  by (simp add: from_lookup_with_prefix_def lookup_or_def config_server_def Let_def)

lemma classify_total: "classify p status = None \<longleftrightarrow> 200 \<le> status \<and> status < 300"
  by (simp add: classify_def)

text \<open>The stated rule of each preset, for every status.\<close>

lemma server_retry_iff:
  "should_retry policy_server s \<longleftrightarrow> s = 429 \<or> (500 \<le> s \<and> s < 600)"
  by (auto simp: should_retry_def classify_def policy_server_def)

lemma edge_client_retry_iff:
  "should_retry policy_edge_client s \<longleftrightarrow> should_retry policy_server s \<and> s \<noteq> 525 \<and> s \<noteq> 526"
  by (auto simp: should_retry_def classify_def policy_server_def policy_edge_client_def)

lemma client_storage_classify:
  "classify policy_client_storage s =
     (if 200 \<le> s \<and> s < 300 then None
      else if s = 401 then Some AuthRefresh
      else if s \<in> {400, 403, 404, 525, 526} then Some Terminal
      else Some Retryable)"
  by (auto simp: classify_def policy_client_storage_def)

text \<open>Success is never retried, even by a policy that lists it.\<close>

lemma grpc_classify_iff:
  "grpc_classify g p c = Some Retryable \<longleftrightarrow> c \<noteq> code_ok g \<and> is_retryable p c"
  "is_retryable (grpc_default g) c \<Longrightarrow> is_retryable (grpc_permissive g) c"
  by (auto simp: grpc_classify_def is_retryable_def grpc_default_def grpc_permissive_def)

section \<open>Properties\<close>

text \<open>
  The classification each preset promises, for every status code: success codes have none; the
  server preset retries 429 and every 5xx; the edge preset the same except 525 and 526; the storage
  preset refreshes on 401, stops on the listed client errors and retries everything else.
\<close>

lemma retry_policies_rule:
  "(classify p s = None \<longleftrightarrow> 200 \<le> s \<and> s < 300) \<and>
   (should_retry policy_server s \<longleftrightarrow> s = 429 \<or> (500 \<le> s \<and> s < 600)) \<and>
   (should_retry policy_edge_client s \<longleftrightarrow> should_retry policy_server s \<and> s \<noteq> 525 \<and> s \<noteq> 526) \<and>
   classify policy_client_storage s =
     (if 200 \<le> s \<and> s < 300 then None
      else if s = 401 then Some AuthRefresh
      else if s \<in> {400, 403, 404, 525, 526} then Some Terminal
      else Some Retryable)"
  using classify_total server_retry_iff edge_client_retry_iff client_storage_classify by simp

text \<open>
  The settings of the environment, how a configuration is written there, and which values cannot be read. The standard
  library's parser and printer of \<open>f64\<close> are arguments.
\<close>

definition settings :: "string list" where
  "settings = [''WINDOW_SECS'', ''MIN_SAMPLES'', ''ERROR_RATE_THRESHOLD'', ''OPEN_DURATION_SECS'',
     ''HALF_OPEN_MAX_PROBES'', ''FAILURE_CODES'', ''ENABLED'']"

definition show_codes :: "nat set \<Rightarrow> ustr" where
  "show_codes codes = join [44] (map nat_str (sorted_list_of_set codes))"

definition written :: "(f64 \<Rightarrow> ustr) \<Rightarrow> breaker_config \<Rightarrow> string \<Rightarrow> ustr" where
  "written show_f64 c k =
     (if k = ''WINDOW_SECS'' then nat_str (window_duration c div 1000000000)
      else if k = ''MIN_SAMPLES'' then nat_str (min_samples c)
      else if k = ''ERROR_RATE_THRESHOLD'' then show_f64 (error_rate_threshold c)
      else if k = ''OPEN_DURATION_SECS'' then nat_str (open_duration c div 1000000000)
      else if k = ''HALF_OPEN_MAX_PROBES'' then nat_str (half_open_max_probes c)
      else if k = ''FAILURE_CODES'' then show_codes (failure_codes c)
      else if enabled c then lit ''true'' else lit ''false'')"

definition unreadable :: "(ustr \<Rightarrow> f64 option) \<Rightarrow> string \<Rightarrow> ustr \<Rightarrow> bool" where
  "unreadable parse_f64 k v \<longleftrightarrow>
     (if k = ''ERROR_RATE_THRESHOLD'' then parse_f64 v = None
      else if k = ''FAILURE_CODES'' then parse_failure_codes v = {}
      else if k = ''ENABLED'' then v \<noteq> lit ''true'' \<and> v \<noteq> lit ''false''
      else parse_uint u64_max v = None)"

definition preset_at :: "string set \<Rightarrow> breaker_config \<Rightarrow> breaker_config" where
  "preset_at ks c =
     \<lparr>window_duration = window_duration (if ''WINDOW_SECS'' \<in> ks then config_server else c),
      min_samples = min_samples (if ''MIN_SAMPLES'' \<in> ks then config_server else c),
      error_rate_threshold = error_rate_threshold (if ''ERROR_RATE_THRESHOLD'' \<in> ks then config_server else c),
      open_duration = open_duration (if ''OPEN_DURATION_SECS'' \<in> ks then config_server else c),
      half_open_max_probes = half_open_max_probes (if ''HALF_OPEN_MAX_PROBES'' \<in> ks then config_server else c),
      failure_codes = failure_codes (if ''FAILURE_CODES'' \<in> ks then config_server else c),
      enabled = enabled (if ''ENABLED'' \<in> ks then config_server else c)\<rparr>"

text \<open>A configuration the environment can hold: whole seconds, machine integers, a probe, status codes.\<close>

definition writable :: "breaker_config \<Rightarrow> bool" where
  "writable c \<longleftrightarrow>
     1000000000 dvd window_duration c \<and> window_duration c div 1000000000 \<le> u64_max \<and> min_samples c \<le> u64_max \<and>
     1000000000 dvd open_duration c \<and> open_duration c div 1000000000 \<le> u64_max \<and>
     1 \<le> half_open_max_probes c \<and> half_open_max_probes c \<le> u64_max \<and>
     failure_codes c \<noteq> {} \<and> (\<forall>s \<in> failure_codes c. s \<le> 65535)"

lemma parse_show_codes:
  assumes "codes \<noteq> {}" "\<forall>s \<in> codes. s \<le> 65535"
  shows "parse_failure_codes (show_codes codes) = codes"
proof -
  have fin: "finite codes" using assms(2) by (intro finite_subset[of codes "{..65535}"]) auto
  let ?ws = "map nat_str (sorted_list_of_set codes)"
  have digits: "\<forall>d \<in> set (nat_str n). is_ascii_digit d" "nat_str n \<noteq> []" for n
    using nat_str_digits[of n] by (simp_all add: list_all_iff)
  have ws: "is_ascii_digit d \<Longrightarrow> \<not> is_ws d" for d by (auto simp: is_ascii_digit_def is_ws_def)
  have plain: "44 \<notin> set (nat_str n)" "trim (nat_str n) = nat_str n" for n
    using digits[of n] ws by (auto simp: is_ascii_digit_def intro!: trim_id)
  have "?ws \<noteq> []" using fin assms(1) by simp
  then have "split_char 44 (show_codes codes) = ?ws"
    unfolding show_codes_def using plain(1) by (intro split_char_join) auto
  then show ?thesis
    using fin assms(2) by (auto simp: parse_failure_codes_def map_filter_def plain(2) parse_uint_nat_str)
qed

lemma lookup_or_mixed:
  assumes "k \<in> bad \<and> (\<forall>v. get key = Some v \<longrightarrow> parse v = None) \<or> k \<notin> bad \<and> get key = Some w" "parse w = Some x"
  shows "lookup_or get parse key d = (if k \<in> bad then d else x)"
  using assms by (auto simp: lookup_or_def split: option.splits)

text \<open>
  C38. Configuration from the environment: every configuration that can be written is read back as it was, and each
  setting stands for itself. Whatever mixture the environment holds, a setting whose value is missing or
  cannot be read has the value of the server preset, all others have what was written; variables that are
  not settings have no influence. And whatever the environment holds at all, there is at least one probe and one failure code.
\<close>

theorem from_lookup_robust:
  assumes "writable c" "parse_f64 (show_f64 (error_rate_threshold c)) = Some (error_rate_threshold c)"
    and "\<forall>k \<in> set settings. k \<in> bad \<and> (\<forall>v. get (pre @ lit k) = Some v \<longrightarrow> unreadable parse_f64 k v) \<or>
      k \<notin> bad \<and> get (pre @ lit k) = Some (written show_f64 c k)"
  shows "from_lookup_with_prefix parse_f64 pre get = preset_at bad c \<and>
    1 \<le> half_open_max_probes (from_lookup_with_prefix parse_f64 pre get') \<and>
    failure_codes (from_lookup_with_prefix parse_f64 pre get') \<noteq> {}"
proof -
  have s: "k \<in> bad \<and> (\<forall>v. get (pre @ lit k) = Some v \<longrightarrow> unreadable parse_f64 k v) \<or>
      k \<notin> bad \<and> get (pre @ lit k) = Some (written show_f64 c k)" if "k \<in> set settings" for k
    using assms(3) that by blast
  note w = assms(1)[unfolded writable_def]
  note mixed = lookup_or_mixed[where get = get and bad = bad]
  have l1: "lookup_or get (parse_uint u64_max) (pre @ lit ''WINDOW_SECS'') 60 =
      (if ''WINDOW_SECS'' \<in> bad then 60 else window_duration c div 1000000000)"
    using s[of "''WINDOW_SECS''"] w by (intro mixed) (auto simp: settings_def unreadable_def written_def parse_uint_nat_str)
  have l2: "lookup_or get (parse_uint u64_max) (pre @ lit ''MIN_SAMPLES'') 10 =
      (if ''MIN_SAMPLES'' \<in> bad then 10 else min_samples c)"
    using s[of "''MIN_SAMPLES''"] w by (intro mixed) (auto simp: settings_def unreadable_def written_def parse_uint_nat_str)
  have l3: "lookup_or get parse_f64 (pre @ lit ''ERROR_RATE_THRESHOLD'') (1 / 2) =
      (if ''ERROR_RATE_THRESHOLD'' \<in> bad then 1 / 2 else error_rate_threshold c)"
    using s[of "''ERROR_RATE_THRESHOLD''"] assms(2) by (intro mixed) (auto simp: settings_def unreadable_def written_def)
  have l4: "lookup_or get (parse_uint u64_max) (pre @ lit ''OPEN_DURATION_SECS'') 10 =
      (if ''OPEN_DURATION_SECS'' \<in> bad then 10 else open_duration c div 1000000000)"
    using s[of "''OPEN_DURATION_SECS''"] w by (intro mixed) (auto simp: settings_def unreadable_def written_def parse_uint_nat_str)
  have l5: "lookup_or get (parse_uint u64_max) (pre @ lit ''HALF_OPEN_MAX_PROBES'') 1 =
      (if ''HALF_OPEN_MAX_PROBES'' \<in> bad then 1 else half_open_max_probes c)"
    using s[of "''HALF_OPEN_MAX_PROBES''"] w by (intro mixed) (auto simp: settings_def unreadable_def written_def parse_uint_nat_str)
  have l6: "lookup_or get parse_bool (pre @ lit ''ENABLED'') True = (if ''ENABLED'' \<in> bad then True else enabled c)"
    using s[of "''ENABLED''"]
    by (intro mixed[where w = "if enabled c then lit ''true'' else lit ''false''" and x = "enabled c"])
      (auto simp: settings_def unreadable_def written_def parse_bool_def lit_inject)
  have l7: "(case get (pre @ lit ''FAILURE_CODES'') of
       Some raw \<Rightarrow> if parse_failure_codes raw = {} then default_failure_codes else parse_failure_codes raw
     | None \<Rightarrow> default_failure_codes) = (if ''FAILURE_CODES'' \<in> bad then default_failure_codes else failure_codes c)"
    using s[of "''FAILURE_CODES''"] w parse_show_codes[of "failure_codes c"]
    by (auto simp: settings_def unreadable_def written_def split: option.splits)
  have l8: "secs (window_duration c div 1000000000) = window_duration c" "secs (open_duration c div 1000000000) = open_duration c"
    using w by (simp_all add: secs_def)
  have "from_lookup_with_prefix parse_f64 pre get = preset_at bad c"
    unfolding from_lookup_with_prefix_def Let_def l1 l2 l3 l4 l5 l6 l7 preset_at_def config_server_def using l8 w by simp
  then show ?thesis using from_lookup_probes parse_failure_codes_nonempty by blast
qed

text \<open>The client preset written out, with one setting that cannot be read and one that is missing.\<close>

definition demo_vars :: "ustr \<Rightarrow> ustr option" where
  "demo_vars k =
     (if k = lit ''X_MIN_SAMPLES'' then Some (lit ''ten'')
      else if k = lit ''X_OPEN_DURATION_SECS'' then None
      else map_of (map (\<lambda>s. (lit ''X_'' @ lit s, written (\<lambda>_. lit ''0.5'') config_client s)) settings) k)"

theorem from_lookup_robust_witness:
  "from_lookup_with_prefix (\<lambda>v. if v = lit ''0.5'' then Some (1 / 2) else None) (lit ''X_'') demo_vars =
     config_client\<lparr>min_samples := 10, open_duration := secs 10\<rparr>"
proof -
  have ok: "writable config_client" by (simp add: writable_def config_client_def secs_def u64_max_def)
  have "from_lookup_with_prefix (\<lambda>v. if v = lit ''0.5'' then Some (1 / 2) else None) (lit ''X_'') demo_vars =
      preset_at {''MIN_SAMPLES'', ''OPEN_DURATION_SECS''} config_client"
    by (rule from_lookup_robust[where ?show_f64.0 = "\<lambda>_. lit ''0.5''", OF ok, THEN conjunct1])
      (simp_all add: settings_def demo_vars_def lit_def unreadable_def parse_uint_def is_ascii_digit_def config_client_def)
  then show ?thesis by (simp add: preset_at_def config_client_def config_server_def)
qed

end
