(* ===== verification/Circuit_Breaker.thy ===== *)
theory Circuit_Breaker
  imports Breaker_Config
begin

text \<open>
  The circuit breaker state machine and its registry
  (\<open>crates/common/xai-circuit-breaker/src/breaker.rs\<close>, \<open>registry.rs\<close>, \<open>observer.rs\<close>).

  Each operation is modelled whole, as it runs when no other thread interferes; the branches that
  another thread can cause (a lost compare-and-swap) are kept, since an operation may start in any
  state. \<open>Breaker_Concurrent\<close> interleaves the single atomic accesses. Where the source reads the
  clock more than once the operation takes one instant per reading. Callbacks of the installed
  observer are collected, in order, in the field \<open>callbacks\<close>.
\<close>

section \<open>Model\<close>

datatype observer_note =
    StateChange breaker_state breaker_state string
  | ProbeAdmission bool
  | OutcomeNote outcome breaker_state

record breaker =
  config :: breaker_config
  bstate :: breaker_state
  baseline :: instant
  opened_at_millis :: u64
  half_open_probes :: usize
  probe_claimed_at_millis :: u64
  is_open_fast :: bool
  window :: sliding_window
  callbacks :: "observer_note list"

definition with_clock :: "breaker_config \<Rightarrow> instant \<Rightarrow> breaker" where
  "with_clock cfg now =
     \<lparr>config = cfg\<lparr>half_open_max_probes := max (half_open_max_probes cfg) 1\<rparr>,
      bstate = Closed, baseline = now, opened_at_millis = 0, half_open_probes = 0,
      probe_claimed_at_millis = 0, is_open_fast = False, window = window_new, callbacks = []\<rparr>"

definition notify :: "observer_note \<Rightarrow> breaker \<Rightarrow> breaker" where
  "notify n b = b\<lparr>callbacks := callbacks b @ [n]\<rparr>"

definition elapsed_millis :: "breaker \<Rightarrow> instant \<Rightarrow> u64" where
  "elapsed_millis b now = as_u64 ((now - baseline b) div 1000000)"

definition is_open :: "breaker \<Rightarrow> bool" where
  "is_open b = is_open_fast b"

definition breaker_error_rate :: "breaker \<Rightarrow> instant \<Rightarrow> f64 \<times> breaker" where
  "breaker_error_rate b now =
     (let w = window_evict (window_duration (config b)) now (window b)
      in (error_rate w, b\<lparr>window := w\<rparr>))"

definition force_half_open :: "breaker \<Rightarrow> breaker" where
  "force_half_open b =
     (let prev = bstate b;
          b1 = b\<lparr>bstate := HalfOpen, is_open_fast := False, half_open_probes := 0\<rparr>
      in if prev \<noteq> HalfOpen then notify (StateChange prev HalfOpen ''force_half_open'') b1 else b1)"

definition trip :: "breaker_state \<Rightarrow> string \<Rightarrow> instant \<Rightarrow> breaker \<Rightarrow> breaker" where
  "trip prev reason now b =
     (let b1 = b\<lparr>bstate := Open, opened_at_millis := elapsed_millis b now,
                 half_open_probes := 0, is_open_fast := True\<rparr>
      in if prev \<noteq> Open then notify (StateChange prev Open reason) b1 else b1)"

definition close :: "breaker_state \<Rightarrow> string \<Rightarrow> breaker \<Rightarrow> breaker" where
  "close prev reason b =
     (let b1 = b\<lparr>bstate := Closed, window := window_clear (window b),
                 half_open_probes := 0, is_open_fast := False\<rparr>
      in if prev \<noteq> Closed then notify (StateChange prev Closed reason) b1 else b1)"

definition HALF_OPEN_PROBE_BACKOFF :: duration where
  "HALF_OPEN_PROBE_BACKOFF = millis 50"

definition lease_millis :: "breaker \<Rightarrow> u64" where
  "lease_millis b = as_u64 (open_duration (config b) div 1000000)"

text \<open>
  \<open>saturating_sub\<close> is subtraction on natural numbers. The \<open>fetch_add\<close> and \<open>fetch_sub\<close> wrap. The
  compare-and-swap of the claim is between the load just before it and its own write, so without
  interference it succeeds.
\<close>

definition try_half_open_probe :: "instant \<Rightarrow> breaker \<Rightarrow> (breaker_open + unit) \<times> breaker" where
  "try_half_open_probe t b =
     (let now = elapsed_millis b t;
          prev = half_open_probes b;
          b1 = b\<lparr>half_open_probes := wrap_inc64 prev\<rparr>
      in if prev < half_open_max_probes (config b)
         then (Inr (), notify (ProbeAdmission True) (b1\<lparr>probe_claimed_at_millis := now\<rparr>))
         else
           (let b2 = b1\<lparr>half_open_probes := wrap_dec64 (half_open_probes b1)\<rparr>;
                claimed = probe_claimed_at_millis b2
            in if now - claimed \<ge> lease_millis b
               then (Inr (), notify (ProbeAdmission True) (b2\<lparr>probe_claimed_at_millis := now\<rparr>))
               else (Inl \<lparr>retry_after = min HALF_OPEN_PROBE_BACKOFF (open_duration (config b))\<rparr>,
                     notify (ProbeAdmission False) b2)))"

definition cas_state :: "breaker_state \<Rightarrow> breaker_state \<Rightarrow> breaker \<Rightarrow> bool \<times> breaker" where
  "cas_state from to b = (if bstate b = from then (True, b\<lparr>bstate := to\<rparr>) else (False, b))"

text \<open>\<open>t1\<close>, \<open>t2\<close> and \<open>t3\<close> are the clock readings of \<open>check_open\<close>, of its retry and of the probe.\<close>

definition check_open ::
    "instant \<Rightarrow> instant \<Rightarrow> instant \<Rightarrow> breaker \<Rightarrow> (breaker_open + unit) \<times> breaker" where
  "check_open t1 t2 t3 b =
     (let elapsed = millis (elapsed_millis b t1 - opened_at_millis b) in
      if elapsed \<ge> open_duration (config b)
      then
        (case cas_state Open HalfOpen b of
           (True, b1) \<Rightarrow>
             try_half_open_probe t3
               (notify (StateChange Open HalfOpen ''open_elapsed'') (b1\<lparr>is_open_fast := False\<rparr>))
         | (False, b1) \<Rightarrow>
             (case bstate b1 of
                Closed \<Rightarrow> (Inr (), b1)
              | HalfOpen \<Rightarrow> try_half_open_probe t3 b1
              | Open \<Rightarrow>
                  (let elapsed2 = millis (elapsed_millis b1 t2 - opened_at_millis b1)
                   in (Inl \<lparr>retry_after = open_duration (config b1) - elapsed2\<rparr>, b1))))
      else (Inl \<lparr>retry_after = open_duration (config b) - elapsed\<rparr>, b))"

definition check ::
    "instant \<Rightarrow> instant \<Rightarrow> instant \<Rightarrow> breaker \<Rightarrow> (breaker_open + unit) \<times> breaker" where
  "check t1 t2 t3 b =
     (if \<not> enabled (config b) then (Inr (), b)
      else (case bstate b of
              Closed \<Rightarrow> (Inr (), b)
            | Open \<Rightarrow> check_open t1 t2 t3 b
            | HalfOpen \<Rightarrow> try_half_open_probe t3 b))"

definition should_trip :: "breaker_config \<Rightarrow> sliding_window \<Rightarrow> bool" where
  "should_trip cfg w \<longleftrightarrow>
     sample_count w \<ge> min_samples cfg \<and> error_rate w \<ge> error_rate_threshold cfg"

text \<open>\<open>t1\<close> is the reading at the start of \<open>record\<close>, \<open>t2\<close> the one of \<open>trip\<close>.\<close>

definition record_outcome :: "instant \<Rightarrow> instant \<Rightarrow> outcome \<Rightarrow> breaker \<Rightarrow> breaker" where
  "record_outcome t1 t2 outcome b =
     (if \<not> enabled (config b) then b
      else
        (let is_failure = (outcome = Failure);
             w = window_evict (window_duration (config b)) t1 (window_push is_failure t1 (window b));
             b1 = (case bstate b of
                     Closed \<Rightarrow>
                       if should_trip (config b) w
                       then trip Closed ''trip'' t2 (b\<lparr>window := w\<rparr>)
                       else b\<lparr>window := w\<rparr>
                   | HalfOpen \<Rightarrow>
                       if is_failure then trip HalfOpen ''probe_failure'' t2 b
                       else close HalfOpen ''probe_success'' b
                   | Open \<Rightarrow> b\<lparr>window := w\<rparr>)
         in notify (OutcomeNote outcome (bstate b1)) b1))"

section \<open>Registry\<close>

text \<open>
  Breakers are shared objects: the registry maps a key to the address of its breaker in a store,
  and \<open>get\<close> hands out the address (the \<open>Arc\<close>).
\<close>

record registry =
  reg_config :: breaker_config
  breakers :: "ustr \<rightharpoonup> nat"
  store :: "breaker list"

definition registry_new :: "breaker_config \<Rightarrow> registry" where
  "registry_new cfg = \<lparr>reg_config = cfg, breakers = Map.empty, store = []\<rparr>"

definition registry_get :: "instant \<Rightarrow> ustr \<Rightarrow> registry \<Rightarrow> nat option \<times> registry" where
  "registry_get now key r =
     (if \<not> enabled (reg_config r) then (None, r)
      else (case breakers r key of
              Some a \<Rightarrow> (Some a, r)
            | None \<Rightarrow>
                (let a = length (store r)
                 in (Some a, r\<lparr>breakers := (breakers r)(key \<mapsto> a),
                               store := store r @ [with_clock (reg_config r) now]\<rparr>))))"

section \<open>Invariant\<close>

text \<open>
  What the fields agree on between operations: the mirror says whether the state is \<open>Open\<close>; probe
  slots are only taken in \<open>HalfOpen\<close>, at most the configured number; the window is well formed.
\<close>

definition breaker_ok :: "breaker \<Rightarrow> bool" where
  "breaker_ok b \<longleftrightarrow>
     is_open_fast b = (bstate b = Open) \<and>
     half_open_probes b \<le> half_open_max_probes (config b) \<and>
     (bstate b \<noteq> HalfOpen \<longrightarrow> half_open_probes b = 0) \<and>
     1 \<le> half_open_max_probes (config b) \<and> half_open_max_probes (config b) < 2 ^ 64 \<and>
     window_ok (window b)"

inductive breaker_step :: "breaker \<Rightarrow> breaker \<Rightarrow> bool" where
  step_check: "breaker_step b (snd (check t1 t2 t3 b))"
| step_record: "breaker_step b (record_outcome t1 t2 oc b)"
| step_error_rate: "breaker_step b (snd (breaker_error_rate b t))"
| step_force: "breaker_step b (force_half_open b)"

inductive breaker_reachable :: "breaker_config \<Rightarrow> breaker \<Rightarrow> bool" for cfg where
  reach_init: "half_open_max_probes cfg < 2 ^ 64 \<Longrightarrow> breaker_reachable cfg (with_clock cfg t)"
| reach_step: "breaker_reachable cfg b \<Longrightarrow> breaker_step b b' \<Longrightarrow> breaker_reachable cfg b'"

inductive_cases breaker_stepE: "breaker_step b b'"

section \<open>Facts\<close>

lemma notify_simps [simp]:
  "config (notify n b) = config b" "bstate (notify n b) = bstate b"
  "baseline (notify n b) = baseline b" "opened_at_millis (notify n b) = opened_at_millis b"
  "half_open_probes (notify n b) = half_open_probes b"
  "probe_claimed_at_millis (notify n b) = probe_claimed_at_millis b"
  "is_open_fast (notify n b) = is_open_fast b" "window (notify n b) = window b"
  "callbacks (notify n b) = callbacks b @ [n]"
  by (simp_all add: notify_def)

lemma elapsed_millis_simps [simp]:
  "elapsed_millis (notify n b) = elapsed_millis b"
  "elapsed_millis (b\<lparr>half_open_probes := p\<rparr>) = elapsed_millis b"
  "elapsed_millis (b\<lparr>probe_claimed_at_millis := c\<rparr>) = elapsed_millis b"
  "elapsed_millis (b\<lparr>bstate := s\<rparr>) = elapsed_millis b"
  "elapsed_millis (b\<lparr>is_open_fast := f\<rparr>) = elapsed_millis b"
  by (simp_all add: elapsed_millis_def fun_eq_iff)

lemma lease_millis_simps [simp]:
  "lease_millis (notify n b) = lease_millis b"
  "lease_millis (b\<lparr>half_open_probes := p\<rparr>) = lease_millis b"
  "lease_millis (b\<lparr>probe_claimed_at_millis := c\<rparr>) = lease_millis b"
  "lease_millis (b\<lparr>bstate := s\<rparr>) = lease_millis b"
  "lease_millis (b\<lparr>is_open_fast := f\<rparr>) = lease_millis b"
  by (simp_all add: lease_millis_def)

lemma breaker_ok_notify [simp]: "breaker_ok (notify n b) = breaker_ok b"
  by (simp add: breaker_ok_def)

lemma wrap_dec_inc: "n < 2 ^ 64 \<Longrightarrow> wrap_dec64 (wrap_inc64 n) = n"
  by (cases "n + 1 = 2 ^ 64") (auto simp: wrap_inc64_def wrap_dec64_def u64_max_def)

lemma trip_ok: "breaker_ok b \<Longrightarrow> breaker_ok (trip p r t b)"
  by (auto simp: trip_def breaker_ok_def Let_def)

lemma close_ok: "breaker_ok b \<Longrightarrow> breaker_ok (close p r b)"
  by (auto simp: close_def breaker_ok_def Let_def win.invar_clear)

lemma try_half_open_probe_ok:
  assumes "breaker_ok b" and "bstate b = HalfOpen"
  shows "breaker_ok (snd (try_half_open_probe t b))"
proof -
  have "half_open_probes b < 2 ^ 64" using assms by (auto simp: breaker_ok_def)
  then have "wrap_dec64 (wrap_inc64 (half_open_probes b)) = half_open_probes b" by (rule wrap_dec_inc)
  moreover have "half_open_probes b < half_open_max_probes (config b) \<Longrightarrow>
      wrap_inc64 (half_open_probes b) \<le> half_open_max_probes (config b)"
    using assms by (auto simp: breaker_ok_def wrap_inc64_def)
  ultimately show ?thesis
    using assms by (auto simp: try_half_open_probe_def breaker_ok_def Let_def)
qed

lemma enter_half_open_ok:
  "breaker_ok b \<Longrightarrow> bstate b = Open \<Longrightarrow> breaker_ok (b\<lparr>bstate := HalfOpen, is_open_fast := False\<rparr>)"
  by (simp add: breaker_ok_def)

lemma check_open_ok:
  assumes "breaker_ok b" and "bstate b = Open"
  shows "breaker_ok (snd (check_open t1 t2 t3 b))"
  using assms
  by (auto simp: check_open_def cas_state_def Let_def intro!: try_half_open_probe_ok enter_half_open_ok)

lemma check_ok: "breaker_ok b \<Longrightarrow> breaker_ok (snd (check t1 t2 t3 b))"
  by (auto simp: check_def check_open_ok try_half_open_probe_ok split: breaker_state.splits)

lemma window_update_ok: "breaker_ok b \<Longrightarrow> window_ok w \<Longrightarrow> breaker_ok (b\<lparr>window := w\<rparr>)"
  by (simp add: breaker_ok_def)

lemma breaker_ok_window: "breaker_ok b \<Longrightarrow> window_ok (window b)"
  by (simp add: breaker_ok_def)

lemmas breaker_ok_intros =
  trip_ok close_ok window_update_ok win.invar_evict win.invar_push breaker_ok_window

lemma record_ok: "breaker_ok b \<Longrightarrow> breaker_ok (record_outcome t1 t2 oc b)"
  by (auto simp: record_outcome_def Let_def breaker_ok_intros split: breaker_state.splits)

lemma force_ok: "breaker_ok b \<Longrightarrow> breaker_ok (force_half_open b)"
  by (auto simp: force_half_open_def breaker_ok_def Let_def)

lemma breaker_step_ok: "breaker_step b b' \<Longrightarrow> breaker_ok b \<Longrightarrow> breaker_ok b'"
  by (auto elim!: breaker_stepE simp: check_ok record_ok force_ok breaker_error_rate_def Let_def
      breaker_ok_intros)

lemma with_clock_ok: "half_open_max_probes cfg < 2 ^ 64 \<Longrightarrow> breaker_ok (with_clock cfg t)"
  by (simp add: breaker_ok_def with_clock_def win.invar_new)

lemma reachable_ok: "breaker_reachable cfg b \<Longrightarrow> breaker_ok b"
  by (induction rule: breaker_reachable.induct) (auto simp: with_clock_ok breaker_step_ok)


section \<open>Behaviour of the operations\<close>

lemma check_disabled: "\<not> enabled (config b) \<Longrightarrow> check t1 t2 t3 b = (Inr (), b)"
  by (simp add: check_def)

lemma record_disabled: "\<not> enabled (config b) \<Longrightarrow> record_outcome t1 t2 oc b = b"
  by (simp add: record_outcome_def)

lemma probe_free_slot:
  "half_open_probes b < half_open_max_probes (config b) \<Longrightarrow>
     try_half_open_probe t b =
       (Inr (), notify (ProbeAdmission True)
          (b\<lparr>half_open_probes := wrap_inc64 (half_open_probes b),
             probe_claimed_at_millis := elapsed_millis b t\<rparr>))"
  by (simp add: try_half_open_probe_def Let_def)

lemma probe_no_slot:
  assumes "half_open_max_probes (config b) \<le> half_open_probes b" "half_open_probes b < 2 ^ 64"
  shows "try_half_open_probe t b =
    (if lease_millis b \<le> elapsed_millis b t - probe_claimed_at_millis b
     then (Inr (), notify (ProbeAdmission True) (b\<lparr>probe_claimed_at_millis := elapsed_millis b t\<rparr>))
     else (Inl \<lparr>retry_after = min HALF_OPEN_PROBE_BACKOFF (open_duration (config b))\<rparr>,
           notify (ProbeAdmission False) b))"
  using assms wrap_dec_inc[OF assms(2)] by (simp add: try_half_open_probe_def Let_def)

lemma lease_le: "open_duration (config b) \<le> millis x \<Longrightarrow> lease_millis b \<le> x"
proof -
  assume "open_duration (config b) \<le> millis x"
  then have "open_duration (config b) div 1000000 \<le> x" by (simp add: millis_def)
  then show ?thesis by (metis as_u64_def lease_millis_def mod_less_eq_dividend order_trans)
qed

text \<open>A probe is admitted once a slot is free or the last claim is older than the lease.\<close>

lemma probe_admitted:
  assumes "breaker_ok b" and "lease_millis b \<le> elapsed_millis b t - probe_claimed_at_millis b"
  shows "fst (try_half_open_probe t b) = Inr ()"
    and "bstate (snd (try_half_open_probe t b)) = bstate b"
    and "config (snd (try_half_open_probe t b)) = config b"
proof -
  have "half_open_probes b < 2 ^ 64" using assms(1) by (auto simp: breaker_ok_def)
  then show "fst (try_half_open_probe t b) = Inr ()"
    "bstate (snd (try_half_open_probe t b)) = bstate b"
    "config (snd (try_half_open_probe t b)) = config b"
    using assms(2) probe_free_slot[of b t] probe_no_slot[of b t]
    by (cases "half_open_probes b < half_open_max_probes (config b)"; simp)+
qed

lemma check_open_elapsed:
  assumes "bstate b = Open" and "open_duration (config b) \<le> millis (elapsed_millis b t1 - opened_at_millis b)"
  shows "check_open t1 t2 t3 b =
    try_half_open_probe t3 (notify (StateChange Open HalfOpen ''open_elapsed'')
      (b\<lparr>bstate := HalfOpen, is_open_fast := False\<rparr>))"
  using assms by (simp add: check_open_def cas_state_def Let_def)

lemma record_success_half_open:
  "enabled (config b) \<Longrightarrow> bstate b = HalfOpen \<Longrightarrow>
     record_outcome t1 t2 Success b =
       notify (OutcomeNote Success Closed) (close HalfOpen ''probe_success'' b)"
  by (simp add: record_outcome_def Let_def close_def)

text \<open>\<open>n\<close> callers in a row that consult a half-open breaker at the instants \<open>ts\<close>.\<close>

fun admissions :: "instant list \<Rightarrow> breaker \<Rightarrow> nat" where
  "admissions [] b = 0"
| "admissions (t # ts) b =
     (case try_half_open_probe t b of
        (Inr _, b') \<Rightarrow> Suc (admissions ts b')
      | (Inl _, b') \<Rightarrow> admissions ts b')"

lemma admissions_no_slot:
  assumes "half_open_probes b < 2 ^ 64" and "half_open_max_probes (config b) \<le> half_open_probes b"
    and "\<forall>t \<in> set ts. elapsed_millis b t - probe_claimed_at_millis b < lease_millis b"
  shows "admissions ts b = 0"
  using assms
proof (induction ts arbitrary: b)
  case (Cons t ts)
  then show ?case
    by (simp add: probe_no_slot elapsed_millis_def lease_millis_def)
qed simp

text \<open>
  While no claim reaches its lease, exactly the free slots are handed out, whatever the number of
  callers.
\<close>

lemma admissions_exact:
  assumes "half_open_max_probes (config b) < 2 ^ 64"
    and "half_open_probes b \<le> half_open_max_probes (config b)"
    and "\<forall>t \<in> set ts. elapsed_millis b t < lo + lease_millis b"
    and "\<forall>t \<in> set ts. lo \<le> elapsed_millis b t" and "lo \<le> probe_claimed_at_millis b"
  shows "admissions ts b = min (length ts) (half_open_max_probes (config b) - half_open_probes b)"
  using assms
proof (induction ts arbitrary: b)
  case (Cons t ts)
  show ?case
  proof (cases "half_open_probes b < half_open_max_probes (config b)")
    case True
    let ?b = "notify (ProbeAdmission True) (b\<lparr>half_open_probes := wrap_inc64 (half_open_probes b),
      probe_claimed_at_millis := elapsed_millis b t\<rparr>)"
    have inc: "wrap_inc64 (half_open_probes b) = Suc (half_open_probes b)"
      using True Cons.prems(1) by (simp add: wrap_inc64_def)
    have "admissions ts ?b =
        min (length ts) (half_open_max_probes (config ?b) - half_open_probes ?b)"
      using Cons.prems True by (intro Cons.IH) (auto simp: inc)
    then show ?thesis using True by (simp add: probe_free_slot inc)
  next
    case False
    then have "admissions (t # ts) b = 0"
      using Cons.prems by (intro admissions_no_slot) fastforce+
    with False show ?thesis by simp
  qed
qed simp

lemma trip_bstate [simp]: "bstate (trip p r t b) = Open"
  by (simp add: trip_def Let_def)

lemma record_closed_state:
  assumes "enabled (config b)" "bstate b = Closed"
  shows "bstate (record_outcome t1 t2 oc b) =
    (if should_trip (config b)
          (window_evict (window_duration (config b)) t1 (window_push (oc = Failure) t1 (window b)))
     then Open else Closed)"
  using assms by (simp add: record_outcome_def Let_def)

text \<open>With the threshold one half of both presets, the rounded comparison is exact.\<close>

lemma should_trip_half:
  assumes "window_ok w" "error_rate_threshold cfg = 1 / 2" "0 < min_samples cfg"
  shows "should_trip cfg w \<longleftrightarrow>
    min_samples cfg \<le> length (entries w) \<and> length (entries w) \<le> 2 * failure_count (entries w)"
proof (cases "entries w = []")
  case True
  with assms show ?thesis by (simp add: should_trip_def sample_count_def error_rate_def)
next
  case False
  from error_rate_half_iff[OF assms(1) this] show ?thesis
    unfolding should_trip_def sample_count_def assms(2) by blast
qed

section \<open>Registry facts\<close>

definition registry_ok :: "registry \<Rightarrow> bool" where
  "registry_ok r \<longleftrightarrow> (\<forall>k a. breakers r k = Some a \<longrightarrow> a < length (store r)) \<and>
     inj_on (breakers r) (dom (breakers r))"

lemma registry_new_ok: "registry_ok (registry_new cfg)"
  by (simp add: registry_ok_def registry_new_def)

lemma registry_get_ok: "registry_ok r \<Longrightarrow> registry_ok (snd (registry_get now key r))"
  by (auto simp: registry_ok_def registry_get_def Let_def inj_on_def split: option.splits)
     (metis less_SucI less_irrefl_nat)+

lemma registry_get_enabled:
  "enabled (reg_config r) \<Longrightarrow>
     \<exists>a. fst (registry_get now key r) = Some a \<and> breakers (snd (registry_get now key r)) key = Some a"
  by (auto simp: registry_get_def Let_def split: option.splits)

lemma registry_get_config [simp]: "reg_config (snd (registry_get now key r)) = reg_config r"
  by (auto simp: registry_get_def Let_def split: option.splits)

section \<open>Properties\<close>



text \<open>
  While the cool-down of an open breaker runs, \<open>check\<close> sheds the call, changes nothing, and tells
  the caller exactly the time that is left, which is not zero.
\<close>

lemma check_sheds_while_open:
  assumes "enabled (config b)" and "bstate b = Open"
    and "millis (elapsed_millis b t1 - opened_at_millis b) < open_duration (config b)"
  shows "check t1 t2 t3 b =
    (Inl \<lparr>retry_after = open_duration (config b) - millis (elapsed_millis b t1 - opened_at_millis b)\<rparr>, b)
    \<and> 0 < open_duration (config b) - millis (elapsed_millis b t1 - opened_at_millis b)"
  using assms by (simp add: check_def check_open_def Let_def)

definition open_breaker :: breaker where
  "open_breaker = trip Closed ''trip'' 0 (with_clock config_server 0)"

lemma open_breaker_simps [simp]:
  "enabled (config open_breaker)" "bstate open_breaker = Open" "opened_at_millis open_breaker = 0"
  "elapsed_millis open_breaker t = as_u64 (t div 1000000)"
  "open_duration (config open_breaker) = secs 10"
  "breaker_ok open_breaker" "half_open_max_probes (config open_breaker) = 1"
  "half_open_probes open_breaker = 0"
  by (simp_all add: open_breaker_def trip_def with_clock_def config_server_def elapsed_millis_def
      Let_def breaker_ok_def win.invar_new as_u64_def)

lemma check_sheds_while_open_witness:
  "check 3000000000 3000000000 3000000000 open_breaker = (Inl \<lparr>retry_after = secs 7\<rparr>, open_breaker)"
  using check_sheds_while_open[of open_breaker 3000000000 3000000000 3000000000]
  by (simp add: as_u64_def secs_def millis_def)

text \<open>
  Once the cool-down has elapsed, the next \<open>check\<close> moves the breaker to half-open, takes the first
  probe slot and admits the call.
\<close>

lemma check_probes_after_cooldown:
  assumes "breaker_ok b" and "enabled (config b)" and "bstate b = Open"
    and "open_duration (config b) \<le> millis (elapsed_millis b t1 - opened_at_millis b)"
  shows "fst (check t1 t2 t3 b) = Inr () \<and> bstate (snd (check t1 t2 t3 b)) = HalfOpen \<and>
    half_open_probes (snd (check t1 t2 t3 b)) = 1 \<and> \<not> is_open (snd (check t1 t2 t3 b))"
proof -
  have "half_open_probes b = 0" "0 < half_open_max_probes (config b)"
    using assms by (auto simp: breaker_ok_def)
  then show ?thesis
    using assms by (simp add: check_def check_open_elapsed probe_free_slot is_open_def wrap_inc64_def)
qed

lemma check_probes_after_cooldown_witness:
  "fst (check 10000000000 10000000000 10000000000 open_breaker) = Inr ()"
  using check_probes_after_cooldown[of open_breaker 10000000000 10000000000 10000000000]
  by (simp add: as_u64_def secs_def millis_def)

text \<open>
  In a half-open period in which no claim reaches its lease, exactly the free probe slots are
  handed out, however many callers ask.
\<close>

lemma half_open_admissions:
  assumes "half_open_max_probes (config b) < 2 ^ 64"
    and "half_open_probes b \<le> half_open_max_probes (config b)"
    and "\<forall>t \<in> set ts. elapsed_millis b t < lo + lease_millis b"
    and "\<forall>t \<in> set ts. lo \<le> elapsed_millis b t" and "lo \<le> probe_claimed_at_millis b"
  shows "admissions ts b = min (length ts) (half_open_max_probes (config b) - half_open_probes b)"
  using assms by (rule admissions_exact)

lemma half_open_admissions_witness:
  "admissions [0, 1000000, 2000000] (open_breaker\<lparr>bstate := HalfOpen\<rparr>) = 1"
proof -
  have "\<forall>t \<in> set [0, 1000000, 2000000]. elapsed_millis (open_breaker\<lparr>bstate := HalfOpen\<rparr>) t <
      0 + lease_millis (open_breaker\<lparr>bstate := HalfOpen\<rparr>)"
    by (simp add: as_u64_def lease_millis_def secs_def)
  then show ?thesis
    using half_open_admissions[of "open_breaker\<lparr>bstate := HalfOpen\<rparr>" "[0, 1000000, 2000000]" 0] by simp
qed

text \<open>
  C37. Recovery: a breaker that is not closed always heals. When the cool-down (open) or the lease of
  the last claim (half-open, whatever happened to earlier probes) has run out, the next call is
  admitted, and recording its success closes the breaker, empties the window and frees the slots.
\<close>

theorem breaker_recovers:
  assumes "breaker_ok b" and "enabled (config b)" and "bstate b \<noteq> Closed"
    and "bstate b = Open \<longrightarrow> open_duration (config b) \<le> millis (elapsed_millis b t1 - opened_at_millis b)"
    and "bstate b = HalfOpen \<longrightarrow>
      open_duration (config b) \<le> millis (elapsed_millis b t3 - probe_claimed_at_millis b)"
  shows "let (r, b1) = check t1 t2 t3 b; b2 = record_outcome t4 t5 Success b1 in
    r = Inr () \<and> bstate b2 = Closed \<and> entries (window b2) = [] \<and> half_open_probes b2 = 0 \<and>
    \<not> is_open b2"
proof -
  define b1 where "b1 = snd (check t1 t2 t3 b)"
  have "fst (check t1 t2 t3 b) = Inr () \<and> bstate b1 = HalfOpen \<and> config b1 = config b"
  proof (cases "bstate b = Open")
    case True
    have "half_open_probes b = 0" "0 < half_open_max_probes (config b)"
      using assms(1) True by (auto simp: breaker_ok_def)
    then show ?thesis
      using True assms(2,4) by (simp add: b1_def check_def check_open_elapsed probe_free_slot)
  next
    case False
    then have "bstate b = HalfOpen" using assms(3) by (cases "bstate b") auto
    then show ?thesis
      using assms(2,5) probe_admitted[OF assms(1) lease_le, of t3] by (simp add: b1_def check_def)
  qed
  then show ?thesis
    using assms(2)
    by (simp add: b1_def case_prod_beta record_success_half_open close_def window_clear_def is_open_def
        Let_def)
qed

theorem breaker_recovers_witness:
  "bstate (record_outcome 10000000001 10000000001 Success
     (snd (check 10000000000 10000000000 10000000000 open_breaker))) = Closed"
  using breaker_recovers[of open_breaker 10000000000 10000000000 10000000000 10000000001 10000000001]
  by (simp add: as_u64_def secs_def millis_def case_prod_beta Let_def)

text \<open>
  With the threshold of one half that both presets and the environment default use, a closed
  breaker trips on a recorded outcome exactly when the window, after the outcome is added and old ones
  are evicted, has the minimum number of samples and at least half of them are failures: the rounding
  of the floating-point error rate never changes the decision.
\<close>

lemma presets_trip_at_half:
  assumes "breaker_ok b" and "enabled (config b)" and "bstate b = Closed"
    and "error_rate_threshold (config b) = 1 / 2" and "0 < min_samples (config b)"
  shows "let es = entries (window_evict (window_duration (config b)) t1
      (window_push (oc = Failure) t1 (window b))) in
    bstate (record_outcome t1 t2 oc b) =
    (if min_samples (config b) \<le> length es \<and> length es \<le> 2 * failure_count es then Open else Closed)"
proof -
  have "window_ok (window_evict (window_duration (config b)) t1 (window_push (oc = Failure) t1 (window b)))"
    using assms(1) by (simp add: breaker_ok_intros)
  from should_trip_half[OF this assms(4,5)] show ?thesis
    unfolding record_closed_state[OF assms(2,3)] by (simp add: Let_def)
qed

definition busy_breaker :: breaker where
  "busy_breaker = (with_clock (config_server\<lparr>min_samples := 2\<rparr>) 0)
     \<lparr>window := window_push True 5 window_new\<rparr>"

lemma presets_trip_at_half_witness:
  "bstate (record_outcome 9 9 Success busy_breaker) = Open"
proof -
  have "breaker_ok busy_breaker"
    by (simp add: busy_breaker_def with_clock_def breaker_ok_def config_server_def breaker_ok_intros
        win.invar_new)
  from presets_trip_at_half[OF this, of 9 Success 9] show ?thesis
    by (simp add: busy_breaker_def with_clock_def config_server_def window_push_def window_new_def
        window_evict_def checked_sub_def secs_def MAX_WINDOW_ENTRIES_def Let_def)
qed

text \<open>
  The error rate, computed from the incremental counter with floating-point division, is always
  between 0 and 1, in every reachable state of the breaker.
\<close>

lemma error_rate_in_range:
  assumes "breaker_reachable cfg b"
  shows "0 \<le> fst (breaker_error_rate b t) \<and> fst (breaker_error_rate b t) \<le> 1"
proof -
  have "window_ok (window_evict (window_duration (config b)) t (window b))"
    using reachable_ok[OF assms] by (simp add: breaker_ok_intros)
  from error_rate_bounds[OF this] show ?thesis by (simp add: breaker_error_rate_def Let_def)
qed

lemma error_rate_in_range_witness:
  "0 \<le> fst (breaker_error_rate (with_clock config_server 0) 4)"
  using error_rate_in_range[OF reach_init[of config_server 0], of 4] by (simp add: config_server_def)

text \<open>
  The registry gives one breaker per key: asking again for a key returns the same breaker without
  creating another, and different keys have different breakers.
\<close>

lemma registry_one_breaker_per_key:
  assumes "registry_ok r" and "enabled (reg_config r)"
    and "registry_get t1 k1 r = (a1, r1)" and "registry_get t2 k2 r1 = (a2, r2)"
  shows "a1 \<noteq> None \<and> (a1 = a2 \<longleftrightarrow> k1 = k2) \<and> (k1 = k2 \<longrightarrow> r2 = r1) \<and> registry_ok r2"
proof -
  have ok: "registry_ok r1" "registry_ok r2"
    using assms registry_get_ok by (metis snd_conv)+
  have f1: "a1 \<noteq> None \<and> breakers r1 k1 = a1"
    using registry_get_enabled[OF assms(2), of t1 k1] assms(3) by auto
  have cfg: "enabled (reg_config r1)" using assms(2,3) registry_get_config by (metis snd_conv)
  have f2: "breakers r2 k2 = a2" "a2 \<noteq> None"
    using registry_get_enabled[OF cfg, of t2 k2] assms(4) by auto
  have keep: "breakers r2 k1 = a1"
    using assms(4) f1 cfg by (auto simp: registry_get_def Let_def split: option.splits if_splits)
  have "k1 = k2 \<Longrightarrow> r2 = r1"
    using assms(4) f1 cfg by (auto simp: registry_get_def split: option.splits if_splits)
  moreover have "k1 = k2" if "a1 = a2"
    using ok(2) keep f2 that unfolding registry_ok_def inj_on_def by (metis domIff)
  ultimately show ?thesis using f1 f2 keep ok by auto
qed

lemma registry_one_breaker_per_key_witness:
  "let r1 = snd (registry_get 0 [97] (registry_new config_server)) in
   fst (registry_get 0 [97] (registry_new config_server)) \<noteq> fst (registry_get 0 [98] r1)"
proof -
  have "enabled (reg_config (registry_new config_server))"
    by (simp add: registry_new_def config_server_def)
  from registry_one_breaker_per_key[OF registry_new_ok this prod.collapse[symmetric]
      prod.collapse[symmetric], of 0 "[97]" 0 "[98]"]
  show ?thesis by (simp add: Let_def)
qed

end
