(* ===== verification/Breaker_Concurrent.thy ===== *)
theory Breaker_Concurrent
  imports Circuit_Breaker
begin

text \<open>
  The circuit breaker at the granularity of its atomic accesses
  (\<open>crates/common/xai-circuit-breaker/src/breaker.rs\<close>).

  Threads run \<open>check\<close> or \<open>record\<close>; each step of a thread is one load, store, read-modify-write or
  compare-and-swap of the source, or one critical section of the window mutex, and threads are
  interleaved arbitrarily. The shared state is the \<open>breaker\<close> record (its fields are the atomics of
  \<open>CircuitBreakerInner\<close>), so the step functions read as the lines they model. Clock readings are
  chosen by the environment. Accesses are sequentially consistent; the weaker orderings of the
  source allow at least these interleavings.
\<close>

section \<open>Model\<close>

text \<open>How a \<open>check\<close> call came to return \<open>Ok\<close>.\<close>

datatype admission = ByClosed | BySlot | ByLease

datatype pc =
    Idle
  \<comment> \<open>\<open>check\<close>\<close>
  | CheckState
  | OpenLoadOpened
  | OpenCompare u64
  | OpenCas
  | OpenStoreFast
  | OpenReload
  | OpenReject
  \<comment> \<open>\<open>try_half_open_probe\<close>; the argument is \<open>now\<close>\<close>
  | ProbeNow
  | ProbeAdd u64
  | ProbeStoreClaim u64
  | ProbeSub u64
  | ProbeLoadClaim u64
  | ProbeCasClaim u64 u64
  \<comment> \<open>\<open>record\<close>\<close>
  | RecordState outcome
  | RecordWindow outcome bool
  | TripState breaker_state
  | TripOpenedAt
  | TripProbes
  | TripFast
  | CloseState
  | CloseWindow
  | CloseProbes
  | CloseFast
  \<comment> \<open>returned\<close>
  | Admitted admission
  | Rejected
  | Recorded

text \<open>
  One step of one thread at clock reading \<open>t\<close>. A thread that has returned stays where it is; a
  fresh call is started by the \<open>start\<close> rules of the step relation.
\<close>

fun thread_step :: "instant \<Rightarrow> pc \<Rightarrow> breaker \<Rightarrow> pc \<times> breaker" where
  "thread_step t Idle b = (Idle, b)"
| "thread_step t CheckState b =
     ((case bstate b of Closed \<Rightarrow> Admitted ByClosed | Open \<Rightarrow> OpenLoadOpened | HalfOpen \<Rightarrow> ProbeNow), b)"
| "thread_step t OpenLoadOpened b = (OpenCompare (opened_at_millis b), b)"
| "thread_step t (OpenCompare opened) b =
     ((if open_duration (config b) \<le> millis (elapsed_millis b t - opened)
       then OpenCas else Rejected), b)"
| "thread_step t OpenCas b =
     (case cas_state Open HalfOpen b of
        (True, b1) \<Rightarrow> (OpenStoreFast, b1)
      | (False, b1) \<Rightarrow> (OpenReload, b1))"
| "thread_step t OpenStoreFast b = (ProbeNow, b\<lparr>is_open_fast := False\<rparr>)"
| "thread_step t OpenReload b =
     ((case bstate b of Closed \<Rightarrow> Admitted ByClosed | HalfOpen \<Rightarrow> ProbeNow | Open \<Rightarrow> OpenReject), b)"
| "thread_step t OpenReject b = (Rejected, b)"
| "thread_step t ProbeNow b = (ProbeAdd (elapsed_millis b t), b)"
| "thread_step t (ProbeAdd now) b =
     ((if half_open_probes b < half_open_max_probes (config b)
       then ProbeStoreClaim now else ProbeSub now),
      b\<lparr>half_open_probes := wrap_inc64 (half_open_probes b)\<rparr>)"
| "thread_step t (ProbeStoreClaim now) b = (Admitted BySlot, b\<lparr>probe_claimed_at_millis := now\<rparr>)"
| "thread_step t (ProbeSub now) b =
     (ProbeLoadClaim now, b\<lparr>half_open_probes := wrap_dec64 (half_open_probes b)\<rparr>)"
| "thread_step t (ProbeLoadClaim now) b =
     ((if lease_millis b \<le> now - probe_claimed_at_millis b
       then ProbeCasClaim (probe_claimed_at_millis b) now else Rejected), b)"
| "thread_step t (ProbeCasClaim claimed now) b =
     (if probe_claimed_at_millis b = claimed
      then (Admitted ByLease, b\<lparr>probe_claimed_at_millis := now\<rparr>) else (Rejected, b))"
| "thread_step t (RecordState oc) b =
     ((case bstate b of
         Closed \<Rightarrow> RecordWindow oc True
       | HalfOpen \<Rightarrow> if oc = Failure then TripState HalfOpen else CloseState
       | Open \<Rightarrow> RecordWindow oc False), b)"
| "thread_step t (RecordWindow oc may_trip) b =
     (let w = window_evict (window_duration (config b)) t
                (window_push (oc = Failure) t (window b))
      in ((if may_trip \<and> should_trip (config b) w then TripState Closed else Recorded),
          b\<lparr>window := w\<rparr>))"
| "thread_step t (TripState prev) b = (TripOpenedAt, b\<lparr>bstate := Open\<rparr>)"
| "thread_step t TripOpenedAt b = (TripProbes, b\<lparr>opened_at_millis := elapsed_millis b t\<rparr>)"
| "thread_step t TripProbes b = (TripFast, b\<lparr>half_open_probes := 0\<rparr>)"
| "thread_step t TripFast b = (Recorded, b\<lparr>is_open_fast := True\<rparr>)"
| "thread_step t CloseState b = (CloseWindow, b\<lparr>bstate := Closed\<rparr>)"
| "thread_step t CloseWindow b = (CloseProbes, b\<lparr>window := window_clear (window b)\<rparr>)"
| "thread_step t CloseProbes b = (CloseFast, b\<lparr>half_open_probes := 0\<rparr>)"
| "thread_step t CloseFast b = (Recorded, b\<lparr>is_open_fast := False\<rparr>)"
| "thread_step t (Admitted how) b = (Admitted how, b)"
| "thread_step t Rejected b = (Rejected, b)"
| "thread_step t Recorded b = (Recorded, b)"

record system =
  threads :: "pc list"
  shared :: breaker

definition finished :: "pc \<Rightarrow> bool" where
  "finished p \<longleftrightarrow> p \<in> {Idle, Rejected, Recorded} \<or> (\<exists>how. p = Admitted how)"

inductive sys_step :: "system \<Rightarrow> system \<Rightarrow> bool" where
  start_check: "i < length (threads s) \<Longrightarrow> finished (threads s ! i) \<Longrightarrow>
     sys_step s (s\<lparr>threads := (threads s)[i := CheckState]\<rparr>)"
| start_record: "i < length (threads s) \<Longrightarrow> finished (threads s ! i) \<Longrightarrow>
     sys_step s (s\<lparr>threads := (threads s)[i := RecordState oc]\<rparr>)"
| run: "i < length (threads s) \<Longrightarrow> thread_step t (threads s ! i) (shared s) = (p, b) \<Longrightarrow>
     sys_step s (s\<lparr>threads := (threads s)[i := p], shared := b\<rparr>)"

inductive sys_reachable :: "system \<Rightarrow> system \<Rightarrow> bool" for s0 where
  sys_init: "sys_reachable s0 s0"
| sys_next: "sys_reachable s0 s \<Longrightarrow> sys_step s s' \<Longrightarrow> sys_reachable s0 s'"

section \<open>Slot accounting between two resets\<close>

text \<open>
  A period of probing: any number of threads, each making any sequence of \<open>check\<close> and \<open>record\<close> calls, up to the
  moment at which a recorded outcome stores zero in the counter. The number says how many slots were taken
  in the period, that is how many \<open>fetch_add\<close>s found a free one.
\<close>

definition resets :: "pc \<Rightarrow> bool" where
  "resets p \<longleftrightarrow> p \<in> {TripProbes, CloseProbes}"

definition takes_slot :: "pc \<Rightarrow> pc \<Rightarrow> bool" where
  "takes_slot p q \<longleftrightarrow> (\<exists>now. p = ProbeAdd now \<and> q = ProbeStoreClaim now)"

inductive probe_period :: "system \<Rightarrow> nat \<Rightarrow> system \<Rightarrow> bool" for s0 where
  begins: "probe_period s0 0 s0"
| calls_check: "probe_period s0 n s \<Longrightarrow> i < length (threads s) \<Longrightarrow> finished (threads s ! i) \<Longrightarrow>
    probe_period s0 n (s\<lparr>threads := (threads s)[i := CheckState]\<rparr>)"
| calls_record: "probe_period s0 n s \<Longrightarrow> i < length (threads s) \<Longrightarrow> finished (threads s ! i) \<Longrightarrow>
    probe_period s0 n (s\<lparr>threads := (threads s)[i := RecordState oc]\<rparr>)"
| runs: "probe_period s0 n s \<Longrightarrow> i < length (threads s) \<Longrightarrow> \<not> resets (threads s ! i) \<Longrightarrow>
    thread_step t (threads s ! i) (shared s) = (p, b) \<Longrightarrow>
    probe_period s0 (n + (if takes_slot (threads s ! i) p then 1 else 0))
      (s\<lparr>threads := (threads s)[i := p], shared := b\<rparr>)"

lemma probe_period_reachable: "probe_period s0 n s \<Longrightarrow> sys_reachable s0 s"
  by (induction rule: probe_period.induct) (auto intro: sys_init sys_next sys_step.intros)

text \<open>A thread between a failed \<open>fetch_add\<close> and its \<open>fetch_sub\<close> is counted once too often.\<close>

fun overcounts :: "pc \<Rightarrow> bool" where
  "overcounts (ProbeSub now) = True"
| "overcounts _ = False"

definition count_pc :: "(pc \<Rightarrow> bool) \<Rightarrow> pc list \<Rightarrow> nat" where
  "count_pc P ps = length (filter P ps)"

lemma count_pc_update:
  "i < length ps \<Longrightarrow>
     count_pc P (ps[i := p]) + (if P (ps ! i) then 1 else 0) = count_pc P ps + (if P p then 1 else 0)"
  unfolding count_pc_def
proof (induction ps arbitrary: i)
  case (Cons q ps)
  then show ?case by (cases i) (auto split: if_splits)
qed simp

lemma count_pc_le: "count_pc P ps \<le> length ps"
  by (simp add: count_pc_def)

definition probe_limit :: "system \<Rightarrow> nat" where
  "probe_limit s = half_open_max_probes (config (shared s))"

definition period_inv :: "nat \<Rightarrow> system \<Rightarrow> bool" where
  "period_inv n s \<longleftrightarrow>
     half_open_probes (shared s) = n + count_pc overcounts (threads s) \<and> n \<le> probe_limit s \<and>
     (count_pc overcounts (threads s) \<noteq> 0 \<longrightarrow> n = probe_limit s) \<and> probe_limit s + length (threads s) + 1 < 2 ^ 64"

text \<open>What one step does to the counter, as a function of the program counters only.\<close>

lemma step_frame:
  assumes "thread_step t p b = (p', b')" and "\<not> resets p"
  shows "config b' = config b"
    "\<not> (\<exists>n. p = ProbeAdd n) \<Longrightarrow> \<not> overcounts p' \<and> \<not> takes_slot p p'"
    "\<not> (\<exists>n. p = ProbeAdd n) \<Longrightarrow> \<not> overcounts p \<Longrightarrow> half_open_probes b' = half_open_probes b"
    "overcounts p \<Longrightarrow> half_open_probes b' = wrap_dec64 (half_open_probes b)"
  using assms
  by (cases p; auto simp: cas_state_def resets_def takes_slot_def Let_def split: breaker_state.splits if_splits prod.splits)+

text \<open>The read-modify-write of \<open>try_half_open_probe\<close>: a slot is taken only while one is free.\<close>

lemma period_inv_add:
  assumes inv: "period_inv n s" and i: "i < length (threads s)" and p: "threads s ! i = ProbeAdd now"
    and step: "thread_step t (threads s ! i) (shared s) = (q, b)"
  shows "period_inv (n + (if takes_slot (threads s ! i) q then 1 else 0))
    (s\<lparr>threads := (threads s)[i := q], shared := b\<rparr>)"
proof -
  let ?b = "shared s"
  have q: "q = (if half_open_probes ?b < probe_limit s then ProbeStoreClaim now else ProbeSub now)"
    and b: "b = ?b\<lparr>half_open_probes := wrap_inc64 (half_open_probes ?b)\<rparr>"
    using step p by (auto simp: probe_limit_def)
  have over: "count_pc overcounts (threads s) \<le> length (threads s)" by (rule count_pc_le)
  have inc: "wrap_inc64 (half_open_probes ?b) = Suc (half_open_probes ?b)"
    using inv over by (simp add: period_inv_def wrap_inc64_def)
  have overs: "count_pc overcounts ((threads s)[i := q]) = count_pc overcounts (threads s) + (if overcounts q then 1 else 0)"
    using count_pc_update[OF i, of overcounts q] by (simp add: p)
  show ?thesis
  proof (cases "half_open_probes ?b < probe_limit s")
    case True
    with inv overs inc show ?thesis by (simp add: period_inv_def b q p takes_slot_def probe_limit_def)
  next
    case False
    with inv have "n = probe_limit s" by (auto simp: period_inv_def)
    with False inv overs inc show ?thesis by (simp add: period_inv_def b q p takes_slot_def probe_limit_def)
  qed
qed

lemma period_inv_other:
  assumes inv: "period_inv n s" and i: "i < length (threads s)" and p: "\<not> (\<exists>now. threads s ! i = ProbeAdd now)"
    and nr: "\<not> resets (threads s ! i)" and step: "thread_step t (threads s ! i) (shared s) = (q, b)"
  shows "period_inv n (s\<lparr>threads := (threads s)[i := q], shared := b\<rparr>)"
proof -
  note frame = step_frame[OF step nr]
  have overs: "count_pc overcounts ((threads s)[i := q]) + (if overcounts (threads s ! i) then 1 else 0) =
      count_pc overcounts (threads s)"
    using count_pc_update[OF i, of overcounts q] frame(2)[OF p] by simp
  show ?thesis
  proof (cases "overcounts (threads s ! i)")
    case True
    with inv overs frame(1) frame(4)[OF True] show ?thesis by (auto simp: period_inv_def probe_limit_def wrap_dec64_def)
  next
    case False
    with inv overs frame(1) frame(3)[OF p False] show ?thesis by (auto simp: period_inv_def probe_limit_def)
  qed
qed

lemma period_inv_call:
  assumes "period_inv n s" and i: "i < length (threads s)" and "finished (threads s ! i)" and "\<not> overcounts p"
  shows "period_inv n (s\<lparr>threads := (threads s)[i := p]\<rparr>)"
proof -
  have "\<not> overcounts (threads s ! i)" using assms(3) by (auto simp: finished_def)
  with assms count_pc_update[OF i, of overcounts p] show ?thesis by (simp add: period_inv_def probe_limit_def)
qed

lemma probe_period_inv: "probe_period s0 n s \<Longrightarrow> period_inv 0 s0 \<Longrightarrow> period_inv n s \<and> probe_limit s = probe_limit s0"
proof (induction rule: probe_period.induct)
  case (calls_check n s i)
  then show ?case using period_inv_call[of n s i CheckState] by (simp add: probe_limit_def)
next
  case (calls_record n s i oc)
  then show ?case using period_inv_call[of n s i "RecordState oc"] by (simp add: probe_limit_def)
next
  case (runs n s i t p b)
  then have inv: "period_inv n s" and "probe_limit s = probe_limit s0" by simp_all
  moreover have "period_inv (n + (if takes_slot (threads s ! i) p then 1 else 0)) (s\<lparr>threads := (threads s)[i := p], shared := b\<rparr>)"
  proof (cases "\<exists>now. threads s ! i = ProbeAdd now")
    case True
    then show ?thesis using period_inv_add[OF inv runs.hyps(2) _ runs.hyps(4)] by blast
  next
    case False
    then show ?thesis
      using period_inv_other[OF inv runs.hyps(2) False runs.hyps(3,4)] step_frame(2)[OF runs.hyps(4,3) False] by simp
  qed
  ultimately show ?case using step_frame(1)[OF runs.hyps(4,3)] by (simp add: probe_limit_def)
qed simp

section \<open>Executable schedules\<close>

datatype cmd = StartCheck | StartRecord outcome | Run instant

fun exec_cmd :: "nat \<times> cmd \<Rightarrow> system \<Rightarrow> system option" where
  "exec_cmd (i, StartCheck) s =
     (if i < length (threads s) \<and> finished (threads s ! i)
      then Some (s\<lparr>threads := (threads s)[i := CheckState]\<rparr>) else None)"
| "exec_cmd (i, StartRecord oc) s =
     (if i < length (threads s) \<and> finished (threads s ! i)
      then Some (s\<lparr>threads := (threads s)[i := RecordState oc]\<rparr>) else None)"
| "exec_cmd (i, Run t) s =
     (if i < length (threads s)
      then (let (p, b) = thread_step t (threads s ! i) (shared s)
            in Some (s\<lparr>threads := (threads s)[i := p], shared := b\<rparr>)) else None)"

fun exec_all :: "(nat \<times> cmd) list \<Rightarrow> system \<Rightarrow> system option" where
  "exec_all [] s = Some s"
| "exec_all (c # cs) s = Option.bind (exec_cmd c s) (exec_all cs)"

lemma exec_cmd_step: "exec_cmd c s = Some s' \<Longrightarrow> sys_step s s'"
  by (induction c s rule: exec_cmd.induct)
    (auto split: if_splits prod.splits intro: sys_step.intros)

lemma exec_all_reachable: "exec_all cs s = Some s' \<Longrightarrow> sys_reachable s0 s \<Longrightarrow> sys_reachable s0 s'"
proof (induction cs arbitrary: s)
  case (Cons c cs)
  then obtain u where "exec_cmd c s = Some u" "exec_all cs u = Some s'"
    by (auto simp: Option.bind_eq_Some_conv)
  with Cons.IH[of u] Cons.prems(2) show ?case by (blast intro: sys_next exec_cmd_step)
qed simp


text \<open>The same for a period, counting the slots that are taken.\<close>

fun period_cmd :: "nat \<times> cmd \<Rightarrow> nat \<times> system \<Rightarrow> (nat \<times> system) option" where
  "period_cmd (i, c) (n, s) =
     (if i < length (threads s) \<and> resets (threads s ! i) then None
      else map_option (\<lambda>s'. (n + (if takes_slot (threads s ! i) (threads s' ! i) then 1 else 0), s')) (exec_cmd (i, c) s))"

fun period_all :: "(nat \<times> cmd) list \<Rightarrow> nat \<times> system \<Rightarrow> (nat \<times> system) option" where
  "period_all [] x = Some x"
| "period_all (c # cs) x = Option.bind (period_cmd c x) (period_all cs)"

lemma period_cmd_period:
  assumes "period_cmd (i, c) (n, s) = Some (n', s')" "probe_period s0 n s"
  shows "probe_period s0 n' s'"
proof (cases c)
  case (Run t)
  obtain p b where p: "thread_step t (threads s ! i) (shared s) = (p, b)" by (meson surj_pair)
  with assms Run have "i < length (threads s)" "\<not> resets (threads s ! i)" "s' = s\<lparr>threads := (threads s)[i := p], shared := b\<rparr>"
    "n' = n + (if takes_slot (threads s ! i) p then 1 else 0)"
    by (auto split: if_splits)
  then show ?thesis using runs[OF assms(2) _ _ p] by simp
qed (use assms in \<open>auto simp: takes_slot_def finished_def split: if_splits intro: calls_check calls_record\<close>)

lemma period_all_period: "period_all cs (n, s) = Some (n', s') \<Longrightarrow> probe_period s0 n s \<Longrightarrow> probe_period s0 n' s'"
proof (induction cs arbitrary: n s)
  case (Cons c cs)
  then obtain m u where "period_cmd c (n, s) = Some (m, u)" "period_all cs (m, u) = Some (n', s')"
    by (auto simp: Option.bind_eq_Some_conv)
  with Cons.IH[of m u] Cons.prems(2) show ?case by (metis period_cmd_period prod.exhaust)
qed simp

section \<open>A rejected probe can undercut a reset\<close>

text \<open>
  Thread 0 trips the breaker, waits out the cool-down and holds the only probe slot. Thread 1 then
  finds no slot (its \<open>fetch_add\<close> made the counter 2), and before its \<open>fetch_sub\<close> thread 0 records
  the failure of the probe, which stores 0. The \<open>fetch_sub\<close> wraps.
\<close>

definition race_config :: breaker_config where
  "race_config = config_client\<lparr>min_samples := 1\<rparr>"

definition race_init :: system where
  "race_init = \<lparr>threads = [Idle, Idle], shared = with_clock race_config 0\<rparr>"

definition race_schedule :: "(nat \<times> cmd) list" where
  "race_schedule =
     [(0, StartRecord Failure), (0, Run 0), (0, Run 0), (0, Run 0), (0, Run 0), (0, Run 0), (0, Run 0),
      (0, StartCheck), (0, Run 60000000000), (0, Run 60000000000), (0, Run 60000000000), (0, Run 60000000000),
      (0, Run 60000000000), (0, Run 60000000000), (0, Run 60000000000), (0, Run 60000000000),
      (1, StartCheck), (1, Run 61000000000), (1, Run 61000000000), (1, Run 61000000000),
      (0, StartRecord Failure),
      (0, Run 62000000000), (0, Run 62000000000), (0, Run 62000000000), (0, Run 62000000000), (0, Run 62000000000),
      (1, Run 63000000000), (1, Run 63000000000)]"

section \<open>Properties\<close>

text \<open>
  C35. Between two resets of the counter the probe slots are exact. Start anywhere with a counter of zero and no thread
  inside a failed claim, and let any number of threads make any sequence of \<open>check\<close> and \<open>record\<close> calls, interleaved
  in any way at single atomic accesses, until a recorded outcome is about to store zero in the counter: at most the
  configured number of slots is taken; a thread is turned away to the lease only when all of them are taken; and whenever no
  thread is inside a failed claim, the counter is the number of slots taken. Across a reset this does not
  hold, as the lemma after it shows.
\<close>

theorem concurrent_probe_slots:
  assumes "half_open_probes (shared s0) = 0" and "\<forall>p \<in> set (threads s0). \<not> overcounts p"
    and "probe_limit s0 + length (threads s0) + 1 < 2 ^ 64" and "probe_period s0 n s"
  shows "n \<le> probe_limit s0 \<and>
    (\<forall>p \<in> set (threads s). overcounts p \<longrightarrow> n = probe_limit s0) \<and>
    ((\<forall>p \<in> set (threads s). \<not> overcounts p) \<longrightarrow> half_open_probes (shared s) = n)"
proof -
  have none: "count_pc overcounts ps = 0 \<longleftrightarrow> (\<forall>p \<in> set ps. \<not> overcounts p)" for ps
    by (auto simp: count_pc_def filter_empty_conv)
  have "period_inv 0 s0" using assms(1-3) none[of "threads s0"] by (simp add: period_inv_def)
  from probe_period_inv[OF assms(4) this] show ?thesis using none[of "threads s"] by (auto simp: period_inv_def)
qed

text \<open>
  Two threads and one slot: the first takes it, the second is inside a failed claim, and the first has recorded the failure
  of its probe as far as the new state.
\<close>

definition probe_init :: system where
  "probe_init = \<lparr>threads = [Idle, Idle], shared = (with_clock config_client 0)\<lparr>bstate := HalfOpen\<rparr>\<rparr>"

definition probe_schedule :: "(nat \<times> cmd) list" where
  "probe_schedule =
     [(0, StartCheck), (0, Run 0), (0, Run 0), (0, Run 0), (0, Run 0), (1, StartCheck), (1, Run 0), (1, Run 0), (1, Run 0),
      (0, StartRecord Failure), (0, Run 0), (0, Run 0)]"

lemma probe_schedule_period:
  "\<exists>s. probe_period probe_init 1 s \<and> threads s = [TripOpenedAt, ProbeSub 0] \<and> half_open_probes (shared s) = 2"
proof -
  have "\<exists>s. period_all probe_schedule (0, probe_init) = Some (1, s) \<and> threads s = [TripOpenedAt, ProbeSub 0] \<and>
      half_open_probes (shared s) = 2"
    by (simp add: probe_schedule_def probe_init_def with_clock_def config_client_def finished_def resets_def takes_slot_def
        elapsed_millis_def as_u64_def millis_def wrap_inc64_def)
  then show ?thesis using period_all_period[OF _ begins] by blast
qed

theorem concurrent_probe_slots_witness:
  "\<exists>s. probe_period probe_init 1 s \<and> threads s = [TripOpenedAt, ProbeSub 0] \<and> probe_limit probe_init = 1"
proof -
  obtain s where s: "probe_period probe_init 1 s" "threads s = [TripOpenedAt, ProbeSub 0]" using probe_schedule_period by blast
  have "1 = probe_limit probe_init"
    using concurrent_probe_slots[OF _ _ _ s(1)] s(2)
    by (simp add: probe_init_def probe_limit_def with_clock_def config_client_def)
  with s show ?thesis by auto
qed

text \<open>
  Across a reset the counter does not stay exact: from a fresh breaker with the client
  preset (and a minimum of one sample) two threads can reach a state in which no operation is running,
  the breaker is open, and the probe counter has wrapped to its maximum, because the decrement of a
  rejected probe ran after the trip had reset the counter.
\<close>

lemma rejected_probe_wraps_counter:
  "\<exists>s. sys_reachable race_init s \<and> list_all finished (threads s) \<and>
     bstate (shared s) = Open \<and> half_open_probes (shared s) = u64_max"
proof -
  have f1: "f64_round 1 = 1" using f64_round_of_nat[of 1] by simp
  have "\<exists>s. exec_all race_schedule race_init = Some s \<and> bstate (shared s) = Open \<and>
      threads s = [Recorded, Rejected] \<and> half_open_probes (shared s) = u64_max"
    by (simp add: race_schedule_def race_init_def with_clock_def race_config_def config_client_def
        finished_def window_new_def window_push_def MAX_WINDOW_ENTRIES_def window_evict_def
        checked_sub_def secs_def should_trip_def sample_count_def error_rate_def f64_div_def f1
        elapsed_millis_def as_u64_def millis_def cas_state_def lease_millis_def
        HALF_OPEN_PROBE_BACKOFF_def wrap_inc64_def wrap_dec64_def)
  then obtain s where s: "exec_all race_schedule race_init = Some s" "bstate (shared s) = Open"
      "threads s = [Recorded, Rejected]" "half_open_probes (shared s) = u64_max" by blast
  then show ?thesis
    using exec_all_reachable[OF s(1) sys_init] by (auto simp: finished_def)
qed

end
