(* ===== verification/Patch_Parser.thy ===== *)
theory Patch_Parser
  imports Rust_Prelude
begin

text \<open>
  The parser of the \<open>apply_patch\<close> tool
  (\<open>xai-grok-tools/src/implementations/codex/apply_patch/parser.rs\<close>, \<open>errors.rs\<close>).

  A slice of lines is a list of lines; a parser returns what it read and how many lines it took.
  Every loop is a recursion on the remaining lines; the loop over the chunks of an update and the
  loop over the hunks of a patch end because each call consumes at least one line, which is proved
  before they are defined. \<open>print_patch\<close> writes patches in the documented grammar; parsing inverts it.
\<close>

section \<open>Types and markers\<close>

datatype parse_error =
    InvalidPatchError ustr
  | InvalidHunkError ustr usize

record update_file_chunk =
  change_context :: "ustr option"
  old_lines :: "ustr list"
  new_lines :: "ustr list"
  is_end_of_file :: bool

datatype hunk =
    AddFile ustr ustr
  | DeleteFile ustr
  | UpdateFile ustr "ustr option" "update_file_chunk list"

record parsed_patch =
  hunks :: "hunk list"
  patch :: ustr

datatype parse_mode = Strict | Lenient

definition BEGIN_PATCH_MARKER :: ustr where "BEGIN_PATCH_MARKER = lit ''*** Begin Patch''"
definition END_PATCH_MARKER :: ustr where "END_PATCH_MARKER = lit ''*** End Patch''"
definition ADD_FILE_MARKER :: ustr where "ADD_FILE_MARKER = lit ''*** Add File: ''"
definition DELETE_FILE_MARKER :: ustr where "DELETE_FILE_MARKER = lit ''*** Delete File: ''"
definition UPDATE_FILE_MARKER :: ustr where "UPDATE_FILE_MARKER = lit ''*** Update File: ''"
definition MOVE_TO_MARKER :: ustr where "MOVE_TO_MARKER = lit ''*** Move to: ''"
definition EOF_MARKER :: ustr where "EOF_MARKER = lit ''*** End of File''"
definition CHANGE_CONTEXT_MARKER :: ustr where "CHANGE_CONTEXT_MARKER = lit ''@@ ''"
definition EMPTY_CHANGE_CONTEXT_MARKER :: ustr where "EMPTY_CHANGE_CONTEXT_MARKER = lit ''@@''"

definition PARSE_IN_STRICT_MODE :: bool where "PARSE_IN_STRICT_MODE = False"

lemmas markers = BEGIN_PATCH_MARKER_def END_PATCH_MARKER_def ADD_FILE_MARKER_def
  DELETE_FILE_MARKER_def UPDATE_FILE_MARKER_def MOVE_TO_MARKER_def EOF_MARKER_def
  CHANGE_CONTEXT_MARKER_def EMPTY_CHANGE_CONTEXT_MARKER_def

text \<open>Error messages. \<open>quoted\<close> is a value between single quotes.\<close>

definition quoted :: "ustr \<Rightarrow> ustr" where "quoted s = [39] @ s @ [39]"

definition no_lines_msg :: ustr where
  "no_lines_msg = lit ''Update hunk does not contain any lines''"

section \<open>Boundaries\<close>

definition check_start_and_end_lines_strict ::
    "ustr option \<Rightarrow> ustr option \<Rightarrow> parse_error + unit" where
  "check_start_and_end_lines_strict first_line last_line =
     (case (map_option trim first_line, map_option trim last_line) of
        (Some first, Some final) \<Rightarrow>
          if first = BEGIN_PATCH_MARKER \<and> final = END_PATCH_MARKER then Inr ()
          else if first \<noteq> BEGIN_PATCH_MARKER
          then Inl (InvalidPatchError (lit ''The first line of the patch must be '' @
                     quoted BEGIN_PATCH_MARKER))
          else Inl (InvalidPatchError (lit ''The last line of the patch must be '' @
                     quoted END_PATCH_MARKER))
      | (Some first, None) \<Rightarrow>
          if first \<noteq> BEGIN_PATCH_MARKER
          then Inl (InvalidPatchError (lit ''The first line of the patch must be '' @
                     quoted BEGIN_PATCH_MARKER))
          else Inl (InvalidPatchError (lit ''The last line of the patch must be '' @
                     quoted END_PATCH_MARKER))
      | (None, _) \<Rightarrow>
          Inl (InvalidPatchError (lit ''The last line of the patch must be '' @
                 quoted END_PATCH_MARKER)))"

definition check_patch_boundaries_strict :: "ustr list \<Rightarrow> parse_error + unit" where
  "check_patch_boundaries_strict lines =
     (case lines of
        [] \<Rightarrow> check_start_and_end_lines_strict None None
      | first # _ \<Rightarrow> check_start_and_end_lines_strict (Some first) (Some (last lines)))"

definition check_patch_boundaries_lenient ::
    "ustr list \<Rightarrow> parse_error \<Rightarrow> parse_error + ustr list" where
  "check_patch_boundaries_lenient original_lines original_parse_error =
     (case original_lines of
        first # second # rest \<Rightarrow>
          (let last_line = last original_lines; inner = butlast (second # rest) in
           if (first = lit ''<<EOF'' \<or> first = lit ''<<'' @ quoted (lit ''EOF'') \<or>
               first = lit ''<<'' @ [34] @ lit ''EOF'' @ [34])
              \<and> ends_with last_line (lit ''EOF'') \<and> length original_lines \<ge> 4
           then (case check_patch_boundaries_strict inner of
                   Inr _ \<Rightarrow> Inr inner
                 | Inl e \<Rightarrow> Inl e)
           else Inl original_parse_error)
      | _ \<Rightarrow> Inl original_parse_error)"

section \<open>Chunks\<close>

text \<open>The loop over the lines of a chunk; \<open>parsed_lines\<close> counts from 0 after the context line.\<close>

fun chunk_loop ::
    "ustr list \<Rightarrow> usize \<Rightarrow> update_file_chunk \<Rightarrow> usize \<Rightarrow> parse_error + update_file_chunk \<times> usize"
where
  "chunk_loop [] line_number chunk parsed_lines = Inr (chunk, parsed_lines)"
| "chunk_loop (line # rest) line_number chunk parsed_lines =
     (if line = EOF_MARKER
      then (if parsed_lines = 0 then Inl (InvalidHunkError no_lines_msg (line_number + 1))
            else Inr (chunk\<lparr>is_end_of_file := True\<rparr>, parsed_lines + 1))
      else
        (case line of
           [] \<Rightarrow>
             chunk_loop rest line_number
               (chunk\<lparr>old_lines := old_lines chunk @ [[]], new_lines := new_lines chunk @ [[]]\<rparr>)
               (parsed_lines + 1)
         | c # contents \<Rightarrow>
             if c = 32 then
               chunk_loop rest line_number
                 (chunk\<lparr>old_lines := old_lines chunk @ [contents],
                        new_lines := new_lines chunk @ [contents]\<rparr>)
                 (parsed_lines + 1)
             else if c = 43 then
               chunk_loop rest line_number (chunk\<lparr>new_lines := new_lines chunk @ [contents]\<rparr>)
                 (parsed_lines + 1)
             else if c = 45 then
               chunk_loop rest line_number (chunk\<lparr>old_lines := old_lines chunk @ [contents]\<rparr>)
                 (parsed_lines + 1)
             else if parsed_lines = 0 then
               Inl (InvalidHunkError
                 (lit ''Unexpected line found in update hunk: '' @ quoted line @
                  lit ''. Every line should start with '' @ quoted (lit '' '') @
                  lit '' (context line), '' @ quoted (lit ''+'') @ lit '' (added line), or '' @
                  quoted (lit ''-'') @ lit '' (removed line)'') (line_number + 1))
             else Inr (chunk, parsed_lines)))"

definition parse_update_file_chunk ::
    "ustr list \<Rightarrow> usize \<Rightarrow> bool \<Rightarrow> parse_error + update_file_chunk \<times> usize" where
  "parse_update_file_chunk lines line_number allow_missing_context =
     (case lines of
        [] \<Rightarrow> Inl (InvalidHunkError no_lines_msg line_number)
      | first # _ \<Rightarrow>
          (case (if first = EMPTY_CHANGE_CONTEXT_MARKER then Inr (None, 1)
                 else case strip_prefix CHANGE_CONTEXT_MARKER first of
                   Some context \<Rightarrow> Inr (Some context, 1)
                 | None \<Rightarrow>
                     if \<not> allow_missing_context
                     then Inl (InvalidHunkError
                            (lit ''Expected update hunk to start with a @@ context marker, got: '' @
                             quoted first) line_number)
                     else Inr (None, 0)) of
             Inl e \<Rightarrow> Inl e
           | Inr (context, start_index) \<Rightarrow>
               if start_index \<ge> length lines
               then Inl (InvalidHunkError no_lines_msg (line_number + 1))
               else
                 (case chunk_loop (drop start_index lines) line_number
                         \<lparr>change_context = context, old_lines = [], new_lines = [],
                          is_end_of_file = False\<rparr> 0 of
                    Inl e \<Rightarrow> Inl e
                  | Inr (chunk, parsed_lines) \<Rightarrow> Inr (chunk, parsed_lines + start_index))))"

lemma chunk_loop_bounds:
  "chunk_loop ls n c k = Inr (c', k') \<Longrightarrow> k \<le> k' \<and> k' \<le> k + length ls \<and> (ls \<noteq> [] \<longrightarrow> 0 < k')"
  by (induction ls n c k rule: chunk_loop.induct) (fastforce split: if_splits list.splits)+

lemma parse_update_file_chunk_bounds:
  "parse_update_file_chunk ls n a = Inr (c, k) \<Longrightarrow> 0 < k \<and> k \<le> length ls"
  by (auto simp: parse_update_file_chunk_def
      dest!: chunk_loop_bounds split: if_splits list.splits option.splits sum.splits)

section \<open>Hunks\<close>

fun add_lines_loop :: "ustr list \<Rightarrow> ustr \<Rightarrow> usize \<Rightarrow> ustr \<times> usize" where
  "add_lines_loop [] contents parsed_lines = (contents, parsed_lines)"
| "add_lines_loop (add_line # rest) contents parsed_lines =
     (case strip_prefix (lit ''+'') add_line of
        Some line_to_add \<Rightarrow> add_lines_loop rest (contents @ line_to_add @ [NL]) (parsed_lines + 1)
      | None \<Rightarrow> (contents, parsed_lines))"

text \<open>
  The loop over the chunks of an update: the chunks so far, the lines taken so far, the lines left.
  \<open>line_number\<close> is the line of the header.
\<close>

function chunks_loop ::
    "usize \<Rightarrow> update_file_chunk list \<Rightarrow> usize \<Rightarrow> ustr list \<Rightarrow>
     parse_error + update_file_chunk list \<times> usize" where
  "chunks_loop line_number chunks parsed_lines [] = Inr (chunks, parsed_lines)"
| "chunks_loop line_number chunks parsed_lines (l # rest) =
     (if trim l = [] then chunks_loop line_number chunks (parsed_lines + 1) rest
      else if starts_with l (lit ''***'') then Inr (chunks, parsed_lines)
      else
        (case parse_update_file_chunk (l # rest) (line_number + parsed_lines) (chunks = []) of
           Inl e \<Rightarrow> Inl e
         | Inr (chunk, chunk_lines) \<Rightarrow>
             chunks_loop line_number (chunks @ [chunk]) (parsed_lines + chunk_lines)
               (drop chunk_lines (l # rest))))"
  by pat_completeness auto
termination
  by (relation "measure (\<lambda>(n, cs, p, ls). length ls)")
    (auto dest: parse_update_file_chunk_bounds)

definition parse_one_hunk :: "ustr list \<Rightarrow> usize \<Rightarrow> parse_error + hunk \<times> usize" where
  "parse_one_hunk lines line_number =
     (case lines of
        [] \<Rightarrow> Inl (InvalidHunkError (lit ''hunk is empty'') line_number)
      | first # rest \<Rightarrow>
          (let first_line = trim first in
           case strip_prefix ADD_FILE_MARKER first_line of
             Some path \<Rightarrow>
               (let (contents, parsed_lines) = add_lines_loop rest [] 1
                in Inr (AddFile path contents, parsed_lines))
           | None \<Rightarrow>
               (case strip_prefix DELETE_FILE_MARKER first_line of
                  Some path \<Rightarrow> Inr (DeleteFile path, 1)
                | None \<Rightarrow>
                    (case strip_prefix UPDATE_FILE_MARKER first_line of
                       Some path \<Rightarrow>
                         (let move_path =
                                (case rest of [] \<Rightarrow> None | x # _ \<Rightarrow> strip_prefix MOVE_TO_MARKER x);
                              (remaining_lines, parsed_lines) =
                                (if move_path \<noteq> None then (drop 1 rest, 2) else (rest, 1))
                          in case chunks_loop line_number [] parsed_lines remaining_lines of
                               Inl e \<Rightarrow> Inl e
                             | Inr (chunks, parsed_lines) \<Rightarrow>
                                 if chunks = []
                                 then Inl (InvalidHunkError
                                        (lit ''Update file hunk for path '' @ quoted path @
                                         lit '' is empty'') line_number)
                                 else Inr (UpdateFile path move_path chunks, parsed_lines))
                     | None \<Rightarrow>
                         Inl (InvalidHunkError
                           (quoted first_line @
                            lit '' is not a valid hunk header. Valid hunk headers: '' @
                            quoted (lit ''*** Add File: {path}'') @ lit '', '' @
                            quoted (lit ''*** Delete File: {path}'') @ lit '', '' @
                            quoted (lit ''*** Update File: {path}'')) line_number)))))"

lemma add_lines_loop_bounds:
  "add_lines_loop ls c k = (c', k') \<Longrightarrow> k \<le> k' \<and> k' \<le> k + length ls"
  by (induction ls c k rule: add_lines_loop.induct) (fastforce split: option.splits)+

lemma chunks_loop_bounds:
  "chunks_loop n cs p ls = Inr (cs', k) \<Longrightarrow> p \<le> k \<and> k \<le> p + length ls"
proof (induction n cs p ls rule: chunks_loop.induct)
  case (2 n cs p l rest)
  then show ?case
    by (fastforce split: if_splits sum.splits dest: parse_update_file_chunk_bounds)
qed simp

lemma parse_one_hunk_bounds:
  assumes "parse_one_hunk ls n = Inr (h, k)" shows "0 < k \<and> k \<le> length ls"
proof (cases ls)
  case (Cons l rest)
  with assms show ?thesis
    by (auto simp: parse_one_hunk_def Let_def split: option.splits prod.splits sum.splits if_splits
        list.splits simp del: chunks_loop.simps dest!: add_lines_loop_bounds chunks_loop_bounds)
qed (use assms in \<open>simp add: parse_one_hunk_def\<close>)

section \<open>Patches\<close>

function hunks_loop :: "usize \<Rightarrow> hunk list \<Rightarrow> ustr list \<Rightarrow> parse_error + hunk list" where
  "hunks_loop line_number hs [] = Inr hs"
| "hunks_loop line_number hs (l # rest) =
     (case parse_one_hunk (l # rest) line_number of
        Inl e \<Rightarrow> Inl e
      | Inr (h, hunk_lines) \<Rightarrow>
          hunks_loop (line_number + hunk_lines) (hs @ [h]) (drop hunk_lines (l # rest)))"
  by pat_completeness auto
termination
  by (relation "measure (\<lambda>(n, hs, ls). length ls)") (auto dest: parse_one_hunk_bounds)

definition parse_patch_text :: "ustr \<Rightarrow> parse_mode \<Rightarrow> parse_error + parsed_patch" where
  "parse_patch_text text mode =
     (let all_lines = str_lines (trim text) in
      case (case check_patch_boundaries_strict all_lines of
              Inr _ \<Rightarrow> Inr all_lines
            | Inl e \<Rightarrow>
                (case mode of
                   Strict \<Rightarrow> Inl e
                 | Lenient \<Rightarrow> check_patch_boundaries_lenient all_lines e)) of
        Inl e \<Rightarrow> Inl e
      | Inr lines \<Rightarrow>
          (let last_line_index = length lines - 1;
               remaining_lines = (if 1 \<le> last_line_index then drop 1 (take last_line_index lines) else [])
           in case hunks_loop 2 [] remaining_lines of
                Inl e \<Rightarrow> Inl e
              | Inr hs \<Rightarrow> Inr \<lparr>hunks = hs, patch = join [NL] lines\<rparr>))"

definition parse_patch :: "ustr \<Rightarrow> parse_error + parsed_patch" where
  "parse_patch text =
     (let mode = (if PARSE_IN_STRICT_MODE then Strict else Lenient)
      in parse_patch_text text mode)"

section \<open>Printing\<close>

text \<open>
  The grammar of the format, as a printer: an update chunk lists its removed lines and then its
  added lines. \<open>hunk_ok\<close> says which hunks the line-based format can carry: no newline inside a
  line, no carriage return at the end of one (\<open>str::lines\<close> would drop it), a path that survives the
  trimming of its header line, and no empty chunk or update.
\<close>

definition terminated :: "ustr list \<Rightarrow> ustr" where
  "terminated ls = concat (map (\<lambda>l. l @ [NL]) ls)"

definition line_ok :: "ustr \<Rightarrow> bool" where
  "line_ok l \<longleftrightarrow> NL \<notin> set l \<and> (l \<noteq> [] \<longrightarrow> last l \<noteq> CR)"

definition path_ok :: "ustr \<Rightarrow> bool" where
  "path_ok p \<longleftrightarrow> p \<noteq> [] \<and> NL \<notin> set p \<and> \<not> is_ws (last p)"

definition print_chunk :: "update_file_chunk \<Rightarrow> ustr list" where
  "print_chunk c =
     (case change_context c of
        None \<Rightarrow> EMPTY_CHANGE_CONTEXT_MARKER
      | Some ctx \<Rightarrow> CHANGE_CONTEXT_MARKER @ ctx)
     # map ((#) 45) (old_lines c) @ map ((#) 43) (new_lines c)
     @ (if is_end_of_file c then [EOF_MARKER] else [])"

definition chunk_ok :: "update_file_chunk \<Rightarrow> bool" where
  "chunk_ok c \<longleftrightarrow>
     (case change_context c of None \<Rightarrow> True | Some ctx \<Rightarrow> line_ok ctx) \<and>
     list_all line_ok (old_lines c) \<and> list_all line_ok (new_lines c) \<and>
     old_lines c @ new_lines c \<noteq> []"

fun print_hunk :: "hunk \<Rightarrow> ustr list" where
  "print_hunk (AddFile p c) = (ADD_FILE_MARKER @ p) # map ((#) 43) (str_lines c)"
| "print_hunk (DeleteFile p) = [DELETE_FILE_MARKER @ p]"
| "print_hunk (UpdateFile p m cs) =
     (UPDATE_FILE_MARKER @ p) # (case m of None \<Rightarrow> [] | Some d \<Rightarrow> [MOVE_TO_MARKER @ d])
     @ concat (map print_chunk cs)"

fun hunk_ok :: "hunk \<Rightarrow> bool" where
  "hunk_ok (AddFile p c) \<longleftrightarrow>
     path_ok p \<and> terminated (str_lines c) = c \<and> list_all line_ok (str_lines c)"
| "hunk_ok (DeleteFile p) \<longleftrightarrow> path_ok p"
| "hunk_ok (UpdateFile p m cs) \<longleftrightarrow>
     path_ok p \<and> (case m of None \<Rightarrow> True | Some d \<Rightarrow> line_ok d) \<and> cs \<noteq> [] \<and> list_all chunk_ok cs"

definition patch_lines :: "hunk list \<Rightarrow> ustr list" where
  "patch_lines hs = BEGIN_PATCH_MARKER # concat (map print_hunk hs) @ [END_PATCH_MARKER]"

definition print_patch :: "hunk list \<Rightarrow> ustr" where
  "print_patch hs = join [NL] (patch_lines hs)"

section \<open>Parsing inverts printing\<close>

text \<open>The line after a chunk: the end, a context marker or a hunk header.\<close>

definition chunk_stop :: "ustr list \<Rightarrow> bool" where
  "chunk_stop ls \<longleftrightarrow> ls = [] \<or>
     (\<exists>c t. hd ls = c # t \<and> c \<notin> {32, 43, 45} \<and> hd ls \<noteq> EOF_MARKER)"

lemma chunk_loop_added:
  "chunk_stop rest \<Longrightarrow> ls \<noteq> [] \<or> 0 < k \<Longrightarrow>
     chunk_loop (map ((#) 43) ls @ (if e then [EOF_MARKER] else []) @ rest) n c k =
       Inr (c\<lparr>new_lines := new_lines c @ ls, is_end_of_file := e \<or> is_end_of_file c\<rparr>,
            k + length ls + (if e then 1 else 0))"
proof (induction ls arbitrary: c k)
  case Nil
  then show ?case
    by (cases rest) (auto simp: chunk_stop_def split: list.splits)
next
  case (Cons l ls)
  then show ?case by (simp add: EOF_MARKER_def lit_def)
qed

lemma chunk_loop_removed:
  "chunk_stop rest \<Longrightarrow> olds @ ls \<noteq> [] \<or> 0 < k \<Longrightarrow>
     chunk_loop (map ((#) 45) olds @ map ((#) 43) ls @ (if e then [EOF_MARKER] else []) @ rest) n c k =
       Inr (c\<lparr>old_lines := old_lines c @ olds, new_lines := new_lines c @ ls,
              is_end_of_file := e \<or> is_end_of_file c\<rparr>,
            k + length olds + length ls + (if e then 1 else 0))"
proof (induction olds arbitrary: c k)
  case Nil
  then show ?case using chunk_loop_added[of rest ls k e n c] by simp
next
  case (Cons l olds)
  then show ?case by (simp add: EOF_MARKER_def lit_def)
qed

lemma parse_print_chunk:
  assumes "chunk_ok c" and "chunk_stop rest"
  shows "parse_update_file_chunk (print_chunk c @ rest) n a = Inr (c, length (print_chunk c))"
proof -
  have "old_lines c @ new_lines c \<noteq> []" using assms(1) by (simp add: chunk_ok_def)
  then show ?thesis
    using chunk_loop_removed[OF assms(2), of "old_lines c" "new_lines c" 0 "is_end_of_file c" n]
    by (cases "change_context c"; cases c)
      (auto simp: parse_update_file_chunk_def print_chunk_def EMPTY_CHANGE_CONTEXT_MARKER_def
        CHANGE_CONTEXT_MARKER_def lit_def)
qed

lemma print_chunk_Cons: "\<exists>t ls. print_chunk c = (64 # t) # ls"
  by (cases "change_context c")
    (auto simp: print_chunk_def EMPTY_CHANGE_CONTEXT_MARKER_def CHANGE_CONTEXT_MARKER_def lit_def)

text \<open>The line after a hunk: the end or another hunk header.\<close>

definition hunk_stop :: "ustr list \<Rightarrow> bool" where
  "hunk_stop ls \<longleftrightarrow> ls = [] \<or> starts_with (hd ls) (lit ''*** '') \<and> hd ls \<noteq> EOF_MARKER"

lemma hunk_stop_chunk: "hunk_stop ls \<Longrightarrow> chunk_stop ls"
  by (auto simp: hunk_stop_def chunk_stop_def starts_with_iff lit_def)

lemma hunk_stop_Cons:
  "hunk_stop (l # ls) \<Longrightarrow> \<exists>t. l = 42 # t \<and> starts_with l (lit ''***'') \<and> trim l \<noteq> []"
  using trim_nonempty[of 42]
  by (auto simp: hunk_stop_def starts_with_iff lit_def is_ws_def)

lemma chunk_stop_chunks: "hunk_stop rest \<Longrightarrow> chunk_stop (concat (map print_chunk cs) @ rest)"
proof (cases cs)
  case (Cons c cs')
  then show ?thesis
    using print_chunk_Cons[of c] by (auto simp: chunk_stop_def EOF_MARKER_def lit_def)
qed (simp add: hunk_stop_chunk)

lemma chunks_loop_print:
  "list_all chunk_ok cs \<Longrightarrow> hunk_stop rest \<Longrightarrow>
     chunks_loop n acc p (concat (map print_chunk cs) @ rest) =
       Inr (acc @ cs, p + length (concat (map print_chunk cs)))"
proof (induction cs arbitrary: acc p)
  case Nil
  then show ?case by (cases rest) (auto dest!: hunk_stop_Cons)
next
  case (Cons c cs)
  obtain t ls where c: "print_chunk c = (64 # t) # ls" using print_chunk_Cons by blast
  let ?tail = "concat (map print_chunk cs) @ rest"
  have "parse_update_file_chunk (print_chunk c @ ?tail) (n + p) (acc = []) =
      Inr (c, length (print_chunk c))"
    using Cons.prems by (intro parse_print_chunk chunk_stop_chunks) auto
  then have parse: "parse_update_file_chunk ((64 # t) # ls @ ?tail) (n + p) (acc = []) =
      Inr (c, Suc (length ls))"
    by (simp add: c)
  have "trim (64 # t) \<noteq> []" by (rule trim_nonempty) (simp add: is_ws_def)
  then show ?case
    using Cons.IH[of "acc @ [c]" "p + Suc (length ls)"] Cons.prems
    by (simp add: c parse starts_with_iff lit_def)
qed

lemma add_lines_loop_print:
  "hunk_stop rest \<Longrightarrow>
     add_lines_loop (map ((#) 43) ls @ rest) acc k = (acc @ terminated ls, k + length ls)"
proof (induction ls arbitrary: acc k)
  case Nil
  then show ?case
    by (cases rest) (auto simp: terminated_def lit_def dest!: hunk_stop_Cons)
next
  case (Cons l ls)
  then show ?case by (simp add: terminated_def lit_def)
qed

lemma trim_header:
  assumes "path_ok p" "M \<in> {ADD_FILE_MARKER, DELETE_FILE_MARKER, UPDATE_FILE_MARKER}"
  shows "trim (M @ p) = M @ p"
proof (rule trim_id)
  show "M @ p \<noteq> []" "\<not> is_ws (last (M @ p))" using assms(1) by (simp_all add: path_ok_def)
  show "\<not> is_ws (hd (M @ p))" using assms(2) by (auto simp: is_ws_def markers lit_def)
qed

lemma update_header:
  "strip_prefix ADD_FILE_MARKER (UPDATE_FILE_MARKER @ p) = None"
  "strip_prefix DELETE_FILE_MARKER (UPDATE_FILE_MARKER @ p) = None"
  "strip_prefix UPDATE_FILE_MARKER (UPDATE_FILE_MARKER @ p) = Some p"
  by (simp_all add: markers lit_def)

lemma parse_print_hunk:
  assumes "hunk_ok h" and stop: "hunk_stop rest"
  shows "parse_one_hunk (print_hunk h @ rest) n = Inr (h, length (print_hunk h))"
proof (cases h)
  case (AddFile p c)
  then have "trim (ADD_FILE_MARKER @ p) = ADD_FILE_MARKER @ p" "terminated (str_lines c) = c"
    using assms(1) by (auto intro!: trim_header)
  then show ?thesis
    using add_lines_loop_print[OF stop, of "str_lines c" "[]" 1]
    by (simp add: AddFile parse_one_hunk_def ADD_FILE_MARKER_def lit_def)
next
  case (DeleteFile p)
  then have "trim (DELETE_FILE_MARKER @ p) = DELETE_FILE_MARKER @ p"
    using assms(1) by (auto intro!: trim_header)
  then show ?thesis
    by (simp add: DeleteFile parse_one_hunk_def ADD_FILE_MARKER_def DELETE_FILE_MARKER_def lit_def)
next
  case (UpdateFile p m cs)
  define ls where "ls = concat (map print_chunk cs)"
  have trim: "trim (UPDATE_FILE_MARKER @ p) = UPDATE_FILE_MARKER @ p" and "cs \<noteq> []"
    using assms(1) UpdateFile by (auto intro!: trim_header)
  have chunks: "chunks_loop n [] k (ls @ rest) = Inr (cs, k + length ls)" for k
    using chunks_loop_print[OF _ stop, of cs n "[]" k] assms(1) UpdateFile by (simp add: ls_def)
  have no_move: "(case ls @ rest of [] \<Rightarrow> None | x # _ \<Rightarrow> strip_prefix MOVE_TO_MARKER x) = None"
    using \<open>cs \<noteq> []\<close> print_chunk_Cons[of "hd cs"]
    by (cases cs) (auto simp: ls_def MOVE_TO_MARKER_def lit_def)
  show ?thesis
  proof (cases m)
    case None
    then have h: "print_hunk h = (UPDATE_FILE_MARKER @ p) # ls" by (simp add: UpdateFile ls_def)
    show ?thesis
      unfolding h using chunks[of 1] no_move \<open>cs \<noteq> []\<close>
      by (simp add: UpdateFile None parse_one_hunk_def trim update_header Let_def)
  next
    case (Some d)
    then have h: "print_hunk h = (UPDATE_FILE_MARKER @ p) # (MOVE_TO_MARKER @ d) # ls"
      by (simp add: UpdateFile ls_def)
    have "strip_prefix MOVE_TO_MARKER (MOVE_TO_MARKER @ d) = Some d"
      by (simp add: strip_prefix_Some_iff)
    then show ?thesis
      unfolding h using chunks[of 2] \<open>cs \<noteq> []\<close>
      by (simp add: UpdateFile Some parse_one_hunk_def trim update_header Let_def)
  qed
qed

lemma print_hunk_stop: "hunk_stop (print_hunk h @ ls)"
  by (cases h) (auto simp: hunk_stop_def starts_with_iff markers lit_def)

lemma hunks_stop: "hunk_stop (concat (map print_hunk hs))"
  by (cases hs) (auto simp: print_hunk_stop, simp add: hunk_stop_def)

lemma print_hunk_Cons: "\<exists>l ls. print_hunk h = l # ls"
  by (cases h) auto

lemma hunks_loop_print:
  "list_all hunk_ok hs \<Longrightarrow> hunks_loop n acc (concat (map print_hunk hs)) = Inr (acc @ hs)"
proof (induction hs arbitrary: n acc)
  case (Cons h hs)
  obtain l ls where h: "print_hunk h = l # ls" using print_hunk_Cons by blast
  have "parse_one_hunk (print_hunk h @ concat (map print_hunk hs)) n = Inr (h, length (print_hunk h))"
    using Cons.prems by (intro parse_print_hunk hunks_stop) auto
  then show ?case using Cons by (simp add: h)
qed simp

lemma str_lines_join:
  assumes "list_all line_ok ls" "ls \<noteq> []" "last ls \<noteq> []"
  shows "str_lines (join [NL] ls) = ls"
proof -
  have "split_char NL (join [NL] ls) = ls"
    using assms by (intro split_char_join) (auto simp: list_all_iff line_ok_def)
  moreover have "map strip_cr (butlast ls) = butlast ls"
    using assms(1) by (intro map_idI) (auto simp: list_all_iff line_ok_def strip_cr_def dest: in_set_butlastD)
  ultimately show ?thesis using assms(2,3) by (simp add: str_lines_def)
qed

lemma line_ok_append: "line_ok p \<Longrightarrow> line_ok m \<Longrightarrow> line_ok (m @ p)"
  by (auto simp: line_ok_def last_append)

lemma markers_ok [simp]:
  "line_ok ADD_FILE_MARKER" "line_ok DELETE_FILE_MARKER" "line_ok UPDATE_FILE_MARKER"
  "line_ok MOVE_TO_MARKER" "line_ok EOF_MARKER" "line_ok CHANGE_CONTEXT_MARKER"
  "line_ok EMPTY_CHANGE_CONTEXT_MARKER" "line_ok BEGIN_PATCH_MARKER" "line_ok END_PATCH_MARKER"
  by (simp_all add: line_ok_def markers lit_def)

lemma path_ok_line: "path_ok p \<Longrightarrow> line_ok p"
  by (auto simp: path_ok_def line_ok_def is_ws_def)

lemma print_chunk_ok: "chunk_ok c \<Longrightarrow> list_all line_ok (print_chunk c)"
  by (auto simp: chunk_ok_def print_chunk_def list_all_iff line_ok_append split: option.splits)
    (auto simp: line_ok_def)

lemma print_hunk_ok: "hunk_ok h \<Longrightarrow> list_all line_ok (print_hunk h)"
proof (cases h)
  case (AddFile p c)
  assume "hunk_ok h"
  with AddFile show ?thesis
    by (auto simp: list_all_iff line_ok_append path_ok_line) (auto simp: line_ok_def)
next
  case (UpdateFile p m cs)
  assume "hunk_ok h"
  with UpdateFile print_chunk_ok show ?thesis
    by (auto simp: list_all_iff line_ok_append path_ok_line split: option.splits)
qed (auto simp: line_ok_append path_ok_line)

lemma str_lines_print_patch:
  "list_all hunk_ok hs \<Longrightarrow> str_lines (print_patch hs) = patch_lines hs"
  unfolding print_patch_def
  by (intro str_lines_join)
    (auto simp: patch_lines_def list_all_iff dest!: print_hunk_ok, simp add: markers lit_def)

lemma last_join:
  "ls \<noteq> [] \<Longrightarrow> last ls \<noteq> [] \<Longrightarrow> join sep ls \<noteq> [] \<and> last (join sep ls) = last (last ls)"
  by (induction sep ls rule: join.induct) (auto simp: last_append)

lemma join_Cons: "ls \<noteq> [] \<Longrightarrow> join sep (x # ls) = x @ sep @ join sep ls"
  by (cases ls) auto

lemma trim_print_patch: "trim (print_patch hs) = print_patch hs"
proof (rule trim_id)
  have p: "print_patch hs = BEGIN_PATCH_MARKER @ [NL] @ join [NL] (concat (map print_hunk hs) @ [END_PATCH_MARKER])"
    by (simp add: print_patch_def patch_lines_def join_Cons)
  then show "print_patch hs \<noteq> []" "\<not> is_ws (hd (print_patch hs))"
    by (simp_all add: markers lit_def is_ws_def)
  have "last (print_patch hs) = last END_PATCH_MARKER"
    by (simp add: print_patch_def patch_lines_def last_join markers lit_def)
  then show "\<not> is_ws (last (print_patch hs))" by (simp add: markers lit_def is_ws_def)
qed

lemma patch_lines_boundaries: "check_patch_boundaries_strict (patch_lines hs) = Inr ()"
proof -
  have "trim BEGIN_PATCH_MARKER = BEGIN_PATCH_MARKER" "trim END_PATCH_MARKER = END_PATCH_MARKER"
    by (intro trim_id; simp add: markers lit_def is_ws_def)+
  then show ?thesis
    by (simp add: check_patch_boundaries_strict_def check_start_and_end_lines_strict_def
        patch_lines_def)
qed

lemma patch_lines_body:
  "drop 1 (take (length (patch_lines hs) - 1) (patch_lines hs)) = concat (map print_hunk hs)"
  by (simp add: patch_lines_def)

lemma patch_lines_hunks:
  "list_all hunk_ok hs \<Longrightarrow>
     (let last_line_index = length (patch_lines hs) - 1;
          remaining_lines =
            (if 1 \<le> last_line_index then drop 1 (take last_line_index (patch_lines hs)) else [])
      in hunks_loop 2 [] remaining_lines) = Inr hs"
  using hunks_loop_print[of hs 2 "[]"] by (simp add: patch_lines_def)

lemma parse_patch_lines:
  assumes "str_lines (trim text) = ls" "list_all hunk_ok hs"
    and "check_patch_boundaries_strict ls = Inr () \<and> ls = patch_lines hs \<or>
      (\<exists>e. check_patch_boundaries_strict ls = Inl e \<and>
         check_patch_boundaries_lenient ls e = Inr (patch_lines hs))"
  shows "parse_patch text = Inr \<lparr>hunks = hs, patch = print_patch hs\<rparr>"
  using assms patch_lines_hunks[OF assms(2)]
  by (auto simp: parse_patch_def parse_patch_text_def PARSE_IN_STRICT_MODE_def print_patch_def Let_def
      simp del: One_nat_def)

lemma parse_print_patch:
  "list_all hunk_ok hs \<Longrightarrow> parse_patch (print_patch hs) = Inr \<lparr>hunks = hs, patch = print_patch hs\<rparr>"
  by (rule parse_patch_lines[of _ "patch_lines hs"])
    (simp_all add: trim_print_patch str_lines_print_patch patch_lines_boundaries)

definition heredoc_lines :: "hunk list \<Rightarrow> ustr list" where
  "heredoc_lines hs = lit ''<<EOF'' # patch_lines hs @ [lit ''EOF'']"

lemma heredoc_str_lines:
  assumes "list_all hunk_ok hs"
  shows "str_lines (trim (join [NL] (heredoc_lines hs))) = heredoc_lines hs"
proof -
  have "list_all line_ok (patch_lines hs)"
    using assms print_hunk_ok by (auto simp: patch_lines_def list_all_iff)
  moreover have "line_ok (lit ''<<EOF'')" "line_ok (lit ''EOF'')" by (simp_all add: line_ok_def lit_def)
  ultimately have "list_all line_ok (heredoc_lines hs)" by (simp add: heredoc_lines_def)
  moreover have "trim (join [NL] (heredoc_lines hs)) = join [NL] (heredoc_lines hs)"
  proof (rule trim_id)
    show "join [NL] (heredoc_lines hs) \<noteq> []" "\<not> is_ws (hd (join [NL] (heredoc_lines hs)))"
      by (simp_all add: heredoc_lines_def join_Cons lit_def is_ws_def)
    show "\<not> is_ws (last (join [NL] (heredoc_lines hs)))"
      using last_join[of "heredoc_lines hs" "[NL]"] by (simp add: heredoc_lines_def lit_def is_ws_def)
  qed
  ultimately show ?thesis by (simp add: str_lines_join heredoc_lines_def lit_def)
qed

lemma parse_heredoc_patch:
  assumes "list_all hunk_ok hs"
  shows "parse_patch (join [NL] (heredoc_lines hs)) = Inr \<lparr>hunks = hs, patch = print_patch hs\<rparr>"
proof (rule parse_patch_lines[OF heredoc_str_lines[OF assms] assms])
  have "trim (lit ''<<EOF'') = lit ''<<EOF''" by (rule trim_id) (simp_all add: lit_def is_ws_def)
  moreover have "lit ''<<EOF'' \<noteq> BEGIN_PATCH_MARKER" by (simp add: markers lit_def)
  ultimately obtain e where "check_patch_boundaries_strict (heredoc_lines hs) = Inl e"
    by (simp add: check_patch_boundaries_strict_def check_start_and_end_lines_strict_def
        heredoc_lines_def)
  moreover have "check_patch_boundaries_lenient (heredoc_lines hs) e = Inr (patch_lines hs)"
  proof -
    have "heredoc_lines hs = lit ''<<EOF'' # BEGIN_PATCH_MARKER # concat (map print_hunk hs) @
        [END_PATCH_MARKER, lit ''EOF'']"
      by (simp add: heredoc_lines_def patch_lines_def)
    then show ?thesis
      using patch_lines_boundaries[of hs]
      by (simp add: check_patch_boundaries_lenient_def patch_lines_def butlast_append ends_with_def
          starts_with_iff Let_def)
  qed
  ultimately show "check_patch_boundaries_strict (heredoc_lines hs) = Inr () \<and>
      heredoc_lines hs = patch_lines hs \<or>
      (\<exists>e. check_patch_boundaries_strict (heredoc_lines hs) = Inl e \<and>
         check_patch_boundaries_lenient (heredoc_lines hs) e = Inr (patch_lines hs))"
    by blast
qed

section \<open>Properties\<close>

text \<open>
  C1. Parsing inverts printing: every list of well-formed hunks, printed in the documented grammar,
  parses back to exactly these hunks, bare or wrapped in a heredoc, and the normalised patch text is
  the printed text.
\<close>

theorem parse_patch_roundtrip:
  assumes "list_all hunk_ok hs"
  shows "parse_patch (print_patch hs) = Inr \<lparr>hunks = hs, patch = print_patch hs\<rparr> \<and>
    parse_patch (join [NL] (heredoc_lines hs)) = Inr \<lparr>hunks = hs, patch = print_patch hs\<rparr>"
  using parse_print_patch[OF assms] parse_heredoc_patch[OF assms] by simp

theorem parse_patch_roundtrip_witness:
  "parse_patch (print_patch [AddFile [97] [120, NL], DeleteFile [98],
      UpdateFile [99] (Some [100]) [\<lparr>change_context = None, old_lines = [[], [120]],
        new_lines = [[121]], is_end_of_file = True\<rparr>]]) =
    Inr \<lparr>hunks = [AddFile [97] [120, NL], DeleteFile [98],
      UpdateFile [99] (Some [100]) [\<lparr>change_context = None, old_lines = [[], [120]],
        new_lines = [[121]], is_end_of_file = True\<rparr>]],
      patch = print_patch [AddFile [97] [120, NL], DeleteFile [98],
      UpdateFile [99] (Some [100]) [\<lparr>change_context = None, old_lines = [[], [120]],
        new_lines = [[121]], is_end_of_file = True\<rparr>]]\<rparr>"
  using parse_patch_roundtrip[of "[AddFile [97] [120, NL], DeleteFile [98],
      UpdateFile [99] (Some [100]) [\<lparr>change_context = None, old_lines = [[], [120]],
        new_lines = [[121]], is_end_of_file = True\<rparr>]]"]
  by (simp add: path_ok_def line_ok_def chunk_ok_def str_lines_def strip_cr_def terminated_def is_ws_def)

text \<open>
  An accepted patch is bounded by its markers: the lines that were parsed, which the returned
  text joins, start with the begin marker and end with the end marker up to surrounding white space,
  and everything between them was consumed by the hunk loop.
\<close>

lemma parse_patch_boundaries:
  assumes "parse_patch text = Inr p"
  shows "\<exists>ls. patch p = join [NL] ls \<and> 2 \<le> length ls \<and>
    trim (hd ls) = BEGIN_PATCH_MARKER \<and> trim (last ls) = END_PATCH_MARKER \<and>
    hunks_loop 2 [] (butlast (tl ls)) = Inr (hunks p)"
proof -
  obtain ls where strict: "check_patch_boundaries_strict ls = Inr ()" and joined: "patch p = join [NL] ls"
    and loop: "hunks_loop 2 [] (if 1 \<le> length ls - 1 then drop 1 (take (length ls - 1) ls) else []) =
      Inr (hunks p)"
    using assms
    by (auto simp: parse_patch_def parse_patch_text_def check_patch_boundaries_lenient_def Let_def
        PARSE_IN_STRICT_MODE_def split: sum.splits list.splits if_splits)
  obtain l ls' where ls: "ls = l # ls'" and ends: "trim l = BEGIN_PATCH_MARKER"
    "trim (last ls) = END_PATCH_MARKER"
    using strict by (auto simp: check_patch_boundaries_strict_def
        check_start_and_end_lines_strict_def split: list.splits if_splits)
  have "ls' \<noteq> []" using ends by (auto simp: ls markers lit_def)
  then have "drop 1 (take (length ls - 1) ls) = butlast (tl ls)" "1 \<le> length ls - 1"
    by (auto simp: ls butlast_conv_take drop_take Suc_le_eq)
  with loop ends joined show ?thesis by (intro exI[of _ ls]) (auto simp: ls Suc_le_eq)
qed

lemma parse_patch_boundaries_witness:
  "\<exists>ls. print_patch [DeleteFile [98]] = join [NL] ls \<and> 2 \<le> length ls \<and>
    trim (hd ls) = BEGIN_PATCH_MARKER \<and> trim (last ls) = END_PATCH_MARKER \<and>
    hunks_loop 2 [] (butlast (tl ls)) = Inr [DeleteFile [98]]"
  using parse_patch_boundaries[OF parse_print_patch[of "[DeleteFile [98]]"]]
  by (simp add: path_ok_def is_ws_def)

end
