(* ===== verification/Patch_Apply.thy ===== *)
theory Patch_Apply
  imports Patch_Parser
begin

text \<open>
  Locating and applying the chunks of an update
  (\<open>apply_patch/seek_sequence.rs\<close> and \<open>apply_patch/apply.rs\<close>).

  \<open>Vec::insert\<close> past the end panics, so applying replacements returns an option (\<open>None\<close> is the
  panic); the development shows that the replacements the code computes never reach it. \<open>splice\<close> is
  the reference result of disjoint replacements, read left to right from the original lines.
\<close>

section \<open>Seeking\<close>

text \<open>Pass 4: common Unicode punctuation to ASCII.\<close>

definition normalise_char :: "uchar \<Rightarrow> uchar" where
  "normalise_char c =
     (if c \<in> {8208, 8209, 8210, 8211, 8212, 8213, 8722} then 45
      else if c \<in> {8216, 8217, 8218, 8219} then 39
      else if c \<in> {8220, 8221, 8222, 8223} then 34
      else if c \<in> {160, 8194, 8195, 8196, 8197, 8198, 8199, 8200, 8201, 8202, 8239, 8287, 12288} then 32
      else c)"

definition normalise :: "ustr \<Rightarrow> ustr" where
  "normalise s = map normalise_char (trim s)"

text \<open>The inner loop of passes 2 to 4, with the per-line key of the pass.\<close>

fun match_loop :: "(ustr \<Rightarrow> ustr) \<Rightarrow> ustr list \<Rightarrow> usize \<Rightarrow> ustr list \<Rightarrow> bool" where
  "match_loop key lines i [] = True"
| "match_loop key lines i (pat # ps) =
     (if i < length lines
      then (if key (lines ! i) \<noteq> key pat then False else match_loop key lines (i + 1) ps)
      else False)"

definition exact_at :: "ustr list \<Rightarrow> ustr list \<Rightarrow> usize \<Rightarrow> bool" where
  "exact_at lines pattern i \<longleftrightarrow>
     i + length pattern \<le> length lines \<and> take (length pattern) (drop i lines) = pattern"

definition seek_sequence :: "ustr list \<Rightarrow> ustr list \<Rightarrow> usize \<Rightarrow> bool \<Rightarrow> usize option" where
  "seek_sequence lines pattern start eof =
     (if pattern = [] then Some start
      else if length pattern > length lines then None
      else
        (let search_start =
               (if eof \<and> length lines \<ge> length pattern then length lines - length pattern else start);
             range = [search_start ..< Suc (length lines - length pattern)]
         in case find (exact_at lines pattern) range of
              Some i \<Rightarrow> Some i
            | None \<Rightarrow>
                (case find (\<lambda>i. match_loop trim_end lines i pattern) range of
                   Some i \<Rightarrow> Some i
                 | None \<Rightarrow>
                     (case find (\<lambda>i. match_loop trim lines i pattern) range of
                        Some i \<Rightarrow> Some i
                      | None \<Rightarrow> find (\<lambda>i. match_loop normalise lines i pattern) range))))"

section \<open>Applying\<close>

datatype apply_error =
    Parse parse_error
  | ComputeReplacements ustr
  | Io ustr ustr "ustr option"

type_synonym replacement = "usize \<times> usize \<times> ustr list"

definition last_is_empty :: "ustr list \<Rightarrow> bool" where
  "last_is_empty ls \<longleftrightarrow> ls \<noteq> [] \<and> last ls = []"

text \<open>The search for the old lines of one chunk, with the retry without a trailing empty line.\<close>

definition find_old_lines ::
    "ustr list \<Rightarrow> update_file_chunk \<Rightarrow> usize \<Rightarrow> usize option \<times> ustr list \<times> ustr list" where
  "find_old_lines original_lines chunk line_index =
     (let pattern = old_lines chunk;
          new_slice = new_lines chunk;
          found = seek_sequence original_lines pattern line_index (is_end_of_file chunk)
      in if found = None \<and> last_is_empty pattern
         then (let pattern = butlast pattern;
                   new_slice = (if last_is_empty new_slice then butlast new_slice else new_slice)
               in (seek_sequence original_lines pattern line_index (is_end_of_file chunk),
                   pattern, new_slice))
         else (found, pattern, new_slice))"

fun replacements_loop ::
    "ustr list \<Rightarrow> ustr \<Rightarrow> update_file_chunk list \<Rightarrow> replacement list \<Rightarrow> usize \<Rightarrow>
     apply_error + replacement list" where
  "replacements_loop original_lines path [] replacements line_index = Inr replacements"
| "replacements_loop original_lines path (chunk # chunks) replacements line_index =
     (case (case change_context chunk of
              None \<Rightarrow> Inr line_index
            | Some ctx_line \<Rightarrow>
                (case seek_sequence original_lines [ctx_line] line_index False of
                   Some idx \<Rightarrow> Inr (idx + 1)
                 | None \<Rightarrow>
                     Inl (ComputeReplacements
                       (lit ''Failed to find context '' @ quoted ctx_line @ lit '' in '' @ path)))) of
        Inl e \<Rightarrow> Inl e
      | Inr line_index \<Rightarrow>
          if old_lines chunk = []
          then
            (let insertion_idx =
                   (if last_is_empty original_lines then length original_lines - 1
                    else length original_lines)
             in replacements_loop original_lines path chunks
                  (replacements @ [(insertion_idx, 0, new_lines chunk)]) line_index)
          else
            (case find_old_lines original_lines chunk line_index of
               (Some start_idx, pattern, new_slice) \<Rightarrow>
                 replacements_loop original_lines path chunks
                   (replacements @ [(start_idx, length pattern, new_slice)])
                   (start_idx + length pattern)
             | (None, _, _) \<Rightarrow>
                 Inl (ComputeReplacements
                   (lit ''Failed to find expected lines in '' @ path @ lit '':'' @ [NL] @
                    join [NL] (old_lines chunk)))))"

definition compute_replacements ::
    "ustr list \<Rightarrow> ustr \<Rightarrow> update_file_chunk list \<Rightarrow> apply_error + replacement list" where
  "compute_replacements original_lines path chunks =
     (case replacements_loop original_lines path chunks [] 0 of
        Inl e \<Rightarrow> Inl e
      | Inr replacements \<Rightarrow> Inr (sort_key fst replacements))"

definition remove_at :: "usize \<Rightarrow> 'a list \<Rightarrow> 'a list" where
  "remove_at i xs = take i xs @ drop (Suc i) xs"

fun remove_loop :: "nat \<Rightarrow> usize \<Rightarrow> 'a list \<Rightarrow> 'a list" where
  "remove_loop 0 start_idx lines = lines"
| "remove_loop (Suc n) start_idx lines =
     remove_loop n start_idx (if start_idx < length lines then remove_at start_idx lines else lines)"

definition insert_at :: "usize \<Rightarrow> 'a \<Rightarrow> 'a list \<Rightarrow> 'a list option" where
  "insert_at i x xs = (if i \<le> length xs then Some (take i xs @ x # drop i xs) else None)"

fun insert_loop :: "usize \<Rightarrow> 'a list \<Rightarrow> 'a list \<Rightarrow> 'a list option" where
  "insert_loop pos [] lines = Some lines"
| "insert_loop pos (new_line # segment) lines =
     Option.bind (insert_at pos new_line lines) (insert_loop (pos + 1) segment)"

definition apply_replacement ::
    "usize \<times> usize \<times> 'a list \<Rightarrow> 'a list \<Rightarrow> 'a list option" where
  "apply_replacement r lines =
     (case r of (start_idx, old_len, new_segment) \<Rightarrow>
        insert_loop start_idx new_segment (remove_loop old_len start_idx lines))"

fun apply_reversed ::
    "'a list \<Rightarrow> (usize \<times> usize \<times> 'a list) list \<Rightarrow> 'a list option" where
  "apply_reversed lines [] = Some lines"
| "apply_reversed lines (r # rs) =
     Option.bind (apply_replacement r lines) (\<lambda>lines. apply_reversed lines rs)"

definition apply_replacements ::
    "'a list \<Rightarrow> (usize \<times> usize \<times> 'a list) list \<Rightarrow> 'a list option" where
  "apply_replacements lines replacements = apply_reversed lines (rev replacements)"

definition content_lines :: "ustr \<Rightarrow> ustr list" where
  "content_lines original_content =
     (let original_lines = split_char NL original_content
      in if last_is_empty original_lines then butlast original_lines else original_lines)"

definition derive_new_contents ::
    "ustr \<Rightarrow> ustr \<Rightarrow> update_file_chunk list \<Rightarrow> (apply_error + ustr) option" where
  "derive_new_contents original_content path chunks =
     (let original_lines = content_lines original_content in
      case compute_replacements original_lines path chunks of
        Inl e \<Rightarrow> Some (Inl e)
      | Inr replacements \<Rightarrow>
          (case apply_replacements original_lines replacements of
             None \<Rightarrow> None
           | Some lines \<Rightarrow>
               (let lines = (if \<not> last_is_empty lines then lines @ [[]] else lines)
                in Some (Inr (join [NL] lines)))))"

section \<open>What seeking finds\<close>

datatype strictness = Exact | Rstrip | Trimmed | Normalised

fun key :: "strictness \<Rightarrow> ustr \<Rightarrow> ustr" where
  "key Exact = (\<lambda>l. l)"
| "key Rstrip = trim_end"
| "key Trimmed = trim"
| "key Normalised = normalise"

fun level :: "strictness \<Rightarrow> nat" where
  "level Exact = 0" | "level Rstrip = 1" | "level Trimmed = 2" | "level Normalised = 3"

definition matches_at :: "strictness \<Rightarrow> ustr list \<Rightarrow> ustr list \<Rightarrow> usize \<Rightarrow> bool" where
  "matches_at lv lines pattern i \<longleftrightarrow>
     i + length pattern \<le> length lines \<and>
     map (key lv) (take (length pattern) (drop i lines)) = map (key lv) pattern"

lemma match_loop_iff:
  "match_loop k lines i ps \<longleftrightarrow>
     (ps = [] \<or> i + length ps \<le> length lines) \<and> map k (take (length ps) (drop i lines)) = map k ps"
proof (induction k lines i ps rule: match_loop.induct)
  case (2 k lines i pat ps)
  then show ?case
    by (cases "i < length lines") (auto simp: Cons_nth_drop_Suc[symmetric])
qed simp

lemma exact_at_iff: "exact_at lines ps = matches_at Exact lines ps"
  by (simp add: exact_at_def matches_at_def fun_eq_iff)

lemma match_loop_matches:
  "ps \<noteq> [] \<Longrightarrow> (\<lambda>i. match_loop trim_end lines i ps) = matches_at Rstrip lines ps"
  "ps \<noteq> [] \<Longrightarrow> (\<lambda>i. match_loop trim lines i ps) = matches_at Trimmed lines ps"
  "ps \<noteq> [] \<Longrightarrow> (\<lambda>i. match_loop normalise lines i ps) = matches_at Normalised lines ps"
  by (simp_all add: match_loop_iff matches_at_def fun_eq_iff)

lemma find_upt_Some:
  "find P [a ..< b] = Some i \<Longrightarrow> a \<le> i \<and> i < b \<and> P i \<and> (\<forall>j. a \<le> j \<and> j < i \<longrightarrow> \<not> P j)"
proof -
  assume "find P [a ..< b] = Some i"
  then obtain k where k: "k < b - a" "P (a + k)" "i = a + k" "\<forall>j<k. \<not> P (a + j)"
    by (auto simp: find_Some_iff nth_upt)
  have "\<not> P j" if "a \<le> j" "j < i" for j
    using k that by (metis le_add_diff_inverse nat_add_left_cancel_less)
  with k show ?thesis by auto
qed

text \<open>Each level accepts what the stricter ones accept: its key factors through theirs.\<close>

lemma trim_trim_end: "trim (trim_end s) = trim s"
proof -
  have drop_tail: "\<forall>x \<in> set w. is_ws x \<Longrightarrow> trim (a @ w) = trim a" for a w
  proof (induction w rule: rev_induct)
    case (snoc x w)
    have "trim (b @ [x]) = trim b" if "is_ws x" for b
      using that by (auto simp: trim_def trim_start_def trim_end_def dropWhile_append
          dropWhile_eq_Nil_conv[THEN iffD2])
    with snoc show ?case by (metis append.assoc in_set_conv_decomp list.set_intros(1) Un_iff set_append)
  qed simp
  have "s = trim_end s @ rev (takeWhile is_ws (rev s))"
    unfolding trim_end_def by (metis rev_append rev_rev_ident takeWhile_dropWhile_id)
  moreover have "\<forall>x \<in> set (rev (takeWhile is_ws (rev s))). is_ws x" by (auto dest: set_takeWhileD)
  ultimately show ?thesis using drop_tail by metis
qed

lemma matches_weaker:
  assumes "matches_at a lines ps i" shows "matches_at Normalised lines ps i"
proof -
  have n: "normalise = map normalise_char \<circ> trim" by (simp add: normalise_def fun_eq_iff)
  have t: "trim = trim \<circ> trim_end" by (simp add: trim_trim_end fun_eq_iff)
  have rt: "map trim xs = map trim ys" if "map trim_end xs = map trim_end ys" for xs ys
    using that by (metis list.map_comp t)
  have tn: "map normalise xs = map normalise ys" if "map trim xs = map trim ys" for xs ys
    unfolding n using that by (metis list.map_comp)
  show ?thesis
  proof (cases a)
    case Rstrip
    then show ?thesis using assms unfolding matches_at_def by (metis key.simps(2,4) rt tn)
  next
    case Trimmed
    then show ?thesis using assms unfolding matches_at_def by (metis key.simps(3,4) tn)
  qed (use assms in \<open>simp_all add: matches_at_def\<close>)
qed

definition search_start :: "ustr list \<Rightarrow> ustr list \<Rightarrow> usize \<Rightarrow> bool \<Rightarrow> usize" where
  "search_start lines pattern start eof =
     (if eof \<and> length lines \<ge> length pattern then length lines - length pattern else start)"

text \<open>
  The position found is the first one, from where the search starts, at the strictest level that
  matches anywhere.
\<close>

definition best_match :: "strictness \<Rightarrow> ustr list \<Rightarrow> ustr list \<Rightarrow> usize \<Rightarrow> usize \<Rightarrow> bool" where
  "best_match lv lines pattern lo i \<longleftrightarrow>
     matches_at lv lines pattern i \<and> lo \<le> i \<and>
     (\<forall>j. lo \<le> j \<and> j < i \<longrightarrow> \<not> matches_at lv lines pattern j) \<and>
     (\<forall>st j. level st < level lv \<and> lo \<le> j \<longrightarrow> \<not> matches_at st lines pattern j)"

lemma find_range_None:
  assumes "find P [a ..< Suc (length lines - length ps)] = None" "length ps \<le> length lines"
    and "\<And>j. matches_at lv lines ps j \<Longrightarrow> P j"
  shows "\<forall>j. a \<le> j \<longrightarrow> \<not> matches_at lv lines ps j"
  using assms by (auto simp: find_None_iff matches_at_def Suc_le_eq)

lemma level_less_iff:
  "(\<forall>st. level st < level lv \<longrightarrow> P st) \<longleftrightarrow>
     (case lv of Exact \<Rightarrow> True | Rstrip \<Rightarrow> P Exact | Trimmed \<Rightarrow> P Exact \<and> P Rstrip
      | Normalised \<Rightarrow> P Exact \<and> P Rstrip \<and> P Trimmed)"
proof -
  have "(\<forall>st. Q st) \<longleftrightarrow> Q Exact \<and> Q Rstrip \<and> Q Trimmed \<and> Q Normalised" for Q
    by (metis strictness.exhaust)
  then show ?thesis by (cases lv) auto
qed

lemma seek_sequence_cases:
  assumes "ps \<noteq> []" and "lo = search_start lines ps start eof"
  shows "(case seek_sequence lines ps start eof of
            None \<Rightarrow> \<forall>lv j. lo \<le> j \<longrightarrow> \<not> matches_at lv lines ps j
          | Some i \<Rightarrow> \<exists>lv. best_match lv lines ps lo i)"
proof (cases "length ps \<le> length lines")
  case False
  then show ?thesis using assms by (auto simp: seek_sequence_def matches_at_def)
next
  case True
  define F where "F = (\<lambda>lv. find (matches_at lv lines ps) [lo ..< Suc (length lines - length ps)])"
  have eq: "seek_sequence lines ps start eof =
      (case F Exact of Some i \<Rightarrow> Some i | None \<Rightarrow>
        (case F Rstrip of Some i \<Rightarrow> Some i | None \<Rightarrow>
          (case F Trimmed of Some i \<Rightarrow> Some i | None \<Rightarrow> F Normalised)))"
    using assms(1) True unfolding F_def assms(2) seek_sequence_def search_start_def Let_def
      exact_at_iff match_loop_matches[OF assms(1)] by (simp del: upt_Suc)
  have none: "F lv = None \<Longrightarrow> \<forall>j. lo \<le> j \<longrightarrow> \<not> matches_at lv lines ps j" for lv
    using find_range_None[OF _ True] unfolding F_def by blast
  have best: "F lv = Some i \<Longrightarrow> \<forall>st. level st < level lv \<longrightarrow> F st = None \<Longrightarrow>
      best_match lv lines ps lo i" for lv i
    using find_upt_Some[of "matches_at lv lines ps" lo _ i] none
    unfolding best_match_def F_def by blast
  note bests = best[of Exact] best[of Rstrip] best[of Trimmed] best[of Normalised]
  have lower: "F Normalised = None \<Longrightarrow> \<forall>lv j. lo \<le> j \<longrightarrow> \<not> matches_at lv lines ps j"
    using none matches_weaker by blast
  show ?thesis
    unfolding eq using lower bests[unfolded level_less_iff strictness.case]
    by (cases "F Exact"; cases "F Rstrip"; cases "F Trimmed"; cases "F Normalised"; simp; blast)
qed

section \<open>What applying does\<close>

lemma remove_loop_eq: "remove_loop n i xs = take i xs @ drop (i + n) xs"
proof (induction n i xs rule: remove_loop.induct)
  case (2 n i xs)
  then show ?case by (auto simp: remove_at_def min_def add.commute)
qed simp

lemma insert_loop_eq:
  "i \<le> length xs \<Longrightarrow> insert_loop i seg xs = Some (take i xs @ seg @ drop i xs)"
proof (induction i seg xs rule: insert_loop.induct)
  case (2 i x seg xs)
  then show ?case by (simp add: insert_at_def min_def)
qed simp

lemma apply_replacement_eq:
  "i \<le> length xs \<Longrightarrow> apply_replacement (i, n, seg) xs = Some (take i xs @ seg @ drop (i + n) xs)"
  by (simp add: apply_replacement_def remove_loop_eq insert_loop_eq min_def)

lemma apply_replacement_tail:
  "i + n \<le> length xs \<Longrightarrow>
     apply_replacement (i, n, seg) (take (i + n) xs @ ys) = Some (take i xs @ seg @ ys)"
  by (simp add: apply_replacement_eq min_def)

lemma apply_reversed_append:
  "apply_reversed xs (as @ bs) = Option.bind (apply_reversed xs as) (\<lambda>ys. apply_reversed ys bs)"
  by (induction xs as rule: apply_reversed.induct) (auto simp: bind_eq_None_conv Option.bind_eq_Some_conv
      split: bind_splits)

lemma apply_replacements_Cons:
  "apply_replacements xs (r # rs) = Option.bind (apply_replacements xs rs) (apply_replacement r)"
  by (auto simp: apply_replacements_def apply_reversed_append split: bind_splits)

text \<open>
  Sorted replacements that start inside the original never insert past the end: what precedes the
  start of a replacement is still in place when its turn comes.
\<close>

lemma apply_replacements_defined:
  assumes "sorted (map fst rs)" "\<forall>r \<in> set rs. fst r \<le> length xs"
  shows "\<exists>ys. apply_replacements xs rs = Some ys \<and> (rs \<noteq> [] \<longrightarrow> fst (hd rs) \<le> length ys)"
  using assms
proof (induction rs)
  case (Cons r rs)
  obtain i n seg where r: "r = (i, n, seg)" by (cases r)
  obtain ys where ys: "apply_replacements xs rs = Some ys" "rs \<noteq> [] \<longrightarrow> fst (hd rs) \<le> length ys"
    using Cons by auto
  have "i \<le> length ys"
  proof (cases rs)
    case Nil
    then show ?thesis using ys Cons.prems by (simp add: r apply_replacements_def)
  next
    case (Cons q qs)
    then show ?thesis using ys \<open>sorted (map fst (r # rs))\<close> by (simp add: r)
  qed
  then show ?case using ys by (simp add: r apply_replacements_Cons apply_replacement_eq)
qed (simp add: apply_replacements_def)

text \<open>The reference: unchanged gaps and new segments, left to right.\<close>

fun splice :: "nat \<Rightarrow> 'a list \<Rightarrow> (usize \<times> usize \<times> 'a list) list \<Rightarrow> 'a list" where
  "splice pos xs [] = drop pos xs"
| "splice pos xs ((i, n, seg) # rs) = take (i - pos) (drop pos xs) @ seg @ splice (i + n) xs rs"

fun in_order :: "nat \<Rightarrow> nat \<Rightarrow> (usize \<times> usize \<times> 'a list) list \<Rightarrow> bool" where
  "in_order pos len [] \<longleftrightarrow> pos \<le> len"
| "in_order pos len ((i, n, seg) # rs) \<longleftrightarrow> pos \<le> i \<and> in_order (i + n) len rs"

lemma in_order_bound: "in_order pos len rs \<Longrightarrow> pos \<le> len"
  by (induction pos len rs rule: in_order.induct) auto

lemma in_order_sorted: "in_order pos len rs \<Longrightarrow> sorted (map fst rs) \<and> (\<forall>r \<in> set rs. pos \<le> fst r)"
  by (induction pos len rs rule: in_order.induct) auto

lemma in_order_lower: "in_order pos len rs \<Longrightarrow> p \<le> pos \<Longrightarrow> in_order p len rs"
  by (cases "(pos, len, rs)" rule: in_order.cases) auto

lemma apply_replacements_splice:
  "in_order pos (length xs) rs \<Longrightarrow>
     apply_replacements xs rs = Some (take pos xs @ splice pos xs rs)"
proof (induction rs arbitrary: pos)
  case Nil
  then show ?case by (simp add: apply_replacements_def)
next
  case (Cons r rs)
  obtain i n seg where r: "r = (i, n, seg)" by (cases r)
  have bound: "i + n \<le> length xs" and pos: "pos \<le> i"
    using Cons.prems in_order_bound by (auto simp: r)
  have "apply_replacements xs rs = Some (take (i + n) xs @ splice (i + n) xs rs)"
    using Cons by (simp add: r)
  then have "apply_replacements xs (r # rs) = Some (take i xs @ seg @ splice (i + n) xs rs)"
    using bound by (simp add: r apply_replacements_Cons apply_replacement_tail)
  moreover have "take i xs = take pos xs @ take (i - pos) (drop pos xs)"
    using pos by (metis le_add_diff_inverse take_add)
  ultimately show ?case by (simp add: r)
qed

section \<open>What the replacements are\<close>

text \<open>A found position leaves room for the pattern and does not precede the search.\<close>

lemma seek_sequence_bounds:
  assumes "seek_sequence lines ps start eof = Some i" "start \<le> length lines"
  shows "i + length ps \<le> length lines" and "\<not> eof \<Longrightarrow> start \<le> i"
proof -
  show "i + length ps \<le> length lines"
    using assms seek_sequence_cases[of ps _ lines start eof]
    by (cases "ps = []") (auto simp: seek_sequence_def best_match_def matches_at_def)
  show "start \<le> i" if "\<not> eof"
    using assms that seek_sequence_cases[of ps _ lines start eof]
    by (cases "ps = []") (auto simp: seek_sequence_def best_match_def search_start_def)
qed

lemma find_old_lines_bounds:
  assumes "find_old_lines lines c k = (Some i, ps, seg)" "k \<le> length lines"
  shows "i + length ps \<le> length lines" and "\<not> is_end_of_file c \<Longrightarrow> k \<le> i"
  using assms seek_sequence_bounds[of lines ps k "is_end_of_file c" i]
  by (auto simp: find_old_lines_def Let_def split: if_splits)

lemma context_bound:
  "seek_sequence lines [ctx] k False = Some i \<Longrightarrow> k \<le> length lines \<Longrightarrow> Suc i \<le> length lines \<and> k \<le> Suc i"
  using seek_sequence_bounds[of lines "[ctx]" k False i] by auto

lemma replacements_loop_in_range:
  assumes "replacements_loop lines path cs rs k = Inr rs'" "k \<le> length lines"
    "\<forall>r \<in> set rs. fst r \<le> length lines"
  shows "\<forall>r \<in> set rs'. fst r \<le> length lines"
  using assms
proof (induction lines path cs rs k rule: replacements_loop.induct)
  case (2 lines path c cs rs k)
  then show ?case
    by (fastforce split: option.splits sum.splits if_splits prod.splits
        dest: context_bound find_old_lines_bounds(1) simp: Let_def)
qed simp

text \<open>
  The contract of an update made only of replacements: no pure addition and no end-of-file anchor.
\<close>

definition replaces :: "update_file_chunk \<Rightarrow> bool" where
  "replaces c \<longleftrightarrow> old_lines c \<noteq> [] \<and> \<not> is_end_of_file c"

text \<open>
  What a replacement owes its chunk: the lines it removes match the old lines, or the old lines
  without their trailing empty line, at some strictness, and it inserts the new lines.
\<close>

definition fulfils :: "ustr list \<Rightarrow> update_file_chunk \<Rightarrow> replacement \<Rightarrow> bool" where
  "fulfils lines c r \<longleftrightarrow>
     (case r of (i, n, seg) \<Rightarrow>
        n = length (old_lines c) \<and> seg = new_lines c \<and>
          (\<exists>lv. matches_at lv lines (old_lines c) i) \<or>
        last_is_empty (old_lines c) \<and> n = length (butlast (old_lines c)) \<and>
          seg = (if last_is_empty (new_lines c) then butlast (new_lines c) else new_lines c) \<and>
          (\<exists>lv. matches_at lv lines (butlast (old_lines c)) i))"

lemma seek_sequence_matches:
  assumes "seek_sequence lines ps start eof = Some i" "start \<le> length lines"
  shows "\<exists>lv. matches_at lv lines ps i"
proof (cases "ps = []")
  case True
  with assms show ?thesis by (simp add: seek_sequence_def matches_at_def)
next
  case False
  with assms seek_sequence_cases[of ps _ lines start eof] show ?thesis
    by (auto simp: best_match_def)
qed

lemma find_old_lines_fulfils:
  assumes "find_old_lines lines c k = (Some i, ps, seg)" "k \<le> length lines"
  shows "fulfils lines c (i, length ps, seg)"
  using assms seek_sequence_matches[of lines ps k "is_end_of_file c" i]
  by (auto simp: find_old_lines_def fulfils_def Let_def split: if_splits)

lemma replacements_loop_spec:
  assumes "replacements_loop lines path cs rs k = Inr rs'" "k \<le> length lines" "list_all replaces cs"
  shows "\<exists>rs2. rs' = rs @ rs2 \<and> list_all2 (fulfils lines) cs rs2 \<and> in_order k (length lines) rs2"
  using assms
proof (induction cs arbitrary: rs k)
  case (Cons c cs)
  have c: "old_lines c \<noteq> []" "\<not> is_end_of_file c" using Cons.prems(3) by (auto simp: replaces_def)
  obtain k1 where k1: "k \<le> k1" "k1 \<le> length lines"
    and loop: "(case find_old_lines lines c k1 of
         (Some i, ps, seg) \<Rightarrow> replacements_loop lines path cs (rs @ [(i, length ps, seg)]) (i + length ps)
       | (None, _, _) \<Rightarrow> Inl (ComputeReplacements
                   (lit ''Failed to find expected lines in '' @ path @ lit '':'' @ [NL] @
                    join [NL] (old_lines c)))) = Inr rs'"
    using Cons.prems c by (auto split: option.splits sum.splits dest: context_bound)
  obtain i ps seg where f: "find_old_lines lines c k1 = (Some i, ps, seg)"
    and rest: "replacements_loop lines path cs (rs @ [(i, length ps, seg)]) (i + length ps) = Inr rs'"
    using loop by (auto split: prod.splits option.splits)
  have b: "i + length ps \<le> length lines" "k1 \<le> i"
    using find_old_lines_bounds[OF f k1(2)] c by auto
  obtain rs2 where "rs' = (rs @ [(i, length ps, seg)]) @ rs2" "list_all2 (fulfils lines) cs rs2"
    "in_order (i + length ps) (length lines) rs2"
    using Cons.IH[OF rest b(1)] Cons.prems(3) by auto
  then show ?case
    using find_old_lines_fulfils[OF f k1(2)] k1(1) b(2)
    by (intro exI[of _ "(i, length ps, seg) # rs2"]) auto
qed auto

lemma compute_replacements_spec:
  assumes "compute_replacements lines path cs = Inr rs" "list_all replaces cs"
  shows "list_all2 (fulfils lines) cs rs \<and> in_order 0 (length lines) rs"
proof -
  obtain rs2 where loop: "replacements_loop lines path cs [] 0 = Inr rs2" and rs: "rs = sort_key fst rs2"
    using assms(1) by (auto simp: compute_replacements_def split: sum.splits)
  have "list_all2 (fulfils lines) cs rs2" and ord: "in_order 0 (length lines) rs2"
    using replacements_loop_spec[OF loop _ assms(2)] by auto
  then show ?thesis using in_order_sorted[OF ord] by (simp add: rs sort_key_id_if_sorted)
qed

lemma compute_replacements_applicable:
  assumes "compute_replacements lines path cs = Inr rs"
  shows "\<exists>ys. apply_replacements lines rs = Some ys"
proof -
  obtain rs2 where loop: "replacements_loop lines path cs [] 0 = Inr rs2" and rs: "rs = sort_key fst rs2"
    using assms(1) by (auto simp: compute_replacements_def split: sum.splits)
  have "\<forall>r \<in> set rs. fst r \<le> length lines"
    using replacements_loop_in_range[OF loop] by (simp add: rs)
  then show ?thesis using apply_replacements_defined[of rs lines] by (auto simp: rs)
qed

lemma derive_new_contents_defined: "derive_new_contents content path cs \<noteq> None"
  using compute_replacements_applicable[of "content_lines content" path cs]
  by (auto simp: derive_new_contents_def Let_def split: sum.splits option.splits)

definition finish_lines :: "ustr list \<Rightarrow> ustr" where
  "finish_lines ls = join [NL] (if last_is_empty ls then ls else ls @ [[]])"

lemma derive_new_contents_iff:
  "derive_new_contents content path cs = Some (Inr out) \<longleftrightarrow>
     (\<exists>rs ls. compute_replacements (content_lines content) path cs = Inr rs \<and>
        apply_replacements (content_lines content) rs = Some ls \<and> out = finish_lines ls)"
  by (auto simp: derive_new_contents_def finish_lines_def Let_def split: sum.splits option.splits)

lemma join_snoc_empty: "ls \<noteq> [] \<Longrightarrow> last (join [NL] (ls @ [[]])) = NL \<and> join [NL] (ls @ [[]]) \<noteq> []"
  by (induction "[NL]" ls rule: join.induct) (auto simp: join_Cons)

lemma finish_lines_newline: "finish_lines ls = [] \<or> last (finish_lines ls) = NL"
proof -
  have "join [NL] (qs @ [[]]) = [] \<or> last (join [NL] (qs @ [[]])) = NL" for qs
    using join_snoc_empty[of qs] by (cases "qs = []") auto
  note snoc = this
  show ?thesis
  proof (cases "last_is_empty ls")
    case True
    then have "finish_lines ls = join [NL] (butlast ls @ [[]])"
      by (cases ls rule: rev_cases) (auto simp: finish_lines_def last_is_empty_def)
    then show ?thesis using snoc[of "butlast ls"] by simp
  next
    case False
    then show ?thesis using snoc[of ls] by (simp add: finish_lines_def)
  qed
qed

section \<open>Properties\<close>

text \<open>
  C5. Seeking a non-empty pattern. Without the end-of-file mark the position returned is the first one, from \<open>start\<close> on, at the
  strictest level (exact, right-trimmed, trimmed, normalised punctuation) at which the pattern matches anywhere
  from \<open>start\<close> on, and nothing is returned only if no level matches anywhere there. With the mark the last possible position
  is the only one that is tried, at all levels, whatever \<open>start\<close> is; the fall-back to a search from \<open>start\<close> that the
  comment of the function promises does not take place, as the lemma after it shows.
\<close>

theorem seek_sequence_best:
  assumes "pattern \<noteq> []"
  shows "(case seek_sequence lines pattern start False of
            None \<Rightarrow> \<forall>lv j. start \<le> j \<longrightarrow> \<not> matches_at lv lines pattern j
          | Some i \<Rightarrow> \<exists>lv. best_match lv lines pattern start i) \<and>
    (case seek_sequence lines pattern start True of
            None \<Rightarrow> \<forall>lv j. j + length pattern = length lines \<longrightarrow> \<not> matches_at lv lines pattern j
          | Some i \<Rightarrow> i + length pattern = length lines \<and>
              (\<exists>lv. matches_at lv lines pattern i \<and> (\<forall>st. level st < level lv \<longrightarrow> \<not> matches_at st lines pattern i)))"
proof (rule conjI)
  show "case seek_sequence lines pattern start False of
            None \<Rightarrow> \<forall>lv j. start \<le> j \<longrightarrow> \<not> matches_at lv lines pattern j
          | Some i \<Rightarrow> \<exists>lv. best_match lv lines pattern start i"
    using seek_sequence_cases[OF assms refl, of lines start False] by (simp add: search_start_def split: option.splits)
  have "best_match lv lines pattern (search_start lines pattern start True) i \<Longrightarrow> i + length pattern = length lines \<and>
      matches_at lv lines pattern i \<and> (\<forall>st. level st < level lv \<longrightarrow> \<not> matches_at st lines pattern i)" for lv i
    by (auto simp: best_match_def matches_at_def search_start_def split: if_splits)
  moreover have "search_start lines pattern start True \<le> j" if "j + length pattern = length lines" for j
    using that by (auto simp: search_start_def)
  ultimately show "case seek_sequence lines pattern start True of
            None \<Rightarrow> \<forall>lv j. j + length pattern = length lines \<longrightarrow> \<not> matches_at lv lines pattern j
          | Some i \<Rightarrow> i + length pattern = length lines \<and>
              (\<exists>lv. matches_at lv lines pattern i \<and> (\<forall>st. level st < level lv \<longrightarrow> \<not> matches_at st lines pattern i))"
    using seek_sequence_cases[OF assms refl, of lines start True] by (fastforce split: option.splits)
qed

theorem seek_sequence_best_witness:
  "seek_sequence [[97, 32], [97]] [[97]] 0 False = Some 1 \<and> (\<exists>lv. best_match lv [[97, 32], [97]] [[97]] 0 1)"
proof -
  have s: "seek_sequence [[97, 32], [97]] [[97]] 0 False = Some 1"
    by (simp add: seek_sequence_def exact_at_def upt_rec)
  show ?thesis using seek_sequence_best[where pattern = "[[97]]" and lines = "[[97, 32], [97]]" and start = 0] s by simp
qed

text \<open>The line is there, exactly and at the start, but not at the end of the file.\<close>

lemma eof_search_does_not_fall_back:
  "matches_at Exact [[97], [98]] [[97]] 0" "seek_sequence [[97], [98]] [[97]] 0 True = None"
  by (simp_all add: matches_at_def seek_sequence_def exact_at_def normalise_def normalise_char_def trim_def trim_start_def
      trim_end_def is_ws_def)

text \<open>
  Applying an update never panics, whatever the file and the chunks (also with end-of-file
  anchors and pure additions), and what it writes is empty or ends with a newline.
\<close>

lemma derive_new_contents_total:
  "derive_new_contents original_content path chunks \<noteq> None \<and>
   (\<forall>out. derive_new_contents original_content path chunks = Some (Inr out) \<longrightarrow>
      out = [] \<or> last out = NL)"
  using derive_new_contents_defined finish_lines_newline by (auto simp: derive_new_contents_iff)

definition sample_chunk :: update_file_chunk where
  "sample_chunk = \<lparr>change_context = None, old_lines = [[97]], new_lines = [[98]], is_end_of_file = False\<rparr>"

lemma sample_derive: "derive_new_contents [97, NL, 99, NL] path [sample_chunk] = Some (Inr [98, NL, 99, NL])"
  by (simp add: derive_new_contents_def content_lines_def last_is_empty_def compute_replacements_def
      find_old_lines_def seek_sequence_def exact_at_def sample_chunk_def apply_replacements_def
      apply_replacement_def remove_at_def insert_at_def eval_nat_numeral upt_rec)

lemma derive_new_contents_total_witness:
  "last [98, NL, 99, NL] = NL \<and> derive_new_contents [97, NL, 99, NL] [112] [sample_chunk] \<noteq> None"
  using derive_new_contents_total[of "[97, NL, 99, NL]" "[112]" "[sample_chunk]"] sample_derive by auto

text \<open>
  C4. An update of replacement chunks is the reference splice: there is one replacement per chunk, in
  order and without overlap; each removes lines that match the old lines of its chunk (or the old
  lines without a trailing empty one) at some strictness and inserts its new lines; the result is the
  untouched lines of the original with these segments in place.
\<close>

theorem derive_new_contents_splices:
  assumes "list_all replaces chunks"
    and "derive_new_contents original_content path chunks = Some (Inr out)"
  shows "\<exists>rs. list_all2 (fulfils (content_lines original_content)) chunks rs \<and>
    in_order 0 (length (content_lines original_content)) rs \<and>
    out = finish_lines (splice 0 (content_lines original_content) rs)"
proof -
  obtain rs ls where rs: "compute_replacements (content_lines original_content) path chunks = Inr rs"
    and ls: "apply_replacements (content_lines original_content) rs = Some ls" "out = finish_lines ls"
    using assms(2) by (auto simp: derive_new_contents_iff)
  have spec: "list_all2 (fulfils (content_lines original_content)) chunks rs"
    "in_order 0 (length (content_lines original_content)) rs"
    using compute_replacements_spec[OF rs assms(1)] by auto
  then show ?thesis using ls apply_replacements_splice[OF spec(2)] by auto
qed

theorem derive_new_contents_splices_witness:
  "\<exists>rs. list_all2 (fulfils (content_lines [97, NL, 99, NL])) [sample_chunk] rs \<and>
    in_order 0 (length (content_lines [97, NL, 99, NL])) rs \<and>
    [98, NL, 99, NL] = finish_lines (splice 0 (content_lines [97, NL, 99, NL]) rs)"
  using derive_new_contents_splices[OF _ sample_derive]
  by (simp add: replaces_def sample_chunk_def)

text \<open>
  Overlapping replacements do lose text: a pure addition goes before a trailing blank line, also
  when an earlier chunk replaces that blank line. Here the added line \<open>z\<close> is not in the result.
\<close>

lemma addition_before_blank_lost:
  "derive_new_contents [97, NL, NL] [112]
     [\<lparr>change_context = None, old_lines = [[97], []], new_lines = [[120], []], is_end_of_file = False\<rparr>,
      \<lparr>change_context = None, old_lines = [], new_lines = [[122]], is_end_of_file = False\<rparr>]
   = Some (Inr [120, NL, NL])"
  by (simp add: derive_new_contents_def content_lines_def last_is_empty_def compute_replacements_def
      find_old_lines_def seek_sequence_def exact_at_def apply_replacements_def
      apply_replacement_def remove_at_def insert_at_def eval_nat_numeral upt_rec)

end
