(* ===== verification/Rust_Path.thy ===== *)
theory Rust_Path
  imports Rust_Prelude
begin

text \<open>
  \<open>std::path\<close> on Unix, as far as the permission code uses it, and the lexical normalisation of
  \<open>crates/codegen/xai-grok-paths/src/lib.rs\<close>.

  A path is a string; \<open>/\<close> is the only separator. Its components are the root, a leading \<open>.\<close>, and the
  segments other than the empty one and \<open>.\<close>.
\<close>

abbreviation SLASH :: uchar where "SLASH \<equiv> 47"
abbreviation DOT :: uchar where "DOT \<equiv> 46"

section \<open>Components\<close>

datatype component = RootDir | CurDir | ParentDir | Normal ustr

definition is_absolute :: "ustr \<Rightarrow> bool" where
  "is_absolute p \<longleftrightarrow> starts_with p [SLASH]"

definition path_lead :: "ustr \<Rightarrow> ustr" where
  "path_lead p =
     (if is_absolute p then [SLASH]
      else if p = [DOT] \<or> starts_with p [DOT, SLASH] then [DOT]
      else [])"

definition trivial_seg :: "ustr \<Rightarrow> bool" where
  "trivial_seg s \<longleftrightarrow> s = [] \<or> s = [DOT]"

definition body_segs :: "ustr \<Rightarrow> ustr list" where
  "body_segs p = split_char SLASH (drop (length (path_lead p)) p)"

definition seg_component :: "ustr \<Rightarrow> component" where
  "seg_component s = (if s = [DOT, DOT] then ParentDir else Normal s)"

definition lead_components :: "ustr \<Rightarrow> component list" where
  "lead_components p =
     (if is_absolute p then [RootDir] else if path_lead p = [DOT] then [CurDir] else [])"

definition body_components :: "ustr \<Rightarrow> component list" where
  "body_components p = map seg_component (filter (\<lambda>s. \<not> trivial_seg s) (body_segs p))"

definition components :: "ustr \<Rightarrow> component list" where
  "components p = lead_components p @ body_components p"

definition component_str :: "component \<Rightarrow> ustr" where
  "component_str c =
     (case c of RootDir \<Rightarrow> [SLASH] | CurDir \<Rightarrow> [DOT] | ParentDir \<Rightarrow> [DOT, DOT] | Normal s \<Rightarrow> s)"

section \<open>Operations\<close>

definition path_join :: "ustr \<Rightarrow> ustr \<Rightarrow> ustr" where
  "path_join base p =
     (if is_absolute p then p
      else if base = [] \<or> last base = SLASH then base @ p
      else base @ [SLASH] @ p)"

text \<open>\<open>components.into_iter().collect::<PathBuf>()\<close>.\<close>

definition collect_path :: "component list \<Rightarrow> ustr" where
  "collect_path cs = foldl path_join [] (map component_str cs)"

definition trim_right_segs :: "ustr list \<Rightarrow> ustr list" where
  "trim_right_segs ss = rev (dropWhile trivial_seg (rev ss))"

definition path_parent :: "ustr \<Rightarrow> ustr option" where
  "path_parent p =
     (case trim_right_segs (body_segs p) of
        [] \<Rightarrow> if path_lead p = [DOT] then Some [] else None
      | ss \<Rightarrow> Some (path_lead p @ join [SLASH] (trim_right_segs (butlast ss))))"

definition path_file_name :: "ustr \<Rightarrow> ustr option" where
  "path_file_name p =
     (case trim_right_segs (body_segs p) of
        [] \<Rightarrow> None
      | ss \<Rightarrow> if last ss = [DOT, DOT] then None else Some (last ss))"

fun drop_comps :: "nat \<Rightarrow> ustr list \<Rightarrow> ustr list" where
  "drop_comps 0 ss = dropWhile trivial_seg ss"
| "drop_comps (Suc k) ss = drop_comps k (tl (dropWhile trivial_seg ss))"

text \<open>\<open>Path::strip_prefix\<close>: by components; the rest is a slice of \<open>p\<close>, trimmed at both ends.\<close>

definition path_strip_prefix :: "ustr \<Rightarrow> ustr \<Rightarrow> ustr option" where
  "path_strip_prefix p q =
     (case strip_prefix (components q) (components p) of
        None \<Rightarrow> None
      | Some rest \<Rightarrow>
          Some (if components q = [] then path_lead p @ join [SLASH] (trim_right_segs (body_segs p))
                else join [SLASH] (trim_right_segs
                       (drop_comps (length (body_components p) - length rest) (body_segs p)))))"

section \<open>Lexical normalisation\<close>

text \<open>The vector \<open>components\<close> is kept in reverse.\<close>

definition norm_step :: "component list \<Rightarrow> component \<Rightarrow> component list" where
  "norm_step acc c =
     (case c of
        CurDir \<Rightarrow> acc
      | ParentDir \<Rightarrow>
          (case acc of
             Normal _ # acc' \<Rightarrow> acc'
           | RootDir # _ \<Rightarrow> acc
           | _ \<Rightarrow> c # acc)
      | _ \<Rightarrow> c # acc)"

definition norm_components :: "component list \<Rightarrow> component list" where
  "norm_components cs = rev (foldl norm_step [] cs)"

definition normalize_lexically :: "ustr \<Rightarrow> ustr" where
  "normalize_lexically p =
     (let cs = norm_components (components p) in if cs = [] then [DOT] else collect_path cs)"

section \<open>Facts\<close>

definition good_seg :: "ustr \<Rightarrow> bool" where
  "good_seg s \<longleftrightarrow> SLASH \<notin> set s \<and> \<not> trivial_seg s"

lemma seg_nonempty: "good_seg s \<Longrightarrow> s \<noteq> [] \<and> hd s \<noteq> SLASH \<and> last s \<noteq> SLASH"
  unfolding good_seg_def trivial_seg_def by (metis hd_in_set last_in_set)

lemma body_segs_no_slash: "s \<in> set (body_segs p) \<Longrightarrow> SLASH \<notin> set s"
  by (simp add: body_segs_def split_char_no_sep)

text \<open>A path whose first segment is a proper one has no lead, and its segments are those joined.\<close>

lemma lead_join:
  assumes "good_seg s" "\<forall>x \<in> set ss. SLASH \<notin> set x"
  shows "path_lead (join [SLASH] (s # ss)) = []" "\<not> is_absolute (join [SLASH] (s # ss))"
    "body_segs (join [SLASH] (s # ss)) = s # ss"
proof -
  have j: "\<exists>t. join [SLASH] (s # ss) = s @ t \<and> (t = [] \<or> hd t = SLASH)" by (cases ss) auto
  obtain c cs where s: "s = c # cs" using seg_nonempty[OF assms(1)] by (cases s) auto
  show abs: "\<not> is_absolute (join [SLASH] (s # ss))"
    using j seg_nonempty[OF assms(1)] s by (auto simp: is_absolute_def starts_with_iff)
  have "join [SLASH] (s # ss) \<noteq> [DOT] \<and> \<not> starts_with (join [SLASH] (s # ss)) [DOT, SLASH]"
    using j s assms(1) by (cases cs) (auto simp: starts_with_iff good_seg_def trivial_seg_def)
  with abs show lead: "path_lead (join [SLASH] (s # ss)) = []" by (simp add: path_lead_def)
  have "split_char SLASH (join [SLASH] (s # ss)) = s # ss"
    using assms by (intro split_char_join) (auto simp: good_seg_def)
  with lead show "body_segs (join [SLASH] (s # ss)) = s # ss" by (simp add: body_segs_def)
qed

lemma components_join:
  assumes "\<forall>x \<in> set ss. SLASH \<notin> set x" "ss = [] \<or> \<not> trivial_seg (hd ss)"
  shows "components (join [SLASH] ss) = map seg_component (filter (\<lambda>s. \<not> trivial_seg s) ss)"
proof (cases ss)
  case Nil
  then show ?thesis
    by (simp add: components_def lead_components_def body_components_def body_segs_def path_lead_def
        is_absolute_def starts_with_def trivial_seg_def)
next
  case (Cons s ss')
  with assms have "good_seg s" by (simp add: good_seg_def)
  with Cons assms lead_join[of s ss'] show ?thesis
    by (simp add: components_def lead_components_def body_components_def)
qed

lemma filter_drop_comps: "filter (\<lambda>s. \<not> trivial_seg s) (drop_comps k ss) = drop k (filter (\<lambda>s. \<not> trivial_seg s) ss)"
proof (induction k ss rule: drop_comps.induct)
  case (1 ss)
  show ?case by (induction ss) auto
next
  case (2 k ss)
  have "filter (\<lambda>s. \<not> trivial_seg s) (tl (dropWhile trivial_seg ss)) = tl (filter (\<lambda>s. \<not> trivial_seg s) ss)"
    by (induction ss) auto
  with 2 show ?case by (simp add: drop_Suc)
qed

lemma hd_drop_comps: "drop_comps k ss = [] \<or> \<not> trivial_seg (hd (drop_comps k ss))"
proof (induction k ss rule: drop_comps.induct)
  case (1 ss)
  show ?case using hd_dropWhile[of trivial_seg ss] by auto
qed simp

lemma set_drop_comps: "set (drop_comps k ss) \<subseteq> set ss"
proof (induction k ss rule: drop_comps.induct)
  case (2 k ss)
  have "set (tl (dropWhile trivial_seg ss)) \<subseteq> set ss" by (metis dropWhile_eq_drop drop_Suc set_drop_subset tl_drop)
  with 2 show ?case by auto
qed (auto dest: set_dropWhileD)

lemma trim_right_decomp: "\<exists>t. ss = trim_right_segs ss @ t \<and> list_all trivial_seg t"
proof -
  have "ss = trim_right_segs ss @ rev (takeWhile trivial_seg (rev ss))"
    unfolding trim_right_segs_def by (metis rev_append rev_rev_ident takeWhile_dropWhile_id)
  moreover have "list_all trivial_seg (rev (takeWhile trivial_seg (rev ss)))"
    by (auto simp: list_all_iff dest: set_takeWhileD)
  ultimately show ?thesis by blast
qed

lemma trim_right_segs_facts:
  "filter (\<lambda>s. \<not> trivial_seg s) (trim_right_segs ss) = filter (\<lambda>s. \<not> trivial_seg s) ss"
  "trim_right_segs ss = [] \<or> hd (trim_right_segs ss) = hd ss" "set (trim_right_segs ss) \<subseteq> set ss"
proof -
  obtain t where t: "ss = trim_right_segs ss @ t" "list_all trivial_seg t" using trim_right_decomp by blast
  have "filter (\<lambda>s. \<not> trivial_seg s) t = []" using t(2) by (auto simp: list_all_iff filter_empty_conv)
  then show "filter (\<lambda>s. \<not> trivial_seg s) (trim_right_segs ss) = filter (\<lambda>s. \<not> trivial_seg s) ss"
    using t(1) by (metis append_Nil2 filter_append)
  show "trim_right_segs ss = [] \<or> hd (trim_right_segs ss) = hd ss" using t(1) by (metis hd_append2)
  show "set (trim_right_segs ss) \<subseteq> set ss" using t(1) by (metis Un_iff set_append subsetI)
qed

text \<open>The rest of a stripped path has the remaining components.\<close>

lemma components_strip_prefix:
  assumes "path_strip_prefix p q = Some r" "components q \<noteq> []"
  shows "components p = components q @ components r"
proof -
  obtain rest where rest: "components p = components q @ rest"
    and r: "r = join [SLASH] (trim_right_segs (drop_comps (length (body_components p) - length rest) (body_segs p)))"
    using assms by (auto simp: path_strip_prefix_def strip_prefix_Some_iff split: option.splits)
  let ?ss = "trim_right_segs (drop_comps (length (body_components p) - length rest) (body_segs p))"
  have "length (lead_components p) \<le> 1" by (simp add: lead_components_def)
  then have "\<exists>z. body_components p = z @ rest"
    using rest assms(2) unfolding components_def[of p]
    by (cases "lead_components p"; cases "components q") auto
  then have d: "drop (length (body_components p) - length rest) (body_components p) = rest" by auto
  have "components r = map seg_component (filter (\<lambda>s. \<not> trivial_seg s) ?ss)"
    unfolding r
  proof (rule components_join)
    show "\<forall>x \<in> set ?ss. SLASH \<notin> set x"
      using trim_right_segs_facts(3) set_drop_comps body_segs_no_slash by blast
    show "?ss = [] \<or> \<not> trivial_seg (hd ?ss)"
      using trim_right_segs_facts(2)[of "drop_comps (length (body_components p) - length rest) (body_segs p)"]
        hd_drop_comps[of "length (body_components p) - length rest" "body_segs p"]
      by (metis dropWhile.simps(1) list.size(3) rev.simps(1) rev_is_Nil_conv trim_right_segs_def)
  qed
  also have "\<dots> = drop (length (body_components p) - length rest) (body_components p)"
    by (simp add: trim_right_segs_facts(1) filter_drop_comps drop_map body_components_def)
  finally show ?thesis using d rest by simp
qed

subsection \<open>Collecting and normalising\<close>

definition body_ok :: "component \<Rightarrow> bool" where
  "body_ok c \<longleftrightarrow> (c = ParentDir \<or> (\<exists>s. c = Normal s \<and> good_seg s \<and> s \<noteq> [DOT, DOT]))"

lemma body_ok_str: "body_ok c \<Longrightarrow> good_seg (component_str c) \<and> seg_component (component_str c) = c"
  by (auto simp: body_ok_def component_str_def seg_component_def good_seg_def trivial_seg_def)

lemma body_components_ok: "list_all body_ok (body_components p)"
  by (auto simp: list_all_iff body_components_def body_ok_def seg_component_def good_seg_def
      dest: body_segs_no_slash)

lemma join_snoc: "ss \<noteq> [] \<Longrightarrow> join sep (ss @ [x]) = join sep ss @ sep @ x"
  by (induction sep ss rule: join.induct) auto

lemma join_ends: "list_all good_seg ss \<Longrightarrow> ss \<noteq> [] \<Longrightarrow> join [SLASH] ss \<noteq> [] \<and> last (join [SLASH] ss) \<noteq> SLASH"
proof (induction ss rule: rev_induct)
  case (snoc x xs)
  then show ?case using seg_nonempty[of x] by (cases "xs = []") (auto simp: join_snoc)
qed simp

lemma foldl_join:
  assumes "list_all good_seg ss" "base = [] \<or> base = [SLASH]"
  shows "foldl path_join base ss = base @ join [SLASH] ss"
  using assms(1)
proof (induction ss rule: rev_induct)
  case (snoc x xs)
  have "\<not> is_absolute x" using snoc seg_nonempty[of x] by (auto simp: is_absolute_def starts_with_iff)
  then show ?case using snoc assms(2) join_ends[of xs]
    by (cases "xs = []") (auto simp: path_join_def join_snoc)
qed simp

text \<open>Collecting proper components gives a path with those components.\<close>

lemma components_collect:
  assumes "list_all body_ok cs"
  shows "components (collect_path (RootDir # cs)) = RootDir # cs"
    "cs \<noteq> [] \<Longrightarrow> components (collect_path cs) = cs"
proof -
  let ?ss = "map component_str cs"
  have ss: "list_all good_seg ?ss" "map seg_component ?ss = cs"
    using assms body_ok_str by (auto simp: list_all_iff map_idI)
  then have f: "filter (\<lambda>s. \<not> trivial_seg s) ?ss = ?ss" by (auto simp: list_all_iff good_seg_def filter_id_conv)
  have slash: "\<forall>x \<in> set ?ss. SLASH \<notin> set x" using ss(1) by (simp add: list_all_iff good_seg_def)
  have "collect_path (RootDir # cs) = SLASH # join [SLASH] ?ss"
    using foldl_join[OF ss(1)] by (simp add: collect_path_def component_str_def path_join_def is_absolute_def starts_with_def)
  moreover have "body_components (SLASH # join [SLASH] ?ss) = cs"
  proof (cases cs)
    case Nil
    then show ?thesis
      by (simp add: body_components_def body_segs_def path_lead_def is_absolute_def starts_with_def trivial_seg_def)
  next
    case (Cons a l)
    then have "body_segs (SLASH # join [SLASH] ?ss) = ?ss"
      using split_char_join[OF _ slash] by (simp add: body_segs_def path_lead_def is_absolute_def starts_with_def)
    with f ss(2) show ?thesis by (simp add: body_components_def)
  qed
  ultimately show "components (collect_path (RootDir # cs)) = RootDir # cs"
    by (simp add: components_def lead_components_def is_absolute_def starts_with_def)
  assume "cs \<noteq> []"
  then have "collect_path cs = join [SLASH] ?ss" using foldl_join[OF ss(1)] by (simp add: collect_path_def)
  moreover have "?ss = [] \<or> \<not> trivial_seg (hd ?ss)" using ss(1) by (cases ?ss) (auto simp: good_seg_def)
  ultimately show "components (collect_path cs) = cs" using components_join[OF slash] f ss(2) by simp
qed

text \<open>What the vector may hold: the root first, if at all; no \<open>..\<close> above a proper name or the root.\<close>

definition norm_ok :: "component list \<Rightarrow> bool" where
  "norm_ok acc \<longleftrightarrow>
     (\<exists>ns ps. acc = map Normal ns @ ps \<and> list_all body_ok (map Normal ns) \<and>
        (ps = [RootDir] \<or> (\<forall>p \<in> set ps. p = ParentDir)))"

lemma norm_ok_init: "norm_ok []" "norm_ok [RootDir]"
proof -
  show "norm_ok []" unfolding norm_ok_def by (intro exI[of _ "[]"]) simp
  show "norm_ok [RootDir]" unfolding norm_ok_def by (intro exI[of _ "[]"] exI[of _ "[RootDir]"]) simp
qed

lemma norm_step_ok: "norm_ok acc \<Longrightarrow> body_ok c \<Longrightarrow> norm_ok (norm_step acc c)"
proof -
  assume "norm_ok acc" and c: "body_ok c"
  then obtain ns ps where a: "acc = map Normal ns @ ps" "list_all body_ok (map Normal ns)"
    "ps = [RootDir] \<or> (\<forall>p \<in> set ps. p = ParentDir)"
    by (auto simp: norm_ok_def)
  consider s where "c = Normal s" | "c = ParentDir" using c by (auto simp: body_ok_def)
  then show ?thesis
  proof cases
    case 1
    then show ?thesis using a c unfolding norm_ok_def
      by (intro exI[of _ "s # ns"] exI[of _ ps]) (simp add: norm_step_def)
  next
    case 2
    show ?thesis
    proof (cases ns)
      case (Cons n ns')
      then show ?thesis using a 2 unfolding norm_ok_def
        by (intro exI[of _ ns'] exI[of _ ps]) (simp add: norm_step_def)
    next
      case Nil
      then have "norm_step acc c = (if ps = [RootDir] then ps else ParentDir # ps)"
        using a 2 by (cases ps) (auto simp: norm_step_def)
      then show ?thesis using a Nil unfolding norm_ok_def
        by (intro exI[of _ "[]"] exI[of _ "if ps = [RootDir] then ps else ParentDir # ps"]) auto
    qed
  qed
qed

lemma norm_steps_ok: "norm_ok acc \<Longrightarrow> list_all body_ok cs \<Longrightarrow> norm_ok (foldl norm_step acc cs)"
  by (induction cs arbitrary: acc) (auto intro: norm_step_ok)

lemma norm_step_root: "norm_ok acc \<Longrightarrow> acc \<noteq> [] \<and> last acc = RootDir \<Longrightarrow> body_ok c \<Longrightarrow>
    norm_step acc c \<noteq> [] \<and> last (norm_step acc c) = RootDir"
  by (cases acc) (auto simp: norm_step_def body_ok_def split: component.splits)

lemma norm_steps_root: "norm_ok acc \<Longrightarrow> acc \<noteq> [] \<and> last acc = RootDir \<Longrightarrow> list_all body_ok cs \<Longrightarrow>
    foldl norm_step acc cs \<noteq> [] \<and> last (foldl norm_step acc cs) = RootDir"
  by (induction cs arbitrary: acc) (auto simp: norm_step_ok norm_step_root)

lemma norm_components_ok: "norm_ok (rev (norm_components (components p)))"
proof -
  have "foldl norm_step [] (lead_components p) \<in> {[], [RootDir]}"
    by (auto simp: lead_components_def norm_step_def)
  then have "norm_ok (foldl norm_step [] (lead_components p))" using norm_ok_init by auto
  then show ?thesis using norm_steps_ok body_components_ok by (simp add: norm_components_def components_def)
qed

text \<open>The normalised path of an absolute one is the root followed by proper names: no \<open>..\<close> is left.\<close>

lemma normalize_absolute:
  assumes "is_absolute p"
  obtains ns where "components (normalize_lexically p) = RootDir # map Normal ns" "list_all body_ok (map Normal ns)"
    "normalize_lexically p = collect_path (RootDir # map Normal ns)"
proof -
  let ?acc = "foldl norm_step [RootDir] (body_components p)"
  have e: "norm_components (components p) = rev ?acc"
    using assms by (simp add: norm_components_def components_def lead_components_def norm_step_def)
  have "norm_ok ?acc" "last ?acc = RootDir" "?acc \<noteq> []"
    using norm_ok_init norm_steps_ok norm_steps_root body_components_ok by simp_all
  then obtain ns ps where a: "?acc = map Normal ns @ ps" "list_all body_ok (map Normal ns)"
    "ps = [RootDir] \<or> (\<forall>p \<in> set ps. p = ParentDir)"
    by (auto simp: norm_ok_def)
  have "ps = [RootDir]"
  proof (rule ccontr)
    assume "ps \<noteq> [RootDir]"
    with a have "RootDir \<notin> set ?acc" by auto
    with \<open>last ?acc = RootDir\<close> \<open>?acc \<noteq> []\<close> show False by (metis last_in_set)
  qed
  with a e have n: "norm_components (components p) = RootDir # map Normal (rev ns)" by (simp add: rev_map)
  then have "normalize_lexically p = collect_path (RootDir # map Normal (rev ns))"
    by (simp add: normalize_lexically_def)
  moreover have ok: "list_all body_ok (map Normal (rev ns))" using a(2) by (auto simp: list_all_iff)
  ultimately show ?thesis using components_collect(1)[OF ok] that[of "rev ns"] by simp
qed

end
