(* ===== verification/Patch_Tool.thy ===== *)
theory Patch_Tool
  imports Patch_Apply Rust_Path
begin

text \<open>
  The \<open>apply_patch\<close> tool itself (\<open>apply_patch/tool.rs\<close>) and the hook of the memory policy it calls
  (\<open>xai-grok-tools/src/types/memory_v2.rs\<close>).

  The file system (\<open>AsyncFileSystem\<close> and \<open>tokio::fs::create_dir_all\<close>) and the memory policy
  (\<open>MemoryV2Access\<close>) are trait objects: the fields of \<open>tool_env\<close>, over a world of any type. Files
  are read as text (the tool decodes with \<open>from_utf8_lossy\<close>). Notifications are kept in the order
  they are sent. A panic would be \<open>None\<close>.
\<close>

section \<open>The outside\<close>

datatype memory_v2_write = Outside | Written

record 'w memory_access =
  validate_read :: "'w \<Rightarrow> ustr \<Rightarrow> ustr + bool"
  preflight_write :: "'w \<Rightarrow> ustr \<Rightarrow> ustr \<Rightarrow> ustr + bool"
  write_memory :: "ustr \<Rightarrow> ustr \<Rightarrow> 'w \<Rightarrow> (ustr + memory_v2_write) \<times> 'w"

record 'w tool_env =
  read_file :: "'w \<Rightarrow> ustr \<Rightarrow> ustr + ustr"
  write_file :: "ustr \<Rightarrow> ustr \<Rightarrow> 'w \<Rightarrow> (ustr + unit) \<times> 'w"
  delete_file :: "ustr \<Rightarrow> 'w \<Rightarrow> (ustr + unit) \<times> 'w"
  create_dir_all :: "ustr \<Rightarrow> 'w \<Rightarrow> (ustr + unit) \<times> 'w"
  memory :: "'w memory_access option"

definition validate_memory_v2_read :: "'w tool_env \<Rightarrow> 'w \<Rightarrow> ustr \<Rightarrow> ustr + bool" where
  "validate_memory_v2_read env w path =
     (case memory env of None \<Rightarrow> Inr False | Some m \<Rightarrow> validate_read m w path)"

definition preflight_memory_v2_write :: "'w tool_env \<Rightarrow> 'w \<Rightarrow> ustr \<Rightarrow> ustr \<Rightarrow> ustr + bool" where
  "preflight_memory_v2_write env w path contents =
     (case memory env of None \<Rightarrow> Inr False | Some m \<Rightarrow> preflight_write m w path contents)"

definition write_memory_v2_file ::
    "'w tool_env \<Rightarrow> ustr \<Rightarrow> ustr \<Rightarrow> 'w \<Rightarrow> (ustr + memory_v2_write) \<times> 'w" where
  "write_memory_v2_file env path contents w =
     (case memory env of None \<Rightarrow> (Inr Outside, w) | Some m \<Rightarrow> write_memory m path contents w)"

section \<open>Changes\<close>

datatype file_change =
    Add ustr ustr
  | Delete ustr ustr
  | Update ustr ustr ustr
  | Move ustr ustr ustr ustr

record file_written =
  tool_call_id :: ustr
  absolute_path :: ustr
  content :: ustr
  previous_content :: "ustr option"
  is_new_file :: bool

record file_result =
  res_path :: ustr
  action :: ustr
  old_text :: "ustr option"
  new_text :: ustr
  move_to :: "ustr option"

datatype tool_output =
    Success "file_result list" ustr
  | ParseError ustr
  | ApplicationError ustr
  | EmptyPatch ustr

datatype tool_error = Execution ustr

record 'w tool_state =
  world :: 'w
  notifications :: "file_written list"

fun parse_error_display :: "parse_error \<Rightarrow> ustr" where
  "parse_error_display (InvalidPatchError m) = lit ''invalid patch: '' @ m"
| "parse_error_display (InvalidHunkError m n) =
     lit ''invalid hunk at line '' @ nat_str n @ lit '', '' @ m"

fun apply_error_display :: "apply_error \<Rightarrow> ustr" where
  "apply_error_display (Parse e) = parse_error_display e"
| "apply_error_display (ComputeReplacements m) = m"
| "apply_error_display (Io ctx m p) = ctx @ lit '': '' @ m"

definition compute_change ::
    "'w tool_env \<Rightarrow> ustr \<Rightarrow> 'w \<Rightarrow> hunk \<Rightarrow> (ustr + file_change) option" where
  "compute_change env cwd w h =
     (case h of
        AddFile path contents \<Rightarrow> Some (Inr (Add (path_join cwd path) contents))
      | DeleteFile path \<Rightarrow>
          (let resolved = path_join cwd path in
           case read_file env w resolved of
             Inl e \<Rightarrow> Some (Inl (lit ''Failed to read file: '' @ resolved @ lit '', '' @ e))
           | Inr original_content \<Rightarrow> Some (Inr (Delete resolved original_content)))
      | UpdateFile path move_path chunks \<Rightarrow>
          (let resolved = path_join cwd path in
           case read_file env w resolved of
             Inl e \<Rightarrow>
               Some (Inl (lit ''Failed to read file to update: '' @ resolved @ lit '', '' @ e))
           | Inr original_content \<Rightarrow>
               (case derive_new_contents original_content resolved chunks of
                  None \<Rightarrow> None
                | Some (Inl e) \<Rightarrow>
                    Some (Inl (case e of
                                 ComputeReplacements msg \<Rightarrow> msg
                               | other \<Rightarrow> apply_error_display other))
                | Some (Inr new_content) \<Rightarrow>
                    Some (Inr (case move_path of
                                 Some dest \<Rightarrow>
                                   Move resolved (path_join cwd dest) original_content new_content
                               | None \<Rightarrow> Update resolved original_content new_content)))))"

fun compute_all_changes ::
    "'w tool_env \<Rightarrow> ustr \<Rightarrow> 'w \<Rightarrow> hunk list \<Rightarrow> (ustr + file_change list) option" where
  "compute_all_changes env cwd w [] = Some (Inr [])"
| "compute_all_changes env cwd w (h # hs) =
     (case compute_change env cwd w h of
        None \<Rightarrow> None
      | Some (Inl e) \<Rightarrow> Some (Inl e)
      | Some (Inr c) \<Rightarrow>
          map_option (map_sum (\<lambda>e. e) (\<lambda>cs. c # cs)) (compute_all_changes env cwd w hs))"

definition reject_memory_v2_destructive_path :: "'w tool_env \<Rightarrow> 'w \<Rightarrow> ustr \<Rightarrow> ustr + unit" where
  "reject_memory_v2_destructive_path env w path =
     (case validate_memory_v2_read env w path of
        Inl e \<Rightarrow> Inl e
      | Inr inside \<Rightarrow>
          if inside
          then Inl (path @ lit '' is inside a memory directory; apply_patch cannot delete or move memory files. Use the memory workflow instead: edit topic files in place or manage memories with the memory tools.'')
          else Inr ())"

fun preflight_change :: "'w tool_env \<Rightarrow> 'w \<Rightarrow> file_change \<Rightarrow> ustr + unit" where
  "preflight_change env w (Add path c) = map_sum (\<lambda>e. e) (\<lambda>_. ()) (preflight_memory_v2_write env w path c)"
| "preflight_change env w (Update path old new) =
     map_sum (\<lambda>e. e) (\<lambda>_. ()) (preflight_memory_v2_write env w path new)"
| "preflight_change env w (Delete path old) = reject_memory_v2_destructive_path env w path"
| "preflight_change env w (Move source_path dest_path old new) =
     (case reject_memory_v2_destructive_path env w source_path of
        Inl e \<Rightarrow> Inl e
      | Inr _ \<Rightarrow> reject_memory_v2_destructive_path env w dest_path)"

fun preflight_memory_v2_changes :: "'w tool_env \<Rightarrow> 'w \<Rightarrow> file_change list \<Rightarrow> ustr + unit" where
  "preflight_memory_v2_changes env w [] = Inr ()"
| "preflight_memory_v2_changes env w (c # cs) =
     (case preflight_change env w c of
        Inl e \<Rightarrow> Inl e
      | Inr _ \<Rightarrow> preflight_memory_v2_changes env w cs)"

section \<open>Writing\<close>

definition write_via_memory_v2 ::
    "'w tool_env \<Rightarrow> ustr \<Rightarrow> ustr \<Rightarrow> 'w \<Rightarrow> (ustr + bool) \<times> 'w" where
  "write_via_memory_v2 env path contents w =
     (case write_memory_v2_file env path contents w of
        (Inl e, w) \<Rightarrow> (Inl e, w)
      | (Inr Written, w) \<Rightarrow> (Inr True, w)
      | (Inr Outside, w) \<Rightarrow> (Inr False, w))"

definition ensure_parent_dirs :: "'w tool_env \<Rightarrow> ustr \<Rightarrow> 'w \<Rightarrow> (ustr + unit) \<times> 'w" where
  "ensure_parent_dirs env path w =
     (case path_parent path of
        Some parent \<Rightarrow> if parent \<noteq> [] then create_dir_all env parent w else (Inr (), w)
      | None \<Rightarrow> (Inr (), w))"

text \<open>Two fallible effects in sequence, the second only after success of the first.\<close>

definition and_then ::
    "('w \<Rightarrow> (ustr + unit) \<times> 'w) \<Rightarrow> ('w \<Rightarrow> (ustr + unit) \<times> 'w) \<Rightarrow> 'w \<Rightarrow> (ustr + unit) \<times> 'w" where
  "and_then f g w = (case f w of (Inl e, w) \<Rightarrow> (Inl e, w) | (Inr _, w) \<Rightarrow> g w)"

text \<open>
  One iteration of phase 3: \<open>Inl\<close> leaves the loop with an \<open>ApplicationError\<close> output or a tool error;
  \<open>Inr\<close> gives the notifications sent and the result recorded.
\<close>

definition apply_change ::
    "'w tool_env \<Rightarrow> ustr \<Rightarrow> file_change \<Rightarrow> 'w \<Rightarrow>
     (tool_error + tool_output, file_written list \<times> file_result) sum \<times> 'w" where
  "apply_change env call_id c w =
     (case c of
        Add path text \<Rightarrow>
          (case write_via_memory_v2 env path text w of
             (Inl msg, w) \<Rightarrow> (Inl (Inr (ApplicationError msg)), w)
           | (Inr is_memory_write, w) \<Rightarrow>
               (case (if is_memory_write then (Inr (), w)
                      else and_then (ensure_parent_dirs env path) (write_file env path text) w) of
                  (Inl e, w) \<Rightarrow> (Inl (Inl (Execution e)), w)
                | (Inr _, w) \<Rightarrow>
                    (Inr ([\<lparr>tool_call_id = call_id, absolute_path = path, content = text,
                            previous_content = None, is_new_file = True\<rparr>],
                          \<lparr>res_path = path, action = lit ''added'', old_text = None,
                           new_text = text, move_to = None\<rparr>), w)))
      | Delete path original_content \<Rightarrow>
          (case delete_file env path w of
             (Inl e, w) \<Rightarrow> (Inl (Inl (Execution e)), w)
           | (Inr _, w) \<Rightarrow>
               (Inr ([\<lparr>tool_call_id = call_id, absolute_path = path, content = [],
                       previous_content = Some original_content, is_new_file = False\<rparr>],
                     \<lparr>res_path = path, action = lit ''deleted'', old_text = Some original_content,
                      new_text = [], move_to = None\<rparr>), w))
      | Update path original_content new_content \<Rightarrow>
          (case write_via_memory_v2 env path new_content w of
             (Inl msg, w) \<Rightarrow> (Inl (Inr (ApplicationError msg)), w)
           | (Inr is_memory_write, w) \<Rightarrow>
               (case (if is_memory_write then (Inr (), w) else write_file env path new_content w) of
                  (Inl e, w) \<Rightarrow> (Inl (Inl (Execution e)), w)
                | (Inr _, w) \<Rightarrow>
                    (Inr ([\<lparr>tool_call_id = call_id, absolute_path = path, content = new_content,
                            previous_content = Some original_content, is_new_file = False\<rparr>],
                          \<lparr>res_path = path, action = lit ''modified'',
                           old_text = Some original_content, new_text = new_content,
                           move_to = None\<rparr>), w)))
      | Move source_path dest_path original_content new_content \<Rightarrow>
          (case and_then (and_then (ensure_parent_dirs env dest_path)
                                   (write_file env dest_path new_content))
                         (delete_file env source_path) w of
             (Inl e, w) \<Rightarrow> (Inl (Inl (Execution e)), w)
           | (Inr _, w) \<Rightarrow>
               (Inr ([\<lparr>tool_call_id = call_id, absolute_path = dest_path, content = new_content,
                       previous_content = None, is_new_file = True\<rparr>,
                      \<lparr>tool_call_id = call_id, absolute_path = source_path, content = [],
                       previous_content = Some original_content, is_new_file = False\<rparr>],
                     \<lparr>res_path = source_path, action = lit ''moved'',
                      old_text = Some original_content, new_text = new_content,
                      move_to = Some dest_path\<rparr>), w)))"

definition action_prefix :: "ustr \<Rightarrow> ustr" where
  "action_prefix a =
     (if a = lit ''added'' then lit ''A'' else if a = lit ''deleted'' then lit ''D'' else lit ''M'')"

definition build_summary :: "file_result list \<Rightarrow> ustr" where
  "build_summary results =
     lit ''Success. Updated the following files:'' @ [NL] @
     concat (map (\<lambda>r. action_prefix (action r) @ lit '' '' @ res_path r @ [NL]) results)"

fun apply_changes ::
    "'w tool_env \<Rightarrow> ustr \<Rightarrow> file_change list \<Rightarrow> file_result list \<Rightarrow> 'w tool_state \<Rightarrow>
     (tool_error + tool_output) \<times> 'w tool_state" where
  "apply_changes env call_id [] file_results s =
     (Inr (Success file_results (build_summary file_results)), s)"
| "apply_changes env call_id (c # cs) file_results s =
     (case apply_change env call_id c (world s) of
        (Inl stop, w) \<Rightarrow> (stop, s\<lparr>world := w\<rparr>)
      | (Inr (sent, result), w) \<Rightarrow>
          apply_changes env call_id cs (file_results @ [result])
            (s\<lparr>world := w, notifications := notifications s @ sent\<rparr>))"

definition run ::
    "'w tool_env \<Rightarrow> ustr \<Rightarrow> ustr \<Rightarrow> ustr \<Rightarrow> 'w tool_state \<Rightarrow>
     (tool_error + tool_output) option \<times> 'w tool_state" where
  "run env cwd call_id text s =
     (case parse_patch text of
        Inl e \<Rightarrow>
          (let msg = (case e of
                        InvalidPatchError m \<Rightarrow> lit ''Invalid patch: '' @ m
                      | InvalidHunkError message line_number \<Rightarrow>
                          lit ''Invalid patch hunk on line '' @ nat_str line_number @ lit '': '' @ message)
           in (Some (Inr (ParseError msg)), s))
      | Inr parsed \<Rightarrow>
          if hunks parsed = [] then (Some (Inr (EmptyPatch (lit ''No files were modified.''))), s)
          else
            (case compute_all_changes env cwd (world s) (hunks parsed) of
               None \<Rightarrow> (None, s)
             | Some (Inl msg) \<Rightarrow> (Some (Inr (ApplicationError msg)), s)
             | Some (Inr changes) \<Rightarrow>
                 (case preflight_memory_v2_changes env (world s) changes of
                    Inl msg \<Rightarrow> (Some (Inr (ApplicationError msg)), s)
                  | Inr _ \<Rightarrow>
                      (let (out, s') = apply_changes env call_id changes [] s in (Some out, s')))))"

section \<open>Facts\<close>

lemma compute_all_changes_defined: "compute_all_changes env cwd w hs \<noteq> None"
proof (induction hs)
  case (Cons h hs)
  have "compute_change env cwd w h \<noteq> None"
    by (auto simp: compute_change_def Let_def derive_new_contents_defined
        split: hunk.splits sum.splits option.splits)
  with Cons show ?case by (auto split: option.splits sum.splits)
qed simp

lemma run_defined: "fst (run env cwd cid text s) \<noteq> None"
  by (auto simp: run_def Let_def compute_all_changes_defined split: sum.splits option.splits prod.splits)

lemma run_changed:
  assumes "run env cwd cid text s = (r, s')" "s' \<noteq> s"
  shows "\<exists>p cs. parse_patch text = Inr p \<and> compute_all_changes env cwd (world s) (hunks p) = Some (Inr cs) \<and>
    preflight_memory_v2_changes env (world s) cs = Inr () \<and>
    (\<exists>out. r = Some out \<and> apply_changes env cid cs [] s = (out, s'))"
  using assms by (auto simp: run_def Let_def split: sum.splits option.splits prod.splits if_splits)

lemma run_success:
  assumes "run env cwd cid text s = (Some (Inr (Success rs sm)), s')"
  shows "\<exists>p cs. parse_patch text = Inr p \<and> compute_all_changes env cwd (world s) (hunks p) = Some (Inr cs) \<and>
    preflight_memory_v2_changes env (world s) cs = Inr () \<and>
    apply_changes env cid cs [] s = (Inr (Success rs sm), s')"
  using assms by (auto simp: run_def Let_def split: sum.splits option.splits prod.splits if_splits)

lemma compute_all_changes_iff:
  "compute_all_changes env cwd w hs = Some (Inr cs) \<longleftrightarrow>
     list_all2 (\<lambda>h c. compute_change env cwd w h = Some (Inr c)) hs cs"
proof (induction hs arbitrary: cs)
  case Nil
  then show ?case by auto
next
  case (Cons h hs)
  have "map_sum (\<lambda>e. e) f x = Inr cs \<longleftrightarrow> (\<exists>y. x = Inr y \<and> cs = f y)" for f and x :: "ustr + file_change list"
    by (cases x) auto
  then show ?case using Cons by (auto simp: list_all2_Cons1 split: option.splits sum.splits)
qed

text \<open>What a change that passed the preflight may do inside a memory directory.\<close>

definition removes :: "file_change \<Rightarrow> ustr \<Rightarrow> bool" where
  "removes c p \<longleftrightarrow> (\<exists>old. c = Delete p old) \<or> (\<exists>s d old new. c = Move s d old new \<and> (p = s \<or> p = d))"

lemma preflight_all:
  "preflight_memory_v2_changes env w cs = Inr () \<longleftrightarrow> (\<forall>c \<in> set cs. preflight_change env w c = Inr ())"
  by (induction cs) (auto split: sum.splits)

lemma preflight_protects:
  "preflight_memory_v2_changes env w cs = Inr () \<Longrightarrow> c \<in> set cs \<Longrightarrow> removes c p \<Longrightarrow>
     validate_memory_v2_read env w p = Inr False"
  by (auto simp: preflight_all removes_def reject_memory_v2_destructive_path_def
      split: sum.splits if_splits dest!: bspec[of _ _ c])

text \<open>
  A file system that is a map from the spelling of a path to contents: no links, no second spelling of the same file, and no
  memory policy. The trait does not promise as much. This stands for the simplest of file systems in the examples of
  what the tool does wrong below; the properties do not use it.
\<close>

definition fs_laws :: "'w tool_env \<Rightarrow> ('w \<Rightarrow> ustr \<Rightarrow> ustr option) \<Rightarrow> bool" where
  "fs_laws env files \<longleftrightarrow>
     memory env = None \<and>
     (\<forall>w p t. read_file env w p = Inr t \<longleftrightarrow> files w p = Some t) \<and>
     (\<forall>p t w w'. write_file env p t w = (Inr (), w') \<longrightarrow> files w' = (files w)(p \<mapsto> t)) \<and>
     (\<forall>p w w'. delete_file env p w = (Inr (), w') \<longrightarrow> files w' = (files w)(p := None)) \<and>
     (\<forall>p w w'. create_dir_all env p w = (Inr (), w') \<longrightarrow> files w' = files w)"

fun effect :: "file_change \<Rightarrow> (ustr \<Rightarrow> ustr option) \<Rightarrow> ustr \<Rightarrow> ustr option" where
  "effect (Add p t) m = m(p \<mapsto> t)"
| "effect (Delete p old) m = m(p := None)"
| "effect (Update p old t) m = m(p \<mapsto> t)"
| "effect (Move s d old t) m = (m(d \<mapsto> t))(s := None)"

lemma and_then_ok: "and_then f g w = (Inr (), w') \<longleftrightarrow> (\<exists>u. f w = (Inr (), u) \<and> g u = (Inr (), w'))"
  by (auto simp: and_then_def split: prod.splits sum.splits)

lemma ensure_parent_dirs_files:
  "fs_laws env files \<Longrightarrow> ensure_parent_dirs env p w = (Inr (), w') \<Longrightarrow> files w' = files w"
  by (auto simp: ensure_parent_dirs_def fs_laws_def split: option.splits if_splits)

lemma apply_change_effect:
  assumes "fs_laws env files" "apply_change env cid c w = (Inr (sent, r), w')"
  shows "files w' = effect c (files w)"
proof -
  have mem: "write_via_memory_v2 env p t w = (Inr False, w)" for p t w
    using assms(1) by (simp add: write_via_memory_v2_def write_memory_v2_file_def fs_laws_def)
  have ops: "write_file env p t w = (Inr (), w') \<Longrightarrow> files w' = (files w)(p \<mapsto> t)"
    "delete_file env p w = (Inr (), w') \<Longrightarrow> files w' = (files w)(p := None)" for p t w w'
    using assms(1) by (auto simp: fs_laws_def)
  show ?thesis
    using assms(2) ensure_parent_dirs_files[OF assms(1)]
    by (cases c) (auto simp: apply_change_def mem and_then_ok split: prod.splits sum.splits dest!: ops)
qed

lemma apply_change_stop:
  "apply_change env cid c w = (Inl stop, w') \<Longrightarrow> stop \<noteq> Inr (Success rs sm)"
  by (cases c) (auto simp: apply_change_def split: prod.splits sum.splits if_splits)

lemma apply_changes_effect:
  assumes "fs_laws env files" "apply_changes env cid cs rs s = (Inr (Success rs' sm), s')"
  shows "files (world s') = fold effect cs (files (world s))"
  using assms(2)
proof (induction cs arbitrary: rs s)
  case (Cons c cs)
  obtain sent r w where c: "apply_change env cid c (world s) = (Inr (sent, r), w)"
    and rest: "apply_changes env cid cs (rs @ [r])
      (s\<lparr>world := w, notifications := notifications s @ sent\<rparr>) = (Inr (Success rs' sm), s')"
    using Cons.prems by (auto split: prod.splits sum.splits dest: apply_change_stop)
  show ?case using Cons.IH[OF rest] apply_change_effect[OF assms(1) c] by simp
qed simp

lemma run_effect:
  assumes "fs_laws env files" "run env cwd cid text s = (Some (Inr (Success rs sm)), s')"
  shows "\<exists>p cs. parse_patch text = Inr p \<and>
    list_all2 (\<lambda>h c. compute_change env cwd (world s) h = Some (Inr c)) (hunks p) cs \<and>
    files (world s') = fold effect cs (files (world s))"
  using run_success[OF assms(2)] apply_changes_effect[OF assms(1)]
  by (fastforce simp: compute_all_changes_iff)

lemma compute_update:
  assumes "fs_laws env files" "compute_change env cwd w (UpdateFile q m cs) = Some (Inr c)"
  shows "\<exists>old new. files w (path_join cwd q) = Some old \<and>
    derive_new_contents old (path_join cwd q) cs = Some (Inr new) \<and>
    c = (case m of None \<Rightarrow> Update (path_join cwd q) old new
         | Some d \<Rightarrow> Move (path_join cwd q) (path_join cwd d) old new)"
  using assms by (auto simp: compute_change_def fs_laws_def Let_def split: sum.splits option.splits)

text \<open>A file system that is just a map.\<close>

definition map_env :: "(ustr \<Rightarrow> ustr option) tool_env" where
  "map_env =
     \<lparr>read_file = (\<lambda>w p. case w p of Some t \<Rightarrow> Inr t | None \<Rightarrow> Inl (lit ''not found'')),
      write_file = (\<lambda>p t w. (Inr (), w(p \<mapsto> t))),
      delete_file = (\<lambda>p w. if w p = None then (Inl (lit ''not found''), w) else (Inr (), w(p := None))),
      create_dir_all = (\<lambda>p w. (Inr (), w)),
      memory = None\<rparr>"

lemma map_env_laws: "fs_laws map_env (\<lambda>w. w)"
  by (auto simp: fs_laws_def map_env_def split: option.splits if_splits)

section \<open>Properties\<close>

text \<open>
  C2. All or nothing before the first write: the tool always returns, and if it changed the world or
  sent a notification then the whole patch had parsed, every hunk had been computed against the files
  on disk, and every change had passed the memory preflight.
\<close>

theorem run_validates_before_writing:
  "fst (run env cwd call_id input s) \<noteq> None \<and>
   (snd (run env cwd call_id input s) \<noteq> s \<longrightarrow>
     (\<exists>p cs. parse_patch input = Inr p \<and>
        compute_all_changes env cwd (world s) (hunks p) = Some (Inr cs) \<and>
        length cs = length (hunks p) \<and>
        preflight_memory_v2_changes env (world s) cs = Inr ()))"
proof -
  have "length cs = length hs" if "compute_all_changes env cwd (world s) hs = Some (Inr cs)" for hs cs
    using that by (simp add: compute_all_changes_iff list_all2_lengthD)
  then show ?thesis
    using run_changed[of env cwd call_id input s "fst (run env cwd call_id input s)"
        "snd (run env cwd call_id input s)"]
    by (auto simp: run_defined)
qed

definition sample_files :: "ustr \<Rightarrow> ustr option" where
  "sample_files = [lit ''/w/f'' \<mapsto> [97, NL, 99, NL]]"

definition sample_state :: "(ustr \<Rightarrow> ustr option) tool_state" where
  "sample_state = \<lparr>world = sample_files, notifications = []\<rparr>"

lemma sample_run:
  "run map_env (lit ''/w'') [105] (print_patch [DeleteFile [102]]) sample_state =
    (Some (Inr (Success [\<lparr>res_path = lit ''/w/f'', action = lit ''deleted'',
        old_text = Some [97, NL, 99, NL], new_text = [], move_to = None\<rparr>]
      (lit ''Success. Updated the following files:'' @ [NL] @ lit ''D /w/f'' @ [NL]))),
     \<lparr>world = sample_files(lit ''/w/f'' := None),
      notifications = [\<lparr>tool_call_id = [105], absolute_path = lit ''/w/f'', content = [],
        previous_content = Some [97, NL, 99, NL], is_new_file = False\<rparr>]\<rparr>)"
  by (simp add: run_def parse_print_patch path_ok_def is_ws_def compute_change_def path_join_def is_absolute_def
      starts_with_def ends_with_def lit_def map_env_def sample_state_def sample_files_def
      reject_memory_v2_destructive_path_def validate_memory_v2_read_def apply_change_def
      build_summary_def action_prefix_def)

theorem run_validates_before_writing_witness:
  "snd (run map_env (lit ''/w'') [105] (print_patch [DeleteFile [102]]) sample_state) \<noteq> sample_state \<and>
   (\<exists>p cs. parse_patch (print_patch [DeleteFile [102]]) = Inr p \<and> length cs = length (hunks p) \<and>
      preflight_memory_v2_changes map_env sample_files cs = Inr ())"
proof -
  have "snd (run map_env (lit ''/w'') [105] (print_patch [DeleteFile [102]]) sample_state) \<noteq> sample_state"
    unfolding sample_run by (simp add: sample_state_def)
  then show ?thesis
    using run_validates_before_writing[of map_env "lit ''/w''" "[105]"
        "print_patch [DeleteFile [102]]" sample_state]
    by (auto simp: sample_state_def)
qed

text \<open>
  Memory directories are not deleted from and nothing is moved in or out of them: a change list
  that passed the preflight deletes and moves only paths the memory policy says are outside.
\<close>

lemma preflight_protects_memory:
  assumes "preflight_memory_v2_changes env w cs = Inr ()" and "c \<in> set cs" and "removes c p"
  shows "validate_memory_v2_read env w p = Inr False"
  using assms by (rule preflight_protects)

lemma preflight_protects_memory_witness:
  "validate_memory_v2_read map_env sample_files (lit ''/w/f'') = Inr False"
  by (rule preflight_protects_memory[of map_env sample_files "[Delete (lit ''/w/f'') []]"
        "Delete (lit ''/w/f'') []"])
    (simp_all add: removes_def reject_memory_v2_destructive_path_def validate_memory_v2_read_def
      map_env_def)

text \<open>
  What a hunk amounts to, over any file system: which calls are made, on which paths and with which text. A new or
  changed file is first offered to the memory policy; only what lies outside its directories is written through the
  file system, after \<open>prepare\<close>. The text that is read, from which the new one is derived, is the one before the run.
\<close>

definition stored :: "'w tool_env \<Rightarrow> ('w \<Rightarrow> (ustr + unit) \<times> 'w) \<Rightarrow> ustr \<Rightarrow> ustr \<Rightarrow> 'w \<Rightarrow> 'w \<Rightarrow> bool" where
  "stored env prepare path text w w' \<longleftrightarrow>
     write_memory_v2_file env path text w = (Inr Written, w') \<or>
     (\<exists>u v. write_memory_v2_file env path text w = (Inr Outside, u) \<and> prepare u = (Inr (), v) \<and>
        write_file env path text v = (Inr (), w'))"

type_synonym note_facts = "ustr \<times> ustr option \<times> ustr"
type_synonym result_facts = "ustr \<times> ustr option \<times> ustr \<times> ustr option"

definition note_facts :: "file_written \<Rightarrow> note_facts" where
  "note_facts n = (absolute_path n, previous_content n, content n)"

definition result_facts :: "file_result \<Rightarrow> result_facts" where
  "result_facts r = (res_path r, old_text r, new_text r, move_to r)"

definition hunk_done ::
    "'w tool_env \<Rightarrow> ustr \<Rightarrow> 'w \<Rightarrow> hunk \<Rightarrow> 'w \<Rightarrow> note_facts list \<Rightarrow> result_facts \<Rightarrow> 'w \<Rightarrow> bool" where
  "hunk_done env cwd w0 h w told res w' \<longleftrightarrow>
     (case h of
        AddFile path text \<Rightarrow>
          (let p = path_join cwd path in
           stored env (ensure_parent_dirs env p) p text w w' \<and> told = [(p, None, text)] \<and> res = (p, None, text, None))
      | DeleteFile path \<Rightarrow>
          (let p = path_join cwd path in
           \<exists>old. read_file env w0 p = Inr old \<and> delete_file env p w = (Inr (), w') \<and>
             told = [(p, Some old, [])] \<and> res = (p, Some old, [], None))
      | UpdateFile path move_path chunks \<Rightarrow>
          (let p = path_join cwd path in
           \<exists>old new. read_file env w0 p = Inr old \<and> derive_new_contents old p chunks = Some (Inr new) \<and>
             (case move_path of
                None \<Rightarrow> stored env (Pair (Inr ())) p new w w' \<and> told = [(p, Some old, new)] \<and> res = (p, Some old, new, None)
              | Some dest \<Rightarrow>
                  (let d = path_join cwd dest in
                   (\<exists>u v. ensure_parent_dirs env d w = (Inr (), u) \<and> write_file env d new u = (Inr (), v) \<and>
                      delete_file env p v = (Inr (), w')) \<and>
                   told = [(d, None, new), (p, Some old, [])] \<and> res = (p, Some old, new, Some d)))))"

inductive hunks_done ::
    "'w tool_env \<Rightarrow> ustr \<Rightarrow> 'w \<Rightarrow> hunk list \<Rightarrow> 'w \<Rightarrow> note_facts list \<Rightarrow> result_facts list \<Rightarrow> 'w \<Rightarrow> bool"
  for env cwd w0 where
  none: "hunks_done env cwd w0 [] w [] [] w"
| more: "hunk_done env cwd w0 h w ns r u \<Longrightarrow> hunks_done env cwd w0 hs u nss rs w' \<Longrightarrow>
    hunks_done env cwd w0 (h # hs) w (ns @ nss) (r # rs) w'"

lemma write_via_memory_iff:
  "write_via_memory_v2 env path text w = (Inr inside, w') \<longleftrightarrow>
     write_memory_v2_file env path text w = (Inr (if inside then Written else Outside), w')"
  by (auto simp: write_via_memory_v2_def split: prod.splits sum.splits memory_v2_write.splits)

lemma compute_change_cases:
  assumes "compute_change env cwd w0 h = Some (Inr c)"
  shows "case h of
      AddFile path text \<Rightarrow> c = Add (path_join cwd path) text
    | DeleteFile path \<Rightarrow> \<exists>old. read_file env w0 (path_join cwd path) = Inr old \<and> c = Delete (path_join cwd path) old
    | UpdateFile path m chunks \<Rightarrow> \<exists>old new. read_file env w0 (path_join cwd path) = Inr old \<and>
        derive_new_contents old (path_join cwd path) chunks = Some (Inr new) \<and>
        c = (case m of None \<Rightarrow> Update (path_join cwd path) old new
             | Some d \<Rightarrow> Move (path_join cwd path) (path_join cwd d) old new)"
  using assms by (auto simp: compute_change_def Let_def split: hunk.splits sum.splits option.splits)

lemma apply_change_done:
  assumes "compute_change env cwd w0 h = Some (Inr c)" "apply_change env cid c w = (Inr (sent, r), w')"
  shows "hunk_done env cwd w0 h w (map note_facts sent) (result_facts r) w' \<and> (\<forall>n \<in> set sent. tool_call_id n = cid)"
proof -
  have stored: "stored env prepare p t w w'"
    if "write_via_memory_v2 env p t w = (Inr inside, u)" "(if inside then (Inr (), u) else and_then prepare (write_file env p t) u) = (Inr (), w')"
    for prepare p t inside u
    using that by (auto simp: stored_def write_via_memory_iff and_then_ok split: if_splits)
  have alone: "and_then (Pair (Inr ())) f = f" for f :: "'a \<Rightarrow> (ustr + unit) \<times> 'a" by (simp add: and_then_def fun_eq_iff)
  show ?thesis
  proof (cases h)
    case (AddFile path t)
    with compute_change_cases[OF assms(1)] have c: "c = Add (path_join cwd path) t" by simp
    from assms(2) AddFile show ?thesis unfolding c
      by (auto simp: apply_change_def hunk_done_def note_facts_def result_facts_def Let_def
          split: prod.splits sum.splits intro: stored)
  next
    case (DeleteFile path)
    with compute_change_cases[OF assms(1)] assms(2) show ?thesis
      by (auto simp: apply_change_def hunk_done_def note_facts_def result_facts_def Let_def split: prod.splits sum.splits)
  next
    case (UpdateFile path m chunks)
    with compute_change_cases[OF assms(1)] obtain old new where
      d: "read_file env w0 (path_join cwd path) = Inr old" "derive_new_contents old (path_join cwd path) chunks = Some (Inr new)"
      and c: "c = (case m of None \<Rightarrow> Update (path_join cwd path) old new
             | Some d \<Rightarrow> Move (path_join cwd path) (path_join cwd d) old new)" by auto
    show ?thesis
    proof (cases m)
      case None
      from assms(2) d UpdateFile None show ?thesis unfolding c
        by (auto simp: apply_change_def hunk_done_def note_facts_def result_facts_def Let_def
            split: prod.splits sum.splits intro: stored[where prepare = "Pair (Inr ())", unfolded alone])
    next
      case (Some dest)
      from assms(2) d UpdateFile Some show ?thesis unfolding c
        by (auto simp: apply_change_def hunk_done_def note_facts_def result_facts_def Let_def and_then_ok
            split: prod.splits sum.splits)
    qed
  qed
qed

lemma apply_changes_done:
  assumes "list_all2 (\<lambda>h c. compute_change env cwd w0 h = Some (Inr c)) hs cs"
    and "apply_changes env cid cs rs s = (Inr (Success results summary), s')"
  shows "\<exists>told rs'. hunks_done env cwd w0 hs (world s) (map note_facts told) (map result_facts rs') (world s') \<and>
    results = rs @ rs' \<and> summary = build_summary results \<and>
    notifications s' = notifications s @ told \<and> (\<forall>n \<in> set told. tool_call_id n = cid)"
  using assms
proof (induction hs cs arbitrary: rs s rule: list_all2_induct)
  case Nil
  then show ?case by (auto intro!: exI[of _ "[]"] hunks_done.none)
next
  case (Cons h hs c cs)
  obtain sent r w where c: "apply_change env cid c (world s) = (Inr (sent, r), w)"
    and rest: "apply_changes env cid cs (rs @ [r])
      (s\<lparr>world := w, notifications := notifications s @ sent\<rparr>) = (Inr (Success results summary), s')"
    using Cons.prems by (auto split: prod.splits sum.splits dest: apply_change_stop)
  from Cons.IH[OF rest] obtain told rs' where
    IH: "hunks_done env cwd w0 hs w (map note_facts told) (map result_facts rs') (world s')" "results = rs @ r # rs'"
      "summary = build_summary results" "notifications s' = notifications s @ sent @ told" "\<forall>n \<in> set told. tool_call_id n = cid"
    by auto
  note here = apply_change_done[OF Cons.hyps(1) c]
  have "hunks_done env cwd w0 (h # hs) (world s) (map note_facts (sent @ told)) (map result_facts (r # rs')) (world s')"
    using hunks_done.more[OF conjunct1[OF here] IH(1)] by simp
  with IH here show ?case by (intro exI[of _ "sent @ told"] exI[of _ "r # rs'"]) auto
qed



text \<open>
  Two update hunks for one file do not compose: both are computed from the file on disk, so after
  a successful run the file holds the result of the second one alone.
\<close>

lemma second_update_wins:
  assumes "fs_laws env files"
    and "parse_patch input = Inr \<lparr>hunks = [UpdateFile q None cs1, UpdateFile q None cs2], patch = t\<rparr>"
    and "run env cwd call_id input s = (Some (Inr (Success results summary)), s')"
  shows "\<exists>old new. files (world s) (path_join cwd q) = Some old \<and>
    derive_new_contents old (path_join cwd q) cs2 = Some (Inr new) \<and>
    files (world s') (path_join cwd q) = Some new"
proof -
  obtain c1 c2 where c: "compute_change env cwd (world s) (UpdateFile q None cs1) = Some (Inr c1)"
    "compute_change env cwd (world s) (UpdateFile q None cs2) = Some (Inr c2)"
    and f: "files (world s') = fold effect [c1, c2] (files (world s))"
    using run_effect[OF assms(1,3)] assms(2) by (auto simp: list_all2_Cons1)
  from compute_update[OF assms(1) c(1)] compute_update[OF assms(1) c(2)] f show ?thesis by auto
qed

definition second_chunk :: update_file_chunk where
  "second_chunk = \<lparr>change_context = None, old_lines = [[99]], new_lines = [[100]], is_end_of_file = False\<rparr>"

lemma second_derive: "derive_new_contents [97, NL, 99, NL] path [second_chunk] = Some (Inr [97, NL, 100, NL])"
  by (simp add: derive_new_contents_def content_lines_def last_is_empty_def compute_replacements_def
      find_old_lines_def seek_sequence_def exact_at_def second_chunk_def apply_replacements_def
      apply_replacement_def remove_at_def insert_at_def eval_nat_numeral upt_rec)

lemma chunks_ok: "chunk_ok sample_chunk" "chunk_ok second_chunk"
  by (simp_all add: sample_chunk_def second_chunk_def chunk_ok_def line_ok_def)

lemmas run_simps = run_def parse_print_patch path_ok_def is_ws_def compute_change_def path_join_def is_absolute_def
  starts_with_def ends_with_def lit_def map_env_def sample_state_def sample_files_def chunks_ok
  preflight_memory_v2_write_def reject_memory_v2_destructive_path_def validate_memory_v2_read_def
  apply_change_def write_via_memory_v2_def write_memory_v2_file_def and_then_def
  ensure_parent_dirs_def path_parent_def path_lead_def body_segs_def trim_right_segs_def trivial_seg_def sample_derive second_derive line_ok_def

lemma two_updates_run:
  "\<exists>results summary s'. run map_env (lit ''/w'') [105]
      (print_patch [UpdateFile [102] None [sample_chunk], UpdateFile [102] None [second_chunk]]) sample_state =
    (Some (Inr (Success results summary)), s')"
  by (simp add: run_simps)

lemma second_update_wins_witness:
  "\<exists>s'. snd (run map_env (lit ''/w'') [105]
      (print_patch [UpdateFile [102] None [sample_chunk], UpdateFile [102] None [second_chunk]]) sample_state) = s' \<and>
    world s' (lit ''/w/f'') = Some [97, NL, 100, NL]"
proof -
  let ?text = "print_patch [UpdateFile [102] None [sample_chunk], UpdateFile [102] None [second_chunk]]"
  obtain results summary s' where r: "run map_env (lit ''/w'') [105] ?text sample_state =
      (Some (Inr (Success results summary)), s')"
    using two_updates_run by blast
  have "parse_patch ?text = Inr \<lparr>hunks = [UpdateFile [102] None [sample_chunk],
      UpdateFile [102] None [second_chunk]], patch = ?text\<rparr>"
    by (rule parse_print_patch) (simp add: path_ok_def is_ws_def chunks_ok)
  from second_update_wins[OF map_env_laws this r] r show ?thesis
    by (auto simp: sample_state_def sample_files_def path_join_def is_absolute_def starts_with_def ends_with_def
        lit_def second_derive)
qed

text \<open>
  An update that moves a file onto its own path deletes it: the new contents are written and the
  source, the same path, is removed, and the tool reports success.
\<close>

lemma self_move_deletes:
  assumes "fs_laws env files"
    and "parse_patch input = Inr \<lparr>hunks = [UpdateFile q (Some q) cs], patch = t\<rparr>"
    and "run env cwd call_id input s = (Some (Inr (Success results summary)), s')"
  shows "files (world s) (path_join cwd q) \<noteq> None \<and> files (world s') (path_join cwd q) = None"
proof -
  obtain c where c: "compute_change env cwd (world s) (UpdateFile q (Some q) cs) = Some (Inr c)"
    and f: "files (world s') = fold effect [c] (files (world s))"
    using run_effect[OF assms(1,3)] assms(2) by (auto simp: list_all2_Cons1)
  from compute_update[OF assms(1) c] f show ?thesis by auto
qed

lemma self_move_run:
  "\<exists>results summary s'. run map_env (lit ''/w'') [105]
      (print_patch [UpdateFile [102] (Some [102]) [sample_chunk]]) sample_state =
    (Some (Inr (Success results summary)), s')"
  by (simp add: run_simps)

lemma self_move_deletes_witness:
  "sample_files (lit ''/w/f'') \<noteq> None \<and>
   world (snd (run map_env (lit ''/w'') [105]
      (print_patch [UpdateFile [102] (Some [102]) [sample_chunk]]) sample_state)) (lit ''/w/f'') = None"
proof -
  let ?text = "print_patch [UpdateFile [102] (Some [102]) [sample_chunk]]"
  obtain results summary s' where r: "run map_env (lit ''/w'') [105] ?text sample_state =
      (Some (Inr (Success results summary)), s')"
    using self_move_run by blast
  have "parse_patch ?text = Inr \<lparr>hunks = [UpdateFile [102] (Some [102]) [sample_chunk]], patch = ?text\<rparr>"
    by (rule parse_print_patch) (simp add: path_ok_def is_ws_def chunks_ok line_ok_def)
  from self_move_deletes[OF map_env_laws this r] r show ?thesis
    by (auto simp: sample_state_def path_join_def is_absolute_def starts_with_def ends_with_def lit_def)
qed

end
