(* ===== verification/Compact_Item.thy ===== *)
theory Compact_Item
  imports Rust_Prelude
begin

text \<open>
  The data abstraction of the compaction crate (\<open>crates/common/xai-grok-compaction/src/item.rs\<close>)
  and token sums (\<open>u32::saturating_add\<close> folds, used by \<open>select.rs\<close> and \<open>fit.rs\<close>).

  The crate is generic: a conversation item is any type with the operations of the traits
  \<open>CompactionItem\<close> and \<open>CompactionItemBuilder\<close>, whose implementations belong to the harness. They
  are the fields of \<open>item_ops\<close>, a parameter of everything below; a token counter is a function.
\<close>

datatype compaction_role = System | Developer | User | Assistant | Tool

record compaction_file_ref =
  file_id :: ustr
  file_name :: ustr

record 'a item_ops =
  role :: "'a \<Rightarrow> compaction_role"
  item_text :: "'a \<Rightarrow> ustr option"
  has_tool_requests :: "'a \<Rightarrow> bool"
  is_compaction_summary :: "'a \<Rightarrow> bool"
  attachment_refs :: "'a \<Rightarrow> compaction_file_ref list"
  compaction_summary_item :: "ustr \<Rightarrow> 'a"
  strip_tool_content :: "'a \<Rightarrow> 'a option"
  truncate_payload :: "'a \<Rightarrow> u32 \<Rightarrow> 'a"

definition is_tool_result :: "'a item_ops \<Rightarrow> 'a \<Rightarrow> bool" where
  "is_tool_result ops x \<longleftrightarrow> role ops x = Tool"

type_synonym 'a counter = "'a \<Rightarrow> u32"

definition sum_counts :: "u32 list \<Rightarrow> u32" where
  "sum_counts counts = fold (\<lambda>c acc. sat_add32 acc c) counts 0"

definition sum_tokens :: "'a counter \<Rightarrow> 'a list \<Rightarrow> u32" where
  "sum_tokens counter turns = fold (\<lambda>c acc. sat_add32 acc c) (map counter turns) 0"

definition token_counts :: "'a counter \<Rightarrow> 'a list \<Rightarrow> u32 list" where
  "token_counts counter turns = map counter turns"

section \<open>Saturating sums\<close>

lemma fold_sat_add:
  "fold (\<lambda>c acc. sat_add32 acc c) counts acc = (if counts = [] then acc else min (acc + sum_list counts) u32_max)"
proof (induction counts arbitrary: acc)
  case (Cons c counts)
  then show ?case by (cases counts) (auto simp: sat_add32_def min_def)
qed simp

lemma sum_counts_eq: "sum_counts counts = min (sum_list counts) u32_max"
  by (simp add: sum_counts_def fold_sat_add)

lemma sum_tokens_eq: "sum_tokens counter turns = min (sum_list (map counter turns)) u32_max"
  by (simp add: sum_tokens_def fold_sat_add)

text \<open>Dropping from the front, or dropping more, never raises the sum.\<close>

lemma sum_drop_mono: "i \<le> j \<Longrightarrow> sum_list (drop j xs) \<le> sum_list (drop i (xs :: nat list))"
proof (induction xs arbitrary: i j)
  case (Cons x xs)
  then show ?case by (cases i; cases j) (auto intro: order_trans[OF Cons.IH[of 0]])
qed simp

lemma sum_counts_drop_mono: "i \<le> j \<Longrightarrow> sum_counts (drop j xs) \<le> sum_counts (drop i xs)"
  using sum_drop_mono[of i j xs] by (auto simp: sum_counts_eq)

lemma sum_counts_map: "sum_counts (map counter turns) = sum_tokens counter turns"
  by (simp add: sum_counts_def sum_tokens_def)

lemma sum_drop_le: "sum_list (drop i xs) \<le> sum_list (xs :: nat list)"
  using sum_drop_mono[of 0 i xs] by simp

end
