(* ===== verification/Compact_Trigger.thy ===== *)
theory Compact_Trigger
  imports Rust_Float Compact_Item
begin

text \<open>
  Configuration, trigger decision and error labels of intra-compaction
  (\<open>intra_compaction/config.rs\<close>, \<open>trigger.rs\<close>, \<open>traits.rs\<close>). Constructors that other modules of
  the crate use too carry a prefix here (\<open>ModeFullReplace\<close>, \<open>TargetFullReplace\<close>, \<open>Intra...\<close>).
\<close>

section \<open>Configuration\<close>

datatype intra_compaction_mode = ModeFullReplace | StepsOnly | HistoryOnly | HistoryThenSteps

datatype intra_summarizer = Shared | Legacy

record intra_compaction_config =
  ic_enabled :: bool
  ic_mode :: intra_compaction_mode
  trigger_threshold_percent :: nat
  min_steps_before_compact :: u32
  min_compactable_tokens :: u32
  max_reduction_ratio :: f64
  compaction_model_name :: "ustr option"
  sampling_timeout_secs :: u64
  ic_max_attempts :: u32
  ic_retry_delay_secs :: u64
  compaction_version :: ustr
  summarizer :: intra_summarizer
  target_threshold_percent :: nat
  steps_trigger_ratio :: f64
  user_message_truncate_chars :: u32

definition DEFAULT_COMPACTION_MODEL_NAME :: ustr where
  "DEFAULT_COMPACTION_MODEL_NAME = lit ''grok-4.20''"

definition effective_compaction_model_name :: "intra_compaction_config \<Rightarrow> ustr" where
  "effective_compaction_model_name cfg =
     (case map_option trim (compaction_model_name cfg) of
        Some s \<Rightarrow> if s \<noteq> [] then s else DEFAULT_COMPACTION_MODEL_NAME
      | None \<Rightarrow> DEFAULT_COMPACTION_MODEL_NAME)"

text \<open>The literals \<open>0.8\<close> and \<open>0.3\<close> are the nearest \<open>f64\<close> values.\<close>

definition intra_config_default :: intra_compaction_config where
  "intra_config_default =
     \<lparr>ic_enabled = False, ic_mode = ModeFullReplace, trigger_threshold_percent = 85,
      min_steps_before_compact = 3, min_compactable_tokens = 5000,
      max_reduction_ratio = f64_round (8 / 10),
      compaction_model_name = Some DEFAULT_COMPACTION_MODEL_NAME, sampling_timeout_secs = 120,
      ic_max_attempts = 2, ic_retry_delay_secs = 3, compaction_version = lit ''intra-v1'',
      summarizer = Shared, target_threshold_percent = 50, steps_trigger_ratio = f64_round (3 / 10),
      user_message_truncate_chars = 3000\<rparr>"

section \<open>Trigger\<close>

record intra_compaction_trigger =
  last_prompt_tokens :: u32
  context_window :: u32
  percent :: nat
  step :: u32

definition should_compact ::
    "intra_compaction_config \<Rightarrow> u32 \<Rightarrow> u32 \<Rightarrow> u32 \<Rightarrow> intra_compaction_trigger option" where
  "should_compact policy prompt_tokens window current_step =
     (if \<not> ic_enabled policy then None
      else if window = 0 then None
      else if ic_mode policy \<noteq> ModeFullReplace \<and> current_step < min_steps_before_compact policy then None
      else
        (let threshold = as_u32 (window * trigger_threshold_percent policy div 100) in
         if prompt_tokens \<le> threshold then None
         else Some \<lparr>last_prompt_tokens = prompt_tokens, context_window = window,
                    percent = min (prompt_tokens * 100 div window) 100, step = current_step\<rparr>))"

section \<open>Targets, results and errors\<close>

datatype compaction_target = Steps | History | TargetFullReplace

record intra_compaction_result =
  tokens_before :: u32
  tokens_after :: u32
  turns_compacted :: u32
  result_summary :: ustr

text \<open>
  \<open>IntraUnreachable\<close> is not a value of the Rust enumeration: it stands for the panic of the
  \<open>unreachable!\<close> arms.
\<close>

datatype intra_compaction_error =
    IntraNothingToCompact
  | IntraTimeout
  | IntraEmptyResponse
  | InsufficientReduction u32 u32
  | InvalidSplit usize usize
  | Unsupported
  | SamplerBuild ustr
  | SamplerStart ustr
  | SamplerStream ustr
  | IntraContextOverflow ustr
  | IntraApply ustr
  | IntraUnreachable

definition error_status_label :: "intra_compaction_error \<Rightarrow> ustr" where
  "error_status_label e =
     (case e of
        IntraNothingToCompact \<Rightarrow> lit ''nothing_to_compact''
      | IntraTimeout \<Rightarrow> lit ''timeout''
      | IntraEmptyResponse \<Rightarrow> lit ''empty_response''
      | InsufficientReduction _ _ \<Rightarrow> lit ''insufficient_reduction''
      | InvalidSplit _ _ \<Rightarrow> lit ''invalid_split''
      | Unsupported \<Rightarrow> lit ''unsupported''
      | SamplerBuild _ \<Rightarrow> lit ''sampler_build''
      | SamplerStart _ \<Rightarrow> lit ''sampler_start''
      | SamplerStream _ \<Rightarrow> lit ''sampler_stream''
      | IntraContextOverflow _ \<Rightarrow> lit ''context_overflow''
      | IntraApply _ \<Rightarrow> lit ''apply''
      | IntraUnreachable \<Rightarrow> [])"

definition target_label :: "compaction_target \<Rightarrow> ustr" where
  "target_label t =
     (case t of Steps \<Rightarrow> lit ''steps'' | History \<Rightarrow> lit ''history'' | TargetFullReplace \<Rightarrow> lit ''full_replace'')"

section \<open>Properties\<close>

lemma div_100_less_iff: "(x::nat) div 100 < t \<longleftrightarrow> x < 100 * t"
  by (simp add: div_less_iff_less_mult mult.commute)

lemma threshold_fits:
  assumes "window \<le> u32_max" "pct \<le> 100"
  shows "as_u32 (window * pct div 100) = window * pct div 100"
proof -
  have "window * pct div 100 \<le> window * 100 div 100"
    using assms(2) by (intro div_le_mono mult_le_mono2)
  then have "window * pct div 100 < 2 ^ 32" using assms(1) by (simp add: u32_max_def)
  then show ?thesis by (simp add: as_u32_def)
qed

text \<open>
  For a threshold of at most 100 per cent the trigger fires exactly when compaction is enabled,
  the window is known, the mode's step minimum is met (full replace has none) and the prompt uses
  strictly more than the configured share of the window, computed exactly. The percentage it reports
  lies between the threshold and 100.
\<close>

lemma should_compact_iff:
  assumes "window \<le> u32_max" and "trigger_threshold_percent policy \<le> 100"
  shows "(should_compact policy tokens window now \<noteq> None \<longleftrightarrow>
      ic_enabled policy \<and> window \<noteq> 0 \<and>
      (ic_mode policy = ModeFullReplace \<or> min_steps_before_compact policy \<le> now) \<and>
      window * trigger_threshold_percent policy < 100 * tokens) \<and>
    (case should_compact policy tokens window now of None \<Rightarrow> True
     | Some tr \<Rightarrow> last_prompt_tokens tr = tokens \<and> context_window tr = window \<and> step tr = now \<and>
         trigger_threshold_percent policy \<le> percent tr \<and> percent tr \<le> 100)"
proof -
  have "trigger_threshold_percent policy \<le> tokens * 100 div window"
    if "window \<noteq> 0" "window * trigger_threshold_percent policy < 100 * tokens"
    using that by (simp add: less_eq_div_iff_mult_less_eq mult.commute)
  then show ?thesis
    using assms(2)
    by (auto simp: should_compact_def Let_def threshold_fits[OF assms] div_100_less_iff not_le not_less)
qed

lemma should_compact_iff_witness:
  "should_compact (intra_config_default\<lparr>ic_enabled := True\<rparr>) 860 1000 0 \<noteq> None \<and>
   should_compact (intra_config_default\<lparr>ic_enabled := True\<rparr>) 850 1000 0 = None"
  using should_compact_iff[of 1000 "intra_config_default\<lparr>ic_enabled := True\<rparr>" 860 0]
    should_compact_iff[of 1000 "intra_config_default\<lparr>ic_enabled := True\<rparr>" 850 0]
  by (simp add: intra_config_default_def u32_max_def)

end
