(* ===== verification/Compact_Select.thy ===== *)
theory Compact_Select
  imports Compact_Item
begin

text \<open>
  Choosing the split between what is compacted and what is kept (\<open>select.rs\<close>). The locale
  \<open>split_selector\<close> states what the fit ladder relies on; it is interpreted on the code's selector.
\<close>

section \<open>Model\<close>

record split_plan =
  split_idx :: usize
  tokens_to_compact :: u32

text \<open>The backward walk: \<open>i\<close> items are still unvisited, \<open>kept\<close> is the sum of the visited ones.\<close>

fun walk_back :: "u32 list \<Rightarrow> u32 \<Rightarrow> usize \<Rightarrow> u32 \<Rightarrow> usize" where
  "walk_back counts target_tokens 0 kept = 0"
| "walk_back counts target_tokens (Suc i) kept =
     (if sat_add32 kept (counts ! i) > target_tokens then Suc i
      else walk_back counts target_tokens i (sat_add32 kept (counts ! i)))"

function skip_tools :: "'a item_ops \<Rightarrow> 'a list \<Rightarrow> usize \<Rightarrow> usize" where
  "skip_tools ops items idx =
     (if idx < length items \<and> is_tool_result ops (items ! idx) then skip_tools ops items (idx + 1)
      else idx)"
  by pat_completeness auto
termination by (relation "measure (\<lambda>(ops, items, idx). length items - idx)") auto

declare skip_tools.simps [simp del]

definition snap_to_safe_boundary :: "'a item_ops \<Rightarrow> 'a list \<Rightarrow> usize \<Rightarrow> usize" where
  "snap_to_safe_boundary ops items candidate =
     (if candidate \<ge> length items then length items
      else if \<not> is_tool_result ops (items ! candidate) then candidate
      else skip_tools ops items candidate)"

definition select_turns_to_compact ::
    "'a item_ops \<Rightarrow> u32 list \<Rightarrow> 'a list \<Rightarrow> u32 \<Rightarrow> u32 \<Rightarrow> split_plan option" where
  "select_turns_to_compact ops item_token_counts items target_tokens min_compactable =
     (let total = length items in
      if total = 0 then None
      else
        (let split = walk_back item_token_counts target_tokens total 0 in
         if split = 0 then None
         else
           (let safe_split_idx = snap_to_safe_boundary ops items split in
            if safe_split_idx \<ge> total then None
            else
              (let tokens = sum_counts (take safe_split_idx item_token_counts) in
               if tokens < min_compactable then None
               else Some \<lparr>split_idx = safe_split_idx, tokens_to_compact = tokens\<rparr>))))"

section \<open>The interface of the fit ladder\<close>

locale split_selector =
  fixes select :: "u32 list \<Rightarrow> 'a list \<Rightarrow> u32 \<Rightarrow> usize option"
  assumes select_range: "length counts = length items \<Longrightarrow> select counts items budget = Some k \<Longrightarrow>
      0 < k \<and> k < length items"
    and select_fits: "length counts = length items \<Longrightarrow> select counts items budget = Some k \<Longrightarrow>
      sum_counts (drop k counts) \<le> budget"
begin

text \<open>The kept side: a non-empty proper suffix within budget, and nothing else.\<close>

lemma kept_suffix:
  assumes "length counts = length items" "select counts items budget = Some k"
  shows "drop k items \<noteq> [] \<and> length (drop k items) < length items \<and> sum_counts (drop k counts) \<le> budget"
  using select_range[OF assms] select_fits[OF assms] by auto

end

section \<open>Facts\<close>

lemma walk_back_spec:
  assumes "i \<le> length counts" "kept = min (sum_list (drop i counts)) u32_max" "kept \<le> target"
  shows "walk_back counts target i kept \<le> i \<and>
    sum_counts (drop (walk_back counts target i kept) counts) \<le> target \<and>
    (\<forall>j < walk_back counts target i kept. target < sum_counts (drop j counts))"
  using assms
proof (induction i arbitrary: kept)
  case (Suc i)
  have sum: "sum_list (drop i counts) = counts ! i + sum_list (drop (Suc i) counts)"
    using Suc.prems(1) by (simp add: Cons_nth_drop_Suc[symmetric])
  have add: "sat_add32 kept (counts ! i) = sum_counts (drop i counts)"
    using Suc.prems(2) sum by (simp add: sat_add32_def sum_counts_eq min_def)
  show ?case
  proof (cases "sat_add32 kept (counts ! i) > target")
    case True
    have "target < sum_counts (drop j counts)" if "j < Suc i" for j
      using True sum_counts_drop_mono[of j i counts] that by (simp add: add)
    with True Suc.prems show ?thesis by (simp add: sum_counts_eq)
  next
    case False
    then have eq: "walk_back counts target (Suc i) kept = walk_back counts target i (sat_add32 kept (counts ! i))"
      by simp
    have "walk_back counts target i (sat_add32 kept (counts ! i)) \<le> i \<and>
      sum_counts (drop (walk_back counts target i (sat_add32 kept (counts ! i))) counts) \<le> target \<and>
      (\<forall>j < walk_back counts target i (sat_add32 kept (counts ! i)). target < sum_counts (drop j counts))"
      using Suc.prems(1) False add by (intro Suc.IH) (simp, simp add: sum_counts_eq, simp)
    then show ?thesis unfolding eq by (blast intro: le_SucI)
  qed
qed (auto simp: sum_counts_eq)

lemma walk_back_initial:
  "walk_back counts target (length counts) 0 \<le> length counts \<and>
   sum_counts (drop (walk_back counts target (length counts) 0) counts) \<le> target \<and>
   (\<forall>j < walk_back counts target (length counts) 0. target < sum_counts (drop j counts))"
  by (rule walk_back_spec) simp_all

lemma skip_tools_spec:
  "idx \<le> length items \<Longrightarrow>
     idx \<le> skip_tools ops items idx \<and> skip_tools ops items idx \<le> length items \<and>
     (skip_tools ops items idx < length items \<longrightarrow>
        \<not> is_tool_result ops (items ! skip_tools ops items idx)) \<and>
     (\<forall>j. idx \<le> j \<and> j < skip_tools ops items idx \<longrightarrow> is_tool_result ops (items ! j))"
proof (induction ops items idx rule: skip_tools.induct)
  case (1 ops items idx)
  show ?case
  proof (cases "idx < length items \<and> is_tool_result ops (items ! idx)")
    case True
    then have s: "skip_tools ops items idx = skip_tools ops items (idx + 1)"
      by (simp add: skip_tools.simps[of _ _ idx])
    have "j = idx \<or> idx + 1 \<le> j" if "idx \<le> j" for j using that by auto
    with 1 True show ?thesis unfolding s by (metis (no_types, lifting) Suc_eq_plus1 Suc_leD Suc_leI)
  next
    case False
    then have "skip_tools ops items idx = idx" by (simp add: skip_tools.simps)
    with 1 False show ?thesis by auto
  qed
qed

lemma snap_spec:
  assumes "c \<le> length items"
  shows "c \<le> snap_to_safe_boundary ops items c" "snap_to_safe_boundary ops items c \<le> length items"
    "snap_to_safe_boundary ops items c < length items \<Longrightarrow>
       \<not> is_tool_result ops (items ! snap_to_safe_boundary ops items c)"
    "c \<le> j \<Longrightarrow> j < snap_to_safe_boundary ops items c \<Longrightarrow> is_tool_result ops (items ! j)"
  using assms skip_tools_spec[of c items ops]
  by (auto simp: snap_to_safe_boundary_def split: if_splits)

text \<open>A boundary that keeps a fitting tail and does not start it with a tool result.\<close>

definition safe_boundary :: "'a item_ops \<Rightarrow> u32 list \<Rightarrow> 'a list \<Rightarrow> u32 \<Rightarrow> usize \<Rightarrow> bool" where
  "safe_boundary ops counts items target k \<longleftrightarrow>
     k < length items \<and> \<not> is_tool_result ops (items ! k) \<and> sum_counts (drop k counts) \<le> target"

lemma select_Some:
  assumes "length counts = length items"
    and "select_turns_to_compact ops counts items target m = Some p"
  shows "0 < split_idx p" "safe_boundary ops counts items target (split_idx p)"
    "j < split_idx p \<Longrightarrow> \<not> safe_boundary ops counts items target j"
    "tokens_to_compact p = sum_counts (take (split_idx p) counts)" "m \<le> tokens_to_compact p"
proof -
  define w where "w = walk_back counts target (length counts) 0"
  have w: "w \<le> length items" "sum_counts (drop w counts) \<le> target"
    "\<And>j. j < w \<Longrightarrow> target < sum_counts (drop j counts)"
    using walk_back_initial[of counts target] assms(1) by (auto simp: w_def)
  have p: "0 < w" "split_idx p = snap_to_safe_boundary ops items w" "split_idx p < length items"
    "tokens_to_compact p = sum_counts (take (split_idx p) counts)" "m \<le> tokens_to_compact p"
    using assms by (auto simp: select_turns_to_compact_def w_def Let_def
        split: if_splits)
  note s = snap_spec[OF w(1), where ops = ops]
  show "0 < split_idx p" using p(1,2) s(1) by simp
  show "safe_boundary ops counts items target (split_idx p)"
    using p(2,3) s(1,3) w(2) sum_counts_drop_mono[of w "split_idx p" counts]
    by (auto simp: safe_boundary_def)
  show "\<not> safe_boundary ops counts items target j" if "j < split_idx p"
    using that p(2) s(4)[of j] w(3)[of j] by (cases "w \<le> j") (auto simp: safe_boundary_def)
  show "tokens_to_compact p = sum_counts (take (split_idx p) counts)" "m \<le> tokens_to_compact p"
    by fact+
qed

lemma select_None:
  assumes "length counts = length items" "select_turns_to_compact ops counts items target 0 = None"
    and "target < sum_counts counts"
  shows "\<not> safe_boundary ops counts items target j"
proof -
  define w where "w = walk_back counts target (length counts) 0"
  have w: "w \<le> length items" "sum_counts (drop w counts) \<le> target"
    "\<And>j. j < w \<Longrightarrow> target < sum_counts (drop j counts)"
    using walk_back_initial[of counts target] assms(1) by (auto simp: w_def)
  have "w \<noteq> 0" using w(2) assms(3) by (cases w) (auto)
  then have "length items \<le> snap_to_safe_boundary ops items w"
    using assms w(1) by (auto simp: select_turns_to_compact_def w_def Let_def split: if_splits)
  then show ?thesis
    using snap_spec(4)[OF w(1), of j ops] w(3)[of j] by (fastforce simp: safe_boundary_def not_less)
qed

interpretation sel: split_selector
  "\<lambda>counts items budget. map_option split_idx (select_turns_to_compact ops counts items budget 0)"
  for ops :: "'a item_ops"
proof (unfold_locales, goal_cases)
  case (1 counts items budget k)
  then obtain p where p: "select_turns_to_compact ops counts items budget 0 = Some p" "k = split_idx p"
    by auto
  from select_Some(1,2)[OF 1(1) p(1)] show ?case unfolding p(2) safe_boundary_def by blast
next
  case (2 counts items budget k)
  then obtain p where p: "select_turns_to_compact ops counts items budget 0 = Some p" "k = split_idx p"
    by auto
  from select_Some(2)[OF 2(1) p(1)] show ?case unfolding p(2) safe_boundary_def by blast
qed

section \<open>Properties\<close>

text \<open>
  Selection is optimal among safe splits: a plan splits at the earliest boundary that does not
  start the kept tail with a tool result and keeps a tail within the target, its token figure is the
  sum of the compacted prefix and reaches the minimum; and when the list is over the target, no plan
  (with no minimum) means that no safe boundary exists.
\<close>

lemma select_turns_optimal:
  assumes "length counts = length items"
  shows "(case select_turns_to_compact ops counts items target m of
      Some p \<Rightarrow> 0 < split_idx p \<and> safe_boundary ops counts items target (split_idx p) \<and>
        (\<forall>j < split_idx p. \<not> safe_boundary ops counts items target j) \<and>
        tokens_to_compact p = sum_counts (take (split_idx p) counts) \<and> m \<le> tokens_to_compact p
    | None \<Rightarrow> m = 0 \<and> target < sum_counts counts \<longrightarrow>
        (\<forall>j. \<not> safe_boundary ops counts items target j))"
proof (cases "select_turns_to_compact ops counts items target m")
  case None
  then show ?thesis using select_None[OF assms, of ops target] by auto
next
  case (Some p)
  from select_Some[OF assms Some] show ?thesis unfolding Some option.case by blast
qed

definition sample_ops :: "(compaction_role \<times> ustr) item_ops" where
  "sample_ops = \<lparr>role = fst, item_text = (\<lambda>x. Some (snd x)), has_tool_requests = (\<lambda>x. fst x = Assistant),
     is_compaction_summary = (\<lambda>x. fst x = Developer), attachment_refs = (\<lambda>_. []),
     compaction_summary_item = (\<lambda>t. (Developer, t)), strip_tool_content = (\<lambda>x. Some x),
     truncate_payload = (\<lambda>x n. (fst x, take n (snd x)))\<rparr>"

abbreviation sample_items :: "(compaction_role \<times> ustr) list" where
  "sample_items \<equiv> [(User, []), (Assistant, []), (Tool, []), (User, [])]"

lemma sample_select:
  "select_turns_to_compact sample_ops [5, 2, 2, 1] sample_items 3 0 =
     Some \<lparr>split_idx = 3, tokens_to_compact = 9\<rparr>"
  by (simp add: select_turns_to_compact_def snap_to_safe_boundary_def sample_ops_def
      is_tool_result_def sat_add32_def u32_max_def sum_counts_eq skip_tools.simps Let_def
      numeral_3_eq_3)

lemma select_turns_optimal_witness:
  "safe_boundary sample_ops [5, 2, 2, 1] sample_items 3 3"
  using select_turns_optimal[of "[5, 2, 2, 1]" sample_items 0 3 sample_ops]
  unfolding sample_select by simp

definition answers :: "'a item_ops \<Rightarrow> 'a list \<Rightarrow> nat \<Rightarrow> nat \<Rightarrow> bool" where
  "answers ops items i j \<longleftrightarrow> j < i \<and> i < length items \<and> is_tool_result ops (items ! i) \<and>
     has_tool_requests ops (items ! j) \<and> (\<forall>k. j < k \<and> k < i \<longrightarrow> is_tool_result ops (items ! k))"

definition paired :: "'a item_ops \<Rightarrow> 'a list \<Rightarrow> bool" where
  "paired ops items \<longleftrightarrow>
     (\<forall>i < length items. is_tool_result ops (items ! i) \<longrightarrow> (\<exists>j. answers ops items i j))"

lemma answers_same_side:
  assumes "answers ops items i j" "k < length items" "\<not> is_tool_result ops (items ! k)"
  shows "k \<le> i \<longleftrightarrow> k \<le> j"
  using assms unfolding answers_def by (metis le_neq_implies_less less_imp_le_nat not_le order_trans)

text \<open>
  A split never separates tool results from their request: in a conversation in which each tool
  result follows its request with only tool results between, both parts of a split have this property
  again, and a result is kept exactly when its request is.
\<close>

lemma select_keeps_tool_pairs:
  assumes "length counts = length items" and "paired ops items"
    and "select_turns_to_compact ops counts items target m = Some p"
  shows "paired ops (take (split_idx p) items) \<and> paired ops (drop (split_idx p) items) \<and>
    (\<forall>i j. answers ops items i j \<longrightarrow> (split_idx p \<le> i \<longleftrightarrow> split_idx p \<le> j))"
proof -
  let ?k = "split_idx p"
  have k: "?k < length items" "\<not> is_tool_result ops (items ! ?k)"
    using select_Some(2)[OF assms(1,3)] by (auto simp: safe_boundary_def)
  note side = answers_same_side[OF _ k]
  have "paired ops (take ?k items)"
    unfolding paired_def
  proof (intro allI impI)
    fix i assume i: "i < length (take ?k items)" "is_tool_result ops (take ?k items ! i)"
    then obtain j where "answers ops items i j" using assms(2) by (auto simp: paired_def)
    with i show "\<exists>j. answers ops (take ?k items) i j" by (intro exI[of _ j]) (auto simp: answers_def)
  qed
  moreover have "paired ops (drop ?k items)"
    unfolding paired_def
  proof (intro allI impI)
    fix i assume i: "i < length (drop ?k items)" "is_tool_result ops (drop ?k items ! i)"
    then have "?k + i < length items" by auto
    then obtain j where j: "answers ops items (?k + i) j"
      using assms(2)[unfolded paired_def, rule_format, of "?k + i"] i k(1) by auto
    then have kj: "?k \<le> j" using side[of "?k + i" j] by simp
    have "is_tool_result ops (items ! (?k + l))" if "j - ?k < l" "l < i" for l
      using j that kj unfolding answers_def by (metis add.commute add_less_mono1 less_diff_conv2)
    with j kj show "\<exists>j. answers ops (drop ?k items) i j"
      by (intro exI[of _ "j - ?k"]) (auto simp: answers_def)
  qed
  ultimately show ?thesis using side by blast
qed

lemma select_keeps_tool_pairs_witness: "paired sample_ops (drop 3 sample_items)"
proof -
  have "answers sample_ops sample_items 2 1"
    by (simp add: answers_def sample_ops_def is_tool_result_def)
  then have "paired sample_ops sample_items"
    unfolding paired_def
    by (auto simp: sample_ops_def is_tool_result_def less_Suc_eq numeral_2_eq_2)
  from select_keeps_tool_pairs[OF _ this sample_select] show ?thesis by simp
qed

end
