(* ===== verification/Compact_Fit.thy ===== *)
theory Compact_Fit
  imports Compact_Select
begin

text \<open>
  The ordered ladder that fits the summariser's input to a token budget
  (\<open>intra_compaction/fit.rs\<close>).
\<close>

section \<open>Model\<close>

datatype fit_rung = Verbatim | HistoryTurnSelected | ToolTruncated | StepTurnsSelected | Emergency

record 'a fit_plan =
  llm_turns :: "'a list"
  tokens_raw :: u32
  tokens_fit :: u32
  rung :: fit_rung
  items_truncated :: u32
  history_turns_omitted :: u32
  step_turns_omitted :: u32

text \<open>The closure counts with a wrapping \<open>n += 1\<close> (release build).\<close>

definition shrink_oversized_tool_results ::
    "'a item_ops \<Rightarrow> 'a counter \<Rightarrow> u32 \<Rightarrow> 'a list \<Rightarrow> 'a list \<times> u32" where
  "shrink_oversized_tool_results ops counter max_tokens turns =
     (map (\<lambda>t. if is_tool_result ops t \<and> counter t > max_tokens
               then truncate_payload ops t max_tokens else t) turns,
      as_u32 (length (filter (\<lambda>t. is_tool_result ops t \<and> counter t > max_tokens) turns)))"

definition keep_recent_under_budget ::
    "'a item_ops \<Rightarrow> 'a list \<Rightarrow> u32 list \<Rightarrow> u32 \<Rightarrow> ('a list \<times> u32) option" where
  "keep_recent_under_budget ops turns counts budget =
     (if turns = [] then Some ([], 0)
      else if budget = 0 then Some ([], as_u32 (length turns))
      else if sum_counts counts \<le> budget then Some (turns, 0)
      else (case select_turns_to_compact ops counts turns budget 0 of
              None \<Rightarrow> None
            | Some plan \<Rightarrow> Some (drop (split_idx plan) turns, as_u32 (split_idx plan))))"

definition plan_ok ::
    "'a list \<Rightarrow> 'a list \<Rightarrow> 'a counter \<Rightarrow> u32 \<Rightarrow> fit_rung \<Rightarrow> u32 \<Rightarrow> u32 \<Rightarrow> u32 \<Rightarrow> 'a fit_plan" where
  "plan_ok history steps counter raw rg truncated hist_omitted step_omitted =
     \<lparr>llm_turns = history @ steps, tokens_raw = raw, tokens_fit = sum_tokens counter (history @ steps),
      rung = rg, items_truncated = truncated, history_turns_omitted = hist_omitted,
      step_turns_omitted = step_omitted\<rparr>"

text \<open>
  Stages 1 and 3 drop the oldest turns of one side so that it fits beside the other: what is left of
  the side, its counts and how many turns were omitted.
\<close>

definition drop_side ::
    "'a item_ops \<Rightarrow> u32 \<Rightarrow> u32 \<Rightarrow> 'a list \<Rightarrow> u32 list \<Rightarrow> 'a list \<times> u32 list \<times> u32" where
  "drop_side ops budget other_tokens turns counts =
     (if other_tokens < budget
      then
        (let side_budget = budget - other_tokens in
         if sum_counts counts > side_budget
         then (case keep_recent_under_budget ops turns counts side_budget of
                 Some (keep, omitted) \<Rightarrow> (keep, drop omitted counts, omitted)
               | None \<Rightarrow> ([], [], as_u32 (length turns)))
         else (turns, counts, 0))
      else ([], [], as_u32 (length turns)))"

text \<open>Stage 4: only the newest item, shrunk.\<close>

definition emergency ::
    "'a item_ops \<Rightarrow> 'a counter \<Rightarrow> u32 \<Rightarrow> u32 \<Rightarrow> u32 \<Rightarrow> 'a list \<Rightarrow> 'a list \<Rightarrow>
     'a list \<Rightarrow> 'a list \<Rightarrow> u32 \<Rightarrow> u32 \<Rightarrow> 'a fit_plan" where
  "emergency ops counter budget raw truncated history steps hist step hist_omitted step_omitted =
     (let combined = hist @ step;
          (source, ho, so) =
            (if combined = []
             then (history @ steps,
                   if steps = [] then as_u32 (length history - 1) else as_u32 (length history),
                   if steps = [] then 0 else as_u32 (length steps - 1))
             else if step = []
             then (combined, sat_add32 hist_omitted (as_u32 (length hist - 1)), step_omitted)
             else (combined, sat_add32 hist_omitted (as_u32 (length hist)),
                   sat_add32 step_omitted (as_u32 (length step - 1))))
      in if source = []
         then \<lparr>llm_turns = [], tokens_raw = raw, tokens_fit = 0, rung = Emergency,
               items_truncated = truncated, history_turns_omitted = ho, step_turns_omitted = so\<rparr>
         else
           (let newest = [truncate_payload ops (last source) budget]
            in \<lparr>llm_turns = newest, tokens_raw = raw, tokens_fit = sum_tokens counter newest,
                rung = Emergency, items_truncated = sat_add32 truncated 1,
                history_turns_omitted = ho, step_turns_omitted = so\<rparr>))"

definition fit_turns_for_summarizer ::
    "'a item_ops \<Rightarrow> 'a list \<Rightarrow> 'a list \<Rightarrow> 'a counter \<Rightarrow> u32 \<Rightarrow> 'a fit_plan" where
  "fit_turns_for_summarizer ops history steps counter budget =
     (let hist_counts = token_counts counter history;
          step_counts = token_counts counter steps;
          raw = sat_add32 (sum_counts hist_counts) (sum_counts step_counts)
      in
      if budget = 0 then
        \<lparr>llm_turns = [], tokens_raw = raw, tokens_fit = 0, rung = Emergency, items_truncated = 0,
         history_turns_omitted = as_u32 (length history), step_turns_omitted = as_u32 (length steps)\<rparr>
      else if raw \<le> budget then plan_ok history steps counter raw Verbatim 0 0 0
      else
        (let (hist, hist_counts, hist_omitted) =
               drop_side ops budget (sum_counts step_counts) history hist_counts
         in
         if sat_add32 (sum_counts hist_counts) (sum_counts step_counts) \<le> budget
         then plan_ok hist steps counter raw HistoryTurnSelected 0 hist_omitted 0
         else
           (let (hist, n1) = shrink_oversized_tool_results ops counter budget hist;
                (step, n2) = shrink_oversized_tool_results ops counter budget steps;
                truncated = sat_add32 n1 n2;
                hist_counts = token_counts counter hist;
                step_counts = token_counts counter step
            in
            if sat_add32 (sum_counts hist_counts) (sum_counts step_counts) \<le> budget
            then plan_ok hist step counter raw ToolTruncated truncated hist_omitted 0
            else
              (let (step, step_counts, step_omitted) =
                     drop_side ops budget (sum_counts hist_counts) step step_counts
               in
               if sat_add32 (sum_counts hist_counts) (sum_counts step_counts) \<le> budget
                  \<and> (hist \<noteq> [] \<or> step \<noteq> [])
               then plan_ok hist step counter raw StepTurnsSelected truncated hist_omitted step_omitted
               else emergency ops counter budget raw truncated history steps hist step
                      hist_omitted step_omitted))))"

section \<open>Facts\<close>

lemma sat_add_sum: "sat_add32 (sum_counts xs) (sum_counts ys) = sum_counts (xs @ ys)"
  by (auto simp: sat_add32_def sum_counts_eq)

lemma shrink_length: "length (fst (shrink_oversized_tool_results ops counter b turns)) = length turns"
  by (simp add: shrink_oversized_tool_results_def)

lemma sum_counts_tokens: "sum_counts (map counter xs @ map counter ys) = sum_tokens counter (xs @ ys)"
  by (simp add: sum_counts_map[symmetric])

text \<open>
  What is left of a side is a suffix of it, and its counts still belong to it. (Lists shorter than
  \<open>2 ^ 32\<close>, so that the omitted count fits its type.)
\<close>

lemma keep_recent_suffix:
  assumes "keep_recent_under_budget ops turns (map counter turns) b = Some (keep, omitted)"
    and "length turns < 2 ^ 32"
  shows "keep = drop omitted turns \<and> omitted \<le> length turns \<and>
    (b = 0 \<or> sum_tokens counter keep \<le> b)"
proof (cases "turns = [] \<or> b = 0 \<or> sum_counts (map counter turns) \<le> b")
  case True
  then show ?thesis
    using assms by (auto simp: keep_recent_under_budget_def as_u32_def sum_counts_map sum_tokens_def
        split: if_splits)
next
  case False
  then obtain p where p: "select_turns_to_compact ops (map counter turns) turns b 0 = Some p"
    "keep = drop (split_idx p) turns" "omitted = as_u32 (split_idx p)"
    using assms(1) by (auto simp: keep_recent_under_budget_def split: option.splits)
  have "split_idx p < length turns" "sum_counts (drop (split_idx p) (map counter turns)) \<le> b"
    using sel.select_range[of "map counter turns" turns ops b "split_idx p"]
      sel.kept_suffix[of "map counter turns" turns ops b "split_idx p"] p(1) by auto
  then show ?thesis
    using assms(2) p by (simp add: as_u32_def drop_map sum_counts_map)
qed

lemma drop_side_suffix:
  assumes "drop_side ops budget other turns (map counter turns) = (keep, counts, omitted)"
    and "length turns < 2 ^ 32"
  shows "keep = drop omitted turns \<and> omitted \<le> length turns \<and> counts = map counter keep"
  using assms keep_recent_suffix[OF _ assms(2), of ops counter "budget - other" keep omitted]
  by (auto simp: drop_side_def as_u32_def Let_def drop_map split: if_splits option.splits)

definition shrink_one :: "'a item_ops \<Rightarrow> 'a counter \<Rightarrow> u32 \<Rightarrow> 'a \<Rightarrow> 'a" where
  "shrink_one ops counter budget t =
     (if is_tool_result ops t \<and> counter t > budget then truncate_payload ops t budget else t)"

text \<open>
  Which turns each rung hands on: suffixes of history and steps in their order, clipped one by one on
  the rungs after the second, and a single item in the emergency.
\<close>

definition rung_turns ::
    "'a item_ops \<Rightarrow> 'a counter \<Rightarrow> u32 \<Rightarrow> 'a list \<Rightarrow> 'a list \<Rightarrow> 'a fit_plan \<Rightarrow> bool" where
  "rung_turns ops counter budget history steps plan \<longleftrightarrow>
     (let ho = history_turns_omitted plan; so = step_turns_omitted plan;
          clip = map (shrink_one ops counter budget) in
      case rung plan of
        Verbatim \<Rightarrow> llm_turns plan = history @ steps
      | HistoryTurnSelected \<Rightarrow> ho \<le> length history \<and> llm_turns plan = drop ho history @ steps
      | ToolTruncated \<Rightarrow> ho \<le> length history \<and> llm_turns plan = clip (drop ho history @ steps)
      | StepTurnsSelected \<Rightarrow> ho \<le> length history \<and> so \<le> length steps \<and> llm_turns plan \<noteq> [] \<and>
          llm_turns plan = clip (drop ho history @ drop so steps)
      | Emergency \<Rightarrow>
          length (llm_turns plan) = (if budget = 0 \<or> history @ steps = [] then 0 else 1))"

lemma emergency_turns:
  "rung (emergency ops counter b r t h s hist step ho so) = Emergency"
  "length (llm_turns (emergency ops counter b r t h s hist step ho so)) =
     (if h @ s = [] \<and> hist @ step = [] then 0 else 1)"
  "tokens_fit (emergency ops counter b r t h s hist step ho so) =
     sum_tokens counter (llm_turns (emergency ops counter b r t h s hist step ho so))"
  by (auto simp: emergency_def sum_tokens_def Let_def split: if_splits)

lemma fit_plan_spec:
  assumes "length history < 2 ^ 32" "length steps < 2 ^ 32"
    and plan_def: "plan = fit_turns_for_summarizer ops history steps counter budget"
  shows "rung_turns ops counter budget history steps plan \<and>
    tokens_fit plan = sum_tokens counter (llm_turns plan) \<and>
    (rung plan \<noteq> Emergency \<longrightarrow> tokens_fit plan \<le> budget)"
proof -
  let ?clip = "map (shrink_one ops counter budget)"
  obtain hist hc ho where d1: "drop_side ops budget (sum_counts (map counter steps)) history
      (map counter history) = (hist, hc, ho)" by (metis prod_cases3)
  have h: "hist = drop ho history" "ho \<le> length history" "hc = map counter hist"
    using drop_side_suffix[OF d1 assms(1)] by auto
  obtain step sc so where d2: "drop_side ops budget (sum_counts (map counter (?clip hist))) (?clip steps)
      (map counter (?clip steps)) = (step, sc, so)" by (metis prod_cases3)
  have s: "step = drop so (?clip steps)" "so \<le> length steps" "sc = map counter step"
    using drop_side_suffix[OF d2] assms(2) by auto
  have clip: "fst (shrink_oversized_tool_results ops counter budget xs) = ?clip xs" for xs
    by (simp add: shrink_oversized_tool_results_def shrink_one_def)
  obtain n1 n2 where n: "shrink_oversized_tool_results ops counter budget hist = (?clip hist, n1)"
    "shrink_oversized_tool_results ops counter budget steps = (?clip steps, n2)"
    using clip by (metis prod.collapse)
  have plan: "plan =
     (let raw = sum_tokens counter (history @ steps) in
      if budget = 0 then
        \<lparr>llm_turns = [], tokens_raw = raw, tokens_fit = 0, rung = Emergency, items_truncated = 0,
         history_turns_omitted = as_u32 (length history), step_turns_omitted = as_u32 (length steps)\<rparr>
      else if raw \<le> budget then plan_ok history steps counter raw Verbatim 0 0 0
      else if sum_tokens counter (hist @ steps) \<le> budget
      then plan_ok hist steps counter raw HistoryTurnSelected 0 ho 0
      else if sum_tokens counter (?clip hist @ ?clip steps) \<le> budget
      then plan_ok (?clip hist) (?clip steps) counter raw ToolTruncated (sat_add32 n1 n2) ho 0
      else if sum_tokens counter (?clip hist @ step) \<le> budget \<and> (?clip hist \<noteq> [] \<or> step \<noteq> [])
      then plan_ok (?clip hist) step counter raw StepTurnsSelected (sat_add32 n1 n2) ho so
      else emergency ops counter budget raw (sat_add32 n1 n2) history steps (?clip hist) step ho so)"
    unfolding plan_def fit_turns_for_summarizer_def token_counts_def Let_def d1 prod.case n d2
      sat_add_sum h(3) s(3) sum_counts_tokens ..
  define G where "G p \<longleftrightarrow> rung_turns ops counter budget history steps p \<and>
      tokens_fit p = sum_tokens counter (llm_turns p) \<and> (rung p \<noteq> Emergency \<longrightarrow> tokens_fit p \<le> budget)" for p
  have ok: "G (plan_ok xs ys counter r rg t o1 o2)" if "sum_tokens counter (xs @ ys) \<le> budget"
      "rung_turns ops counter budget history steps (plan_ok xs ys counter r rg t o1 o2)"
    for xs ys r rg t o1 o2
    using that by (simp add: plan_ok_def G_def)
  have turns: "rung_turns ops counter budget history steps (plan_ok history steps counter r Verbatim 0 0 0)"
    "rung_turns ops counter budget history steps (plan_ok hist steps counter r HistoryTurnSelected 0 ho 0)"
    "rung_turns ops counter budget history steps
       (plan_ok (?clip hist) (?clip steps) counter r ToolTruncated t ho 0)"
    "?clip hist \<noteq> [] \<or> step \<noteq> [] \<Longrightarrow> rung_turns ops counter budget history steps
       (plan_ok (?clip hist) step counter r StepTurnsSelected t ho so)" for r t
    using h(2) s(2) by (simp_all add: rung_turns_def plan_ok_def h(1) s(1) drop_map)
  have em: "G p" if "rung p = Emergency"
      "length (llm_turns p) = (if budget = 0 \<or> history @ steps = [] then 0 else 1)"
      "tokens_fit p = sum_tokens counter (llm_turns p)" for p
    using that by (simp add: rung_turns_def G_def)
  have ifG: "(c \<Longrightarrow> G a) \<Longrightarrow> (\<not> c \<Longrightarrow> G b) \<Longrightarrow> G (if c then a else b)" for c a b by simp
  have "G plan"
    unfolding plan Let_def
  proof (intro ifG)
    show "G \<lparr>llm_turns = [], tokens_raw = sum_tokens counter (history @ steps), tokens_fit = 0,
      rung = Emergency, items_truncated = 0, history_turns_omitted = as_u32 (length history),
      step_turns_omitted = as_u32 (length steps)\<rparr>" if "budget = 0"
      using that by (intro em) (simp_all add: sum_tokens_def)
    show "G (emergency ops counter budget (sum_tokens counter (history @ steps)) (sat_add32 n1 n2)
        history steps (?clip hist) step ho so)" if "budget \<noteq> 0"
      using that by (intro em) (auto simp: emergency_turns h(1) s(1))
  qed (blast intro: ok turns)+
  then show ?thesis unfolding G_def .
qed

section \<open>Properties\<close>

text \<open>
  Every rung but the last keeps the input within the budget, and the reported size is the size of
  what is handed on; the turns handed on are a suffix of the history and a suffix of the steps in
  their order, with oversized tool results clipped only on the later rungs; the emergency rung hands
  on one item (none only when there was nothing, or no budget).
\<close>

lemma fit_plan_correct:
  assumes "length history < 2 ^ 32" and "length steps < 2 ^ 32"
  shows "let plan = fit_turns_for_summarizer ops history steps counter budget in
    rung_turns ops counter budget history steps plan \<and>
    tokens_fit plan = sum_tokens counter (llm_turns plan) \<and>
    (rung plan \<noteq> Emergency \<longrightarrow> tokens_fit plan \<le> budget)"
  unfolding Let_def using fit_plan_spec[OF assms refl] .

definition sample_counter :: "(compaction_role \<times> ustr) counter" where
  "sample_counter x = length (snd x)"

lemmas fit_eval = fit_turns_for_summarizer_def token_counts_def sum_counts_eq sample_counter_def
  sat_add32_def u32_max_def drop_side_def keep_recent_under_budget_def select_turns_to_compact_def
  snap_to_safe_boundary_def sample_ops_def is_tool_result_def plan_ok_def as_u32_def sum_tokens_eq

lemma sample_fit:
  "fit_turns_for_summarizer sample_ops [(User, [1, 2, 3]), (User, [4])] [(Assistant, [5])] sample_counter 2 =
     \<lparr>llm_turns = [(User, [4]), (Assistant, [5])], tokens_raw = 5, tokens_fit = 2,
      rung = HistoryTurnSelected, items_truncated = 0, history_turns_omitted = 1, step_turns_omitted = 0\<rparr>"
  by (simp add: fit_eval)

lemma fit_plan_correct_witness:
  "tokens_fit (fit_turns_for_summarizer sample_ops [(User, [1, 2, 3]), (User, [4])] [(Assistant, [5])]
     sample_counter 2) \<le> 2"
  using fit_plan_correct[of "[(User, [1, 2, 3]), (User, [4])]" "[(Assistant, [5])]" sample_ops
      sample_counter 2]
  by (simp add: sample_fit)

text \<open>
  With steps to summarise and a positive budget the ladder never hands on an empty input.
\<close>

lemma fit_plan_nonempty:
  assumes "length history < 2 ^ 32" and "length steps < 2 ^ 32" and "steps \<noteq> []" and "0 < budget"
  shows "llm_turns (fit_turns_for_summarizer ops history steps counter budget) \<noteq> []"
  using fit_plan_spec[OF assms(1,2) refl, of ops counter budget] assms(3,4)
  by (auto simp: rung_turns_def Let_def split: fit_rung.splits)

lemma fit_plan_nonempty_witness:
  "llm_turns (fit_turns_for_summarizer sample_ops [] [(Tool, [1, 2, 3])] sample_counter 2) \<noteq> []"
  by (rule fit_plan_nonempty) simp_all

text \<open>
  Without steps it can: one history turn that alone exceeds the budget is dropped by the first rung,
  and the empty rest "fits", so the emergency rung is never reached.
\<close>

lemma fit_plan_empty_history:
  "fit_turns_for_summarizer sample_ops [(User, [1, 2, 3])] [] sample_counter 2 =
     \<lparr>llm_turns = [], tokens_raw = 3, tokens_fit = 0, rung = HistoryTurnSelected,
      items_truncated = 0, history_turns_omitted = 1, step_turns_omitted = 0\<rparr>"
  by (simp add: fit_eval)

end
