(* ===== verification/Compact_Summary.thy ===== *)
theory Compact_Summary
  imports Compact_Item
begin

text \<open>
  Cleaning the summary a model returns and assembling the compacted history
  (\<open>code_compaction/summary.rs\<close>, \<open>code_compaction/assemble.rs\<close>).

  The two \<open>while\<close> loops of \<open>format_compact_summary\<close> are recursions that end because every iteration
  shortens the text. The slices the code takes are between positions that \<open>find\<close> and \<open>rfind\<close>
  returned; \<open>drop\<close> and \<open>take\<close> model them.
\<close>

section \<open>Facts on searching\<close>

lemma find_str_Some: "find_str pat s = Some i \<Longrightarrow> \<exists>r. s = take i s @ pat @ r \<and> i + length pat \<le> length s"
proof (induction pat s arbitrary: i rule: find_str.induct)
  case (2 pat c s)
  show ?case
  proof (cases "starts_with (c # s) pat")
    case True
    then obtain r where "c # s = pat @ r" by (auto simp: starts_with_iff)
    moreover have "i = 0" using 2(2) True by simp
    ultimately show ?thesis by (metis append_Nil length_append le_add1 plus_nat.add_0 take0)
  next
    case False
    with 2(2) obtain j where "find_str pat s = Some j" "i = Suc j" by auto
    with 2(1)[OF False] show ?thesis by fastforce
  qed
qed (auto simp: starts_with_iff split: if_splits)

lemma contains_Nil: "contains [] q \<longleftrightarrow> q = []"
  by (auto simp: contains_def starts_with_iff)

lemma contains_Cons: "contains (c # s) q \<longleftrightarrow> starts_with (c # s) q \<or> contains s q"
  by (auto simp: contains_def)

lemma contains_iff: "contains s q \<longleftrightarrow> (\<exists>a b. s = a @ q @ b)"
proof (induction s)
  case (Cons c s)
  have "(\<exists>a b. c # s = a @ q @ b) \<longleftrightarrow> (\<exists>b. c # s = q @ b) \<or> (\<exists>a b. s = a @ q @ b)"
    by (metis append_Cons append_Nil list.sel(3) neq_Nil_conv)
  with Cons show ?case by (simp add: contains_Cons starts_with_iff)
qed (simp add: contains_Nil)

lemma find_str_None: "find_str q s = None \<longleftrightarrow> \<not> contains s q"
  by (simp add: contains_def)

lemma contains_substring: "contains s q \<Longrightarrow> contains (a @ s @ b) q"
  by (metis contains_iff append.assoc)

section \<open>Model\<close>

definition ANALYSIS_OPEN :: ustr where "ANALYSIS_OPEN = lit ''<analysis>''"
definition ANALYSIS_CLOSE :: ustr where "ANALYSIS_CLOSE = lit ''</analysis>''"
definition SUMMARY_OPEN :: ustr where "SUMMARY_OPEN = lit ''<summary>''"
definition SUMMARY_CLOSE :: ustr where "SUMMARY_CLOSE = lit ''</summary>''"
definition REQUEST_OPEN :: ustr where "REQUEST_OPEN = lit ''<summary_request>''"
definition REQUEST_CLOSE :: ustr where "REQUEST_CLOSE = lit ''</summary_request>''"

lemmas tags = ANALYSIS_OPEN_def ANALYSIS_CLOSE_def SUMMARY_OPEN_def SUMMARY_CLOSE_def
  REQUEST_OPEN_def REQUEST_CLOSE_def lit_def

text \<open>Step 1: leading drafting blocks.\<close>

definition is_leading :: "ustr \<Rightarrow> usize \<Rightarrow> bool" where
  "is_leading result start \<longleftrightarrow>
     (case find_str SUMMARY_OPEN result of
        Some sp \<Rightarrow> start < sp \<or> trim (drop (sp + length SUMMARY_OPEN) (take start result)) = []
      | None \<Rightarrow> trim (take start result) = [])"

function strip_analysis :: "ustr \<Rightarrow> ustr" where
  "strip_analysis result =
     (case find_str ANALYSIS_OPEN result of
        None \<Rightarrow> result
      | Some start \<Rightarrow>
          if \<not> is_leading result start then result
          else
            (case find_str ANALYSIS_CLOSE (drop start result) of
               Some rel \<Rightarrow>
                 strip_analysis
                   (take start result @ drop (start + rel + length ANALYSIS_CLOSE) result)
             | None \<Rightarrow>
                 (let drop_to = (case find_str SUMMARY_OPEN (drop start result) of
                                   None \<Rightarrow> length result
                                 | Some rel \<Rightarrow> start + rel)
                  in take start result @ drop drop_to result)))"
  by pat_completeness auto
termination
proof (relation "measure length")
  fix result :: ustr and start rel
  assume "find_str ANALYSIS_OPEN result = Some start" "find_str ANALYSIS_CLOSE (drop start result) = Some rel"
  then have "start \<le> length result" "rel + length ANALYSIS_CLOSE \<le> length (drop start result)"
    using find_str_Some by fastforce+
  then show "(take start result @ drop (start + rel + length ANALYSIS_CLOSE) result, result) \<in> measure length"
    by (simp add: tags)
qed simp

declare strip_analysis.simps [simp del]

text \<open>\<open>trim_start_matches\<close> with the characters of markdown decoration.\<close>

definition strip_leading_scratchpad :: "ustr \<Rightarrow> ustr" where
  "strip_leading_scratchpad inner =
     (let s = trim inner;
          lead = dropWhile (\<lambda>c. c \<in> {35, 42, 45, 62, 32, 9}) s;
          leads_with_digit = (case lead of [] \<Rightarrow> False | c # _ \<Rightarrow> is_ascii_digit c);
          s = (if \<not> leads_with_digit
               then (case rfind_str ANALYSIS_CLOSE s of
                       Some pos \<Rightarrow> trim_start (drop (pos + length ANALYSIS_CLOSE) s)
                     | None \<Rightarrow> s)
               else s)
      in case strip_prefix SUMMARY_OPEN s of
           Some rest \<Rightarrow> trim_start rest
         | None \<Rightarrow> s)"

definition ZWSP :: uchar where "ZWSP = 8203"

definition defuse :: "ustr \<Rightarrow> ustr" where
  "defuse tag = hd tag # ZWSP # tl tag"

definition neutralize_compaction_control_tokens :: "ustr \<Rightarrow> ustr" where
  "neutralize_compaction_control_tokens text =
     (let t = replace_all SUMMARY_CLOSE (defuse SUMMARY_CLOSE) text;
          t = replace_all SUMMARY_OPEN (defuse SUMMARY_OPEN) t;
          t = replace_all ANALYSIS_CLOSE (defuse ANALYSIS_CLOSE) t;
          t = replace_all ANALYSIS_OPEN (defuse ANALYSIS_OPEN) t;
          t = replace_all REQUEST_CLOSE (defuse REQUEST_CLOSE) t
      in replace_all REQUEST_OPEN (defuse REQUEST_OPEN) t)"

text \<open>Step 2: the outer summary element.\<close>

definition unwrap_summary :: "ustr \<Rightarrow> ustr" where
  "unwrap_summary result =
     (case (find_str SUMMARY_OPEN result, rfind_str SUMMARY_CLOSE result) of
        (Some start, Some end_pos) \<Rightarrow>
          if end_pos > start
          then
            (let before = take start result;
                 after = drop (end_pos + length SUMMARY_CLOSE) result;
                 inner = strip_leading_scratchpad
                           (trim (drop (start + length SUMMARY_OPEN) (take end_pos result)))
             in before @ lit ''Summary:'' @ [NL] @ inner @ after)
          else result
      | _ \<Rightarrow> result)"

lemma replace_all_le: "length rep \<le> length pat \<Longrightarrow> length (replace_all pat rep s) \<le> length s"
proof (induction pat rep s rule: replace_all.induct)
  case (2 pat rep c s)
  show ?case
  proof (cases "strip_prefix pat (c # s)")
    case (Some r)
    then have "Suc (length s) = length pat + length r"
      by (metis length_Cons length_append strip_prefix_Some_iff)
    then show ?thesis
    proof (cases "pat = []")
      case False
      with 2(2)[OF Some] 2(3) Some \<open>Suc (length s) = length pat + length r\<close> show ?thesis by simp
    qed simp
  qed (use 2 in simp)
qed simp

lemma replace_all_shrinks:
  assumes "length rep < length pat" "contains s pat"
  shows "length (replace_all pat rep s) < length s"
  using assms
proof (induction pat rep s rule: replace_all.induct)
  case (1 pat rep)
  then show ?case by (simp add: contains_Nil)
next
  case (2 pat rep c s)
  show ?case
  proof (cases "strip_prefix pat (c # s)")
    case None
    then have "contains s pat" using 2(4) by (simp add: contains_Cons starts_with_def)
    with 2 None show ?thesis by simp
  next
    case (Some r)
    then have "Suc (length s) = length pat + length r"
      by (metis length_Cons length_append strip_prefix_Some_iff)
    moreover have "pat \<noteq> []" using 2(3) by auto
    ultimately show ?thesis using Some 2(3) replace_all_le[of rep pat r] by simp
  qed
qed

function collapse_blank_lines :: "ustr \<Rightarrow> ustr" where
  "collapse_blank_lines result =
     (if contains result [NL, NL, NL]
      then collapse_blank_lines (replace_all [NL, NL, NL] [NL, NL] result) else result)"
  by pat_completeness auto
termination by (relation "measure length") (auto intro: replace_all_shrinks)

declare collapse_blank_lines.simps [simp del]

definition format_compact_summary :: "ustr \<Rightarrow> ustr" where
  "format_compact_summary summary =
     trim (collapse_blank_lines
       (neutralize_compaction_control_tokens (unwrap_summary (strip_analysis summary))))"

definition MIN_SUMMARY_SEED_CHARS :: nat where "MIN_SUMMARY_SEED_CHARS = 500"

definition is_degenerate_summary :: "ustr \<Rightarrow> bool" where
  "is_degenerate_summary raw_summary \<longleftrightarrow>
     length (format_compact_summary raw_summary) < MIN_SUMMARY_SEED_CHARS"

definition format_compact_summary_content :: "ustr \<Rightarrow> ustr" where
  "format_compact_summary_content raw_summary =
     lit ''This session is being continued from a previous conversation that ran out of context. The summary below covers the earlier portion of the conversation.'' @ [NL, NL] @
     format_compact_summary raw_summary"

definition wrap_user_query :: "ustr \<Rightarrow> ustr" where
  "wrap_user_query text = lit ''<user_query>'' @ [NL] @ text @ [NL] @ lit ''</user_query>''"

section \<open>Assembly\<close>

text \<open>The constructors of \<open>CompactionItemFactory\<close>, implemented by the harness.\<close>

record 'a item_factory =
  new_user :: "ustr \<Rightarrow> 'a"
  new_user_meta :: "ustr \<Rightarrow> 'a"
  new_project_instructions :: "ustr \<Rightarrow> 'a"
  new_system_reminder :: "ustr \<Rightarrow> 'a"

record 'a compacted_history_parts =
  system_message :: 'a
  user_message_prefix :: ustr
  agents_md_reminder :: "ustr option"
  last_user_query :: "ustr option"
  recent_messages :: "'a list"
  compaction_summary :: ustr
  system_reminder :: "ustr option"
  transcript_hint :: "ustr option"

definition assemble_compacted_history ::
    "'a item_factory \<Rightarrow> 'a compacted_history_parts \<Rightarrow> 'a list" where
  "assemble_compacted_history f parts =
     [system_message parts, new_user_meta f (user_message_prefix parts)] @
     (case agents_md_reminder parts of Some r \<Rightarrow> [new_project_instructions f r] | None \<Rightarrow> []) @
     (case last_user_query parts of Some q \<Rightarrow> [new_user f (wrap_user_query q)] | None \<Rightarrow> []) @
     recent_messages parts @
     [new_user_meta f (format_compact_summary_content (compaction_summary parts) @
        (case transcript_hint parts of Some h \<Rightarrow> h | None \<Rightarrow> []))] @
     (case system_reminder parts of Some r \<Rightarrow> [new_system_reminder f r] | None \<Rightarrow> [])"

section \<open>Defusing\<close>

text \<open>
  A replacement that keeps the first character of the pattern does not change which strings without
  that character the text starts with.
\<close>

lemma replace_all_starts_with:
  assumes "h \<notin> set t"
  shows "starts_with (replace_all (h # p) (h # r) s) t \<longleftrightarrow> starts_with s t"
  using assms
proof (induction t arbitrary: s)
  case (Cons c t)
  show ?case
  proof (cases s)
    case (Cons d s')
    show ?thesis
    proof (cases "strip_prefix (h # p) s")
      case (Some u)
      then have "d = h" by (auto simp: Cons split: if_splits)
      then show ?thesis using Cons.prems Some by (auto simp: \<open>s = d # s'\<close> starts_with_def)
    next
      case None
      then show ?thesis
        using Cons.IH[of s'] Cons.prems by (simp add: \<open>s = d # s'\<close> starts_with_def del: strip_prefix.simps(3))
          (simp add: starts_with_def)
    qed
  qed (simp add: starts_with_def)
qed (simp add: starts_with_def)

text \<open>A tag: an angle bracket, then neither an angle bracket nor the sentinel.\<close>

definition is_tag :: "ustr \<Rightarrow> bool" where
  "is_tag q \<longleftrightarrow> (\<exists>t. q = 60 # t \<and> t \<noteq> [] \<and> 60 \<notin> set t \<and> ZWSP \<notin> set t)"

lemma starts_with_cut: "x \<notin> set q \<Longrightarrow> starts_with (a @ x # b) q \<longleftrightarrow> starts_with a q"
proof (induction q arbitrary: a)
  case (Cons y q)
  then show ?case by (cases a) (auto simp: starts_with_def)
qed (simp add: starts_with_def)

lemma contains_cut:
  "x \<notin> set q \<Longrightarrow> q \<noteq> [] \<Longrightarrow> contains (a @ x # b) q \<longleftrightarrow> contains a q \<or> contains b q"
proof (induction a)
  case Nil
  then show ?case using starts_with_cut[of x q "[]" b] by (auto simp: contains_Cons contains_Nil starts_with_iff)
next
  case (Cons c a)
  then show ?case using starts_with_cut[of x q "c # a" b] by (simp add: contains_Cons)
qed

lemma contains_skip: "x \<notin> set a \<Longrightarrow> contains (a @ s) (x # q) \<longleftrightarrow> contains s (x # q)"
  by (induction a) (auto simp: contains_Cons starts_with_def)

lemma replace_tag_contains:
  assumes "is_tag tag" "is_tag q" "contains (replace_all tag (defuse tag) s) q"
  shows "contains s q \<and> q \<noteq> tag"
proof -
  obtain p where p: "tag = 60 # p" "60 \<notin> set p" using assms(1) by (auto simp: is_tag_def)
  obtain t where t: "q = 60 # t" "t \<noteq> []" "60 \<notin> set t" "ZWSP \<notin> set t"
    using assms(2) by (auto simp: is_tag_def)
  have "contains (replace_all (60 # p) (60 # ZWSP # p) s) (60 # t) \<longrightarrow> contains s (60 # t) \<and> t \<noteq> p"
  proof (induction "60 # p" "60 # ZWSP # p" s rule: replace_all.induct)
    case 1
    then show ?case by (simp add: contains_Nil)
  next
    case (2 c s)
    show ?case
    proof (cases "strip_prefix (60 # p) (c # s)")
      case (Some r)
      have "\<not> starts_with (60 # ZWSP # p @ u) (60 # t)" for u
        using t by (cases t) (auto simp: starts_with_def)
      moreover have "contains (ZWSP # p @ u) (60 # t) = contains u (60 # t)" for u
        using contains_skip[of 60 "ZWSP # p" u t] p(2) by (simp add: ZWSP_def)
      moreover have "c # s = (60 # p) @ r" by (rule iffD1[OF strip_prefix_Some_iff Some])
      then have "contains r (60 # t) \<Longrightarrow> contains (c # s) (60 # t)"
        using contains_substring[of r "60 # t" "60 # p" "[]"] by simp
      ultimately show ?thesis using 2(2)[OF Some] Some
        by (simp add: contains_Cons[of 60] del: strip_prefix.simps)
    next
      case None
      have "t \<noteq> p \<and> starts_with (c # s) (60 # t)"
        if "starts_with (c # replace_all (60 # p) (60 # ZWSP # p) s) (60 # t)"
        using that None replace_all_starts_with[OF t(3), of p "ZWSP # p" s]
        by (auto simp: starts_with_def split: if_splits)
      then show ?thesis using 2(1)[OF None] None by (auto simp: contains_Cons simp del: strip_prefix.simps)
    qed
  qed
  then show ?thesis using assms(3) by (simp add: p t defuse_def)
qed

lemma control_tags: "is_tag SUMMARY_CLOSE" "is_tag SUMMARY_OPEN" "is_tag ANALYSIS_CLOSE"
  "is_tag ANALYSIS_OPEN" "is_tag REQUEST_CLOSE" "is_tag REQUEST_OPEN"
  by (simp_all add: is_tag_def tags ZWSP_def)

definition control_tokens :: "ustr list" where
  "control_tokens = [SUMMARY_CLOSE, SUMMARY_OPEN, ANALYSIS_CLOSE, ANALYSIS_OPEN, REQUEST_CLOSE, REQUEST_OPEN]"

lemma defuse_all_clean:
  "list_all is_tag ts \<Longrightarrow> q \<in> set ts \<Longrightarrow> \<not> contains (fold (\<lambda>tag. replace_all tag (defuse tag)) ts s) q"
proof (induction ts rule: rev_induct)
  case (snoc t ts)
  have "is_tag q" using snoc.prems by (auto simp: list_all_iff)
  then show ?case
    using replace_tag_contains[of t q "fold (\<lambda>tag. replace_all tag (defuse tag)) ts s"] snoc by auto
qed simp

lemma neutralize_clean:
  assumes "q \<in> set control_tokens" shows "\<not> contains (neutralize_compaction_control_tokens s) q"
proof -
  have "neutralize_compaction_control_tokens s = fold (\<lambda>tag. replace_all tag (defuse tag)) control_tokens s"
    by (simp add: neutralize_compaction_control_tokens_def control_tokens_def Let_def)
  then show ?thesis
    using defuse_all_clean[OF _ assms] control_tags by (simp add: control_tokens_def)
qed

text \<open>Collapsing blank lines and trimming do not make tokens.\<close>

lemma replace_newlines_contains:
  assumes "NL \<notin> set q" "q \<noteq> []" "contains (replace_all [NL, NL, NL] [NL, NL] s) q"
  shows "contains s q"
proof -
  obtain x t where q: "q = x # t" using assms(2) by (cases q) auto
  have "contains (replace_all [NL, NL, NL] [NL, NL] s) q \<longrightarrow> contains s q"
  proof (induction "[NL, NL, NL]" "[NL, NL]" s rule: replace_all.induct)
    case (2 c s)
    show ?case
    proof (cases "strip_prefix [NL, NL, NL] (c # s)")
      case (Some r)
      have "contains ([NL, NL] @ u) q = contains u q" for u
        using contains_skip[of x "[NL, NL]" u t] assms(1) q by auto
      moreover have "c # s = [NL, NL, NL] @ r" by (rule iffD1[OF strip_prefix_Some_iff Some])
      then have "contains r q \<Longrightarrow> contains (c # s) q"
        using contains_substring[of r q "[NL, NL, NL]" "[]"] by simp
      ultimately show ?thesis using 2(2)[OF Some] Some by (simp del: strip_prefix.simps)
    next
      case None
      then have "starts_with (c # s) q" if "starts_with (c # replace_all [NL, NL, NL] [NL, NL] s) q"
        using that replace_all_starts_with[of NL t "[NL, NL]" "[NL]" s] assms(1) q
        by (auto simp: starts_with_def split: if_splits)
      then show ?thesis using 2(1)[OF None] None by (auto simp: contains_Cons simp del: strip_prefix.simps)
    qed
  qed simp
  with assms(3) show ?thesis by simp
qed

lemma collapse_contains:
  "NL \<notin> set q \<Longrightarrow> q \<noteq> [] \<Longrightarrow> contains (collapse_blank_lines s) q \<Longrightarrow> contains s q"
proof (induction s rule: collapse_blank_lines.induct)
  case (1 s)
  then show ?case
    by (cases "contains s [NL, NL, NL]")
      (auto simp: collapse_blank_lines.simps[of s] dest: replace_newlines_contains)
qed

lemma collapse_no_blank: "\<not> contains (collapse_blank_lines s) [NL, NL, NL]"
proof (induction s rule: collapse_blank_lines.induct)
  case (1 s)
  then show ?case by (cases "contains s [NL, NL, NL]") (auto simp: collapse_blank_lines.simps[of s])
qed

lemma contains_trim: "contains (trim s) q \<Longrightarrow> contains s q"
  using trim_substring[of s] contains_substring by metis

lemma control_tokens_no_NL: "q \<in> set control_tokens \<Longrightarrow> NL \<notin> set q \<and> q \<noteq> []"
  by (auto simp: control_tokens_def tags)

section \<open>Properties\<close>

text \<open>
  Whatever the model returned, the cleaned summary contains none of the six control tokens (so it
  cannot prime the next turn to emit a summary block), never more than one blank line in a row, and
  no white space at its ends.
\<close>

lemma format_compact_summary_clean:
  "list_all (\<lambda>q. \<not> contains (format_compact_summary raw) q) control_tokens \<and>
   \<not> contains (format_compact_summary raw) [NL, NL, NL] \<and>
   trim (format_compact_summary raw) = format_compact_summary raw"
proof -
  have "\<not> contains (format_compact_summary raw) q" if "q \<in> set control_tokens" for q
    using neutralize_clean[OF that] control_tokens_no_NL[OF that]
    unfolding format_compact_summary_def by (blast dest: contains_trim collapse_contains)
  then show ?thesis
    using collapse_no_blank contains_trim unfolding format_compact_summary_def
    by (auto simp: list_all_iff)
qed

section \<open>The expected answer\<close>

lemma find_str_skip:
  "x \<notin> set a \<Longrightarrow> find_str (x # q) (a @ s) = map_option (\<lambda>i. length a + i) (find_str (x # q) s)"
  by (cases "find_str (x # q) s"; induction a) (auto simp: starts_with_def)

lemma find_str_here: "find_str pat (pat @ s) = Some 0"
proof -
  have "starts_with (pat @ s) pat" by (simp add: starts_with_iff)
  then show ?thesis by (cases "pat @ s") simp_all
qed

lemma rfind_str_None: "rfind_str q s = None \<longleftrightarrow> \<not> contains s q"
  by (induction s) (auto simp: contains_Nil contains_Cons starts_with_iff split: option.splits)

lemma rfind_str_last:
  assumes "x \<notin> set q" shows "rfind_str (x # q) (a @ x # q) = Some (length a)"
proof (induction a)
  case Nil
  have "\<not> contains q (x # q)" using contains_skip[OF assms, of "[]" q] by (simp add: contains_Nil)
  then show ?case by (simp add: rfind_str_None[THEN iffD2] starts_with_iff)
qed simp

lemma replace_all_id: "\<not> contains s pat \<Longrightarrow> replace_all pat rep s = s"
  by (induction pat rep s rule: replace_all.induct)
    (auto simp: contains_Cons starts_with_def)

lemma no_bracket_contains: "60 \<notin> set s \<Longrightarrow> is_tag q \<Longrightarrow> \<not> contains s q"
  using contains_skip[of 60 s "[]"] by (auto simp: is_tag_def contains_Nil)

lemma neutralize_id: "60 \<notin> set s \<Longrightarrow> neutralize_compaction_control_tokens s = s"
  by (simp add: neutralize_compaction_control_tokens_def replace_all_id no_bracket_contains control_tags)

lemma collapse_id: "\<not> contains s [NL, NL, NL] \<Longrightarrow> collapse_blank_lines s = s"
  by (simp add: collapse_blank_lines.simps)

lemma strip_scratchpad_id: "60 \<notin> set s \<Longrightarrow> strip_leading_scratchpad (trim s) = trim s"
proof -
  assume "60 \<notin> set s"
  then have n: "60 \<notin> set (trim s)" using trim_substring[of s] by (metis Un_iff set_append)
  then have "strip_prefix SUMMARY_OPEN (trim s) = None"
    by (cases "trim s") (auto simp: tags)
  then show ?thesis
    using rfind_str_None[THEN iffD2, OF no_bracket_contains[OF n control_tags(3)]]
    by (simp add: strip_leading_scratchpad_def Let_def)
qed

lemma strip_analysis_leading:
  assumes "60 \<notin> set A" "60 \<notin> set W" "60 \<notin> set B"
  shows "strip_analysis (ANALYSIS_OPEN @ A @ ANALYSIS_CLOSE @ W @ SUMMARY_OPEN @ B @ SUMMARY_CLOSE) =
    W @ SUMMARY_OPEN @ B @ SUMMARY_CLOSE" (is "strip_analysis ?s = ?r")
proof -
  have none: "find_str ANALYSIS_OPEN ?r = None"
    using assms by (simp add: tags find_str_skip starts_with_def)
  then have r: "strip_analysis ?r = ?r" by (simp add: strip_analysis.simps)
  have start: "find_str ANALYSIS_OPEN ?s = Some 0" by (rule find_str_here)
  have "find_str SUMMARY_OPEN ?s \<noteq> Some 0" by (auto simp: tags starts_with_def)
  moreover have "find_str SUMMARY_OPEN ?s \<noteq> None"
    unfolding find_str_None contains_iff by (metis append.assoc)
  ultimately have lead: "is_leading ?s 0" by (auto simp: is_leading_def)
  have close: "find_str ANALYSIS_CLOSE (drop 0 ?s) = Some (length (ANALYSIS_OPEN @ A))"
    using assms find_str_skip[of 60 A] by (simp add: tags starts_with_def)
  have "take 0 ?s @ drop (0 + length (ANALYSIS_OPEN @ A) + length ANALYSIS_CLOSE) ?s = ?r" by simp
  then show ?thesis
    unfolding strip_analysis.simps[of ?s] start option.case using lead close r by simp
qed

lemma unwrap_summary_simple:
  assumes "60 \<notin> set W" "60 \<notin> set B"
  shows "unwrap_summary (W @ SUMMARY_OPEN @ B @ SUMMARY_CLOSE) = W @ lit ''Summary:'' @ [NL] @ trim B"
    (is "unwrap_summary ?s = _")
proof -
  have "find_str SUMMARY_OPEN ?s = map_option (\<lambda>i. length W + i) (find_str SUMMARY_OPEN (SUMMARY_OPEN @ B @ SUMMARY_CLOSE))"
    using find_str_skip[OF assms(1), of "tl SUMMARY_OPEN"] by (simp add: tags)
  then have start: "find_str SUMMARY_OPEN ?s = Some (length W)" by (simp add: find_str_here)
  have close: "rfind_str SUMMARY_CLOSE ?s = Some (length (W @ SUMMARY_OPEN @ B))"
    using rfind_str_last[of 60 "tl SUMMARY_CLOSE" "W @ SUMMARY_OPEN @ B"] by (simp add: tags)
  have "drop (length W + length SUMMARY_OPEN) (take (length (W @ SUMMARY_OPEN @ B)) ?s) = B" by simp
  moreover have "0 < length SUMMARY_OPEN" by (simp add: tags)
  ultimately show ?thesis
    using strip_scratchpad_id[OF assms(2)] by (simp add: unwrap_summary_def start close)
qed

text \<open>
  The answer the prompt asks for comes through: from an analysis block and a summary block, with
  white space between them, the cleaned text is the heading and the trimmed summary, nothing of the
  analysis.
\<close>

lemma format_compact_summary_extracts:
  assumes "60 \<notin> set A" and "60 \<notin> set B" and "list_all is_ws W" and "trim B \<noteq> []"
    and "\<not> contains W [NL, NL, NL]" and "\<not> contains B [NL, NL, NL]"
  shows "format_compact_summary
      (ANALYSIS_OPEN @ A @ ANALYSIS_CLOSE @ W @ SUMMARY_OPEN @ B @ SUMMARY_CLOSE) =
    lit ''Summary:'' @ [NL] @ trim B"
proof -
  have W: "60 \<notin> set W" using assms(3) by (auto simp: list_all_iff is_ws_def)
  let ?t = "lit ''Summary:'' @ [NL] @ trim B"
  have tb: "60 \<notin> set (trim B)" using trim_substring[of B] assms(2) by (metis Un_iff set_append)
  have "60 \<notin> set (W @ ?t)" using W tb by (simp add: lit_def)
  moreover have "\<not> contains (W @ ?t) [NL, NL, NL]"
  proof -
    obtain c u where cu: "trim B = c # u" "\<not> is_ws c"
      using trim_ends[OF assms(4)] assms(4) by (cases "trim B") auto
    have "\<not> contains (trim B) [NL, NL, NL]" using assms(6) contains_trim by blast
    then have "\<not> contains (NL # trim B) [NL, NL, NL]"
      using cu by (auto simp: contains_Cons[of NL] starts_with_def is_ws_def)
    then have "\<not> contains (lit ''ummary:'' @ NL # trim B) [NL, NL, NL]"
      using contains_skip[of NL "lit ''ummary:''" "NL # trim B" "[NL, NL]"] by (simp add: lit_def)
    moreover have "W @ ?t = W @ 83 # lit ''ummary:'' @ NL # trim B" by (simp add: lit_def)
    ultimately show ?thesis using contains_cut[of 83 "[NL, NL, NL]" W] assms(5) by simp
  qed
  moreover have "trim ?t = ?t"
    using trim_ends[OF assms(4)] assms(4) by (intro trim_id) (auto simp: lit_def is_ws_def)
  then have "trim (W @ ?t) = ?t" using assms(3) by (simp add: trim_append_ws)
  ultimately show ?thesis
    unfolding format_compact_summary_def strip_analysis_leading[OF assms(1) W assms(2)]
      unwrap_summary_simple[OF W assms(2)]
    by (simp add: neutralize_id collapse_id)
qed

lemma format_compact_summary_extracts_witness:
  "format_compact_summary (lit ''<analysis>draft</analysis>'' @ [NL] @ lit ''<summary> 1. Goal </summary>'') =
     lit ''Summary:'' @ [NL] @ lit ''1. Goal''"
  using format_compact_summary_extracts[of "lit ''draft''" "lit '' 1. Goal ''" "[NL]"]
  by (simp add: str_eval tags)

text \<open>
  The compacted history has the documented order: system message, user prefix, project
  instructions, last query, recent messages verbatim, summary, reminder; the optional parts are there
  exactly when given.
\<close>

lemma assemble_compacted_history_shape:
  "length (assemble_compacted_history f parts) =
     3 + length (recent_messages parts) +
     (if agents_md_reminder parts = None then 0 else 1) + (if last_user_query parts = None then 0 else 1) +
     (if system_reminder parts = None then 0 else 1) \<and>
   take 2 (assemble_compacted_history f parts) =
     [system_message parts, new_user_meta f (user_message_prefix parts)] \<and>
   (\<exists>pre post. assemble_compacted_history f parts =
      pre @ recent_messages parts @
      new_user_meta f (format_compact_summary_content (compaction_summary parts) @
        (case transcript_hint parts of Some h \<Rightarrow> h | None \<Rightarrow> [])) # post \<and>
      length post = (if system_reminder parts = None then 0 else 1))"
proof -
  have "\<exists>pre post. assemble_compacted_history f parts =
      pre @ recent_messages parts @
      new_user_meta f (format_compact_summary_content (compaction_summary parts) @
        (case transcript_hint parts of Some h \<Rightarrow> h | None \<Rightarrow> [])) # post \<and>
      length post = (if system_reminder parts = None then 0 else 1)"
    by (rule exI[of _ "[system_message parts, new_user_meta f (user_message_prefix parts)] @
      (case agents_md_reminder parts of Some r \<Rightarrow> [new_project_instructions f r] | None \<Rightarrow> []) @
      (case last_user_query parts of Some q \<Rightarrow> [new_user f (wrap_user_query q)] | None \<Rightarrow> [])"],
      rule exI[of _ "case system_reminder parts of Some r \<Rightarrow> [new_system_reminder f r] | None \<Rightarrow> []"])
      (simp add: assemble_compacted_history_def split: option.splits)
  then show ?thesis by (simp add: assemble_compacted_history_def split: option.splits)
qed

end
