(* ===== verification/Compact_History.thy ===== *)
theory Compact_History
  imports Compact_Summary Compact_Select
begin

text \<open>
  Filtering history, carrying user queries over, and validating results
  (\<open>history/filter.rs\<close>, \<open>history/validate.rs\<close>, \<open>history/types.rs\<close>).
\<close>

section \<open>Strategy and validation\<close>

datatype compaction_strategy = Basic | DivideAndConquer | FullReplace

definition strategy_label :: "compaction_strategy \<Rightarrow> ustr" where
  "strategy_label s =
     (case s of Basic \<Rightarrow> lit ''basic'' | DivideAndConquer \<Rightarrow> lit ''divide_and_conquer''
      | FullReplace \<Rightarrow> lit ''full_replace'')"

datatype validation_error = EmptyContent | UnbalancedChunkTags nat nat

definition validation_error_display :: "validation_error \<Rightarrow> ustr" where
  "validation_error_display e =
     (case e of
        EmptyContent \<Rightarrow> lit ''compaction message has empty text content''
      | UnbalancedChunkTags open_n close_n \<Rightarrow>
          lit ''unbalanced chunk_summary tags: '' @ nat_str open_n @ lit '' open, '' @ nat_str close_n @
          lit '' close'')"

definition validate_compaction_text :: "ustr \<Rightarrow> compaction_strategy \<Rightarrow> validation_error + unit" where
  "validate_compaction_text text_content strategy =
     (if trim text_content = [] then Inl EmptyContent
      else if strategy = DivideAndConquer
      then
        (let open_count = match_count (lit ''<chunk_summary'') text_content;
             close_count = match_count (lit ''</chunk_summary>'') text_content
         in if open_count \<noteq> close_count then Inl (UnbalancedChunkTags open_count close_count)
            else Inr ())
      else Inr ())"

section \<open>Filters\<close>

definition keep_turn_for_basic_compaction :: "'a item_ops \<Rightarrow> 'a \<Rightarrow> bool" where
  "keep_turn_for_basic_compaction ops turn =
     (case role ops turn of
        System \<Rightarrow> False
      | Developer \<Rightarrow> is_compaction_summary ops turn
      | _ \<Rightarrow> True)"

definition filter_turns_for_basic :: "'a item_ops \<Rightarrow> 'a list \<Rightarrow> 'a list" where
  "filter_turns_for_basic ops turns = filter (keep_turn_for_basic_compaction ops) turns"

definition filter_turns_for_inter_compaction :: "'a item_ops \<Rightarrow> 'a list \<Rightarrow> 'a list" where
  "filter_turns_for_inter_compaction ops turns =
     List.map_filter
       (\<lambda>turn. case role ops turn of
          Tool \<Rightarrow> None
        | System \<Rightarrow> None
        | Developer \<Rightarrow> if is_compaction_summary ops turn then Some turn else None
        | User \<Rightarrow> Some turn
        | Assistant \<Rightarrow> strip_tool_content ops turn) turns"

section \<open>User queries\<close>

definition QUERIES_OPEN :: ustr where "QUERIES_OPEN = lit ''<grok_user_queries>''"
definition QUERIES_CLOSE :: ustr where "QUERIES_CLOSE = lit ''</grok_user_queries>''"

definition push_rest :: "ustr \<Rightarrow> ustr \<Rightarrow> ustr" where
  "push_rest rest piece =
     (if piece = [] then rest else if rest = [] then piece else rest @ [NL] @ piece)"

text \<open>The loop over the text from \<open>cursor\<close> on, with the sections and the rest collected so far.\<close>

function split_prior_loop :: "ustr \<Rightarrow> ustr list \<Rightarrow> ustr \<Rightarrow> ustr list \<times> ustr" where
  "split_prior_loop tail user_sections rest =
     (case find_str QUERIES_OPEN tail of
        None \<Rightarrow> (user_sections, push_rest rest (trim tail))
      | Some start \<Rightarrow>
          (case find_str QUERIES_CLOSE (drop start tail) of
             None \<Rightarrow> (user_sections, push_rest rest (trim tail))
           | Some end_pos \<Rightarrow>
               (let abs_end = start + end_pos + length QUERIES_CLOSE in
                split_prior_loop (drop abs_end tail)
                  (user_sections @ [drop start (take abs_end tail)])
                  (push_rest rest (trim (take start tail))))))"
  by pat_completeness auto
termination
proof (relation "measure (\<lambda>(tail, _). length tail)")
  fix tail :: ustr and user_sections :: "ustr list" and rest start end_pos x
  assume "find_str QUERIES_OPEN tail = Some start" "find_str QUERIES_CLOSE (drop start tail) = Some end_pos"
    and x: "x = start + end_pos + length QUERIES_CLOSE"
  then have "start + length QUERIES_OPEN \<le> length tail" using find_str_Some by blast
  then show "((drop x tail, user_sections @ [drop start (take x tail)],
      push_rest rest (trim (take start tail))), tail, user_sections, rest) \<in> measure (\<lambda>(tail, _). length tail)"
    by (simp add: x QUERIES_OPEN_def QUERIES_CLOSE_def lit_def)
qed simp

declare split_prior_loop.simps [simp del]

definition split_prior_compaction_text :: "ustr \<Rightarrow> ustr option \<times> ustr" where
  "split_prior_compaction_text text =
     (let (user_sections, rest) = split_prior_loop text [] [] in
      if user_sections = [] then (None, text) else (Some (join [NL] user_sections), rest))"

definition truncate_middle :: "ustr \<Rightarrow> usize \<Rightarrow> ustr option" where
  "truncate_middle msg max_chars =
     (let char_count = length msg in
      if char_count \<le> max_chars then None
      else
        (let front_len = max_chars div 2; back_len = max_chars - front_len
         in Some (take front_len msg @ lit ''...[truncated]...'' @ drop (char_count - back_len) msg)))"

definition render_file_ref :: "compaction_file_ref \<Rightarrow> ustr" where
  "render_file_ref r =
     lit ''<grok_file id='' @ [34] @ file_id r @ [34] @ lit '' name='' @ [34] @ file_name r @ [34] @
     lit '' />'' @ [NL]"

definition render_query :: "usize \<Rightarrow> ustr \<Rightarrow> compaction_file_ref list \<Rightarrow> ustr" where
  "render_query threshold text attachments =
     lit ''<grok_query>'' @
     (case truncate_middle text threshold of Some truncated \<Rightarrow> truncated | None \<Rightarrow> text) @
     (if attachments \<noteq> [] then [NL] @ concat (map render_file_ref attachments) else []) @
     lit ''</grok_query>'' @ [NL]"

fun extract_loop ::
    "'a item_ops \<Rightarrow> usize \<Rightarrow> 'a list \<Rightarrow> ustr \<Rightarrow> bool \<Rightarrow> ustr \<times> bool" where
  "extract_loop ops threshold [] result emitted_any = (result, emitted_any)"
| "extract_loop ops threshold (turn # turns) result emitted_any =
     (if role ops turn \<noteq> User then extract_loop ops threshold turns result emitted_any
      else
        (let text = (case item_text ops turn of Some t \<Rightarrow> t | None \<Rightarrow> []);
             attachments = attachment_refs ops turn
         in if text = [] \<and> attachments = [] then extract_loop ops threshold turns result emitted_any
            else extract_loop ops threshold turns (result @ render_query threshold text attachments) True))"

definition extract_user_queries_from_turns :: "'a item_ops \<Rightarrow> 'a list \<Rightarrow> u32 \<Rightarrow> ustr option" where
  "extract_user_queries_from_turns ops turns user_truncate_chars =
     (let (result, emitted_any) =
            extract_loop ops user_truncate_chars turns (QUERIES_OPEN @ [NL]) False
      in if \<not> emitted_any then None else Some (result @ QUERIES_CLOSE))"

record 'a separated_history_turns =
  turns_for_llm :: "'a list"
  prior_user_queries :: "ustr option"
  has_prior_compaction :: bool

fun separate_loop :: "'a item_ops \<Rightarrow> 'a list \<Rightarrow> 'a separated_history_turns \<Rightarrow> 'a separated_history_turns" where
  "separate_loop ops [] acc = acc"
| "separate_loop ops (turn # turns) acc =
     (if is_compaction_summary ops turn
      then
        (let content = (case item_text ops turn of Some t \<Rightarrow> t | None \<Rightarrow> []);
             (user_section, rest) = split_prior_compaction_text content;
             queries = (case user_section of
                          Some user_sec \<Rightarrow>
                            (case prior_user_queries acc of
                               Some existing \<Rightarrow> Some (existing @ [NL] @ user_sec)
                             | None \<Rightarrow> Some user_sec)
                        | None \<Rightarrow> prior_user_queries acc)
         in separate_loop ops turns
              (acc\<lparr>has_prior_compaction := True, prior_user_queries := queries,
                   turns_for_llm := turns_for_llm acc @
                     (if rest \<noteq> [] then [compaction_summary_item ops rest] else [])\<rparr>))
      else separate_loop ops turns (acc\<lparr>turns_for_llm := turns_for_llm acc @ [turn]\<rparr>))"

definition separate_prior_user_queries :: "'a item_ops \<Rightarrow> 'a list \<Rightarrow> 'a separated_history_turns" where
  "separate_prior_user_queries ops turns =
     separate_loop ops turns
       \<lparr>turns_for_llm = [], prior_user_queries = None, has_prior_compaction = False\<rparr>"

definition extract_prior_user_queries :: "'a item_ops \<Rightarrow> 'a list \<Rightarrow> ustr option" where
  "extract_prior_user_queries ops turns = prior_user_queries (separate_prior_user_queries ops turns)"

definition assemble_user_queries_preamble :: "ustr option \<Rightarrow> ustr option \<Rightarrow> ustr" where
  "assemble_user_queries_preamble prior current =
     (case prior of Some p \<Rightarrow> p @ [NL, NL] | None \<Rightarrow> []) @
     (case current of Some c \<Rightarrow> c @ [NL, NL] | None \<Rightarrow> [])"

definition build_user_queries_preamble :: "'a item_ops \<Rightarrow> 'a list \<Rightarrow> ustr option \<Rightarrow> ustr" where
  "build_user_queries_preamble ops turns current =
     assemble_user_queries_preamble (extract_prior_user_queries ops turns) current"

definition wrap_chunk_analysis :: "usize \<Rightarrow> ustr \<Rightarrow> ustr" where
  "wrap_chunk_analysis index thinking =
     (let trimmed = trim thinking in
      if trimmed = [] then []
      else lit ''<chunk_analysis index='' @ [34] @ nat_str index @ [34] @ lit ''>'' @ [NL] @ trimmed @
           [NL] @ lit ''</chunk_analysis>'' @ [NL, NL])"

section \<open>Facts\<close>

lemma queries_tags: "is_tag QUERIES_OPEN" "is_tag QUERIES_CLOSE"
  by (simp_all add: is_tag_def QUERIES_OPEN_def QUERIES_CLOSE_def lit_def ZWSP_def)

lemma find_tag_first:
  assumes "is_tag q" "\<not> contains m q" shows "find_str q (m @ q @ s) = Some (length m)"
proof -
  obtain t where t: "q = 60 # t" "60 \<notin> set t" using assms(1) by (auto simp: is_tag_def)
  show ?thesis
    using assms(2)
  proof (induction m)
    case Nil
    then show ?case using find_str_here[of q s] by simp
  next
    case (Cons c m)
    have "\<not> starts_with (c # m) q" "\<not> contains m q" using Cons.prems by (auto simp: contains_Cons)
    moreover have "starts_with ((c # m) @ q @ s) q \<longleftrightarrow> starts_with (c # m) q"
      using starts_with_cut[OF t(2), of m "t @ s"] by (auto simp: t(1) starts_with_def)
    ultimately show ?case using Cons.IH by simp
  qed
qed

lemma ws_no_bracket: "list_all is_ws w \<Longrightarrow> 60 \<notin> set w"
  by (auto simp: list_all_iff is_ws_def)

lemma ws_contains: "list_all is_ws w \<Longrightarrow> is_tag q \<Longrightarrow> contains (w @ s) q \<longleftrightarrow> contains s q"
  using contains_skip[OF ws_no_bracket, of w s] by (auto simp: is_tag_def)

definition query_block :: "ustr \<Rightarrow> ustr" where
  "query_block m = QUERIES_OPEN @ m @ QUERIES_CLOSE"

lemma open_no_close: "contains (QUERIES_OPEN @ m) QUERIES_CLOSE \<longleftrightarrow> contains m QUERIES_CLOSE"
  using contains_skip[of 60 "tl QUERIES_OPEN" m "tl QUERIES_CLOSE"]
  by (simp add: QUERIES_OPEN_def QUERIES_CLOSE_def lit_def contains_Cons[of 60] starts_with_def)

lemma split_prior_step:
  assumes "list_all is_ws w" "\<not> contains m QUERIES_CLOSE"
  shows "split_prior_loop (w @ query_block m @ s) secs rest =
    split_prior_loop s (secs @ [query_block m]) rest"
proof -
  let ?t = "w @ query_block m @ s"
  have nw: "\<not> contains w QUERIES_OPEN"
    using ws_contains[OF assms(1) queries_tags(1), of "[]"] by (simp add: contains_Nil QUERIES_OPEN_def lit_def)
  have start: "find_str QUERIES_OPEN ?t = Some (length w)"
    using find_tag_first[OF queries_tags(1) nw] by (simp add: query_block_def)
  have "find_str QUERIES_CLOSE ((QUERIES_OPEN @ m) @ QUERIES_CLOSE @ s) = Some (length (QUERIES_OPEN @ m))"
    by (rule find_tag_first[OF queries_tags(2)]) (simp add: open_no_close assms(2))
  then have close: "find_str QUERIES_CLOSE (drop (length w) ?t) = Some (length (QUERIES_OPEN @ m))"
    by (simp add: query_block_def)
  have "trim w = []" using trim_append_ws[OF assms(1), of "[]"] by (simp add: str_eval)
  then have "push_rest rest (trim (take (length w) ?t)) = rest" by (simp add: push_rest_def)
  then show ?thesis
    unfolding split_prior_loop.simps[of ?t] start option.case close Let_def
    by (simp add: query_block_def)
qed

lemma split_prior_end:
  assumes "list_all is_ws w" "\<not> contains body QUERIES_OPEN"
  shows "split_prior_loop (w @ body) secs rest = (secs, push_rest rest (trim body))"
proof -
  have "find_str QUERIES_OPEN (w @ body) = None"
    using assms by (simp add: find_str_None ws_contains queries_tags)
  then show ?thesis using trim_append_ws[OF assms(1)] by (simp add: split_prior_loop.simps)
qed

text \<open>A summary text as the pipelines write it: query blocks with white space after each, then the summary.\<close>

definition carrier_text :: "(ustr \<times> ustr) list \<Rightarrow> ustr \<Rightarrow> ustr" where
  "carrier_text blocks body = concat (map (\<lambda>(m, w). query_block m @ w) blocks) @ body"

lemma split_prior_blocks:
  assumes "\<forall>(m, w) \<in> set blocks. \<not> contains m QUERIES_CLOSE \<and> list_all is_ws w"
    "\<not> contains body QUERIES_OPEN" "list_all is_ws w0"
  shows "split_prior_loop (w0 @ carrier_text blocks body) secs rest =
    (secs @ map (query_block \<circ> fst) blocks, push_rest rest (trim body))"
  using assms
proof (induction blocks arbitrary: w0 secs)
  case Nil
  then show ?case using split_prior_end by (simp add: carrier_text_def)
next
  case (Cons b blocks)
  obtain m w where b: "b = (m, w)" by (cases b)
  have "w0 @ carrier_text (b # blocks) body = w0 @ query_block m @ w @ carrier_text blocks body"
    by (simp add: b carrier_text_def)
  moreover have "\<not> contains m QUERIES_CLOSE" "list_all is_ws w" using Cons.prems(1) by (auto simp: b)
  moreover have "split_prior_loop (w @ carrier_text blocks body) (secs @ [query_block m]) rest =
      ((secs @ [query_block m]) @ map (query_block \<circ> fst) blocks, push_rest rest (trim body))"
    using Cons.prems \<open>list_all is_ws w\<close> by (intro Cons.IH) auto
  ultimately show ?case using Cons.prems(3) by (simp add: split_prior_step b)
qed

lemma extract_loop_eq:
  "extract_loop ops th turns result e =
     (let qs = List.map_filter (\<lambda>t. if role ops t \<noteq> User then None
        else (let text = (case item_text ops t of Some t \<Rightarrow> t | None \<Rightarrow> []); atts = attachment_refs ops t
              in if text = [] \<and> atts = [] then None else Some (render_query th text atts))) turns
      in (result @ concat qs, e \<or> qs \<noteq> []))"
  by (induction ops th turns result e rule: extract_loop.induct) (auto simp: Let_def List.map_filter_simps)

lemma separate_loop_keeps:
  assumes "\<And>t. is_compaction_summary ops (compaction_summary_item ops t)"
  shows "filter (\<lambda>x. \<not> is_compaction_summary ops x) (turns_for_llm (separate_loop ops turns acc)) =
    filter (\<lambda>x. \<not> is_compaction_summary ops x) (turns_for_llm acc) @
    filter (\<lambda>x. \<not> is_compaction_summary ops x) turns"
  by (induction turns arbitrary: acc) (auto simp: assms Let_def split: prod.splits)

section \<open>Properties\<close>

text \<open>
  User queries survive recompaction verbatim: from a summary text made of query blocks (with white
  space after each) and a body, splitting returns exactly the blocks, joined by newlines, and the
  trimmed body; the summariser never sees the blocks.
\<close>

lemma split_prior_compaction_roundtrip:
  assumes "blocks \<noteq> []" and "\<forall>(m, w) \<in> set blocks. \<not> contains m QUERIES_CLOSE \<and> list_all is_ws w"
    and "\<not> contains body QUERIES_OPEN"
  shows "split_prior_compaction_text (carrier_text blocks body) =
    (Some (join [NL] (map (query_block \<circ> fst) blocks)), trim body)"
  using split_prior_blocks[OF assms(2,3), of "[]" "[]" "[]"] assms(1)
  by (auto simp: split_prior_compaction_text_def push_rest_def)

lemma split_prior_compaction_roundtrip_witness:
  "split_prior_compaction_text (lit ''<grok_user_queries>a</grok_user_queries>'' @ [NL, NL] @ lit ''s'') =
     (Some (lit ''<grok_user_queries>a</grok_user_queries>''), lit ''s'')"
  using split_prior_compaction_roundtrip[of "[([97], [NL, NL])]" "lit ''s''"]
  by (simp add: carrier_text_def query_block_def QUERIES_OPEN_def QUERIES_CLOSE_def str_eval)

text \<open>
  The preamble of one compaction is read back by the next: the block extracted from the user turns,
  put before a summary with the prior blocks, is split off again unchanged, as long as no user text
  contains the closing tag and the summary does not contain the opening tag.
\<close>

lemma preamble_read_back:
  assumes "extract_user_queries_from_turns ops turns n = Some (query_block m)"
    and "\<not> contains m QUERIES_CLOSE" and "\<not> contains p QUERIES_CLOSE"
    and "\<not> contains body QUERIES_OPEN"
  shows "split_prior_compaction_text
      (assemble_user_queries_preamble (Some (query_block p)) (extract_user_queries_from_turns ops turns n) @ body) =
    (Some (query_block p @ [NL] @ query_block m), trim body)"
proof -
  have "assemble_user_queries_preamble (Some (query_block p)) (Some (query_block m)) @ body =
      carrier_text [(p, [NL, NL]), (m, [NL, NL])] body"
    by (simp add: assemble_user_queries_preamble_def carrier_text_def)
  then show ?thesis
    using split_prior_blocks[of "[(p, [NL, NL]), (m, [NL, NL])]" body "[]" "[]" "[]"] assms
    by (simp add: split_prior_compaction_text_def push_rest_def is_ws_def)
qed

definition query_ops :: "ustr item_ops" where
  "query_ops = \<lparr>role = (\<lambda>_. User), item_text = Some, has_tool_requests = (\<lambda>_. False),
     is_compaction_summary = (\<lambda>_. False), attachment_refs = (\<lambda>_. []), compaction_summary_item = (\<lambda>t. t),
     strip_tool_content = Some, truncate_payload = (\<lambda>x _. x)\<rparr>"

lemma preamble_read_back_witness:
  "\<exists>m. split_prior_compaction_text
      (assemble_user_queries_preamble (Some (query_block [])) (extract_user_queries_from_turns query_ops [[97]] 9) @ []) =
    (Some (query_block [] @ [NL] @ query_block m), trim [])"
proof
  let ?m = "[NL] @ lit ''<grok_query>a</grok_query>'' @ [NL]"
  show "split_prior_compaction_text
      (assemble_user_queries_preamble (Some (query_block [])) (extract_user_queries_from_turns query_ops [[97]] 9) @ []) =
    (Some (query_block [] @ [NL] @ query_block ?m), trim [])"
    by (rule preamble_read_back)
      (simp_all add: extract_user_queries_from_turns_def query_ops_def render_query_def query_block_def
        truncate_middle_def QUERIES_OPEN_def QUERIES_CLOSE_def str_eval)
qed

text \<open>
  Separating loses no turn: the turns that are not prior summaries reach the summariser unchanged
  and in order (with a builder that makes summary items summary items, as its trait requires).
\<close>

lemma separate_keeps_turns:
  assumes "\<And>t. is_compaction_summary ops (compaction_summary_item ops t)"
  shows "filter (\<lambda>x. \<not> is_compaction_summary ops x) (turns_for_llm (separate_prior_user_queries ops turns)) =
    filter (\<lambda>x. \<not> is_compaction_summary ops x) turns"
  using separate_loop_keeps[OF assms, of turns] by (simp add: separate_prior_user_queries_def)

lemma separate_keeps_turns_witness:
  "filter (\<lambda>x. \<not> is_compaction_summary sample_ops x)
     (turns_for_llm (separate_prior_user_queries sample_ops [(User, [1]), (Developer, [2]), (Tool, [3])])) =
   [(User, [1]), (Tool, [3])]"
  using separate_keeps_turns[of sample_ops "[(User, [1]), (Developer, [2]), (Tool, [3])]"]
  by (simp add: sample_ops_def)

text \<open>
  Truncation in the middle keeps both ends and bounds the length: a long message becomes its first
  and last characters, the given number in all, around the marker; a short one is left alone.
\<close>

lemma truncate_middle_spec:
  "truncate_middle msg k =
     (if length msg \<le> k then None
      else Some (take (k div 2) msg @ lit ''...[truncated]...'' @ drop (length msg - (k - k div 2)) msg)) \<and>
   (case truncate_middle msg k of None \<Rightarrow> length msg \<le> k | Some t \<Rightarrow> length t = k + 17)"
  by (auto simp: truncate_middle_def lit_def Let_def)

text \<open>
  A result is persisted only if it has text and, for divide and conquer, as many opening as closing
  chunk tags.
\<close>

lemma validate_compaction_text_iff:
  "validate_compaction_text t strategy = Inr () \<longleftrightarrow>
     trim t \<noteq> [] \<and>
     (if strategy = DivideAndConquer
      then match_count (lit ''<chunk_summary'') t = match_count (lit ''</chunk_summary>'') t else True)"
  by (auto simp: validate_compaction_text_def Let_def)

end
