(* ===== verification/Compact_Sample.thy ===== *)
theory Compact_Sample
  imports Compact_Summary
begin

text \<open>
  The bounded retry loop around the compaction model and the full-replace pass
  (\<open>sampler.rs\<close>, \<open>code_compaction/failure.rs\<close>, \<open>sample.rs\<close>, \<open>compact.rs\<close>, \<open>config.rs\<close>,
  \<open>observer.rs\<close>, \<open>prompt.rs\<close>).

  The model call (\<open>CompactionSampler\<close>) is a function of a state of any type, so that answers may
  differ from call to call. Sleeping between attempts and wall-clock durations are not modelled.
  Attempts reported to the observer are returned in order.
\<close>

section \<open>Sampler\<close>

record llm_compaction_output =
  response :: ustr
  thinking :: ustr

record compaction_prompt =
  prompt_system :: ustr
  prompt_user :: ustr

datatype sample_error =
    SampleTimeout u64 usize
  | Build ustr
  | Start ustr
  | SampleEmptyResponse
  | SampleContextOverflow ustr
  | Other ustr

type_synonym ('a, 's) sampler =
  "'a list \<Rightarrow> compaction_prompt \<Rightarrow> u64 \<Rightarrow> 's \<Rightarrow> (sample_error + llm_compaction_output) \<times> 's"

fun sample_error_display :: "sample_error \<Rightarrow> ustr" where
  "sample_error_display (SampleTimeout secs bytes) =
     lit ''Compaction sampling timed out after '' @ nat_str secs @ lit ''s (collected '' @
     nat_str bytes @ lit '' bytes so far)''"
| "sample_error_display (Build msg) = lit ''Compaction sampler build failed: '' @ msg"
| "sample_error_display (Start msg) = lit ''Compaction sampler start failed: '' @ msg"
| "sample_error_display SampleEmptyResponse =
     lit ''Compaction sampler returned no response channel content''"
| "sample_error_display (SampleContextOverflow msg) = msg"
| "sample_error_display (Other msg) = msg"

fun is_deterministic :: "sample_error \<Rightarrow> bool" where
  "is_deterministic (SampleTimeout _ _) = False"
| "is_deterministic SampleEmptyResponse = False"
| "is_deterministic (Build _) = True"
| "is_deterministic (Start _) = True"
| "is_deterministic (SampleContextOverflow _) = True"
| "is_deterministic (Other msg) =
     (contains msg (lit ''Failed to build AgenticScheduler'') \<or>
      contains msg (lit ''Failed to start compaction sample''))"

fun is_context_overflow :: "sample_error \<Rightarrow> bool" where
  "is_context_overflow (SampleContextOverflow _) = True"
| "is_context_overflow _ = False"

section \<open>Size errors\<close>

definition to_ascii_lowercase :: "ustr \<Rightarrow> ustr" where
  "to_ascii_lowercase s = map ascii_lower s"

definition is_anchored :: "ustr \<Rightarrow> ustr \<Rightarrow> bool" where
  "is_anchored m needle \<longleftrightarrow> list_ex (\<lambda>segment. starts_with segment needle) (split_str (lit '': '') [] m)"

definition has_size_slug :: "ustr \<Rightarrow> bool" where
  "has_size_slug m \<longleftrightarrow>
     list_ex (is_anchored m)
       [lit ''context_length_exceeded'', lit ''exceed_context_size_error'', lit ''payload_too_large'',
        lit ''request_too_large'']"

definition has_rendered_413_phrase :: "ustr \<Rightarrow> bool" where
  "has_rendered_413_phrase m \<longleftrightarrow>
     contains m (lit ''413 payload too large'') \<or> contains m (lit ''413 content too large'') \<or>
     contains m (lit ''413 request entity too large'')"

definition has_input_length_pair :: "ustr \<Rightarrow> bool" where
  "has_input_length_pair m \<longleftrightarrow>
     contains m (lit ''input length'') \<and> contains m (lit ''exceeds the maximum allowed length'')"

definition is_context_length_error :: "ustr \<Rightarrow> bool" where
  "is_context_length_error message \<longleftrightarrow>
     (let m = to_ascii_lowercase message in
      contains m (lit ''too long for this model'') \<or> contains m (lit ''prompt is too long'') \<or>
      contains m (lit ''maximum prompt length'') \<or> contains m (lit ''maximum context length'') \<or>
      contains m (lit ''maximum allowed number of bytes'') \<or>
      (contains m (lit ''current message'') \<and> contains m (lit ''exceeds budget'')) \<or>
      is_anchored m (lit ''request too large'') \<or> has_size_slug m \<or> has_rendered_413_phrase m \<or>
      has_input_length_pair m)"

definition is_rendered_http_429 :: "ustr \<Rightarrow> bool" where
  "is_rendered_http_429 message \<longleftrightarrow>
     (let m = to_ascii_lowercase message in
      contains m (lit ''status 429'') \<or> contains m (lit ''429 too many requests''))"

section \<open>The retry loop\<close>

record sampled_summary =
  ss_summary :: ustr
  ss_attempts :: u32

datatype sample_retry_error =
    RetryEmpty u32
  | RetryFailure ustr bool bool u32

datatype attempt_outcome =
    AttemptSuccess ustr
  | AttemptEmpty bool
  | AttemptDegenerate ustr bool
  | AttemptFailure ustr bool bool bool

text \<open>
  \<open>left\<close> attempts remain, so this is attempt \<open>max_attempts - left + 1\<close>; \<open>seen\<close> is what the
  observer was told so far.
\<close>

fun sample_loop ::
    "('a, 's) sampler \<Rightarrow> 'a list \<Rightarrow> compaction_prompt \<Rightarrow> u64 \<Rightarrow> u32 \<Rightarrow> nat \<Rightarrow>
     (u32 \<times> attempt_outcome) list \<Rightarrow> 's \<Rightarrow>
     (sample_retry_error + sampled_summary) \<times> (u32 \<times> attempt_outcome) list \<times> 's" where
  "sample_loop sample turns prompt timeout max_attempts 0 seen s = (Inl (RetryEmpty max_attempts), seen, s)"
| "sample_loop sample turns prompt timeout max_attempts (Suc left) seen s =
     (let attempt = max_attempts - left;
          will_retry = (attempt < max_attempts)
      in case sample turns prompt timeout s of
           (Inr output, s) \<Rightarrow>
             if trim (response output) \<noteq> [] then
               (if is_degenerate_summary (response output) then
                  (let seen = seen @ [(attempt, AttemptDegenerate (response output) will_retry)] in
                   if \<not> will_retry then (Inl (RetryEmpty attempt), seen, s)
                   else sample_loop sample turns prompt timeout max_attempts left seen s)
                else
                  (Inr \<lparr>ss_summary = response output, ss_attempts = attempt\<rparr>,
                   seen @ [(attempt, AttemptSuccess (response output))], s))
             else
               (let seen = seen @ [(attempt, AttemptEmpty will_retry)] in
                if \<not> will_retry then (Inl (RetryEmpty attempt), seen, s)
                else sample_loop sample turns prompt timeout max_attempts left seen s)
         | (Inl e, s) \<Rightarrow>
             (let message = sample_error_display e;
                  context_overflow = (is_context_overflow e \<or>
                    (is_context_length_error message \<and> \<not> is_rendered_http_429 message));
                  deterministic = (is_deterministic e \<or> context_overflow);
                  retrying = (will_retry \<and> \<not> deterministic);
                  seen = seen @ [(attempt, AttemptFailure message deterministic context_overflow retrying)]
              in if deterministic then (Inl (RetryFailure message True context_overflow attempt), seen, s)
                 else if \<not> will_retry then (Inl (RetryFailure message False False attempt), seen, s)
                 else sample_loop sample turns prompt timeout max_attempts left seen s))"

definition sample_summary_with_retries ::
    "('a, 's) sampler \<Rightarrow> 'a list \<Rightarrow> compaction_prompt \<Rightarrow> u32 \<Rightarrow> u64 \<Rightarrow> 's \<Rightarrow>
     (sample_retry_error + sampled_summary) \<times> (u32 \<times> attempt_outcome) list \<times> 's" where
  "sample_summary_with_retries sample turns prompt max_attempts timeout s =
     (let max_attempts = max max_attempts 1
      in sample_loop sample turns prompt timeout max_attempts max_attempts [] s)"

section \<open>The full-replace pass\<close>

record full_replace_config =
  fr_max_attempts :: u32
  fr_retry_delay_secs :: u64
  fr_sampling_timeout_secs :: u64

definition full_replace_default :: full_replace_config where
  "full_replace_default = \<lparr>fr_max_attempts = 3, fr_retry_delay_secs = 3, fr_sampling_timeout_secs = 120\<rparr>"

text \<open>\<open>template\<close> is the text of \<open>templates/full_replace_summary_prompt.txt\<close>.\<close>

definition build_summary_prompt :: "ustr \<Rightarrow> ustr option \<Rightarrow> ustr" where
  "build_summary_prompt template user_context =
     (let user_context_section =
            (case user_context of
               Some context \<Rightarrow>
                 [NL, NL] @ lit ''**User-provided context for this compaction:**'' @ [NL] @ context @
                 [NL, NL] @ lit ''Please incorporate this context into your summary, ensuring it is prominently addressed in the relevant sections.'' @ [NL, NL]
             | None \<Rightarrow> [])
      in replace_all (lit ''{user_context_section}'') user_context_section template)"

datatype full_replace_error =
    NothingToCompact
  | EmptyResponse
  | Sampler ustr bool bool

datatype full_replace_note = OnSuccess u32 usize | OnError u32

record full_replace_summary =
  frs_summary :: ustr
  frs_attempts :: u32

definition sample_full_replace_summary ::
    "ustr \<Rightarrow> ('a, 's) sampler \<Rightarrow> 'a list \<Rightarrow> ustr option \<Rightarrow> full_replace_config \<Rightarrow> 's \<Rightarrow>
     (full_replace_error + full_replace_summary) \<times>
     (u32 \<times> attempt_outcome) list \<times> full_replace_note list \<times> 's" where
  "sample_full_replace_summary template sample llm_turns user_context cfg s =
     (if llm_turns = [] then (Inl NothingToCompact, [], [], s)
      else
        (let prompt = \<lparr>prompt_system = [], prompt_user = build_summary_prompt template user_context\<rparr>
         in case sample_summary_with_retries sample llm_turns prompt (fr_max_attempts cfg)
                   (fr_sampling_timeout_secs cfg) s of
              (Inr r, seen, s) \<Rightarrow>
                (Inr \<lparr>frs_summary = ss_summary r, frs_attempts = ss_attempts r\<rparr>, seen,
                 [OnSuccess (ss_attempts r) (length (ss_summary r))], s)
            | (Inl (RetryEmpty attempts), seen, s) \<Rightarrow> (Inl EmptyResponse, seen, [OnError attempts], s)
            | (Inl (RetryFailure message deterministic context_overflow attempts), seen, s) \<Rightarrow>
                (Inl (Sampler message deterministic context_overflow), seen, [OnError attempts], s)))"

record 'a full_replace_output =
  fro_history :: "'a list"
  fro_summary :: ustr
  fro_attempts :: u32

text \<open>
  The context record has the fields of \<open>CompactedHistoryParts\<close> but the summary, which this pass
  fills in.
\<close>

definition apply_full_replace_compaction ::
    "'a item_factory \<Rightarrow> ustr \<Rightarrow> ('a, 's) sampler \<Rightarrow> 'a list \<Rightarrow> ustr option \<Rightarrow>
     'a compacted_history_parts \<Rightarrow> full_replace_config \<Rightarrow> 's \<Rightarrow>
     (full_replace_error + 'a full_replace_output) \<times>
     (u32 \<times> attempt_outcome) list \<times> full_replace_note list \<times> 's" where
  "apply_full_replace_compaction f template sample llm_turns user_context ctx cfg s =
     (case sample_full_replace_summary template sample llm_turns user_context cfg s of
        (Inl e, seen, notes_out, s) \<Rightarrow> (Inl e, seen, notes_out, s)
      | (Inr r, seen, notes_out, s) \<Rightarrow>
          (Inr \<lparr>fro_history = assemble_compacted_history f (ctx\<lparr>compaction_summary := frs_summary r\<rparr>),
                fro_summary = frs_summary r, fro_attempts = frs_attempts r\<rparr>, seen, notes_out, s))"

section \<open>Facts\<close>

text \<open>An attempt after which the loop goes on.\<close>

fun retried :: "attempt_outcome \<Rightarrow> bool" where
  "retried (AttemptSuccess _) = False"
| "retried (AttemptEmpty r) = r"
| "retried (AttemptDegenerate _ r) = r"
| "retried (AttemptFailure _ deterministic _ r) = (r \<and> \<not> deterministic)"

text \<open>What the last attempt and the result have to do with each other.\<close>

fun result_of :: "u32 \<Rightarrow> u32 \<times> attempt_outcome \<Rightarrow> sample_retry_error + sampled_summary \<Rightarrow> bool" where
  "result_of mx (n, AttemptSuccess t) r \<longleftrightarrow>
     r = Inr \<lparr>ss_summary = t, ss_attempts = n\<rparr> \<and> trim t \<noteq> [] \<and> \<not> is_degenerate_summary t"
| "result_of mx (n, AttemptEmpty _) r \<longleftrightarrow> n = mx \<and> r = Inl (RetryEmpty n)"
| "result_of mx (n, AttemptDegenerate _ _) r \<longleftrightarrow> n = mx \<and> r = Inl (RetryEmpty n)"
| "result_of mx (n, AttemptFailure m d c _) r \<longleftrightarrow> (d \<or> n = mx) \<and> (c \<longrightarrow> d) \<and> r = Inl (RetryFailure m d c n)"

definition sampled_ok ::
    "u32 \<Rightarrow> u32 \<Rightarrow> (u32 \<times> attempt_outcome) list \<Rightarrow> sample_retry_error + sampled_summary \<Rightarrow> bool" where
  "sampled_ok mx first obs r \<longleftrightarrow>
     obs \<noteq> [] \<and> map fst obs = [first ..< first + length obs] \<and> first + length obs \<le> mx + 1 \<and>
     list_all (\<lambda>(_, oc). retried oc) (butlast obs) \<and> \<not> retried (snd (last obs)) \<and>
     result_of mx (last obs) r"

lemma sampled_ok_last:
  assumes "n \<le> mx" "\<not> retried oc" "result_of mx (n, oc) r"
  shows "sampled_ok mx n [(n, oc)] r"
  using assms by (simp add: sampled_ok_def)

lemma sampled_ok_step:
  assumes "sampled_ok mx (Suc n) obs r" "retried oc"
  shows "sampled_ok mx n ((n, oc) # obs) r"
  using assms by (auto simp: sampled_ok_def upt_conv_Cons Suc_le_eq)

lemma sample_loop_spec:
  assumes "0 < left" "left \<le> mx" "sample_loop sample turns prompt timeout mx left seen s = (r, seen', s')"
  shows "\<exists>obs. seen' = seen @ obs \<and> sampled_ok mx (mx - left + 1) obs r"
  using assms
proof (induction left arbitrary: seen s)
  case (Suc left)
  let ?n = "mx - left"
  have n: "mx - Suc left + 1 = ?n" using Suc.prems(2) by simp
  note last = sampled_ok_last[of ?n mx]
  have step: "\<exists>obs. seen' = seen @ obs \<and> sampled_ok mx ?n obs r"
    if "sample_loop sample turns prompt timeout mx left (seen @ [(?n, oc)]) u = (r, seen', s')"
      "?n < mx" "retried oc" for oc u
  proof -
    have "0 < left" using that(2) by simp
    from Suc.IH[OF this _ that(1)] Suc.prems(2) obtain obs where
      "seen' = (seen @ [(?n, oc)]) @ obs" "sampled_ok mx (mx - left + 1) obs r" by auto
    then show ?thesis using sampled_ok_step[OF _ that(3), of mx ?n obs r] by auto
  qed
  show ?case
    unfolding n
  proof (cases "sample turns prompt timeout s")
    case (Pair a u)
    show "\<exists>obs. seen' = seen @ obs \<and> sampled_ok mx ?n obs r"
      using Suc.prems(3) step
      by (auto simp: Pair Let_def split: sum.splits if_splits intro!: last exI[of _ "[_]"])
  qed
qed simp

lemma sample_summary_spec:
  assumes "sample_summary_with_retries sample turns prompt m timeout s = (r, obs, s')"
  shows "sampled_ok (max m 1) 1 obs r"
  using sample_loop_spec[of "max m 1" "max m 1" sample turns prompt timeout "[]" s r obs s'] assms
  by (simp add: sample_summary_with_retries_def Let_def)

text \<open>An answer the loop retries, and one it accepts.\<close>

definition transient_answer :: "sample_error + llm_compaction_output \<Rightarrow> bool" where
  "transient_answer a \<longleftrightarrow>
     (case a of
        Inr output \<Rightarrow> trim (response output) = [] \<or> is_degenerate_summary (response output)
      | Inl e \<Rightarrow> \<not> is_deterministic e \<and> \<not> is_context_overflow e \<and>
          \<not> (is_context_length_error (sample_error_display e) \<and>
             \<not> is_rendered_http_429 (sample_error_display e)))"

definition good_answer :: "ustr \<Rightarrow> sample_error + llm_compaction_output \<Rightarrow> bool" where
  "good_answer t a \<longleftrightarrow>
     (\<exists>output. a = Inr output \<and> response output = t \<and> trim t \<noteq> [] \<and> \<not> is_degenerate_summary t)"

text \<open>A model whose \<open>i\<close>-th call is answered by \<open>answers i\<close>.\<close>

definition scripted :: "(nat \<Rightarrow> sample_error + llm_compaction_output) \<Rightarrow> ('a, nat) sampler" where
  "scripted answers turns prompt timeout i = (answers i, Suc i)"

lemma sample_loop_scripted:
  assumes "left \<le> mx" "k < left" "\<forall>i < k. transient_answer (answers (n + i))" "good_answer t (answers (n + k))"
  shows "fst (sample_loop (scripted answers) turns prompt timeout mx left seen n) =
    Inr \<lparr>ss_summary = t, ss_attempts = mx - left + 1 + k\<rparr>"
  using assms
proof (induction k arbitrary: left seen n)
  case 0
  have sc: "scripted answers turns prompt timeout n = (answers n, Suc n)" by (simp add: scripted_def)
  from 0 show ?case
    by (cases left) (auto simp: sc good_answer_def Let_def)
next
  case (Suc k)
  obtain l where l: "left = Suc l" using Suc.prems(2) by (cases left) auto
  have lt: "mx - l < mx" using Suc.prems(1,2) l by simp
  have tr: "transient_answer (answers n)" using Suc.prems(3) by (metis add_0_right zero_less_Suc)
  have IH: "fst (sample_loop (scripted answers) turns prompt timeout mx l seen' (Suc n)) =
      Inr \<lparr>ss_summary = t, ss_attempts = mx - l + 1 + k\<rparr>" for seen'
    using Suc.prems l by (intro Suc.IH) (auto simp: less_Suc_eq_0_disj)
  have sc: "scripted answers turns prompt timeout n = (answers n, Suc n)" by (simp add: scripted_def)
  have "mx - left + 1 + Suc k = mx - l + 1 + k" using l Suc.prems(1) by simp
  then show ?case
    using tr lt IH
    by (auto simp: l sc transient_answer_def Let_def split: sum.splits)
qed

text \<open>A plain text, without tags, is cleaned to its trimmed self.\<close>

lemma format_compact_summary_plain:
  assumes "60 \<notin> set s" "\<not> contains s [NL, NL, NL]"
  shows "format_compact_summary s = trim s"
proof -
  have "strip_analysis s = s"
    using no_bracket_contains[OF assms(1) control_tags(4)]
    by (simp add: strip_analysis.simps find_str_None[THEN iffD2])
  moreover have "unwrap_summary s = s"
    using no_bracket_contains[OF assms(1) control_tags(2)]
    by (simp add: unwrap_summary_def find_str_None[THEN iffD2])
  ultimately show ?thesis
    using assms by (simp add: format_compact_summary_def neutralize_id collapse_id)
qed

lemma good_answer_plain:
  assumes "list_all (\<lambda>c. c = 65) s" "500 \<le> length s"
  shows "good_answer s (Inr \<lparr>response = s, thinking = th\<rparr>)"
proof -
  have set: "\<forall>c \<in> set s. c = 65" and ne: "s \<noteq> []" using assms by (auto simp: list_all_iff)
  have ws: "\<not> is_ws 65" by (simp add: is_ws_def)
  have "\<not> contains s [NL, NL, NL]" using set unfolding contains_iff by fastforce
  moreover have "60 \<notin> set s" using set by auto
  moreover have t: "trim s = s"
    using set ne hd_in_set[OF ne] last_in_set[OF ne] ws by (metis trim_id)
  ultimately have "format_compact_summary s = s" using format_compact_summary_plain by simp
  then show ?thesis
    using t ne assms(2) by (simp add: good_answer_def is_degenerate_summary_def MIN_SUMMARY_SEED_CHARS_def)
qed

section \<open>Properties\<close>

text \<open>
  The retry loop always ends, after at least one and at most \<open>max_attempts\<close> (at least one)
  attempts, numbered from one; every attempt but the last was transient and marked for retry; the last
  was not; the result is the one the last attempt implies: a summary that is neither blank nor
  degenerate, an error that is deterministic, or the error of the last allowed attempt.
\<close>

lemma sample_retries_bounded:
  assumes "sample_summary_with_retries sample turns prompt m timeout s = (r, obs, s')"
  shows "1 \<le> length obs \<and> length obs \<le> max m 1 \<and> map fst obs = [1 ..< Suc (length obs)] \<and>
    list_all (\<lambda>(_, oc). retried oc) (butlast obs) \<and> \<not> retried (snd (last obs)) \<and>
    result_of (max m 1) (last obs) r"
  using sample_summary_spec[OF assms] by (cases obs) (auto simp: sampled_ok_def simp del: upt_Suc)

lemma sample_retries_bounded_witness:
  "\<exists>r obs s'. sample_summary_with_retries (scripted (\<lambda>_. Inl (Build []))) [()]
       \<lparr>prompt_system = [], prompt_user = []\<rparr> 3 120 0 = (r, obs, s') \<and> length obs \<le> 3 \<and>
     result_of 3 (last obs) r"
proof -
  obtain r obs s' where r: "sample_summary_with_retries (scripted (\<lambda>_. Inl (Build []))) [()]
       \<lparr>prompt_system = [], prompt_user = []\<rparr> 3 120 0 = (r, obs, s')" by (metis prod_cases3)
  from sample_retries_bounded[OF r] r show ?thesis by auto
qed

text \<open>
  A deterministic failure (a build or start error, a size overflow) is reported after the first
  attempt that shows it, whatever the number of attempts allowed; it is never retried.
\<close>

lemma deterministic_not_retried:
  assumes "sample turns prompt timeout s = (Inl e, s')"
    and "is_deterministic e \<or> is_context_length_error (sample_error_display e) \<and>
      \<not> is_rendered_http_429 (sample_error_display e)"
  shows "\<exists>c. sample_summary_with_retries sample turns prompt m timeout s =
    (Inl (RetryFailure (sample_error_display e) True c 1),
     [(1, AttemptFailure (sample_error_display e) True c False)], s')"
proof -
  obtain l where l: "max m 1 = Suc l" by (metis Suc_pred' less_one max_less_iff_conj not_gr0 order_less_irrefl)
  show ?thesis
    using assms unfolding sample_summary_with_retries_def l by (auto simp: Let_def)
qed

lemma deterministic_not_retried_witness:
  "\<exists>c. sample_summary_with_retries (scripted (\<lambda>_. Inl (Start []))) [()]
       \<lparr>prompt_system = [], prompt_user = []\<rparr> 3 120 0 =
    (Inl (RetryFailure (sample_error_display (Start [])) True c 1),
     [(1, AttemptFailure (sample_error_display (Start [])) True c False)], Suc 0)"
  by (rule deterministic_not_retried) (simp_all add: scripted_def)

text \<open>
  Transient failures are ridden out: if the first \<open>k\<close> answers are blank, degenerate or transient
  errors, fewer than the attempts allowed, and the next one is good, the loop returns it, with the
  number of attempts made.
\<close>

lemma retries_reach_good_answer:
  assumes "k < max m 1" and "\<forall>i < k. transient_answer (answers i)" and "good_answer t (answers k)"
  shows "fst (sample_summary_with_retries (scripted answers) turns prompt m timeout 0) =
    Inr \<lparr>ss_summary = t, ss_attempts = k + 1\<rparr>"
  using sample_loop_scripted[of "max m 1" "max m 1" k answers 0 t turns prompt timeout "[]"] assms
  by (simp add: sample_summary_with_retries_def Let_def)

lemma retries_reach_good_answer_witness:
  "fst (sample_summary_with_retries
      (scripted (\<lambda>i. if i < 2 then Inl (Other [])
                     else Inr \<lparr>response = replicate 500 65, thinking = []\<rparr>))
      [()] \<lparr>prompt_system = [], prompt_user = []\<rparr> 3 120 0) =
    Inr \<lparr>ss_summary = replicate 500 65, ss_attempts = 3\<rparr>"
  using retries_reach_good_answer[of 2 3
      "\<lambda>i. if i < 2 then Inl (Other []) else Inr \<lparr>response = replicate 500 65, thinking = []\<rparr>"
      "replicate 500 65"]
    good_answer_plain[of "replicate 500 65" "[]"]
  by (simp add: transient_answer_def is_context_length_error_def Let_def to_ascii_lowercase_def
      is_anchored_def has_size_slug_def has_rendered_413_phrase_def has_input_length_pair_def
      str_eval lit_def contains_Nil list_all_iff)

end
