(* ===== verification/Compact_Intra.thy ===== *)
theory Compact_Intra
  imports Compact_Trigger Compact_Fit Compact_History Compact_Sample
begin

text \<open>
  Orchestration of intra-compaction, \<open>select, sample, guard, commit\<close>
  (\<open>intra_compaction/compact.rs\<close>, with \<open>append_reminder_block\<close> of \<open>reminder.rs\<close> and the prompt
  builders of \<open>steps/prompt.rs\<close> and \<open>history/prompt.rs\<close>).

  The stream processor (\<open>CompactionStreamProc\<close>) belongs to the harness: its operations are a record
  of functions on a processor state of any type, and \<open>proc_contract\<close> describes a well-behaved one. The state threaded through a run has that processor, the state of the sampler and
  the notifications sent to the observer, in order. Elapsed times are not modelled. Sums made with
  \<open>Iterator::sum\<close> wrap, as in the release profile.
\<close>

section \<open>Seams\<close>

record ('a, 'p) stream_proc =
  get_accumulated_turns_for_compaction :: "'p \<Rightarrow> 'a list"
  get_history_turns_for_compaction :: "'p \<Rightarrow> 'a list"
  replace_with_compaction ::
    "compaction_target \<Rightarrow> usize \<Rightarrow> 'a \<Rightarrow> 'p \<Rightarrow> (intra_compaction_error + unit) \<times> 'p"

definition get_all_turns_for_compaction :: "('a, 'p) stream_proc \<Rightarrow> 'p \<Rightarrow> 'a list" where
  "get_all_turns_for_compaction sp p =
     get_history_turns_for_compaction sp p @ get_accumulated_turns_for_compaction sp p"

datatype intra_note = IntraOnSuccess compaction_target u32 u32 u32 | IntraOnError ustr

record ('p, 's) intra_state =
  st_proc :: 'p
  st_sampler :: 's
  st_notes :: "intra_note list"

text \<open>The texts of the files under \<open>templates/\<close> that the prompts include.\<close>

record prompt_templates =
  full_replace_summary_prompt :: ustr
  intra_compaction_system :: ustr
  intra_compaction_user :: ustr
  compaction_developer_prompt :: ustr
  compaction_user_prompt :: ustr

type_synonym ('p, 's) pass_result =
  "(intra_compaction_error + intra_compaction_result) \<times> ('p, 's) intra_state"

definition append_reminder_block :: "ustr \<Rightarrow> ustr option \<Rightarrow> ustr" where
  "append_reminder_block summary reminder =
     (case reminder of
        Some r \<Rightarrow> if trim r \<noteq> [] then summary @ [NL, NL] @ r else summary
      | None \<Rightarrow> summary)"

definition format_compaction_prompt :: "prompt_templates \<Rightarrow> compaction_prompt" where
  "format_compaction_prompt tpl =
     \<lparr>prompt_system = intra_compaction_system tpl, prompt_user = intra_compaction_user tpl\<rparr>"

text \<open>The builders return a \<open>Result\<close> that is always \<open>Ok\<close>.\<close>

definition format_compaction_developer_prompt :: "prompt_templates \<Rightarrow> ustr + ustr" where
  "format_compaction_developer_prompt tpl = Inr (compaction_developer_prompt tpl)"

definition format_compaction_user_prompt :: "prompt_templates \<Rightarrow> ustr + ustr" where
  "format_compaction_user_prompt tpl = Inr (compaction_user_prompt tpl)"

definition build_prompt_for_target ::
    "prompt_templates \<Rightarrow> compaction_target \<Rightarrow> intra_compaction_error + compaction_prompt" where
  "build_prompt_for_target tpl target =
     (case target of
        Steps \<Rightarrow> Inr (format_compaction_prompt tpl)
      | History \<Rightarrow>
          (case format_compaction_developer_prompt tpl of
             Inl e \<Rightarrow> Inl (SamplerBuild e)
           | Inr system \<Rightarrow>
               (case format_compaction_user_prompt tpl of
                  Inl e \<Rightarrow> Inl (SamplerBuild e)
                | Inr user \<Rightarrow> Inr \<lparr>prompt_system = system, prompt_user = user\<rparr>))
      | TargetFullReplace \<Rightarrow> Inl IntraUnreachable)"

section \<open>Sampling\<close>

definition sample_shared_summary_with_retries ::
    "prompt_templates \<Rightarrow> ('a, 's) sampler \<Rightarrow> 'a list \<Rightarrow> intra_compaction_config \<Rightarrow> 's \<Rightarrow>
     (intra_compaction_error + ustr) \<times> 's" where
  "sample_shared_summary_with_retries tpl sample turns policy s =
     (let prompt = \<lparr>prompt_system = [],
                    prompt_user = build_summary_prompt (full_replace_summary_prompt tpl) None\<rparr>
      in case sample_summary_with_retries sample turns prompt (ic_max_attempts policy)
                (sampling_timeout_secs policy) s of
           (Inr r, _, s) \<Rightarrow> (Inr (format_compact_summary (ss_summary r)), s)
         | (Inl (RetryEmpty _), _, s) \<Rightarrow> (Inl IntraEmptyResponse, s)
         | (Inl (RetryFailure message deterministic context_overflow _), _, s) \<Rightarrow>
             (Inl (if context_overflow then IntraContextOverflow message
                   else if deterministic then SamplerBuild message
                   else SamplerStream message), s))"

fun compaction_sample_error_to_intra :: "sample_error \<Rightarrow> intra_compaction_error" where
  "compaction_sample_error_to_intra (SampleTimeout _ _) = IntraTimeout"
| "compaction_sample_error_to_intra (Build msg) = SamplerBuild msg"
| "compaction_sample_error_to_intra (Start msg) = SamplerStart msg"
| "compaction_sample_error_to_intra (SampleContextOverflow msg) = IntraContextOverflow msg"
| "compaction_sample_error_to_intra SampleEmptyResponse = IntraEmptyResponse"
| "compaction_sample_error_to_intra (Other msg) =
     (if contains msg (lit ''Failed to build'') then SamplerBuild msg
      else if contains msg (lit ''Failed to start'') then SamplerStart msg
      else if contains msg (lit ''no response channel content'') then IntraEmptyResponse
      else SamplerStream msg)"

fun is_transient :: "intra_compaction_error \<Rightarrow> bool" where
  "is_transient IntraTimeout = True"
| "is_transient IntraEmptyResponse = True"
| "is_transient (SamplerStream _) = True"
| "is_transient (SamplerStart _) = True"
| "is_transient _ = False"

fun legacy_loop ::
    "('a, 's) sampler \<Rightarrow> 'a list \<Rightarrow> compaction_prompt \<Rightarrow> u64 \<Rightarrow> u32 \<Rightarrow> nat \<Rightarrow>
     intra_compaction_error option \<Rightarrow> 's \<Rightarrow> (intra_compaction_error + ustr) \<times> 's" where
  "legacy_loop sample turns prompt timeout max_attempts 0 last_err s =
     (Inl (case last_err of Some e \<Rightarrow> e | None \<Rightarrow> IntraEmptyResponse), s)"
| "legacy_loop sample turns prompt timeout max_attempts (Suc left) last_err s =
     (let attempt = max_attempts - left in
      case sample turns prompt timeout s of
        (Inr output, s) \<Rightarrow> (Inr (response output), s)
      | (Inl e, s) \<Rightarrow>
          (let intra_err = compaction_sample_error_to_intra e in
           if is_transient intra_err \<and> attempt < max_attempts
           then legacy_loop sample turns prompt timeout max_attempts left (Some intra_err) s
           else (Inl intra_err, s)))"

definition sample_compaction_with_retries ::
    "('a, 's) sampler \<Rightarrow> 'a list \<Rightarrow> compaction_prompt \<Rightarrow> u64 \<Rightarrow> intra_compaction_config \<Rightarrow> 's \<Rightarrow>
     (intra_compaction_error + ustr) \<times> 's" where
  "sample_compaction_with_retries sample turns prompt timeout policy s =
     (let max_attempts = max (ic_max_attempts policy) 1
      in legacy_loop sample turns prompt timeout max_attempts max_attempts None s)"

section \<open>Passes\<close>

text \<open>The reduction guard, \<open>(tokens as f64 * ratio) as u32\<close>.\<close>

definition insufficient :: "intra_compaction_config \<Rightarrow> u32 \<Rightarrow> u32 \<Rightarrow> bool" where
  "insufficient policy before after \<longleftrightarrow>
     before > 0 \<and> after > f64_as_u32 (f64_mul (of_nat before) (max_reduction_ratio policy))"

text \<open>Committing the summary turn and telling the observer: the common end of both kinds of pass.\<close>

definition commit_pass ::
    "('a, 'p) stream_proc \<Rightarrow> compaction_target \<Rightarrow> usize \<Rightarrow> 'a \<Rightarrow> u32 \<Rightarrow> u32 \<Rightarrow> ustr \<Rightarrow>
     ('p, 's) intra_state \<Rightarrow> ('p, 's) pass_result" where
  "commit_pass sp target n compaction_turn before after summary st =
     (case replace_with_compaction sp target n compaction_turn (st_proc st) of
        (Inl e, p) \<Rightarrow> (Inl e, st\<lparr>st_proc := p\<rparr>)
      | (Inr _, p) \<Rightarrow>
          (Inr \<lparr>tokens_before = before, tokens_after = after, turns_compacted = as_u32 n,
                result_summary = summary\<rparr>,
           st\<lparr>st_proc := p,
              st_notes := st_notes st @ [IntraOnSuccess target before after (as_u32 n)]\<rparr>))"

definition finish_pass ::
    "'a item_ops \<Rightarrow> 'a counter \<Rightarrow> ('a, 'p) stream_proc \<Rightarrow> intra_compaction_config \<Rightarrow>
     compaction_target \<Rightarrow> usize \<Rightarrow> u32 \<Rightarrow> ustr \<Rightarrow> ('p, 's) intra_state \<Rightarrow> ('p, 's) pass_result" where
  "finish_pass ops counter sp policy target n before summary st =
     (let compaction_turn = compaction_summary_item ops summary;
          after = counter compaction_turn
      in if insufficient policy before after then (Inl (InsufficientReduction before after), st)
         else commit_pass sp target n compaction_turn before after summary st)"

definition sample_for_target ::
    "prompt_templates \<Rightarrow> ('a, 's) sampler \<Rightarrow> 'a list \<Rightarrow> compaction_target \<Rightarrow>
     intra_compaction_config \<Rightarrow> 's \<Rightarrow> (intra_compaction_error + ustr) \<times> 's" where
  "sample_for_target tpl sample turns target policy s =
     (case summarizer policy of
        Legacy \<Rightarrow>
          (case build_prompt_for_target tpl target of
             Inl e \<Rightarrow> (Inl e, s)
           | Inr prompt \<Rightarrow>
               sample_compaction_with_retries sample turns prompt (sampling_timeout_secs policy) policy s)
      | Shared \<Rightarrow> sample_shared_summary_with_retries tpl sample turns policy s)"

definition compact_one_pass ::
    "'a item_ops \<Rightarrow> 'a counter \<Rightarrow> prompt_templates \<Rightarrow> ('a, 'p) stream_proc \<Rightarrow> ('a, 's) sampler \<Rightarrow>
     intra_compaction_config \<Rightarrow> intra_compaction_trigger \<Rightarrow> compaction_target \<Rightarrow>
     ('p, 's) intra_state \<Rightarrow> ('p, 's) pass_result" where
  "compact_one_pass ops counter tpl sp sample policy trigger target st =
     (case (case target of
              Steps \<Rightarrow> Some (get_accumulated_turns_for_compaction sp (st_proc st))
            | History \<Rightarrow> Some (get_history_turns_for_compaction sp (st_proc st))
            | TargetFullReplace \<Rightarrow> None) of
        None \<Rightarrow> (Inl IntraUnreachable, st)
      | Some source_turns \<Rightarrow>
          if source_turns = [] then (Inl IntraNothingToCompact, st)
          else
            (let target_tokens =
                   as_u32 (context_window trigger * target_threshold_percent policy div 100)
             in case select_turns_to_compact ops (token_counts counter source_turns) source_turns
                       target_tokens (min_compactable_tokens policy) of
                  None \<Rightarrow> (Inl IntraNothingToCompact, st)
                | Some plan \<Rightarrow>
                    (let turns_to_compact = take (split_idx plan) source_turns;
                         (llm, prior) =
                           (if target = History
                            then (let separated = separate_prior_user_queries ops turns_to_compact
                                  in (turns_for_llm separated, prior_user_queries separated))
                            else (turns_to_compact, None));
                         (sampled, s) = sample_for_target tpl sample llm target policy (st_sampler st);
                         st = st\<lparr>st_sampler := s\<rparr>
                     in case sampled of
                          Inl e \<Rightarrow> (Inl e, st)
                        | Inr summary_text \<Rightarrow>
                            (let final_summary_text =
                                   (if target = History
                                    then
                                      (let current = extract_user_queries_from_turns ops turns_to_compact
                                             (user_message_truncate_chars policy);
                                           preamble = assemble_user_queries_preamble prior current
                                       in if preamble = [] then summary_text else preamble @ summary_text)
                                    else summary_text)
                             in finish_pass ops counter sp policy target (split_idx plan)
                                  (tokens_to_compact plan) final_summary_text st))))"

definition apply_steps_compaction ::
    "'a item_ops \<Rightarrow> 'a counter \<Rightarrow> prompt_templates \<Rightarrow> ('a, 'p) stream_proc \<Rightarrow> ('a, 's) sampler \<Rightarrow>
     intra_compaction_config \<Rightarrow> intra_compaction_trigger \<Rightarrow> ('p, 's) intra_state \<Rightarrow>
     ('p, 's) pass_result" where
  "apply_steps_compaction ops counter tpl sp sample policy trigger st =
     compact_one_pass ops counter tpl sp sample policy trigger Steps st"

definition apply_history_compaction ::
    "'a item_ops \<Rightarrow> 'a counter \<Rightarrow> prompt_templates \<Rightarrow> ('a, 'p) stream_proc \<Rightarrow> ('a, 's) sampler \<Rightarrow>
     intra_compaction_config \<Rightarrow> intra_compaction_trigger \<Rightarrow> ('p, 's) intra_state \<Rightarrow>
     ('p, 's) pass_result" where
  "apply_history_compaction ops counter tpl sp sample policy trigger st =
     compact_one_pass ops counter tpl sp sample policy trigger History st"

text \<open>The intra-compaction pass of the same name as the one of \<open>code_compaction\<close>.\<close>

definition apply_intra_full_replace ::
    "'a item_ops \<Rightarrow> 'a counter \<Rightarrow> prompt_templates \<Rightarrow> ('a, 'p) stream_proc \<Rightarrow> ('a, 's) sampler \<Rightarrow>
     intra_compaction_config \<Rightarrow> ustr option \<Rightarrow> u32 option \<Rightarrow> ('p, 's) intra_state \<Rightarrow>
     ('p, 's) pass_result" where
  "apply_intra_full_replace ops counter tpl sp sample policy active_reminder budget st =
     (let history_turns = get_history_turns_for_compaction sp (st_proc st);
          step_turns = get_accumulated_turns_for_compaction sp (st_proc st);
          total_turns = length history_turns + length step_turns;
          before = as_u32 (sum_list (map counter (history_turns @ step_turns)))
      in if total_turns = 0 then (Inl IntraNothingToCompact, st)
         else if before < min_compactable_tokens policy then (Inl IntraNothingToCompact, st)
         else
           (case (case budget of
                    Some b \<Rightarrow>
                      (let plan = fit_turns_for_summarizer ops history_turns step_turns counter b in
                       if llm_turns plan = [] \<or> tokens_fit plan = 0 then None
                       else Some (llm_turns plan))
                  | None \<Rightarrow> Some (history_turns @ step_turns)) of
              None \<Rightarrow> (Inl IntraNothingToCompact, st)
            | Some llm \<Rightarrow>
                (let (sampled, s) = sample_shared_summary_with_retries tpl sample llm policy (st_sampler st);
                     st = st\<lparr>st_sampler := s\<rparr>
                 in case sampled of
                      Inl e \<Rightarrow> (Inl e, st)
                    | Inr summary_text \<Rightarrow>
                        finish_pass ops counter sp policy TargetFullReplace total_turns before
                          (append_reminder_block summary_text active_reminder) st)))"

definition sum64 :: "'a counter \<Rightarrow> 'a list \<Rightarrow> u64" where
  "sum64 counter turns = as_u64 (sum_list (map counter turns))"

definition should_compact_steps ::
    "'a counter \<Rightarrow> ('a, 'p) stream_proc \<Rightarrow> intra_compaction_config \<Rightarrow> 'p \<Rightarrow> bool" where
  "should_compact_steps counter sp policy p \<longleftrightarrow>
     (let steps_tokens = sum64 counter (get_accumulated_turns_for_compaction sp p);
          history_tokens = sum64 counter (get_history_turns_for_compaction sp p);
          ratio_threshold_tokens =
            f64_ceil_as_u64 (f64_mul (f64_round (of_nat history_tokens)) (steps_trigger_ratio policy))
      in steps_tokens > ratio_threshold_tokens)"

definition join_results ::
    "intra_compaction_result \<Rightarrow> intra_compaction_result \<Rightarrow> intra_compaction_result" where
  "join_results h s =
     \<lparr>tokens_before = sat_add32 (tokens_before h) (tokens_before s),
      tokens_after = sat_add32 (tokens_after h) (tokens_after s),
      turns_compacted = sat_add32 (turns_compacted h) (turns_compacted s),
      result_summary =
        (case (result_summary h = [], result_summary s = []) of
           (False, False) \<Rightarrow> result_summary h @ [NL, NL] @ result_summary s
         | (False, True) \<Rightarrow> result_summary h
         | (True, _) \<Rightarrow> result_summary s)\<rparr>"

definition apply_history_then_steps ::
    "'a item_ops \<Rightarrow> 'a counter \<Rightarrow> prompt_templates \<Rightarrow> ('a, 'p) stream_proc \<Rightarrow> ('a, 's) sampler \<Rightarrow>
     intra_compaction_config \<Rightarrow> intra_compaction_trigger \<Rightarrow> ('p, 's) intra_state \<Rightarrow>
     ('p, 's) pass_result" where
  "apply_history_then_steps ops counter tpl sp sample policy trigger st =
     (let (r, st) = apply_history_compaction ops counter tpl sp sample policy trigger st in
      case (case r of
              Inr h \<Rightarrow> Inr (Some h)
            | Inl e \<Rightarrow> if e = IntraNothingToCompact then Inr None else Inl e) of
        Inl e \<Rightarrow> (Inl e, st)
      | Inr history_result \<Rightarrow>
          if \<not> should_compact_steps counter sp policy (st_proc st)
          then (case history_result of Some h \<Rightarrow> Inr h | None \<Rightarrow> Inl IntraNothingToCompact, st)
          else
            (let (steps_result, st) = apply_steps_compaction ops counter tpl sp sample policy trigger st
             in (case (history_result, steps_result) of
                   (Some h, Inr s) \<Rightarrow> Inr (join_results h s)
                 | (Some h, Inl e) \<Rightarrow> if e = IntraNothingToCompact then Inr h else Inl e
                 | (None, r) \<Rightarrow> r, st)))"

definition apply_intra_compaction ::
    "'a item_ops \<Rightarrow> 'a counter \<Rightarrow> prompt_templates \<Rightarrow> ('a, 'p) stream_proc \<Rightarrow> ('a, 's) sampler \<Rightarrow>
     intra_compaction_config \<Rightarrow> intra_compaction_trigger \<Rightarrow> ustr option \<Rightarrow> u32 option \<Rightarrow>
     ('p, 's) intra_state \<Rightarrow> ('p, 's) pass_result" where
  "apply_intra_compaction ops counter tpl sp sample policy trigger active_reminder budget st =
     (let (r, st) =
        (case ic_mode policy of
           ModeFullReplace \<Rightarrow>
             apply_intra_full_replace ops counter tpl sp sample policy active_reminder budget st
         | StepsOnly \<Rightarrow> apply_steps_compaction ops counter tpl sp sample policy trigger st
         | HistoryOnly \<Rightarrow> apply_history_compaction ops counter tpl sp sample policy trigger st
         | HistoryThenSteps \<Rightarrow> apply_history_then_steps ops counter tpl sp sample policy trigger st)
      in (r, case r of
               Inl e \<Rightarrow> st\<lparr>st_notes := st_notes st @ [IntraOnError (error_status_label e)]\<rparr>
             | Inr _ \<Rightarrow> st))"

section \<open>The contract of the stream processor\<close>

definition target_view :: "('a, 'p) stream_proc \<Rightarrow> compaction_target \<Rightarrow> 'p \<Rightarrow> 'a list" where
  "target_view sp target p =
     (case target of
        Steps \<Rightarrow> get_accumulated_turns_for_compaction sp p
      | History \<Rightarrow> get_history_turns_for_compaction sp p
      | TargetFullReplace \<Rightarrow> get_all_turns_for_compaction sp p)"

text \<open>
  A well-behaved processor: success replaces the first \<open>n\<close> items of the selected view by the given turn and leaves the
  other view alone, as \<open>traits.rs\<close> documents; and every error leaves the state untouched, which \<open>traits.rs\<close>
  documents for an invalid split only and which \<open>compact.rs\<close> takes for granted (76-79). Where the state after an error
  is the point, nothing is assumed of the processor.
\<close>

definition proc_contract :: "('a, 'p) stream_proc \<Rightarrow> bool" where
  "proc_contract sp \<longleftrightarrow>
     (\<forall>target n x p e p'. replace_with_compaction sp target n x p = (Inl e, p') \<longrightarrow> p' = p) \<and>
     (\<forall>target n x p u p'. replace_with_compaction sp target n x p = (Inr u, p') \<longrightarrow>
        n \<le> length (target_view sp target p) \<and>
        target_view sp target p' = x # drop n (target_view sp target p) \<and>
        (target = Steps \<longrightarrow> target_view sp History p' = target_view sp History p) \<and>
        (target = History \<longrightarrow> target_view sp Steps p' = target_view sp Steps p))"

lemma proc_contract_error:
  "proc_contract sp \<Longrightarrow> replace_with_compaction sp target n x p = (Inl e, p') \<Longrightarrow> p' = p"
  unfolding proc_contract_def by blast

lemma proc_contract_ok:
  assumes "proc_contract sp" "replace_with_compaction sp target n x p = (Inr u, p')"
  shows "n \<le> length (target_view sp target p)"
    "target_view sp target p' = x # drop n (target_view sp target p)"
    "target = Steps \<Longrightarrow> target_view sp History p' = target_view sp History p"
    "target = History \<Longrightarrow> target_view sp Steps p' = target_view sp Steps p"
  using assms unfolding proc_contract_def by blast+

text \<open>What a successful pass has done.\<close>

definition committed ::
    "'a item_ops \<Rightarrow> 'a counter \<Rightarrow> ('a, 'p) stream_proc \<Rightarrow> intra_compaction_config \<Rightarrow>
     compaction_target \<Rightarrow> ('p, 's) intra_state \<Rightarrow> intra_compaction_result \<Rightarrow> ('p, 's) intra_state \<Rightarrow> nat \<Rightarrow> bool"
where
  "committed ops counter sp policy target st r st' n \<longleftrightarrow>
     0 < n \<and> n \<le> length (target_view sp target (st_proc st)) \<and> turns_compacted r = as_u32 n \<and>
     tokens_after r = counter (compaction_summary_item ops (result_summary r)) \<and>
     \<not> insufficient policy (tokens_before r) (tokens_after r) \<and>
     min_compactable_tokens policy \<le> tokens_before r \<and> tokens_before r \<le> u32_max \<and>
     tokens_before r \<le> sum_list (map counter (take n (target_view sp target (st_proc st)))) \<and>
     target_view sp target (st_proc st') =
       compaction_summary_item ops (result_summary r) # drop n (target_view sp target (st_proc st)) \<and>
     (target = Steps \<longrightarrow> target_view sp History (st_proc st') = target_view sp History (st_proc st)) \<and>
     (target = History \<longrightarrow> target_view sp Steps (st_proc st') = target_view sp Steps (st_proc st)) \<and>
     st_notes st' = st_notes st @ [IntraOnSuccess target (tokens_before r) (tokens_after r) (as_u32 n)]"

text \<open>Token total of the whole conversation.\<close>

definition conversation_tokens :: "'a counter \<Rightarrow> ('a, 'p) stream_proc \<Rightarrow> 'p \<Rightarrow> nat" where
  "conversation_tokens counter sp p = sum_list (map counter (get_all_turns_for_compaction sp p))"

lemma sufficient_le:
  assumes "\<not> insufficient policy before after" "0 < before" "before \<le> u32_max" "max_reduction_ratio policy \<le> 1"
  shows "after \<le> before"
proof -
  have "(of_nat before :: rat) * max_reduction_ratio policy \<le> of_nat before * 1"
    using assms(4) by (intro mult_left_mono) auto
  then have "f64_mul (of_nat before) (max_reduction_ratio policy) \<le> of_nat before"
    using assms(3) by (auto simp: f64_mul_def u32_max_def intro!: f64_round_le_nat)
  then have "f64_as_u32 (f64_mul (of_nat before) (max_reduction_ratio policy)) \<le> before"
    by (simp add: f64_as_u32_def min_le_iff_disj nat_le_iff floor_le_iff)
  then show ?thesis using assms(1,2) by (simp add: insufficient_def)
qed

lemma sum_take_drop: "sum_list (take n xs) + sum_list (drop n xs) = sum_list (xs :: nat list)"
  by (metis append_take_drop_id sum_list_append)

lemma conversation_tokens_views:
  "conversation_tokens counter sp p =
     sum_list (map counter (target_view sp History p)) + sum_list (map counter (target_view sp Steps p))"
  "conversation_tokens counter sp p = sum_list (map counter (target_view sp TargetFullReplace p))"
  by (simp_all add: conversation_tokens_def get_all_turns_for_compaction_def target_view_def)

text \<open>
  The interface the orchestrator relies on: a pass either leaves processor and observer alone, or has
  committed one guarded replacement.
\<close>

locale guarded_pass =
  fixes pass :: "('p, 's) intra_state \<Rightarrow> ('p, 's) pass_result"
    and ops :: "'a item_ops"
    and counter :: "'a counter"
    and sp :: "('a, 'p) stream_proc"
    and policy :: intra_compaction_config
    and target :: compaction_target
  assumes pass_error: "proc_contract sp \<Longrightarrow> pass st = (Inl e, st') \<Longrightarrow>
      st_proc st' = st_proc st \<and> st_notes st' = st_notes st"
    and pass_ok: "proc_contract sp \<Longrightarrow> pass st = (Inr r, st') \<Longrightarrow>
      \<exists>n. committed ops counter sp policy target st r st' n"
begin

lemma committed_shrinks:
  assumes "proc_contract sp" "pass st = (Inr r, st')" "0 < min_compactable_tokens policy"
    "max_reduction_ratio policy \<le> 1"
  shows "conversation_tokens counter sp (st_proc st') \<le> conversation_tokens counter sp (st_proc st)"
proof -
  from pass_ok[OF assms(1,2)] obtain n where c: "committed ops counter sp policy target st r st' n" ..
  let ?v = "target_view sp target (st_proc st)" and ?v' = "target_view sp target (st_proc st')"
  have "tokens_after r \<le> tokens_before r"
    using sufficient_le[of policy] c assms(3,4) by (auto simp: committed_def)
  then have "sum_list (map counter ?v') \<le> sum_list (map counter ?v)"
    using c sum_take_drop[of n "map counter ?v"] by (simp add: committed_def take_map drop_map)
  moreover have "target = Steps \<Longrightarrow> target_view sp History (st_proc st') = target_view sp History (st_proc st)"
    "target = History \<Longrightarrow> target_view sp Steps (st_proc st') = target_view sp Steps (st_proc st)"
    using c by (simp_all add: committed_def)
  ultimately show ?thesis
    by (cases target) (simp add: conversation_tokens_views(1), simp add: conversation_tokens_views(1),
      simp add: conversation_tokens_views(2))
qed

lemma pass_shrinks:
  assumes "proc_contract sp" "pass st = (r, st')" "0 < min_compactable_tokens policy"
    "max_reduction_ratio policy \<le> 1"
  shows "conversation_tokens counter sp (st_proc st') \<le> conversation_tokens counter sp (st_proc st)"
proof (cases r)
  case (Inl e)
  with assms(2) pass_error[OF assms(1), of st e st'] show ?thesis by simp
next
  case (Inr a)
  with assms(2) committed_shrinks[OF assms(1) _ assms(3,4)] show ?thesis by simp
qed

end

section \<open>The passes meet the interface\<close>

lemma finish_pass_error:
  assumes "proc_contract sp" "finish_pass ops counter sp policy target n before summary st = (Inl e, st')"
  shows "st_proc st' = st_proc st \<and> st_notes st' = st_notes st"
  using assms(2) proc_contract_error[OF assms(1)]
  by (auto simp: finish_pass_def commit_pass_def Let_def split: if_splits prod.splits sum.splits)

lemma finish_pass_ok:
  assumes "proc_contract sp" "finish_pass ops counter sp policy target n before summary st = (Inr r, st')"
    and "0 < n" "min_compactable_tokens policy \<le> before" "before \<le> u32_max"
    and "before \<le> sum_list (map counter (take n (target_view sp target (st_proc st))))"
  shows "committed ops counter sp policy target st r st' n"
proof -
  let ?x = "compaction_summary_item ops summary"
  obtain u p where rep: "replace_with_compaction sp target n ?x (st_proc st) = (Inr u, p)"
    and g: "\<not> insufficient policy before (counter ?x)"
    and r: "r = \<lparr>tokens_before = before, tokens_after = counter ?x, turns_compacted = as_u32 n,
      result_summary = summary\<rparr>"
    and st': "st' = st\<lparr>st_proc := p,
      st_notes := st_notes st @ [IntraOnSuccess target before (counter ?x) (as_u32 n)]\<rparr>"
    using assms(2)
    by (auto simp: finish_pass_def commit_pass_def Let_def split: if_splits prod.splits sum.splits)
  show ?thesis
    using proc_contract_ok[OF assms(1) rep] g assms(3-6) unfolding r st' by (simp add: committed_def)
qed

lemma one_pass_error:
  assumes "proc_contract sp"
    and "compact_one_pass ops counter tpl sp sample policy trigger target st = (Inl e, st')"
  shows "st_proc st' = st_proc st \<and> st_notes st' = st_notes st"
  using assms(2) finish_pass_error[OF assms(1)]
  by (fastforce simp: compact_one_pass_def Let_def split: option.splits if_splits prod.splits sum.splits)

lemma token_counts_take: "sum_counts (take n (token_counts counter turns)) \<le> sum_list (map counter (take n turns))"
  "sum_counts xs \<le> u32_max"
  by (simp_all add: sum_counts_eq token_counts_def take_map)

lemma one_pass_ok:
  assumes "proc_contract sp"
    and "compact_one_pass ops counter tpl sp sample policy trigger target st = (Inr r, st')"
  shows "\<exists>n. committed ops counter sp policy target st r st' n"
proof -
  let ?v = "target_view sp target (st_proc st)"
  let ?tt = "as_u32 (context_window trigger * target_threshold_percent policy div 100)"
  have t: "target \<noteq> TargetFullReplace" using assms(2) by (auto simp: compact_one_pass_def)
  then have v: "(case target of
              Steps \<Rightarrow> Some (get_accumulated_turns_for_compaction sp (st_proc st))
            | History \<Rightarrow> Some (get_history_turns_for_compaction sp (st_proc st))
            | TargetFullReplace \<Rightarrow> None) = Some ?v"
    by (cases target) (simp_all add: target_view_def)
  obtain plan s summary_text where sel: "select_turns_to_compact ops (token_counts counter ?v) ?v ?tt
      (min_compactable_tokens policy) = Some plan"
    and fin: "finish_pass ops counter sp policy target (split_idx plan) (tokens_to_compact plan) summary_text
      (st\<lparr>st_sampler := s\<rparr>) = (Inr r, st')"
    using assms(2) unfolding compact_one_pass_def v option.case Let_def
    by (auto split: option.splits if_splits prod.splits sum.splits)
  have len: "length (token_counts counter ?v) = length ?v" by (simp add: token_counts_def)
  note sp = select_Some[OF len sel]
  have "committed ops counter sp policy target (st\<lparr>st_sampler := s\<rparr>) r st' (split_idx plan)"
    using sp(1,5) token_counts_take
    by (intro finish_pass_ok[OF assms(1) fin]) (simp_all add: sp(4))
  then show ?thesis by (auto simp: committed_def)
qed

lemma full_replace_error:
  assumes "proc_contract sp"
    and "apply_intra_full_replace ops counter tpl sp sample policy reminder budget st = (Inl e, st')"
  shows "st_proc st' = st_proc st \<and> st_notes st' = st_notes st"
  using assms(2) finish_pass_error[OF assms(1)]
  by (fastforce simp: apply_intra_full_replace_def Let_def split: option.splits if_splits prod.splits sum.splits)

lemma full_replace_committed:
  assumes "proc_contract sp"
    and "apply_intra_full_replace ops counter tpl sp sample policy reminder budget st = (Inr r, st')"
  shows "committed ops counter sp policy TargetFullReplace st r st'
    (length (get_all_turns_for_compaction sp (st_proc st)))"
proof -
  let ?v = "get_all_turns_for_compaction sp (st_proc st)"
  let ?b = "as_u32 (sum_list (map counter ?v))"
  have l: "length (get_history_turns_for_compaction sp (st_proc st)) +
      length (get_accumulated_turns_for_compaction sp (st_proc st)) = length ?v"
    by (simp add: get_all_turns_for_compaction_def)
  obtain s summary_text where ne: "?v \<noteq> []" "min_compactable_tokens policy \<le> ?b"
    and fin: "finish_pass ops counter sp policy TargetFullReplace (length ?v) ?b summary_text
      (st\<lparr>st_sampler := s\<rparr>) = (Inr r, st')"
    using assms(2)
    unfolding apply_intra_full_replace_def Let_def l get_all_turns_for_compaction_def[symmetric]
    by (auto split: option.splits if_splits prod.splits sum.splits)
  have "?b \<le> sum_list (map counter ?v)" "?b \<le> u32_max"
    by (simp_all add: as_u32_def u32_max_def mod_less_eq_dividend less_Suc_eq_le[symmetric])
  then have "committed ops counter sp policy TargetFullReplace (st\<lparr>st_sampler := s\<rparr>) r st' (length ?v)"
    using ne by (intro finish_pass_ok[OF assms(1) fin]) (simp_all add: target_view_def)
  then show ?thesis by (auto simp: committed_def)
qed

interpretation steps_pass: guarded_pass
  "apply_steps_compaction ops counter tpl sp sample policy trigger" ops counter sp policy Steps
  for ops counter tpl sp sample policy trigger
  by unfold_locales (auto simp: apply_steps_compaction_def dest: one_pass_error one_pass_ok)

interpretation history_pass: guarded_pass
  "apply_history_compaction ops counter tpl sp sample policy trigger" ops counter sp policy History
  for ops counter tpl sp sample policy trigger
  by unfold_locales (auto simp: apply_history_compaction_def dest: one_pass_error one_pass_ok)

interpretation replace_pass: guarded_pass
  "apply_intra_full_replace ops counter tpl sp sample policy reminder budget" ops counter sp policy TargetFullReplace
  for ops counter tpl sp sample policy reminder budget
  by unfold_locales (auto dest: full_replace_error full_replace_committed)

section \<open>Properties\<close>

abbreviation dispatched where
  "dispatched ops counter tpl sp sample policy trigger reminder budget st \<equiv>
     (case ic_mode policy of
        ModeFullReplace \<Rightarrow> apply_intra_full_replace ops counter tpl sp sample policy reminder budget st
      | StepsOnly \<Rightarrow> apply_steps_compaction ops counter tpl sp sample policy trigger st
      | HistoryOnly \<Rightarrow> apply_history_compaction ops counter tpl sp sample policy trigger st
      | HistoryThenSteps \<Rightarrow> apply_history_then_steps ops counter tpl sp sample policy trigger st)"

lemma intra_dispatch:
  assumes "apply_intra_compaction ops counter tpl sp sample policy trigger reminder budget st = (r, st')"
  shows "\<exists>st2. dispatched ops counter tpl sp sample policy trigger reminder budget st = (r, st2) \<and>
    st' = (case r of Inl e \<Rightarrow> st2\<lparr>st_notes := st_notes st2 @ [IntraOnError (error_status_label e)]\<rparr>
           | Inr _ \<Rightarrow> st2)"
  using assms unfolding apply_intra_compaction_def Let_def by (auto split: prod.splits)

lemma history_then_steps_error:
  assumes "proc_contract sp"
    and "apply_history_then_steps ops counter tpl sp sample policy trigger st = (Inl e, st')"
  shows "st_proc st' = st_proc st \<and> st_notes st' = st_notes st \<or>
    e \<noteq> IntraNothingToCompact \<and>
    (\<exists>h st1. apply_history_compaction ops counter tpl sp sample policy trigger st = (Inr h, st1) \<and>
       st_proc st' = st_proc st1 \<and> st_notes st' = st_notes st1)"
proof -
  obtain r st1 where h: "apply_history_compaction ops counter tpl sp sample policy trigger st = (r, st1)"
    by (metis prod.exhaust)
  obtain q st2 where s: "apply_steps_compaction ops counter tpl sp sample policy trigger st1 = (q, st2)"
    by (metis prod.exhaust)
  have sq: "st_proc st2 = st_proc st1 \<and> st_notes st2 = st_notes st1" if "q = Inl f" for f
    using steps_pass.pass_error[OF assms(1)] s that by blast
  show ?thesis
  proof (cases r)
    case (Inl f)
    then have "st_proc st1 = st_proc st \<and> st_notes st1 = st_notes st"
      using history_pass.pass_error[OF assms(1)] h by blast
    then show ?thesis
      using assms(2) sq unfolding apply_history_then_steps_def Let_def h Inl
      by (auto simp: s split: if_splits)
  next
    case (Inr hr)
    then show ?thesis
      using assms(2) sq unfolding apply_history_then_steps_def Let_def h
      by (auto simp: s split: if_splits sum.splits)
  qed
qed

text \<open>
  The only thing of a pass that can have changed the processor when it ends in an error: its own replacement, called once, for
  a valid split and with a summary that passed the guard, failed with that error.
\<close>

definition own_failure ::
    "'a counter \<Rightarrow> ('a, 'p) stream_proc \<Rightarrow> intra_compaction_config \<Rightarrow> compaction_target \<Rightarrow> 'p \<Rightarrow>
     intra_compaction_error \<Rightarrow> 'p \<Rightarrow> bool" where
  "own_failure counter sp policy target p e p' \<longleftrightarrow>
     (\<exists>n x before. 0 < n \<and> n \<le> length (target_view sp target p) \<and> min_compactable_tokens policy \<le> before \<and>
        \<not> insufficient policy before (counter x) \<and> replace_with_compaction sp target n x p = (Inl e, p'))"

lemma finish_pass_stops:
  assumes "finish_pass ops counter sp policy target n before summary st = (Inl e, st')"
    and "0 < n" "n \<le> length (target_view sp target (st_proc st))" "min_compactable_tokens policy \<le> before"
  shows "st_notes st' = st_notes st \<and>
    (st_proc st' = st_proc st \<or> own_failure counter sp policy target (st_proc st) e (st_proc st'))"
proof -
  let ?x = "compaction_summary_item ops summary"
  consider "st' = st" | p' where "\<not> insufficient policy before (counter ?x)" "st' = st\<lparr>st_proc := p'\<rparr>"
      "replace_with_compaction sp target n ?x (st_proc st) = (Inl e, p')"
    using assms(1) unfolding finish_pass_def commit_pass_def Let_def by (auto split: if_splits prod.splits sum.splits)
  then show ?thesis
  proof cases
    case (2 p')
    then have "own_failure counter sp policy target (st_proc st) e p'" using assms(2-4) unfolding own_failure_def by blast
    with 2(2) show ?thesis by simp
  qed simp
qed

lemma one_pass_stops:
  assumes "compact_one_pass ops counter tpl sp sample policy trigger target st = (Inl e, st')"
  shows "st_notes st' = st_notes st \<and>
    (st_proc st' = st_proc st \<or> own_failure counter sp policy target (st_proc st) e (st_proc st'))"
proof -
  let ?v = "target_view sp target (st_proc st)"
  let ?tt = "as_u32 (context_window trigger * target_threshold_percent policy div 100)"
  have view: "(case target of
              Steps \<Rightarrow> Some (get_accumulated_turns_for_compaction sp (st_proc st))
            | History \<Rightarrow> Some (get_history_turns_for_compaction sp (st_proc st))
            | TargetFullReplace \<Rightarrow> None) = (if target = TargetFullReplace then None else Some ?v)"
    by (cases target) (simp_all add: target_view_def)
  consider "st_notes st' = st_notes st \<and> st_proc st' = st_proc st"
    | plan s summary where "select_turns_to_compact ops (token_counts counter ?v) ?v ?tt (min_compactable_tokens policy) = Some plan"
      "finish_pass ops counter sp policy target (split_idx plan) (tokens_to_compact plan) summary (st\<lparr>st_sampler := s\<rparr>) = (Inl e, st')"
    using assms unfolding compact_one_pass_def view Let_def by (auto split: option.splits if_splits prod.splits sum.splits)
  then show ?thesis
  proof cases
    case (2 plan s summary)
    have len: "length (token_counts counter ?v) = length ?v" by (simp add: token_counts_def)
    note sp = select_Some[OF len 2(1)]
    from finish_pass_stops[OF 2(2)] sp(1,2,5) show ?thesis by (simp add: safe_boundary_def)
  qed simp
qed

lemma full_replace_stops:
  assumes "apply_intra_full_replace ops counter tpl sp sample policy reminder budget st = (Inl e, st')"
  shows "st_notes st' = st_notes st \<and>
    (st_proc st' = st_proc st \<or> own_failure counter sp policy TargetFullReplace (st_proc st) e (st_proc st'))"
proof -
  let ?v = "get_all_turns_for_compaction sp (st_proc st)"
  let ?b = "as_u32 (sum_list (map counter ?v))"
  have l: "length (get_history_turns_for_compaction sp (st_proc st)) +
      length (get_accumulated_turns_for_compaction sp (st_proc st)) = length ?v"
    by (simp add: get_all_turns_for_compaction_def)
  consider "st_notes st' = st_notes st \<and> st_proc st' = st_proc st"
    | s summary where "?v \<noteq> []" "min_compactable_tokens policy \<le> ?b"
      "finish_pass ops counter sp policy TargetFullReplace (length ?v) ?b summary (st\<lparr>st_sampler := s\<rparr>) = (Inl e, st')"
    using assms
    unfolding apply_intra_full_replace_def Let_def l get_all_turns_for_compaction_def[symmetric]
    by (auto split: option.splits if_splits prod.splits sum.splits)
  then show ?thesis
  proof cases
    case (2 s summary)
    from finish_pass_stops[OF 2(3)] 2(1,2) show ?thesis by (simp add: target_view_def)
  qed simp
qed

definition target_of_mode :: "intra_compaction_mode \<Rightarrow> compaction_target" where
  "target_of_mode m =
     (case m of ModeFullReplace \<Rightarrow> TargetFullReplace | HistoryOnly \<Rightarrow> History | _ \<Rightarrow> Steps)"


text \<open>
  The combined mode is atomic per pass only: after an error the processor is untouched, or it has the
  history pass committed and the steps pass failed with something else than "nothing to compact".
\<close>

lemma history_then_steps_errors:
  assumes "proc_contract sp" and "ic_mode policy = HistoryThenSteps"
    and "apply_intra_compaction ops counter tpl sp sample policy trigger reminder budget st = (Inl e, st')"
  shows "st_proc st' = st_proc st \<or>
    e \<noteq> IntraNothingToCompact \<and>
    (\<exists>h st1 n. apply_history_compaction ops counter tpl sp sample policy trigger st = (Inr h, st1) \<and>
       committed ops counter sp policy History st h st1 n \<and> st_proc st' = st_proc st1)"
proof -
  from intra_dispatch[OF assms(3)] assms(2) obtain st2 where
    "apply_history_then_steps ops counter tpl sp sample policy trigger st = (Inl e, st2)"
    "st_proc st' = st_proc st2" by auto
  with history_then_steps_error[OF assms(1) this(1)] history_pass.pass_ok[OF assms(1)] show ?thesis
    by metis
qed

text \<open>
  A single-pass success is a real reduction: the view of the mode's target starts with the summary
  turn in place of its first turns, the other view is unchanged, at least the configured minimum was
  compacted, the summary passed the reduction guard, one success was reported with these figures;
  full replace leaves the summary as the whole conversation.
\<close>

lemma intra_success_committed:
  assumes "proc_contract sp" and "ic_mode policy \<noteq> HistoryThenSteps"
    and "apply_intra_compaction ops counter tpl sp sample policy trigger reminder budget st = (Inr r, st')"
  shows "(\<exists>n. committed ops counter sp policy (target_of_mode (ic_mode policy)) st r st' n) \<and>
    (ic_mode policy = ModeFullReplace \<longrightarrow>
       get_all_turns_for_compaction sp (st_proc st') = [compaction_summary_item ops (result_summary r)])"
proof -
  from intra_dispatch[OF assms(3)] have d:
    "dispatched ops counter tpl sp sample policy trigger reminder budget st = (Inr r, st')" by auto
  show ?thesis
  proof (cases "ic_mode policy")
    case ModeFullReplace
    with full_replace_committed[OF assms(1)] d show ?thesis
      by (fastforce simp: target_of_mode_def committed_def target_view_def)
  next
    case StepsOnly
    with steps_pass.pass_ok[OF assms(1)] d show ?thesis by (simp add: target_of_mode_def)
  next
    case HistoryOnly
    with history_pass.pass_ok[OF assms(1)] d show ?thesis by (simp add: target_of_mode_def)
  qed (use assms(2) in simp)
qed

text \<open>
  C39. Compaction never makes the prompt larger: in every mode and whatever the outcome, the token
  total of the conversation after the run is at most the one before it, for a reduction ratio of at
  most one and a positive minimum.
\<close>

theorem intra_never_grows:
  assumes "proc_contract sp" and "0 < min_compactable_tokens policy" and "max_reduction_ratio policy \<le> 1"
    and "apply_intra_compaction ops counter tpl sp sample policy trigger reminder budget st = (r, st')"
  shows "conversation_tokens counter sp (st_proc st') \<le> conversation_tokens counter sp (st_proc st)"
proof -
  note steps = steps_pass.pass_shrinks[OF assms(1) _ assms(2,3)]
    and hist = history_pass.pass_shrinks[OF assms(1) _ assms(2,3)]
    and full = replace_pass.pass_shrinks[OF assms(1) _ assms(2,3)]
  have both: "conversation_tokens counter sp (st_proc st'') \<le> conversation_tokens counter sp (st_proc st)"
    if "apply_history_then_steps ops counter tpl sp sample policy trigger st = (q, st'')" for q st''
  proof -
    obtain h st1 where h: "apply_history_compaction ops counter tpl sp sample policy trigger st = (h, st1)"
      by (metis prod.exhaust)
    obtain s st2 where s: "apply_steps_compaction ops counter tpl sp sample policy trigger st1 = (s, st2)"
      by (metis prod.exhaust)
    have "st'' = st1 \<or> st'' = st2"
      using that unfolding apply_history_then_steps_def Let_def h
      by (auto simp: s split: if_splits sum.splits)
    then show ?thesis using hist[OF h] steps[OF s] by (auto intro: order_trans)
  qed
  from intra_dispatch[OF assms(4)] obtain st2 where "st_proc st' = st_proc st2"
    "dispatched ops counter tpl sp sample policy trigger reminder budget st = (r, st2)"
    by (cases r) auto
  then show ?thesis
    by (cases "ic_mode policy") (auto dest: steps hist full both)
qed

section \<open>Examples\<close>

text \<open>A processor that keeps its two views as lists, and a run on it.\<close>

definition list_proc :: "('a, 'a list \<times> 'a list) stream_proc" where
  "list_proc =
     \<lparr>get_accumulated_turns_for_compaction = snd, get_history_turns_for_compaction = fst,
      replace_with_compaction = (\<lambda>target n x (h, s).
        case target of
          Steps \<Rightarrow> if n \<le> length s then (Inr (), (h, x # drop n s)) else (Inl (InvalidSplit n (length s)), (h, s))
        | History \<Rightarrow> if n \<le> length h then (Inr (), (x # drop n h, s)) else (Inl (InvalidSplit n (length h)), (h, s))
        | TargetFullReplace \<Rightarrow>
            if n \<le> length (h @ s) then (Inr (), (x # drop n h, drop (n - length h) s))
            else (Inl (InvalidSplit n (length (h @ s))), (h, s)))\<rparr>"

lemma list_proc_contract: "proc_contract list_proc"
  by (auto simp: proc_contract_def list_proc_def target_view_def get_all_turns_for_compaction_def
      split: compaction_target.splits if_splits)

definition demo_policy :: "intra_compaction_mode \<Rightarrow> intra_compaction_config" where
  "demo_policy mode = intra_config_default\<lparr>ic_mode := mode, min_compactable_tokens := 1,
     max_reduction_ratio := 1, summarizer := Legacy, steps_trigger_ratio := 0\<rparr>"

definition demo_trigger :: intra_compaction_trigger where
  "demo_trigger = \<lparr>last_prompt_tokens = 22, context_window = 2, percent = 100, step = 3\<rparr>"

definition demo_templates :: prompt_templates where
  "demo_templates = \<lparr>full_replace_summary_prompt = [], intra_compaction_system = [],
     intra_compaction_user = [], compaction_developer_prompt = [], compaction_user_prompt = []\<rparr>"

definition demo_turns :: "(compaction_role \<times> ustr) list" where
  "demo_turns = [(Assistant, [1, 1, 1, 1]), (Assistant, [2])]"

text \<open>The first call is answered, the second fails for good.\<close>

definition demo_sampler :: "(compaction_role \<times> ustr, nat) sampler" where
  "demo_sampler = scripted (\<lambda>i. if i = 0 then Inr \<lparr>response = [120], thinking = []\<rparr> else Inl (Build []))"

abbreviation demo_run where
  "demo_run mode i \<equiv> apply_intra_compaction sample_ops sample_counter demo_templates list_proc demo_sampler
     (demo_policy mode) demo_trigger None None
     \<lparr>st_proc = (demo_turns, demo_turns), st_sampler = i, st_notes = []\<rparr>"

lemma f64_mul_1: "n \<le> 2 ^ 52 \<Longrightarrow> f64_mul (of_nat n) 1 = of_nat n"
  by (simp add: f64_mul_def f64_round_of_nat)

lemma demo_guard: "\<not> insufficient (demo_policy mode) 4 1"
  using f64_mul_1[of 4]
  by (simp add: insufficient_def demo_policy_def f64_as_u32_def u32_max_def)

lemmas demo_eval = apply_steps_compaction_def apply_history_compaction_def
  compact_one_pass_def list_proc_def demo_turns_def demo_trigger_def
  select_turns_to_compact_def snap_to_safe_boundary_def sample_ops_def is_tool_result_def
  token_counts_def sample_counter_def sum_counts_eq sat_add32_def u32_max_def as_u32_def
  separate_prior_user_queries_def sample_for_target_def build_prompt_for_target_def
  sample_compaction_with_retries_def demo_sampler_def scripted_def extract_user_queries_from_turns_def
  assemble_user_queries_preamble_def finish_pass_def commit_pass_def
  format_compaction_developer_prompt_def format_compaction_user_prompt_def

lemma demo_policy_fields:
  "ic_mode (demo_policy m) = m" "min_compactable_tokens (demo_policy m) = 1" "max_reduction_ratio (demo_policy m) = 1"
  "summarizer (demo_policy m) = Legacy" "steps_trigger_ratio (demo_policy m) = 0"
  "target_threshold_percent (demo_policy m) = 50" "ic_max_attempts (demo_policy m) = 2"
  by (simp_all add: demo_policy_def intra_config_default_def)

lemma demo_history:
  "apply_history_compaction sample_ops sample_counter demo_templates list_proc demo_sampler
     (demo_policy m) demo_trigger \<lparr>st_proc = (demo_turns, s), st_sampler = 0, st_notes = ns\<rparr> =
   (Inr \<lparr>tokens_before = 4, tokens_after = 1, turns_compacted = 1, result_summary = [120]\<rparr>,
    \<lparr>st_proc = ([(Developer, [120]), (Assistant, [2])], s), st_sampler = 1,
     st_notes = ns @ [IntraOnSuccess History 4 1 1]\<rparr>)"
proof -
  have f: "Suc (Suc (Suc (Suc 0))) = 4" by simp
  show ?thesis using demo_guard[of m] by (simp add: demo_eval demo_policy_fields Let_def f)
qed

lemma demo_steps:
  "apply_steps_compaction sample_ops sample_counter demo_templates list_proc demo_sampler
     (demo_policy m) demo_trigger \<lparr>st_proc = (h, demo_turns), st_sampler = Suc i, st_notes = ns\<rparr> =
   (Inl (SamplerBuild []), \<lparr>st_proc = (h, demo_turns), st_sampler = Suc (Suc i), st_notes = ns\<rparr>)"
  by (simp add: demo_eval demo_policy_fields Let_def)

text \<open>
  So the combined mode can report an error after it has changed the conversation: the history pass
  is committed, the steps pass fails, and the run as a whole is an error.
\<close>

lemma history_kept_after_steps_error:
  "demo_run HistoryThenSteps 0 =
     (Inl (SamplerBuild []),
      \<lparr>st_proc = ([(Developer, [120]), (Assistant, [2])], demo_turns), st_sampler = 2,
       st_notes = [IntraOnSuccess History 4 1 1, IntraOnError (lit ''sampler_build'')]\<rparr>)"
proof -
  have "should_compact_steps sample_counter list_proc (demo_policy HistoryThenSteps)
      ([(Developer, [120]), (Assistant, [2])], demo_turns)"
    by (simp add: should_compact_steps_def demo_policy_fields f64_mul_def f64_ceil_as_u64_def sum64_def
        list_proc_def demo_turns_def sample_counter_def as_u64_def)
  then show ?thesis
    using demo_steps[of HistoryThenSteps "[(Developer, [120]), (Assistant, [2])]" 0]
    by (simp add: apply_intra_compaction_def apply_history_then_steps_def demo_policy_fields demo_history
        error_status_label_def)
qed

text \<open>
  A processor whose replacement breaks off half-way, with an error of its own: the turns are gone and the summary is
  not there. The run reports the error.
\<close>

definition broken_proc :: "('a, 'a list \<times> 'a list) stream_proc" where
  "broken_proc = list_proc\<lparr>replace_with_compaction := (\<lambda>target n x (h, s). (Inl (IntraApply []), (h, drop n s)))\<rparr>"


lemma history_then_steps_errors_witness:
  "\<exists>h st1 n. apply_history_compaction sample_ops sample_counter demo_templates list_proc demo_sampler
       (demo_policy HistoryThenSteps) demo_trigger
       \<lparr>st_proc = (demo_turns, demo_turns), st_sampler = 0, st_notes = []\<rparr> = (Inr h, st1) \<and>
     committed sample_ops sample_counter list_proc (demo_policy HistoryThenSteps) History
       \<lparr>st_proc = (demo_turns, demo_turns), st_sampler = 0, st_notes = []\<rparr> h st1 n"
  using history_then_steps_errors[OF list_proc_contract _ history_kept_after_steps_error]
  by (auto simp: demo_policy_fields demo_turns_def)

lemma intra_success_committed_witness:
  "\<exists>r st' n. demo_run HistoryOnly 0 = (Inr r, st') \<and>
     committed sample_ops sample_counter list_proc (demo_policy HistoryOnly) History
       \<lparr>st_proc = (demo_turns, demo_turns), st_sampler = 0, st_notes = []\<rparr> r st' n"
proof -
  obtain r st' where r: "demo_run HistoryOnly 0 = (Inr r, st')"
    by (simp add: apply_intra_compaction_def demo_policy_fields demo_history)
  from intra_success_committed[OF list_proc_contract _ r] r show ?thesis
    by (auto simp: demo_policy_fields target_of_mode_def)
qed

theorem intra_never_grows_witness:
  "\<exists>r st'. demo_run HistoryThenSteps 0 = (r, st') \<and>
     conversation_tokens sample_counter list_proc (st_proc st') \<le>
     conversation_tokens sample_counter list_proc (demo_turns, demo_turns)"
proof -
  obtain r st' where r: "demo_run HistoryThenSteps 0 = (r, st')" by (metis prod.exhaust)
  from intra_never_grows[OF list_proc_contract _ _ r] r show ?thesis by (auto simp: demo_policy_fields)
qed

end
