(* ===== verification/Compact_Inter.thy ===== *)
theory Compact_Inter
  imports Compact_Intra
begin

text \<open>
  The chunked pipeline of inter-compaction (\<open>inter_compaction/config.rs\<close>, \<open>compact.rs\<close>,
  \<open>observer.rs\<close>). Identifiers that are only logged (conversation, response, chunk index) are left
  out; observer calls are collected in order.
\<close>

section \<open>Model\<close>

record inter_compaction_config =
  inter_compaction_model_name :: ustr
  inter_sampling_timeout_secs :: u64
  inter_strategy :: compaction_strategy
  dnc_chunk_token_limit :: u32
  user_message_compact_threshold :: u32

definition UNBOUNDED_CHUNK_LIMIT :: u32 where "UNBOUNDED_CHUNK_LIMIT = u32_max"

record chunked_compaction_output =
  combined_text :: ustr
  analysis_text :: ustr

datatype inter_note = OnRecompaction ustr | OnChunkSampled bool | OnChunkCount usize

definition flush_chunk ::
    "prompt_templates \<Rightarrow> ('a, 's) sampler \<Rightarrow> inter_compaction_config \<Rightarrow> 'a list \<Rightarrow> inter_note list \<Rightarrow> 's \<Rightarrow>
     (sample_error + llm_compaction_output) \<times> inter_note list \<times> 's" where
  "flush_chunk tpl sample cfg turns ns s =
     (case format_compaction_developer_prompt tpl of
        Inl e \<Rightarrow> (Inl (Other e), ns, s)
      | Inr system \<Rightarrow>
          (case format_compaction_user_prompt tpl of
             Inl e \<Rightarrow> (Inl (Other e), ns, s)
           | Inr user \<Rightarrow>
               (case sample turns \<lparr>prompt_system = system, prompt_user = user\<rparr>
                       (inter_sampling_timeout_secs cfg) s of
                  (Inl e, s) \<Rightarrow> (Inl e, ns @ [OnChunkSampled False], s)
                | (Inr output, s) \<Rightarrow> (Inr output, ns @ [OnChunkSampled True], s))))"

text \<open>The loop over the turns, with the current chunk, its tokens and the outputs so far.\<close>

fun inter_loop ::
    "prompt_templates \<Rightarrow> ('a, 's) sampler \<Rightarrow> inter_compaction_config \<Rightarrow> 'a counter \<Rightarrow> u32 \<Rightarrow>
     'a list \<Rightarrow> 'a list \<Rightarrow> u32 \<Rightarrow> llm_compaction_output list \<Rightarrow> inter_note list \<Rightarrow> 's \<Rightarrow>
     (sample_error + 'a list \<times> llm_compaction_output list) \<times> inter_note list \<times> 's" where
  "inter_loop tpl sample cfg counter limit [] compactable chunk_tokens chunk_outputs ns s =
     (Inr (compactable, chunk_outputs), ns, s)"
| "inter_loop tpl sample cfg counter limit (turn # turns) compactable chunk_tokens chunk_outputs ns s =
     (let turn_tokens = counter turn in
      if compactable \<noteq> [] \<and> limit \<noteq> UNBOUNDED_CHUNK_LIMIT \<and> sat_add32 chunk_tokens turn_tokens > limit
      then
        (case flush_chunk tpl sample cfg compactable ns s of
           (Inl e, ns, s) \<Rightarrow> (Inl e, ns, s)
         | (Inr output, ns, s) \<Rightarrow>
             inter_loop tpl sample cfg counter limit turns [turn] (as_u32 (0 + turn_tokens))
               (chunk_outputs @ [output]) ns s)
      else
        inter_loop tpl sample cfg counter limit turns (compactable @ [turn])
          (as_u32 (chunk_tokens + turn_tokens)) chunk_outputs ns s)"

definition chunk_summary :: "usize \<times> llm_compaction_output \<Rightarrow> ustr" where
  "chunk_summary = (\<lambda>(i, output).
     lit ''<chunk_summary index='' @ [34] @ nat_str i @ [34] @ lit ''>'' @ [NL] @ response output @
     [NL] @ lit ''</chunk_summary>'' @ [NL, NL])"

definition assemble_chunks ::
    "ustr \<Rightarrow> llm_compaction_output list \<Rightarrow> chunked_compaction_output" where
  "assemble_chunks preamble chunk_outputs =
     \<lparr>combined_text = preamble @ concat (map chunk_summary (enumerate 0 chunk_outputs)),
      analysis_text =
        concat (map (\<lambda>(i, output). wrap_chunk_analysis i (thinking output)) (enumerate 0 chunk_outputs))\<rparr>"

definition sample_compaction_chunked ::
    "'a item_ops \<Rightarrow> 'a counter \<Rightarrow> prompt_templates \<Rightarrow> ('a, 's) sampler \<Rightarrow> 'a list \<Rightarrow> ustr option \<Rightarrow>
     inter_compaction_config \<Rightarrow> 's \<Rightarrow>
     (sample_error + chunked_compaction_output) \<times> inter_note list \<times> 's" where
  "sample_compaction_chunked ops counter tpl sample turns current_user_queries cfg s =
     (case (case inter_strategy cfg of
              Basic \<Rightarrow> Inr UNBOUNDED_CHUNK_LIMIT
            | DivideAndConquer \<Rightarrow> Inr (dnc_chunk_token_limit cfg)
            | FullReplace \<Rightarrow>
                Inl (Build (lit ''full_replace must be routed through the event-proc compact_conversation helper''))) of
        Inl e \<Rightarrow> (Inl e, [], s)
      | Inr chunk_token_limit \<Rightarrow>
          (let filtered = filter_turns_for_inter_compaction ops turns in
           if filtered = [] then (Inl (Other (lit ''No turns remaining after filtering'')), [], s)
           else
             (let separated = separate_prior_user_queries ops filtered in
              case inter_loop tpl sample cfg counter chunk_token_limit (turns_for_llm separated) [] 0 [] [] s of
                (Inl e, ns, s) \<Rightarrow> (Inl e, ns, s)
              | (Inr (compactable, chunk_outputs), ns, s) \<Rightarrow>
                  (case (if compactable \<noteq> []
                         then (case flush_chunk tpl sample cfg compactable ns s of
                                 (Inl e, ns, s) \<Rightarrow> (Inl e, ns, s)
                               | (Inr output, ns, s) \<Rightarrow> (Inr (chunk_outputs @ [output]), ns, s))
                         else (Inr chunk_outputs, ns, s)) of
                     (Inl e, ns, s) \<Rightarrow> (Inl e, ns, s)
                   | (Inr chunk_outputs, ns, s) \<Rightarrow>
                       (let ns = (if has_prior_compaction separated
                                  then ns @ [OnRecompaction (strategy_label (inter_strategy cfg))] else ns);
                            preamble = assemble_user_queries_preamble (prior_user_queries separated)
                                         current_user_queries
                        in (Inr (assemble_chunks preamble chunk_outputs),
                            ns @ [OnChunkCount (length chunk_outputs)], s))))))"

section \<open>Reference: sampling a list of chunks in order\<close>

fun sample_chunks ::
    "prompt_templates \<Rightarrow> ('a, 's) sampler \<Rightarrow> inter_compaction_config \<Rightarrow> 'a list list \<Rightarrow> inter_note list \<Rightarrow> 's \<Rightarrow>
     (sample_error + llm_compaction_output list) \<times> inter_note list \<times> 's" where
  "sample_chunks tpl sample cfg [] ns s = (Inr [], ns, s)"
| "sample_chunks tpl sample cfg (c # cs) ns s =
     (case flush_chunk tpl sample cfg c ns s of
        (Inl e, ns, s) \<Rightarrow> (Inl e, ns, s)
      | (Inr output, ns, s) \<Rightarrow>
          (case sample_chunks tpl sample cfg cs ns s of
             (Inl e, ns, s) \<Rightarrow> (Inl e, ns, s)
           | (Inr outputs, ns, s) \<Rightarrow> (Inr (output # outputs), ns, s)))"

text \<open>The greedy chunks: \<open>c\<close> is the chunk being filled.\<close>

fun greedy :: "'a counter \<Rightarrow> u32 \<Rightarrow> 'a list \<Rightarrow> u32 \<Rightarrow> 'a list \<Rightarrow> 'a list list" where
  "greedy counter limit c tok [] = (if c = [] then [] else [c])"
| "greedy counter limit c tok (t # ts) =
     (if c \<noteq> [] \<and> limit \<noteq> UNBOUNDED_CHUNK_LIMIT \<and> sat_add32 tok (counter t) > limit
      then c # greedy counter limit [t] (as_u32 (counter t)) ts
      else greedy counter limit (c @ [t]) (as_u32 (tok + counter t)) ts)"

lemma greedy_concat: "concat (greedy counter limit c tok ts) = c @ ts"
  by (induction counter limit c tok ts rule: greedy.induct) auto

lemma greedy_unbounded: "greedy counter UNBOUNDED_CHUNK_LIMIT c tok ts = (if c @ ts = [] then [] else [c @ ts])"
  by (induction ts arbitrary: c tok) auto

lemma greedy_bounded:
  assumes "\<And>t. counter t \<le> u32_max" "limit < u32_max"
    and "c = [] \<Longrightarrow> tok = 0" "tok = sum_list (map counter c)" "length c \<le> 1 \<or> tok \<le> limit"
  shows "list_all (\<lambda>c. c \<noteq> [] \<and> (length c = 1 \<or> sum_list (map counter c) \<le> limit)) (greedy counter limit c tok ts)"
  using assms(3-)
proof (induction ts arbitrary: c tok)
  case Nil
  then show ?case by (cases c) auto
next
  case (Cons t ts)
  have a: "as_u32 (counter t) = counter t" for t
    using assms(1)[of t] by (simp add: as_u32_def u32_max_def)
  have one: "list_all (\<lambda>c. c \<noteq> [] \<and> (length c = 1 \<or> sum_list (map counter c) \<le> limit))
      (greedy counter limit [t] (counter t) ts)"
    by (rule Cons.IH) simp_all
  have "limit \<noteq> UNBOUNDED_CHUNK_LIMIT" using assms(2) by (simp add: UNBOUNDED_CHUNK_LIMIT_def)
  note step = this one
  show ?case
  proof (cases "c \<noteq> [] \<and> sat_add32 tok (counter t) > limit")
    case True
    have "length c = 1 \<or> sum_list (map counter c) \<le> limit"
      using Cons.prems True by (cases c) auto
    with True step show ?thesis by (simp only: greedy.simps a if_True list.pred_inject simp_thms)
  next
    case False
    show ?thesis
    proof (cases "c = []")
      case True
      then show ?thesis using Cons.prems(1) one by (simp add: a)
    next
      case ne: False
      then have le: "tok + counter t \<le> limit"
        using False assms(2) by (auto simp: sat_add32_def min_def split: if_splits)
      then have b: "as_u32 (tok + counter t) = tok + counter t"
        using assms(2) by (simp add: as_u32_def u32_max_def)
      have "list_all (\<lambda>c. c \<noteq> [] \<and> (length c = 1 \<or> sum_list (map counter c) \<le> limit))
          (greedy counter limit (c @ [t]) (tok + counter t) ts)"
        using le ne Cons.prems(2) by (intro Cons.IH) auto
      then show ?thesis using False by (auto simp: b)
    qed
  qed
qed

text \<open>The loop and its final flush sample the greedy chunks, in order.\<close>

lemma inter_loop_greedy:
  "(case inter_loop tpl sample cfg counter limit ts c tok outs ns s of
      (Inl e, ns, s) \<Rightarrow> (Inl e, ns, s)
    | (Inr (compactable, chunk_outputs), ns, s) \<Rightarrow>
        (if compactable \<noteq> []
         then (case flush_chunk tpl sample cfg compactable ns s of
                 (Inl e, ns, s) \<Rightarrow> (Inl e, ns, s)
               | (Inr output, ns, s) \<Rightarrow> (Inr (chunk_outputs @ [output]), ns, s))
         else (Inr chunk_outputs, ns, s))) =
   (case sample_chunks tpl sample cfg (greedy counter limit c tok ts) ns s of
      (Inl e, ns, s) \<Rightarrow> (Inl e, ns, s)
    | (Inr outputs, ns, s) \<Rightarrow> (Inr (outs @ outputs), ns, s))"
proof (induction ts arbitrary: c tok outs ns s)
  case Nil
  show ?case by (auto split: sum.splits prod.splits)
next
  case (Cons t ts)
  show ?case
  proof (cases "c \<noteq> [] \<and> limit \<noteq> UNBOUNDED_CHUNK_LIMIT \<and> sat_add32 tok (counter t) > limit")
    case False
    then show ?thesis using Cons.IH[of "c @ [t]" "as_u32 (tok + counter t)" outs ns s] by auto
  next
    case True
    obtain r ns' s' where f: "flush_chunk tpl sample cfg c ns s = (r, ns', s')" by (metis prod_cases3)
    show ?thesis
    proof (cases r)
      case (Inl e)
      with True f show ?thesis by simp
    next
      case (Inr o1)
      with True f Cons.IH[of "[t]" "as_u32 (counter t)" "outs @ [o1]" ns' s'] show ?thesis
        by (simp split: sum.splits prod.splits)
    qed
  qed
qed

section \<open>Properties\<close>

text \<open>
  The chunked pipeline samples a partition of the filtered, separated turns: the chunks in order are
  those turns, none is empty, each has one turn or stays within the configured limit, and the basic
  strategy makes at most one. The first failing chunk ends the run with its error; otherwise the text
  is the preamble and one numbered block per chunk answer, in order.
\<close>

lemma chunked_pipeline:
  assumes "\<forall>t. counter t \<le> u32_max" and "inter_strategy cfg \<noteq> FullReplace"
    and "filter_turns_for_inter_compaction ops turns \<noteq> []"
  shows "\<exists>chunks.
    let separated = separate_prior_user_queries ops (filter_turns_for_inter_compaction ops turns) in
    concat chunks = turns_for_llm separated \<and>
    (inter_strategy cfg = Basic \<longrightarrow> length chunks \<le> 1) \<and>
    (inter_strategy cfg = DivideAndConquer \<and> dnc_chunk_token_limit cfg < u32_max \<longrightarrow>
       list_all (\<lambda>c. c \<noteq> [] \<and> (length c = 1 \<or> sum_list (map counter c) \<le> dnc_chunk_token_limit cfg)) chunks) \<and>
    fst (sample_compaction_chunked ops counter tpl sample turns queries cfg s) =
      (case fst (sample_chunks tpl sample cfg chunks [] s) of
         Inl e \<Rightarrow> Inl e
       | Inr outputs \<Rightarrow>
           Inr (assemble_chunks
             (assemble_user_queries_preamble (prior_user_queries separated) queries) outputs))"
proof -
  let ?sep = "separate_prior_user_queries ops (filter_turns_for_inter_compaction ops turns)"
  define limit where "limit = (if inter_strategy cfg = Basic then UNBOUNDED_CHUNK_LIMIT else dnc_chunk_token_limit cfg)"
  let ?chunks = "greedy counter limit [] 0 (turns_for_llm ?sep)"
  have lim: "(case inter_strategy cfg of
              Basic \<Rightarrow> Inr UNBOUNDED_CHUNK_LIMIT
            | DivideAndConquer \<Rightarrow> Inr (dnc_chunk_token_limit cfg)
            | FullReplace \<Rightarrow>
                Inl (Build (lit ''full_replace must be routed through the event-proc compact_conversation helper''))) = Inr limit"
    using assms(2) by (auto simp: limit_def split: compaction_strategy.splits)
  have "fst (sample_compaction_chunked ops counter tpl sample turns queries cfg s) =
      (case fst (sample_chunks tpl sample cfg ?chunks [] s) of
         Inl e \<Rightarrow> Inl e
       | Inr outputs \<Rightarrow>
           Inr (assemble_chunks (assemble_user_queries_preamble (prior_user_queries ?sep) queries) outputs))"
    (is "_ = ?rhs")
  proof -
    note g = inter_loop_greedy[of tpl sample cfg counter limit "turns_for_llm ?sep" "[]" 0 "[]" "[]" s]
    obtain q ns1 s1 where q: "sample_chunks tpl sample cfg ?chunks [] s = (q, ns1, s1)" by (metis prod_cases3)
    obtain r ns2 s2 where r: "inter_loop tpl sample cfg counter limit (turns_for_llm ?sep) [] 0 [] [] s = (r, ns2, s2)"
      by (metis prod_cases3)
    show ?thesis
    proof (cases r)
      case (Inl e)
      then show ?thesis
        using g assms(3) unfolding sample_compaction_chunked_def lim
        by (cases q) (simp_all add: r q Let_def)
    next
      case (Inr p)
      obtain c outs where p: "p = (c, outs)" by (cases p)
      obtain f ns3 s3 where f: "flush_chunk tpl sample cfg c ns2 s2 = (f, ns3, s3)" by (metis prod_cases3)
      show ?thesis
        using g assms(3) unfolding sample_compaction_chunked_def lim
        by (cases q; cases f) (auto simp add: r q p f Inr Let_def split: if_splits)
    qed
  qed
  moreover have "concat ?chunks = turns_for_llm ?sep" by (simp add: greedy_concat)
  moreover have "inter_strategy cfg = Basic \<longrightarrow> length ?chunks \<le> 1"
    by (simp add: limit_def greedy_unbounded)
  moreover have "inter_strategy cfg = DivideAndConquer \<and> dnc_chunk_token_limit cfg < u32_max \<longrightarrow>
       list_all (\<lambda>c. c \<noteq> [] \<and> (length c = 1 \<or> sum_list (map counter c) \<le> dnc_chunk_token_limit cfg)) ?chunks"
    using greedy_bounded[of counter "dnc_chunk_token_limit cfg" "[]" 0] assms(1) by (simp add: limit_def)
  ultimately show ?thesis unfolding Let_def by blast
qed

lemma chunked_pipeline_witness:
  "\<exists>chunks. concat chunks = [(User, [65 :: uchar]), (Assistant, [66]), (User, [67])] \<and>
     list_all (\<lambda>c. c \<noteq> [] \<and> (length c = 1 \<or> sum_list (map (\<lambda>_. 1) c) \<le> (2 :: nat))) chunks"
proof -
  let ?cfg = "\<lparr>inter_compaction_model_name = [], inter_sampling_timeout_secs = 120,
    inter_strategy = DivideAndConquer, dnc_chunk_token_limit = 2, user_message_compact_threshold = 10\<rparr>"
  let ?ts = "[(User, [65]), (Assistant, [66]), (User, [67])] :: (compaction_role \<times> ustr) list"
  have f: "filter_turns_for_inter_compaction sample_ops ?ts = ?ts"
    by (simp add: filter_turns_for_inter_compaction_def List.map_filter_def sample_ops_def)
  have t: "turns_for_llm (separate_prior_user_queries sample_ops ?ts) = ?ts"
    by (simp add: separate_prior_user_queries_def sample_ops_def)
  have "\<forall>t. (\<lambda>_ :: compaction_role \<times> ustr. 1) t \<le> u32_max" by (simp add: u32_max_def)
  from chunked_pipeline[OF this, of ?cfg sample_ops ?ts demo_templates demo_sampler None 0]
  show ?thesis by (simp only: f t Let_def) (auto simp: u32_max_def)
qed

end
