(* ===== verification/Perm_Rules.thy ===== *)
theory Perm_Rules
  imports Rust_Prelude
begin

text \<open>
  Permission vocabulary and the parser of permission rules
  (\<open>crates/codegen/xai-grok-workspace/src/permission/types.rs\<close> and \<open>rules.rs\<close>).

  Constructors that share a name in Rust carry a prefix here. The input of an MCP call
  (\<open>serde_json::Value\<close>) is carried along but never read by the modelled code; its type is a parameter.
\<close>

section \<open>Types\<close>

datatype prompt_policy = PromptAsk | PromptDeny | PromptAuto | PromptAllow

datatype rule_action = RuleAllow | RuleDeny | RuleAsk

datatype pattern_mode = Glob | Domain

datatype tool_filter =
    FAny | FBash | FEdit | FRead | FGrep | FMcp | FWebFetch | FWebSearch | FAgentMessage

record permission_rule =
  rule_action :: rule_action
  rule_tool :: tool_filter
  rule_pattern :: "ustr option"
  rule_pattern_mode :: pattern_mode

record permission_config =
  pc_rules :: "permission_rule list"
  pc_prompt_policy :: prompt_policy
  pc_default_mode_configured :: bool

definition permission_config_new :: "permission_rule list \<Rightarrow> permission_config" where
  "permission_config_new rules =
     \<lparr>pc_rules = rules, pc_prompt_policy = PromptAsk, pc_default_mode_configured = False\<rparr>"

datatype 'j access_kind =
    AccRead "ustr option"
  | AccGrep "ustr option" "ustr option"
  | AccEdit ustr
  | AccBash ustr
  | AccMcp ustr 'j
  | AccWebFetch ustr
  | AccWebSearch ustr
  | AccAgentMessage ustr
  | AccTool ustr

datatype decision =
    Allow | Ask | FollowupMessage ustr | Reject ustr | PolicyDeny ustr | Cancelled

section \<open>Default mode\<close>

datatype default_permission_mode =
    DefaultMode | AcceptEdits | PlanMode | AutoMode | DontAsk | BypassPermissions

definition mode_from_str :: "ustr \<Rightarrow> ustr + default_permission_mode" where
  "mode_from_str s =
     (if s = lit ''default'' then Inr DefaultMode
      else if s = lit ''acceptEdits'' then Inr AcceptEdits
      else if s = lit ''plan'' then Inr PlanMode
      else if s = lit ''auto'' then Inr AutoMode
      else if s = lit ''dontAsk'' then Inr DontAsk
      else if s = lit ''bypassPermissions'' then Inr BypassPermissions
      else Inl s)"

record default_mode_effects =
  eff_prompt_policy :: prompt_policy
  eff_accept_edits :: bool
  eff_bypass_permissions :: bool

definition no_effects :: default_mode_effects where
  "no_effects = \<lparr>eff_prompt_policy = PromptAsk, eff_accept_edits = False, eff_bypass_permissions = False\<rparr>"

definition mode_effects :: "default_permission_mode \<Rightarrow> default_mode_effects" where
  "mode_effects m =
     (case m of
        AcceptEdits \<Rightarrow> no_effects\<lparr>eff_accept_edits := True\<rparr>
      | BypassPermissions \<Rightarrow> no_effects\<lparr>eff_bypass_permissions := True\<rparr>
      | DefaultMode \<Rightarrow> no_effects
      | PlanMode \<Rightarrow> no_effects
      | DontAsk \<Rightarrow> no_effects\<lparr>eff_prompt_policy := PromptDeny\<rparr>
      | AutoMode \<Rightarrow> no_effects\<lparr>eff_prompt_policy := PromptAuto\<rparr>)"

section \<open>Rule parser\<close>

datatype rule_parse_error =
    UnsupportedToolPrefix ustr
  | UnknownToolPrefix ustr
  | MalformedRule ustr

definition rule_parse_error_display :: "rule_parse_error \<Rightarrow> ustr" where
  "rule_parse_error_display e =
     (case e of
        UnsupportedToolPrefix prefix \<Rightarrow> lit ''unsupported tool prefix: '' @ prefix
      | UnknownToolPrefix prefix \<Rightarrow> lit ''unknown tool prefix: '' @ prefix
      | MalformedRule detail \<Rightarrow> lit ''malformed rule: '' @ detail)"

abbreviation BSL :: uchar where "BSL \<equiv> 92"
abbreviation LPAREN :: uchar where "LPAREN \<equiv> 40"
abbreviation RPAREN :: uchar where "RPAREN \<equiv> 41"

definition strip_suffix :: "'a list \<Rightarrow> 'a list \<Rightarrow> 'a list option" where
  "strip_suffix p s = map_option rev (strip_prefix (rev p) (rev s))"

fun backslashes_before :: "ustr \<Rightarrow> nat \<Rightarrow> nat" where
  "backslashes_before s 0 = 0"
| "backslashes_before s (Suc j) = (if s ! j = BSL then Suc (backslashes_before s j) else 0)"

definition is_unescaped :: "ustr \<Rightarrow> nat \<Rightarrow> bool" where
  "is_unescaped s pos \<longleftrightarrow> even (backslashes_before s pos)"

definition find_first_unescaped :: "ustr \<Rightarrow> uchar \<Rightarrow> nat option" where
  "find_first_unescaped s target =
     find (\<lambda>i. s ! i = target \<and> is_unescaped s i) [0 ..< length s]"

definition find_last_unescaped :: "ustr \<Rightarrow> uchar \<Rightarrow> nat option" where
  "find_last_unescaped s target =
     find (\<lambda>i. s ! i = target \<and> is_unescaped s i) (rev [0 ..< length s])"

definition unescape_rule_content :: "ustr \<Rightarrow> ustr" where
  "unescape_rule_content s =
     (if BSL \<notin> set s then s
      else replace_all [BSL, BSL] [BSL]
             (replace_all [BSL, RPAREN] [RPAREN] (replace_all [BSL, LPAREN] [LPAREN] s)))"

definition strip_domain_prefix :: "ustr \<Rightarrow> ustr \<times> pattern_mode" where
  "strip_domain_prefix pattern =
     (case strip_prefix (lit ''domain:'') pattern of
        Some domain \<Rightarrow> (domain, Domain)
      | None \<Rightarrow> (pattern, Glob))"

definition strip_bash_colon_wildcard :: "ustr \<Rightarrow> ustr" where
  "strip_bash_colon_wildcard pattern =
     (case strip_suffix (lit '':*'') pattern of Some prefix \<Rightarrow> prefix | None \<Rightarrow> pattern)"

definition tool_name_to_filter :: "ustr \<Rightarrow> tool_filter option" where
  "tool_name_to_filter name =
     (if name = lit ''Bash'' then Some FBash
      else if name = lit ''Read'' then Some FRead
      else if name = lit ''Edit'' \<or> name = lit ''Write'' then Some FEdit
      else if name = lit ''MCPTool'' then Some FMcp
      else if name = lit ''Grep'' \<or> name = lit ''Glob'' then Some FGrep
      else if name = lit ''WebFetch'' then Some FWebFetch
      else if name = lit ''WebSearch'' then Some FWebSearch
      else if name = lit ''AgentMessage'' \<or> name = lit ''SendSubagentMessage'' \<or>
              name = lit ''SendAgentMessage'' then Some FAgentMessage
      else None)"

definition unsupported_prefix :: "ustr \<Rightarrow> bool" where
  "unsupported_prefix p \<longleftrightarrow>
     p = lit ''EnterWorktree'' \<or> p = lit ''NotebookEdit'' \<or> p = lit ''NotebookRead''"

text \<open>
  The slices of the source (\<open>rule.get(..i)\<close> and the like) are at positions that were just found, so
  their \<open>None\<close> arms cannot be taken.
\<close>

definition parse_scoped_rule :: "ustr \<Rightarrow> nat \<Rightarrow> rule_action \<Rightarrow> rule_parse_error + permission_rule" where
  "parse_scoped_rule rule open_paren action =
     (let prefix_trimmed = trim (take open_paren rule);
          content_and_close = drop (open_paren + 1) rule
      in case find_last_unescaped content_and_close RPAREN of
           None \<Rightarrow> Inl (MalformedRule (lit ''missing closing parenthesis''))
         | Some close_paren \<Rightarrow>
             (let raw_content = trim (take close_paren content_and_close);
                  pattern = (if raw_content = [] \<or> raw_content = lit ''*'' then []
                             else unescape_rule_content raw_content)
              in case tool_name_to_filter prefix_trimmed of
                   None \<Rightarrow>
                     if unsupported_prefix prefix_trimmed then Inl (UnsupportedToolPrefix prefix_trimmed)
                     else Inl (UnknownToolPrefix prefix_trimmed)
                 | Some tool \<Rightarrow>
                     (let pattern = (if tool = FBash then strip_bash_colon_wildcard pattern else pattern);
                          (pattern, mode) = strip_domain_prefix pattern
                      in Inr \<lparr>rule_action = action, rule_tool = tool,
                              rule_pattern = (if pattern = [] then None else Some pattern),
                              rule_pattern_mode = mode\<rparr>)))"

definition parse_permission_rule :: "ustr \<Rightarrow> rule_action \<Rightarrow> rule_parse_error + permission_rule" where
  "parse_permission_rule text action =
     (let rule = trim text in
      case find_first_unescaped rule LPAREN of
        Some open_paren \<Rightarrow> parse_scoped_rule rule open_paren action
      | None \<Rightarrow>
          if unsupported_prefix rule then Inl (UnsupportedToolPrefix rule)
          else
            (case tool_name_to_filter rule of
               Some tool \<Rightarrow>
                 Inr \<lparr>rule_action = action, rule_tool = tool, rule_pattern = None, rule_pattern_mode = Glob\<rparr>
             | None \<Rightarrow>
                 (let mcp = (case strip_prefix (lit ''mcp__'') rule of
                               Some rest \<Rightarrow> if rest = [] then None else Some rest
                             | None \<Rightarrow> None)
                  in case mcp of
                       Some rest \<Rightarrow>
                         (let pattern = (if rest = lit ''*'' then None
                                         else if contains rest (lit ''__'') then Some rest
                                         else Some (rest @ lit ''__*''))
                          in Inr \<lparr>rule_action = action, rule_tool = FMcp, rule_pattern = pattern,
                                  rule_pattern_mode = Glob\<rparr>)
                     | None \<Rightarrow>
                         Inr \<lparr>rule_action = action, rule_tool = FAny,
                              rule_pattern = (if rule = [] then None else Some rule),
                              rule_pattern_mode = Glob\<rparr>)))"

section \<open>Escaping\<close>

text \<open>The escaping that \<open>unescape_rule_content\<close> inverts.\<close>

definition escape_char :: "uchar \<Rightarrow> ustr" where
  "escape_char c = (if c = BSL \<or> c = LPAREN \<or> c = RPAREN then [BSL, c] else [c])"

definition escape_rule_content :: "ustr \<Rightarrow> ustr" where
  "escape_rule_content s = concat (map escape_char s)"

text \<open>The two intermediate forms: opening, then also closing parentheses restored.\<close>

definition escape1 :: "ustr \<Rightarrow> ustr" where
  "escape1 s = concat (map (\<lambda>c. if c = BSL \<or> c = RPAREN then [BSL, c] else [c]) s)"

definition escape2 :: "ustr \<Rightarrow> ustr" where
  "escape2 s = concat (map (\<lambda>c. if c = BSL then [BSL, c] else [c]) s)"

lemma unescape_step1: "replace_all [BSL, LPAREN] [LPAREN] (escape_rule_content s) = escape1 s"
proof (induction s)
  case (Cons c s)
  have "escape_rule_content s = LPAREN # r \<Longrightarrow> False" for r
    by (cases s) (auto simp: escape_rule_content_def escape_char_def split: if_splits)
  then have "strip_prefix [LPAREN] (escape_rule_content s) = None"
    by (cases "escape_rule_content s") auto
  with Cons show ?case
    by (auto simp: escape_rule_content_def escape1_def escape_char_def)
qed (simp add: escape_rule_content_def escape1_def)

lemma unescape_step2: "replace_all [BSL, RPAREN] [RPAREN] (escape1 s) = escape2 s"
proof (induction s)
  case (Cons c s)
  have "escape1 s = RPAREN # r \<Longrightarrow> False" for r
    by (cases s) (auto simp: escape1_def split: if_splits)
  then have "strip_prefix [RPAREN] (escape1 s) = None"
    by (cases "escape1 s") auto
  with Cons show ?case by (auto simp: escape1_def escape2_def)
qed (simp add: escape1_def escape2_def)

lemma unescape_step3: "replace_all [BSL, BSL] [BSL] (escape2 s) = s"
  by (induction s) (auto simp: escape2_def)

lemma unescape_escape: "unescape_rule_content (escape_rule_content s) = s"
proof (cases "BSL \<in> set (escape_rule_content s)")
  case True
  then show ?thesis by (simp add: unescape_rule_content_def unescape_step1 unescape_step2 unescape_step3)
next
  case False
  then have "escape_rule_content s = s"
    by (induction s) (auto simp: escape_rule_content_def escape_char_def split: if_splits)
  then show ?thesis using False by (simp add: unescape_rule_content_def)
qed

lemma backslashes_before_append: "n \<le> length s \<Longrightarrow> backslashes_before (s @ t) n = backslashes_before s n"
  by (induction n) (auto simp: nth_append)

text \<open>An escaped content never leaves an escape open at its end.\<close>

lemma backslashes_snoc:
  "backslashes_before (s @ [c]) (Suc (length s)) = (if c = BSL then Suc (backslashes_before s (length s)) else 0)"
  using backslashes_before_append[of "length s" s "[c]"] by auto

lemma escape_closed: "even (backslashes_before (escape_rule_content s) (length (escape_rule_content s)))"
proof (induction s rule: rev_induct)
  case (snoc c s)
  let ?e = "escape_rule_content s"
  have e: "escape_rule_content (s @ [c]) = ?e @ escape_char c" by (simp add: escape_rule_content_def)
  show ?case
  proof (cases "c = BSL \<or> c = LPAREN \<or> c = RPAREN")
    case False
    then show ?thesis using backslashes_snoc[of ?e c] unfolding e by (simp add: escape_char_def)
  next
    case True
    then have "escape_rule_content (s @ [c]) = (?e @ [BSL]) @ [c]" unfolding e by (simp add: escape_char_def)
    then show ?thesis
      using backslashes_snoc[of "?e @ [BSL]" c] backslashes_snoc[of ?e BSL] snoc by auto
  qed
qed (simp add: escape_rule_content_def)

lemma find_last_unescaped_end:
  assumes "even (backslashes_before s (length s))"
  shows "find_last_unescaped (s @ [c]) c = Some (length s)"
  using assms backslashes_before_append[of "length s" s "[c]"]
  by (simp add: find_last_unescaped_def is_unescaped_def)

lemma find_first_unescaped_skip:
  assumes "c \<notin> set s" "BSL \<notin> set s"
  shows "find_first_unescaped (s @ c # t) c = Some (length s)"
proof -
  have b: "backslashes_before (s @ c # t) (length s) = 0"
    using assms(2) backslashes_before_append[of "length s" s "c # t"]
    by (cases "length s") (auto simp: nth_append, metis lessI nth_mem)
  have "[0 ..< length (s @ c # t)] = [0 ..< length s] @ [length s ..< length (s @ c # t)]"
    using upt_add_eq_append[of 0 "length s"] by simp
  moreover have "find P [0 ..< length s] = None"
    if "P = (\<lambda>i. (s @ c # t) ! i = c \<and> is_unescaped (s @ c # t) i)" for P
    using assms(1) that by (auto simp: find_None_iff nth_append dest: nth_mem)
  moreover have "find P (xs @ ys) = (case find P xs of None \<Rightarrow> find P ys | Some x \<Rightarrow> Some x)" for P :: "nat \<Rightarrow> bool" and xs ys
    by (induction xs) auto
  moreover have "[length s ..< length (s @ c # t)] = length s # [Suc (length s) ..< length (s @ c # t)]"
    by (rule upt_conv_Cons) simp
  ultimately show ?thesis
    using b unfolding find_first_unescaped_def by (simp add: is_unescaped_def del: length_append)
qed

lemma escape_ends:
  assumes "s \<noteq> []" "\<not> is_ws (hd s)" "\<not> is_ws (last s)"
  shows "trim (escape_rule_content s) = escape_rule_content s"
proof (rule trim_id)
  obtain c t where c: "s = c # t" using assms(1) by (cases s) auto
  obtain u d where d: "s = u @ [d]" using assms(1) by (cases s rule: rev_cases) auto
  show "escape_rule_content s \<noteq> []" "\<not> is_ws (hd (escape_rule_content s))"
    using assms(2) c by (auto simp: escape_rule_content_def escape_char_def is_ws_def)
  show "\<not> is_ws (last (escape_rule_content s))"
    using assms(3) d by (auto simp: escape_rule_content_def escape_char_def)
qed

lemma tool_name_plain:
  assumes "tool_name_to_filter name = Some f"
  shows "LPAREN \<notin> set name \<and> BSL \<notin> set name \<and> trim name = name \<and> name \<noteq> [] \<and>
    \<not> is_ws (hd name)"
proof -
  have "name \<in> {lit ''Bash'', lit ''Read'', lit ''Edit'', lit ''Write'', lit ''MCPTool'', lit ''Grep'',
      lit ''Glob'', lit ''WebFetch'', lit ''WebSearch'', lit ''AgentMessage'', lit ''SendSubagentMessage'',
      lit ''SendAgentMessage''}"
    using assms by (auto simp: tool_name_to_filter_def split: if_splits)
  then show ?thesis by (elim insertE) (simp_all add: str_eval)
qed

text \<open>An escaped content is parsed back.\<close>

lemma parse_escaped_rule:
  assumes "tool_name_to_filter name = Some tool"
    and "p \<noteq> []" and "\<not> is_ws (hd p)" and "\<not> is_ws (last p)" and "p \<noteq> lit ''*''"
    and "\<not> starts_with p (lit ''domain:'')" and "tool = FBash \<longrightarrow> \<not> ends_with p (lit '':*'')"
  shows "parse_permission_rule (name @ [LPAREN] @ escape_rule_content p @ [RPAREN]) action =
    Inr \<lparr>rule_action = action, rule_tool = tool, rule_pattern = Some p, rule_pattern_mode = Glob\<rparr>"
proof -
  let ?e = "escape_rule_content p"
  let ?r = "name @ [LPAREN] @ ?e @ [RPAREN]"
  note n = tool_name_plain[OF assms(1)]
  have "trim ?r = ?r" using n by (intro trim_id) (auto simp: is_ws_def)
  moreover have "find_first_unescaped ?r LPAREN = Some (length name)"
    using find_first_unescaped_skip[of LPAREN name "?e @ [RPAREN]"] n by simp
  moreover have "drop (length name + 1) ?r = ?e @ [RPAREN]" "take (length name) ?r = name" by simp_all
  moreover have "find_last_unescaped (?e @ [RPAREN]) RPAREN = Some (length ?e)"
    by (rule find_last_unescaped_end[OF escape_closed])
  moreover have "trim ?e = ?e" by (rule escape_ends[OF assms(2-4)])
  moreover have "?e \<noteq> []" "?e \<noteq> lit ''*''"
    using assms(2,5) unescape_escape[of p] by (auto simp: lit_def unescape_rule_content_def)
  moreover have "strip_domain_prefix p = (p, Glob)"
    using assms(6) by (simp add: strip_domain_prefix_def starts_with_def)
  moreover have "tool = FBash \<longrightarrow> strip_bash_colon_wildcard p = p"
    using assms(7) by (simp add: strip_bash_colon_wildcard_def strip_suffix_def ends_with_def starts_with_def)
  ultimately show ?thesis
    using assms(1,2) n
    by (simp add: parse_permission_rule_def parse_scoped_rule_def Let_def unescape_escape del: append_Cons)
qed

section \<open>Properties\<close>

text \<open>
  Any pattern can be written in a rule: a content without outer white space, put between the
  parentheses after a tool name with backslashes and parentheses escaped, is parsed to exactly that
  pattern for that tool. (The spellings with a meaning of their own are excluded: a lone star, a
  \<open>domain:\<close> prefix, and for Bash a trailing \<open>:*\<close>.)
\<close>

lemma parse_rule_roundtrip:
  assumes "tool_name_to_filter name = Some tool"
    and "p \<noteq> []" and "\<not> is_ws (hd p)" and "\<not> is_ws (last p)" and "p \<noteq> lit ''*''"
    and "\<not> starts_with p (lit ''domain:'')" and "tool = FBash \<longrightarrow> \<not> ends_with p (lit '':*'')"
  shows "parse_permission_rule (name @ [LPAREN] @ escape_rule_content p @ [RPAREN]) action =
    Inr \<lparr>rule_action = action, rule_tool = tool, rule_pattern = Some p, rule_pattern_mode = Glob\<rparr>"
  using assms by (rule parse_escaped_rule)

lemma parse_rule_roundtrip_witness:
  "parse_permission_rule (lit ''Bash(echo '' @ [BSL, LPAREN] @ lit ''hi'' @ [BSL, RPAREN] @ lit '')'') RuleDeny =
     Inr \<lparr>rule_action = RuleDeny, rule_tool = FBash, rule_pattern = Some (lit ''echo (hi)''),
          rule_pattern_mode = Glob\<rparr>"
  using parse_rule_roundtrip[of "lit ''Bash''" FBash "lit ''echo (hi)''" RuleDeny]
  by (simp add: str_eval tool_name_to_filter_def escape_rule_content_def escape_char_def)

end
