(* ===== verification/Bash_Words.thy ===== *)
theory Bash_Words
  imports Perm_Rules
begin

text \<open>
  Normalisation of a command's words before the permission gates match them
  (\<open>crates/codegen/xai-grok-workspace/src/permission/bash_command_splitting.rs\<close>): wrappers such as
  \<open>timeout\<close> or \<open>env\<close> and the shell prefixes \<open>exec\<close>, \<open>command\<close> and \<open>builtin\<close> are peeled.

  A slice of the argument vector is a list. Loops over an index \<open>i\<close> take the words from \<open>i\<close> on and
  \<open>i\<close> itself.
\<close>

section \<open>Words\<close>

abbreviation DASH :: uchar where "DASH \<equiv> 45"
abbreviation SQUOTE :: uchar where "SQUOTE \<equiv> 39"
abbreviation DQUOTE :: uchar where "DQUOTE \<equiv> 34"

text \<open>\<open>rsplit(['/', '\\']).next()\<close>: the last path segment.\<close>

definition last_segment :: "ustr \<Rightarrow> ustr" where
  "last_segment w = rev (takeWhile (\<lambda>c. c \<noteq> 47 \<and> c \<noteq> BSL) (rev w))"

definition head_name :: "ustr list \<Rightarrow> ustr option" where
  "head_name cmd = (case cmd of [] \<Rightarrow> None | w # _ \<Rightarrow> Some (last_segment w))"

definition is_ascii_alpha :: "uchar \<Rightarrow> bool" where
  "is_ascii_alpha c \<longleftrightarrow> (65 \<le> c \<and> c \<le> 90) \<or> (97 \<le> c \<and> c \<le> 122)"

definition is_setup_command :: "ustr list \<Rightarrow> bool" where
  "is_setup_command cmd =
     (case cmd of
        [] \<Rightarrow> True
      | w # _ \<Rightarrow> w \<in> set (map lit [''cd'', ''pushd'', ''popd'', ''export'', ''unset'', ''set'', ''sleep'', ''timeout'']))"

definition is_env_assignment :: "ustr \<Rightarrow> bool" where
  "is_env_assignment tok \<longleftrightarrow>
     61 \<in> set tok \<and>
     (let name = takeWhile (\<lambda>c. c \<noteq> 61) tok in
      name \<noteq> [] \<and> (is_ascii_alpha (hd name) \<or> hd name = 95) \<and>
      list_all (\<lambda>b. is_ascii_alpha b \<or> is_ascii_digit b \<or> b = 95) name)"

fun decode_loop :: "uchar option \<Rightarrow> ustr \<Rightarrow> ustr \<Rightarrow> ustr option" where
  "decode_loop quote [] out = (if quote = None then Some out else None)"
| "decode_loop quote (ch # cs) out =
     (if quote = None \<and> (ch = SQUOTE \<or> ch = DQUOTE) then decode_loop (Some ch) cs out
      else if quote = Some ch then decode_loop None cs out
      else if quote = None \<and> ch = BSL
      then (case cs of [] \<Rightarrow> None | n # cs \<Rightarrow> decode_loop quote cs (out @ [n]))
      else if quote = Some DQUOTE \<and> ch = BSL
      then (case cs of
              [] \<Rightarrow> None
            | n # cs \<Rightarrow>
                decode_loop quote cs
                  (out @ (if n \<in> {36, 96, DQUOTE, BSL, NL} then [n] else [BSL, n])))
      else decode_loop quote cs (out @ [ch]))"

definition decode_shell_literal_spelling :: "ustr \<Rightarrow> ustr option" where
  "decode_shell_literal_spelling raw = decode_loop None raw []"

definition decode_env_option_token :: "ustr \<Rightarrow> ustr" where
  "decode_env_option_token raw =
     (if SQUOTE \<notin> set raw \<and> DQUOTE \<notin> set raw then raw
      else (case decode_shell_literal_spelling raw of Some decoded \<Rightarrow> decoded | None \<Rightarrow> raw))"

definition is_high_confidence_env_s_payload :: "ustr \<Rightarrow> bool" where
  "is_high_confidence_env_s_payload s \<longleftrightarrow>
     s \<noteq> [] \<and> 0 \<notin> set s \<and>
     \<not> list_ex (\<lambda>c. c \<in> {SQUOTE, DQUOTE, BSL, 35, 96, 36, NL, CR}) s"

definition take_high_confidence_payload :: "ustr \<Rightarrow> ustr option" where
  "take_high_confidence_payload raw = (if is_high_confidence_env_s_payload raw then Some raw else None)"

section \<open>Options of env\<close>

datatype env_short =
    SplitStringNext
  | SplitStringGlued ustr
  | SplitStringDetect
  | NoArg
  | ArgNeedNext uchar
  | ArgGlued uchar
  | Uncertain

text \<open>The letters: i 105, v 118, 0 48, S 83, u 117, C 67, P 80, a 97.\<close>

fun env_short_loop :: "ustr \<Rightarrow> env_short" where
  "env_short_loop [] = NoArg"
| "env_short_loop (c # cs) =
     (if c \<in> {105, 118, 48} then env_short_loop cs
      else if c = 83 then SplitStringDetect
      else if c \<in> {117, 67, 80, 97} then (if cs \<noteq> [] then ArgGlued c else ArgNeedNext c)
      else Uncertain)"

definition classify_env_short :: "ustr \<Rightarrow> env_short" where
  "classify_env_short tok =
     (if \<not> starts_with tok [DASH] \<or> starts_with tok [DASH, DASH] \<or> tok = [DASH] then Uncertain
      else
        (let body = drop 1 tok in
         if body = [] then Uncertain
         else (case strip_prefix [83] body of
                 Some rest \<Rightarrow> if rest = [] then SplitStringNext else SplitStringGlued rest
               | None \<Rightarrow> env_short_loop body)))"

record env_scan =
  es_chdir :: "ustr option"
  es_has_split_string :: bool
  es_options_uncertain :: bool
  es_split_string_script :: "ustr option"
  es_command_start :: nat

definition scan_stop :: "ustr option \<Rightarrow> nat \<Rightarrow> env_scan" where
  "scan_stop chdir i = \<lparr>es_chdir = chdir, es_has_split_string = False, es_options_uncertain = False,
     es_split_string_script = None, es_command_start = i\<rparr>"

definition scan_uncertain :: "ustr option \<Rightarrow> nat \<Rightarrow> env_scan" where
  "scan_uncertain chdir i = (scan_stop chdir i)\<lparr>es_options_uncertain := True\<rparr>"

definition scan_split :: "ustr option \<Rightarrow> nat \<Rightarrow> ustr option \<Rightarrow> env_scan" where
  "scan_split chdir i script =
     (scan_stop chdir i)\<lparr>es_has_split_string := True, es_split_string_script := script\<rparr>"

text \<open>
  What one token does: end the scan, be skipped (with the directory known after it), or take the next
  word, which may be the directory.
\<close>

datatype env_action = EnvDone env_scan | EnvNext "ustr option" | EnvOperand bool

definition env_long_action :: "ustr \<Rightarrow> ustr list \<Rightarrow> nat \<Rightarrow> ustr option \<Rightarrow> env_action" where
  "env_long_action tok rest i chdir =
     (if tok = lit ''--chdir'' then EnvOperand True
      else if starts_with tok (lit ''--chdir='') then EnvNext (strip_prefix (lit ''--chdir='') tok)
      else if tok \<in> set (map lit [''--unset'', ''--path'', ''--argv0'']) then EnvOperand False
      else if starts_with tok (lit ''--unset='') \<or> starts_with tok (lit ''--path='') \<or>
              starts_with tok (lit ''--argv0='')
      then EnvNext chdir
      else if tok \<in> set (map lit [''--ignore-environment'', ''--null'', ''--debug'', ''--version'', ''--help''])
      then EnvNext chdir
      else if tok = lit ''--split-string''
      then EnvDone (scan_split chdir i (case rest of raw # _ \<Rightarrow> take_high_confidence_payload raw | [] \<Rightarrow> None))
      else
        (case strip_prefix (lit ''--split-string='') tok of
           Some payload \<Rightarrow>
             (let payload = (case strip_prefix (lit ''--split-string='') (decode_env_option_token tok) of
                               Some p \<Rightarrow> p | None \<Rightarrow> payload)
              in EnvDone (scan_split chdir i (take_high_confidence_payload payload)))
         | None \<Rightarrow> EnvDone (scan_uncertain chdir i)))"

definition env_short_action :: "ustr \<Rightarrow> ustr list \<Rightarrow> nat \<Rightarrow> ustr option \<Rightarrow> env_action" where
  "env_short_action tok rest i chdir =
     (case classify_env_short (decode_env_option_token tok) of
        SplitStringNext \<Rightarrow>
          EnvDone (scan_split chdir i (case rest of raw # _ \<Rightarrow> take_high_confidence_payload raw | [] \<Rightarrow> None))
      | SplitStringGlued payload \<Rightarrow> EnvDone (scan_split chdir i (take_high_confidence_payload payload))
      | SplitStringDetect \<Rightarrow> EnvDone (scan_split chdir i None)
      | NoArg \<Rightarrow> EnvNext chdir
      | ArgNeedNext kind \<Rightarrow> EnvOperand (kind = 67)
      | ArgGlued kind \<Rightarrow>
          EnvNext (if kind = 67
                   then Some (case strip_prefix (lit ''-C'') tok of Some d \<Rightarrow> d | None \<Rightarrow> [])
                   else chdir)
      | Uncertain \<Rightarrow> EnvDone (scan_uncertain chdir i))"

definition env_action_of :: "ustr \<Rightarrow> ustr list \<Rightarrow> nat \<Rightarrow> ustr option \<Rightarrow> env_action" where
  "env_action_of tok rest i chdir =
     (if tok = lit ''--'' then EnvDone (scan_stop chdir (i + 1))
      else if tok = lit ''-'' then EnvNext chdir
      else if \<not> starts_with tok (lit ''-'')
      then (if is_env_assignment tok then EnvNext chdir else EnvDone (scan_stop chdir i))
      else if starts_with tok (lit ''--'') then env_long_action tok rest i chdir
      else env_short_action tok rest i chdir)"

fun env_loop :: "ustr list \<Rightarrow> nat \<Rightarrow> ustr option \<Rightarrow> env_scan" where
  "env_loop [] i chdir = scan_stop chdir i"
| "env_loop (tok # rest) i chdir =
     (case env_action_of tok rest i chdir of
        EnvDone scan \<Rightarrow> scan
      | EnvNext chdir \<Rightarrow> env_loop rest (i + 1) chdir
      | EnvOperand is_dir \<Rightarrow>
          (case rest of
             v # rest \<Rightarrow> env_loop rest (i + 2) (if is_dir then Some v else chdir)
           | [] \<Rightarrow> scan_uncertain chdir i))"

definition env_scan_words :: "ustr list \<Rightarrow> env_scan" where
  "env_scan_words cmd = env_loop (drop 1 cmd) 1 None"

definition env_split_string_script :: "ustr list \<Rightarrow> ustr option" where
  "env_split_string_script words =
     (if head_name words \<noteq> Some (lit ''env'') then None
      else
        (let scan = env_scan_words words in
         if \<not> es_has_split_string scan then None else es_split_string_script scan))"

section \<open>Wrappers\<close>

text \<open>The option loops: \<open>two\<close> are the options that take the next word.\<close>

fun skip_options :: "ustr list \<Rightarrow> ustr list \<Rightarrow> nat \<Rightarrow> nat" where
  "skip_options two [] i = i"
| "skip_options two (t # rest) i =
     (if starts_with t [DASH]
      then (if t \<in> set two
            then (case rest of [] \<Rightarrow> i + 2 | _ # rest \<Rightarrow> skip_options two rest (i + 2))
            else skip_options two rest (i + 1))
      else i)"

text \<open>The index of the inner command, before the check that there is one.\<close>

definition wrapper_start :: "ustr \<Rightarrow> ustr list \<Rightarrow> nat option" where
  "wrapper_start head cmd =
     (if head = lit ''timeout''
      then (let i = skip_options (map lit [''-k'', ''-s'', ''--kill-after'', ''--signal'']) (drop 1 cmd) 1
            in if i \<ge> length cmd then None else Some (i + 1))
      else if head = lit ''nice''
      then Some (skip_options (map lit [''-n'', ''--adjustment'']) (drop 1 cmd) 1)
      else if head = lit ''ionice''
      then Some (skip_options (map lit [''-c'', ''-n'', ''-p'', ''-P'', ''-u'', ''--class'',
             ''--classdata'', ''--pid'', ''--pgid'', ''--uid'']) (drop 1 cmd) 1)
      else if head = lit ''chrt''
      then (let i = skip_options [] (drop 1 cmd) 1
            in if i \<ge> length cmd then None else Some (i + 1))
      else if head = lit ''stdbuf''
      then Some (skip_options (map lit [''-i'', ''-o'', ''-e'']) (drop 1 cmd) 1)
      else if head = lit ''env''
      then (let scan = env_scan_words cmd in
            if es_has_split_string scan \<or> es_options_uncertain scan then None
            else Some (es_command_start scan))
      else None)"

definition strip_wrapper_command :: "ustr list \<Rightarrow> ustr list option" where
  "strip_wrapper_command cmd =
     (case head_name cmd of
        None \<Rightarrow> None
      | Some head \<Rightarrow>
          (case wrapper_start head cmd of
             None \<Rightarrow> None
           | Some i \<Rightarrow> if i < length cmd then Some (drop i cmd) else None))"

definition is_wrapper_command :: "ustr list \<Rightarrow> bool" where
  "is_wrapper_command words \<longleftrightarrow>
     head_name words \<in> set (map (\<lambda>s. Some (lit s)) [''timeout'', ''nice'', ''ionice'', ''chrt'', ''stdbuf'', ''env''])"

definition MAX_WRAPPER_DEPTH :: nat where "MAX_WRAPPER_DEPTH = 8"
definition MAX_INLINE_SHELL_DEPTH :: nat where "MAX_INLINE_SHELL_DEPTH = 8"

record checked_wrapper_peel =
  cw_words :: "ustr list"
  cw_has_chdir :: bool
  cw_has_split_string :: bool
  cw_env_options_uncertain :: bool
  cw_exhausted :: bool

fun unwrap_loop :: "nat \<Rightarrow> ustr list \<Rightarrow> bool \<Rightarrow> bool \<Rightarrow> bool \<Rightarrow> checked_wrapper_peel" where
  "unwrap_loop 0 current chdir split uncertain =
     \<lparr>cw_words = current, cw_has_chdir = chdir, cw_has_split_string = split,
      cw_env_options_uncertain = uncertain,
      cw_exhausted = (is_wrapper_command current \<and> strip_wrapper_command current \<noteq> None)\<rparr>"
| "unwrap_loop (Suc n) current chdir split uncertain =
     (let is_env = (head_name current = Some (lit ''env''));
          scan = env_scan_words current;
          chdir = (chdir \<or> is_env \<and> es_chdir scan \<noteq> None);
          split = (split \<or> is_env \<and> es_has_split_string scan);
          uncertain = (uncertain \<or> is_env \<and> es_options_uncertain scan)
      in case strip_wrapper_command current of
           Some inner \<Rightarrow> unwrap_loop n inner chdir split uncertain
         | None \<Rightarrow>
             \<lparr>cw_words = current, cw_has_chdir = chdir, cw_has_split_string = split,
              cw_env_options_uncertain = uncertain, cw_exhausted = False\<rparr>)"

definition unwrap_wrappers_checked :: "ustr list \<Rightarrow> checked_wrapper_peel" where
  "unwrap_wrappers_checked words = unwrap_loop MAX_WRAPPER_DEPTH words False False False"

definition unwrap_wrappers :: "ustr list \<Rightarrow> ustr list" where
  "unwrap_wrappers words = cw_words (unwrap_wrappers_checked words)"

section \<open>Transparent prefixes\<close>

datatype transparent_strip = NotPrefix | Peeled "ustr list" | Ambiguous

text \<open>The option loops: an early return, or the index of the command.\<close>

fun exec_loop :: "ustr list \<Rightarrow> nat \<Rightarrow> transparent_strip + nat" where
  "exec_loop [] i = Inr i"
| "exec_loop (tok # rest) i =
     (if tok = lit ''--'' then Inr (i + 1)
      else if tok = lit ''-'' \<or> \<not> starts_with tok [DASH] then Inr i
      else if tok \<in> set (map lit [''-c'', ''-l'', ''-cl'', ''-lc'']) then exec_loop rest (i + 1)
      else if tok = lit ''-a''
      then (case rest of
              v # rest \<Rightarrow> if v \<noteq> [0] \<and> v \<noteq> [] then exec_loop rest (i + 2) else Inl Ambiguous
            | [] \<Rightarrow> Inl Ambiguous)
      else if starts_with tok (lit ''-a'')
      then (if strip_prefix (lit ''-a'') tok = Some [0] then Inl Ambiguous else exec_loop rest (i + 1))
      else if \<not> starts_with tok (lit ''--'') \<and> list_all (\<lambda>c. c = 99 \<or> c = 108) (drop 1 tok)
      then exec_loop rest (i + 1)
      else Inl Ambiguous)"

fun command_loop :: "ustr list \<Rightarrow> nat \<Rightarrow> transparent_strip + nat" where
  "command_loop [] i = Inr i"
| "command_loop (tok # rest) i =
     (if tok = lit ''--'' then Inr (i + 1)
      else if tok = lit ''-'' \<or> \<not> starts_with tok [DASH] then Inr i
      else if tok \<in> set (map lit [''-v'', ''-V'', ''--help'', ''--version'']) \<or>
              (\<not> starts_with tok (lit ''--'') \<and> list_ex (\<lambda>c. c = 118 \<or> c = 86) (drop 1 tok))
      then Inl NotPrefix
      else if tok = lit ''-p'' \<or> (\<not> starts_with tok (lit ''--'') \<and> list_all (\<lambda>c. c = 112) (drop 1 tok))
      then command_loop rest (i + 1)
      else Inl Ambiguous)"

definition peel_from :: "ustr list \<Rightarrow> transparent_strip + nat \<Rightarrow> transparent_strip" where
  "peel_from cmd r =
     (case r of
        Inl s \<Rightarrow> s
      | Inr i \<Rightarrow> if i < length cmd then Peeled (drop i cmd) else NotPrefix)"

definition strip_exec_prefix :: "ustr list \<Rightarrow> transparent_strip" where
  "strip_exec_prefix cmd = peel_from cmd (exec_loop (drop 1 cmd) 1)"

definition strip_command_prefix :: "ustr list \<Rightarrow> transparent_strip" where
  "strip_command_prefix cmd = peel_from cmd (command_loop (drop 1 cmd) 1)"

definition strip_builtin_prefix :: "ustr list \<Rightarrow> transparent_strip" where
  "strip_builtin_prefix cmd =
     (case drop 1 cmd of
        [] \<Rightarrow> NotPrefix
      | tok # _ \<Rightarrow> if starts_with tok [DASH] \<and> tok \<noteq> [DASH] then Ambiguous else Peeled (drop 1 cmd))"

definition strip_transparent_prefix :: "ustr list \<Rightarrow> transparent_strip" where
  "strip_transparent_prefix cmd =
     (case cmd of
        [] \<Rightarrow> NotPrefix
      | h # _ \<Rightarrow>
          if h = [] \<or> h = [0] then NotPrefix
          else
            (let head = last_segment h in
             if head = lit ''exec'' then strip_exec_prefix cmd
             else if head = lit ''command'' then strip_command_prefix cmd
             else if head = lit ''builtin'' then strip_builtin_prefix cmd
             else NotPrefix))"

definition MAX_TRANSPARENT_PREFIX_DEPTH :: nat where "MAX_TRANSPARENT_PREFIX_DEPTH = 8"

definition MAX_NORMALIZE_ROUNDS :: nat where
  "MAX_NORMALIZE_ROUNDS = MAX_WRAPPER_DEPTH + MAX_TRANSPARENT_PREFIX_DEPTH"

text \<open>\<open>None\<close> is \<open>Ambiguous\<close>.\<close>

fun peel_loop :: "nat \<Rightarrow> ustr list \<Rightarrow> ustr list option" where
  "peel_loop 0 current =
     (case strip_transparent_prefix current of NotPrefix \<Rightarrow> Some current | _ \<Rightarrow> None)"
| "peel_loop (Suc n) current =
     (case strip_transparent_prefix current of
        NotPrefix \<Rightarrow> Some current
      | Peeled inner \<Rightarrow> peel_loop n inner
      | Ambiguous \<Rightarrow> None)"

definition peel_transparent_prefixes :: "ustr list \<Rightarrow> ustr list option" where
  "peel_transparent_prefixes words = peel_loop MAX_TRANSPARENT_PREFIX_DEPTH words"

record normalized_command_peel =
  nc_words :: "ustr list"
  nc_has_chdir :: bool
  nc_has_split_string :: bool
  nc_env_options_uncertain :: bool
  nc_exhausted :: bool
  nc_ambiguous :: bool

text \<open>
  \<open>current\<close> is always a suffix of the original slice, so the pointer and length comparison of the
  source is the comparison of lengths.
\<close>

fun normalize_loop :: "nat \<Rightarrow> normalized_command_peel \<Rightarrow> normalized_command_peel" where
  "normalize_loop 0 st = st"
| "normalize_loop (Suc n) st =
     (let wrapped = unwrap_wrappers_checked (nc_words st);
          st' = \<lparr>nc_words = cw_words wrapped,
                 nc_has_chdir = nc_has_chdir st \<or> cw_has_chdir wrapped,
                 nc_has_split_string = nc_has_split_string st \<or> cw_has_split_string wrapped,
                 nc_env_options_uncertain = nc_env_options_uncertain st \<or> cw_env_options_uncertain wrapped,
                 nc_exhausted = nc_exhausted st \<or> cw_exhausted wrapped,
                 nc_ambiguous = nc_ambiguous st\<rparr>
      in if nc_has_split_string st' \<or> nc_env_options_uncertain st' then st'
         else (case peel_transparent_prefixes (nc_words st') of
                 None \<Rightarrow> st'\<lparr>nc_ambiguous := True\<rparr>
               | Some inner \<Rightarrow>
                   (let st'' = st'\<lparr>nc_words := inner\<rparr> in
                    if length inner = length (nc_words st) then st'' else normalize_loop n st'')))"

definition normalize_command_words :: "ustr list \<Rightarrow> normalized_command_peel" where
  "normalize_command_words words =
     (let st = normalize_loop MAX_NORMALIZE_ROUNDS
                 \<lparr>nc_words = words, nc_has_chdir = False, nc_has_split_string = False,
                  nc_env_options_uncertain = False, nc_exhausted = False, nc_ambiguous = False\<rparr>
      in if \<not> nc_ambiguous st \<and> \<not> nc_has_split_string st \<and> \<not> nc_env_options_uncertain st
         then
           (let still_wrapper = (is_wrapper_command (nc_words st) \<and> strip_wrapper_command (nc_words st) \<noteq> None);
                still_transparent = (strip_transparent_prefix (nc_words st) \<noteq> NotPrefix)
            in if still_wrapper \<or> still_transparent then st\<lparr>nc_exhausted := True\<rparr> else st)
         else st)"

section \<open>Peeling as a relation\<close>

text \<open>One layer of a command is taken off: a wrapper with its options, or a shell prefix.\<close>

inductive peel_step :: "ustr list \<Rightarrow> ustr list \<Rightarrow> bool" where
  wrapper: "strip_wrapper_command w = Some v \<Longrightarrow> peel_step w v"
| transparent: "strip_transparent_prefix w = Peeled v \<Longrightarrow> peel_step w v"

inductive_simps peel_step_iff: "peel_step w v"

abbreviation peels :: "ustr list \<Rightarrow> ustr list \<Rightarrow> bool" where
  "peels \<equiv> peel_step\<^sup>*\<^sup>*"

lemma skip_options_ge: "i \<le> skip_options two l i"
proof (induction two l i rule: skip_options.induct)
  case (2 two t rest i)
  show ?case
  proof (cases "starts_with t [DASH] \<and> t \<in> set two")
    case True
    show ?thesis
    proof (cases rest)
      case (Cons a r)
      with True have "i + 2 \<le> skip_options two r (i + 2)" using 2(1)[of a r] by simp
      with True Cons show ?thesis by simp
    qed (use True in simp)
  next
    case False
    then show ?thesis using 2(2) by (auto dest: Suc_leD)
  qed
qed simp

lemma scan_simps [simp]:
  "es_command_start (scan_stop c i) = i" "es_command_start (scan_uncertain c i) = i"
  "es_command_start (scan_split c i s) = i" "es_has_split_string (scan_split c i s)"
  "es_options_uncertain (scan_uncertain c i)" "\<not> es_has_split_string (scan_stop c i)"
  "\<not> es_options_uncertain (scan_stop c i)"
  by (simp_all add: scan_stop_def scan_uncertain_def scan_split_def)

lemma env_action_start:
  assumes "env_action_of tok rest i chdir = EnvDone scan"
  shows "i \<le> es_command_start scan"
  using assms unfolding env_action_of_def env_long_action_def env_short_action_def
  by (auto simp: Let_def split: if_splits option.splits env_short.splits)

lemma env_loop_start: "i \<le> es_command_start (env_loop l i chdir)"
proof (induction l i chdir rule: env_loop.induct)
  case (2 tok rest i chdir)
  show ?case
  proof (cases "env_action_of tok rest i chdir")
    case (EnvDone scan)
    then show ?thesis using env_action_start[OF EnvDone] by simp
  next
    case (EnvNext c)
    then show ?thesis using 2(1)[OF EnvNext] by simp
  next
    case (EnvOperand d)
    show ?thesis
    proof (cases rest)
      case (Cons v r)
      then show ?thesis using 2(2)[OF EnvOperand Cons] EnvOperand by simp
    qed (use EnvOperand in simp)
  qed
qed simp

lemma wrapper_start_head:
  assumes "wrapper_start head cmd = Some i"
  shows "head \<in> set (map lit [''timeout'', ''nice'', ''ionice'', ''chrt'', ''stdbuf'', ''env''])"
proof (rule ccontr)
  assume "\<not> ?thesis"
  then have "head \<noteq> lit ''timeout''" "head \<noteq> lit ''nice''" "head \<noteq> lit ''ionice''"
    "head \<noteq> lit ''chrt''" "head \<noteq> lit ''stdbuf''" "head \<noteq> lit ''env''"
    by simp_all
  then have "wrapper_start head cmd = None" unfolding wrapper_start_def by (simp only: if_False simp_thms)
  with assms show False by simp
qed

lemma if_SomeE:
  assumes "(if c then a else b) = Some i"
  obtains c "a = Some i" | "\<not> c" "b = Some i"
  using assms by (cases c) auto

lemma wrapper_start_pos:
  assumes "wrapper_start head cmd = Some i"
  shows "0 < i"
proof -
  have s: "0 < i" if "Some (skip_options two l 1) = Some i" for two l
    using that skip_options_ge[of 1 two l] by simp
  have e: "0 < i" if "Some (es_command_start (env_scan_words cmd)) = Some i"
    using that env_loop_start[of 1 "drop 1 cmd" None] by (simp add: env_scan_words_def)
  have t: "0 < i" if "Some (n + 1) = Some i" for n using that by simp
  show ?thesis
    using assms unfolding wrapper_start_def Let_def
    by (elim if_SomeE s e t) (erule option.distinct(1)[THEN notE] option.distinct(2)[THEN notE])+
qed

lemma strip_wrapper_drop:
  assumes "strip_wrapper_command cmd = Some v"
  obtains k where "0 < k" "k < length cmd" "v = drop k cmd"
proof -
  obtain h i where i: "wrapper_start h cmd = Some i" "i < length cmd" "v = drop i cmd"
    using assms by (auto simp: strip_wrapper_command_def split: option.splits if_splits)
  with wrapper_start_pos[OF i(1)] that show ?thesis by simp
qed

lemma exec_loop_ge: "exec_loop l i = Inr j \<Longrightarrow> i \<le> j"
proof (induction l i rule: exec_loop.induct)
  case (2 tok rest i)
  then show ?case by (cases rest) (force split: if_splits)+
qed simp

lemma command_loop_ge: "command_loop l i = Inr j \<Longrightarrow> i \<le> j"
  by (induction l i rule: command_loop.induct) (force split: if_splits)+

lemma if_neqI: "a \<noteq> x \<Longrightarrow> b \<noteq> x \<Longrightarrow> (if c then a else b) \<noteq> x"
  by simp

lemma exec_loop_not_peeled: "exec_loop l i \<noteq> Inl (Peeled v)"
proof (induction l arbitrary: i rule: length_induct)
  case (1 l)
  show ?case
  proof (cases l)
    case (Cons tok rest)
    have r: "exec_loop rest j \<noteq> Inl (Peeled v)" for j using 1 Cons by simp
    have "(case rest of v # rest \<Rightarrow> if v \<noteq> [0] \<and> v \<noteq> [] then exec_loop rest (i + 2) else Inl Ambiguous
            | [] \<Rightarrow> Inl Ambiguous) \<noteq> Inl (Peeled v)"
      using 1 Cons by (cases rest) simp_all
    with r show ?thesis unfolding Cons exec_loop.simps by (intro if_neqI) simp_all
  qed simp
qed

lemma command_loop_not_peeled: "command_loop l i \<noteq> Inl (Peeled v)"
proof (induction l arbitrary: i)
  case (Cons tok rest)
  show ?case unfolding command_loop.simps by (intro if_neqI Cons) simp_all
qed simp

lemma strip_transparent_drop:
  assumes "strip_transparent_prefix cmd = Peeled v"
  obtains k where "0 < k" "k < length cmd" "v = drop k cmd"
proof -
  have "\<exists>k. 0 < k \<and> k < length cmd \<and> v = drop k cmd" if "strip_exec_prefix cmd = Peeled v"
    using that exec_loop_ge[of "drop 1 cmd" 1] exec_loop_not_peeled
    by (auto simp: strip_exec_prefix_def peel_from_def Suc_le_eq split: sum.splits if_splits)
  moreover have "\<exists>k. 0 < k \<and> k < length cmd \<and> v = drop k cmd" if "strip_command_prefix cmd = Peeled v"
    using that command_loop_ge[of "drop 1 cmd" 1] command_loop_not_peeled
    by (auto simp: strip_command_prefix_def peel_from_def Suc_le_eq split: sum.splits if_splits)
  moreover have "\<exists>k. 0 < k \<and> k < length cmd \<and> v = drop k cmd" if "strip_builtin_prefix cmd = Peeled v"
  proof -
    have "drop 1 cmd \<noteq> []" "v = drop 1 cmd"
      using that by (auto simp: strip_builtin_prefix_def split: list.splits if_splits)
    then show ?thesis by (intro exI[of _ 1]) auto
  qed
  ultimately show ?thesis
    using assms that by (auto simp: strip_transparent_prefix_def Let_def split: list.splits if_splits)
qed

lemma peel_step_drop:
  assumes "peel_step w v"
  obtains k where "0 < k" "k < length w" "v = drop k w"
  using assms by (cases rule: peel_step.cases) (auto elim: strip_wrapper_drop strip_transparent_drop)

lemma wrapper_not_transparent:
  assumes "strip_wrapper_command w = Some v"
  shows "strip_transparent_prefix w = NotPrefix" "is_wrapper_command w"
proof -
  obtain h t where w: "w = h # t" using assms by (cases w) (auto simp: strip_wrapper_command_def head_name_def)
  obtain i where "wrapper_start (last_segment h) w = Some i"
    using assms unfolding w strip_wrapper_command_def head_name_def
    by (auto split: option.splits if_splits)
  then have "last_segment h \<in> set (map lit [''timeout'', ''nice'', ''ionice'', ''chrt'', ''stdbuf'', ''env''])"
    by (rule wrapper_start_head)
  then show "strip_transparent_prefix w = NotPrefix" "is_wrapper_command w"
    unfolding w by (auto simp: strip_transparent_prefix_def is_wrapper_command_def head_name_def lit_def)
qed

lemma peel_step_deterministic: "peel_step w u \<Longrightarrow> peel_step w v \<Longrightarrow> u = v"
  using wrapper_not_transparent(1) by (auto simp: peel_step_iff)

lemma peel_normal_form_unique:
  assumes "peels w u" "\<nexists>x. peel_step u x" "peels w v" "\<nexists>x. peel_step v x"
  shows "u = v"
  using assms(1,3)
proof (induction rule: converse_rtranclp_induct)
  case base
  then show ?case using assms(2) by (metis converse_rtranclpE)
next
  case (step y z)
  from step(4) show ?case
  proof (cases rule: converse_rtranclpE)
    case base
    then show ?thesis using assms(4) step(1) by blast
  next
    case (step y')
    then show ?thesis using \<open>peels y' v\<close> step.IH peel_step_deterministic[OF \<open>peel_step y z\<close>] by blast
  qed
qed

lemma peels_suffix: "peels w v \<Longrightarrow> \<exists>k. v = drop k w"
proof (induction rule: rtranclp_induct)
  case base
  show ?case by (rule exI[of _ 0]) simp
next
  case (step y z)
  then show ?case by (metis drop_drop peel_step_drop)
qed

lemma unwrap_loop_peels: "peels w (cw_words (unwrap_loop n w c s u))"
proof (induction n arbitrary: w c s u)
  case (Suc n)
  show ?case
  proof (cases "strip_wrapper_command w")
    case (Some v)
    have "peel_step w v" by (rule peel_step.wrapper[OF Some])
    then show ?thesis using Suc Some by (simp add: Let_def converse_rtranclp_into_rtranclp)
  qed (simp add: Let_def)
qed simp

lemma peel_loop_peels: "peel_loop n w = Some v \<Longrightarrow> peels w v"
proof (induction n arbitrary: w)
  case (Suc n)
  then show ?case
    by (auto split: transparent_strip.splits intro: converse_rtranclp_into_rtranclp peel_step.transparent)
qed (auto split: transparent_strip.splits)

lemma normalize_loop_peels: "peels (nc_words st) (nc_words (normalize_loop n st))"
proof (induction n arbitrary: st)
  case (Suc n)
  let ?w = "cw_words (unwrap_wrappers_checked (nc_words st))"
  have w: "peels (nc_words st) ?w" by (simp add: unwrap_wrappers_checked_def unwrap_loop_peels)
  have "peels ?w v" if "peel_transparent_prefixes ?w = Some v" for v
    using that peel_loop_peels by (simp add: peel_transparent_prefixes_def)
  then have "peels (nc_words st) v" if "peel_transparent_prefixes ?w = Some v" for v
    using that w by (meson rtranclp_trans)
  moreover have "peels (nc_words st) (nc_words (normalize_loop n st'))"
    if "peel_transparent_prefixes ?w = Some (nc_words st')" for st'
    using calculation[OF that] Suc[of st'] by (rule rtranclp_trans)
  ultimately show ?case using w by (simp add: Let_def split: option.splits)
qed simp

text \<open>A result the gates may trust: nothing forced the peeling to stop.\<close>

definition clean_peel :: "normalized_command_peel \<Rightarrow> bool" where
  "clean_peel n \<longleftrightarrow> \<not> nc_exhausted n \<and> \<not> nc_ambiguous n \<and> \<not> nc_has_split_string n \<and> \<not> nc_env_options_uncertain n"

lemma clean_peel_normal:
  assumes "clean_peel (normalize_command_words words)"
  shows "peels words (nc_words (normalize_command_words words))"
    "strip_transparent_prefix (nc_words (normalize_command_words words)) = NotPrefix"
    "\<nexists>v. peel_step (nc_words (normalize_command_words words)) v"
proof -
  let ?n = "normalize_command_words words"
  let ?init = "\<lparr>nc_words = words, nc_has_chdir = False, nc_has_split_string = False,
    nc_env_options_uncertain = False, nc_exhausted = False, nc_ambiguous = False\<rparr>"
  let ?st = "normalize_loop MAX_NORMALIZE_ROUNDS ?init"
  have "nc_words ?n = nc_words ?st" by (simp add: normalize_command_words_def Let_def)
  then show "peels words (nc_words ?n)" using normalize_loop_peels[of ?init] by simp
  have "strip_wrapper_command (nc_words ?n) = None \<and> strip_transparent_prefix (nc_words ?n) = NotPrefix"
    using assms wrapper_not_transparent(2)[of "nc_words ?st"]
    by (cases "strip_wrapper_command (nc_words ?st)")
      (auto simp: clean_peel_def normalize_command_words_def Let_def split: if_splits)
  then show "strip_transparent_prefix (nc_words ?n) = NotPrefix" "\<nexists>v. peel_step (nc_words ?n) v"
    by (auto simp: peel_step_iff)
qed

section \<open>Properties\<close>

text \<open>
  C26. When none of the four stop flags is set, bounded peeling has reached the end: the normalised words
  are a suffix of the command obtained by taking off layers, no layer can be taken off them any more, and
  they are the only such word list that taking off layers can reach.
\<close>

theorem normalize_command_words_normal_form:
  assumes "clean_peel (normalize_command_words words)"
  shows "peels words (nc_words (normalize_command_words words)) \<and>
    (\<exists>k. nc_words (normalize_command_words words) = drop k words) \<and>
    (\<nexists>v. peel_step (nc_words (normalize_command_words words)) v) \<and>
    strip_transparent_prefix (nc_words (normalize_command_words words)) = NotPrefix \<and>
    (\<forall>v. peels words v \<and> (\<nexists>u. peel_step v u) \<longrightarrow> v = nc_words (normalize_command_words words))"
  using clean_peel_normal[OF assms] peels_suffix peel_normal_form_unique by blast

definition wrapped_rm :: "ustr list" where
  "wrapped_rm = map lit [''timeout'', ''30'', ''command'', ''env'', ''A=1'', ''rm'', ''x'']"

lemmas peel_eval = head_name_def last_segment_def lit_def strip_wrapper_command_def wrapper_start_def env_scan_words_def
  env_action_of_def env_long_action_def env_short_action_def scan_stop_def is_env_assignment_def
  is_ascii_alpha_def is_ascii_digit_def starts_with_def strip_transparent_prefix_def
  strip_command_prefix_def peel_from_def is_wrapper_command_def

lemma wrapped_rm_normal:
  "normalize_command_words wrapped_rm =
     \<lparr>nc_words = map lit [''rm'', ''x''], nc_has_chdir = False, nc_has_split_string = False,
      nc_env_options_uncertain = False, nc_exhausted = False, nc_ambiguous = False\<rparr>"
  by (simp add: normalize_command_words_def wrapped_rm_def MAX_NORMALIZE_ROUNDS_def MAX_WRAPPER_DEPTH_def
      MAX_TRANSPARENT_PREFIX_DEPTH_def unwrap_wrappers_checked_def peel_transparent_prefixes_def
      eval_nat_numeral Let_def peel_eval)

theorem normalize_command_words_normal_form_witness:
  "\<nexists>v. peel_step (nc_words (normalize_command_words wrapped_rm)) v"
  using normalize_command_words_normal_form[of wrapped_rm]
  by (simp add: wrapped_rm_normal clean_peel_def)

subsection \<open>The round budget\<close>

definition nice_command :: "ustr list" where
  "nice_command = [lit ''nice'', lit ''command'']"

definition packed_env :: "ustr list" where
  "packed_env = [lit ''env'', lit ''-S'', lit ''rm $HOME'']"

text \<open>As many alternating layers as there are rounds, around an \<open>env -S\<close>.\<close>

definition layered_env :: "nat \<Rightarrow> ustr list" where
  "layered_env n = concat (replicate n nice_command) @ packed_env"

lemma layered_env_head: "\<exists>r. layered_env n = lit ''nice'' # r \<or> layered_env n = lit ''env'' # r"
  by (cases n) (auto simp: layered_env_def nice_command_def packed_env_def)

lemma layered_env_Suc: "layered_env (Suc n) = lit ''nice'' # lit ''command'' # layered_env n"
  by (simp add: layered_env_def nice_command_def)

lemma head_names:
  "last_segment (lit ''nice'') = lit ''nice''" "last_segment (lit ''env'') = lit ''env''"
  "last_segment (lit ''command'') = lit ''command''"
  by (simp_all add: last_segment_def lit_def)

lemma strip_nice:
  "strip_wrapper_command (lit ''nice'' # lit ''command'' # r) = Some (lit ''command'' # r)"
proof -
  have "\<not> starts_with (lit ''command'') [DASH]" by (simp add: lit_def starts_with_def)
  then show ?thesis
    by (simp add: strip_wrapper_command_def head_name_def head_names wrapper_start_def lit_inject)
qed

lemma strip_command_none: "strip_wrapper_command (lit ''command'' # r) = None"
  by (simp add: strip_wrapper_command_def head_name_def head_names wrapper_start_def lit_inject)

lemma unwrap_layer:
  "unwrap_wrappers_checked (lit ''nice'' # lit ''command'' # r) =
     \<lparr>cw_words = lit ''command'' # r, cw_has_chdir = False, cw_has_split_string = False,
      cw_env_options_uncertain = False, cw_exhausted = False\<rparr>"
proof -
  have e: "lit ''nice'' \<noteq> lit ''env''" "lit ''command'' \<noteq> lit ''env''" by (simp_all add: lit_def)
  obtain n where m: "MAX_WRAPPER_DEPTH = Suc (Suc n)" by (simp add: MAX_WRAPPER_DEPTH_def numeral_eq_Suc)
  show ?thesis unfolding unwrap_wrappers_checked_def m
    by (simp add: strip_nice strip_command_none Let_def head_name_def head_names e)
qed

lemma layered_not_prefix: "strip_transparent_prefix (layered_env n) = NotPrefix"
  using layered_env_head[of n]
  by (elim exE disjE) (simp_all add: strip_transparent_prefix_def head_names, simp_all add: lit_def)

lemma peel_layer: "peel_transparent_prefixes (lit ''command'' # layered_env n) = Some (layered_env n)"
proof -
  have ne: "layered_env n \<noteq> []" using layered_env_head[of n] by auto
  have "command_loop (layered_env n) 1 = Inr 1"
    using layered_env_head[of n] by (elim exE disjE) (simp_all add: lit_def starts_with_def)
  with ne have "strip_command_prefix (lit ''command'' # layered_env n) = Peeled (layered_env n)"
    by (simp add: strip_command_prefix_def peel_from_def)
  moreover have "lit ''command'' \<noteq> lit ''exec''" "lit ''command'' \<noteq> [0]" "lit ''command'' \<noteq> []"
    by (simp_all add: lit_def)
  ultimately have "strip_transparent_prefix (lit ''command'' # layered_env n) = Peeled (layered_env n)"
    by (simp add: strip_transparent_prefix_def head_names)
  moreover obtain m where m: "MAX_TRANSPARENT_PREFIX_DEPTH = Suc (Suc m)"
    by (simp add: MAX_TRANSPARENT_PREFIX_DEPTH_def numeral_eq_Suc)
  ultimately show ?thesis unfolding peel_transparent_prefixes_def m by (simp add: layered_not_prefix)
qed

lemma packed_env_scan: "env_scan_words packed_env = scan_split None 1 None"
proof -
  have c: "classify_env_short (lit ''-S'') = SplitStringNext"
    by (simp add: classify_env_short_def lit_def starts_with_def)
  have d: "decode_env_option_token (lit ''-S'') = lit ''-S''"
    by (simp add: decode_env_option_token_def lit_def)
  have p: "take_high_confidence_payload (lit ''rm $HOME'') = None"
    by (simp add: take_high_confidence_payload_def is_high_confidence_env_s_payload_def lit_def)
  have "lit ''-S'' \<noteq> lit ''--''" "lit ''-S'' \<noteq> lit ''-''" by (simp_all add: lit_inject)
  moreover have "starts_with (lit ''-S'') (lit ''-'')" "\<not> starts_with (lit ''-S'') (lit ''--'')"
    by (simp_all add: lit_def starts_with_def)
  ultimately show ?thesis
    by (simp add: packed_env_def env_scan_words_def env_action_of_def env_short_action_def c d p)
qed

lemma normalize_layers:
  assumes "nc_words st = layered_env n" "\<not> nc_has_split_string st" "\<not> nc_env_options_uncertain st"
  shows "normalize_loop n st = st\<lparr>nc_words := packed_env\<rparr>"
  using assms
proof (induction n arbitrary: st)
  case 0
  then show ?case by (simp add: layered_env_def)
next
  case (Suc n)
  have "nc_words st = lit ''nice'' # lit ''command'' # layered_env n" using Suc.prems(1) by (simp only: layered_env_Suc)
  then have "normalize_loop (Suc n) st = normalize_loop n (st\<lparr>nc_words := layered_env n\<rparr>)"
    using Suc.prems(2,3) by (cases st) (simp add: unwrap_layer peel_layer Let_def)
  also have "\<dots> = st\<lparr>nc_words := packed_env\<rparr>"
    using Suc.IH[of "st\<lparr>nc_words := layered_env n\<rparr>"] Suc.prems(2,3) by simp
  finally show ?case .
qed

text \<open>
  C27. The budget of rounds has a blind spot: after exactly as many rounds as there are, a packed
  \<open>env -S\<close> is left as the command and no flag is raised, because the last check only asks whether a
  layer could still be taken off. The payload here is one the gates cannot recurse into either.
\<close>

theorem normalize_round_budget_blind_spot:
  "\<exists>words. clean_peel (normalize_command_words words) \<and>
     es_has_split_string (env_scan_words (nc_words (normalize_command_words words))) \<and>
     env_split_string_script (nc_words (normalize_command_words words)) = None"
proof -
  let ?w = "layered_env MAX_NORMALIZE_ROUNDS"
  have none: "strip_wrapper_command packed_env = None"
    using packed_env_scan
    by (simp add: packed_env_def strip_wrapper_command_def wrapper_start_def head_name_def head_names lit_inject)
  have "strip_transparent_prefix packed_env = NotPrefix"
    using layered_not_prefix[of 0] by (simp add: layered_env_def)
  then have n: "normalize_command_words ?w = \<lparr>nc_words = packed_env, nc_has_chdir = False, nc_has_split_string = False,
      nc_env_options_uncertain = False, nc_exhausted = False, nc_ambiguous = False\<rparr>"
    by (simp add: normalize_command_words_def normalize_layers none)
  have "es_has_split_string (env_scan_words packed_env)" "env_split_string_script packed_env = None"
    using packed_env_scan
    by (simp_all add: env_split_string_script_def scan_split_def)
  with n show ?thesis by (intro exI[of _ ?w]) (simp add: clean_peel_def)
qed

end
