(* ===== verification/Bash_Tree.thy ===== *)
theory Bash_Tree
  imports Bash_Words "HOL-Library.Product_Lexorder" "HOL-Library.Multiset"
begin

text \<open>
  Decomposition of a script into plain commands, and the soft breaks of its display: the walks over the
  syntax tree of
  \<open>crates/codegen/xai-grok-workspace/src/permission/bash_command_splitting.rs\<close>.

  The tree-sitter parser is the parameter \<open>parse\<close> (\<open>None\<close> when it gives up); its trees are values of
  the type \<open>node\<close>, with the kind, the name of the field the node fills in its parent, the byte range, the
  children and the error flag the code reads.
\<close>

section \<open>Trees and commands\<close>

datatype node =
  Node (nd_kind: ustr) (nd_field: "ustr option") (nd_named: bool) (nd_start: nat) (nd_end: nat) (nd_has_error: bool)
    (nd_children: "node list")

primrec node_weight :: "node \<Rightarrow> nat" where
  "node_weight (Node k f nm a b e cs) = Suc (sum_list (map node_weight cs))"

lemma node_weight_children: "sum_list (map node_weight (nd_children n)) < node_weight n"
  by (cases n) simp

text \<open>\<open>Node::utf8_text\<close>: the text of the node's byte range when that is UTF-8.\<close>

definition utf8_text :: "ustr \<Rightarrow> node \<Rightarrow> ustr option" where
  "utf8_text src n =
     (if nd_start n = nd_end n \<and> nd_end n \<le> byte_len src then Some []
      else str_range src (nd_start n) (nd_end n))"

record plain_command =
  pl_words :: "ustr list"
  pl_span_start :: nat
  pl_span_end :: nat

definition spans_whole_script :: "plain_command \<Rightarrow> ustr \<Rightarrow> bool" where
  "spans_whole_script c script =
     (case (str_to script (pl_span_start c), str_from script (pl_span_end c)) of
        (Some before, Some after) \<Rightarrow> trim before = [] \<and> trim after = []
      | _ \<Rightarrow> False)"

section \<open>Plain commands\<close>

definition ALLOWED_KINDS :: "ustr list" where
  "ALLOWED_KINDS = map lit
     [''program'', ''list'', ''pipeline'', ''command'', ''command_name'', ''word'', ''string'',
      ''string_content'', ''raw_string'', ''number'', ''concatenation'', ''variable_assignment'',
      ''variable_name'', ''redirected_statement'', ''file_redirect'', ''file_descriptor'', ''comment'',
      ''heredoc_redirect'', ''heredoc_start'', ''heredoc_body'', ''heredoc_content'', ''heredoc_end'']"

definition ALLOWED_PUNCT_TOKENS :: "ustr list" where
  "ALLOWED_PUNCT_TOKENS = map lit
     [''&&'', ''||'', '';'', ''|'', [CHR 0x22], [CHR 0x27], ''='', ''>'', ''>>'', ''<'', ''<<'', ''>&'',
      ''&>'', ''&>>'']"

definition node_allowed :: "node \<Rightarrow> bool" where
  "node_allowed n =
     (let kind = nd_kind n in
      if nd_named n then kind \<in> set ALLOWED_KINDS
      else \<not> (list_ex (\<lambda>c. c \<in> set (lit ''&;|'')) kind \<and> kind \<notin> set ALLOWED_PUNCT_TOKENS) \<and>
           (kind \<in> set ALLOWED_PUNCT_TOKENS \<or> trim kind = []))"

definition is_command_node :: "node \<Rightarrow> bool" where
  "is_command_node n \<longleftrightarrow> nd_named n \<and> nd_kind n = lit ''command''"

text \<open>The loop over the stack, whose top is the head of the list.\<close>

function command_walk :: "node list \<Rightarrow> node list \<Rightarrow> node list option" where
  "command_walk [] cmds = Some cmds"
| "command_walk (n # stack) cmds =
     (if \<not> node_allowed n then None
      else command_walk (rev (nd_children n) @ stack) (if is_command_node n then cmds @ [n] else cmds))"
  by pat_completeness auto
termination
  by (relation "measure (\<lambda>(stack, _). sum_list (map node_weight stack))")
    (auto simp: rev_map[symmetric] node_weight_children)

text \<open>What one named child of a command adds: nothing, or a word and the node of its span.\<close>

definition command_child :: "ustr \<Rightarrow> node \<Rightarrow> (ustr \<times> node) option option" where
  "command_child src c =
     (let kind = nd_kind c in
      if kind = lit ''variable_assignment'' then Some None
      else if kind = lit ''command_name''
      then (case filter nd_named (nd_children c) of
              [] \<Rightarrow> None
            | w # _ \<Rightarrow>
                if nd_kind w \<noteq> lit ''word'' then None
                else map_option (\<lambda>t. Some (t, w)) (utf8_text src w))
      else if kind = lit ''word'' \<or> kind = lit ''number'' then map_option (\<lambda>t. Some (t, c)) (utf8_text src c)
      else if kind = lit ''string''
      then (case nd_children c of
              [q, content, q'] \<Rightarrow>
                if nd_kind q = [DQUOTE] \<and> nd_kind content = lit ''string_content'' \<and> nd_kind q' = [DQUOTE]
                then map_option (\<lambda>t. Some (t, c)) (utf8_text src content)
                else None
            | _ \<Rightarrow> None)
      else if kind = lit ''raw_string''
      then (case utf8_text src c of
              None \<Rightarrow> None
            | Some raw \<Rightarrow>
                map_option (\<lambda>t. Some (t, c)) (Option.bind (strip_prefix [SQUOTE] raw) (strip_suffix [SQUOTE])))
      else if kind = lit ''concatenation'' then map_option (\<lambda>t. Some (t, c)) (utf8_text src c)
      else None)"

fun command_children ::
  "ustr \<Rightarrow> node list \<Rightarrow> ustr list \<Rightarrow> nat option \<Rightarrow> nat option \<Rightarrow> (ustr list \<times> nat option \<times> nat option) option"
where
  "command_children src [] words span_start span_end = Some (words, span_start, span_end)"
| "command_children src (c # cs) words span_start span_end =
     (case command_child src c of
        None \<Rightarrow> None
      | Some None \<Rightarrow> command_children src cs words span_start span_end
      | Some (Some (t, n)) \<Rightarrow>
          command_children src cs (words @ [t])
            (if span_start = None then Some (nd_start n) else span_start) (Some (nd_end n)))"

definition parse_plain_command_from_node :: "ustr \<Rightarrow> node \<Rightarrow> plain_command option" where
  "parse_plain_command_from_node src cmd =
     (if nd_kind cmd \<noteq> lit ''command'' then None
      else (case command_children src (filter nd_named (nd_children cmd)) [] None None of
              None \<Rightarrow> None
            | Some (words, s, e) \<Rightarrow>
                Some \<lparr>pl_words = words,
                      pl_span_start = (case s of Some i \<Rightarrow> i | None \<Rightarrow> nd_start cmd),
                      pl_span_end = (case e of Some i \<Rightarrow> i | None \<Rightarrow> nd_end cmd)\<rparr>))"

definition try_parse_word_only_commands_sequence :: "node \<Rightarrow> ustr \<Rightarrow> plain_command list option" where
  "try_parse_word_only_commands_sequence root src =
     (if nd_has_error root then None
      else (case command_walk [root] [] of
              None \<Rightarrow> None
            | Some command_nodes \<Rightarrow>
                those (map (parse_plain_command_from_node src) (sort_key nd_start command_nodes))))"

definition all_commands_from_script :: "(ustr \<Rightarrow> node option) \<Rightarrow> ustr \<Rightarrow> plain_command list option" where
  "all_commands_from_script parse script =
     Option.bind (parse script) (\<lambda>tree. try_parse_word_only_commands_sequence tree script)"

section \<open>The highlighted command\<close>

record bash_command_highlights =
  hl_prefix :: "ustr list"
  hl_words :: "ustr list"
  hl_suffix :: "ustr list"

definition flush_word :: "ustr list \<Rightarrow> ustr \<Rightarrow> ustr list" where
  "flush_word result current = (if current \<noteq> [] then result @ [current] else result)"

fun sh_split_loop :: "ustr \<Rightarrow> bool \<Rightarrow> bool \<Rightarrow> ustr \<Rightarrow> ustr list \<Rightarrow> ustr list" where
  "sh_split_loop [] in_single in_double current result = flush_word result current"
| "sh_split_loop (c # cs) in_single in_double current result =
     (if c = SQUOTE \<and> \<not> in_double then sh_split_loop cs (\<not> in_single) in_double current result
      else if c = DQUOTE \<and> \<not> in_single then sh_split_loop cs in_single (\<not> in_double) current result
      else if c = BSL
      then (case cs of
              n # cs \<Rightarrow> sh_split_loop cs in_single in_double (current @ [n]) result
            | [] \<Rightarrow> flush_word result current)
      else if is_ws c \<and> \<not> in_single \<and> \<not> in_double
      then sh_split_loop cs in_single in_double [] (flush_word result current)
      else sh_split_loop cs in_single in_double (current @ [c]) result)"

definition sh_split_simple :: "ustr \<Rightarrow> ustr list" where
  "sh_split_simple s = sh_split_loop s False False [] []"

definition is_primary :: "plain_command \<Rightarrow> bool" where
  "is_primary c = (let peeled = unwrap_wrappers (pl_words c) in \<not> (peeled = [] \<or> is_setup_command peeled))"

definition primary_command_from_script ::
  "(ustr \<Rightarrow> node option) \<Rightarrow> ustr \<Rightarrow> bash_command_highlights option"
where
  "primary_command_from_script parse script =
     (case all_commands_from_script parse script of
        None \<Rightarrow> None
      | Some commands \<Rightarrow>
          (case find is_primary commands of
             None \<Rightarrow> None
           | Some primary \<Rightarrow>
               (let peeled_off = length (pl_words primary) - length (unwrap_wrappers (pl_words primary)) in
                case (str_to script (pl_span_start primary), str_from script (pl_span_end primary)) of
                  (Some prefix, Some suffix) \<Rightarrow>
                    Some \<lparr>hl_prefix = sh_split_simple prefix @ take peeled_off (pl_words primary),
                          hl_words = drop peeled_off (pl_words primary),
                          hl_suffix = sh_split_simple suffix\<rparr>
                | _ \<Rightarrow> None)))"

section \<open>Soft breaks\<close>

definition PAYLOAD_NODE_KINDS :: "ustr list" where
  "PAYLOAD_NODE_KINDS = map lit
     [''heredoc_body'', ''simple_heredoc_body'', ''heredoc_content'', ''heredoc_end'', ''string'',
      ''raw_string'', ''string_content'', ''ansi_c_string'', ''translated_string'', ''comment'']"

definition is_soft_break_operator_kind :: "ustr \<Rightarrow> bool" where
  "is_soft_break_operator_kind kind \<longleftrightarrow> kind \<in> set (map lit [''&&'', ''||'', ''|'', '';''])"

definition is_payload_node_kind :: "ustr \<Rightarrow> bool" where
  "is_payload_node_kind kind \<longleftrightarrow> kind \<in> set PAYLOAD_NODE_KINDS"

function break_walk :: "ustr \<Rightarrow> node list \<Rightarrow> nat list \<Rightarrow> nat list" where
  "break_walk script [] breaks = breaks"
| "break_walk script (n # stack) breaks =
     (if is_payload_node_kind (nd_kind n) then break_walk script stack breaks
      else break_walk script (nd_children n @ stack)
             (if is_soft_break_operator_kind (nd_kind n) \<and>
                 0 < nd_end n \<and> nd_end n \<le> byte_len script \<and> is_char_boundary script (nd_end n)
              then breaks @ [nd_end n] else breaks))"
  by pat_completeness auto
termination
proof (relation "measure (\<lambda>(_, stack, _). sum_list (map node_weight stack))")
  show "((script, stack, breaks), (script, n # stack, breaks))
     \<in> measure (\<lambda>(_, stack, _). sum_list (map node_weight stack))" for script stack breaks and n :: node
    by (cases n) simp
qed (simp_all add: node_weight_children)

definition soft_break_offsets_after_operators :: "(ustr \<Rightarrow> node option) \<Rightarrow> ustr \<Rightarrow> nat list" where
  "soft_break_offsets_after_operators parse script =
     (case parse script of
        None \<Rightarrow> []
      | Some root \<Rightarrow>
          if nd_has_error root then [] else remdups_adj (sort (break_walk script [root] [])))"

definition HEREDOC_PAYLOAD :: "ustr list" where
  "HEREDOC_PAYLOAD = map lit [''heredoc_body'', ''simple_heredoc_body'', ''heredoc_content'']"

function heredoc_walk :: "ustr \<Rightarrow> node list \<Rightarrow> (nat \<times> nat) list \<Rightarrow> (nat \<times> nat) list" where
  "heredoc_walk script [] ranges = ranges"
| "heredoc_walk script (n # stack) ranges =
     (if nd_kind n \<in> set HEREDOC_PAYLOAD
      then heredoc_walk script stack
             (if nd_start n < nd_end n \<and> nd_end n \<le> byte_len script
              then ranges @ [(nd_start n, nd_end n)] else ranges)
      else heredoc_walk script (nd_children n @ stack) ranges)"
  by pat_completeness auto
termination
proof (relation "measure (\<lambda>(_, stack, _). sum_list (map node_weight stack))")
  show "((script, stack, r'), (script, n # stack, ranges))
     \<in> measure (\<lambda>(_, stack, _). sum_list (map node_weight stack))"
    for script stack ranges r' and n :: node
    by (cases n) simp
qed (simp_all add: node_weight_children)

definition heredoc_payload_byte_ranges :: "(ustr \<Rightarrow> node option) \<Rightarrow> ustr \<Rightarrow> (nat \<times> nat) list" where
  "heredoc_payload_byte_ranges parse script =
     (case parse script of
        None \<Rightarrow> []
      | Some root \<Rightarrow>
          if nd_has_error root then [] else remdups_adj (sort (heredoc_walk script [root] [])))"

definition range_fully_inside :: "nat \<Rightarrow> nat \<Rightarrow> (nat \<times> nat) list \<Rightarrow> bool" where
  "range_fully_inside s e ranges \<longleftrightarrow> \<not> e < s \<and> list_ex (\<lambda>(rs, re). s \<ge> rs \<and> e \<le> re) ranges"

text \<open>The loop that cuts a text at the offsets, and the rest after the last cut.\<close>

fun cut_loop :: "ustr \<Rightarrow> nat list \<Rightarrow> nat \<Rightarrow> ustr list \<Rightarrow> ustr list \<times> nat" where
  "cut_loop s [] start out = (out, start)"
| "cut_loop s (b # bs) start out =
     (if b > start \<and> b \<le> byte_len s \<and> str_range s start b \<noteq> None
      then cut_loop s bs b (out @ [the (str_range s start b)])
      else cut_loop s bs start out)"

definition cut_at :: "ustr \<Rightarrow> nat list \<Rightarrow> ustr list" where
  "cut_at s breaks =
     (let (out, start) = cut_loop s breaks 0 [] in
      if start < byte_len s \<and> str_from s start \<noteq> None then out @ [the (str_from s start)] else out)"

definition split_physical_line_at_soft_breaks :: "ustr \<Rightarrow> nat \<Rightarrow> nat list \<Rightarrow> ustr list" where
  "split_physical_line_at_soft_breaks line line_start breaks =
     (let line_end = line_start + byte_len line;
          rel = remdups_adj (filter (is_char_boundary line)
                  (map (\<lambda>b. b - line_start) (filter (\<lambda>b. b > line_start \<and> b < line_end) breaks)))
      in if rel = [] then [line]
         else (let chunks = cut_at line rel in if chunks = [] then [line] else chunks))"

definition soft_break_chunks :: "(ustr \<Rightarrow> node option) \<Rightarrow> ustr \<Rightarrow> ustr list" where
  "soft_break_chunks parse script =
     (let breaks = soft_break_offsets_after_operators parse script in
      if breaks = [] then [script] else cut_at script breaks)"

section \<open>Facts\<close>

subsection \<open>The command walk\<close>

text \<open>All nodes of a tree, in the order the stack visits them.\<close>

primrec subnodes :: "node \<Rightarrow> node list" where
  "subnodes (Node k f nm a b e cs) = Node k f nm a b e cs # concat (rev (map subnodes cs))"

lemma command_walk_spec:
  "command_walk stack cmds =
     (if list_all node_allowed (concat (map subnodes stack))
      then Some (cmds @ filter is_command_node (concat (map subnodes stack))) else None)"
proof (induction stack cmds rule: command_walk.induct)
  case (2 n stack cmds)
  have "subnodes n = n # concat (map subnodes (rev (nd_children n)))" by (cases n) (simp add: rev_map)
  then show ?case using 2 by auto
qed simp

lemma those_Some_iff: "those xs = Some ys \<longleftrightarrow> xs = map Some ys"
proof (induction xs arbitrary: ys)
  case (Cons x xs)
  then show ?case by (cases x; cases ys) (auto split: option.splits)
qed auto

subsection \<open>Offsets\<close>

lemma str_range_iff: "str_range s i j = Some m \<longleftrightarrow> (\<exists>a b. s = a @ m @ b \<and> byte_len a = i \<and> j = i + byte_len m)"
proof
  assume "str_range s i j = Some m"
  then obtain pre b a where "s = pre @ b" "byte_len pre = j" "pre = a @ m" "byte_len a = i"
    by (auto simp: str_range_def bind_eq_Some_conv str_to_iff str_from_iff split: if_splits)
  then show "\<exists>a b. s = a @ m @ b \<and> byte_len a = i \<and> j = i + byte_len m" by (intro exI[of _ a] exI[of _ b]) auto
next
  assume "\<exists>a b. s = a @ m @ b \<and> byte_len a = i \<and> j = i + byte_len m"
  then obtain a b where "s = (a @ m) @ b" "byte_len a = i" "j = i + byte_len m" by auto
  then have "str_to s j = Some (a @ m)" "str_from (a @ m) i = Some m" "i \<le> j"
    by (auto simp only: str_to_iff str_from_iff byte_len_simps)
  then show "str_range s i j = Some m" by (simp add: str_range_def)
qed

lemma boundary_iff: "is_char_boundary s n \<longleftrightarrow> (\<exists>a b. s = a @ b \<and> byte_len a = n)"
  by (auto simp: is_char_boundary_def split_at_byte_iff)

lemma boundary_unique: "a @ b = a' @ b' \<Longrightarrow> byte_len a = byte_len a' \<Longrightarrow> a = a'"
  by (metis prod.inject option.inject split_at_byte_iff)

lemma str_range_boundaries:
  assumes "is_char_boundary s i" "is_char_boundary s j" "i \<le> j"
  obtains m where "str_range s i j = Some m"
proof -
  obtain a b a' b' where s: "s = a @ b" "byte_len a = i" "s = a' @ b'" "byte_len a' = j"
    using assms(1,2) unfolding boundary_iff by blast
  consider m where "a' = a @ m" "b = m @ b'" | m where "a = a' @ m" "b' = m @ b"
    using s(1,3) by (auto simp: append_eq_append_conv2)
  then show ?thesis
  proof cases
    case 1
    then have "str_range s i j = Some m" using s by (auto simp: str_range_iff)
    then show ?thesis by (rule that)
  next
    case 2
    with s assms(3) have "m = []" by (metis add_le_same_cancel1 byte_len_0 byte_len_simps(3) le_zero_eq)
    with 2 s have "str_range s i j = Some []" by (auto simp: str_range_iff)
    then show ?thesis by (rule that)
  qed
qed

subsection \<open>Cutting\<close>

lemma cut_loop_inv:
  assumes "cut_loop s bs start out = (out', start')" "str_to s start = Some (concat out)"
  shows "str_to s start' = Some (concat out') \<and> (\<exists>more. out' = out @ more)"
  using assms
proof (induction s bs start out arbitrary: out' start' rule: cut_loop.induct)
  case (2 s b bs start out)
  show ?case
  proof (cases "b > start \<and> b \<le> byte_len s \<and> str_range s start b \<noteq> None")
    case True
    then obtain m where m: "str_range s start b = Some m" by auto
    obtain r where r: "s = concat out @ r" "byte_len (concat out) = start" using 2(4) by (auto simp: str_to_iff)
    obtain a c where ac: "s = a @ m @ c" "byte_len a = start" "b = start + byte_len m"
      using m by (auto simp: str_range_iff)
    have "a = concat out" using r ac boundary_unique by metis
    then have "str_to s b = Some (concat (out @ [m]))" using ac by (auto simp: str_to_iff)
    with 2(1)[OF True] 2(3) True m show ?thesis by auto
  next
    case False
    with 2(2)[OF False] 2(3,4) show ?thesis by auto
  qed
qed auto

lemma cut_at_concat: "concat (cut_at s breaks) = s"
proof -
  obtain out start where c: "cut_loop s breaks 0 [] = (out, start)" by fastforce
  have "str_to s start = Some (concat out)" using cut_loop_inv[OF c] by (simp add: str_to_iff)
  then obtain r where r: "s = concat out @ r" "byte_len (concat out) = start" by (auto simp: str_to_iff)
  then have "str_from s start = Some r" by (auto simp: str_from_iff)
  then show ?thesis using c r by (auto simp: cut_at_def)
qed

lemma cut_loop_hits:
  assumes "sorted (start # bs)" "distinct (start # bs)" "list_all (is_char_boundary s) bs"
    "str_to s start = Some (concat out)" "cut_loop s bs start out = (out', start')" "b \<in> set bs"
  shows "\<exists>k. byte_len (concat (take k out')) = b"
  using assms
proof (induction bs arbitrary: start out)
  case (Cons c bs)
  have "start < c" "is_char_boundary s c" "is_char_boundary s start" using Cons.prems
    by (auto simp: str_to_iff boundary_iff order_less_le)
  then obtain m where m: "str_range s start c = Some m" using str_range_boundaries[of s start c] by auto
  have "c \<le> byte_len s" using \<open>is_char_boundary s c\<close> by (auto simp: boundary_iff)
  with m \<open>start < c\<close> have run: "cut_loop s bs c (out @ [m]) = (out', start')" using Cons.prems(5) by simp
  have "cut_loop s [c] start out = (out @ [m], c)" using m \<open>start < c\<close> \<open>c \<le> byte_len s\<close> by simp
  from cut_loop_inv[OF this Cons.prems(4)] have inv: "str_to s c = Some (concat (out @ [m]))" by simp
  show ?case
  proof (cases "b = c")
    case True
    obtain more where "out' = (out @ [m]) @ more" using cut_loop_inv[OF run inv] by auto
    then have "take (length (out @ [m])) out' = out @ [m]" by simp
    then show ?thesis using inv True by (metis str_to_iff)
  next
    case False
    then show ?thesis using Cons.IH[OF _ _ _ inv run] Cons.prems by auto
  qed
qed simp

lemma sorted_remdups_adj_distinct: "sorted (xs :: 'a :: linorder list) \<Longrightarrow> distinct (remdups_adj xs)"
proof (induction xs rule: remdups_adj.induct)
  case (3 x y xs)
  show ?case
  proof (cases "x = y")
    case False
    with 3(3) have "x \<notin> set (y # xs)" by auto
    with False 3 show ?thesis by simp
  qed (use 3 in simp)
qed simp_all

lemma break_walk_boundaries:
  "list_all (\<lambda>b. 0 < b \<and> is_char_boundary script b) breaks \<Longrightarrow>
   list_all (\<lambda>b. 0 < b \<and> is_char_boundary script b) (break_walk script stack breaks)"
  by (induction script stack breaks rule: break_walk.induct) auto

lemma soft_breaks_valid:
  "list_all (\<lambda>b. 0 < b \<and> is_char_boundary script b) (soft_break_offsets_after_operators parse script)"
  "sorted (soft_break_offsets_after_operators parse script)"
  "distinct (soft_break_offsets_after_operators parse script)"
  using break_walk_boundaries[of script "[]"]
  by (auto simp: soft_break_offsets_after_operators_def list_all_iff sorted_remdups_adj
      sorted_remdups_adj_distinct simp del: break_walk.simps split: option.splits)

section \<open>Properties\<close>

text \<open>
  C25. No command of a script escapes the permission checks: a script is decomposed only when its tree has
  no error and every node of it is of an allowed kind, and then the plain commands are, in source order,
  exactly the readings of all the command nodes of the tree, at any depth.
\<close>

theorem word_only_commands_complete:
  assumes "all_commands_from_script parse script = Some cmds"
  shows "\<exists>root ns. parse script = Some root \<and> \<not> nd_has_error root \<and>
    (\<forall>n \<in> set (subnodes root). node_allowed n) \<and>
    mset ns = mset (filter is_command_node (subnodes root)) \<and> sorted (map nd_start ns) \<and>
    map (parse_plain_command_from_node script) ns = map Some cmds"
proof -
  obtain root where root: "parse script = Some root"
    and t: "try_parse_word_only_commands_sequence root script = Some cmds"
    using assms by (auto simp: all_commands_from_script_def bind_eq_Some_conv)
  let ?ns = "sort_key nd_start (filter is_command_node (subnodes root))"
  have "\<not> nd_has_error root" "list_all node_allowed (subnodes root)"
    "map (parse_plain_command_from_node script) ?ns = map Some cmds"
    using t by (auto simp: try_parse_word_only_commands_sequence_def command_walk_spec those_Some_iff
        split: if_splits)
  then show ?thesis using root by (intro exI[of _ root] exI[of _ ?ns]) (simp add: list_all_iff)
qed

definition leaf :: "string \<Rightarrow> bool \<Rightarrow> nat \<Rightarrow> nat \<Rightarrow> node" where
  "leaf k nm a b = Node (lit k) None nm a b False []"

definition word_command :: "nat \<Rightarrow> nat \<Rightarrow> node" where
  "word_command a b =
     Node (lit ''command'') None True a b False
       [Node (lit ''command_name'') (Some (lit ''name'')) True a b False [leaf ''word'' True a b]]"

text \<open>The tree of \<open>a&&b\<close>.\<close>

definition and_parse :: "ustr \<Rightarrow> node option" where
  "and_parse s =
     (if s = lit ''a&&b''
      then Some (Node (lit ''program'') None True 0 4 False
             [Node (lit ''list'') None True 0 4 False [word_command 0 1, leaf ''&&'' False 1 3, word_command 3 4]])
      else None)"

lemmas tree_eval = and_parse_def word_command_def leaf_def lit_def all_commands_from_script_def
  try_parse_word_only_commands_sequence_def node_allowed_def ALLOWED_KINDS_def ALLOWED_PUNCT_TOKENS_def
  is_command_node_def parse_plain_command_from_node_def command_child_def utf8_text_def str_range_def
  str_to_def str_from_def utf8_len_def

lemma and_parse_commands:
  "map_option (map pl_words) (all_commands_from_script and_parse (lit ''a&&b'')) = Some [[lit ''a''], [lit ''b'']]"
  by (simp add: tree_eval)

theorem word_only_commands_complete_witness:
  "\<exists>cmds root ns. all_commands_from_script and_parse (lit ''a&&b'') = Some cmds \<and> length cmds = 2 \<and>
    and_parse (lit ''a&&b'') = Some root \<and> mset ns = mset (filter is_command_node (subnodes root)) \<and>
    map (parse_plain_command_from_node (lit ''a&&b'')) ns = map Some cmds"
proof -
  obtain cmds where c: "all_commands_from_script and_parse (lit ''a&&b'') = Some cmds"
    "map pl_words cmds = [[lit ''a''], [lit ''b'']]"
    using and_parse_commands by auto
  then have "length cmds = 2" by (metis length_map length_Cons list.size(3) numeral_2_eq_2)
  with c(1) word_only_commands_complete[OF c(1)] show ?thesis by blast
qed

text \<open>
  Soft breaks only cut the text: the pieces of a script put together are the script, the pieces of a
  line put together are the line, and the script is cut at every offset found after an operator.
\<close>

lemma soft_break_cuts:
  "concat (soft_break_chunks parse script) = script \<and>
   concat (split_physical_line_at_soft_breaks line line_start breaks) = line \<and>
   (\<forall>b \<in> set (soft_break_offsets_after_operators parse script).
      \<exists>k. byte_len (concat (take k (soft_break_chunks parse script))) = b)"
proof (intro conjI ballI)
  show "concat (soft_break_chunks parse script) = script"
    by (simp add: soft_break_chunks_def Let_def cut_at_concat)
  show "concat (split_physical_line_at_soft_breaks line line_start breaks) = line"
    by (simp add: split_physical_line_at_soft_breaks_def Let_def cut_at_concat)
  fix b
  let ?bs = "soft_break_offsets_after_operators parse script"
  assume b: "b \<in> set ?bs"
  obtain out start where c: "cut_loop script ?bs 0 [] = (out, start)" by fastforce
  have "\<exists>k. byte_len (concat (take k out)) = b"
    using cut_loop_hits[OF _ _ _ _ c b] soft_breaks_valid[where script = script and parse = parse]
    by (auto simp: list_all_iff str_to_iff)
  then obtain k where k: "byte_len (concat (take k out)) = b" by blast
  have "concat (take (min k (length out)) (soft_break_chunks parse script)) = concat (take k out)"
    using b c by (auto simp: soft_break_chunks_def cut_at_def Let_def min_def)
  with k show "\<exists>k. byte_len (concat (take k (soft_break_chunks parse script))) = b" by metis
qed

lemma soft_break_cuts_witness:
  "soft_break_offsets_after_operators and_parse (lit ''a&&b'') = [3] \<and>
   (\<exists>k. byte_len (concat (take k (soft_break_chunks and_parse (lit ''a&&b'')))) = 3)"
proof -
  have "soft_break_offsets_after_operators and_parse (lit ''a&&b'') = [3]"
    by (simp add: soft_break_offsets_after_operators_def and_parse_def word_command_def leaf_def lit_def
        is_payload_node_kind_def PAYLOAD_NODE_KINDS_def is_soft_break_operator_kind_def
        is_char_boundary_def utf8_len_def)
  with soft_break_cuts[of and_parse "lit ''a&&b''" "[]" 0 "[]"] show ?thesis by simp
qed

end
