(* ===== verification/Exec_Risk.thy ===== *)
theory Exec_Risk
  imports Bash_Words Rust_Path "HOL-Library.List_Lexorder"
begin

text \<open>
  Execution risk of shell requests (\<open>crates/codegen/xai-grok-workspace/src/permission/exec_risk.rs\<close>): flags
  of \<open>git\<close> and \<open>sort\<close> that run programs, read-only \<open>git\<close> queries, and the directories whose local \<open>git\<close>
  configuration has to be read; and the neutralised content filters of
  \<open>crates/codegen/xai-grok-workspace/src/git_content_filters.rs\<close>.

  \<open>libgit2\<close> and the file system are the record \<open>git_host\<close>: discovery of a repository, the entries of its
  configuration, whether a file can be read, and the parser of booleans.
\<close>

section \<open>Peeling to a fixed point\<close>

text \<open>
  \<open>None\<close> is \<open>FailClosed\<close>. Every slice is a suffix of the words, so the pointer and length comparisons are
  comparisons of lengths.
\<close>

fun normalize_risk_loop :: "nat \<Rightarrow> ustr list \<Rightarrow> ustr list option" where
  "normalize_risk_loop 0 current = None"
| "normalize_risk_loop (Suc n) current =
     (let checked = unwrap_wrappers_checked current in
      if cw_exhausted checked \<or> cw_has_split_string checked \<or> cw_has_chdir checked then None
      else (let after_wrap = cw_words checked in
            case peel_transparent_prefixes after_wrap of
              None \<Rightarrow> None
            | Some after_trans \<Rightarrow>
                if length after_trans = length current then Some after_trans
                else if length after_trans = length after_wrap then Some after_trans
                else normalize_risk_loop n after_trans))"

definition normalize_for_exec_risk :: "ustr list \<Rightarrow> ustr list option" where
  "normalize_for_exec_risk words = normalize_risk_loop MAX_NORMALIZE_ROUNDS words"

section \<open>Programs and flags\<close>

definition is_accepted_long_option_prefix :: "ustr \<Rightarrow> ustr \<Rightarrow> nat \<Rightarrow> bool" where
  "is_accepted_long_option_prefix flag full min_len \<longleftrightarrow>
     starts_with flag (lit ''--'') \<and> byte_len flag \<ge> min_len \<and> starts_with full flag \<and>
     list_all (\<lambda>b. is_ascii_alpha b \<or> is_ascii_digit b \<or> b = DASH) flag"

definition strip_exe :: "ustr \<Rightarrow> ustr" where
  "strip_exe name = (case strip_suffix (lit ''.exe'') name of Some stem \<Rightarrow> stem | None \<Rightarrow> name)"

definition normalized_token_basename :: "ustr \<Rightarrow> ustr" where
  "normalized_token_basename token = strip_exe (map ascii_lower (last_segment token))"

definition normalized_program_name :: "ustr list \<Rightarrow> ustr option" where
  "normalized_program_name words =
     (case words of
        [] \<Rightarrow> None
      | raw # _ \<Rightarrow>
          if last_segment raw = [] then None else Some (strip_exe (map ascii_lower (last_segment raw))))"

definition is_git_program :: "ustr list \<Rightarrow> bool" where
  "is_git_program words \<longleftrightarrow> normalized_program_name words = Some (lit ''git'')"

definition is_sort_program :: "ustr list \<Rightarrow> bool" where
  "is_sort_program words \<longleftrightarrow> normalized_program_name words = Some (lit ''sort'')"

abbreviation EQ :: uchar where "EQ \<equiv> 61"

text \<open>The text before the first \<open>=\<close>, or all of it.\<close>

definition flag_part :: "ustr \<Rightarrow> ustr" where
  "flag_part tok = takeWhile (\<lambda>c. c \<noteq> EQ) tok"

fun sort_flag_loop :: "ustr list \<Rightarrow> bool" where
  "sort_flag_loop [] = False"
| "sort_flag_loop (w # ws) =
     (if w = lit ''--'' then False
      else if w = lit ''--compress-program'' \<or> starts_with w (lit ''--compress-program='') then True
      else if is_accepted_long_option_prefix (flag_part w) (lit ''--compress-program'') 4 then True
      else sort_flag_loop ws)"

definition sort_has_compress_program_flag :: "ustr list \<Rightarrow> bool" where
  "sort_has_compress_program_flag words = sort_flag_loop (drop 1 words)"

definition is_git_config_env_flag :: "ustr \<Rightarrow> bool" where
  "is_git_config_env_flag tok \<longleftrightarrow>
     tok = lit ''--config-env'' \<or> starts_with tok (lit ''--config-env='') \<or>
     is_accepted_long_option_prefix (flag_part tok) (lit ''--config-env'') 4"

definition is_git_repo_retarget_flag :: "ustr \<Rightarrow> bool" where
  "is_git_repo_retarget_flag tok \<longleftrightarrow>
     tok = lit ''--git-dir'' \<or> starts_with tok (lit ''--git-dir='') \<or>
     tok = lit ''--work-tree'' \<or> starts_with tok (lit ''--work-tree='') \<or>
     is_accepted_long_option_prefix (flag_part tok) (lit ''--git-dir'') 4 \<or>
     is_accepted_long_option_prefix (flag_part tok) (lit ''--work-tree'') 4"

definition is_attached_git_config_c :: "ustr \<Rightarrow> bool" where
  "is_attached_git_config_c tok \<longleftrightarrow>
     starts_with tok (lit ''-c'') \<and> byte_len tok > 2 \<and> \<not> starts_with tok (lit ''--'')"

definition attached_git_c_path :: "ustr \<Rightarrow> ustr option" where
  "attached_git_c_path tok =
     (case strip_prefix (lit ''-C'') tok of
        Some rest \<Rightarrow> if rest \<noteq> [] \<and> \<not> starts_with tok (lit ''--'') then Some rest else None
      | None \<Rightarrow> None)"

definition git_global_option_takes_value :: "ustr \<Rightarrow> bool" where
  "git_global_option_takes_value tok \<longleftrightarrow>
     tok \<in> set (map lit [''-C'', ''-c'', ''--git-dir'', ''--work-tree'', ''--namespace'', ''--super-prefix'',
                         ''--exec-path'', ''--list-cmds'', ''--attr-source'', ''--config-env'']) \<or>
     is_accepted_long_option_prefix tok (lit ''--config-env'') 4 \<or>
     is_accepted_long_option_prefix tok (lit ''--git-dir'') 4 \<or>
     is_accepted_long_option_prefix tok (lit ''--work-tree'') 4 \<or>
     is_accepted_long_option_prefix tok (lit ''--namespace'') 7 \<or>
     is_accepted_long_option_prefix tok (lit ''--super-prefix'') 8 \<or>
     is_accepted_long_option_prefix tok (lit ''--exec-path'') 7 \<or>
     is_accepted_long_option_prefix tok (lit ''--list-cmds'') 7 \<or>
     is_accepted_long_option_prefix tok (lit ''--attr-source'') 8"

text \<open>Whether the option takes the next word with it: the guard both loops over the globals share.\<close>

definition global_takes_next :: "ustr \<Rightarrow> ustr list \<Rightarrow> bool" where
  "global_takes_next tok rest \<longleftrightarrow>
     EQ \<notin> set tok \<and> git_global_option_takes_value tok \<and>
     (case rest of n # _ \<Rightarrow> \<not> starts_with n [DASH] \<or> n = [DASH] | [] \<Rightarrow> False)"

definition is_git_config_flag :: "ustr \<Rightarrow> bool" where
  "is_git_config_flag tok \<longleftrightarrow>
     tok = lit ''-c'' \<or> is_attached_git_config_c tok \<or> is_git_config_env_flag tok \<or>
     is_git_repo_retarget_flag tok"

function git_risk_loop :: "ustr list \<Rightarrow> bool" where
  "git_risk_loop [] = False"
| "git_risk_loop (tok # rest) =
     (if tok = lit ''--'' then False
      else if \<not> starts_with tok [DASH] \<or> tok = [DASH] then False
      else if is_git_config_flag tok then True
      else if attached_git_c_path tok \<noteq> None then git_risk_loop rest
      else git_risk_loop (if global_takes_next tok rest then drop 1 rest else rest))"
  by pat_completeness auto
termination by (relation "measure length") auto

definition git_has_exec_risk_global :: "ustr list \<Rightarrow> bool" where
  "git_has_exec_risk_global words = git_risk_loop (drop 1 words)"

definition segment_has_exec_risk_flag :: "ustr list \<Rightarrow> bool" where
  "segment_has_exec_risk_flag words =
     (if is_sort_program words then sort_has_compress_program_flag words
      else if is_git_program words then git_has_exec_risk_global words
      else False)"

record segment_exec_facts =
  sf_exec_risk :: bool
  sf_has_git :: bool

definition segment_exec_facts_of :: "ustr list \<Rightarrow> segment_exec_facts" where
  "segment_exec_facts_of words =
     (case normalize_for_exec_risk words of
        None \<Rightarrow> \<lparr>sf_exec_risk = True, sf_has_git = False\<rparr>
      | Some inner \<Rightarrow> \<lparr>sf_exec_risk = segment_has_exec_risk_flag inner, sf_has_git = is_git_program inner\<rparr>)"

section \<open>Read-only queries\<close>

definition SAFE_GIT_SUBCOMMANDS :: "ustr list" where
  "SAFE_GIT_SUBCOMMANDS = map lit
     [''status'', ''branch'', ''log'', ''diff'', ''ls-files'', ''show'', ''rev-parse'', ''blame'', ''grep'',
      ''describe'', ''merge-base'', ''check-ignore'', ''check-attr'', ''cat-file'', ''ls-tree'', ''show-ref'',
      ''for-each-ref'', ''rev-list'', ''name-rev'', ''count-objects'', ''shortlog'']"

definition GIT_QUERY_UNSAFE_OPTIONS :: "ustr list" where
  "GIT_QUERY_UNSAFE_OPTIONS = map lit
     [''--filters'', ''--textconv'', ''--output'', ''--ext-diff'', ''--open-files-in-pager'']"

definition git_query_option_is_unsafe :: "ustr \<Rightarrow> bool" where
  "git_query_option_is_unsafe word =
     (let flag = flag_part word in
      byte_len flag > 2 \<and> list_ex (\<lambda>full. starts_with full flag) GIT_QUERY_UNSAFE_OPTIONS)"

text \<open>The loop over the index: the words from \<open>i\<close> on, and \<open>i\<close>.\<close>

function verb_index_loop :: "ustr list \<Rightarrow> nat \<Rightarrow> nat option" where
  "verb_index_loop [] i = None"
| "verb_index_loop (tok # rest) i =
     (if tok = [DASH] \<or> tok = lit ''--'' then None
      else if \<not> starts_with tok [DASH] then Some i
      else if tok = lit ''-C'' then verb_index_loop (drop 1 rest) (i + 2)
      else if attached_git_c_path tok \<noteq> None \<or> tok = lit ''--no-pager'' \<or> tok = lit ''-P''
      then verb_index_loop rest (i + 1)
      else None)"
  by pat_completeness auto
termination by (relation "measure (length \<circ> fst)") auto

definition git_safe_query_verb_index :: "ustr list \<Rightarrow> nat option" where
  "git_safe_query_verb_index words = verb_index_loop (drop 1 words) 1"

definition word_at :: "'a list \<Rightarrow> nat \<Rightarrow> 'a option" where
  "word_at words i = (if i < length words then Some (words ! i) else None)"

definition git_words_have_unsafe_query_option :: "ustr list \<Rightarrow> bool" where
  "git_words_have_unsafe_query_option words =
     (if word_at words 0 \<noteq> Some (lit ''git'') then False
      else if list_ex git_query_option_is_unsafe (drop 1 words) then True
      else (case git_safe_query_verb_index words of
              Some i \<Rightarrow> word_at words i = Some (lit ''grep'')
            | None \<Rightarrow> False) \<and>
           list_ex (\<lambda>w. starts_with w (lit ''-O'')) (drop 1 words))"

definition git_words_are_read_only_query :: "ustr list \<Rightarrow> bool" where
  "git_words_are_read_only_query words =
     (if word_at words 0 \<noteq> Some (lit ''git'') then False
      else if git_has_exec_risk_global words then False
      else (case git_safe_query_verb_index words of
              None \<Rightarrow> False
            | Some verb_idx \<Rightarrow>
                (case word_at words verb_idx of
                   Some w \<Rightarrow> w \<in> set SAFE_GIT_SUBCOMMANDS \<and> \<not> git_words_have_unsafe_query_option words
                 | None \<Rightarrow> False)))"

section \<open>Local configuration\<close>

definition rsplit_once_dot :: "ustr \<Rightarrow> (ustr \<times> ustr) option" where
  "rsplit_once_dot s =
     (if 46 \<in> set s
      then Some (rev (drop 1 (dropWhile (\<lambda>c. c \<noteq> 46) (rev s))), rev (takeWhile (\<lambda>c. c \<noteq> 46) (rev s)))
      else None)"

definition same_ascii :: "ustr \<Rightarrow> ustr \<Rightarrow> bool" where
  "same_ascii a b \<longleftrightarrow> map ascii_lower a = map ascii_lower b"

definition filter_command_driver :: "ustr \<Rightarrow> ustr option" where
  "filter_command_driver name =
     (case str_to name 7 of
        None \<Rightarrow> None
      | Some head \<Rightarrow>
          if \<not> same_ascii head (lit ''filter.'') then None
          else (case str_from name 7 of
                  None \<Rightarrow> None
                | Some rest \<Rightarrow>
                    (case rsplit_once_dot rest of
                       None \<Rightarrow> None
                     | Some (driver, prop) \<Rightarrow>
                         if driver \<noteq> [] \<and>
                            (same_ascii prop (lit ''clean'') \<or> same_ascii prop (lit ''smudge'') \<or>
                             same_ascii prop (lit ''process''))
                         then Some driver else None)))"

definition filter_driver_name_is_pinnable :: "ustr \<Rightarrow> bool" where
  "filter_driver_name_is_pinnable driver =
     (case driver of
        [] \<Rightarrow> False
      | c # cs \<Rightarrow>
          (is_ascii_alpha c \<or> is_ascii_digit c) \<and>
          list_all (\<lambda>c. is_ascii_alpha c \<or> is_ascii_digit c \<or> c = 95 \<or> c = DASH) cs)"

definition local_includeif_unsupported :: "ustr \<Rightarrow> bool" where
  "local_includeif_unsupported name =
     (case str_to name 10 of
        None \<Rightarrow> False
      | Some head \<Rightarrow>
          if \<not> same_ascii head (lit ''includeif.'') then False
          else (let rest = (case str_from name 10 of Some r \<Rightarrow> r | None \<Rightarrow> []);
                    condition = takeWhile (\<lambda>c. c \<noteq> 58) rest
                in map ascii_lower condition \<notin> set (map lit [''gitdir'', ''gitdir/i'', ''onbranch''])))"

datatype config_level = LevelLocal | LevelWorktree | LevelOther

text \<open>An entry of the configuration: \<open>ce_name\<close> and \<open>ce_value\<close> are \<open>None\<close> when they are not UTF-8.\<close>

record config_entry =
  ce_level :: config_level
  ce_name :: "ustr option"
  ce_has_value :: bool
  ce_value :: "ustr option"

record git_repo =
  gr_path :: ustr
  gr_commondir :: ustr
  gr_config :: "(config_entry option) list option"

datatype discovery = Discovered git_repo | DiscoverNotFound | DiscoverErr

datatype open_result = OpenNotFound | OpenErr | Opened "bool option"

record git_host =
  gh_discover :: "ustr \<Rightarrow> discovery"
  gh_open :: "ustr \<Rightarrow> open_result"
  gh_parse_bool :: "ustr \<Rightarrow> bool option"

definition path_unreadable :: "git_host \<Rightarrow> ustr \<Rightarrow> bool" where
  "path_unreadable h path =
     (case gh_open h path of
        Opened (Some is_file) \<Rightarrow> \<not> is_file
      | Opened None \<Rightarrow> True
      | OpenNotFound \<Rightarrow> False
      | OpenErr \<Rightarrow> True)"

fun entries_loop :: "config_entry option list \<Rightarrow> (ustr \<times> ustr) list \<Rightarrow> (ustr \<times> ustr) list option" where
  "entries_loop [] out = Some out"
| "entries_loop (None # es) out = None"
| "entries_loop (Some e # es) out =
     (if ce_level e = LevelOther then entries_loop es out
      else (case ce_name e of
              None \<Rightarrow> None
            | Some name \<Rightarrow>
                if local_includeif_unsupported name then None
                else if ce_has_value e
                then (case ce_value e of
                        Some v \<Rightarrow> entries_loop es (out @ [(name, v)])
                      | None \<Rightarrow> if filter_command_driver name \<noteq> None then None else entries_loop es out)
                else if filter_command_driver name \<noteq> None then None
                else entries_loop es (out @ [(name, lit ''true'')])))"

definition read_local_git_config_entries :: "git_host \<Rightarrow> ustr \<Rightarrow> (ustr \<times> ustr) list option" where
  "read_local_git_config_entries h cwd =
     (case gh_discover h cwd of
        DiscoverNotFound \<Rightarrow> Some []
      | DiscoverErr \<Rightarrow> None
      | Discovered repo \<Rightarrow>
          if path_unreadable h (path_join (gr_commondir repo) (lit ''config'')) \<or>
             path_unreadable h (path_join (gr_path repo) (lit ''config'')) \<or>
             path_unreadable h (path_join (gr_path repo) (lit ''config.worktree''))
          then None
          else (case gr_config repo of None \<Rightarrow> None | Some entries \<Rightarrow> entries_loop entries []))"

fun drivers_loop :: "(ustr \<times> ustr) list \<Rightarrow> ustr list \<Rightarrow> ustr list option" where
  "drivers_loop [] drivers = Some drivers"
| "drivers_loop ((name, v) # es) drivers =
     (if trim v = [] then drivers_loop es drivers
      else (case filter_command_driver name of
              None \<Rightarrow> drivers_loop es drivers
            | Some driver \<Rightarrow>
                if \<not> filter_driver_name_is_pinnable driver then None
                else drivers_loop es (if driver \<in> set drivers then drivers else insort driver drivers)))"

definition local_content_filter_drivers :: "git_host \<Rightarrow> ustr \<Rightarrow> ustr list option" where
  "local_content_filter_drivers h cwd =
     Option.bind (read_local_git_config_entries h cwd) (\<lambda>entries. drivers_loop entries [])"

definition driver_pins :: "ustr \<Rightarrow> ustr list" where
  "driver_pins driver =
     [lit ''filter.'' @ driver @ lit ''.clean='', lit ''filter.'' @ driver @ lit ''.smudge='',
      lit ''filter.'' @ driver @ lit ''.process='', lit ''filter.'' @ driver @ lit ''.required=false'']"

definition content_filter_config_pins :: "git_host \<Rightarrow> ustr \<Rightarrow> ustr list option" where
  "content_filter_config_pins h cwd =
     map_option (\<lambda>drivers. concat (map driver_pins drivers)) (local_content_filter_drivers h cwd)"

definition local_git_config_entry_is_exec :: "git_host \<Rightarrow> ustr \<Rightarrow> ustr \<Rightarrow> bool" where
  "local_git_config_entry_is_exec h name value =
     (let name = map ascii_lower name;
          value = trim value
      in if value = [] then False
         else if name = lit ''core.fsmonitor'' then gh_parse_bool h value = None
         else if name = lit ''diff.external'' then True
         else if (case strip_prefix (lit ''diff.'') name of
                    Some rest \<Rightarrow>
                      ends_with rest (lit ''.command'') \<or> ends_with rest (lit ''.textconv'') \<or>
                      ends_with rest (lit ''.external'')
                  | None \<Rightarrow> False) then True
         else if filter_command_driver name \<noteq> None then True
         else (case strip_prefix (lit ''alias.'') name of
                 Some alias \<Rightarrow> alias \<in> set SAFE_GIT_SUBCOMMANDS \<and> starts_with value [33]
               | None \<Rightarrow> False))"

definition local_repo_config_has_exec_risk :: "git_host \<Rightarrow> ustr \<Rightarrow> bool" where
  "local_repo_config_has_exec_risk h cwd =
     (case read_local_git_config_entries h cwd of
        None \<Rightarrow> True
      | Some entries \<Rightarrow> list_ex (\<lambda>(name, value). local_git_config_entry_is_exec h name value) entries)"

section \<open>Working directories\<close>

definition is_static_path_operand :: "ustr \<Rightarrow> bool" where
  "is_static_path_operand p \<longleftrightarrow>
     p \<noteq> [] \<and> p \<noteq> [DASH] \<and> \<not> starts_with p [DASH] \<and> 36 \<notin> set p \<and> 96 \<notin> set p \<and> \<not> contains p (lit ''$('')"

definition join_cwd :: "ustr \<Rightarrow> ustr \<Rightarrow> ustr" where
  "join_cwd base operand = (if is_absolute operand then operand else path_join base operand)"

text \<open>The operand of \<open>cd\<close>: \<open>None\<close> is the early return, \<open>Some None\<close> a loop that ends without a target.\<close>

fun chdir_operand :: "ustr list \<Rightarrow> ustr option \<Rightarrow> ustr option option" where
  "chdir_operand [] target = Some target"
| "chdir_operand (tok # args) target =
     (if tok = lit ''--'' then Some (case args of t # _ \<Rightarrow> Some t | [] \<Rightarrow> None)
      else if starts_with tok [DASH] then None
      else if target \<noteq> None then None
      else chdir_operand args (Some tok))"

definition apply_literal_chdir :: "ustr \<Rightarrow> ustr list \<Rightarrow> ustr option" where
  "apply_literal_chdir cwd words =
     (case chdir_operand (drop 1 words) None of
        Some (Some target) \<Rightarrow> if is_static_path_operand target then Some (join_cwd cwd target) else None
      | _ \<Rightarrow> None)"

function git_cwd_loop :: "ustr list \<Rightarrow> ustr \<Rightarrow> ustr option" where
  "git_cwd_loop [] cwd = Some cwd"
| "git_cwd_loop (tok # rest) cwd =
     (if tok = lit ''--'' \<or> \<not> starts_with tok [DASH] \<or> tok = [DASH] then Some cwd
      else if is_git_repo_retarget_flag tok then None
      else if tok = lit ''-C''
      then (case rest of
              [] \<Rightarrow> None
            | path # rest \<Rightarrow> if is_static_path_operand path then git_cwd_loop rest (join_cwd cwd path) else None)
      else (case attached_git_c_path tok of
              Some path \<Rightarrow> if is_static_path_operand path then git_cwd_loop rest (join_cwd cwd path) else None
            | None \<Rightarrow> git_cwd_loop (if global_takes_next tok rest then drop 1 rest else rest) cwd))"
  by pat_completeness auto
termination by (relation "measure (length \<circ> fst)") auto

definition git_effective_cwd :: "ustr list \<Rightarrow> ustr \<Rightarrow> ustr option" where
  "git_effective_cwd words start_cwd = git_cwd_loop (drop 1 words) start_cwd"

datatype ambient_scan_plan = PlanFailClosed | CheckDirs "ustr list"

fun scan_loop :: "ustr list list \<Rightarrow> ustr \<Rightarrow> ustr list \<Rightarrow> ambient_scan_plan" where
  "scan_loop [] cwd git_cwds = (if git_cwds = [] then PlanFailClosed else CheckDirs git_cwds)"
| "scan_loop (raw # segs) cwd git_cwds =
     (case normalize_for_exec_risk raw of
        None \<Rightarrow> PlanFailClosed
      | Some words \<Rightarrow>
          (let name = normalized_program_name words in
           if name = Some (lit ''cd'') \<or> name = Some (lit ''pushd'')
           then (case apply_literal_chdir cwd words of
                   Some cwd' \<Rightarrow> scan_loop segs cwd' git_cwds
                 | None \<Rightarrow> PlanFailClosed)
           else if name = Some (lit ''popd'') then PlanFailClosed
           else if name = Some (lit ''git'')
           then (case git_effective_cwd words cwd of
                   Some effective \<Rightarrow> scan_loop segs cwd (git_cwds @ [effective])
                 | None \<Rightarrow> PlanFailClosed)
           else scan_loop segs cwd git_cwds))"

definition ambient_scan_plan_from_segments :: "ustr list list \<Rightarrow> ustr \<Rightarrow> ambient_scan_plan" where
  "ambient_scan_plan_from_segments raw_segments session_cwd = scan_loop raw_segments session_cwd []"

definition ambient_exec_risk_from_plan :: "git_host \<Rightarrow> ambient_scan_plan \<Rightarrow> bool" where
  "ambient_exec_risk_from_plan h plan =
     (case plan of
        PlanFailClosed \<Rightarrow> True
      | CheckDirs dirs \<Rightarrow> list_ex (local_repo_config_has_exec_risk h) dirs)"

text \<open>\<open>str::split\<close> with a predicate, and \<open>trim_matches\<close>.\<close>

fun split_when :: "('a \<Rightarrow> bool) \<Rightarrow> 'a list \<Rightarrow> 'a list list" where
  "split_when P [] = [[]]"
| "split_when P (x # s) =
     (if P x then [] # split_when P s
      else (case split_when P s of [] \<Rightarrow> [[x]] | y # ys \<Rightarrow> (x # y) # ys))"

definition trim_matches :: "('a \<Rightarrow> bool) \<Rightarrow> 'a list \<Rightarrow> 'a list" where
  "trim_matches P s = rev (dropWhile P (rev (dropWhile P s)))"

definition token_break :: "uchar \<Rightarrow> bool" where
  "token_break c \<longleftrightarrow> is_ws c \<or> c \<in> set (lit ''|&;()'') \<or> c = 96 \<or> c = NL \<or> c \<in> set (lit ''<>'')"

definition script_may_invoke_git :: "ustr \<Rightarrow> bool" where
  "script_may_invoke_git cmd =
     list_ex (\<lambda>token.
       let trimmed = trim_matches (\<lambda>c. c = SQUOTE \<or> c = DQUOTE \<or> c = 96) token in
       trimmed \<noteq> [] \<and> normalized_token_basename trimmed = lit ''git'')
       (split_when token_break cmd)"

section \<open>The normal form\<close>

lemma unwrap_loop_normal:
  "\<not> cw_exhausted (unwrap_loop n w c s u) \<Longrightarrow> strip_wrapper_command (cw_words (unwrap_loop n w c s u)) = None"
proof (induction n arbitrary: w c s u)
  case 0
  then show ?case using wrapper_not_transparent(2) by (cases "strip_wrapper_command w") auto
next
  case (Suc n)
  then show ?case by (cases "strip_wrapper_command w") (simp_all add: Let_def)
qed

lemma peel_loop_normal: "peel_loop n w = Some v \<Longrightarrow> strip_transparent_prefix v = NotPrefix"
  by (induction n arbitrary: w) (auto split: transparent_strip.splits)

lemma normalize_risk_loop_normal:
  "normalize_risk_loop n w = Some v \<Longrightarrow>
     peels w v \<and> strip_wrapper_command v = None \<and> strip_transparent_prefix v = NotPrefix"
proof (induction n arbitrary: w)
  case (Suc n)
  let ?c = "unwrap_wrappers_checked w"
  obtain u where u: "peel_transparent_prefixes (cw_words ?c) = Some u" "\<not> cw_exhausted ?c"
    "(length u = length w \<or> length u = length (cw_words ?c)) \<and> v = u \<or> normalize_risk_loop n u = Some v"
    using Suc.prems by (auto simp: Let_def split: if_splits option.splits)
  have w: "peels w (cw_words ?c)" "strip_wrapper_command (cw_words ?c) = None"
    using unwrap_loop_peels unwrap_loop_normal u(2) by (simp_all add: unwrap_wrappers_checked_def)
  have p: "peels (cw_words ?c) u" "strip_transparent_prefix u = NotPrefix"
    using u(1) peel_loop_peels peel_loop_normal by (auto simp: peel_transparent_prefixes_def)
  have wu: "peels w u" using w(1) p(1) by (rule rtranclp_trans)
  show ?case
  proof (cases "normalize_risk_loop n u = Some v")
    case True
    then show ?thesis using Suc.IH wu by (meson rtranclp_trans)
  next
    case False
    then have v: "v = u" and len: "length u = length w \<or> length u = length (cw_words ?c)" using u(3) by auto
    obtain i j where i: "cw_words ?c = drop i w" and j: "u = drop j (cw_words ?c)"
      using peels_suffix w(1) p(1) by metis
    have "u = cw_words ?c" using i j len by (cases i; cases j) auto
    then show ?thesis using w p v by simp
  qed
qed simp

text \<open>
  The words on which execution risk is judged are never a half-peeled command: when the peeling answers,
  its answer comes from the request by taking off wrappers and shell prefixes, nothing more can be taken
  off, it is the only such word list, and it is what the permission gates match whenever they trust their
  own peeling. Otherwise the segment counts as risky.
\<close>

lemma exec_risk_normal_form:
  shows "case normalize_for_exec_risk words of
      Some v \<Rightarrow>
        peels words v \<and> (\<nexists>u. peel_step v u) \<and> (\<forall>u. peels words u \<and> (\<nexists>x. peel_step u x) \<longrightarrow> u = v) \<and>
        (clean_peel (normalize_command_words words) \<longrightarrow> nc_words (normalize_command_words words) = v) \<and>
        sf_exec_risk (segment_exec_facts_of words) = segment_has_exec_risk_flag v
    | None \<Rightarrow> sf_exec_risk (segment_exec_facts_of words)"
proof (cases "normalize_for_exec_risk words")
  case (Some v)
  have v: "peels words v" "\<nexists>u. peel_step v u"
    using normalize_risk_loop_normal Some by (auto simp: normalize_for_exec_risk_def peel_step_iff)
  then have unique: "\<forall>u. peels words u \<and> (\<nexists>x. peel_step u x) \<longrightarrow> u = v"
    using peel_normal_form_unique by blast
  have "nc_words (normalize_command_words words) = v" if c: "clean_peel (normalize_command_words words)"
    using unique clean_peel_normal(1,3)[OF c] by (metis (no_types, lifting))
  moreover have "sf_exec_risk (segment_exec_facts_of words) = segment_has_exec_risk_flag v"
    using Some by (simp add: segment_exec_facts_of_def)
  ultimately show ?thesis unfolding Some option.case using v unique by blast
qed (simp add: segment_exec_facts_of_def)

lemma exec_risk_normal_form_witness:
  "normalize_for_exec_risk wrapped_rm = Some (map lit [''rm'', ''x'']) \<and>
   (\<forall>u. peels wrapped_rm u \<and> (\<nexists>x. peel_step u x) \<longrightarrow> u = map lit [''rm'', ''x''])"
proof -
  have "normalize_for_exec_risk wrapped_rm = Some (map lit [''rm'', ''x''])"
    by (simp add: normalize_for_exec_risk_def wrapped_rm_def MAX_NORMALIZE_ROUNDS_def MAX_WRAPPER_DEPTH_def
      MAX_TRANSPARENT_PREFIX_DEPTH_def unwrap_wrappers_checked_def peel_transparent_prefixes_def
      eval_nat_numeral Let_def peel_eval)
  with exec_risk_normal_form[of wrapped_rm] show ?thesis by simp
qed

text \<open>
  An option of \<open>env\<close> that the scan does not know stops the peeling without the flag that fails closed: the
  command below runs \<open>git\<close> with a configuration that names a program, and is not reported.
\<close>

definition signal_env :: "ustr list" where
  "signal_env = map lit [''command'', ''env'', ''--default-signal'', ''git'', ''-c'', ''core.fsmonitor=/x'', ''status'']"

lemma env_uncertain_not_risky:
  "segment_exec_facts_of signal_env = \<lparr>sf_exec_risk = False, sf_has_git = False\<rparr>"
  "nc_env_options_uncertain (normalize_command_words signal_env)"
  "segment_has_exec_risk_flag (drop 3 signal_env)"
  by (simp_all add: signal_env_def segment_exec_facts_of_def normalize_for_exec_risk_def
      normalize_command_words_def MAX_NORMALIZE_ROUNDS_def
      MAX_WRAPPER_DEPTH_def MAX_TRANSPARENT_PREFIX_DEPTH_def unwrap_wrappers_checked_def
      peel_transparent_prefixes_def eval_nat_numeral Let_def peel_eval scan_uncertain_def
      segment_has_exec_risk_flag_def is_sort_program_def is_git_program_def normalized_program_name_def
      strip_exe_def strip_suffix_def ascii_lower_def git_has_exec_risk_global_def is_git_config_flag_def str_eval)

section \<open>Queries\<close>

text \<open>The global options a query may carry, with the directories they change to.\<close>

inductive query_globals :: "ustr list \<Rightarrow> ustr list \<Rightarrow> bool" where
  none: "query_globals [] []"
| chdir: "query_globals gs ps \<Longrightarrow> query_globals (lit ''-C'' # p # gs) (p # ps)"
| chdir_attached: "query_globals gs ps \<Longrightarrow> p \<noteq> [] \<Longrightarrow> query_globals ((lit ''-C'' @ p) # gs) (p # ps)"
| no_pager: "query_globals gs ps \<Longrightarrow> g = lit ''--no-pager'' \<or> g = lit ''-P'' \<Longrightarrow> query_globals (g # gs) ps"

lemma attached_iff: "attached_git_c_path tok = Some p \<longleftrightarrow> tok = lit ''-C'' @ p \<and> p \<noteq> []"
  by (auto simp: attached_git_c_path_def strip_prefix_Some_iff starts_with_iff lit_def
      split: option.splits if_splits)

lemma verb_loop_spec:
  "verb_index_loop ws i = Some j \<Longrightarrow>
     \<exists>gs ps verb args. ws = gs @ verb # args \<and> query_globals gs ps \<and> j = i + length gs \<and> \<not> starts_with verb [DASH]"
proof (induction ws i rule: verb_index_loop.induct)
  case (2 tok rest i)
  consider (verb) "\<not> starts_with tok [DASH]" "j = i"
    | (chdir) "tok = lit ''-C''" "verb_index_loop (drop 1 rest) (i + 2) = Some j"
    | (attached) p where "tok = lit ''-C'' @ p" "p \<noteq> []" "verb_index_loop rest (i + 1) = Some j"
    | (pager) "tok = lit ''--no-pager'' \<or> tok = lit ''-P''" "verb_index_loop rest (i + 1) = Some j"
    using "2.prems" by (auto simp: attached_iff split: if_splits)
  then show ?case
  proof cases
    case verb
    then show ?thesis
      by (intro exI[of _ "[]"] exI[of _ tok] exI[of _ rest]) (auto intro: query_globals.none)
  next
    case chdir
    then obtain p rest' where r: "rest = p # rest'" by (cases rest) auto
    have "tok \<noteq> [DASH] \<and> tok \<noteq> lit ''--'' \<and> starts_with tok [DASH]"
      using chdir(1) by (simp add: lit_def starts_with_def)
    then have "\<exists>gs ps verb args. drop 1 rest = gs @ verb # args \<and> query_globals gs ps \<and> j = i + 2 + length gs \<and>
        \<not> starts_with verb [DASH]"
      using "2.IH"(1) chdir by blast
    then show ?thesis using r chdir(1) query_globals.chdir[of _ _ p] by (metis (no_types, lifting) append_Cons
        add_Suc_right add_2_eq_Suc' drop_Suc_Cons drop0 length_Cons One_nat_def add_Suc)
  next
    case attached
    have a: "attached_git_c_path tok \<noteq> None" "starts_with tok [DASH]" "tok \<noteq> [DASH]" "tok \<noteq> lit ''--''" "tok \<noteq> lit ''-C''"
      using attached by (auto simp: attached_iff starts_with_iff lit_def)
    then obtain gs ps verb args where "rest = gs @ verb # args" "query_globals gs ps" "j = i + 1 + length gs"
        "\<not> starts_with verb [DASH]"
      using "2.IH"(2) attached(3) by blast
    then show ?thesis using attached query_globals.chdir_attached[of gs ps p]
      by (intro exI[of _ "tok # gs"] exI[of _ "p # ps"]) auto
  next
    case pager
    have a: "starts_with tok [DASH]" "tok \<noteq> [DASH]" "tok \<noteq> lit ''--''" "tok \<noteq> lit ''-C''"
      using pager(1) by (auto simp: starts_with_def lit_def)
    then obtain gs ps verb args where "rest = gs @ verb # args" "query_globals gs ps" "j = i + 1 + length gs"
        "\<not> starts_with verb [DASH]"
      using "2.IH"(2) pager by blast
    then show ?thesis using pager query_globals.no_pager[of gs ps tok]
      by (intro exI[of _ "tok # gs"] exI[of _ ps]) auto
  qed
qed simp

lemma safe_verb_plain: "v \<in> set SAFE_GIT_SUBCOMMANDS \<Longrightarrow> \<not> starts_with v [DASH]"
  by (auto simp: SAFE_GIT_SUBCOMMANDS_def lit_def starts_with_def)

lemma verb_loop_complete:
  "query_globals gs ps \<Longrightarrow> \<not> starts_with verb [DASH] \<Longrightarrow>
     verb_index_loop (gs @ verb # args) i = Some (i + length gs)"
proof (induction gs ps arbitrary: i rule: query_globals.induct)
  case none
  then show ?case by (auto simp: starts_with_def lit_def)
next
  case (chdir gs ps p)
  then show ?case by (simp add: lit_def starts_with_def)
next
  case (chdir_attached gs ps p)
  then have "attached_git_c_path (lit ''-C'' @ p) \<noteq> None" by (simp add: attached_iff)
  then show ?case using chdir_attached by (simp add: lit_def starts_with_def)
next
  case (no_pager gs ps g)
  then show ?case by (auto simp: lit_def starts_with_def)
qed

lemma globals_not_config:
  "\<not> is_git_config_flag (lit ''-C'')" "\<not> is_git_config_flag (lit ''-C'' @ p)"
  "\<not> is_git_config_flag (lit ''--no-pager'')" "\<not> is_git_config_flag (lit ''-P'')"
  by (simp_all add: is_git_config_flag_def is_attached_git_config_c_def is_git_config_env_flag_def
      is_git_repo_retarget_flag_def is_accepted_long_option_prefix_def flag_part_def starts_with_def lit_def)

lemma risk_loop_globals:
  "query_globals gs ps \<Longrightarrow> \<not> starts_with verb [DASH] \<Longrightarrow> list_all (\<lambda>p. \<not> starts_with p [DASH]) ps \<Longrightarrow>
     \<not> git_risk_loop (gs @ verb # args)"
proof (induction gs ps rule: query_globals.induct)
  case none
  then show ?case by simp
next
  case (chdir gs ps p)
  then have "global_takes_next (lit ''-C'') (p # gs @ verb # args)"
    by (simp add: global_takes_next_def git_global_option_takes_value_def lit_def)
  then show ?case using chdir globals_not_config by (simp add: attached_git_c_path_def strip_prefix_Some_iff[THEN iffD2, of "lit ''-C''" _ "[]"])
next
  case (chdir_attached gs ps p)
  then have "attached_git_c_path (lit ''-C'' @ p) \<noteq> None" by (simp add: attached_iff)
  then show ?case using chdir_attached globals_not_config(2) by simp
next
  case (no_pager gs ps g)
  then have g: "\<not> is_git_config_flag g" "\<not> global_takes_next g rest" "attached_git_c_path g = None" for rest
    using globals_not_config
    by (auto simp: global_takes_next_def git_global_option_takes_value_def is_accepted_long_option_prefix_def
        starts_with_def lit_def attached_git_c_path_def)
  then show ?case using no_pager by simp
qed

definition query_shape :: "ustr list \<Rightarrow> ustr list \<Rightarrow> ustr list \<Rightarrow> bool" where
  "query_shape words gs ps \<longleftrightarrow>
     (\<exists>verb args.
        words = lit ''git'' # gs @ verb # args \<and> query_globals gs ps \<and> verb \<in> set SAFE_GIT_SUBCOMMANDS \<and>
        (\<forall>w \<in> set (gs @ verb # args). \<not> git_query_option_is_unsafe w) \<and>
        (verb = lit ''grep'' \<longrightarrow> (\<forall>w \<in> set (gs @ verb # args). \<not> starts_with w (lit ''-O''))))"

lemmas query_eval = git_words_are_read_only_query_def word_at_def git_has_exec_risk_global_def
  git_safe_query_verb_index_def git_words_have_unsafe_query_option_def git_query_option_is_unsafe_def
  GIT_QUERY_UNSAFE_OPTIONS_def flag_part_def SAFE_GIT_SUBCOMMANDS_def
  is_git_config_flag_def is_attached_git_config_c_def is_git_config_env_flag_def
  is_git_repo_retarget_flag_def is_accepted_long_option_prefix_def attached_git_c_path_def
  global_takes_next_def git_global_option_takes_value_def lit_def starts_with_def utf8_len_def

text \<open>
  The commands that count as read-only \<open>git\<close> queries, exactly: \<open>git\<close>, then only \<open>-C\<close>, \<open>--no-pager\<close> and
  \<open>-P\<close> before a verb of the safe list, no word anywhere that spells or abbreviates an option running a
  driver or writing a file, and no \<open>-O\<close> for \<open>grep\<close>. Every such command is accepted unless a \<open>-C\<close> operand looks
  like an option.
\<close>

lemma read_only_query_grammar:
  "(git_words_are_read_only_query words \<longrightarrow> (\<exists>gs ps. query_shape words gs ps)) \<and>
   (\<forall>gs ps. query_shape words gs ps \<and> (\<forall>p \<in> set ps. \<not> starts_with p [DASH]) \<longrightarrow>
      git_words_are_read_only_query words)"
proof (intro conjI impI allI; (elim conjE)?)
  assume r: "git_words_are_read_only_query words"
  then obtain t j where w: "words = lit ''git'' # t" and j: "verb_index_loop t 1 = Some j"
    and verb: "j < length words" "words ! j \<in> set SAFE_GIT_SUBCOMMANDS" and opt: "\<not> git_words_have_unsafe_query_option words"
    by (cases words) (auto simp: git_words_are_read_only_query_def word_at_def git_safe_query_verb_index_def
        split: if_splits option.splits)
  obtain gs ps v args where g: "t = gs @ v # args" "query_globals gs ps" "j = 1 + length gs"
    using verb_loop_spec[OF j] by blast
  have v: "words ! j = v" by (simp add: w g nth_append)
  have "\<forall>u \<in> set t. \<not> git_query_option_is_unsafe u" "v = lit ''grep'' \<longrightarrow> (\<forall>u \<in> set t. \<not> starts_with u (lit ''-O''))"
    using opt verb(1) v j by (auto simp: git_words_have_unsafe_query_option_def word_at_def w list_ex_iff
        git_safe_query_verb_index_def split: if_splits)
  then show "\<exists>gs ps. query_shape words gs ps"
    unfolding query_shape_def using w g verb(2) v by (intro exI[of _ gs] exI[of _ ps] exI[of _ v] exI[of _ args]) simp
next
  fix gs ps
  assume "query_shape words gs ps" and ps: "\<forall>p \<in> set ps. \<not> starts_with p [DASH]"
  then obtain v args where w: "words = lit ''git'' # gs @ v # args" and g: "query_globals gs ps"
    and v: "v \<in> set SAFE_GIT_SUBCOMMANDS" and o: "\<forall>u \<in> set (gs @ v # args). \<not> git_query_option_is_unsafe u"
    "v = lit ''grep'' \<longrightarrow> (\<forall>u \<in> set (gs @ v # args). \<not> starts_with u (lit ''-O''))"
    unfolding query_shape_def by blast
  have d: "\<not> starts_with v [DASH]" by (rule safe_verb_plain[OF v])
  have i: "git_safe_query_verb_index words = Some (1 + length gs)"
    using verb_loop_complete[OF g d] by (simp add: git_safe_query_verb_index_def w)
  have nth: "word_at words (1 + length gs) = Some v" by (simp add: word_at_def w nth_append)
  have "\<not> git_has_exec_risk_global words"
    using risk_loop_globals[OF g d] ps by (simp add: git_has_exec_risk_global_def w list_all_iff)
  moreover have "\<not> git_words_have_unsafe_query_option words"
    using o i nth by (auto simp: git_words_have_unsafe_query_option_def w word_at_def list_ex_iff)
  ultimately show "git_words_are_read_only_query words"
    using v i nth by (simp add: git_words_are_read_only_query_def w word_at_def)
qed

lemma read_only_query_grammar_witness:
  "\<exists>gs ps. query_shape (map lit [''git'', ''-C'', ''sub'', ''log'']) gs ps"
proof -
  have "git_words_are_read_only_query (map lit [''git'', ''-C'', ''sub'', ''log''])"
    by (simp add: query_eval)
  with read_only_query_grammar show ?thesis by blast
qed

section \<open>The directories git runs in\<close>

text \<open>A sequence of segments, each with its normal form and the directory it starts in.\<close>

inductive scan_trace :: "ustr \<Rightarrow> ustr list list \<Rightarrow> (ustr \<times> ustr list) list \<Rightarrow> bool" where
  finish: "scan_trace cwd [] []"
| change: "normalize_for_exec_risk raw = Some w \<Longrightarrow>
    normalized_program_name w \<in> {Some (lit ''cd''), Some (lit ''pushd'')} \<Longrightarrow>
    apply_literal_chdir cwd w = Some cwd' \<Longrightarrow> scan_trace cwd' segs tr \<Longrightarrow>
    scan_trace cwd (raw # segs) ((cwd, w) # tr)"
| stay: "normalize_for_exec_risk raw = Some w \<Longrightarrow>
    normalized_program_name w \<notin> {Some (lit ''cd''), Some (lit ''pushd''), Some (lit ''popd'')} \<Longrightarrow>
    scan_trace cwd segs tr \<Longrightarrow> scan_trace cwd (raw # segs) ((cwd, w) # tr)"

definition git_runs_at :: "(ustr \<times> ustr list) list \<Rightarrow> ustr option list" where
  "git_runs_at tr = map (\<lambda>(d, w). git_effective_cwd w d) (filter (\<lambda>(d, w). is_git_program w) tr)"

lemma chdir_not_git: "n \<in> {Some (lit ''cd''), Some (lit ''pushd'')} \<Longrightarrow> n \<noteq> Some (lit ''git'') \<and> n \<noteq> Some (lit ''popd'')"
  by (auto simp: lit_def)

lemma scan_loop_trace:
  "scan_loop segs cwd ds = CheckDirs dirs \<Longrightarrow>
     \<exists>tr. scan_trace cwd segs tr \<and> map Some dirs = map Some ds @ git_runs_at tr"
proof (induction segs cwd ds rule: scan_loop.induct)
  case (1 cwd ds)
  then show ?case by (intro exI[of _ "[]"]) (auto simp: git_runs_at_def scan_trace.finish split: if_splits)
next
  case (2 raw segs cwd ds)
  from "2.prems" obtain w where w: "normalize_for_exec_risk raw = Some w" by (auto split: option.splits)
  let ?n = "normalized_program_name w"
  consider (change) cwd' where "?n \<in> {Some (lit ''cd''), Some (lit ''pushd'')}" "apply_literal_chdir cwd w = Some cwd'"
      "scan_loop segs cwd' ds = CheckDirs dirs"
    | (git) e where "?n = Some (lit ''git'')" "git_effective_cwd w cwd = Some e"
      "scan_loop segs cwd (ds @ [e]) = CheckDirs dirs"
    | (other) "?n \<notin> {Some (lit ''cd''), Some (lit ''pushd''), Some (lit ''popd''), Some (lit ''git'')}"
      "scan_loop segs cwd ds = CheckDirs dirs"
    using "2.prems" w by (auto simp: Let_def split: if_splits option.splits)
  then show ?case
  proof cases
    case change
    then obtain tr where tr: "scan_trace cwd' segs tr" "map Some dirs = map Some ds @ git_runs_at tr"
      using "2.IH"(1)[OF w refl] by auto
    have "\<not> is_git_program w" using change(1) chdir_not_git by (simp add: is_git_program_def)
    then show ?thesis using tr scan_trace.change[OF w change(1,2) tr(1)]
      by (intro exI[of _ "(cwd, w) # tr"]) (simp add: git_runs_at_def)
  next
    case git
    have n: "?n \<notin> {Some (lit ''cd''), Some (lit ''pushd''), Some (lit ''popd'')}" using git(1) by (simp add: lit_def)
    then obtain tr where tr: "scan_trace cwd segs tr" "map Some dirs = map Some (ds @ [e]) @ git_runs_at tr"
      using "2.IH"(2)[OF w refl] git by auto
    then show ?thesis using git(1,2) scan_trace.stay[OF w n tr(1)]
      by (intro exI[of _ "(cwd, w) # tr"]) (simp add: git_runs_at_def is_git_program_def)
  next
    case other
    then obtain tr where tr: "scan_trace cwd segs tr" "map Some dirs = map Some ds @ git_runs_at tr"
      using "2.IH"(3)[OF w refl] by auto
    have "\<not> is_git_program w" using other(1) by (simp add: is_git_program_def)
    then show ?thesis using tr other(1) scan_trace.stay[OF w _ tr(1)]
      by (intro exI[of _ "(cwd, w) # tr"]) (simp add: git_runs_at_def)
  qed
qed

lemma scan_loop_nonempty: "scan_loop segs cwd ds = CheckDirs dirs \<Longrightarrow> dirs \<noteq> []"
  by (induction segs cwd ds rule: scan_loop.induct) (auto simp: Let_def split: if_splits option.splits)

lemma git_cwd_globals:
  "query_globals gs ps \<Longrightarrow> \<not> starts_with verb [DASH] \<Longrightarrow> git_cwd_loop (gs @ verb # args) d = Some e \<Longrightarrow>
     e = foldl join_cwd d ps"
proof (induction gs ps arbitrary: d rule: query_globals.induct)
  case none
  then show ?case by (simp split: if_splits)
next
  case (chdir gs ps p)
  then show ?case
    by (simp add: lit_def starts_with_def split: if_splits)
next
  case (chdir_attached gs ps p)
  then have "attached_git_c_path (lit ''-C'' @ p) = Some p" by (simp add: attached_iff)
  then show ?case using chdir_attached by (simp add: lit_def starts_with_def split: if_splits)
next
  case (no_pager gs ps g)
  then have "\<not> global_takes_next g rest" "attached_git_c_path g = None" "g \<noteq> lit ''--''" "starts_with g [DASH]"
    "g \<noteq> [DASH]" "g \<noteq> lit ''-C''" for rest
    by (auto simp: global_takes_next_def git_global_option_takes_value_def is_accepted_long_option_prefix_def
        starts_with_def lit_def attached_git_c_path_def)
  then show ?case using no_pager by (simp split: if_splits)
qed

text \<open>
  When the scan of the ambient configuration reports no risk, the segments could be followed one by one: each has a
  normal form, the directory as the scan follows it changes only by a literal \<open>cd\<close> or \<open>pushd\<close>, and for every segment that
  runs \<open>git\<close> the local configuration of the directory so followed was read completely and has no entry that
  runs a program; for a query that directory is the one its \<open>-C\<close> options lead to. This is not yet a statement about
  the directory in which the shell runs \<open>git\<close>: the operators between the segments are not part of the scan, so a
  \<open>cd\<close> in a pipeline is followed although it has no effect (\<open>cd_then_git_plan\<close>).
\<close>

lemma ambient_scan_sound:
  assumes "\<not> ambient_exec_risk_from_plan h (ambient_scan_plan_from_segments segs cwd)"
  shows "\<exists>tr. scan_trace cwd segs tr \<and> (\<exists>(d, w) \<in> set tr. is_git_program w) \<and>
    (\<forall>(d, w) \<in> set tr. is_git_program w \<longrightarrow>
       (\<exists>e entries. git_effective_cwd w d = Some e \<and> read_local_git_config_entries h e = Some entries \<and>
          (\<forall>(name, value) \<in> set entries. \<not> local_git_config_entry_is_exec h name value) \<and>
          (\<forall>gs ps. query_shape w gs ps \<longrightarrow> e = foldl join_cwd d ps)))"
proof -
  obtain dirs where dirs: "scan_loop segs cwd [] = CheckDirs dirs"
    and safe: "\<forall>d \<in> set dirs. \<not> local_repo_config_has_exec_risk h d"
    using assms by (auto simp: ambient_exec_risk_from_plan_def ambient_scan_plan_from_segments_def list_ex_iff
        split: ambient_scan_plan.splits)
  obtain tr where tr: "scan_trace cwd segs tr" "map Some dirs = git_runs_at tr"
    using scan_loop_trace[OF dirs] by auto
  have ne: "git_runs_at tr \<noteq> []" using scan_loop_nonempty[OF dirs] tr(2) by (metis list.map_disc_iff)
  have git: "\<exists>e entries. git_effective_cwd w d = Some e \<and> read_local_git_config_entries h e = Some entries \<and>
      (\<forall>(name, value) \<in> set entries. \<not> local_git_config_entry_is_exec h name value) \<and>
      (\<forall>gs ps. query_shape w gs ps \<longrightarrow> e = foldl join_cwd d ps)"
    if w: "(d, w) \<in> set tr" "is_git_program w" for d w
  proof -
    have "git_effective_cwd w d \<in> set (git_runs_at tr)" using w by (force simp: git_runs_at_def)
    then obtain e where e: "git_effective_cwd w d = Some e" "e \<in> set dirs" unfolding tr(2)[symmetric] by auto
    then obtain entries where "read_local_git_config_entries h e = Some entries"
      "\<forall>(name, value) \<in> set entries. \<not> local_git_config_entry_is_exec h name value"
      using safe by (fastforce simp: local_repo_config_has_exec_risk_def list_ex_iff split: option.splits)
    moreover have "e = foldl join_cwd d ps" if q: "query_shape w gs ps" for gs ps
    proof -
      obtain v args where "w = lit ''git'' # gs @ v # args" "query_globals gs ps" "v \<in> set SAFE_GIT_SUBCOMMANDS"
        using q unfolding query_shape_def by blast
      with git_cwd_globals[OF _ safe_verb_plain, of gs ps v args d e] e(1) show ?thesis
        by (simp add: git_effective_cwd_def)
    qed
    ultimately show ?thesis using e(1) by blast
  qed
  have "\<exists>(d, w) \<in> set tr. is_git_program w" using ne by (auto simp: git_runs_at_def filter_empty_conv)
  then show ?thesis using tr(1) git by (intro exI[of _ tr]) blast
qed

definition bare_host :: git_host where
  "bare_host = \<lparr>gh_discover = (\<lambda>_. DiscoverNotFound), gh_open = (\<lambda>_. OpenNotFound), gh_parse_bool = (\<lambda>_. None)\<rparr>"

definition cd_then_git :: "ustr list list" where
  "cd_then_git = [map lit [''cd'', ''sub''], map lit [''git'', ''status'']]"

text \<open>
  The plan for a \<open>cd\<close> followed by \<open>git\<close>. The operator between the two segments is not part of the plan: also for
  \<open>cd sub | git status\<close>, where the shell runs \<open>git\<close> in the directory of the session, only \<open>sub\<close> is checked.
\<close>

lemma cd_then_git_plan:
  "ambient_scan_plan_from_segments cd_then_git (lit ''/w'') = CheckDirs [lit ''/w/sub'']"
proof -
  have "normalize_for_exec_risk (map lit [''cd'', ''sub'']) = Some (map lit [''cd'', ''sub''])"
    "normalize_for_exec_risk (map lit [''git'', ''status'']) = Some (map lit [''git'', ''status''])"
    by (simp_all add: normalize_for_exec_risk_def MAX_NORMALIZE_ROUNDS_def MAX_WRAPPER_DEPTH_def
      MAX_TRANSPARENT_PREFIX_DEPTH_def unwrap_wrappers_checked_def peel_transparent_prefixes_def
      eval_nat_numeral Let_def peel_eval)
  then show ?thesis
    by (simp add: ambient_scan_plan_from_segments_def cd_then_git_def normalized_program_name_def last_segment_def
        strip_exe_def strip_suffix_def ascii_lower_def lit_def apply_literal_chdir_def is_static_path_operand_def
        starts_with_def contains_def join_cwd_def is_absolute_def path_join_def git_effective_cwd_def)
qed

lemma ambient_scan_sound_witness:
  "\<exists>tr. scan_trace (lit ''/w'') cd_then_git tr \<and> (\<exists>(d, w) \<in> set tr. is_git_program w)"
proof -
  have "\<not> ambient_exec_risk_from_plan bare_host (ambient_scan_plan_from_segments cd_then_git (lit ''/w''))"
    unfolding cd_then_git_plan
    by (simp add: ambient_exec_risk_from_plan_def local_repo_config_has_exec_risk_def
        read_local_git_config_entries_def bare_host_def)
  from ambient_scan_sound[OF this] show ?thesis by blast
qed

section \<open>Neutralised filters\<close>

text \<open>What a complete reading says of one entry.\<close>

definition entry_read :: "config_entry \<Rightarrow> (ustr \<times> ustr) set \<Rightarrow> bool" where
  "entry_read e r \<longleftrightarrow>
     ce_level e = LevelOther \<or>
     (\<exists>name. ce_name e = Some name \<and> \<not> local_includeif_unsupported name \<and>
        (filter_command_driver name \<noteq> None \<longrightarrow> ce_has_value e \<and> (\<exists>v. ce_value e = Some v \<and> (name, v) \<in> r)))"

lemma entries_step:
  "entries_loop (Some e # es) out = Some r \<Longrightarrow>
     \<exists>out'. entries_loop es out' = Some r \<and> set out \<subseteq> set out' \<and> entry_read e (set out')"
  by (cases "ce_level e"; cases "ce_name e"; cases "ce_has_value e"; cases "ce_value e")
    (auto simp: entry_read_def split: if_splits intro: exI[of _ out] exI[of _ "out @ _"])

lemma entries_loop_spec:
  "entries_loop es out = Some r \<Longrightarrow> set out \<subseteq> set r \<and> (\<forall>x \<in> set es. \<exists>e. x = Some e \<and> entry_read e (set r))"
proof (induction es arbitrary: out)
  case (Cons x es)
  then obtain e where x: "x = Some e" by (cases x) auto
  with Cons obtain out' where o: "entries_loop es out' = Some r" "set out \<subseteq> set out'" "entry_read e (set out')"
    using entries_step by blast
  moreover have "entry_read e (set r)" using o(3) Cons.IH[OF o(1)] unfolding entry_read_def by blast
  ultimately show ?case using x Cons.IH[OF o(1)] by auto
qed simp

lemma drivers_loop_spec:
  "drivers_loop es ds = Some r \<Longrightarrow>
     set r = set ds \<union> {d. \<exists>(name, v) \<in> set es. trim v \<noteq> [] \<and> filter_command_driver name = Some d} \<and>
     (\<forall>(name, v) \<in> set es. \<forall>d. trim v \<noteq> [] \<and> filter_command_driver name = Some d \<longrightarrow> filter_driver_name_is_pinnable d)"
proof (induction es ds rule: drivers_loop.induct)
  case (2 name v es ds)
  then show ?case
    by (cases "filter_command_driver name") (auto simp: set_insort_key split: if_splits)
qed simp

lemma pinnable_no_eq: "filter_driver_name_is_pinnable d \<Longrightarrow> EQ \<notin> set d"
  by (cases d) (auto simp: filter_driver_name_is_pinnable_def list_all_iff is_ascii_alpha_def is_ascii_digit_def)

text \<open>What has to be said on the command line of \<open>git\<close> so that a driver runs none of its commands.\<close>

definition disarming :: "ustr \<Rightarrow> ustr set" where
  "disarming d = (\<lambda>k. lit ''filter.'' @ d @ lit k) ` {''.clean='', ''.smudge='', ''.process='', ''.required=false''}"

lemma set_driver_pins: "set (driver_pins d) = disarming d"
  by (simp add: driver_pins_def disarming_def)

text \<open>
  When \<open>git\<close> is run unattended with the computed pins, no content filter of the repository's own
  configuration stays active: every local entry was readable and none is an inclusion under a condition that
  \<open>libgit2\<close> does not evaluate, every entry that names a filter command and is not blank has its driver's
  commands overridden by empty ones under exactly its spelling, a spelling without \<open>=\<close>, and the pins name
  only drivers of such entries.
\<close>

lemma filter_pins_cover:
  assumes "content_filter_config_pins h cwd = Some pins" "gh_discover h cwd = Discovered repo"
  shows "\<exists>entries. gr_config repo = Some entries \<and> None \<notin> set entries \<and>
    (\<forall>e. Some e \<in> set entries \<and> ce_level e \<noteq> LevelOther \<longrightarrow>
       (\<exists>name. ce_name e = Some name \<and> \<not> local_includeif_unsupported name \<and>
          (\<forall>d. filter_command_driver name = Some d \<longrightarrow>
             (\<exists>v. ce_has_value e \<and> ce_value e = Some v \<and>
                (trim v \<noteq> [] \<longrightarrow> EQ \<notin> set d \<and> disarming d \<subseteq> set pins))))) \<and>
    (\<forall>p \<in> set pins. \<exists>d r. p \<in> disarming d \<and> read_local_git_config_entries h cwd = Some r \<and>
       (\<exists>(name, v) \<in> set r. trim v \<noteq> [] \<and> filter_command_driver name = Some d))"
proof -
  obtain ds where ds: "local_content_filter_drivers h cwd = Some ds" and pins: "pins = concat (map driver_pins ds)"
    using assms(1) by (auto simp: content_filter_config_pins_def)
  then obtain r entries where r: "drivers_loop r [] = Some ds" "gr_config repo = Some entries"
      "entries_loop entries [] = Some r" "read_local_git_config_entries h cwd = Some r"
    using assms(2) by (auto simp: local_content_filter_drivers_def read_local_git_config_entries_def Option.bind_eq_Some_conv
        split: if_splits option.splits)
  have read: "\<exists>e. x = Some e \<and> entry_read e (set r)" if "x \<in> set entries" for x
    using entries_loop_spec[OF r(3)] that by blast
  have cover: "EQ \<notin> set d \<and> disarming d \<subseteq> set pins"
    if "(name, v) \<in> set r" "trim v \<noteq> []" "filter_command_driver name = Some d" for name v d
  proof -
    have "d \<in> set ds" "filter_driver_name_is_pinnable d" using drivers_loop_spec[OF r(1)] that by auto
    then show ?thesis using pinnable_no_eq by (auto simp: pins set_driver_pins)
  qed
  have "\<exists>name. ce_name e = Some name \<and> \<not> local_includeif_unsupported name \<and>
      (\<forall>d. filter_command_driver name = Some d \<longrightarrow>
         (\<exists>v. ce_has_value e \<and> ce_value e = Some v \<and> (trim v \<noteq> [] \<longrightarrow> EQ \<notin> set d \<and> disarming d \<subseteq> set pins)))"
    if e: "Some e \<in> set entries" "ce_level e \<noteq> LevelOther" for e
    using read[OF e(1)] e(2) cover unfolding entry_read_def by force
  moreover have "None \<notin> set entries" using read by blast
  moreover have "\<exists>d r. p \<in> disarming d \<and> read_local_git_config_entries h cwd = Some r \<and>
      (\<exists>(name, v) \<in> set r. trim v \<noteq> [] \<and> filter_command_driver name = Some d)" if "p \<in> set pins" for p
    using that drivers_loop_spec[OF r(1)] r(4) unfolding pins by (auto simp: set_driver_pins)
  ultimately show ?thesis using r(2) by blast
qed

definition lfs_repo :: git_repo where
  "lfs_repo = \<lparr>gr_path = lit ''/w/.git'', gr_commondir = lit ''/w/.git'',
     gr_config = Some [Some \<lparr>ce_level = LevelLocal, ce_name = Some (lit ''filter.lfs.clean''), ce_has_value = True,
       ce_value = Some (lit ''x'')\<rparr>]\<rparr>"

definition lfs_host :: git_host where
  "lfs_host = bare_host\<lparr>gh_discover := (\<lambda>_. Discovered lfs_repo)\<rparr>"

lemma filter_pins_cover_witness:
  "\<exists>pins. content_filter_config_pins lfs_host (lit ''/w'') = Some pins \<and> lit ''filter.lfs.process='' \<in> set pins"
proof -
  have f: "filter_command_driver (lit ''filter.lfs.clean'') = Some (lit ''lfs'')"
    "\<not> local_includeif_unsupported (lit ''filter.lfs.clean'')"
    by (simp_all add: filter_command_driver_def local_includeif_unsupported_def str_to_def str_from_def same_ascii_def
        rsplit_once_dot_def ascii_lower_def lit_def utf8_len_def)
  then have pins: "\<exists>pins. content_filter_config_pins lfs_host (lit ''/w'') = Some pins"
    by (simp add: content_filter_config_pins_def local_content_filter_drivers_def read_local_git_config_entries_def
        lfs_host_def bare_host_def lfs_repo_def path_unreadable_def)
      (simp add: lit_def str_eval filter_driver_name_is_pinnable_def is_ascii_alpha_def)
  have "gh_discover lfs_host (lit ''/w'') = Discovered lfs_repo" by (simp add: lfs_host_def)
  from filter_pins_cover[OF _ this] pins f show ?thesis
    by (fastforce simp: lfs_repo_def lit_def str_eval disarming_def)
qed

end
