(* ===== verification/Shell_Access.thy ===== *)
theory Shell_Access
  imports Perm_Policy Exec_Risk
begin

text \<open>
  Files a shell command reads and writes (\<open>crates/codegen/xai-grok-workspace/src/permission/shell_access.rs\<close>):
  redirects and operands are found in the syntax tree and held against the rules for files, and edit targets
  that deserve a prompt of their own are recognised.

  A node is visited together with its ancestors and its right neighbour in each of them, which is what
  \<open>parent\<close> and \<open>next_sibling\<close> read.
\<close>

section \<open>Visits\<close>

type_synonym located = "node \<times> (node \<times> node option) list"

fun next_siblings :: "node list \<Rightarrow> (node \<times> node option) list" where
  "next_siblings [] = []"
| "next_siblings [n] = [(n, None)]"
| "next_siblings (n # m # ns) = (n, Some m) # next_siblings (m # ns)"

definition located_children :: "located \<Rightarrow> located list" where
  "located_children l = map (\<lambda>(c, sib). (c, (fst l, sib) # snd l)) (next_siblings (nd_children (fst l)))"

lemma next_siblings_fst [simp]: "map fst (next_siblings ns) = ns"
  by (induction ns rule: next_siblings.induct) auto

lemma located_children_fst [simp]: "map fst (located_children l) = nd_children (fst l)"
  by (simp add: located_children_def comp_def case_prod_unfold)

text \<open>The nodes a stack is popped in; the children of a node are pushed in order.\<close>

function stack_walk :: "located list \<Rightarrow> located list" where
  "stack_walk [] = []"
| "stack_walk (l # stack) = l # stack_walk (rev (located_children l) @ stack)"
  by pat_completeness auto
termination
proof (relation "measure (\<lambda>stack. sum_list (map (node_weight \<circ> fst) stack))")
  fix l :: located and stack
  have "sum_list (map (node_weight \<circ> fst) (rev (located_children l))) = sum_list (map node_weight (nd_children (fst l)))"
    by (simp add: rev_map[symmetric] flip: map_map)
  then show "(rev (located_children l) @ stack, l # stack) \<in> measure (\<lambda>stack. sum_list (map (node_weight \<circ> fst) stack))"
    using node_weight_children[of "fst l"] by simp
qed simp

definition visited :: "node \<Rightarrow> located list" where
  "visited root = stack_walk [(root, [])]"

definition child_by_field_name :: "node \<Rightarrow> ustr \<Rightarrow> node option" where
  "child_by_field_name n f = find (\<lambda>c. nd_field c = Some f) (nd_children n)"

section \<open>Scopes\<close>

record execution_scope =
  sc_start :: nat
  sc_end :: nat

definition scope_contains :: "execution_scope \<Rightarrow> execution_scope \<Rightarrow> bool" where
  "scope_contains s other \<longleftrightarrow> sc_start s \<le> sc_start other \<and> sc_end s \<ge> sc_end other"

definition node_scope :: "node \<Rightarrow> execution_scope" where
  "node_scope n = \<lparr>sc_start = nd_start n, sc_end = nd_end n\<rparr>"

fun scope_loop :: "node \<Rightarrow> (node \<times> node option) list \<Rightarrow> execution_scope" where
  "scope_loop current [] = \<lparr>sc_start = 0, sc_end = u64_max\<rparr>"
| "scope_loop current ((parent, sibling) # up) =
     (if (case sibling of Some s \<Rightarrow> nd_kind s = lit ''&'' | None \<Rightarrow> False)
      then node_scope (if nd_kind current = lit ''list'' then current else parent)
      else if nd_kind parent \<in> set (map lit [''subshell'', ''command_substitution'', ''process_substitution''])
      then node_scope parent
      else if nd_kind parent = lit ''pipeline'' then node_scope current
      else scope_loop parent up)"

definition execution_scope_of :: "located \<Rightarrow> execution_scope" where
  "execution_scope_of l = scope_loop (fst l) (snd l)"

record cwd_poison =
  cp_at :: nat
  cp_scope :: execution_scope

definition changes_cwd :: "ustr \<Rightarrow> node \<Rightarrow> bool" where
  "changes_cwd src n \<longleftrightarrow>
     nd_kind n = lit ''command'' \<and>
     (case Option.bind (child_by_field_name n (lit ''name'')) (utf8_text src) of
        Some program \<Rightarrow> last_segment program \<in> set (map lit [''cd'', ''pushd'', ''popd''])
      | None \<Rightarrow> False)"

definition cwd_poison_positions :: "node \<Rightarrow> ustr \<Rightarrow> cwd_poison list" where
  "cwd_poison_positions root src =
     map (\<lambda>l. \<lparr>cp_at = nd_start (fst l), cp_scope = execution_scope_of l\<rparr>)
       (filter (\<lambda>l. changes_cwd src (fst l)) (visited root))"

definition script_has_cwd_change :: "node \<Rightarrow> ustr \<Rightarrow> bool" where
  "script_has_cwd_change root src \<longleftrightarrow> cwd_poison_positions root src \<noteq> []"

definition cwd_unpinned_before :: "cwd_poison list \<Rightarrow> nat \<Rightarrow> execution_scope \<Rightarrow> bool" where
  "cwd_unpinned_before positions at scope =
     list_ex (\<lambda>poison. cp_at poison < at \<and> (cp_scope poison = scope \<or> scope_contains (cp_scope poison) scope)) positions"

section \<open>Words of an invocation\<close>

datatype invocation_word = InvLiteral ustr | InvUntrusted

record shell_invocation =
  si_start_byte :: nat
  si_scope :: execution_scope
  si_words :: "invocation_word list"
  si_wrapper_words :: "ustr list"

record checked_invocation_peel =
  ip_words :: "invocation_word list"
  ip_has_chdir :: bool
  ip_has_split_string :: bool
  ip_env_options_uncertain :: bool
  ip_exhausted :: bool
  ip_transparent_ambiguous :: bool

fun literal_words :: "invocation_word list \<Rightarrow> ustr list" where
  "literal_words [] = []"
| "literal_words (InvLiteral w # ws) = w # literal_words ws"
| "literal_words (InvUntrusted # ws) = literal_words ws"

definition shell_words :: "invocation_word list \<Rightarrow> shell_word list" where
  "shell_words = map (\<lambda>w. case w of InvLiteral w \<Rightarrow> SWLiteral w | InvUntrusted \<Rightarrow> SWUntrusted)"

definition unwrap_invocation_checked :: "shell_invocation \<Rightarrow> checked_invocation_peel" where
  "unwrap_invocation_checked invo =
     (let norm = normalize_command_words (si_wrapper_words invo);
          peeled_count = length (si_wrapper_words invo) - length (nc_words norm)
      in \<lparr>ip_words = drop peeled_count (si_words invo),
          ip_has_chdir = nc_has_chdir norm,
          ip_has_split_string = nc_has_split_string norm,
          ip_env_options_uncertain = nc_env_options_uncertain norm,
          ip_exhausted = nc_exhausted norm,
          ip_transparent_ambiguous = nc_ambiguous norm\<rparr>)"

datatype arg_text = ArgLiteral ustr | ArgAmbiguous

definition EXPANSION_KINDS :: "ustr list" where
  "EXPANSION_KINDS = map lit
     [''expansion'', ''simple_expansion'', ''command_substitution'', ''arithmetic_expansion'', ''process_substitution'']"

function expansion_walk :: "node list \<Rightarrow> bool" where
  "expansion_walk [] = False"
| "expansion_walk (n # stack) =
     (if list_ex (\<lambda>c. nd_kind c \<in> set EXPANSION_KINDS) (nd_children n) then True
      else expansion_walk (rev (nd_children n) @ stack))"
  by pat_completeness auto
termination
  by (relation "measure (\<lambda>stack. sum_list (map node_weight stack))")
    (auto simp: rev_map[symmetric] node_weight_children)

definition node_has_expansion :: "node \<Rightarrow> bool" where
  "node_has_expansion n = expansion_walk [n]"

text \<open>The byte at index 1 is a colon.\<close>

definition colon_second :: "ustr \<Rightarrow> bool" where
  "colon_second s = (case s of a # b # _ \<Rightarrow> utf8_len a = 1 \<and> b = 58 | _ \<Rightarrow> False)"

definition is_windows_path_like :: "ustr \<Rightarrow> bool" where
  "is_windows_path_like raw \<longleftrightarrow>
     starts_with raw [BSL, BSL] \<or> (raw \<noteq> [] \<and> is_ascii_alpha (hd raw) \<and> colon_second raw)"

fun unquote_loop :: "ustr \<Rightarrow> ustr \<Rightarrow> ustr option" where
  "unquote_loop [] out = Some out"
| "unquote_loop (ch # cs) out =
     (if ch = BSL then (case cs of [] \<Rightarrow> None | n # cs \<Rightarrow> unquote_loop cs (out @ [n]))
      else unquote_loop cs (out @ [ch]))"

definition decode_unquoted_word :: "ustr \<Rightarrow> ustr option" where
  "decode_unquoted_word raw =
     (if BSL \<notin> set raw then Some raw
      else if is_windows_path_like raw then Some raw
      else unquote_loop raw [])"

fun double_loop :: "ustr \<Rightarrow> ustr \<Rightarrow> ustr option" where
  "double_loop [] out = Some out"
| "double_loop (ch # cs) out =
     (if ch \<noteq> BSL then double_loop cs (out @ [ch])
      else (case cs of
              [] \<Rightarrow> None
            | n # cs \<Rightarrow> double_loop cs (out @ (if n \<in> {36, 96, DQUOTE, BSL, NL} then [n] else [BSL, n]))))"

definition decode_double_quoted_content :: "ustr \<Rightarrow> ustr option" where
  "decode_double_quoted_content content =
     (if BSL \<notin> set content then Some content else double_loop content [])"

definition strip_quotes :: "uchar \<Rightarrow> ustr \<Rightarrow> ustr" where
  "strip_quotes q raw =
     (case Option.bind (strip_prefix [q] raw) (strip_suffix [q]) of Some s \<Rightarrow> s | None \<Rightarrow> raw)"

definition literal_or_ambiguous :: "ustr option \<Rightarrow> arg_text" where
  "literal_or_ambiguous t = (case t of Some s \<Rightarrow> ArgLiteral s | None \<Rightarrow> ArgAmbiguous)"

definition shell_node_arg :: "node \<Rightarrow> ustr \<Rightarrow> arg_text option" where
  "shell_node_arg n src =
     (let kind = nd_kind n; text = utf8_text src n in
      if kind = lit ''variable_assignment'' then None
      else if kind = lit ''word'' \<or> kind = lit ''number''
      then Some (literal_or_ambiguous (Option.bind text decode_unquoted_word))
      else if kind = lit ''raw_string'' then map_option (\<lambda>raw. ArgLiteral (strip_quotes SQUOTE raw)) text
      else if kind = lit ''string''
      then (if node_has_expansion n then Some ArgAmbiguous
            else map_option (\<lambda>raw. literal_or_ambiguous (decode_double_quoted_content (strip_quotes DQUOTE raw))) text)
      else if kind = lit ''concatenation''
      then Some (if node_has_expansion n then ArgAmbiguous
                 else literal_or_ambiguous (Option.bind text decode_shell_literal_spelling))
      else Some ArgAmbiguous)"

definition invocation_operand :: "ustr \<Rightarrow> node \<Rightarrow> invocation_word option" where
  "invocation_operand src child =
     (let operand =
            (if nd_kind child = lit ''command_name''
             then (case filter nd_named (nd_children child) of
                     [] \<Rightarrow> None
                   | inner # _ \<Rightarrow> shell_node_arg inner src)
             else shell_node_arg child src)
      in map_option (\<lambda>a. case a of ArgLiteral w \<Rightarrow> InvLiteral w | ArgAmbiguous \<Rightarrow> InvUntrusted) operand)"

definition invocation_words :: "ustr \<Rightarrow> node \<Rightarrow> invocation_word list" where
  "invocation_words src n = List.map_filter (invocation_operand src) (filter nd_named (nd_children n))"

definition invocation_of :: "ustr \<Rightarrow> located \<Rightarrow> shell_invocation" where
  "invocation_of src l =
     (let words = invocation_words src (fst l) in
      \<lparr>si_start_byte = nd_start (fst l), si_scope = execution_scope_of l, si_words = words,
       si_wrapper_words = map (\<lambda>w. case w of InvLiteral w \<Rightarrow> w | InvUntrusted \<Rightarrow> [0]) words\<rparr>)"

definition shell_command_invocations :: "node \<Rightarrow> ustr \<Rightarrow> shell_invocation list" where
  "shell_command_invocations root src =
     sort_key si_start_byte
       (map (invocation_of src) (filter (\<lambda>l. nd_kind (fst l) = lit ''command'') (visited root)))"

definition words_are_opaque_shell :: "shell_word list \<Rightarrow> bool" where
  "words_are_opaque_shell words \<longleftrightarrow>
     is_potential_inline (shell_dash_c_script words) \<or>
     (case words of SWLiteral program # _ \<Rightarrow> last_segment program = lit ''eval'' | _ \<Rightarrow> False)"

definition tree_has_opaque_shell :: "node \<Rightarrow> ustr \<Rightarrow> bool" where
  "tree_has_opaque_shell root src =
     list_ex (\<lambda>invo. words_are_opaque_shell (shell_words (ip_words (unwrap_invocation_checked invo))))
       (shell_command_invocations root src)"

section \<open>Redirects\<close>

datatype shell_file_mode = ModeRead | ModeWrite | ModeCreate

definition shell_arg_is_ambiguous :: "ustr \<Rightarrow> bool" where
  "shell_arg_is_ambiguous token \<longleftrightarrow> 42 \<in> set token \<or> 63 \<in> set token \<or> 91 \<in> set token"

text \<open>The operator of a redirect: \<open>None\<close> also when the text comes from a here-document.\<close>

fun redirect_operator :: "node list \<Rightarrow> ustr option" where
  "redirect_operator [] = None"
| "redirect_operator (c # cs) =
     (if contains (nd_kind c) (lit ''<<'') then None
      else if 62 \<in> set (nd_kind c) \<or> 60 \<in> set (nd_kind c) then Some (nd_kind c)
      else redirect_operator cs)"

definition shell_redirect_one :: "node \<Rightarrow> ustr \<Rightarrow> (ustr option \<times> shell_file_mode \<times> bool) option" where
  "shell_redirect_one n src =
     (case redirect_operator (nd_children n) of
        None \<Rightarrow> None
      | Some redirect \<Rightarrow>
          (let mode = (if 62 \<in> set redirect then ModeWrite else ModeRead);
               duplicates_fd = (redirect = lit ''>&'' \<or> redirect = lit ''<&'')
           in case child_by_field_name n (lit ''destination'') of
                None \<Rightarrow> None
              | Some dest \<Rightarrow>
                  (case shell_node_arg dest src of
                     None \<Rightarrow> None
                   | Some (ArgLiteral s) \<Rightarrow>
                       if s = [] \<or> starts_with s (lit ''&'') \<or>
                          (duplicates_fd \<and> (s = lit ''-'' \<or> list_all is_ascii_digit s))
                       then None
                       else Some (Some s, mode, shell_arg_is_ambiguous s)
                   | Some ArgAmbiguous \<Rightarrow> Some (None, mode, True))))"

record shell_redirect_target =
  rt_path :: "ustr option"
  rt_mode :: shell_file_mode
  rt_ambiguous :: bool
  rt_start_byte :: nat
  rt_scope :: execution_scope

definition redirect_target_of :: "ustr \<Rightarrow> located \<Rightarrow> shell_redirect_target option" where
  "redirect_target_of src l =
     (if nd_kind (fst l) = lit ''file_redirect''
      then map_option (\<lambda>(path, mode, ambiguous).
             \<lparr>rt_path = path, rt_mode = mode, rt_ambiguous = ambiguous, rt_start_byte = nd_start (fst l),
              rt_scope = execution_scope_of l\<rparr>) (shell_redirect_one (fst l) src)
      else None)"

definition shell_redirect_targets :: "node \<Rightarrow> ustr \<Rightarrow> shell_redirect_target list" where
  "shell_redirect_targets root src = List.map_filter (redirect_target_of src) (visited root)"

section \<open>Operands\<close>

definition READ_PROGRAMS :: "ustr list" where
  "READ_PROGRAMS = map lit
     [''cat'', ''tac'', ''nl'', ''head'', ''tail'', ''grep'', ''egrep'', ''fgrep'', ''rg'', ''sed'', ''awk'', ''less'',
      ''more'', ''bat'', ''strings'', ''xxd'', ''od'', ''hexdump'', ''base64'', ''base32'', ''cut'', ''sort'', ''uniq'',
      ''wc'', ''type'', ''get-content'', ''gc'', ''diff'', ''comm'', ''rev'', ''jq'', ''yq'', ''select-string'', ''sls'',
      ''ag'', ''ack'', ''zcat'', ''zless'', ''zmore'', ''zgrep'', ''zegrep'', ''zfgrep'', ''bzcat'', ''bzgrep'', ''xzcat'',
      ''xzgrep'', ''zstdcat'', ''lz4cat'']"

definition WRITE_PROGRAMS :: "ustr list" where
  "WRITE_PROGRAMS = map lit [''tee'', ''set-content'', ''out-file'', ''add-content'', ''tee-object'', ''truncate'']"

definition shell_file_mode_of :: "ustr \<Rightarrow> shell_file_mode option" where
  "shell_file_mode_of program =
     (if program \<in> set READ_PROGRAMS then Some ModeRead
      else if program \<in> set WRITE_PROGRAMS then Some ModeWrite
      else None)"

definition shell_sed_in_place :: "ustr list \<Rightarrow> bool" where
  "shell_sed_in_place words =
     list_ex (\<lambda>word. word = lit ''--in-place'' \<or> starts_with word (lit ''--in-place='') \<or>
       (starts_with word [DASH] \<and> \<not> starts_with word (lit ''--'') \<and> 105 \<in> set word)) (drop 1 words)"

text \<open>The text after the first \<open>c\<close>.\<close>

definition after_first :: "uchar \<Rightarrow> ustr \<Rightarrow> ustr option" where
  "after_first c s = (if c \<in> set s then Some (drop 1 (dropWhile (\<lambda>x. x \<noteq> c) s)) else None)"

definition output_flag_value :: "bool \<Rightarrow> ustr \<Rightarrow> ustr list \<Rightarrow> ustr option" where
  "output_flag_value clustered_o token rest =
     (let next_or_empty = (case rest of n # _ \<Rightarrow> n | [] \<Rightarrow> []) in
      if starts_with token (lit ''--'')
      then (if is_accepted_long_option_prefix (flag_part token) (lit ''--output'') 3
            then Some (case after_first EQ token of Some v \<Rightarrow> v | None \<Rightarrow> next_or_empty)
            else None)
      else if token = lit ''-o'' then Some next_or_empty
      else if starts_with token (lit ''-o'') then Some (drop 2 token)
      else if \<not> clustered_o then None
      else (case strip_prefix [DASH] token of
              None \<Rightarrow> None
            | Some flags \<Rightarrow>
                if flags = [] \<or> starts_with flags (lit ''o'') \<or> EQ \<in> set flags then None
                else map_option (\<lambda>after_o. if after_o = [] then next_or_empty else after_o) (after_first 111 flags)))"

fun shell_output_flag_values :: "bool \<Rightarrow> ustr list \<Rightarrow> ustr list" where
  "shell_output_flag_values clustered_o [] = []"
| "shell_output_flag_values clustered_o (token # rest) =
     (case output_flag_value clustered_o token rest of Some v \<Rightarrow> [v] | None \<Rightarrow> []) @
     shell_output_flag_values clustered_o rest"

definition value_flag_value :: "ustr \<Rightarrow> ustr \<Rightarrow> ustr list \<Rightarrow> ustr option" where
  "value_flag_value flag token rest =
     (case strip_prefix (flag @ [EQ]) token of
        Some v \<Rightarrow> Some v
      | None \<Rightarrow>
          if token = flag then (case rest of n # _ \<Rightarrow> Some n | [] \<Rightarrow> None)
          else if \<not> starts_with flag (lit ''--'')
          then (case strip_prefix flag token of
                  Some v \<Rightarrow> if v = [] then None else Some v
                | None \<Rightarrow> None)
          else None)"

fun value_flag_values :: "ustr \<Rightarrow> ustr list \<Rightarrow> ustr list" where
  "value_flag_values flag [] = []"
| "value_flag_values flag (token # rest) =
     (case value_flag_value flag token rest of Some v \<Rightarrow> [v] | None \<Rightarrow> []) @ value_flag_values flag rest"

fun candidates_loop :: "bool \<Rightarrow> ustr list \<Rightarrow> ustr list" where
  "candidates_loop end_of_options [] = []"
| "candidates_loop end_of_options (token # rest) =
     (if \<not> end_of_options \<and> token = lit ''--'' then candidates_loop True rest
      else if end_of_options \<or> (token \<noteq> [DASH] \<and> \<not> starts_with token [DASH])
      then token # candidates_loop end_of_options rest
      else candidates_loop end_of_options rest)"

definition shell_file_candidates :: "ustr list \<Rightarrow> ustr list" where
  "shell_file_candidates words = candidates_loop False (drop 1 words)"

definition dd_operand :: "ustr \<Rightarrow> (ustr \<times> shell_file_mode) option" where
  "dd_operand token =
     (case strip_prefix (lit ''if='') token of
        Some path \<Rightarrow> Some (path, ModeRead)
      | None \<Rightarrow> map_option (\<lambda>path. (path, ModeWrite)) (strip_prefix (lit ''of='') token))"

definition special_file_operands :: "ustr \<Rightarrow> ustr list \<Rightarrow> (ustr \<times> shell_file_mode) list" where
  "special_file_operands program words =
     (let writes = map (\<lambda>p. (p, ModeWrite)) in
      if program = lit ''dd'' then List.map_filter dd_operand (drop 1 words)
      else if program = lit ''sort'' then writes (shell_output_flag_values True words)
      else if program = lit ''go'' \<or> program = lit ''git'' then writes (shell_output_flag_values False words)
      else if program = lit ''rustc''
      then writes (shell_output_flag_values False words @ value_flag_values (lit ''--out-dir'') words)
      else if program = lit ''rustfmt'' then writes (shell_file_candidates words)
      else [])"

definition is_creation_program :: "ustr \<Rightarrow> bool" where
  "is_creation_program program \<longleftrightarrow> program = lit ''mkdir'' \<or> program = lit ''touch''"

definition shell_path_command_operands :: "ustr \<Rightarrow> ustr list \<Rightarrow> (ustr \<times> shell_file_mode) list option" where
  "shell_path_command_operands program words =
     (let operands = shell_file_candidates words in
      if program \<in> set (map lit [''cp'', ''mv'', ''ln'', ''install''])
      then (if operands = [] then None
            else Some (map (\<lambda>s. (s, ModeRead)) (butlast operands) @ [(last operands, ModeWrite)]))
      else if program = lit ''rm'' \<or> program = lit ''rmdir'' then Some (map (\<lambda>c. (c, ModeWrite)) operands)
      else if is_creation_program program then Some (map (\<lambda>c. (c, ModeCreate)) operands)
      else if program = lit ''uniq''
      then (case operands of
              i # out # _ \<Rightarrow> Some [(i, ModeRead), (out, ModeWrite)]
            | _ \<Rightarrow> None)
      else None)"

definition is_directory_operand :: "ustr \<Rightarrow> bool" where
  "is_directory_operand token \<longleftrightarrow> token = lit ''.'' \<or> token = lit ''..'' \<or> ends_with token [SLASH]"

definition shell_reader_can_recurse :: "ustr \<Rightarrow> ustr list \<Rightarrow> ustr list \<Rightarrow> bool" where
  "shell_reader_can_recurse program words candidates \<longleftrightarrow>
     (program \<in> set (map lit [''grep'', ''egrep'', ''fgrep'']) \<and>
      list_ex (\<lambda>word. word = lit ''--recursive'' \<or> word = lit ''--dereference-recursive'' \<or>
        (starts_with word [DASH] \<and> \<not> starts_with word (lit ''--'') \<and> (114 \<in> set word \<or> 82 \<in> set word))) words) \<or>
     (program \<in> set (map lit [''rg'', ''ag'', ''ack'']) \<and>
      (length candidates \<le> 1 \<or> list_ex is_directory_operand (drop 1 candidates)))"

section \<open>Paths\<close>

definition is_absolute_shell_path :: "ustr \<Rightarrow> bool" where
  "is_absolute_shell_path path \<longleftrightarrow> starts_with path [SLASH] \<or> starts_with path (lit ''~/'') \<or> colon_second path"

definition normalize_shell_path_raw :: "ustr \<Rightarrow> ustr" where
  "normalize_shell_path_raw path =
     (let p = map (\<lambda>c. if c = BSL then SLASH else c) (trim_matches (\<lambda>c. c = DQUOTE \<or> c = SQUOTE) path) in
      case strip_prefix (lit ''/c/'') p of Some rest \<Rightarrow> lit ''C:/'' @ rest | None \<Rightarrow> p)"

fun lexical_loop :: "bool \<Rightarrow> ustr list \<Rightarrow> ustr list \<Rightarrow> ustr list" where
  "lexical_loop absolute [] out = out"
| "lexical_loop absolute (seg # segs) out =
     lexical_loop absolute segs
       (if seg = [] \<or> seg = lit ''.'' then out
        else if seg = lit ''..''
        then (if out \<noteq> [] \<and> last out \<noteq> lit ''..'' then butlast out
              else if \<not> absolute then out @ [lit ''..''] else out)
        else out @ [seg])"

definition lexical_normalize :: "ustr \<Rightarrow> ustr" where
  "lexical_normalize path =
     (let prefix_len = (if colon_second path then 2 else 0);
          prefix = take prefix_len path;
          rest = drop prefix_len path;
          absolute = starts_with rest [SLASH];
          body = join [SLASH] (lexical_loop absolute (split_char SLASH rest) [])
      in if prefix \<noteq> []
         then (if absolute then prefix @ [SLASH] @ body else prefix @ body)
         else if absolute then [SLASH] @ body
         else body)"

definition normalize_shell_path :: "ustr \<Rightarrow> ustr" where
  "normalize_shell_path path = lexical_normalize (normalize_shell_path_raw path)"

definition shell_access :: "shell_file_mode \<Rightarrow> ustr \<Rightarrow> unit access_kind" where
  "shell_access mode path = (case mode of ModeRead \<Rightarrow> AccRead (Some path) | _ \<Rightarrow> AccEdit path)"

section \<open>The file gate\<close>

definition escalate_file ::
  "'g policy_env \<Rightarrow> 'g compiled_policy \<Rightarrow> ustr option \<Rightarrow> unit access_kind \<Rightarrow> gate_decision option"
where
  "escalate_file env pol rule_cwd access =
     (case evaluate_lexical_with_cwd env pol access rule_cwd of
        Some (Reject reason) \<Rightarrow> Some (GReject reason)
      | Some Ask \<Rightarrow> Some AskRuleMatch
      | _ \<Rightarrow> None)"

definition evaluate_shell_path ::
  "'g policy_env \<Rightarrow> 'g compiled_policy \<Rightarrow> ustr \<Rightarrow> ustr \<Rightarrow> shell_file_mode \<Rightarrow> bool \<Rightarrow> gate_decision option"
where
  "evaluate_shell_path env pol token cwd mode cwd_unpinned =
     (let path = normalize_shell_path token;
          is_abs = is_absolute_shell_path path;
          rule_cwd = (if is_abs \<or> \<not> cwd_unpinned then Some cwd else None);
          escalate = escalate_file env pol rule_cwd;
          raw = normalize_shell_path_raw token;
          raw_absolute =
            (if is_absolute_shell_path raw then Some raw
             else if cwd_unpinned then None
             else Some (normalize_shell_path_raw (path_join cwd raw)));
          absolute = (if is_abs then path else normalize_shell_path (path_join cwd path));
          resolved_decision =
            (case raw_absolute of
               None \<Rightarrow> None
             | Some raw_absolute \<Rightarrow>
                 (case follow_absolute_symlink env raw_absolute absolute of
                    FollowTarget resolved \<Rightarrow> escalate (shell_access mode resolved)
                  | Unresolvable \<Rightarrow> Some AskFailClosed
                  | FollowNone \<Rightarrow> None));
          path_decision = escalate (shell_access mode path);
          anchored_decision =
            (if cwd_unpinned \<and> \<not> is_abs then None
             else combine_gate_decisions (escalate (shell_access mode absolute)) resolved_decision);
          decision = combine_gate_decisions path_decision anchored_decision
      in combine_gate_decisions decision (fail_closed_when (cwd_unpinned \<and> \<not> is_abs)))"

text \<open>The state of the scan: the decision so far, and whether it has to ask.\<close>

type_synonym scan_state = "gate_decision option \<times> bool"

definition check_operand ::
  "'g policy_env \<Rightarrow> 'g compiled_policy \<Rightarrow> ustr \<Rightarrow> bool \<Rightarrow> scan_state \<Rightarrow> ustr \<times> shell_file_mode \<Rightarrow> scan_state"
where
  "check_operand env pol cwd unpinned st op =
     (combine_gate_decisions (fst st) (evaluate_shell_path env pol (fst op) cwd (snd op) unpinned),
      snd st \<or> shell_arg_is_ambiguous (fst op))"

definition check_redirect ::
  "'g policy_env \<Rightarrow> 'g compiled_policy \<Rightarrow> ustr \<Rightarrow> bool \<Rightarrow> cwd_poison list \<Rightarrow> scan_state \<Rightarrow> shell_redirect_target \<Rightarrow>
   scan_state"
where
  "check_redirect env pol cwd cwd_unpinned cwd_changes st redirect =
     (let forced = (snd st \<or> rt_ambiguous redirect) in
      case rt_path redirect of
        Some path \<Rightarrow>
          (let unpinned = (cwd_unpinned \<or> cwd_unpinned_before cwd_changes (rt_start_byte redirect) (rt_scope redirect))
           in (combine_gate_decisions (fst st) (evaluate_shell_path env pol path cwd (rt_mode redirect) unpinned), forced))
      | None \<Rightarrow> (fst st, forced))"

text \<open>The inline script of a shell; \<open>inner\<close> is the scan with one level less, \<open>None\<close> when none is left.\<close>

definition check_inline ::
  "(ustr \<Rightarrow> bool \<Rightarrow> gate_decision option) option \<Rightarrow> bool \<Rightarrow> shell_word list \<Rightarrow> scan_state \<Rightarrow> scan_state"
where
  "check_inline inner unpinned sh_words st =
     (case shell_dash_c_script sh_words of
        LiteralAt index \<Rightarrow>
          (case inner of
             None \<Rightarrow> (fst st, True)
           | Some rec_gate \<Rightarrow>
               (case word_at sh_words index of
                  Some (SWLiteral script) \<Rightarrow> (combine_gate_decisions (fst st) (rec_gate script unpinned), snd st)
                | _ \<Rightarrow> st))
      | NotInline \<Rightarrow> st
      | _ \<Rightarrow> (fst st, True))"

definition file_modes :: "ustr \<Rightarrow> ustr list \<Rightarrow> shell_file_mode list option" where
  "file_modes program words =
     (case shell_file_mode_of program of
        Some m \<Rightarrow>
          if program = lit ''sed'' \<and> shell_sed_in_place words then Some [ModeRead, ModeWrite]
          else (case m of ModeRead \<Rightarrow> Some [ModeRead] | ModeWrite \<Rightarrow> Some [ModeWrite] | ModeCreate \<Rightarrow> None)
      | None \<Rightarrow> None)"

definition check_operands ::
  "'g policy_env \<Rightarrow> 'g compiled_policy \<Rightarrow> ustr \<Rightarrow> bool \<Rightarrow> bool \<Rightarrow> invocation_word list \<Rightarrow> scan_state \<Rightarrow> scan_state"
where
  "check_operands env pol cwd parse_failed unpinned words st =
     (case words of
        InvLiteral program_word # _ \<Rightarrow>
          (let lits = literal_words words;
               has_ambiguous_word = (InvUntrusted \<in> set words);
               program = map ascii_lower (last_segment program_word)
           in if program \<in> set (map lit [''cd'', ''pushd'', ''popd'']) then st
              else
                (let candidates = shell_file_candidates lits;
                     path_operands = shell_path_command_operands program lits;
                     is_known = (program = lit ''dd'' \<or> shell_file_mode_of program \<noteq> None \<or> path_operands \<noteq> None);
                     st = (fst st, snd st \<or> is_known \<and> (unpinned \<or> has_ambiguous_word \<or> parse_failed));
                     st = foldl (check_operand env pol cwd unpinned) st (special_file_operands program lits)
                 in if program = lit ''dd'' then st
                    else (case path_operands of
                            Some operands \<Rightarrow> foldl (check_operand env pol cwd unpinned) st operands
                          | None \<Rightarrow>
                              (case file_modes program lits of
                                 None \<Rightarrow> st
                               | Some modes \<Rightarrow>
                                   (let st = foldl (check_operand env pol cwd unpinned) st
                                               (concat (map (\<lambda>token. map (Pair token) modes) candidates))
                                    in (fst st, snd st \<or> shell_reader_can_recurse program lits candidates))))))
      | _ \<Rightarrow> st)"

definition check_invocation ::
  "'g policy_env \<Rightarrow> 'g compiled_policy \<Rightarrow> ustr \<Rightarrow> (ustr \<Rightarrow> bool \<Rightarrow> gate_decision option) option \<Rightarrow> bool \<Rightarrow> bool \<Rightarrow>
   cwd_poison list \<Rightarrow> scan_state \<Rightarrow> shell_invocation \<Rightarrow> scan_state"
where
  "check_invocation env pol cwd inner parse_failed cwd_unpinned cwd_changes st invocation =
     (let peeled = unwrap_invocation_checked invocation;
          words = ip_words peeled;
          unpinned =
            (cwd_unpinned \<or> cwd_unpinned_before cwd_changes (si_start_byte invocation) (si_scope invocation) \<or>
             ip_has_chdir peeled);
          sh_words = shell_words words;
          forced =
            (snd st \<or> ip_exhausted peeled \<or> ip_has_split_string peeled \<or> ip_env_options_uncertain peeled \<or>
             ip_transparent_ambiguous peeled \<or> parse_failed \<and> shell_dash_c_script sh_words \<noteq> NotInline)
      in check_operands env pol cwd parse_failed unpinned words (check_inline inner unpinned sh_words (fst st, forced)))"

definition file_access_script ::
  "'g policy_env \<Rightarrow> 'g compiled_policy \<Rightarrow> ustr \<Rightarrow> (ustr \<Rightarrow> bool \<Rightarrow> gate_decision option) option \<Rightarrow> ustr \<Rightarrow> bool \<Rightarrow> bool \<Rightarrow>
   gate_decision option"
where
  "file_access_script env pol cwd inner cmd cwd_unpinned entered_inline =
     (case pe_parse env cmd of
        None \<Rightarrow> fail_closed_when entered_inline
      | Some root \<Rightarrow>
          (let parse_failed = nd_has_error root;
               cwd_changes = cwd_poison_positions root cmd;
               st = foldl (check_redirect env pol cwd cwd_unpinned cwd_changes)
                      (None, entered_inline \<and> parse_failed) (shell_redirect_targets root cmd);
               st = foldl (check_invocation env pol cwd inner parse_failed cwd_unpinned cwd_changes)
                      st (shell_command_invocations root cmd)
           in combine_gate_decisions (fst st) (fail_closed_when (snd st))))"

primrec evaluate_shell_file_access_inner ::
  "'g policy_env \<Rightarrow> 'g compiled_policy \<Rightarrow> ustr \<Rightarrow> nat \<Rightarrow> ustr \<Rightarrow> bool \<Rightarrow> bool \<Rightarrow> gate_decision option"
where
  "evaluate_shell_file_access_inner env pol cwd 0 = file_access_script env pol cwd None"
| "evaluate_shell_file_access_inner env pol cwd (Suc n) =
     file_access_script env pol cwd
       (Some (\<lambda>script unpinned. evaluate_shell_file_access_inner env pol cwd n script unpinned True))"

definition evaluate_shell_file_access_gate ::
  "'g policy_env \<Rightarrow> 'g compiled_policy \<Rightarrow> ustr \<Rightarrow> ustr \<Rightarrow> gate_decision option"
where
  "evaluate_shell_file_access_gate env pol cmd cwd =
     (if \<not> cp_has_file_restrictions pol then None
      else evaluate_shell_file_access_inner env pol cwd MAX_INLINE_SHELL_DEPTH cmd False False)"

definition evaluate_shell_file_access ::
  "'g policy_env \<Rightarrow> 'g compiled_policy \<Rightarrow> ustr \<Rightarrow> ustr \<Rightarrow> decision option"
where
  "evaluate_shell_file_access env pol cmd cwd =
     map_option into_decision (evaluate_shell_file_access_gate env pol cmd cwd)"

section \<open>Write paths\<close>

definition write_operands :: "(ustr \<times> shell_file_mode) list \<Rightarrow> ustr list" where
  "write_operands ops = map fst (filter (\<lambda>(_, m). m = ModeWrite) ops)"

definition command_words_write_paths :: "ustr list \<Rightarrow> ustr list" where
  "command_words_write_paths words =
     (case unwrap_wrappers words of
        [] \<Rightarrow> []
      | w # ws \<Rightarrow>
          (let inner = w # ws;
               program = map ascii_lower (last_segment w);
               out = write_operands (special_file_operands program inner)
           in case shell_path_command_operands program inner of
                Some operands \<Rightarrow> out @ write_operands operands
              | None \<Rightarrow>
                  if shell_file_mode_of program = Some ModeWrite \<or> program = lit ''sed'' \<and> shell_sed_in_place inner
                  then out @ shell_file_candidates inner else out))"

definition command_words_creation_paths :: "ustr list \<Rightarrow> ustr list" where
  "command_words_creation_paths words =
     (case unwrap_wrappers words of
        [] \<Rightarrow> []
      | w # ws \<Rightarrow>
          (case shell_path_command_operands (map ascii_lower (last_segment w)) (w # ws) of
             Some operands \<Rightarrow> map fst (filter (\<lambda>(_, m). m = ModeCreate) operands)
           | None \<Rightarrow> []))"

record write_paths_split =
  wp_redirect_paths :: "ustr list"
  wp_unextracted_write_redirect :: bool
  wp_word_paths :: "ustr list"
  wp_creation_paths :: "ustr list"

definition command_write_paths_split :: "node \<Rightarrow> ustr \<Rightarrow> write_paths_split" where
  "command_write_paths_split root src =
     (let writes = filter (\<lambda>r. rt_mode r = ModeWrite) (shell_redirect_targets root src);
          lits = map (\<lambda>i. literal_words (si_words i)) (shell_command_invocations root src)
      in \<lparr>wp_redirect_paths = List.map_filter rt_path writes,
          wp_unextracted_write_redirect = list_ex (\<lambda>r. rt_path r = None) writes,
          wp_word_paths = concat (map command_words_write_paths lits),
          wp_creation_paths = concat (map command_words_creation_paths lits)\<rparr>)"

definition command_write_paths_in_tree :: "node \<Rightarrow> ustr \<Rightarrow> ustr list" where
  "command_write_paths_in_tree root src =
     (let split = command_write_paths_split root src in wp_redirect_paths split @ wp_word_paths split)"

definition is_safe_write_sink :: "ustr \<Rightarrow> bool" where
  "is_safe_write_sink path \<longleftrightarrow> path \<in> set (map lit [''/dev/null'', ''/dev/stdout'', ''/dev/stderr''])"

end
