(* ===== verification/Shell_Paths.thy ===== *)
theory Shell_Paths
  imports Shell_Access
begin

text \<open>
  How the file gate treats the spelling of a path: its lexical normalisation is the one of the file tools, and
  a path named in a shell command is judged as the tool that would read or write it.
\<close>

section \<open>Segments\<close>

definition segs :: "ustr \<Rightarrow> ustr list" where
  "segs p = filter (\<lambda>s. \<not> trivial_seg s) (split_char SLASH p)"

definition seg_step :: "bool \<Rightarrow> ustr list \<Rightarrow> ustr \<Rightarrow> ustr list" where
  "seg_step absolute out seg =
     (if seg = lit ''..''
      then (if out \<noteq> [] \<and> last out \<noteq> lit ''..'' then butlast out
            else if \<not> absolute then out @ [lit ''..''] else out)
      else out @ [seg])"

lemma dots [simp]: "lit ''..'' = [DOT, DOT]" "lit ''.'' = [DOT]"
  by (simp_all add: lit_def)

lemma lexical_loop_foldl:
  "lexical_loop a ss out = foldl (seg_step a) out (filter (\<lambda>s. \<not> trivial_seg s) ss)"
  by (induction ss arbitrary: out) (auto simp: seg_step_def trivial_seg_def)

lemma split_char_append_sep: "split_char c (a @ c # b) = split_char c a @ split_char c b"
  by (induction a) (auto split: list.splits)

lemma segs_append: "segs (a @ SLASH # b) = segs a @ segs b"
  by (simp add: segs_def split_char_append_sep)

lemma segs_good: "list_all good_seg (segs p)"
  by (auto simp: segs_def list_all_iff good_seg_def dest: split_char_no_sep)

lemma segs_Nil [simp]: "segs [] = []"
  by (simp add: segs_def trivial_seg_def)

lemma segs_path_join: "\<not> is_absolute p \<Longrightarrow> base \<noteq> [] \<Longrightarrow> segs (path_join base p) = segs base @ segs p"
proof (cases "last base = SLASH")
  case True
  moreover assume "\<not> is_absolute p" "base \<noteq> []"
  ultimately obtain b where b: "base = b @ [SLASH]" "path_join base p = b @ SLASH # p"
    by (metis append_butlast_last_id append_Cons append_assoc path_join_def self_append_conv2)
  then show ?thesis using segs_append[of b p] segs_append[of b "[]"] by simp
next
  case False
  moreover assume "\<not> is_absolute p" "base \<noteq> []"
  ultimately show ?thesis by (simp add: path_join_def segs_append)
qed

lemma absolute_Cons: "is_absolute p \<longleftrightarrow> (\<exists>r. p = SLASH # r)"
  by (auto simp: is_absolute_def starts_with_iff)

lemma components_segs: "is_absolute p \<Longrightarrow> components p = RootDir # map seg_component (segs p)"
  unfolding absolute_Cons
  by (auto simp: components_def lead_components_def body_components_def body_segs_def path_lead_def is_absolute_def
      starts_with_def segs_def trivial_seg_def)

lemma segs_join: "list_all good_seg ss \<Longrightarrow> segs (join [SLASH] ss) = ss"
proof (cases ss)
  case (Cons s r)
  moreover assume g: "list_all good_seg ss"
  ultimately have "split_char SLASH (join [SLASH] ss) = ss"
    by (intro split_char_join) (auto simp: list_all_iff good_seg_def)
  with g show ?thesis by (simp add: segs_def filter_id_conv list_all_iff good_seg_def)
qed simp

section \<open>The two normalisations\<close>

definition norm_from :: "component list \<Rightarrow> ustr list \<Rightarrow> component list" where
  "norm_from acc ss = foldl norm_step acc (map seg_component ss)"

lemma norm_from_simps [simp]: "norm_from acc [] = acc" "norm_from acc (ss @ ts) = norm_from (norm_from acc ss) ts"
  "norm_from acc [s] = norm_step acc (seg_component s)"
  by (simp_all add: norm_from_def)

text \<open>Normalising first by itself changes nothing to what is reached from a directory.\<close>

lemma norm_from_step:
  "\<not> trivial_seg s \<Longrightarrow> norm_from acc (seg_step False out s) = norm_step (norm_from acc out) (seg_component s)"
proof (cases "s = lit ''..'' \<and> out \<noteq> [] \<and> last out \<noteq> lit ''..''")
  case True
  then have "norm_from acc out = norm_step (norm_from acc (butlast out)) (Normal (last out))"
    by (metis append_butlast_last_id dots(1) norm_from_simps(2,3) seg_component_def)
  then show ?thesis using True by (simp add: seg_step_def seg_component_def norm_step_def)
qed (auto simp: seg_step_def)

lemma norm_from_relative:
  "list_all (\<lambda>s. \<not> trivial_seg s) ss \<Longrightarrow> norm_from acc (foldl (seg_step False) out ss) = norm_from (norm_from acc out) ss"
proof (induction ss arbitrary: out)
  case (Cons s ss)
  then show ?case using norm_from_step[of s acc out] by (simp add: norm_from_def)
qed simp

lemma norm_from_absolute:
  "list_all (\<lambda>s. \<not> trivial_seg s) ss \<Longrightarrow> [DOT, DOT] \<notin> set out \<Longrightarrow>
     [DOT, DOT] \<notin> set (foldl (seg_step True) out ss) \<and>
     norm_from (rev (RootDir # map Normal out)) ss = rev (RootDir # map Normal (foldl (seg_step True) out ss))"
proof (induction ss arbitrary: out)
  case (Cons s ss)
  let ?out = "seg_step True out s"
  have "[DOT, DOT] \<notin> set ?out" using Cons.prems by (auto simp: seg_step_def dest: in_set_butlastD)
  moreover have "norm_step (rev (RootDir # map Normal out)) (seg_component s) = rev (RootDir # map Normal ?out)"
    using Cons.prems(2)
    by (cases out rule: rev_cases) (auto simp: seg_step_def norm_step_def seg_component_def)
  ultimately show ?case using Cons.IH[of ?out] Cons.prems by (simp add: norm_from_def)
qed simp

lemma seg_step_good: "list_all good_seg out \<Longrightarrow> good_seg s \<Longrightarrow> list_all good_seg (seg_step a out s)"
  by (auto simp: seg_step_def list_all_iff good_seg_def trivial_seg_def dest: in_set_butlastD)

lemma seg_steps_good: "list_all good_seg ss \<Longrightarrow> list_all good_seg out \<Longrightarrow> list_all good_seg (foldl (seg_step a) out ss)"
  by (induction ss arbitrary: out) (auto simp: seg_step_good)

lemma segs_not_trivial: "list_all (\<lambda>s. \<not> trivial_seg s) (segs p)"
  using segs_good[of p] by (simp add: list_all_iff good_seg_def)

lemma normalize_segs:
  assumes "is_absolute p"
  shows "normalize_lexically p = collect_path (rev (norm_from [RootDir] (segs p)))"
proof -
  have "foldl norm_step [] (components p) = norm_from [RootDir] (segs p)"
    by (simp add: components_segs[OF assms] norm_from_def norm_step_def)
  moreover have "norm_from [RootDir] (segs p) \<noteq> []"
    using norm_from_absolute[OF segs_not_trivial, of "[]" p] by simp
  ultimately show ?thesis by (simp add: normalize_lexically_def norm_components_def Let_def)
qed

lemma lexical_normalize_segs:
  "\<not> colon_second p \<Longrightarrow>
     lexical_normalize p = (if is_absolute p then [SLASH] else []) @ join [SLASH] (foldl (seg_step (is_absolute p)) [] (segs p))"
  by (simp add: lexical_normalize_def Let_def is_absolute_def lexical_loop_foldl segs_def)

lemma collect_root: "list_all good_seg ss \<Longrightarrow> collect_path (RootDir # map Normal ss) = SLASH # join [SLASH] ss"
  using foldl_join[of ss "[SLASH]"]
  by (simp add: collect_path_def component_str_def path_join_def is_absolute_def starts_with_def comp_def)

lemma lexical_normalize_absolute:
  assumes "is_absolute p" "\<not> colon_second p"
  shows "lexical_normalize p = normalize_lexically p"
proof -
  let ?out = "foldl (seg_step True) [] (segs p)"
  have "norm_from [RootDir] (segs p) = rev (RootDir # map Normal ?out)"
    using norm_from_absolute[OF segs_not_trivial, of "[]"] by simp
  moreover have "list_all good_seg ?out" using seg_steps_good[OF segs_good] by simp
  ultimately show ?thesis
    using assms by (simp add: normalize_segs lexical_normalize_segs collect_root)
qed

lemma lexical_normalize_relative:
  assumes "\<not> is_absolute p" "\<not> colon_second p"
  shows "segs (lexical_normalize p) = foldl (seg_step False) [] (segs p)" "\<not> is_absolute (lexical_normalize p)"
proof -
  let ?out = "foldl (seg_step False) [] (segs p)"
  have g: "list_all good_seg ?out" using seg_steps_good[OF segs_good] by simp
  have e: "lexical_normalize p = join [SLASH] ?out" using lexical_normalize_segs[OF assms(2)] assms(1) by simp
  show "segs (lexical_normalize p) = ?out" unfolding e by (rule segs_join[OF g])
  show "\<not> is_absolute (lexical_normalize p)"
  proof (cases ?out)
    case (Cons s r)
    then show ?thesis using g lead_join(2)[of s r] by (simp add: e list_all_iff good_seg_def)
  qed (simp add: e is_absolute_def starts_with_def)
qed

lemma join_normalize:
  assumes "is_absolute cwd" "\<not> is_absolute p" "\<not> colon_second p"
  shows "normalize_lexically (path_join cwd (lexical_normalize p)) = normalize_lexically (path_join cwd p)"
proof -
  have abs: "is_absolute (path_join cwd q)" "cwd \<noteq> []" if "\<not> is_absolute q" for q
    using assms(1) that by (auto simp: path_join_def absolute_Cons)
  have "norm_from [RootDir] (segs cwd @ segs (lexical_normalize p)) = norm_from [RootDir] (segs cwd @ segs p)"
    using norm_from_relative[OF segs_not_trivial, of _ "[]" p] lexical_normalize_relative[OF assms(2,3)] by simp
  then show ?thesis
    using abs lexical_normalize_relative(2)[OF assms(2,3)] assms(2) by (simp add: normalize_segs segs_path_join)
qed

section \<open>Paths the gate reads as the tools do\<close>

text \<open>
  A token without quotes, backslashes, drive letters and tildes, and a directory of the same kind.
\<close>

definition plain_chars :: "ustr \<Rightarrow> bool" where
  "plain_chars p \<longleftrightarrow> BSL \<notin> set p \<and> SQUOTE \<notin> set p \<and> DQUOTE \<notin> set p"

definition plain_token :: "ustr \<Rightarrow> bool" where
  "plain_token p \<longleftrightarrow>
     plain_chars p \<and> \<not> colon_second p \<and> \<not> starts_with p (lit ''/c/'') \<and>
     list_all (\<lambda>s. \<not> starts_with s (lit ''~'') \<and> \<not> colon_second s) (segs p)"

definition plain_cwd :: "ustr \<Rightarrow> bool" where
  "plain_cwd cwd \<longleftrightarrow>
     is_absolute cwd \<and> plain_chars cwd \<and> 2 \<le> length cwd \<and> \<not> colon_second cwd \<and>
     \<not> starts_with (cwd @ [SLASH]) (lit ''/c/'')"

lemma trim_matches_none: "list_all (\<lambda>c. \<not> P c) s \<Longrightarrow> trim_matches P s = s"
proof -
  assume a: "list_all (\<lambda>c. \<not> P c) s"
  have d: "list_all (\<lambda>c. \<not> P c) t \<Longrightarrow> dropWhile P t = t" for t by (cases t) auto
  show ?thesis using d[of s] d[of "rev s"] a by (simp add: trim_matches_def)
qed

lemma raw_plain: "plain_chars p \<Longrightarrow> \<not> starts_with p (lit ''/c/'') \<Longrightarrow> normalize_shell_path_raw p = p"
proof -
  assume p: "plain_chars p" "\<not> starts_with p (lit ''/c/'')"
  then have "trim_matches (\<lambda>c. c = DQUOTE \<or> c = SQUOTE) p = p"
    by (intro trim_matches_none) (auto simp: plain_chars_def list_all_iff)
  moreover have "map (\<lambda>c. if c = BSL then SLASH else c) p = p" using p(1) by (auto simp: plain_chars_def intro: map_idI)
  ultimately show ?thesis using p(2) by (simp add: normalize_shell_path_raw_def starts_with_def split: option.splits)
qed

lemma match_string_plain: "plain_chars p \<Longrightarrow> path_match_string p = p"
  by (auto simp: path_match_string_def plain_chars_def intro!: map_idI)

text \<open>The characters of a normalised path are those of the path, dots and slashes.\<close>

lemma set_join: "set (join sep ss) \<subseteq> set sep \<union> \<Union> (set ` set ss)"
  by (induction sep ss rule: join.induct) auto

lemma set_split_char: "s \<in> set (split_char c p) \<Longrightarrow> set s \<subseteq> set p"
proof (induction c p arbitrary: s rule: split_char.induct)
  case (2 c x p)
  then show ?case by (fastforce split: if_splits list.splits)
qed simp

lemma seg_steps_set: "set (foldl (seg_step a) out ss) \<subseteq> set out \<union> set ss \<union> {[DOT, DOT]}"
proof (induction ss arbitrary: out)
  case (Cons s ss)
  have "set (seg_step a out s) \<subseteq> set out \<union> {s, [DOT, DOT]}"
    by (auto simp: seg_step_def dest: in_set_butlastD)
  with Cons[of "seg_step a out s"] show ?case by auto
qed auto

lemma lexical_normalize_chars:
  assumes "\<not> colon_second p"
  shows "set (lexical_normalize p) \<subseteq> set p \<union> {DOT, SLASH}"
proof -
  have "set s \<subseteq> set p" if "s \<in> set (segs p)" for s using that by (auto simp: segs_def dest: set_split_char)
  then show ?thesis
    using seg_steps_set[of "is_absolute p" "[]" "segs p"]
      set_join[of "[SLASH]" "foldl (seg_step (is_absolute p)) [] (segs p)"]
    unfolding lexical_normalize_segs[OF assms] by (auto split: if_splits; fastforce)
qed

lemma plain_normalize: "plain_chars p \<Longrightarrow> \<not> colon_second p \<Longrightarrow> plain_chars (lexical_normalize p)"
  using lexical_normalize_chars unfolding plain_chars_def by fastforce

lemma plain_join: "plain_chars cwd \<Longrightarrow> plain_chars p \<Longrightarrow> plain_chars (path_join cwd p)"
  by (auto simp: plain_chars_def path_join_def)

lemma cwd_join:
  assumes "plain_cwd cwd" "\<not> is_absolute p"
  shows "is_absolute (path_join cwd p)" "\<not> colon_second (path_join cwd p)" "\<not> starts_with (path_join cwd p) (lit ''/c/'')"
proof -
  obtain a b r where c: "cwd = a # b # r" using assms(1) by (cases cwd rule: remdups_adj.cases) (auto simp: plain_cwd_def)
  show "is_absolute (path_join cwd p)" "\<not> colon_second (path_join cwd p)"
    using assms c by (auto simp: plain_cwd_def path_join_def colon_second_def absolute_Cons)
  show "\<not> starts_with (path_join cwd p) (lit ''/c/'')"
    using assms c by (cases r) (auto simp: plain_cwd_def path_join_def starts_with_def lit_def split: if_splits)
qed

lemma normalize_idem:
  assumes "is_absolute p"
  shows "is_absolute (normalize_lexically p)" "normalize_lexically (normalize_lexically p) = normalize_lexically p"
proof -
  obtain ns where ns: "components (normalize_lexically p) = RootDir # map Normal ns"
    "normalize_lexically p = collect_path (RootDir # map Normal ns)"
    using normalize_absolute[OF assms] by blast
  then show "is_absolute (normalize_lexically p)" using components_absolute by blast
  have "foldl norm_step acc (map Normal ns) = rev (map Normal ns) @ acc" for acc
    by (induction ns arbitrary: acc) (simp_all add: norm_step_def)
  then have "norm_components (RootDir # map Normal ns) = RootDir # map Normal ns"
    by (simp add: norm_components_def norm_step_def)
  then show "normalize_lexically (normalize_lexically p) = normalize_lexically p"
    using ns by (simp add: normalize_lexically_def[of "collect_path (RootDir # map Normal ns)"])
qed

lemma eval_forms:
  assumes "path_match_forms p c = path_match_forms q c"
  shows "evaluate_lexical_with_cwd env pol (shell_access m p) c = evaluate_lexical_with_cwd env pol (shell_access m q) c"
proof -
  have "pattern_matches env (shell_access m p) rule matcher c = pattern_matches env (shell_access m q) rule matcher c"
    "rule_reaches (shell_access m p) rule = rule_reaches (shell_access m q) rule" for rule matcher
    using assms by (cases m; simp add: pattern_matches_def path_context_matches_def shell_access_def rule_reaches_def
        tool_filter_matches_def split: option.splits tool_filter.splits)+
  then have "rule_loop env (shell_access m p) c rs x y = rule_loop env (shell_access m q) c rs x y" for rs x y
    by (induction rs arbitrary: x y) (auto split: rule_action.splits)
  then show ?thesis by (cases m) (auto simp: evaluate_lexical_with_cwd_def shell_access_def split: sum.splits)
qed

lemma rule_loop_Inl: "rule_loop env access c rs x y = Inl d \<Longrightarrow> \<exists>r. d = Reject r"
  by (induction env access c rs x y rule: rule_loop.induct) (auto split: if_splits rule_action.splits)

lemma lexical_cases:
  "(\<exists>r. evaluate_lexical_with_cwd env pol access c = Some (Reject r)) \<or>
   evaluate_lexical_with_cwd env pol access c \<in> {Some Ask, Some Allow, None}"
  by (auto simp: evaluate_lexical_with_cwd_def dest!: rule_loop_Inl split: sum.splits access_kind.splits)

lemma not_policy_deny: "evaluate_lexical_with_cwd env pol access c \<noteq> Some (PolicyDeny x)"
  using lexical_cases[of env pol access c] by auto

lemma relative_components:
  assumes "\<not> is_absolute p"
  shows "components p = lead_components p @ map seg_component (segs p) \<or> components p = CurDir # map seg_component (segs p)"
proof (cases "path_lead p = [DOT]")
  case True
  then obtain r where "p = [DOT] \<or> p = DOT # SLASH # r"
    by (auto simp: path_lead_def starts_with_iff split: if_splits)
  then have "segs p = filter (\<lambda>s. \<not> trivial_seg s) (body_segs p)"
    using True by (auto simp: segs_def body_segs_def trivial_seg_def)
  then show ?thesis using True assms by (simp add: components_def lead_components_def body_components_def)
next
  case False
  then have "path_lead p = []" using assms by (auto simp: path_lead_def split: if_splits)
  then show ?thesis by (simp add: components_def body_components_def body_segs_def segs_def)
qed

lemma not_tilde:
  assumes "list_all (\<lambda>s. \<not> starts_with s (lit ''~'')) (segs p)"
  shows "\<not> is_tilde_path p"
proof (cases "is_absolute p")
  case True
  then show ?thesis by (simp add: is_tilde_path_def components_segs)
next
  case False
  have "\<not> starts_with s (lit ''~'')" if "components p = Normal s # r" for s r
    using relative_components[OF False] that assms
    by (cases "segs p") (auto simp: lead_components_def seg_component_def split: if_splits)
  then show ?thesis by (auto simp: is_tilde_path_def split: list.splits component.splits)
qed

lemma native_access:
  "native_file_path (shell_access mode tok) = Some tok"
  "access_with_path (shell_access mode tok) r = shell_access mode r"
  by (cases mode; simp add: shell_access_def native_file_path_def access_with_path_def)+

lemma segs_tilde: "starts_with p (lit ''~/'') \<Longrightarrow> \<not> list_all (\<lambda>s. \<not> starts_with s (lit ''~'')) (segs p)"
  by (auto simp: starts_with_iff lit_def segs_def trivial_seg_def)

lemma colon_join:
  assumes "list_all good_seg ss" "list_all (\<lambda>s. \<not> colon_second s) ss"
  shows "\<not> colon_second (join [SLASH] ss)"
proof (cases ss rule: remdups_adj.cases)
  case (3 a b r)
  then obtain x y where "a = x # y" using assms(1) by (cases a) (auto simp: good_seg_def trivial_seg_def)
  then show ?thesis using 3 assms(2) by (cases y) (auto simp: colon_second_def)
qed (use assms in \<open>auto simp: colon_second_def\<close>)

text \<open>What the gate computes from a plain token: the path in the forms of the tools.\<close>

lemma plain_token_facts:
  assumes "plain_token tok" "plain_cwd cwd"
  defines "full \<equiv> joined_path tok (Some cwd)" and "path \<equiv> normalize_shell_path tok"
  shows "normalize_shell_path_raw tok = tok" "is_absolute_shell_path tok = is_absolute tok"
    "is_absolute_shell_path path = is_absolute tok" "is_absolute full" "plain_chars full" "\<not> colon_second full"
    "\<not> starts_with full (lit ''/c/'')"
    "is_absolute tok \<Longrightarrow> path = normalize_lexically tok"
    "\<not> is_absolute tok \<Longrightarrow> normalize_shell_path (path_join cwd path) = normalize_lexically full"
    "path_match_forms path (Some cwd) = path_match_forms tok (Some cwd)"
    "path_match_forms (normalize_lexically full) (Some cwd) = path_match_forms tok (Some cwd)"
    "absolute_normalized_path tok (Some cwd) = normalize_lexically full"
proof -
  have tok: "plain_chars tok" "\<not> colon_second tok" "\<not> starts_with tok (lit ''/c/'')"
    "list_all (\<lambda>s. \<not> starts_with s (lit ''~'')) (segs tok)" "list_all (\<lambda>s. \<not> colon_second s) (segs tok)"
    using assms(1) by (auto simp: plain_token_def list_all_iff)
  have cwd: "is_absolute cwd" "plain_chars cwd" using assms(2) by (auto simp: plain_cwd_def)
  show raw: "normalize_shell_path_raw tok = tok" by (rule raw_plain[OF tok(1,3)])
  have path: "path = lexical_normalize tok" by (simp add: path_def normalize_shell_path_def raw)
  show "is_absolute_shell_path tok = is_absolute tok"
    using tok segs_tilde[of tok] by (auto simp: is_absolute_shell_path_def is_absolute_def)
  show full: "is_absolute full" "plain_chars full" "\<not> colon_second full" "\<not> starts_with full (lit ''/c/'')"
    using tok cwd cwd_join[OF assms(2)] plain_join by (auto simp: full_def joined_path_def)
  show abs: "is_absolute tok \<Longrightarrow> path = normalize_lexically tok"
    using lexical_normalize_absolute tok(2) path by simp
  have tilde: "\<not> is_tilde_path tok" by (rule not_tilde[OF tok(4)])
  then show norm: "absolute_normalized_path tok (Some cwd) = normalize_lexically full"
    by (simp add: absolute_normalized_path_def full_def)
  have n_abs: "is_absolute (normalize_lexically full)" "normalize_lexically (normalize_lexically full) = normalize_lexically full"
    using normalize_idem full(1) by auto
  then have n: "absolute_normalized_path (normalize_lexically full) (Some cwd) = normalize_lexically full"
    by (simp add: absolute_normalized_path_def joined_path_def)
  show forms: "path_match_forms (normalize_lexically full) (Some cwd) = path_match_forms tok (Some cwd)"
    by (simp add: path_match_forms_def norm n)
  have "is_absolute_shell_path path = is_absolute tok \<and>
    path_match_forms path (Some cwd) = path_match_forms tok (Some cwd) \<and>
    (\<not> is_absolute tok \<longrightarrow> normalize_shell_path (path_join cwd path) = normalize_lexically full)"
  proof (cases "is_absolute tok")
    case True
    then have p: "path = normalize_lexically full" using abs by (simp add: full_def joined_path_def)
    then show ?thesis using n_abs(1) forms True by (simp add: is_absolute_shell_path_def is_absolute_def)
  next
    case False
    have r: "segs path = foldl (seg_step False) [] (segs tok)" "\<not> is_absolute path"
      using lexical_normalize_relative[OF False tok(2)] path by auto
    have s: "list_all (\<lambda>s. \<not> starts_with s (lit ''~'')) (segs path)" "list_all (\<lambda>s. \<not> colon_second s) (segs path)"
      using seg_steps_set[of False "[]" "segs tok"] tok(4,5) unfolding r(1)
      by (auto simp: list_all_iff subset_iff starts_with_def lit_def colon_second_def)
    have "path = join [SLASH] (segs path)"
      using lexical_normalize_segs[OF tok(2)] False path r(1) by simp
    then have "\<not> colon_second path" using colon_join segs_good s(2) by metis
    moreover have "\<not> starts_with path (lit ''~/'')" using s(1) segs_tilde by blast
    ultimately have p: "is_absolute_shell_path path = is_absolute tok"
      using r(2) False by (simp add: is_absolute_shell_path_def is_absolute_def)
    have j: "full = path_join cwd tok" using False by (simp add: full_def joined_path_def)
    have "normalize_lexically (path_join cwd path) = normalize_lexically full"
      using join_normalize[OF cwd(1) False tok(2)] path j by simp
    moreover have "normalize_shell_path (path_join cwd path) = normalize_lexically (path_join cwd path)"
      using cwd_join[OF assms(2) r(2)] raw_plain plain_join[OF cwd(2)] plain_normalize[OF tok(1,2)] path
      by (simp add: normalize_shell_path_def lexical_normalize_absolute)
    ultimately show ?thesis using not_tilde[OF s(1)] r(2) norm p
      by (simp add: path_match_forms_def absolute_normalized_path_def joined_path_def)
  qed
  then show "is_absolute_shell_path path = is_absolute tok"
    "path_match_forms path (Some cwd) = path_match_forms tok (Some cwd)"
    "\<not> is_absolute tok \<Longrightarrow> normalize_shell_path (path_join cwd path) = normalize_lexically full"
    by blast+
qed

text \<open>
  A path without quotes, backslashes, drive letters and tildes, relative to a directory the command has not
  changed, is rejected exactly when the direct access to it would be.
\<close>

lemma shell_path_as_tool:
  assumes "plain_token tok" "plain_cwd cwd" "unpinned \<longrightarrow> is_absolute tok"
  shows "((\<exists>r. evaluate_shell_path env pol tok cwd mode unpinned = Some (GReject r)) \<longleftrightarrow>
      (\<exists>r. evaluate_with_cwd env pol (shell_access mode tok) (Some cwd) = Some (Reject r))) \<and>
    (evaluate_with_cwd env pol (shell_access mode tok) (Some cwd) = Some Ask \<longrightarrow>
      evaluate_shell_path env pol tok cwd mode unpinned \<noteq> None)"
proof -
  note f = plain_token_facts[OF assms(1,2)]
  let ?full = "joined_path tok (Some cwd)" and ?path = "normalize_shell_path tok"
  let ?abs = "normalize_lexically ?full"
  let ?e = "evaluate_lexical_with_cwd env pol (shell_access mode tok) (Some cwd)"
  let ?follow = "follow_absolute_symlink env ?full ?abs"
  have "plain_chars ?abs"
    using plain_normalize[OF f(5,6)] lexical_normalize_absolute[OF f(4,6)] by simp
  then have ms: "path_match_string ?full = ?full" "path_match_string ?abs = ?abs"
    using match_string_plain f(5) by auto
  have "raw_absolute_tool_path tok (Some cwd) = Some ?full"
    using f(4) ms(1) not_tilde assms(1) by (simp add: raw_absolute_tool_path_def plain_token_def list_all_iff)
  then have direct: "evaluate_with_cwd env pol (shell_access mode tok) (Some cwd) =
      (case ?follow of
         FollowTarget r \<Rightarrow>
           combine_decisions ?e
             (case evaluate_lexical_with_cwd env pol (shell_access mode r) (Some cwd) of
                Some (Reject r) \<Rightarrow> Some (Reject r) | Some Ask \<Rightarrow> Some Ask | _ \<Rightarrow> None)
       | Unresolvable \<Rightarrow>
           if native_path_restrictions_apply pol (shell_access mode tok) then combine_decisions ?e (Some Ask) else ?e
       | FollowNone \<Rightarrow> ?e)"
    by (simp add: evaluate_with_cwd_def evaluate_with_cwd_details_def Let_def native_access f(12) ms split: symlink_follow.splits)
  have esc: "escalate_file env pol (Some cwd) (shell_access mode ?path) = escalate_file env pol (Some cwd) (shell_access mode tok)"
    "escalate_file env pol (Some cwd) (shell_access mode ?abs) = escalate_file env pol (Some cwd) (shell_access mode tok)"
    using eval_forms[OF f(10), of env pol mode] eval_forms[OF f(11), of env pol mode] by (simp_all add: escalate_file_def)
  have raw: "(if is_absolute_shell_path tok then Some tok else if unpinned then None
        else Some (normalize_shell_path_raw (path_join cwd tok))) = Some ?full"
    using f(2,5,7) assms(3) raw_plain[OF f(5,7)] by (auto simp: joined_path_def)
  have absolute: "(if is_absolute tok then ?path else normalize_shell_path (path_join cwd ?path)) = ?abs"
    using f(8,9) by (auto simp: joined_path_def)
  have shell: "evaluate_shell_path env pol tok cwd mode unpinned =
      combine_gate_decisions (escalate_file env pol (Some cwd) (shell_access mode tok))
        (combine_gate_decisions (escalate_file env pol (Some cwd) (shell_access mode tok))
           (case ?follow of
              FollowTarget r \<Rightarrow> escalate_file env pol (Some cwd) (shell_access mode r)
            | Unresolvable \<Rightarrow> Some AskFailClosed
            | FollowNone \<Rightarrow> None))"
    using assms(3) raw absolute
    by (auto simp: evaluate_shell_path_def Let_def f(1,3) esc fail_closed_when_def gate.combine_None2)
  show ?thesis
    unfolding direct shell escalate_file_def
    by (cases ?follow) (auto simp: not_policy_deny combine_gate_decisions_def combine_decisions_def gate_rank_def decision_rank_def
        split: option.splits decision.splits)
qed

section \<open>What a script touches\<close>

definition invocation_unpinned :: "bool \<Rightarrow> cwd_poison list \<Rightarrow> shell_invocation \<Rightarrow> bool" where
  "invocation_unpinned u changes invo \<longleftrightarrow>
     u \<or> cwd_unpinned_before changes (si_start_byte invo) (si_scope invo) \<or>
     ip_has_chdir (unwrap_invocation_checked invo)"

text \<open>The file operands of a command whose wrappers are peeled.\<close>

definition file_operands :: "invocation_word list \<Rightarrow> (ustr \<times> shell_file_mode) list" where
  "file_operands words =
     (case words of
        InvLiteral w # _ \<Rightarrow>
          (let lits = literal_words words; program = map ascii_lower (last_segment w) in
           special_file_operands program lits @
           (case shell_path_command_operands program lits of
              Some ops \<Rightarrow> ops
            | None \<Rightarrow>
                (case file_modes program lits of
                   Some modes \<Rightarrow> concat (map (\<lambda>token. map (Pair token) modes) (shell_file_candidates lits))
                 | None \<Rightarrow> [])))
      | _ \<Rightarrow> [])"

text \<open>
  The paths a script touches: the targets of its redirects, the file operands of its commands, and what
  its inline scripts touch, down to a depth; with the mode and whether the working directory is unknown.
  Every node of the tree is considered, also those inside substitutions.
\<close>

inductive touches :: "'g policy_env \<Rightarrow> nat \<Rightarrow> ustr \<Rightarrow> bool \<Rightarrow> ustr \<Rightarrow> shell_file_mode \<Rightarrow> bool \<Rightarrow> bool" for env where
  redirect: "pe_parse env script = Some root \<Longrightarrow> l \<in> set (visited root) \<Longrightarrow>
    redirect_target_of script l = Some t \<Longrightarrow> rt_path t = Some path \<Longrightarrow>
    touches env n script u path (rt_mode t)
      (u \<or> cwd_unpinned_before (cwd_poison_positions root script) (rt_start_byte t) (rt_scope t))"
| operand: "pe_parse env script = Some root \<Longrightarrow> l \<in> set (visited root) \<Longrightarrow> nd_kind (fst l) = lit ''command'' \<Longrightarrow>
    (path, mode) \<in> set (file_operands (ip_words (unwrap_invocation_checked (invocation_of script l)))) \<Longrightarrow>
    touches env n script u path mode
      (invocation_unpinned u (cwd_poison_positions root script) (invocation_of script l))"
| inline: "pe_parse env script = Some root \<Longrightarrow> l \<in> set (visited root) \<Longrightarrow> nd_kind (fst l) = lit ''command'' \<Longrightarrow>
    words = shell_words (ip_words (unwrap_invocation_checked (invocation_of script l))) \<Longrightarrow>
    shell_dash_c_script words = LiteralAt i \<Longrightarrow> word_at words i = Some (SWLiteral inner) \<Longrightarrow>
    touches env n inner (invocation_unpinned u (cwd_poison_positions root script) (invocation_of script l)) path mode v \<Longrightarrow>
    touches env (Suc n) script u path mode v"

lemma visited_all: "map fst (visited root) = subnodes root"
proof -
  have w: "map fst (stack_walk ls) = concat (map (subnodes \<circ> fst) ls)" for ls
  proof (induction ls rule: stack_walk.induct)
    case (2 l stack)
    have "subnodes (fst l) = fst l # concat (map subnodes (rev (nd_children (fst l))))"
      by (cases "fst l") (simp add: rev_map)
    moreover have "map (\<lambda>a. subnodes (fst a)) (rev (located_children l)) = map subnodes (rev (nd_children (fst l)))"
      by (simp add: rev_map[symmetric] flip: located_children_fst)
    ultimately show ?case using 2 by (simp add: comp_def)
  qed simp
  show ?thesis unfolding visited_def w by simp
qed

abbreviation grank :: "gate_decision option \<Rightarrow> nat" where "grank \<equiv> orank gate_rank"

lemma foldl_rank:
  fixes step :: "scan_state \<Rightarrow> 'x \<Rightarrow> scan_state"
  assumes mono: "\<And>st x. grank (fst st) \<le> grank (fst (step st x))"
  shows "grank (fst st) \<le> grank (fst (foldl step st xs))"
    "x \<in> set xs \<Longrightarrow> (\<And>st. c \<le> grank (fst (step st x))) \<Longrightarrow> c \<le> grank (fst (foldl step st xs))"
proof -
  show m: "grank (fst st) \<le> grank (fst (foldl step st xs))" for st xs
  proof (induction xs arbitrary: st)
    case (Cons y ys)
    then show ?case using order_trans[OF mono[of st y] Cons[of "step st y"]] by simp
  qed simp
  show "x \<in> set xs \<Longrightarrow> (\<And>st. c \<le> grank (fst (step st x))) \<Longrightarrow> c \<le> grank (fst (foldl step st xs))"
  proof (induction xs arbitrary: st)
    case (Cons y ys)
    show ?case
    proof (cases "x = y")
      case True
      then show ?thesis using order_trans[OF Cons.prems(2)[of st] m[of "step st x" ys]] by simp
    qed (use Cons in simp)
  qed simp
qed

lemma check_operand_rank:
  "grank (fst st) \<le> grank (fst (check_operand env pol cwd u st op))"
  "grank (evaluate_shell_path env pol (fst op) cwd (snd op) u) \<le> grank (fst (check_operand env pol cwd u st op))"
  by (simp_all add: check_operand_def gate.orank_combine)

lemma no_operands:
  assumes "program = lit ''cd'' \<or> program = lit ''pushd'' \<or> program = lit ''popd''"
  shows "special_file_operands program ws = [] \<and> shell_path_command_operands program ws = None \<and> file_modes program ws = None"
  using assms
  by (elim disjE) (simp_all add: special_file_operands_def shell_path_command_operands_def file_modes_def
      shell_file_mode_of_def READ_PROGRAMS_def WRITE_PROGRAMS_def is_creation_program_def lit_inject)

lemma dd_operands: "shell_path_command_operands (lit ''dd'') ws = None \<and> file_modes (lit ''dd'') ws = None"
  by (simp add: shell_path_command_operands_def file_modes_def
      shell_file_mode_of_def READ_PROGRAMS_def WRITE_PROGRAMS_def is_creation_program_def lit_inject)

text \<open>The scan of a command adds what its file operands are worth.\<close>

lemma check_operands_fst:
  "\<exists>b. fst (check_operands env pol cwd pf u words st) =
     fst (foldl (check_operand env pol cwd u) (fst st, b) (file_operands words))"
proof -
  consider w r where "words = InvLiteral w # r" | "\<nexists>w r. words = InvLiteral w # r" by blast
  then show ?thesis
  proof cases
    case 1
    let ?p = "map ascii_lower (last_segment w)"
    show ?thesis
    proof (cases "?p \<in> set (map lit [''cd'', ''pushd'', ''popd''])")
      case True
      then have "?p = lit ''cd'' \<or> ?p = lit ''pushd'' \<or> ?p = lit ''popd''" by simp
      then show ?thesis using no_operands[of ?p] True by (simp add: check_operands_def file_operands_def 1 Let_def)
    next
      case False
      show ?thesis
      proof (cases "?p = lit ''dd''")
        case True
        then show ?thesis using False dd_operands by (auto simp: check_operands_def file_operands_def 1 Let_def)
      next
        case nd: False
        show ?thesis using False nd
          by (auto simp: check_operands_def file_operands_def 1 Let_def split: option.splits)
      qed
    qed
  next
    case 2
    then show ?thesis
      by (auto simp: check_operands_def file_operands_def split: list.splits invocation_word.splits)
  qed
qed

lemma check_operands_rank:
  "grank (fst st) \<le> grank (fst (check_operands env pol cwd pf u words st))"
  "(path, mode) \<in> set (file_operands words) \<Longrightarrow>
     grank (evaluate_shell_path env pol path cwd mode u) \<le> grank (fst (check_operands env pol cwd pf u words st))"
proof -
  obtain b where b: "fst (check_operands env pol cwd pf u words st) =
     fst (foldl (check_operand env pol cwd u) (fst st, b) (file_operands words))"
    using check_operands_fst by blast
  show "grank (fst st) \<le> grank (fst (check_operands env pol cwd pf u words st))"
    using foldl_rank(1)[of "check_operand env pol cwd u" "(fst st, b)", OF check_operand_rank(1)] unfolding b by simp
  show "grank (evaluate_shell_path env pol path cwd mode u) \<le> grank (fst (check_operands env pol cwd pf u words st))"
    if "(path, mode) \<in> set (file_operands words)"
    unfolding b using check_operand_rank(2)[of env pol "(path, mode)" cwd u]
    by (intro foldl_rank(2)[of "check_operand env pol cwd u", OF check_operand_rank(1) that]) simp
qed

lemma check_inline_rank: "grank (fst st) \<le> grank (fst (check_inline inner u ws st))"
  by (auto simp: check_inline_def gate.orank_combine split: inline_shell_script.splits option.splits shell_word.splits)

lemma check_invocation_rank:
  "grank (fst st) \<le> grank (fst (check_invocation env pol cwd inner pf u changes st invo))"
  unfolding check_invocation_def Let_def
  by (rule order_trans[OF order_trans[OF _ check_inline_rank] check_operands_rank(1)]) simp

lemma check_redirect_rank: "grank (fst st) \<le> grank (fst (check_redirect env pol cwd u changes st t))"
  by (auto simp: check_redirect_def Let_def gate.orank_combine split: option.splits)

lemma file_access_script_rank:
  assumes "pe_parse env script = Some root"
  shows "t \<in> set (shell_redirect_targets root script) \<Longrightarrow>
      (\<And>st. c \<le> grank (fst (check_redirect env pol cwd u (cwd_poison_positions root script) st t))) \<Longrightarrow>
      c \<le> grank (file_access_script env pol cwd inner script u entered)"
    "invo \<in> set (shell_command_invocations root script) \<Longrightarrow>
      (\<And>st. c \<le> grank (fst (check_invocation env pol cwd inner (nd_has_error root) u (cwd_poison_positions root script) st invo))) \<Longrightarrow>
      c \<le> grank (file_access_script env pol cwd inner script u entered)"
proof -
  let ?ch = "cwd_poison_positions root script"
  let ?st1 = "foldl (check_redirect env pol cwd u ?ch) (None, entered \<and> nd_has_error root) (shell_redirect_targets root script)"
  let ?st2 = "foldl (check_invocation env pol cwd inner (nd_has_error root) u ?ch) ?st1 (shell_command_invocations root script)"
  have end_: "grank (fst ?st2) \<le> grank (file_access_script env pol cwd inner script u entered)"
    by (simp add: file_access_script_def assms Let_def gate.orank_combine)
  have mid: "grank (fst ?st1) \<le> grank (fst ?st2)" by (rule foldl_rank(1)[OF check_invocation_rank])
  show "c \<le> grank (file_access_script env pol cwd inner script u entered)"
    if "t \<in> set (shell_redirect_targets root script)"
      "\<And>st. c \<le> grank (fst (check_redirect env pol cwd u ?ch st t))"
    using foldl_rank(2)[of "check_redirect env pol cwd u ?ch", OF check_redirect_rank that, of "(None, entered \<and> nd_has_error root)"]
      mid end_ by linarith
  show "c \<le> grank (file_access_script env pol cwd inner script u entered)"
    if "invo \<in> set (shell_command_invocations root script)"
      "\<And>st. c \<le> grank (fst (check_invocation env pol cwd inner (nd_has_error root) u ?ch st invo))"
    using foldl_rank(2)[of "check_invocation env pol cwd inner (nd_has_error root) u ?ch", OF check_invocation_rank that, of ?st1]
      end_ by linarith
qed

lemma touches_rank:
  "touches env n script u path mode v \<Longrightarrow>
     grank (evaluate_shell_path env pol path cwd mode v) \<le> grank (evaluate_shell_file_access_inner env pol cwd n script u entered)"
proof (induction arbitrary: entered rule: touches.induct)
  case (redirect script root l t path n u)
  have "t \<in> set (shell_redirect_targets root script)"
    using redirect(2,3) by (force simp: shell_redirect_targets_def List.map_filter_def)
  then show ?case
    using file_access_script_rank(1)[OF redirect(1), of t _ pol cwd u] redirect(4)
    by (cases n) (simp_all add: check_redirect_def Let_def gate.orank_combine)
next
  case (operand script root l path mode n u)
  let ?i = "invocation_of script l"
  have "?i \<in> set (shell_command_invocations root script)"
    using operand(2,3) by (auto simp: shell_command_invocations_def)
  moreover have "grank (evaluate_shell_path env pol path cwd mode (invocation_unpinned u (cwd_poison_positions root script) ?i)) \<le>
      grank (fst (check_invocation env pol cwd inner (nd_has_error root) u (cwd_poison_positions root script) st ?i))" for inner st
    using check_operands_rank(2)[OF operand(4)] by (simp add: check_invocation_def Let_def invocation_unpinned_def)
  ultimately show ?case
    using file_access_script_rank(2)[OF operand(1)] by (cases n) simp_all
next
  case (inline script root l words i inner n u path mode v)
  let ?i = "invocation_of script l" and ?ch = "cwd_poison_positions root script"
  let ?g = "\<lambda>script unpinned. evaluate_shell_file_access_inner env pol cwd n script unpinned True"
  have "?i \<in> set (shell_command_invocations root script)"
    using inline(2,3) by (auto simp: shell_command_invocations_def)
  moreover have "grank (evaluate_shell_path env pol path cwd mode v) \<le>
      grank (fst (check_invocation env pol cwd (Some ?g) (nd_has_error root) u ?ch st ?i))" for st
  proof -
    have "grank (evaluate_shell_path env pol path cwd mode v) \<le>
        grank (fst (check_inline (Some ?g) (invocation_unpinned u ?ch ?i) words (fst st, b)))" for b
      using inline.IH[of True] inline(5,6) by (simp add: check_inline_def gate.orank_combine max.coboundedI2)
    then show ?thesis unfolding check_invocation_def Let_def invocation_unpinned_def[symmetric] inline(4)[symmetric]
      by (rule order_trans[OF _ check_operands_rank(1)])
  qed
  ultimately show ?case using file_access_script_rank(2)[OF inline(1)] by simp
qed

text \<open>
  Whatever a script touches, in whatever spelling, the gate is at least as strict as the check of that path, and it
  asks when the path is relative to a directory the script has changed.
\<close>

lemma file_gate_as_strict:
  assumes "cp_has_file_restrictions pol" "touches env MAX_INLINE_SHELL_DEPTH script False path mode unpinned"
  shows "evaluate_shell_path env pol path cwd mode unpinned = Some (GReject r) \<Longrightarrow>
      \<exists>r. evaluate_shell_file_access_gate env pol script cwd = Some (GReject r)"
    and "evaluate_shell_path env pol path cwd mode unpinned \<noteq> None \<Longrightarrow> evaluate_shell_file_access_gate env pol script cwd \<noteq> None"
    and "unpinned \<Longrightarrow> \<not> is_absolute_shell_path (normalize_shell_path path) \<Longrightarrow>
      evaluate_shell_file_access_gate env pol script cwd \<noteq> None"
proof -
  let ?g = "evaluate_shell_file_access_gate env pol script cwd"
  let ?p = "evaluate_shell_path env pol path cwd mode unpinned"
  have rank: "grank ?p \<le> grank ?g"
    using touches_rank[OF assms(2)] assms(1) by (simp add: evaluate_shell_file_access_gate_def)
  show "\<exists>r. ?g = Some (GReject r)" if "?p = Some (GReject r)"
    using rank that gate_orank_iff(1)[of ?g] gate_orank_iff(1)[of ?p] by (metis order_trans)
  show some: "?g \<noteq> None" if "?p \<noteq> None"
    using rank that gate_orank_iff(3)[of ?g] gate_orank_iff(3)[of ?p] by (metis order_trans)
  have "?p \<noteq> None" if "unpinned \<and> \<not> is_absolute_shell_path (normalize_shell_path path)"
    using that by (simp add: evaluate_shell_path_def Let_def fail_closed_when_def)
      (auto simp: combine_gate_decisions_def split: option.splits)
  then show "unpinned \<Longrightarrow> \<not> is_absolute_shell_path (normalize_shell_path path) \<Longrightarrow> ?g \<noteq> None" using some by blast
qed

text \<open>
  C21. For a path that is spelt plainly, without quotes, backslashes, tildes, a colon in the second place of a name or a
  leading \<open>/c/\<close>, in a working directory below the root spelt the same way, a restriction on files holds in the shell as it does for the
  file tools. When a script touches the path through a redirect or a file operand of a known command, also inside a
  substitution or in an inline script within the depth: if the path is relative and the script has changed its
  directory before, the gate does not let the script through; otherwise the gate rejects the script when the direct
  access would be denied, and does not let it through when the direct access would be asked about. Other spellings
  are not covered, and lemmas \<open>drive_rewrite_misses_rule\<close> and \<open>colon_name_link_not_followed\<close> show two that do slip through.
\<close>

theorem file_gate_covers:
  assumes "cp_has_file_restrictions pol" "touches env MAX_INLINE_SHELL_DEPTH script False path mode unpinned"
    and "plain_token path" "plain_cwd cwd"
  shows "if unpinned \<and> \<not> is_absolute path then evaluate_shell_file_access_gate env pol script cwd \<noteq> None
    else (\<forall>r. evaluate_with_cwd env pol (shell_access mode path) (Some cwd) = Some (Reject r) \<longrightarrow>
            (\<exists>r. evaluate_shell_file_access_gate env pol script cwd = Some (GReject r))) \<and>
         (evaluate_with_cwd env pol (shell_access mode path) (Some cwd) = Some Ask \<longrightarrow>
            evaluate_shell_file_access_gate env pol script cwd \<noteq> None)"
proof (cases "unpinned \<and> \<not> is_absolute path")
  case True
  then show ?thesis using file_gate_as_strict(3)[OF assms(1,2)] plain_token_facts(3)[OF assms(3,4)] by simp
next
  case False
  then have "unpinned \<longrightarrow> is_absolute path" by blast
  from shell_path_as_tool[OF assms(3,4) this] False show ?thesis
    using file_gate_as_strict(1,2)[OF assms(1,2)] by (simp only: if_False) blast
qed

definition cat_command :: node where
  "cat_command = Node (lit ''command'') None True 0 8 False
     [Node (lit ''command_name'') (Some (lit ''name'')) True 0 3 False [leaf ''word'' True 0 3], leaf ''word'' True 4 8]"

definition cat_tree :: node where
  "cat_tree = Node (lit ''program'') None True 0 8 False [cat_command]"

definition cat_env :: "ustr policy_env" where
  "cat_env = demo_env\<lparr>pe_parse := (\<lambda>s. if s = lit ''cat /etc'' then Some cat_tree else None)\<rparr>"

lemma cat_text:
  "utf8_text (lit ''cat /etc'') (leaf ''word'' True 0 3) = Some (lit ''cat'')"
  "utf8_text (lit ''cat /etc'') (leaf ''word'' True 4 8) = Some (lit ''/etc'')"
  "utf8_text (lit ''cat /etc'') (Node k f nm 0 3 e cs) = Some (lit ''cat'')"
  by (simp_all add: leaf_def utf8_text_def str_range_def str_to_def str_from_def utf8_len_def lit_def)

lemma cat_normal:
  "normalize_command_words [lit ''cat'', lit ''/etc''] =
    \<lparr>nc_words = [lit ''cat'', lit ''/etc''], nc_has_chdir = False, nc_has_split_string = False,
     nc_env_options_uncertain = False, nc_exhausted = False, nc_ambiguous = False\<rparr>"
  by (rule normalize_plain) (simp_all add: peel_eval)

lemma cat_touches: "touches cat_env n (lit ''cat /etc'') False (lit ''/etc'') ModeRead False"
proof -
  let ?l = "(cat_command, [(cat_tree, None)])"
  have root: "pe_parse cat_env (lit ''cat /etc'') = Some cat_tree" by (simp add: cat_env_def)
  have visited: "map fst (visited cat_tree) = [cat_tree, cat_command, leaf ''word'' True 4 8,
      Node (lit ''command_name'') (Some (lit ''name'')) True 0 3 False [leaf ''word'' True 0 3], leaf ''word'' True 0 3]"
    unfolding visited_all by (simp add: cat_tree_def cat_command_def leaf_def)
  have l: "?l \<in> set (visited cat_tree)" "nd_kind cat_command = lit ''command''"
    by (simp_all add: visited_def located_children_def cat_tree_def cat_command_def)
  have word: "decode_unquoted_word (lit ''cat'') = Some (lit ''cat'')" "decode_unquoted_word (lit ''/etc'') = Some (lit ''/etc'')"
    by (simp_all add: decode_unquoted_word_def lit_def)
  have kinds: "nd_kind (leaf ''word'' True a b) = lit ''word''" "nd_named (leaf ''word'' True a b)" for a b
    by (simp_all add: leaf_def)
  have words: "invocation_words (lit ''cat /etc'') cat_command = [InvLiteral (lit ''cat''), InvLiteral (lit ''/etc'')]"
    by (simp add: cat_command_def invocation_words_def List.map_filter_def invocation_operand_def
        shell_node_arg_def literal_or_ambiguous_def cat_text word kinds lit_inject)
  have "\<not> changes_cwd (lit ''cat /etc'') n" if "n \<in> set (map fst (visited cat_tree))" for n
    using that unfolding visited
    by (auto simp: changes_cwd_def kinds lit_inject cat_tree_def cat_command_def child_by_field_name_def cat_text)
      (simp_all add: last_segment_def lit_def)
  then have poison: "cwd_poison_positions cat_tree (lit ''cat /etc'') = []"
    by (auto simp: cwd_poison_positions_def filter_empty_conv)
  let ?i = "invocation_of (lit ''cat /etc'') ?l"
  have i: "ip_words (unwrap_invocation_checked ?i) = [InvLiteral (lit ''cat''), InvLiteral (lit ''/etc'')]"
    "\<not> invocation_unpinned False (cwd_poison_positions cat_tree (lit ''cat /etc'')) ?i"
    by (simp_all add: unwrap_invocation_checked_def invocation_of_def Let_def words cat_normal invocation_unpinned_def
        poison cwd_unpinned_before_def)
  have "last_segment (lit ''cat'') = lit ''cat''" "map ascii_lower (lit ''cat'') = lit ''cat''"
    "\<not> starts_with (lit ''/etc'') [DASH]" "lit ''/etc'' \<noteq> lit ''--''" "lit ''/etc'' \<noteq> [DASH]"
    by (simp_all add: last_segment_def ascii_lower_def lit_def starts_with_def)
  then have "(lit ''/etc'', ModeRead) \<in> set (file_operands (ip_words (unwrap_invocation_checked ?i)))"
    by (simp add: i(1) file_operands_def Let_def special_file_operands_def shell_path_command_operands_def
        is_creation_program_def file_modes_def shell_file_mode_of_def READ_PROGRAMS_def shell_file_candidates_def lit_inject)
  from touches.operand[OF root l(1) _ this, of n False] i(2) l(2) show ?thesis by simp
qed

theorem file_gate_covers_witness:
  "\<exists>r. evaluate_shell_file_access_gate cat_env (demo_policy deny_etc) (lit ''cat /etc'') (lit ''/w'') = Some (GReject r)"
proof -
  have "evaluate_lexical_with_cwd cat_env (demo_policy deny_etc) (shell_access ModeRead (lit ''/etc'')) (Some (lit ''/w'')) =
      Some (Reject (deny_reason (demo_rule RuleDeny FRead ''/etc'')))"
    unfolding evaluate_lexical_with_cwd_def demo_policy_def zip_compiled
    by (simp add: permission_config_new_def deny_etc_def demo_rule_def rule_reaches_def tool_filter_matches_def
        pattern_matches_def shell_access_def path_context_matches_def path_match_forms_def)
      (simp add: path_eval glob_matches_def compile_matcher_def demo_env_def cat_env_def path_strip_prefix_def)
  then have "\<exists>r. evaluate_with_cwd cat_env (demo_policy deny_etc) (shell_access ModeRead (lit ''/etc'')) (Some (lit ''/w'')) = Some (Reject r)"
    by (auto simp: evaluate_with_cwd_def evaluate_with_cwd_details_def Let_def combine_decisions_def decision_rank_def
        split: option.splits symlink_follow.splits decision.splits)
  moreover have "cp_has_file_restrictions (demo_policy deny_etc)"
    by (simp add: demo_policy_def compiled_policy_new_def permission_config_new_def deny_etc_def demo_rule_def restricts_def)
  moreover have "plain_token (lit ''/etc'')" "plain_cwd (lit ''/w'')"
    by (simp_all add: plain_token_def plain_cwd_def plain_chars_def segs_def trivial_seg_def lit_def colon_second_def
        starts_with_def is_absolute_def)
  ultimately show ?thesis
    using file_gate_covers[OF _ cat_touches, of "demo_policy deny_etc" "lit ''/w''"] by simp
qed

text \<open>
  Two of the spellings that the theorem leaves out do slip through. A path under a directory \<open>/c\<close> is read as one on a drive, so a rule
  on it is missed; and a relative name with a colon in second place counts as absolute, so the link it is is
  not followed.
\<close>

definition deny_c :: "permission_rule list" where
  "deny_c = [demo_rule RuleDeny FRead ''/c/x'']"

definition colon_env :: "ustr policy_env" where
  "colon_env = demo_env\<lparr>pe_canonicalize := (\<lambda>p. if p = lit ''/w/a:b'' then Some (lit ''/etc'') else None)\<rparr>"

lemma deny_reads:
  "evaluate_lexical_with_cwd env (demo_policy [demo_rule RuleDeny FRead p]) (shell_access ModeRead path) cwd =
     (if lit p = lit ''*'' \<or> list_ex (\<lambda>s. pe_glob_match env (lit p) True s) (path_match_forms path cwd)
      then Some (Reject (deny_reason (demo_rule RuleDeny FRead p))) else None)"
  unfolding evaluate_lexical_with_cwd_def demo_policy_def zip_compiled
  by (simp add: permission_config_new_def demo_rule_def rule_reaches_def tool_filter_matches_def pattern_matches_def
      shell_access_def path_context_matches_def compile_matcher_def glob_matches_def demo_env_def)

lemma exotic_forms:
  "path_match_forms (lit ''C:/x'') (Some (lit ''/w'')) = map lit [''/w/C:/x'', ''./C:/x'', ''C:/x'']"
  "path_match_forms (lit ''/c/x'') (Some (lit ''/w'')) = [lit ''/c/x'']"
  "path_match_forms (lit ''a:b'') (Some (lit ''/w'')) = map lit [''/w/a:b'', ''./a:b'', ''a:b'']"
  by (simp_all add: path_match_forms_def path_eval path_strip_prefix_def trim_right_segs_def Let_def)

lemma exotic_names:
  "normalize_shell_path (lit ''/c/x'') = lit ''C:/x''" "normalize_shell_path_raw (lit ''/c/x'') = lit ''C:/x''"
  "normalize_shell_path (lit ''a:b'') = lit ''a:b''" "normalize_shell_path_raw (lit ''a:b'') = lit ''a:b''"
  "is_absolute_shell_path (lit ''C:/x'')" "is_absolute_shell_path (lit ''a:b'')"
  by (simp_all add: normalize_shell_path_def normalize_shell_path_raw_def trim_matches_def lexical_normalize_def
      is_absolute_shell_path_def colon_second_def utf8_len_def lit_def starts_with_def)

lemma not_absolute_follow: "\<not> is_absolute p \<Longrightarrow> follow_absolute_symlink env p q = FollowNone"
  by (simp add: follow_absolute_symlink_def resolve_symlink_target_def path_has_symlink_def)

lemma drive_rewrite_misses_rule:
  "evaluate_shell_path demo_env (demo_policy deny_c) (lit ''/c/x'') (lit ''/w'') ModeRead False = None"
  "\<exists>r. evaluate_lexical_with_cwd demo_env (demo_policy deny_c) (shell_access ModeRead (lit ''/c/x'')) (Some (lit ''/w'')) =
     Some (Reject r)"
proof -
  have "\<not> is_absolute (lit ''C:/x'')" by (simp add: lit_def is_absolute_def starts_with_def)
  then show "evaluate_shell_path demo_env (demo_policy deny_c) (lit ''/c/x'') (lit ''/w'') ModeRead False = None"
    by (simp add: evaluate_shell_path_def Let_def exotic_names not_absolute_follow escalate_file_def deny_c_def deny_reads
        exotic_forms demo_env_def lit_inject fail_closed_when_def combine_gate_decisions_def)
qed (simp add: deny_c_def deny_reads exotic_forms demo_env_def)

lemma colon_name_link_not_followed:
  "evaluate_shell_path colon_env (demo_policy deny_etc) (lit ''a:b'') (lit ''/w'') ModeRead False = None"
  "\<exists>r. evaluate_with_cwd colon_env (demo_policy deny_etc) (shell_access ModeRead (lit ''a:b'')) (Some (lit ''/w'')) =
     Some (Reject r)"
proof -
  have "\<not> is_absolute (lit ''a:b'')" by (simp add: lit_def is_absolute_def starts_with_def)
  then show "evaluate_shell_path colon_env (demo_policy deny_etc) (lit ''a:b'') (lit ''/w'') ModeRead False = None"
    by (simp add: evaluate_shell_path_def Let_def exotic_names not_absolute_follow escalate_file_def deny_etc_def deny_reads
        exotic_forms demo_env_def colon_env_def lit_inject fail_closed_when_def combine_gate_decisions_def)
  have raw: "raw_absolute_tool_path (lit ''a:b'') (Some (lit ''/w'')) = Some (lit ''/w/a:b'')"
    "path_match_string (absolute_normalized_path (lit ''a:b'') (Some (lit ''/w''))) = lit ''/w/a:b''"
    by (simp_all add: raw_absolute_tool_path_def path_eval)
  have "resolve_symlink_target colon_env (lit ''/w/a:b'') = Some (lit ''/etc'')"
    by (simp add: resolve_symlink_target_def resolve_following_symlinks_def colon_env_def path_eval)
  then have "follow_absolute_symlink colon_env (lit ''/w/a:b'') (lit ''/w/a:b'') = FollowTarget (lit ''/etc'')"
    by (simp add: follow_absolute_symlink_def lit_inject)
  moreover have "path_match_forms (lit ''/etc'') (Some (lit ''/w'')) = [lit ''/etc'']"
    by (simp add: path_match_forms_def path_eval path_strip_prefix_def Let_def)
  ultimately show "\<exists>r. evaluate_with_cwd colon_env (demo_policy deny_etc) (shell_access ModeRead (lit ''a:b'')) (Some (lit ''/w'')) =
     Some (Reject r)"
    by (simp add: evaluate_with_cwd_def evaluate_with_cwd_details_def raw deny_etc_def deny_reads
        exotic_forms colon_env_def demo_env_def lit_inject combine_decisions_def Let_def native_access)
qed

end
