(* ===== verification/Safe_Commands.thy ===== *)
theory Safe_Commands
  imports Shell_Access
begin

text \<open>
  Commands that need no prompt and the scope of a remembered answer
  (\<open>crates/codegen/xai-grok-workspace/src/permission/grants.rs\<close>), with the flags, environment variables and
  findings of \<open>permission/auto_mode/mod.rs\<close> and \<open>permission/auto_mode/security_findings.rs\<close> they share.
\<close>

section \<open>Flags that make a safe command unsafe\<close>

definition KUBECTL_UNSAFE_FLAGS :: "ustr list" where
  "KUBECTL_UNSAFE_FLAGS = map lit
     [''--kubeconfig'', ''--context'', ''--cluster'', ''--server'', ''-s'', ''--token'', ''--user'', ''--as'',
      ''--as-group'', ''--as-uid'', ''--as-user-extra'', ''--username'', ''--password'', ''--client-certificate'',
      ''--client-key'', ''--certificate-authority'']"

definition RG_UNSAFE_FLAGS :: "ustr list" where
  "RG_UNSAFE_FLAGS = map lit [''--pre'', ''--hostname-bin'']"

definition rg_has_unsafe_flag :: "ustr list \<Rightarrow> bool" where
  "rg_has_unsafe_flag words =
     (if normalized_command_head words \<noteq> Some (lit ''rg'') then False
      else list_ex (\<lambda>w. flag_part w \<in> set RG_UNSAFE_FLAGS) (drop 1 words))"

definition kubectl_has_unsafe_flag :: "ustr list \<Rightarrow> bool" where
  "kubectl_has_unsafe_flag words =
     (if normalized_command_head words \<noteq> Some (lit ''kubectl'') then False
      else list_ex (\<lambda>w. flag_part w \<in> set KUBECTL_UNSAFE_FLAGS) (drop 1 words))"

definition PS_VALUE_FLAGS :: "ustr list" where
  "PS_VALUE_FLAGS = map lit
     [''-o'', ''-O'', ''--format'', ''--sort'', ''-p'', ''-q'', ''-t'', ''-u'', ''-U'', ''-g'', ''-G'', ''-C'', ''-s'',
      ''--pid'', ''--ppid'', ''--sid'', ''--tty'', ''--user'', ''--group'', ''--cols'', ''--columns'', ''--width'',
      ''o'', ''O'']"

fun ps_loop :: "bool \<Rightarrow> ustr list \<Rightarrow> bool" where
  "ps_loop skip_next [] = False"
| "ps_loop skip_next (s # rest) =
     (if skip_next then ps_loop False rest
      else if starts_with s (lit ''--format='') \<or> starts_with s (lit ''--sort='') then ps_loop False rest
      else if s \<in> set PS_VALUE_FLAGS then ps_loop True rest
      else if starts_with s (lit ''-o'') \<or> starts_with s (lit ''-O'') then ps_loop False rest
      else
        (let has_upper_e = (69 \<in> set s);
             has_lower_e = (101 \<in> set s);
             dashless = (\<not> starts_with s [DASH]);
             bsd_selector_cluster =
               (starts_with s [DASH] \<and> \<not> starts_with s (lit ''--'') \<and> (97 \<in> set s \<or> 120 \<in> set s))
         in if has_upper_e \<or> (has_lower_e \<and> (dashless \<or> bsd_selector_cluster)) then True
            else if starts_with s [DASH] \<and> \<not> starts_with s (lit ''--'') \<and>
                    (ends_with s (lit ''o'') \<or> ends_with s (lit ''O''))
            then ps_loop True rest
            else ps_loop False rest))"

definition ps_dumps_environment :: "ustr list \<Rightarrow> bool" where
  "ps_dumps_environment words =
     (if normalized_command_head words \<noteq> Some (lit ''ps'') then False else ps_loop False (drop 1 words))"

section \<open>Safe lists\<close>

definition is_safe_git_query_prefix :: "ustr \<Rightarrow> bool" where
  "is_safe_git_query_prefix cmd =
     (case strip_prefix (lit ''git '') cmd of
        Some rest \<Rightarrow> list_ex (matches_command_prefix rest) SAFE_GIT_SUBCOMMANDS
      | None \<Rightarrow> False)"

definition SAFE_COMMANDS :: "ustr list" where
  "SAFE_COMMANDS = map lit
     [''ls'', ''cat'', ''pwd'', ''date'', ''whoami'', ''hostname'', ''uptime'', ''grep'', ''rg'', ''kubectl get'',
      ''kubectl logs'', ''kubectl describe'', ''ps'', ''head'', ''tail'', ''wc'', ''sort'', ''uniq'', ''tr'', ''cut'',
      ''echo'', ''printf'']"

definition is_safe_command_words_str :: "ustr \<Rightarrow> bool" where
  "is_safe_command_words_str cmd \<longleftrightarrow>
     list_ex (matches_command_prefix cmd) SAFE_COMMANDS \<or> is_safe_git_query_prefix cmd"

definition ALWAYS_SAFE_COMMANDS :: "ustr list" where
  "ALWAYS_SAFE_COMMANDS = map lit
     [''ls'', ''cat'', ''pwd'', ''date'', ''whoami'', ''hostname'', ''uptime'', ''ps'', ''grep'', ''rg'',
      ''kubectl get'', ''kubectl logs'', ''kubectl describe'']"

definition is_safe_command_words :: "ustr list \<Rightarrow> bool" where
  "is_safe_command_words words =
     (if words = [] then False
      else if rg_has_unsafe_flag words then False
      else if kubectl_has_unsafe_flag words then False
      else if ps_dumps_environment words then False
      else if word_at words 0 = Some (lit ''git'') then git_words_are_read_only_query words
      else is_safe_command_words_str (join [32] words))"

definition is_safe_creation_command :: "ustr list \<Rightarrow> bool" where
  "is_safe_creation_command words = (case words of w # _ \<Rightarrow> is_creation_program w | [] \<Rightarrow> False)"

definition is_always_safe_command_words :: "ustr list \<Rightarrow> bool" where
  "is_always_safe_command_words words =
     (if words = [] then False
      else if rg_has_unsafe_flag words then False
      else if kubectl_has_unsafe_flag words then False
      else if ps_dumps_environment words then False
      else if word_at words 0 = Some (lit ''git'') then git_words_are_read_only_query words
      else list_ex (matches_command_prefix (join [32] words)) ALWAYS_SAFE_COMMANDS)"

section \<open>Dangerous commands and scopes\<close>

definition DANGEROUS_COMMANDS :: "ustr list" where
  "DANGEROUS_COMMANDS = map lit
     [''rm'', ''chmod'', ''chown'', ''chgrp'', ''chattr'', ''pkill'', ''kill'', ''killall'', ''git push'']"

definition is_dangerous_command_words :: "ustr list \<Rightarrow> bool" where
  "is_dangerous_command_words words =
     (case normalized_command_head words of
        None \<Rightarrow> False
      | Some head \<Rightarrow>
          (let joined = (if length words = 1 then head else head @ lit '' '' @ join [32] (drop 1 words)) in
           list_ex (matches_command_prefix joined) DANGEROUS_COMMANDS))"

definition always_allow_scope_pinned :: "ustr list \<Rightarrow> bool" where
  "always_allow_scope_pinned words \<longleftrightarrow>
     is_dangerous_command_words words \<or> head_is_exec_vehicle words \<or>
     normalized_command_head words = Some (lit ''sed'')"

definition gh_always_allow_scope :: "ustr list \<Rightarrow> nat option" where
  "gh_always_allow_scope words =
     (if normalized_command_head words \<noteq> Some (lit ''gh'') then None
      else Some (case (word_at words 1, word_at words 2) of
                   (Some grp, Some verb) \<Rightarrow>
                     if \<not> starts_with grp [DASH] \<and> \<not> starts_with verb [DASH] then 3 else length words
                 | _ \<Rightarrow> length words))"

definition base_scope :: "ustr list \<Rightarrow> nat" where
  "base_scope words =
     (if is_safe_command_words words \<and> (case words of w # _ \<Rightarrow> is_safe_command_words_str w | [] \<Rightarrow> False) then 1
      else if is_safe_command_words words \<and> length words \<ge> 2 \<and> is_safe_command_words_str (join [32] (take 2 words)) then 2
      else (let n = min (length words) 2 in
            n + length (takeWhile (\<lambda>w. starts_with w [DASH]) (drop n words))))"

definition default_always_allow_scope :: "ustr list \<Rightarrow> nat" where
  "default_always_allow_scope words =
     (if words = [] then 0
      else if always_allow_scope_pinned words then length words
      else (case gh_always_allow_scope words of Some n \<Rightarrow> n | None \<Rightarrow> base_scope words))"

definition default_always_deny_scope :: "ustr list \<Rightarrow> nat" where
  "default_always_deny_scope words = (if words = [] then 0 else base_scope words)"

definition minimum_always_allow_scope :: "ustr list \<Rightarrow> nat" where
  "minimum_always_allow_scope words =
     (if always_allow_scope_pinned words then length words
      else (case gh_always_allow_scope words of Some n \<Rightarrow> n | None \<Rightarrow> 1))"

section \<open>Environment variables\<close>

datatype env_risk = EnvSafe | EnvUnvetted | EnvInjection

definition env_rank :: "env_risk \<Rightarrow> nat" where
  "env_rank r = (case r of EnvSafe \<Rightarrow> 0 | EnvUnvetted \<Rightarrow> 1 | EnvInjection \<Rightarrow> 2)"

definition env_max :: "env_risk \<Rightarrow> env_risk \<Rightarrow> env_risk" where
  "env_max a b = (if env_rank a \<le> env_rank b then b else a)"

definition SAFE_ENV_KEYS :: "ustr list" where
  "SAFE_ENV_KEYS = map lit
     [''CARGO_TERM_COLOR'', ''CARGO_TERM_PROGRESS_WHEN'', ''RUST_LOG'', ''RUST_LOG_STYLE'', ''RUST_BACKTRACE'',
      ''RUST_TEST_THREADS'', ''RUST_MIN_STACK'', ''NO_COLOR'', ''CLICOLOR'', ''CLICOLOR_FORCE'', ''FORCE_COLOR'', ''COLORTERM'']"

definition INJECTION_ENV_KEYS :: "ustr list" where
  "INJECTION_ENV_KEYS = map lit
     [''LD_PRELOAD'', ''LD_AUDIT'', ''BASH_ENV'', ''ENV'', ''IFS'', ''PATH'', ''GIT_EXTERNAL_DIFF'', ''GIT_PROXY_COMMAND'',
      ''PROMPT_COMMAND'']"

definition INJECTION_ENV_KEY_PREFIXES :: "ustr list" where
  "INJECTION_ENV_KEY_PREFIXES = map lit [''DYLD_'', ''GIT_CONFIG'']"

definition env_key_risk :: "ustr \<Rightarrow> env_risk" where
  "env_key_risk key =
     (if key \<in> set SAFE_ENV_KEYS then EnvSafe
      else if key \<in> set INJECTION_ENV_KEYS \<or> list_ex (\<lambda>p. starts_with key p) INJECTION_ENV_KEY_PREFIXES then EnvInjection
      else EnvUnvetted)"

text \<open>The arguments of one \<open>env\<close>: \<open>Inl\<close> is the early return.\<close>

fun env_args_loop :: "bool \<Rightarrow> ustr list \<Rightarrow> env_risk \<Rightarrow> env_risk + env_risk" where
  "env_args_loop options_done [] risk = Inr risk"
| "env_args_loop options_done (arg # rest) risk =
     (if arg = lit ''--'' then env_args_loop True rest risk
      else if \<not> options_done \<and> starts_with arg [DASH] then Inl EnvInjection
      else if EQ \<in> set arg then env_args_loop options_done rest (env_max risk (env_key_risk (flag_part arg)))
      else Inr risk)"

primrec command_env_loop :: "nat \<Rightarrow> ustr list \<Rightarrow> env_risk \<Rightarrow> env_risk" where
  "command_env_loop 0 current risk = risk"
| "command_env_loop (Suc n) current risk =
     (case (if head_name current = Some (lit ''env'') then env_args_loop False (drop 1 current) risk else Inr risk) of
        Inl r \<Rightarrow> r
      | Inr risk \<Rightarrow>
          (case strip_wrapper_command current of
             Some inner \<Rightarrow> command_env_loop n inner risk
           | None \<Rightarrow> risk))"

definition command_env_risk :: "ustr list \<Rightarrow> env_risk" where
  "command_env_risk words = command_env_loop 8 words EnvSafe"

definition assignment_key :: "node \<Rightarrow> ustr \<Rightarrow> ustr" where
  "assignment_key n src =
     (case List.map_filter (\<lambda>c. if nd_kind c = lit ''variable_name'' then utf8_text src c else None) (nd_children n) of
        key # _ \<Rightarrow> key
      | [] \<Rightarrow> (case utf8_text src n of Some t \<Rightarrow> flag_part t | None \<Rightarrow> []))"

definition script_env_risk :: "node \<Rightarrow> ustr \<Rightarrow> plain_command list \<Rightarrow> env_risk" where
  "script_env_risk root src cmds =
     (let risk = foldl (\<lambda>risk l. if nd_kind (fst l) = lit ''variable_assignment''
                                  then env_max risk (env_key_risk (assignment_key (fst l) src)) else risk)
                   EnvSafe (visited root)
      in foldl (\<lambda>risk c. env_max risk (command_env_risk (pl_words c))) risk cmds)"

section \<open>Findings\<close>

datatype finding =
    FailClosedPolicy | UnparseableShell | OpaqueShell | ExecOrAmbientGit | FEnvInjection | UnvettedEnv | FileWrite
  | DangerousCommand | SpecialExecSurface

definition ALL_FINDINGS :: "finding list" where
  "ALL_FINDINGS = [FailClosedPolicy, UnparseableShell, OpaqueShell, ExecOrAmbientGit, FEnvInjection, UnvettedEnv, FileWrite,
     DangerousCommand, SpecialExecSurface]"

definition finding_token :: "finding \<Rightarrow> ustr" where
  "finding_token f = lit
     (case f of
        FailClosedPolicy \<Rightarrow> ''fail_closed_policy'' | UnparseableShell \<Rightarrow> ''unparseable_shell''
      | OpaqueShell \<Rightarrow> ''opaque_shell'' | ExecOrAmbientGit \<Rightarrow> ''exec_or_ambient_git'' | FEnvInjection \<Rightarrow> ''env_injection''
      | UnvettedEnv \<Rightarrow> ''unvetted_env'' | FileWrite \<Rightarrow> ''file_write'' | DangerousCommand \<Rightarrow> ''dangerous_command''
      | SpecialExecSurface \<Rightarrow> ''special_exec_surface'')"

definition finding_description :: "finding \<Rightarrow> ustr" where
  "finding_description f = lit
     (case f of
        FailClosedPolicy \<Rightarrow> ''permission policy could not determine whether a rule applies''
      | UnparseableShell \<Rightarrow> ''shell structure could not be fully parsed''
      | OpaqueShell \<Rightarrow> ''invokes a nested or dynamically supplied shell command''
      | ExecOrAmbientGit \<Rightarrow> ''may run code via an execution callback or ambient Git configuration''
      | FEnvInjection \<Rightarrow> ''sets environment variables that can change which code executes''
      | UnvettedEnv \<Rightarrow> ''sets environment variables outside the known-safe set''
      | FileWrite \<Rightarrow> ''writes to a real file rather than a sink''
      | DangerousCommand \<Rightarrow> ''a destructive or high-impact command''
      | SpecialExecSurface \<Rightarrow>
          ''options or tools that can write arbitrary output, execute code, override config/identity, or disclose the process environment'')"

definition is_grant_floor :: "finding \<Rightarrow> bool" where
  "is_grant_floor f \<longleftrightarrow> f \<in> {FileWrite, UnvettedEnv, FEnvInjection, OpaqueShell, ExecOrAmbientGit, SpecialExecSurface}"

text \<open>The assessment is a set; it is listed in the order of the variants.\<close>

type_synonym assessment = "finding set"

definition assessment_list :: "assessment \<Rightarrow> finding list" where
  "assessment_list a = filter (\<lambda>f. f \<in> a) ALL_FINDINGS"

definition constrains_broad_grant :: "assessment \<Rightarrow> bool" where
  "constrains_broad_grant a = list_ex is_grant_floor (assessment_list a)"

definition is_file_write_only :: "assessment \<Rightarrow> bool" where
  "is_file_write_only a \<longleftrightarrow> assessment_list a = [FileWrite]"

definition assessment_tokens :: "assessment \<Rightarrow> ustr list" where
  "assessment_tokens a = map finding_token (assessment_list a)"

definition render_glossary :: "assessment \<Rightarrow> ustr" where
  "render_glossary a =
     join [NL] (map (\<lambda>f. lit ''- '' @ finding_token f @ lit '': '' @ finding_description f) (assessment_list a))"

definition env_risk_finding :: "env_risk \<Rightarrow> finding option" where
  "env_risk_finding r =
     (case r of EnvInjection \<Rightarrow> Some FEnvInjection | EnvUnvetted \<Rightarrow> Some UnvettedEnv | EnvSafe \<Rightarrow> None)"

end
