(* ===== verification/Mcp_Names.thy ===== *)
theory Mcp_Names
  imports Safe_Commands
begin

text \<open>
  Qualified names of MCP tools (\<open>crates/codegen/xai-grok-mcp/src/tool_name.rs\<close>) over the identifiers of
  \<open>crates/common/xai-tool-protocol/src/ids.rs\<close>. A grant for a whole server is looked up by the server part of a
  name.
\<close>

definition is_id_char :: "uchar \<Rightarrow> bool" where
  "is_id_char c \<longleftrightarrow> is_ascii_alpha c \<or> is_ascii_digit c \<or> c = 95 \<or> c = DASH"

definition is_valid_segment :: "ustr \<Rightarrow> bool" where
  "is_valid_segment s \<longleftrightarrow> s \<noteq> [] \<and> list_all is_id_char s"

text \<open>\<open>splitn(3, ':')\<close> yields one, two or three pieces.\<close>

definition is_well_formed_tool_id :: "ustr \<Rightarrow> bool" where
  "is_well_formed_tool_id s =
     (case split_char 58 s of
        [first] \<Rightarrow> is_valid_segment first
      | [first, second] \<Rightarrow> is_valid_segment first \<and> is_valid_segment second
      | _ \<Rightarrow> False)"

datatype id_error = IdEmpty | InvalidFormat ustr

definition tool_id_new :: "ustr \<Rightarrow> id_error + ustr" where
  "tool_id_new value =
     (if value = [] then Inl IdEmpty
      else if \<not> is_well_formed_tool_id value then Inl (InvalidFormat value)
      else Inr value)"

definition MCP_TOOL_NAME_DELIMITER :: ustr where "MCP_TOOL_NAME_DELIMITER = lit ''__''"

definition PROVIDER_TOOL_NAME_MAX_CHARS :: nat where "PROVIDER_TOOL_NAME_MAX_CHARS = 64"

definition MCP_QUALIFIED_NAME_MAX_CHARS :: nat where "MCP_QUALIFIED_NAME_MAX_CHARS = 256"

text \<open>The indices of the delimiter, overlapping ones included.\<close>

definition boundaries :: "ustr \<Rightarrow> nat list" where
  "boundaries name = filter (\<lambda>i. name ! i = 95 \<and> name ! Suc i = 95) [0..<length name - 1]"

definition parse_mcp_qualified_name :: "ustr \<Rightarrow> (ustr \<times> ustr) option" where
  "parse_mcp_qualified_name name =
     (case boundaries name of
        [boundary] \<Rightarrow>
          (let server = take boundary name; tool = drop (boundary + 2) name in
           if server = [] \<or> tool = [] then None
           else (case tool_id_new name of Inr _ \<Rightarrow> Some (server, tool) | Inl _ \<Rightarrow> None))
      | _ \<Rightarrow> None)"

definition is_mcp_name_segment :: "ustr \<Rightarrow> bool" where
  "is_mcp_name_segment name \<longleftrightarrow>
     name \<noteq> [] \<and> list_all (\<lambda>c. is_ascii_alpha c \<or> is_ascii_digit c \<or> c = 95 \<or> c = DASH) name"

definition starts_with_letter_or_underscore :: "ustr \<Rightarrow> bool" where
  "starts_with_letter_or_underscore name = (case name of c # _ \<Rightarrow> is_ascii_alpha c \<or> c = 95 | [] \<Rightarrow> False)"

definition validate_tool_name :: "ustr \<Rightarrow> bool" where
  "validate_tool_name name \<longleftrightarrow>
     name \<noteq> [] \<and> \<not> (byte_len name > PROVIDER_TOOL_NAME_MAX_CHARS \<or> \<not> starts_with_letter_or_underscore name \<or>
                    \<not> is_mcp_name_segment name)"

datatype mcp_tool_admission_error =
    InvalidServerName ustr
  | InvalidToolName ustr
  | QualifiedNameTooLong ustr nat nat
  | InvalidOrAmbiguousQualifiedName ustr

definition qualify_mcp_tool_name :: "ustr \<Rightarrow> ustr \<Rightarrow> mcp_tool_admission_error + ustr" where
  "qualify_mcp_tool_name server tool =
     (if \<not> starts_with_letter_or_underscore server \<or> \<not> is_mcp_name_segment server then Inl (InvalidServerName server)
      else if \<not> is_mcp_name_segment tool then Inl (InvalidToolName tool)
      else (let qualified = server @ MCP_TOOL_NAME_DELIMITER @ tool in
            if byte_len qualified > MCP_QUALIFIED_NAME_MAX_CHARS
            then Inl (QualifiedNameTooLong qualified (byte_len qualified) MCP_QUALIFIED_NAME_MAX_CHARS)
            else if parse_mcp_qualified_name qualified = None then Inl (InvalidOrAmbiguousQualifiedName qualified)
            else Inr qualified))"

section \<open>Names identify the server and the tool\<close>

lemma delimiter_chars: "MCP_TOOL_NAME_DELIMITER = [95, 95]"
  by (simp add: MCP_TOOL_NAME_DELIMITER_def lit_def)

lemma boundary_at:
  assumes "boundaries name = [b]"
  shows "name = take b name @ MCP_TOOL_NAME_DELIMITER @ drop (b + 2) name"
    "name = s @ MCP_TOOL_NAME_DELIMITER @ t \<Longrightarrow> b = length s"
proof -
  have b: "b \<in> set (boundaries name)" using assms by simp
  then have i: "Suc b < length name" "name ! b = 95" "name ! Suc b = 95" by (auto simp: boundaries_def)
  then have "drop b name = 95 # 95 # drop (b + 2) name"
    by (metis Cons_nth_drop_Suc Suc_lessD add_2_eq_Suc')
  then show "name = take b name @ MCP_TOOL_NAME_DELIMITER @ drop (b + 2) name"
    by (metis append_Cons append_Nil append_take_drop_id delimiter_chars)
  show "b = length s" if "name = s @ MCP_TOOL_NAME_DELIMITER @ t"
  proof -
    have "length s \<in> set (boundaries name)"
      by (simp add: that boundaries_def nth_append delimiter_chars)
    then show ?thesis using assms by simp
  qed
qed

lemma parse_mcp_parts:
  assumes "parse_mcp_qualified_name q = Some (s, t)"
  shows "q = s @ MCP_TOOL_NAME_DELIMITER @ t \<and> s \<noteq> [] \<and> t \<noteq> [] \<and>
    (\<forall>s' t'. q = s' @ MCP_TOOL_NAME_DELIMITER @ t' \<longrightarrow> s' = s \<and> t' = t)"
proof -
  obtain b where b: "boundaries q = [b]" "s = take b q" "t = drop (b + 2) q" "s \<noteq> []" "t \<noteq> []"
    using assms by (auto simp: parse_mcp_qualified_name_def Let_def split: list.splits if_splits sum.splits)
  have q: "q = s @ MCP_TOOL_NAME_DELIMITER @ t" using boundary_at(1)[OF b(1)] b(2,3) by simp
  have "s' = s \<and> t' = t" if e: "q = s' @ MCP_TOOL_NAME_DELIMITER @ t'" for s' t'
    using boundary_at(2)[OF b(1) e] boundary_at(2)[OF b(1) q] e q by (metis append_eq_append_conv)
  with q b(4,5) show ?thesis by blast
qed

text \<open>
  A qualified name has one reading: what \<open>qualify_mcp_tool_name\<close> accepts is read back as the server and the
  tool it was made of, and whatever is read as a server and a tool is the two joined, so a grant for a server
  never covers a tool of another.
\<close>

lemma mcp_name_roundtrip:
  "(\<forall>q. qualify_mcp_tool_name server tool = Inr q \<longrightarrow>
      q = server @ MCP_TOOL_NAME_DELIMITER @ tool \<and> parse_mcp_qualified_name q = Some (server, tool)) \<and>
   (\<forall>q. parse_mcp_qualified_name q = Some (server, tool) \<longrightarrow>
      q = server @ MCP_TOOL_NAME_DELIMITER @ tool \<and> server \<noteq> [] \<and> tool \<noteq> [] \<and>
      (\<forall>s t. q = s @ MCP_TOOL_NAME_DELIMITER @ t \<longrightarrow> s = server \<and> t = tool))"
proof -
  have "parse_mcp_qualified_name q = Some (server, tool) \<and> q = server @ MCP_TOOL_NAME_DELIMITER @ tool"
    if "qualify_mcp_tool_name server tool = Inr q" for q
  proof -
    have q: "q = server @ MCP_TOOL_NAME_DELIMITER @ tool" and "parse_mcp_qualified_name q \<noteq> None"
      using that by (auto simp: qualify_mcp_tool_name_def Let_def split: if_splits)
    then obtain s t where st: "parse_mcp_qualified_name q = Some (s, t)" by auto
    with parse_mcp_parts[OF st] q show ?thesis by blast
  qed
  with parse_mcp_parts show ?thesis by blast
qed

lemma mcp_name_roundtrip_witness:
  "parse_mcp_qualified_name (lit ''a_b__c'') = Some (lit ''a_b'', lit ''c'')"
proof -
  have "qualify_mcp_tool_name (lit ''a_b'') (lit ''c'') = Inr (lit ''a_b__c'')"
    by (simp add: qualify_mcp_tool_name_def parse_mcp_qualified_name_def boundaries_def upt_rec tool_id_new_def
        is_well_formed_tool_id_def is_valid_segment_def is_id_char_def is_mcp_name_segment_def
        starts_with_letter_or_underscore_def is_ascii_alpha_def is_ascii_digit_def delimiter_chars lit_def utf8_len_def
        MCP_QUALIFIED_NAME_MAX_CHARS_def Let_def)
  with mcp_name_roundtrip[of "lit ''a_b''" "lit ''c''"] show ?thesis by blast
qed

end
