(* ===== verification/Web_Domains.thy ===== *)
theory Web_Domains
  imports Perm_Policy
begin

text \<open>
  Domains of \<open>web_fetch\<close>: the allow list of
  \<open>crates/codegen/xai-grok-tools/src/implementations/grok_build/web_fetch/domain.rs\<close> and the remembered denials of
  \<open>crates/codegen/xai-grok-workspace/src/permission/grants.rs\<close>.

  A parsed URL is given by its host and its path. A hash map is a map; a hash set is a list in the order in
  which it is iterated.
\<close>

section \<open>The allow list\<close>

datatype host_entry = AnyPath | PathPrefixes "ustr list"

type_synonym domain_matcher = "ustr \<rightharpoonup> host_entry"

definition insert_prefix :: "domain_matcher \<Rightarrow> ustr \<Rightarrow> ustr \<Rightarrow> domain_matcher" where
  "insert_prefix entries host prefix =
     (case entries host of
        Some (PathPrefixes v) \<Rightarrow> entries(host \<mapsto> PathPrefixes (if prefix \<in> set v then v else v @ [prefix]))
      | Some AnyPath \<Rightarrow> entries
      | None \<Rightarrow> entries(host \<mapsto> PathPrefixes [prefix]))"

definition matcher_insert :: "'g policy_env \<Rightarrow> domain_matcher \<Rightarrow> ustr \<Rightarrow> domain_matcher" where
  "matcher_insert env entries raw =
     (let normalized = normalize_domain env raw in
      if normalized = [] then entries
      else if SLASH \<notin> set normalized then entries(normalized \<mapsto> AnyPath)
      else
        (let host = takeWhile (\<lambda>c. c \<noteq> SLASH) normalized;
             raw_path = dropWhile (\<lambda>c. c \<noteq> SLASH) normalized
         in if entries host = Some AnyPath then entries
            else (let prefix = trim_end_matches SLASH raw_path in
                  if prefix = [] \<or> prefix = [SLASH] then entries(host \<mapsto> AnyPath)
                  else insert_prefix entries host (if starts_with prefix [SLASH] then prefix else SLASH # prefix))))"

definition domain_matcher_new :: "'g policy_env \<Rightarrow> ustr list \<Rightarrow> domain_matcher" where
  "domain_matcher_new env raw_entries = foldl (matcher_insert env) Map.empty raw_entries"

definition path_under :: "ustr \<Rightarrow> ustr \<Rightarrow> bool" where
  "path_under url_path prefix \<longleftrightarrow>
     url_path = prefix \<or>
     (starts_with url_path prefix \<and> length prefix < length url_path \<and> url_path ! length prefix = SLASH)"

text \<open>\<open>None\<close> permits; \<open>Some\<close> is \<open>DomainNotAllowed\<close>.\<close>

definition matcher_check :: "'g policy_env \<Rightarrow> domain_matcher \<Rightarrow> ustr option \<Rightarrow> ustr \<Rightarrow> ustr option" where
  "matcher_check env entries url_host url_path =
     (case url_host of
        None \<Rightarrow> Some []
      | Some raw_host \<Rightarrow>
          (let host = normalize_domain env raw_host in
           case entries host of
             Some AnyPath \<Rightarrow> None
           | Some (PathPrefixes prefixes) \<Rightarrow>
               if list_ex (path_under (pe_lower env url_path)) prefixes then None else Some host
           | None \<Rightarrow> Some host))"

section \<open>Remembered denials\<close>

definition web_fetch_deny_key :: "'g policy_env \<Rightarrow> ustr \<Rightarrow> ustr" where
  "web_fetch_deny_key env host = pe_lower env (trim_end_matches DOT (trim host))"

definition web_fetch_deny_key_from_url :: "'g policy_env \<Rightarrow> ustr \<Rightarrow> ustr option" where
  "web_fetch_deny_key_from_url env url =
     (case pe_url_host env url of
        None \<Rightarrow> None
      | Some host \<Rightarrow> (let key = web_fetch_deny_key env host in if key = [] then None else Some key))"

definition denies_domain :: "ustr \<Rightarrow> ustr \<Rightarrow> bool" where
  "denies_domain domain denied \<longleftrightarrow>
     denied \<noteq> [] \<and>
     (domain = denied \<or>
      (byte_len domain > byte_len denied + 1 \<and> ends_with domain denied \<and>
       domain ! (length domain - length denied - 1) = DOT))"

definition denied_web_fetch_domain :: "'g policy_env \<Rightarrow> ustr \<Rightarrow> ustr list \<Rightarrow> ustr option" where
  "denied_web_fetch_domain env host disallowed =
     (if disallowed = [] then None else find (denies_domain (web_fetch_deny_key env host)) disallowed)"

section \<open>What the allow list permits\<close>

text \<open>The reading of a single entry, without the table.\<close>

definition entry_permits :: "'g policy_env \<Rightarrow> ustr \<Rightarrow> ustr \<Rightarrow> ustr \<Rightarrow> bool" where
  "entry_permits env raw host path \<longleftrightarrow>
     (let n = normalize_domain env raw;
          prefix = trim_end_matches SLASH (dropWhile (\<lambda>c. c \<noteq> SLASH) n)
      in n \<noteq> [] \<and> host = takeWhile (\<lambda>c. c \<noteq> SLASH) n \<and> (prefix = [] \<or> path = prefix \<or> (\<exists>rest. path = prefix @ SLASH # rest)))"

lemma path_under_iff: "path_under path prefix \<longleftrightarrow> path = prefix \<or> (\<exists>rest. path = prefix @ SLASH # rest)"
proof -
  have "starts_with path prefix \<and> length prefix < length path \<and> path ! length prefix = SLASH \<longleftrightarrow>
      (\<exists>rest. path = prefix @ SLASH # rest)" (is "?l \<longleftrightarrow> ?r")
  proof
    assume l: ?l
    then obtain r where r: "path = prefix @ r" unfolding starts_with_iff by blast
    with l show ?r by (cases r) auto
  qed (auto simp: starts_with_iff)
  then show ?thesis by (simp add: path_under_def)
qed

definition table_permits :: "domain_matcher \<Rightarrow> ustr \<Rightarrow> ustr \<Rightarrow> bool" where
  "table_permits entries host path =
     (case entries host of
        Some AnyPath \<Rightarrow> True
      | Some (PathPrefixes ps) \<Rightarrow> list_ex (path_under path) ps
      | None \<Rightarrow> False)"

lemma trimmed_path:
  assumes "SLASH \<in> set n"
  defines "prefix \<equiv> trim_end_matches SLASH (dropWhile (\<lambda>c. c \<noteq> SLASH) n)"
  shows "prefix \<noteq> [SLASH]" "prefix \<noteq> [] \<Longrightarrow> starts_with prefix [SLASH]"
proof -
  have nolast: "trim_end_matches SLASH s = [] \<or> last (trim_end_matches SLASH s) \<noteq> SLASH" for s
    unfolding trim_end_matches_def by (metis (mono_tags) hd_dropWhile last_rev rev_is_Nil_conv)
  then show ne: "prefix \<noteq> [SLASH]" unfolding prefix_def by (metis last.simps list.distinct(1))
  obtain r where d: "dropWhile (\<lambda>c. c \<noteq> SLASH) n = SLASH # r"
    using assms(1) by (metis (mono_tags, lifting) dropWhile_eq_Nil_conv hd_dropWhile list.exhaust_sel)
  have "\<exists>t. s = trim_end_matches SLASH s @ t" for s
    unfolding trim_end_matches_def by (metis rev_append rev_rev_ident takeWhile_dropWhile_id)
  then obtain t where "SLASH # r = prefix @ t" unfolding prefix_def d[symmetric] by blast
  then show "starts_with prefix [SLASH]" if "prefix \<noteq> []"
    using that by (cases prefix) (auto simp: starts_with_def)
qed

lemma matcher_insert_permits:
  "table_permits (matcher_insert env entries raw) host path \<longleftrightarrow> table_permits entries host path \<or> entry_permits env raw host path"
proof -
  let ?n = "normalize_domain env raw"
  let ?h = "takeWhile (\<lambda>c. c \<noteq> SLASH) ?n" and ?p = "trim_end_matches SLASH (dropWhile (\<lambda>c. c \<noteq> SLASH) ?n)"
  consider (empty) "?n = []" | (host) "?n \<noteq> []" "SLASH \<notin> set ?n"
    | (any) "SLASH \<in> set ?n" "entries ?h = Some AnyPath"
    | (all) "SLASH \<in> set ?n" "entries ?h \<noteq> Some AnyPath" "?p = []"
    | (path) "SLASH \<in> set ?n" "entries ?h \<noteq> Some AnyPath" "?p \<noteq> []" by blast
  then show ?thesis
  proof cases
    case empty
    then show ?thesis by (simp add: matcher_insert_def entry_permits_def)
  next
    case host
    have "\<forall>c \<in> set ?n. c \<noteq> SLASH" using host(2) by blast
    then have h: "?h = ?n" and p: "?p = []"
      by (simp_all add: takeWhile_eq_all_conv dropWhile_eq_Nil_conv[THEN iffD2] trim_end_matches_def)
    have "entry_permits env raw host path \<longleftrightarrow> host = ?n"
      unfolding entry_permits_def Let_def h p using host(1) by simp
    moreover have "matcher_insert env entries raw = entries(?n \<mapsto> AnyPath)"
      using host by (simp add: matcher_insert_def Let_def)
    ultimately show ?thesis by (simp add: table_permits_def)
  next
    case any
    then have "?n \<noteq> []" by auto
    with any show ?thesis by (auto simp: matcher_insert_def Let_def table_permits_def entry_permits_def)
  next
    case all
    then have "?n \<noteq> []" by auto
    with all show ?thesis by (auto simp: matcher_insert_def Let_def table_permits_def entry_permits_def)
  next
    case path
    then have "?n \<noteq> []" by auto
    with path trimmed_path[of ?n] show ?thesis
      by (auto simp: matcher_insert_def Let_def table_permits_def entry_permits_def insert_prefix_def list_ex_iff path_under_iff
          split: option.splits host_entry.splits)
  qed
qed

text \<open>
  C23. The table of allowed domains means exactly its entries: a URL is let through when some entry names its
  host and either no path or a path of which the URL's path is the same or lies below a slash, whatever the
  order of the entries and whichever of them share a host; a URL without a host is not.
\<close>

theorem domain_matcher_exact:
  "matcher_check env (domain_matcher_new env raws) url_host url_path = None \<longleftrightarrow>
     (\<exists>host. url_host = Some host \<and>
        (\<exists>raw \<in> set raws. entry_permits env raw (normalize_domain env host) (pe_lower env url_path)))"
proof -
  have "table_permits (foldl (matcher_insert env) entries raws) host path \<longleftrightarrow>
      table_permits entries host path \<or> (\<exists>raw \<in> set raws. entry_permits env raw host path)" for entries host path
    by (induction raws arbitrary: entries) (auto simp: matcher_insert_permits)
  from this[of Map.empty] have table: "table_permits (domain_matcher_new env raws) host path \<longleftrightarrow>
      (\<exists>raw \<in> set raws. entry_permits env raw host path)" for host path
    by (simp add: domain_matcher_new_def table_permits_def[of Map.empty])
  have "matcher_check env t (Some host) url_path = None \<longleftrightarrow> table_permits t (normalize_domain env host) (pe_lower env url_path)"
    for t host
    by (simp add: matcher_check_def table_permits_def Let_def split: option.splits host_entry.splits)
  with table show ?thesis by (cases url_host) (simp_all add: matcher_check_def[of env _ None])
qed

lemma denies_domain_iff:
  "denies_domain domain denied \<longleftrightarrow> denied \<noteq> [] \<and> (domain = denied \<or> (\<exists>sub. sub \<noteq> [] \<and> domain = sub @ DOT # denied))"
proof -
  have "byte_len domain > byte_len denied + 1 \<and> ends_with domain denied \<and> domain ! (length domain - length denied - 1) = DOT \<longleftrightarrow>
      (\<exists>sub. sub \<noteq> [] \<and> domain = sub @ DOT # denied)" (is "?l \<longleftrightarrow> ?r")
  proof
    assume l: ?l
    obtain r where r: "domain = r @ denied"
      using l unfolding ends_with_def starts_with_iff by (metis rev_append rev_rev_ident)
    have len: "byte_len r > 1" using l r by simp
    then obtain s c where s: "r = s @ [c]" by (cases r rule: rev_cases) auto
    have c: "c = DOT" using l by (simp add: r s nth_append)
    have "utf8_len DOT = 1" by (simp add: utf8_len_def)
    then have "s \<noteq> []" using len s c by auto
    then show ?r using r s c by auto
  next
    assume ?r
    then obtain s where s: "s \<noteq> []" "domain = s @ DOT # denied" by blast
    have "ends_with domain denied" unfolding ends_with_def starts_with_iff s(2) by simp
    moreover have "byte_len s > 0" using s(1) by (metis byte_len_0 neq0_conv)
    ultimately show ?l using s(2) by (simp add: nth_append utf8_len_def)
  qed
  then show ?thesis by (auto simp: denies_domain_def)
qed

end
