(* ===== verification/Edit_Targets.thy ===== *)
theory Edit_Targets
  imports Shell_Access
begin

text \<open>
  Edit targets that need a confirmation of their own
  (\<open>crates/codegen/xai-grok-workspace/src/permission/shell_access.rs\<close>, from \<open>ProtectedEditReason\<close> to
  \<open>resolved_path_is_within_root\<close>).

  The user's configuration directory (\<open>user_grok_home\<close>, which reads the environment) is the parameter \<open>home\<close>.
\<close>

section \<open>Reasons\<close>

datatype protected_edit_reason =
  HookRoot | GitHooks | Ssh | StartupFile | Etc | GrokConfig | GrokSandbox | ClaudeSettings | CursorHooks | Sensitive

definition reason_kind :: "protected_edit_reason \<Rightarrow> ustr" where
  "reason_kind r = lit
     (case r of
        HookRoot \<Rightarrow> ''hook_root'' | GitHooks \<Rightarrow> ''git_hooks'' | Ssh \<Rightarrow> ''ssh'' | StartupFile \<Rightarrow> ''startup_file''
      | Etc \<Rightarrow> ''etc'' | GrokConfig \<Rightarrow> ''grok_config'' | GrokSandbox \<Rightarrow> ''grok_sandbox''
      | ClaudeSettings \<Rightarrow> ''claude_settings'' | CursorHooks \<Rightarrow> ''cursor_hooks'' | Sensitive \<Rightarrow> ''sensitive'')"

section \<open>Paths by components\<close>

text \<open>\<open>Path::eq\<close> and \<open>Path::starts_with\<close> compare components.\<close>

definition path_eq :: "ustr \<Rightarrow> ustr \<Rightarrow> bool" where
  "path_eq p q \<longleftrightarrow> components p = components q"

definition path_starts_with :: "ustr \<Rightarrow> ustr \<Rightarrow> bool" where
  "path_starts_with p q \<longleftrightarrow> starts_with (components p) (components q)"

fun normal_names :: "component list \<Rightarrow> ustr list" where
  "normal_names [] = []"
| "normal_names (Normal s # cs) = map ascii_lower s # normal_names cs"
| "normal_names (_ # cs) = normal_names cs"

definition adjacent :: "'a \<Rightarrow> 'a \<Rightarrow> 'a list \<Rightarrow> bool" where
  "adjacent a b xs = list_ex (\<lambda>pair. pair = (a, b)) (zip xs (drop 1 xs))"

section \<open>Classification\<close>

definition grok_home_matches :: "'g policy_env \<Rightarrow> ustr option \<Rightarrow> (ustr \<Rightarrow> bool) \<Rightarrow> bool" where
  "grok_home_matches env home P =
     (case home of
        None \<Rightarrow> False
      | Some home \<Rightarrow>
          (let lexical = normalize_lexically home in
           P lexical \<or> (case resolve_following_symlinks env lexical of Some resolved \<Rightarrow> P resolved | None \<Rightarrow> False)))"

definition path_is_under_user_grok_hook_root :: "ustr \<Rightarrow> ustr \<Rightarrow> bool" where
  "path_is_under_user_grok_hook_root path grok_home \<longleftrightarrow>
     path_starts_with path (path_join grok_home (lit ''hooks'')) \<or>
     path_eq path (path_join grok_home (lit ''hooks-paths''))"

definition protected_grok_hook_root :: "'g policy_env \<Rightarrow> ustr option \<Rightarrow> ustr \<Rightarrow> ustr list \<Rightarrow> bool" where
  "protected_grok_hook_root env home path names \<longleftrightarrow>
     adjacent (lit ''.grok'') (lit ''hooks'') names \<or>
     ends_with names [lit ''.grok'', lit ''hooks-paths''] \<or>
     grok_home_matches env home (path_is_under_user_grok_hook_root path)"

fun module_hooks :: "ustr list \<Rightarrow> bool" where
  "module_hooks [] = False"
| "module_hooks (c # cs) =
     (c = lit ''.git'' \<and>
      (case cs of m # rest \<Rightarrow> m = lit ''modules'' \<and> list_ex (\<lambda>c. c = lit ''hooks'') (drop 1 rest) | [] \<Rightarrow> False) \<or>
      module_hooks cs)"

definition protected_git_hooks_path :: "ustr list \<Rightarrow> bool" where
  "protected_git_hooks_path names \<longleftrightarrow> adjacent (lit ''.git'') (lit ''hooks'') names \<or> module_hooks names"

definition nth_last :: "nat \<Rightarrow> 'a list \<Rightarrow> 'a option" where
  "nth_last k xs = (if k \<le> length xs then word_at xs (length xs - k) else None)"

definition protected_grok_config_file_with_home ::
  "'g policy_env \<Rightarrow> ustr option \<Rightarrow> ustr \<Rightarrow> ustr list \<Rightarrow> protected_edit_reason option"
where
  "protected_grok_config_file_with_home env home path names =
     (if names = [] then None
      else
        (let file = last names; n = length names in
         if (file = lit ''permission.toml'' \<or> starts_with file (lit ''permission_'') \<and> ends_with file (lit ''.toml'')) \<and>
            n \<ge> 3 \<and> nth_last 3 names = Some (lit ''sessions'')
         then (let in_dot_grok = (n \<ge> 4 \<and> nth_last 4 names = Some (lit ''.grok''));
                   in_grok_home =
                     grok_home_matches env home (\<lambda>home.
                       case Option.bind (path_parent path) path_parent of
                         Some sessions \<Rightarrow> path_eq sessions (path_join home (lit ''sessions''))
                       | None \<Rightarrow> False)
               in if in_dot_grok \<or> in_grok_home then Some GrokConfig else None)
         else
           (let reason =
                  (if file \<in> set (map lit [''config.toml'', ''managed_config.toml'', ''requirements.toml'', ''mcp.json'', ''lsp.json''])
                   then Some GrokConfig
                   else if file = lit ''sandbox.toml'' then Some GrokSandbox
                   else None);
                in_dot_grok = (n \<ge> 2 \<and> nth_last 2 names = Some (lit ''.grok''));
                in_grok_home =
                  grok_home_matches env home (\<lambda>home.
                    case path_parent path of Some parent \<Rightarrow> path_eq parent home | None \<Rightarrow> False)
            in case reason of
                 None \<Rightarrow> None
               | Some r \<Rightarrow> if in_dot_grok \<or> in_grok_home then Some r else None)))"

definition STARTUP_FILES :: "ustr list" where
  "STARTUP_FILES = map lit
     [''.bashrc'', ''.bash_profile'', ''.bash_login'', ''.bash_logout'', ''.profile'', ''.zshrc'', ''.zshenv'',
      ''.zprofile'', ''.zlogin'', ''.zlogout'', ''.kshrc'', ''.cshrc'', ''.tcshrc'', ''.login'', ''.logout'',
      ''.inputrc'', ''.xprofile'']"

definition protected_edit_reason_of ::
  "'g policy_env \<Rightarrow> ustr option \<Rightarrow> ustr \<Rightarrow> protected_edit_reason option"
where
  "protected_edit_reason_of env home path =
     (let names = normal_names (components path);
          file = (if names = [] then [] else last names)
      in if protected_grok_hook_root env home path names then Some HookRoot
         else if ends_with names [lit ''.claude'', lit ''settings.json''] \<or>
                 ends_with names [lit ''.claude'', lit ''settings.local.json''] then Some ClaudeSettings
         else if ends_with names [lit ''.cursor'', lit ''hooks.json''] then Some CursorHooks
         else if protected_git_hooks_path names then Some GitHooks
         else if lit ''.ssh'' \<in> set names then Some Ssh
         else if file \<in> set STARTUP_FILES then Some StartupFile
         else (case protected_grok_config_file_with_home env home path names of
                 Some reason \<Rightarrow> Some reason
               | None \<Rightarrow>
                   if path_eq path (lit ''/etc'') \<or> path_starts_with path (lit ''/etc'') then Some Etc else None))"

definition resolved_path_is_within_root :: "'g policy_env \<Rightarrow> ustr \<Rightarrow> ustr \<Rightarrow> bool" where
  "resolved_path_is_within_root env resolved_path root =
     (case resolve_following_symlinks env root of
        Some resolved_root \<Rightarrow> path_starts_with resolved_path resolved_root
      | None \<Rightarrow> True)"

definition edit_target_protection :: "'g policy_env \<Rightarrow> ustr option \<Rightarrow> ustr \<Rightarrow> protected_edit_reason option" where
  "edit_target_protection env home path =
     (if \<not> is_absolute path then Some Sensitive
      else (case protected_edit_reason_of env home (normalize_lexically path) of
              Some reason \<Rightarrow> Some reason
            | None \<Rightarrow>
                (case resolve_following_symlinks env path of
                   None \<Rightarrow> Some Sensitive
                 | Some resolved \<Rightarrow>
                     (case protected_edit_reason_of env home resolved of
                        Some reason \<Rightarrow> Some reason
                      | None \<Rightarrow> if resolved_path_is_within_root env resolved (lit ''/etc'') then Some Sensitive else None))))"

section \<open>What is protected\<close>

text \<open>
  The names that need a confirmation wherever they stand, for names in lower case.
\<close>

definition GROK_FILES :: "string list" where
  "GROK_FILES = [''config.toml'', ''managed_config.toml'', ''requirements.toml'', ''mcp.json'', ''lsp.json'', ''sandbox.toml'']"

definition guarded_names :: "ustr list \<Rightarrow> bool" where
  "guarded_names ns \<longleftrightarrow>
     lit ''.ssh'' \<in> set ns \<or>
     (\<exists>a b. ns = a @ lit ''.git'' # lit ''hooks'' # b \<or> ns = a @ lit ''.grok'' # lit ''hooks'' # b) \<or>
     (\<exists>a m b c. ns = a @ lit ''.git'' # lit ''modules'' # m # b @ lit ''hooks'' # c) \<or>
     (\<exists>a f. ns = a @ [f] \<and> f \<in> set STARTUP_FILES) \<or>
     (\<exists>a. ns = a @ [lit ''.grok'', lit ''hooks-paths''] \<or> ns = a @ [lit ''.cursor'', lit ''hooks.json''] \<or>
        ns = a @ [lit ''.claude'', lit ''settings.json''] \<or> ns = a @ [lit ''.claude'', lit ''settings.local.json'']) \<or>
     (\<exists>a f. ns = a @ [lit ''.grok'', lit f] \<and> f \<in> set GROK_FILES) \<or>
     (\<exists>a s. ns = a @ [lit ''.grok'', lit ''sessions'', s, lit ''permission.toml''])"

lemma adjacent_iff: "adjacent x y ns \<longleftrightarrow> (\<exists>a b. ns = a @ x # y # b)"
proof (induction ns)
  case (Cons n ns)
  show ?case
  proof (cases ns)
    case (Cons m ms)
    have "adjacent x y (n # ns) \<longleftrightarrow> n = x \<and> m = y \<or> adjacent x y ns"
      by (simp add: adjacent_def Cons)
    then show ?thesis unfolding Cons.IH using Cons by (metis append_Cons append_Nil append_eq_Cons_conv list.inject)
  qed (auto simp: adjacent_def append_eq_Cons_conv)
qed (simp add: adjacent_def)

lemma suffix_split: "(\<exists>a. n # ns = a @ t) \<longleftrightarrow> n # ns = t \<or> (\<exists>a. ns = a @ t)"
  by (auto simp: Cons_eq_append_conv)

lemma module_hooks_iff:
  "module_hooks ns \<longleftrightarrow> (\<exists>a m b c. ns = a @ lit ''.git'' # lit ''modules'' # m # b @ lit ''hooks'' # c)"
proof (induction ns)
  case (Cons n ns)
  have here: "(case ns of m # rest \<Rightarrow> m = lit ''modules'' \<and> list_ex (\<lambda>c. c = lit ''hooks'') (drop 1 rest) | [] \<Rightarrow> False) \<longleftrightarrow>
      (\<exists>m b c. ns = lit ''modules'' # m # b @ lit ''hooks'' # c)"
    by (cases ns rule: remdups_adj.cases) (auto simp: list_ex_iff in_set_conv_decomp)
  have "module_hooks (n # ns) \<longleftrightarrow>
      n = lit ''.git'' \<and> (\<exists>m b c. ns = lit ''modules'' # m # b @ lit ''hooks'' # c) \<or>
      (\<exists>a m b c. ns = a @ lit ''.git'' # lit ''modules'' # m # b @ lit ''hooks'' # c)"
    unfolding module_hooks.simps here Cons.IH by blast
  also have "\<dots> \<longleftrightarrow> (\<exists>a m b c. n # ns = a @ lit ''.git'' # lit ''modules'' # m # b @ lit ''hooks'' # c)"
  proof -
    have "(\<exists>a m b c. n # ns = a @ X m b c) \<longleftrightarrow> (\<exists>m b c. n # ns = X m b c) \<or> (\<exists>a m b c. ns = a @ X m b c)"
      for X :: "ustr \<Rightarrow> ustr list \<Rightarrow> ustr list \<Rightarrow> ustr list"
      using suffix_split[of n ns] by blast
    from this[of "\<lambda>m b c. lit ''.git'' # lit ''modules'' # m # b @ lit ''hooks'' # c"] show ?thesis by simp
  qed
  finally show ?case .
qed simp

lemma ends_with_iff: "ends_with s p \<longleftrightarrow> (\<exists>r. s = r @ p)"
proof -
  have "rev s = rev p @ r \<longleftrightarrow> s = rev r @ p" for r by (metis rev_append rev_rev_ident)
  then show ?thesis unfolding ends_with_def starts_with_iff by (metis rev_rev_ident)
qed

lemma nth_last_append: "k \<le> length t \<Longrightarrow> nth_last k (a @ t) = nth_last k t"
  by (auto simp: nth_last_def word_at_def nth_append)

text \<open>Configuration files next to \<open>.grok\<close>.\<close>

lemma config_file_guarded:
  assumes "ns = a @ [lit ''.grok'', lit f] \<and>
      f \<in> set GROK_FILES \<or>
    ns = a @ [lit ''.grok'', lit ''sessions'', s, lit ''permission.toml'']"
  shows "protected_grok_config_file_with_home env home path ns \<noteq> None"
  using assms
proof
  assume n: "ns = a @ [lit ''.grok'', lit f] \<and>
      f \<in> set GROK_FILES"
  then have "\<not> (lit f = lit ''permission.toml'' \<or> starts_with (lit f) (lit ''permission_'') \<and> ends_with (lit f) (lit ''.toml''))"
    by (auto simp: GROK_FILES_def lit_def starts_with_def)
  moreover have "nth_last 2 ns = Some (lit ''.grok'')"
    using n nth_last_append[of 2 "[lit ''.grok'', lit f]" a] by (simp add: nth_last_def word_at_def)
  ultimately show ?thesis
    using n by (auto simp: protected_grok_config_file_with_home_def Let_def GROK_FILES_def lit_inject)
next
  assume n: "ns = a @ [lit ''.grok'', lit ''sessions'', s, lit ''permission.toml'']"
  then have "nth_last 3 ns = Some (lit ''sessions'')" "nth_last 4 ns = Some (lit ''.grok'')"
    using nth_last_append[of 3 "[lit ''.grok'', lit ''sessions'', s, lit ''permission.toml'']" a]
      nth_last_append[of 4 "[lit ''.grok'', lit ''sessions'', s, lit ''permission.toml'']" a]
    by (simp_all add: nth_last_def word_at_def)
  then show ?thesis using n by (simp add: protected_grok_config_file_with_home_def Let_def)
qed

lemma guarded_names_reason:
  assumes "guarded_names (normal_names (components p))"
  shows "protected_edit_reason_of env home p \<noteq> None"
proof -
  let ?ns = "normal_names (components p)"
  consider (ssh) "lit ''.ssh'' \<in> set ?ns"
    | (git) "protected_git_hooks_path ?ns"
    | (hooks) "adjacent (lit ''.grok'') (lit ''hooks'') ?ns \<or> ends_with ?ns [lit ''.grok'', lit ''hooks-paths'']"
    | (startup) a f where "?ns = a @ [f]" "f \<in> set STARTUP_FILES"
    | (settings) "ends_with ?ns [lit ''.claude'', lit ''settings.json''] \<or> ends_with ?ns [lit ''.claude'', lit ''settings.local.json''] \<or>
        ends_with ?ns [lit ''.cursor'', lit ''hooks.json'']"
    | (config) a f s where "?ns = a @ [lit ''.grok'', lit f] \<and>
        f \<in> set GROK_FILES \<or>
        ?ns = a @ [lit ''.grok'', lit ''sessions'', s, lit ''permission.toml'']"
    using assms unfolding guarded_names_def protected_git_hooks_path_def adjacent_iff module_hooks_iff ends_with_iff
    by (elim disjE exE conjE) blast+
  then show ?thesis
  proof cases
    case config
    have "protected_grok_config_file_with_home env home p ?ns \<noteq> None" by (rule config_file_guarded[OF config])
    then show ?thesis by (auto simp: protected_edit_reason_of_def Let_def)
  qed (auto simp: protected_edit_reason_of_def Let_def protected_grok_hook_root_def split: option.splits)
qed

text \<open>
  C22. No spelling of a sensitive file escapes the confirmation: a relative target, a target that cannot be
  resolved, a target whose normalised or resolved path has a guarded name (keys, hooks of \<open>git\<close> and of the
  agent, also in submodules, start-up files, settings), whatever the case of its letters and however many \<open>..\<close> the
  path has, and a target under \<open>/etc\<close> or what \<open>/etc\<close> resolves to.
\<close>

theorem guarded_edits_confirmed:
  shows "(\<not> is_absolute path \<longrightarrow> edit_target_protection env home path = Some Sensitive) \<and>
    (guarded_names (normal_names (components (normalize_lexically path))) \<longrightarrow> edit_target_protection env home path \<noteq> None) \<and>
    (path_starts_with (normalize_lexically path) (lit ''/etc'') \<longrightarrow> edit_target_protection env home path \<noteq> None) \<and>
    (case resolve_following_symlinks env path of
       None \<Rightarrow> edit_target_protection env home path \<noteq> None
     | Some r \<Rightarrow>
         guarded_names (normal_names (components r)) \<or>
         (\<forall>etc. resolve_following_symlinks env (lit ''/etc'') = Some etc \<longrightarrow> path_starts_with r etc) \<longrightarrow>
         edit_target_protection env home path \<noteq> None)"
proof -
  have etc: "protected_edit_reason_of env home p \<noteq> None" if "path_starts_with p (lit ''/etc'')" for p
    using that by (auto simp: protected_edit_reason_of_def Let_def split: option.splits)
  have lexical: "edit_target_protection env home path \<noteq> None"
    if "protected_edit_reason_of env home (normalize_lexically path) \<noteq> None"
    using that by (auto simp: edit_target_protection_def)
  have resolved: "edit_target_protection env home path \<noteq> None"
    if "resolve_following_symlinks env path = Some r"
      "protected_edit_reason_of env home r \<noteq> None \<or> resolved_path_is_within_root env r (lit ''/etc'')" for r
    using that by (auto simp: edit_target_protection_def split: option.splits)
  have unresolved: "edit_target_protection env home path \<noteq> None" if "resolve_following_symlinks env path = None"
    using that by (auto simp: edit_target_protection_def split: option.splits)
  have within: "resolved_path_is_within_root env r (lit ''/etc'')"
    if "\<forall>etc. resolve_following_symlinks env (lit ''/etc'') = Some etc \<longrightarrow> path_starts_with r etc" for r
    using that by (auto simp: resolved_path_is_within_root_def split: option.splits)
  note guarded = guarded_names_reason[of _ env home]
  show ?thesis
  proof (intro conjI impI)
    show "case resolve_following_symlinks env path of
        None \<Rightarrow> edit_target_protection env home path \<noteq> None
      | Some r \<Rightarrow>
          guarded_names (normal_names (components r)) \<or>
          (\<forall>etc. resolve_following_symlinks env (lit ''/etc'') = Some etc \<longrightarrow> path_starts_with r etc) \<longrightarrow>
          edit_target_protection env home path \<noteq> None"
    proof (cases "resolve_following_symlinks env path")
      case (Some r)
      then show ?thesis using resolved[OF Some] guarded[of r] within[of r] by auto
    qed (use unresolved in simp)
  qed (use lexical guarded etc in \<open>auto simp: edit_target_protection_def[of env home path]\<close>)
qed

theorem guarded_edits_confirmed_witness:
  "edit_target_protection demo_env None (lit ''/w/x/../.GIT/hooks/pre-commit'') \<noteq> None"
proof -
  have n: "normalize_lexically (lit ''/w/x/../.GIT/hooks/pre-commit'') = lit ''/w/.GIT/hooks/pre-commit''"
    by (simp add: path_eval)
  have "normal_names (components (lit ''/w/.GIT/hooks/pre-commit'')) = [lit ''w''] @ lit ''.git'' # lit ''hooks'' # [lit ''pre-commit'']"
    by (simp add: path_eval ascii_lower_def)
  then have "guarded_names (normal_names (components (normalize_lexically (lit ''/w/x/../.GIT/hooks/pre-commit''))))"
    unfolding n guarded_names_def by blast
  then show ?thesis using guarded_edits_confirmed by blast
qed

end
