(* ===== verification/Grants.thy ===== *)
theory Grants
  imports Mcp_Names Web_Domains Edit_Targets
begin

text \<open>
  Remembered answers (\<open>crates/codegen/xai-grok-workspace/src/permission/grants.rs\<close> and
  \<open>permission/grants/bash_grants.rs\<close>, over the state of \<open>permission/state.rs\<close> and the answers of
  \<open>permission/prompter.rs\<close>): whether what the user has allowed or rejected before decides a request, and what an
  answer adds.

  A hash set is a list in the order in which it is iterated; only the text of a rejection depends on that order.
  \<open>shellexpand::tilde\<close> is the parameter \<open>tilde\<close>, the path of a URL the parameter \<open>url_path\<close>.
\<close>

section \<open>State and answers\<close>

datatype edit_policy = EditAsk | EditAllow | EditReject

record permission_state =
  st_edit_policy :: edit_policy
  st_allow_bash_execute :: bool
  st_allowed_bash_commands :: "ustr list"
  st_disallowed_bash_commands :: "ustr list"
  st_allowed_bash_globs :: "ustr list"
  st_allowed_web_fetch_domains :: "ustr list"
  st_allowed_mcp_tools :: "ustr list"
  st_allowed_mcp_servers :: "ustr list"
  st_disallowed_mcp_tools :: "ustr list"
  st_disallowed_web_fetch_domains :: "ustr list"
  st_validated_mcp_server_grants_version :: int

definition permission_state_default :: permission_state where
  "permission_state_default =
     \<lparr>st_edit_policy = EditAsk, st_allow_bash_execute = False, st_allowed_bash_commands = [],
      st_disallowed_bash_commands = [], st_allowed_bash_globs = [], st_allowed_web_fetch_domains = [],
      st_allowed_mcp_tools = [], st_allowed_mcp_servers = [], st_disallowed_mcp_tools = [],
      st_disallowed_web_fetch_domains = [], st_validated_mcp_server_grants_version = 1\<rparr>"

text \<open>\<open>HashSet::insert\<close> and \<open>extend\<close>.\<close>

definition add :: "'a \<Rightarrow> 'a list \<Rightarrow> 'a list" where
  "add x xs = (if x \<in> set xs then xs else xs @ [x])"

definition add_all :: "'a list \<Rightarrow> 'a list \<Rightarrow> 'a list" where
  "add_all xs ys = foldl (\<lambda>xs y. add y xs) xs ys"

lemma set_add [simp]: "set (add x xs) = insert x (set xs)"
  by (auto simp: add_def)

lemma set_add_all [simp]: "set (add_all xs ys) = set xs \<union> set ys"
  by (induction ys arbitrary: xs) (auto simp: add_all_def)

definition merge_grants_from :: "permission_state \<Rightarrow> permission_state \<Rightarrow> permission_state" where
  "merge_grants_from self other =
     self\<lparr>st_allow_bash_execute := st_allow_bash_execute self \<or> st_allow_bash_execute other,
          st_allowed_bash_commands := add_all (st_allowed_bash_commands self) (st_allowed_bash_commands other),
          st_disallowed_bash_commands := add_all (st_disallowed_bash_commands self) (st_disallowed_bash_commands other),
          st_allowed_bash_globs := add_all (st_allowed_bash_globs self) (st_allowed_bash_globs other),
          st_allowed_web_fetch_domains := add_all (st_allowed_web_fetch_domains self) (st_allowed_web_fetch_domains other),
          st_allowed_mcp_tools := add_all (st_allowed_mcp_tools self) (st_allowed_mcp_tools other),
          st_allowed_mcp_servers := add_all (st_allowed_mcp_servers self) (st_allowed_mcp_servers other),
          st_disallowed_mcp_tools := add_all (st_disallowed_mcp_tools self) (st_disallowed_mcp_tools other),
          st_disallowed_web_fetch_domains :=
            add_all (st_disallowed_web_fetch_domains self) (st_disallowed_web_fetch_domains other)\<rparr>"

datatype prompt_outcome =
    AllowOnce
  | AllowAlways
  | AllowEditsForSession
  | AllowAlwaysBashCommand ustr
  | AllowAlwaysBashGlob ustr
  | AllowAlwaysDomain ustr
  | AllowAlwaysMcpTool ustr
  | AllowAlwaysMcpServer ustr
  | RejectOnce
  | RejectAlwaysBashCommand ustr
  | RejectAlwaysMcpTool ustr
  | RejectAlwaysDomain ustr
  | PromptCancelled
  | PromptFollowup ustr
  | PromptError ustr

definition SESSION_GRANT :: ustr where "SESSION_GRANT = lit ''session_grant''"
definition SESSION_DENY :: ustr where "SESSION_DENY = lit ''session_deny''"
definition STATIC_ALLOWLIST :: ustr where "STATIC_ALLOWLIST = lit ''static_allowlist''"
definition SAFE_COMMAND :: ustr where "SAFE_COMMAND = lit ''safe_command''"

definition rejected_before :: "ustr \<Rightarrow> ustr" where
  "rejected_before d = lit ''User previously rejected '' @ [96] @ d @ [96] @ lit '' in this project''"

section \<open>MCP tools and web fetches\<close>

definition mcp_server_prefix_allowed :: "ustr \<Rightarrow> ustr list \<Rightarrow> bool" where
  "mcp_server_prefix_allowed name servers \<longleftrightarrow>
     servers \<noteq> [] \<and>
     (case parse_mcp_qualified_name name of Some (server, _) \<Rightarrow> server \<in> set servers | None \<Rightarrow> False)"

definition mcp_pre_decision :: "ustr \<Rightarrow> permission_state \<Rightarrow> bool \<Rightarrow> bool \<Rightarrow> decision option" where
  "mcp_pre_decision name state policy_forced_prompt remember_tool_approvals =
     (if name \<in> set (st_disallowed_mcp_tools state) then Some (Reject (rejected_before name))
      else if policy_forced_prompt \<and> \<not> remember_tool_approvals then None
      else if name \<in> set (st_allowed_mcp_tools state) then Some Allow
      else if mcp_server_prefix_allowed name (st_allowed_mcp_servers state) then Some Allow
      else None)"

definition web_fetch_deny_pre_decision :: "'g policy_env \<Rightarrow> ustr \<Rightarrow> permission_state \<Rightarrow> decision option" where
  "web_fetch_deny_pre_decision env url state =
     (case pe_url_host env url of
        None \<Rightarrow> None
      | Some host \<Rightarrow>
          map_option (\<lambda>denied. Reject (rejected_before denied))
            (denied_web_fetch_domain env host (st_disallowed_web_fetch_domains state)))"

section \<open>Grant keys\<close>

definition words_join_unambiguously :: "'g policy_env \<Rightarrow> ustr list \<Rightarrow> bool" where
  "words_join_unambiguously env words =
     (let joined = join [32] words in
      case all_commands_from_script (pe_parse env) joined of
        Some [only] \<Rightarrow> spans_whole_script only joined \<and> pl_words only = words
      | _ \<Rightarrow> False)"

definition always_allow_scope_persists :: "'g policy_env \<Rightarrow> bash_command_highlights \<Rightarrow> nat \<Rightarrow> bool" where
  "always_allow_scope_persists env h n =
     (let words = hl_words h in
      if n = 0 \<or> n > length words \<or> n < minimum_always_allow_scope words then False
      else words_join_unambiguously env (take n words) \<or>
           (n = length words \<and> hl_prefix h = [] \<and> hl_suffix h = []))"

definition whole_script_grant :: "'g policy_env \<Rightarrow> ustr \<Rightarrow> plain_command list \<Rightarrow> permission_state \<Rightarrow> bool" where
  "whole_script_grant env cmd segments state =
     (if cmd \<in> set (st_allowed_bash_commands state) then True
      else (case segments of
              [only] \<Rightarrow>
                spans_whole_script only cmd \<and> words_join_unambiguously env (pl_words only) \<and>
                join [32] (pl_words only) \<in> set (st_allowed_bash_commands state)
            | _ \<Rightarrow> False))"

definition segment_grant_key :: "'g policy_env \<Rightarrow> plain_command \<Rightarrow> ustr option" where
  "segment_grant_key env parsed =
     (let words = unwrap_wrappers (pl_words parsed) in
      if words \<noteq> [] \<and> \<not> is_setup_command words \<and> \<not> is_dangerous_command_words words \<and>
         \<not> head_is_exec_vehicle words \<and> words_join_unambiguously env words
      then Some (join [32] words) else None)"

definition MAX_SEGMENT_GRANTS :: nat where "MAX_SEGMENT_GRANTS = 5"

definition bash_grant_segments :: "'g policy_env \<Rightarrow> ustr \<Rightarrow> ustr list" where
  "bash_grant_segments env cmd =
     (case all_commands_from_script (pe_parse env) cmd of
        None \<Rightarrow> []
      | Some segments \<Rightarrow>
          (let grants = List.map_filter (segment_grant_key env) segments in
           if length grants > MAX_SEGMENT_GRANTS then [] else grants))"

definition persist_bash_always_allow :: "'g policy_env \<Rightarrow> permission_state \<Rightarrow> ustr \<Rightarrow> ustr \<Rightarrow> permission_state" where
  "persist_bash_always_allow env state cmd prefix =
     (case primary_command_from_script (pe_parse env) cmd of
        None \<Rightarrow> state
      | Some h \<Rightarrow>
          (let words = hl_words h;
               labeled_words_verified =
                 list_ex (\<lambda>n. words_join_unambiguously env (take n words) \<and> join [32] (take n words) = prefix)
                   [minimum_always_allow_scope words..<Suc (length words)]
           in if labeled_words_verified
              then state\<lparr>st_allowed_bash_commands := add prefix (st_allowed_bash_commands state)\<rparr>
              else if hl_prefix h = [] \<and> hl_suffix h = [] \<and> join [32] words = prefix
              then state\<lparr>st_allowed_bash_commands := add cmd (st_allowed_bash_commands state)\<rparr>
              else state))"

definition bash_glob_covers_script :: "'g policy_env \<Rightarrow> ustr \<Rightarrow> ustr \<Rightarrow> bool" where
  "bash_glob_covers_script env cmd pattern =
     (if bash_glob_is_catchall env pattern then False
      else (case all_commands_from_script (pe_parse env) cmd of
              None \<Rightarrow> bash_pattern_matches_command env pattern cmd
            | Some segments \<Rightarrow>
                list_ex (\<lambda>seg.
                  let words = unwrap_wrappers (pl_words seg) in
                  words \<noteq> [] \<and> \<not> is_setup_command words \<and>
                  bash_pattern_matches_command env pattern (join [32] words)) segments))"

section \<open>Evaluation of a script\<close>

datatype segment_evaluation =
    AutoAllow bool
  | SegReject ustr
  | NeedsPrompts "ustr list"
  | Unparseable

record bash_evaluation =
  be_segments :: segment_evaluation
  be_exact_grant :: bool
  be_all_segments_granted :: bool
  be_assessment :: assessment
  be_redirect_write :: bool
  be_ambient_segments :: "ustr list list option"
  be_protected_paths :: "ustr list"
  be_has_cwd_change :: bool

definition unparseable_exec_risk :: "ustr \<Rightarrow> bool" where
  "unparseable_exec_risk cmd = script_may_invoke_git cmd"

definition denying_entry :: "permission_state \<Rightarrow> ustr \<Rightarrow> ustr option" where
  "denying_entry state s = find (matches_command_prefix s) (st_disallowed_bash_commands state)"

definition raw_deny_rejection :: "ustr \<Rightarrow> permission_state \<Rightarrow> segment_evaluation option" where
  "raw_deny_rejection cmd state = map_option (\<lambda>d. SegReject (rejected_before d)) (denying_entry state cmd)"

record segment_scan =
  sg_needs_prompt :: "ustr list"
  sg_via_session_grant :: bool
  sg_all_granted :: bool
  sg_exec_risk :: bool
  sg_has_git :: bool
  sg_ambient_raw :: "ustr list list"
  sg_assessment :: assessment

text \<open>What the scan of a segment notes before the segment is matched.\<close>

definition note_segment :: "ustr list \<Rightarrow> segment_scan \<Rightarrow> segment_scan" where
  "note_segment raw_words sg =
     (let words = unwrap_wrappers raw_words;
          facts = segment_exec_facts_of raw_words
      in sg\<lparr>sg_ambient_raw := sg_ambient_raw sg @ [raw_words],
            sg_assessment := sg_assessment sg \<union>
              (if words_are_opaque_shell (map SWLiteral words) then {OpaqueShell} else {}) \<union>
              (if sf_exec_risk facts then {ExecOrAmbientGit} else {}),
            sg_exec_risk := sg_exec_risk sg \<or> sf_exec_risk facts,
            sg_has_git := sg_has_git sg \<or> sf_has_git facts\<rparr>)"

definition segment_granted :: "'g policy_env \<Rightarrow> permission_state \<Rightarrow> ustr list \<Rightarrow> bool" where
  "segment_granted env state words =
     (let s = join [32] words in
      (if always_allow_scope_pinned words then s \<in> set (st_allowed_bash_commands state)
       else list_ex (matches_command_prefix s) (st_allowed_bash_commands state)) \<or>
      list_ex (\<lambda>g. bash_pattern_matches_command env g s) (st_allowed_bash_globs state))"

definition special_surface :: "permission_state \<Rightarrow> ustr list \<Rightarrow> bool" where
  "special_surface state words \<longleftrightarrow>
     (kubectl_has_unsafe_flag words \<or> rg_has_unsafe_flag words \<or> ps_dumps_environment words \<or>
      git_words_have_unsafe_query_option words) \<and>
     join [32] words \<notin> set (st_allowed_bash_commands state)"

definition segment_safe :: "ustr list \<Rightarrow> bool" where
  "segment_safe words \<longleftrightarrow>
     is_safe_command_words words \<or> is_always_safe_command_words words \<or> is_safe_creation_command words"

text \<open>The rest of a segment that is neither set-up nor denied.\<close>

definition match_segment ::
  "'g policy_env \<Rightarrow> permission_state \<Rightarrow> bool \<Rightarrow> ustr list \<Rightarrow> segment_scan \<Rightarrow> segment_scan"
where
  "match_segment env state honor_safe_lists words sg =
     (let s = join [32] words;
          granted = segment_granted env state words;
          sg = sg\<lparr>sg_all_granted := sg_all_granted sg \<and> granted\<rparr>
      in if is_dangerous_command_words words
         then sg\<lparr>sg_assessment := insert DangerousCommand (sg_assessment sg), sg_needs_prompt := sg_needs_prompt sg @ [s]\<rparr>
         else if special_surface state words
         then sg\<lparr>sg_assessment := insert SpecialExecSurface (sg_assessment sg), sg_needs_prompt := sg_needs_prompt sg @ [s]\<rparr>
         else if granted \<or> (honor_safe_lists \<and> segment_safe words)
         then (if granted then sg\<lparr>sg_via_session_grant := True\<rparr> else sg)
         else sg\<lparr>sg_needs_prompt := sg_needs_prompt sg @ [s]\<rparr>)"

text \<open>The loop over the segments: the entry that denies, or the scan.\<close>

fun segment_loop ::
  "'g policy_env \<Rightarrow> permission_state \<Rightarrow> bool \<Rightarrow> plain_command list \<Rightarrow> segment_scan \<Rightarrow>
   (ustr \<times> segment_scan) + segment_scan"
where
  "segment_loop env state honor [] sg = Inr sg"
| "segment_loop env state honor (parsed # rest) sg =
     (let words = unwrap_wrappers (pl_words parsed);
          sg = note_segment (pl_words parsed) sg
      in if is_setup_command words then segment_loop env state honor rest sg
         else (case denying_entry state (join [32] words) of
                 Some d \<Rightarrow> Inl (d, sg)
               | None \<Rightarrow> segment_loop env state honor rest (match_segment env state honor words sg)))"

definition evaluate_bash :: "'g policy_env \<Rightarrow> ustr \<Rightarrow> permission_state \<Rightarrow> bool \<Rightarrow> bash_evaluation" where
  "evaluate_bash env cmd state honor_safe_lists =
     (let raw_exact = (cmd \<in> set (st_allowed_bash_commands state));
          git_risk = (if unparseable_exec_risk cmd then {ExecOrAmbientGit} else {});
          unparsed = (case raw_deny_rejection cmd state of Some r \<Rightarrow> r | None \<Rightarrow> Unparseable)
      in case pe_parse env cmd of
           None \<Rightarrow>
             \<lparr>be_segments = unparsed, be_exact_grant = raw_exact, be_all_segments_granted = False,
              be_assessment = {UnparseableShell} \<union> git_risk, be_redirect_write = True, be_ambient_segments = None,
              be_protected_paths = [], be_has_cwd_change = False\<rparr>
         | Some root \<Rightarrow>
             (let writes = command_write_paths_split root cmd;
                  has_cwd_change = script_has_cwd_change root cmd;
                  redirect_write =
                    (wp_unextracted_write_redirect writes \<or>
                     list_ex (\<lambda>p. \<not> is_safe_write_sink p) (wp_redirect_paths writes));
                  writes_file = (redirect_write \<or> list_ex (\<lambda>p. \<not> is_safe_write_sink p) (wp_word_paths writes));
                  protected_paths = wp_creation_paths writes @ wp_word_paths writes @ wp_redirect_paths writes;
                  segments = try_parse_word_only_commands_sequence root cmd;
                  env_finding =
                    env_risk_finding (script_env_risk root cmd (case segments of Some s \<Rightarrow> s | None \<Rightarrow> []));
                  assessment = (if writes_file then {FileWrite} else {}) \<union> set_option env_finding
              in case segments of
                   None \<Rightarrow>
                     \<lparr>be_segments = unparsed, be_exact_grant = raw_exact, be_all_segments_granted = False,
                      be_assessment = assessment \<union> {UnparseableShell} \<union>
                        (if tree_has_opaque_shell root cmd then {OpaqueShell} else {}) \<union> git_risk,
                      be_redirect_write = True, be_ambient_segments = None, be_protected_paths = protected_paths,
                      be_has_cwd_change = has_cwd_change\<rparr>
                 | Some segments \<Rightarrow>
                     (let exact_grant = whole_script_grant env cmd segments state;
                          init = \<lparr>sg_needs_prompt = [], sg_via_session_grant = False, sg_all_granted = True,
                                  sg_exec_risk = False, sg_has_git = False, sg_ambient_raw = [],
                                  sg_assessment = assessment\<rparr>
                      in case segment_loop env state honor_safe_lists segments init of
                           Inl (d, sg) \<Rightarrow>
                             \<lparr>be_segments = SegReject (rejected_before d), be_exact_grant = exact_grant,
                              be_all_segments_granted = sg_all_granted sg, be_assessment = sg_assessment sg,
                              be_redirect_write = redirect_write, be_ambient_segments = None,
                              be_protected_paths = [], be_has_cwd_change = False\<rparr>
                         | Inr sg \<Rightarrow>
                             \<lparr>be_segments =
                                (if sg_needs_prompt sg = [] then AutoAllow (sg_via_session_grant sg)
                                 else NeedsPrompts (sg_needs_prompt sg)),
                              be_exact_grant = exact_grant, be_all_segments_granted = sg_all_granted sg,
                              be_assessment = sg_assessment sg, be_redirect_write = redirect_write,
                              be_ambient_segments =
                                (if sg_has_git sg \<and> \<not> sg_exec_risk sg then Some (sg_ambient_raw sg) else None),
                              be_protected_paths = protected_paths, be_has_cwd_change = has_cwd_change\<rparr>)))"

definition evaluate_bash_with_ambient ::
  "'g policy_env \<Rightarrow> git_host \<Rightarrow> ustr \<Rightarrow> permission_state \<Rightarrow> ustr \<Rightarrow> bash_evaluation"
where
  "evaluate_bash_with_ambient env h cmd state cwd =
     (let e = evaluate_bash env cmd state True in
      case be_ambient_segments e of
        None \<Rightarrow> e
      | Some raw \<Rightarrow>
          (let e = e\<lparr>be_ambient_segments := None\<rparr> in
           if ambient_exec_risk_from_plan h (ambient_scan_plan_from_segments raw cwd)
           then e\<lparr>be_assessment := insert ExecOrAmbientGit (be_assessment e)\<rparr> else e))"

section \<open>Decisions\<close>

definition persisted_bash_auto_allows :: "permission_state \<Rightarrow> ustr \<Rightarrow> ustr option \<Rightarrow> bool" where
  "persisted_bash_auto_allows state cmd yolo_pin \<longleftrightarrow>
     (st_allow_bash_execute state \<and> yolo_pin = None) \<or> cmd \<in> set (st_allowed_bash_commands state)"

definition bash_request_floor_requires_prompt :: "bash_evaluation option \<Rightarrow> bool" where
  "bash_request_floor_requires_prompt evaluation =
     (case evaluation of
        Some e \<Rightarrow> \<not> be_exact_grant e \<and> constrains_broad_grant (be_assessment e)
      | None \<Rightarrow> False)"

record bash_grant_opts =
  go_honor_safe_lists :: bool
  go_allow_blanket :: bool
  go_conservative_blanket :: bool

definition PRE_CLASSIFIER :: bash_grant_opts where
  "PRE_CLASSIFIER = \<lparr>go_honor_safe_lists = True, go_allow_blanket = True, go_conservative_blanket = True\<rparr>"

definition ASK_FLOOR_REMEMBER :: bash_grant_opts where
  "ASK_FLOOR_REMEMBER = \<lparr>go_honor_safe_lists = False, go_allow_blanket = False, go_conservative_blanket = False\<rparr>"

definition post_classify :: "bool \<Rightarrow> bash_grant_opts" where
  "post_classify auto_forced_prompt =
     \<lparr>go_honor_safe_lists = True, go_allow_blanket = \<not> auto_forced_prompt, go_conservative_blanket = False\<rparr>"

definition bash_grant_pre_decision ::
  "ustr \<Rightarrow> bash_evaluation \<Rightarrow> permission_state \<Rightarrow> ustr option \<Rightarrow> bash_grant_opts \<Rightarrow> (decision \<times> ustr) option"
where
  "bash_grant_pre_decision cmd evaluation state yolo_pin opts =
     (case be_segments evaluation of
        SegReject reason \<Rightarrow> Some (Reject reason, SESSION_DENY)
      | AutoAllow via_session_grant \<Rightarrow>
          if bash_request_floor_requires_prompt (Some evaluation) then None
          else if \<not> go_honor_safe_lists opts \<and> \<not> be_all_segments_granted evaluation then None
          else Some (Allow, if via_session_grant then SESSION_GRANT else SAFE_COMMAND)
      | NeedsPrompts _ \<Rightarrow>
          if bash_request_floor_requires_prompt (Some evaluation) then None
          else if \<not> go_allow_blanket opts then None
          else if go_conservative_blanket opts \<and> DangerousCommand \<in> be_assessment evaluation
          then (if be_exact_grant evaluation then Some (Allow, SESSION_GRANT) else None)
          else (if persisted_bash_auto_allows state cmd yolo_pin then Some (Allow, SESSION_GRANT) else None)
      | Unparseable \<Rightarrow>
          if bash_request_floor_requires_prompt (Some evaluation) then None
          else if \<not> go_allow_blanket opts then None
          else if (if go_conservative_blanket opts then be_exact_grant evaluation
                   else persisted_bash_auto_allows state cmd yolo_pin)
          then Some (Allow, SESSION_GRANT) else None)"

definition session_grant_pre_decision ::
  "'g policy_env \<Rightarrow> (ustr \<Rightarrow> ustr) \<Rightarrow> 'j access_kind \<Rightarrow> bash_evaluation option \<Rightarrow> permission_state \<Rightarrow> bool \<Rightarrow>
   domain_matcher option \<Rightarrow> ustr option \<Rightarrow> (decision \<times> ustr) option"
where
  "session_grant_pre_decision env url_path access evaluation state allow_edits_for_session static_domain_matcher yolo_pin =
     (case access of
        AccMcp name _ \<Rightarrow>
          map_option (\<lambda>d. (d, case d of Reject _ \<Rightarrow> SESSION_DENY | _ \<Rightarrow> SESSION_GRANT))
            (mcp_pre_decision name state False False)
      | AccWebFetch url \<Rightarrow>
          (case pe_url_host env url of
             None \<Rightarrow> None
           | Some host \<Rightarrow>
               (case web_fetch_deny_pre_decision env url state of
                  Some reject \<Rightarrow> Some (reject, SESSION_DENY)
                | None \<Rightarrow>
                    if (case static_domain_matcher of
                          Some m \<Rightarrow> matcher_check env m (Some host) (url_path url) = None
                        | None \<Rightarrow> False)
                    then Some (Allow, STATIC_ALLOWLIST)
                    else if normalize_domain env host \<in> set (st_allowed_web_fetch_domains state)
                    then Some (Allow, SESSION_GRANT)
                    else None))
      | AccEdit _ \<Rightarrow> if allow_edits_for_session then Some (Allow, SESSION_GRANT) else None
      | AccBash cmd \<Rightarrow>
          (case evaluation of
             Some e \<Rightarrow> bash_grant_pre_decision cmd e state yolo_pin PRE_CLASSIFIER
           | None \<Rightarrow> None)
      | _ \<Rightarrow> None)"

definition always_allow_row_is_effective :: "'g policy_env \<Rightarrow> ustr \<Rightarrow> bool" where
  "always_allow_row_is_effective env cmd =
     (case primary_command_from_script (pe_parse env) cmd of
        None \<Rightarrow> False
      | Some h \<Rightarrow>
          (let scope = default_always_allow_scope (hl_words h) in
           if \<not> always_allow_scope_persists env h scope then False
           else
             (let scratch = persist_bash_always_allow env permission_state_default cmd (join [32] (take scope (hl_words h)));
                  evaluation = evaluate_bash env cmd scratch True
              in case bash_grant_pre_decision cmd evaluation scratch None PRE_CLASSIFIER of
                   Some (Allow, _) \<Rightarrow> True
                 | _ \<Rightarrow> False)))"

section \<open>Protected targets\<close>

record request_path_context =
  rp_real_cwd :: ustr
  rp_display_cwd :: "ustr option"

function strip_escapes :: "ustr \<Rightarrow> ustr" where
  "strip_escapes s =
     (case strip_suffix [BSL, 110] s of
        Some r \<Rightarrow> strip_escapes (trim_end r)
      | None \<Rightarrow>
          (case strip_suffix [BSL, 114] s of
             Some r \<Rightarrow> strip_escapes (trim_end r)
           | None \<Rightarrow>
               (case strip_suffix [BSL, 116] s of
                  Some r \<Rightarrow> strip_escapes (trim_end r)
                | None \<Rightarrow> s)))"
  by pat_completeness auto
termination
proof (relation "measure length")
  have "length (trim_end r) < length s" if "strip_suffix [BSL, c] s = Some r" for c r s
  proof -
    have "rev s = rev [BSL, c] @ rev r"
      using that by (auto simp: strip_suffix_def strip_prefix_Some_iff)
    then have "length s = length r + 2" by (metis length_append length_rev length_Cons list.size(3) add.commute numeral_2_eq_2)
    moreover have "length (trim_end r) \<le> length r"
      unfolding trim_end_def by (metis length_dropWhile_le length_rev)
    ultimately show ?thesis by simp
  qed
  then show "strip_suffix [BSL, 110] s = Some r \<Longrightarrow> (trim_end r, s) \<in> measure length"
    "strip_suffix [BSL, 114] s = Some r \<Longrightarrow> (trim_end r, s) \<in> measure length"
    "strip_suffix [BSL, 116] s = Some r \<Longrightarrow> (trim_end r, s) \<in> measure length" for s r
    by simp_all
qed simp

definition is_quote :: "uchar \<Rightarrow> bool" where
  "is_quote c \<longleftrightarrow> c = DQUOTE \<or> c = SQUOTE"

definition sanitize_model_path_arg :: "ustr \<Rightarrow> ustr" where
  "sanitize_model_path_arg input =
     (let trimmed = trim input;
          quote_wrapped = (byte_len trimmed \<ge> 2 \<and> is_quote (hd trimmed) \<and> is_quote (last trimmed));
          unquoted = trim (trim_matches is_quote trimmed)
      in if \<not> quote_wrapped then unquoted else strip_escapes unquoted)"

definition resolve_model_path :: "(ustr \<Rightarrow> ustr) \<Rightarrow> ustr \<Rightarrow> ustr option \<Rightarrow> ustr \<Rightarrow> ustr" where
  "resolve_model_path tilde cwd display_cwd input =
     (let expanded = tilde (sanitize_model_path_arg input);
          relative =
            (if \<not> is_absolute expanded \<and> expanded \<noteq> []
             then (let as_absolute = SLASH # expanded;
                       effective_base = (case display_cwd of Some d \<Rightarrow> d | None \<Rightarrow> cwd)
                   in case path_strip_prefix as_absolute effective_base of
                        Some suffix \<Rightarrow> path_join cwd suffix
                      | None \<Rightarrow> path_join cwd expanded)
             else path_join cwd expanded)
      in case display_cwd of
           Some display \<Rightarrow>
             if is_absolute expanded
             then (case path_strip_prefix expanded display of
                     Some suffix \<Rightarrow> path_join cwd suffix
                   | None \<Rightarrow> expanded)
             else relative
         | None \<Rightarrow> relative)"

definition resolve_in_context ::
  "(ustr \<Rightarrow> ustr) \<Rightarrow> ustr \<Rightarrow> request_path_context option \<Rightarrow> ustr \<Rightarrow> ustr"
where
  "resolve_in_context tilde cwd ctx path =
     (case ctx of
        Some c \<Rightarrow> resolve_model_path tilde (rp_real_cwd c) (rp_display_cwd c) path
      | None \<Rightarrow> resolve_model_path tilde cwd None path)"

definition protected_target ::
  "'g policy_env \<Rightarrow> ustr option \<Rightarrow> (ustr \<Rightarrow> ustr) \<Rightarrow> 'j access_kind \<Rightarrow> bash_evaluation option \<Rightarrow> ustr \<Rightarrow>
   request_path_context option \<Rightarrow> protected_edit_reason option"
where
  "protected_target env home tilde access evaluation cwd ctx =
     (case access of
        AccEdit path \<Rightarrow> edit_target_protection env home (resolve_in_context tilde cwd ctx path)
      | AccBash _ \<Rightarrow>
          (case evaluation of
             None \<Rightarrow> None
           | Some e \<Rightarrow>
               if be_has_cwd_change e \<and> list_ex (\<lambda>p. \<not> is_absolute p) (be_protected_paths e) then Some Sensitive
               else (case List.map_filter (\<lambda>p. edit_target_protection env home (resolve_in_context tilde cwd ctx p))
                            (be_protected_paths e) of
                       r # _ \<Rightarrow> Some r
                     | [] \<Rightarrow> None))
      | _ \<Rightarrow> None)"

section \<open>Recording an answer\<close>

definition record_prompt_outcome ::
  "'g policy_env \<Rightarrow> permission_state \<Rightarrow> 'j access_kind \<Rightarrow> prompt_outcome \<Rightarrow> permission_state \<times> ustr option"
where
  "record_prompt_outcome env state access outcome =
     (case access of
        AccBash cmd \<Rightarrow>
          (case outcome of
             AllowAlways \<Rightarrow>
               (state\<lparr>st_allowed_bash_commands :=
                  add_all (add cmd (st_allowed_bash_commands state)) (bash_grant_segments env cmd)\<rparr>, Some cmd)
           | AllowAlwaysBashCommand prefix \<Rightarrow> (persist_bash_always_allow env state cmd prefix, Some prefix)
           | AllowAlwaysBashGlob pattern \<Rightarrow>
               if \<not> bash_glob_covers_script env cmd pattern then (state, None)
               else (state\<lparr>st_allowed_bash_globs := add pattern (st_allowed_bash_globs state)\<rparr>, Some pattern)
           | RejectAlwaysBashCommand prefix \<Rightarrow>
               (state\<lparr>st_disallowed_bash_commands := add prefix (st_disallowed_bash_commands state)\<rparr>, Some prefix)
           | _ \<Rightarrow> (state, None))
      | AccMcp name _ \<Rightarrow>
          (let allow_tool = (state\<lparr>st_allowed_mcp_tools := add name (st_allowed_mcp_tools state)\<rparr>, Some name) in
           case outcome of
             AllowAlways \<Rightarrow> allow_tool
           | AllowAlwaysMcpTool _ \<Rightarrow> allow_tool
           | AllowAlwaysMcpServer server_prefix \<Rightarrow>
               (case parse_mcp_qualified_name name of
                  Some (server, _) \<Rightarrow>
                    if server = server_prefix
                    then (state\<lparr>st_allowed_mcp_servers := add server (st_allowed_mcp_servers state)\<rparr>, Some server)
                    else allow_tool
                | None \<Rightarrow> allow_tool)
           | RejectAlwaysMcpTool _ \<Rightarrow>
               (state\<lparr>st_disallowed_mcp_tools := add name (st_disallowed_mcp_tools state)\<rparr>, Some name)
           | _ \<Rightarrow> (state, None))
      | AccWebFetch url \<Rightarrow>
          (case outcome of
             AllowAlwaysDomain _ \<Rightarrow>
               (case pe_url_host env url of
                  Some host \<Rightarrow>
                    (let domain = normalize_domain env host in
                     (state\<lparr>st_allowed_web_fetch_domains := add domain (st_allowed_web_fetch_domains state)\<rparr>, Some domain))
                | None \<Rightarrow> (state, None))
           | RejectAlwaysDomain _ \<Rightarrow>
               (case web_fetch_deny_key_from_url env url of
                  Some domain \<Rightarrow>
                    (state\<lparr>st_disallowed_web_fetch_domains := add domain (st_disallowed_web_fetch_domains state)\<rparr>, Some domain)
                | None \<Rightarrow> (state, None))
           | _ \<Rightarrow> (state, None))
      | _ \<Rightarrow> (state, None))"

end
