(* ===== verification/Grant_Laws.thy ===== *)
theory Grant_Laws
  imports Grants
begin

text \<open>
  What remembered answers mean: a standing rejection, what a script that runs without a prompt has to its name,
  what an answer adds to the state, and the scopes an answer can have.
\<close>

section \<open>The evaluation of a script\<close>

definition granted_words :: "plain_command \<Rightarrow> ustr list" where
  "granted_words parsed = unwrap_wrappers (pl_words parsed)"

definition judged :: "plain_command list \<Rightarrow> ustr list set" where
  "judged segments = {words \<in> granted_words ` set segments. \<not> is_setup_command words}"

lemma judged_simps [simp]:
  "judged [] = {}"
  "judged (p # ps) = (if is_setup_command (granted_words p) then judged ps else insert (granted_words p) (judged ps))"
  by (auto simp: judged_def)

definition denied_text :: "permission_state \<Rightarrow> ustr \<Rightarrow> bool" where
  "denied_text state s \<longleftrightarrow> (\<exists>d \<in> set (st_disallowed_bash_commands state). matches_command_prefix s d)"

lemma denying_entry_None [simp]: "denying_entry state s = None \<longleftrightarrow> \<not> denied_text state s"
  by (auto simp: denying_entry_def denied_text_def find_None_iff)

lemma denying_entry_SomeD:
  "denying_entry state s = Some d \<Longrightarrow> d \<in> set (st_disallowed_bash_commands state) \<and> matches_command_prefix s d"
  by (auto simp: denying_entry_def find_Some_iff)

lemma segment_loop_Inl:
  "segment_loop env state honor segments sg = Inl (d, sg') \<Longrightarrow>
   d \<in> set (st_disallowed_bash_commands state) \<and> (\<exists>w \<in> judged segments. matches_command_prefix (join [32] w) d)"
  by (induction env state honor segments sg rule: segment_loop.induct)
    (auto simp: Let_def granted_words_def[symmetric] split: if_splits option.splits dest!: denying_entry_SomeD)

lemma note_segment_sel [simp]:
  "sg_needs_prompt (note_segment raw sg) = sg_needs_prompt sg"
  "sg_all_granted (note_segment raw sg) = sg_all_granted sg"
  "sg_assessment sg \<subseteq> sg_assessment (note_segment raw sg)"
  by (auto simp: note_segment_def Let_def)

text \<open>What a segment that asks for no prompt has been found to be.\<close>

definition passes :: "'g policy_env \<Rightarrow> permission_state \<Rightarrow> bool \<Rightarrow> ustr list \<Rightarrow> bool" where
  "passes env state honor words \<longleftrightarrow>
     \<not> is_dangerous_command_words words \<and> \<not> special_surface state words \<and>
     (segment_granted env state words \<or> (honor \<and> segment_safe words))"

lemma match_segment_sel:
  "sg_needs_prompt (match_segment env state honor words sg) = [] \<longleftrightarrow> sg_needs_prompt sg = [] \<and> passes env state honor words"
  "sg_all_granted (match_segment env state honor words sg) \<longleftrightarrow> sg_all_granted sg \<and> segment_granted env state words"
  "sg_assessment sg \<subseteq> sg_assessment (match_segment env state honor words sg)"
  "is_dangerous_command_words words \<Longrightarrow> DangerousCommand \<in> sg_assessment (match_segment env state honor words sg)"
  by (auto simp: match_segment_def passes_def Let_def)

lemma segment_loop_InrE:
  assumes "segment_loop env state honor (parsed # rest) sg = Inr sg'"
  obtains "is_setup_command (granted_words parsed)"
      "segment_loop env state honor rest (note_segment (pl_words parsed) sg) = Inr sg'"
  | "\<not> is_setup_command (granted_words parsed)" "\<not> denied_text state (join [32] (granted_words parsed))"
      "segment_loop env state honor rest
         (match_segment env state honor (granted_words parsed) (note_segment (pl_words parsed) sg)) = Inr sg'"
  using assms by (auto simp: Let_def granted_words_def split: if_splits option.splits)

lemma segment_loop_mono:
  "segment_loop env state honor segments sg = Inr sg' \<Longrightarrow> sg_assessment sg \<subseteq> sg_assessment sg'"
proof (induction segments arbitrary: sg)
  case (Cons parsed rest)
  from Cons.prems show ?case
    by (cases rule: segment_loop_InrE) (meson Cons.IH note_segment_sel(3) match_segment_sel(3) subset_trans)+
qed simp

lemma segment_loop_Inr:
  assumes "segment_loop env state honor segments sg = Inr sg'"
  shows "\<forall>w \<in> judged segments. \<not> denied_text state (join [32] w)"
    and "sg_needs_prompt sg' = [] \<longleftrightarrow> sg_needs_prompt sg = [] \<and> (\<forall>w \<in> judged segments. passes env state honor w)"
    and "sg_all_granted sg' \<longleftrightarrow> sg_all_granted sg \<and> (\<forall>w \<in> judged segments. segment_granted env state w)"
    and "\<forall>w \<in> judged segments. is_dangerous_command_words w \<longrightarrow> DangerousCommand \<in> sg_assessment sg'"
proof -
  have "(\<forall>w \<in> judged segments. \<not> denied_text state (join [32] w)) \<and>
     (sg_needs_prompt sg' = [] \<longleftrightarrow> sg_needs_prompt sg = [] \<and> (\<forall>w \<in> judged segments. passes env state honor w)) \<and>
     (sg_all_granted sg' \<longleftrightarrow> sg_all_granted sg \<and> (\<forall>w \<in> judged segments. segment_granted env state w)) \<and>
     (\<forall>w \<in> judged segments. is_dangerous_command_words w \<longrightarrow> DangerousCommand \<in> sg_assessment sg')"
    using assms
  proof (induction segments arbitrary: sg)
    case (Cons parsed rest)
    from Cons.prems show ?case
    proof (cases rule: segment_loop_InrE)
      case 1
      then show ?thesis using Cons.IH[OF 1(2)] by simp
    next
      case 2
      then show ?thesis
        using Cons.IH[OF 2(3)] segment_loop_mono[OF 2(3)] match_segment_sel(4)[of "granted_words parsed"]
        by (simp add: match_segment_sel(1,2)) blast
    qed
  qed simp
  then show "\<forall>w \<in> judged segments. \<not> denied_text state (join [32] w)"
    and "sg_needs_prompt sg' = [] \<longleftrightarrow> sg_needs_prompt sg = [] \<and> (\<forall>w \<in> judged segments. passes env state honor w)"
    and "sg_all_granted sg' \<longleftrightarrow> sg_all_granted sg \<and> (\<forall>w \<in> judged segments. segment_granted env state w)"
    and "\<forall>w \<in> judged segments. is_dangerous_command_words w \<longrightarrow> DangerousCommand \<in> sg_assessment sg'"
    by blast+
qed

lemma evaluate_unparsed:
  assumes "all_commands_from_script (pe_parse env) cmd = None"
  shows "be_segments (evaluate_bash env cmd state honor) =
      (case denying_entry state cmd of Some d \<Rightarrow> SegReject (rejected_before d) | None \<Rightarrow> Unparseable)"
    and "be_exact_grant (evaluate_bash env cmd state honor) \<longleftrightarrow> cmd \<in> set (st_allowed_bash_commands state)"
  using assms
  by (auto simp: evaluate_bash_def all_commands_from_script_def raw_deny_rejection_def Let_def
      simp del: denying_entry_None split: option.splits bind_splits)

lemma evaluate_parsed:
  assumes "all_commands_from_script (pe_parse env) cmd = Some segments"
  obtains (denied) d where "d \<in> set (st_disallowed_bash_commands state)" "\<exists>w \<in> judged segments. matches_command_prefix (join [32] w) d"
      "be_segments (evaluate_bash env cmd state honor) = SegReject (rejected_before d)"
  | (scanned) sg :: segment_scan where "\<forall>w \<in> judged segments. \<not> denied_text state (join [32] w)"
      "be_segments (evaluate_bash env cmd state honor) =
         (if \<forall>w \<in> judged segments. passes env state honor w then AutoAllow (sg_via_session_grant sg)
          else NeedsPrompts (sg_needs_prompt sg))"
      "be_all_segments_granted (evaluate_bash env cmd state honor) \<longleftrightarrow> (\<forall>w \<in> judged segments. segment_granted env state w)"
      "be_exact_grant (evaluate_bash env cmd state honor) \<longleftrightarrow> whole_script_grant env cmd segments state"
      "\<forall>w \<in> judged segments. is_dangerous_command_words w \<longrightarrow>
         DangerousCommand \<in> be_assessment (evaluate_bash env cmd state honor)"
proof -
  obtain root where root: "pe_parse env cmd = Some root" "try_parse_word_only_commands_sequence root cmd = Some segments"
    using assms by (auto simp: all_commands_from_script_def split: bind_splits)
  let ?e = "evaluate_bash env cmd state honor"
  define init where "init = \<lparr>sg_needs_prompt = [], sg_via_session_grant = False, sg_all_granted = True,
      sg_exec_risk = False, sg_has_git = False, sg_ambient_raw = [],
      sg_assessment = (let writes = command_write_paths_split root cmd in
        (if wp_unextracted_write_redirect writes \<or> list_ex (\<lambda>p. \<not> is_safe_write_sink p) (wp_redirect_paths writes) \<or>
            list_ex (\<lambda>p. \<not> is_safe_write_sink p) (wp_word_paths writes) then {FileWrite} else {}) \<union>
        set_option (env_risk_finding (script_env_risk root cmd segments)))\<rparr>"
  have init:
    "be_segments ?e = (case segment_loop env state honor segments init of
        Inl (d, sg) \<Rightarrow> SegReject (rejected_before d)
      | Inr sg \<Rightarrow> if sg_needs_prompt sg = [] then AutoAllow (sg_via_session_grant sg) else NeedsPrompts (sg_needs_prompt sg))"
    "be_exact_grant ?e \<longleftrightarrow> whole_script_grant env cmd segments state"
    "be_all_segments_granted ?e = sg_all_granted (case segment_loop env state honor segments init of Inl (d, sg) \<Rightarrow> sg | Inr sg \<Rightarrow> sg)"
    "be_assessment ?e = sg_assessment (case segment_loop env state honor segments init of Inl (d, sg) \<Rightarrow> sg | Inr sg \<Rightarrow> sg)"
    by (simp_all add: evaluate_bash_def root Let_def init_def split: sum.splits prod.splits)
  have start: "sg_needs_prompt init = []" "sg_all_granted init" by (simp_all add: init_def)
  show thesis
  proof (cases "segment_loop env state honor segments init")
    case (Inl a)
    then show ?thesis using segment_loop_Inl[of env state honor segments init] denied init by (cases a) auto
  next
    case (Inr sg)
    show ?thesis
      using segment_loop_Inr[OF Inr] init start by (intro scanned[of sg]) (simp_all add: Inr)
  qed
qed

lemma with_ambient_sel [simp]:
  "be_segments (evaluate_bash_with_ambient env h cmd state cwd) = be_segments (evaluate_bash env cmd state True)"
  "be_exact_grant (evaluate_bash_with_ambient env h cmd state cwd) = be_exact_grant (evaluate_bash env cmd state True)"
  "be_all_segments_granted (evaluate_bash_with_ambient env h cmd state cwd) =
     be_all_segments_granted (evaluate_bash env cmd state True)"
  by (simp_all add: evaluate_bash_with_ambient_def Let_def split: option.splits)

lemma with_ambient_assessment:
  "be_assessment (evaluate_bash env cmd state True) \<subseteq> be_assessment (evaluate_bash_with_ambient env h cmd state cwd)"
  by (auto simp: evaluate_bash_with_ambient_def Let_def split: option.splits)

lemma whole_script_grant_raw: "cmd \<in> set (st_allowed_bash_commands state) \<Longrightarrow> whole_script_grant env cmd segments state"
  by (simp add: whole_script_grant_def)

lemma constrains_broad_grant_iff: "constrains_broad_grant a \<longleftrightarrow> (\<exists>f \<in> a. is_grant_floor f)"
proof -
  have "set ALL_FINDINGS = UNIV" by (auto simp: ALL_FINDINGS_def intro: finding.exhaust)
  then show ?thesis by (auto simp: constrains_broad_grant_def assessment_list_def list_ex_iff)
qed

section \<open>Standing answers\<close>

text \<open>The answers given after one another; none takes back an earlier one.\<close>

definition answer_all ::
  "'g policy_env \<Rightarrow> permission_state \<Rightarrow> ('j access_kind \<times> prompt_outcome) list \<Rightarrow> permission_state"
where
  "answer_all env = foldl (\<lambda>state (access, outcome). fst (record_prompt_outcome env state access outcome))"

definition keeps_answers :: "permission_state \<Rightarrow> permission_state \<Rightarrow> bool" where
  "keeps_answers s s' \<longleftrightarrow>
     set (st_disallowed_bash_commands s) \<subseteq> set (st_disallowed_bash_commands s') \<and>
     set (st_disallowed_mcp_tools s) \<subseteq> set (st_disallowed_mcp_tools s') \<and>
     set (st_disallowed_web_fetch_domains s) \<subseteq> set (st_disallowed_web_fetch_domains s') \<and>
     set (st_allowed_bash_commands s) \<subseteq> set (st_allowed_bash_commands s') \<and>
     set (st_allowed_mcp_tools s) \<subseteq> set (st_allowed_mcp_tools s') \<and>
     set (st_allowed_web_fetch_domains s) \<subseteq> set (st_allowed_web_fetch_domains s')"

lemma persist_keeps: "keeps_answers s (persist_bash_always_allow env s cmd prefix)"
  by (auto simp: persist_bash_always_allow_def keeps_answers_def Let_def split: option.splits)

lemma record_keeps: "keeps_answers s (fst (record_prompt_outcome env s access outcome))"
  using persist_keeps[of s env]
  by (cases access; cases outcome)
    (auto simp: record_prompt_outcome_def keeps_answers_def Let_def split: option.splits)

lemma answer_all_keeps: "keeps_answers s (answer_all env s answers)"
proof (induction answers arbitrary: s)
  case (Cons a answers)
  have "keeps_answers s (fst (record_prompt_outcome env s (fst a) (snd a)))" by (rule record_keeps)
  with Cons[of "fst (record_prompt_outcome env s (fst a) (snd a))"] show ?case
    by (cases a) (auto simp: answer_all_def keeps_answers_def)
qed (simp add: answer_all_def keeps_answers_def)

text \<open>
  The contract of a remembered rejection, for every kind of request: once it applies it applies under every later
  state, and where it applies the request is rejected before any grant is looked at.
\<close>

locale standing_rejection =
  fixes denied :: "permission_state \<Rightarrow> 'r \<Rightarrow> bool"
    and decide :: "permission_state \<Rightarrow> 'r \<Rightarrow> decision option"
  assumes denied_keeps: "keeps_answers s s' \<Longrightarrow> denied s r \<Longrightarrow> denied s' r"
    and denied_rejects: "denied s r \<Longrightarrow> \<exists>why. decide s r = Some (Reject why)"
begin

lemma rejection_kept: "denied s r \<Longrightarrow> \<exists>why. decide (answer_all env s answers) r = Some (Reject why)"
  by (rule denied_rejects, rule denied_keeps, rule answer_all_keeps)

end

definition mcp_denied :: "permission_state \<Rightarrow> ustr \<Rightarrow> bool" where
  "mcp_denied s name \<longleftrightarrow> name \<in> set (st_disallowed_mcp_tools s)"

definition web_denied :: "'g policy_env \<Rightarrow> permission_state \<Rightarrow> ustr \<Rightarrow> bool" where
  "web_denied env s url \<longleftrightarrow>
     (\<exists>host. pe_url_host env url = Some host \<and>
        (\<exists>d \<in> set (st_disallowed_web_fetch_domains s). denies_domain (web_fetch_deny_key env host) d))"

definition bash_denied :: "'g policy_env \<Rightarrow> permission_state \<Rightarrow> ustr \<Rightarrow> bool" where
  "bash_denied env s cmd \<longleftrightarrow>
     (case all_commands_from_script (pe_parse env) cmd of
        None \<Rightarrow> denied_text s cmd
      | Some segments \<Rightarrow> \<exists>w \<in> judged segments. denied_text s (join [32] w))"

lemma web_fetch_deny_iff:
  "web_fetch_deny_pre_decision env url s = None \<longleftrightarrow> \<not> web_denied env s url"
  "web_fetch_deny_pre_decision env url s = Some d \<Longrightarrow> \<exists>why. d = Reject why"
  by (auto simp: web_fetch_deny_pre_decision_def web_denied_def denied_web_fetch_domain_def find_None_iff
      split: option.splits)

lemma bash_denied_segments:
  "bash_denied env s cmd \<longleftrightarrow> (\<exists>why. be_segments (evaluate_bash env cmd s honor) = SegReject why)"
proof (cases "all_commands_from_script (pe_parse env) cmd")
  case None
  then show ?thesis
    using evaluate_unparsed(1)[OF None, of s honor] denying_entry_None[of s cmd]
    by (auto simp: bash_denied_def simp del: denying_entry_None split: option.splits)
next
  case (Some segments)
  then have d: "bash_denied env s cmd \<longleftrightarrow> (\<exists>w \<in> judged segments. denied_text s (join [32] w))"
    by (simp add: bash_denied_def)
  from Some show ?thesis
  proof (cases rule: evaluate_parsed[where state = s and honor = honor, consumes 1])
    case (denied e)
    then show ?thesis by (auto simp: d denied_text_def)
  next
    case (scanned sg)
    then show ?thesis by (simp add: d)
  qed
qed

lemma bash_pre_decision_denied:
  assumes "be_segments e = SegReject why"
  shows "bash_grant_pre_decision cmd e state pin opts = Some (Reject why, SESSION_DENY)"
  using assms by (simp add: bash_grant_pre_decision_def)

interpretation mcp: standing_rejection mcp_denied "\<lambda>s name. mcp_pre_decision name s forced remember" for forced remember
  by unfold_locales (auto simp: mcp_denied_def mcp_pre_decision_def keeps_answers_def)

interpretation web: standing_rejection "web_denied env"
    "\<lambda>s url. map_option fst (session_grant_pre_decision env url_path (AccWebFetch url) e s edits matcher pin)"
  for env :: "'g policy_env" and url_path e edits matcher pin
proof unfold_locales
  show "web_denied env s' url" if "keeps_answers s s'" "web_denied env s url" for s s' url
    using that unfolding web_denied_def keeps_answers_def by blast
  show "\<exists>why. map_option fst (session_grant_pre_decision env url_path (AccWebFetch url) e s edits matcher pin) = Some (Reject why)"
    if "web_denied env s url" for s url
    using that web_fetch_deny_iff[where env = env and url = url and s = s]
    by (auto simp: session_grant_pre_decision_def web_denied_def split: option.splits)
qed

interpretation bash: standing_rejection "bash_denied env"
    "\<lambda>s cmd. map_option fst (bash_grant_pre_decision cmd (evaluate_bash_with_ambient env h cmd s cwd) s pin opts)"
  for env :: "'g policy_env" and h cwd pin opts
proof unfold_locales
  show "bash_denied env s' cmd" if "keeps_answers s s'" "bash_denied env s cmd" for s s' cmd
    using that unfolding bash_denied_def denied_text_def keeps_answers_def by (cases "all_commands_from_script (pe_parse env) cmd") (simp, blast)+
  show "\<exists>why. map_option fst (bash_grant_pre_decision cmd (evaluate_bash_with_ambient env h cmd s cwd) s pin opts) =
      Some (Reject why)" if "bash_denied env s cmd" for s cmd
    using that bash_denied_segments[of env s cmd True] by (auto simp: bash_pre_decision_denied)
qed

text \<open>The key is read back, when it is a command line, as exactly the words the user was shown.\<close>

definition reads_back :: "'g policy_env \<Rightarrow> ustr \<Rightarrow> ustr list \<Rightarrow> bool" where
  "reads_back env key words \<longleftrightarrow>
     (\<exists>only. all_commands_from_script (pe_parse env) key = Some [only] \<and> spans_whole_script only key \<and> pl_words only = words)"

lemma join_unambiguous_iff: "words_join_unambiguously env words \<longleftrightarrow> reads_back env (join [32] words) words"
  by (auto simp: words_join_unambiguously_def reads_back_def Let_def split: option.splits list.splits)

text \<open>A machine on which \<open>rm\<close> is one command and every URL is its host.\<close>

definition rm_env :: "ustr policy_env" where
  "rm_env = demo_env\<lparr>pe_url_host := Some,
     pe_parse := (\<lambda>s. if s = lit ''rm'' then Some (Node (lit ''program'') None True 0 2 False [word_command 0 2]) else None)\<rparr>"

definition rm_segment :: plain_command where
  "rm_segment = \<lparr>pl_words = [lit ''rm''], pl_span_start = 0, pl_span_end = 2\<rparr>"

lemma rm_commands: "all_commands_from_script (pe_parse rm_env) (lit ''rm'') = Some [rm_segment]"
  by (simp add: rm_env_def rm_segment_def tree_eval)

lemma rm_words:
  "granted_words rm_segment = [lit ''rm'']" "judged [rm_segment] = {[lit ''rm'']}"
  "is_dangerous_command_words [lit ''rm'']" "reads_back rm_env (lit ''rm'') [lit ''rm'']"
  "primary_command_from_script (pe_parse rm_env) (lit ''rm'') = Some \<lparr>hl_prefix = [], hl_words = [lit ''rm''], hl_suffix = []\<rparr>"
  "\<not> is_setup_command [lit ''rm'']"
proof -
  have ends: "str_to (lit ''rm'') 0 = Some []" "str_from (lit ''rm'') 2 = Some []"
    by (simp_all add: str_to_def str_from_def lit_def utf8_len_def)
  have trim_Nil: "trim [] = []" by (simp add: str_eval)
  have "strip_wrapper_command [lit ''rm''] = None" by (simp add: peel_eval)
  then have u: "unwrap_wrappers [lit ''rm''] = [lit ''rm'']"
    by (simp add: unwrap_wrappers_def unwrap_wrappers_checked_def MAX_WRAPPER_DEPTH_def numeral_eq_Suc peel_eval Let_def)
  then show g: "granted_words rm_segment = [lit ''rm'']" by (simp add: granted_words_def rm_segment_def)
  show plain: "\<not> is_setup_command [lit ''rm'']" by (simp add: is_setup_command_def lit_inject)
  with g show "judged [rm_segment] = {[lit ''rm'']}" by simp
  show "is_dangerous_command_words [lit ''rm'']"
    by (simp add: is_dangerous_command_words_def normalized_command_head_def last_segment_def)
      (simp add: lit_def ascii_lower_def strip_suffix_def DANGEROUS_COMMANDS_def matches_command_prefix_def)
  show "reads_back rm_env (lit ''rm'') [lit ''rm'']"
    using rm_commands by (simp add: reads_back_def rm_segment_def spans_whole_script_def ends trim_Nil)
  show "primary_command_from_script (pe_parse rm_env) (lit ''rm'') = Some \<lparr>hl_prefix = [], hl_words = [lit ''rm''], hl_suffix = []\<rparr>"
    using u plain
    by (simp add: primary_command_from_script_def rm_commands rm_segment_def is_primary_def ends sh_split_simple_def flush_word_def Let_def)
qed

text \<open>
  C17. A rejection that is remembered stands: whatever further prompts are answered afterwards, and whatever those
  answers allow, a rejected MCP tool is rejected by its name, a rejected host is rejected for every URL on it and on
  its subdomains before the built-in domains and the grants are looked at, and a script with a command under a
  rejected prefix is rejected whole, with every option of the grant check.
\<close>

theorem rejection_stands:
  fixes env :: "'g policy_env" and inp :: 'j and answers :: "('j access_kind \<times> prompt_outcome) list"
  shows "(\<exists>why. mcp_pre_decision name
        (answer_all env (fst (record_prompt_outcome env s (AccMcp name inp) (RejectAlwaysMcpTool reply))) answers)
        forced remember = Some (Reject why)) \<and>
    (\<forall>host host' sub. pe_url_host env url = Some host \<longrightarrow> web_fetch_deny_key env host \<noteq> [] \<longrightarrow>
       pe_url_host env url' = Some host' \<longrightarrow>
       (web_fetch_deny_key env host' = web_fetch_deny_key env host \<or>
        sub \<noteq> [] \<and> web_fetch_deny_key env host' = sub @ DOT # web_fetch_deny_key env host) \<longrightarrow>
       (\<exists>why. map_option fst (session_grant_pre_decision env url_path (AccWebFetch url' :: 'j access_kind) e
          (answer_all env (fst (record_prompt_outcome env s (AccWebFetch url :: 'j access_kind) (RejectAlwaysDomain reply))) answers)
          edits matcher pin) = Some (Reject why))) \<and>
    (\<forall>segments. all_commands_from_script (pe_parse env) cmd = Some segments \<longrightarrow>
       (\<exists>w \<in> judged segments. matches_command_prefix (join [32] w) prefix) \<longrightarrow>
       (\<exists>why. map_option fst (bash_grant_pre_decision cmd
          (evaluate_bash_with_ambient env h cmd
            (answer_all env (fst (record_prompt_outcome env s (AccBash cmd' :: 'j access_kind) (RejectAlwaysBashCommand prefix))) answers) cwd)
          (answer_all env (fst (record_prompt_outcome env s (AccBash cmd' :: 'j access_kind) (RejectAlwaysBashCommand prefix))) answers)
          pin opts) = Some (Reject why)))"
proof (intro conjI allI impI)
  show "\<exists>why. mcp_pre_decision name
      (answer_all env (fst (record_prompt_outcome env s (AccMcp name inp) (RejectAlwaysMcpTool reply))) answers)
      forced remember = Some (Reject why)"
    by (rule mcp.rejection_kept) (simp add: mcp_denied_def record_prompt_outcome_def Let_def)
next
  fix host host' sub
  assume "pe_url_host env url = Some host" "web_fetch_deny_key env host \<noteq> []" "pe_url_host env url' = Some host'"
    "web_fetch_deny_key env host' = web_fetch_deny_key env host \<or>
       sub \<noteq> [] \<and> web_fetch_deny_key env host' = sub @ DOT # web_fetch_deny_key env host"
  then have "web_denied env (fst (record_prompt_outcome env s (AccWebFetch url :: 'j access_kind) (RejectAlwaysDomain reply))) url'"
    by (auto simp: web_denied_def record_prompt_outcome_def web_fetch_deny_key_from_url_def Let_def denies_domain_iff)
  then show "\<exists>why. map_option fst (session_grant_pre_decision env url_path (AccWebFetch url' :: 'j access_kind) e
      (answer_all env (fst (record_prompt_outcome env s (AccWebFetch url :: 'j access_kind) (RejectAlwaysDomain reply))) answers)
      edits matcher pin) = Some (Reject why)"
    by (rule web.rejection_kept)
next
  fix segments
  assume "all_commands_from_script (pe_parse env) cmd = Some segments"
    "\<exists>w \<in> judged segments. matches_command_prefix (join [32] w) prefix"
  then have "bash_denied env (fst (record_prompt_outcome env s (AccBash cmd' :: 'j access_kind) (RejectAlwaysBashCommand prefix))) cmd"
    by (auto simp: bash_denied_def denied_text_def record_prompt_outcome_def)
  then show "\<exists>why. map_option fst (bash_grant_pre_decision cmd
      (evaluate_bash_with_ambient env h cmd
        (answer_all env (fst (record_prompt_outcome env s (AccBash cmd' :: 'j access_kind) (RejectAlwaysBashCommand prefix))) answers) cwd)
      (answer_all env (fst (record_prompt_outcome env s (AccBash cmd' :: 'j access_kind) (RejectAlwaysBashCommand prefix))) answers)
      pin opts) = Some (Reject why)"
    by (rule bash.rejection_kept)
qed

theorem rejection_stands_witness:
  "\<forall>h. (\<exists>why. map_option fst (session_grant_pre_decision rm_env id (AccWebFetch (lit ''a.x.y'') :: unit access_kind) None
      (answer_all rm_env (fst (record_prompt_outcome rm_env permission_state_default (AccWebFetch (lit ''x.y'') :: unit access_kind)
        (RejectAlwaysDomain []))) [(AccWebFetch (lit ''a.x.y'') :: unit access_kind, AllowAlwaysDomain (lit ''a.x.y''))])
      False None None) = Some (Reject why)) \<and>
   (\<exists>why. map_option fst (bash_grant_pre_decision (lit ''rm'')
      (evaluate_bash_with_ambient rm_env h (lit ''rm'')
        (answer_all rm_env (fst (record_prompt_outcome rm_env permission_state_default (AccBash (lit ''rm'') :: unit access_kind)
          (RejectAlwaysBashCommand (lit ''rm'')))) [(AccBash (lit ''rm'') :: unit access_kind, AllowAlways)]) (lit ''/''))
      (answer_all rm_env (fst (record_prompt_outcome rm_env permission_state_default (AccBash (lit ''rm'') :: unit access_kind)
        (RejectAlwaysBashCommand (lit ''rm'')))) [(AccBash (lit ''rm'') :: unit access_kind, AllowAlways)])
      None PRE_CLASSIFIER) = Some (Reject why))"
proof -
  have keys: "web_fetch_deny_key rm_env (lit ''x.y'') \<noteq> []"
    "web_fetch_deny_key rm_env (lit ''a.x.y'') = lit ''a'' @ DOT # web_fetch_deny_key rm_env (lit ''x.y'')" "lit ''a'' \<noteq> []"
    by (simp_all add: web_fetch_deny_key_def rm_env_def demo_env_def lit_def str_eval ascii_lower_def trim_end_matches_def)
  have urls: "pe_url_host rm_env u = Some u" for u by (simp add: rm_env_def)
  have rm: "\<exists>w \<in> judged [rm_segment]. matches_command_prefix (join [32] w) (lit ''rm'')"
    by (simp add: matches_command_prefix_def rm_words)
  show ?thesis
    by (intro allI conjI, rule rejection_stands[THEN conjunct2, THEN conjunct1, rule_format,
          OF urls keys(1) urls disjI2[OF conjI[OF keys(3,2)]]])
      (rule rejection_stands[THEN conjunct2, THEN conjunct2, rule_format, OF rm_commands rm])
qed

lemma exact_evaluation_allows:
  assumes "cmd \<in> set (st_allowed_bash_commands s)" "\<not> bash_denied env s cmd"
    and "be_segments e = be_segments (evaluate_bash env cmd s True)" "be_exact_grant e = be_exact_grant (evaluate_bash env cmd s True)"
  shows "\<exists>why. bash_grant_pre_decision cmd e s pin PRE_CLASSIFIER = Some (Allow, why)"
proof -
  have "be_exact_grant (evaluate_bash env cmd s True)"
  proof (cases "all_commands_from_script (pe_parse env) cmd")
    case None
    then show ?thesis using assms(1) by (simp add: evaluate_unparsed(2))
  next
    case (Some segments)
    then show ?thesis
    proof (cases rule: evaluate_parsed[where state = s and honor = True, consumes 1])
      case (denied d)
      then show ?thesis using assms(2) bash_denied_segments by blast
    qed (simp add: whole_script_grant_raw[OF assms(1)])
  qed
  then show ?thesis
    using assms bash_denied_segments[of env s cmd True]
    by (cases "be_segments (evaluate_bash env cmd s True)")
      (simp_all add: bash_grant_pre_decision_def PRE_CLASSIFIER_def bash_request_floor_requires_prompt_def
        persisted_bash_auto_allows_def)
qed

lemma exact_grant_allows:
  assumes "cmd \<in> set (st_allowed_bash_commands s)" "\<not> bash_denied env s cmd"
  shows "\<exists>why. bash_grant_pre_decision cmd (evaluate_bash_with_ambient env h cmd s cwd) s pin PRE_CLASSIFIER = Some (Allow, why)"
  by (rule exact_evaluation_allows[OF assms]) simp_all

text \<open>
  The requests that an allowance for good covers: the same script, down to its text, the same MCP tool, and a URL on
  the same host.
\<close>

definition allowed_for_good :: "'g policy_env \<Rightarrow> 'j access_kind \<Rightarrow> prompt_outcome \<Rightarrow> 'j access_kind \<Rightarrow> bool" where
  "allowed_for_good env asked answer access =
     (case (asked, access) of
        (AccBash cmd, AccBash cmd') \<Rightarrow> answer = AllowAlways \<and> cmd' = cmd
      | (AccMcp name _, AccMcp name' _) \<Rightarrow>
          (case answer of AllowAlways \<Rightarrow> True | AllowAlwaysMcpTool _ \<Rightarrow> True | _ \<Rightarrow> False) \<and> name' = name
      | (AccWebFetch url, AccWebFetch url') \<Rightarrow>
          (case answer of AllowAlwaysDomain _ \<Rightarrow> True | _ \<Rightarrow> False) \<and>
          (case (pe_url_host env url, pe_url_host env url') of
             (Some host, Some host') \<Rightarrow> normalize_domain env host' = normalize_domain env host
           | _ \<Rightarrow> False)
      | _ \<Rightarrow> False)"

definition rejected_by :: "'g policy_env \<Rightarrow> permission_state \<Rightarrow> 'j access_kind \<Rightarrow> bool" where
  "rejected_by env s access =
     (case access of
        AccBash cmd \<Rightarrow> bash_denied env s cmd
      | AccMcp name _ \<Rightarrow> mcp_denied s name
      | AccWebFetch url \<Rightarrow> web_denied env s url
      | _ \<Rightarrow> False)"

text \<open>Such an allowance decides a covered request under every later state that keeps it and does not reject the request.\<close>

lemma allowance_pre_decides:
  assumes "keeps_answers (fst (record_prompt_outcome env s0 asked answer)) s" "allowed_for_good env asked answer access"
    and "\<not> rejected_by env s access"
    and "\<And>cmd. access = AccBash cmd \<Longrightarrow> \<exists>e'. e = Some e' \<and> be_segments e' = be_segments (evaluate_bash env cmd s True) \<and>
      be_exact_grant e' = be_exact_grant (evaluate_bash env cmd s True)"
  shows "\<exists>why. session_grant_pre_decision env url_path access e s edits matcher pin = Some (Allow, why)"
proof (cases asked)
  case (AccBash cmd)
  with assms(2) have acc: "access = AccBash cmd" "answer = AllowAlways" by (auto simp: allowed_for_good_def split: access_kind.splits)
  with AccBash assms(1) have "cmd \<in> set (st_allowed_bash_commands s)"
    by (auto simp: keeps_answers_def record_prompt_outcome_def)
  moreover from assms(3) acc have "\<not> bash_denied env s cmd" by (simp add: rejected_by_def)
  moreover from assms(4)[OF acc(1)] obtain e' where "e = Some e'" "be_segments e' = be_segments (evaluate_bash env cmd s True)"
    "be_exact_grant e' = be_exact_grant (evaluate_bash env cmd s True)" by blast
  ultimately show ?thesis using exact_evaluation_allows[of cmd s env e' pin] acc by (auto simp: session_grant_pre_decision_def)
next
  case (AccMcp name inp)
  with assms(2) obtain inp' where acc: "access = AccMcp name inp'" by (auto simp: allowed_for_good_def split: access_kind.splits)
  from AccMcp acc assms(1,2) have "name \<in> set (st_allowed_mcp_tools s)"
    by (auto simp: allowed_for_good_def keeps_answers_def record_prompt_outcome_def Let_def split: prompt_outcome.splits)
  with acc assms(3) show ?thesis
    by (simp add: session_grant_pre_decision_def mcp_pre_decision_def mcp_denied_def rejected_by_def)
next
  case (AccWebFetch url)
  with assms(2) obtain url' host host' reply where acc: "access = AccWebFetch url'" "answer = AllowAlwaysDomain reply"
    "pe_url_host env url = Some host" "pe_url_host env url' = Some host'" "normalize_domain env host' = normalize_domain env host"
    by (auto simp: allowed_for_good_def split: access_kind.splits prompt_outcome.splits option.splits)
  with AccWebFetch assms(1) have "normalize_domain env host \<in> set (st_allowed_web_fetch_domains s)"
    by (auto simp: keeps_answers_def record_prompt_outcome_def Let_def)
  with acc assms(3) show ?thesis
    by (simp add: session_grant_pre_decision_def web_fetch_deny_iff(1)[symmetric] rejected_by_def split: option.splits)
qed (use assms(2) in \<open>auto simp: allowed_for_good_def\<close>)

section \<open>Scripts that run without a prompt\<close>

lemma passes_granted: "passes env state True w \<Longrightarrow> segment_granted env state w \<Longrightarrow> passes env state honor w"
  by (auto simp: passes_def)

text \<open>
  What an allowance needs: no rejection, no floor unless the whole script was granted, and then a reason for scripts that
  are not decomposed and for those that are.
\<close>

lemma allowance_unrejected:
  assumes "bash_grant_pre_decision cmd (evaluate_bash_with_ambient env h cmd state cwd) state pin opts = Some (Allow, why)"
  shows "be_segments (evaluate_bash env cmd state True) \<noteq> SegReject r"
  using assms by (auto simp: bash_grant_pre_decision_def)

lemma allowance_floor:
  assumes "bash_grant_pre_decision cmd (evaluate_bash_with_ambient env h cmd state cwd) state pin opts = Some (Allow, why)"
  shows "be_exact_grant (evaluate_bash env cmd state True) \<or>
    (\<forall>f \<in> be_assessment (evaluate_bash_with_ambient env h cmd state cwd). \<not> is_grant_floor f)"
  using assms allowance_unrejected[OF assms]
  by (auto simp: bash_grant_pre_decision_def bash_request_floor_requires_prompt_def constrains_broad_grant_iff
      split: segment_evaluation.splits if_splits)

lemma allowance_unparsed:
  assumes "bash_grant_pre_decision cmd (evaluate_bash_with_ambient env h cmd state cwd) state pin opts = Some (Allow, why)"
    and None: "all_commands_from_script (pe_parse env) cmd = None"
  shows "go_allow_blanket opts \<and>
    (cmd \<in> set (st_allowed_bash_commands state) \<or>
     \<not> go_conservative_blanket opts \<and> st_allow_bash_execute state \<and> pin = None \<and>
     (\<forall>f \<in> be_assessment (evaluate_bash_with_ambient env h cmd state cwd). \<not> is_grant_floor f))"
proof -
  have "be_segments (evaluate_bash env cmd state True) = Unparseable"
    using evaluate_unparsed(1)[OF None, of state True] allowance_unrejected[OF assms(1)] by (auto split: option.splits)
  then show ?thesis
    using assms(1) allowance_floor[OF assms(1)] evaluate_unparsed(2)[OF None, of state True]
    by (auto simp: bash_grant_pre_decision_def persisted_bash_auto_allows_def split: if_splits)
qed

lemma allowance_parsed:
  assumes "bash_grant_pre_decision cmd (evaluate_bash_with_ambient env h cmd state cwd) state pin opts = Some (Allow, why)"
    and Some: "all_commands_from_script (pe_parse env) cmd = Some segments"
  defines "a \<equiv> be_assessment (evaluate_bash_with_ambient env h cmd state cwd)"
  shows "whole_script_grant env cmd segments state \<and>
      ((\<forall>w \<in> judged segments. passes env state (go_honor_safe_lists opts) w) \<or> go_allow_blanket opts) \<or>
    (\<forall>f \<in> a. \<not> is_grant_floor f) \<and>
      ((\<forall>w \<in> judged segments. passes env state (go_honor_safe_lists opts) w) \<or>
       go_allow_blanket opts \<and> st_allow_bash_execute state \<and> pin = None \<and>
       (go_conservative_blanket opts \<longrightarrow> (\<forall>w \<in> judged segments. \<not> is_dangerous_command_words w)))"
  using Some
proof (cases rule: evaluate_parsed[where state = state and honor = True, consumes 1])
  case (denied d)
  then show ?thesis using allowance_unrejected[OF assms(1)] by blast
next
  let ?e = "evaluate_bash env cmd state True"
  note floor = allowance_floor[OF assms(1), folded a_def]
  case (scanned sg)
  show ?thesis
  proof (cases "\<forall>w \<in> judged segments. passes env state True w")
    case True
    then have "\<forall>w \<in> judged segments. passes env state (go_honor_safe_lists opts) w"
      using assms(1) scanned(2,3)
      by (cases "go_honor_safe_lists opts") (auto simp: bash_grant_pre_decision_def intro: passes_granted split: if_splits)
    then show ?thesis using floor scanned(4) by auto
  next
    case False
    have danger: "\<forall>w \<in> judged segments. is_dangerous_command_words w \<longrightarrow> DangerousCommand \<in> a"
      unfolding a_def using scanned(5) with_ambient_assessment by blast
    from False have "be_segments ?e = NeedsPrompts (sg_needs_prompt sg)" using scanned(2) by simp
    then have "go_allow_blanket opts \<and>
        (be_exact_grant ?e \<or>
         st_allow_bash_execute state \<and> pin = None \<and> (go_conservative_blanket opts \<longrightarrow> DangerousCommand \<notin> a))"
      using assms(1) scanned(4) whole_script_grant_raw[of cmd state env segments]
      by (auto simp: a_def bash_grant_pre_decision_def persisted_bash_auto_allows_def split: if_splits)
    then show ?thesis using floor scanned(4) danger by auto
  qed
qed

text \<open>
  C18. When a script runs without a prompt because of what is remembered, there is a reason for every part of it: no
  command of it is rejected; either the whole script was granted, or nothing in it is an opaque shell, a write to a
  file, an unvetted variable, an execution callback, a checkout whose configuration runs programs, or an option
  that makes a safe command unsafe; and either each command that is judged is harmless and granted (or on the
  built-in list, where that counts), or the whole script was granted, or everything was, outside a managed
  session and, in automatic mode, only for scripts that are understood and contain no dangerous command.
\<close>

theorem unprompted_script_justified:
  assumes "bash_grant_pre_decision cmd (evaluate_bash_with_ambient env h cmd state cwd) state pin opts = Some (Allow, why)"
  shows "\<not> bash_denied env state cmd \<and>
    (case all_commands_from_script (pe_parse env) cmd of
       None \<Rightarrow>
         go_allow_blanket opts \<and>
         (cmd \<in> set (st_allowed_bash_commands state) \<or>
          \<not> go_conservative_blanket opts \<and> st_allow_bash_execute state \<and> pin = None \<and>
          (\<forall>f \<in> be_assessment (evaluate_bash_with_ambient env h cmd state cwd). \<not> is_grant_floor f))
     | Some segments \<Rightarrow>
         whole_script_grant env cmd segments state \<and>
           ((\<forall>w \<in> judged segments. passes env state (go_honor_safe_lists opts) w) \<or> go_allow_blanket opts) \<or>
         (\<forall>f \<in> be_assessment (evaluate_bash_with_ambient env h cmd state cwd). \<not> is_grant_floor f) \<and>
           ((\<forall>w \<in> judged segments. passes env state (go_honor_safe_lists opts) w) \<or>
            go_allow_blanket opts \<and> st_allow_bash_execute state \<and> pin = None \<and>
            (go_conservative_blanket opts \<longrightarrow> (\<forall>w \<in> judged segments. \<not> is_dangerous_command_words w))))"
proof (rule conjI)
  show "\<not> bash_denied env state cmd" using allowance_unrejected[OF assms] bash_denied_segments by blast
  show "case all_commands_from_script (pe_parse env) cmd of
       None \<Rightarrow>
         go_allow_blanket opts \<and>
         (cmd \<in> set (st_allowed_bash_commands state) \<or>
          \<not> go_conservative_blanket opts \<and> st_allow_bash_execute state \<and> pin = None \<and>
          (\<forall>f \<in> be_assessment (evaluate_bash_with_ambient env h cmd state cwd). \<not> is_grant_floor f))
     | Some segments \<Rightarrow>
         whole_script_grant env cmd segments state \<and>
           ((\<forall>w \<in> judged segments. passes env state (go_honor_safe_lists opts) w) \<or> go_allow_blanket opts) \<or>
         (\<forall>f \<in> be_assessment (evaluate_bash_with_ambient env h cmd state cwd). \<not> is_grant_floor f) \<and>
           ((\<forall>w \<in> judged segments. passes env state (go_honor_safe_lists opts) w) \<or>
            go_allow_blanket opts \<and> st_allow_bash_execute state \<and> pin = None \<and>
            (go_conservative_blanket opts \<longrightarrow> (\<forall>w \<in> judged segments. \<not> is_dangerous_command_words w)))"
    by (split option.split) (use allowance_unparsed[OF assms] allowance_parsed[OF assms] in blast)
qed

definition rm_state :: permission_state where
  "rm_state = permission_state_default\<lparr>st_allowed_bash_commands := [lit ''rm'']\<rparr>"

theorem unprompted_script_justified_witness:
  "whole_script_grant rm_env (lit ''rm'') [rm_segment] rm_state \<and> \<not> bash_denied rm_env rm_state (lit ''rm'')"
proof -
  have "\<not> bash_denied rm_env rm_state (lit ''rm'')"
    by (simp add: bash_denied_def rm_commands rm_words denied_text_def rm_state_def permission_state_default_def)
  moreover have "lit ''rm'' \<in> set (st_allowed_bash_commands rm_state)" by (simp add: rm_state_def)
  ultimately obtain why where "bash_grant_pre_decision (lit ''rm'')
      (evaluate_bash_with_ambient rm_env bare_host (lit ''rm'') rm_state (lit ''/'')) rm_state None PRE_CLASSIFIER = Some (Allow, why)"
    using exact_grant_allows by blast
  from unprompted_script_justified[OF this] show ?thesis
    by (auto simp: rm_commands rm_words passes_def PRE_CLASSIFIER_def)
qed

section \<open>What an answer adds\<close>

definition labelled :: "'g policy_env \<Rightarrow> ustr \<Rightarrow> ustr \<Rightarrow> bool" where
  "labelled env cmd key \<longleftrightarrow>
     (\<exists>h n. primary_command_from_script (pe_parse env) cmd = Some h \<and>
        minimum_always_allow_scope (hl_words h) \<le> n \<and> n \<le> length (hl_words h) \<and> reads_back env key (take n (hl_words h)))"

definition segment_key :: "'g policy_env \<Rightarrow> ustr \<Rightarrow> ustr \<Rightarrow> bool" where
  "segment_key env cmd key \<longleftrightarrow>
     (\<exists>segments. all_commands_from_script (pe_parse env) cmd = Some segments \<and>
        (\<exists>w \<in> judged segments. \<not> is_dangerous_command_words w \<and> \<not> head_is_exec_vehicle w \<and> reads_back env key w))"

lemma persist_mints:
  "key \<in> set (st_allowed_bash_commands (persist_bash_always_allow env s cmd prefix)) \<Longrightarrow>
   key \<in> set (st_allowed_bash_commands s) \<or> key = cmd \<or> labelled env cmd key"
  by (auto simp: persist_bash_always_allow_def labelled_def list_ex_iff join_unambiguous_iff Let_def less_Suc_eq_le
      split: option.splits if_splits)

lemma segment_grants_mint:
  assumes "key \<in> set (bash_grant_segments env cmd)"
  shows "segment_key env cmd key"
proof -
  obtain segments seg where seg: "all_commands_from_script (pe_parse env) cmd = Some segments" "seg \<in> set segments"
    "segment_grant_key env seg = Some key"
    using assms
    by (cases "all_commands_from_script (pe_parse env) cmd")
      (auto simp: bash_grant_segments_def map_filter_def Let_def split: if_splits)
  have "granted_words seg \<in> judged segments \<and> \<not> is_dangerous_command_words (granted_words seg) \<and>
      \<not> head_is_exec_vehicle (granted_words seg) \<and> reads_back env key (granted_words seg)"
    using seg(2,3)
    by (auto simp: segment_grant_key_def judged_def granted_words_def join_unambiguous_iff Let_def split: if_splits)
  with seg(1) show ?thesis unfolding segment_key_def by blast
qed

lemma persist_sel [simp]:
  "st_allow_bash_execute (persist_bash_always_allow env s cmd prefix) = st_allow_bash_execute s"
  "st_edit_policy (persist_bash_always_allow env s cmd prefix) = st_edit_policy s"
  "st_allowed_bash_globs (persist_bash_always_allow env s cmd prefix) = st_allowed_bash_globs s"
  "st_allowed_mcp_tools (persist_bash_always_allow env s cmd prefix) = st_allowed_mcp_tools s"
  "st_allowed_mcp_servers (persist_bash_always_allow env s cmd prefix) = st_allowed_mcp_servers s"
  "st_allowed_web_fetch_domains (persist_bash_always_allow env s cmd prefix) = st_allowed_web_fetch_domains s"
  by (simp_all add: persist_bash_always_allow_def Let_def split: option.splits)

text \<open>
  C19. No reply mints a grant for more than the request it answers, whatever it says. A new command grant is the text
  of the script itself, or a prefix of its highlighted command at or above the smallest scope a grant of it may
  have, read back as exactly those words, or one of its commands, neither dangerous nor a vehicle for others, read
  back as its words; a new pattern is not a catch-all and matches the script; a new tool is the requested one, a
  new server the one in its name, a new domain the requested URL's. No answer allows everything, or every edit.
\<close>

theorem reply_mints_no_more:
  assumes "s' = fst (record_prompt_outcome env s access outcome)"
  shows "st_allow_bash_execute s' = st_allow_bash_execute s \<and> st_edit_policy s' = st_edit_policy s \<and>
    (\<forall>key \<in> set (st_allowed_bash_commands s') - set (st_allowed_bash_commands s).
       \<exists>cmd. access = AccBash cmd \<and> (key = cmd \<or> labelled env cmd key \<or> segment_key env cmd key)) \<and>
    (\<forall>key \<in> set (st_allowed_bash_globs s') - set (st_allowed_bash_globs s).
       \<exists>cmd. access = AccBash cmd \<and> \<not> bash_glob_is_catchall env key \<and> bash_glob_covers_script env cmd key) \<and>
    (\<forall>key \<in> set (st_allowed_mcp_tools s') - set (st_allowed_mcp_tools s). \<exists>inp. access = AccMcp key inp) \<and>
    (\<forall>key \<in> set (st_allowed_mcp_servers s') - set (st_allowed_mcp_servers s).
       \<exists>name inp tool. access = AccMcp name inp \<and> parse_mcp_qualified_name name = Some (key, tool)) \<and>
    (\<forall>key \<in> set (st_allowed_web_fetch_domains s') - set (st_allowed_web_fetch_domains s).
       \<exists>url host. access = AccWebFetch url \<and> pe_url_host env url = Some host \<and> key = normalize_domain env host)"
proof -
  have glob: "bash_glob_covers_script env cmd g \<Longrightarrow> \<not> bash_glob_is_catchall env g" for cmd g
    by (simp add: bash_glob_covers_script_def split: if_splits)
  show ?thesis
  proof (cases access)
    case (AccBash cmd)
    then show ?thesis
      using persist_mints[of _ env s cmd] segment_grants_mint[of _ env cmd] glob[of cmd]
      by (cases outcome) (auto simp: assms record_prompt_outcome_def)
  next
    case (AccMcp name inp)
    then show ?thesis
      by (cases outcome) (auto simp: assms record_prompt_outcome_def Let_def split: option.splits if_splits)
  next
    case (AccWebFetch url)
    then show ?thesis
      by (cases outcome) (auto simp: assms record_prompt_outcome_def Let_def split: option.splits)
  qed (simp_all add: assms record_prompt_outcome_def)
qed

theorem reply_mints_no_more_witness:
  "st_allowed_bash_commands (fst (record_prompt_outcome rm_env permission_state_default (AccBash (lit ''rm'') :: unit access_kind)
     (AllowAlwaysBashCommand (lit ''rm'')))) = [lit ''rm''] \<and>
   st_allowed_bash_commands (fst (record_prompt_outcome rm_env permission_state_default (AccBash (lit ''rm'') :: unit access_kind)
     (AllowAlwaysBashCommand (lit ''ls'')))) = []"
proof -
  have u: "words_join_unambiguously rm_env [lit ''rm'']" using rm_words(4) by (simp add: join_unambiguous_iff)
  have "minimum_always_allow_scope [lit ''rm''] = 1"
    by (simp add: minimum_always_allow_scope_def always_allow_scope_pinned_def rm_words)
  then have "st_allowed_bash_commands (fst (record_prompt_outcome rm_env permission_state_default (AccBash (lit ''rm'') :: unit access_kind)
     (AllowAlwaysBashCommand (lit ''rm'')))) = [lit ''rm'']"
    using u by (simp add: record_prompt_outcome_def persist_bash_always_allow_def rm_words list_ex_iff Let_def add_def
        permission_state_default_def)
  moreover have "lit ''ls'' \<notin> set (st_allowed_bash_commands s)" if "s = fst (record_prompt_outcome rm_env permission_state_default
      (AccBash (lit ''rm'') :: unit access_kind) (AllowAlwaysBashCommand (lit ''ls'')))" for s
  proof
    assume "lit ''ls'' \<in> set (st_allowed_bash_commands s)"
    then have "lit ''ls'' = lit ''rm'' \<or> labelled rm_env (lit ''rm'') (lit ''ls'') \<or> segment_key rm_env (lit ''rm'') (lit ''ls'')"
      using reply_mints_no_more[OF that] by (auto simp: permission_state_default_def)
    moreover have "\<not> reads_back rm_env (lit ''ls'') w" for w
      by (simp add: reads_back_def all_commands_from_script_def rm_env_def lit_inject)
    ultimately show False by (auto simp: labelled_def segment_key_def lit_inject)
  qed
  ultimately show ?thesis
    by (auto simp: record_prompt_outcome_def persist_bash_always_allow_def rm_words list_ex_iff Let_def add_def
        permission_state_default_def split: if_splits)
qed

section \<open>Scopes\<close>

lemma base_scope_bounds: "words \<noteq> [] \<Longrightarrow> 1 \<le> base_scope words \<and> base_scope words \<le> length words"
proof -
  assume w: "words \<noteq> []"
  let ?n = "min (length words) 2"
  have "length (takeWhile (\<lambda>w. starts_with w [DASH]) (drop ?n words)) \<le> length words - ?n"
    by (metis length_drop length_takeWhile_le)
  with w show ?thesis by (cases words) (auto simp: base_scope_def Let_def)
qed

lemma gh_scope_bounds:
  "words \<noteq> [] \<Longrightarrow> gh_always_allow_scope words = Some n \<Longrightarrow> 1 \<le> n \<and> n \<le> length words"
  by (cases words) (auto simp: gh_always_allow_scope_def word_at_def split: if_splits option.splits)

text \<open>
  The scopes the prompt offers fit together: the smallest one that may be granted is at least one word, the
  preselected one is neither below it nor beyond the command, a dangerous command, a vehicle for other commands and
  \<open>sed\<close> offer only the whole command, and the scope of a rejection is within the command as well. A scope that is
  offered is saved: answering with its words adds one key, those words or the whole script.
\<close>

lemma offered_scope_saved:
  assumes "primary_command_from_script (pe_parse env) cmd = Some h" "hl_words h \<noteq> []"
  shows "1 \<le> minimum_always_allow_scope (hl_words h) \<and>
    minimum_always_allow_scope (hl_words h) \<le> default_always_allow_scope (hl_words h) \<and>
    default_always_allow_scope (hl_words h) \<le> length (hl_words h) \<and>
    (always_allow_scope_pinned (hl_words h) \<longrightarrow> minimum_always_allow_scope (hl_words h) = length (hl_words h)) \<and>
    1 \<le> default_always_deny_scope (hl_words h) \<and> default_always_deny_scope (hl_words h) \<le> length (hl_words h) \<and>
    (\<forall>n. always_allow_scope_persists env h n \<longrightarrow>
       minimum_always_allow_scope (hl_words h) \<le> n \<and> n \<le> length (hl_words h) \<and>
       (\<exists>key \<in> {join [32] (take n (hl_words h)), cmd}.
          set (st_allowed_bash_commands (persist_bash_always_allow env s cmd (join [32] (take n (hl_words h))))) =
          insert key (set (st_allowed_bash_commands s))))"
proof (intro conjI allI impI)
  fix n
  assume p: "always_allow_scope_persists env h n"
  then show n: "minimum_always_allow_scope (hl_words h) \<le> n" "n \<le> length (hl_words h)"
    by (simp_all add: always_allow_scope_persists_def Let_def split: if_splits)
  show "\<exists>key \<in> {join [32] (take n (hl_words h)), cmd}.
      set (st_allowed_bash_commands (persist_bash_always_allow env s cmd (join [32] (take n (hl_words h))))) =
      insert key (set (st_allowed_bash_commands s))"
    using p n assms(1)
    by (auto simp: persist_bash_always_allow_def always_allow_scope_persists_def list_ex_iff Let_def less_Suc_eq_le split: if_splits)
qed (use base_scope_bounds[OF assms(2)] gh_scope_bounds[OF assms(2)] assms(2) in
    \<open>auto simp: minimum_always_allow_scope_def default_always_allow_scope_def default_always_deny_scope_def Suc_le_eq
      split: option.splits\<close>)

lemma offered_scope_saved_witness:
  "\<exists>key \<in> {lit ''rm'', lit ''rm''}.
     set (st_allowed_bash_commands (persist_bash_always_allow rm_env permission_state_default (lit ''rm'') (lit ''rm''))) = {key}"
proof -
  let ?h = "\<lparr>hl_prefix = [], hl_words = [lit ''rm''], hl_suffix = []\<rparr>"
  have "always_allow_scope_persists rm_env ?h 1"
    by (simp add: always_allow_scope_persists_def minimum_always_allow_scope_def always_allow_scope_pinned_def rm_words Let_def)
  with offered_scope_saved[OF rm_words(5), of permission_state_default] show ?thesis
    by (auto simp: permission_state_default_def)
qed


section \<open>Limits\<close>

text \<open>
  A label that does not belong to the script is reported as recorded although nothing is; and a dangerous command that
  was granted by its whole text runs without a prompt, in automatic mode as well.
\<close>

lemma forged_label_reported:
  "record_prompt_outcome rm_env permission_state_default (AccBash (lit ''rm'') :: unit access_kind)
     (AllowAlwaysBashCommand (lit ''ls'')) = (permission_state_default, Some (lit ''ls''))"
proof -
  have "join [32] (take n [lit ''rm'']) \<noteq> lit ''ls''" for n
    by (cases n) (simp_all add: lit_def)
  then show ?thesis
    by (simp add: record_prompt_outcome_def persist_bash_always_allow_def rm_words list_ex_iff Let_def lit_inject)
qed

lemma granted_dangerous_runs:
  "is_dangerous_command_words [lit ''rm''] \<and>
   (\<exists>why. bash_grant_pre_decision (lit ''rm'') (evaluate_bash_with_ambient rm_env h (lit ''rm'') rm_state cwd) rm_state pin
      PRE_CLASSIFIER = Some (Allow, why))"
proof -
  have "\<not> bash_denied rm_env rm_state (lit ''rm'')"
    by (simp add: bash_denied_def rm_commands rm_words denied_text_def rm_state_def permission_state_default_def)
  then show ?thesis using exact_grant_allows[of "lit ''rm''" rm_state rm_env h cwd pin] rm_words(3) by (simp add: rm_state_def)
qed

text \<open>
  The shorthand of \<open>--server\<close> is recognised only when its value is a word of its own; with the value attached the
  command is on the safe list. \<open>git branch\<close> is on it with every option, so deleting a branch is a query. And
  \<open>command rm\<close> is neither a dangerous command nor one that a rejection of \<open>rm\<close> covers.
\<close>

lemma kubectl_shorthand_missed:
  "kubectl_has_unsafe_flag [lit ''kubectl'', lit ''get'', lit ''pods'', lit ''-s'', lit ''http://evil'']"
  "segment_safe [lit ''kubectl'', lit ''get'', lit ''pods'', lit ''-shttp://evil'']"
proof -
  have h: "normalized_command_head (lit ''kubectl'' # ws) = Some (lit ''kubectl'')" for ws
    by (simp add: normalized_command_head_def last_segment_def lit_def ascii_lower_def strip_suffix_def)
  show "kubectl_has_unsafe_flag [lit ''kubectl'', lit ''get'', lit ''pods'', lit ''-s'', lit ''http://evil'']"
    by (simp add: kubectl_has_unsafe_flag_def h KUBECTL_UNSAFE_FLAGS_def) (simp add: flag_part_def lit_def)
  show "segment_safe [lit ''kubectl'', lit ''get'', lit ''pods'', lit ''-shttp://evil'']"
    by (simp add: segment_safe_def is_safe_command_words_def kubectl_has_unsafe_flag_def rg_has_unsafe_flag_def
        ps_dumps_environment_def h KUBECTL_UNSAFE_FLAGS_def word_at_def lit_inject)
      (simp add: flag_part_def lit_def is_safe_command_words_str_def SAFE_COMMANDS_def
        matches_command_prefix_def starts_with_def)
qed

lemma branch_deletion_is_query: "segment_safe [lit ''git'', lit ''branch'', lit ''-D'', lit ''main'']"
proof -
  have h: "normalized_command_head (lit ''git'' # ws) = Some (lit ''git'')" for ws
    by (simp add: normalized_command_head_def last_segment_def lit_def ascii_lower_def strip_suffix_def)
  have "git_words_are_read_only_query [lit ''git'', lit ''branch'', lit ''-D'', lit ''main'']"
    by (simp add: query_eval)
  then show ?thesis
    by (simp add: segment_safe_def is_safe_command_words_def kubectl_has_unsafe_flag_def rg_has_unsafe_flag_def
        ps_dumps_environment_def h word_at_def lit_inject)
qed

lemma command_rm_unnoticed:
  "unwrap_wrappers [lit ''command'', lit ''rm''] = [lit ''command'', lit ''rm'']"
  "\<not> is_dangerous_command_words [lit ''command'', lit ''rm'']"
proof -
  have "strip_wrapper_command [lit ''command'', lit ''rm''] = None" by (simp add: peel_eval)
  then show "unwrap_wrappers [lit ''command'', lit ''rm''] = [lit ''command'', lit ''rm'']"
    by (simp add: unwrap_wrappers_def unwrap_wrappers_checked_def MAX_WRAPPER_DEPTH_def numeral_eq_Suc peel_eval Let_def)
  show "\<not> is_dangerous_command_words [lit ''command'', lit ''rm'']"
    by (simp add: is_dangerous_command_words_def normalized_command_head_def last_segment_def)
      (simp add: lit_def ascii_lower_def strip_suffix_def DANGEROUS_COMMANDS_def matches_command_prefix_def starts_with_def)
qed

end
