(* ===== verification/Auto_Mode.thy ===== *)
theory Auto_Mode
  imports Grants
begin

text \<open>
  The automatic mode (\<open>crates/codegen/xai-grok-workspace/src/permission/auto_mode/mod.rs\<close> and
  \<open>auto_mode/routine_git.rs\<close>): what is decided without asking anyone, the built-in classifier of commands, and how the
  answer of the model that is asked about the rest is read.

  \<open>serde_json\<close> is the parameter \<open>json\<close>: it reads the field that says whether to block, and the reason, of a text
  that parses. The messages for the model are not built; its reply is an input.
\<close>

datatype classifier_verdict = VAllow | VBlock | VUnavailable

section \<open>Routine git\<close>

definition BRANCH_SWITCH_BENIGN_FLAGS :: "ustr list" where
  "BRANCH_SWITCH_BENIGN_FLAGS = map lit
     [''-q'', ''--quiet'', ''-d'', ''--detach'', ''-t'', ''--track'', ''--no-track'', ''--guess'', ''--no-guess'',
      ''--progress'', ''--no-progress'', ''--recurse-submodules'', ''--no-recurse-submodules'']"

definition operand_reads_as_path :: "ustr \<Rightarrow> bool" where
  "operand_reads_as_path op =
     (if list_ex (\<lambda>c. starts_with c [DOT] \<or> ends_with c (lit ''.lock'')) (split_char SLASH op) \<or>
         ends_with op [SLASH] \<or> ends_with op [DOT] \<or> contains op (lit ''..'') \<or> contains op [64, 123] \<or>
         list_ex (\<lambda>c. c \<in> {126, 94, 58, BSL}) op \<or> list_ex is_ws op
      then True
      else if starts_with op [SLASH] \<or> list_ex (\<lambda>c. c \<in> {42, 63, 91}) op then True
      else (case rsplit_once_dot op of
              None \<Rightarrow> False
            | Some (stem, ext) \<Rightarrow>
                (let stem_leaf = last (split_char SLASH stem) in
                 if ext = lit ''x'' \<and> list_ex is_ascii_digit stem_leaf \<and>
                    list_all (\<lambda>b. is_ascii_digit b \<or> b = DOT) stem_leaf then False
                 else 1 \<le> byte_len ext \<and> byte_len ext \<le> 5 \<and>
                      list_all (\<lambda>c. is_ascii_alpha c \<or> is_ascii_digit c) ext \<and> list_ex is_ascii_alpha ext)))"

function switch_loop :: "ustr list \<Rightarrow> nat \<Rightarrow> bool" where
  "switch_loop [] operands = (operands \<le> 1)"
| "switch_loop (word # rest) operands =
     (if word \<in> set (map lit [''-b'', ''-B'', ''-c'', ''-C'', ''--orphan'']) then switch_loop (drop 1 rest) operands
      else if word = [DASH] then switch_loop rest (operands + 1)
      else if word \<in> set BRANCH_SWITCH_BENIGN_FLAGS then switch_loop rest operands
      else if starts_with word [DASH] then False
      else if operand_reads_as_path word then False
      else switch_loop rest (operands + 1))"
  by pat_completeness auto
termination by (relation "measure (length \<circ> fst)") auto

definition is_routine_branch_switch :: "ustr list \<Rightarrow> bool" where
  "is_routine_branch_switch args = switch_loop args 0"

text \<open>The subcommand; \<open>Inl\<close> is the early return.\<close>

function stash_loop :: "ustr list \<Rightarrow> unit + ustr option" where
  "stash_loop [] = Inr None"
| "stash_loop (word # rest) =
     (if word = lit ''-m'' \<or> word = lit ''--message'' then stash_loop (drop 1 rest)
      else if word = lit ''-q'' \<or> word = lit ''--quiet'' then stash_loop rest
      else if starts_with word [DASH] then Inl ()
      else Inr (Some word))"
  by pat_completeness auto
termination by (relation "measure length") auto

definition is_routine_stash :: "ustr list \<Rightarrow> bool" where
  "is_routine_stash args =
     (case stash_loop args of
        Inl _ \<Rightarrow> False
      | Inr None \<Rightarrow> True
      | Inr (Some s) \<Rightarrow> s \<in> set (map lit [''push'', ''save'', ''pop'', ''apply'', ''list'', ''show'', ''branch'']))"

definition git_words_are_routine :: "ustr list \<Rightarrow> bool" where
  "git_words_are_routine words =
     (if word_at words 0 \<noteq> Some (lit ''git'') then False
      else if git_words_are_read_only_query words then True
      else if git_words_have_unsafe_query_option words then False
      else (case word_at words 1 of
              None \<Rightarrow> False
            | Some verb \<Rightarrow>
                (let args = drop 2 words in
                 if verb \<in> set (map lit [''add'', ''commit'', ''pull'', ''fetch'']) then True
                 else if verb = lit ''worktree'' then word_at args 0 = Some (lit ''list'')
                 else if verb = lit ''checkout'' \<or> verb = lit ''switch'' then is_routine_branch_switch args
                 else if verb = lit ''stash'' then is_routine_stash args
                 else False)))"

section \<open>Package managers\<close>

definition NPM_SAFE_SUBCOMMANDS :: "ustr list" where
  "NPM_SAFE_SUBCOMMANDS = map lit
     [''install'', ''i'', ''ci'', ''add'', ''remove'', ''rm'', ''uninstall'', ''update'', ''up'', ''upgrade'', ''test'',
      ''t'', ''run'', ''run-script'', ''start'', ''build'', ''audit'', ''list'', ''ls'', ''ll'', ''outdated'', ''why'',
      ''view'', ''info'', ''dedupe'', ''prune'', ''version'', ''pack'', ''config'', ''link'', ''unlink'', ''rebuild'',
      ''store'', ''fetch'', ''import'']"

definition UV_SAFE_SUBCOMMANDS :: "ustr list" where
  "UV_SAFE_SUBCOMMANDS = map lit
     [''sync'', ''pip'', ''lock'', ''venv'', ''add'', ''remove'', ''tree'', ''export'', ''build'', ''version'', ''python'',
      ''cache'', ''init'', ''self'', ''help'']"

definition RUSTUP_SAFE_SUBCOMMANDS :: "ustr list" where
  "RUSTUP_SAFE_SUBCOMMANDS = map lit
     [''show'', ''toolchain'', ''component'', ''target'', ''default'', ''update'', ''which'', ''doc'', ''self'',
      ''completions'', ''set'', ''override'']"

definition launched_writes_nonsink :: "ustr list \<Rightarrow> bool" where
  "launched_writes_nonsink words = list_ex (\<lambda>p. \<not> is_safe_write_sink p) (command_words_write_paths words)"

definition NODE_MANAGERS :: "ustr list" where
  "NODE_MANAGERS = map lit [''npm'', ''pnpm'', ''yarn'']"

definition launcher_subcommand :: "ustr \<Rightarrow> ustr list \<Rightarrow> ustr option" where
  "launcher_subcommand head inner =
     map_option (\<lambda>sub.
       if head \<in> set NODE_MANAGERS \<and> sub = lit ''x'' then lit ''exec''
       else if head \<in> set NODE_MANAGERS \<and> sub = lit ''innit'' then lit ''init''
       else sub) (word_at inner 1)"

definition is_remote_launcher :: "ustr \<Rightarrow> ustr list \<Rightarrow> bool" where
  "is_remote_launcher head inner =
     (if head = lit ''npx'' \<or> head = lit ''uvx'' then True
      else if head = lit ''uv'' \<and> word_at inner 1 = Some (lit ''tool'') \<and> word_at inner 2 = Some (lit ''run'') then True
      else (case launcher_subcommand head inner of
              None \<Rightarrow> False
            | Some sub \<Rightarrow>
                head \<in> set NODE_MANAGERS \<and>
                (sub \<in> set (map lit [''dlx'', ''create'', ''explore'']) \<or>
                 sub = lit ''init'' \<and> (case word_at inner 2 of Some a \<Rightarrow> \<not> starts_with a [DASH] | None \<Rightarrow> False))))"

datatype launch_target = NotLauncher | LaunchInner "ustr list" | LaunchUnresolved

definition launch_from :: "ustr list \<Rightarrow> nat \<Rightarrow> launch_target" where
  "launch_from inner start =
     (case word_at inner start of
        Some tok \<Rightarrow> if \<not> starts_with tok [DASH] then LaunchInner (drop start inner) else LaunchUnresolved
      | None \<Rightarrow> LaunchUnresolved)"

definition explicit_launch_target :: "ustr \<Rightarrow> ustr list \<Rightarrow> launch_target" where
  "explicit_launch_target head inner =
     (case launcher_subcommand head inner of
        None \<Rightarrow> NotLauncher
      | Some sub \<Rightarrow>
          if head = lit ''uv'' \<and> sub = lit ''run'' then launch_from inner 2
          else if head = lit ''rustup'' \<and> sub = lit ''run''
          then (case word_at inner 2 of
                  Some toolchain \<Rightarrow> if \<not> starts_with toolchain [DASH] then launch_from inner 3 else LaunchUnresolved
                | None \<Rightarrow> LaunchUnresolved)
          else if head \<in> set NODE_MANAGERS \<and> sub = lit ''exec''
          then launch_from inner (if word_at inner 2 = Some (lit ''--'') then 3 else 2)
          else NotLauncher)"

definition PACKAGE_MANAGERS :: "ustr list" where
  "PACKAGE_MANAGERS = map lit [''uv'', ''uvx'', ''npm'', ''npx'', ''pnpm'', ''yarn'', ''rustup'']"

text \<open>What the subcommand of a package manager amounts to: the command it launches is judged again.\<close>

datatype manager_class = NotManager | Settled bool | Launches "ustr list"

definition package_manager_subcommand_is_routine :: "ustr \<Rightarrow> ustr list \<Rightarrow> manager_class" where
  "package_manager_subcommand_is_routine prog inner =
     (if prog \<notin> set PACKAGE_MANAGERS then NotManager
      else if is_remote_launcher prog inner then Settled False
      else (case explicit_launch_target prog inner of
              LaunchUnresolved \<Rightarrow> Settled False
            | LaunchInner launched \<Rightarrow> Launches launched
            | NotLauncher \<Rightarrow>
                Settled
                  (case launcher_subcommand prog inner of
                     None \<Rightarrow> False
                   | Some s \<Rightarrow>
                       if prog \<in> set NODE_MANAGERS then s \<in> set NPM_SAFE_SUBCOMMANDS
                       else if prog = lit ''uv'' then s \<in> set UV_SAFE_SUBCOMMANDS
                       else if prog = lit ''rustup'' then s \<in> set RUSTUP_SAFE_SUBCOMMANDS
                       else False)))"

section \<open>Routine commands\<close>

definition ROUTINE_PREFIXES :: "ustr list" where
  "ROUTINE_PREFIXES = map lit
     [''cargo'', ''pytest'', ''python'', ''python3'', ''node'', ''rustc'', ''rustfmt'', ''clippy'', ''make'', ''cmake'',
      ''cd'', ''pushd'', ''popd'', ''ls'', ''pwd'', ''echo'', ''printf'', ''cat'', ''head'', ''tail'', ''wc'', ''rg'',
      ''grep'', ''which'', ''type'', ''true'', ''false'', ''test'', ''sort'', ''uniq'', ''tr'', ''cut'', ''diff'', ''jq'',
      ''date'', ''whoami'', ''hostname'', ''uname'', ''nproc'', ''printenv'', ''stat'', ''file'', ''tree'', ''basename'',
      ''dirname'', ''realpath'', ''readlink'', ''strings'', ''sleep'', ''df'', ''du'', ''ps'', ''top'', ''htop'', ''bazel'',
      ''just'', ''go'', ''kubectl get'', ''kubectl logs'', ''kubectl describe'', ''set'']"

definition is_lone_wrapper :: "ustr list \<Rightarrow> bool" where
  "is_lone_wrapper words \<longleftrightarrow> length words = 1 \<and> is_wrapper_command words"

definition find_is_read_only :: "ustr list \<Rightarrow> bool" where
  "find_is_read_only words \<longleftrightarrow>
     \<not> list_ex (\<lambda>w. w \<in> set (map lit
          [''-delete'', ''-exec'', ''-execdir'', ''-ok'', ''-okdir'', ''-fprint'', ''-fprint0'', ''-fprintf'', ''-fls'']))
        words"

definition nonflag_tokens :: "ustr list \<Rightarrow> nat \<Rightarrow> ustr list" where
  "nonflag_tokens inner n = take n (filter (\<lambda>w. \<not> starts_with w [DASH]) (drop 1 inner))"

definition gh_subcommand_is_read_only :: "ustr list \<Rightarrow> bool" where
  "gh_subcommand_is_read_only inner =
     (case nonflag_tokens inner 2 of
        [grp, sub] \<Rightarrow>
          grp \<in> set (map lit [''pr'', ''issue'', ''release'', ''run'', ''workflow'', ''repo'', ''gist'']) \<and>
            sub \<in> set (map lit [''view'', ''list'', ''status'', ''checks'', ''diff'']) \<or>
          grp = lit ''auth'' \<and> sub = lit ''status''
      | [s] \<Rightarrow> s = lit ''status''
      | _ \<Rightarrow> False)"

text \<open>The checks for a command that is not a package manager's.\<close>

definition plain_command_is_routine :: "ustr \<Rightarrow> ustr list \<Rightarrow> bool" where
  "plain_command_is_routine head inner =
     (if head = lit ''find'' then find_is_read_only inner
      else if head = lit ''git'' then git_words_are_routine inner
      else if head = lit ''tree'' \<and>
              list_ex (\<lambda>w. (starts_with w [DASH] \<and> \<not> starts_with w (lit ''--'') \<and> 111 \<in> set w) \<or>
                           starts_with w (lit ''--output'')) inner then False
      else if rg_has_unsafe_flag inner then False
      else if head = lit ''kubectl'' \<and> list_ex (\<lambda>w. flag_part w \<in> set KUBECTL_UNSAFE_FLAGS) (drop 1 inner) then False
      else if head = lit ''gh'' then gh_subcommand_is_read_only inner
      else list_ex (matches_command_prefix (map ascii_lower (join [32] inner))) ROUTINE_PREFIXES)"

definition program_name :: "ustr list \<Rightarrow> ustr" where
  "program_name inner = map ascii_lower (last_segment (hd inner))"

lemma launch_shrinks: "explicit_launch_target h inner = LaunchInner ws \<Longrightarrow> length ws < length inner"
  by (auto simp: explicit_launch_target_def launch_from_def word_at_def split: option.splits if_splits)

lemma manager_shrinks: "package_manager_subcommand_is_routine h inner = Launches ws \<Longrightarrow> length ws < length inner"
  by (auto simp: package_manager_subcommand_is_routine_def dest: launch_shrinks split: if_splits launch_target.splits)

lemma unwrap_wrappers_length: "length (unwrap_wrappers words) \<le> length words"
proof -
  obtain k where "unwrap_wrappers words = drop k words"
    unfolding unwrap_wrappers_def unwrap_wrappers_checked_def using peels_suffix[OF unwrap_loop_peels] by metis
  then show ?thesis by simp
qed

text \<open>
  One parsed command. What a package manager launches is judged like a command of its own, and its environment and
  the files it writes are looked at first.
\<close>

function bash_command_is_routine :: "ustr list \<Rightarrow> bool" where
  "bash_command_is_routine words =
     (let inner = unwrap_wrappers words in
      if inner = [] \<or> is_lone_wrapper inner then True
      else (let head = program_name inner in
            case package_manager_subcommand_is_routine head inner of
              Launches launched \<Rightarrow>
                command_env_risk launched = EnvSafe \<and> \<not> launched_writes_nonsink launched \<and>
                bash_command_is_routine launched
            | Settled routine \<Rightarrow> routine
            | NotManager \<Rightarrow> plain_command_is_routine head inner))"
  by pat_completeness auto
termination
  by (relation "measure length") (auto dest!: manager_shrinks intro: less_le_trans[OF _ unwrap_wrappers_length])

declare bash_command_is_routine.simps [simp del]

text \<open>The script. The parser is the parameter \<open>parse\<close>.\<close>

definition classify_bash :: "(ustr \<Rightarrow> node option) \<Rightarrow> ustr \<Rightarrow> classifier_verdict" where
  "classify_bash parse cmd =
     (case parse cmd of
        None \<Rightarrow> VBlock
      | Some tree \<Rightarrow>
          (case try_parse_word_only_commands_sequence tree cmd of
             None \<Rightarrow> VBlock
           | Some cmds \<Rightarrow>
               if script_env_risk tree cmd cmds \<noteq> EnvSafe then VBlock
               else if list_ex (\<lambda>path. \<not> is_safe_write_sink path) (command_write_paths_in_tree tree cmd) then VBlock
               else if cmds \<noteq> [] \<and> list_all (\<lambda>c. bash_command_is_routine (pl_words c)) cmds then VAllow
               else VBlock))"

section \<open>What is called routine\<close>

text \<open>
  The commands that a command runs: the one behind its wrappers, and, when that is a package manager told to run
  another program, those that this one runs.
\<close>

inductive launches :: "ustr list \<Rightarrow> ustr list \<Rightarrow> bool" where
  behind: "launches words (unwrap_wrappers words)"
| launched: "launches words inner \<Longrightarrow> inner \<noteq> [] \<Longrightarrow> program_name inner \<in> set PACKAGE_MANAGERS \<Longrightarrow>
    explicit_launch_target (program_name inner) inner = LaunchInner ws \<Longrightarrow> launches words (unwrap_wrappers ws)"

text \<open>The programs that may be run, and what is asked of those that can do more than look.\<close>

definition routine_programs :: "ustr list" where
  "routine_programs = map lit [''find'', ''git'', ''gh'', ''kubectl'', ''npm'', ''pnpm'', ''yarn'', ''uv'', ''rustup''] @
     filter (\<lambda>p. 32 \<notin> set p) ROUTINE_PREFIXES"

definition safe_subcommands :: "ustr \<Rightarrow> ustr list" where
  "safe_subcommands prog =
     (if prog \<in> set NODE_MANAGERS then NPM_SAFE_SUBCOMMANDS
      else if prog = lit ''uv'' then UV_SAFE_SUBCOMMANDS
      else if prog = lit ''rustup'' then RUSTUP_SAFE_SUBCOMMANDS
      else [])"

definition manager_use_is_routine :: "ustr \<Rightarrow> ustr list \<Rightarrow> bool" where
  "manager_use_is_routine prog inner \<longleftrightarrow>
     \<not> is_remote_launcher prog inner \<and>
     (case explicit_launch_target prog inner of
        LaunchUnresolved \<Rightarrow> False
      | LaunchInner ws \<Rightarrow> command_env_risk ws = EnvSafe \<and> \<not> launched_writes_nonsink ws
      | NotLauncher \<Rightarrow> (\<exists>sub \<in> set (safe_subcommands prog). launcher_subcommand prog inner = Some sub))"

text \<open>The text of a command, its words joined by spaces and in lower case, begins with the words of a listed one.\<close>

definition listed :: "ustr list \<Rightarrow> bool" where
  "listed inner \<longleftrightarrow>
     (\<exists>p \<in> set ROUTINE_PREFIXES.
        take (length (split_char 32 p)) (split_char 32 (map ascii_lower (join [32] inner))) = split_char 32 p)"

definition use_is_routine :: "ustr list \<Rightarrow> bool" where
  "use_is_routine inner \<longleftrightarrow>
     (let prog = program_name inner in
      if prog \<in> set PACKAGE_MANAGERS then manager_use_is_routine prog inner
      else if prog = lit ''find''
      then set inner \<inter> set (map lit
          [''-delete'', ''-exec'', ''-execdir'', ''-ok'', ''-okdir'', ''-fprint'', ''-fprint0'', ''-fprintf'', ''-fls'']) = {}
      else if prog = lit ''git'' then git_words_are_routine inner
      else if prog = lit ''gh'' then gh_subcommand_is_read_only inner
      else listed inner \<and> (32 \<notin> set (hd inner) \<longrightarrow> prog \<in> set routine_programs) \<and>
        (prog = lit ''tree'' \<longrightarrow>
           (\<forall>w \<in> set inner. \<not> starts_with w (lit ''--output'') \<and>
              (starts_with w [DASH] \<and> 111 \<in> set w \<longrightarrow> starts_with w (lit ''--'')))) \<and>
        (normalized_command_head inner = Some (lit ''rg'') \<longrightarrow> (\<forall>w \<in> set (tl inner). flag_part w \<notin> set RG_UNSAFE_FLAGS)) \<and>
        (prog = lit ''kubectl'' \<longrightarrow> (\<forall>w \<in> set (tl inner). flag_part w \<notin> set KUBECTL_UNSAFE_FLAGS)))"

lemma split_char_append_all: "split_char c (s @ c # t) = split_char c s @ split_char c t"
proof (induction s)
  case (Cons x s)
  then show ?case by (cases "split_char c s") (auto split: list.splits)
qed simp

lemma prefix_listed:
  assumes "list_ex (matches_command_prefix (map ascii_lower (join [32] inner))) ROUTINE_PREFIXES"
  shows "listed inner"
proof -
  let ?t = "map ascii_lower (join [32] inner)"
  obtain p where p: "p \<in> set ROUTINE_PREFIXES" "matches_command_prefix ?t p" using assms by (auto simp: list_ex_iff)
  then obtain r where r: "?t = p @ r" "r = [] \<or> r ! 0 = 32"
    by (auto simp: matches_command_prefix_def starts_with_iff nth_append)
  then consider "?t = p" | u where "?t = p @ 32 # u" by (cases r) auto
  then have "take (length (split_char 32 p)) (split_char 32 ?t) = split_char 32 p"
    by cases (simp_all add: split_char_append_all)
  with p(1) show ?thesis unfolding listed_def by blast
qed

lemma ascii_lower_space [simp]: "ascii_lower c = 32 \<longleftrightarrow> c = 32"
  by (auto simp: ascii_lower_def)

lemma ascii_lower_slash [simp]: "ascii_lower c = 47 \<longleftrightarrow> c = 47"
  by (auto simp: ascii_lower_def)

lemma ascii_lower_backslash [simp]: "ascii_lower c = BSL \<longleftrightarrow> c = BSL"
  by (auto simp: ascii_lower_def)

lemma first_word_of_prefix:
  "matches_command_prefix cmd p \<Longrightarrow> takeWhile (\<lambda>c. c \<noteq> 32) cmd = takeWhile (\<lambda>c. c \<noteq> 32) p"
  by (auto simp: matches_command_prefix_def starts_with_iff takeWhile_append nth_append neq_Nil_conv
      takeWhile_eq_all_conv[THEN iffD2])

lemma first_word_of_join:
  assumes "ws \<noteq> []" "32 \<notin> set (hd ws)"
  shows "takeWhile (\<lambda>c. c \<noteq> 32) (map ascii_lower (join [32] ws)) = map ascii_lower (hd ws)"
proof -
  have tw: "takeWhile (\<lambda>c. c \<noteq> 32) (map ascii_lower w @ r) = map ascii_lower w @ takeWhile (\<lambda>c. c \<noteq> 32) r"
    if "32 \<notin> set w" for w r
  proof (rule takeWhile_append2)
    fix c assume "c \<in> set (map ascii_lower w)"
    then obtain x where "c = ascii_lower x" "x \<in> set w" by auto
    with that show "c \<noteq> 32" by (metis ascii_lower_space)
  qed
  show ?thesis
  proof (cases ws)
    case (Cons w us)
    with assms tw[of w] tw[of w "[]"] show ?thesis by (cases us) auto
  qed (use assms in simp)
qed

lemma routine_prefix_heads:
  "p \<in> set ROUTINE_PREFIXES \<Longrightarrow>
   takeWhile (\<lambda>c. c \<noteq> 32) p \<in> set routine_programs \<and> 47 \<notin> set (takeWhile (\<lambda>c. c \<noteq> 32) p) \<and>
   BSL \<notin> set (takeWhile (\<lambda>c. c \<noteq> 32) p)"
proof -
  have "list_all (\<lambda>p. takeWhile (\<lambda>c. c \<noteq> 32) p \<in> set routine_programs \<and>
          47 \<notin> set (takeWhile (\<lambda>c. c \<noteq> 32) p) \<and> BSL \<notin> set (takeWhile (\<lambda>c. c \<noteq> 32) p)) ROUTINE_PREFIXES"
    by code_simp
  then show "p \<in> set ROUTINE_PREFIXES \<Longrightarrow> ?thesis" by (simp add: list_all_iff)
qed

lemma last_segment_plain: "47 \<notin> set w \<Longrightarrow> BSL \<notin> set w \<Longrightarrow> last_segment w = w"
  unfolding last_segment_def by (subst takeWhile_eq_all_conv[THEN iffD2]) auto

lemma prefix_is_program:
  assumes "inner \<noteq> []" "32 \<notin> set (hd inner)"
    and "list_ex (matches_command_prefix (map ascii_lower (join [32] inner))) ROUTINE_PREFIXES"
  shows "program_name inner \<in> set routine_programs"
proof -
  from assms(3) obtain p where p: "p \<in> set ROUTINE_PREFIXES"
    "matches_command_prefix (map ascii_lower (join [32] inner)) p" by (auto simp: list_ex_iff)
  have h: "map ascii_lower (hd inner) = takeWhile (\<lambda>c. c \<noteq> 32) p"
    using first_word_of_join[OF assms(1,2)] first_word_of_prefix[OF p(2)] by simp
  have "47 \<notin> set (map ascii_lower (hd inner))" "BSL \<notin> set (map ascii_lower (hd inner))"
    unfolding h using routine_prefix_heads[OF p(1)] by blast+
  then have "last_segment (hd inner) = hd inner"
    by (intro last_segment_plain) (metis image_eqI list.set_map ascii_lower_slash ascii_lower_backslash)+
  with h routine_prefix_heads[OF p(1)] show ?thesis by (simp add: program_name_def)
qed

lemma plain_use:
  assumes "plain_command_is_routine (program_name inner) inner" "inner \<noteq> []" "program_name inner \<notin> set PACKAGE_MANAGERS"
  shows "use_is_routine inner"
proof -
  let ?h = "program_name inner"
  consider (find) "?h = lit ''find''" "find_is_read_only inner" | (git) "?h = lit ''git''" "git_words_are_routine inner"
    | (gh) "?h = lit ''gh''" "gh_subcommand_is_read_only inner"
    | (other) "?h \<noteq> lit ''find''" "?h \<noteq> lit ''git''" "?h \<noteq> lit ''gh''"
      "\<not> (?h = lit ''tree'' \<and> list_ex (\<lambda>w. (starts_with w [DASH] \<and> \<not> starts_with w (lit ''--'') \<and> 111 \<in> set w) \<or>
          starts_with w (lit ''--output'')) inner)"
      "\<not> rg_has_unsafe_flag inner" "\<not> (?h = lit ''kubectl'' \<and> list_ex (\<lambda>w. flag_part w \<in> set KUBECTL_UNSAFE_FLAGS) (drop 1 inner))"
      "list_ex (matches_command_prefix (map ascii_lower (join [32] inner))) ROUTINE_PREFIXES"
    using assms(1) unfolding plain_command_is_routine_def by (auto split: if_splits)
  then show ?thesis
  proof cases
    case other
    have "32 \<notin> set (hd inner) \<longrightarrow> ?h \<in> set routine_programs" using prefix_is_program[OF assms(2) _ other(7)] by blast
    with other prefix_listed[OF other(7)] assms(3) show ?thesis
      unfolding use_is_routine_def Let_def
      by (auto simp: list_ex_iff rg_has_unsafe_flag_def drop_Suc split: if_splits)
  qed (use assms(3) in \<open>auto simp: use_is_routine_def Let_def find_is_read_only_def list_ex_iff lit_inject\<close>)
qed

lemma lone_wrapper_launches_nothing: "is_lone_wrapper inner \<Longrightarrow> explicit_launch_target prog inner \<noteq> LaunchInner ws"
  by (auto simp: is_lone_wrapper_def explicit_launch_target_def launcher_subcommand_def word_at_def)

text \<open>A routine command, seen from behind its wrappers.\<close>

lemma routine_command:
  assumes "bash_command_is_routine words" "unwrap_wrappers words = inner" "inner \<noteq> []" "\<not> is_lone_wrapper inner"
  shows "if program_name inner \<in> set PACKAGE_MANAGERS
         then manager_use_is_routine (program_name inner) inner \<and>
              (\<forall>ws. explicit_launch_target (program_name inner) inner = LaunchInner ws \<longrightarrow> bash_command_is_routine ws)
         else plain_command_is_routine (program_name inner) inner"
proof -
  let ?h = "program_name inner"
  have r: "case package_manager_subcommand_is_routine ?h inner of
          Launches ws \<Rightarrow> command_env_risk ws = EnvSafe \<and> \<not> launched_writes_nonsink ws \<and> bash_command_is_routine ws
        | Settled routine \<Rightarrow> routine
        | NotManager \<Rightarrow> plain_command_is_routine ?h inner"
    using assms by (subst (asm) bash_command_is_routine.simps) (simp add: Let_def)
  show ?thesis
  proof (cases "?h \<in> set PACKAGE_MANAGERS")
    case False
    with r show ?thesis by (simp add: package_manager_subcommand_is_routine_def)
  next
    case True
    have nr: "\<not> is_remote_launcher ?h inner"
    proof
      assume "is_remote_launcher ?h inner"
      with r True show False by (simp add: package_manager_subcommand_is_routine_def)
    qed
    show ?thesis
    proof (cases "explicit_launch_target ?h inner")
      case NotLauncher
      have "\<exists>sub \<in> set (safe_subcommands ?h). launcher_subcommand ?h inner = Some sub"
      proof (cases "launcher_subcommand ?h inner")
        case None
        with r True nr NotLauncher show ?thesis by (simp add: package_manager_subcommand_is_routine_def)
      next
        case (Some sub)
        with r True nr NotLauncher have "sub \<in> set (safe_subcommands ?h)"
          unfolding package_manager_subcommand_is_routine_def safe_subcommands_def by (simp split: if_splits)
        with Some show ?thesis by simp
      qed
      with True nr NotLauncher show ?thesis by (simp add: manager_use_is_routine_def)
    next
      case (LaunchInner ws)
      with r True nr show ?thesis by (simp add: package_manager_subcommand_is_routine_def manager_use_is_routine_def)
    next
      case LaunchUnresolved
      with r True nr show ?thesis by (simp add: package_manager_subcommand_is_routine_def)
    qed
  qed
qed

lemma launched_are_routine:
  "launches words inner \<Longrightarrow> bash_command_is_routine words \<Longrightarrow>
   \<exists>ws. inner = unwrap_wrappers ws \<and> bash_command_is_routine ws"
proof (induction rule: launches.induct)
  case (launched words inner ws)
  then obtain us where us: "inner = unwrap_wrappers us" "bash_command_is_routine us" by blast
  have "\<not> is_lone_wrapper inner" using lone_wrapper_launches_nothing launched.hyps(4) by blast
  with routine_command[OF us(2) us(1)[symmetric]] launched.hyps(2-4) show ?case by auto
qed blast

lemma routine_use:
  assumes "bash_command_is_routine words" "unwrap_wrappers words = inner" "inner \<noteq> []" "\<not> is_lone_wrapper inner"
  shows "use_is_routine inner"
  using routine_command[OF assms] plain_use[OF _ assms(3)] by (auto simp: use_is_routine_def Let_def split: if_splits)


text \<open>A script of one word.\<close>

definition ls_tree :: node where
  "ls_tree = Node (lit ''program'') None True 0 2 False [word_command 0 2]"

definition ls_parse :: "ustr \<Rightarrow> node option" where
  "ls_parse s = (if s = lit ''ls'' then Some ls_tree else None)"

definition ls_segment :: plain_command where
  "ls_segment = \<lparr>pl_words = [lit ''ls''], pl_span_start = 0, pl_span_end = 2\<rparr>"

lemma ls_commands: "try_parse_word_only_commands_sequence ls_tree (lit ''ls'') = Some [ls_segment]"
  by (simp add: ls_tree_def ls_segment_def tree_eval)

lemma ls_writes_nothing: "command_write_paths_in_tree ls_tree (lit ''ls'') = []"
proof -
  have t: "utf8_text (lit ''ls'') (leaf ''word'' True 0 2) = Some (lit ''ls'')" by (simp add: tree_eval)
  have plain: "BSL \<notin> set (lit ''ls'')" by (simp add: lit_def)
  have "map (\<lambda>i. literal_words (si_words i)) (shell_command_invocations ls_tree (lit ''ls'')) = [[lit ''ls'']]"
    using t plain
    by (simp add: shell_command_invocations_def visited_def ls_tree_def word_command_def leaf_def located_children_def
        invocation_of_def invocation_words_def invocation_operand_def shell_node_arg_def literal_or_ambiguous_def
        decode_unquoted_word_def lit_inject Let_def List.map_filter_def)
  moreover have "shell_redirect_targets ls_tree (lit ''ls'') = []"
    by (simp add: shell_redirect_targets_def visited_def ls_tree_def word_command_def leaf_def located_children_def
        redirect_target_of_def lit_inject List.map_filter_def)
  moreover have "command_words_write_paths [lit ''ls''] = []" by code_simp
  ultimately show ?thesis
    by (simp add: command_write_paths_in_tree_def command_write_paths_split_def Let_def List.map_filter_def)
qed

lemma ls_is_routine: "classify_bash ls_parse (lit ''ls'') = VAllow"
proof -
  have "script_env_risk ls_tree (lit ''ls'') [ls_segment] = EnvSafe" by code_simp
  moreover have "bash_command_is_routine [lit ''ls'']" by code_simp
  ultimately show ?thesis
    by (simp add: classify_bash_def ls_parse_def ls_commands ls_writes_nothing) (simp add: ls_segment_def)
qed


text \<open>
  The words are joined by spaces before they are compared with the list, so a program whose name holds a space is
  taken for the command its name begins with.
\<close>

lemma spaced_program_is_routine: "bash_command_is_routine [lit ''ls x/run'']"
  by code_simp

text \<open>
  \<open>find\<close>, \<open>gh\<close> and the package managers are told by the last part of the path, so a program of that name in
  any directory is taken for them.
\<close>

lemma local_program_is_routine: "bash_command_is_routine [lit ''./find'']"
  by code_simp

end
