(* ===== verification/Gate_Preflight.thy ===== *)
theory Gate_Preflight
  imports Shell_Access
begin

text \<open>
  The managed policy on one request (\<open>crates/codegen/xai-grok-workspace/src/permission/gate_preflight.rs\<close>): the
  rules, the command gate and the file gate are evaluated once, and it is kept why each of them asks.
\<close>

record gate_preflight =
  pf_direct :: "decision option"
  pf_bash_command :: "gate_decision option"
  pf_shell_file :: "gate_decision option"
  pf_native_symlink_fail_closed :: bool
  pf_defers_gate_ask :: bool

definition preflight_evaluate ::
  "'g policy_env \<Rightarrow> 'g compiled_policy option \<Rightarrow> 'j access_kind \<Rightarrow> ustr \<Rightarrow> bool \<Rightarrow> gate_preflight"
where
  "preflight_evaluate env policy access cwd auto_mode =
     (let (direct, native_symlink_fail_closed) =
            (case policy of
               Some pol \<Rightarrow> evaluate_with_cwd_details env pol access (Some cwd)
             | None \<Rightarrow> (None, False));
          (bash_command, shell_file) =
            (case (policy, access) of
               (Some pol, AccBash cmd) \<Rightarrow>
                 (evaluate_bash_command_gate env pol cmd, evaluate_shell_file_access_gate env pol cmd cwd)
             | _ \<Rightarrow> (None, None));
          rule_match_ask = (direct = Some Ask \<or> bash_command = Some AskRuleMatch \<or> shell_file = Some AskRuleMatch);
          fail_closed_ask = (bash_command = Some AskFailClosed \<or> shell_file = Some AskFailClosed)
      in \<lparr>pf_direct = direct, pf_bash_command = bash_command, pf_shell_file = shell_file,
          pf_native_symlink_fail_closed = native_symlink_fail_closed,
          pf_defers_gate_ask = auto_mode \<and> fail_closed_ask \<and> \<not> rule_match_ask\<rparr>)"

definition policy_decision :: "gate_preflight \<Rightarrow> decision option" where
  "policy_decision p =
     combine_decisions (combine_decisions (pf_direct p) (map_option into_decision (pf_bash_command p)))
       (map_option into_decision (pf_shell_file p))"

definition policy_forced_prompt :: "gate_preflight \<Rightarrow> bool" where
  "policy_forced_prompt p \<longleftrightarrow> policy_decision p = Some Ask"

definition gate_asks :: "gate_decision option \<Rightarrow> bool" where
  "gate_asks g = (case g of Some d \<Rightarrow> is_ask d | None \<Rightarrow> False)"

definition shell_file_forced_prompt :: "gate_preflight \<Rightarrow> bool" where
  "shell_file_forced_prompt p = gate_asks (pf_shell_file p)"

definition shell_forced_prompt :: "gate_preflight \<Rightarrow> bool" where
  "shell_forced_prompt p \<longleftrightarrow>
     gate_asks (pf_bash_command p) \<or> shell_file_forced_prompt p \<or> pf_native_symlink_fail_closed p"

definition admits_auto_classifier :: "gate_preflight \<Rightarrow> bool" where
  "admits_auto_classifier p \<longleftrightarrow> \<not> policy_forced_prompt p \<or> pf_defers_gate_ask p"

definition POLICY_ASK :: ustr where "POLICY_ASK = lit ''policy_ask''"
definition BASH_COMMAND_GATE_ASK :: ustr where "BASH_COMMAND_GATE_ASK = lit ''bash_command_gate_ask''"
definition SHELL_FILE_GATE_ASK :: ustr where "SHELL_FILE_GATE_ASK = lit ''shell_file_gate_ask''"

definition prompt_trigger :: "gate_preflight \<Rightarrow> ustr option \<Rightarrow> ustr option" where
  "prompt_trigger p auto_prompt_reason =
     (if pf_direct p = Some Ask then Some POLICY_ASK
      else if pf_defers_gate_ask p then auto_prompt_reason
      else if gate_asks (pf_bash_command p) then Some BASH_COMMAND_GATE_ASK
      else if shell_file_forced_prompt p then Some SHELL_FILE_GATE_ASK
      else auto_prompt_reason)"

section \<open>What the three parts amount to\<close>

text \<open>The decisions that rules and gates can come to.\<close>

definition from_rules :: "decision option \<Rightarrow> bool" where
  "from_rules d \<longleftrightarrow> d \<in> {None, Some Allow, Some Ask} \<or> (\<exists>r. d = Some (Reject r))"

lemma rule_loop_rejects: "rule_loop env access cwd rules asked allowed = Inl d \<Longrightarrow> \<exists>r. d = Reject r"
  by (induction env access cwd rules asked allowed rule: rule_loop.induct) (auto split: if_splits rule_action.splits)

lemma lexical_from_rules: "from_rules (evaluate_lexical_with_cwd env pol access cwd)"
  by (auto simp: from_rules_def evaluate_lexical_with_cwd_def dest: rule_loop_rejects
      split: sum.splits access_kind.splits)

lemma combine_from_rules:
  assumes "from_rules a" "from_rules b"
  shows "from_rules (combine_decisions a b)"
    and "(\<exists>r. combine_decisions a b = Some (Reject r)) \<longleftrightarrow> (\<exists>r. a = Some (Reject r)) \<or> (\<exists>r. b = Some (Reject r))"
    and "combine_decisions a b = Some Ask \<longleftrightarrow>
      (a = Some Ask \<or> b = Some Ask) \<and> \<not> ((\<exists>r. a = Some (Reject r)) \<or> (\<exists>r. b = Some (Reject r)))"
    and "combine_decisions a b = Some Allow \<longleftrightarrow>
      (a = Some Allow \<or> b = Some Allow) \<and> a \<in> {None, Some Allow} \<and> b \<in> {None, Some Allow}"
  using assms by (auto simp: from_rules_def combine_decisions_def decision_rank_def)

lemma gate_from_rules: "from_rules (map_option into_decision g)"
  "map_option into_decision g = Some (Reject r) \<longleftrightarrow> g = Some (GReject r)"
  "map_option into_decision g = Some Ask \<longleftrightarrow> gate_asks g"
  "map_option into_decision g \<noteq> Some Allow"
  "gate_asks g \<longleftrightarrow> g = Some AskRuleMatch \<or> g = Some AskFailClosed"
  by (cases g; auto simp: from_rules_def into_decision_def gate_asks_def is_ask_def split: gate_decision.splits)+

lemma combine_None_iff: "combine_decisions a b = None \<longleftrightarrow> a = None \<and> b = None"
  by (cases a; cases b) (simp_all add: combine_decisions_def)

lemma into_not_allow: "into_decision z \<noteq> Allow"
  by (cases z) (simp_all add: into_decision_def)

lemma details_from_rules: "from_rules (evaluate_with_cwd env pol access cwd)"
proof -
  have "from_rules (Some Ask)" "from_rules None" by (simp_all add: from_rules_def)
  moreover have "from_rules (case d of Reject r \<Rightarrow> Some (Reject r) | Ask \<Rightarrow> Some Ask | _ \<Rightarrow> None)" for d
    by (cases d) (simp_all add: from_rules_def)
  ultimately show ?thesis
    using lexical_from_rules[of env pol access cwd]
    by (auto simp: evaluate_with_cwd_def evaluate_with_cwd_details_def Let_def
        intro!: combine_from_rules(1) split: option.splits symlink_follow.splits)
qed

lemma policy_parts:
  fixes direct :: "decision option" and command files :: "gate_decision option"
  assumes "from_rules direct"
  defines "d \<equiv> combine_decisions (combine_decisions direct (map_option into_decision command)) (map_option into_decision files)"
  shows "(\<exists>r. d = Some (Reject r)) \<longleftrightarrow>
       (\<exists>r. direct = Some (Reject r)) \<or> (\<exists>r. command = Some (GReject r)) \<or> (\<exists>r. files = Some (GReject r))"
    "d = Some Ask \<longleftrightarrow> (direct = Some Ask \<or> gate_asks command \<or> gate_asks files) \<and>
       \<not> ((\<exists>r. direct = Some (Reject r)) \<or> (\<exists>r. command = Some (GReject r)) \<or> (\<exists>r. files = Some (GReject r)))"
    "d = Some Allow \<longleftrightarrow> direct = Some Allow \<and> command = None \<and> files = None"
    "from_rules d"
proof -
  note inner = combine_from_rules[OF assms(1) gate_from_rules(1)[of command]]
  note outer = combine_from_rules[OF inner(1) gate_from_rules(1)[of files]]
  show "(\<exists>r. d = Some (Reject r)) \<longleftrightarrow>
       (\<exists>r. direct = Some (Reject r)) \<or> (\<exists>r. command = Some (GReject r)) \<or> (\<exists>r. files = Some (GReject r))"
    "d = Some Ask \<longleftrightarrow> (direct = Some Ask \<or> gate_asks command \<or> gate_asks files) \<and>
       \<not> ((\<exists>r. direct = Some (Reject r)) \<or> (\<exists>r. command = Some (GReject r)) \<or> (\<exists>r. files = Some (GReject r)))"
    "d = Some Allow \<longleftrightarrow> direct = Some Allow \<and> command = None \<and> files = None"
    unfolding d_def outer(2-4) inner(2-4) gate_from_rules(2,3) by (auto simp: combine_None_iff into_not_allow inner(4))
  show "from_rules d" unfolding d_def by (rule outer(1))
qed

lemma preflight_direct_from_rules: "from_rules (pf_direct (preflight_evaluate env policy access cwd auto))"
proof (cases policy)
  case None
  then show ?thesis by (simp add: preflight_evaluate_def from_rules_def Let_def)
next
  case (Some pol)
  then have "pf_direct (preflight_evaluate env policy access cwd auto) = evaluate_with_cwd env pol access (Some cwd)"
    by (simp add: preflight_evaluate_def evaluate_with_cwd_def Let_def case_prod_unfold)
  then show ?thesis by (simp add: details_from_rules)
qed

lemma preflight_policy:
  fixes env :: "'g policy_env" and policy :: "'g compiled_policy option" and access :: "'j access_kind" and cwd :: ustr and auto :: bool
  defines "p \<equiv> preflight_evaluate env policy access cwd auto"
  shows "from_rules (policy_decision p)"
    "(\<exists>r. policy_decision p = Some (Reject r)) \<longleftrightarrow>
       (\<exists>r. pf_direct p = Some (Reject r)) \<or> (\<exists>r. pf_bash_command p = Some (GReject r)) \<or> (\<exists>r. pf_shell_file p = Some (GReject r))"
  unfolding policy_decision_def p_def by (rule policy_parts[OF preflight_direct_from_rules])+

text \<open>The three parts for a script, with the decision of the file tools for every other access.\<close>

lemma preflight_parts:
  "preflight_evaluate env (Some pol) (AccBash cmd :: 'j access_kind) cwd auto =
     (let direct = evaluate_with_cwd env pol (AccBash cmd :: 'j access_kind) (Some cwd);
          command = evaluate_bash_command_gate env pol cmd;
          file = evaluate_shell_file_access_gate env pol cmd cwd
      in \<lparr>pf_direct = direct, pf_bash_command = command, pf_shell_file = file, pf_native_symlink_fail_closed = False,
          pf_defers_gate_ask = auto \<and> (command = Some AskFailClosed \<or> file = Some AskFailClosed) \<and>
            \<not> (direct = Some Ask \<or> command = Some AskRuleMatch \<or> file = Some AskRuleMatch)\<rparr>)"
  by (simp add: preflight_evaluate_def evaluate_with_cwd_def evaluate_with_cwd_details_def native_file_path_def Let_def)

text \<open>
  For a script the managed policy denies when the rules on its text, the gate on its commands or the gate on
  its files deny; it allows only when the rules allow and neither gate has anything to say; otherwise it asks when
  any of them asks. What asks because a rule matched is never left to the classifier of the automatic mode, and
  outside that mode nothing that asks is; and when the prompt is shown for a gate, the reason names one that asks.
\<close>

lemma preflight_decides:
  fixes env :: "'g policy_env" and pol :: "'g compiled_policy" and cmd cwd :: ustr and auto :: bool and why :: "ustr option"
  defines "direct \<equiv> evaluate_with_cwd env pol (AccBash cmd :: 'j access_kind) (Some cwd)"
    and "command \<equiv> evaluate_bash_command_gate env pol cmd"
    and "files \<equiv> evaluate_shell_file_access_gate env pol cmd cwd"
    and "p \<equiv> preflight_evaluate env (Some pol) (AccBash cmd :: 'j access_kind) cwd auto"
  shows "((\<exists>r. policy_decision p = Some (Reject r)) \<longleftrightarrow>
       (\<exists>r. direct = Some (Reject r)) \<or> (\<exists>r. command = Some (GReject r)) \<or> (\<exists>r. files = Some (GReject r))) \<and>
    (policy_decision p = Some Allow \<longleftrightarrow> direct = Some Allow \<and> command = None \<and> files = None) \<and>
    (policy_forced_prompt p \<longleftrightarrow>
       (direct = Some Ask \<or> gate_asks command \<or> gate_asks files) \<and>
       \<not> ((\<exists>r. direct = Some (Reject r)) \<or> (\<exists>r. command = Some (GReject r)) \<or> (\<exists>r. files = Some (GReject r)))) \<and>
    (policy_forced_prompt p \<and> admits_auto_classifier p \<longrightarrow>
       auto \<and> direct \<noteq> Some Ask \<and> command \<noteq> Some AskRuleMatch \<and> files \<noteq> Some AskRuleMatch) \<and>
    (policy_forced_prompt p \<and> \<not> admits_auto_classifier p \<longrightarrow>
       prompt_trigger p why = Some POLICY_ASK \<and> direct = Some Ask \<or>
       prompt_trigger p why = Some BASH_COMMAND_GATE_ASK \<and> gate_asks command \<or>
       prompt_trigger p why = Some SHELL_FILE_GATE_ASK \<and> gate_asks files)"
proof -
  let ?c = "map_option into_decision command" and ?f = "map_option into_decision files"
  have p: "policy_decision p = combine_decisions (combine_decisions direct ?c) ?f"
    by (simp add: p_def preflight_parts policy_decision_def Let_def direct_def command_def files_def)
  have d: "from_rules direct" unfolding direct_def by (rule details_from_rules)
  note parts = policy_parts[OF d, of command files, folded p]
  have defers: "pf_defers_gate_ask p \<longleftrightarrow> auto \<and> (command = Some AskFailClosed \<or> files = Some AskFailClosed) \<and>
      \<not> (direct = Some Ask \<or> command = Some AskRuleMatch \<or> files = Some AskRuleMatch)"
    and sel: "pf_direct p = direct" "pf_bash_command p = command" "pf_shell_file p = files"
    by (simp_all add: p_def preflight_parts direct_def command_def files_def Let_def)
  have trigger: "prompt_trigger p why =
      (if direct = Some Ask then Some POLICY_ASK else if gate_asks command then Some BASH_COMMAND_GATE_ASK
       else if gate_asks files then Some SHELL_FILE_GATE_ASK else why)" if "\<not> pf_defers_gate_ask p"
    using that by (simp add: prompt_trigger_def sel shell_file_forced_prompt_def)
  have forced: "policy_forced_prompt p \<and> \<not> admits_auto_classifier p \<longrightarrow>
       prompt_trigger p why = Some POLICY_ASK \<and> direct = Some Ask \<or>
       prompt_trigger p why = Some BASH_COMMAND_GATE_ASK \<and> gate_asks command \<or>
       prompt_trigger p why = Some SHELL_FILE_GATE_ASK \<and> gate_asks files"
    using parts(2) by (simp add: admits_auto_classifier_def policy_forced_prompt_def trigger)
  have "policy_forced_prompt p \<and> admits_auto_classifier p \<longrightarrow>
       auto \<and> direct \<noteq> Some Ask \<and> command \<noteq> Some AskRuleMatch \<and> files \<noteq> Some AskRuleMatch"
    by (simp add: admits_auto_classifier_def defers)
  with parts forced show ?thesis unfolding policy_forced_prompt_def by (intro conjI)
qed

lemma preflight_decides_witness:
  "policy_decision (preflight_evaluate demo_env (Some (demo_policy deny_second)) (AccBash (lit ''x'') :: unit access_kind) (lit ''/w'') True) =
     Some Ask \<and>
   evaluate_bash_command_gate demo_env (demo_policy deny_second) (lit ''x'') \<noteq> Some AskRuleMatch"
proof -
  let ?pol = "demo_policy deny_second" and ?x = "lit ''x''"
  let ?p = "preflight_evaluate demo_env (Some ?pol) (AccBash ?x :: unit access_kind) (lit ''/w'') True"
  have parse: "pe_parse demo_env ?x = None" by (simp add: demo_env_def and_parse_def lit_inject)
  have flags: "cp_has_bash_command_restrictions ?pol" "\<not> cp_has_file_restrictions ?pol"
    by (simp_all add: demo_policy_def compiled_policy_new_def permission_config_new_def deny_second_def demo_rule_def restricts_def)
  have "evaluate_bash_command_segments demo_env ?pol n ?x = Some AskFailClosed" for n
    by (cases n) (simp_all add: gate_segments_def all_commands_from_script_def parse)
  then have command: "evaluate_bash_command_gate demo_env ?pol ?x = Some AskFailClosed"
    using flags(1) by (simp add: evaluate_bash_command_gate_def)
  have files: "evaluate_shell_file_access_gate demo_env ?pol ?x (lit ''/w'') = None"
    using flags(2) by (simp add: evaluate_shell_file_access_gate_def)
  have "\<not> bash_chain_fully_allowed demo_env ?pol scope n ?x" for scope n
    by (cases n) (simp_all add: chain_allowed_def all_commands_from_script_def parse)
  then have direct: "evaluate_with_cwd demo_env ?pol (AccBash ?x :: unit access_kind) (Some (lit ''/w'')) = None"
    unfolding evaluate_with_cwd_def evaluate_with_cwd_details_def evaluate_lexical_with_cwd_def demo_policy_def zip_compiled
    by (simp add: permission_config_new_def deny_second_def demo_rule_def rule_reaches_def tool_filter_matches_def
        pattern_matches_def native_file_path_def lit_inject)
      (simp add: lit_def starts_with_def glob_matches_def compile_matcher_def demo_env_def str_eval)
  have "policy_forced_prompt ?p" "admits_auto_classifier ?p"
    by (simp_all add: policy_forced_prompt_def admits_auto_classifier_def policy_decision_def preflight_parts Let_def
        command files direct combine_decisions_def into_decision_def)
  with preflight_decides[of demo_env ?pol ?x "lit ''/w''" True None, where 'j = unit] show ?thesis
    by (simp add: policy_forced_prompt_def)
qed

end
