(* ===== verification/Perm_Manager.thy ===== *)
theory Perm_Manager
  imports Auto_Classifier Gate_Preflight
begin

text \<open>
  The permission manager (\<open>crates/codegen/xai-grok-workspace/src/permission/manager/mod.rs\<close> and
  \<open>manager/request_classification.rs\<close>): one actor owns the modes, the grants and the counters of a session and answers
  every request for permission in turn. The policy, the gates, the grants and the classifier of the other theories
  meet here.

  The configuration and the libraries are the record \<open>manager_config\<close>. What happens outside while a request is
  handled is the record \<open>request_world\<close>: whether the requester has gone at each of the places where the code looks, what was
  read back from disk, whether the scan of the checkouts could be run, whether the sandbox vouches for commands, and
  what the user answers. The requests are handled one after the other, as the actor does.
\<close>

section \<open>Reasons\<close>

definition YOLO :: ustr where "YOLO = lit ''yolo''"
definition POLICY_ALLOW :: ustr where "POLICY_ALLOW = lit ''policy_allow''"
definition POLICY_DENY :: ustr where "POLICY_DENY = lit ''policy_deny''"
definition AUTO_FAST_PATH :: ustr where "AUTO_FAST_PATH = lit ''auto_fast_path''"
definition AUTO_CLASSIFIER_ALLOW :: ustr where "AUTO_CLASSIFIER_ALLOW = lit ''auto_classifier_allow''"
definition AUTO_CLASSIFIER_DENY :: ustr where "AUTO_CLASSIFIER_DENY = lit ''auto_classifier_deny''"
definition AUTO_CLASSIFIER_TIMEOUT :: ustr where "AUTO_CLASSIFIER_TIMEOUT = lit ''auto_classifier_timeout''"
definition AUTO_CLASSIFIER_UNAVAILABLE :: ustr where
  "AUTO_CLASSIFIER_UNAVAILABLE = lit ''auto_classifier_unavailable''"
definition AUTO_DENIAL_LIMIT :: ustr where "AUTO_DENIAL_LIMIT = lit ''auto_denial_limit''"
definition SANDBOX_AUTO :: ustr where "SANDBOX_AUTO = lit ''sandbox_auto''"
definition PERSISTED_GRANT :: ustr where "PERSISTED_GRANT = lit ''persisted_grant''"
definition PROMPT_DENY :: ustr where "PROMPT_DENY = lit ''prompt_deny''"
definition PROMPT_ALLOW :: ustr where "PROMPT_ALLOW = lit ''prompt_allow''"
definition NEEDS_USER :: ustr where "NEEDS_USER = lit ''needs_user''"
definition BASH_REQUEST_FLOOR :: ustr where "BASH_REQUEST_FLOOR = lit ''bash_request_floor''"
definition OPAQUE_SHELL :: ustr where "OPAQUE_SHELL = lit ''opaque_shell''"
definition HOOK_ASK :: ustr where "HOOK_ASK = lit ''hook_ask''"
definition REQUESTER_GONE :: ustr where "REQUESTER_GONE = lit ''requester_gone''"

section \<open>Classification of a request\<close>

definition AUTO_DENY_CONSECUTIVE_LIMIT :: nat where "AUTO_DENY_CONSECUTIVE_LIMIT = 3"
definition AUTO_DENY_TOTAL_LIMIT :: nat where "AUTO_DENY_TOTAL_LIMIT = 20"

definition AUTO_DENY_GUIDANCE :: ustr where
  "AUTO_DENY_GUIDANCE =
     lit ''Take a safer approach that stays within what the user asked for; do not retry this exact action or attempt to work around the denial. If no safer alternative exists, ask the user how to proceed.''"

datatype classification_source = ByClassifier classifier_source | SrcNotWired

definition classification_source_kind :: "classification_source \<Rightarrow> classifier_source_kind" where
  "classification_source_kind s = (case s of ByClassifier c \<Rightarrow> source_kind c | SrcNotWired \<Rightarrow> KindNotWired)"

record classification_outcome =
  cl_verdict :: classifier_verdict
  cl_source :: classification_source

datatype request_classification =
  NotClassified | ClassifiedFast | Classified assessment "classification_outcome option"

definition rc_classifier_source :: "request_classification \<Rightarrow> classifier_source_kind option" where
  "rc_classifier_source c =
     (case c of
        NotClassified \<Rightarrow> None
      | ClassifiedFast \<Rightarrow> Some KindFastPath
      | Classified _ outcome \<Rightarrow> map_option (\<lambda>o'. classification_source_kind (cl_source o')) outcome)"

definition rc_classifier_verdict :: "request_classification \<Rightarrow> classifier_verdict option" where
  "rc_classifier_verdict c = (case c of Classified _ (Some o') \<Rightarrow> Some (cl_verdict o') | _ \<Rightarrow> None)"

definition rc_security_findings_tokens :: "request_classification \<Rightarrow> ustr list option" where
  "rc_security_findings_tokens c = (case c of Classified a _ \<Rightarrow> Some (assessment_tokens a) | _ \<Rightarrow> None)"

section \<open>State\<close>

type_synonym 'j classifier =
  "ustr \<Rightarrow> 'j access_kind \<Rightarrow> ustr option \<Rightarrow> classifier_context \<Rightarrow> classifier_outcome"

record ('g, 'j) manager_config =
  mc_env :: "'g policy_env"
  mc_git_host :: git_host
  mc_home :: "ustr option"
  mc_tilde :: "ustr \<Rightarrow> ustr"
  mc_url_path :: "ustr \<Rightarrow> ustr"
  mc_input_json :: "'j \<Rightarrow> ustr option"
  mc_command_json :: "ustr \<Rightarrow> ustr"
  mc_default_classifier :: "'j classifier"
  mc_cwd :: ustr
  mc_can_prompt :: bool
  mc_policy :: "'g compiled_policy option"
  mc_prompt_policy :: prompt_policy
  mc_domains :: domain_matcher
  mc_domains_default :: bool
  mc_remember :: bool
  mc_yolo_pin :: "ustr option"

record 'j manager =
  mg_state :: permission_state
  mg_yolo :: bool
  mg_auto :: bool
  mg_classifier :: "'j classifier option"
  mg_consecutive :: nat
  mg_total :: nat
  mg_turns :: "classifier_turn list"
  mg_recorded :: "classifier_turn list"
  mg_instructions :: "ustr option"
  mg_allow_edits :: bool

definition clamp_yolo :: "bool \<Rightarrow> ustr option \<Rightarrow> bool" where
  "clamp_yolo requested yolo_pin \<longleftrightarrow> requested \<and> yolo_pin = None"

text \<open>The start of the actor, from the grants on disk; a persisted allowance of all edits is not taken over.\<close>

definition manager_start :: "('g, 'j) manager_config \<Rightarrow> bool \<Rightarrow> permission_state \<Rightarrow> 'j manager" where
  "manager_start cfg initial_yolo loaded =
     (let initial_yolo = clamp_yolo initial_yolo (mc_yolo_pin cfg) in
      \<lparr>mg_state = (if st_edit_policy loaded = EditAllow then loaded\<lparr>st_edit_policy := EditAsk\<rparr> else loaded),
       mg_yolo = initial_yolo,
       mg_auto = (\<not> initial_yolo \<and> mc_prompt_policy cfg = PromptAuto),
       mg_classifier = Some (mc_default_classifier cfg),
       mg_consecutive = 0, mg_total = 0, mg_turns = [], mg_recorded = [], mg_instructions = None,
       mg_allow_edits = False\<rparr>)"

definition set_yolo_mode :: "('g, 'j) manager_config \<Rightarrow> bool \<Rightarrow> 'j manager \<Rightarrow> 'j manager" where
  "set_yolo_mode cfg enabled m =
     (let clamped = clamp_yolo enabled (mc_yolo_pin cfg);
          m = m\<lparr>mg_yolo := clamped\<rparr>
      in if clamped then m\<lparr>mg_auto := False\<rparr> else m)"

definition set_auto_mode :: "('g, 'j) manager_config \<Rightarrow> bool \<Rightarrow> 'j manager \<Rightarrow> 'j manager" where
  "set_auto_mode cfg enabled m =
     (let m = m\<lparr>mg_auto := enabled\<rparr> in
      if enabled
      then m\<lparr>mg_yolo := False,
             mg_classifier := (case mg_classifier m of None \<Rightarrow> Some (mc_default_classifier cfg) | Some c \<Rightarrow> Some c)\<rparr>
      else m)"

definition reset_state :: "'j manager \<Rightarrow> 'j manager" where
  "reset_state m = m\<lparr>mg_state := permission_state_default, mg_allow_edits := False\<rparr>"

section \<open>Requests\<close>

record 'j permission_request =
  rq_access :: "'j access_kind"
  rq_path_context :: "request_path_context option"
  rq_hook_ask :: bool

record request_world =
  rw_gone_at_dequeue :: bool
  rw_reloaded :: "permission_state option"
  rw_scan_failed :: bool
  rw_gone_after_scan :: bool
  rw_gone_in_classify :: bool
  rw_sandbox_auto :: bool
  rw_gone_before_prompt :: bool
  rw_answer :: prompt_outcome
  rw_gone_in_prompt :: bool
  rw_gone_after_prompt :: bool

record permission_event =
  ev_tool_name :: ustr
  ev_access_kind :: ustr
  ev_access_detail :: "ustr option"
  ev_yolo_mode :: bool
  ev_auto_approved :: bool
  ev_user_prompted :: bool
  ev_decision :: ustr
  ev_prompt_outcome :: "ustr option"
  ev_reject_reason :: "ustr option"
  ev_permission_mode :: ustr
  ev_decision_reason :: ustr
  ev_classifier_source :: "ustr option"
  ev_auto_denials_consecutive :: "nat option"
  ev_auto_denials_total :: "nat option"
  ev_security_findings :: "ustr list option"
  ev_classifier_verdict :: "ustr option"
  ev_remember_tool_approvals :: bool

text \<open>
  What a request leads to: the actor afterwards, the decision that is sent, if the requester is there, the grants
  that are written to disk, if any, and the event.
\<close>

record 'j request_result =
  rr_manager :: "'j manager"
  rr_decision :: "decision option"
  rr_persisted :: "permission_state option"
  rr_event :: permission_event

text \<open>What is worked out for a request before it is decided.\<close>

record 'j request_facts =
  rf_access :: "'j access_kind"
  rf_hook :: bool
  rf_evaluation :: "bash_evaluation option"
  rf_protected :: "protected_edit_reason option"
  rf_preflight :: gate_preflight

definition tool_name_for_access :: "'j access_kind \<Rightarrow> ustr" where
  "tool_name_for_access access =
     (case access of
        AccRead _ \<Rightarrow> lit ''read_file''
      | AccGrep _ _ \<Rightarrow> lit ''grep''
      | AccEdit _ \<Rightarrow> lit ''search_replace''
      | AccBash _ \<Rightarrow> lit ''run_terminal_command''
      | AccMcp name _ \<Rightarrow> lit ''mcp:'' @ name
      | AccWebFetch _ \<Rightarrow> lit ''web_fetch''
      | AccWebSearch _ \<Rightarrow> lit ''web_search''
      | AccAgentMessage _ \<Rightarrow> lit ''send_subagent_message''
      | AccTool name \<Rightarrow> name)"

definition MCP_ACCESS_DETAIL_MAX_LEN :: nat where "MCP_ACCESS_DETAIL_MAX_LEN = 1024"

definition mcp_access_detail :: "('g, 'j) manager_config \<Rightarrow> ustr \<Rightarrow> 'j \<Rightarrow> ustr" where
  "mcp_access_detail cfg name input =
     (case mc_input_json cfg input of
        None \<Rightarrow> name
      | Some compact \<Rightarrow> truncate_line (name @ 32 # compact) MCP_ACCESS_DETAIL_MAX_LEN)"

definition access_detail :: "('g, 'j) manager_config \<Rightarrow> 'j access_kind \<Rightarrow> ustr option" where
  "access_detail cfg access =
     (case access of
        AccRead _ \<Rightarrow> None
      | AccGrep path _ \<Rightarrow> path
      | AccEdit path \<Rightarrow> Some path
      | AccBash cmd \<Rightarrow> Some cmd
      | AccMcp name input \<Rightarrow> Some (mcp_access_detail cfg name input)
      | AccWebFetch url \<Rightarrow> Some url
      | AccWebSearch query \<Rightarrow> Some query
      | AccAgentMessage subagent_id \<Rightarrow> Some subagent_id
      | AccTool name \<Rightarrow> Some name)"

definition permission_mode :: "'j manager \<Rightarrow> ustr" where
  "permission_mode m = lit (if mg_yolo m then ''always-approve'' else if mg_auto m then ''auto'' else ''ask'')"

definition decision_str :: "decision \<Rightarrow> ustr \<times> ustr option" where
  "decision_str d =
     (case d of
        Allow \<Rightarrow> (lit ''allow'', None)
      | Ask \<Rightarrow> (lit ''ask'', None)
      | Reject reason \<Rightarrow> (lit ''reject'', Some reason)
      | PolicyDeny reason \<Rightarrow> (lit ''reject'', Some reason)
      | FollowupMessage _ \<Rightarrow> (lit ''followup'', None)
      | Cancelled \<Rightarrow> (lit ''cancelled'', None))"

definition emit_event ::
  "('g, 'j) manager_config \<Rightarrow> 'j manager \<Rightarrow> 'j access_kind \<Rightarrow> request_classification \<Rightarrow> decision \<Rightarrow> bool \<Rightarrow> bool \<Rightarrow>
   ustr option \<Rightarrow> ustr \<Rightarrow> permission_event"
where
  "emit_event cfg m access classification d auto_approved user_prompted outcome reason =
     \<lparr>ev_tool_name = tool_name_for_access access, ev_access_kind = access_kind_name access,
      ev_access_detail = access_detail cfg access, ev_yolo_mode = mg_yolo m, ev_auto_approved = auto_approved,
      ev_user_prompted = user_prompted, ev_decision = fst (decision_str d), ev_prompt_outcome = outcome,
      ev_reject_reason = snd (decision_str d), ev_permission_mode = permission_mode m, ev_decision_reason = reason,
      ev_classifier_source = map_option source_wire_str (rc_classifier_source classification),
      ev_auto_denials_consecutive = (if mg_auto m then Some (mg_consecutive m) else None),
      ev_auto_denials_total = (if mg_auto m then Some (mg_total m) else None),
      ev_security_findings = rc_security_findings_tokens classification,
      ev_classifier_verdict = map_option verdict_wire_str (rc_classifier_verdict classification),
      ev_remember_tool_approvals = mc_remember cfg\<rparr>"

text \<open>A decision without a prompt, and the two ways a request ends without one being sent.\<close>

definition settle ::
  "('g, 'j) manager_config \<Rightarrow> 'j manager \<Rightarrow> 'j access_kind \<Rightarrow> request_classification \<Rightarrow> decision \<Rightarrow> bool \<Rightarrow> ustr \<Rightarrow>
   'j request_result"
where
  "settle cfg m access classification d auto_approved reason =
     \<lparr>rr_manager = m, rr_decision = Some d, rr_persisted = None,
      rr_event = emit_event cfg m access classification d auto_approved False None reason\<rparr>"

definition requester_gone ::
  "('g, 'j) manager_config \<Rightarrow> 'j manager \<Rightarrow> 'j access_kind \<Rightarrow> request_classification \<Rightarrow> 'j request_result"
where
  "requester_gone cfg m access classification =
     \<lparr>rr_manager = m, rr_decision = None, rr_persisted = None,
      rr_event = emit_event cfg m access classification Cancelled False False None REQUESTER_GONE\<rparr>"

section \<open>Allow rules and findings\<close>

definition narrow_allow_clears_write_floor ::
  "('g, 'j) manager_config \<Rightarrow> bash_evaluation option \<Rightarrow> 'j access_kind \<Rightarrow> bool"
where
  "narrow_allow_clears_write_floor cfg evaluation access \<longleftrightarrow>
     (case evaluation of Some e \<Rightarrow> is_file_write_only (be_assessment e) \<and> \<not> be_redirect_write e | None \<Rightarrow> False) \<and>
     (case mc_policy cfg of Some p \<Rightarrow> narrow_allow_authorizes (mc_env cfg) p access | None \<Rightarrow> False)"

definition broad_allow_deferred ::
  "('g, 'j) manager_config \<Rightarrow> bash_evaluation option \<Rightarrow> 'j access_kind \<Rightarrow> bool"
where
  "broad_allow_deferred cfg evaluation access \<longleftrightarrow>
     bash_request_floor_requires_prompt evaluation \<and> \<not> narrow_allow_clears_write_floor cfg evaluation access"

definition broad_allow_floor_requires_prompt :: "('g, 'j) manager_config \<Rightarrow> 'j access_kind \<Rightarrow> ustr \<Rightarrow> bool" where
  "broad_allow_floor_requires_prompt cfg access cwd =
     (case access of
        AccBash cmd \<Rightarrow>
          broad_allow_deferred cfg
            (Some (evaluate_bash_with_ambient (mc_env cfg) (mc_git_host cfg) cmd permission_state_default cwd)) access
      | _ \<Rightarrow> False)"

definition bash_assessment_is_clear :: "bash_evaluation option \<Rightarrow> bool" where
  "bash_assessment_is_clear evaluation = (case evaluation of Some e \<Rightarrow> be_assessment e = {} | None \<Rightarrow> True)"

definition classifier_assessment :: "bash_evaluation option \<Rightarrow> bool \<Rightarrow> assessment" where
  "classifier_assessment evaluation fail_closed_policy =
     (case evaluation of Some e \<Rightarrow> be_assessment e | None \<Rightarrow> {}) \<union>
     (if fail_closed_policy then {FailClosedPolicy} else {})"

definition sandbox_may_auto_allow_bash :: "bash_evaluation option \<Rightarrow> bool \<Rightarrow> bool" where
  "sandbox_may_auto_allow_bash evaluation sandbox_active \<longleftrightarrow>
     sandbox_active \<and> \<not> bash_request_floor_requires_prompt evaluation"

definition auto_prompt_blocks_allow :: "'j access_kind \<Rightarrow> bool" where
  "auto_prompt_blocks_allow access = (case access of AccBash _ \<Rightarrow> False | _ \<Rightarrow> True)"

section \<open>The automatic mode\<close>

text \<open>Denied by the classifier: the reason the model gave is quoted.\<close>

definition auto_deny_reason :: "classifier_outcome option \<Rightarrow> ustr" where
  "auto_deny_reason outcome =
     (case Option.bind outcome co_reason of
        Some r \<Rightarrow> lit ''Auto mode blocked this action ('' @ trim_end_matches DOT r @ lit ''). '' @ AUTO_DENY_GUIDANCE
      | None \<Rightarrow> lit ''Auto mode blocked this action. '' @ AUTO_DENY_GUIDANCE)"

text \<open>
  The route through the automatic mode ends the request, or leaves it to the rest of the handler, with the forced
  prompt and its reason.
\<close>

datatype 'j auto_end =
    AutoEnds "'j request_result"
  | AutoGoesOn "'j manager" request_classification bool "ustr option"

definition classified :: "assessment \<Rightarrow> classifier_outcome option \<Rightarrow> request_classification" where
  "classified a outcome =
     Classified a (Some (case outcome of
       Some o' \<Rightarrow> \<lparr>cl_verdict = co_verdict o', cl_source = ByClassifier (outcome_source o')\<rparr>
     | None \<Rightarrow> \<lparr>cl_verdict = VUnavailable, cl_source = SrcNotWired\<rparr>))"

definition after_verdict ::
  "('g, 'j) manager_config \<Rightarrow> 'j manager \<Rightarrow> 'j request_facts \<Rightarrow> assessment \<Rightarrow> classifier_outcome option \<Rightarrow> 'j auto_end"
where
  "after_verdict cfg m rf a outcome =
     (let c = classified a outcome;
          verdict = (case outcome of Some o' \<Rightarrow> co_verdict o' | None \<Rightarrow> VUnavailable)
      in case verdict of
           VAllow \<Rightarrow>
             (let m = m\<lparr>mg_consecutive := 0\<rparr> in
              if \<not> rf_hook rf then AutoEnds (settle cfg m (rf_access rf) c Allow True AUTO_CLASSIFIER_ALLOW)
              else AutoGoesOn m c False None)
         | VBlock \<Rightarrow>
             if mc_can_prompt cfg then AutoGoesOn m c True (Some AUTO_CLASSIFIER_DENY)
             else if mg_consecutive m < AUTO_DENY_CONSECUTIVE_LIMIT \<and> mg_total m < AUTO_DENY_TOTAL_LIMIT
             then AutoEnds (settle cfg (m\<lparr>mg_consecutive := mg_consecutive m + 1, mg_total := mg_total m + 1\<rparr>)
                    (rf_access rf) c (PolicyDeny (auto_deny_reason outcome)) False AUTO_CLASSIFIER_DENY)
             else AutoGoesOn m c True (Some AUTO_DENIAL_LIMIT)
         | VUnavailable \<Rightarrow>
             if (case outcome of Some o' \<Rightarrow> is_timeout o' | None \<Rightarrow> False)
             then AutoGoesOn m c True (Some AUTO_CLASSIFIER_TIMEOUT)
             else AutoGoesOn m c True (Some AUTO_CLASSIFIER_UNAVAILABLE))"

definition auto_route ::
  "('g, 'j) manager_config \<Rightarrow> request_world \<Rightarrow> 'j manager \<Rightarrow> 'j request_facts \<Rightarrow> 'j auto_end"
where
  "auto_route cfg w m rf =
     (let access = rf_access rf;
          tool_name = tool_name_for_access access
      in if \<not> (mg_auto m \<and> admits_auto_classifier (rf_preflight rf)) then AutoGoesOn m NotClassified False None
         else (case auto_mode_fast_path access tool_name
                      (rf_protected rf \<noteq> None \<or> access_requires_user_interaction tool_name access) of
                 FastAllow \<Rightarrow>
                   if rf_hook rf then AutoGoesOn m NotClassified False None
                   else AutoEnds (settle cfg m access ClassifiedFast Allow True AUTO_FAST_PATH)
               | FastPromptUser \<Rightarrow> AutoGoesOn m NotClassified True (Some NEEDS_USER)
               | FastClassify \<Rightarrow>
                   (let a = classifier_assessment (rf_evaluation rf) (pf_defers_gate_ask (rf_preflight rf)) in
                    case mg_classifier m of
                      Some classify \<Rightarrow>
                        if rw_gone_in_classify w then AutoEnds (requester_gone cfg m access (Classified a None))
                        else after_verdict cfg m rf a
                               (Some (classify tool_name access (access_detail cfg access)
                                  \<lparr>cc_turns = mg_turns m @ mg_recorded m, cc_project_instructions = mg_instructions m,
                                   cc_security_findings = a\<rparr>))
                    | None \<Rightarrow>
                        (case access of
                           AccAgentMessage _ \<Rightarrow> after_verdict cfg m rf a (Some (outcome_heuristic VBlock))
                         | _ \<Rightarrow> after_verdict cfg m rf a None))))"

section \<open>Decided without a prompt\<close>

text \<open>A URL that does not parse and one without a host are treated alike.\<close>

definition request_pre_decision ::
  "('g, 'j) manager_config \<Rightarrow> 'j manager \<Rightarrow> 'j request_facts \<Rightarrow> bool \<Rightarrow> (decision \<times> ustr) option"
where
  "request_pre_decision cfg m rf auto_forced_prompt =
     (let env = mc_env cfg; state = mg_state m; forced = policy_forced_prompt (rf_preflight rf) in
      case rf_access rf of
        AccRead _ \<Rightarrow> if forced then None else Some (Allow, SAFE_COMMAND)
      | AccGrep _ _ \<Rightarrow> if forced then None else Some (Allow, SAFE_COMMAND)
      | AccWebSearch _ \<Rightarrow> Some (Allow, SAFE_COMMAND)
      | AccMcp name _ \<Rightarrow>
          map_option (\<lambda>d. (d, case d of Reject _ \<Rightarrow> SESSION_DENY | _ \<Rightarrow> PERSISTED_GRANT))
            (mcp_pre_decision name state forced (mc_remember cfg))
      | AccEdit _ \<Rightarrow>
          if mg_allow_edits m \<and> rf_protected rf = None then Some (Allow, PERSISTED_GRANT)
          else (case st_edit_policy state of
                  EditReject \<Rightarrow> Some (Reject (lit ''edits prohibited''), SESSION_DENY)
                | EditAsk \<Rightarrow> None
                | EditAllow \<Rightarrow> None)
      | AccBash cmd \<Rightarrow>
          if rf_protected rf \<noteq> None \<or> bash_request_floor_requires_prompt (rf_evaluation rf) then None
          else if forced
          then (if mc_remember cfg \<and> \<not> auto_forced_prompt \<and> \<not> shell_file_forced_prompt (rf_preflight rf)
                then Option.bind (rf_evaluation rf) (\<lambda>e.
                       bash_grant_pre_decision cmd e state (mc_yolo_pin cfg) ASK_FLOOR_REMEMBER)
                else None)
          else Option.bind (rf_evaluation rf) (\<lambda>e.
                 bash_grant_pre_decision cmd e state (mc_yolo_pin cfg) (post_classify auto_forced_prompt))
      | AccAgentMessage _ \<Rightarrow> None
      | AccTool _ \<Rightarrow> None
      | AccWebFetch url \<Rightarrow>
          (case pe_url_host env url of
             None \<Rightarrow> None
           | Some host \<Rightarrow>
               (case web_fetch_deny_pre_decision env url state of
                  Some reject \<Rightarrow> Some (reject, SESSION_DENY)
                | None \<Rightarrow>
                    if matcher_check env (mc_domains cfg) (Some host) (mc_url_path cfg url) = None
                    then Some (Allow, STATIC_ALLOWLIST)
                    else if normalize_domain env host \<in> set (st_allowed_web_fetch_domains state)
                    then Some (Allow, PERSISTED_GRANT)
                    else None)))"

text \<open>A forced prompt takes an allowance back.\<close>

definition effective_pre_decision ::
  "'j request_facts \<Rightarrow> bool \<Rightarrow> ustr option \<Rightarrow> (decision \<times> ustr) option \<Rightarrow> (decision \<times> ustr) option"
where
  "effective_pre_decision rf auto_forced_prompt auto_prompt_reason pre =
     (let allows = (case pre of Some (Allow, _) \<Rightarrow> True | _ \<Rightarrow> False);
          classifier_absent = (auto_prompt_reason = Some AUTO_CLASSIFIER_TIMEOUT \<or>
                               auto_prompt_reason = Some AUTO_CLASSIFIER_UNAVAILABLE);
          webfetch_static_fallback =
            (classifier_absent \<and> (case rf_access rf of AccWebFetch _ \<Rightarrow> True | _ \<Rightarrow> False) \<and>
             (case pre of Some (Allow, reason) \<Rightarrow> reason = STATIC_ALLOWLIST \<or> reason = PERSISTED_GRANT | _ \<Rightarrow> False))
      in if auto_forced_prompt \<and> auto_prompt_blocks_allow (rf_access rf) \<and> allows \<and> \<not> webfetch_static_fallback then None
         else if rf_hook rf \<and> allows then None
         else pre)"

section \<open>The prompt\<close>

definition prompt_outcome_allows :: "prompt_outcome \<Rightarrow> bool" where
  "prompt_outcome_allows outcome =
     (case outcome of
        AllowOnce \<Rightarrow> True | AllowAlways \<Rightarrow> True | AllowEditsForSession \<Rightarrow> True | AllowAlwaysBashCommand _ \<Rightarrow> True
      | AllowAlwaysBashGlob _ \<Rightarrow> True | AllowAlwaysDomain _ \<Rightarrow> True | AllowAlwaysMcpTool _ \<Rightarrow> True
      | AllowAlwaysMcpServer _ \<Rightarrow> True | _ \<Rightarrow> False)"

text \<open>The name of the outcome on the wire.\<close>

definition outcome_kind :: "prompt_outcome \<Rightarrow> ustr" where
  "outcome_kind outcome = lit
     (case outcome of
        AllowOnce \<Rightarrow> ''allow_once'' | AllowAlways \<Rightarrow> ''allow_always'' | AllowEditsForSession \<Rightarrow> ''allow_edits_for_session''
      | AllowAlwaysBashCommand _ \<Rightarrow> ''allow_always_bash'' | AllowAlwaysBashGlob _ \<Rightarrow> ''allow_always_bash_glob''
      | AllowAlwaysDomain _ \<Rightarrow> ''allow_always_domain'' | AllowAlwaysMcpTool _ \<Rightarrow> ''allow_always_mcp_tool''
      | AllowAlwaysMcpServer _ \<Rightarrow> ''allow_always_mcp_server'' | RejectOnce \<Rightarrow> ''reject_once''
      | RejectAlwaysBashCommand _ \<Rightarrow> ''reject_always_bash'' | RejectAlwaysMcpTool _ \<Rightarrow> ''reject_always_mcp_tool''
      | RejectAlwaysDomain _ \<Rightarrow> ''reject_always_domain'' | PromptCancelled \<Rightarrow> ''cancelled''
      | PromptFollowup _ \<Rightarrow> ''followup'' | PromptError _ \<Rightarrow> ''error'')"

text \<open>A message to a subagent and a plain tool have no grants, so an answer for always holds once.\<close>

definition answer_for :: "'j access_kind \<Rightarrow> prompt_outcome \<Rightarrow> prompt_outcome" where
  "answer_for access outcome =
     (if (case access of AccAgentMessage _ \<Rightarrow> True | AccTool _ \<Rightarrow> True | _ \<Rightarrow> False)
      then (if prompt_outcome_allows outcome then AllowOnce
            else (case outcome of
                    RejectOnce \<Rightarrow> RejectOnce
                  | RejectAlwaysBashCommand _ \<Rightarrow> RejectOnce
                  | RejectAlwaysMcpTool _ \<Rightarrow> RejectOnce
                  | RejectAlwaysDomain _ \<Rightarrow> RejectOnce
                  | _ \<Rightarrow> outcome))
      else outcome)"

definition user_rejected :: decision where
  "user_rejected = Reject (lit ''User rejected the execution'')"

definition answered :: "prompt_outcome \<Rightarrow> ustr option \<Rightarrow> bool \<Rightarrow> decision \<times> ustr" where
  "answered outcome recorded edits_for_session =
     (let kind = outcome_kind outcome;
          always = (Allow, if recorded \<noteq> None then kind else outcome_kind AllowOnce);
          never = (case recorded of
                     Some key \<Rightarrow>
                       (Reject (lit ''User rejected the execution and excluded `'' @ key @
                                lit ''` from future runs in this project''), kind)
                   | None \<Rightarrow> (user_rejected, outcome_kind RejectOnce))
      in case outcome of
           AllowOnce \<Rightarrow> (Allow, kind)
         | AllowAlways \<Rightarrow> (Allow, kind)
         | AllowEditsForSession \<Rightarrow> (Allow, if edits_for_session then kind else outcome_kind AllowOnce)
         | AllowAlwaysBashCommand _ \<Rightarrow> always
         | AllowAlwaysBashGlob _ \<Rightarrow> always
         | AllowAlwaysDomain _ \<Rightarrow> always
         | AllowAlwaysMcpTool _ \<Rightarrow> always
         | AllowAlwaysMcpServer _ \<Rightarrow> always
         | RejectOnce \<Rightarrow> (user_rejected, kind)
         | RejectAlwaysBashCommand _ \<Rightarrow> never
         | RejectAlwaysMcpTool _ \<Rightarrow> never
         | RejectAlwaysDomain _ \<Rightarrow> never
         | PromptCancelled \<Rightarrow> (Cancelled, kind)
         | PromptFollowup msg \<Rightarrow> (FollowupMessage msg, kind)
         | PromptError e \<Rightarrow> (Reject (lit ''Failed to request permission from user: '' @ e), kind))"

definition prompted_decision_approved :: "decision \<Rightarrow> ustr \<Rightarrow> bool option" where
  "prompted_decision_approved d outcome_str =
     (case d of
        Allow \<Rightarrow> Some True
      | Reject _ \<Rightarrow> if outcome_str \<noteq> lit ''error'' then Some False else None
      | _ \<Rightarrow> None)"

definition CLASSIFIER_TURN_MAX_LEN :: nat where "CLASSIFIER_TURN_MAX_LEN = 400"
definition MAX_RECORDED_PERMISSION_DECISIONS :: nat where "MAX_RECORDED_PERMISSION_DECISIONS = 12"

text \<open>The longest prefix of at most that many bytes.\<close>

fun take_bytes :: "nat \<Rightarrow> ustr \<Rightarrow> ustr" where
  "take_bytes n [] = []"
| "take_bytes n (c # s) = (if utf8_len c \<le> n then c # take_bytes (n - utf8_len c) s else [])"

definition truncate_str_with_marker :: "ustr \<Rightarrow> nat \<Rightarrow> ustr" where
  "truncate_str_with_marker s max_bytes =
     (if byte_len s \<le> max_bytes then s
      else if max_bytes < 3 then take_bytes max_bytes s
      else take_bytes (max_bytes - 3) s @ [8230])"

definition permission_decision_args :: "('g, 'j) manager_config \<Rightarrow> 'j access_kind \<Rightarrow> ustr" where
  "permission_decision_args cfg access =
     truncate_str_with_marker
       (case access of
          AccBash cmd \<Rightarrow> mc_command_json cfg cmd
        | _ \<Rightarrow> (case access_detail cfg access of Some d \<Rightarrow> d | None \<Rightarrow> lit ''(none)''))
       CLASSIFIER_TURN_MAX_LEN"

definition record_decision ::
  "('g, 'j) manager_config \<Rightarrow> 'j access_kind \<Rightarrow> decision \<Rightarrow> ustr \<Rightarrow> classifier_turn list \<Rightarrow> classifier_turn list"
where
  "record_decision cfg access d outcome_str turns =
     (case prompted_decision_approved d outcome_str of
        None \<Rightarrow> turns
      | Some approved \<Rightarrow>
          (let turns = turns @ [RecordedDecision (tool_name_for_access access) (permission_decision_args cfg access) approved]
           in drop (length turns - MAX_RECORDED_PERMISSION_DECISIONS) turns))"

definition request_trigger :: "'j request_facts \<Rightarrow> ustr option \<Rightarrow> ustr" where
  "request_trigger rf auto_prompt_reason =
     (case prompt_trigger (rf_preflight rf) auto_prompt_reason of
        Some reason \<Rightarrow> reason
      | None \<Rightarrow>
          if rf_hook rf then HOOK_ASK
          else if (case rf_evaluation rf of
                     Some e \<Rightarrow> \<not> be_exact_grant e \<and> OpaqueShell \<in> be_assessment e
                   | None \<Rightarrow> False) then OPAQUE_SHELL
          else if bash_request_floor_requires_prompt (rf_evaluation rf) then BASH_REQUEST_FLOOR
          else NEEDS_USER)"

text \<open>The user is asked; what the answer grants is recorded, and the counters of the automatic mode start again.\<close>

definition prompt_user ::
  "('g, 'j) manager_config \<Rightarrow> request_world \<Rightarrow> 'j manager \<Rightarrow> 'j request_facts \<Rightarrow> request_classification \<Rightarrow> ustr option \<Rightarrow>
   'j request_result"
where
  "prompt_user cfg w m rf c auto_prompt_reason =
     (let access = rf_access rf;
          outcome = answer_for access (if rw_gone_in_prompt w then PromptCancelled else rw_answer w);
          (state, recorded) = record_prompt_outcome (mc_env cfg) (mg_state m) access outcome;
          edits_for_session = ((case access of AccEdit _ \<Rightarrow> True | _ \<Rightarrow> False) \<and> outcome = AllowEditsForSession);
          (d, outcome_str) = answered outcome recorded edits_for_session;
          m = m\<lparr>mg_state := state, mg_allow_edits := mg_allow_edits m \<or> edits_for_session,
                mg_recorded := record_decision cfg access d outcome_str (mg_recorded m)\<rparr>;
          gone = (d = Cancelled \<and> rw_gone_after_prompt w);
          trigger = (if gone then REQUESTER_GONE else request_trigger rf auto_prompt_reason);
          event = emit_event cfg m access c d False True (Some outcome_str) trigger
      in \<lparr>rr_manager = (if outcome_str \<noteq> lit ''error'' \<and> \<not> gone then m\<lparr>mg_consecutive := 0, mg_total := 0\<rparr> else m),
          rr_decision = Some d, rr_persisted = (if recorded \<noteq> None then Some state else None), rr_event = event\<rparr>)"

section \<open>The handler\<close>

definition PROMPT_POLICY_DENY_REASON :: ustr where
  "PROMPT_POLICY_DENY_REASON = lit ''denied by prompt policy (tool not pre-approved)''"

text \<open>After the grants, the policy and the automatic mode had nothing final to say.\<close>

definition decide_or_prompt ::
  "('g, 'j) manager_config \<Rightarrow> request_world \<Rightarrow> 'j manager \<Rightarrow> 'j request_facts \<Rightarrow> request_classification \<Rightarrow> bool \<Rightarrow>
   ustr option \<Rightarrow> 'j request_result"
where
  "decide_or_prompt cfg w m rf c auto_forced_prompt auto_prompt_reason =
     (case effective_pre_decision rf auto_forced_prompt auto_prompt_reason
             (request_pre_decision cfg m rf auto_forced_prompt) of
        Some (d, reason) \<Rightarrow> settle cfg m (rf_access rf) c d True reason
      | None \<Rightarrow>
          if mc_prompt_policy cfg = PromptDeny
          then settle cfg m (rf_access rf) c (PolicyDeny PROMPT_POLICY_DENY_REASON) False PROMPT_DENY
          else if mc_prompt_policy cfg = PromptAllow \<and> \<not> rf_hook rf
          then settle cfg m (rf_access rf) c Allow True PROMPT_ALLOW
          else if rw_gone_before_prompt w then requester_gone cfg m (rf_access rf) c
          else prompt_user cfg w m rf c auto_prompt_reason)"

definition after_auto ::
  "('g, 'j) manager_config \<Rightarrow> request_world \<Rightarrow> 'j manager \<Rightarrow> 'j request_facts \<Rightarrow> request_classification \<Rightarrow> bool \<Rightarrow>
   ustr option \<Rightarrow> 'j request_result"
where
  "after_auto cfg w m rf c auto_forced_prompt auto_prompt_reason =
     (let access = rf_access rf in
      if (case access of AccBash _ \<Rightarrow> True | _ \<Rightarrow> False) \<and>
         sandbox_may_auto_allow_bash (rf_evaluation rf) (rw_sandbox_auto w) \<and>
         \<not> policy_forced_prompt (rf_preflight rf) \<and> \<not> auto_forced_prompt \<and> \<not> rf_hook rf \<and> rf_protected rf = None
      then settle cfg m access c Allow True SANDBOX_AUTO
      else (case policy_decision (rf_preflight rf) of
              None \<Rightarrow> decide_or_prompt cfg w m rf c auto_forced_prompt auto_prompt_reason
            | Some d \<Rightarrow>
                if d = Ask \<or>
                   d = Allow \<and> (rf_protected rf \<noteq> None \<or> auto_forced_prompt \<or> rf_hook rf \<or>
                                 broad_allow_deferred cfg (rf_evaluation rf) access)
                then decide_or_prompt cfg w m rf c auto_forced_prompt auto_prompt_reason
                else settle cfg m access c d True POLICY_ALLOW))"

definition decide ::
  "('g, 'j) manager_config \<Rightarrow> request_world \<Rightarrow> 'j manager \<Rightarrow> 'j request_facts \<Rightarrow> 'j request_result"
where
  "decide cfg w m rf =
     (let access = rf_access rf;
          policy = policy_decision (rf_preflight rf);
          forced = (policy_forced_prompt (rf_preflight rf) \<or> shell_forced_prompt (rf_preflight rf) \<or> rf_hook rf)
      in case policy of
           Some (Reject reason) \<Rightarrow> settle cfg m access NotClassified (PolicyDeny reason) False POLICY_DENY
         | _ \<Rightarrow>
             if mg_yolo m \<and> \<not> shell_forced_prompt (rf_preflight rf) \<and> \<not> rf_hook rf
             then settle cfg m access NotClassified Allow True YOLO
             else (case (if \<not> forced \<and> rf_protected rf = None
                         then session_grant_pre_decision (mc_env cfg) (mc_url_path cfg) access (rf_evaluation rf)
                                (mg_state m) (mg_allow_edits m)
                                (if mg_auto m \<and> mc_domains_default cfg then None else Some (mc_domains cfg))
                                (mc_yolo_pin cfg)
                         else None) of
                     Some (d, reason) \<Rightarrow> settle cfg m access NotClassified d True reason
                   | None \<Rightarrow>
                       if mg_auto m \<and> \<not> forced \<and> rf_protected rf = None \<and> policy = Some Allow \<and>
                          (bash_assessment_is_clear (rf_evaluation rf) \<or>
                           \<not> bash_request_floor_requires_prompt (rf_evaluation rf) \<and>
                           (case mc_policy cfg of
                              Some p \<Rightarrow> narrow_allow_authorizes (mc_env cfg) p access
                            | None \<Rightarrow> False))
                       then settle cfg m access NotClassified Allow True POLICY_ALLOW
                       else (case auto_route cfg w m rf of
                               AutoEnds r \<Rightarrow> r
                             | AutoGoesOn m c forced_prompt why \<Rightarrow> after_auto cfg w m rf c forced_prompt why)))"

text \<open>What was granted elsewhere in the meantime is read back; the disk cannot grant every command.\<close>

definition reload_grants :: "request_world \<Rightarrow> 'j access_kind \<Rightarrow> 'j manager \<Rightarrow> 'j manager" where
  "reload_grants w access m =
     (if (case access of AccBash _ \<Rightarrow> True | AccMcp _ _ \<Rightarrow> True | AccWebFetch _ \<Rightarrow> True | _ \<Rightarrow> False)
      then (case rw_reloaded w of
              Some fresh \<Rightarrow>
                m\<lparr>mg_state := (merge_grants_from (mg_state m) fresh)
                    \<lparr>st_allow_bash_execute := st_allow_bash_execute (mg_state m)\<rparr>\<rparr>
            | None \<Rightarrow> m)
      else m)"

text \<open>\<open>Inl\<close>: the requester went away while the checkouts were scanned.\<close>

definition request_evaluation ::
  "('g, 'j) manager_config \<Rightarrow> request_world \<Rightarrow> 'j manager \<Rightarrow> 'j access_kind \<Rightarrow> ustr \<Rightarrow> unit + bash_evaluation option"
where
  "request_evaluation cfg w m access cwd =
     (case access of
        AccBash cmd \<Rightarrow>
          (let e = evaluate_bash (mc_env cfg) cmd (mg_state m) True in
           case be_ambient_segments e of
             None \<Rightarrow> Inr (Some e)
           | Some raw \<Rightarrow>
               (let e = e\<lparr>be_ambient_segments := None\<rparr>;
                    plan = ambient_scan_plan_from_segments raw cwd;
                    risk = (case plan of
                              PlanFailClosed \<Rightarrow> True
                            | CheckDirs _ \<Rightarrow> rw_scan_failed w \<or> ambient_exec_risk_from_plan (mc_git_host cfg) plan)
                in if rw_gone_after_scan w then Inl ()
                   else Inr (Some (if risk then e\<lparr>be_assessment := insert ExecOrAmbientGit (be_assessment e)\<rparr> else e))))
      | _ \<Rightarrow> Inr None)"

definition request_facts_of ::
  "('g, 'j) manager_config \<Rightarrow> 'j manager \<Rightarrow> 'j permission_request \<Rightarrow> bash_evaluation option \<Rightarrow> 'j request_facts"
where
  "request_facts_of cfg m rq evaluation =
     (let cwd = (case rq_path_context rq of Some c \<Rightarrow> rp_real_cwd c | None \<Rightarrow> mc_cwd cfg) in
      \<lparr>rf_access = rq_access rq, rf_hook = rq_hook_ask rq, rf_evaluation = evaluation,
       rf_protected = protected_target (mc_env cfg) (mc_home cfg) (mc_tilde cfg) (rq_access rq) evaluation (mc_cwd cfg)
         (rq_path_context rq),
       rf_preflight = preflight_evaluate (mc_env cfg) (mc_policy cfg) (rq_access rq) cwd (mg_auto m)\<rparr>)"

definition handle_request ::
  "('g, 'j) manager_config \<Rightarrow> request_world \<Rightarrow> 'j manager \<Rightarrow> 'j permission_request \<Rightarrow> 'j request_result"
where
  "handle_request cfg w m rq =
     (let access = rq_access rq;
          cwd = (case rq_path_context rq of Some c \<Rightarrow> rp_real_cwd c | None \<Rightarrow> mc_cwd cfg)
      in if rw_gone_at_dequeue w then requester_gone cfg m access NotClassified
         else (let m = reload_grants w access m in
               case request_evaluation cfg w m access cwd of
                 Inl _ \<Rightarrow> requester_gone cfg m access NotClassified
               | Inr evaluation \<Rightarrow> decide cfg w m (request_facts_of cfg m rq evaluation)))"

section \<open>The actor\<close>

datatype 'j permission_command =
    SetYoloMode bool
  | SetAutoMode bool
  | SetClassifier "'j classifier option"
  | SetClassifierTranscript "classifier_turn list"
  | SetProjectInstructions "ustr option"
  | ResetState
  | Request "'j permission_request" request_world

definition manager_step :: "('g, 'j) manager_config \<Rightarrow> 'j permission_command \<Rightarrow> 'j manager \<Rightarrow> 'j manager" where
  "manager_step cfg cmd m =
     (case cmd of
        SetYoloMode enabled \<Rightarrow> set_yolo_mode cfg enabled m
      | SetAutoMode enabled \<Rightarrow> set_auto_mode cfg enabled m
      | SetClassifier c \<Rightarrow> m\<lparr>mg_classifier := c\<rparr>
      | SetClassifierTranscript turns \<Rightarrow> m\<lparr>mg_turns := turns\<rparr>
      | SetProjectInstructions instructions \<Rightarrow> m\<lparr>mg_instructions := instructions\<rparr>
      | ResetState \<Rightarrow> reset_state m
      | Request rq w \<Rightarrow> rr_manager (handle_request cfg w m rq))"

end
