(* ===== verification/Manager_Laws.thy ===== *)
theory Manager_Laws
  imports Perm_Manager Grant_Laws
begin

text \<open>
  What the permission manager guarantees. Every way in which a request can be allowed is listed once
  (\<open>decide_allowed\<close>); the claims follow from that list.
\<close>

section \<open>Every way to be allowed\<close>

lemma settle_sel [simp]:
  "rr_decision (settle cfg m access c d a reason) = Some d" "rr_manager (settle cfg m access c d a reason) = m"
  "rr_persisted (settle cfg m access c d a reason) = None"
  "ev_user_prompted (rr_event (settle cfg m access c d a reason)) = False"
  "ev_decision_reason (rr_event (settle cfg m access c d a reason)) = reason"
  by (simp_all add: settle_def emit_event_def)

lemma requester_gone_sel [simp]:
  "rr_decision (requester_gone cfg m access c) = None" "rr_manager (requester_gone cfg m access c) = m"
  "rr_persisted (requester_gone cfg m access c) = None"
  "ev_user_prompted (rr_event (requester_gone cfg m access c)) = False"
  by (simp_all add: requester_gone_def emit_event_def)

text \<open>The user was asked and the answer allows.\<close>

definition user_approved :: "request_world \<Rightarrow> 'j request_result \<Rightarrow> bool" where
  "user_approved w r \<longleftrightarrow>
     ev_user_prompted (rr_event r) \<and> \<not> rw_gone_in_prompt w \<and> prompt_outcome_allows (rw_answer w)"

lemma answered_allows: "fst (answered outcome recorded edits) = Allow \<longleftrightarrow> prompt_outcome_allows outcome"
  by (cases outcome) (auto simp: answered_def prompt_outcome_allows_def user_rejected_def Let_def split: option.splits)

lemma answer_for_allows: "prompt_outcome_allows (answer_for access outcome) \<longleftrightarrow> prompt_outcome_allows outcome"
  by (cases outcome) (auto simp: answer_for_def prompt_outcome_allows_def)

lemma prompt_user_sel:
  "ev_user_prompted (rr_event (prompt_user cfg w m rf c why))"
  "\<exists>d. rr_decision (prompt_user cfg w m rf c why) = Some d \<and>
     (d = Allow \<longleftrightarrow> \<not> rw_gone_in_prompt w \<and> prompt_outcome_allows (rw_answer w))"
proof -
  have no: "\<not> prompt_outcome_allows (answer_for (rf_access rf) PromptCancelled)"
    by (simp add: answer_for_allows) (simp add: prompt_outcome_allows_def)
  show "ev_user_prompted (rr_event (prompt_user cfg w m rf c why))"
    by (simp add: prompt_user_def emit_event_def Let_def case_prod_unfold)
  show "\<exists>d. rr_decision (prompt_user cfg w m rf c why) = Some d \<and>
     (d = Allow \<longleftrightarrow> \<not> rw_gone_in_prompt w \<and> prompt_outcome_allows (rw_answer w))"
    using no by (auto simp: prompt_user_def Let_def case_prod_unfold answered_allows answer_for_allows)
qed

lemma prompt_user_approved:
  "rr_decision (prompt_user cfg w m rf c why) = Some Allow \<Longrightarrow> user_approved w (prompt_user cfg w m rf c why)"
  using prompt_user_sel[of cfg w m rf c why] by (auto simp: user_approved_def)

lemma effective_allows:
  assumes "effective_pre_decision rf forced why pre = Some (Allow, reason)"
  shows "pre = Some (Allow, reason) \<and> \<not> rf_hook rf \<and>
    (forced \<longrightarrow> \<not> auto_prompt_blocks_allow (rf_access rf) \<or> (\<exists>url. rf_access rf = AccWebFetch url))"
proof (cases pre)
  case None
  with assms show ?thesis by (simp add: effective_pre_decision_def Let_def split: if_splits)
next
  case (Some p)
  with assms have "p = (Allow, reason)" by (auto simp: effective_pre_decision_def Let_def split: if_splits)
  with assms Some show ?thesis
    by (cases "rf_access rf") (auto simp: effective_pre_decision_def Let_def split: if_splits)
qed

lemma decide_or_prompt_allowed:
  assumes "rr_decision (decide_or_prompt cfg w m rf c forced why) = Some Allow"
  shows "user_approved w (decide_or_prompt cfg w m rf c forced why) \<or>
    \<not> rf_hook rf \<and> (mc_prompt_policy cfg = PromptAllow \<or>
      (\<exists>reason. request_pre_decision cfg m rf forced = Some (Allow, reason)) \<and>
      (forced \<longrightarrow> \<not> auto_prompt_blocks_allow (rf_access rf) \<or> (\<exists>url. rf_access rf = AccWebFetch url)))"
proof (cases "effective_pre_decision rf forced why (request_pre_decision cfg m rf forced)")
  case (Some p)
  with assms obtain reason where "effective_pre_decision rf forced why (request_pre_decision cfg m rf forced) = Some (Allow, reason)"
    by (cases p) (simp add: decide_or_prompt_def)
  from effective_allows[OF this] show ?thesis by blast
next
  case None
  with assms show ?thesis
    using prompt_user_approved[of cfg w m rf c why]
    by (auto simp: decide_or_prompt_def split: if_splits)
qed

lemma after_auto_allowed:
  assumes "rr_decision (after_auto cfg w m rf c forced why) = Some Allow"
  obtains
      (sandbox) cmd where "rf_access rf = AccBash cmd" "rw_sandbox_auto w" "\<not> bash_request_floor_requires_prompt (rf_evaluation rf)"
        "\<not> policy_forced_prompt (rf_preflight rf)" "\<not> forced" "\<not> rf_hook rf" "rf_protected rf = None"
    | (rule) "policy_decision (rf_preflight rf) = Some Allow" "\<not> forced" "\<not> rf_hook rf" "rf_protected rf = None"
        "\<not> broad_allow_deferred cfg (rf_evaluation rf) (rf_access rf)"
    | (pre) reason where "\<not> rf_hook rf" "request_pre_decision cfg m rf forced = Some (Allow, reason)"
        "forced \<longrightarrow> \<not> auto_prompt_blocks_allow (rf_access rf) \<or> (\<exists>url. rf_access rf = AccWebFetch url)"
    | (unprompted) "mc_prompt_policy cfg = PromptAllow" "\<not> rf_hook rf"
    | (user) "user_approved w (after_auto cfg w m rf c forced why)"
proof -
  have dp: thesis
    if "after_auto cfg w m rf c forced why = decide_or_prompt cfg w m rf c forced why"
    using decide_or_prompt_allowed[of cfg w m rf c forced why] assms that pre unprompted user by metis
  show thesis
  proof (cases "after_auto cfg w m rf c forced why = decide_or_prompt cfg w m rf c forced why")
    case True
    then show ?thesis by (rule dp)
  next
    case False
    with assms sandbox rule show ?thesis
      by (auto simp: after_auto_def sandbox_may_auto_allow_bash_def Let_def split: if_splits option.splits access_kind.splits)
  qed
qed

text \<open>The automatic mode says yes: by the fast path, or through the installed classifier.\<close>

definition auto_says_yes :: "('g, 'j) manager_config \<Rightarrow> 'j manager \<Rightarrow> 'j request_facts \<Rightarrow> bool" where
  "auto_says_yes cfg m rf \<longleftrightarrow>
     (let access = rf_access rf; tool = tool_name_for_access access in
      mg_auto m \<and> admits_auto_classifier (rf_preflight rf) \<and> rf_protected rf = None \<and>
      \<not> access_requires_user_interaction tool access \<and>
      (auto_mode_fast_path access tool False = FastAllow \<or>
       (\<exists>classify. mg_classifier m = Some classify \<and>
          co_verdict (classify tool access (access_detail cfg access)
            \<lparr>cc_turns = mg_turns m @ mg_recorded m, cc_project_instructions = mg_instructions m,
             cc_security_findings = classifier_assessment (rf_evaluation rf) (pf_defers_gate_ask (rf_preflight rf))\<rparr>) = VAllow)))"

lemma after_verdict_ends:
  assumes "after_verdict cfg m rf a outcome = AutoEnds r" "rr_decision r = Some Allow"
  shows "\<not> rf_hook rf \<and> (\<exists>o'. outcome = Some o' \<and> co_verdict o' = VAllow)"
  using assms by (cases outcome) (auto simp: after_verdict_def Let_def split: classifier_verdict.splits if_splits)

lemma after_verdict_goes_on:
  assumes "after_verdict cfg m rf a outcome = AutoGoesOn m' c forced why"
  shows "m' = m \<or> m' = m\<lparr>mg_consecutive := 0\<rparr>"
  using assms by (auto simp: after_verdict_def Let_def split: classifier_verdict.splits if_splits option.splits)

lemma fast_path_not_prompt: "auto_mode_fast_path access tool needs \<noteq> FastPromptUser \<longleftrightarrow> \<not> needs"
  by (auto simp: auto_mode_fast_path_def split: access_kind.splits)

lemma auto_route_ends:
  assumes "auto_route cfg w m rf = AutoEnds r" "rr_decision r = Some Allow"
  shows "\<not> rf_hook rf \<and> auto_says_yes cfg m rf"
proof -
  let ?access = "rf_access rf" and ?tool = "tool_name_for_access (rf_access rf)"
  let ?needs = "rf_protected rf \<noteq> None \<or> access_requires_user_interaction ?tool ?access"
  have auto: "mg_auto m" "admits_auto_classifier (rf_preflight rf)"
    using assms(1) by (auto simp: auto_route_def Let_def split: if_splits)
  have fast: "auto_mode_fast_path ?access ?tool ?needs \<noteq> FastPromptUser"
    using assms(1) auto by (auto simp: auto_route_def Let_def)
  then have needs: "\<not> ?needs" by (simp only: fast_path_not_prompt not_False_eq_True)
  show ?thesis
  proof (cases "auto_mode_fast_path ?access ?tool False")
    case FastAllow
    with assms auto needs show ?thesis by (auto simp: auto_route_def auto_says_yes_def Let_def split: if_splits)
  next
    case FastPromptUser
    then show ?thesis using fast_path_not_prompt[of ?access ?tool False] by simp
  next
    case FastClassify
    with assms auto needs show ?thesis
      by (auto simp: auto_route_def auto_says_yes_def outcome_heuristic_def Let_def
          dest!: after_verdict_ends split: option.splits if_splits access_kind.splits)
  qed
qed

lemma auto_route_goes_on:
  assumes "auto_route cfg w m rf = AutoGoesOn m' c forced why"
  shows "m' = m \<or> m' = m\<lparr>mg_consecutive := 0\<rparr>"
  using assms
  by (auto simp: auto_route_def Let_def dest!: after_verdict_goes_on
      split: if_splits auto_fast_path.splits option.splits access_kind.splits)

lemma pre_decision_cong:
  "mg_state m' = mg_state m \<Longrightarrow> mg_allow_edits m' = mg_allow_edits m \<Longrightarrow>
   request_pre_decision cfg m' rf forced = request_pre_decision cfg m rf forced"
  by (cases "rf_access rf") (simp_all add: request_pre_decision_def)

lemma not_rejected: "\<nexists>r. p = Some (Reject r) \<Longrightarrow> (case p of Some (Reject r) \<Rightarrow> f r | _ \<Rightarrow> g) = g"
  by (auto split: option.splits decision.splits)

text \<open>The grants that are looked at first.\<close>

definition granted_before :: "('g, 'j) manager_config \<Rightarrow> 'j manager \<Rightarrow> 'j request_facts \<Rightarrow> bool" where
  "granted_before cfg m rf \<longleftrightarrow>
     (\<exists>reason. session_grant_pre_decision (mc_env cfg) (mc_url_path cfg) (rf_access rf) (rf_evaluation rf) (mg_state m)
        (mg_allow_edits m) (if mg_auto m \<and> mc_domains_default cfg then None else Some (mc_domains cfg)) (mc_yolo_pin cfg) =
      Some (Allow, reason))"

text \<open>The handler for a request that the policy does not deny, in stages.\<close>

definition forced_early :: "'j request_facts \<Rightarrow> bool" where
  "forced_early rf \<longleftrightarrow>
     policy_forced_prompt (rf_preflight rf) \<or> shell_forced_prompt (rf_preflight rf) \<or> rf_hook rf"

definition grant_early :: "('g, 'j) manager_config \<Rightarrow> 'j manager \<Rightarrow> 'j request_facts \<Rightarrow> (decision \<times> ustr) option" where
  "grant_early cfg m rf =
     (if \<not> forced_early rf \<and> rf_protected rf = None
      then session_grant_pre_decision (mc_env cfg) (mc_url_path cfg) (rf_access rf) (rf_evaluation rf) (mg_state m)
             (mg_allow_edits m) (if mg_auto m \<and> mc_domains_default cfg then None else Some (mc_domains cfg)) (mc_yolo_pin cfg)
      else None)"

definition rule_early :: "('g, 'j) manager_config \<Rightarrow> 'j manager \<Rightarrow> 'j request_facts \<Rightarrow> bool" where
  "rule_early cfg m rf \<longleftrightarrow>
     mg_auto m \<and> \<not> forced_early rf \<and> rf_protected rf = None \<and> policy_decision (rf_preflight rf) = Some Allow \<and>
     (bash_assessment_is_clear (rf_evaluation rf) \<or> \<not> bash_request_floor_requires_prompt (rf_evaluation rf) \<and>
      (case mc_policy cfg of Some p \<Rightarrow> narrow_allow_authorizes (mc_env cfg) p (rf_access rf) | None \<Rightarrow> False))"

definition late_stages ::
  "('g, 'j) manager_config \<Rightarrow> request_world \<Rightarrow> 'j manager \<Rightarrow> 'j request_facts \<Rightarrow> 'j request_result"
where
  "late_stages cfg w m rf =
     (case auto_route cfg w m rf of
        AutoEnds r \<Rightarrow> r
      | AutoGoesOn m c forced_prompt why \<Rightarrow> after_auto cfg w m rf c forced_prompt why)"

lemma decide_stages:
  assumes "\<nexists>r. policy_decision (rf_preflight rf) = Some (Reject r)"
  shows "decide cfg w m rf =
    (if mg_yolo m \<and> \<not> shell_forced_prompt (rf_preflight rf) \<and> \<not> rf_hook rf
     then settle cfg m (rf_access rf) NotClassified Allow True YOLO
     else case grant_early cfg m rf of
            Some (d, reason) \<Rightarrow> settle cfg m (rf_access rf) NotClassified d True reason
          | None \<Rightarrow> if rule_early cfg m rf then settle cfg m (rf_access rf) NotClassified Allow True POLICY_ALLOW
                    else late_stages cfg w m rf)"
  unfolding decide_def Let_def grant_early_def rule_early_def late_stages_def forced_early_def
  by (rule not_rejected[OF assms])

lemma decide_allowed:
  assumes "rr_decision (decide cfg w m rf) = Some Allow"
  obtains
      (yolo) "mg_yolo m" "\<not> shell_forced_prompt (rf_preflight rf)" "\<not> rf_hook rf"
    | (granted) "granted_before cfg m rf" "\<not> policy_forced_prompt (rf_preflight rf)" "\<not> shell_forced_prompt (rf_preflight rf)"
        "\<not> rf_hook rf" "rf_protected rf = None"
    | (rule) "policy_decision (rf_preflight rf) = Some Allow" "\<not> rf_hook rf" "rf_protected rf = None"
    | (auto) "auto_says_yes cfg m rf" "\<not> rf_hook rf"
    | (sandbox) cmd where "rf_access rf = AccBash cmd" "rw_sandbox_auto w" "\<not> bash_request_floor_requires_prompt (rf_evaluation rf)"
        "\<not> policy_forced_prompt (rf_preflight rf)" "\<not> rf_hook rf" "rf_protected rf = None"
    | (pre) forced reason where "\<not> rf_hook rf" "request_pre_decision cfg m rf forced = Some (Allow, reason)"
        "forced \<longrightarrow> \<not> auto_prompt_blocks_allow (rf_access rf) \<or> (\<exists>url. rf_access rf = AccWebFetch url)"
    | (unprompted) "mc_prompt_policy cfg = PromptAllow" "\<not> rf_hook rf"
    | (user) "user_approved w (decide cfg w m rf)"
proof -
  have nr: "\<nexists>r. policy_decision (rf_preflight rf) = Some (Reject r)" using assms by (auto simp: decide_def Let_def)
  note d = decide_stages[OF nr, of cfg w m]
  show thesis
  proof (cases "mg_yolo m \<and> \<not> shell_forced_prompt (rf_preflight rf) \<and> \<not> rf_hook rf")
    case True
    then show ?thesis using yolo by blast
  next
    case ny: False
    show ?thesis
    proof (cases "grant_early cfg m rf")
      case (Some p)
      with assms ny d obtain reason where g: "grant_early cfg m rf = Some (Allow, reason)" by (cases p) auto
      then have "\<not> forced_early rf" "rf_protected rf = None" by (auto simp: grant_early_def split: if_splits)
      with g granted show ?thesis by (auto simp: grant_early_def granted_before_def forced_early_def)
    next
      case None
      show ?thesis
      proof (cases "rule_early cfg m rf")
        case True
        then show ?thesis using rule by (auto simp: rule_early_def forced_early_def)
      next
        case False
        with None ny d have n: "decide cfg w m rf = late_stages cfg w m rf" by auto
        show ?thesis
        proof (cases "auto_route cfg w m rf")
          case (AutoEnds r)
          with n assms auto auto_route_ends[OF AutoEnds] show ?thesis by (simp add: late_stages_def)
        next
          case (AutoGoesOn m' c f why)
          with n have e: "decide cfg w m rf = after_auto cfg w m' rf c f why" by (simp add: late_stages_def)
          have m': "mg_state m' = mg_state m" "mg_allow_edits m' = mg_allow_edits m"
            using auto_route_goes_on[OF AutoGoesOn] by auto
          from assms e have "rr_decision (after_auto cfg w m' rf c f why) = Some Allow" by simp
          then show ?thesis
          proof (cases rule: after_auto_allowed)
            case (pre reason)
            moreover from this(2) have "request_pre_decision cfg m rf f = Some (Allow, reason)"
              by (simp only: pre_decision_cong[OF m'])
            ultimately show ?thesis using that(6) by blast
          qed (use e sandbox rule unprompted user in auto)
        qed
      qed
    qed
  qed
qed

section \<open>Denied\<close>

text \<open>The request as the handler sees it: the actor after the reload, and the facts. \<open>None\<close> when the requester has gone.\<close>

definition request_cwd :: "('g, 'j) manager_config \<Rightarrow> 'j permission_request \<Rightarrow> ustr" where
  "request_cwd cfg rq = (case rq_path_context rq of Some c \<Rightarrow> rp_real_cwd c | None \<Rightarrow> mc_cwd cfg)"

definition seen ::
  "('g, 'j) manager_config \<Rightarrow> request_world \<Rightarrow> 'j manager \<Rightarrow> 'j permission_request \<Rightarrow> ('j manager \<times> 'j request_facts) option"
where
  "seen cfg w m rq =
     (if rw_gone_at_dequeue w then None
      else (let m = reload_grants w (rq_access rq) m in
            case request_evaluation cfg w m (rq_access rq) (request_cwd cfg rq) of
              Inl _ \<Rightarrow> None
            | Inr evaluation \<Rightarrow> Some (m, request_facts_of cfg m rq evaluation)))"

lemma handle_request_seen:
  "handle_request cfg w m rq =
     (case seen cfg w m rq of
        Some (m', rf) \<Rightarrow> decide cfg w m' rf
      | None \<Rightarrow> requester_gone cfg (if rw_gone_at_dequeue w then m else reload_grants w (rq_access rq) m) (rq_access rq) NotClassified)"
  by (auto simp: handle_request_def seen_def request_cwd_def Let_def split: sum.splits)

lemma reload_sel [simp]:
  "mg_yolo (reload_grants w access m) = mg_yolo m" "mg_auto (reload_grants w access m) = mg_auto m"
  "mg_classifier (reload_grants w access m) = mg_classifier m" "mg_consecutive (reload_grants w access m) = mg_consecutive m"
  "mg_total (reload_grants w access m) = mg_total m" "mg_recorded (reload_grants w access m) = mg_recorded m"
  "mg_allow_edits (reload_grants w access m) = mg_allow_edits m"
  "st_allow_bash_execute (mg_state (reload_grants w access m)) = st_allow_bash_execute (mg_state m)"
  by (auto simp: reload_grants_def split: access_kind.splits option.splits)

lemma seen_Some:
  assumes "seen cfg w m rq = Some (m', rf)"
  shows "m' = reload_grants w (rq_access rq) m" "rf_access rf = rq_access rq" "rf_hook rf = rq_hook_ask rq"
    "rf_preflight rf = preflight_evaluate (mc_env cfg) (mc_policy cfg) (rq_access rq) (request_cwd cfg rq) (mg_auto m)"
  using assms by (auto simp: seen_def request_facts_of_def request_cwd_def Let_def split: if_splits sum.splits)

lemma decide_denies:
  "policy_decision (rf_preflight rf) = Some (Reject r) \<Longrightarrow>
   decide cfg w m rf = settle cfg m (rf_access rf) NotClassified (PolicyDeny r) False POLICY_DENY"
  by (simp add: decide_def Let_def)

lemma seen_None: "seen cfg w m rq = None \<Longrightarrow> rw_gone_at_dequeue w \<or> rw_gone_after_scan w"
  by (auto simp: seen_def request_evaluation_def Let_def split: if_splits sum.splits access_kind.splits option.splits)

text \<open>
  C9. A denial of the managed policy stands in every mode. When the rules deny the access, when the gate denies a command
  that the script runs, or when the file gate denies a file it touches, the request is denied: with the always-approve
  mode on, whatever was granted before, whatever the classifier, the sandbox and the hooks say, and under every
  prompt policy. Nobody is asked, nothing is granted, and only a requester that has gone gets no answer.
\<close>

theorem denial_stands_in_every_mode:
  fixes rq :: "'j permission_request"
  assumes "mc_policy cfg = Some pol"
    and "(\<exists>r. evaluate_with_cwd (mc_env cfg) pol (rq_access rq) (Some (request_cwd cfg rq)) = Some (Reject r)) \<or>
      (\<exists>cmd r. rq_access rq = AccBash cmd \<and>
         (evaluate_bash_command_gate (mc_env cfg) pol cmd = Some (GReject r) \<or>
          evaluate_shell_file_access_gate (mc_env cfg) pol cmd (request_cwd cfg rq) = Some (GReject r)))"
  shows "((\<exists>r. rr_decision (handle_request cfg w m rq) = Some (PolicyDeny r)) \<or>
      rr_decision (handle_request cfg w m rq) = None \<and> (rw_gone_at_dequeue w \<or> rw_gone_after_scan w)) \<and>
    \<not> ev_user_prompted (rr_event (handle_request cfg w m rq)) \<and> rr_persisted (handle_request cfg w m rq) = None"
proof -
  let ?p = "preflight_evaluate (mc_env cfg) (mc_policy cfg) (rq_access rq) (request_cwd cfg rq) (mg_auto m)"
  have "pf_direct ?p = evaluate_with_cwd (mc_env cfg) pol (rq_access rq) (Some (request_cwd cfg rq))"
    using assms(1) by (simp add: preflight_evaluate_def evaluate_with_cwd_def Let_def case_prod_unfold)
  moreover have "pf_bash_command ?p = evaluate_bash_command_gate (mc_env cfg) pol cmd"
    "pf_shell_file ?p = evaluate_shell_file_access_gate (mc_env cfg) pol cmd (request_cwd cfg rq)"
    if "rq_access rq = AccBash cmd" for cmd
    using assms(1) that by (simp_all add: preflight_evaluate_def Let_def case_prod_unfold)
  ultimately obtain r where r: "policy_decision ?p = Some (Reject r)"
    using assms(2) preflight_policy(2)[of "mc_env cfg" "mc_policy cfg" "rq_access rq" "request_cwd cfg rq" "mg_auto m"]
    by metis
  have s: "rr_decision (decide cfg w m' rf) = Some (PolicyDeny r) \<and>
      \<not> ev_user_prompted (rr_event (decide cfg w m' rf)) \<and> rr_persisted (decide cfg w m' rf) = None"
    if "seen cfg w m rq = Some (m', rf)" for m' rf
    using r seen_Some(4)[OF that] by (simp add: decide_denies)
  with seen_None[of cfg w m rq] show ?thesis
    by (auto simp: handle_request_seen split: option.splits)
qed

section \<open>Confirmed\<close>

lemma auto_says_yes_open: "auto_says_yes cfg m rf \<Longrightarrow> rf_protected rf = None"
  by (simp add: auto_says_yes_def Let_def)

lemma pre_decision_guarded:
  assumes "request_pre_decision cfg m rf forced = Some (Allow, reason)" "rf_protected rf \<noteq> None"
  shows "\<nexists>cmd. rf_access rf = AccBash cmd" "\<nexists>path. rf_access rf = AccEdit path"
  using assms by (auto simp: request_pre_decision_def split: edit_policy.splits)

lemma protected_kind:
  "seen cfg w m rq = Some (m', rf) \<Longrightarrow> rf_protected rf \<noteq> None \<Longrightarrow>
   (\<exists>cmd. rf_access rf = AccBash cmd) \<or> (\<exists>path. rf_access rf = AccEdit path)"
  by (auto simp: seen_def request_facts_of_def protected_target_def Let_def split: if_splits sum.splits access_kind.splits)

text \<open>
  C10. What a hook wants confirmed is confirmed by the user, in every mode: the request is allowed only if the user was
  asked and said yes. The same holds for every edit and every script that would write a guarded file (version-control
  hooks, the agent's own configuration, startup files), outside the always-approve mode and a prompt policy that
  allows everything: no rule, grant, classifier or sandbox allows it.
\<close>

theorem confirmation_is_asked:
  assumes "rr_decision (handle_request cfg w m rq) = Some Allow"
    and "rq_hook_ask rq \<or>
      (\<exists>m' rf. seen cfg w m rq = Some (m', rf) \<and> rf_protected rf \<noteq> None) \<and> \<not> mg_yolo m \<and> mc_prompt_policy cfg \<noteq> PromptAllow"
  shows "user_approved w (handle_request cfg w m rq)"
proof -
  from assms(1) obtain m' rf where s: "seen cfg w m rq = Some (m', rf)" and h: "handle_request cfg w m rq = decide cfg w m' rf"
    by (auto simp: handle_request_seen split: option.splits)
  have m': "mg_yolo m' = mg_yolo m" using seen_Some(1)[OF s] by simp
  from assms(1) h have "rr_decision (decide cfg w m' rf) = Some Allow" by simp
  then show ?thesis
  proof (cases rule: decide_allowed)
    case (pre forced reason)
    then show ?thesis
      using pre_decision_guarded[of cfg m' rf forced reason] protected_kind[OF s] assms(2) s seen_Some(3)[OF s] by auto
  qed (use assms(2) s m' h seen_Some(3)[OF s] auto_says_yes_open[of cfg m' rf] in auto)
qed

section \<open>Asked\<close>

text \<open>A remembered approval that an ask rule accepts.\<close>

definition approval_remembered :: "('g, 'j) manager_config \<Rightarrow> 'j manager \<Rightarrow> 'j request_facts \<Rightarrow> bool" where
  "approval_remembered cfg m rf \<longleftrightarrow>
     mc_remember cfg \<and>
     (case rf_access rf of
        AccMcp name _ \<Rightarrow>
          name \<in> set (st_allowed_mcp_tools (mg_state m)) \<or> mcp_server_prefix_allowed name (st_allowed_mcp_servers (mg_state m))
      | AccBash cmd \<Rightarrow>
          \<not> shell_file_forced_prompt (rf_preflight rf) \<and>
          (\<exists>e via. rf_evaluation rf = Some e \<and> \<not> bash_request_floor_requires_prompt (Some e) \<and>
             be_segments e = AutoAllow via \<and> be_all_segments_granted e)
      | _ \<Rightarrow> False)"

lemma ask_floor_grant:
  "bash_grant_pre_decision cmd e state pin ASK_FLOOR_REMEMBER = Some (Allow, reason) \<Longrightarrow>
   \<not> bash_request_floor_requires_prompt (Some e) \<and> (\<exists>via. be_segments e = AutoAllow via) \<and> be_all_segments_granted e"
  by (simp add: bash_grant_pre_decision_def ASK_FLOOR_REMEMBER_def split: segment_evaluation.splits if_splits)

lemma pre_decision_asked:
  assumes "request_pre_decision cfg m rf forced = Some (Allow, reason)" "policy_forced_prompt (rf_preflight rf)"
    "\<nexists>q. rf_access rf = AccWebSearch q" "\<nexists>url. rf_access rf = AccWebFetch url" "\<nexists>path. rf_access rf = AccEdit path"
  shows "approval_remembered cfg m rf"
proof (cases "rf_access rf")
  case (AccBash cmd)
  with assms(1,2) obtain e where "mc_remember cfg" "\<not> shell_file_forced_prompt (rf_preflight rf)" "rf_evaluation rf = Some e"
    "bash_grant_pre_decision cmd e (mg_state m) (mc_yolo_pin cfg) ASK_FLOOR_REMEMBER = Some (Allow, reason)"
    by (auto simp: request_pre_decision_def Let_def bind_eq_Some_conv split: if_splits)
  with AccBash show ?thesis by (auto simp: approval_remembered_def dest: ask_floor_grant)
next
  case (AccMcp name inp)
  with assms(1,2) show ?thesis
    by (auto simp: request_pre_decision_def approval_remembered_def mcp_pre_decision_def Let_def split: if_splits)
qed (use assms in \<open>auto simp: request_pre_decision_def Let_def\<close>)

lemma forced_not_allow: "policy_forced_prompt p \<Longrightarrow> policy_decision p \<noteq> Some Allow"
  by (simp add: policy_forced_prompt_def)

text \<open>
  C11. An ask rule asks. When the policy wants a read, a search of the files, a script, an MCP tool, a message to a subagent or
  another tool confirmed, it is allowed only because the user was asked and said yes, or by one of four exceptions:
  the always-approve mode, and then no gate on a script or an unresolved link asks; a prompt policy that allows
  everything; an approval of this tool or its server, or of every command of this script, that is remembered, where
  remembering is on and the script touches no file that is asked for; and, in the automatic mode, a verdict on a script that could not be
  analysed, never when a rule matched.
\<close>

theorem ask_rule_asks:
  assumes "rr_decision (handle_request cfg w m rq) = Some Allow" "seen cfg w m rq = Some (m', rf)"
    and "policy_forced_prompt (rf_preflight rf)"
    and "\<nexists>q. rq_access rq = AccWebSearch q" "\<nexists>url. rq_access rq = AccWebFetch url" "\<nexists>path. rq_access rq = AccEdit path"
  shows "user_approved w (handle_request cfg w m rq) \<or>
    mg_yolo m \<and> \<not> shell_forced_prompt (rf_preflight rf) \<or>
    mc_prompt_policy cfg = PromptAllow \<or>
    approval_remembered cfg m' rf \<or>
    auto_says_yes cfg m' rf \<and> pf_direct (rf_preflight rf) \<noteq> Some Ask \<and>
      pf_bash_command (rf_preflight rf) \<noteq> Some AskRuleMatch \<and> pf_shell_file (rf_preflight rf) \<noteq> Some AskRuleMatch"
proof -
  note acc = seen_Some(2)[OF assms(2)]
  have h: "handle_request cfg w m rq = decide cfg w m' rf" using assms(2) by (simp add: handle_request_seen)
  have m': "mg_yolo m' = mg_yolo m" using seen_Some(1)[OF assms(2)] by simp
  have defers: "pf_defers_gate_ask (rf_preflight rf) \<longrightarrow> pf_direct (rf_preflight rf) \<noteq> Some Ask \<and>
      pf_bash_command (rf_preflight rf) \<noteq> Some AskRuleMatch \<and> pf_shell_file (rf_preflight rf) \<noteq> Some AskRuleMatch"
    unfolding seen_Some(4)[OF assms(2)] by (simp add: preflight_evaluate_def Let_def case_prod_unfold)
  from assms(1) h have "rr_decision (decide cfg w m' rf) = Some Allow" by simp
  then show ?thesis
  proof (cases rule: decide_allowed)
    case (pre forced reason)
    then show ?thesis using pre_decision_asked[of cfg m' rf forced reason] assms(3-6) acc by auto
  next
    case auto
    then have "admits_auto_classifier (rf_preflight rf)" by (simp add: auto_says_yes_def Let_def)
    with assms(3) have "pf_defers_gate_ask (rf_preflight rf)" by (simp add: admits_auto_classifier_def)
    with defers auto show ?thesis by blast
  qed (use assms(3) m' h forced_not_allow[of "rf_preflight rf"] in auto)
qed

text \<open>A web search and a fetch from an allowed domain are not asked about although a rule says so.\<close>

lemma ask_rule_on_web_search_ignored:
  assumes "seen cfg w m rq = Some (m', rf)" "rq_access rq = AccWebSearch q" "policy_forced_prompt (rf_preflight rf)"
    and "\<not> mg_yolo m" "\<not> mg_auto m" "\<not> rq_hook_ask rq"
  shows "rr_decision (handle_request cfg w m rq) = Some Allow \<and> \<not> ev_user_prompted (rr_event (handle_request cfg w m rq))"
proof -
  have p: "policy_decision (rf_preflight rf) = Some Ask" using assms(3) by (simp add: policy_forced_prompt_def)
  have rf: "rf_access rf = AccWebSearch q" "\<not> rf_hook rf" "\<not> mg_yolo m'" "\<not> mg_auto m'"
    using seen_Some(1-3)[OF assms(1)] assms(2,4-6) by simp_all
  then have "decide cfg w m' rf = after_auto cfg w m' rf NotClassified False None"
    using p assms(3) by (simp add: decide_def auto_route_def Let_def)
  also have "\<dots> = settle cfg m' (AccWebSearch q) NotClassified Allow True SAFE_COMMAND"
    using rf p by (simp add: after_auto_def decide_or_prompt_def request_pre_decision_def effective_pre_decision_def Let_def)
  finally show ?thesis using assms(1) by (simp add: handle_request_seen)
qed

lemma ask_rule_on_listed_domain_ignored:
  assumes "seen cfg w m rq = Some (m', rf)" "rq_access rq = AccWebFetch url" "policy_forced_prompt (rf_preflight rf)"
    and "\<not> mg_yolo m" "\<not> mg_auto m" "\<not> rq_hook_ask rq" "pe_url_host (mc_env cfg) url = Some host"
    and "web_fetch_deny_pre_decision (mc_env cfg) url (mg_state m') = None"
    and "matcher_check (mc_env cfg) (mc_domains cfg) (Some host) (mc_url_path cfg url) = None"
  shows "rr_decision (handle_request cfg w m rq) = Some Allow \<and> \<not> ev_user_prompted (rr_event (handle_request cfg w m rq))"
proof -
  have p: "policy_decision (rf_preflight rf) = Some Ask" using assms(3) by (simp add: policy_forced_prompt_def)
  have rf: "rf_access rf = AccWebFetch url" "\<not> rf_hook rf" "\<not> mg_yolo m'" "\<not> mg_auto m'"
    using seen_Some(1-3)[OF assms(1)] assms(2,4-6) by simp_all
  then have "decide cfg w m' rf = after_auto cfg w m' rf NotClassified False None"
    using p assms(3) by (simp add: decide_def auto_route_def Let_def)
  also have "\<dots> = settle cfg m' (AccWebFetch url) NotClassified Allow True STATIC_ALLOWLIST"
    using rf p assms(7-9)
    by (simp add: after_auto_def decide_or_prompt_def request_pre_decision_def effective_pre_decision_def Let_def)
  finally show ?thesis using assms(1) by (simp add: handle_request_seen)
qed

section \<open>The actor\<close>

text \<open>
  The modes exclude each other and the pin keeps the always-approve mode off; the counters of denials stay within
  their limits; at most twelve decisions are kept, all of them the harness's own; and edits are never allowed by what
  was on disk.
\<close>

definition is_recorded :: "classifier_turn \<Rightarrow> bool" where
  "is_recorded t = (case t of RecordedDecision _ _ _ \<Rightarrow> True | _ \<Rightarrow> False)"

definition manager_ok :: "('g, 'j) manager_config \<Rightarrow> bool \<Rightarrow> 'j manager \<Rightarrow> bool" where
  "manager_ok cfg blanket m \<longleftrightarrow>
     (mc_yolo_pin cfg \<noteq> None \<longrightarrow> \<not> mg_yolo m) \<and> \<not> (mg_yolo m \<and> mg_auto m) \<and>
     mg_consecutive m \<le> mg_total m \<and> mg_consecutive m \<le> AUTO_DENY_CONSECUTIVE_LIMIT \<and> mg_total m \<le> AUTO_DENY_TOTAL_LIMIT \<and>
     length (mg_recorded m) \<le> MAX_RECORDED_PERMISSION_DECISIONS \<and> list_all is_recorded (mg_recorded m) \<and>
     st_edit_policy (mg_state m) \<noteq> EditAllow \<and> (st_allow_bash_execute (mg_state m) \<longrightarrow> blanket)"

lemma record_outcome_kept:
  "st_edit_policy (fst (record_prompt_outcome env state access outcome)) = st_edit_policy state"
  "st_allow_bash_execute (fst (record_prompt_outcome env state access outcome)) = st_allow_bash_execute state"
  by (auto simp: record_prompt_outcome_def persist_bash_always_allow_def Let_def
      split: access_kind.splits prompt_outcome.splits option.splits if_splits)

lemma record_decision_ok:
  "length turns \<le> MAX_RECORDED_PERMISSION_DECISIONS \<Longrightarrow> list_all is_recorded turns \<Longrightarrow>
   length (record_decision cfg access d o' turns) \<le> MAX_RECORDED_PERMISSION_DECISIONS \<and>
   list_all is_recorded (record_decision cfg access d o' turns)"
  by (auto simp: record_decision_def is_recorded_def list_all_iff Let_def dest: in_set_dropD split: option.splits)

lemma prompt_user_ok:
  "manager_ok cfg b m \<Longrightarrow> manager_ok cfg b (rr_manager (prompt_user cfg w m rf c why))"
  by (simp add: manager_ok_def prompt_user_def Let_def case_prod_unfold record_outcome_kept record_decision_ok)

lemma decide_or_prompt_ok:
  "manager_ok cfg b m \<Longrightarrow> manager_ok cfg b (rr_manager (decide_or_prompt cfg w m rf c forced why))"
  by (auto simp: decide_or_prompt_def prompt_user_ok split: option.splits)

lemma after_auto_ok:
  "manager_ok cfg b m \<Longrightarrow> manager_ok cfg b (rr_manager (after_auto cfg w m rf c forced why))"
  by (auto simp: after_auto_def decide_or_prompt_ok Let_def split: option.splits)

lemma after_verdict_ok:
  "manager_ok cfg b m \<Longrightarrow>
   (case after_verdict cfg m rf a outcome of
      AutoEnds r \<Rightarrow> manager_ok cfg b (rr_manager r) | AutoGoesOn m' _ _ _ \<Rightarrow> manager_ok cfg b m')"
  by (auto simp: after_verdict_def manager_ok_def Let_def split: classifier_verdict.splits if_splits)

lemma auto_route_ok:
  "manager_ok cfg b m \<Longrightarrow>
   (case auto_route cfg w m rf of
      AutoEnds r \<Rightarrow> manager_ok cfg b (rr_manager r) | AutoGoesOn m' _ _ _ \<Rightarrow> manager_ok cfg b m')"
  by (auto simp: auto_route_def Let_def after_verdict_ok split: auto_fast_path.splits option.splits access_kind.splits)

lemma decide_ok:
  assumes "manager_ok cfg b m"
  shows "manager_ok cfg b (rr_manager (decide cfg w m rf))"
proof (cases "\<exists>r. policy_decision (rf_preflight rf) = Some (Reject r)")
  case True
  with assms show ?thesis by (auto simp: decide_denies)
next
  case False
  have "manager_ok cfg b (rr_manager (late_stages cfg w m rf))"
    using auto_route_ok[OF assms, of w rf] unfolding late_stages_def
    by (cases "auto_route cfg w m rf") (simp_all add: after_auto_ok)
  with assms show ?thesis unfolding decide_stages[OF False] by (auto split: option.split)
qed

lemma reload_ok: "manager_ok cfg b m \<Longrightarrow> manager_ok cfg b (reload_grants w access m)"
  by (auto simp: manager_ok_def reload_grants_def merge_grants_from_def split: access_kind.splits option.splits)

lemma handle_request_ok: "manager_ok cfg b m \<Longrightarrow> manager_ok cfg b (rr_manager (handle_request cfg w m rq))"
  by (auto simp: handle_request_def decide_ok reload_ok Let_def split: sum.splits)

lemma manager_step_ok:
  assumes "manager_ok cfg b m"
  shows "manager_ok cfg b (manager_step cfg cmd m)"
proof (cases cmd)
  case (Request rq w)
  with assms show ?thesis by (simp add: manager_step_def handle_request_ok)
qed (use assms in \<open>auto simp: manager_step_def manager_ok_def set_yolo_mode_def set_auto_mode_def clamp_yolo_def
      reset_state_def permission_state_default_def Let_def\<close>)

inductive manager_reach :: "('g, 'j) manager_config \<Rightarrow> permission_state \<Rightarrow> 'j manager \<Rightarrow> bool" where
  start: "manager_reach cfg loaded (manager_start cfg initial_yolo loaded)"
| step: "manager_reach cfg loaded m \<Longrightarrow> manager_reach cfg loaded (manager_step cfg cmd m)"

lemma manager_start_ok: "manager_ok cfg (st_allow_bash_execute loaded) (manager_start cfg initial_yolo loaded)"
  by (auto simp: manager_ok_def manager_start_def clamp_yolo_def Let_def)

text \<open>
  C12. Whatever commands and requests reach the manager, in whatever order: a managed pin keeps the always-approve mode off, and
  that mode and the automatic one are never on together; in the automatic mode no more than three denials in a row and
  twenty in all are passed on before the user is asked; the model is shown at most twelve earlier decisions, and only
  the harness writes them; edits are not allowed from disk; and the grant of every command is had only if it was
  there when the manager started.
\<close>

theorem manager_invariant:
  assumes "manager_reach cfg loaded m"
  shows "manager_ok cfg (st_allow_bash_execute loaded) m"
  using assms by (induction rule: manager_reach.induct) (simp_all add: manager_start_ok manager_step_ok)

section \<open>Answered\<close>

lemma session_grant_answers:
  "session_grant_pre_decision env path access e state edits matcher pin = Some (d, reason) \<Longrightarrow> d \<noteq> Ask"
  by (auto simp: session_grant_pre_decision_def mcp_pre_decision_def web_fetch_deny_pre_decision_def bash_grant_pre_decision_def
      split: access_kind.splits option.splits if_splits segment_evaluation.splits)

lemma pre_decision_answers: "request_pre_decision cfg m rf forced = Some (d, reason) \<Longrightarrow> d \<noteq> Ask"
  by (auto simp: request_pre_decision_def mcp_pre_decision_def web_fetch_deny_pre_decision_def bash_grant_pre_decision_def
      Let_def bind_eq_Some_conv
      split: access_kind.splits option.splits if_splits segment_evaluation.splits edit_policy.splits)

lemma effective_from: "effective_pre_decision rf forced why pre = Some d \<Longrightarrow> pre = Some d"
  by (simp add: effective_pre_decision_def Let_def split: if_splits)

text \<open>What every result has in common.\<close>

definition result_ok :: "('g, 'j) manager_config \<Rightarrow> request_world \<Rightarrow> bool \<Rightarrow> 'j request_result \<Rightarrow> bool" where
  "result_ok cfg w hook r \<longleftrightarrow>
     (rr_decision r = None \<longrightarrow>
        rw_gone_at_dequeue w \<or> rw_gone_after_scan w \<or> rw_gone_in_classify w \<or> rw_gone_before_prompt w) \<and>
     rr_decision r \<noteq> Some Ask \<and>
     (ev_user_prompted (rr_event r) \<longrightarrow>
        mc_prompt_policy cfg \<noteq> PromptDeny \<and> (mc_prompt_policy cfg = PromptAllow \<longrightarrow> hook)) \<and>
     (rr_persisted r \<noteq> None \<longrightarrow> ev_user_prompted (rr_event r))"

lemma settle_result: "d \<noteq> Ask \<Longrightarrow> result_ok cfg w hook (settle cfg m access c d a reason)"
  by (simp add: result_ok_def)

lemma gone_result:
  "rw_gone_at_dequeue w \<or> rw_gone_after_scan w \<or> rw_gone_in_classify w \<or> rw_gone_before_prompt w \<Longrightarrow>
   result_ok cfg w hook (requester_gone cfg m access c)"
  by (simp add: result_ok_def)

lemma answered_not_ask: "fst (answered outcome recorded edits) \<noteq> Ask"
  by (cases outcome) (auto simp: answered_def user_rejected_def Let_def split: option.splits)

lemma prompt_user_result:
  "mc_prompt_policy cfg \<noteq> PromptDeny \<Longrightarrow> mc_prompt_policy cfg = PromptAllow \<longrightarrow> hook \<Longrightarrow>
   result_ok cfg w hook (prompt_user cfg w m rf c why)"
  using prompt_user_sel(1)[of cfg w m rf c why]
  by (simp add: result_ok_def) (simp add: prompt_user_def Let_def case_prod_unfold answered_not_ask)

lemma decide_or_prompt_result: "result_ok cfg w (rf_hook rf) (decide_or_prompt cfg w m rf c forced why)"
proof (cases "effective_pre_decision rf forced why (request_pre_decision cfg m rf forced)")
  case None
  then show ?thesis
    by (auto simp: decide_or_prompt_def intro: settle_result gone_result prompt_user_result)
next
  case (Some p)
  then have "fst p \<noteq> Ask" using effective_from pre_decision_answers by (metis prod.collapse)
  with Some show ?thesis by (cases p) (simp add: decide_or_prompt_def settle_result)
qed

lemma after_auto_result: "result_ok cfg w (rf_hook rf) (after_auto cfg w m rf c forced why)"
  by (auto simp: after_auto_def Let_def decide_or_prompt_result intro: settle_result split: option.splits)

lemma auto_route_result: "auto_route cfg w m rf = AutoEnds r \<Longrightarrow> result_ok cfg w (rf_hook rf) r"
  by (auto simp: auto_route_def after_verdict_def Let_def intro!: settle_result gone_result
      split: if_splits auto_fast_path.splits option.splits access_kind.splits classifier_verdict.splits)

lemma late_stages_result: "result_ok cfg w (rf_hook rf) (late_stages cfg w m rf)"
  unfolding late_stages_def by (cases "auto_route cfg w m rf") (simp_all add: after_auto_result auto_route_result)

lemma decide_result: "result_ok cfg w (rf_hook rf) (decide cfg w m rf)"
proof (cases "\<exists>r. policy_decision (rf_preflight rf) = Some (Reject r)")
  case True
  then show ?thesis by (auto simp: decide_denies intro: settle_result)
next
  case False
  have "d \<noteq> Ask" if "grant_early cfg m rf = Some (d, reason)" for d reason
    using that by (auto simp: grant_early_def dest: session_grant_answers split: if_splits)
  then show ?thesis
    unfolding decide_stages[OF False]
    by (auto intro: settle_result late_stages_result split: option.split)
qed

text \<open>
  C13. Every request is answered, unless the requester has gone at one of the four places where the manager looks; the
  answer is never another question; nobody is asked under a prompt policy that denies, nor under one that allows
  everything unless a hook wants it; and nothing is granted and written to disk without the user having been asked.
\<close>

theorem request_is_answered: "result_ok cfg w (rq_hook_ask rq) (handle_request cfg w m rq)"
proof (cases "seen cfg w m rq")
  case None
  then show ?thesis using seen_None[OF None] by (auto simp: handle_request_seen intro: gone_result)
next
  case (Some p)
  obtain m' rf where p: "p = (m', rf)" by (cases p)
  then show ?thesis
    using decide_result[of cfg w rf m'] seen_Some(3)[of cfg w m rq m' rf] Some by (simp add: handle_request_seen)
qed

section \<open>Remembered\<close>

text \<open>
  What the handler leaves behind: every answer that was remembered is kept, and where the user was asked the answer is
  recorded.
\<close>

definition leaves :: "('g, 'j) manager_config \<Rightarrow> request_world \<Rightarrow> 'j access_kind \<Rightarrow> 'j manager \<Rightarrow> 'j request_result \<Rightarrow> bool" where
  "leaves cfg w access m r \<longleftrightarrow>
     keeps_answers (mg_state m) (mg_state (rr_manager r)) \<and>
     (ev_user_prompted (rr_event r) \<longrightarrow>
        (\<exists>s. mg_state (rr_manager r) = fst (record_prompt_outcome (mc_env cfg) s access
           (answer_for access (if rw_gone_in_prompt w then PromptCancelled else rw_answer w)))))"

lemma keeps_refl [simp]: "keeps_answers s s"
  by (simp add: keeps_answers_def)

lemma keeps_trans: "keeps_answers s t \<Longrightarrow> keeps_answers t u \<Longrightarrow> keeps_answers s u"
  by (auto simp: keeps_answers_def)

lemma settle_leaves [simp]: "leaves cfg w access m (settle cfg m access' c d a reason)"
  by (simp add: leaves_def)

lemma gone_leaves [simp]: "leaves cfg w access m (requester_gone cfg m access' c)"
  by (simp add: leaves_def)

lemma prompt_user_leaves: "leaves cfg w (rf_access rf) m (prompt_user cfg w m rf c why)"
  unfolding leaves_def
  by (auto simp: prompt_user_def Let_def case_prod_unfold intro: record_keeps)

lemma decide_or_prompt_leaves: "leaves cfg w (rf_access rf) m (decide_or_prompt cfg w m rf c forced why)"
  by (auto simp: decide_or_prompt_def prompt_user_leaves split: option.splits)

lemma after_auto_leaves: "leaves cfg w (rf_access rf) m (after_auto cfg w m rf c forced why)"
  by (auto simp: after_auto_def Let_def decide_or_prompt_leaves split: option.splits)

lemma after_verdict_leaves: "after_verdict cfg m rf a outcome = AutoEnds r \<Longrightarrow> leaves cfg w access m r"
  by (auto simp: after_verdict_def leaves_def Let_def split: classifier_verdict.splits if_splits option.splits)

lemma auto_route_leaves: "auto_route cfg w m rf = AutoEnds r \<Longrightarrow> leaves cfg w access m r"
  by (auto simp: auto_route_def Let_def dest: after_verdict_leaves
      split: if_splits auto_fast_path.splits option.splits access_kind.splits)

lemma late_stages_leaves: "leaves cfg w (rf_access rf) m (late_stages cfg w m rf)"
proof (cases "auto_route cfg w m rf")
  case (AutoEnds r)
  then show ?thesis by (simp add: late_stages_def auto_route_leaves)
next
  case (AutoGoesOn m' c forced why)
  moreover have "mg_state m' = mg_state m" using auto_route_goes_on[OF AutoGoesOn] by auto
  ultimately show ?thesis
    using after_auto_leaves[of cfg w rf m' c forced why] by (simp add: late_stages_def leaves_def)
qed

lemma decide_leaves: "leaves cfg w (rf_access rf) m (decide cfg w m rf)"
proof (cases "\<exists>r. policy_decision (rf_preflight rf) = Some (Reject r)")
  case True
  then show ?thesis by (auto simp: decide_denies)
next
  case False
  then show ?thesis unfolding decide_stages[OF False] by (auto simp: late_stages_leaves split: option.split)
qed

lemma reload_keeps: "keeps_answers (mg_state m) (mg_state (reload_grants w access m))"
  by (auto simp: reload_grants_def merge_grants_from_def keeps_answers_def split: access_kind.splits option.splits)

lemma handle_request_leaves: "leaves cfg w (rq_access rq) m (handle_request cfg w m rq)"
proof (cases "seen cfg w m rq")
  case None
  then show ?thesis by (simp add: handle_request_seen leaves_def reload_keeps)
next
  case (Some p)
  obtain m' rf where p: "p = (m', rf)" by (cases p)
  note s = seen_Some[OF Some[unfolded p]]
  have "leaves cfg w (rq_access rq) m' (handle_request cfg w m rq)"
    using decide_leaves[of cfg w rf m'] s(2) Some p by (simp add: handle_request_seen)
  then show ?thesis using keeps_trans[OF reload_keeps[of m w "rq_access rq"]] s(1) by (simp add: leaves_def)
qed

lemma manager_step_keeps: "cmd \<noteq> ResetState \<Longrightarrow> keeps_answers (mg_state m) (mg_state (manager_step cfg cmd m))"
  using handle_request_leaves[of cfg]
  by (cases cmd) (auto simp: manager_step_def set_yolo_mode_def set_auto_mode_def leaves_def Let_def)

lemma manager_run_keeps: "ResetState \<notin> set cmds \<Longrightarrow> keeps_answers (mg_state m) (mg_state (fold (manager_step cfg) cmds m))"
proof (induction cmds arbitrary: m)
  case (Cons cmd cmds)
  then show ?case using keeps_trans[OF manager_step_keeps[of cmd m cfg] Cons.IH[of "manager_step cfg cmd m"]] by auto
qed simp

lemma request_evaluation_exact:
  assumes "request_evaluation cfg w m (AccBash cmd) cwd = Inr evaluation"
  shows "\<exists>e. evaluation = Some e \<and> be_segments e = be_segments (evaluate_bash (mc_env cfg) cmd (mg_state m) True) \<and>
    be_exact_grant e = be_exact_grant (evaluate_bash (mc_env cfg) cmd (mg_state m) True)"
  using assms by (auto simp: request_evaluation_def Let_def split: option.splits if_splits)

text \<open>
  C20. An allowance for good is honoured. When the user was asked about a script, an MCP tool or a URL and answered
  that it is allowed always, then after any further commands and requests other than a reset of the grants the same
  script, down to its text, the same tool, or a URL on the same host is allowed without asking, in every mode. For the
  script this holds also when it is dangerous, writes files, sets variables or cannot be decomposed. The exceptions are
  those of the code: an answer, given here or read back from disk, rejects it; the policy denies it or wants it
  confirmed, or a gate on the script does; a hook wants it confirmed; or the script would write a guarded file.
\<close>

theorem allowance_honoured:
  assumes "ev_user_prompted (rr_event (handle_request cfg w\<^sub>0 m\<^sub>0 rq\<^sub>0))" "\<not> rw_gone_in_prompt w\<^sub>0"
    and "allowed_for_good (mc_env cfg) (rq_access rq\<^sub>0) (rw_answer w\<^sub>0) (rq_access rq)"
    and "m = fold (manager_step cfg) cmds (rr_manager (handle_request cfg w\<^sub>0 m\<^sub>0 rq\<^sub>0))" "ResetState \<notin> set cmds"
    and "seen cfg w m rq = Some (m', rf)" "\<not> rejected_by (mc_env cfg) (mg_state m') (rq_access rq)"
    and "\<nexists>r. policy_decision (rf_preflight rf) = Some (Reject r)" "\<not> policy_forced_prompt (rf_preflight rf)"
    and "\<not> shell_forced_prompt (rf_preflight rf)" "\<not> rq_hook_ask rq" "rf_protected rf = None"
  shows "rr_decision (handle_request cfg w m rq) = Some Allow \<and> \<not> ev_user_prompted (rr_event (handle_request cfg w m rq))"
proof -
  let ?m = "rr_manager (handle_request cfg w\<^sub>0 m\<^sub>0 rq\<^sub>0)"
  note s = seen_Some[OF assms(6)]
  have "answer_for (rq_access rq\<^sub>0) (rw_answer w\<^sub>0) = rw_answer w\<^sub>0"
    using assms(3) by (auto simp: answer_for_def allowed_for_good_def split: access_kind.splits)
  then obtain s\<^sub>0 where s0: "mg_state ?m = fst (record_prompt_outcome (mc_env cfg) s\<^sub>0 (rq_access rq\<^sub>0) (rw_answer w\<^sub>0))"
    using handle_request_leaves[of cfg w\<^sub>0 rq\<^sub>0 m\<^sub>0] assms(1,2) by (auto simp: leaves_def)
  have keeps: "keeps_answers (mg_state ?m) (mg_state m')"
    unfolding s(1) using keeps_trans[OF manager_run_keeps[OF assms(5), of ?m cfg] reload_keeps] assms(4) by simp
  have e: "\<exists>e. rf_evaluation rf = Some e \<and> be_segments e = be_segments (evaluate_bash (mc_env cfg) cmd (mg_state m') True) \<and>
      be_exact_grant e = be_exact_grant (evaluate_bash (mc_env cfg) cmd (mg_state m') True)"
    if "rq_access rq = AccBash cmd" for cmd
    using assms(6) that request_evaluation_exact[of cfg w m' cmd "request_cwd cfg rq"]
    by (auto simp: seen_def request_facts_of_def Let_def split: if_splits sum.splits)
  have "\<not> forced_early rf" using assms(9-11) s(3) by (simp add: forced_early_def)
  with allowance_pre_decides[OF keeps[unfolded s0] assms(3,7) e] assms(12) s(2)
  obtain why where "grant_early cfg m' rf = Some (Allow, why)" unfolding grant_early_def by (metis (no_types))
  then have "rr_decision (decide cfg w m' rf) = Some Allow \<and> \<not> ev_user_prompted (rr_event (decide cfg w m' rf))"
    unfolding decide_stages[OF assms(8)] by simp
  then show ?thesis using assms(6) by (simp add: handle_request_seen)
qed

section \<open>The automatic mode as a whole\<close>

text \<open>The name of the tool comes from the access, so only a plain tool can have a name that is let through.\<close>

lemma listed_name_is_plain_tool:
  "is_auto_mode_allowlisted_tool_name (tool_name_for_access access) \<Longrightarrow> \<exists>name. access = AccTool name"
  by (cases access)
    (simp_all add: is_auto_mode_allowlisted_tool_name_def ALLOWLISTED_TOOL_NAMES_def tool_name_for_access_def lit_def)

text \<open>
  With the classifier that asks a model, a script with a finding goes through the automatic mode only when the model was
  asked about it and its answer allows it; the three commands that do nothing are let through at once.
\<close>

lemma flagged_script_judged:
  assumes "auto_says_yes cfg m rf" "mg_classifier m = Some (llm_classify ae c)" "rf_access rf = AccBash cmd"
    and "trim cmd \<notin> set (map lit [''true'', '':'', ''false''])"
    and "classifier_assessment (rf_evaluation rf) (pf_defers_gate_ask (rf_preflight rf)) \<noteq> {}"
  shows "\<exists>messages text. model_text c messages = Some (Inr text) \<and> says_allow (ae_json ae) text"
proof -
  have "auto_mode_fast_path (AccBash cmd :: 'b access_kind) (tool_name_for_access (AccBash cmd :: 'b access_kind)) False \<noteq> FastAllow"
    using assms(4) listed_name_is_plain_tool[of "AccBash cmd :: 'b access_kind"]
    by (auto simp: auto_mode_fast_path_def is_auto_mode_allowlisted_access_def)
  with assms(1-3,5) show ?thesis
    unfolding auto_says_yes_def Let_def by (auto dest!: llm_allows)
qed

section \<open>A small session\<close>

definition demo_config :: "permission_rule list \<Rightarrow> prompt_policy \<Rightarrow> (ustr, unit) manager_config" where
  "demo_config rules pp =
     \<lparr>mc_env = demo_env, mc_git_host = bare_host, mc_home = None, mc_tilde = id, mc_url_path = id,
      mc_input_json = (\<lambda>_. None), mc_command_json = id, mc_default_classifier = llm_classify demo_auto llm_default,
      mc_cwd = lit ''/w'', mc_can_prompt = True, mc_policy = Some (demo_policy rules), mc_prompt_policy = pp,
      mc_domains = Map.empty, mc_domains_default = True, mc_remember = True, mc_yolo_pin = Some (lit ''managed'')\<rparr>"

definition demo_world :: "prompt_outcome \<Rightarrow> request_world" where
  "demo_world answer =
     \<lparr>rw_gone_at_dequeue = False, rw_reloaded = None, rw_scan_failed = False, rw_gone_after_scan = False,
      rw_gone_in_classify = False, rw_sandbox_auto = True, rw_gone_before_prompt = False, rw_answer = answer,
      rw_gone_in_prompt = False, rw_gone_after_prompt = False\<rparr>"

definition demo_request :: "bool \<Rightarrow> unit permission_request" where
  "demo_request hook = \<lparr>rq_access = AccTool (lit ''sleep''), rq_path_context = None, rq_hook_ask = hook\<rparr>"

definition demo_manager :: "unit manager" where
  "demo_manager = manager_start (demo_config [] PromptAuto) True permission_state_default"

lemma demo_tool_rule:
  "evaluate_with_cwd demo_env (demo_policy [demo_rule act FAny ''*'']) (AccTool (lit ''sleep'') :: unit access_kind) cwd =
     Some (case act of RuleDeny \<Rightarrow> Reject (deny_reason (demo_rule act FAny ''*'')) | RuleAsk \<Rightarrow> Ask | RuleAllow \<Rightarrow> Allow)"
  unfolding evaluate_with_cwd_def evaluate_with_cwd_details_def evaluate_lexical_with_cwd_def demo_policy_def zip_compiled
  by (cases act) (simp_all add: permission_config_new_def demo_rule_def rule_reaches_def tool_filter_matches_def
      pattern_matches_def native_file_path_def is_tool_wide_pattern_def)

theorem denial_stands_in_every_mode_witness:
  "rr_decision (handle_request (demo_config [demo_rule RuleDeny FAny ''*''] PromptAllow) (demo_world AllowAlways)
     (demo_manager\<lparr>mg_yolo := True\<rparr>) (demo_request False)) \<noteq> Some Allow"
proof -
  have "mc_policy (demo_config [demo_rule RuleDeny FAny ''*''] PromptAllow) = Some (demo_policy [demo_rule RuleDeny FAny ''*''])"
    by (simp add: demo_config_def)
  from denial_stands_in_every_mode[OF this, of "demo_request False" "demo_world AllowAlways" "demo_manager\<lparr>mg_yolo := True\<rparr>"]
  show ?thesis by (auto simp: demo_config_def demo_request_def demo_tool_rule)
qed

text \<open>The tool is asked about, and the user says yes once.\<close>

definition demo_facts :: "permission_rule list \<Rightarrow> bool \<Rightarrow> bool \<Rightarrow> unit request_facts" where
  "demo_facts rules hook auto =
     \<lparr>rf_access = AccTool (lit ''sleep''), rf_hook = hook, rf_evaluation = None, rf_protected = None,
      rf_preflight = preflight_evaluate demo_env (Some (demo_policy rules)) (AccTool (lit ''sleep'') :: unit access_kind)
        (lit ''/w'') auto\<rparr>"

lemma demo_seen: "seen (demo_config rules pp) (demo_world answer) m (demo_request hook) = Some (m, demo_facts rules hook (mg_auto m))"
  by (simp add: seen_def demo_world_def demo_request_def reload_grants_def request_evaluation_def request_facts_of_def
      demo_config_def demo_facts_def request_cwd_def protected_target_def)

lemma demo_preflight:
  "rf_preflight (demo_facts [demo_rule act FAny ''*''] hook auto) =
     \<lparr>pf_direct = Some (case act of RuleDeny \<Rightarrow> Reject (deny_reason (demo_rule act FAny ''*'')) | RuleAsk \<Rightarrow> Ask | RuleAllow \<Rightarrow> Allow),
      pf_bash_command = None, pf_shell_file = None, pf_native_symlink_fail_closed = False, pf_defers_gate_ask = False\<rparr>"
  using demo_tool_rule[of act "Some (lit ''/w'')"]
  by (simp add: demo_facts_def preflight_evaluate_def evaluate_with_cwd_def evaluate_with_cwd_details_def native_file_path_def Let_def)

lemma demo_prompt_allows:
  "rr_decision (prompt_user (demo_config rules pp) (demo_world AllowOnce) m rf c why) = Some Allow"
  using prompt_user_sel(2)[of "demo_config rules pp" "demo_world AllowOnce" m rf c why]
  by (auto simp: demo_world_def prompt_outcome_allows_def)

lemma demo_late:
  assumes "act \<noteq> RuleDeny" "act = RuleAsk \<or> hook" "\<not> mg_yolo m" "\<not> mg_auto m"
  shows "rr_decision (handle_request (demo_config [demo_rule act FAny ''*''] PromptAsk) (demo_world AllowOnce) m (demo_request hook)) =
    Some Allow"
proof -
  let ?cfg = "demo_config [demo_rule act FAny ''*''] PromptAsk" and ?rf = "demo_facts [demo_rule act FAny ''*''] hook False"
  have rf: "rf_access ?rf = AccTool (lit ''sleep'')" "rf_hook ?rf = hook" "rf_protected ?rf = None"
    "policy_decision (rf_preflight ?rf) = Some (if act = RuleAsk then Ask else Allow)" "\<not> shell_forced_prompt (rf_preflight ?rf)"
    unfolding demo_preflight using assms(1)
    by (cases act; simp add: demo_facts_def policy_decision_def combine_decisions_def shell_forced_prompt_def gate_asks_def
        shell_file_forced_prompt_def)+
  have "effective_pre_decision ?rf False None (request_pre_decision ?cfg m ?rf False) = None"
    by (simp add: request_pre_decision_def rf(1) effective_pre_decision_def Let_def)
  then have "decide_or_prompt ?cfg (demo_world AllowOnce) m ?rf NotClassified False None =
      prompt_user ?cfg (demo_world AllowOnce) m ?rf NotClassified None"
    by (simp add: decide_or_prompt_def) (simp add: demo_config_def demo_world_def)
  moreover have "decide ?cfg (demo_world AllowOnce) m ?rf =
      decide_or_prompt ?cfg (demo_world AllowOnce) m ?rf NotClassified False None"
    using assms rf
    by (auto simp: decide_stages grant_early_def rule_early_def forced_early_def policy_forced_prompt_def late_stages_def
        auto_route_def after_auto_def Let_def)
  ultimately show ?thesis
    using assms(4) by (simp add: handle_request_seen demo_seen demo_prompt_allows)
qed

theorem confirmation_is_asked_witness:
  "ev_user_prompted (rr_event (handle_request (demo_config [demo_rule RuleAllow FAny ''*''] PromptAsk) (demo_world AllowOnce)
     (demo_manager\<lparr>mg_auto := False\<rparr>) (demo_request True)))"
proof -
  have "\<not> mg_yolo (demo_manager\<lparr>mg_auto := False\<rparr>)" "\<not> mg_auto (demo_manager\<lparr>mg_auto := False\<rparr>)"
    by (simp_all add: demo_manager_def manager_start_def clamp_yolo_def demo_config_def Let_def)
  from demo_late[OF _ _ this, of RuleAllow True]
  show ?thesis using confirmation_is_asked[of "demo_config [demo_rule RuleAllow FAny ''*''] PromptAsk" "demo_world AllowOnce"
      "demo_manager\<lparr>mg_auto := False\<rparr>" "demo_request True"]
    by (simp add: demo_request_def user_approved_def)
qed

theorem ask_rule_asks_witness:
  "ev_user_prompted (rr_event (handle_request (demo_config [demo_rule RuleAsk FAny ''*''] PromptAsk) (demo_world AllowOnce)
     (demo_manager\<lparr>mg_auto := False\<rparr>) (demo_request False)))"
proof -
  let ?m = "demo_manager\<lparr>mg_auto := False\<rparr>"
  have m: "\<not> mg_yolo ?m" "\<not> mg_auto ?m"
    by (simp_all add: demo_manager_def manager_start_def clamp_yolo_def demo_config_def Let_def)
  let ?rf = "demo_facts [demo_rule RuleAsk FAny ''*''] False False"
  have s: "seen (demo_config [demo_rule RuleAsk FAny ''*''] PromptAsk) (demo_world AllowOnce) ?m (demo_request False) = Some (?m, ?rf)"
    by (simp add: demo_seen)
  have f: "policy_forced_prompt (rf_preflight ?rf)" "rf_access ?rf = AccTool (lit ''sleep'')" "pf_direct (rf_preflight ?rf) = Some Ask"
    unfolding demo_preflight by (simp_all add: policy_forced_prompt_def policy_decision_def combine_decisions_def) (simp add: demo_facts_def)
  from demo_late[OF _ _ m, of RuleAsk False] have
    "rr_decision (handle_request (demo_config [demo_rule RuleAsk FAny ''*''] PromptAsk) (demo_world AllowOnce) ?m (demo_request False)) = Some Allow"
    by simp
  from ask_rule_asks[OF this s f(1)] m f(2,3) show ?thesis
    by (simp add: demo_request_def user_approved_def approval_remembered_def) (simp add: demo_config_def)
qed

theorem manager_invariant_witness:
  "\<not> mg_yolo (manager_step (demo_config [] PromptAuto) (SetYoloMode True) demo_manager)"
proof -
  have "manager_reach (demo_config [] PromptAuto) permission_state_default
      (manager_step (demo_config [] PromptAuto) (SetYoloMode True) demo_manager)"
    unfolding demo_manager_def by (rule manager_reach.step[OF manager_reach.start])
  from manager_invariant[OF this] show ?thesis by (simp add: manager_ok_def) (simp add: demo_config_def)
qed

text \<open>An MCP tool is asked about and allowed for good; later, in the automatic mode, it runs unasked.\<close>

definition tool_request :: "unit permission_request" where
  "tool_request = \<lparr>rq_access = AccMcp (lit ''s__t'') (), rq_path_context = None, rq_hook_ask = False\<rparr>"

definition tool_config :: "(ustr, unit) manager_config" where
  "tool_config = (demo_config [] PromptAsk)\<lparr>mc_policy := None\<rparr>"

definition tool_manager :: "unit manager" where
  "tool_manager = manager_start tool_config False permission_state_default"

definition tool_facts :: "bool \<Rightarrow> unit request_facts" where
  "tool_facts auto = request_facts_of tool_config (tool_manager\<lparr>mg_auto := auto\<rparr>) tool_request None"

lemma tool_facts_sel:
  "rf_access (tool_facts auto) = AccMcp (lit ''s__t'') ()" "\<not> rf_hook (tool_facts auto)" "rf_protected (tool_facts auto) = None"
  "policy_decision (rf_preflight (tool_facts auto)) = None" "\<not> shell_forced_prompt (rf_preflight (tool_facts auto))"
  by (simp_all add: tool_facts_def request_facts_of_def tool_request_def tool_config_def protected_target_def
      preflight_evaluate_def policy_decision_def combine_decisions_def shell_forced_prompt_def gate_asks_def
      shell_file_forced_prompt_def Let_def)

lemma tool_seen: "seen tool_config (demo_world answer) m tool_request = Some (m, tool_facts (mg_auto m))"
  by (simp add: seen_def demo_world_def tool_request_def reload_grants_def request_evaluation_def request_facts_of_def
      tool_facts_def Let_def)

lemma tool_prompted:
  "handle_request tool_config (demo_world answer) tool_manager tool_request =
   prompt_user tool_config (demo_world answer) tool_manager (tool_facts False) NotClassified None"
proof -
  let ?rf = "tool_facts False" and ?m = tool_manager
  have m: "\<not> mg_yolo ?m" "\<not> mg_auto ?m" "mg_state ?m = permission_state_default"
    by (simp_all add: tool_manager_def manager_start_def clamp_yolo_def tool_config_def demo_config_def Let_def
        permission_state_default_def)
  have "request_pre_decision tool_config ?m ?rf False = None" "grant_early tool_config ?m ?rf = None"
    by (simp_all add: request_pre_decision_def grant_early_def session_grant_pre_decision_def mcp_pre_decision_def
        mcp_server_prefix_allowed_def tool_facts_sel m permission_state_default_def Let_def)
  then show ?thesis
    using m tool_facts_sel[of False]
    by (simp add: handle_request_seen tool_seen decide_stages rule_early_def late_stages_def auto_route_def after_auto_def
        decide_or_prompt_def effective_pre_decision_def Let_def)
      (simp add: tool_config_def demo_config_def demo_world_def)
qed

theorem allowance_honoured_witness:
  "let m = manager_step tool_config (SetAutoMode True) (rr_manager (handle_request tool_config (demo_world AllowAlways) tool_manager tool_request));
       r = handle_request tool_config (demo_world RejectOnce) m tool_request
   in rr_decision r = Some Allow \<and> \<not> ev_user_prompted (rr_event r)"
proof -
  let ?r = "handle_request tool_config (demo_world AllowAlways) tool_manager tool_request"
  let ?m = "fold (manager_step tool_config) [SetAutoMode True] (rr_manager ?r)"
  have p: "ev_user_prompted (rr_event ?r)" unfolding tool_prompted by (rule prompt_user_sel(1))
  have c: "allowed_for_good (mc_env tool_config) (rq_access tool_request) (rw_answer (demo_world AllowAlways)) (rq_access tool_request)"
    by (simp add: allowed_for_good_def tool_request_def demo_world_def)
  have n: "\<not> rejected_by (mc_env tool_config) (mg_state ?m) (rq_access tool_request)"
    unfolding tool_prompted
    by (simp add: rejected_by_def tool_request_def mcp_denied_def manager_step_def set_auto_mode_def prompt_user_def
        tool_facts_sel answer_for_def demo_world_def record_prompt_outcome_def Let_def case_prod_unfold)
      (simp add: tool_manager_def manager_start_def permission_state_default_def Let_def)
  have "rr_decision (handle_request tool_config (demo_world RejectOnce) ?m tool_request) = Some Allow \<and>
      \<not> ev_user_prompted (rr_event (handle_request tool_config (demo_world RejectOnce) ?m tool_request))"
    by (rule allowance_honoured[OF p _ c refl _ tool_seen n])
      (simp_all add: tool_facts_sel policy_forced_prompt_def, simp_all add: demo_world_def tool_request_def)
  then show ?thesis by (simp add: Let_def)
qed

end
