(* ===== verification/Lhc_Gate.thy ===== *)
theory Lhc_Gate
  imports Rust_Path
begin

text \<open>
  Switching the LHC host on and off: the environment gate (\<open>crates/lhc/grok-lhc-host/src/gating.rs\<close>), the
  configuration with its precedence (\<open>runtime_config.rs\<close>) and the bridge that decides which compaction
  writes a conversation (\<open>compact.rs\<close>). The overrides compiled for tests only are left out.
\<close>

section \<open>Environment\<close>

text \<open>An environment value: Unicode, or raw bytes that are not. \<open>var\<close> fails on the latter, \<open>var_os\<close> does not.\<close>

datatype os_value = Unicode ustr | NonUnicode ustr

type_synonym environment = "ustr \<rightharpoonup> os_value"

definition env_var :: "environment \<Rightarrow> ustr \<Rightarrow> ustr option" where
  "env_var env name = (case env name of Some (Unicode v) \<Rightarrow> Some v | _ \<Rightarrow> None)"

definition env_var_os :: "environment \<Rightarrow> ustr \<Rightarrow> ustr option" where
  "env_var_os env name =
     (case env name of Some (Unicode v) \<Rightarrow> Some v | Some (NonUnicode v) \<Rightarrow> Some v | None \<Rightarrow> None)"

definition GROK_LHC :: ustr where "GROK_LHC = lit ''GROK_LHC''"
definition GROK_LHC_ROOT :: ustr where "GROK_LHC_ROOT = lit ''GROK_LHC_ROOT''"
definition GROK_LHC_EQUIVALENCE :: ustr where "GROK_LHC_EQUIVALENCE = lit ''GROK_LHC_EQUIVALENCE''"
definition GROK_LHC_INFERENCE_MODEL :: ustr where "GROK_LHC_INFERENCE_MODEL = lit ''GROK_LHC_INFERENCE_MODEL''"

definition eq_ignore_ascii_case :: "ustr \<Rightarrow> ustr \<Rightarrow> bool" where
  "eq_ignore_ascii_case a b \<longleftrightarrow> map ascii_lower a = map ascii_lower b"

section \<open>Gate\<close>

definition is_enabled :: "environment \<Rightarrow> bool" where
  "is_enabled env =
     (case env_var env GROK_LHC of
        Some v \<Rightarrow>
          (let v = trim v in
           v = lit ''1'' \<or> eq_ignore_ascii_case v (lit ''true'') \<or> eq_ignore_ascii_case v (lit ''on''))
      | None \<Rightarrow> True)"

definition home_root :: "environment \<Rightarrow> ustr" where
  "home_root env =
     (let home = (case env_var_os env (lit ''HOME'') of
                    Some h \<Rightarrow> h
                  | None \<Rightarrow> (case env_var_os env (lit ''USERPROFILE'') of Some h \<Rightarrow> h | None \<Rightarrow> lit ''.''))
      in path_join home (lit ''.grok-lhc''))"

definition lhc_root :: "environment \<Rightarrow> ustr" where
  "lhc_root env =
     (case env_var env GROK_LHC_ROOT of
        Some root \<Rightarrow> if trim root \<noteq> [] then trim root else home_root env
      | None \<Rightarrow> home_root env)"

section \<open>Configuration\<close>

record lhc_file_config =
  fc_enabled :: "bool option"
  fc_root :: "ustr option"
  fc_equivalence :: "bool option"
  fc_inference_model :: "ustr option"

datatype config_source = SrcEnv | SrcConfigFile | SrcDefault

record 'v sourced =
  sv_value :: 'v
  sv_source :: config_source

record resolved_lhc_config =
  rc_enabled :: "bool sourced"
  rc_root :: "ustr sourced"
  rc_equivalence :: "bool sourced"
  rc_inference_model :: "ustr option sourced"

definition from_source :: "'v \<Rightarrow> config_source \<Rightarrow> 'v sourced" where
  "from_source v s = \<lparr>sv_value = v, sv_source = s\<rparr>"

definition is_on :: "ustr \<Rightarrow> bool" where
  "is_on t \<longleftrightarrow> t = lit ''1'' \<or> eq_ignore_ascii_case t (lit ''true'') \<or> eq_ignore_ascii_case t (lit ''on'')"

definition is_off :: "ustr \<Rightarrow> bool" where
  "is_off t \<longleftrightarrow> t = lit ''0'' \<or> eq_ignore_ascii_case t (lit ''false'') \<or> eq_ignore_ascii_case t (lit ''off'')"

definition env_truthy :: "environment \<Rightarrow> ustr \<Rightarrow> bool option" where
  "env_truthy env name =
     (case env_var env name of
        Some v \<Rightarrow>
          (let t = trim v in
           if t = [] then None
           else if is_on t then Some True
           else if is_off t then Some False
           else Some False)
      | None \<Rightarrow> None)"

definition env_string :: "environment \<Rightarrow> ustr \<Rightarrow> ustr option" where
  "env_string env name =
     (case env_var env name of
        Some v \<Rightarrow> (let t = trim v in if t = [] then None else Some t)
      | None \<Rightarrow> None)"

definition resolve_lhc_config :: "environment \<Rightarrow> lhc_file_config \<Rightarrow> resolved_lhc_config" where
  "resolve_lhc_config env file =
     \<lparr>rc_enabled =
        (case env_truthy env GROK_LHC of
           Some v \<Rightarrow> from_source v SrcEnv
         | None \<Rightarrow>
             (case fc_enabled file of Some v \<Rightarrow> from_source v SrcConfigFile | None \<Rightarrow> from_source True SrcDefault)),
      rc_root =
        (case env_string env GROK_LHC_ROOT of
           Some v \<Rightarrow> from_source v SrcEnv
         | None \<Rightarrow>
             (case fc_root file of
                Some v \<Rightarrow> from_source v SrcConfigFile
              | None \<Rightarrow> from_source (lhc_root env) SrcDefault)),
      rc_equivalence =
        (case env_var env GROK_LHC_EQUIVALENCE of
           Some v \<Rightarrow>
             (let t = trim v in
              from_source (\<not> (eq_ignore_ascii_case t (lit ''0'') \<or> eq_ignore_ascii_case t (lit ''false'') \<or>
                              eq_ignore_ascii_case t (lit ''off''))) SrcEnv)
         | None \<Rightarrow>
             (case fc_equivalence file of
                Some v \<Rightarrow> from_source v SrcConfigFile
              | None \<Rightarrow> from_source True SrcDefault)),
      rc_inference_model =
        (case env_string env GROK_LHC_INFERENCE_MODEL of
           Some v \<Rightarrow> from_source (Some v) SrcEnv
         | None \<Rightarrow>
             (case fc_inference_model file of
                Some v \<Rightarrow> from_source (Some v) SrcConfigFile
              | None \<Rightarrow> from_source None SrcDefault))\<rparr>"

text \<open>The process state the configuration is applied to: the snapshot is kept from the first call.\<close>

record lhc_process =
  pr_env :: environment
  pr_applied :: "resolved_lhc_config option"

definition set_if_unset :: "environment \<Rightarrow> ustr \<Rightarrow> ustr option \<Rightarrow> environment" where
  "set_if_unset env name v =
     (case v of
        Some x \<Rightarrow> if env name = None then env(name \<mapsto> Unicode x) else env
      | None \<Rightarrow> env)"

definition apply_resolved_config :: "lhc_process \<Rightarrow> resolved_lhc_config \<Rightarrow> lhc_process" where
  "apply_resolved_config p resolved =
     (let env = pr_env p;
          env = set_if_unset env GROK_LHC
                  (if sv_source (rc_enabled resolved) \<noteq> SrcDefault
                   then Some (if sv_value (rc_enabled resolved) then lit ''1'' else lit ''0'') else None);
          env = set_if_unset env GROK_LHC_ROOT
                  (if sv_source (rc_root resolved) \<noteq> SrcDefault then Some (sv_value (rc_root resolved)) else None);
          env = set_if_unset env GROK_LHC_EQUIVALENCE
                  (if \<not> sv_value (rc_equivalence resolved) \<and> sv_source (rc_equivalence resolved) \<noteq> SrcDefault
                   then Some (lit ''0'') else None);
          env = set_if_unset env GROK_LHC_INFERENCE_MODEL
                  (if sv_source (rc_inference_model resolved) \<noteq> SrcDefault
                   then sv_value (rc_inference_model resolved) else None)
      in \<lparr>pr_env = env,
          pr_applied = (case pr_applied p of Some a \<Rightarrow> Some a | None \<Rightarrow> Some resolved)\<rparr>)"

section \<open>Compact bridge\<close>

datatype compact_mode = ModeOff | ModeReplace

definition native_writes :: "compact_mode \<Rightarrow> bool" where
  "native_writes m \<longleftrightarrow> m = ModeOff"

definition lhc_writes :: "compact_mode \<Rightarrow> bool" where
  "lhc_writes m \<longleftrightarrow> m = ModeReplace"

datatype compact_bridge_plan = NativeOnly | ReplaceOnceAtChoke

definition plan_from_mode :: "compact_mode \<Rightarrow> compact_bridge_plan" where
  "plan_from_mode m = (case m of ModeOff \<Rightarrow> NativeOnly | ModeReplace \<Rightarrow> ReplaceOnceAtChoke)"

definition may_replace :: "compact_bridge_plan \<Rightarrow> bool" where
  "may_replace p \<longleftrightarrow> p = ReplaceOnceAtChoke"

record compact_event_bridge =
  br_plan :: compact_bridge_plan
  br_lhc_attempts :: u32
  br_fail_open :: bool
  br_lhc_wrote :: bool

datatype compact_choke_action = RunNative | SkipNativeLhcWrote | SkipNativePending

definition bridge_new :: "compact_mode \<Rightarrow> compact_event_bridge" where
  "bridge_new mode = \<lparr>br_plan = plan_from_mode mode, br_lhc_attempts = 0, br_fail_open = False, br_lhc_wrote = False\<rparr>"

definition should_attempt_replace :: "compact_event_bridge \<Rightarrow> bool" where
  "should_attempt_replace b \<longleftrightarrow>
     may_replace (br_plan b) \<and> \<not> br_fail_open b \<and> \<not> br_lhc_wrote b \<and> br_lhc_attempts b = 0"

definition record_replace_result :: "compact_event_bridge \<Rightarrow> bool \<Rightarrow> compact_event_bridge" where
  "record_replace_result b ok =
     (let b = b\<lparr>br_lhc_attempts := sat_add32 (br_lhc_attempts b) 1\<rparr> in
      if ok then b\<lparr>br_lhc_wrote := True\<rparr> else b\<lparr>br_fail_open := True\<rparr>)"

definition choke_action :: "compact_event_bridge \<Rightarrow> compact_choke_action" where
  "choke_action b = (if br_lhc_wrote b then SkipNativeLhcWrote else RunNative)"

definition compact_mode_of :: "environment \<Rightarrow> compact_mode" where
  "compact_mode_of env = (if \<not> is_enabled env then ModeOff else ModeReplace)"

section \<open>Facts\<close>

lemma set_if_unset_keeps: "env k \<noteq> None \<Longrightarrow> set_if_unset env name v k = env k"
  by (auto simp: set_if_unset_def split: option.splits)

lemma set_if_unset_other: "k \<noteq> name \<Longrightarrow> set_if_unset env name v k = env k"
  by (auto simp: set_if_unset_def split: option.splits)

lemma set_if_unset_same: "set_if_unset env name v name = (if env name = None then map_option Unicode v else env name)"
  by (cases v) (simp_all add: set_if_unset_def)

lemma set_if_unset_None [simp]: "set_if_unset env name None = env"
  by (simp add: set_if_unset_def)

lemma lhc_names: "GROK_LHC \<noteq> GROK_LHC_ROOT" "GROK_LHC \<noteq> GROK_LHC_EQUIVALENCE" "GROK_LHC \<noteq> GROK_LHC_INFERENCE_MODEL"
  "GROK_LHC_ROOT \<noteq> GROK_LHC_EQUIVALENCE" "GROK_LHC_ROOT \<noteq> GROK_LHC_INFERENCE_MODEL"
  "GROK_LHC_EQUIVALENCE \<noteq> GROK_LHC_INFERENCE_MODEL"
  by (simp_all add: GROK_LHC_def GROK_LHC_ROOT_def GROK_LHC_EQUIVALENCE_def GROK_LHC_INFERENCE_MODEL_def lit_inject)

lemma applied_enabled:
  "pr_env (apply_resolved_config p r) GROK_LHC =
     (if pr_env p GROK_LHC = None \<and> sv_source (rc_enabled r) \<noteq> SrcDefault
      then Some (Unicode (if sv_value (rc_enabled r) then lit ''1'' else lit ''0'')) else pr_env p GROK_LHC)"
  by (simp add: apply_resolved_config_def Let_def set_if_unset_other set_if_unset_same lhc_names lhc_names[symmetric])

lemma applied_root:
  "pr_env (apply_resolved_config p r) GROK_LHC_ROOT =
     (if pr_env p GROK_LHC_ROOT = None \<and> sv_source (rc_root r) \<noteq> SrcDefault
      then Some (Unicode (sv_value (rc_root r))) else pr_env p GROK_LHC_ROOT)"
  by (simp add: apply_resolved_config_def Let_def set_if_unset_other set_if_unset_same lhc_names lhc_names[symmetric])

lemma applied_keeps: "pr_env p k \<noteq> None \<Longrightarrow> pr_env (apply_resolved_config p r) k = pr_env p k"
  by (simp add: apply_resolved_config_def Let_def set_if_unset_keeps)


lemma applied_other:
  "k \<notin> {GROK_LHC, GROK_LHC_ROOT, GROK_LHC_EQUIVALENCE, GROK_LHC_INFERENCE_MODEL} \<Longrightarrow>
   pr_env (apply_resolved_config p r) k = pr_env p k"
  by (simp add: apply_resolved_config_def Let_def set_if_unset_other)

lemma is_on_switch: "is_on (trim (lit ''1''))" "\<not> is_on (trim (lit ''0''))"
  by (simp_all add: is_on_def eq_ignore_ascii_case_def lit_def str_eval ascii_lower_def)

lemma is_enabled_eq: "is_enabled env = (case env_var env GROK_LHC of Some v \<Rightarrow> is_on (trim v) | None \<Rightarrow> True)"
  by (simp add: is_enabled_def is_on_def Let_def split: option.splits)

lemma enabled_of_env:
  "env_var env GROK_LHC = Some v \<Longrightarrow> trim v \<noteq> [] \<Longrightarrow>
   rc_enabled (resolve_lhc_config env file) = from_source (is_on (trim v)) SrcEnv"
  by (simp add: resolve_lhc_config_def env_truthy_def Let_def)

text \<open>The steps of one compact event: an attempt is made only when the bridge asks for it.\<close>

inductive bridge_run :: "compact_mode \<Rightarrow> compact_event_bridge \<Rightarrow> nat \<Rightarrow> bool \<Rightarrow> bool" for mode where
  start: "bridge_run mode (bridge_new mode) 0 False"
| attempt: "bridge_run mode b n w \<Longrightarrow> should_attempt_replace b \<Longrightarrow>
    bridge_run mode (record_replace_result b ok) (Suc n) (w \<or> ok)"

lemma bridge_run_inv:
  "bridge_run mode b n w \<Longrightarrow>
     br_plan b = plan_from_mode mode \<and> br_lhc_attempts b = n \<and> n \<le> 1 \<and> br_lhc_wrote b = w \<and>
     br_fail_open b = (n = 1 \<and> \<not> w) \<and> (w \<longrightarrow> n = 1) \<and> (0 < n \<longrightarrow> lhc_writes mode)"
proof (induction rule: bridge_run.induct)
  case start
  show ?case by (simp add: bridge_new_def)
next
  case (attempt b n w ok)
  then have "n = 0" "w = False" "lhc_writes mode"
    by (auto simp: should_attempt_replace_def may_replace_def plan_from_mode_def lhc_writes_def split: compact_mode.splits)
  with attempt show ?case
    by (auto simp: record_replace_result_def sat_add32_def u32_max_def Let_def should_attempt_replace_def)
qed

section \<open>Properties\<close>

text \<open>
  One writer per compact event: the bridge lets LHC try at most once, never when LHC is off, and
  native compaction runs exactly when LHC did not write, so a failed attempt falls back to native.
\<close>

lemma bridge_single_writer:
  assumes "bridge_run mode b n lhc_wrote"
  shows "n \<le> 1 \<and> (lhc_wrote \<longrightarrow> lhc_writes mode) \<and> (choke_action b = RunNative \<longleftrightarrow> \<not> lhc_wrote) \<and>
    (0 < n \<longrightarrow> \<not> should_attempt_replace b) \<and> (native_writes mode \<longrightarrow> n = 0 \<and> choke_action b = RunNative)"
proof -
  note i = bridge_run_inv[OF assms]
  have "n = 0" if "native_writes mode" using that i by (cases "n = 0") (auto simp: native_writes_def lhc_writes_def)
  with i show ?thesis
    by (auto simp: choke_action_def should_attempt_replace_def native_writes_def lhc_writes_def)
qed

lemma bridge_single_writer_witness:
  "choke_action (record_replace_result (bridge_new ModeReplace) False) = RunNative"
proof -
  have "bridge_run ModeReplace (record_replace_result (bridge_new ModeReplace) False) (Suc 0) (False \<or> False)"
    by (rule bridge_run.attempt[OF bridge_run.start])
      (simp add: should_attempt_replace_def bridge_new_def may_replace_def plan_from_mode_def)
  from bridge_single_writer[OF this] show ?thesis by simp
qed

text \<open>
  Gate and configuration agree after the configuration is applied, when the switch is unset or says
  something: the gate is what was resolved, variables that were set keep their values, variables other than
  the four are not touched, and a default is never written to the environment.
\<close>

lemma applied_gate_agrees:
  assumes "env = pr_env p" "r = resolve_lhc_config env file" "p' = apply_resolved_config p r"
    "env GROK_LHC = None \<or> (\<exists>v. env GROK_LHC = Some (Unicode v) \<and> trim v \<noteq> [])"
  shows "is_enabled (pr_env p') = sv_value (rc_enabled r) \<and>
    compact_mode_of (pr_env p') = (if sv_value (rc_enabled r) then ModeReplace else ModeOff) \<and>
    (\<forall>k. env k \<noteq> None \<longrightarrow> pr_env p' k = env k) \<and>
    (\<forall>k. k \<notin> {GROK_LHC, GROK_LHC_ROOT, GROK_LHC_EQUIVALENCE, GROK_LHC_INFERENCE_MODEL} \<longrightarrow> pr_env p' k = env k) \<and>
    (sv_source (rc_enabled r) = SrcDefault \<longrightarrow> pr_env p' GROK_LHC = env GROK_LHC) \<and>
    (sv_source (rc_root r) = SrcDefault \<longrightarrow> pr_env p' GROK_LHC_ROOT = env GROK_LHC_ROOT)"
proof -
  have e: "is_enabled (pr_env p') = sv_value (rc_enabled r)"
  proof (cases "env GROK_LHC")
    case None
    then have "env_truthy env GROK_LHC = None" by (simp add: env_truthy_def env_var_def)
    then have "rc_enabled r = (case fc_enabled file of Some v \<Rightarrow> from_source v SrcConfigFile | None \<Rightarrow> from_source True SrcDefault)"
      by (simp add: assms(2) resolve_lhc_config_def)
    with None show ?thesis unfolding assms(3) is_enabled_eq env_var_def applied_enabled using assms(1) is_on_switch
      by (cases "fc_enabled file") (auto simp: from_source_def)
  next
    case (Some x)
    then obtain v where v: "env GROK_LHC = Some (Unicode v)" "trim v \<noteq> []" using assms(4) by auto
    then have "env_var env GROK_LHC = Some v" by (simp add: env_var_def)
    from enabled_of_env[OF this v(2)] v show ?thesis
      unfolding assms(3) is_enabled_eq env_var_def applied_enabled using assms(1,2) by (simp add: from_source_def)
  qed
  show ?thesis using e assms(1,3)
    by (auto simp: compact_mode_of_def applied_keeps applied_other applied_enabled applied_root)
qed

lemma applied_gate_agrees_witness:
  "\<not> is_enabled (pr_env (apply_resolved_config \<lparr>pr_env = Map.empty, pr_applied = None\<rparr>
     (resolve_lhc_config Map.empty \<lparr>fc_enabled = Some False, fc_root = None, fc_equivalence = None, fc_inference_model = None\<rparr>)))"
  using applied_gate_agrees[OF _ refl refl, of Map.empty "\<lparr>pr_env = Map.empty, pr_applied = None\<rparr>"
      "\<lparr>fc_enabled = Some False, fc_root = None, fc_equivalence = None, fc_inference_model = None\<rparr>"]
  by (simp add: resolve_lhc_config_def env_truthy_def env_var_def from_source_def)

text \<open>
  They disagree on a blank switch: with \<open>GROK_LHC\<close> set to nothing but white space, the configuration
  resolves to enabled by default and applying it changes nothing, while the gate is closed and compaction off.
\<close>

lemma blank_switch_disagrees:
  "\<exists>p file. sv_value (rc_enabled (resolve_lhc_config (pr_env p) file)) \<and>
     \<not> is_enabled (pr_env (apply_resolved_config p (resolve_lhc_config (pr_env p) file))) \<and>
     compact_mode_of (pr_env (apply_resolved_config p (resolve_lhc_config (pr_env p) file))) = ModeOff"
proof -
  let ?p = "\<lparr>pr_env = [GROK_LHC \<mapsto> Unicode []], pr_applied = None\<rparr>"
  let ?file = "\<lparr>fc_enabled = None, fc_root = None, fc_equivalence = None, fc_inference_model = None\<rparr>"
  have "trim [] = []" by (simp add: str_eval)
  then have "sv_value (rc_enabled (resolve_lhc_config (pr_env ?p) ?file))"
    by (simp add: resolve_lhc_config_def env_truthy_def env_var_def from_source_def)
  moreover have "\<not> is_on (trim [])" by (simp add: is_on_def eq_ignore_ascii_case_def lit_def str_eval)
  then have "\<not> is_enabled (pr_env (apply_resolved_config ?p r))" for r
    unfolding is_enabled_eq env_var_def applied_enabled by simp
  ultimately show ?thesis unfolding compact_mode_of_def by metis
qed

end
