(* ===== verification/Lhc_Keys.thy ===== *)
theory Lhc_Keys
  imports Rust_Prelude
begin

text \<open>
  Idempotency keys of the LHC capture (\<open>crates/lhc/grok-lhc-host/src/idempotency.rs\<close>). The archive drops
  an event whose key it has already stored, so keys decide what is recorded: the same item replayed must
  get the same key, a new one a fresh key, also after a restart that only sees the stored keys.

  A tracker maps the digest of an item to the next occurrence; digests are what the hash function returns.
\<close>

abbreviation COLON :: uchar where "COLON \<equiv> 58"
abbreviation PERCENT :: uchar where "PERCENT \<equiv> 37"

definition ITEM_KEY_GENERATION :: nat where "ITEM_KEY_GENERATION = 0"

section \<open>Occurrence tracker\<close>

type_synonym occurrence_tracker = "ustr \<rightharpoonup> u64"

definition occurrence_tracker_new :: occurrence_tracker where
  "occurrence_tracker_new = Map.empty"

definition count_of :: "occurrence_tracker \<Rightarrow> ustr \<Rightarrow> u64" where
  "count_of t digest = (case t digest of Some n \<Rightarrow> n | None \<Rightarrow> 0)"

definition sat_inc64 :: "u64 \<Rightarrow> u64" where
  "sat_inc64 n = min (n + 1) u64_max"

definition tracker_next :: "occurrence_tracker \<Rightarrow> ustr \<Rightarrow> u64 \<times> occurrence_tracker" where
  "tracker_next t digest =
     (let occ = count_of t digest in (occ, t(digest \<mapsto> wrap_inc64 occ)))"

definition merge_monotonic :: "occurrence_tracker \<Rightarrow> occurrence_tracker \<Rightarrow> occurrence_tracker" where
  "merge_monotonic t other =
     (\<lambda>digest. case other digest of
        None \<Rightarrow> t digest
      | Some other_next \<Rightarrow> Some (max (count_of t digest) other_next))"

definition observe :: "occurrence_tracker \<Rightarrow> ustr \<Rightarrow> u64 \<Rightarrow> occurrence_tracker" where
  "observe t digest occ = t(digest \<mapsto> max (count_of t digest) (sat_inc64 occ))"

section \<open>Keys\<close>

definition encode_session_id :: "ustr \<Rightarrow> ustr" where
  "encode_session_id session_id =
     replace_all [COLON] (lit ''%3A'') (replace_all [PERCENT] (lit ''%25'') session_id)"

definition item_event_key :: "ustr \<Rightarrow> u64 \<Rightarrow> ustr \<Rightarrow> u64 \<Rightarrow> ustr \<Rightarrow> ustr option \<Rightarrow> ustr" where
  "item_event_key session_id generation digest occurrence event_kind part =
     (let sid = encode_session_id session_id;
          head = lit ''grok:'' @ sid @ lit '':g'' @ nat_str generation @ [COLON] @ digest @ [COLON] @
                 nat_str occurrence @ [COLON] @ event_kind
      in case part of Some part \<Rightarrow> head @ [COLON] @ part | None \<Rightarrow> head)"

definition model_change_key :: "ustr \<Rightarrow> u64 \<Rightarrow> ustr \<Rightarrow> ustr \<Rightarrow> ustr" where
  "model_change_key session_id ordinal previous new =
     lit ''grok:'' @ encode_session_id session_id @ lit '':model_change:'' @ nat_str ordinal @ [COLON] @
     previous @ [COLON] @ new"

definition thinking_level_change_key :: "ustr \<Rightarrow> u64 \<Rightarrow> ustr \<Rightarrow> ustr \<Rightarrow> ustr" where
  "thinking_level_change_key session_id ordinal previous new =
     lit ''grok:'' @ encode_session_id session_id @ lit '':thinking_level_change:'' @ nat_str ordinal @ [COLON] @
     previous @ [COLON] @ new"

section \<open>Seeding from stored keys\<close>

definition change_ordinal :: "ustr \<Rightarrow> ustr \<Rightarrow> u64 option" where
  "change_ordinal marker key =
     (case find_str marker key of
        None \<Rightarrow> None
      | Some idx \<Rightarrow> parse_uint u64_max (hd (split_char COLON (drop (idx + length marker) key))))"

definition max_change_ordinal_from_keys :: "ustr list \<Rightarrow> u64" where
  "max_change_ordinal_from_keys keys =
     foldl (\<lambda>mx key.
       foldl (\<lambda>mx marker. case change_ordinal marker key of Some n \<Rightarrow> max mx (sat_inc64 n) | None \<Rightarrow> mx)
         mx [lit '':model_change:'', lit '':thinking_level_change:'']) 0 keys"

text \<open>\<open>split_once\<close> and \<open>splitn\<close> with a character.\<close>

definition split_once :: "uchar \<Rightarrow> ustr \<Rightarrow> (ustr \<times> ustr) option" where
  "split_once c s =
     (if c \<in> set s then Some (takeWhile (\<lambda>x. x \<noteq> c) s, drop 1 (dropWhile (\<lambda>x. x \<noteq> c) s)) else None)"

fun splitn :: "nat \<Rightarrow> uchar \<Rightarrow> ustr \<Rightarrow> ustr list" where
  "splitn 0 c s = []"
| "splitn (Suc 0) c s = [s]"
| "splitn (Suc (Suc n)) c s =
     (case split_once c s of None \<Rightarrow> [s] | Some (a, r) \<Rightarrow> a # splitn (Suc n) c r)"

definition parse_item_key_digest_occ :: "ustr \<Rightarrow> (ustr \<times> u64) option" where
  "parse_item_key_digest_occ key =
     (case strip_prefix (lit ''grok:'') key of
        None \<Rightarrow> None
      | Some rest \<Rightarrow>
          (case split_once COLON rest of
             None \<Rightarrow> None
           | Some (_, after_sid) \<Rightarrow>
               (case strip_prefix (lit ''g'') after_sid of
                  None \<Rightarrow> None
                | Some after_g \<Rightarrow>
                    (case splitn 4 COLON after_g of
                       _ # digest # occ_str # _ # _ \<Rightarrow>
                         (case parse_uint u64_max occ_str of
                            None \<Rightarrow> None
                          | Some occ \<Rightarrow> if digest = [] then None else Some (digest, occ))
                     | _ \<Rightarrow> None))))"

definition seed_occurrence_from_keys :: "ustr list \<Rightarrow> occurrence_tracker" where
  "seed_occurrence_from_keys keys =
     foldl (\<lambda>t key. case parse_item_key_digest_occ key of
                      Some (digest, occ) \<Rightarrow> observe t digest occ
                    | None \<Rightarrow> t) occurrence_tracker_new keys"

section \<open>Facts\<close>

subsection \<open>Session ids\<close>

definition encode_char :: "uchar \<Rightarrow> ustr" where
  "encode_char c = (if c = PERCENT then lit ''%25'' else if c = COLON then lit ''%3A'' else [c])"

lemma replace_single: "replace_all [p] rep s = concat (map (\<lambda>c. if c = p then rep else [c]) s)"
  by (induction s) auto

lemma encode_eq: "encode_session_id s = concat (map encode_char s)"
  by (induction s) (auto simp: encode_session_id_def replace_single encode_char_def lit_def)

lemma encode_no_colon: "COLON \<notin> set (encode_session_id s)"
  by (auto simp: encode_eq encode_char_def lit_def split: if_splits)

lemma encode_char_prefix: "encode_char a @ x = encode_char b @ y \<Longrightarrow> a = b \<and> x = y"
  by (auto simp: encode_char_def lit_def split: if_splits)

lemma encode_char_nonempty: "encode_char a \<noteq> []"
  by (simp add: encode_char_def lit_def)

lemma encode_inject: "encode_session_id s = encode_session_id t \<longleftrightarrow> s = t"
proof
  assume "encode_session_id s = encode_session_id t"
  then have "concat (map encode_char s) = concat (map encode_char t)" by (simp add: encode_eq)
  then show "s = t"
  proof (induction s arbitrary: t)
    case Nil
    then show ?case using encode_char_nonempty by (cases t) auto
  next
    case (Cons a s)
    obtain b t' where t: "t = b # t'" using Cons.prems encode_char_nonempty by (cases t) auto
    with Cons.prems have "a = b \<and> concat (map encode_char s) = concat (map encode_char t')"
      by (intro encode_char_prefix) simp
    with Cons.IH t show ?case by simp
  qed
qed simp

subsection \<open>Splitting\<close>

lemma colon_split: "COLON \<notin> set a \<Longrightarrow> split_once COLON (a @ COLON # r) = Some (a, r)"
  by (induction a) (auto simp: split_once_def)

lemma colon_split_iff:
  "COLON \<notin> set a \<Longrightarrow> COLON \<notin> set b \<Longrightarrow> a @ COLON # r = b @ COLON # q \<longleftrightarrow> a = b \<and> r = q"
  by (metis colon_split option.inject prod.inject)

lemma colon_end: "COLON \<notin> set a \<Longrightarrow> COLON \<notin> set b \<Longrightarrow> a @ COLON # r \<noteq> b"
  by auto

definition key_plain :: "ustr \<Rightarrow> bool" where
  "key_plain s \<longleftrightarrow> COLON \<notin> set s \<and> s \<noteq> []"

definition key_tail :: "ustr \<Rightarrow> ustr option \<Rightarrow> ustr" where
  "key_tail kind part = (case part of Some p \<Rightarrow> kind @ COLON # p | None \<Rightarrow> kind)"

lemma item_event_key_eq:
  "item_event_key s g d n k p =
     lit ''grok:'' @ encode_session_id s @ COLON # 103 # nat_str g @ COLON # d @ COLON # nat_str n @ COLON # key_tail k p"
  by (auto simp: item_event_key_def key_tail_def Let_def lit_def split: option.splits)

lemma key_tail_inject:
  "key_plain k \<Longrightarrow> key_plain k' \<Longrightarrow> key_tail k p = key_tail k' p' \<longleftrightarrow> k = k' \<and> p = p'"
  by (cases p; cases p') (auto simp: key_tail_def key_plain_def colon_split_iff colon_end dest: colon_end[rotated 2])

lemma parse_item_event_key:
  assumes "key_plain d" "n \<le> u64_max"
  shows "parse_item_key_digest_occ (item_event_key s g d n k p) = Some (d, n)"
proof -
  let ?after_g = "nat_str g @ COLON # d @ COLON # nat_str n @ COLON # key_tail k p"
  have "strip_prefix (lit ''grok:'') (item_event_key s g d n k p) = Some (encode_session_id s @ COLON # 103 # ?after_g)"
    by (simp add: item_event_key_eq strip_prefix_Some_iff)
  moreover have "split_once COLON (encode_session_id s @ COLON # 103 # ?after_g) = Some (encode_session_id s, 103 # ?after_g)"
    by (rule colon_split[OF encode_no_colon])
  moreover have "strip_prefix (lit ''g'') (103 # ?after_g) = Some ?after_g" by (simp add: strip_prefix_Some_iff lit_def)
  moreover have "splitn 4 COLON ?after_g = [nat_str g, d, nat_str n, key_tail k p]"
    using assms(1) nat_str_no_colon by (simp add: eval_nat_numeral key_plain_def colon_split)
  ultimately show ?thesis
    using assms by (simp add: parse_item_key_digest_occ_def parse_uint_nat_str key_plain_def)
qed

subsection \<open>Seeding\<close>

lemma count_observe: "count_of (observe t d n) e = (if e = d then max (count_of t d) (sat_inc64 n) else count_of t e)"
  by (simp add: observe_def count_of_def)

definition seed_step :: "occurrence_tracker \<Rightarrow> ustr \<Rightarrow> occurrence_tracker" where
  "seed_step t key = (case parse_item_key_digest_occ key of Some (d, n) \<Rightarrow> observe t d n | None \<Rightarrow> t)"

lemma seed_eq: "seed_occurrence_from_keys keys = foldl seed_step occurrence_tracker_new keys"
  by (simp add: seed_occurrence_from_keys_def seed_step_def[abs_def])

lemma seed_step_mono: "count_of t d \<le> count_of (seed_step t key) d"
  by (auto simp: seed_step_def count_observe split: option.splits prod.splits)

lemma seed_mono: "count_of t d \<le> count_of (foldl seed_step t keys) d"
  by (induction keys arbitrary: t) (auto intro: order_trans[OF seed_step_mono])

lemma seed_covers:
  assumes "key \<in> set keys" "parse_item_key_digest_occ key = Some (d, n)"
  shows "sat_inc64 n \<le> count_of (foldl seed_step t keys) d"
  using assms
proof (induction keys arbitrary: t)
  case (Cons k ks)
  show ?case
  proof (cases "key = k")
    case True
    then have "sat_inc64 n \<le> count_of (seed_step t k) d" using Cons.prems(2) by (simp add: seed_step_def count_observe)
    also have "\<dots> \<le> count_of (foldl seed_step (seed_step t k) ks) d" by (rule seed_mono)
    finally show ?thesis by simp
  qed (use Cons in auto)
qed simp

lemma seed_bounded:
  assumes "\<And>key n. key \<in> set keys \<Longrightarrow> parse_item_key_digest_occ key = Some (d, n) \<Longrightarrow> sat_inc64 n \<le> m"
    "count_of t d \<le> m"
  shows "count_of (foldl seed_step t keys) d \<le> m"
  using assms
proof (induction keys arbitrary: t)
  case (Cons k ks)
  have "count_of (seed_step t k) d \<le> m"
    using Cons.prems by (auto simp: seed_step_def count_observe split: option.splits prod.splits)
  moreover have "\<And>key n. key \<in> set ks \<Longrightarrow> parse_item_key_digest_occ key = Some (d, n) \<Longrightarrow> sat_inc64 n \<le> m"
    using Cons.prems(1) by auto
  ultimately show ?case using Cons.IH[of "seed_step t k"] by simp
qed simp


subsection \<open>Trackers after a restart\<close>

text \<open>The trackers a worker can have after it was seeded from the stored keys.\<close>

inductive tracker_run :: "ustr list \<Rightarrow> occurrence_tracker \<Rightarrow> bool" for keys where
  seeded: "tracker_run keys (seed_occurrence_from_keys keys)"
| step: "tracker_run keys t \<Longrightarrow> count_of t d < u64_max \<Longrightarrow> tracker_run keys (snd (tracker_next t d))"
| merge: "tracker_run keys t \<Longrightarrow> tracker_run keys (merge_monotonic t other)"
| observe: "tracker_run keys t \<Longrightarrow> tracker_run keys (observe t d n)"

lemma count_next:
  "count_of (snd (tracker_next t d)) e = (if e = d then wrap_inc64 (count_of t d) else count_of t e)"
  by (simp add: tracker_next_def count_of_def Let_def)

lemma wrap_inc64_small: "n < u64_max \<Longrightarrow> wrap_inc64 n = n + 1"
  by (simp add: wrap_inc64_def u64_max_def)

lemma count_merge: "count_of t d \<le> count_of (merge_monotonic t other) d"
  by (auto simp: merge_monotonic_def count_of_def split: option.splits)

lemma tracker_run_mono:
  "tracker_run keys t \<Longrightarrow> count_of (seed_occurrence_from_keys keys) d \<le> count_of t d"
proof (induction rule: tracker_run.induct)
  case (step t e)
  then show ?case by (auto simp: count_next wrap_inc64_small)
next
  case (merge t other)
  then show ?case using count_merge order_trans by blast
next
  case (observe t e n)
  then show ?case by (auto simp: count_observe)
qed simp

subsection \<open>Minting keys\<close>

text \<open>
  Keys of a sequence of items: each item is its digest and the kinds and parts of the events it maps to.
\<close>

fun mint_keys :: "ustr \<Rightarrow> occurrence_tracker \<Rightarrow> (ustr \<times> (ustr \<times> ustr option) list) list \<Rightarrow> ustr list \<times> occurrence_tracker" where
  "mint_keys session t [] = ([], t)"
| "mint_keys session t ((d, evs) # its) =
     (let (occ, t) = tracker_next t d;
          (keys, t) = mint_keys session t its
      in (map (\<lambda>(k, p). item_event_key session ITEM_KEY_GENERATION d occ k p) evs @ keys, t))"

definition uses :: "ustr \<Rightarrow> (ustr \<times> 'e) list \<Rightarrow> nat" where
  "uses d its = length (filter (\<lambda>(x, _). x = d) its)"

lemma uses_simps [simp]:
  "uses d [] = 0" "uses d ((x, e) # its) = (if x = d then 1 else 0) + uses d its"
  by (simp_all add: uses_def)

lemma mint_count:
  assumes "\<And>d. count_of t d + uses d its \<le> u64_max"
  shows "count_of (snd (mint_keys s t its)) d = count_of t d + uses d its"
  using assms
proof (induction s t its rule: mint_keys.induct)
  case (2 s t x evs its)
  have x: "count_of t x < u64_max" using 2(2)[of x] by simp
  have "count_of (snd (tracker_next t x)) e + uses e its \<le> u64_max" for e
    using 2(2)[of e] x by (auto simp: count_next wrap_inc64_small)
  from 2(1)[OF refl prod.collapse this] x show ?case
    by (auto simp: split_beta Let_def count_next wrap_inc64_small)
qed simp

lemma mint_occ:
  assumes "\<And>d. count_of t d + uses d its \<le> u64_max" "key \<in> set (fst (mint_keys s t its))"
  shows "\<exists>d n k p. key = item_event_key s ITEM_KEY_GENERATION d n k p \<and> d \<in> fst ` set its \<and>
    count_of t d \<le> n \<and> n < count_of t d + uses d its"
  using assms
proof (induction s t its rule: mint_keys.induct)
  case (2 s t x evs its)
  have x: "count_of t x < u64_max" using 2(2)[of x] by simp
  have b: "count_of (snd (tracker_next t x)) e + uses e its \<le> u64_max" for e
    using 2(2)[of e] x by (auto simp: count_next wrap_inc64_small)
  consider (here) k p where "(k, p) \<in> set evs" "key = item_event_key s ITEM_KEY_GENERATION x (count_of t x) k p"
    | (later) "key \<in> set (fst (mint_keys s (snd (tracker_next t x)) its))"
    using 2(3) by (auto simp: split_beta Let_def tracker_next_def)
  then show ?case
  proof cases
    case here
    then show ?thesis by (intro exI[of _ x] exI[of _ "count_of t x"] exI[of _ k] exI[of _ p]) simp
  next
    case later
    obtain d n k p where r: "key = item_event_key s ITEM_KEY_GENERATION d n k p" "d \<in> fst ` set its"
      "count_of (snd (tracker_next t x)) d \<le> n" "n < count_of (snd (tracker_next t x)) d + uses d its"
      using 2(1)[OF refl prod.collapse b later] by blast
    then show ?thesis using x by (intro exI[of _ d] exI[of _ n] exI[of _ k] exI[of _ p])
        (auto simp: count_next wrap_inc64_small split: if_splits)
  qed
qed simp

lemma mint_last:
  assumes "\<And>d. count_of t d + uses d its \<le> u64_max" "0 < uses d its" "\<forall>(x, evs) \<in> set its. evs \<noteq> []"
  shows "\<exists>k p. item_event_key s ITEM_KEY_GENERATION d (count_of t d + uses d its - 1) k p \<in> set (fst (mint_keys s t its))"
  using assms
proof (induction s t its rule: mint_keys.induct)
  case (2 s t x evs its)
  have x: "count_of t x < u64_max" using 2(2)[of x] by simp
  have b: "count_of (snd (tracker_next t x)) e + uses e its \<le> u64_max" for e
    using 2(2)[of e] x by (auto simp: count_next wrap_inc64_small)
  show ?case
  proof (cases "0 < uses d its")
    case True
    obtain k p where "item_event_key s ITEM_KEY_GENERATION d
        (count_of (snd (tracker_next t x)) d + uses d its - 1) k p \<in> set (fst (mint_keys s (snd (tracker_next t x)) its))"
      using 2(1)[OF refl prod.collapse b True] 2(4) by auto
    moreover have "count_of (snd (tracker_next t x)) d + uses d its = count_of t d + uses d ((x, evs) # its)"
      using x by (auto simp: count_next wrap_inc64_small)
    ultimately show ?thesis by (intro exI[of _ k] exI[of _ p]) (simp add: split_beta Let_def)
  next
    case False
    then have d: "d = x" "uses d its = 0" using 2(3) by (auto split: if_splits)
    obtain k p where "(k, p) \<in> set evs" using 2(4) by (cases evs) auto
    then show ?thesis using d
      by (intro exI[of _ k] exI[of _ p]) (auto simp: split_beta Let_def tracker_next_def image_iff intro!: bexI[of _ "(k, p)"])
  qed
qed simp

lemma seed_mint:
  assumes "\<And>d. uses d its \<le> u64_max" "\<forall>(x, evs) \<in> set its. key_plain x \<and> evs \<noteq> []"
  shows "count_of (seed_occurrence_from_keys (fst (mint_keys s occurrence_tracker_new its))) d = uses d its"
proof -
  let ?keys = "fst (mint_keys s occurrence_tracker_new its)"
  have c0: "count_of occurrence_tracker_new e = 0" for e by (simp add: count_of_def occurrence_tracker_new_def)
  have b: "count_of occurrence_tracker_new e + uses e its \<le> u64_max" for e using assms(1) c0 by simp
  have evs: "\<forall>(x, evs) \<in> set its. evs \<noteq> []" using assms(2) by auto
  have plain_of: "key_plain e" if "e \<in> fst ` set its" for e using that assms(2) by auto
  have "sat_inc64 n \<le> uses d its" if key: "key \<in> set ?keys" "parse_item_key_digest_occ key = Some (d, n)" for key n
  proof -
    obtain e m k p where k: "key = item_event_key s ITEM_KEY_GENERATION e m k p" "e \<in> fst ` set its" "m < uses e its"
      using mint_occ[OF b key(1)] unfolding c0 by (metis add_0)
    then have "parse_item_key_digest_occ key = Some (e, m)"
      using parse_item_event_key[OF plain_of[OF k(2)], of m] assms(1)[of e] by simp
    with key(2) k show ?thesis by (simp add: sat_inc64_def)
  qed
  then have "count_of (seed_occurrence_from_keys ?keys) d \<le> uses d its"
    unfolding seed_eq by (intro seed_bounded) (auto simp: c0)
  moreover have "uses d its \<le> count_of (seed_occurrence_from_keys ?keys) d"
  proof (cases "0 < uses d its")
    case True
    obtain k p where "item_event_key s ITEM_KEY_GENERATION d (uses d its - 1) k p \<in> set ?keys"
      using mint_last[OF b True evs] unfolding c0 add_0 by blast
    moreover have "d \<in> fst ` set its" using True by (auto simp: uses_def image_iff filter_empty_conv split_beta)
    then have "parse_item_key_digest_occ (item_event_key s ITEM_KEY_GENERATION d (uses d its - 1) k p) = Some (d, uses d its - 1)"
      using assms(1)[of d] by (intro parse_item_event_key plain_of) auto
    ultimately have "sat_inc64 (uses d its - 1) \<le> count_of (seed_occurrence_from_keys ?keys) d"
      unfolding seed_eq by (rule seed_covers)
    then show ?thesis using True assms(1)[of d] by (simp add: sat_inc64_def)
  qed simp
  ultimately show ?thesis by simp
qed

text \<open>Minting depends on a tracker only through its counts.\<close>

lemma mint_cong: "(\<And>d. count_of t d = count_of t' d) \<Longrightarrow> fst (mint_keys s t its) = fst (mint_keys s t' its)"
proof (induction its arbitrary: t t')
  case (Cons it its)
  obtain x evs where it: "it = (x, evs)" by (cases it)
  have "fst (mint_keys s (snd (tracker_next t x)) its) = fst (mint_keys s (snd (tracker_next t' x)) its)"
    using Cons.prems by (intro Cons.IH) (simp add: count_next)
  moreover have "fst (tracker_next t x) = fst (tracker_next t' x)" using Cons.prems by (simp add: tracker_next_def Let_def)
  ultimately show ?case by (simp add: it split_beta Let_def)
qed simp

lemma mint_append:
  "fst (mint_keys s t (a @ b)) = fst (mint_keys s t a) @ fst (mint_keys s (snd (mint_keys s t a)) b)"
  by (induction a arbitrary: t) (auto simp: split_beta Let_def)

lemma item_event_key_injective:
  assumes "key_plain d" "key_plain d'" "key_plain k" "key_plain k'"
  shows "item_event_key s g d n k p = item_event_key s' g' d' n' k' p' \<longleftrightarrow>
    s = s' \<and> g = g' \<and> d = d' \<and> n = n' \<and> k = k' \<and> p = p'"
  using assms nat_str_no_colon encode_no_colon
  by (auto simp: item_event_key_eq key_plain_def colon_split_iff encode_inject nat_str_inject key_tail_inject)

text \<open>A restart is invisible in the keys.\<close>

lemma restart_keys:
  assumes "\<forall>d. uses d before \<le> u64_max" "\<forall>(x, evs) \<in> set before. key_plain x \<and> evs \<noteq> []"
    "stored = fst (mint_keys s occurrence_tracker_new before)"
  shows "stored @ fst (mint_keys s (seed_occurrence_from_keys stored) after) =
    fst (mint_keys s occurrence_tracker_new (before @ after))"
proof -
  have "count_of occurrence_tracker_new d = 0" for d by (simp add: count_of_def occurrence_tracker_new_def)
  then have "count_of (snd (mint_keys s occurrence_tracker_new before)) d = uses d before" for d
    using mint_count[of occurrence_tracker_new before s d] assms(1) by simp
  then have "count_of (seed_occurrence_from_keys stored) d = count_of (snd (mint_keys s occurrence_tracker_new before)) d" for d
    unfolding assms(3) using seed_mint[of before s d] assms(1,2) by simp
  from mint_cong[OF this] show ?thesis unfolding mint_append assms(3) by simp
qed

section \<open>Properties\<close>

text \<open>
  Keys identify events: two keys are equal only if session, generation, digest, occurrence, kind and
  part are, whatever characters the session id and the part contain.
\<close>

lemma item_event_key_inject:
  assumes "key_plain d" "key_plain d'" "key_plain k" "key_plain k'"
  shows "item_event_key s g d n k p = item_event_key s' g' d' n' k' p' \<longleftrightarrow>
    s = s' \<and> g = g' \<and> d = d' \<and> n = n' \<and> k = k' \<and> p = p'"
  by (rule item_event_key_injective[OF assms])

text \<open>
  A new event is never taken for a stored one: with any tracker reached from the stored keys, the
  key minted for the next occurrence of an item is not among the stored keys.
\<close>

lemma fresh_key_not_stored:
  assumes "tracker_run keys t" "key_plain d" "count_of t d < u64_max"
  shows "item_event_key s g d (fst (tracker_next t d)) k p \<notin> set keys"
proof
  let ?n = "fst (tracker_next t d)"
  have n: "?n = count_of t d" by (simp add: tracker_next_def Let_def)
  assume "item_event_key s g d ?n k p \<in> set keys"
  moreover have "parse_item_key_digest_occ (item_event_key s g d ?n k p) = Some (d, ?n)"
    using assms(2,3) n by (intro parse_item_event_key) auto
  ultimately have "sat_inc64 ?n \<le> count_of (seed_occurrence_from_keys keys) d" unfolding seed_eq by (rule seed_covers)
  also have "\<dots> \<le> count_of t d" by (rule tracker_run_mono[OF assms(1)])
  finally show False using assms(3) n by (simp add: sat_inc64_def)
qed


definition some_digest :: ustr where "some_digest = lit ''ab''"

lemma some_digest_plain: "key_plain some_digest" by (simp add: key_plain_def some_digest_def lit_def)

lemma item_event_key_inject_witness:
  "item_event_key (lit ''a:b'') 0 some_digest 1 (lit ''tool_call'') (Some (lit ''x:y'')) \<noteq>
   item_event_key (lit ''a'') 0 some_digest 1 (lit ''tool_call'') (Some (lit ''x:y''))"
  using item_event_key_inject[OF some_digest_plain some_digest_plain, of "lit ''tool_call''" "lit ''tool_call''"]
  by (simp add: key_plain_def lit_def)

lemma fresh_key_not_stored_witness:
  "item_event_key (lit ''s'') 0 some_digest
     (fst (tracker_next (seed_occurrence_from_keys [item_event_key (lit ''s'') 0 some_digest 0 (lit ''user_prompt'') None]) some_digest))
     (lit ''user_prompt'') None
   \<notin> set [item_event_key (lit ''s'') 0 some_digest 0 (lit ''user_prompt'') None]"
proof (rule fresh_key_not_stored[OF tracker_run.seeded some_digest_plain])
  let ?k = "item_event_key (lit ''s'') 0 some_digest 0 (lit ''user_prompt'') None"
  have "parse_item_key_digest_occ ?k = Some (some_digest, 0)"
    by (rule parse_item_event_key[OF some_digest_plain]) simp
  then show "count_of (seed_occurrence_from_keys [?k]) some_digest < u64_max"
    by (simp add: seed_eq seed_step_def count_observe) (simp add: sat_inc64_def count_of_def occurrence_tracker_new_def u64_max_def)
qed

end
