(* ===== verification/Conversation.thy ===== *)
theory Conversation
  imports Rust_Prelude "HOL-Library.AList"
begin

text \<open>
  The conversation items every backend shares
  (\<open>crates/codegen/xai-grok-sampling-types/src/conversation.rs\<close>) and JSON values.

  Values of the API client's own types (statuses, actions, outputs, efforts) that the modelled code only
  passes on are of the type variable \<open>'x\<close>. Of the client's structs the fields that are read are kept.
  A \<open>serde_json\<close> object keeps the order of its keys: inserting a present key replaces its value in place.
\<close>

section \<open>JSON values\<close>

datatype json_number = PosInt u64 | NegInt int | FloatBits u64

datatype json =
    JNull | JBool bool | JNumber json_number | JString ustr | JArray "json list" | JObject "(ustr \<times> json) list"

type_synonym json_map = "(ustr \<times> json) list"

definition json_insert :: "string \<Rightarrow> json \<Rightarrow> json_map \<Rightarrow> json_map" where
  "json_insert k v m = AList.update (lit k) v m"

definition json_get :: "json_map \<Rightarrow> string \<Rightarrow> json option" where
  "json_get m k = map_of m (lit k)"

definition as_str :: "json \<Rightarrow> ustr option" where
  "as_str v = (case v of JString s \<Rightarrow> Some s | _ \<Rightarrow> None)"

definition as_object :: "json \<Rightarrow> json_map option" where
  "as_object v = (case v of JObject m \<Rightarrow> Some m | _ \<Rightarrow> None)"

definition as_array :: "json \<Rightarrow> json list option" where
  "as_array v = (case v of JArray xs \<Rightarrow> Some xs | _ \<Rightarrow> None)"

lemma json_get_insert: "json_get (json_insert k v m) j = (if j = k then Some v else json_get m j)"
  by (auto simp: json_get_def json_insert_def update_conv lit_inject)

lemma json_get_Nil [simp]: "json_get [] j = None"
  by (simp add: json_get_def)

lemma json_as [simp]:
  "as_str (JString s) = Some s" "as_object (JObject m) = Some m" "as_array (JArray xs) = Some xs"
  by (simp_all add: as_str_def as_object_def as_array_def)

section \<open>Conversation items\<close>

datatype synthetic_reason =
    Human | Primary | CompactionMeta | SystemReminder | LengthContinue | ProjectInstructions
  | AutoContinue | AutoRecovery | Interjection | AgentMessage | TaskCompleted | SubagentCompleted
  | NotificationDrain | GoalSummary | GoalClassifierNudge | SchedulerFired | StopHookFeedback
  | WorkingDirectorySwitch | ParentHumanMessage | SessionPrefix | DirectBash | GoalSetup | UnknownReason

definition is_human :: "synthetic_reason \<Rightarrow> bool" where
  "is_human r \<longleftrightarrow> r = Human"

definition is_primary :: "synthetic_reason \<Rightarrow> bool" where
  "is_primary r \<longleftrightarrow> r = Primary"

definition starts_prompt_turn :: "synthetic_reason \<Rightarrow> bool" where
  "starts_prompt_turn r =
     (case r of
        Human \<Rightarrow> True | AgentMessage \<Rightarrow> True | ParentHumanMessage \<Rightarrow> True | DirectBash \<Rightarrow> True
      | GoalSetup \<Rightarrow> True | UnknownReason \<Rightarrow> True | TaskCompleted \<Rightarrow> True | SubagentCompleted \<Rightarrow> True
      | NotificationDrain \<Rightarrow> True | GoalClassifierNudge \<Rightarrow> True | SchedulerFired \<Rightarrow> True
      | Primary \<Rightarrow> False | SessionPrefix \<Rightarrow> False | CompactionMeta \<Rightarrow> False | SystemReminder \<Rightarrow> False
      | LengthContinue \<Rightarrow> False | ProjectInstructions \<Rightarrow> False | AutoContinue \<Rightarrow> False
      | AutoRecovery \<Rightarrow> False | Interjection \<Rightarrow> False | GoalSummary \<Rightarrow> False
      | StopHookFeedback \<Rightarrow> False | WorkingDirectorySwitch \<Rightarrow> False)"

datatype prior_turn_interrupt = MidTurnAbort | PermissionRejected | PermissionCancelled | UnknownInterrupt

datatype content_part = TextPart ustr | ImagePart ustr

record system_item =
  sys_content :: ustr
  sys_reason :: synthetic_reason

record user_item =
  usr_content :: "content_part list"
  usr_reason :: synthetic_reason
  usr_cwd_generation :: "u64 option"
  usr_prior_turn_interrupt :: "prior_turn_interrupt option"
  usr_prompt_index :: "usize option"

record tool_call =
  tc_id :: ustr
  tc_name :: ustr
  tc_arguments :: ustr

record 'x assistant_item =
  as_content :: ustr
  as_tool_calls :: "tool_call list"
  as_model_id :: "ustr option"
  as_model_fingerprint :: "ustr option"
  as_reasoning_effort :: "'x option"

record tool_result_item =
  tr_tool_call_id :: ustr
  tr_content :: ustr
  tr_images :: "content_part list"

record 'x web_search_tool_call =
  ws_id :: ustr
  ws_action :: 'x
  ws_status :: 'x

record custom_tool_call =
  ct_id :: ustr
  ct_call_id :: ustr
  ct_name :: ustr
  ct_input :: ustr

record 'x code_interpreter_tool_call =
  ci_id :: ustr
  ci_code :: "ustr option"
  ci_container_id :: ustr
  ci_outputs :: "'x option"
  ci_status :: 'x

datatype 'x backend_tool_kind =
    WebSearch "'x web_search_tool_call"
  | XSearch custom_tool_call
  | CodeInterpreter "'x code_interpreter_tool_call"

definition backend_id :: "'x backend_tool_kind \<Rightarrow> ustr" where
  "backend_id k = (case k of WebSearch ws \<Rightarrow> ws_id ws | XSearch ct \<Rightarrow> ct_id ct | CodeInterpreter ci \<Rightarrow> ci_id ci)"

record reasoning_item =
  rs_id :: ustr
  rs_summary :: "ustr list"
  rs_content :: "ustr list option"
  rs_encrypted_content :: "ustr option"

definition reasoning_item_text :: "reasoning_item \<Rightarrow> ustr" where
  "reasoning_item_text r =
     join [NL] (rs_summary r @ (case rs_content r of Some content \<Rightarrow> content | None \<Rightarrow> []))"

datatype 'x conversation_item =
    System system_item
  | User user_item
  | Assistant "'x assistant_item"
  | ToolResult tool_result_item
  | BackendToolCall "'x backend_tool_kind"
  | Reasoning reasoning_item

end
