(* ===== verification/Lhc_Mapping.thy ===== *)
theory Lhc_Mapping
  imports Lhc_Keys Conversation
begin

text \<open>
  The map from conversation items to the events of the LHC archive
  (\<open>crates/lhc/grok-lhc-host/src/mapping.rs\<close>), with \<open>item_digest\<close> of \<open>idempotency.rs\<close> and the reading
  back of content blocks of \<open>serving.rs\<close>.

  What comes from other crates is the record \<open>lhc_env\<close>: the serialised and the debug form of an item,
  the hash, JSON printing and parsing, and the values of the API client's types. Serialising those types
  cannot fail (their implementations are derived and have string keys), so \<open>to_value\<close> is total and the
  source's fallbacks for its failure do not appear.
\<close>

section \<open>Environment\<close>

record 'x lhc_env =
  ser_item :: "'x conversation_item \<Rightarrow> nat list option"
  debug_item :: "'x conversation_item \<Rightarrow> nat list"
  blake3_hex :: "nat list \<Rightarrow> ustr"
  to_value :: "'x \<Rightarrow> json"
  debug_fmt :: "'x \<Rightarrow> ustr"
  ci_failed :: "'x \<Rightarrow> bool"
  json_to_string :: "json \<Rightarrow> ustr"
  json_from_str :: "ustr \<Rightarrow> json option"
  placeholder_text :: "json \<Rightarrow> ustr"

definition item_digest :: "'x lhc_env \<Rightarrow> 'x conversation_item \<Rightarrow> ustr" where
  "item_digest env item =
     (case ser_item env item of
        Some bytes \<Rightarrow> blake3_hex env bytes
      | None \<Rightarrow> blake3_hex env (map nat (lit ''serialize-failed:'') @ debug_item env item))"

section \<open>Events\<close>

definition ACTOR :: ustr where "ACTOR = lit ''grok''"
definition HARNESS :: ustr where "HARNESS = lit ''grok-build''"
definition IMAGE_URL_PREVIEW_CHARS :: usize where "IMAGE_URL_PREVIEW_CHARS = 128"
definition BACKEND_OUTPUTS_PREVIEW_CHARS :: usize where "BACKEND_OUTPUTS_PREVIEW_CHARS = 2048"

record mapped_event =
  ev_kind :: ustr
  ev_key :: "ustr option"
  ev_actor :: ustr
  ev_harness :: ustr
  ev_payload :: json_map
  ev_extra :: json_map

definition host_event :: "ustr \<Rightarrow> ustr \<Rightarrow> json_map \<Rightarrow> mapped_event" where
  "host_event kind key payload =
     \<lparr>ev_kind = kind, ev_key = Some key, ev_actor = ACTOR, ev_harness = HARNESS, ev_payload = payload, ev_extra = []\<rparr>"

record turn_end_facts =
  tf_outcome :: "ustr option"
  tf_outcome_reason :: "ustr option"
  tf_started_at :: "ustr option"
  tf_ended_at :: "ustr option"

definition no_facts :: turn_end_facts where
  "no_facts = \<lparr>tf_outcome = None, tf_outcome_reason = None, tf_started_at = None, tf_ended_at = None\<rparr>"

definition facts_is_empty :: "turn_end_facts \<Rightarrow> bool" where
  "facts_is_empty f \<longleftrightarrow>
     tf_outcome f = None \<and> tf_outcome_reason f = None \<and> tf_started_at f = None \<and> tf_ended_at f = None"

definition insert_some :: "string \<Rightarrow> ustr option \<Rightarrow> json_map \<Rightarrow> json_map" where
  "insert_some k v m = (case v of Some s \<Rightarrow> json_insert k (JString s) m | None \<Rightarrow> m)"

definition insert_facts :: "turn_end_facts \<Rightarrow> json_map \<Rightarrow> json_map" where
  "insert_facts f m =
     insert_some ''endedAt'' (tf_ended_at f)
       (insert_some ''startedAt'' (tf_started_at f)
         (insert_some ''outcomeReason'' (tf_outcome_reason f)
           (insert_some ''outcome'' (tf_outcome f) m)))"

definition apply_turn_end_facts :: "mapped_event \<Rightarrow> turn_end_facts \<Rightarrow> mapped_event" where
  "apply_turn_end_facts event facts =
     (if ev_kind event \<noteq> lit ''turn_end'' then event
      else event\<lparr>ev_payload := insert_facts facts (ev_payload event)\<rparr>)"

definition shell_turn_end_event :: "ustr \<Rightarrow> u64 \<Rightarrow> turn_end_facts \<Rightarrow> mapped_event" where
  "shell_turn_end_event session_id turn_number facts =
     (let sid = encode_session_id session_id;
          key = lit ''grok:'' @ sid @ lit '':g0:shell_turn_end:'' @ nat_str turn_number
      in apply_turn_end_facts (host_event (lit ''turn_end'') key []) facts)"

definition SEGMENT_END_REASON :: ustr where "SEGMENT_END_REASON = lit ''grok_lhc_segment''"

definition segment_end_event :: "ustr \<Rightarrow> mapped_event option" where
  "segment_end_event anchor_tool_result_key =
     (case find_str (lit '':tool_result:'') anchor_tool_result_key of
        None \<Rightarrow> None
      | Some i \<Rightarrow>
          (let head = take i anchor_tool_result_key;
               payload = json_insert ''outcomeReason'' (JString SEGMENT_END_REASON)
                           (json_insert ''outcome'' (JString (lit ''completed'')) [])
           in Some (host_event (lit ''turn_end'') (head @ lit '':segment_end'') payload)))"

section \<open>Payloads\<close>

definition text_payload :: "ustr \<Rightarrow> json_map" where
  "text_payload text = json_insert ''text'' (JString text) []"

definition assistant_thinking_payload :: "ustr \<Rightarrow> ustr option \<Rightarrow> json_map" where
  "assistant_thinking_payload text signature = insert_some ''signature'' signature (text_payload text)"

definition tool_call_payload :: "ustr \<Rightarrow> ustr \<Rightarrow> json_map \<Rightarrow> json_map" where
  "tool_call_payload call_id name arguments =
     json_insert ''arguments'' (JObject arguments)
       (json_insert ''toolName'' (JString name) (json_insert ''toolCallId'' (JString call_id) []))"

definition parse_arguments_object :: "'x lhc_env \<Rightarrow> ustr \<Rightarrow> json_map" where
  "parse_arguments_object env raw =
     (case json_from_str env raw of
        Some (JObject m) \<Rightarrow> m
      | Some other \<Rightarrow> json_insert ''value'' other []
      | None \<Rightarrow> json_insert ''raw'' (JString raw) [])"

text \<open>The loop that walks back to a character boundary.\<close>

fun boundary_below :: "ustr \<Rightarrow> nat \<Rightarrow> nat" where
  "boundary_below s 0 = 0"
| "boundary_below s (Suc e) = (if is_char_boundary s (Suc e) then Suc e else boundary_below s e)"

definition truncate_chars :: "ustr \<Rightarrow> usize \<Rightarrow> ustr" where
  "truncate_chars s mx = (if byte_len s \<le> mx then s else the (str_to s (boundary_below s mx)))"

definition ellipsis_bytes :: "ustr \<Rightarrow> ustr" where
  "ellipsis_bytes s = [8230] @ lit ''('' @ nat_str (byte_len s) @ lit ''B)''"

definition part_text :: "content_part \<Rightarrow> ustr" where
  "part_text p =
     (case p of
        TextPart text \<Rightarrow> text
      | ImagePart url \<Rightarrow>
          (let preview = truncate_chars url IMAGE_URL_PREVIEW_CHARS;
               suffix = (if byte_len url > IMAGE_URL_PREVIEW_CHARS then ellipsis_bytes url else [])
           in lit ''[image:'' @ preview @ suffix @ lit '']''))"

definition content_parts_text :: "content_part list \<Rightarrow> ustr" where
  "content_parts_text parts = join [NL] (map part_text parts)"

text \<open>\<open>str::strip_suffix\<close>.\<close>

definition strip_suffix :: "ustr \<Rightarrow> ustr \<Rightarrow> ustr option" where
  "strip_suffix suf s = map_option rev (strip_prefix (rev suf) (rev s))"

definition parse_data_url :: "ustr \<Rightarrow> (ustr \<times> ustr) option" where
  "parse_data_url url =
     (case strip_prefix (lit ''data:'') url of
        None \<Rightarrow> None
      | Some rest \<Rightarrow>
          (case split_once 44 rest of
             None \<Rightarrow> None
           | Some (meta, data) \<Rightarrow>
               (case strip_suffix (lit '';base64'') meta of
                  None \<Rightarrow> None
                | Some media_type \<Rightarrow> if media_type = [] then None else Some (media_type, data))))"

definition image_block :: "ustr \<Rightarrow> json_map" where
  "image_block url =
     (let source =
        (case parse_data_url url of
           Some (media_type, data) \<Rightarrow>
             json_insert ''data'' (JString data)
               (json_insert ''media_type'' (JString media_type)
                 (json_insert ''type'' (JString (lit ''base64'')) []))
         | None \<Rightarrow> json_insert ''url'' (JString url) (json_insert ''type'' (JString (lit ''url'')) []))
      in json_insert ''source'' (JObject source) (json_insert ''type'' (JString (lit ''image'')) []))"

definition get_str :: "json_map \<Rightarrow> string \<Rightarrow> ustr option" where
  "get_str m k = Option.bind (json_get m k) as_str"

definition image_block_url :: "json_map \<Rightarrow> ustr option" where
  "image_block_url block =
     Option.bind (Option.bind (json_get block ''source'') as_object) (\<lambda>source.
     Option.bind (get_str source ''type'') (\<lambda>ty.
       if ty = lit ''base64'' then
         Option.bind (get_str source ''media_type'') (\<lambda>media_type.
         Option.bind (get_str source ''data'') (\<lambda>data.
           Some (lit ''data:'' @ media_type @ lit '';base64,'' @ data)))
       else if ty = lit ''url'' then get_str source ''url''
       else None))"

definition text_block :: "ustr \<Rightarrow> json_map" where
  "text_block text = json_insert ''text'' (JString text) (json_insert ''type'' (JString (lit ''text'')) [])"

definition part_block :: "content_part \<Rightarrow> json_map" where
  "part_block p = (case p of TextPart text \<Rightarrow> text_block text | ImagePart url \<Rightarrow> image_block url)"

definition is_image :: "content_part \<Rightarrow> bool" where
  "is_image p = (case p of ImagePart _ \<Rightarrow> True | TextPart _ \<Rightarrow> False)"

definition text_of_part :: "content_part \<Rightarrow> ustr option" where
  "text_of_part p = (case p of TextPart text \<Rightarrow> Some text | ImagePart _ \<Rightarrow> None)"

definition content_parts_blocks :: "content_part list \<Rightarrow> ustr \<times> json_map list option" where
  "content_parts_blocks parts =
     (let has_image = list_ex is_image parts;
          text = join [NL] (List.map_filter text_of_part parts)
      in if \<not> has_image then (text, None) else (text, Some (map part_block parts)))"

section \<open>The events of an item\<close>

definition user_prompt_event :: "ustr \<Rightarrow> u64 \<Rightarrow> ustr \<Rightarrow> u64 \<Rightarrow> ustr \<Rightarrow> json_map list option \<Rightarrow> mapped_event" where
  "user_prompt_event session_id generation digest occ text blocks =
     (let key = item_event_key session_id generation digest occ (lit ''user_prompt'') None;
          payload = text_payload text;
          payload = (case blocks of
                       Some bs \<Rightarrow> json_insert ''blocks'' (JArray (map JObject bs)) payload
                     | None \<Rightarrow> payload)
      in host_event (lit ''user_prompt'') key payload)"

definition text_event :: "ustr \<Rightarrow> u64 \<Rightarrow> ustr \<Rightarrow> u64 \<Rightarrow> ustr \<Rightarrow> ustr \<Rightarrow> ustr option \<Rightarrow> mapped_event" where
  "text_event session_id generation digest occ kind text part =
     host_event kind (item_event_key session_id generation digest occ kind part) (text_payload text)"

definition thinking_event ::
  "ustr \<Rightarrow> u64 \<Rightarrow> ustr \<Rightarrow> u64 \<Rightarrow> ustr \<Rightarrow> ustr option \<Rightarrow> ustr option \<Rightarrow> mapped_event" where
  "thinking_event session_id generation digest occ text part signature =
     host_event (lit ''assistant_thinking'')
       (item_event_key session_id generation digest occ (lit ''assistant_thinking'') part)
       (assistant_thinking_payload text signature)"

definition turn_end_event :: "ustr \<Rightarrow> u64 \<Rightarrow> ustr \<Rightarrow> u64 \<Rightarrow> ustr option \<Rightarrow> turn_end_facts \<Rightarrow> mapped_event" where
  "turn_end_event session_id generation digest occ part facts =
     host_event (lit ''turn_end'') (item_event_key session_id generation digest occ (lit ''turn_end'') part)
       (insert_facts facts [])"

definition tool_call_event :: "'x lhc_env \<Rightarrow> ustr \<Rightarrow> u64 \<Rightarrow> ustr \<Rightarrow> u64 \<Rightarrow> tool_call \<Rightarrow> mapped_event" where
  "tool_call_event env session_id generation digest occ tc =
     (let key = item_event_key session_id generation digest occ (lit ''tool_call'') (Some (tc_id tc));
          arguments = parse_arguments_object env (tc_arguments tc)
      in host_event (lit ''tool_call'') key (tool_call_payload (tc_id tc) (tc_name tc) arguments))"

definition tool_result_event :: "ustr \<Rightarrow> u64 \<Rightarrow> ustr \<Rightarrow> u64 \<Rightarrow> tool_result_item \<Rightarrow> mapped_event" where
  "tool_result_event session_id generation digest occ result =
     (let key = item_event_key session_id generation digest occ (lit ''tool_result'') (Some (tr_tool_call_id result));
          content = tr_content result;
          payload = json_insert ''content'' (JString content)
                      (json_insert ''toolCallId'' (JString (tr_tool_call_id result)) []);
          payload =
            (if tr_images result = [] then payload
             else json_insert ''blocks''
                    (JArray ((if content = [] then [] else [JObject (text_block content)]) @
                             map (\<lambda>part. JObject (part_block part)) (tr_images result))) payload)
      in host_event (lit ''tool_result'') key payload)"

definition backend_call_parts :: "'x lhc_env \<Rightarrow> 'x backend_tool_kind \<Rightarrow> ustr \<times> json_map \<times> ustr \<times> bool option" where
  "backend_call_parts env kind =
     (case kind of
        WebSearch ws \<Rightarrow>
          (let args = (case as_object (to_value env (ws_action ws)) of Some m \<Rightarrow> m | None \<Rightarrow> []);
               result = json_to_string env (JObject
                 (json_insert ''action'' (to_value env (ws_action ws))
                   (json_insert ''status'' (JString (debug_fmt env (ws_status ws))) [])))
           in (lit ''web_search'', args, result, None))
      | XSearch ct \<Rightarrow>
          (let args = json_insert ''input'' (JString (ct_input ct)) [];
               name = (if ct_name ct = [] then lit ''x_search'' else ct_name ct);
               result = json_to_string env (JObject
                 (json_insert ''input'' (JString (ct_input ct))
                   (json_insert ''callId'' (JString (ct_call_id ct))
                     (json_insert ''status'' (JString (lit ''server_executed'')) []))))
           in (name, args, result, None))
      | CodeInterpreter ci \<Rightarrow>
          (let args = json_insert ''containerId'' (JString (ci_container_id ci))
                        (json_insert ''code'' (JString (case ci_code ci of Some c \<Rightarrow> c | None \<Rightarrow> [])) []);
               is_error = ci_failed env (ci_status ci);
               outputs = (case ci_outputs ci of Some out \<Rightarrow> to_value env out | None \<Rightarrow> JNull);
               outputs_raw = json_to_string env outputs;
               outputs_preview = truncate_chars outputs_raw BACKEND_OUTPUTS_PREVIEW_CHARS;
               outputs_value =
                 (if byte_len outputs_raw > BACKEND_OUTPUTS_PREVIEW_CHARS
                  then JString (outputs_preview @ ellipsis_bytes outputs_raw) else outputs);
               result = json_to_string env (JObject
                 (json_insert ''outputs'' outputs_value
                   (json_insert ''status'' (JString (debug_fmt env (ci_status ci))) [])))
           in (lit ''code_interpreter'', args, result, Some is_error)))"

definition backend_tool_events :: "'x lhc_env \<Rightarrow> ustr \<Rightarrow> u64 \<Rightarrow> ustr \<Rightarrow> u64 \<Rightarrow> 'x backend_tool_kind \<Rightarrow> mapped_event list" where
  "backend_tool_events env session_id generation digest occ kind =
     (let call_id = backend_id kind;
          (tool_name, arguments, result_content, is_error) = backend_call_parts env kind;
          call_key = item_event_key session_id generation digest occ (lit ''tool_call'') (Some call_id);
          result_key = item_event_key session_id generation digest occ (lit ''tool_result'') (Some call_id);
          result_payload = json_insert ''content'' (JString result_content) (json_insert ''toolCallId'' (JString call_id) []);
          result_payload = (case is_error of Some err \<Rightarrow> json_insert ''isError'' (JBool err) result_payload | None \<Rightarrow> result_payload)
      in [host_event (lit ''tool_call'') call_key (tool_call_payload call_id tool_name arguments),
          host_event (lit ''tool_result'') result_key result_payload])"

definition map_synthetic_user ::
  "ustr \<Rightarrow> u64 \<Rightarrow> ustr \<Rightarrow> u64 \<Rightarrow> synthetic_reason \<Rightarrow> user_item \<Rightarrow> turn_end_facts \<Rightarrow> mapped_event list" where
  "map_synthetic_user session_id generation digest occ reason user facts =
     (let text = content_parts_text (usr_content user);
          starts_turn =
            (case reason of
               Human \<Rightarrow> True | AgentMessage \<Rightarrow> True | ParentHumanMessage \<Rightarrow> True | DirectBash \<Rightarrow> True
             | GoalSetup \<Rightarrow> True | UnknownReason \<Rightarrow> True | TaskCompleted \<Rightarrow> True | SubagentCompleted \<Rightarrow> True
             | NotificationDrain \<Rightarrow> True | GoalClassifierNudge \<Rightarrow> True | SchedulerFired \<Rightarrow> True
             | Primary \<Rightarrow> False | SessionPrefix \<Rightarrow> False | CompactionMeta \<Rightarrow> False | SystemReminder \<Rightarrow> False
             | LengthContinue \<Rightarrow> False | ProjectInstructions \<Rightarrow> False | AutoContinue \<Rightarrow> False
             | AutoRecovery \<Rightarrow> False | Interjection \<Rightarrow> False | GoalSummary \<Rightarrow> False
             | StopHookFeedback \<Rightarrow> False | WorkingDirectorySwitch \<Rightarrow> False);
          note = text_event session_id generation digest occ (lit ''runtime_note'') text None
      in if starts_turn
         then [turn_end_event session_id generation digest occ (Some (lit ''pre_synthetic'')) facts, note]
         else [note])"

definition map_item ::
  "'x lhc_env \<Rightarrow> ustr \<Rightarrow> u64 \<Rightarrow> 'x conversation_item \<Rightarrow> occurrence_tracker \<Rightarrow> turn_end_facts \<Rightarrow>
     mapped_event list \<times> occurrence_tracker" where
  "map_item env session_id generation item tracker facts =
     (let digest = item_digest env item;
          (occ, tracker) = tracker_next tracker digest;
          events =
            (case item of
               System sys \<Rightarrow>
                 [text_event session_id generation digest occ (lit ''runtime_note'') (sys_content sys) None]
             | User user \<Rightarrow>
                 (if is_human (usr_reason user)
                  then (let (text, blocks) = content_parts_blocks (usr_content user)
                        in [user_prompt_event session_id generation digest occ text blocks])
                  else map_synthetic_user session_id generation digest occ (usr_reason user) user facts)
             | Assistant a \<Rightarrow>
                 (if as_content a \<noteq> [] \<or> as_tool_calls a = []
                  then [text_event session_id generation digest occ (lit ''assistant_text'') (as_content a) None]
                  else []) @
                 map (tool_call_event env session_id generation digest occ) (as_tool_calls a) @
                 (if as_tool_calls a = [] then [turn_end_event session_id generation digest occ None facts] else [])
             | ToolResult result \<Rightarrow> [tool_result_event session_id generation digest occ result]
             | BackendToolCall btc \<Rightarrow> backend_tool_events env session_id generation digest occ btc
             | Reasoning r \<Rightarrow>
                 (let text = reasoning_item_text r;
                      part = (if rs_id r = [] then None else Some (rs_id r));
                      signature = (case rs_encrypted_content r of Some s \<Rightarrow> if s = [] then None else Some s | None \<Rightarrow> None)
                  in [thinking_event session_id generation digest occ text part signature]))
      in (events, tracker))"

fun map_history_from ::
  "'x lhc_env \<Rightarrow> ustr \<Rightarrow> u64 \<Rightarrow> 'x conversation_item list \<Rightarrow> turn_end_facts \<Rightarrow> occurrence_tracker \<Rightarrow>
     mapped_event list \<times> occurrence_tracker" where
  "map_history_from env session_id generation [] facts tracker = ([], tracker)"
| "map_history_from env session_id generation (item # items) facts tracker =
     (let (events, tracker) = map_item env session_id generation item tracker facts;
          (out, tracker) = map_history_from env session_id generation items facts tracker
      in (events @ out, tracker))"

definition map_history ::
  "'x lhc_env \<Rightarrow> ustr \<Rightarrow> u64 \<Rightarrow> 'x conversation_item list \<Rightarrow> turn_end_facts \<Rightarrow> mapped_event list \<times> occurrence_tracker" where
  "map_history env session_id generation items facts =
     map_history_from env session_id generation items facts occurrence_tracker_new"

section \<open>Side facts\<close>

definition attach_provider_usage :: "mapped_event \<Rightarrow> json_map \<Rightarrow> mapped_event" where
  "attach_provider_usage event usage =
     (if ev_kind event \<noteq> lit ''assistant_text'' then event
      else event\<lparr>ev_payload := json_insert ''providerUsage'' (JObject usage) (ev_payload event)\<rparr>)"

record host_assistant_identity =
  hi_provider :: ustr
  hi_model :: "ustr option"
  hi_api :: "ustr option"

definition non_empty :: "ustr option \<Rightarrow> ustr option" where
  "non_empty v = (case v of Some s \<Rightarrow> if s = [] then None else Some s | None \<Rightarrow> None)"

definition attach_assistant_identity :: "mapped_event \<Rightarrow> host_assistant_identity \<Rightarrow> mapped_event" where
  "attach_assistant_identity event identity =
     (if ev_kind event \<noteq> lit ''assistant_text'' \<and> ev_kind event \<noteq> lit ''assistant_thinking'' then event
      else event\<lparr>ev_payload :=
             insert_some ''api'' (non_empty (hi_api identity))
               (insert_some ''model'' (non_empty (hi_model identity))
                 (insert_some ''provider'' (non_empty (Some (hi_provider identity))) (ev_payload event)))\<rparr>)"

definition map_model_change ::
  "ustr \<Rightarrow> ustr \<Rightarrow> ustr \<Rightarrow> ustr \<Rightarrow> ustr \<Rightarrow> u64 \<Rightarrow> mapped_event list \<times> u64" where
  "map_model_change session_id previous_model new_model previous_level new_level next_ordinal =
     (let (out, next_ordinal) =
        (if previous_model \<noteq> new_model
         then ([host_event (lit ''model_change'') (model_change_key session_id next_ordinal previous_model new_model)
                 (json_insert ''newModel'' (JString new_model) (json_insert ''previousModel'' (JString previous_model) []))],
               sat_inc64 next_ordinal)
         else ([], next_ordinal))
      in if previous_level \<noteq> new_level
         then (out @ [host_event (lit ''thinking_level_change'')
                 (thinking_level_change_key session_id next_ordinal previous_level new_level)
                 (json_insert ''newLevel'' (JString new_level) (json_insert ''previousLevel'' (JString previous_level) []))],
               sat_inc64 next_ordinal)
         else (out, next_ordinal))"

definition level_label :: "ustr option \<Rightarrow> ustr" where
  "level_label effort = (case effort of Some s \<Rightarrow> if trim s \<noteq> [] then trim s else lit ''none'' | None \<Rightarrow> lit ''none'')"

section \<open>Reading blocks back\<close>

definition block_part :: "'x lhc_env \<Rightarrow> json_map \<Rightarrow> content_part option" where
  "block_part env block =
     (let ty = get_str block ''type'' in
      if ty = Some (lit ''text'') then
        Some (TextPart (case get_str block ''text'' of Some text \<Rightarrow> text | None \<Rightarrow> []))
      else if ty = Some (lit ''image'') then
        Some (case image_block_url block of
                Some url \<Rightarrow> ImagePart url
              | None \<Rightarrow> TextPart (placeholder_text env (JObject block)))
      else (let line = placeholder_text env (JObject block) in
            if line \<noteq> [] then Some (TextPart line) else None))"

definition content_parts_from_blocks :: "'x lhc_env \<Rightarrow> json_map list \<Rightarrow> content_part list" where
  "content_parts_from_blocks env blocks = List.map_filter (block_part env) blocks"

definition tool_result_parts_from_blocks :: "'x lhc_env \<Rightarrow> json_map list \<Rightarrow> ustr \<times> content_part list" where
  "tool_result_parts_from_blocks env blocks =
     (let parts = content_parts_from_blocks env blocks
      in (join [NL] (List.map_filter text_of_part parts), filter is_image parts))"


section \<open>Keys of a history\<close>

text \<open>The kinds and parts of the events an item is mapped to, in order: what enters its keys.\<close>

definition item_parts :: "'x conversation_item \<Rightarrow> (ustr \<times> ustr option) list" where
  "item_parts item =
     (case item of
        System _ \<Rightarrow> [(lit ''runtime_note'', None)]
      | User u \<Rightarrow>
          (if is_human (usr_reason u) then [(lit ''user_prompt'', None)]
           else (if starts_prompt_turn (usr_reason u) then [(lit ''turn_end'', Some (lit ''pre_synthetic''))] else []) @
                [(lit ''runtime_note'', None)])
      | Assistant a \<Rightarrow>
          (if as_content a \<noteq> [] \<or> as_tool_calls a = [] then [(lit ''assistant_text'', None)] else []) @
          map (\<lambda>tc. (lit ''tool_call'', Some (tc_id tc))) (as_tool_calls a) @
          (if as_tool_calls a = [] then [(lit ''turn_end'', None)] else [])
      | ToolResult r \<Rightarrow> [(lit ''tool_result'', Some (tr_tool_call_id r))]
      | BackendToolCall b \<Rightarrow> [(lit ''tool_call'', Some (backend_id b)), (lit ''tool_result'', Some (backend_id b))]
      | Reasoning r \<Rightarrow> [(lit ''assistant_thinking'', if rs_id r = [] then None else Some (rs_id r))])"

definition item_shape :: "'x lhc_env \<Rightarrow> 'x conversation_item \<Rightarrow> ustr \<times> (ustr \<times> ustr option) list" where
  "item_shape env item = (item_digest env item, item_parts item)"

lemmas event_defs = text_event_def user_prompt_event_def thinking_event_def turn_end_event_def tool_call_event_def
  tool_result_event_def backend_tool_events_def map_synthetic_user_def

lemma host_event_sel [simp]:
  "ev_kind (host_event k key p) = k" "ev_key (host_event k key p) = Some key" "ev_payload (host_event k key p) = p"
  by (simp_all add: host_event_def)

lemma synthetic_events:
  "map_synthetic_user s g d n r u facts =
     (if starts_prompt_turn r then [turn_end_event s g d n (Some (lit ''pre_synthetic'')) facts] else []) @
     [text_event s g d n (lit ''runtime_note'') (content_parts_text (usr_content u)) None]"
  by (cases r) (simp_all add: map_synthetic_user_def starts_prompt_turn_def)

lemma map_item_keys:
  "map (\<lambda>e. (ev_kind e, ev_key e)) (fst (map_item env s g item t facts)) =
     map (\<lambda>(k, p). (k, Some (item_event_key s g (item_digest env item) (count_of t (item_digest env item)) k p))) (item_parts item)"
  by (cases item)
    (simp_all add: map_item_def Let_def tracker_next_def item_parts_def synthetic_events text_event_def user_prompt_event_def
      thinking_event_def turn_end_event_def tool_call_event_def tool_result_event_def backend_tool_events_def split_beta comp_def)

lemma fst_tracker_next: "fst (tracker_next t d) = count_of t d"
  by (simp add: tracker_next_def Let_def)

lemma map_item_tracker: "snd (map_item env s g item t facts) = snd (tracker_next t (item_digest env item))"
  by (simp add: map_item_def Let_def split_beta)

lemma map_history_mint:
  "map ev_key (fst (map_history_from env s ITEM_KEY_GENERATION items facts t)) =
     map Some (fst (mint_keys s t (map (item_shape env) items)))"
  "snd (map_history_from env s ITEM_KEY_GENERATION items facts t) = snd (mint_keys s t (map (item_shape env) items))"
proof (induction items arbitrary: t)
  case (Cons item items)
  have k: "map ev_key (fst (map_item env s ITEM_KEY_GENERATION item t facts)) =
      map Some (map (\<lambda>(k, p). item_event_key s ITEM_KEY_GENERATION (item_digest env item)
        (count_of t (item_digest env item)) k p) (item_parts item))" for t
    using arg_cong[OF map_item_keys, of "map snd" env s ITEM_KEY_GENERATION item t facts] by (simp add: split_beta comp_def)
  {
    case 1
    show ?case by (simp add: split_beta Let_def map_item_tracker item_shape_def fst_tracker_next Cons.IH(1)[unfolded item_shape_def] k)
  next
    case 2
    show ?case using Cons.IH(2) by (simp add: split_beta Let_def map_item_tracker item_shape_def)
  }
qed simp_all

lemma item_parts_ne: "item_parts item \<noteq> []"
  by (cases item) (auto simp: item_parts_def)

text \<open>The call ids of one assistant item are distinct.\<close>

definition distinct_call_ids :: "'x conversation_item \<Rightarrow> bool" where
  "distinct_call_ids item = (case item of Assistant a \<Rightarrow> distinct (map tc_id (as_tool_calls a)) | _ \<Rightarrow> True)"

lemma item_parts_distinct: "distinct_call_ids item \<Longrightarrow> distinct (item_parts item)"
  by (cases item) (auto simp: item_parts_def distinct_call_ids_def distinct_map inj_on_def lit_inject)

lemma item_parts_plain: "(k, p) \<in> set (item_parts item) \<Longrightarrow> key_plain k"
  by (cases item) (auto simp: item_parts_def key_plain_def lit_def split: if_splits)

lemma mint_keys_distinct:
  assumes "\<And>d. count_of t d + uses d its \<le> u64_max"
    "\<forall>(x, evs) \<in> set its. key_plain x \<and> distinct evs \<and> (\<forall>(k, p) \<in> set evs. key_plain k)"
  shows "distinct (fst (mint_keys s t its)) \<and>
    (\<forall>key \<in> set (fst (mint_keys s t its)). \<exists>d n k p. key = item_event_key s ITEM_KEY_GENERATION d n k p \<and>
       key_plain d \<and> key_plain k \<and> count_of t d \<le> n)"
  using assms
proof (induction s t its rule: mint_keys.induct)
  case (2 s t x evs its)
  let ?t = "snd (tracker_next t x)" and ?key = "\<lambda>(k, p). item_event_key s ITEM_KEY_GENERATION x (count_of t x) k p"
  have x: "count_of t x < u64_max" using 2(2)[of x] by simp
  have b: "count_of ?t e + uses e its \<le> u64_max" for e
    using 2(2)[of e] x by (auto simp: count_next wrap_inc64_small)
  have px: "key_plain x" and dist: "distinct evs" and pk: "\<And>k p. (k, p) \<in> set evs \<Longrightarrow> key_plain k" using 2(3) by auto
  have IH: "distinct (fst (mint_keys s ?t its))"
    "\<forall>key \<in> set (fst (mint_keys s ?t its)). \<exists>d n k p. key = item_event_key s ITEM_KEY_GENERATION d n k p \<and>
       key_plain d \<and> key_plain k \<and> count_of ?t d \<le> n"
    using 2(1)[OF refl prod.collapse b] 2(3) by auto
  have "inj_on ?key (set evs)"
    using pk px by (auto simp: inj_on_def item_event_key_injective)
  then have "distinct (map ?key evs)" using dist by (simp add: distinct_map)
  moreover have "?key kp \<noteq> key" if kp: "kp \<in> set evs" and key: "key \<in> set (fst (mint_keys s ?t its))" for kp key
  proof -
    obtain d n k p where "key = item_event_key s ITEM_KEY_GENERATION d n k p" "key_plain d" "key_plain k" "count_of ?t d \<le> n"
      using IH(2) key by blast
    with pk[of "fst kp" "snd kp"] kp px x show ?thesis
      by (auto simp: split_beta item_event_key_injective count_next wrap_inc64_small split: if_splits)
  qed
  moreover have "\<exists>d n k p. key = item_event_key s ITEM_KEY_GENERATION d n k p \<and> key_plain d \<and> key_plain k \<and> count_of t d \<le> n"
    if key: "key \<in> set (fst (mint_keys s ?t its))" for key
  proof -
    obtain d n k p where "key = item_event_key s ITEM_KEY_GENERATION d n k p" "key_plain d" "key_plain k" "count_of ?t d \<le> n"
      using IH(2) key by blast
    then show ?thesis using x
      by (intro exI[of _ d] exI[of _ n] exI[of _ k] exI[of _ p]) (auto simp: count_next wrap_inc64_small split: if_splits)
  qed
  moreover have "\<exists>d n k p. ?key kp = item_event_key s ITEM_KEY_GENERATION d n k p \<and> key_plain d \<and> key_plain k \<and> count_of t d \<le> n"
    if kp: "kp \<in> set evs" for kp
    using pk[of "fst kp" "snd kp"] px kp by (intro exI[of _ x] exI[of _ "count_of t x"] exI[of _ "fst kp"] exI[of _ "snd kp"]) (auto simp: split_beta)
  ultimately show ?case using IH(1)
    by (auto simp: split_beta Let_def fst_tracker_next)
qed simp


section \<open>Blocks\<close>

lemma strip_suffix_iff: "strip_suffix suf s = Some r \<longleftrightarrow> s = r @ suf"
  by (auto simp: strip_suffix_def strip_prefix_Some_iff) (metis rev_append rev_rev_ident)

lemma split_once_first: "c \<notin> set a \<Longrightarrow> split_once c (a @ c # b) = Some (a, b)"
  by (induction a) (auto simp: split_once_def)

lemma split_once_iff: "split_once c s = Some (a, b) \<longleftrightarrow> s = a @ c # b \<and> c \<notin> set a"
proof
  assume s: "split_once c s = Some (a, b)"
  then have "c \<in> set s" by (auto simp: split_once_def split: if_splits)
  then obtain a' b' where "s = a' @ c # b'" "c \<notin> set a'" using split_list_first by fast
  with s split_once_first[of c a' b'] show "s = a @ c # b \<and> c \<notin> set a" by simp
qed (simp add: split_once_first)

lemma parse_data_url_Some: "parse_data_url url = Some (m, d) \<Longrightarrow> url = lit ''data:'' @ m @ lit '';base64,'' @ d"
  by (auto simp: parse_data_url_def strip_prefix_Some_iff split_once_iff strip_suffix_iff lit_def
      split: option.splits if_splits)

lemma image_block_roundtrip: "image_block_url (image_block url) = Some url"
  by (cases "parse_data_url url")
    (auto simp: image_block_url_def image_block_def get_str_def json_get_insert lit_inject dest: parse_data_url_Some)

lemma block_type: "get_str (part_block p) ''type'' = Some (if is_image p then lit ''image'' else lit ''text'')"
  by (cases p) (simp_all add: part_block_def text_block_def image_block_def get_str_def json_get_insert is_image_def)

lemma block_part_roundtrip: "block_part env (part_block p) = Some p"
  using block_type[of p]
  by (cases p) (simp_all add: block_part_def Let_def is_image_def lit_inject part_block_def image_block_roundtrip
      text_block_def get_str_def json_get_insert)

lemma parts_from_blocks: "content_parts_from_blocks env (map part_block parts) = parts"
  by (induction parts) (simp_all add: content_parts_from_blocks_def map_filter_simps block_part_roundtrip)

lemma images_only: "list_all is_image ps \<Longrightarrow> List.map_filter text_of_part ps = [] \<and> filter is_image ps = ps"
  by (induction ps) (auto simp: is_image_def text_of_part_def map_filter_simps split: content_part.splits)

lemma tool_result_blocks:
  assumes "list_all is_image (tr_images r)"
  shows "tool_result_parts_from_blocks env ((if tr_content r = [] then [] else [text_block (tr_content r)]) @ map part_block (tr_images r)) =
    (tr_content r, tr_images r)"
proof -
  let ?ps = "(if tr_content r = [] then [] else [TextPart (tr_content r)]) @ tr_images r"
  have e: "(if tr_content r = [] then [] else [text_block (tr_content r)]) @ map part_block (tr_images r) = map part_block ?ps"
    by (simp add: part_block_def)
  have "join [NL] (List.map_filter text_of_part ?ps) = tr_content r" "filter is_image ?ps = tr_images r"
    using images_only[OF assms] by (auto simp: map_filter_simps text_of_part_def is_image_def)
  then show ?thesis unfolding e tool_result_parts_from_blocks_def parts_from_blocks Let_def by (rule arg_cong2[where f = Pair])
qed

section \<open>Truncation\<close>

lemma boundary_below: "boundary_below s e \<le> e \<and> is_char_boundary s (boundary_below s e) \<and>
    (\<forall>b \<le> e. is_char_boundary s b \<longrightarrow> b \<le> boundary_below s e)"
proof (induction e)
  case 0
  have "split_at_byte s 0 \<noteq> None" by (cases s) auto
  then show ?case by (simp add: is_char_boundary_def)
next
  case (Suc e)
  then show ?case by (auto simp: le_Suc_eq)
qed

lemma is_char_boundary_iff: "is_char_boundary s n \<longleftrightarrow> (\<exists>a b. s = a @ b \<and> byte_len a = n)"
  unfolding is_char_boundary_def using split_at_byte_iff by fastforce

lemma prefixes_comparable: "a @ b = c @ d \<Longrightarrow> byte_len c \<le> byte_len a \<Longrightarrow> \<exists>e. a = c @ e"
  by (auto simp: append_eq_append_conv2)

lemma truncate_chars_longest:
  "\<exists>r. s = truncate_chars s mx @ r \<and> byte_len (truncate_chars s mx) \<le> mx \<and>
     (\<forall>a b. s = a @ b \<and> byte_len a \<le> mx \<longrightarrow> (\<exists>e. truncate_chars s mx = a @ e))"
proof (cases "byte_len s \<le> mx")
  case False
  let ?e = "boundary_below s mx"
  obtain p q where pq: "s = p @ q" "byte_len p = ?e" using boundary_below[of s mx] is_char_boundary_iff by blast
  then have t: "truncate_chars s mx = p" using False str_to_iff[of s ?e p] by (simp add: truncate_chars_def)
  have "\<exists>e. p = a @ e" if "s = a @ b" "byte_len a \<le> mx" for a b
  proof -
    have "byte_len a \<le> ?e" using boundary_below[of s mx] that is_char_boundary_iff[of s "byte_len a"] by auto
    with that pq show ?thesis using prefixes_comparable[of p q a b] by simp
  qed
  with t pq boundary_below[of s mx] show ?thesis by auto
qed (auto simp: truncate_chars_def)


section \<open>Markers between colons\<close>

text \<open>Where a marker \<open>:w:\<close> is first found in a key whose fields have no colons.\<close>

definition marker :: "ustr \<Rightarrow> ustr" where
  "marker w = COLON # w @ [COLON]"

lemma find_marker_field:
  "COLON \<notin> set a \<Longrightarrow> find_str (marker w) (a @ r) = map_option ((+) (length a)) (find_str (marker w) r)"
proof (induction a)
  case Nil
  have "((+) 0 :: nat \<Rightarrow> nat) = (\<lambda>i. i)" by auto
  then show ?case by (simp add: option.map_ident)
next
  case (Cons x a)
  then have "\<not> starts_with (x # a @ r) (marker w)" by (auto simp: marker_def starts_with_def)
  then have "find_str (marker w) ((x # a) @ r) = map_option Suc (find_str (marker w) (a @ r))" by simp
  also have "\<dots> = map_option Suc (map_option ((+) (length a)) (find_str (marker w) r))" using Cons by simp
  also have "\<dots> = map_option ((+) (length (x # a))) (find_str (marker w) r)"
    by (cases "find_str (marker w) r") simp_all
  finally show ?case .
qed

lemma find_marker_colon:
  assumes "COLON \<notin> set b" "COLON \<notin> set w"
  shows "find_str (marker w) (COLON # b @ COLON # r) =
    (if b = w then Some 0 else map_option ((+) (Suc (length b))) (find_str (marker w) (COLON # r)))"
proof -
  have "starts_with (COLON # b @ COLON # r) (marker w) \<longleftrightarrow> b = w"
    using colon_split_iff[OF assms] by (auto simp: starts_with_iff marker_def)
  moreover have "Suc \<circ> (+) (length b) = (+) (Suc (length b))" by auto
  ultimately show ?thesis
    using find_marker_field[OF assms(1), of w "COLON # r"] by (simp add: option.map_comp del: find_str.simps(2)[of _ COLON r])
qed

text \<open>The end of a segment is keyed by the tool result that closes it.\<close>

lemma segment_end_at:
  "find_str (lit '':tool_result:'') (h @ r) = Some (length h) \<Longrightarrow>
   map_option ev_key (segment_end_event (h @ r)) = Some (Some (h @ lit '':segment_end''))"
  by (simp add: segment_end_event_def)

lemma segment_end_anchored:
  assumes "key_plain d" "d \<noteq> lit ''tool_result''" "s \<noteq> lit ''tool_result''"
  shows "map_option ev_key (segment_end_event (item_event_key s g d n (lit ''tool_result'') (Some call))) =
    Some (Some (item_event_key s g d n (lit ''segment_end'') None))"
proof -
  let ?w = "lit ''tool_result''"
  let ?tail = "COLON # ?w @ COLON # call"
  define gf where "gf = 103 # nat_str g"
  let ?head = "lit ''grok'' @ COLON # encode_session_id s @ COLON # gf @ COLON # d @ COLON # nat_str n"
  have w: "COLON \<notin> set ?w" "COLON \<notin> set (lit ''grok'')" by (simp_all add: lit_def)
  have enc: "encode_session_id s \<noteq> ?w"
  proof
    assume "encode_session_id s = ?w"
    also have "?w = encode_session_id ?w" by (simp add: encode_eq encode_char_def lit_def)
    finally show False using assms(3) encode_inject by blast
  qed
  have g: "COLON \<notin> set gf" "gf \<noteq> ?w" using nat_str_no_colon by (auto simp: lit_def gf_def)
  have n: "nat_str n \<noteq> ?w" using nat_str_digits[of n] by (auto simp: lit_def is_ascii_digit_def)
  have key: "item_event_key s g d n ?w (Some call) = ?head @ ?tail"
    by (simp add: item_event_key_eq key_tail_def lit_def gf_def)
  have "find_str (marker ?w) (?head @ ?tail) = Some (length ?head)"
    using w g n enc assms nat_str_no_colon[of n] encode_no_colon[of s]
    by (simp add: find_marker_field find_marker_colon key_plain_def del: find_str.simps)
  moreover have "lit '':tool_result:'' = marker ?w" by (simp add: lit_def marker_def)
  ultimately have "map_option ev_key (segment_end_event (?head @ ?tail)) = Some (Some (?head @ lit '':segment_end''))"
    using segment_end_at[of ?head ?tail] by presburger
  moreover have "?head @ lit '':segment_end'' = item_event_key s g d n (lit ''segment_end'') None"
    by (simp add: item_event_key_eq key_tail_def lit_def gf_def)
  ultimately show ?thesis unfolding key by presburger
qed


section \<open>Change ordinals\<close>

lemma field_grok: "COLON \<notin> set (lit ''grok'')" by (simp add: lit_def)

lemma marker_ordinal:
  assumes "encode_session_id s \<noteq> w" "COLON \<notin> set w" "n \<le> u64_max"
  shows "change_ordinal (marker w) (lit ''grok'' @ COLON # encode_session_id s @ COLON # w @ COLON # nat_str n @ COLON # r) = Some n"
proof -
  let ?head = "lit ''grok'' @ COLON # encode_session_id s" and ?rest = "nat_str n @ COLON # r"
  have "find_str (marker w) (?head @ COLON # w @ COLON # ?rest) = Some (length ?head)"
    using assms encode_no_colon[of s] field_grok by (simp add: find_marker_field find_marker_colon del: find_str.simps)
  moreover have "?head @ COLON # w @ COLON # ?rest = (?head @ marker w) @ ?rest" by (simp add: marker_def)
  then have "drop (length ?head + length (marker w)) (?head @ COLON # w @ COLON # ?rest) = ?rest"
    by (metis append_eq_conv_conj length_append)
  moreover have "hd (split_char COLON ?rest) = nat_str n" by (simp add: split_char_append nat_str_no_colon)
  ultimately show ?thesis using assms(3) by (simp add: change_ordinal_def parse_uint_nat_str)
qed

lemma plain_name_encoded: "COLON \<notin> set w \<Longrightarrow> PERCENT \<notin> set w \<Longrightarrow> encode_session_id s = w \<longleftrightarrow> s = w"
proof -
  assume w: "COLON \<notin> set w" "PERCENT \<notin> set w"
  have "concat (map encode_char w) = w" using w by (induction w) (auto simp: encode_char_def)
  then show ?thesis using encode_inject[of s w] by (simp add: encode_eq)
qed

lemma change_ordinal_of_key:
  "s \<noteq> lit ''model_change'' \<Longrightarrow> n \<le> u64_max \<Longrightarrow> change_ordinal (lit '':model_change:'') (model_change_key s n p q) = Some n"
  "s \<noteq> lit ''thinking_level_change'' \<Longrightarrow> n \<le> u64_max \<Longrightarrow>
   change_ordinal (lit '':thinking_level_change:'') (thinking_level_change_key s n p q) = Some n"
  using marker_ordinal[of s "lit ''model_change''" n "p @ COLON # q"]
    marker_ordinal[of s "lit ''thinking_level_change''" n "p @ COLON # q"]
    plain_name_encoded[of "lit ''model_change''" s] plain_name_encoded[of "lit ''thinking_level_change''" s]
  by (simp_all add: model_change_key_def thinking_level_change_key_def marker_def lit_def)

definition change_step :: "u64 \<Rightarrow> ustr \<Rightarrow> u64" where
  "change_step mx key = foldl (\<lambda>mx m. case change_ordinal m key of Some n \<Rightarrow> max mx (sat_inc64 n) | None \<Rightarrow> mx)
     mx [lit '':model_change:'', lit '':thinking_level_change:'']"

lemma max_change_eq: "max_change_ordinal_from_keys keys = foldl change_step 0 keys"
  by (simp add: max_change_ordinal_from_keys_def change_step_def[abs_def])

lemma change_step_mono: "mx \<le> change_step mx key"
  by (auto simp: change_step_def split: option.splits)

lemma change_fold_mono: "mx \<le> foldl change_step mx keys"
  by (induction keys arbitrary: mx) (auto intro: order_trans[OF change_step_mono])

lemma change_fold_covers:
  assumes "key \<in> set keys" "m \<in> {lit '':model_change:'', lit '':thinking_level_change:''}" "change_ordinal m key = Some n"
  shows "sat_inc64 n \<le> foldl change_step mx keys"
  using assms
proof (induction keys arbitrary: mx)
  case (Cons k ks)
  show ?case
  proof (cases "key = k")
    case True
    then have "sat_inc64 n \<le> change_step mx k" using Cons.prems by (auto simp: change_step_def split: option.splits)
    also have "\<dots> \<le> foldl change_step (change_step mx k) ks" by (rule change_fold_mono)
    finally show ?thesis by simp
  qed (use Cons in auto)
qed simp

lemma fresh_ordinal:
  assumes "m \<in> {lit '':model_change:'', lit '':thinking_level_change:''}" "change_ordinal m key = Some n"
    "max_change_ordinal_from_keys keys \<le> n" "n < u64_max"
  shows "key \<notin> set keys"
proof
  assume "key \<in> set keys"
  from change_fold_covers[OF this assms(1,2), of 0] assms(3,4) show False
    by (simp add: max_change_eq sat_inc64_def)
qed

section \<open>Properties\<close>

lemma uses_shapes: "uses d (map (item_shape env) items) \<le> length items"
  unfolding uses_def using length_filter_le[of _ "map (item_shape env) items"] by simp

lemma digest_plain: "(\<And>b. key_plain (blake3_hex env b)) \<Longrightarrow> key_plain (item_digest env item)"
  by (simp add: item_digest_def split: option.splits)

text \<open>
  No event of a history is lost to deduplication: the keys of all events of a history are
  distinct, whatever repetitions the history has, if no assistant item repeats a call id and the hash
  is written without colons.
\<close>

lemma history_keys_distinct:
  assumes "\<forall>b. key_plain (blake3_hex env b)" "\<forall>item \<in> set items. distinct_call_ids item"
    "\<forall>d. count_of t d + length items \<le> u64_max"
  shows "distinct (map ev_key (fst (map_history_from env s ITEM_KEY_GENERATION items facts t))) \<and>
    length items \<le> length (fst (map_history_from env s ITEM_KEY_GENERATION items facts t))"
proof
  have "count_of t d + uses d (map (item_shape env) items) \<le> u64_max" for d
    using assms(3) uses_shapes[of d env items] by (meson add_left_mono order_trans)
  moreover have "\<forall>(x, evs) \<in> set (map (item_shape env) items). key_plain x \<and> distinct evs \<and> (\<forall>(k, p) \<in> set evs. key_plain k)"
    using assms(1,2) item_parts_plain by (auto simp: item_shape_def digest_plain item_parts_distinct)
  ultimately have "distinct (fst (mint_keys s t (map (item_shape env) items)))"
    using mint_keys_distinct by blast
  then show "distinct (map ev_key (fst (map_history_from env s ITEM_KEY_GENERATION items facts t)))"
    unfolding map_history_mint by (simp add: distinct_map)
  show "length items \<le> length (fst (map_history_from env s ITEM_KEY_GENERATION items facts t))"
  proof (induction items arbitrary: t)
    case (Cons item items)
    have "length (fst (map_item env s ITEM_KEY_GENERATION item t facts)) = length (item_parts item)"
      using arg_cong[OF map_item_keys, of length] by simp
    then have "0 < length (fst (map_item env s ITEM_KEY_GENERATION item t facts))" using item_parts_ne[of item] by simp
    with Cons.IH[of "snd (map_item env s ITEM_KEY_GENERATION item t facts)"]
    have "Suc (length items) \<le> length (fst (map_item env s ITEM_KEY_GENERATION item t facts)) +
        length (fst (map_history_from env s ITEM_KEY_GENERATION items facts (snd (map_item env s ITEM_KEY_GENERATION item t facts))))"
      by linarith
    then show ?case by (simp add: split_beta Let_def)
  qed simp
qed

text \<open>
  A restart is invisible: mapping a history, seeding a tracker from nothing but the stored keys and
  mapping what follows gives the keys of an uninterrupted capture, whatever turn-end facts were known on
  either side.
\<close>

lemma capture_restart_transparent:
  assumes "\<forall>b. key_plain (blake3_hex env b)" "length before \<le> u64_max"
    "stored = map ev_key (fst (map_history env s ITEM_KEY_GENERATION before facts))"
  shows "stored @ map ev_key (fst (map_history_from env s ITEM_KEY_GENERATION after facts'
      (seed_occurrence_from_keys (map the stored)))) =
    map ev_key (fst (map_history env s ITEM_KEY_GENERATION (before @ after) facts''))"
proof -
  let ?sh = "map (item_shape env)"
  have st: "stored = map Some (fst (mint_keys s occurrence_tracker_new (?sh before)))"
    unfolding assms(3) map_history_def map_history_mint by (rule refl)
  have "uses d (?sh before) \<le> u64_max" for d using uses_shapes[of d env before] assms(2) by linarith
  moreover have "\<forall>(x, evs) \<in> set (?sh before). key_plain x \<and> evs \<noteq> []"
    using assms(1) by (auto simp: item_shape_def digest_plain item_parts_ne)
  ultimately have "map the stored @ fst (mint_keys s (seed_occurrence_from_keys (map the stored)) (?sh after)) =
      fst (mint_keys s occurrence_tracker_new (?sh before @ ?sh after))"
    unfolding st by (intro restart_keys) (auto simp: comp_def)
  then show ?thesis unfolding map_history_def map_history_mint st by (simp add: comp_def) (metis map_append)
qed


definition human_text :: "'x conversation_item \<Rightarrow> ustr option" where
  "human_text item =
     (case item of
        User u \<Rightarrow> if usr_reason u = Human then Some (join [NL] (List.map_filter text_of_part (usr_content u))) else None
      | _ \<Rightarrow> None)"

definition closes_turn :: "'x conversation_item \<Rightarrow> bool" where
  "closes_turn item =
     (case item of
        User u \<Rightarrow> usr_reason u \<noteq> Human \<and> starts_prompt_turn (usr_reason u)
      | Assistant a \<Rightarrow> as_tool_calls a = []
      | _ \<Rightarrow> False)"

definition of_kind :: "string \<Rightarrow> mapped_event list \<Rightarrow> mapped_event list" where
  "of_kind k = filter (\<lambda>e. ev_kind e = lit k)"

lemma of_kind_append [simp]: "of_kind k (a @ b) = of_kind k a @ of_kind k b"
  by (simp add: of_kind_def)

lemmas map_item_events = map_item_def Let_def split_beta fst_tracker_next synthetic_events text_event_def user_prompt_event_def
  thinking_event_def turn_end_event_def tool_call_event_def tool_result_event_def backend_tool_events_def

lemma map_item_prompts:
  "map (\<lambda>e. get_str (ev_payload e) ''text'') (of_kind ''user_prompt'' (fst (map_item env s g item t facts))) =
     map Some (List.map_filter human_text [item])"
  by (cases item)
    (auto simp: map_item_events of_kind_def human_text_def lit_inject map_filter_simps is_human_def get_str_def
      text_payload_def json_get_insert content_parts_blocks_def filter_empty_conv split: option.splits)

lemma map_item_ends:
  "length (of_kind ''turn_end'' (fst (map_item env s g item t facts))) = (if closes_turn item then 1 else 0)"
  by (cases item)
    (auto simp: map_item_events of_kind_def closes_turn_def lit_inject is_human_def filter_empty_conv split: option.splits)

text \<open>
  What the user typed is the only thing recorded as a prompt, and turns are closed where the
  conversation closes them: the prompts of a history are, in order, the texts of its human user items, and
  the turn ends are as many as its assistant items without tool calls and turn-starting synthetic items.
\<close>

lemma history_turn_structure:
  "map (\<lambda>e. get_str (ev_payload e) ''text'') (of_kind ''user_prompt'' (fst (map_history_from env s g items facts t))) =
     map Some (List.map_filter human_text items) \<and>
   length (of_kind ''turn_end'' (fst (map_history_from env s g items facts t))) = length (filter closes_turn items)"
proof (induction items arbitrary: t)
  case (Cons item items)
  then show ?case using map_item_prompts[of env s g item t facts] map_item_ends[of env s g item t facts]
    by (auto simp: split_beta Let_def map_filter_simps split: option.splits)
qed (simp add: of_kind_def map_filter_simps)

text \<open>
  Images survive the archive: for a human user item with an image the recorded blocks read back as
  exactly the content parts, and for a tool result with images they read back as its text and its images.
\<close>

lemma blocks_roundtrip:
  "((\<exists>p \<in> set (usr_content u). is_image p) \<and> usr_reason u = Human \<longrightarrow>
     (\<exists>e bs. fst (map_item env s g (User u) t facts) = [e] \<and>
       json_get (ev_payload e) ''blocks'' = Some (JArray (map JObject bs)) \<and>
       content_parts_from_blocks env bs = usr_content u)) \<and>
   (tr_images r \<noteq> [] \<and> list_all is_image (tr_images r) \<longrightarrow>
     (\<exists>e bs. fst (map_item env s g (ToolResult r) t facts) = [e] \<and>
       json_get (ev_payload e) ''blocks'' = Some (JArray (map JObject bs)) \<and>
       tool_result_parts_from_blocks env bs = (tr_content r, tr_images r)))"
proof (intro conjI impI)
  assume "(\<exists>p \<in> set (usr_content u). is_image p) \<and> usr_reason u = Human"
  then have "list_ex is_image (usr_content u)" "is_human (usr_reason u)" by (auto simp: list_ex_iff is_human_def)
  then show "\<exists>e bs. fst (map_item env s g (User u) t facts) = [e] \<and>
       json_get (ev_payload e) ''blocks'' = Some (JArray (map JObject bs)) \<and>
       content_parts_from_blocks env bs = usr_content u"
    by (auto simp: map_item_events content_parts_blocks_def json_get_insert
        intro!: exI[of _ "map part_block (usr_content u)"] parts_from_blocks)
next
  assume r: "tr_images r \<noteq> [] \<and> list_all is_image (tr_images r)"
  let ?bs = "(if tr_content r = [] then [] else [text_block (tr_content r)]) @ map part_block (tr_images r)"
  have "map JObject ?bs = (if tr_content r = [] then [] else [JObject (text_block (tr_content r))]) @
      map (\<lambda>part. JObject (part_block part)) (tr_images r)" by (simp add: comp_def)
  then show "\<exists>e bs. fst (map_item env s g (ToolResult r) t facts) = [e] \<and>
       json_get (ev_payload e) ''blocks'' = Some (JArray (map JObject bs)) \<and>
       tool_result_parts_from_blocks env bs = (tr_content r, tr_images r)"
    using r tool_result_blocks[of r env]
    by (intro exI[of _ "hd (fst (map_item env s g (ToolResult r) t facts))"] exI[of _ ?bs])
      (simp add: map_item_events json_get_insert)
qed

text \<open>
  A model switch is never dropped as a duplicate: with the ordinal read from the stored keys, the
  keys of the events of a switch are distinct and not among the stored ones.
\<close>

lemma change_keys_fresh:
  assumes "s \<noteq> lit ''model_change''" "s \<noteq> lit ''thinking_level_change''"
    "max_change_ordinal_from_keys keys + 1 < u64_max"
  shows "\<forall>e \<in> set (fst (map_model_change s pm nm pl nl (max_change_ordinal_from_keys keys))).
      the (ev_key e) \<notin> set keys"
proof -
  let ?n = "max_change_ordinal_from_keys keys"
  have "model_change_key s ?n pm nm \<notin> set keys"
    using fresh_ordinal[OF _ change_ordinal_of_key(1)[OF assms(1)], of ?n keys] assms(3) by simp
  moreover have "thinking_level_change_key s m pl nl \<notin> set keys" if "m \<in> {?n, ?n + 1}" for m
    using fresh_ordinal[OF _ change_ordinal_of_key(2)[OF assms(2)], of m keys] assms(3) that by auto
  ultimately show ?thesis using assms(3)
    by (auto simp: map_model_change_def Let_def split_beta sat_inc64_def)
qed


section \<open>Examples\<close>

definition demo_lhc :: "unit lhc_env" where
  "demo_lhc = \<lparr>ser_item = (\<lambda>item. case item of System _ \<Rightarrow> Some [1] | _ \<Rightarrow> None), debug_item = (\<lambda>_. []),
     blake3_hex = (\<lambda>b. if b = [1] then lit ''a1'' else lit ''b2''), to_value = (\<lambda>_. JNull), debug_fmt = (\<lambda>_. []),
     ci_failed = (\<lambda>_. False), json_to_string = (\<lambda>_. []), json_from_str = (\<lambda>_. None), placeholder_text = (\<lambda>_. [])\<rparr>"

lemma demo_hex: "key_plain (blake3_hex demo_lhc b)"
  by (simp add: demo_lhc_def key_plain_def lit_def)

definition demo_user :: "synthetic_reason \<Rightarrow> unit conversation_item" where
  "demo_user r = User \<lparr>usr_content = [TextPart (lit ''hi''), ImagePart (lit ''data:image/png;base64,AA'')], usr_reason = r,
     usr_cwd_generation = None, usr_prior_turn_interrupt = None, usr_prompt_index = None\<rparr>"

definition demo_answer :: "unit conversation_item" where
  "demo_answer = Assistant \<lparr>as_content = lit ''ok'', as_tool_calls = [], as_model_id = None,
     as_model_fingerprint = None, as_reasoning_effort = None\<rparr>"

lemma history_keys_distinct_witness:
  "distinct (map ev_key (fst (map_history_from demo_lhc (lit ''s'') ITEM_KEY_GENERATION
     [demo_user Human, demo_answer, demo_user Human, demo_answer] no_facts occurrence_tracker_new)))"
  using history_keys_distinct[of demo_lhc "[demo_user Human, demo_answer, demo_user Human, demo_answer]"
      occurrence_tracker_new "lit ''s''" no_facts] demo_hex
  by (simp add: demo_user_def demo_answer_def distinct_call_ids_def count_of_def occurrence_tracker_new_def u64_max_def)

lemma capture_restart_transparent_witness:
  "\<exists>stored. stored = map ev_key (fst (map_history demo_lhc (lit ''s'') ITEM_KEY_GENERATION [demo_user Human, demo_answer] no_facts)) \<and>
    stored @ map ev_key (fst (map_history_from demo_lhc (lit ''s'') ITEM_KEY_GENERATION [demo_user Human] no_facts
      (seed_occurrence_from_keys (map the stored)))) =
    map ev_key (fst (map_history demo_lhc (lit ''s'') ITEM_KEY_GENERATION ([demo_user Human, demo_answer] @ [demo_user Human]) no_facts))"
  using capture_restart_transparent[OF _ _ refl, of demo_lhc "[demo_user Human, demo_answer]" "lit ''s''" no_facts
      "[demo_user Human]" no_facts no_facts] demo_hex by (simp add: u64_max_def)

lemma blocks_roundtrip_witness:
  "\<exists>e bs. fst (map_item demo_lhc (lit ''s'') 0 (demo_user Human) occurrence_tracker_new no_facts) = [e] \<and>
     json_get (ev_payload e) ''blocks'' = Some (JArray (map JObject bs)) \<and>
     content_parts_from_blocks demo_lhc bs = [TextPart (lit ''hi''), ImagePart (lit ''data:image/png;base64,AA'')]"
  using blocks_roundtrip[of "case demo_user Human of User u \<Rightarrow> u" demo_lhc "lit ''s''" 0 occurrence_tracker_new no_facts]
  by (simp add: demo_user_def is_image_def)

lemma demo_ordinal: "max_change_ordinal_from_keys [model_change_key (lit ''s'') 0 (lit ''a'') (lit ''b'')] = 1"
proof -
  let ?k = "model_change_key (lit ''s'') 0 (lit ''a'') (lit ''b'')"
  have "change_ordinal (lit '':thinking_level_change:'') ?k = None"
    by (simp add: change_ordinal_def model_change_key_def encode_eq encode_char_def lit_def nat_str.simps starts_with_def)
  moreover have "change_ordinal (lit '':model_change:'') ?k = Some 0"
    by (rule change_ordinal_of_key) (simp_all add: lit_inject)
  ultimately show ?thesis by (simp add: max_change_eq change_step_def sat_inc64_def u64_max_def)
qed

lemma change_keys_fresh_witness:
  "the (ev_key (hd (fst (map_model_change (lit ''s'') (lit ''a'') (lit ''b'') [] [] 1)))) \<notin>
     {model_change_key (lit ''s'') 0 (lit ''a'') (lit ''b'')}"
  using change_keys_fresh[of "lit ''s''" "[model_change_key (lit ''s'') 0 (lit ''a'') (lit ''b'')]" "lit ''a''" "lit ''b''" "[]" "[]"]
  by (simp add: lit_inject demo_ordinal u64_max_def map_model_change_def)

end
