(* ===== verification/Lhc_Clock.thy ===== *)
theory Lhc_Clock
  imports Lhc_Mapping
begin

text \<open>
  Turn-end facts from the shell and the host's own ISO-8601 clock
  (\<open>crates/lhc/grok-lhc-host/src/mapping.rs\<close>, lines 49 to 126).

  A \<open>SystemTime\<close> is its distance from the Unix epoch in nanoseconds. The calendar computation is the
  source's, on integers; the reference is the Gregorian calendar as a successor function on dates.
\<close>

section \<open>Calendar\<close>

type_synonym system_time = int

definition civil_from_days :: "int \<Rightarrow> int \<times> int \<times> int" where
  "civil_from_days days =
     (let z = days + 719468;
          era = (if z \<ge> 0 then z else z - 146096) div 146097;
          doe = z - era * 146097;
          yoe = (doe - doe div 1460 + doe div 36524 - doe div 146096) div 365;
          y = yoe + era * 400;
          doy = doe - (365 * yoe + yoe div 4 - yoe div 100);
          mp = (5 * doy + 2) div 153;
          d = doy - (153 * mp + 2) div 5 + 1;
          m = (if mp < 10 then mp + 3 else mp - 9);
          y = (if m \<le> 2 then y + 1 else y)
      in (y, m, d))"

definition civil_utc_from_unix_secs :: "u64 \<Rightarrow> nat \<times> nat \<times> nat \<times> nat \<times> nat \<times> nat" where
  "civil_utc_from_unix_secs secs =
     (let day_secs = 86400;
          days = secs div day_secs;
          rem = secs mod day_secs;
          hour = rem div 3600;
          minute = (rem mod 3600) div 60;
          second = rem mod 60;
          (y, m, d) = civil_from_days (int days)
      in (as_u32 (nat y), as_u32 (nat m), as_u32 (nat d), hour, minute, second))"

text \<open>Zero padding of \<open>format!\<close>.\<close>

definition pad0 :: "nat \<Rightarrow> nat \<Rightarrow> ustr" where
  "pad0 w n = replicate (w - length (nat_str n)) 48 @ nat_str n"

definition format_system_time_iso8601_millis :: "system_time \<Rightarrow> ustr" where
  "format_system_time_iso8601_millis t =
     (let dur = nat (max 0 t);
          secs = dur div 1000000000;
          millis = (dur mod 1000000000) div 1000000;
          (year, month, day, hour, minute, second) = civil_utc_from_unix_secs secs
      in pad0 4 year @ lit ''-'' @ pad0 2 month @ lit ''-'' @ pad0 2 day @ lit ''T'' @ pad0 2 hour @ lit '':'' @
         pad0 2 minute @ lit '':'' @ pad0 2 second @ lit ''.'' @ pad0 3 millis @ lit ''Z'')"

text \<open>\<open>SystemTime::checked_sub\<close>: the seconds are a signed 64-bit number.\<close>

definition time_checked_sub :: "system_time \<Rightarrow> nat \<Rightarrow> system_time option" where
  "time_checked_sub t nanos = (if t - int nanos < - (2 ^ 63 * 1000000000) then None else Some (t - int nanos))"

definition from_shell_outcome :: "ustr \<Rightarrow> ustr option \<Rightarrow> u64 \<Rightarrow> system_time \<Rightarrow> turn_end_facts" where
  "from_shell_outcome outcome_label cancellation_category duration_ms ended_at =
     (let label = map ascii_lower outcome_label;
          outcome = (if label = lit ''completed'' then lit ''completed'' else lit ''aborted'');
          outcome_reason = (case cancellation_category of Some c \<Rightarrow> c | None \<Rightarrow> label);
          started_at = (case time_checked_sub ended_at (duration_ms * 1000000) of Some t \<Rightarrow> t | None \<Rightarrow> 0)
      in \<lparr>tf_outcome = Some outcome, tf_outcome_reason = Some outcome_reason,
          tf_started_at = Some (format_system_time_iso8601_millis started_at),
          tf_ended_at = Some (format_system_time_iso8601_millis ended_at)\<rparr>)"

section \<open>The Gregorian calendar\<close>

definition leap_year :: "int \<Rightarrow> bool" where
  "leap_year y \<longleftrightarrow> y mod 4 = 0 \<and> (y mod 100 \<noteq> 0 \<or> y mod 400 = 0)"

definition month_len :: "int \<Rightarrow> int \<Rightarrow> int" where
  "month_len y m = (if m = 2 then (if leap_year y then 29 else 28) else if m \<in> {4, 6, 9, 11} then 30 else 31)"

definition next_day :: "int \<times> int \<times> int \<Rightarrow> int \<times> int \<times> int" where
  "next_day date =
     (let (y, m, d) = date in
      if d < month_len y m then (y, m, d + 1) else if m < 12 then (y, m + 1, 1) else (y + 1, 1, 1))"

section \<open>Days counted by era, century, four years, year and day\<close>

text \<open>Years start on the first of March; \<open>last_doy\<close> is the last day of such a year.\<close>

definition leap_end :: "int \<Rightarrow> int \<Rightarrow> int \<Rightarrow> bool" where
  "leap_end c q r \<longleftrightarrow> r = 3 \<and> (q \<noteq> 24 \<or> c = 3)"

definition last_doy :: "int \<Rightarrow> int \<Rightarrow> int \<Rightarrow> int" where
  "last_doy c q r = (if leap_end c q r then 365 else 364)"

definition in_era :: "int \<Rightarrow> int \<Rightarrow> int \<Rightarrow> int \<Rightarrow> bool" where
  "in_era c q r doy \<longleftrightarrow> c \<in> {0..3} \<and> q \<in> {0..24} \<and> r \<in> {0..3} \<and> 0 \<le> doy \<and> doy \<le> last_doy c q r"

definition day_of_era :: "int \<Rightarrow> int \<Rightarrow> int \<Rightarrow> int \<Rightarrow> int" where
  "day_of_era c q r doy = 36524 * c + 1461 * q + 365 * r + doy"

definition month_day :: "int \<Rightarrow> int \<times> int" where
  "month_day doy =
     (let mp = (5 * doy + 2) div 153
      in (if mp < 10 then mp + 3 else mp - 9, doy - (153 * mp + 2) div 5 + 1))"

lemma int_div_eqI: "k * b \<le> a \<Longrightarrow> a < k * b + b \<Longrightarrow> a div b = k" for a :: int
  by (rule int_div_pos_eq[of a b k "a - k * b"]) (auto simp: algebra_simps)

lemma era_bound: "in_era c q r doy \<Longrightarrow> 0 \<le> day_of_era c q r doy \<and> day_of_era c q r doy < 146097"
  by (auto simp: in_era_def day_of_era_def last_doy_def leap_end_def split: if_splits)

lemma yoe_correct:
  assumes "in_era c q r doy" "doe = day_of_era c q r doy"
  shows "(doe - doe div 1460 + doe div 36524 - doe div 146096) div 365 = 100 * c + 4 * q + r"
proof -
  let ?\<delta> = "if 24 * c + q + 365 * r + doy \<ge> 1460 then 1 else 0 :: int"
  let ?e = "if doe = 146096 then 1 else 0 :: int"
  note d = assms(1)[unfolded in_era_def last_doy_def leap_end_def] assms(2)[unfolded day_of_era_def]
  have a: "doe div 1460 = 25 * c + q + ?\<delta>" using d by (intro int_div_eqI) (auto split: if_splits)
  have b: "doe div 36524 = c + ?e" using d by (intro int_div_eqI) (auto split: if_splits)
  have e: "doe div 146096 = ?e" using d by (intro int_div_eqI) (auto split: if_splits)
  have "365 * (100 * c + 4 * q + r) + (doy - ?\<delta>) = doe - doe div 1460 + doe div 36524 - doe div 146096"
    unfolding a b e using d(2) by (simp add: algebra_simps)
  moreover have "0 \<le> doy - ?\<delta>" "doy - ?\<delta> < 365" using d(1) by (auto split: if_splits)
  ultimately show ?thesis by (intro int_div_eqI) linarith+
qed

lemma civil_eq:
  assumes "in_era c q r doy" "z = 146097 * era + day_of_era c q r doy" "0 \<le> era"
  shows "civil_from_days (z - 719468) =
    (let (m, d) = month_day doy in (400 * era + 100 * c + 4 * q + r + (if m \<le> 2 then 1 else 0), m, d))"
proof -
  let ?Y = "100 * c + 4 * q + r"
  have doe: "z div 146097 = era" "z \<ge> 0"
    using era_bound[OF assms(1)] assms(2,3) by (auto intro: int_div_eqI)
  have yoe: "(z - era * 146097 - (z - era * 146097) div 1460 + (z - era * 146097) div 36524 - (z - era * 146097) div 146096) div 365 = ?Y"
    using yoe_correct[OF assms(1)] assms(2) by simp
  have "?Y div 4 = 25 * c + q" "?Y div 100 = c"
    using assms(1) by (auto simp: in_era_def intro!: int_div_eqI)
  then have doy: "z - era * 146097 - (365 * ?Y + ?Y div 4 - ?Y div 100) = doy"
    using assms(2) by (simp add: day_of_era_def)
  have "z - 719468 + 719468 = z" by simp
  then show ?thesis unfolding civil_from_days_def Let_def month_day_def
    by (simp only: doe if_True yoe doy split: if_split) (simp add: mult.commute)
qed


section \<open>One day after the other\<close>

text \<open>Inside a year the months have their lengths; February ends the year.\<close>

definition day_step_ok :: "int \<Rightarrow> bool" where
  "day_step_ok doy =
     (let (m, d) = month_day doy; (m', d') = month_day (doy + 1);
          len = (if m = 2 then 28 else if m \<in> {4, 6, 9, 11} then 30 else 31)
      in (if d < len then m' = m \<and> d' = d + 1
          else m \<noteq> 2 \<and> d = len \<and> d' = 1 \<and> m' = (if m < 12 then m + 1 else 1)))"

lemma day_steps: "list_all day_step_ok [0..363]"
  by code_simp

lemma day_step: "0 \<le> doy \<Longrightarrow> doy < 364 \<Longrightarrow> day_step_ok doy"
  using day_steps by (auto simp: list_all_iff)

lemma year_end: "month_day 364 = (2, 28)" "month_day 365 = (2, 29)" "month_day 0 = (3, 1)"
  by (simp_all add: month_day_def)

lemma leap_end_iff:
  assumes "c \<in> {0..3}" "q \<in> {0..24}" "r \<in> {0..3}"
  shows "leap_year (400 * era + 100 * c + 4 * q + r + 1) \<longleftrightarrow> leap_end c q r"
proof -
  let ?y = "400 * era + 100 * c + 4 * q + r + 1"
  have "?y = (r + 1) + 4 * (100 * era + 25 * c + q)" by simp
  then have "?y mod 4 = (r + 1) mod 4" by (metis mod_mult_self2)
  then have m4: "?y mod 4 = 0 \<longleftrightarrow> r = 3" using assms(3) mod_pos_pos_trivial[of "r + 1" 4] by (cases "r = 3") auto
  have m100: "?y mod 100 = 0 \<longleftrightarrow> q = 24" if r: "r = 3"
  proof -
    have "?y = 4 * (q + 1) + 100 * (4 * era + c)" using r by simp
    then have "?y mod 100 = 4 * (q + 1) mod 100" by (metis mod_mult_self2)
    then show ?thesis using assms(2) mod_pos_pos_trivial[of "4 * (q + 1)" 100] by (cases "q = 24") auto
  qed
  have m400: "?y mod 400 = 0 \<longleftrightarrow> c = 3" if "r = 3" "q = 24"
  proof -
    have "?y = 100 * (c + 1) + 400 * era" using that by simp
    then have "?y mod 400 = 100 * (c + 1) mod 400" by (metis mod_mult_self2)
    then show ?thesis using assms(1) mod_pos_pos_trivial[of "100 * (c + 1)" 400] by (cases "c = 3") auto
  qed
  show ?thesis unfolding leap_year_def leap_end_def using m4 m100 m400 by metis
qed


text \<open>The successor of a counted day.\<close>

lemma era_next:
  assumes "in_era c q r doy" "0 \<le> era"
  obtains era' c' q' r' doy' where "in_era c' q' r' doy'" "0 \<le> era'"
    "146097 * era' + day_of_era c' q' r' doy' = 146097 * era + day_of_era c q r doy + 1"
    "if doy < last_doy c q r then (era', c', q', r', doy') = (era, c, q, r, doy + 1)
     else doy' = 0 \<and> 400 * era' + 100 * c' + 4 * q' + r' = 400 * era + 100 * c + 4 * q + r + 1"
proof -
  note i = assms(1)[unfolded in_era_def last_doy_def leap_end_def]
  consider (same) "doy < last_doy c q r" | (year) "\<not> doy < last_doy c q r" "r < 3"
    | (leap) "\<not> doy < last_doy c q r" "r = 3" "q < 24" | (century) "\<not> doy < last_doy c q r" "r = 3" "q = 24" "c < 3"
    | (era) "\<not> doy < last_doy c q r" "r = 3" "q = 24" "c = 3"
    using i by force
  then show thesis
  proof cases
    case same
    then show thesis using assms by (intro that[of c q r "doy + 1" era]) (auto simp: in_era_def day_of_era_def)
  next
    case year
    then show thesis using i assms(2)
      by (intro that[of c q "r + 1" 0 era]) (auto simp: in_era_def day_of_era_def last_doy_def leap_end_def split: if_splits)
  next
    case leap
    then show thesis using i assms(2)
      by (intro that[of c "q + 1" 0 0 era]) (auto simp: in_era_def day_of_era_def last_doy_def leap_end_def split: if_splits)
  next
    case century
    then show thesis using i assms(2)
      by (intro that[of "c + 1" 0 0 0 era]) (auto simp: in_era_def day_of_era_def last_doy_def leap_end_def split: if_splits)
  next
    case era
    then show thesis using i assms(2)
      by (intro that[of 0 0 0 0 "era + 1"]) (auto simp: in_era_def day_of_era_def last_doy_def leap_end_def split: if_splits)
  qed
qed


definition counted_date :: "int \<Rightarrow> int \<Rightarrow> int \<times> int \<times> int" where
  "counted_date y doy = (let (m, d) = month_day doy in (y + (if m \<le> 2 then 1 else 0), m, d))"

lemma counted_step:
  assumes "in_era c q r doy" "y = 400 * era + 100 * c + 4 * q + r"
  shows "next_day (counted_date y doy) = (if doy < last_doy c q r then counted_date y (doy + 1) else counted_date (y + 1) 0)"
proof -
  have leap: "leap_year (y + 1) \<longleftrightarrow> leap_end c q r" using assms leap_end_iff[of c q r era] by (simp add: in_era_def)
  consider (inner) "0 \<le> doy" "doy < 364" | (feb28) "doy = 364" | (feb29) "doy = 365" "leap_end c q r"
  proof -
    have "0 \<le> doy" "doy \<le> last_doy c q r" using assms(1) by (auto simp: in_era_def)
    moreover have "doy < 364 \<or> doy = 364 \<or> doy = 365 \<and> leap_end c q r"
      using calculation by (auto simp: last_doy_def split: if_splits)
    ultimately show thesis using that by blast
  qed
  then show ?thesis
  proof cases
    case inner
    then have "doy < last_doy c q r" by (simp add: last_doy_def)
    then show ?thesis using day_step[OF inner]
      by (auto simp: day_step_ok_def counted_date_def next_day_def month_len_def Let_def split: prod.splits if_splits)
  next
    case feb28
    then show ?thesis using leap
      by (auto simp: last_doy_def counted_date_def next_day_def month_len_def year_end split: if_splits)
  next
    case feb29
    then show ?thesis using leap by (simp add: last_doy_def counted_date_def next_day_def month_len_def year_end)
  qed
qed

lemma civil_counted:
  "in_era c q r doy \<Longrightarrow> 0 \<le> era \<Longrightarrow> z = 146097 * era + day_of_era c q r doy \<Longrightarrow>
   civil_from_days (z - 719468) = counted_date (400 * era + 100 * c + 4 * q + r) doy"
  by (simp add: civil_eq counted_date_def Let_def split_beta)

lemma civil_reference:
  "civil_from_days (int n) = (next_day ^^ n) (1970, 1, 1) \<and>
   (\<exists>era c q r doy. in_era c q r doy \<and> 0 \<le> era \<and> int n + 719468 = 146097 * era + day_of_era c q r doy)"
proof (induction n)
  case 0
  have e: "in_era 3 17 1 306" by (simp add: in_era_def last_doy_def leap_end_def)
  have z: "719468 = 146097 * 4 + day_of_era 3 17 1 306" by (simp add: day_of_era_def)
  have "civil_from_days (719468 - 719468) = counted_date (400 * 4 + 100 * 3 + 4 * 17 + 1) 306"
    by (rule civil_counted[OF e _ z]) simp
  moreover have "month_day 306 = (1, 1)" by (simp add: month_day_def)
  ultimately have "civil_from_days (int 0) = (1970, 1, 1)" by (simp add: counted_date_def)
  moreover have "0 \<le> (4 :: int)" "int 0 + 719468 = 146097 * 4 + day_of_era 3 17 1 306" using z by simp_all
  ultimately show ?case using e by (metis funpow_0)
next
  case (Suc n)
  then obtain era c q r doy where e: "in_era c q r doy" "0 \<le> era" "int n + 719468 = 146097 * era + day_of_era c q r doy"
    by blast
  let ?y = "400 * era + 100 * c + 4 * q + r"
  obtain era' c' q' r' doy' where e': "in_era c' q' r' doy'" "0 \<le> era'"
    "146097 * era' + day_of_era c' q' r' doy' = 146097 * era + day_of_era c q r doy + 1"
    "if doy < last_doy c q r then (era', c', q', r', doy') = (era, c, q, r, doy + 1)
     else doy' = 0 \<and> 400 * era' + 100 * c' + 4 * q' + r' = ?y + 1"
    using era_next[OF e(1,2)] .
  have n: "civil_from_days (int n) = counted_date ?y doy" using civil_counted[OF e] by simp
  have z': "int (Suc n) + 719468 = 146097 * era' + day_of_era c' q' r' doy'" using e(3) e'(3) by simp
  have "civil_from_days (int (Suc n)) = counted_date (400 * era' + 100 * c' + 4 * q' + r') doy'"
    using civil_counted[OF e'(1,2) z'] by simp
  also have "\<dots> = next_day (civil_from_days (int n))"
    unfolding n counted_step[OF e(1) refl] using e'(4) by (auto split: if_splits)
  also have "\<dots> = (next_day ^^ Suc n) (1970, 1, 1)" using Suc by simp
  finally show ?case using e'(1,2) z' by blast
qed

lemma date_bounds:
  "(case (next_day ^^ n) (1970, 1, 1) of (y, m, d) \<Rightarrow> 1970 \<le> y \<and> 1 \<le> m \<and> m \<le> 12 \<and> 1 \<le> d \<and> d \<le> month_len y m \<and> d \<le> 31)"
  by (induction n) (auto simp: next_day_def month_len_def split: if_splits prod.splits)

section \<open>Properties\<close>

text \<open>
  The host's clock is the Gregorian calendar: up to the year 4294967295 the date computed from a
  number of seconds is the one reached from the first of January 1970 by as many successor steps as full
  days have passed, and the time of day adds up to the remaining seconds.
\<close>

lemma civil_is_gregorian:
  assumes "(next_day ^^ (secs div 86400)) (1970, 1, 1) = (y, m, d)" "y < 2 ^ 32"
  shows "\<exists>hour minute second. civil_utc_from_unix_secs secs = (nat y, nat m, nat d, hour, minute, second) \<and>
    hour < 24 \<and> minute < 60 \<and> second < 60 \<and> secs mod 86400 = 3600 * hour + 60 * minute + second \<and>
    1 \<le> m \<and> m \<le> 12 \<and> 1 \<le> d \<and> d \<le> month_len y m"
proof -
  let ?rem = "secs mod 86400"
  have b: "1970 \<le> y" "1 \<le> m" "m \<le> 12" "1 \<le> d" "d \<le> month_len y m" "d \<le> 31"
    using date_bounds[of "secs div 86400"] assms(1) by auto
  have c: "civil_from_days (int (secs div 86400)) = (y, m, d)" using civil_reference assms(1) by simp
  have u: "as_u32 (nat y) = nat y" "as_u32 (nat m) = nat m" "as_u32 (nat d) = nat d"
    using b assms(2) by (auto simp: as_u32_def)
  have "?rem < 86400" by simp
  then have "?rem div 3600 < 24" by (simp add: div_less_iff_less_mult)
  moreover have "?rem mod 3600 div 60 < 60" by (simp add: div_less_iff_less_mult)
  moreover have "?rem mod 3600 = 60 * (?rem mod 3600 div 60) + ?rem mod 60"
  proof -
    have "?rem mod 3600 mod 60 = ?rem mod 60" by (rule mod_mod_cancel) simp
    then show ?thesis by (metis mult_div_mod_eq)
  qed
  then have "?rem = 3600 * (?rem div 3600) + 60 * (?rem mod 3600 div 60) + ?rem mod 60"
    using mult_div_mod_eq[of 3600 ?rem] by linarith
  ultimately show ?thesis using b c u
    by (simp add: civil_utc_from_unix_secs_def Let_def)
qed

lemma civil_is_gregorian_witness:
  "\<exists>hour minute second. civil_utc_from_unix_secs 86399 = (1970, 1, 1, hour, minute, second) \<and> second < 60"
  using civil_is_gregorian[of 86399 1970 1 1] by auto

end
