(* ===== verification/Lhc_Session.thy ===== *)
theory Lhc_Session
  imports Lhc_Mapping Rust_Path
begin

text \<open>
  The capture session of the LHC host (\<open>crates/lhc/grok-lhc-host/src/session.rs\<close>): submitting events to the
  archive, giving up after repeated failures, seeding from the stored events, and the file of a thread.

  The archive is the SDK's: its state is the type variable \<open>'a\<close> and its operations are the record \<open>sdk\<close>.
  \<open>archive_contract\<close> says what the host relies on: the stored events have increasing orders; a batch
  that succeeds stores, in order, the events whose keys are not stored yet and says for each whether it
  was; a batch that fails stores no event that was not submitted; compaction changes views, not events. \<open>stored\<close> is the list of the stored
  events' orders and keys.
\<close>

section \<open>The archive\<close>

datatype batch_outcome = Recorded | Skipped

record batch_result =
  bt_events :: "(ustr \<times> batch_outcome) list"
  bt_last_event_order :: int

record 'a sdk =
  message_events :: "'a \<Rightarrow> mapped_event list \<Rightarrow> (ustr + batch_result) \<times> 'a"
  sdk_list_events :: "'a \<Rightarrow> ustr + (int \<times> ustr) list"
  active_turn_tokens :: "'a \<Rightarrow> ustr + int option"
  segment_threshold_tokens :: "'a \<Rightarrow> int option"
  compact_view :: "'a \<Rightarrow> 'a"

section \<open>Sessions\<close>

record 'a lhc_session =
  ls_archive :: 'a
  ls_generation :: u64
  ls_next_change_ordinal :: u64
  ls_capture_disabled :: bool
  ls_failure_count :: u32
  ls_serving_model :: "ustr option"

definition empty_batch :: "'a lhc_session \<Rightarrow> batch_result" where
  "empty_batch s = \<lparr>bt_events = [], bt_last_event_order = int (ls_generation s)\<rparr>"

definition set_serving_model :: "'a lhc_session \<Rightarrow> ustr \<Rightarrow> 'a lhc_session" where
  "set_serving_model s model = (if model \<noteq> [] then s\<lparr>ls_serving_model := Some model\<rparr> else s)"

definition latch_generation_from_batch :: "'a lhc_session \<Rightarrow> batch_result \<Rightarrow> 'a lhc_session" where
  "latch_generation_from_batch s batch =
     (let tip = nat (max (bt_last_event_order batch) 0) in s\<lparr>ls_generation := max (ls_generation s) tip\<rparr>)"

definition submit_events :: "'a sdk \<Rightarrow> 'a lhc_session \<Rightarrow> mapped_event list \<Rightarrow> (ustr + batch_result) \<times> 'a lhc_session" where
  "submit_events sdk s events =
     (if ls_capture_disabled s then (Inl (lit ''capture disabled for session''), s)
      else if events = [] then (Inr (empty_batch s), s)
      else (case message_events sdk (ls_archive s) events of
              (Inr value, a) \<Rightarrow>
                (Inr value, latch_generation_from_batch (s\<lparr>ls_archive := a, ls_failure_count := 0\<rparr>) value)
            | (Inl error, a) \<Rightarrow>
                (let s = s\<lparr>ls_archive := a, ls_failure_count := sat_add32 (ls_failure_count s) 1\<rparr>;
                     s = (if ls_failure_count s \<ge> 3 then s\<lparr>ls_capture_disabled := True\<rparr> else s)
                 in (Inl error, s))))"

definition seed_from_db :: "'a sdk \<Rightarrow> 'a lhc_session \<Rightarrow> (ustr + occurrence_tracker) \<times> 'a lhc_session" where
  "seed_from_db sdk s =
     (case sdk_list_events sdk (ls_archive s) of
        Inl err \<Rightarrow> (Inl err, s)
      | Inr events \<Rightarrow>
          (let keys = map snd events;
               s = s\<lparr>ls_generation := nat (max (case events of [] \<Rightarrow> 0 | _ \<Rightarrow> Max (set (map fst events))) 0),
                     ls_next_change_ordinal := max_change_ordinal_from_keys keys\<rparr>
           in (Inr (seed_occurrence_from_keys keys), s)))"

text \<open>\<open>LhcSession::open\<close> from the point where the thread of the session has been resolved or created.\<close>

definition session_open :: "'a sdk \<Rightarrow> 'a \<Rightarrow> ustr option \<Rightarrow> ('a lhc_session \<times> occurrence_tracker) option" where
  "session_open sdk archive serving_model =
     (let s = \<lparr>ls_archive = archive, ls_generation = 0, ls_next_change_ordinal = 0, ls_capture_disabled = False,
               ls_failure_count = 0, ls_serving_model = non_empty serving_model\<rparr>
      in case seed_from_db sdk s of
           (Inr t, s) \<Rightarrow> Some (s, t)
         | (Inl _, _) \<Rightarrow> None)"

section \<open>The file of a thread\<close>

text \<open>The UTF-8 bytes of a code point.\<close>

definition utf8_bytes :: "uchar \<Rightarrow> nat list" where
  "utf8_bytes c =
     (let n = nat c in
      if n < 128 then [n]
      else if n < 2048 then [192 + n div 64, 128 + n mod 64]
      else if n < 65536 then [224 + n div 4096, 128 + n div 64 mod 64, 128 + n mod 64]
      else [240 + n div 262144, 128 + n div 4096 mod 64, 128 + n div 64 mod 64, 128 + n mod 64])"

definition as_bytes :: "ustr \<Rightarrow> nat list" where
  "as_bytes s = concat (map utf8_bytes s)"

definition nibble_hex :: "nat \<Rightarrow> uchar" where
  "nibble_hex n = (if n \<le> 9 then 48 + int n else if n \<le> 15 then 65 + int (n - 10) else 48)"

definition is_ascii_alphanumeric :: "uchar \<Rightarrow> bool" where
  "is_ascii_alphanumeric c \<longleftrightarrow> (48 \<le> c \<and> c \<le> 57) \<or> (65 \<le> c \<and> c \<le> 90) \<or> (97 \<le> c \<and> c \<le> 122)"

definition encode_path_byte :: "nat \<Rightarrow> ustr" where
  "encode_path_byte b =
     (let c = int b in
      if is_ascii_alphanumeric c \<or> c = 45 \<or> c = 95 then [c]
      else [PERCENT, nibble_hex (b div 16), nibble_hex (b mod 16)])"

definition encode_session_id_for_path :: "ustr \<Rightarrow> ustr" where
  "encode_session_id_for_path session_id = concat (map encode_path_byte (as_bytes session_id))"

definition thread_file_path :: "ustr \<Rightarrow> ustr \<Rightarrow> ustr" where
  "thread_file_path root session_id =
     path_join (path_join root (lit ''threads''))
       (lit ''grok-'' @ encode_session_id_for_path session_id @ lit ''.sqlite'')"

section \<open>Contract of the archive\<close>

text \<open>The keys of a batch that are not stored yet, each once, in order.\<close>

fun fresh_keys :: "ustr set \<Rightarrow> ustr list \<Rightarrow> ustr list" where
  "fresh_keys known [] = []"
| "fresh_keys known (k # ks) = (if k \<in> known then fresh_keys known ks else k # fresh_keys (insert k known) ks)"

fun batch_outcomes :: "ustr set \<Rightarrow> ustr list \<Rightarrow> (ustr \<times> batch_outcome) list" where
  "batch_outcomes known [] = []"
| "batch_outcomes known (k # ks) = (k, if k \<in> known then Skipped else Recorded) # batch_outcomes (insert k known) ks"

definition keys_of :: "mapped_event list \<Rightarrow> ustr list" where
  "keys_of evs = map (\<lambda>e. the (ev_key e)) evs"

definition archive_contract :: "'a sdk \<Rightarrow> ('a \<Rightarrow> (int \<times> ustr) list) \<Rightarrow> bool" where
  "archive_contract sdk stored \<longleftrightarrow>
     (\<forall>a. sorted_wrt (<) (map fst (stored a)) \<and> (\<forall>(i, k) \<in> set (stored a). 0 < i)) \<and>
     (\<forall>a. stored (compact_view sdk a) = stored a) \<and>
     (\<forall>a es. sdk_list_events sdk a = Inr es \<longrightarrow> es = stored a) \<and>
     (\<forall>a evs b a'. message_events sdk a evs = (Inr b, a') \<longrightarrow>
        bt_events b = batch_outcomes (snd ` set (stored a)) (keys_of evs) \<and>
        (\<exists>new. stored a' = stored a @ new \<and> map snd new = fresh_keys (snd ` set (stored a)) (keys_of evs)) \<and>
        (stored a' \<noteq> [] \<longrightarrow> bt_last_event_order b = fst (last (stored a')))) \<and>
     (\<forall>a evs e a'. message_events sdk a evs = (Inl e, a') \<longrightarrow>
        (\<exists>new. stored a' = stored a @ new \<and> snd ` set new \<subseteq> set (keys_of evs)))"

abbreviation stored_keys :: "('a \<Rightarrow> (int \<times> ustr) list) \<Rightarrow> 'a \<Rightarrow> ustr list" where
  "stored_keys stored a \<equiv> map snd (stored a)"

lemma set_fresh_keys: "set (fresh_keys known ks) = set ks - known"
  by (induction known ks rule: fresh_keys.induct) auto

lemma fresh_keys_none: "set ks \<subseteq> known \<Longrightarrow> fresh_keys known ks = []"
  using set_fresh_keys[of known ks] by (metis Diff_eq_empty_iff set_empty)

lemma batch_outcomes_recorded:
  "distinct ks \<Longrightarrow> set ks \<inter> known = {} \<Longrightarrow> batch_outcomes known ks = map (\<lambda>k. (k, Recorded)) ks"
  by (induction known ks rule: batch_outcomes.induct) auto

lemma contract_ok:
  assumes "archive_contract sdk stored" "message_events sdk a evs = (Inr b, a')"
  obtains new where "stored a' = stored a @ new" "map snd new = fresh_keys (snd ` set (stored a)) (keys_of evs)"
    "bt_events b = batch_outcomes (snd ` set (stored a)) (keys_of evs)"
    "stored a' \<noteq> [] \<Longrightarrow> bt_last_event_order b = fst (last (stored a'))"
  using assms unfolding archive_contract_def by meson

lemma contract_err:
  assumes "archive_contract sdk stored" "message_events sdk a evs = (Inl e, a')"
  obtains new where "stored a' = stored a @ new" "snd ` set new \<subseteq> set (keys_of evs)"
  using assms unfolding archive_contract_def by meson

lemma contract_list: "archive_contract sdk stored \<Longrightarrow> sdk_list_events sdk a = Inr es \<Longrightarrow> es = stored a"
  unfolding archive_contract_def by blast

lemma contract_compact: "archive_contract sdk stored \<Longrightarrow> stored (compact_view sdk a) = stored a"
  unfolding archive_contract_def by blast

text \<open>The ways a submission can end.\<close>

lemma submit_cases:
  obtains (disabled) e where "ls_capture_disabled s" "submit_events sdk s evs = (Inl e, s)"
  | (none) "\<not> ls_capture_disabled s" "evs = []" "submit_events sdk s evs = (Inr (empty_batch s), s)"
  | (ok) b a where "\<not> ls_capture_disabled s" "evs \<noteq> []" "message_events sdk (ls_archive s) evs = (Inr b, a)"
      "submit_events sdk s evs =
         (Inr b, latch_generation_from_batch (s\<lparr>ls_archive := a, ls_failure_count := 0\<rparr>) b)"
  | (err) e a s' where "\<not> ls_capture_disabled s" "evs \<noteq> []" "message_events sdk (ls_archive s) evs = (Inl e, a)"
      "submit_events sdk s evs = (Inl e, s')" "ls_archive s' = a" "ls_generation s' = ls_generation s"
      "ls_next_change_ordinal s' = ls_next_change_ordinal s"
proof (cases "message_events sdk (ls_archive s) evs")
  case (Pair r a)
  show thesis
  proof (cases "ls_capture_disabled s \<or> evs = []")
    case False
    then show thesis using ok err Pair by (cases r) (auto simp: submit_events_def Let_def)
  qed (use disabled none in \<open>auto simp: submit_events_def\<close>)
qed

lemma latch_sel [simp]:
  "ls_archive (latch_generation_from_batch s b) = ls_archive s"
  "ls_next_change_ordinal (latch_generation_from_batch s b) = ls_next_change_ordinal s"
  "ls_capture_disabled (latch_generation_from_batch s b) = ls_capture_disabled s"
  by (simp_all add: latch_generation_from_batch_def Let_def)

lemma keys_of_simps [simp]:
  "keys_of [] = []" "keys_of (e # es) = the (ev_key e) # keys_of es" "keys_of (a @ b) = keys_of a @ keys_of b"
  by (simp_all add: keys_of_def)

text \<open>Whatever the outcome, only submitted keys are added and nothing is removed.\<close>

lemma submit_stored:
  assumes "archive_contract sdk stored"
  obtains new where "stored (ls_archive (snd (submit_events sdk s evs))) = stored (ls_archive s) @ new"
    "snd ` set new \<subseteq> set (keys_of evs)"
proof (cases rule: submit_cases[of s sdk evs])
  case (ok b a)
  obtain new where n: "stored a = stored (ls_archive s) @ new" "map snd new = fresh_keys (snd ` set (stored (ls_archive s))) (keys_of evs)"
    using contract_ok[OF assms ok(3)] .
  have "snd ` set new = set (fresh_keys (snd ` set (stored (ls_archive s))) (keys_of evs))" by (metis n(2) list.set_map)
  with n ok show thesis by (intro that[of new]) (auto simp: set_fresh_keys)
next
  case (err e a s')
  then show thesis using contract_err[OF assms err(3)] that by simp metis
qed (use that[of "[]"] in auto)

lemma submit_ok_stored:
  assumes "archive_contract sdk stored" "submit_events sdk s evs = (Inr b, s')"
  shows "set (stored_keys stored (ls_archive s')) = set (stored_keys stored (ls_archive s)) \<union> set (keys_of evs)"
    "bt_events b = batch_outcomes (set (stored_keys stored (ls_archive s))) (keys_of evs)"
proof -
  have "set (stored_keys stored (ls_archive s')) = set (stored_keys stored (ls_archive s)) \<union> set (keys_of evs) \<and>
    bt_events b = batch_outcomes (set (stored_keys stored (ls_archive s))) (keys_of evs)"
  proof (cases rule: submit_cases[of s sdk evs])
    case (ok b' a)
    obtain new where "stored a = stored (ls_archive s) @ new"
      "map snd new = fresh_keys (snd ` set (stored (ls_archive s))) (keys_of evs)"
      "bt_events b' = batch_outcomes (snd ` set (stored (ls_archive s))) (keys_of evs)"
      using contract_ok[OF assms(1) ok(3)] .
    then have "set (stored_keys stored a) = set (stored_keys stored (ls_archive s)) \<union> set (keys_of evs)"
      using set_fresh_keys by (metis Un_Diff_cancel list.set_map map_append set_append)
    with ok assms(2) \<open>bt_events b' = _\<close> show ?thesis by auto
  qed (use assms(2) in \<open>auto simp: empty_batch_def\<close>)
  then show "set (stored_keys stored (ls_archive s')) = set (stored_keys stored (ls_archive s)) \<union> set (keys_of evs)"
    "bt_events b = batch_outcomes (set (stored_keys stored (ls_archive s))) (keys_of evs)" by auto
qed


section \<open>Distinct sessions have distinct files\<close>

definition scalar :: "uchar \<Rightarrow> bool" where
  "scalar c \<longleftrightarrow> 0 \<le> c \<and> c < 1114112"

text \<open>A code that can be read from the front is injective on sequences.\<close>

lemma prefix_code_inject:
  assumes code: "\<And>a b x y. P a \<Longrightarrow> P b \<Longrightarrow> f a @ x = f b @ y \<Longrightarrow> a = b \<and> x = y" and ne: "\<And>a. f a \<noteq> []"
    and "list_all P s" "list_all P t" "concat (map f s) = concat (map f t)"
  shows "s = t"
  using assms(3-5)
proof (induction s arbitrary: t)
  case Nil
  then have "\<forall>a \<in> set t. f a = []" by simp
  then show ?case using ne by (cases t) auto
next
  case (Cons a s)
  have "t \<noteq> []" using Cons.prems(3) ne[of a] by auto
  then obtain b t' where t: "t = b # t'" by (cases t) auto
  have ps: "P a" "list_all P s" "P b" "list_all P t'" using Cons.prems(1,2) t by simp_all
  have "f a @ concat (map f s) = f b @ concat (map f t')" using Cons.prems(3) t by simp
  from code[OF ps(1,3) this] have "a = b" "concat (map f s) = concat (map f t')" by blast+
  with Cons.IH[OF ps(2,4)] t show ?case by blast
qed

lemma nibble_hex_inject: "a < 16 \<Longrightarrow> b < 16 \<Longrightarrow> nibble_hex a = nibble_hex b \<longleftrightarrow> a = b"
  by (cases "a \<le> 9"; cases "b \<le> 9") (simp_all add: nibble_hex_def)

lemma encode_path_byte_prefix:
  assumes "a < 256" "b < 256" "encode_path_byte a @ x = encode_path_byte b @ y"
  shows "a = b \<and> x = y"
proof -
  have "a div 16 < 16" "b div 16 < 16" "a mod 16 < 16" "b mod 16 < 16" using assms(1,2) by auto
  moreover have "a = b" if "a div 16 = b div 16" "a mod 16 = b mod 16" using that by (metis div_mult_mod_eq)
  ultimately show ?thesis using assms(3)
    by (auto simp: encode_path_byte_def Let_def nibble_hex_inject is_ascii_alphanumeric_def split: if_splits)
qed

lemma utf8_bytes_lt: "scalar c \<Longrightarrow> b \<in> set (utf8_bytes c) \<Longrightarrow> b < 256"
proof -
  assume c: "scalar c" and b: "b \<in> set (utf8_bytes c)"
  let ?n = "nat c"
  have n: "?n < 1114112" using c by (auto simp: scalar_def)
  have "?n div 262144 < 5" "?n < 65536 \<Longrightarrow> ?n div 4096 < 16" "?n < 2048 \<Longrightarrow> ?n div 64 < 32"
    using n by (simp_all add: div_less_iff_less_mult)
  moreover have "128 + k mod 64 < (256 :: nat)" for k using mod_less_divisor[of 64 k] by linarith
  ultimately show ?thesis using b by (auto simp: utf8_bytes_def Let_def simp del: add_less_cancel_left split: if_splits)
qed

lemma mod64_rebuild: "m div 64 = n div 64 \<Longrightarrow> m mod 64 = n mod 64 \<Longrightarrow> m = n" for m n :: nat
  by (metis div_mult_mod_eq)

lemma utf8_bytes_prefix:
  assumes "scalar c" "scalar d" "utf8_bytes c @ x = utf8_bytes d @ y"
  shows "c = d \<and> x = y"
proof -
  let ?m = "nat c" and ?n = "nat d"
  have cd: "c = d \<longleftrightarrow> ?m = ?n" using assms(1,2) by (auto simp: scalar_def)
  have d4096: "k div 4096 = k div 64 div 64" "k div 262144 = k div 64 div 64 div 64" for k :: nat
    by (simp_all add: div_mult2_eq[symmetric])
  have small: "k div 64 < 32" if "k < 2048" for k :: nat using that by (simp add: div_less_iff_less_mult)
  have small3: "k div 4096 < 16" if "k < 65536" for k :: nat using that by (simp add: div_less_iff_less_mult)
  have "?m = ?n \<and> x = y"
    using assms(3) small[of ?m] small[of ?n] small3[of ?m] small3[of ?n]
    by (auto simp: utf8_bytes_def Let_def d4096 split: if_splits intro: mod64_rebuild)
  with cd show ?thesis by simp
qed

lemma encode_for_path_inject:
  assumes "list_all scalar s" "list_all scalar t" "encode_session_id_for_path s = encode_session_id_for_path t"
  shows "s = t"
proof -
  have lt: "list_all (\<lambda>b. b < 256) (as_bytes u)" if "list_all scalar u" for u
    using that utf8_bytes_lt by (auto simp: as_bytes_def list_all_iff)
  have "encode_path_byte b \<noteq> []" for b by (simp add: encode_path_byte_def Let_def)
  from prefix_code_inject[of "\<lambda>b. b < 256", OF encode_path_byte_prefix this lt[OF assms(1)] lt[OF assms(2)]]
  have "as_bytes s = as_bytes t" using assms(3) by (simp add: encode_session_id_for_path_def)
  moreover have "utf8_bytes c \<noteq> []" for c by (simp add: utf8_bytes_def Let_def)
  note prefix_code_inject[of scalar, OF utf8_bytes_prefix this assms(1,2)]
  ultimately show ?thesis by (simp add: as_bytes_def)
qed


section \<open>Properties\<close>

text \<open>
  No two sessions share a thread file: the file of a session determines its id, whatever
  characters the id has.
\<close>

lemma thread_files_distinct:
  assumes "list_all scalar s" "list_all scalar t" "thread_file_path root s = thread_file_path root t"
  shows "s = t"
proof -
  have "\<not> is_absolute (lit ''grok-'' @ r)" for r by (simp add: lit_def is_absolute_def starts_with_def)
  then have "encode_session_id_for_path s = encode_session_id_for_path t"
    using assms(3) by (simp add: thread_file_path_def path_join_def split: if_splits)
  then show ?thesis by (rule encode_for_path_inject[OF assms(1,2)])
qed

lemma thread_files_distinct_witness:
  "thread_file_path (lit ''/r'') (lit ''a:b'') \<noteq> thread_file_path (lit ''/r'') (lit ''a_b'')"
proof
  assume "thread_file_path (lit ''/r'') (lit ''a:b'') = thread_file_path (lit ''/r'') (lit ''a_b'')"
  then have "lit ''a:b'' = lit ''a_b''"
    by (rule thread_files_distinct[rotated 2]) (simp_all add: lit_def scalar_def)
  then show False by (simp add: lit_inject)
qed

end
