(* ===== verification/Lhc_Capture.thy ===== *)
theory Lhc_Capture
  imports Lhc_Session
begin

text \<open>
  The capture worker of the LHC host (\<open>crates/lhc/grok-lhc-host/src/capture.rs\<close>) with the generated prefix
  of a write-back (\<open>generated_prefix.rs\<close>). The worker is a record; one step processes one command from its
  queue. Commands that only read the archive for the caller are \<open>ReadArchive\<close>; what a command answers to
  its caller, the cancellation of a compaction and the arms of the test builds are left out.
\<close>

section \<open>Generated prefix\<close>

record 'x generated_prefix =
  gp_items :: "'x conversation_item list"
  gp_source_tip :: u64

datatype prefix_walk = Covered bool usize | Stopped usize ustr

record 'x installed_prefix =
  ip_body :: "'x conversation_item list"
  ip_digests :: "ustr list"
  ip_source_tip :: u64
  ip_seed :: "occurrence_tracker option"

definition installed_prefix_new :: "'x lhc_env \<Rightarrow> 'x generated_prefix \<Rightarrow> 'x installed_prefix" where
  "installed_prefix_new env generated =
     \<lparr>ip_body = gp_items generated, ip_digests = map (item_digest env) (gp_items generated),
      ip_source_tip = gp_source_tip generated, ip_seed = None\<rparr>"

definition rewrite_allowed :: "nat \<Rightarrow> 'x conversation_item \<Rightarrow> 'x conversation_item \<Rightarrow> bool option" where
  "rewrite_allowed i item original =
     (case (item, original) of
        (System _, System _) \<Rightarrow> if i = 0 then Some True else None
      | (ToolResult a, ToolResult b) \<Rightarrow> if tr_tool_call_id a = tr_tool_call_id b then Some False else None
      | _ \<Rightarrow> None)"

text \<open>The loop of \<open>walk\<close> at index \<open>i\<close>, over the rest of the digests and of the body.\<close>

fun walk_loop ::
  "'x lhc_env \<Rightarrow> 'x conversation_item list \<Rightarrow> nat \<Rightarrow> bool \<Rightarrow> ustr list \<Rightarrow> 'x conversation_item list \<Rightarrow> prefix_walk" where
  "walk_loop env native i remap_head (expected # ds) (original # body) =
     (if \<not> i < length native then Covered remap_head (length native)
      else if item_digest env (native ! i) = expected then walk_loop env native (Suc i) remap_head ds body
      else (case rewrite_allowed i (native ! i) original of
              Some head \<Rightarrow> walk_loop env native (Suc i) (remap_head \<or> head) ds body
            | None \<Rightarrow> Stopped i (lit ''digest_mismatch'')))"
| "walk_loop env native i remap_head _ _ = Covered remap_head i"

definition walk :: "'x lhc_env \<Rightarrow> 'x installed_prefix \<Rightarrow> 'x conversation_item list \<Rightarrow> prefix_walk" where
  "walk env p native = walk_loop env native 0 False (ip_digests p) (ip_body p)"

definition frozen_seed ::
  "'a sdk \<Rightarrow> 'a lhc_session \<Rightarrow> 'x installed_prefix \<Rightarrow> (ustr + occurrence_tracker) \<times> 'x installed_prefix" where
  "frozen_seed sdk sess p =
     (case ip_seed p of
        Some seed \<Rightarrow> (Inr seed, p)
      | None \<Rightarrow>
          (case sdk_list_events sdk (ls_archive sess) of
             Inl err \<Rightarrow> (Inl err, p)
           | Inr events \<Rightarrow>
               (let tip = (if ip_source_tip p \<le> 2 ^ 63 - 1 then int (ip_source_tip p) else 2 ^ 63 - 1);
                    seed = seed_occurrence_from_keys (map snd (filter (\<lambda>e. fst e \<le> tip) events))
                in (Inr seed, p\<lparr>ip_seed := Some seed\<rparr>))))"

section \<open>Worker\<close>

datatype 'x capture_cmd =
    Persist "'x conversation_item" "json_map option" "host_assistant_identity option"
  | TurnEndFacts u64 turn_end_facts
  | ReplaceHistory "'x conversation_item list"
  | WritebackInstalled "'x generated_prefix"
  | ModelChange ustr ustr ustr ustr
  | Flush
  | ListEvents
  | CompactThread
  | ReadArchive

record ('x, 'a) worker =
  w_session :: "'a lhc_session"
  w_tracker :: occurrence_tracker
  w_poisoned :: bool
  w_dropped :: u64
  w_deferred :: "mapped_event option"
  w_installed :: "'x installed_prefix option"
  w_open_calls :: "ustr set"

definition submit_mapped :: "'a sdk \<Rightarrow> 'a lhc_session \<Rightarrow> mapped_event list \<Rightarrow> (ustr + batch_result) \<times> 'a lhc_session" where
  "submit_mapped sdk s mapped = (if mapped = [] then (Inr (empty_batch s), s) else submit_events sdk s mapped)"

definition fold_item :: "ustr set \<Rightarrow> 'x conversation_item \<Rightarrow> ustr set" where
  "fold_item open_calls item =
     (case item of
        Assistant a \<Rightarrow> foldl (\<lambda>oc tc. insert (tc_id tc) oc) open_calls (as_tool_calls a)
      | ToolResult r \<Rightarrow> open_calls - {tr_tool_call_id r}
      | _ \<Rightarrow> open_calls)"

definition reset_from :: "'x conversation_item list \<Rightarrow> ustr set" where
  "reset_from items = foldl fold_item {} items"

definition remap_slice ::
  "'x lhc_env \<Rightarrow> 'a sdk \<Rightarrow> ustr \<Rightarrow> 'x conversation_item list \<Rightarrow> ('x, 'a) worker \<Rightarrow>
     (ustr + mapped_event list) \<times> ('x, 'a) worker" where
  "remap_slice env sdk sid items w =
     (let full = map_history env sid ITEM_KEY_GENERATION items no_facts;
          finish = (\<lambda>(events, local) w. (Inr events, w\<lparr>w_tracker := merge_monotonic (w_tracker w) local\<rparr>))
      in case w_installed w of
           None \<Rightarrow> finish full w
         | Some p \<Rightarrow>
             (case walk env p items of
                Stopped _ _ \<Rightarrow> finish full (w\<lparr>w_installed := None\<rparr>)
              | Covered remap_head remainder \<Rightarrow>
                  (case frozen_seed sdk (w_session w) p of
                     (Inl err, p) \<Rightarrow> (Inl err, w\<lparr>w_installed := Some p\<rparr>)
                   | (Inr seed, p) \<Rightarrow>
                       (let (out, seed) =
                              (if remap_head then map_history_from env sid ITEM_KEY_GENERATION (take 1 items) no_facts seed
                               else ([], seed));
                            (ev, local) = map_history_from env sid ITEM_KEY_GENERATION (drop remainder items) no_facts seed
                        in finish (out @ ev, local) (w\<lparr>w_installed := Some p\<rparr>)))))"

definition maybe_close_segment ::
  "'a sdk \<Rightarrow> ustr set \<Rightarrow> ustr \<Rightarrow> batch_result \<Rightarrow> 'a lhc_session \<Rightarrow> 'a lhc_session" where
  "maybe_close_segment sdk open_calls anchor batch sess =
     (if open_calls \<noteq> {} then sess
      else if (anchor, Recorded) \<notin> set (bt_events batch) then sess
      else (case segment_threshold_tokens sdk (ls_archive sess) of
              None \<Rightarrow> sess
            | Some threshold \<Rightarrow>
                (case active_turn_tokens sdk (ls_archive sess) of
                   Inl _ \<Rightarrow> sess
                 | Inr None \<Rightarrow> sess
                 | Inr (Some estimated) \<Rightarrow>
                     (if estimated < threshold then sess
                      else (case segment_end_event anchor of
                              None \<Rightarrow> sess
                            | Some e \<Rightarrow> snd (submit_mapped sdk sess [e]))))))"

text \<open>\<open>iter_mut().find\<close>: the usage goes to the first event with assistant text.\<close>

fun attach_usage_first :: "json_map \<Rightarrow> mapped_event list \<Rightarrow> mapped_event list" where
  "attach_usage_first usage [] = []"
| "attach_usage_first usage (e # es) =
     (if ev_kind e = lit ''assistant_text'' then attach_provider_usage e usage # es
      else e # attach_usage_first usage es)"

definition is_turn_end :: "mapped_event \<Rightarrow> bool" where
  "is_turn_end e \<longleftrightarrow> ev_kind e = lit ''turn_end''"

definition release_deferred :: "'a sdk \<Rightarrow> ('x, 'a) worker \<Rightarrow> ('x, 'a) worker" where
  "release_deferred sdk w =
     (case w_deferred w of
        Some te \<Rightarrow> w\<lparr>w_session := snd (submit_mapped sdk (w_session w) [te]), w_deferred := None\<rparr>
      | None \<Rightarrow> w)"

text \<open>A new close releases one that is still deferred; the last one is deferred in its place.\<close>

definition defer_close :: "'a sdk \<Rightarrow> mapped_event list \<Rightarrow> ('x, 'a) worker \<Rightarrow> ('x, 'a) worker" where
  "defer_close sdk turn_ends w =
     (if turn_ends = [] then w
      else (let w = (release_deferred sdk w)\<lparr>w_deferred := Some (last turn_ends)\<rparr> in
            if butlast turn_ends = [] then w
            else w\<lparr>w_session := snd (submit_mapped sdk (w_session w) (butlast turn_ends))\<rparr>))"

definition anchor_of :: "'x conversation_item \<Rightarrow> mapped_event list \<Rightarrow> ustr option" where
  "anchor_of item mapped =
     (case item of
        ToolResult _ \<Rightarrow>
          (case filter (\<lambda>e. ev_kind e = lit ''tool_result'') mapped of e # _ \<Rightarrow> ev_key e | [] \<Rightarrow> None)
      | _ \<Rightarrow> None)"

definition live_events ::
  "'x lhc_env \<Rightarrow> ustr \<Rightarrow> 'x conversation_item \<Rightarrow> json_map option \<Rightarrow> host_assistant_identity option \<Rightarrow>
     occurrence_tracker \<Rightarrow> mapped_event list \<times> occurrence_tracker" where
  "live_events env sid item usage identity tracker =
     (let (mapped, tracker) = map_item env sid ITEM_KEY_GENERATION item tracker no_facts;
          mapped = (case usage of Some u \<Rightarrow> attach_usage_first u mapped | None \<Rightarrow> mapped);
          mapped = (case identity of Some i \<Rightarrow> map (\<lambda>e. attach_assistant_identity e i) mapped | None \<Rightarrow> mapped)
      in (mapped, tracker))"

definition process_persist ::
  "'x lhc_env \<Rightarrow> 'a sdk \<Rightarrow> ustr \<Rightarrow> 'x conversation_item \<Rightarrow> json_map option \<Rightarrow> host_assistant_identity option \<Rightarrow>
     ('x, 'a) worker \<Rightarrow> ('x, 'a) worker" where
  "process_persist env sdk sid item usage identity w =
     (if w_poisoned w then w\<lparr>w_dropped := wrap_inc64 (w_dropped w)\<rparr>
      else
        (let (mapped, tracker) = live_events env sid item usage identity (w_tracker w);
             w = w\<lparr>w_tracker := tracker\<rparr>;
             turn_ends = filter is_turn_end mapped;
             mapped = filter (\<lambda>e. \<not> is_turn_end e) mapped;
             w = defer_close sdk turn_ends w;
             w = w\<lparr>w_open_calls := fold_item (w_open_calls w) item\<rparr>;
             anchor = anchor_of item mapped;
             (batch, sess) = submit_mapped sdk (w_session w) mapped;
             sess = (case (anchor, batch) of
                       (Some a, Inr b) \<Rightarrow> maybe_close_segment sdk (w_open_calls w) a b sess
                     | _ \<Rightarrow> sess)
         in w\<lparr>w_session := sess\<rparr>))"

definition process_turn_end_facts ::
  "'a sdk \<Rightarrow> ustr \<Rightarrow> u64 \<Rightarrow> turn_end_facts \<Rightarrow> ('x, 'a) worker \<Rightarrow> ('x, 'a) worker" where
  "process_turn_end_facts sdk sid turn_number facts w =
     (if w_poisoned w then w\<lparr>w_dropped := wrap_inc64 (w_dropped w)\<rparr>
      else
        (let w = w\<lparr>w_open_calls := {}\<rparr>;
             te = (case w_deferred w of
                     Some te \<Rightarrow> apply_turn_end_facts te facts
                   | None \<Rightarrow> shell_turn_end_event sid turn_number facts)
         in w\<lparr>w_deferred := None, w_session := snd (submit_mapped sdk (w_session w) [te])\<rparr>))"

definition process_replace ::
  "'x lhc_env \<Rightarrow> 'a sdk \<Rightarrow> ustr \<Rightarrow> 'x conversation_item list \<Rightarrow> ('x, 'a) worker \<Rightarrow> ('x, 'a) worker" where
  "process_replace env sdk sid items w =
     (let w = w\<lparr>w_open_calls := reset_from items\<rparr>;
          w = release_deferred sdk w
      in case remap_slice env sdk sid items w of
           (Inl _, w) \<Rightarrow> w\<lparr>w_poisoned := False\<rparr>
         | (Inr events, w) \<Rightarrow>
             w\<lparr>w_session := snd (submit_mapped sdk (w_session w) events), w_poisoned := False\<rparr>)"

definition process_model_change ::
  "'a sdk \<Rightarrow> ustr \<Rightarrow> ustr \<Rightarrow> ustr \<Rightarrow> ustr \<Rightarrow> ustr \<Rightarrow> ('x, 'a) worker \<Rightarrow> ('x, 'a) worker" where
  "process_model_change sdk sid previous_model new_model previous_level new_level w =
     (if previous_model = new_model \<and> previous_level = new_level then w
      else
        (let (mapped, next) = map_model_change sid previous_model new_model previous_level new_level
                                (ls_next_change_ordinal (w_session w));
             sess = (if previous_model \<noteq> new_model then set_serving_model (w_session w) new_model else w_session w)
         in if mapped = [] then w\<lparr>w_session := sess\<rparr>
            else (case submit_mapped sdk sess mapped of
                    (Inr batch, sess) \<Rightarrow>
                      w\<lparr>w_session := (if Recorded \<in> snd ` set (bt_events batch)
                                      then sess\<lparr>ls_next_change_ordinal := next\<rparr> else sess)\<rparr>
                  | (Inl _, sess) \<Rightarrow> w\<lparr>w_session := sess\<rparr>)))"

definition process_cmd ::
  "'x lhc_env \<Rightarrow> 'a sdk \<Rightarrow> ustr \<Rightarrow> ('x, 'a) worker \<Rightarrow> 'x capture_cmd \<Rightarrow> ('x, 'a) worker" where
  "process_cmd env sdk sid w cmd =
     (case cmd of
        Persist item usage identity \<Rightarrow> process_persist env sdk sid item usage identity w
      | TurnEndFacts turn_number facts \<Rightarrow> process_turn_end_facts sdk sid turn_number facts w
      | ReplaceHistory items \<Rightarrow> process_replace env sdk sid items w
      | WritebackInstalled generated \<Rightarrow> w\<lparr>w_installed := Some (installed_prefix_new env generated)\<rparr>
      | ModelChange pm nm pl nl \<Rightarrow> process_model_change sdk sid pm nm pl nl w
      | Flush \<Rightarrow> release_deferred sdk w
      | ListEvents \<Rightarrow> release_deferred sdk w
      | CompactThread \<Rightarrow>
          w\<lparr>w_session := (w_session w)\<lparr>ls_archive := compact_view sdk (ls_archive (w_session w))\<rparr>\<rparr>
      | ReadArchive \<Rightarrow> w)"

text \<open>
  The start of a worker on an opened session, with the history it is bootstrapped with, and the end of one:
  what is queued is processed, then a close that is still deferred is submitted.
\<close>

definition worker_start ::
  "'x lhc_env \<Rightarrow> 'a sdk \<Rightarrow> ustr \<Rightarrow> 'a \<Rightarrow> ustr option \<Rightarrow> 'x generated_prefix option \<Rightarrow> 'x conversation_item list \<Rightarrow>
     ('x, 'a) worker option" where
  "worker_start env sdk sid archive serving_model generated bootstrap =
     (case session_open sdk archive serving_model of
        None \<Rightarrow> None
      | Some (sess, tracker) \<Rightarrow>
          (let w = \<lparr>w_session = sess, w_tracker = tracker, w_poisoned = False, w_dropped = 0, w_deferred = None,
                    w_installed = map_option (installed_prefix_new env) generated, w_open_calls = {}\<rparr>;
               w = (if bootstrap = [] then w
                    else (case remap_slice env sdk sid bootstrap w of
                            (Inl _, w) \<Rightarrow> w
                          | (Inr events, w) \<Rightarrow> w\<lparr>w_session := snd (submit_events sdk (w_session w) events)\<rparr>))
           in Some (w\<lparr>w_open_calls := reset_from bootstrap\<rparr>)))"

definition worker_run :: "'x lhc_env \<Rightarrow> 'a sdk \<Rightarrow> ustr \<Rightarrow> 'x capture_cmd list \<Rightarrow> ('x, 'a) worker \<Rightarrow> ('x, 'a) worker" where
  "worker_run env sdk sid cmds w = foldl (process_cmd env sdk sid) w cmds"

definition worker_shutdown :: "'x lhc_env \<Rightarrow> 'a sdk \<Rightarrow> ustr \<Rightarrow> 'x capture_cmd list \<Rightarrow> ('x, 'a) worker \<Rightarrow> ('x, 'a) worker" where
  "worker_shutdown env sdk sid queued w = release_deferred sdk (worker_run env sdk sid queued w)"


section \<open>The tracker covers the archive\<close>

definition hex_digest :: "ustr \<Rightarrow> bool" where
  "hex_digest d \<longleftrightarrow> d \<noteq> [] \<and> (\<forall>c \<in> set d. is_ascii_digit c \<or> (97 \<le> c \<and> c \<le> 102))"

lemma hex_digest_plain: "hex_digest d \<Longrightarrow> key_plain d \<and> d \<noteq> lit ''tool_result''"
  by (auto simp: hex_digest_def key_plain_def is_ascii_digit_def lit_def)

definition covers :: "occurrence_tracker \<Rightarrow> ustr \<Rightarrow> bool" where
  "covers t key \<longleftrightarrow> (\<forall>d n. parse_item_key_digest_occ key = Some (d, n) \<longrightarrow> n < count_of t d)"

definition tracker_le :: "occurrence_tracker \<Rightarrow> occurrence_tracker \<Rightarrow> bool" where
  "tracker_le t u \<longleftrightarrow> (\<forall>d. count_of t d \<le> count_of u d)"

lemma tracker_le_refl [simp]: "tracker_le t t" by (simp add: tracker_le_def)

lemma tracker_le_trans [trans]: "tracker_le t u \<Longrightarrow> tracker_le u v \<Longrightarrow> tracker_le t v"
  unfolding tracker_le_def using order_trans by blast

lemma covers_mono: "covers t key \<Longrightarrow> tracker_le t u \<Longrightarrow> covers u key"
  unfolding covers_def tracker_le_def using less_le_trans by blast

lemma merge_le: "tracker_le t (merge_monotonic t u)" "tracker_le u (merge_monotonic t u)"
  by (auto simp: tracker_le_def count_merge merge_monotonic_def count_of_def split: option.splits)

lemma covers_item_key: "key_plain d \<Longrightarrow> n \<le> u64_max \<Longrightarrow> n < count_of t d \<Longrightarrow> covers t (item_event_key s g d n k p)"
  by (simp add: covers_def parse_item_event_key)

lemma parse_other:
  "parse_item_key_digest_occ (lit ''grok:'' @ encode_session_id s @ COLON # c # r) = None" if "c \<noteq> 103"
  using that colon_split[OF encode_no_colon, of s "c # r"]
  by (simp add: parse_item_key_digest_occ_def strip_prefix_Some_iff[THEN iffD2, OF refl] lit_def split: option.splits)

lemma covers_model_keys: "covers t (model_change_key s n p q)" "covers t (thinking_level_change_key s n p q)"
  using parse_other[of 109 s] parse_other[of 116 s]
  by (simp_all add: covers_def model_change_key_def thinking_level_change_key_def lit_def)

lemma covers_shell_key: "covers t (the (ev_key (shell_turn_end_event s n facts)))"
proof -
  have "parse_item_key_digest_occ (lit ''grok:'' @ encode_session_id s @ COLON # 103 # 48 # COLON #
      lit ''shell_turn_end'' @ COLON # nat_str n) = None"
    using colon_split[OF encode_no_colon, of s] colon_split[of "[48]"] colon_split[of "lit ''shell_turn_end''"]
      nat_str_no_colon[of n]
    by (simp add: parse_item_key_digest_occ_def strip_prefix_Some_iff[THEN iffD2, OF refl] eval_nat_numeral lit_def split_once_def
        split: option.splits)
  then show ?thesis by (simp add: covers_def shell_turn_end_event_def apply_turn_end_facts_def Let_def lit_def)
qed


text \<open>The end of a segment has the digest and the occurrence of its anchor.\<close>

lemma covers_segment_key:
  assumes "hex_digest d" "n \<le> u64_max" "n < count_of t d"
    "segment_end_event (item_event_key s g d n (lit ''tool_result'') (Some call)) = Some e"
  shows "covers t (the (ev_key e))"
proof (cases "s = lit ''tool_result''")
  case True
  let ?key = "item_event_key s g d n (lit ''tool_result'') (Some call)"
  have "encode_session_id s = s" using True by (simp add: encode_eq encode_char_def lit_def)
  then obtain r where key: "?key = lit ''grok'' @ COLON # lit ''tool_result'' @ COLON # r"
    using True by (simp add: item_event_key_eq lit_def)
  have "find_str (marker (lit ''tool_result'')) ?key = Some 4"
    unfolding key using field_grok
    by (simp add: find_marker_field find_marker_colon lit_def del: find_str.simps)
      (simp add: marker_def starts_with_def)
  then have "find_str (lit '':tool_result:'') ?key = Some (length (lit ''grok''))" by (simp add: marker_def lit_def)
  then have "the (ev_key e) = lit ''grok:segment_end''"
    using segment_end_at[of "lit ''grok''" "COLON # lit ''tool_result'' @ COLON # r"] assms(4) key by (simp add: lit_def)
  moreover have "parse_item_key_digest_occ (lit ''grok:segment_end'') = None"
    by (simp add: parse_item_key_digest_occ_def lit_def split_once_def)
  ultimately show ?thesis by (simp add: covers_def)
next
  case False
  have "the (ev_key e) = item_event_key s g d n (lit ''segment_end'') None"
    using segment_end_anchored[of d s g n call] hex_digest_plain[OF assms(1)] False assms(4) by simp
  then show ?thesis using assms(1-3) hex_digest_plain by (simp add: covers_item_key)
qed

section \<open>Events of mapped items\<close>

lemma item_digest_hex: "\<forall>b. hex_digest (blake3_hex env b) \<Longrightarrow> hex_digest (item_digest env item)"
  by (simp add: item_digest_def split: option.splits)

lemma map_item_key_of:
  assumes "e \<in> set (fst (map_item env s g item t facts))"
  obtains k p where "(k, p) \<in> set (item_parts item)" "ev_kind e = k"
    "ev_key e = Some (item_event_key s g (item_digest env item) (count_of t (item_digest env item)) k p)"
proof -
  have "(ev_kind e, ev_key e) \<in> set (map (\<lambda>e. (ev_kind e, ev_key e)) (fst (map_item env s g item t facts)))"
    using assms by simp
  then show thesis unfolding map_item_keys using that by auto
qed

lemma map_item_le: "count_of t (item_digest env item) < u64_max \<Longrightarrow> tracker_le t (snd (map_item env s g item t facts))"
  by (simp add: tracker_le_def map_item_tracker count_next wrap_inc64_small)

lemma map_item_covers:
  assumes "hex_digest (item_digest env item)" "count_of t (item_digest env item) < u64_max"
    "e \<in> set (fst (map_item env s g item t facts))"
  shows "covers (snd (map_item env s g item t facts)) (the (ev_key e))"
proof -
  obtain k p where "ev_key e = Some (item_event_key s g (item_digest env item) (count_of t (item_digest env item)) k p)"
    using map_item_key_of[OF assms(3)] by metis
  then show ?thesis using assms(1,2) hex_digest_plain
    by (simp add: covers_item_key map_item_tracker count_next wrap_inc64_small)
qed

lemma map_history_covers:
  assumes "\<forall>b. hex_digest (blake3_hex env b)" "\<forall>d. count_of t d + length items < u64_max"
  shows "tracker_le t (snd (map_history_from env s ITEM_KEY_GENERATION items facts t)) \<and>
    (\<forall>e \<in> set (fst (map_history_from env s ITEM_KEY_GENERATION items facts t)).
       covers (snd (map_history_from env s ITEM_KEY_GENERATION items facts t)) (the (ev_key e)))"
  using assms(2)
proof (induction items arbitrary: t)
  case (Cons item items)
  let ?d = "item_digest env item" and ?t = "snd (map_item env s ITEM_KEY_GENERATION item t facts)"
  have lt: "count_of t ?d < u64_max" using Cons.prems[rule_format, of ?d] by simp
  have "\<forall>d. count_of ?t d + length items < u64_max"
  proof
    fix d
    show "count_of ?t d + length items < u64_max"
      using Cons.prems[rule_format, of d] lt by (auto simp: map_item_tracker count_next wrap_inc64_small)
  qed
  note IH = Cons.IH[OF this]
  have "covers (snd (map_history_from env s ITEM_KEY_GENERATION items facts ?t)) (the (ev_key e))"
    if "e \<in> set (fst (map_item env s ITEM_KEY_GENERATION item t facts))" for e
    using covers_mono[OF map_item_covers[OF item_digest_hex[OF assms(1)] lt that]] IH by blast
  with IH map_item_le[OF lt, of s ITEM_KEY_GENERATION facts] show ?case
    by (auto simp: split_beta Let_def intro: tracker_le_trans)
qed simp

lemma map_history_count:
  assumes "\<forall>d. count_of t d + length items < u64_max"
  shows "count_of (snd (map_history_from env s ITEM_KEY_GENERATION items facts t)) d \<le> count_of t d + length items"
proof -
  have "count_of t e + uses e (map (item_shape env) items) \<le> u64_max" for e
    using assms uses_shapes[of e env items] by (meson add_left_mono le_less_trans less_imp_le)
  from mint_count[OF this] show ?thesis unfolding map_history_mint using uses_shapes[of d env items] by simp
qed

lemma attach_usage_keys: "map (\<lambda>e. (ev_kind e, ev_key e)) (attach_usage_first u es) = map (\<lambda>e. (ev_kind e, ev_key e)) es"
  by (induction es) (auto simp: attach_provider_usage_def)

lemma attach_identity_sel [simp]:
  "ev_kind (attach_assistant_identity e i) = ev_kind e" "ev_key (attach_assistant_identity e i) = ev_key e"
  by (simp_all add: attach_assistant_identity_def)

lemma live_events_keys:
  "map (\<lambda>e. (ev_kind e, ev_key e)) (fst (live_events env s item usage identity t)) =
     map (\<lambda>e. (ev_kind e, ev_key e)) (fst (map_item env s ITEM_KEY_GENERATION item t no_facts))"
  "snd (live_events env s item usage identity t) = snd (map_item env s ITEM_KEY_GENERATION item t no_facts)"
  by (auto simp: live_events_def Let_def split_beta attach_usage_keys comp_def split: option.splits)

section \<open>Invariant\<close>

definition archive_covered :: "('a \<Rightarrow> (int \<times> ustr) list) \<Rightarrow> occurrence_tracker \<Rightarrow> 'a lhc_session \<Rightarrow> bool" where
  "archive_covered stored t s \<longleftrightarrow> (\<forall>key \<in> set (stored_keys stored (ls_archive s)). covers t key)"

definition worker_inv :: "('a \<Rightarrow> (int \<times> ustr) list) \<Rightarrow> ('x, 'a) worker \<Rightarrow> bool" where
  "worker_inv stored w \<longleftrightarrow>
     archive_covered stored (w_tracker w) (w_session w) \<and>
     (\<forall>te. w_deferred w = Some te \<longrightarrow> is_turn_end te \<and> ev_key te \<noteq> None \<and> covers (w_tracker w) (the (ev_key te))) \<and>
     (\<forall>p seed. w_installed w = Some p \<and> ip_seed p = Some seed \<longrightarrow> tracker_le seed (w_tracker w))"

lemma submit_covered:
  assumes "archive_contract sdk stored" "archive_covered stored t s" "\<forall>e \<in> set evs. covers t (the (ev_key e))"
  shows "archive_covered stored t (snd (submit_mapped sdk s evs))" "archive_covered stored t (snd (submit_events sdk s evs))"
proof -
  obtain new where "stored (ls_archive (snd (submit_events sdk s evs))) = stored (ls_archive s) @ new"
    "snd ` set new \<subseteq> set (keys_of evs)"
    using submit_stored[OF assms(1)] .
  moreover have "covers t k" if "k \<in> set (keys_of evs)" for k using that assms(3) by (auto simp: keys_of_def)
  ultimately show "archive_covered stored t (snd (submit_events sdk s evs))"
    using assms(2) unfolding archive_covered_def by auto
  then show "archive_covered stored t (snd (submit_mapped sdk s evs))" using assms(2) by (simp add: submit_mapped_def)
qed


lemma archive_covered_mono: "archive_covered stored t s \<Longrightarrow> tracker_le t u \<Longrightarrow> archive_covered stored u s"
  unfolding archive_covered_def using covers_mono by blast

lemma release_inv:
  assumes "archive_contract sdk stored" "worker_inv stored w"
  shows "worker_inv stored (release_deferred sdk w)" "w_deferred (release_deferred sdk w) = None"
    "w_tracker (release_deferred sdk w) = w_tracker w" "w_poisoned (release_deferred sdk w) = w_poisoned w"
    "w_installed (release_deferred sdk w) = w_installed w"
  using assms submit_covered(1)[OF assms(1), of "w_tracker w" "w_session w"]
  by (auto simp: worker_inv_def release_deferred_def split: option.splits)

lemma frozen_seed_le:
  assumes "archive_contract sdk stored" "worker_inv stored w" "w_installed w = Some p"
    "frozen_seed sdk (w_session w) p = (Inr seed, p')"
  shows "tracker_le seed (w_tracker w) \<and> ip_seed p' = Some seed"
proof (cases "ip_seed p")
  case (Some t)
  then show ?thesis using assms by (auto simp: frozen_seed_def worker_inv_def)
next
  case None
  then obtain es tip where es: "sdk_list_events sdk (ls_archive (w_session w)) = Inr es" "ip_seed p' = Some seed"
    "seed = seed_occurrence_from_keys (map snd (filter (\<lambda>e. fst e \<le> tip) es))"
    using assms(4) by (auto simp: frozen_seed_def Let_def split: sum.splits)
  have "count_of seed d \<le> count_of (w_tracker w) d" for d
    unfolding es(3) seed_eq
  proof (rule seed_bounded)
    fix key n
    assume k: "key \<in> set (map snd (filter (\<lambda>e. fst e \<le> tip) es))" "parse_item_key_digest_occ key = Some (d, n)"
    then have "key \<in> set (stored_keys stored (ls_archive (w_session w)))" using contract_list[OF assms(1) es(1)] by auto
    then have "n < count_of (w_tracker w) d" using assms(2) k(2) by (auto simp: worker_inv_def archive_covered_def covers_def)
    then show "sat_inc64 n \<le> count_of (w_tracker w) d" by (simp add: sat_inc64_def)
  qed (simp add: count_of_def occurrence_tracker_new_def)
  then show ?thesis using es(2) by (simp add: tracker_le_def)
qed

lemma tracker_le_room: "tracker_le t u \<Longrightarrow> \<forall>d. count_of u d + n < m \<Longrightarrow> \<forall>d. count_of t d + n < m"
  unfolding tracker_le_def by (meson add_le_mono1 le_less_trans)

text \<open>What a re-map does: the whole history, a failure to read the archive, or what follows the prefix.\<close>

lemma remap_cases:
  assumes "remap_slice env sdk sid items w = (r, w')"
  obtains (full) w1 where "w1 = w \<or> w1 = w\<lparr>w_installed := None\<rparr>"
      "r = Inr (fst (map_history env sid ITEM_KEY_GENERATION items no_facts))"
      "w' = w1\<lparr>w_tracker := merge_monotonic (w_tracker w) (snd (map_history env sid ITEM_KEY_GENERATION items no_facts))\<rparr>"
    | (failed) p p' err where "w_installed w = Some p" "frozen_seed sdk (w_session w) p = (Inl err, p')" "r = Inl err"
      "w' = w\<lparr>w_installed := Some p'\<rparr>"
    | (skipped) p p' seed head remainder out t where "w_installed w = Some p" "frozen_seed sdk (w_session w) p = (Inr seed, p')"
      "(out, t) = (if head then map_history_from env sid ITEM_KEY_GENERATION (take 1 items) no_facts seed else ([], seed))"
      "r = Inr (out @ fst (map_history_from env sid ITEM_KEY_GENERATION (drop remainder items) no_facts t))"
      "w' = w\<lparr>w_installed := Some p',
             w_tracker := merge_monotonic (w_tracker w) (snd (map_history_from env sid ITEM_KEY_GENERATION (drop remainder items) no_facts t))\<rparr>"
proof (cases "w_installed w")
  case None
  then show thesis using assms full[of w] by (simp add: remap_slice_def Let_def split_beta)
next
  case (Some p)
  show thesis
  proof (cases "walk env p items")
    case (Covered head remainder)
    obtain fr p' where fs: "frozen_seed sdk (w_session w) p = (fr, p')" by (cases "frozen_seed sdk (w_session w) p")
    show thesis
    proof (cases fr)
      case (Inl err)
      then show thesis using assms Some Covered fs failed[of p err p'] by (simp add: remap_slice_def Let_def)
    next
      case (Inr seed)
      obtain out t where "(if head then map_history_from env sid ITEM_KEY_GENERATION (take 1 items) no_facts seed
          else ([], seed)) = (out, t)" by (metis surj_pair)
      with Inr show thesis using assms Some Covered fs skipped[of p seed p' out t head remainder]
        by (simp add: remap_slice_def Let_def split_beta)
    qed
  next
    case (Stopped i c)
    then show thesis using assms Some full[of "w\<lparr>w_installed := None\<rparr>"] by (simp add: remap_slice_def Let_def split_beta)
  qed
qed

text \<open>The events of a re-map and the trackers they come from.\<close>

lemma remap_events:
  assumes "archive_contract sdk stored" "\<forall>b. hex_digest (blake3_hex env b)" "worker_inv stored w"
    "\<forall>d. count_of (w_tracker w) d + Suc (length items) < u64_max" "remap_slice env sdk sid items w = (r, w')"
  shows "w_session w' = w_session w \<and> w_deferred w' = w_deferred w \<and> tracker_le (w_tracker w) (w_tracker w') \<and>
    (\<forall>p seed. w_installed w' = Some p \<and> ip_seed p = Some seed \<longrightarrow> tracker_le seed (w_tracker w')) \<and>
    (\<forall>events. r = Inr events \<longrightarrow> (\<forall>e \<in> set events. covers (w_tracker w') (the (ev_key e))))"
proof -
  let ?full = "map_history env sid ITEM_KEY_GENERATION items no_facts"
  have "\<forall>d. count_of occurrence_tracker_new d + length items < u64_max"
    using assms(4) by (auto simp: count_of_def occurrence_tracker_new_def elim: allE[of _ undefined])
  note hist = map_history_covers[OF assms(2) this, of sid no_facts, folded map_history_def]
  have seed_ok: "\<forall>p seed. w_installed w = Some p \<and> ip_seed p = Some seed \<longrightarrow> tracker_le seed (w_tracker w)"
    using assms(3) unfolding worker_inv_def by blast
  from assms(5) show ?thesis
  proof (cases rule: remap_cases)
    case (full w1)
    then show ?thesis using hist merge_le[where t = "w_tracker w" and u = "snd ?full"] seed_ok \<open>tracker_le _ _ \<and> _\<close>
      by (auto intro: covers_mono tracker_le_trans)
  next
    case (failed p p' err)
    then have "ip_seed p' = None" by (auto simp: frozen_seed_def Let_def split: option.splits sum.splits)
    with failed show ?thesis by auto
  next
    case (skipped p p' seed head remainder out t)
    let ?h2 = "map_history_from env sid ITEM_KEY_GENERATION (drop remainder items) no_facts t"
    have s: "tracker_le seed (w_tracker w)" "ip_seed p' = Some seed"
      using frozen_seed_le[OF assms(1,3) skipped(1,2)] by auto
    have room: "\<forall>d. count_of seed d + Suc (length items) < u64_max" by (rule tracker_le_room[OF s(1) assms(4)])
    have r1: "\<forall>d. count_of seed d + length (take 1 items) < u64_max"
    proof
      fix d
      have "length (take 1 items) \<le> Suc (length items)" by simp
      then show "count_of seed d + length (take 1 items) < u64_max" using room[rule_format, of d] by linarith
    qed
    note h1 = map_history_covers[OF assms(2) r1, of sid no_facts]
    have t: "tracker_le seed t \<and> (\<forall>e \<in> set out. covers t (the (ev_key e))) \<and> (\<forall>d. count_of t d \<le> count_of seed d + 1)"
    proof (cases head)
      case True
      then have "t = snd (map_history_from env sid ITEM_KEY_GENERATION (take 1 items) no_facts seed)"
        "out = fst (map_history_from env sid ITEM_KEY_GENERATION (take 1 items) no_facts seed)" using skipped(3) by (metis fst_conv snd_conv)+
      moreover have "length (take 1 items) \<le> 1" by simp
      ultimately show ?thesis using h1 map_history_count[OF r1, of env sid no_facts] by (meson add_left_mono order_trans)
    qed (use skipped(3) in simp)
    have "\<forall>d. count_of t d + length (drop remainder items) < u64_max"
    proof
      fix d
      have "count_of t d + length (drop remainder items) \<le> count_of seed d + 1 + length items"
        using t by (intro add_mono) auto
      then show "count_of t d + length (drop remainder items) < u64_max" using room[rule_format, of d] by linarith
    qed
    note h2 = map_history_covers[OF assms(2) this, of sid no_facts]
    have "tracker_le seed (snd ?h2)" using t h2 tracker_le_trans by blast
    moreover have "\<forall>e \<in> set (out @ fst ?h2). covers (snd ?h2) (the (ev_key e))" using t h2 covers_mono by auto
    ultimately show ?thesis using skipped(4,5) s merge_le[where t = "w_tracker w" and u = "snd ?h2"]
      by (auto intro: covers_mono tracker_le_trans)
  qed
qed


subsection \<open>Every command keeps it\<close>

lemma inv_session:
  "worker_inv stored w \<Longrightarrow> archive_covered stored (w_tracker w) s \<Longrightarrow> worker_inv stored (w\<lparr>w_session := s\<rparr>)"
  unfolding worker_inv_def by auto

lemma inv_deferred:
  "worker_inv stored w \<Longrightarrow> is_turn_end te \<Longrightarrow> ev_key te \<noteq> None \<Longrightarrow> covers (w_tracker w) (the (ev_key te)) \<Longrightarrow>
   worker_inv stored (w\<lparr>w_deferred := Some te\<rparr>)"
  unfolding worker_inv_def by auto

lemma inv_none: "worker_inv stored w \<Longrightarrow> worker_inv stored (w\<lparr>w_deferred := None\<rparr>)"
  unfolding worker_inv_def by auto

lemma inv_other [simp]:
  "worker_inv stored (w\<lparr>w_open_calls := oc\<rparr>) = worker_inv stored w"
  "worker_inv stored (w\<lparr>w_poisoned := b\<rparr>) = worker_inv stored w"
  "worker_inv stored (w\<lparr>w_dropped := n\<rparr>) = worker_inv stored w"
  unfolding worker_inv_def by auto

lemma inv_tracker:
  "worker_inv stored w \<Longrightarrow> tracker_le (w_tracker w) t \<Longrightarrow> worker_inv stored (w\<lparr>w_tracker := t\<rparr>)"
  unfolding worker_inv_def using archive_covered_mono covers_mono tracker_le_trans by auto

lemma inv_submit:
  assumes "archive_contract sdk stored" "worker_inv stored w" "\<forall>e \<in> set evs. covers (w_tracker w) (the (ev_key e))"
  shows "worker_inv stored (w\<lparr>w_session := snd (submit_mapped sdk (w_session w) evs)\<rparr>)"
  using assms by (intro inv_session submit_covered(1)) (auto simp: worker_inv_def)

lemma live_covers:
  assumes "hex_digest (item_digest env item)" "count_of t (item_digest env item) < u64_max"
    "e \<in> set (fst (live_events env s item usage identity t))"
  shows "covers (snd (live_events env s item usage identity t)) (the (ev_key e))" "ev_key e \<noteq> None"
    "\<exists>k p. (k, p) \<in> set (item_parts item) \<and> ev_kind e = k \<and>
       ev_key e = Some (item_event_key s ITEM_KEY_GENERATION (item_digest env item) (count_of t (item_digest env item)) k p)"
proof -
  have "(ev_kind e, ev_key e) \<in> set (map (\<lambda>e. (ev_kind e, ev_key e)) (fst (live_events env s item usage identity t)))"
    using assms(3) by simp
  then obtain e' where e': "e' \<in> set (fst (map_item env s ITEM_KEY_GENERATION item t no_facts))" "ev_kind e' = ev_kind e" "ev_key e' = ev_key e"
    unfolding live_events_keys by auto
  then show "covers (snd (live_events env s item usage identity t)) (the (ev_key e))" "ev_key e \<noteq> None"
    "\<exists>k p. (k, p) \<in> set (item_parts item) \<and> ev_kind e = k \<and>
       ev_key e = Some (item_event_key s ITEM_KEY_GENERATION (item_digest env item) (count_of t (item_digest env item)) k p)"
    using map_item_covers[OF assms(1,2) e'(1)] map_item_key_of[OF e'(1)]
    by (auto simp: live_events_keys)
qed

lemma segment_inv:
  assumes "archive_contract sdk stored" "archive_covered stored t s" "hex_digest d" "n < count_of t d" "n \<le> u64_max"
  shows "archive_covered stored t
    (maybe_close_segment sdk oc (item_event_key sid g d n (lit ''tool_result'') (Some call)) b s)"
  using assms(2) submit_covered(1)[OF assms(1,2)] covers_segment_key[OF assms(3,5,4)]
  by (auto simp: maybe_close_segment_def split: option.splits sum.splits)

lemma defer_inv:
  assumes "archive_contract sdk stored" "worker_inv stored w"
    "\<forall>e \<in> set tes. is_turn_end e \<and> ev_key e \<noteq> None \<and> covers (w_tracker w) (the (ev_key e))"
  shows "worker_inv stored (defer_close sdk tes w)" "w_tracker (defer_close sdk tes w) = w_tracker w"
proof -
  define wd where "wd = (release_deferred sdk w)\<lparr>w_deferred := Some (last tes)\<rparr>"
  have "worker_inv stored (defer_close sdk tes w) \<and> w_tracker (defer_close sdk tes w) = w_tracker w"
  proof (cases "tes = []")
    case False
    then have "last tes \<in> set tes" by simp
    then have wd: "worker_inv stored wd" "w_tracker wd = w_tracker w"
      unfolding wd_def using assms(3) release_inv[OF assms(1,2)] by (auto intro!: inv_deferred)
    moreover have "\<forall>e \<in> set (butlast tes). covers (w_tracker wd) (the (ev_key e))"
      using assms(3) wd(2) by (metis in_set_butlastD)
    ultimately show ?thesis using False inv_submit[OF assms(1), of wd "butlast tes"]
      by (simp add: defer_close_def wd_def[symmetric] Let_def)
  qed (use assms(2) in \<open>simp add: defer_close_def\<close>)
  then show "worker_inv stored (defer_close sdk tes w)" "w_tracker (defer_close sdk tes w) = w_tracker w" by auto
qed

lemma anchor_of_Some: "anchor_of item evs = Some a \<Longrightarrow> \<exists>r. item = ToolResult r \<and> (\<exists>e \<in> set evs. ev_key e = Some a)"
proof -
  assume "anchor_of item evs = Some a"
  then obtain r e es where r: "item = ToolResult r" "filter (\<lambda>e. ev_kind e = lit ''tool_result'') evs = e # es" "ev_key e = Some a"
    by (auto simp: anchor_of_def split: conversation_item.splits list.splits)
  then have "e \<in> set (filter (\<lambda>e. ev_kind e = lit ''tool_result'') evs)" by simp
  then have "e \<in> set evs" unfolding set_filter by blast
  then show ?thesis using r by blast
qed

text \<open>A persist as three steps: defer the close, fold the item, submit the rest and perhaps end a segment.\<close>

definition before_submit ::
  "'a sdk \<Rightarrow> 'x conversation_item \<Rightarrow> mapped_event list \<Rightarrow> occurrence_tracker \<Rightarrow> ('x, 'a) worker \<Rightarrow> ('x, 'a) worker" where
  "before_submit sdk item mapped t w =
     (let w = defer_close sdk (filter is_turn_end mapped) (w\<lparr>w_tracker := t\<rparr>)
      in w\<lparr>w_open_calls := fold_item (w_open_calls w) item\<rparr>)"

definition after_submit ::
  "'a sdk \<Rightarrow> ustr option \<Rightarrow> ustr set \<Rightarrow> (ustr + batch_result) \<times> 'a lhc_session \<Rightarrow> 'a lhc_session" where
  "after_submit sdk anchor oc sub =
     (case (anchor, fst sub) of (Some a, Inr b) \<Rightarrow> maybe_close_segment sdk oc a b (snd sub) | _ \<Rightarrow> snd sub)"

lemma persist_steps:
  assumes "\<not> w_poisoned w" "live_events env sid item usage identity (w_tracker w) = (mapped, t)"
    "evs = filter (\<lambda>e. \<not> is_turn_end e) mapped" "w' = before_submit sdk item mapped t w"
  shows "process_persist env sdk sid item usage identity w =
    w'\<lparr>w_session := after_submit sdk (anchor_of item evs) (w_open_calls w') (submit_mapped sdk (w_session w') evs)\<rparr>"
  unfolding assms(3,4) process_persist_def before_submit_def after_submit_def Let_def split_beta assms(2) fst_conv snd_conv
  by (simp only: assms(1) if_False)

lemma persist_inv:
  assumes "archive_contract sdk stored" "\<forall>b. hex_digest (blake3_hex env b)" "worker_inv stored w"
    "count_of (w_tracker w) (item_digest env item) < u64_max"
  shows "worker_inv stored (process_persist env sdk sid item usage identity w)"
proof (cases "w_poisoned w")
  case False
  let ?d = "item_digest env item"
  obtain mapped t where lv: "live_events env sid item usage identity (w_tracker w) = (mapped, t)"
    by (cases "live_events env sid item usage identity (w_tracker w)")
  define evs where "evs = filter (\<lambda>e. \<not> is_turn_end e) mapped"
  define w' where "w' = before_submit sdk item mapped t w"
  have hex: "hex_digest ?d" by (rule item_digest_hex[OF assms(2)])
  have cov: "covers t (the (ev_key e)) \<and> ev_key e \<noteq> None \<and> (\<exists>k p. (k, p) \<in> set (item_parts item) \<and>
      ev_key e = Some (item_event_key sid ITEM_KEY_GENERATION ?d (count_of (w_tracker w) ?d) k p))" if "e \<in> set mapped" for e
    using live_covers[OF hex assms(4), of e sid usage identity] lv that by auto
  have t: "t = snd (tracker_next (w_tracker w) ?d)" using arg_cong[OF lv, of snd] by (simp add: live_events_keys map_item_tracker)
  have tn: "count_of (w_tracker w) ?d < count_of t ?d" "tracker_le (w_tracker w) t"
    using assms(4) by (simp_all add: t count_next wrap_inc64_small tracker_le_def)
  have "worker_inv stored (w\<lparr>w_tracker := t\<rparr>)" by (rule inv_tracker[OF assms(3) tn(2)])
  from defer_inv[OF assms(1) this, of "filter is_turn_end mapped"] cov
  have w': "worker_inv stored w'" "w_tracker w' = t" by (auto simp: w'_def before_submit_def Let_def)
  let ?sub = "submit_mapped sdk (w_session w') evs"
  have sub: "archive_covered stored t (snd ?sub)"
    using submit_covered(1)[OF assms(1), of t "w_session w'" evs] w' cov by (auto simp: worker_inv_def evs_def)
  have "archive_covered stored t (after_submit sdk (anchor_of item evs) (w_open_calls w') ?sub)"
  proof (cases "anchor_of item evs")
    case (Some a)
    then obtain r e where "item = ToolResult r" "e \<in> set mapped" "ev_key e = Some a"
      using anchor_of_Some[OF Some] by (auto simp: evs_def)
    then obtain call where "a = item_event_key sid ITEM_KEY_GENERATION ?d (count_of (w_tracker w) ?d) (lit ''tool_result'') (Some call)"
      using cov[of e] by (auto simp: item_parts_def)
    with segment_inv[OF assms(1) sub hex tn(1)] assms(4) sub Some show ?thesis
      by (auto simp: after_submit_def split: sum.splits)
  qed (use sub in \<open>simp add: after_submit_def\<close>)
  then show ?thesis
    unfolding persist_steps[OF False lv evs_def w'_def] using w' by (intro inv_session) simp_all
qed (simp add: process_persist_def assms(3))


text \<open>How many items a command maps; the counters must have room for them.\<close>

definition cmd_size :: "'x capture_cmd \<Rightarrow> nat" where
  "cmd_size cmd = (case cmd of Persist _ _ _ \<Rightarrow> 1 | ReplaceHistory items \<Rightarrow> Suc (length items) | _ \<Rightarrow> 0)"

definition room_for :: "nat \<Rightarrow> ('x, 'a) worker \<Rightarrow> bool" where
  "room_for n w \<longleftrightarrow> (\<forall>d. count_of (w_tracker w) d + n < u64_max)"

lemma inv_installed:
  "worker_inv stored w \<Longrightarrow> ip_seed p = None \<Longrightarrow> worker_inv stored (w\<lparr>w_installed := Some p\<rparr>)"
  unfolding worker_inv_def by auto

lemma turn_end_facts_inv:
  assumes "archive_contract sdk stored" "worker_inv stored w"
  shows "worker_inv stored (process_turn_end_facts sdk sid n facts w)"
proof -
  let ?te = "case w_deferred w of Some te \<Rightarrow> apply_turn_end_facts te facts | None \<Rightarrow> shell_turn_end_event sid n facts"
  have "covers (w_tracker w) (the (ev_key ?te))"
    using assms(2) covers_shell_key[of "w_tracker w" sid n facts]
    by (auto simp: worker_inv_def apply_turn_end_facts_def split: option.splits)
  then have "archive_covered stored (w_tracker w) (snd (submit_mapped sdk (w_session w) [?te]))"
    using assms(2) by (intro submit_covered(1) assms(1)) (simp_all add: worker_inv_def)
  then have "worker_inv stored (w\<lparr>w_open_calls := {}, w_deferred := None, w_session := snd (submit_mapped sdk (w_session w) [?te])\<rparr>)"
    using assms(2) by (intro inv_session inv_none) simp_all
  then show ?thesis using assms(2) by (simp add: process_turn_end_facts_def Let_def)
qed

lemma remap_inv:
  assumes "archive_contract sdk stored" "\<forall>b. hex_digest (blake3_hex env b)" "worker_inv stored w"
    "room_for (Suc (length items)) w" "remap_slice env sdk sid items w = (r, w')"
  shows "worker_inv stored w'"
  using remap_events[OF assms(1-3) assms(4)[unfolded room_for_def] assms(5)] assms(3)
  unfolding worker_inv_def using archive_covered_mono covers_mono by metis

lemma replace_inv:
  assumes "archive_contract sdk stored" "\<forall>b. hex_digest (blake3_hex env b)" "worker_inv stored w"
    "room_for (Suc (length items)) w"
  shows "worker_inv stored (process_replace env sdk sid items w)"
proof -
  let ?w = "release_deferred sdk (w\<lparr>w_open_calls := reset_from items\<rparr>)"
  have w: "worker_inv stored ?w" "room_for (Suc (length items)) ?w"
    using release_inv[OF assms(1), of "w\<lparr>w_open_calls := reset_from items\<rparr>"] assms(3,4) by (auto simp: room_for_def)
  obtain r w' where rw: "remap_slice env sdk sid items ?w = (r, w')" by (cases "remap_slice env sdk sid items ?w")
  note inv = remap_inv[OF assms(1,2) w rw]
  have "worker_inv stored (w'\<lparr>w_session := snd (submit_mapped sdk (w_session w') events)\<rparr>)" if "r = Inr events" for events
    using remap_events[OF assms(1,2) w(1) w(2)[unfolded room_for_def] rw] that by (intro inv_submit assms(1) inv) blast
  with inv rw show ?thesis by (auto simp: process_replace_def Let_def split: sum.splits)
qed

lemma model_change_inv:
  assumes "archive_contract sdk stored" "worker_inv stored w"
  shows "worker_inv stored (process_model_change sdk sid pm nm pl nl w)"
proof -
  let ?m = "fst (map_model_change sid pm nm pl nl (ls_next_change_ordinal (w_session w)))"
  have cov: "\<forall>e \<in> set ?m. covers (w_tracker w) (the (ev_key e))"
    by (auto simp: map_model_change_def Let_def split_beta covers_model_keys)
  have ac: "archive_covered stored (w_tracker w) (w_session w)" using assms(2) by (simp add: worker_inv_def)
  have upd: "archive_covered stored t (s\<lparr>ls_next_change_ordinal := n\<rparr>) = archive_covered stored t s"
    "archive_covered stored t (set_serving_model s m) = archive_covered stored t s" for t s n m
    by (simp_all add: archive_covered_def set_serving_model_def)
  have "archive_covered stored (w_tracker w) (snd (submit_mapped sdk s ?m))" if "archive_covered stored (w_tracker w) s" for s
    by (rule submit_covered(1)[OF assms(1) that cov])
  then show ?thesis using ac assms(2)
    unfolding process_model_change_def Let_def split_beta
    by (auto intro!: inv_session simp: upd split: sum.splits prod.splits)
qed

lemma process_inv:
  assumes "archive_contract sdk stored" "\<forall>b. hex_digest (blake3_hex env b)" "worker_inv stored w" "room_for (cmd_size cmd) w"
  shows "worker_inv stored (process_cmd env sdk sid w cmd)"
proof (cases cmd)
  case (Persist item usage identity)
  then have "count_of (w_tracker w) (item_digest env item) < u64_max"
    using assms(4)[unfolded room_for_def, rule_format, of "item_digest env item"] by (simp add: cmd_size_def)
  from persist_inv[OF assms(1-3) this] Persist show ?thesis by (simp add: process_cmd_def)
next
  case (TurnEndFacts n facts)
  then show ?thesis using turn_end_facts_inv[OF assms(1,3)] by (simp add: process_cmd_def)
next
  case (ReplaceHistory items)
  then show ?thesis using replace_inv[OF assms(1-3)] assms(4) by (simp add: process_cmd_def cmd_size_def)
next
  case (WritebackInstalled g)
  then show ?thesis using inv_installed[OF assms(3)] by (simp add: process_cmd_def installed_prefix_new_def)
next
  case (ModelChange pm nm pl nl)
  then show ?thesis using model_change_inv[OF assms(1,3)] by (simp add: process_cmd_def)
next
  case CompactThread
  then show ?thesis using assms(3) contract_compact[OF assms(1)]
    by (auto simp: process_cmd_def intro!: inv_session) (simp add: worker_inv_def archive_covered_def)
qed (use release_inv(1)[OF assms(1,3)] assms(3) in \<open>simp_all add: process_cmd_def\<close>)


subsection \<open>Reachable workers\<close>

text \<open>
  The workers of a session: started on some archive, then commands in any order, while the sending side
  may at any moment mark the baseline as poisoned. No counter is near its maximum.
\<close>

inductive worker_reach :: "'x lhc_env \<Rightarrow> 'a sdk \<Rightarrow> ustr \<Rightarrow> ('x, 'a) worker \<Rightarrow> bool" for env sdk sid where
  start: "session_open sdk a m = Some (sess, t) \<Longrightarrow> \<forall>d. count_of t d + Suc (length bootstrap) < u64_max \<Longrightarrow>
    worker_start env sdk sid a m generated bootstrap = Some w \<Longrightarrow> worker_reach env sdk sid w"
| command: "worker_reach env sdk sid w \<Longrightarrow> room_for (cmd_size cmd) w \<Longrightarrow> worker_reach env sdk sid (process_cmd env sdk sid w cmd)"
| poison: "worker_reach env sdk sid w \<Longrightarrow> worker_reach env sdk sid (w\<lparr>w_poisoned := True\<rparr>)"

lemma open_covered:
  assumes "archive_contract sdk stored" "session_open sdk a m = Some (sess, t)" "\<forall>d. count_of t d < u64_max"
  shows "archive_covered stored t sess" "ls_archive sess = a" "t = seed_occurrence_from_keys (stored_keys stored a)"
proof -
  obtain es where es: "sdk_list_events sdk a = Inr es" "t = seed_occurrence_from_keys (map snd es)" "ls_archive sess = a"
    using assms(2) by (auto simp: session_open_def seed_from_db_def Let_def split: sum.splits prod.splits)
  have st: "es = stored a" by (rule contract_list[OF assms(1) es(1)])
  have "covers t key" if key: "key \<in> set (stored_keys stored a)" for key
    unfolding covers_def
  proof (intro allI impI)
    fix d n assume p: "parse_item_key_digest_occ key = Some (d, n)"
    then have "sat_inc64 n \<le> count_of t d" using seed_covers[OF key p] by (simp add: es(2) st seed_eq)
    then show "n < count_of t d" using assms(3)[rule_format, of d] by (auto simp: sat_inc64_def split: if_splits simp: min_def)
  qed
  then show "archive_covered stored t sess" "ls_archive sess = a" "t = seed_occurrence_from_keys (stored_keys stored a)"
    using es st by (simp_all add: archive_covered_def)
qed

definition fresh_worker :: "'x lhc_env \<Rightarrow> 'x generated_prefix option \<Rightarrow> 'a lhc_session \<Rightarrow> occurrence_tracker \<Rightarrow> ('x, 'a) worker" where
  "fresh_worker env generated sess t =
     \<lparr>w_session = sess, w_tracker = t, w_poisoned = False, w_dropped = 0, w_deferred = None,
      w_installed = map_option (installed_prefix_new env) generated, w_open_calls = {}\<rparr>"

lemma start_cases:
  assumes "session_open sdk a m = Some (sess, t)" "worker_start env sdk sid a m generated bootstrap = Some w"
  obtains (empty) "bootstrap = []" "w = fresh_worker env generated sess t"
  | (failed) err w1 where "remap_slice env sdk sid bootstrap (fresh_worker env generated sess t) = (Inl err, w1)"
      "w = w1\<lparr>w_open_calls := reset_from bootstrap\<rparr>"
  | (mapped) events w1 where "remap_slice env sdk sid bootstrap (fresh_worker env generated sess t) = (Inr events, w1)"
      "w = w1\<lparr>w_session := snd (submit_events sdk (w_session w1) events), w_open_calls := reset_from bootstrap\<rparr>"
proof (cases "bootstrap = []")
  case True
  then show thesis using assms empty by (simp add: worker_start_def fresh_worker_def reset_from_def Let_def)
next
  case False
  obtain r w1 where "remap_slice env sdk sid bootstrap (fresh_worker env generated sess t) = (r, w1)" by (meson surj_pair)
  then show thesis using assms False failed mapped
    by (cases r) (simp_all add: worker_start_def fresh_worker_def Let_def)
qed

lemma reach_inv:
  assumes "archive_contract sdk stored" "\<forall>b. hex_digest (blake3_hex env b)" "worker_reach env sdk sid w"
  shows "worker_inv stored w"
  using assms(3)
proof (induction rule: worker_reach.induct)
  case (start a m sess t bootstrap generated w)
  have "\<forall>d. count_of t d < u64_max" using start(2) by (meson add_lessD1)
  note oc = open_covered[OF assms(1) start(1) this]
  have f: "worker_inv stored (fresh_worker env generated sess t)"
    using oc(1) by (auto simp: worker_inv_def fresh_worker_def installed_prefix_new_def)
  have room: "room_for (Suc (length bootstrap)) (fresh_worker env generated sess t)"
    using start(2) by (simp add: room_for_def fresh_worker_def)
  from start(1,3) show ?case
  proof (cases rule: start_cases)
    case (failed err w1)
    then show ?thesis using remap_inv[OF assms(1,2) f room] by simp
  next
    case (mapped events w1)
    have "archive_covered stored (w_tracker w1) (snd (submit_events sdk (w_session w1) events))"
      using remap_events[OF assms(1,2) f room[unfolded room_for_def] mapped(1)] remap_inv[OF assms(1,2) f room mapped(1)]
      by (intro submit_covered(2) assms(1)) (auto simp: worker_inv_def)
    with mapped remap_inv[OF assms(1,2) f room mapped(1)] show ?thesis by (simp add: inv_session)
  qed (use f in simp)
qed (simp_all add: process_inv assms(1,2))

section \<open>An archive that accepts\<close>

definition accepts :: "'a sdk \<Rightarrow> bool" where
  "accepts sdk \<longleftrightarrow> (\<forall>a evs. \<exists>b a'. message_events sdk a evs = (Inr b, a'))"

text \<open>What is in the archive or deferred for it.\<close>

definition held :: "('a \<Rightarrow> (int \<times> ustr) list) \<Rightarrow> ('x, 'a) worker \<Rightarrow> ustr set" where
  "held stored w = set (stored_keys stored (ls_archive (w_session w))) \<union>
     (case w_deferred w of Some te \<Rightarrow> {the (ev_key te)} | None \<Rightarrow> {})"

abbreviation enabled :: "('x, 'a) worker \<Rightarrow> bool" where
  "enabled w \<equiv> \<not> ls_capture_disabled (w_session w)"

lemma submit_accepted:
  assumes "archive_contract sdk stored" "accepts sdk" "\<not> ls_capture_disabled s"
  shows "set (stored_keys stored (ls_archive (snd (submit_mapped sdk s evs)))) =
      set (stored_keys stored (ls_archive s)) \<union> set (keys_of evs) \<and>
    \<not> ls_capture_disabled (snd (submit_mapped sdk s evs)) \<and> (\<exists>b. fst (submit_mapped sdk s evs) = Inr b)"
proof (cases rule: submit_cases[of s sdk evs])
  case (ok b a)
  from submit_ok_stored(1)[OF assms(1) ok(4)] ok show ?thesis by (simp add: submit_mapped_def)
next
  case (err e a s')
  then show ?thesis using assms(2) unfolding accepts_def by (metis Inl_Inr_False prod.inject)
qed (use assms(3) in \<open>auto simp: submit_mapped_def\<close>)

lemma release_accepted:
  assumes "archive_contract sdk stored" "accepts sdk" "enabled w"
  shows "held stored (release_deferred sdk w) = held stored w \<and> enabled (release_deferred sdk w) \<and>
    set (stored_keys stored (ls_archive (w_session (release_deferred sdk w)))) = held stored w"
  using submit_accepted[OF assms] assms(3) by (auto simp: release_deferred_def held_def split: option.splits)

lemma defer_accepted:
  assumes "archive_contract sdk stored" "accepts sdk" "enabled w"
  shows "held stored (defer_close sdk tes w) = held stored w \<union> set (keys_of tes) \<and> enabled (defer_close sdk tes w)"
proof (cases "tes = []")
  case False
  let ?r = "release_deferred sdk w"
  note r = release_accepted[OF assms]
  have "set (keys_of tes) = set (keys_of (butlast tes)) \<union> {the (ev_key (last tes))}"
    using False by (metis append_butlast_last_id keys_of_simps list.set(1,2) set_append)
  then show ?thesis using False r submit_accepted[OF assms(1,2), of "w_session ?r" "butlast tes"]
    by (auto simp: defer_close_def Let_def held_def)
qed (use assms in \<open>simp add: defer_close_def\<close>)

lemma segment_accepted:
  assumes "archive_contract sdk stored" "accepts sdk" "\<not> ls_capture_disabled s"
  shows "set (stored_keys stored (ls_archive s)) \<subseteq> set (stored_keys stored (ls_archive (maybe_close_segment sdk oc a b s))) \<and>
    \<not> ls_capture_disabled (maybe_close_segment sdk oc a b s)"
  using submit_accepted[OF assms] assms(3) by (auto simp: maybe_close_segment_def split: option.splits sum.splits)

lemma after_accepted:
  assumes "archive_contract sdk stored" "accepts sdk" "\<not> ls_capture_disabled (snd sub)"
  shows "set (stored_keys stored (ls_archive (snd sub))) \<subseteq> set (stored_keys stored (ls_archive (after_submit sdk anchor oc sub)))"
    "\<not> ls_capture_disabled (after_submit sdk anchor oc sub)"
  using segment_accepted[OF assms] assms(3) unfolding after_submit_def by (cases anchor; cases "fst sub"; simp)+

lemma persist_accepted:
  assumes "archive_contract sdk stored" "accepts sdk" "enabled w" "\<not> w_poisoned w"
    "w' = process_persist env sdk sid item usage identity w"
  shows "held stored w \<union> set (keys_of (fst (map_item env sid ITEM_KEY_GENERATION item (w_tracker w) no_facts))) \<subseteq> held stored w' \<and>
    enabled w' \<and> \<not> w_poisoned w' \<and> w_tracker w' = snd (map_item env sid ITEM_KEY_GENERATION item (w_tracker w) no_facts) \<and>
    w_installed w' = w_installed w \<and>
    (\<forall>e \<in> set (fst (map_item env sid ITEM_KEY_GENERATION item (w_tracker w) no_facts)). \<not> is_turn_end e \<longrightarrow>
       the (ev_key e) \<in> set (stored_keys stored (ls_archive (w_session w'))))"
proof -
  obtain mapped t where lv: "live_events env sid item usage identity (w_tracker w) = (mapped, t)" by (meson surj_pair)
  define evs where "evs = filter (\<lambda>e. \<not> is_turn_end e) mapped"
  define w1 where "w1 = before_submit sdk item mapped t w"
  let ?d = "defer_close sdk (filter is_turn_end mapped) (w\<lparr>w_tracker := t\<rparr>)"
  have d: "held stored ?d = held stored w \<union> set (keys_of (filter is_turn_end mapped))" "enabled ?d"
    using defer_accepted[OF assms(1,2), of "w\<lparr>w_tracker := t\<rparr>"] assms(3) by (auto simp: held_def)
  have same: "w_tracker ?d = t" "w_installed ?d = w_installed w" "w_poisoned ?d = w_poisoned w"
    by (auto simp: defer_close_def release_deferred_def Let_def split: option.splits)
  have w1: "held stored w1 = held stored ?d" "enabled w1" "w_tracker w1 = t" "w_installed w1 = w_installed w" "\<not> w_poisoned w1"
    using d(2) same assms(4) by (simp_all add: w1_def before_submit_def held_def Let_def)
  let ?sub = "submit_mapped sdk (w_session w1) evs"
  note sub = submit_accepted[OF assms(1,2) w1(2), of evs]
  let ?s = "after_submit sdk (anchor_of item evs) (w_open_calls w1) ?sub"
  have s: "set (stored_keys stored (ls_archive (snd ?sub))) \<subseteq> set (stored_keys stored (ls_archive ?s))" "\<not> ls_capture_disabled ?s"
    using after_accepted[OF assms(1,2), of ?sub] sub by blast+
  have w': "w' = w1\<lparr>w_session := ?s\<rparr>" unfolding assms(5) by (rule persist_steps[OF assms(4) lv evs_def w1_def])
  have "map ev_key mapped = map ev_key (fst (map_item env sid ITEM_KEY_GENERATION item (w_tracker w) no_facts))"
    using arg_cong[OF live_events_keys(1), of "map snd" env sid item usage identity "w_tracker w"] lv by (simp add: comp_def)
  then have keys: "keys_of mapped = keys_of (fst (map_item env sid ITEM_KEY_GENERATION item (w_tracker w) no_facts))"
    unfolding keys_of_def by (metis (no_types, lifting) list.map_comp map_eq_conv comp_apply)
  have "set (keys_of mapped) \<subseteq> set (keys_of evs) \<union> set (keys_of (filter is_turn_end mapped))"
    by (auto simp: evs_def keys_of_def)
  moreover have "held stored w1 \<union> set (keys_of evs) \<subseteq> held stored w'"
    using s(1) sub unfolding w' held_def by (simp add: subset_iff)
  ultimately have "held stored w \<union> set (keys_of mapped) \<subseteq> held stored w'"
    using d(1) w1(1) by blast
  moreover have "t = snd (map_item env sid ITEM_KEY_GENERATION item (w_tracker w) no_facts)"
    using arg_cong[OF lv, of snd] by (simp add: live_events_keys)
  moreover have "the (ev_key e) \<in> set (stored_keys stored (ls_archive ?s))"
    if e: "e \<in> set (fst (map_item env sid ITEM_KEY_GENERATION item (w_tracker w) no_facts))" "\<not> is_turn_end e" for e
  proof -
    have "(ev_kind e, ev_key e) \<in> set (map (\<lambda>e. (ev_kind e, ev_key e)) mapped)"
      using e(1) live_events_keys(1)[of env sid item usage identity "w_tracker w"] lv by (simp add: image_iff) (metis (mono_tags, lifting) fst_conv image_eqI list.set_map)
    then obtain e' where e': "e' \<in> set mapped" "ev_kind e' = ev_kind e" "ev_key e' = ev_key e" by auto
    then have "e' \<in> set evs" using e(2) by (simp add: evs_def is_turn_end_def)
    then have "the (ev_key e) \<in> set (keys_of evs)" using e'(3) by (metis image_eqI keys_of_def list.set_map)
    with sub s(1) show ?thesis by blast
  qed
  ultimately show ?thesis using s(2) w1 keys by (simp add: w')
qed

end
