(* ===== verification/Lhc_Archive.thy ===== *)
theory Lhc_Archive
  imports Lhc_Capture
begin

text \<open>
  What the archive holds after the capture worker ran (\<open>crates/lhc/grok-lhc-host/src/capture.rs\<close>): live
  items are recorded as new events, a restart and a write-back record nothing twice, and a session that
  gave up stays silent. Properties about what is recorded assume an archive that accepts every batch;
  the others hold for any behaviour the contract of the archive allows.
\<close>

section \<open>Runs of persists\<close>

definition persist_all :: "('x conversation_item \<times> json_map option \<times> host_assistant_identity option) list \<Rightarrow> 'x capture_cmd list" where
  "persist_all its = map (\<lambda>(item, usage, identity). Persist item usage identity) its"

lemma persists_held:
  assumes "archive_contract sdk stored" "accepts sdk" "enabled w" "\<not> w_poisoned w"
    "w' = worker_run env sdk sid (persist_all its) w"
  shows "held stored w \<union> set (keys_of (fst (map_history_from env sid ITEM_KEY_GENERATION (map fst its) no_facts (w_tracker w))))
      \<subseteq> held stored w' \<and> enabled w' \<and> \<not> w_poisoned w' \<and> w_installed w' = w_installed w \<and>
    w_tracker w' = snd (map_history_from env sid ITEM_KEY_GENERATION (map fst its) no_facts (w_tracker w))"
  using assms(3-5)
proof (induction its arbitrary: w)
  case (Cons it its)
  obtain item usage identity where it: "it = (item, usage, identity)" by (cases it)
  let ?w = "process_persist env sdk sid item usage identity w"
  note p = persist_accepted[OF assms(1,2) Cons.prems(1,2) refl, of env sid item usage identity]
  have "w' = worker_run env sdk sid (persist_all its) ?w"
    using Cons.prems(3) it by (simp add: worker_run_def persist_all_def process_cmd_def)
  from Cons.IH[OF _ _ this] p it show ?case by (auto simp: split_beta Let_def)
qed (simp add: worker_run_def persist_all_def)

lemma map_item_fresh:
  assumes "worker_inv stored w" "hex_digest (item_digest env item)" "count_of (w_tracker w) (item_digest env item) < u64_max"
    "key \<in> set (keys_of (fst (map_item env sid g item (w_tracker w) facts)))"
  shows "key \<notin> held stored w"
proof
  let ?d = "item_digest env item"
  assume "key \<in> held stored w"
  then have c: "covers (w_tracker w) key"
    using assms(1) by (auto simp: held_def worker_inv_def archive_covered_def split: option.splits)
  obtain e where e: "e \<in> set (fst (map_item env sid g item (w_tracker w) facts))" "key = the (ev_key e)"
    using assms(4) by (auto simp: keys_of_def)
  obtain k p where "ev_key e = Some (item_event_key sid g ?d (count_of (w_tracker w) ?d) k p)"
    using map_item_key_of[OF e(1)] by metis
  then have "parse_item_key_digest_occ key = Some (?d, count_of (w_tracker w) ?d)"
    using e(2) parse_item_event_key[of ?d "count_of (w_tracker w) ?d"] hex_digest_plain[OF assms(2)] assms(3) by simp
  with c show False by (auto simp: covers_def)
qed

lemma map_item_distinct:
  assumes "hex_digest (item_digest env item)" "distinct_call_ids item"
  shows "distinct (keys_of (fst (map_item env sid g item t facts)))"
proof -
  let ?key = "\<lambda>(k, p). item_event_key sid g (item_digest env item) (count_of t (item_digest env item)) k p"
  have "keys_of (fst (map_item env sid g item t facts)) = map (the \<circ> snd) (map (\<lambda>e. (ev_kind e, ev_key e)) (fst (map_item env sid g item t facts)))"
    by (simp add: keys_of_def)
  also have "\<dots> = map ?key (item_parts item)" unfolding map_item_keys by (simp add: split_beta comp_def)
  finally have keys: "keys_of (fst (map_item env sid g item t facts)) = map ?key (item_parts item)" .
  have "inj_on ?key (set (item_parts item))"
  proof (rule inj_onI, clarify)
    fix k p k' p'
    assume "(k, p) \<in> set (item_parts item)" "(k', p') \<in> set (item_parts item)"
      "item_event_key sid g (item_digest env item) (count_of t (item_digest env item)) k p =
       item_event_key sid g (item_digest env item) (count_of t (item_digest env item)) k' p'"
    moreover from this(1,2) have "key_plain k" "key_plain k'" using item_parts_plain by blast+
    ultimately show "k = k' \<and> p = p'" using hex_digest_plain[OF assms(1)] by (simp add: item_event_key_injective)
  qed
  then show ?thesis using item_parts_distinct[OF assms(2)] by (simp add: keys distinct_map)
qed

lemma submit_nothing_new:
  assumes "archive_contract sdk stored" "accepts sdk" "set (keys_of evs) \<subseteq> set (stored_keys stored (ls_archive s))"
  shows "stored (ls_archive (snd (submit_events sdk s evs))) = stored (ls_archive s)"
    "stored (ls_archive (snd (submit_mapped sdk s evs))) = stored (ls_archive s)"
proof -
  show "stored (ls_archive (snd (submit_events sdk s evs))) = stored (ls_archive s)"
  proof (cases rule: submit_cases[of s sdk evs])
    case (ok b a)
    obtain new where "stored a = stored (ls_archive s) @ new" "map snd new = fresh_keys (snd ` set (stored (ls_archive s))) (keys_of evs)"
      using contract_ok[OF assms(1) ok(3)] .
    then show ?thesis using fresh_keys_none assms(3) ok(4) by simp
  next
    case (err e a s')
    then show ?thesis using assms(2) unfolding accepts_def by (metis Inl_Inr_False prod.inject)
  qed auto
  then show "stored (ls_archive (snd (submit_mapped sdk s evs))) = stored (ls_archive s)" by (simp add: submit_mapped_def)
qed

section \<open>A session that gave up\<close>

lemma disabled_submit [simp]:
  "ls_capture_disabled s \<Longrightarrow> snd (submit_mapped sdk s evs) = s"
  "ls_capture_disabled s \<Longrightarrow> snd (submit_events sdk s evs) = s"
  by (simp_all add: submit_mapped_def submit_events_def)

lemma disabled_segment: "ls_capture_disabled s \<Longrightarrow> maybe_close_segment sdk oc a b s = s"
  by (simp add: maybe_close_segment_def split: option.splits sum.splits)

lemma disabled_release: "ls_capture_disabled (w_session w) \<Longrightarrow> w_session (release_deferred sdk w) = w_session w"
  by (simp add: release_deferred_def split: option.splits)

lemma disabled_defer: "ls_capture_disabled (w_session w) \<Longrightarrow> w_session (defer_close sdk tes w) = w_session w"
  by (simp add: defer_close_def Let_def disabled_release)

lemma disabled_persist:
  assumes "ls_capture_disabled (w_session w)"
  shows "w_session (process_persist env sdk sid item usage identity w) = w_session w"
proof (cases "w_poisoned w")
  case False
  obtain mapped t where lv: "live_events env sid item usage identity (w_tracker w) = (mapped, t)" by (meson surj_pair)
  have b: "w_session (before_submit sdk item mapped t w) = w_session w"
    using assms by (simp add: before_submit_def Let_def disabled_defer)
  show ?thesis unfolding persist_steps[OF False lv refl refl]
    using assms by (simp add: b after_submit_def disabled_segment split: option.splits sum.splits)
qed (simp add: process_persist_def)

lemma remap_session: "w_session (snd (remap_slice env sdk sid items w)) = w_session w"
  by (auto simp: remap_slice_def Let_def split_beta split: option.splits prefix_walk.splits sum.splits prod.splits)

lemma disabled_replace:
  "ls_capture_disabled (w_session w) \<Longrightarrow> w_session (process_replace env sdk sid items w) = w_session w"
  using remap_session[of env sdk sid items "release_deferred sdk (w\<lparr>w_open_calls := reset_from items\<rparr>)"]
    disabled_release[of "w\<lparr>w_open_calls := reset_from items\<rparr>" sdk]
  by (auto simp: process_replace_def Let_def split: sum.splits prod.splits)

lemma disabled_model_change:
  assumes "ls_capture_disabled (w_session w)"
  shows "ls_archive (w_session (process_model_change sdk sid pm nm pl nl w)) = ls_archive (w_session w) \<and>
    ls_capture_disabled (w_session (process_model_change sdk sid pm nm pl nl w))"
proof -
  have "submit_mapped sdk s (e # es) = (Inl (lit ''capture disabled for session''), s)" if "ls_capture_disabled s" for s e es
    using that by (simp add: submit_mapped_def submit_events_def)
  then show ?thesis using assms
    by (auto simp: process_model_change_def set_serving_model_def Let_def split_beta map_model_change_def)
qed

lemma disabled_cmd:
  assumes "archive_contract sdk stored" "ls_capture_disabled (w_session w)"
  shows "stored (ls_archive (w_session (process_cmd env sdk sid w cmd))) = stored (ls_archive (w_session w)) \<and>
    ls_capture_disabled (w_session (process_cmd env sdk sid w cmd))"
  using assms(2) disabled_model_change[OF assms(2)] contract_compact[OF assms(1)]
  by (cases cmd) (simp_all add: process_cmd_def disabled_persist process_turn_end_facts_def Let_def disabled_replace disabled_release)

section \<open>Properties\<close>

text \<open>
  C28. What is said live is recorded: in every reachable worker that is neither poisoned nor given up, an
  item that is persisted and flushed is in the archive with all its events, each under a key that was not
  there before, so that none of them is dropped as a duplicate, and nothing that was stored or deferred
  is lost.
\<close>

theorem live_items_recorded:
  assumes "archive_contract sdk stored" "accepts sdk" "\<forall>b. hex_digest (blake3_hex env b)"
    "worker_reach env sdk sid w" "enabled w" "\<not> w_poisoned w" "room_for 1 w" "distinct_call_ids item"
    "keys = keys_of (fst (map_item env sid ITEM_KEY_GENERATION item (w_tracker w) no_facts))"
    "w' = worker_run env sdk sid [Persist item usage identity, Flush] w"
  shows "distinct keys \<and> set keys \<inter> held stored w = {} \<and>
    held stored w \<union> set keys \<subseteq> set (stored_keys stored (ls_archive (w_session w')))"
proof -
  have hex: "hex_digest (item_digest env item)" by (rule item_digest_hex[OF assms(3)])
  have lt: "count_of (w_tracker w) (item_digest env item) < u64_max"
    using assms(7)[unfolded room_for_def, rule_format, of "item_digest env item"] by simp
  let ?w = "process_persist env sdk sid item usage identity w"
  note p = persist_accepted[OF assms(1,2,5,6) refl, of env sid item usage identity]
  have "w' = release_deferred sdk ?w" by (simp add: assms(10) worker_run_def process_cmd_def)
  then have "held stored w \<union> set keys \<subseteq> set (stored_keys stored (ls_archive (w_session w')))"
    using p release_accepted[OF assms(1,2), of ?w] assms(9) by simp
  moreover have "distinct keys" unfolding assms(9) by (rule map_item_distinct[OF hex assms(8)])
  moreover have "set keys \<inter> held stored w = {}"
    using map_item_fresh[OF reach_inv[OF assms(1,3,4)] hex lt] assms(9) by blast
  ultimately show ?thesis by blast
qed

text \<open>
  C30. A restart records nothing twice: items captured from an empty archive, a shutdown, and a new worker
  that is bootstrapped with the same history leave the archive as the shutdown left it.
\<close>

theorem restart_records_nothing:
  assumes "archive_contract sdk stored" "accepts sdk" "\<forall>b. hex_digest (blake3_hex env b)"
    "stored a = []" "worker_start env sdk sid a m None [] = Some w0"
    "w1 = worker_shutdown env sdk sid (persist_all its) w0"
    "worker_start env sdk sid (ls_archive (w_session w1)) m' None (map fst its) = Some w2"
  shows "stored (ls_archive (w_session w2)) = stored (ls_archive (w_session w1))"
proof -
  obtain s0 t0 where o: "session_open sdk a m = Some (s0, t0)" using assms(5) by (auto simp: worker_start_def split: option.splits)
  have w0: "w0 = fresh_worker env None s0 t0" using assms(5) o by (simp add: worker_start_def fresh_worker_def reset_from_def Let_def)
  have t0: "t0 = occurrence_tracker_new" "\<not> ls_capture_disabled s0"
    using o contract_list[OF assms(1)] assms(4)
    by (auto simp: session_open_def seed_from_db_def Let_def seed_eq split: sum.splits prod.splits)
  let ?run = "worker_run env sdk sid (persist_all its) w0"
  let ?full = "map_history env sid ITEM_KEY_GENERATION (map fst its) no_facts"
  have w0': "enabled w0" "\<not> w_poisoned w0" "w_tracker w0 = occurrence_tracker_new" using w0 t0 by (simp_all add: fresh_worker_def)
  have "set (keys_of (fst ?full)) \<subseteq> held stored ?run" "enabled ?run"
    using persists_held[OF assms(1,2) w0'(1,2) refl, of env sid its] by (simp_all add: w0'(3) map_history_def)
  then have keys: "set (keys_of (fst ?full)) \<subseteq> set (stored_keys stored (ls_archive (w_session w1)))"
    using release_accepted[OF assms(1,2) \<open>enabled ?run\<close>] by (simp add: assms(6) worker_shutdown_def)
  obtain s2 t2 where o2: "session_open sdk (ls_archive (w_session w1)) m' = Some (s2, t2)"
    using assms(7) by (auto simp: worker_start_def split: option.splits)
  have s2: "ls_archive s2 = ls_archive (w_session w1)"
    using o2 by (auto simp: session_open_def seed_from_db_def Let_def split: sum.splits prod.splits)
  from o2 assms(7) show ?thesis
  proof (cases rule: start_cases)
    case (mapped events w3)
    then have "events = fst ?full" "w_session w3 = s2" by (auto simp: remap_slice_def fresh_worker_def Let_def split_beta)
    then show ?thesis using mapped(2) submit_nothing_new(1)[OF assms(1,2), of events s2] keys s2 by simp
  next
    case (failed err w3)
    then show ?thesis by (simp add: remap_slice_def fresh_worker_def Let_def split_beta)
  qed (simp add: fresh_worker_def s2)
qed

text \<open>
  A session that gave up stays silent: once three batches in a row have failed and capture is
  disabled, no sequence of commands changes the events in the archive or turns capture on again, whatever
  the archive would answer.
\<close>

lemma disabled_stays_silent:
  assumes "archive_contract sdk stored" "ls_capture_disabled (w_session w)"
  shows "stored (ls_archive (w_session (worker_run env sdk sid cmds w))) = stored (ls_archive (w_session w)) \<and>
    ls_capture_disabled (w_session (worker_run env sdk sid cmds w))"
proof (induction cmds rule: rev_induct)
  case (snoc cmd cmds)
  then show ?case using disabled_cmd[OF assms(1), of "worker_run env sdk sid cmds w" env sid cmd] by (simp add: worker_run_def)
qed (use assms(2) in \<open>simp add: worker_run_def\<close>)

section \<open>Examples\<close>

text \<open>An archive that keeps the keys in the order they were recorded and never fails.\<close>

fun number_from :: "nat \<Rightarrow> ustr list \<Rightarrow> (int \<times> ustr) list" where
  "number_from n [] = []"
| "number_from n (k # ks) = (int n, k) # number_from (Suc n) ks"

definition demo_stored :: "ustr list \<Rightarrow> (int \<times> ustr) list" where
  "demo_stored = number_from 1"

definition demo_archive :: "ustr list sdk" where
  "demo_archive =
     \<lparr>message_events = (\<lambda>ks evs.
        (let ks' = ks @ fresh_keys (set ks) (keys_of evs)
         in (Inr \<lparr>bt_events = batch_outcomes (set ks) (keys_of evs), bt_last_event_order = int (length ks')\<rparr>, ks'))),
      sdk_list_events = (\<lambda>ks. Inr (demo_stored ks)), active_turn_tokens = (\<lambda>_. Inr None),
      segment_threshold_tokens = (\<lambda>_. None), compact_view = (\<lambda>ks. ks)\<rparr>"

lemma number_from_sel:
  "map snd (number_from n ks) = ks" "i \<in> set (map fst (number_from n ks)) \<Longrightarrow> int n \<le> i"
  "sorted_wrt (<) (map fst (number_from n ks))" "ks \<noteq> [] \<Longrightarrow> fst (last (number_from n ks)) = int n + int (length ks) - 1"
proof (induction ks arbitrary: n i)
  case (Cons k ks)
  {
    case 2
    then show ?case using Cons(2)[where n = "Suc n"] by fastforce
  next
    case 3
    then show ?case using Cons(2)[where n = "Suc n"] Cons(3)[where n = "Suc n"] by fastforce
  next
    case 4
    then show ?case using Cons(4)[where n = "Suc n"] by (cases ks) auto
  }
qed (use Cons(1) in auto)

lemma number_from_append: "number_from n (ks @ new) = number_from n ks @ number_from (n + length ks) new"
  by (induction ks arbitrary: n) simp_all

lemma demo_stored_sel [simp]:
  "map snd (demo_stored ks) = ks" "snd ` set (demo_stored ks) = set ks" "demo_stored ks = [] \<longleftrightarrow> ks = []" "demo_stored [] = []"
proof -
  show keys: "map snd (demo_stored ks) = ks" by (simp add: demo_stored_def number_from_sel)
  show "snd ` set (demo_stored ks) = set ks" using arg_cong[OF keys, of set] by simp
  show "demo_stored ks = [] \<longleftrightarrow> ks = []" "demo_stored [] = []" by (cases ks; simp add: demo_stored_def)+
qed

lemma demo_stored_append:
  "\<exists>tail. demo_stored (ks @ new) = demo_stored ks @ tail \<and> map snd tail = new"
  by (simp add: demo_stored_def number_from_append number_from_sel)

lemma demo_stored_last: "ks \<noteq> [] \<Longrightarrow> fst (last (demo_stored ks)) = int (length ks)"
  by (simp add: demo_stored_def number_from_sel)

lemma demo_contract: "archive_contract demo_archive demo_stored"
  unfolding archive_contract_def
proof (intro conjI allI impI)
  fix a
  show "sorted_wrt (<) (map fst (demo_stored a))" by (simp add: demo_stored_def number_from_sel)
  show "\<forall>(i, k) \<in> set (demo_stored a). 0 < i" using number_from_sel(2)[of _ 1 a] by (force simp: demo_stored_def)
next
  fix a evs b a'
  assume m: "message_events demo_archive a evs = (Inr b, a')"
  then show "bt_events b = batch_outcomes (snd ` set (demo_stored a)) (keys_of evs)"
    "\<exists>new. demo_stored a' = demo_stored a @ new \<and> map snd new = fresh_keys (snd ` set (demo_stored a)) (keys_of evs)"
    "demo_stored a' \<noteq> [] \<Longrightarrow> bt_last_event_order b = fst (last (demo_stored a'))"
    using demo_stored_append by (auto simp: demo_archive_def Let_def demo_stored_last)
qed (auto simp: demo_archive_def)

lemma demo_accepts: "accepts demo_archive"
  by (simp add: accepts_def demo_archive_def Let_def)

lemma demo_digests: "\<forall>b. hex_digest (blake3_hex demo_lhc b)"
  by (simp add: demo_lhc_def hex_digest_def is_ascii_digit_def lit_def)

definition demo_worker :: "(unit, ustr list) worker" where
  "demo_worker = the (worker_start demo_lhc demo_archive (lit ''s'') [] None None [])"

lemma demo_start: "worker_start demo_lhc demo_archive (lit ''s'') [] None None [] = Some demo_worker"
  by (simp add: demo_worker_def worker_start_def session_open_def seed_from_db_def demo_archive_def Let_def)

lemma demo_worker_sel:
  "enabled demo_worker" "\<not> w_poisoned demo_worker" "w_deferred demo_worker = None" "ls_generation (w_session demo_worker) = 0"
  "w_tracker demo_worker = occurrence_tracker_new" "ls_archive (w_session demo_worker) = []"
  by (simp_all add: demo_worker_def worker_start_def session_open_def seed_from_db_def demo_archive_def Let_def seed_eq)

lemma demo_room: "n < u64_max \<Longrightarrow> room_for n demo_worker"
  by (simp add: room_for_def demo_worker_sel count_of_def occurrence_tracker_new_def)

lemma demo_reach: "worker_reach demo_lhc demo_archive (lit ''s'') demo_worker"
proof (rule worker_reach.start[OF _ _ demo_start])
  show "session_open demo_archive [] None = Some (w_session demo_worker, occurrence_tracker_new)"
    by (simp add: demo_worker_def worker_start_def session_open_def seed_from_db_def demo_archive_def Let_def seed_eq)
  show "\<forall>d. count_of occurrence_tracker_new d + Suc (length []) < u64_max"
    by (simp add: count_of_def occurrence_tracker_new_def u64_max_def)
qed

theorem live_items_recorded_witness:
  "set (keys_of (fst (map_item demo_lhc (lit ''s'') ITEM_KEY_GENERATION demo_answer occurrence_tracker_new no_facts))) \<subseteq>
   set (ls_archive (w_session (worker_run demo_lhc demo_archive (lit ''s'') [Persist demo_answer None None, Flush] demo_worker)))"
  using live_items_recorded[OF demo_contract demo_accepts demo_digests demo_reach demo_worker_sel(1,2) demo_room _ refl refl,
      of demo_answer None None]
  by (simp add: demo_worker_sel distinct_call_ids_def demo_answer_def u64_max_def)

theorem restart_records_nothing_witness:
  "\<exists>w1 w2. w1 = worker_shutdown demo_lhc demo_archive (lit ''s'') (persist_all [(demo_user Human, None, None), (demo_answer, None, None)]) demo_worker \<and>
     worker_start demo_lhc demo_archive (lit ''s'') (ls_archive (w_session w1)) None None [demo_user Human, demo_answer] = Some w2 \<and>
     demo_stored (ls_archive (w_session w2)) = demo_stored (ls_archive (w_session w1))"
proof -
  let ?its = "[(demo_user Human, None, None), (demo_answer, None, None)] ::
    (unit conversation_item \<times> json_map option \<times> host_assistant_identity option) list"
  let ?w1 = "worker_shutdown demo_lhc demo_archive (lit ''s'') (persist_all ?its) demo_worker"
  obtain w2 where w2: "worker_start demo_lhc demo_archive (lit ''s'') (ls_archive (w_session ?w1)) None None (map fst ?its) = Some w2"
    by (simp add: worker_start_def session_open_def seed_from_db_def demo_archive_def Let_def)
  have "demo_stored (ls_archive (w_session w2)) = demo_stored (ls_archive (w_session ?w1))"
    using restart_records_nothing[OF demo_contract demo_accepts demo_digests _ demo_start refl w2] by simp
  then show ?thesis using w2 by (intro exI[of _ ?w1] exI[of _ w2]) simp
qed

lemma disabled_stays_silent_witness:
  "\<exists>w. ls_capture_disabled (w_session w) \<and>
    demo_stored (ls_archive (w_session (worker_run demo_lhc demo_archive (lit ''s'') [Persist demo_answer None None, Flush] w))) =
      demo_stored (ls_archive (w_session w))"
  using disabled_stays_silent[OF demo_contract,
      of "demo_worker\<lparr>w_session := (w_session demo_worker)\<lparr>ls_capture_disabled := True\<rparr>\<rparr>" demo_lhc "lit ''s''"
        "[Persist demo_answer None None, Flush]"]
  by (intro exI[of _ "demo_worker\<lparr>w_session := (w_session demo_worker)\<lparr>ls_capture_disabled := True\<rparr>\<rparr>"]) simp

end
