(* ===== verification/Lhc_Writeback.thy ===== *)
theory Lhc_Writeback
  imports Lhc_Archive
begin

text \<open>
  A write-back installs a body that LHC generated as the native history
  (\<open>crates/lhc/grok-lhc-host/src/generated_prefix.rs\<close>, \<open>capture.rs\<close>). The worker must not record that body, and
  must recognise the items said after it when the whole history is mapped again.

  With an archive that accepts, the tracker of a reachable worker counts exactly what is stored, and its
  generation is the order of the last stored event; so the keys up to the tip of a write-back give the
  counts the worker had then.
\<close>

section \<open>Growth of the archive\<close>

definition extends :: "('a \<Rightarrow> (int \<times> ustr) list) \<Rightarrow> 'a lhc_session \<Rightarrow> 'a lhc_session \<Rightarrow> bool" where
  "extends stored s s' \<longleftrightarrow> (\<exists>new. stored (ls_archive s') = stored (ls_archive s) @ new)"

lemma extends_refl [simp]: "extends stored s s" by (simp add: extends_def)

lemma extends_trans [trans]: "extends stored s s' \<Longrightarrow> extends stored s' s'' \<Longrightarrow> extends stored s s''"
  by (auto simp: extends_def)

lemma submit_extends:
  assumes "archive_contract sdk stored"
  shows "extends stored s (snd (submit_mapped sdk s evs))" "extends stored s (snd (submit_events sdk s evs))"
proof -
  obtain new where "stored (ls_archive (snd (submit_events sdk s evs))) = stored (ls_archive s) @ new"
    using submit_stored[OF assms] .
  then show "extends stored s (snd (submit_mapped sdk s evs))" "extends stored s (snd (submit_events sdk s evs))"
    by (auto simp: extends_def submit_mapped_def)
qed

lemma release_extends: "archive_contract sdk stored \<Longrightarrow> extends stored (w_session w) (w_session (release_deferred sdk w))"
  using submit_extends(1) by (auto simp: release_deferred_def split: option.splits)

lemma defer_extends:
  assumes "archive_contract sdk stored"
  shows "extends stored (w_session w) (w_session (defer_close sdk tes w))"
  using release_extends[OF assms, of w] submit_extends(1)[OF assms]
  by (auto simp: defer_close_def Let_def intro: extends_trans)

lemma persist_extends:
  assumes "archive_contract sdk stored"
  shows "extends stored (w_session w) (w_session (process_persist env sdk sid item usage identity w))"
proof (cases "w_poisoned w")
  case False
  obtain mapped t where lv: "live_events env sid item usage identity (w_tracker w) = (mapped, t)" by (meson surj_pair)
  let ?w = "before_submit sdk item mapped t w" and ?ev = "filter (\<lambda>e. \<not> is_turn_end e) mapped"
  have "extends stored (w_session w) (w_session ?w)"
    using defer_extends[OF assms, of "w\<lparr>w_tracker := t\<rparr>"] by (simp add: before_submit_def Let_def)
  also have "extends stored (w_session ?w) (snd (submit_mapped sdk (w_session ?w) ?ev))" by (rule submit_extends(1)[OF assms])
  also have "extends stored (snd (submit_mapped sdk (w_session ?w) ?ev))
      (after_submit sdk (anchor_of item ?ev) (w_open_calls ?w) (submit_mapped sdk (w_session ?w) ?ev))"
    using submit_extends(1)[OF assms]
    by (auto simp: after_submit_def maybe_close_segment_def split: option.splits sum.splits)
  finally show ?thesis unfolding persist_steps[OF False lv refl refl] by simp
qed (simp add: process_persist_def)

section \<open>The last count of a digest is held\<close>

text \<open>Every count of the tracker comes from a key.\<close>

definition witnessed :: "occurrence_tracker \<Rightarrow> ustr set \<Rightarrow> bool" where
  "witnessed t K \<longleftrightarrow> (\<forall>d. 0 < count_of t d \<longrightarrow> (\<exists>key \<in> K. parse_item_key_digest_occ key = Some (d, count_of t d - 1)))"

lemma witnessed_mono: "witnessed t K \<Longrightarrow> K \<subseteq> K' \<Longrightarrow> witnessed t K'"
  unfolding witnessed_def by blast

lemma witnessed_seed:
  assumes "\<forall>d. count_of (foldl seed_step t keys) d < u64_max" "witnessed t K"
  shows "witnessed (foldl seed_step t keys) (K \<union> set keys)"
  using assms
proof (induction keys arbitrary: t K)
  case (Cons key keys)
  have "count_of (seed_step t key) d < u64_max" for d
    using Cons.prems(1) seed_mono[of "seed_step t key" d keys] by (simp add: le_less_trans)
  then have lt: "sat_inc64 n < u64_max" if "parse_item_key_digest_occ key = Some (d, n)" for d n
    using that seed_covers[of key "[key]" d n t] by (simp add: le_less_trans)
  have "witnessed (seed_step t key) (insert key K)"
    unfolding witnessed_def
  proof (intro allI impI)
    fix d assume pos: "0 < count_of (seed_step t key) d"
    show "\<exists>k \<in> insert key K. parse_item_key_digest_occ k = Some (d, count_of (seed_step t key) d - 1)"
    proof (cases "count_of (seed_step t key) d = count_of t d")
      case True
      then show ?thesis using pos Cons.prems(2) unfolding witnessed_def by auto
    next
      case False
      then obtain n where n: "parse_item_key_digest_occ key = Some (d, n)" "count_of (seed_step t key) d = sat_inc64 n"
        by (auto simp: seed_step_def count_observe max_def split: option.splits prod.splits if_splits)
      then show ?thesis using lt[OF n(1)] by (auto simp: sat_inc64_def min_def split: if_splits)
    qed
  qed
  from Cons.IH[OF _ this] Cons.prems(1) show ?case by (simp add: insert_commute)
qed simp

lemma count_merge_max: "count_of (merge_monotonic t u) d = max (count_of t d) (count_of u d)"
  by (auto simp: merge_monotonic_def count_of_def split: option.splits)

text \<open>The keys of minted items witness what minting adds to a tracker.\<close>

lemma witnessed_mint:
  assumes "witnessed t K" "tracker_le s t" "set (fst (mint_keys sid s its)) \<subseteq> K"
    "\<forall>d. count_of s d + uses d its < u64_max" "\<forall>(x, evs) \<in> set its. key_plain x \<and> evs \<noteq> []"
  shows "witnessed (merge_monotonic t (snd (mint_keys sid s its))) K"
  unfolding witnessed_def
proof (intro allI impI)
  fix d
  let ?u = "snd (mint_keys sid s its)"
  assume pos: "0 < count_of (merge_monotonic t ?u) d"
  have b: "count_of s e + uses e its \<le> u64_max" for e using assms(4) less_imp_le by blast
  note c = mint_count[OF b, of sid d]
  show "\<exists>key \<in> K. parse_item_key_digest_occ key = Some (d, count_of (merge_monotonic t ?u) d - 1)"
  proof (cases "count_of ?u d \<le> count_of t d")
    case True
    then show ?thesis using assms(1) pos unfolding witnessed_def by (simp add: count_merge_max max_def)
  next
    case False
    then have u: "0 < uses d its" using assms(2) c unfolding tracker_le_def by (metis add_0_right gr0I)
    obtain k p where key: "item_event_key sid ITEM_KEY_GENERATION d (count_of s d + uses d its - 1) k p \<in> K"
      using mint_last[OF b u] assms(3,5) by blast
    have "key_plain d" using u assms(5) by (auto simp: uses_def filter_empty_conv)
    then have "parse_item_key_digest_occ (item_event_key sid ITEM_KEY_GENERATION d (count_of s d + uses d its - 1) k p)
        = Some (d, count_of s d + uses d its - 1)"
      using b[of d] by (intro parse_item_event_key) auto
    then show ?thesis using key False c by (auto simp: count_merge_max max_def)
  qed
qed

definition tip_ok :: "('a \<Rightarrow> (int \<times> ustr) list) \<Rightarrow> 'a lhc_session \<Rightarrow> bool" where
  "tip_ok stored s \<longleftrightarrow>
     int (ls_generation s) = (if stored (ls_archive s) = [] then 0 else fst (last (stored (ls_archive s))))"

lemma contract_orders:
  assumes "archive_contract sdk stored"
  shows "sorted_wrt (<) (map fst (stored a))" "e \<in> set (stored a) \<Longrightarrow> 0 < fst e"
  using assms unfolding archive_contract_def by (auto simp: split_beta)

lemma extends_tail:
  assumes "archive_contract sdk stored" "stored a' = stored a @ new" "stored a \<noteq> []" "e \<in> set new"
  shows "fst (last (stored a)) < fst e"
  using contract_orders(1)[OF assms(1), of a'] assms(2-4) by (auto simp: sorted_wrt_append)

lemma submit_tip:
  assumes "archive_contract sdk stored" "accepts sdk" "tip_ok stored s" "\<not> ls_capture_disabled s"
  shows "tip_ok stored (snd (submit_mapped sdk s evs))" "tip_ok stored (snd (submit_events sdk s evs))"
proof -
  show "tip_ok stored (snd (submit_events sdk s evs))"
  proof (cases rule: submit_cases[of s sdk evs])
    case (ok b a)
    obtain new where n: "stored a = stored (ls_archive s) @ new" "map snd new = fresh_keys (snd ` set (stored (ls_archive s))) (keys_of evs)"
      "stored a \<noteq> [] \<Longrightarrow> bt_last_event_order b = fst (last (stored a))"
      using contract_ok[OF assms(1) ok(3)] by metis
    have "stored a \<noteq> []"
    proof
      assume "stored a = []"
      then have "fresh_keys {} (keys_of evs) = []" using n by simp
      then show False using ok(2) by (cases evs) auto
    qed
    then have l: "bt_last_event_order b = fst (last (stored a))" "0 < fst (last (stored a))"
      using n(3) contract_orders(2)[OF assms(1), of "last (stored a)" a] by auto
    have "int (ls_generation s) \<le> fst (last (stored a))"
    proof (cases "stored (ls_archive s) = [] \<or> new = []")
      case False
      then have "fst (last (stored (ls_archive s))) < fst (last new)"
        using extends_tail[OF assms(1) n(1)] by simp
      then show ?thesis using False assms(3) n(1) by (simp add: tip_ok_def)
    qed (use assms(3) l n(1) in \<open>auto simp: tip_ok_def\<close>)
    then have "max (ls_generation s) (nat (fst (last (stored a)))) = nat (fst (last (stored a)))"
      by (simp add: max_absorb2 le_nat_iff l(2) less_imp_le)
    then show ?thesis using ok(4) \<open>stored a \<noteq> []\<close> l
      by (simp add: tip_ok_def latch_generation_from_batch_def Let_def)
  next
    case (err e a s')
    then show ?thesis using assms(2) unfolding accepts_def by (metis Inl_Inr_False prod.inject)
  qed (use assms in auto)
  then show "tip_ok stored (snd (submit_mapped sdk s evs))" using assms(3) by (simp add: submit_mapped_def)
qed

section \<open>A worker in step with its archive\<close>

lemma history_append:
  "map_history_from env s g (xs @ ys) facts t =
     (let (a, t) = map_history_from env s g xs facts t; (b, t) = map_history_from env s g ys facts t in (a @ b, t))"
  by (induction xs arbitrary: t) (auto simp: split_beta Let_def)

lemma history_witnessed:
  assumes "\<forall>b. hex_digest (blake3_hex env b)" "witnessed t K" "tracker_le u t"
    "set (keys_of (fst (map_history_from env sid ITEM_KEY_GENERATION items facts u))) \<subseteq> K"
    "\<forall>d. count_of u d + length items < u64_max"
  shows "witnessed (merge_monotonic t (snd (map_history_from env sid ITEM_KEY_GENERATION items facts u))) K"
  unfolding map_history_mint
proof (rule witnessed_mint[OF assms(2,3)])
  have "keys_of (fst (map_history_from env sid ITEM_KEY_GENERATION items facts u)) =
      map the (map ev_key (fst (map_history_from env sid ITEM_KEY_GENERATION items facts u)))" by (simp add: keys_of_def)
  then show "set (fst (mint_keys sid u (map (item_shape env) items))) \<subseteq> K"
    using assms(4) unfolding map_history_mint by (simp add: comp_def)
  show "\<forall>d. count_of u d + uses d (map (item_shape env) items) < u64_max"
    using assms(5) uses_shapes by (meson add_left_mono le_less_trans)
  show "\<forall>(x, evs) \<in> set (map (item_shape env) items). key_plain x \<and> evs \<noteq> []"
    using hex_digest_plain[OF item_digest_hex[OF assms(1)]] by (auto simp: item_shape_def item_parts_ne)
qed

definition live :: "('a \<Rightarrow> (int \<times> ustr) list) \<Rightarrow> 'a lhc_session \<Rightarrow> bool" where
  "live stored s \<longleftrightarrow> \<not> ls_capture_disabled s \<and> tip_ok stored s"

definition synced :: "('a \<Rightarrow> (int \<times> ustr) list) \<Rightarrow> ('x, 'a) worker \<Rightarrow> bool" where
  "synced stored w \<longleftrightarrow> live stored (w_session w) \<and> witnessed (w_tracker w) (set (stored_keys stored (ls_archive (w_session w))))"

lemma synced_grow:
  assumes "synced stored w" "live stored s" "set (stored_keys stored (ls_archive (w_session w))) \<subseteq> set (stored_keys stored (ls_archive s))"
    "w_session w' = s" "w_tracker w' = w_tracker w"
  shows "synced stored w'"
  using assms witnessed_mono unfolding synced_def by metis

lemma submit_live:
  assumes "archive_contract sdk stored" "accepts sdk" "live stored s"
  shows "live stored (snd (submit_mapped sdk s evs))"
  using submit_tip(1)[OF assms(1,2)] submit_accepted[OF assms(1,2)] assms(3) unfolding live_def by blast

lemma release_live:
  assumes "archive_contract sdk stored" "accepts sdk" "live stored (w_session w)"
  shows "live stored (w_session (release_deferred sdk w))"
  using submit_live[OF assms] assms(3) by (simp add: release_deferred_def split: option.splits)

lemma release_sel [simp]:
  "w_tracker (release_deferred sdk w) = w_tracker w" "w_deferred (release_deferred sdk w) = None"
  "w_installed (release_deferred sdk w) = w_installed w" "w_poisoned (release_deferred sdk w) = w_poisoned w"
  by (auto simp: release_deferred_def split: option.splits)

lemma submit_grows:
  "archive_contract sdk stored \<Longrightarrow> set (stored_keys stored (ls_archive s)) \<subseteq> set (stored_keys stored (ls_archive (snd (submit_mapped sdk s evs))))"
  using submit_extends(1)[of sdk stored s evs] by (auto simp: extends_def)

lemma release_synced:
  assumes "archive_contract sdk stored" "accepts sdk" "synced stored w"
  shows "synced stored (release_deferred sdk w)"
proof (rule synced_grow[OF assms(3) release_live[OF assms(1,2)] _ refl])
  show "set (stored_keys stored (ls_archive (w_session w))) \<subseteq> set (stored_keys stored (ls_archive (w_session (release_deferred sdk w))))"
    using release_extends[OF assms(1), of w] by (auto simp: extends_def)
qed (use assms(3) in \<open>simp_all add: synced_def\<close>)

lemma defer_live:
  assumes "archive_contract sdk stored" "accepts sdk" "live stored (w_session w)"
  shows "live stored (w_session (defer_close sdk tes w))"
  using assms(3) release_live[OF assms] submit_live[OF assms(1,2)] by (simp add: defer_close_def Let_def)

lemma persist_live:
  assumes "archive_contract sdk stored" "accepts sdk" "live stored (w_session w)"
  shows "live stored (w_session (process_persist env sdk sid item usage identity w))"
proof (cases "w_poisoned w")
  case False
  obtain mapped t where lv: "live_events env sid item usage identity (w_tracker w) = (mapped, t)" by (meson surj_pair)
  let ?w = "before_submit sdk item mapped t w" and ?ev = "filter (\<lambda>e. \<not> is_turn_end e) mapped"
  have "live stored (w_session ?w)"
    using defer_live[OF assms(1,2), of "w\<lparr>w_tracker := t\<rparr>"] assms(3) by (simp add: before_submit_def Let_def)
  note sub = submit_live[OF assms(1,2) this, of ?ev]
  then have "live stored (after_submit sdk (anchor_of item ?ev) (w_open_calls ?w) (submit_mapped sdk (w_session ?w) ?ev))"
    using submit_live[OF assms(1,2) sub]
    by (auto simp: after_submit_def maybe_close_segment_def split: option.splits sum.splits)
  then show ?thesis unfolding persist_steps[OF False lv refl refl] by simp
qed (use assms(3) in \<open>simp add: process_persist_def\<close>)

text \<open>Every item maps to an event that is not deferred.\<close>

lemma item_parts_prompt: "\<exists>k p. (k, p) \<in> set (item_parts item) \<and> k \<noteq> lit ''turn_end''"
proof (cases item)
  case (Assistant a)
  show ?thesis
  proof (cases "as_tool_calls a")
    case (Cons tc tcs)
    then have "(lit ''tool_call'', Some (tc_id tc)) \<in> set (item_parts item)" using Assistant by (simp add: item_parts_def)
    moreover have "lit ''tool_call'' \<noteq> lit ''turn_end''" by (simp add: lit_inject)
    ultimately show ?thesis by blast
  qed (use Assistant in \<open>auto simp: item_parts_def lit_inject\<close>)
qed (auto simp: item_parts_def lit_inject)

lemma map_item_prompt:
  assumes "hex_digest (item_digest env item)" "count_of t (item_digest env item) < u64_max"
  obtains e where "e \<in> set (fst (map_item env sid g item t facts))" "\<not> is_turn_end e"
    "parse_item_key_digest_occ (the (ev_key e)) = Some (item_digest env item, count_of t (item_digest env item))"
proof -
  obtain k p where kp: "(k, p) \<in> set (item_parts item)" "k \<noteq> lit ''turn_end''" using item_parts_prompt by metis
  let ?key = "item_event_key sid g (item_digest env item) (count_of t (item_digest env item)) k p"
  have "(k, Some ?key) \<in> set (map (\<lambda>e. (ev_kind e, ev_key e)) (fst (map_item env sid g item t facts)))"
    unfolding map_item_keys using kp(1) by (auto simp: image_iff intro!: bexI[of _ "(k, p)"])
  then obtain e where e: "e \<in> set (fst (map_item env sid g item t facts))" "ev_kind e = k" "ev_key e = Some ?key" by auto
  show thesis
    by (rule that[OF e(1)]) (use e kp(2) assms hex_digest_plain parse_item_event_key in \<open>simp_all add: is_turn_end_def\<close>)
qed

lemma persist_synced:
  assumes "archive_contract sdk stored" "accepts sdk" "\<forall>b. hex_digest (blake3_hex env b)" "synced stored w"
    "room_for 1 w"
  shows "synced stored (process_persist env sdk sid item usage identity w)"
proof (cases "w_poisoned w")
  case True
  then show ?thesis using assms(4) by (simp add: process_persist_def synced_def)
next
  case False
  let ?w = "process_persist env sdk sid item usage identity w" and ?d = "item_digest env item"
  let ?K = "\<lambda>w. set (stored_keys stored (ls_archive (w_session w)))"
  have en: "enabled w" using assms(4) by (simp add: synced_def live_def)
  note p = persist_accepted[OF assms(1,2) en False refl, of env sid item usage identity]
  have lt: "count_of (w_tracker w) ?d < u64_max" using assms(5)[unfolded room_for_def, rule_format, of ?d] by simp
  have t: "w_tracker ?w = snd (tracker_next (w_tracker w) ?d)" using p by (simp add: map_item_tracker)
  have mono: "?K w \<subseteq> ?K ?w" using persist_extends[OF assms(1), of w env sid item usage identity] by (auto simp: extends_def)
  obtain e where e: "e \<in> set (fst (map_item env sid ITEM_KEY_GENERATION item (w_tracker w) no_facts))" "\<not> is_turn_end e"
    "parse_item_key_digest_occ (the (ev_key e)) = Some (?d, count_of (w_tracker w) ?d)"
    using map_item_prompt[OF item_digest_hex[OF assms(3)] lt] .
  then have key: "the (ev_key e) \<in> ?K ?w" using p by blast
  have old: "witnessed (w_tracker w) (?K ?w)" using assms(4) mono witnessed_mono unfolding synced_def by blast
  have "\<exists>key \<in> ?K ?w. parse_item_key_digest_occ key = Some (d, count_of (w_tracker ?w) d - 1)" if "0 < count_of (w_tracker ?w) d" for d
  proof (cases "d = ?d")
    case True
    have "count_of (w_tracker ?w) ?d - 1 = count_of (w_tracker w) ?d" using lt by (simp add: t count_next wrap_inc64_small)
    with True key e(3) show ?thesis by (intro bexI[OF _ key]) simp
  next
    case d: False
    have "count_of (w_tracker ?w) d = count_of (w_tracker w) d" using d by (simp add: t count_next)
    with old that show ?thesis unfolding witnessed_def by simp
  qed
  then have "witnessed (w_tracker ?w) (?K ?w)" unfolding witnessed_def by blast
  then show ?thesis using persist_live[OF assms(1,2)] assms(4) unfolding synced_def by auto
qed

lemma facts_synced:
  assumes "archive_contract sdk stored" "accepts sdk" "synced stored w"
  shows "synced stored (process_turn_end_facts sdk sid n facts w)"
proof -
  have "live stored (w_session w)" using assms(3) by (simp add: synced_def)
  note sub = synced_grow[OF assms(3) submit_live[OF assms(1,2) this] submit_grows[OF assms(1)]]
  show ?thesis unfolding process_turn_end_facts_def Let_def
    by (cases "w_poisoned w") (use assms(3) in \<open>simp add: synced_def\<close>, auto intro!: sub split: option.splits)
qed

text \<open>The events of a re-map witness the tracker it leaves.\<close>

lemma remap_witnessed:
  assumes "archive_contract sdk stored" "\<forall>b. hex_digest (blake3_hex env b)" "worker_inv stored w"
    "room_for (Suc (length items)) w" "remap_slice env sdk sid items w = (Inr events, w')"
    "witnessed (w_tracker w) K"
  shows "witnessed (w_tracker w') (K \<union> set (keys_of events))"
proof -
  have wK: "witnessed (w_tracker w) (K \<union> set (keys_of events))" by (rule witnessed_mono[OF assms(6)]) blast
  note room = assms(4)[unfolded room_for_def]
  from assms(5) show ?thesis
  proof (cases rule: remap_cases)
    case (full w1)
    have "tracker_le occurrence_tracker_new (w_tracker w)"
      by (simp add: tracker_le_def count_of_def occurrence_tracker_new_def)
    moreover have "\<forall>d. count_of occurrence_tracker_new d + length items < u64_max"
      using room by (auto simp: count_of_def occurrence_tracker_new_def elim: allE[of _ undefined])
    ultimately show ?thesis using full(2,3) history_witnessed[OF assms(2) wK, of occurrence_tracker_new sid items no_facts]
      by (auto simp: map_history_def)
  next
    case (skipped p p' seed head remainder out t)
    define its where "its = (if head then take 1 items else []) @ drop remainder items"
    have s: "tracker_le seed (w_tracker w)" using frozen_seed_le[OF assms(1,3) skipped(1,2)] by simp
    have "length its \<le> Suc (length items)" by (auto simp: its_def min_def)
    then have "\<forall>d. count_of seed d + length its < u64_max"
      using tracker_le_room[OF s room] by (meson add_left_mono le_less_trans)
    moreover have "events = fst (map_history_from env sid ITEM_KEY_GENERATION its no_facts seed) \<and>
        w_tracker w' = merge_monotonic (w_tracker w) (snd (map_history_from env sid ITEM_KEY_GENERATION its no_facts seed))"
      using skipped(3)[symmetric] skipped(4,5) by (cases head) (simp_all add: its_def history_append Let_def case_prod_unfold)
    ultimately show ?thesis using history_witnessed[OF assms(2) wK s, of sid its no_facts] by auto
  qed simp
qed

lemma remap_same:
  assumes "remap_slice env sdk sid items w = (r, w')"
  shows "w_session w' = w_session w" "w_deferred w' = w_deferred w" "r = Inl err \<Longrightarrow> w_tracker w' = w_tracker w"
  using assms by (cases rule: remap_cases; auto)+

lemma submit_same: "snd (submit_events sdk s evs) = snd (submit_mapped sdk s evs)"
  by (simp add: submit_mapped_def submit_events_def)

text \<open>The common part of a replaced history and of a bootstrap.\<close>

lemma remap_synced:
  assumes "archive_contract sdk stored" "accepts sdk" "\<forall>b. hex_digest (blake3_hex env b)" "worker_inv stored w"
    "room_for (Suc (length items)) w" "synced stored w" "remap_slice env sdk sid items w = (r, w')"
  shows "r = Inl err \<Longrightarrow> synced stored w'"
    "r = Inr events \<Longrightarrow> synced stored (w'\<lparr>w_session := snd (submit_mapped sdk (w_session w') events)\<rparr>)"
proof -
  note same = remap_same[OF assms(7)]
  show "synced stored w'" if "r = Inl err" using that assms(6) same by (simp add: synced_def)
  show "synced stored (w'\<lparr>w_session := snd (submit_mapped sdk (w_session w') events)\<rparr>)" if r: "r = Inr events"
  proof -
    have l: "live stored (w_session w')" "\<not> ls_capture_disabled (w_session w')"
      using assms(6) same by (simp_all add: synced_def live_def)
    from submit_accepted[OF assms(1,2) l(2), of events]
      remap_witnessed[OF assms(1,3-5) assms(7)[unfolded r]] submit_live[OF assms(1,2) l(1), of events]
    show ?thesis using assms(6) same by (simp add: synced_def)
  qed
qed

lemma replace_synced:
  assumes "archive_contract sdk stored" "accepts sdk" "\<forall>b. hex_digest (blake3_hex env b)" "worker_inv stored w"
    "room_for (Suc (length items)) w" "synced stored w"
  shows "synced stored (process_replace env sdk sid items w)"
proof -
  let ?o = "w\<lparr>w_open_calls := reset_from items\<rparr>"
  let ?w = "release_deferred sdk ?o"
  have "synced stored ?o" using assms(6) by (simp add: synced_def)
  then have w: "synced stored ?w" "worker_inv stored ?w" "room_for (Suc (length items)) ?w"
    using release_synced[OF assms(1,2)] release_inv(1)[OF assms(1), of ?o] assms(4,5) by (simp_all add: room_for_def)
  obtain r w' where rw: "remap_slice env sdk sid items ?w = (r, w')" by (meson surj_pair)
  have p: "synced stored (v\<lparr>w_poisoned := b\<rparr>) = synced stored v" for v :: "('b, 'a) worker" and b
    by (simp add: synced_def)
  show ?thesis using remap_synced[OF assms(1-3) w(2,3,1) rw] rw
    by (cases r) (simp_all add: process_replace_def Let_def p)
qed

lemma model_change_synced:
  assumes "archive_contract sdk stored" "accepts sdk" "synced stored w"
  shows "synced stored (process_model_change sdk sid pm nm pl nl w)"
proof -
  let ?m = "fst (map_model_change sid pm nm pl nl (ls_next_change_ordinal (w_session w)))"
  define s where "s = (if pm \<noteq> nm then set_serving_model (w_session w) nm else w_session w)"
  have sv: "ls_archive s = ls_archive (w_session w)" "live stored s"
    using assms(3) by (auto simp: s_def set_serving_model_def synced_def live_def tip_ok_def)
  have ord: "live stored (v\<lparr>ls_next_change_ordinal := n\<rparr>) = live stored v" for v :: "'a lhc_session" and n
    by (simp add: live_def tip_ok_def)
  note keep = synced_grow[OF assms(3), of v "w\<lparr>w_session := v\<rparr>" for v, simplified]
  obtain r s' where sub: "submit_mapped sdk s ?m = (r, s')" by (meson surj_pair)
  have s': "live stored s'" "set (stored_keys stored (ls_archive (w_session w))) \<subseteq> set (stored_keys stored (ls_archive s'))"
    using submit_live[OF assms(1,2) sv(2), of ?m] submit_accepted[OF assms(1,2), of s ?m] sv sub by (auto simp: live_def)
  show ?thesis
    unfolding process_model_change_def Let_def split_beta s_def[symmetric] sub
    using keep[of s'] keep[of s] keep[of "s'\<lparr>ls_next_change_ordinal := n\<rparr>" for n] sv s' assms(3)
    by (cases r) (simp_all add: ord)
qed

lemma cmd_synced:
  assumes "archive_contract sdk stored" "accepts sdk" "\<forall>b. hex_digest (blake3_hex env b)" "worker_inv stored w"
    "room_for (cmd_size cmd) w" "synced stored w"
  shows "synced stored (process_cmd env sdk sid w cmd)"
proof (cases cmd)
  case CompactThread
  then show ?thesis using assms(6) contract_compact[OF assms(1)]
    by (simp add: process_cmd_def synced_def live_def tip_ok_def)
next
  case (WritebackInstalled g)
  then show ?thesis using assms(6) by (simp add: process_cmd_def synced_def)
next
  case (Persist item usage identity)
  then show ?thesis using persist_synced[OF assms(1-3,6)] assms(5) by (simp add: process_cmd_def cmd_size_def)
next
  case (ReplaceHistory items)
  then show ?thesis using replace_synced[OF assms(1-4) _ assms(6)] assms(5) by (simp add: process_cmd_def cmd_size_def)
qed (use facts_synced[OF assms(1,2,6)] model_change_synced[OF assms(1,2,6)] release_synced[OF assms(1,2,6)] assms(6)
  in \<open>simp_all add: process_cmd_def\<close>)

lemma open_live:
  assumes "archive_contract sdk stored" "session_open sdk a m = Some (s, t)"
  shows "live stored s"
proof -
  obtain es where es: "sdk_list_events sdk a = Inr es" "ls_archive s = a" "\<not> ls_capture_disabled s"
    "ls_generation s = nat (max (case es of [] \<Rightarrow> 0 | _ \<Rightarrow> Max (set (map fst es))) 0)"
    using assms(2) by (auto simp: session_open_def seed_from_db_def Let_def split: sum.splits prod.splits)
  have st: "es = stored a" by (rule contract_list[OF assms(1) es(1)])
  have "tip_ok stored s"
  proof (cases "es = []")
    case False
    let ?l = "last (map fst es)"
    have "sorted_wrt (<) (butlast (map fst es) @ [?l])"
      using False contract_orders(1)[OF assms(1), of a] st by (metis append_butlast_last_id map_is_Nil_conv)
    then have "\<forall>x \<in> set (butlast (map fst es) @ [?l]). x \<le> ?l" by (auto simp: sorted_wrt_append intro: less_imp_le)
    then have "Max (set (map fst es)) = ?l"
      using False last_in_set[of "map fst es"] by (intro Max_eqI) (auto simp: append_butlast_last_id simp del: last_map last_in_set)
    moreover have "0 < fst (last es)" using contract_orders(2)[OF assms(1), of "last es" a] False st by simp
    moreover have "ls_generation s = nat (max (Max (set (map fst es))) 0)" using es(4) False by (simp split: list.splits)
    ultimately show ?thesis using es(2) False st by (simp add: tip_ok_def last_map)
  qed (use es st in \<open>simp add: tip_ok_def\<close>)
  then show ?thesis using es(3) by (simp add: live_def)
qed

lemma reach_synced:
  assumes "archive_contract sdk stored" "accepts sdk" "\<forall>b. hex_digest (blake3_hex env b)" "worker_reach env sdk sid w"
  shows "synced stored w"
  using assms(4)
proof (induction rule: worker_reach.induct)
  case (start a m sess t bootstrap generated w)
  have lt: "\<forall>d. count_of t d < u64_max" using start(2) by (meson add_lessD1)
  note oc = open_covered[OF assms(1) start(1) lt]
  let ?f = "fresh_worker env generated sess t"
  have f: "worker_inv stored ?f" using oc(1) by (auto simp: worker_inv_def fresh_worker_def installed_prefix_new_def)
  have "witnessed occurrence_tracker_new {}" by (simp add: witnessed_def count_of_def occurrence_tracker_new_def)
  from witnessed_seed[OF lt[unfolded oc(3) seed_eq] this] have "witnessed t (set (stored_keys stored a))"
    by (simp add: oc(3) seed_eq)
  then have sf: "synced stored ?f"
    using open_live[OF assms(1) start(1)] oc(2) by (simp add: synced_def fresh_worker_def)
  have room: "room_for (Suc (length bootstrap)) ?f" using start(2) by (simp add: room_for_def fresh_worker_def)
  have oc': "synced stored (v\<lparr>w_open_calls := x\<rparr>) = synced stored v" for v :: "('b, 'a) worker" and x
    by (simp add: synced_def)
  from start(1,3) show ?case
  proof (cases rule: start_cases)
    case (mapped events w1)
    then show ?thesis using remap_synced(2)[OF assms(1-3) f room sf mapped(1) refl] by (simp add: submit_same oc')
  next
    case (failed err w1)
    then show ?thesis using remap_synced(1)[OF assms(1-3) f room sf failed(1)] by (simp add: oc')
  qed (use sf in simp)
next
  case (command w cmd)
  then show ?case using cmd_synced[OF assms(1-3)] reach_inv[OF assms(1,3)] by blast
next
  case (poison w)
  then show ?case by (simp add: synced_def)
qed

section \<open>The body of a write-back\<close>

lemma walk_covers:
  assumes "\<forall>k < length body. item_digest env (native ! (i + k)) = item_digest env (body ! k)"
    "i + length body \<le> length native"
  shows "walk_loop env native i h (map (item_digest env) body) body = Covered h (i + length body)"
  using assms
proof (induction body arbitrary: i)
  case (Cons b body)
  have "item_digest env (native ! i) = item_digest env b" using Cons.prems(1)[rule_format, of 0] by simp
  moreover have "\<forall>k < length body. item_digest env (native ! (Suc i + k)) = item_digest env (body ! k)"
    using Cons.prems(1)[rule_format, of "Suc k" for k] by simp
  ultimately show ?case using Cons.IH[of "Suc i"] Cons.prems(2) by simp
qed simp

lemma walk_installed: "walk env (installed_prefix_new env \<lparr>gp_items = body, gp_source_tip = tip\<rparr>) (body @ its) = Covered False (length body)"
  using walk_covers[of body env "body @ its" 0] by (simp add: walk_def installed_prefix_new_def nth_append)

lemma run_extends:
  assumes "archive_contract sdk stored"
  shows "extends stored (w_session w) (w_session (worker_run env sdk sid (persist_all its) w))"
proof (induction its rule: rev_induct)
  case (snoc it its)
  obtain item usage identity where it: "it = (item, usage, identity)" by (cases it)
  have "worker_run env sdk sid (persist_all (its @ [it])) w =
      process_persist env sdk sid item usage identity (worker_run env sdk sid (persist_all its) w)"
    by (simp add: worker_run_def persist_all_def it process_cmd_def)
  with snoc persist_extends[OF assms] show ?case by (metis extends_trans)
qed (simp add: worker_run_def persist_all_def)

text \<open>The stored events up to the tip of a session are those it had then.\<close>

lemma up_to_tip:
  assumes "archive_contract sdk stored" "tip_ok stored s" "extends stored s s'"
  shows "filter (\<lambda>e. fst e \<le> int (ls_generation s)) (stored (ls_archive s')) = stored (ls_archive s)"
proof -
  obtain new where new: "stored (ls_archive s') = stored (ls_archive s) @ new" using assms(3) by (auto simp: extends_def)
  have tip: "int (ls_generation s) = (if stored (ls_archive s) = [] then 0 else fst (last (stored (ls_archive s))))"
    using assms(2) by (simp add: tip_ok_def)
  have "fst e \<le> int (ls_generation s)" if e: "e \<in> set (stored (ls_archive s))" for e
  proof -
    obtain pre where pre: "stored (ls_archive s) = pre @ [last (stored (ls_archive s))]"
      using e by (metis append_butlast_last_id empty_iff list.set(1))
    have "sorted_wrt (<) (map fst (pre @ [last (stored (ls_archive s))]))" using contract_orders(1)[OF assms(1), of "ls_archive s"] pre by simp
    moreover have "e \<in> set (pre @ [last (stored (ls_archive s))])" using e pre by simp
    ultimately have "fst e \<le> fst (last (stored (ls_archive s)))" by (auto simp: sorted_wrt_append)
    then show ?thesis using tip e by auto
  qed
  moreover have "int (ls_generation s) < fst e" if e: "e \<in> set new" for e
    using extends_tail[OF assms(1) new _ e] tip contract_orders(2)[OF assms(1), of e "ls_archive s'"] new e by auto
  ultimately show ?thesis by (auto simp: new filter_empty_conv not_le)
qed

text \<open>The stored keys of a synced worker give the counts of its tracker.\<close>

lemma seed_counts:
  assumes "worker_inv stored w" "synced stored w" "room_for 0 w"
  shows "count_of (seed_occurrence_from_keys (stored_keys stored (ls_archive (w_session w)))) d = count_of (w_tracker w) d"
proof (rule antisym)
  let ?keys = "stored_keys stored (ls_archive (w_session w))"
  show "count_of (seed_occurrence_from_keys ?keys) d \<le> count_of (w_tracker w) d"
    unfolding seed_eq
  proof (rule seed_bounded)
    fix key n
    assume "key \<in> set ?keys" "parse_item_key_digest_occ key = Some (d, n)"
    then have "n < count_of (w_tracker w) d" using assms(1) by (auto simp: worker_inv_def archive_covered_def covers_def)
    then show "sat_inc64 n \<le> count_of (w_tracker w) d" by (simp add: sat_inc64_def)
  qed (simp add: count_of_def occurrence_tracker_new_def)
  show "count_of (w_tracker w) d \<le> count_of (seed_occurrence_from_keys ?keys) d"
  proof (cases "0 < count_of (w_tracker w) d")
    case True
    have "witnessed (w_tracker w) (set ?keys)" using assms(2) by (simp add: synced_def)
    then obtain key where key: "key \<in> set ?keys" "parse_item_key_digest_occ key = Some (d, count_of (w_tracker w) d - 1)"
      using True unfolding witnessed_def by blast
    have "sat_inc64 (count_of (w_tracker w) d - 1) \<le> count_of (seed_occurrence_from_keys ?keys) d"
      unfolding seed_eq by (rule seed_covers[OF key])
    then show ?thesis using True assms(3)[unfolded room_for_def, rule_format, of d] by (simp add: sat_inc64_def)
  qed simp
qed

section \<open>Properties\<close>

text \<open>
  C29. A write-back is not recorded: when the body that was generated from the archive up to its tip is
  installed as the native history, and items said after it have been persisted and flushed, mapping the
  whole new history (the body and those items) again adds no event: the body is recognised and skipped, and the items
  after it get the keys they were recorded with.
\<close>

theorem writeback_not_recaptured:
  assumes "archive_contract sdk stored" "accepts sdk" "\<forall>a. \<exists>es. sdk_list_events sdk a = Inr es"
    "\<forall>b. hex_digest (blake3_hex env b)" "worker_reach env sdk sid w" "\<not> w_poisoned w" "room_for 0 w"
    "ls_generation (w_session w) \<le> 2 ^ 63 - 1"
    "w1 = worker_run env sdk sid
       (WritebackInstalled \<lparr>gp_items = body, gp_source_tip = ls_generation (w_session w)\<rparr> # persist_all its @ [Flush]) w"
    "w2 = process_cmd env sdk sid w1 (ReplaceHistory (body @ map fst its))"
  shows "stored (ls_archive (w_session w2)) = stored (ls_archive (w_session w1))"
proof -
  let ?p = "installed_prefix_new env \<lparr>gp_items = body, gp_source_tip = ls_generation (w_session w)\<rparr>"
  let ?w = "w\<lparr>w_installed := Some ?p\<rparr>"
  let ?run = "worker_run env sdk sid (persist_all its) ?w"
  let ?h = "\<lambda>t. map_history_from env sid ITEM_KEY_GENERATION (map fst its) no_facts t"
  have sy: "synced stored w" by (rule reach_synced[OF assms(1,2,4,5)])
  have en: "enabled ?w" "\<not> w_poisoned ?w" using sy assms(6) by (simp_all add: synced_def live_def)
  note p = persists_held[OF assms(1,2) en refl, of env sid its]
  have w1: "w1 = release_deferred sdk ?run" by (simp add: assms(9) worker_run_def process_cmd_def)
  have held: "set (keys_of (fst (?h (w_tracker w)))) \<subseteq> set (stored_keys stored (ls_archive (w_session w1)))"
    and ins: "w_installed w1 = Some ?p" and def: "w_deferred w1 = None"
    using release_accepted[OF assms(1,2), of ?run] p by (simp_all add: w1)
  have ext: "extends stored (w_session w) (w_session w1)"
    using run_extends[OF assms(1), of ?w env sid its] release_extends[OF assms(1), of ?run] w1 extends_trans by force
  let ?seed = "seed_occurrence_from_keys (stored_keys stored (ls_archive (w_session w)))"
  have fs: "frozen_seed sdk (w_session w1) ?p = (Inr ?seed, ?p\<lparr>ip_seed := Some ?seed\<rparr>)"
  proof -
    obtain es where es: "sdk_list_events sdk (ls_archive (w_session w1)) = Inr es" using assms(3) by blast
    have "tip_ok stored (w_session w)" using sy by (simp add: synced_def live_def)
    from up_to_tip[OF assms(1) this ext] contract_list[OF assms(1) es]
    have "filter (\<lambda>e. fst e \<le> int (ls_generation (w_session w))) es = stored (ls_archive (w_session w))" by simp
    then show ?thesis using es assms(8) by (simp add: frozen_seed_def installed_prefix_new_def Let_def)
  qed
  have "count_of ?seed d = count_of (w_tracker w) d" for d
    by (rule seed_counts[OF reach_inv[OF assms(1,4,5)] sy assms(7)])
  then have "map ev_key (fst (?h ?seed)) = map ev_key (fst (?h (w_tracker w)))"
    unfolding map_history_mint by (intro arg_cong[of _ _ "map Some"] mint_cong)
  then have keys: "keys_of (fst (?h ?seed)) = keys_of (fst (?h (w_tracker w)))"
    unfolding keys_of_def by (metis (no_types, lifting) list.map_comp map_eq_conv comp_apply)
  let ?o = "w1\<lparr>w_open_calls := reset_from (body @ map fst its)\<rparr>"
  have rel: "release_deferred sdk ?o = ?o" by (simp add: release_deferred_def def)
  obtain w3 where "remap_slice env sdk sid (body @ map fst its) ?o = (Inr (fst (?h ?seed)), w3)" "w_session w3 = w_session w1"
    using ins walk_installed[of env body _ "map fst its"] fs by (simp add: remap_slice_def Let_def split_beta)
  then show ?thesis using submit_nothing_new(2)[OF assms(1,2), of "fst (?h ?seed)" "w_session w1"] held keys
    by (simp add: assms(10) process_cmd_def process_replace_def rel)
qed

theorem writeback_not_recaptured_witness:
  "\<exists>w1 w2. w1 = worker_run demo_lhc demo_archive (lit ''s'')
       (WritebackInstalled \<lparr>gp_items = [demo_user CompactionMeta], gp_source_tip = 0\<rparr> #
        persist_all [(demo_user Human, None, None), (demo_answer, None, None)] @ [Flush]) demo_worker \<and>
     w2 = process_cmd demo_lhc demo_archive (lit ''s'') w1 (ReplaceHistory [demo_user CompactionMeta, demo_user Human, demo_answer]) \<and>
     demo_stored (ls_archive (w_session w2)) = demo_stored (ls_archive (w_session w1))"
  using writeback_not_recaptured[OF demo_contract demo_accepts _ demo_digests demo_reach demo_worker_sel(2) demo_room _ refl refl,
      of "[demo_user CompactionMeta]" "[(demo_user Human, None, None), (demo_answer, None, None)]"]
  by (simp add: demo_worker_sel u64_max_def) (simp add: demo_archive_def)

end
