(* ===== verification/Lhc_Registry.thy ===== *)
theory Lhc_Registry
  imports Lhc_Archive
begin

text \<open>
  The process-wide registry of capture workers, the handles that feed their queues
  (\<open>crates/lhc/grok-lhc-host/src/capture.rs\<close>), the samplers by session (\<open>inference.rs\<close>) and the tee that the
  chat persistence is wrapped in (\<open>tee.rs\<close>).

  A world holds what the process shares. A handle is the id of its worker; what the handle and the worker
  share is found under that id and stays there when the registry forgets it, as an \<open>Arc\<close> does. The operations
  interleave as the steps of \<open>lhc_step\<close>. A single access to an atomic or a channel, or one section under the registry's
  lock, is one step because the code runs it as one; \<open>spawn_capture_with_serving_model\<close>, \<open>shutdown_async\<close>, \<open>worker_exit\<close>
  and \<open>with_handle\<close> consist of several such accesses and are taken as one step in this theory. So the moments inside
  them are not states here, such as the one in which a worker that got no thread is still registered.
  \<open>Lhc_Tee\<close> takes them apart. A poisoned lock, a panic and the arms of the test builds are left out.
\<close>

section \<open>Shared state\<close>

definition CAPTURE_QUEUE_CAP :: usize where "CAPTURE_QUEUE_CAP = 1024"

datatype capture_open_state = OpenPending | OpenReady | OpenFailed

datatype 'x queue_cmd = Cmd "'x capture_cmd" | Shutdown

text \<open>Where the thread of a worker is; \<open>Gone\<close> once the receiver is dropped.\<close>

datatype phase = Opening | Running | Draining | Closing | Gone

record 'x spawn_args =
  sp_bootstrap :: "'x conversation_item list"
  sp_generated :: "'x generated_prefix option"
  sp_serving_model :: "ustr option"

record ('x, 'a) capture_shared =
  cs_session_id :: ustr
  cs_worker_id :: u64
  cs_queue :: "'x queue_cmd list"
  cs_shutdown :: bool
  cs_open_state :: capture_open_state
  cs_dropped :: u64
  cs_poisoned :: bool
  cs_phase :: phase
  cs_args :: "'x spawn_args"
  cs_worker :: "('x, 'a) worker option"

text \<open>What the last request of a session was served from; of \<open>serving.rs\<close>.\<close>

record last_serve_outcome =
  ls_substituted :: bool
  ls_reason :: "ustr option"

record ('x, 'a, 's) lhc_world =
  lw_registry :: "ustr \<rightharpoonup> u64"
  lw_shared :: "u64 \<rightharpoonup> ('x, 'a) capture_shared"
  lw_active :: usize
  lw_generation :: u64
  lw_next_worker :: u64
  lw_samplers :: "ustr \<rightharpoonup> 's"
  lw_last_serve :: "ustr \<rightharpoonup> last_serve_outcome"

definition lhc_world_init :: "('x, 'a, 's) lhc_world" where
  "lhc_world_init =
     \<lparr>lw_registry = Map.empty, lw_shared = Map.empty, lw_active = 0, lw_generation = 0, lw_next_worker = 1,
      lw_samplers = Map.empty, lw_last_serve = Map.empty\<rparr>"

section \<open>Handles\<close>

datatype send_result = Sent | Full | Closed

definition try_send :: "'x queue_cmd \<Rightarrow> ('x, 'a) capture_shared \<Rightarrow> send_result \<times> ('x, 'a) capture_shared" where
  "try_send cmd s =
     (if cs_phase s = Gone then (Closed, s)
      else if length (cs_queue s) \<ge> CAPTURE_QUEUE_CAP then (Full, s)
      else (Sent, s\<lparr>cs_queue := cs_queue s @ [cmd]\<rparr>))"

definition note_drop :: "('x, 'a) capture_shared \<Rightarrow> ('x, 'a) capture_shared" where
  "note_drop s = s\<lparr>cs_dropped := wrap_inc64 (cs_dropped s)\<rparr>"

definition persist_with_capture_facts ::
  "'x conversation_item \<Rightarrow> json_map option \<Rightarrow> host_assistant_identity option \<Rightarrow>
     ('x, 'a) capture_shared \<Rightarrow> ('x, 'a) capture_shared" where
  "persist_with_capture_facts item provider_usage identity s =
     (case try_send (Cmd (Persist item provider_usage identity)) s of
        (Sent, s) \<Rightarrow> s | (Full, s) \<Rightarrow> note_drop s | (Closed, s) \<Rightarrow> note_drop s)"

definition send_turn_end_facts :: "u64 \<Rightarrow> turn_end_facts \<Rightarrow> ('x, 'a) capture_shared \<Rightarrow> ('x, 'a) capture_shared" where
  "send_turn_end_facts turn_number facts s =
     (case try_send (Cmd (TurnEndFacts turn_number facts)) s of
        (Sent, s) \<Rightarrow> s | (Full, s) \<Rightarrow> note_drop s | (Closed, s) \<Rightarrow> note_drop s)"

definition replace_history :: "'x conversation_item list \<Rightarrow> ('x, 'a) capture_shared \<Rightarrow> ('x, 'a) capture_shared" where
  "replace_history items s =
     (case try_send (Cmd (ReplaceHistory items)) s of
        (Sent, s) \<Rightarrow> s
      | (Full, s) \<Rightarrow> note_drop (s\<lparr>cs_poisoned := True\<rparr>)
      | (Closed, s) \<Rightarrow> note_drop (s\<lparr>cs_poisoned := True\<rparr>))"

definition writeback_installed :: "'x conversation_item list \<Rightarrow> u64 \<Rightarrow> ('x, 'a) capture_shared \<Rightarrow> ('x, 'a) capture_shared" where
  "writeback_installed items source_tip s =
     (let generated = \<lparr>gp_items = items, gp_source_tip = source_tip\<rparr>
      in case try_send (Cmd (WritebackInstalled generated)) s of
           (Sent, s) \<Rightarrow> s
         | (Full, s) \<Rightarrow> note_drop (s\<lparr>cs_poisoned := True\<rparr>)
         | (Closed, s) \<Rightarrow> note_drop (s\<lparr>cs_poisoned := True\<rparr>))"

definition model_change :: "ustr \<Rightarrow> ustr \<Rightarrow> ustr \<Rightarrow> ustr \<Rightarrow> ('x, 'a) capture_shared \<Rightarrow> ('x, 'a) capture_shared" where
  "model_change previous_model new_model previous_level new_level s =
     (case try_send (Cmd (ModelChange previous_model new_model previous_level new_level)) s of
        (Sent, s) \<Rightarrow> s | (Full, s) \<Rightarrow> note_drop s | (Closed, s) \<Rightarrow> note_drop s)"

definition flush_async :: "('x, 'a) capture_shared \<Rightarrow> ('x, 'a) capture_shared" where
  "flush_async s = snd (try_send (Cmd Flush) s)"

definition is_closed :: "('x, 'a) capture_shared \<Rightarrow> bool" where
  "is_closed s \<longleftrightarrow> cs_phase s = Gone"

definition is_archive_ready :: "('x, 'a) capture_shared \<Rightarrow> bool" where
  "is_archive_ready s \<longleftrightarrow> cs_open_state s = OpenReady"

definition queue_depth :: "('x, 'a) capture_shared \<Rightarrow> usize" where
  "queue_depth s = CAPTURE_QUEUE_CAP - (CAPTURE_QUEUE_CAP - length (cs_queue s))"

section \<open>Registry\<close>

definition next_worker_id :: "('x, 'a, 's) lhc_world \<Rightarrow> u64 \<times> ('x, 'a, 's) lhc_world" where
  "next_worker_id w = (lw_next_worker w, w\<lparr>lw_next_worker := wrap_inc64 (lw_next_worker w)\<rparr>)"

definition try_register_session :: "ustr \<Rightarrow> ('x, 'a) capture_shared \<Rightarrow> ('x, 'a, 's) lhc_world \<Rightarrow> bool \<times> ('x, 'a, 's) lhc_world" where
  "try_register_session session_id shared w =
     (if lw_registry w session_id \<noteq> None then (False, w)
      else (True, w\<lparr>lw_registry := (lw_registry w)(session_id \<mapsto> cs_worker_id shared),
                   lw_shared := (lw_shared w)(cs_worker_id shared \<mapsto> shared),
                   lw_active := lw_active w + 1, lw_generation := wrap_inc64 (lw_generation w)\<rparr>))"

definition unregister_worker :: "ustr \<Rightarrow> u64 \<Rightarrow> ('x, 'a, 's) lhc_world \<Rightarrow> ('x, 'a, 's) lhc_world" where
  "unregister_worker session_id worker_id w =
     (if lw_registry w session_id = Some worker_id
      then w\<lparr>lw_registry := (lw_registry w)(session_id := None), lw_active := lw_active w - 1,
             lw_generation := wrap_inc64 (lw_generation w)\<rparr>
      else w)"

record registry_snapshot =
  rs_generation :: u64
  rs_handle :: "u64 option"

definition lookup_session_snapshot :: "ustr \<Rightarrow> ('x, 'a, 's) lhc_world \<Rightarrow> registry_snapshot" where
  "lookup_session_snapshot session_id w = \<lparr>rs_generation = lw_generation w, rs_handle = lw_registry w session_id\<rparr>"

definition lookup_session :: "ustr \<Rightarrow> ('x, 'a, 's) lhc_world \<Rightarrow> u64 option" where
  "lookup_session session_id w = rs_handle (lookup_session_snapshot session_id w)"

definition is_session_registered :: "ustr \<Rightarrow> ('x, 'a, 's) lhc_world \<Rightarrow> bool" where
  "is_session_registered session_id w \<longleftrightarrow> lookup_session session_id w \<noteq> None"

definition any_capture_active :: "('x, 'a, 's) lhc_world \<Rightarrow> bool" where
  "any_capture_active w \<longleftrightarrow> lw_active w > 0"

definition capture_active :: "ustr \<Rightarrow> ('x, 'a, 's) lhc_world \<Rightarrow> bool" where
  "capture_active session_id w = (if \<not> any_capture_active w then False else is_session_registered session_id w)"

definition register_inference_sampler :: "ustr \<Rightarrow> 's \<Rightarrow> ('x, 'a, 's) lhc_world \<Rightarrow> ('x, 'a, 's) lhc_world" where
  "register_inference_sampler session_id sampler w = w\<lparr>lw_samplers := (lw_samplers w)(session_id \<mapsto> sampler)\<rparr>"

definition unregister_inference_sampler :: "ustr \<Rightarrow> ('x, 'a, 's) lhc_world \<Rightarrow> ('x, 'a, 's) lhc_world" where
  "unregister_inference_sampler session_id w = w\<lparr>lw_samplers := (lw_samplers w)(session_id := None)\<rparr>"

definition inference_sampler_registered :: "ustr \<Rightarrow> ('x, 'a, 's) lhc_world \<Rightarrow> bool" where
  "inference_sampler_registered session_id w \<longleftrightarrow> lw_samplers w session_id \<noteq> None"

text \<open>An operation of the handle with id \<open>i\<close>.\<close>

definition on_handle :: "u64 \<Rightarrow> (('x, 'a) capture_shared \<Rightarrow> ('x, 'a) capture_shared) \<Rightarrow> ('x, 'a, 's) lhc_world \<Rightarrow> ('x, 'a, 's) lhc_world" where
  "on_handle i f w = (case lw_shared w i of None \<Rightarrow> w | Some s \<Rightarrow> w\<lparr>lw_shared := (lw_shared w)(i \<mapsto> f s)\<rparr>)"

definition shutdown_async :: "u64 \<Rightarrow> ('x, 'a, 's) lhc_world \<Rightarrow> ('x, 'a, 's) lhc_world" where
  "shutdown_async i w =
     (case lw_shared w i of
        None \<Rightarrow> w
      | Some s \<Rightarrow>
          on_handle i (\<lambda>s. snd (try_send Shutdown (s\<lparr>cs_shutdown := True\<rparr>)))
            (unregister_worker (cs_session_id s) (cs_worker_id s) w))"

definition clear_last_serve_outcome :: "ustr \<Rightarrow> ('x, 'a, 's) lhc_world \<Rightarrow> ('x, 'a, 's) lhc_world" where
  "clear_last_serve_outcome session_id w = w\<lparr>lw_last_serve := (lw_last_serve w)(session_id := None)\<rparr>"

definition shutdown_session :: "ustr \<Rightarrow> ('x, 'a, 's) lhc_world \<Rightarrow> ('x, 'a, 's) lhc_world" where
  "shutdown_session session_id w =
     (let w = clear_last_serve_outcome session_id w
      in case lookup_session session_id w of Some handle \<Rightarrow> shutdown_async handle w | None \<Rightarrow> w)"

text \<open>\<open>thread_ok\<close> says whether the operating system gave a thread.\<close>

definition spawn_capture_with_serving_model ::
  "bool \<Rightarrow> ustr \<Rightarrow> 'x conversation_item list \<Rightarrow> 'x generated_prefix option \<Rightarrow> 's option \<Rightarrow> ustr option \<Rightarrow>
     ('x, 'a, 's) lhc_world \<Rightarrow> u64 option \<times> ('x, 'a, 's) lhc_world" where
  "spawn_capture_with_serving_model thread_ok session_id bootstrap generated sampler serving_model w =
     (let model = non_empty (map_option trim serving_model);
          w = (case sampler of Some s \<Rightarrow> register_inference_sampler session_id s w | None \<Rightarrow> w);
          (worker_id, w) = next_worker_id w;
          shared = \<lparr>cs_session_id = session_id, cs_worker_id = worker_id, cs_queue = [], cs_shutdown = False,
                    cs_open_state = OpenPending, cs_dropped = 0, cs_poisoned = False, cs_phase = Opening,
                    cs_args = \<lparr>sp_bootstrap = bootstrap, sp_generated = generated, sp_serving_model = model\<rparr>,
                    cs_worker = None\<rparr>;
          (registered, w) = try_register_session session_id shared w
      in if \<not> registered then (lookup_session session_id w, w)
         else if \<not> thread_ok then (None, on_handle worker_id (\<lambda>s. s\<lparr>cs_phase := Gone\<rparr>) (unregister_worker session_id worker_id w))
         else (Some worker_id, w))"

section \<open>Worker threads\<close>

text \<open>One command, with the flags the handle shares with the worker.\<close>

definition run_cmd :: "'x lhc_env \<Rightarrow> 'a sdk \<Rightarrow> 'x capture_cmd \<Rightarrow> ('x, 'a) capture_shared \<Rightarrow> ('x, 'a) capture_shared" where
  "run_cmd env sdk cmd s =
     (case cs_worker s of
        None \<Rightarrow> s
      | Some wk \<Rightarrow>
          (let wk = process_cmd env sdk (cs_session_id s) (wk\<lparr>w_poisoned := cs_poisoned s, w_dropped := cs_dropped s\<rparr>) cmd
           in s\<lparr>cs_worker := Some wk, cs_poisoned := w_poisoned wk, cs_dropped := w_dropped wk\<rparr>))"

text \<open>The archive that was found for the session, if any, is opened; a refusal ends the thread.\<close>

definition worker_open :: "'x lhc_env \<Rightarrow> 'a sdk \<Rightarrow> 'a option \<Rightarrow> ('x, 'a) capture_shared \<Rightarrow> ('x, 'a) capture_shared" where
  "worker_open env sdk archive s =
     (let args = cs_args s;
          opened = (case archive of
                      None \<Rightarrow> None
                    | Some a \<Rightarrow> worker_start env sdk (cs_session_id s) a (sp_serving_model args) (sp_generated args) (sp_bootstrap args))
      in case opened of
           None \<Rightarrow> s\<lparr>cs_open_state := OpenFailed, cs_phase := Closing\<rparr>
         | Some wk \<Rightarrow> s\<lparr>cs_open_state := OpenReady, cs_phase := Running, cs_worker := Some wk\<rparr>)"

text \<open>The arms of the loop: the next command, and the shutdown signal.\<close>

definition worker_recv :: "'x lhc_env \<Rightarrow> 'a sdk \<Rightarrow> ('x, 'a) capture_shared \<Rightarrow> ('x, 'a) capture_shared" where
  "worker_recv env sdk s =
     (case cs_queue s of
        [] \<Rightarrow> s
      | Shutdown # q \<Rightarrow> s\<lparr>cs_queue := q, cs_phase := Draining\<rparr>
      | Cmd cmd # q \<Rightarrow> run_cmd env sdk cmd (s\<lparr>cs_queue := q\<rparr>))"

definition worker_signal :: "('x, 'a) capture_shared \<Rightarrow> ('x, 'a) capture_shared" where
  "worker_signal s = (if cs_shutdown s then s\<lparr>cs_phase := Draining\<rparr> else s)"

text \<open>
  What is still queued is processed, then a deferred close is submitted and the session is closed. Its last
  state stays readable here.
\<close>

definition worker_drain :: "'x lhc_env \<Rightarrow> 'a sdk \<Rightarrow> ('x, 'a) capture_shared \<Rightarrow> ('x, 'a) capture_shared" where
  "worker_drain env sdk s =
     (case cs_queue s of
        [] \<Rightarrow> s\<lparr>cs_worker := map_option (release_deferred sdk) (cs_worker s), cs_phase := Closing\<rparr>
      | Shutdown # q \<Rightarrow> s\<lparr>cs_queue := q\<rparr>
      | Cmd cmd # q \<Rightarrow> run_cmd env sdk cmd (s\<lparr>cs_queue := q\<rparr>))"

definition worker_exit :: "u64 \<Rightarrow> ('x, 'a, 's) lhc_world \<Rightarrow> ('x, 'a, 's) lhc_world" where
  "worker_exit i w =
     (case lw_shared w i of
        None \<Rightarrow> w
      | Some s \<Rightarrow>
          (let w = unregister_inference_sampler (cs_session_id s) w;
               w = unregister_worker (cs_session_id s) (cs_worker_id s) w
           in on_handle i (\<lambda>s. s\<lparr>cs_phase := Gone\<rparr>) w))"

section \<open>Steps of the process\<close>

inductive handle_op :: "(('x, 'a) capture_shared \<Rightarrow> ('x, 'a) capture_shared) \<Rightarrow> bool" where
  "handle_op (persist_with_capture_facts item usage identity)"
| "handle_op (send_turn_end_facts n facts)"
| "handle_op (replace_history items)"
| "handle_op (writeback_installed items tip)"
| "handle_op (model_change pm nm pl nl)"
| "handle_op flush_async"

text \<open>The counters of the registry are not about to wrap around.\<close>

definition counters_low :: "('x, 'a, 's) lhc_world \<Rightarrow> bool" where
  "counters_low w \<longleftrightarrow> lw_generation w + 2 < u64_max \<and> lw_next_worker w < u64_max"

inductive lhc_step :: "'x lhc_env \<Rightarrow> 'a sdk \<Rightarrow> ('x, 'a, 's) lhc_world \<Rightarrow> ('x, 'a, 's) lhc_world \<Rightarrow> bool" for env sdk where
  spawn: "counters_low w \<Longrightarrow> lhc_step env sdk w (snd (spawn_capture_with_serving_model ok sid bootstrap generated sampler model w))"
| handle: "handle_op f \<Longrightarrow> lhc_step env sdk w (on_handle i f w)"
| shutdown: "counters_low w \<Longrightarrow> lhc_step env sdk w (shutdown_async i w)"
| forget: "lhc_step env sdk w (clear_last_serve_outcome sid w)"
| opened: "lw_shared w i = Some s \<Longrightarrow> cs_phase s = Opening \<Longrightarrow> lhc_step env sdk w (on_handle i (worker_open env sdk a) w)"
| recv: "lw_shared w i = Some s \<Longrightarrow> cs_phase s = Running \<Longrightarrow> lhc_step env sdk w (on_handle i (worker_recv env sdk) w)"
| signal: "lw_shared w i = Some s \<Longrightarrow> cs_phase s = Running \<Longrightarrow> lhc_step env sdk w (on_handle i worker_signal w)"
| drain: "lw_shared w i = Some s \<Longrightarrow> cs_phase s = Draining \<Longrightarrow> lhc_step env sdk w (on_handle i (worker_drain env sdk) w)"
| exit: "lw_shared w i = Some s \<Longrightarrow> cs_phase s = Closing \<Longrightarrow> counters_low w \<Longrightarrow> lhc_step env sdk w (worker_exit i w)"

inductive lhc_reach :: "'x lhc_env \<Rightarrow> 'a sdk \<Rightarrow> ('x, 'a, 's) lhc_world \<Rightarrow> bool" for env sdk where
  init: "lhc_reach env sdk lhc_world_init"
| step: "lhc_reach env sdk w \<Longrightarrow> lhc_step env sdk w w' \<Longrightarrow> lhc_reach env sdk w'"

section \<open>Tee\<close>

text \<open>What the tee asks of the persistence it wraps.\<close>

datatype 'x inner_call =
    InnerPersist "'x conversation_item"
  | InnerSwitch "'x conversation_item"
  | InnerReplace "'x conversation_item list"
  | InnerStrip "'x conversation_item list"
  | InnerFlush

record 'x tee =
  te_session_id :: ustr
  te_cached :: registry_snapshot
  te_inner :: "'x inner_call list"

definition refresh_binding :: "('x, 'a, 's) lhc_world \<Rightarrow> 'x tee \<Rightarrow> 'x tee" where
  "refresh_binding w t = t\<lparr>te_cached := lookup_session_snapshot (te_session_id t) w\<rparr>"

definition with_handle ::
  "(('x, 'a) capture_shared \<Rightarrow> ('x, 'a) capture_shared) \<Rightarrow> 'x tee \<Rightarrow> ('x, 'a, 's) lhc_world \<Rightarrow> 'x tee \<times> ('x, 'a, 's) lhc_world" where
  "with_handle f t w =
     (let current = lw_generation w;
          t = (if rs_generation (te_cached t) \<noteq> current then refresh_binding w t else t)
      in case rs_handle (te_cached t) of
           None \<Rightarrow> (t, w)
         | Some handle \<Rightarrow>
             (case lw_shared w handle of
                None \<Rightarrow> (t, w)
              | Some s \<Rightarrow> if is_closed s then (t, w) else (t, on_handle handle f w)))"

definition inner :: "'x inner_call \<Rightarrow> 'x tee \<times> ('x, 'a, 's) lhc_world \<Rightarrow> 'x tee \<times> ('x, 'a, 's) lhc_world" where
  "inner call tw = ((fst tw)\<lparr>te_inner := te_inner (fst tw) @ [call]\<rparr>, snd tw)"

definition persist_message_with_provider_usage ::
  "'x conversation_item \<Rightarrow> json_map option \<Rightarrow> host_assistant_identity option \<Rightarrow> 'x tee \<Rightarrow> ('x, 'a, 's) lhc_world \<Rightarrow>
     'x tee \<times> ('x, 'a, 's) lhc_world" where
  "persist_message_with_provider_usage item usage identity t w =
     inner (InnerPersist item) (with_handle (persist_with_capture_facts item usage identity) t w)"

definition persist_working_directory_switch_and_ack ::
  "'x conversation_item \<Rightarrow> 'x tee \<Rightarrow> ('x, 'a, 's) lhc_world \<Rightarrow> 'x tee \<times> ('x, 'a, 's) lhc_world" where
  "persist_working_directory_switch_and_ack item t w =
     inner (InnerSwitch item) (with_handle (persist_with_capture_facts item None None) t w)"

definition tee_replace_history ::
  "'x conversation_item list \<Rightarrow> 'x tee \<Rightarrow> ('x, 'a, 's) lhc_world \<Rightarrow> 'x tee \<times> ('x, 'a, 's) lhc_world" where
  "tee_replace_history items t w = inner (InnerReplace items) (with_handle (replace_history items) t w)"

definition replace_history_for_lhc_writeback ::
  "'x conversation_item list \<Rightarrow> u64 \<Rightarrow> 'x tee \<Rightarrow> ('x, 'a, 's) lhc_world \<Rightarrow> 'x tee \<times> ('x, 'a, 's) lhc_world" where
  "replace_history_for_lhc_writeback items source_tip t w =
     inner (InnerReplace items) (with_handle (writeback_installed items source_tip) t w)"

definition replace_history_for_strip_and_ack ::
  "'x conversation_item list \<Rightarrow> 'x tee \<Rightarrow> ('x, 'a, 's) lhc_world \<Rightarrow> 'x tee \<times> ('x, 'a, 's) lhc_world" where
  "replace_history_for_strip_and_ack items t w = inner (InnerStrip items) (t, w)"

definition tee_flush :: "'x tee \<Rightarrow> ('x, 'a, 's) lhc_world \<Rightarrow> 'x tee \<times> ('x, 'a, 's) lhc_world" where
  "tee_flush t w = inner InnerFlush (with_handle flush_async t w)"

definition tee_drop :: "'x tee \<Rightarrow> ('x, 'a, 's) lhc_world \<Rightarrow> ('x, 'a, 's) lhc_world" where
  "tee_drop t w =
     (let w = clear_last_serve_outcome (te_session_id t) w
      in case rs_handle (lookup_session_snapshot (te_session_id t) w) of
           None \<Rightarrow> w
         | Some handle \<Rightarrow>
             (case lw_shared w handle of
                None \<Rightarrow> w
              | Some s \<Rightarrow> if is_closed s then w else shutdown_async handle w))"

definition tee_chat_persistence_with_serving_model ::
  "bool \<Rightarrow> bool \<Rightarrow> ustr \<Rightarrow> 'x conversation_item list \<Rightarrow> 'x generated_prefix option \<Rightarrow> 's option \<Rightarrow> ustr option \<Rightarrow>
     ('x, 'a, 's) lhc_world \<Rightarrow> 'x tee \<times> ('x, 'a, 's) lhc_world" where
  "tee_chat_persistence_with_serving_model on thread_ok session_id bootstrap generated sampler serving_model w =
     (let w = (if on
               then snd (spawn_capture_with_serving_model thread_ok session_id bootstrap generated sampler serving_model w)
               else w)
      in (\<lparr>te_session_id = session_id, te_cached = lookup_session_snapshot session_id w, te_inner = []\<rparr>, w))"

inductive tee_op :: "('x tee \<Rightarrow> ('x, 'a, 's) lhc_world \<Rightarrow> 'x tee \<times> ('x, 'a, 's) lhc_world) \<Rightarrow> bool" where
  "tee_op (persist_message_with_provider_usage item usage identity)"
| "tee_op (persist_working_directory_switch_and_ack item)"
| "tee_op (tee_replace_history items)"
| "tee_op (replace_history_for_lhc_writeback items tip)"
| "tee_op (replace_history_for_strip_and_ack items)"
| "tee_op tee_flush"

text \<open>A tee and the world around it: the tee is used while other parts of the process take steps.\<close>

inductive tee_reach :: "'x lhc_env \<Rightarrow> 'a sdk \<Rightarrow> 'x tee \<Rightarrow> ('x, 'a, 's) lhc_world \<Rightarrow> bool" for env sdk where
  new: "lhc_reach env sdk w \<Longrightarrow> counters_low w \<Longrightarrow>
    tee_chat_persistence_with_serving_model on ok sid bootstrap generated sampler model w = (t, w') \<Longrightarrow> tee_reach env sdk t w'"
| other: "tee_reach env sdk t w \<Longrightarrow> lhc_step env sdk w w' \<Longrightarrow> tee_reach env sdk t w'"
| op: "tee_reach env sdk t w \<Longrightarrow> tee_op f \<Longrightarrow> f t w = (t', w') \<Longrightarrow> tee_reach env sdk t' w'"

section \<open>The registry is exact\<close>

definition reg_inv :: "('x, 'a, 's) lhc_world \<Rightarrow> bool" where
  "reg_inv w \<longleftrightarrow>
     finite (dom (lw_registry w)) \<and> lw_active w = card (dom (lw_registry w)) \<and>
     (\<forall>sid i. lw_registry w sid = Some i \<longrightarrow> (\<exists>s. lw_shared w i = Some s \<and> cs_session_id s = sid \<and> cs_phase s \<noteq> Gone)) \<and>
     (\<forall>i s. lw_shared w i = Some s \<longrightarrow> cs_worker_id s = i \<and> i < lw_next_worker w \<and> length (cs_queue s) \<le> CAPTURE_QUEUE_CAP)"

lemma reg_invI:
  assumes "finite (dom (lw_registry w))" "lw_active w = card (dom (lw_registry w))"
    "\<And>sid i. lw_registry w sid = Some i \<Longrightarrow> \<exists>s. lw_shared w i = Some s \<and> cs_session_id s = sid \<and> cs_phase s \<noteq> Gone"
    "\<And>i s. lw_shared w i = Some s \<Longrightarrow> cs_worker_id s = i \<and> i < lw_next_worker w \<and> length (cs_queue s) \<le> CAPTURE_QUEUE_CAP"
  shows "reg_inv w"
  using assms unfolding reg_inv_def by blast

lemma reg_invD:
  assumes "reg_inv w"
  shows "finite (dom (lw_registry w))" "lw_active w = card (dom (lw_registry w))"
    "lw_registry w sid = Some i \<Longrightarrow> \<exists>s. lw_shared w i = Some s \<and> cs_session_id s = sid \<and> cs_phase s \<noteq> Gone"
    "lw_shared w i = Some s \<Longrightarrow> cs_worker_id s = i \<and> i < lw_next_worker w \<and> length (cs_queue s) \<le> CAPTURE_QUEUE_CAP"
  using assms unfolding reg_inv_def by blast+

text \<open>What an operation on the state of one worker must keep.\<close>

definition tame :: "('x, 'a) capture_shared \<Rightarrow> ('x, 'a) capture_shared \<Rightarrow> bool" where
  "tame s s' \<longleftrightarrow> cs_session_id s' = cs_session_id s \<and> cs_worker_id s' = cs_worker_id s \<and>
     (length (cs_queue s) \<le> CAPTURE_QUEUE_CAP \<longrightarrow> length (cs_queue s') \<le> CAPTURE_QUEUE_CAP)"

lemma on_handle_sel [simp]:
  "lw_registry (on_handle i f w) = lw_registry w" "lw_active (on_handle i f w) = lw_active w"
  "lw_generation (on_handle i f w) = lw_generation w" "lw_next_worker (on_handle i f w) = lw_next_worker w"
  "lw_samplers (on_handle i f w) = lw_samplers w"
  by (simp_all add: on_handle_def split: option.splits)

lemma on_handle_shared: "lw_shared (on_handle i f w) j = (if j = i then map_option f (lw_shared w i) else lw_shared w j)"
  by (auto simp: on_handle_def split: option.splits)

lemma on_handle_inv:
  assumes "reg_inv w" "\<And>s. lw_shared w i = Some s \<Longrightarrow> tame s (f s)"
    "\<And>s sid. lw_shared w i = Some s \<Longrightarrow> lw_registry w sid = Some i \<Longrightarrow> cs_phase s \<noteq> Gone \<Longrightarrow> cs_phase (f s) \<noteq> Gone"
  shows "reg_inv (on_handle i f w)"
proof (rule reg_invI)
  fix sid j
  assume "lw_registry (on_handle i f w) sid = Some j"
  then have r: "lw_registry w sid = Some j" by simp
  then show "\<exists>s. lw_shared (on_handle i f w) j = Some s \<and> cs_session_id s = sid \<and> cs_phase s \<noteq> Gone"
    using reg_invD(3)[OF assms(1) r] assms(2,3) unfolding tame_def on_handle_shared by (cases "j = i") auto
next
  fix j s
  assume "lw_shared (on_handle i f w) j = Some s"
  then show "cs_worker_id s = j \<and> j < lw_next_worker (on_handle i f w) \<and> length (cs_queue s) \<le> CAPTURE_QUEUE_CAP"
    using reg_invD(4)[OF assms(1), of j] assms(2) unfolding tame_def on_handle_shared by (cases "j = i") auto
qed (use reg_invD(1,2)[OF assms(1)] in simp_all)

lemma unregister_inv:
  assumes "reg_inv w"
  shows "reg_inv (unregister_worker sid i w)"
proof (cases "lw_registry w sid = Some i")
  case True
  then have "card (dom (lw_registry w) - {sid}) = lw_active w - 1"
    using reg_invD(1,2)[OF assms] by (simp add: card_Diff_singleton domI)
  with True show ?thesis using reg_invD[OF assms]
    by (intro reg_invI) (auto simp: unregister_worker_def split: if_splits)
qed (use assms in \<open>simp add: unregister_worker_def\<close>)

lemma unregister_sel [simp]:
  "lw_shared (unregister_worker sid i w) = lw_shared w" "lw_next_worker (unregister_worker sid i w) = lw_next_worker w"
  "lw_samplers (unregister_worker sid i w) = lw_samplers w"
  "lw_registry (unregister_worker sid i w) sid \<noteq> Some i"
  "sid' \<noteq> sid \<Longrightarrow> lw_registry (unregister_worker sid i w) sid' = lw_registry w sid'"
  by (simp_all add: unregister_worker_def)

lemmas handle_op_defs = persist_with_capture_facts_def send_turn_end_facts_def replace_history_def writeback_installed_def
  model_change_def flush_async_def try_send_def note_drop_def

lemma try_send_tame: "tame s (snd (try_send c s))" "cs_phase (snd (try_send c s)) = cs_phase s"
  by (simp_all add: try_send_def tame_def)

lemma handle_op_tame: "handle_op f \<Longrightarrow> tame s (f s) \<and> cs_phase (f s) = cs_phase s"
  by (induction rule: handle_op.induct) (simp_all add: handle_op_defs tame_def Let_def)

lemma run_cmd_tame: "tame s (run_cmd env sdk c s) \<and> cs_phase (run_cmd env sdk c s) = cs_phase s"
  by (simp add: run_cmd_def tame_def Let_def split: option.splits)

lemma worker_tame:
  "tame s (worker_open env sdk a s)" "cs_phase (worker_open env sdk a s) \<noteq> Gone"
  "tame s (worker_recv env sdk s)" "cs_phase s \<noteq> Gone \<Longrightarrow> cs_phase (worker_recv env sdk s) \<noteq> Gone"
  "tame s (worker_signal s)" "cs_phase s \<noteq> Gone \<Longrightarrow> cs_phase (worker_signal s) \<noteq> Gone"
  "tame s (worker_drain env sdk s)" "cs_phase s \<noteq> Gone \<Longrightarrow> cs_phase (worker_drain env sdk s) \<noteq> Gone"
  using run_cmd_tame[of "s\<lparr>cs_queue := q\<rparr>" env sdk c for q c]
  by (auto simp: worker_open_def worker_recv_def worker_signal_def worker_drain_def tame_def Let_def
      split: option.splits list.splits queue_cmd.splits)

text \<open>A worker that is unregistered may go.\<close>

lemma gone_inv:
  assumes "reg_inv w" "lw_shared w i = Some s" "cs_session_id s = sid"
  shows "reg_inv (on_handle i (\<lambda>s. s\<lparr>cs_phase := Gone\<rparr>) (unregister_worker sid i w))"
proof (rule on_handle_inv[OF unregister_inv[OF assms(1)]])
  fix t sid'
  assume r: "lw_registry (unregister_worker sid i w) sid' = Some i"
  then have "sid' = sid" using reg_invD(3)[OF unregister_inv[OF assms(1)] r] assms(2,3) by auto
  with r show "cs_phase (t\<lparr>cs_phase := Gone\<rparr>) \<noteq> Gone" by simp
qed (simp add: tame_def)

lemma exit_inv:
  assumes "reg_inv w" "lw_shared w i = Some s"
  shows "reg_inv (worker_exit i w)"
proof -
  have "reg_inv (unregister_inference_sampler (cs_session_id s) w)"
    using assms(1) by (simp add: reg_inv_def unregister_inference_sampler_def)
  from gone_inv[OF this, of i s "cs_session_id s"] show ?thesis using assms(2) reg_invD(4)[OF assms]
    by (simp add: worker_exit_def Let_def unregister_inference_sampler_def)
qed

lemma shutdown_inv:
  assumes "reg_inv w"
  shows "reg_inv (shutdown_async i w)"
proof (cases "lw_shared w i")
  case (Some s)
  have "reg_inv (on_handle i (\<lambda>s. snd (try_send Shutdown (s\<lparr>cs_shutdown := True\<rparr>))) (unregister_worker (cs_session_id s) (cs_worker_id s) w))"
    by (intro on_handle_inv unregister_inv assms) (auto simp: try_send_def tame_def)
  then show ?thesis using Some by (simp add: shutdown_async_def)
qed (use assms in \<open>simp add: shutdown_async_def\<close>)

lemma register_inv:
  assumes "reg_inv w" "lw_shared w (cs_worker_id shared) = None" "cs_worker_id shared < lw_next_worker w" "cs_queue shared = []"
    "cs_session_id shared = sid" "cs_phase shared \<noteq> Gone"
  shows "reg_inv (snd (try_register_session sid shared w))"
proof (cases "lw_registry w sid = None")
  case True
  then have "card (insert sid (dom (lw_registry w))) = lw_active w + 1"
    using reg_invD(1,2)[OF assms(1)] by (simp add: card_insert_disjoint domIff)
  moreover have "lw_registry w x \<noteq> Some (cs_worker_id shared)" for x using reg_invD(3)[OF assms(1)] assms(2) by fastforce
  ultimately show ?thesis using True assms(3-6) reg_invD[OF assms(1)]
    by (intro reg_invI) (auto simp: try_register_session_def split: if_splits)
qed (use assms(1) in \<open>simp add: try_register_session_def\<close>)

lemma spawn_inv:
  assumes "reg_inv w" "counters_low w"
  shows "reg_inv (snd (spawn_capture_with_serving_model ok sid bootstrap generated sampler model w))"
proof -
  define w1 where "w1 = snd (next_worker_id (case sampler of Some s \<Rightarrow> register_inference_sampler sid s w | None \<Rightarrow> w))"
  let ?i = "lw_next_worker w"
  have w1: "lw_registry w1 = lw_registry w" "lw_shared w1 = lw_shared w" "lw_active w1 = lw_active w" "lw_next_worker w1 = ?i + 1"
    using assms(2) by (auto simp: w1_def next_worker_id_def register_inference_sampler_def counters_low_def wrap_inc64_small
        split: option.splits)
  have inv1: "reg_inv w1" using assms(1) w1 unfolding reg_inv_def by fastforce
  have none: "lw_shared w1 ?i = None" using reg_invD(4)[OF assms(1), of ?i] w1(2) by fastforce
  define sh where "sh = \<lparr>cs_session_id = sid, cs_worker_id = ?i, cs_queue = [], cs_shutdown = False,
      cs_open_state = OpenPending, cs_dropped = 0, cs_poisoned = False, cs_phase = Opening,
      cs_args = \<lparr>sp_bootstrap = bootstrap, sp_generated = generated, sp_serving_model = non_empty (map_option trim model)\<rparr>,
      cs_worker = None :: ('a, 'b) worker option\<rparr>"
  have reg: "reg_inv (snd (try_register_session sid sh w1))"
    using none w1(4) by (intro register_inv[OF inv1]) (simp_all add: sh_def)
  have "reg_inv (on_handle ?i (\<lambda>s. s\<lparr>cs_phase := Gone\<rparr>) (unregister_worker sid ?i (snd (try_register_session sid sh w1))))"
    if "fst (try_register_session sid sh w1)"
    using that by (intro gone_inv[OF reg, of _ sh]) (auto simp: try_register_session_def sh_def split: if_splits)
  moreover have "next_worker_id (case sampler of Some s \<Rightarrow> register_inference_sampler sid s w | None \<Rightarrow> w) = (?i, w1)"
    by (cases sampler) (simp_all add: w1_def next_worker_id_def register_inference_sampler_def)
  ultimately show ?thesis using reg
    by (simp add: spawn_capture_with_serving_model_def Let_def split_beta sh_def)
qed

lemma step_inv: "lhc_step env sdk w w' \<Longrightarrow> reg_inv w \<Longrightarrow> reg_inv w'"
proof (induction rule: lhc_step.induct)
  case (handle f w i)
  then show ?case using handle_op_tame[of f] by (intro on_handle_inv) auto
next
  case (forget w sid)
  then show ?case by (simp add: reg_inv_def clear_last_serve_outcome_def)
qed (auto intro!: on_handle_inv worker_tame spawn_inv shutdown_inv intro: exit_inv)

lemma reach_reg: "lhc_reach env sdk w \<Longrightarrow> reg_inv w"
proof (induction rule: lhc_reach.induct)
  case init
  show ?case by (simp add: reg_inv_def lhc_world_init_def)
qed (rule step_inv)

section \<open>The binding of a tee is fresh\<close>

text \<open>
  What a cache relies on: the store changes an answer only together with a larger stamp. Then an answer
  that is cached with its stamp is the current one as long as the stamp is.
\<close>

locale stamped_store =
  fixes stamp :: "'w \<Rightarrow> nat" and look :: "'w \<Rightarrow> 'k \<Rightarrow> 'v option" and step :: "'w \<Rightarrow> 'w \<Rightarrow> bool"
  assumes step_stamps: "step w w' \<Longrightarrow> stamp w < stamp w' \<or> (stamp w' = stamp w \<and> look w' = look w)"
begin

lemma cached_step:
  assumes "step w w'" "n \<le> stamp w \<and> (n = stamp w \<longrightarrow> v = look w k)"
  shows "n \<le> stamp w' \<and> (n = stamp w' \<longrightarrow> v = look w' k)"
  using step_stamps[OF assms(1)] assms(2) by auto

lemma cached_run: "step\<^sup>*\<^sup>* w w' \<Longrightarrow> stamp w' = stamp w \<Longrightarrow> look w' = look w"
proof -
  assume run: "step\<^sup>*\<^sup>* w w'" and same: "stamp w' = stamp w"
  have "stamp w \<le> stamp w' \<and> (stamp w = stamp w' \<longrightarrow> look w k = look w' k)" for k
    using run by (induction rule: rtranclp_induct) (use cached_step in \<open>simp, blast\<close>)
  with same show "look w' = look w" by fastforce
qed

end

definition fresh_binding :: "'x tee \<Rightarrow> ('x, 'a, 's) lhc_world \<Rightarrow> bool" where
  "fresh_binding t w \<longleftrightarrow> rs_generation (te_cached t) \<le> lw_generation w \<and>
     (rs_generation (te_cached t) = lw_generation w \<longrightarrow> rs_handle (te_cached t) = lw_registry w (te_session_id t))"

text \<open>The registry changes only together with its generation.\<close>

definition stamped :: "('x, 'a, 's) lhc_world \<Rightarrow> ('x, 'a, 's) lhc_world \<Rightarrow> bool" where
  "stamped w w' \<longleftrightarrow> lw_generation w < lw_generation w' \<or> (lw_generation w' = lw_generation w \<and> lw_registry w' = lw_registry w)"

lemma unregister_stamped: "lw_generation w < u64_max \<Longrightarrow> stamped w (unregister_worker sid i w)"
  by (simp add: stamped_def unregister_worker_def wrap_inc64_small)

lemma spawn_stamped:
  "counters_low w \<Longrightarrow> stamped w (snd (spawn_capture_with_serving_model ok sid bootstrap generated sampler model w))"
  by (auto simp: stamped_def spawn_capture_with_serving_model_def counters_low_def Let_def split_beta next_worker_id_def
      try_register_session_def unregister_worker_def register_inference_sampler_def wrap_inc64_small split: option.splits)

lemma step_stamped: "lhc_step env sdk w w' \<Longrightarrow> stamped w w'"
proof (induction rule: lhc_step.induct)
  case (shutdown w i)
  then show ?case using unregister_stamped[of w]
    by (auto simp: shutdown_async_def counters_low_def stamped_def split: option.splits)
next
  case (exit w i s)
  then show ?case using unregister_stamped[of "unregister_inference_sampler (cs_session_id s) w" "cs_session_id s" "cs_worker_id s"]
    by (simp add: worker_exit_def counters_low_def stamped_def Let_def unregister_inference_sampler_def)
qed (simp_all add: spawn_stamped, simp_all add: stamped_def clear_last_serve_outcome_def)

interpretation reg: stamped_store lw_generation lw_registry "lhc_step env sdk" for env sdk
  by unfold_locales (use step_stamped in \<open>auto simp: stamped_def\<close>)

lemma step_fresh: "lhc_step env sdk w w' \<Longrightarrow> fresh_binding t w \<Longrightarrow> fresh_binding t w'"
  unfolding fresh_binding_def using reg.cached_step[of env sdk w w'] by blast

lemma snapshot_fresh: "te_cached t = lookup_session_snapshot (te_session_id t) w \<Longrightarrow> fresh_binding t w"
  by (simp add: fresh_binding_def lookup_session_snapshot_def)

text \<open>In a world with an exact registry a fresh binding gives what a lookup would give.\<close>

lemma with_handle_lookup:
  assumes "reg_inv w" "fresh_binding t w"
  shows "with_handle f t w =
    (t\<lparr>te_cached := lookup_session_snapshot (te_session_id t) w\<rparr>,
     case lookup_session (te_session_id t) w of Some handle \<Rightarrow> on_handle handle f w | None \<Rightarrow> w)"
proof -
  define t' where "t' = (if rs_generation (te_cached t) \<noteq> lw_generation w then refresh_binding w t else t)"
  have "te_cached t = lookup_session_snapshot (te_session_id t) w" if "rs_generation (te_cached t) = lw_generation w"
    using assms(2) that by (cases "te_cached t") (simp add: fresh_binding_def lookup_session_snapshot_def)
  then have t': "t' = t\<lparr>te_cached := lookup_session_snapshot (te_session_id t) w\<rparr>"
    by (auto simp: t'_def refresh_binding_def)
  show ?thesis
  proof (cases "lw_registry w (te_session_id t)")
    case (Some i)
    then obtain s where "lw_shared w i = Some s" "cs_phase s \<noteq> Gone" using reg_invD(3)[OF assms(1) Some] by blast
    with Some show ?thesis unfolding with_handle_def Let_def t'_def[symmetric] t'
      by (simp add: lookup_session_def lookup_session_snapshot_def is_closed_def)
  qed (simp add: with_handle_def Let_def t'_def[symmetric] t' lookup_session_def lookup_session_snapshot_def)
qed

lemma with_handle_step:
  assumes "reg_inv w" "fresh_binding t w" "handle_op f" "with_handle f t w = (t', w')"
  shows "fresh_binding t' w' \<and> (w' = w \<or> lhc_step env sdk w w')"
proof -
  have e: "t' = t\<lparr>te_cached := lookup_session_snapshot (te_session_id t) w\<rparr>"
    "w' = (case lookup_session (te_session_id t) w of Some handle \<Rightarrow> on_handle handle f w | None \<Rightarrow> w)"
    using with_handle_lookup[OF assms(1,2), of f] assms(4) by simp_all
  have "fresh_binding t' w" unfolding e(1) by (rule snapshot_fresh) simp
  then show ?thesis using lhc_step.handle[OF assms(3)] step_fresh unfolding e(2)
    by (cases "lookup_session (te_session_id t) w") (simp_all, blast)
qed

lemma tee_op_step:
  assumes "tee_op g" "reg_inv w" "fresh_binding t w" "g t w = (t', w')"
  shows "fresh_binding t' w' \<and> (w' = w \<or> lhc_step env sdk w w') \<and> (\<exists>call. te_inner t' = te_inner t @ [call])"
proof -
  have call: "fresh_binding (t1\<lparr>te_inner := x\<rparr>) v = fresh_binding t1 v" for t1 :: "'a tee" and x and v :: "('a, 'b, 'c) lhc_world"
    by (simp add: fresh_binding_def)
  have "te_inner (fst (with_handle f t w)) = te_inner t" for f
    by (simp add: with_handle_lookup[OF assms(2,3)])
  note same = this
  note st = with_handle_step[OF assms(2,3) _ prod.collapse[symmetric], where env = env and sdk = sdk]
  have via: "fresh_binding t' w' \<and> (w' = w \<or> lhc_step env sdk w w') \<and> (\<exists>call. te_inner t' = te_inner t @ [call])"
    if "inner c (with_handle f t w) = (t', w')" "handle_op f" for f c
    using st[OF that(2)] that(1) same[of f] by (auto simp: inner_def call)
  from assms(1) show ?thesis
  proof (cases rule: tee_op.cases)
    case (5 items)
    then show ?thesis using assms(3,4) by (auto simp: replace_history_for_strip_and_ack_def inner_def call)
  qed (use assms(4) in \<open>auto intro!: via handle_op.intros simp: persist_message_with_provider_usage_def
        persist_working_directory_switch_and_ack_def tee_replace_history_def replace_history_for_lhc_writeback_def tee_flush_def\<close>)
qed

lemma tee_reach_ok: "tee_reach env sdk t w \<Longrightarrow> lhc_reach env sdk w \<and> fresh_binding t w"
proof (induction rule: tee_reach.induct)
  case (new w on ok sid bootstrap generated sampler model t w')
  have "w' = (if on then snd (spawn_capture_with_serving_model ok sid bootstrap generated sampler model w) else w)"
    "te_cached t = lookup_session_snapshot (te_session_id t) w'"
    using new(3) by (auto simp: tee_chat_persistence_with_serving_model_def Let_def)
  then show ?case using lhc_reach.step[OF new(1) lhc_step.spawn[OF new(2)]] new(1) by (auto intro: snapshot_fresh)
next
  case (other t w w')
  then show ?case using lhc_reach.step step_fresh by blast
next
  case (op t w f t' w')
  then show ?case using tee_op_step[OF op(2) reach_reg] lhc_reach.step by metis
qed

section \<open>Draining\<close>

definition queued :: "'x queue_cmd list \<Rightarrow> 'x capture_cmd list" where
  "queued q = List.map_filter (\<lambda>c. case c of Cmd cmd \<Rightarrow> Some cmd | Shutdown \<Rightarrow> None) q"

lemma queued_simps [simp]: "queued [] = []" "queued (Cmd c # q) = c # queued q" "queued (Shutdown # q) = queued q"
  by (simp_all add: queued_def map_filter_simps)

text \<open>The worker with the flags it shares.\<close>

definition flagged :: "('x, 'a) capture_shared \<Rightarrow> ('x, 'a) worker \<Rightarrow> ('x, 'a) worker" where
  "flagged s wk = wk\<lparr>w_poisoned := cs_poisoned s, w_dropped := cs_dropped s\<rparr>"

lemma flags_deferred: "w_deferred (flagged s wk) = w_deferred wk" "w_session (flagged s wk) = w_session wk"
  by (simp_all add: flagged_def)

lemma drain_all:
  assumes "cs_worker s = Some wk" "cs_queue s = q"
  shows "\<exists>wk' s'. (worker_drain env sdk ^^ length q) s = s' \<and> cs_worker s' = Some wk' \<and> cs_queue s' = [] \<and>
    flagged s' wk' = worker_run env sdk (cs_session_id s) (queued q) (flagged s wk)"
  using assms
proof (induction q arbitrary: s wk)
  case (Cons c q)
  show ?case
  proof (cases c)
    case Shutdown
    then have d: "worker_drain env sdk s = s\<lparr>cs_queue := q\<rparr>" using Cons.prems(2) by (simp add: worker_drain_def)
    then show ?thesis using Cons.IH[of "s\<lparr>cs_queue := q\<rparr>" wk] Cons.prems(1) Shutdown
      by (simp add: flagged_def funpow_Suc_right del: funpow.simps)
  next
    case (Cmd cmd)
    define wk1 where "wk1 = process_cmd env sdk (cs_session_id s) (flagged s wk) cmd"
    define s1 where "s1 = s\<lparr>cs_queue := q, cs_worker := Some wk1, cs_poisoned := w_poisoned wk1, cs_dropped := w_dropped wk1\<rparr>"
    have d: "worker_drain env sdk s = s1"
      using Cons.prems Cmd by (simp add: worker_drain_def run_cmd_def Let_def s1_def wk1_def flagged_def)
    have "flagged s1 wk1 = wk1" by (simp add: flagged_def s1_def)
    moreover have "cs_worker s1 = Some wk1" "cs_queue s1 = q" "cs_session_id s1 = cs_session_id s" by (simp_all add: s1_def)
    ultimately show ?thesis using Cons.IH[of s1 wk1] Cmd d
      by (simp add: funpow_Suc_right worker_run_def wk1_def del: funpow.simps)
  qed
qed (simp add: worker_run_def)

section \<open>Properties\<close>

text \<open>
  C34. The registry is exact in every reachable state of the process, whatever sessions are started,
  shut down and restarted while their old workers still wind down: the cheap counter is the number of
  registered sessions, so \<open>capture_active\<close> answers whether the session is registered; every
  registered worker belongs to the session it is registered for and still receives, no worker is registered
  twice, and no queue exceeds its bound.
\<close>

theorem registry_exact:
  assumes "lhc_reach env sdk w"
  shows "lw_active w = card (dom (lw_registry w)) \<and>
    (\<forall>sid. capture_active sid w \<longleftrightarrow> sid \<in> dom (lw_registry w)) \<and>
    (\<forall>sid i. lw_registry w sid = Some i \<longrightarrow>
       (\<exists>s. lw_shared w i = Some s \<and> cs_session_id s = sid \<and> \<not> is_closed s) \<and>
       (\<forall>sid'. lw_registry w sid' = Some i \<longrightarrow> sid' = sid)) \<and>
    (\<forall>i s. lw_shared w i = Some s \<longrightarrow> length (cs_queue s) \<le> CAPTURE_QUEUE_CAP)"
proof -
  note inv = reach_reg[OF assms]
  have "capture_active sid w \<longleftrightarrow> sid \<in> dom (lw_registry w)" for sid
  proof -
    have "0 < lw_active w" if "lw_registry w sid = Some y" for y
      using that reg_invD(1,2)[OF inv] by (auto simp: card_gt_0_iff)
    then show ?thesis
      by (auto simp: capture_active_def any_capture_active_def is_session_registered_def lookup_session_def
          lookup_session_snapshot_def)
  qed
  moreover have "sid' = sid" if "lw_registry w sid = Some i" "lw_registry w sid' = Some i" for sid sid' i
    using reg_invD(3)[OF inv that(1)] reg_invD(3)[OF inv that(2)] by auto
  ultimately show ?thesis using reg_invD[OF inv] by (auto simp: is_closed_def)
qed

text \<open>
  A call of the tee that is not disturbed is a lookup: comparing one generation and reusing the cached handle has the
  effect of looking the session up in the registry for this call, and the binding it leaves is that of the lookup.
  Calls that are disturbed are in \<open>Lhc_Tee\<close>.
\<close>

lemma tee_call_alone:
  assumes "tee_reach env sdk t w"
  shows "with_handle f t w =
    (t\<lparr>te_cached := lookup_session_snapshot (te_session_id t) w\<rparr>,
     case lookup_session (te_session_id t) w of Some handle \<Rightarrow> on_handle handle f w | None \<Rightarrow> w)"
  using tee_reach_ok[OF assms] by (intro with_handle_lookup reach_reg) auto

text \<open>
  Dropping the tee ends the capture of its session: afterwards the session is not registered, and the
  worker it had is told to shut down. The worker then works off its whole queue, in order and behind the
  shutdown too, submits a close that is still deferred, and reaches the state a shutdown gives.
\<close>

lemma drop_drains_queue:
  assumes "tee_reach env sdk t w" "lookup_session (te_session_id t) w = Some i" "lw_shared w i = Some s"
    "cs_phase s = Running" "cs_worker s = Some wk" "lw_shared (tee_drop t w) i = Some s1"
    "s2 = (worker_drain env sdk ^^ Suc (length (cs_queue s1))) (worker_signal s1)"
  shows "lw_registry (tee_drop t w) (te_session_id t) = None \<and> cs_phase s2 = Closing \<and>
    (\<exists>wk'. cs_worker s2 = Some wk' \<and>
       w_session wk' = w_session (worker_shutdown env sdk (te_session_id t) (queued (cs_queue s)) (flagged s wk)))"
proof -
  note inv = reach_reg[OF conjunct1[OF tee_reach_ok[OF assms(1)]]]
  have r: "lw_registry w (te_session_id t) = Some i" using assms(2) by (simp add: lookup_session_def lookup_session_snapshot_def)
  have sid: "cs_session_id s = te_session_id t" "cs_worker_id s = i" using reg_invD(3)[OF inv r] reg_invD(4)[OF inv assms(3)] assms(3) by auto
  define v where "v = clear_last_serve_outcome (te_session_id t) w"
  have v: "lw_registry v = lw_registry w" "lw_shared v = lw_shared w" by (simp_all add: v_def clear_last_serve_outcome_def)
  have d: "tee_drop t w = shutdown_async i v"
    using r assms(3,4) v by (simp add: tee_drop_def lookup_session_snapshot_def is_closed_def v_def[symmetric] Let_def)
  have unreg: "lw_registry (tee_drop t w) (te_session_id t) = None"
    using assms(3) sid r v by (simp add: d shutdown_async_def unregister_worker_def)
  have s1: "s1 = snd (try_send Shutdown (s\<lparr>cs_shutdown := True\<rparr>))"
    using assms(3,6) v by (simp add: d shutdown_async_def on_handle_shared)
  define s' where "s' = worker_signal s1"
  have s': "cs_worker s' = Some wk" "cs_queue s' = cs_queue s1" "cs_phase s' = Draining" "cs_session_id s' = te_session_id t"
    "flagged s' wk = flagged s wk" "queued (cs_queue s1) = queued (cs_queue s)"
    using assms(4,5) sid by (auto simp: s'_def worker_signal_def s1 try_send_def flagged_def queued_def map_filter_def)
  obtain wk' s3 where s3: "(worker_drain env sdk ^^ length (cs_queue s1)) s' = s3" "cs_worker s3 = Some wk'" "cs_queue s3 = []"
    "flagged s3 wk' = worker_run env sdk (te_session_id t) (queued (cs_queue s)) (flagged s wk)"
    using drain_all[OF s'(1,2), of env sdk] s' by auto
  have "s2 = worker_drain env sdk s3" using assms(7) s3(1) by (simp add: s'_def)
  then have s2: "cs_phase s2 = Closing" "cs_worker s2 = Some (release_deferred sdk wk')" using s3(2,3) by (simp_all add: worker_drain_def)
  have "w_session (release_deferred sdk (flagged s3 wk')) = w_session (release_deferred sdk wk')"
    by (simp add: release_deferred_def flagged_def split: option.splits)
  then show ?thesis using unreg s2 s3(4) by (simp add: worker_shutdown_def)
qed

text \<open>
  A dropped replacement is forgotten: when the queue is full, replacing the history is dropped and
  marks the baseline as poisoned, which is meant to refuse live items until a replacement has been applied. But a
  replacement that was queued earlier clears the mark when it is processed, so live items are
  captured again on a baseline that never saw the dropped history.
\<close>

lemma older_replace_unpoisons:
  assumes "cs_phase s = Running" "cs_worker s = Some wk" "length (cs_queue s) = CAPTURE_QUEUE_CAP"
    "cs_queue s = Cmd (ReplaceHistory older) # q"
    "s1 = replace_history newer s" "s2 = worker_recv env sdk s1"
  shows "cs_poisoned s1 \<and> cs_queue s1 = cs_queue s \<and> \<not> cs_poisoned s2 \<and> cs_queue s2 = q"
proof -
  have s1: "s1 = note_drop (s\<lparr>cs_poisoned := True\<rparr>)" using assms(1,3,5) by (simp add: replace_history_def try_send_def)
  have "\<not> w_poisoned (process_cmd env sdk sid v (ReplaceHistory older))" for sid and v :: "('a, 'b) worker"
    by (auto simp: process_cmd_def process_replace_def Let_def split: sum.splits prod.splits)
  then show ?thesis using assms(2,4,6)
    by (simp add: s1 note_drop_def worker_recv_def run_cmd_def Let_def)
qed

text \<open>
  Turning capture off and on again can lose the sampler: while the worker of a session that was shut down is
  still closing, a new capture of the session registers its sampler and its worker; when the old
  worker then exits it takes the sampler of the session with it, unlike the registration, which is
  guarded by the worker's id. The new worker stays registered without a sampler.
\<close>

lemma restart_loses_sampler:
  assumes "lhc_reach env sdk w" "counters_low w" "lw_shared w i = Some s" "cs_phase s = Closing"
    "lw_registry w (cs_session_id s) = None"
    "spawn_capture_with_serving_model True (cs_session_id s) bootstrap generated (Some sampler) model w = (h, w1)"
  shows "\<exists>j. h = Some j \<and> inference_sampler_registered (cs_session_id s) w1 \<and>
    lw_registry (worker_exit i w1) (cs_session_id s) = Some j \<and>
    \<not> inference_sampler_registered (cs_session_id s) (worker_exit i w1)"
proof -
  let ?sid = "cs_session_id s" and ?j = "lw_next_worker w"
  have i: "cs_worker_id s = i" "i < ?j" using reg_invD(4)[OF reach_reg[OF assms(1)] assms(3)] by auto
  have w1: "h = Some ?j" "lw_registry w1 ?sid = Some ?j" "lw_samplers w1 ?sid = Some sampler" "lw_shared w1 i = Some s"
    using assms(3,5,6) i(2)
    by (auto simp: spawn_capture_with_serving_model_def Let_def next_worker_id_def register_inference_sampler_def
        try_register_session_def)
  then show ?thesis using i
    by (auto simp: worker_exit_def Let_def inference_sampler_registered_def unregister_inference_sampler_def unregister_worker_def)
qed

section \<open>Examples\<close>

definition demo_spawned :: "(unit, ustr list, unit) lhc_world" where
  "demo_spawned = snd (spawn_capture_with_serving_model True (lit ''s'') [] None (Some ()) None lhc_world_init)"

definition demo_shared :: "(unit, ustr list) capture_shared" where
  "demo_shared = \<lparr>cs_session_id = lit ''s'', cs_worker_id = 1, cs_queue = [], cs_shutdown = False, cs_open_state = OpenPending,
     cs_dropped = 0, cs_poisoned = False, cs_phase = Opening,
     cs_args = \<lparr>sp_bootstrap = [], sp_generated = None, sp_serving_model = None\<rparr>, cs_worker = None\<rparr>"

lemma demo_spawned_eq:
  "demo_spawned = \<lparr>lw_registry = [lit ''s'' \<mapsto> 1], lw_shared = [1 \<mapsto> demo_shared], lw_active = 1, lw_generation = 1,
     lw_next_worker = 2, lw_samplers = [lit ''s'' \<mapsto> ()], lw_last_serve = Map.empty\<rparr>"
  by (simp add: demo_spawned_def spawn_capture_with_serving_model_def lhc_world_init_def register_inference_sampler_def
      next_worker_id_def try_register_session_def demo_shared_def non_empty_def wrap_inc64_def u64_max_def Let_def)

lemma demo_low: "counters_low lhc_world_init" "counters_low demo_spawned"
  by (simp_all add: counters_low_def lhc_world_init_def demo_spawned_eq u64_max_def)

lemma demo_spawned_reach: "lhc_reach demo_lhc demo_archive demo_spawned"
  unfolding demo_spawned_def by (rule lhc_reach.step[OF lhc_reach.init lhc_step.spawn[OF demo_low(1)]])

theorem registry_exact_witness:
  "lw_active demo_spawned = card (dom (lw_registry demo_spawned)) \<and> capture_active (lit ''s'') demo_spawned"
  using registry_exact[OF demo_spawned_reach] by (simp add: demo_spawned_eq)

definition demo_tee :: "unit tee" where
  "demo_tee = \<lparr>te_session_id = lit ''s'', te_cached = \<lparr>rs_generation = 1, rs_handle = Some 1\<rparr>, te_inner = []\<rparr>"

lemma demo_tee_reach: "tee_reach demo_lhc demo_archive demo_tee demo_spawned"
proof (rule tee_reach.new[OF lhc_reach.init demo_low(1)])
  show "tee_chat_persistence_with_serving_model True True (lit ''s'') [] None (Some ()) None lhc_world_init = (demo_tee, demo_spawned)"
    by (simp add: tee_chat_persistence_with_serving_model_def demo_spawned_def[symmetric] demo_tee_def lookup_session_snapshot_def)
      (simp add: demo_spawned_eq)
qed

definition demo_open :: "(unit, ustr list, unit) lhc_world" where
  "demo_open = on_handle 1 (worker_open demo_lhc demo_archive (Some [])) demo_spawned"

lemma demo_open_eq:
  "demo_open = demo_spawned\<lparr>lw_shared := [1 \<mapsto> demo_shared\<lparr>cs_open_state := OpenReady, cs_phase := Running, cs_worker := Some demo_worker\<rparr>]\<rparr>"
  using demo_start
  by (simp add: demo_open_def on_handle_def demo_spawned_eq worker_open_def demo_shared_def Let_def)

lemma demo_open_reach: "tee_reach demo_lhc demo_archive demo_tee demo_open"
  unfolding demo_open_def
  by (rule tee_reach.other[OF demo_tee_reach lhc_step.opened[of _ _ demo_shared]]) (simp_all add: demo_spawned_eq demo_shared_def)

lemma drop_drains_queue_witness:
  "lw_registry (tee_drop demo_tee demo_open) (lit ''s'') = None"
proof -
  let ?s = "demo_shared\<lparr>cs_open_state := OpenReady, cs_phase := Running, cs_worker := Some demo_worker\<rparr>"
  have l: "lookup_session (te_session_id demo_tee) demo_open = Some 1" "lw_shared demo_open 1 = Some ?s"
    by (simp_all add: demo_open_eq demo_spawned_eq demo_tee_def lookup_session_def lookup_session_snapshot_def)
  obtain s1 where "lw_shared (tee_drop demo_tee demo_open) 1 = Some s1"
    by (simp add: tee_drop_def clear_last_serve_outcome_def Let_def demo_open_eq demo_spawned_eq demo_tee_def lookup_session_snapshot_def is_closed_def
        shutdown_async_def on_handle_def demo_shared_def unregister_worker_def)
  from drop_drains_queue[OF demo_open_reach l _ _ this refl] show ?thesis by (simp add: demo_tee_def)
qed

lemma older_replace_unpoisons_witness:
  "\<exists>s. length (cs_queue s) = CAPTURE_QUEUE_CAP \<and> cs_poisoned (replace_history [demo_answer] s) \<and>
     \<not> cs_poisoned (worker_recv demo_lhc demo_archive (replace_history [demo_answer] s))"
proof -
  let ?s = "demo_shared\<lparr>cs_phase := Running, cs_worker := Some demo_worker,
     cs_queue := Cmd (ReplaceHistory []) # replicate 1023 (Cmd Flush)\<rparr>"
  have "length (cs_queue ?s) = CAPTURE_QUEUE_CAP" by (simp add: CAPTURE_QUEUE_CAP_def)
  from older_replace_unpoisons[OF _ _ this _ refl refl, of demo_worker "[]" "replicate 1023 (Cmd Flush)" "[demo_answer]"
      demo_lhc demo_archive] this show ?thesis by (intro exI[of _ ?s] conjI) simp_all
qed

definition demo_closing :: "(unit, ustr list, unit) lhc_world" where
  "demo_closing = on_handle 1 (worker_open demo_lhc demo_archive None) (shutdown_async 1 demo_spawned)"

lemma restart_loses_sampler_witness:
  "\<exists>w :: (unit, ustr list, unit) lhc_world. lw_registry w (lit ''s'') = Some 2 \<and> \<not> inference_sampler_registered (lit ''s'') w"
proof -
  let ?s = "demo_shared\<lparr>cs_queue := [Shutdown], cs_shutdown := True, cs_open_state := OpenFailed, cs_phase := Closing\<rparr>"
  have down: "shutdown_async 1 demo_spawned =
    demo_spawned\<lparr>lw_registry := Map.empty, lw_active := 0, lw_generation := 2,
      lw_shared := [1 \<mapsto> demo_shared\<lparr>cs_queue := [Shutdown], cs_shutdown := True\<rparr>]\<rparr>"
    by (simp add: shutdown_async_def demo_spawned_eq on_handle_def unregister_worker_def try_send_def demo_shared_def
        CAPTURE_QUEUE_CAP_def wrap_inc64_def u64_max_def fun_eq_iff)
  have eq: "demo_closing = demo_spawned\<lparr>lw_registry := Map.empty, lw_active := 0, lw_generation := 2, lw_shared := [1 \<mapsto> ?s]\<rparr>"
    unfolding demo_closing_def down by (simp add: on_handle_def worker_open_def demo_shared_def Let_def)
  have "lhc_reach demo_lhc demo_archive (shutdown_async 1 demo_spawned)"
    by (rule lhc_reach.step[OF demo_spawned_reach lhc_step.shutdown[OF demo_low(2)]])
  from lhc_reach.step[OF this lhc_step.opened[of _ 1 "demo_shared\<lparr>cs_queue := [Shutdown], cs_shutdown := True\<rparr>" _ _ None]]
  have r: "lhc_reach demo_lhc demo_archive demo_closing"
    unfolding demo_closing_def down by (simp add: demo_shared_def)
  obtain h w1 where sp: "spawn_capture_with_serving_model True (cs_session_id ?s) [] None (Some ()) None demo_closing = (h, w1)"
    by (meson surj_pair)
  have "counters_low demo_closing" "lw_shared demo_closing 1 = Some ?s" "lw_registry demo_closing (cs_session_id ?s) = None"
    by (simp_all add: eq counters_low_def demo_spawned_eq u64_max_def)
  from restart_loses_sampler[OF r this(1,2) _ this(3) sp] obtain j where
    "h = Some j" "lw_registry (worker_exit 1 w1) (lit ''s'') = Some j" "\<not> inference_sampler_registered (lit ''s'') (worker_exit 1 w1)"
    by (auto simp: demo_shared_def)
  moreover have "h = Some 2" using sp
    by (auto simp: spawn_capture_with_serving_model_def eq demo_spawned_eq register_inference_sampler_def next_worker_id_def
        try_register_session_def Let_def)
  ultimately show ?thesis by auto
qed

end
