(* ===== verification/Lhc_Tee.thy ===== *)
theory Lhc_Tee
  imports Lhc_Registry
begin

text \<open>
  The tee against a registry that changes under it (\<open>crates/lhc/grok-lhc-host/src/tee.rs\<close>, \<open>with_handle\<close> and
  \<open>refresh_binding\<close>; \<open>capture.rs\<close>, \<open>try_register_session\<close>, \<open>unregister_worker\<close> and \<open>lookup_session_snapshot\<close>).

  In \<open>Lhc_Registry\<close> a call of the tee is one step. Here it is taken apart into its accesses: the load of the generation
  without the lock, the comparison, the lookup that takes the registry's lock, the load of the generation under
  that lock and its release, the look at the channel, and the send. Between any two of them other threads run. Their
  sections under the lock are taken apart too: the map is changed, then the generation is bumped, then the lock is
  released. Everything else the process does is any change that leaves the map and the generation alone, so a worker
  may close at any moment, also while it is registered. Accesses happen in one order, which the release of the bump and
  the acquiring load provide for the generation.
\<close>

section \<open>The registry in parts\<close>

text \<open>
  Who has the lock of the registry and how far it is: a writer that has changed the map, a writer that has also bumped
  the generation, or the tee between its two reads.
\<close>

datatype registry_lock = Free | Changed | Bumped | Reading

definition register_change ::
  "ustr \<Rightarrow> ('x, 'a) capture_shared \<Rightarrow> ('x, 'a, 's) lhc_world \<Rightarrow> bool \<times> ('x, 'a, 's) lhc_world" where
  "register_change session_id shared w =
     (if lw_registry w session_id \<noteq> None then (False, w)
      else (True, w\<lparr>lw_registry := (lw_registry w)(session_id \<mapsto> cs_worker_id shared),
                   lw_shared := (lw_shared w)(cs_worker_id shared \<mapsto> shared), lw_active := lw_active w + 1\<rparr>))"

definition unregister_change :: "ustr \<Rightarrow> u64 \<Rightarrow> ('x, 'a, 's) lhc_world \<Rightarrow> bool \<times> ('x, 'a, 's) lhc_world" where
  "unregister_change session_id worker_id w =
     (if lw_registry w session_id = Some worker_id
      then (True, w\<lparr>lw_registry := (lw_registry w)(session_id := None), lw_active := lw_active w - 1\<rparr>)
      else (False, w))"

definition bump_generation :: "('x, 'a, 's) lhc_world \<Rightarrow> ('x, 'a, 's) lhc_world" where
  "bump_generation w = w\<lparr>lw_generation := wrap_inc64 (lw_generation w)\<rparr>"

lemma sections_compose:
  "try_register_session sid shared w = (case register_change sid shared w of (ok, w) \<Rightarrow> (ok, if ok then bump_generation w else w))"
  "unregister_worker sid i w = (case unregister_change sid i w of (ok, w) \<Rightarrow> if ok then bump_generation w else w)"
  by (simp_all add: try_register_session_def register_change_def unregister_worker_def unregister_change_def bump_generation_def)

text \<open>What the other threads of the process do to the registry. The generation is not about to wrap around.\<close>

inductive registry_step ::
  "('x, 'a, 's) lhc_world \<times> registry_lock \<Rightarrow> ('x, 'a, 's) lhc_world \<times> registry_lock \<Rightarrow> bool" where
  register: "register_change sid shared w = (True, w') \<Longrightarrow> registry_step (w, Free) (w', Changed)"
| unregister: "unregister_change sid i w = (True, w') \<Longrightarrow> registry_step (w, Free) (w', Changed)"
| bump: "lw_generation w < u64_max \<Longrightarrow> registry_step (w, Changed) (bump_generation w, Bumped)"
| release: "registry_step (w, Bumped) (w, Free)"
| other: "lw_registry w' = lw_registry w \<Longrightarrow> lw_generation w' = lw_generation w \<Longrightarrow> registry_step (w, l) (w', l)"

inductive_cases registry_stepE: "registry_step (w, l) (w', l')"

section \<open>A call of the tee in parts\<close>

datatype tee_pc = TeeLoad | TeeCompare u64 | TeeLookup | TeeStamp "u64 option" | TeeCheck | TeeSend u64 | TeeReturned

text \<open>
  The state of a run. Beside what the process has, it keeps which registrations are in force, those of the map when the
  generation last moved, and all bindings of the tee's session that have been in force since the call began.
\<close>

record ('x, 'a, 's) tee_run =
  tr_world :: "('x, 'a, 's) lhc_world"
  tr_lock :: registry_lock
  tr_tee :: "'x tee"
  tr_op :: "('x, 'a) capture_shared \<Rightarrow> ('x, 'a) capture_shared"
  tr_pc :: tee_pc
  tr_in_force :: "ustr \<rightharpoonup> u64"
  tr_since_call :: "u64 option set"

text \<open>One access of the call. The lookup waits while another thread has the lock.\<close>

definition tee_step :: "('x, 'a, 's) tee_run \<Rightarrow> ('x, 'a, 's) tee_run" where
  "tee_step r =
     (let w = tr_world r; t = tr_tee r in
      case tr_pc r of
        TeeLoad \<Rightarrow> r\<lparr>tr_pc := TeeCompare (lw_generation w)\<rparr>
      | TeeCompare current \<Rightarrow> r\<lparr>tr_pc := (if rs_generation (te_cached t) \<noteq> current then TeeLookup else TeeCheck)\<rparr>
      | TeeLookup \<Rightarrow>
          if tr_lock r = Free then r\<lparr>tr_lock := Reading, tr_pc := TeeStamp (lw_registry w (te_session_id t))\<rparr> else r
      | TeeStamp handle \<Rightarrow>
          r\<lparr>tr_tee := t\<lparr>te_cached := \<lparr>rs_generation = lw_generation w, rs_handle = handle\<rparr>\<rparr>, tr_lock := Free, tr_pc := TeeCheck\<rparr>
      | TeeCheck \<Rightarrow>
          (case rs_handle (te_cached t) of
             None \<Rightarrow> r\<lparr>tr_pc := TeeReturned\<rparr>
           | Some handle \<Rightarrow>
               (case lw_shared w handle of
                  None \<Rightarrow> r\<lparr>tr_pc := TeeReturned\<rparr>
                | Some s \<Rightarrow> r\<lparr>tr_pc := (if is_closed s then TeeReturned else TeeSend handle)\<rparr>))
      | TeeSend handle \<Rightarrow> r\<lparr>tr_world := on_handle handle (tr_op r) w, tr_pc := TeeReturned\<rparr>
      | TeeReturned \<Rightarrow> r)"

definition begin_call ::
  "(('x, 'a) capture_shared \<Rightarrow> ('x, 'a) capture_shared) \<Rightarrow> ('x, 'a, 's) tee_run \<Rightarrow> ('x, 'a, 's) tee_run" where
  "begin_call f r = r\<lparr>tr_op := f, tr_pc := TeeLoad, tr_since_call := {tr_in_force r (te_session_id (tr_tee r))}\<rparr>"

text \<open>Another thread takes a step; where the generation moves, what the map holds comes into force.\<close>

definition around :: "('x, 'a, 's) lhc_world \<Rightarrow> registry_lock \<Rightarrow> ('x, 'a, 's) tee_run \<Rightarrow> ('x, 'a, 's) tee_run" where
  "around w l r =
     (let r' = r\<lparr>tr_world := w, tr_lock := l\<rparr> in
      if lw_generation w = lw_generation (tr_world r) then r'
      else r'\<lparr>tr_in_force := lw_registry w,
             tr_since_call := insert (lw_registry w (te_session_id (tr_tee r))) (tr_since_call r)\<rparr>)"

definition tee_start :: "'x tee \<Rightarrow> ('x, 'a, 's) lhc_world \<Rightarrow> ('x, 'a, 's) tee_run" where
  "tee_start t w =
     \<lparr>tr_world = w, tr_lock = Free, tr_tee = t, tr_op = id, tr_pc = TeeReturned, tr_in_force = lw_registry w,
      tr_since_call = {lw_registry w (te_session_id t)}\<rparr>"

inductive tee_runs :: "('x, 'a, 's) tee_run \<Rightarrow> bool" where
  new: "tee_chat_persistence_with_serving_model on ok sid bootstrap generated sampler model w = (t, w') \<Longrightarrow>
    tee_runs (tee_start t w')"
| own: "tee_runs r \<Longrightarrow> tee_runs (tee_step r)"
| call: "tee_runs r \<Longrightarrow> tr_pc r = TeeReturned \<Longrightarrow> handle_op f \<Longrightarrow> tee_runs (begin_call f r)"
| other: "tee_runs r \<Longrightarrow> registry_step (tr_world r, tr_lock r) (w, l) \<Longrightarrow> tee_runs (around w l r)"

section \<open>The steps of the process are such steps\<close>

lemmas step_other = r_into_rtranclp[of registry_step, OF registry_step.other]

lemma section_steps:
  assumes "registry_step (w, Free) (w', Changed)" "lw_generation w' < u64_max"
  shows "registry_step\<^sup>*\<^sup>* (w, Free) (bump_generation w', Free)"
  using assms by (meson converse_rtranclp_into_rtranclp r_into_rtranclp registry_step.bump registry_step.release)

lemma register_steps:
  assumes "try_register_session sid shared w = (ok, w')" "lw_generation w < u64_max"
  shows "registry_step\<^sup>*\<^sup>* (w, Free) (w', Free)"
proof (cases "lw_registry w sid = None")
  case True
  obtain v where v: "register_change sid shared w = (True, v)" "lw_generation v = lw_generation w"
    using True by (simp add: register_change_def)
  with assms(1) have "w' = bump_generation v" by (simp add: sections_compose(1))
  with section_steps[OF registry_step.register[OF v(1)]] v(2) assms(2) show ?thesis by simp
next
  case False
  then have "w' = w" using assms(1) by (simp add: try_register_session_def)
  then show ?thesis by simp
qed

lemma unregister_steps:
  assumes "lw_generation w < u64_max"
  shows "registry_step\<^sup>*\<^sup>* (w, Free) (unregister_worker sid i w, Free)"
proof (cases "lw_registry w sid = Some i")
  case True
  obtain v where v: "unregister_change sid i w = (True, v)" "lw_generation v = lw_generation w"
    using True by (simp add: unregister_change_def)
  then have "unregister_worker sid i w = bump_generation v" by (simp add: sections_compose(2))
  with section_steps[OF registry_step.unregister[OF v(1)]] v(2) assms show ?thesis by simp
qed (simp add: unregister_worker_def)

lemma unregister_then_steps:
  assumes "lw_generation w < u64_max"
  shows "registry_step\<^sup>*\<^sup>* (w, Free) (on_handle j f (unregister_worker sid i w), Free)"
  by (rule rtranclp_trans[OF unregister_steps[OF assms] step_other]) simp_all

lemma generation_sel [simp]:
  "lw_generation (snd (next_worker_id w)) = lw_generation w" "lw_registry (snd (next_worker_id w)) = lw_registry w"
  "lw_generation (register_inference_sampler sid s w) = lw_generation w"
  "lw_registry (register_inference_sampler sid s w) = lw_registry w"
  "lw_generation (unregister_inference_sampler sid w) = lw_generation w"
  "lw_registry (unregister_inference_sampler sid w) = lw_registry w"
  by (simp_all add: next_worker_id_def register_inference_sampler_def unregister_inference_sampler_def)

lemma bumped_once:
  "try_register_session sid shared w = (ok, w') \<Longrightarrow> lw_generation w < u64_max \<Longrightarrow> lw_generation w' \<le> Suc (lw_generation w)"
  "lw_generation w < u64_max \<Longrightarrow> lw_generation (unregister_worker sid i w) \<le> Suc (lw_generation w)"
  by (auto simp: try_register_session_def unregister_worker_def wrap_inc64_def u64_max_def split: if_splits)

text \<open>Starting a worker: the sampler, the new id, the registration and, without a thread, the removal, in that order.\<close>

lemma spawn_steps:
  fixes w :: "('x, 'a, 's) lhc_world"
  assumes "counters_low w"
  shows "registry_step\<^sup>*\<^sup>* (w, Free) (snd (spawn_capture_with_serving_model ok sid bootstrap generated sampler model w), Free)"
proof -
  define w1 where "w1 = (case sampler of Some s \<Rightarrow> register_inference_sampler sid s w | None \<Rightarrow> w)"
  obtain i w2 where w2: "next_worker_id w1 = (i, w2)" by (cases "next_worker_id w1")
  define shared :: "('x, 'a) capture_shared" where "shared = \<lparr>cs_session_id = sid, cs_worker_id = i, cs_queue = [], cs_shutdown = False,
      cs_open_state = OpenPending, cs_dropped = 0, cs_poisoned = False, cs_phase = Opening,
      cs_args = \<lparr>sp_bootstrap = bootstrap, sp_generated = generated, sp_serving_model = non_empty (map_option trim model)\<rparr>,
      cs_worker = None\<rparr>"
  obtain reg w3 where w3: "try_register_session sid shared w2 = (reg, w3)" by (cases "try_register_session sid shared w2")
  have res: "snd (spawn_capture_with_serving_model ok sid bootstrap generated sampler model w) =
      (if reg \<and> \<not> ok then on_handle i (\<lambda>s. s\<lparr>cs_phase := Gone\<rparr>) (unregister_worker sid i w3) else w3)"
    unfolding spawn_capture_with_serving_model_def Let_def w1_def[symmetric] w2 prod.case shared_def[symmetric] w3
    by simp
  have g2: "lw_generation w2 = lw_generation w" "lw_registry w2 = lw_registry w"
    using w2 generation_sel(1,2)[of w1] by (auto simp: w1_def split: option.splits)
  have low: "lw_generation w2 < u64_max" using assms g2 by (simp add: counters_low_def)
  have s3: "registry_step\<^sup>*\<^sup>* (w, Free) (w3, Free)"
    by (rule rtranclp_trans[OF step_other register_steps[OF w3 low]]) (simp_all add: g2)
  have "lw_generation w3 < u64_max" using bumped_once(1)[OF w3 low] assms g2 by (simp add: counters_low_def)
  then have "registry_step\<^sup>*\<^sup>* (w3, Free) (on_handle i (\<lambda>s. s\<lparr>cs_phase := Gone\<rparr>) (unregister_worker sid i w3), Free)"
    by (rule unregister_then_steps)
  from rtranclp_trans[OF s3 this] s3 show ?thesis unfolding res by presburger
qed

lemma lhc_step_steps:
  assumes "lhc_step env sdk w w'"
  shows "registry_step\<^sup>*\<^sup>* (w, Free) (w', Free)"
  using assms
proof cases
  case (spawn ok sid bootstrap generated sampler model)
  then show ?thesis using spawn_steps by blast
next
  case (shutdown i)
  then have "lw_generation w < u64_max" by (simp add: counters_low_def)
  from unregister_then_steps[OF this] show ?thesis
    using shutdown by (cases "lw_shared w i") (simp_all add: shutdown_async_def)
next
  case (exit i s)
  let ?v = "unregister_inference_sampler (cs_session_id s) w"
  have low: "lw_generation ?v < u64_max" using exit by (simp add: counters_low_def)
  have "registry_step\<^sup>*\<^sup>* (w, Free) (?v, Free)" by (rule step_other) simp_all
  from rtranclp_trans[OF this unregister_then_steps[OF low]] show ?thesis
    using exit by (simp add: worker_exit_def Let_def)
qed (auto intro!: step_other simp: clear_last_serve_outcome_def)

section \<open>What a call resolves to\<close>

definition resolved :: "('x, 'a, 's) tee_run \<Rightarrow> bool" where
  "resolved r \<longleftrightarrow>
     (let cached = te_cached (tr_tee r); w = tr_world r; sid = te_session_id (tr_tee r) in
      case tr_pc r of
        TeeCompare current \<Rightarrow>
          current \<le> lw_generation w \<and> (rs_generation cached = current \<longrightarrow> rs_handle cached \<in> tr_since_call r)
      | TeeStamp handle \<Rightarrow> tr_lock r = Reading \<and> handle = lw_registry w sid
      | TeeCheck \<Rightarrow> rs_handle cached \<in> tr_since_call r
      | TeeSend handle \<Rightarrow> rs_handle cached = Some handle \<and> rs_handle cached \<in> tr_since_call r
      | TeeReturned \<Rightarrow> rs_handle cached \<in> tr_since_call r
      | _ \<Rightarrow> True)"

definition tee_inv :: "('x, 'a, 's) tee_run \<Rightarrow> bool" where
  "tee_inv r \<longleftrightarrow>
     (let cached = te_cached (tr_tee r); w = tr_world r; sid = te_session_id (tr_tee r) in
      (tr_lock r \<noteq> Changed \<longrightarrow> tr_in_force r = lw_registry w) \<and>
      rs_generation cached \<le> lw_generation w \<and>
      (rs_generation cached = lw_generation w \<longrightarrow> rs_handle cached = tr_in_force r sid) \<and>
      tr_in_force r sid \<in> tr_since_call r \<and> resolved r)"

lemma tee_step_inv: "tee_inv r \<Longrightarrow> tee_inv (tee_step r)"
  by (auto simp: tee_inv_def resolved_def tee_step_def Let_def split: tee_pc.splits option.splits)

lemma begin_call_inv: "tee_inv r \<Longrightarrow> tee_inv (begin_call f r)"
  by (simp add: tee_inv_def resolved_def begin_call_def Let_def)

text \<open>Other threads leave the map alone while the tee reads, and the generation moves with what is in force.\<close>

lemma registry_step_keeps:
  assumes "registry_step (w, l) (w', l')"
  shows "lw_generation w \<le> lw_generation w'" "l = Reading \<longleftrightarrow> l' = Reading" "l = Reading \<longrightarrow> lw_registry w' = lw_registry w"
    "lw_generation w' \<noteq> lw_generation w \<longrightarrow> lw_generation w < lw_generation w' \<and> l' = Bumped"
    "lw_generation w' = lw_generation w \<longrightarrow> l' \<noteq> Changed \<longrightarrow> l \<noteq> Changed \<and> lw_registry w' = lw_registry w"
  using assms
  by (auto elim!: registry_stepE simp: bump_generation_def wrap_inc64_def u64_max_def register_change_def unregister_change_def
      split: if_splits)

lemma around_inv:
  assumes "tee_inv r" "registry_step (tr_world r, tr_lock r) (w, l)"
  shows "tee_inv (around w l r)"
  using assms(1) registry_step_keeps[OF assms(2)]
  by (auto simp: tee_inv_def resolved_def around_def Let_def split: tee_pc.splits)

lemma tee_runs_inv: "tee_runs r \<Longrightarrow> tee_inv r"
proof (induction rule: tee_runs.induct)
  case (new on ok sid bootstrap generated sampler model w t w')
  then have "te_cached t = lookup_session_snapshot (te_session_id t) w'"
    by (auto simp: tee_chat_persistence_with_serving_model_def Let_def)
  then show ?case by (simp add: tee_start_def tee_inv_def resolved_def lookup_session_snapshot_def Let_def)
qed (simp_all add: tee_step_inv begin_call_inv around_inv)

text \<open>
  C33. A call of the tee goes to a worker that was registered while the call ran, however registrations and removals,
  split into their changes of the map, of the generation and of the lock, and everything else the process does
  interleave with the call's own accesses. The handle the call has settled on, by comparing one generation and
  reusing the cached binding or by refreshing it, and the one it sends to, was the session's binding in force at
  some moment since the call began. And a cached binding that carries the current generation is the binding
  in force, so the next comparison cannot take a stale one for a current one: the cache is never stamped with a
  generation that is newer than its handle.
\<close>

theorem tee_call_resolves:
  assumes "tee_runs r"
  shows "(tr_pc r = TeeCheck \<or> tr_pc r = TeeReturned \<longrightarrow> rs_handle (te_cached (tr_tee r)) \<in> tr_since_call r) \<and>
    (\<forall>handle. tr_pc r = TeeSend handle \<longrightarrow> Some handle \<in> tr_since_call r) \<and>
    rs_generation (te_cached (tr_tee r)) \<le> lw_generation (tr_world r) \<and>
    (rs_generation (te_cached (tr_tee r)) = lw_generation (tr_world r) \<longrightarrow>
       rs_handle (te_cached (tr_tee r)) = tr_in_force r (te_session_id (tr_tee r))) \<and>
    (tr_lock r \<noteq> Changed \<longrightarrow> tr_in_force r = lw_registry (tr_world r))"
  using tee_runs_inv[OF assms] by (auto simp: tee_inv_def resolved_def Let_def split: tee_pc.splits)

text \<open>Without other threads in between, the accesses of a call add up to the call taken as one step.\<close>

lemma undisturbed_call:
  assumes "tr_lock r = Free"
  shows "\<exists>n. (case (tee_step ^^ n) (begin_call f r) of r' \<Rightarrow>
    tr_pc r' = TeeReturned \<and> tr_lock r' = Free \<and> (tr_tee r', tr_world r') = with_handle f (tr_tee r) (tr_world r))"
proof -
  let ?t = "tr_tee r" and ?w = "tr_world r"
  define r1 where "r1 = r\<lparr>tr_op := f, tr_since_call := {tr_in_force r (te_session_id ?t)}, tr_pc := TeeCheck,
    tr_tee := if rs_generation (te_cached ?t) \<noteq> lw_generation ?w then refresh_binding ?w ?t else ?t\<rparr>"
  have "\<exists>n. (tee_step ^^ n) (begin_call f r) = r1"
  proof (cases "rs_generation (te_cached ?t) = lw_generation ?w")
    case True
    then have "(tee_step ^^ 2) (begin_call f r) = r1"
      by (simp add: eval_nat_numeral tee_step_def begin_call_def r1_def)
    then show ?thesis by blast
  next
    case False
    then have "(tee_step ^^ 4) (begin_call f r) = r1"
      using assms by (simp add: eval_nat_numeral tee_step_def begin_call_def r1_def refresh_binding_def lookup_session_snapshot_def)
    then show ?thesis by blast
  qed
  then obtain n where n: "(tee_step ^^ n) (begin_call f r) = r1" by blast
  define r2 where "r2 = (tee_step ^^ 2) r1"
  have "tr_pc r2 = TeeReturned \<and> tr_lock r2 = Free \<and> (tr_tee r2, tr_world r2) = with_handle f ?t ?w"
    using assms unfolding r2_def
    by (auto simp: eval_nat_numeral tee_step_def r1_def with_handle_def Let_def split: option.splits)
  moreover have "(tee_step ^^ (2 + n)) (begin_call f r) = r2" by (simp only: funpow_add comp_apply n r2_def)
  ultimately show ?thesis by (intro exI[of _ "2 + n"]) simp
qed

section \<open>An example\<close>

text \<open>
  The worker is removed after the tee has loaded the generation: the call still goes to it, as it was registered when
  the call began, and the cached binding does not carry the new generation.
\<close>

definition tee_disturbed :: "(unit, ustr list, unit) tee_run" where
  "tee_disturbed =
     (let r = tee_step (begin_call flush_async (tee_start demo_tee demo_spawned));
          w = snd (unregister_change (lit ''s'') 1 demo_spawned)
      in tee_step (tee_step (around (bump_generation w) Free (around (bump_generation w) Bumped (around w Changed r)))))"

lemma tee_disturbed_runs: "tee_runs tee_disturbed"
proof -
  let ?r = "tee_step (begin_call flush_async (tee_start demo_tee demo_spawned))"
  let ?w = "snd (unregister_change (lit ''s'') 1 demo_spawned)"
  have "tee_chat_persistence_with_serving_model True True (lit ''s'') [] None (Some ()) None lhc_world_init = (demo_tee, demo_spawned)"
    by (simp add: tee_chat_persistence_with_serving_model_def demo_spawned_def[symmetric] demo_tee_def lookup_session_snapshot_def)
      (simp add: demo_spawned_eq)
  then have r: "tee_runs ?r"
    by (intro tee_runs.own tee_runs.call tee_runs.new handle_op.intros) (simp_all add: tee_start_def)
  have "registry_step (tr_world ?r, tr_lock ?r) (?w, Changed)"
    by (simp add: tee_step_def begin_call_def tee_start_def)
      (rule registry_step.unregister[of "lit ''s''" 1], simp add: unregister_change_def demo_spawned_eq)
  note r1 = tee_runs.other[OF r this]
  have "registry_step (?w, Changed) (bump_generation ?w, Bumped)"
    by (rule registry_step.bump) (simp add: unregister_change_def demo_spawned_eq u64_max_def)
  then have "registry_step (tr_world (around ?w Changed ?r), tr_lock (around ?w Changed ?r)) (bump_generation ?w, Bumped)"
    by (simp add: around_def Let_def)
  note r2 = tee_runs.other[OF r1 this]
  have "registry_step (tr_world (around v Bumped r'), tr_lock (around v Bumped r')) (v, Free)" for v r'
    by (simp add: around_def Let_def registry_step.release)
  from tee_runs.own[OF tee_runs.own[OF tee_runs.other[OF r2 this]]] show ?thesis
    unfolding tee_disturbed_def Let_def .
qed

lemma tee_disturbed_sel:
  "tr_pc tee_disturbed = TeeSend 1" "lw_generation (tr_world tee_disturbed) = 2" "tr_since_call tee_disturbed = {None, Some 1}"
  by (simp_all add: tee_disturbed_def tee_step_def begin_call_def tee_start_def around_def unregister_change_def demo_spawned_eq
      bump_generation_def wrap_inc64_def demo_tee_def demo_shared_def is_closed_def Let_def)

theorem tee_call_resolves_witness:
  "tr_pc tee_disturbed = TeeSend 1 \<and> lw_registry (tr_world tee_disturbed) (lit ''s'') = None \<and> Some 1 \<in> tr_since_call tee_disturbed"
proof -
  have "lw_registry (tr_world tee_disturbed) (lit ''s'') = None"
    by (simp add: tee_disturbed_def tee_step_def begin_call_def tee_start_def around_def unregister_change_def demo_spawned_eq
      bump_generation_def wrap_inc64_def demo_tee_def demo_shared_def is_closed_def Let_def)
  then show ?thesis using tee_call_resolves[OF tee_disturbed_runs] tee_disturbed_sel(1) by blast
qed

end
