(* ===== verification/Lhc_Serving.thy ===== *)
theory Lhc_Serving
  imports Lhc_Registry
begin

text \<open>
  Serving a request from the archive and the body a compaction writes back
  (\<open>crates/lhc/grok-lhc-host/src/serving.rs\<close>, \<open>serve_request_context\<close> of \<open>lib.rs\<close>, \<open>get_classify_context\<close> of
  \<open>session.rs\<close>), with \<open>matches_live\<close> of \<open>crates/codegen/xai-chat-state/src/persistence.rs\<close> and the item
  constructors of \<open>conversation.rs\<close> that are used.

  The session view and the message records are values of the archive's SDK: the records below have the
  fields the host reads. What the SDK answers is an argument of the operations. The translation, the
  alignment of runtime notes and the assignment of prompt indices are whole.

  Proved: what a substituted request consists of, that a signed block of reasoning is sent only under the
  identity it was made with, and that the body written back is a fixpoint when its notes are distinct.
\<close>

section \<open>The session view\<close>

datatype message_kind = UserPrompt | OtherKind

record session_user_message =
  su_content :: ustr
  su_blocks :: "json_map list option"
  su_source_messages :: "ustr list"

datatype assistant_part_type = TextType | ThinkingType | ToolCallType | OtherType

record session_assistant_part =
  pt_type :: assistant_part_type
  pt_text :: "ustr option"
  pt_thinking :: "ustr option"
  pt_thinking_signature :: "ustr option"
  pt_tool_name :: "ustr option"
  pt_tool_call_id :: "ustr option"
  pt_arguments :: "json_map option"
  pt_block :: "json_map option"

record session_assistant_message =
  sa_content :: "session_assistant_part list"
  sa_provider :: "ustr option"
  sa_model :: "ustr option"
  sa_api :: "ustr option"

record session_tool_result =
  st_tool_call_id :: ustr
  st_content :: ustr
  st_blocks :: "json_map list option"

datatype view_entry =
    ViewUser session_user_message
  | ViewAssistant session_assistant_message
  | ViewToolResult session_tool_result
  | ViewModelChange ustr ustr
  | ViewThinkingLevelChange ustr

type_synonym session_thread_view = "view_entry list"

section \<open>The index of kinds\<close>

type_synonym source_kind_index = "ustr \<rightharpoonup> message_kind"

definition from_message_records :: "(ustr \<times> message_kind) list \<Rightarrow> source_kind_index" where
  "from_message_records records = fold (\<lambda>(message_id, kind) m. m(message_id \<mapsto> kind)) records Map.empty"

fun all_user_prompts :: "source_kind_index \<Rightarrow> ustr list \<Rightarrow> bool" where
  "all_user_prompts kinds [] = True"
| "all_user_prompts kinds (s # ss) =
     (case kinds s of Some UserPrompt \<Rightarrow> all_user_prompts kinds ss | _ \<Rightarrow> False)"

definition is_recorded_user_prompt :: "source_kind_index \<Rightarrow> ustr list \<Rightarrow> bool" where
  "is_recorded_user_prompt kinds sources = (if sources = [] then False else all_user_prompts kinds sources)"

datatype view_translate_mode = Serve | Writeback

datatype 'x serve_decision = Substitute "'x conversation_item list" | Native ustr

section \<open>Items\<close>

definition user_text :: "synthetic_reason \<Rightarrow> content_part list \<Rightarrow> 'x conversation_item" where
  "user_text reason parts =
     User \<lparr>usr_content = parts, usr_reason = reason, usr_cwd_generation = None,
           usr_prior_turn_interrupt = None, usr_prompt_index = None\<rparr>"

definition user :: "ustr \<Rightarrow> 'x conversation_item" where
  "user content = user_text Human [TextPart content]"

definition user_meta :: "ustr \<Rightarrow> 'x conversation_item" where
  "user_meta content = user_text CompactionMeta [TextPart content]"

definition tool_result :: "ustr \<Rightarrow> ustr \<Rightarrow> 'x conversation_item" where
  "tool_result tool_call_id content =
     ToolResult \<lparr>tr_tool_call_id = tool_call_id, tr_content = content, tr_images = []\<rparr>"

definition tool_result_with_images :: "ustr \<Rightarrow> ustr \<Rightarrow> content_part list \<Rightarrow> 'x conversation_item" where
  "tool_result_with_images tool_call_id content images =
     ToolResult \<lparr>tr_tool_call_id = tool_call_id, tr_content = content, tr_images = images\<rparr>"

definition synthesized_reasoning_item :: "ustr \<Rightarrow> reasoning_item" where
  "synthesized_reasoning_item text =
     \<lparr>rs_id = [], rs_summary = [text], rs_content = None, rs_encrypted_content = None\<rparr>"

section \<open>Identity\<close>

definition is_complete :: "host_assistant_identity \<Rightarrow> bool" where
  "is_complete h \<longleftrightarrow>
     hi_provider h \<noteq> [] \<and>
     (case hi_model h of Some m \<Rightarrow> m \<noteq> [] | None \<Rightarrow> False) \<and>
     (case hi_api h of Some a \<Rightarrow> a \<noteq> [] | None \<Rightarrow> False)"

definition matches_live :: "host_assistant_identity \<Rightarrow> host_assistant_identity \<Rightarrow> bool" where
  "matches_live h live \<longleftrightarrow>
     is_complete h \<and> is_complete live \<and> hi_provider h = hi_provider live \<and>
     hi_model h = hi_model live \<and> hi_api h = hi_api live"

section \<open>Prefix and prompt indices\<close>

text \<open>The loop of \<open>split_system_prefix\<close> with its flag.\<close>

fun split_loop :: "'x conversation_item list \<Rightarrow> bool \<Rightarrow>
    'x conversation_item list \<times> 'x conversation_item list \<Rightarrow>
    'x conversation_item list \<times> 'x conversation_item list" where
  "split_loop [] in_prefix acc = acc"
| "split_loop (item # items) in_prefix (prefix, rest) =
     (case item of
        System _ \<Rightarrow>
          (if in_prefix then split_loop items in_prefix (prefix @ [item], rest)
           else split_loop items False (prefix, rest @ [item]))
      | _ \<Rightarrow> split_loop items False (prefix, rest @ [item]))"

definition split_system_prefix :: "'x conversation_item list \<Rightarrow>
    'x conversation_item list \<times> 'x conversation_item list" where
  "split_system_prefix native = split_loop native True ([], [])"

definition human_index :: "'x conversation_item \<Rightarrow> usize option" where
  "human_index item =
     (case item of User u \<Rightarrow> if is_human (usr_reason u) then usr_prompt_index u else None | _ \<Rightarrow> None)"

definition native_prompt_indices :: "'x conversation_item list \<Rightarrow> usize list" where
  "native_prompt_indices native = List.map_filter human_index native"

definition is_human_item :: "'x conversation_item \<Rightarrow> bool" where
  "is_human_item item = (case item of User u \<Rightarrow> is_human (usr_reason u) | _ \<Rightarrow> False)"

definition set_prompt_index :: "usize \<Rightarrow> 'x conversation_item \<Rightarrow> 'x conversation_item" where
  "set_prompt_index pi item = (case item of User u \<Rightarrow> User (u\<lparr>usr_prompt_index := Some pi\<rparr>) | _ \<Rightarrow> item)"

definition assign_prompt_indices_from_tail ::
  "'x conversation_item list \<Rightarrow> usize list \<Rightarrow> 'x conversation_item list" where
  "assign_prompt_indices_from_tail body indices =
     (let user_slots = filter (\<lambda>idx. is_human_item (body ! idx)) [0..<length body]
      in if user_slots = [] \<or> indices = [] then body
         else (let tk = min (length user_slots) (length indices);
                   native_tail = drop (length indices - tk) indices;
                   body_tail = drop (length user_slots - tk) user_slots
               in fold (\<lambda>(slot, pi) b. b[slot := set_prompt_index pi (b ! slot)]) (zip body_tail native_tail) body))"

section \<open>Runtime notes\<close>

definition RUNTIME_NOTE_PREFIX :: ustr where "RUNTIME_NOTE_PREFIX = lit ''[runtime note] ''"

definition runtime_note_text :: "'x conversation_item \<Rightarrow> ustr option" where
  "runtime_note_text item =
     (case item of
        User u \<Rightarrow>
          (if is_human (usr_reason u) then None
           else (case usr_content u of
                   [TextPart text] \<Rightarrow> strip_prefix RUNTIME_NOTE_PREFIX text
                 | _ \<Rightarrow> None))
      | _ \<Rightarrow> None)"

definition user_item_text :: "user_item \<Rightarrow> ustr" where
  "user_item_text u =
     join [NL] (map (\<lambda>p. case p of TextPart text \<Rightarrow> text | ImagePart _ \<Rightarrow> lit ''[image]'') (usr_content u))"

definition same_host_item :: "'x conversation_item \<Rightarrow> 'x conversation_item \<Rightarrow> bool" where
  "same_host_item a b =
     (case (a, b) of
        (User x, User y) \<Rightarrow>
          is_human (usr_reason x) = is_human (usr_reason y) \<and> user_item_text x = user_item_text y
      | (Assistant x, Assistant y) \<Rightarrow>
          as_content x = as_content y \<and> length (as_tool_calls x) = length (as_tool_calls y) \<and>
          list_all (\<lambda>(p, q). tc_id p = tc_id q) (zip (as_tool_calls x) (as_tool_calls y))
      | (ToolResult x, ToolResult y) \<Rightarrow> tr_tool_call_id x = tr_tool_call_id y
      | _ \<Rightarrow> False)"

text \<open>\<open>Iterator::position\<close>, \<open>Vec::remove\<close> and \<open>Vec::insert\<close>; the indices the code uses are in range.\<close>

fun position :: "('a \<Rightarrow> bool) \<Rightarrow> 'a list \<Rightarrow> nat option" where
  "position P [] = None"
| "position P (x # xs) = (if P x then Some 0 else map_option Suc (position P xs))"

definition vec_remove :: "nat \<Rightarrow> 'a list \<Rightarrow> 'a list" where
  "vec_remove i xs = take i xs @ drop (Suc i) xs"

definition vec_insert :: "nat \<Rightarrow> 'a \<Rightarrow> 'a list \<Rightarrow> 'a list" where
  "vec_insert i x xs = take i xs @ x # drop i xs"

definition is_system_text :: "ustr \<Rightarrow> 'x conversation_item \<Rightarrow> bool" where
  "is_system_text text item = (case item of System s \<Rightarrow> sys_content s = text | _ \<Rightarrow> False)"

definition is_synthetic_text :: "ustr \<Rightarrow> 'x conversation_item \<Rightarrow> bool" where
  "is_synthetic_text text item =
     (case item of User u \<Rightarrow> \<not> is_human (usr_reason u) \<and> user_item_text u = text | _ \<Rightarrow> False)"

definition drop_system_copies ::
  "'x conversation_item list \<Rightarrow> 'x conversation_item list \<Rightarrow> 'x conversation_item list" where
  "drop_system_copies system_prefix body =
     filter (\<lambda>item. case runtime_note_text item of
               Some text \<Rightarrow> \<not> list_ex (is_system_text text) system_prefix
             | None \<Rightarrow> True) body"

text \<open>One turn of the loop: the new body and the new index.\<close>

definition align_step :: "'x conversation_item list \<Rightarrow> 'x conversation_item list \<Rightarrow> nat \<Rightarrow>
    'x conversation_item list \<times> nat" where
  "align_step rest body i =
     (case runtime_note_text (body ! i) of
        None \<Rightarrow> (body, i + 1)
      | Some text \<Rightarrow>
          (case position (is_synthetic_text text) rest of
             None \<Rightarrow> (body, i + 1)
           | Some j \<Rightarrow>
               (let native_item = rest ! j;
                    target = (if j = 0 then Some 0
                              else map_option (\<lambda>k. k + 1) (position (\<lambda>b. same_host_item b (rest ! (j - 1))) body))
                in case target of
                     Some t \<Rightarrow>
                       (if t > i then (vec_insert (t - 1) native_item (vec_remove i body), t)
                        else if t = 0 \<and> i \<noteq> 0 then (vec_insert 0 native_item (vec_remove i body), i + 1)
                        else (body[i := native_item], i + 1))
                   | None \<Rightarrow> (body[i := native_item], i + 1))))"

lemma align_step_advances: "align_step rest body i = (body', i') \<Longrightarrow> i < i'"
  by (auto simp: align_step_def Let_def split: option.splits if_splits)

lemma length_vec_remove_insert [simp]:
  "i < length xs \<Longrightarrow> length (vec_remove i xs) = length xs - 1"
  "length (vec_insert i x xs) = length xs + 1"
  by (auto simp: vec_remove_def vec_insert_def)

lemma length_align_step:
  "align_step rest body i = (body', i') \<Longrightarrow> i < length body \<Longrightarrow> length body' = length body"
  by (auto simp: align_step_def Let_def split: option.splits if_splits)

lemma align_step_measure:
  "i < length body \<Longrightarrow> (case align_step rest body i of (body', i') \<Rightarrow> length body' - i') < length body - i"
  using align_step_advances[of rest body i] length_align_step[of rest body i]
  by (auto split: prod.split)

function align_loop :: "'x conversation_item list \<Rightarrow> 'x conversation_item list \<Rightarrow> nat \<Rightarrow>
    'x conversation_item list" where
  "align_loop rest body i =
     (if i < length body then (case align_step rest body i of (body', i') \<Rightarrow> align_loop rest body' i') else body)"
  by pat_completeness auto

termination
  by (relation "measure (\<lambda>(rest, body, i). length body - i)") (auto simp: align_step_measure)

declare align_loop.simps [simp del]

definition align_runtime_notes_with_native ::
  "'x conversation_item list \<Rightarrow> 'x conversation_item list \<Rightarrow> 'x conversation_item list" where
  "align_runtime_notes_with_native body native =
     (let (system_prefix, rest) = split_system_prefix native
      in align_loop rest (drop_system_copies system_prefix body) 0)"

section \<open>Translating the view\<close>

definition is_band_user :: "session_user_message \<Rightarrow> bool" where
  "is_band_user u \<longleftrightarrow> su_source_messages u = []"

definition flush_bands :: "view_translate_mode \<Rightarrow> ustr list \<Rightarrow> 'x conversation_item list \<Rightarrow> 'x conversation_item list" where
  "flush_bands mode band_chunks out =
     (if band_chunks = [] then out
      else (case mode of
              Serve \<Rightarrow> out @ map user_meta band_chunks
            | Writeback \<Rightarrow> out @ [user_meta (join [NL, NL] band_chunks)]))"

definition or_lit :: "ustr option \<Rightarrow> string \<Rightarrow> ustr" where
  "or_lit v d = (case v of Some s \<Rightarrow> s | None \<Rightarrow> lit d)"

record 'x emit_state =
  em_text_parts :: "ustr list"
  em_tool_calls :: "tool_call list"
  em_out :: "'x conversation_item list"

definition emit_thinking :: "bool \<Rightarrow> session_assistant_part \<Rightarrow> reasoning_item option" where
  "emit_thinking reemit_signature p =
     (let signature = (case pt_thinking_signature p of
                         Some s \<Rightarrow> if s \<noteq> [] \<and> reemit_signature then Some s else None
                       | None \<Rightarrow> None)
      in if pt_thinking p = None \<and> (case pt_thinking_signature p of Some s \<Rightarrow> s = [] | None \<Rightarrow> True) then None
         else if pt_thinking p = None \<and> signature = None then None
         else (let item = synthesized_reasoning_item (or_lit (pt_thinking p) '''')
               in Some (case signature of Some sig \<Rightarrow> item\<lparr>rs_encrypted_content := Some sig\<rparr> | None \<Rightarrow> item)))"

definition emit_tool_call :: "'x lhc_env \<Rightarrow> session_assistant_part \<Rightarrow> tool_call" where
  "emit_tool_call env p =
     \<lparr>tc_id = or_lit (pt_tool_call_id p) ''unknown_call'',
      tc_name = or_lit (pt_tool_name p) ''unknown_tool'',
      tc_arguments = (case pt_arguments p of Some m \<Rightarrow> json_to_string env (JObject m) | None \<Rightarrow> lit ''{}'')\<rparr>"

definition emit_line :: "'x lhc_env \<Rightarrow> session_assistant_part \<Rightarrow> ustr" where
  "emit_line env p =
     (case non_empty (pt_text p) of
        Some t \<Rightarrow> t
      | None \<Rightarrow> (case pt_block p of Some block \<Rightarrow> placeholder_text env (JObject block) | None \<Rightarrow> []))"

definition emit_part :: "'x lhc_env \<Rightarrow> bool \<Rightarrow> session_assistant_part \<Rightarrow> 'x emit_state \<Rightarrow> 'x emit_state" where
  "emit_part env reemit_signature p st =
     (case pt_type p of
        TextType \<Rightarrow>
          (case non_empty (pt_text p) of Some t \<Rightarrow> st\<lparr>em_text_parts := em_text_parts st @ [t]\<rparr> | None \<Rightarrow> st)
      | ThinkingType \<Rightarrow>
          (case emit_thinking reemit_signature p of
             Some item \<Rightarrow> st\<lparr>em_out := em_out st @ [Reasoning item]\<rparr>
           | None \<Rightarrow> st)
      | ToolCallType \<Rightarrow> st\<lparr>em_tool_calls := em_tool_calls st @ [emit_tool_call env p]\<rparr>
      | OtherType \<Rightarrow>
          (let line = emit_line env p
           in if line \<noteq> [] then st\<lparr>em_text_parts := em_text_parts st @ [line]\<rparr> else st))"

definition stored_identity :: "session_assistant_message \<Rightarrow> host_assistant_identity" where
  "stored_identity a = \<lparr>hi_provider = or_lit (sa_provider a) '''', hi_model = sa_model a, hi_api = sa_api a\<rparr>"

definition emit_assistant_conserved ::
  "'x lhc_env \<Rightarrow> session_assistant_message \<Rightarrow> 'x conversation_item list \<Rightarrow> host_assistant_identity option \<Rightarrow>
     'x conversation_item list" where
  "emit_assistant_conserved env a out live_identity =
     (let reemit_signature =
            (case live_identity of Some live \<Rightarrow> matches_live (stored_identity a) live | None \<Rightarrow> False);
          st = fold (emit_part env reemit_signature) (sa_content a)
                 \<lparr>em_text_parts = [], em_tool_calls = [], em_out = out\<rparr>;
          content = join [NL] (em_text_parts st)
      in if content = [] \<and> em_tool_calls st = [] then em_out st
         else em_out st @
           [Assistant \<lparr>as_content = content, as_tool_calls = em_tool_calls st, as_model_id = non_empty (sa_model a),
                       as_model_fingerprint = None, as_reasoning_effort = None\<rparr>])"

definition translate_user :: "'x lhc_env \<Rightarrow> source_kind_index \<Rightarrow> session_user_message \<Rightarrow> 'x conversation_item" where
  "translate_user env kinds u =
     (if is_recorded_user_prompt kinds (su_source_messages u)
      then (case su_blocks u of
              Some blocks \<Rightarrow> user_text Human (content_parts_from_blocks env blocks)
            | None \<Rightarrow> user (su_content u))
      else user_meta (su_content u))"

definition translate_tool_result :: "'x lhc_env \<Rightarrow> session_tool_result \<Rightarrow> 'x conversation_item" where
  "translate_tool_result env tr =
     (case st_blocks tr of
        Some blocks \<Rightarrow>
          (let (content, images) = tool_result_parts_from_blocks env blocks
           in tool_result_with_images (st_tool_call_id tr) content images)
      | None \<Rightarrow> tool_result (st_tool_call_id tr) (st_content tr))"

definition translate_entry ::
  "'x lhc_env \<Rightarrow> source_kind_index \<Rightarrow> view_translate_mode \<Rightarrow> host_assistant_identity option \<Rightarrow> view_entry \<Rightarrow>
     'x conversation_item list \<times> ustr list \<Rightarrow> 'x conversation_item list \<times> ustr list" where
  "translate_entry env kinds mode live_identity entry s =
     (case s of (out, band_chunks) \<Rightarrow>
      (case entry of
         ViewUser u \<Rightarrow>
           (if is_band_user u then (out, band_chunks @ [su_content u])
            else (flush_bands mode band_chunks out @ [translate_user env kinds u], []))
       | ViewAssistant a \<Rightarrow> (emit_assistant_conserved env a (flush_bands mode band_chunks out) live_identity, [])
       | ViewToolResult tr \<Rightarrow> (flush_bands mode band_chunks out @ [translate_tool_result env tr], [])
       | ViewModelChange provider model_id \<Rightarrow>
           (flush_bands mode band_chunks out @
              [user_meta (lit ''[model change] '' @ provider @ lit ''/'' @ model_id)], [])
       | ViewThinkingLevelChange level \<Rightarrow>
           (flush_bands mode band_chunks out @ [user_meta (lit ''[thinking level change] '' @ level)], [])))"

definition session_view_to_items ::
  "'x lhc_env \<Rightarrow> session_thread_view \<Rightarrow> source_kind_index \<Rightarrow> view_translate_mode \<Rightarrow>
     host_assistant_identity option \<Rightarrow> ustr + 'x conversation_item list" where
  "session_view_to_items env view kinds mode live_identity =
     (let (out, band_chunks) = fold (translate_entry env kinds mode live_identity) view ([], [])
      in Inr (flush_bands mode band_chunks out))"

definition session_view_to_serve_items ::
  "'x lhc_env \<Rightarrow> session_thread_view \<Rightarrow> source_kind_index \<Rightarrow> host_assistant_identity option \<Rightarrow>
     ustr + 'x conversation_item list" where
  "session_view_to_serve_items env view kinds live_identity = session_view_to_items env view kinds Serve live_identity"

definition session_view_to_writeback_items ::
  "'x lhc_env \<Rightarrow> session_thread_view \<Rightarrow> source_kind_index \<Rightarrow> ustr + 'x conversation_item list" where
  "session_view_to_writeback_items env view kinds = session_view_to_items env view kinds Writeback None"

definition body_has_tool_cycle :: "'x conversation_item list \<Rightarrow> bool" where
  "body_has_tool_cycle items =
     list_ex (\<lambda>item. case item of
                ToolResult _ \<Rightarrow> True | BackendToolCall _ \<Rightarrow> True | Assistant a \<Rightarrow> as_tool_calls a \<noteq> [] | _ \<Rightarrow> False) items"

section \<open>Substitution and write-back\<close>

definition build_writeback_conversation ::
  "'x lhc_env \<Rightarrow> 'x conversation_item list \<Rightarrow> session_thread_view \<Rightarrow> source_kind_index \<Rightarrow>
     ustr + 'x conversation_item list" where
  "build_writeback_conversation env native_before view kinds =
     (case session_view_to_items env view kinds Writeback None of
        Inl err \<Rightarrow> Inl err
      | Inr body \<Rightarrow>
          (if body = [] then Inl (lit ''empty_lhc_context'')
           else (let body = align_runtime_notes_with_native body native_before;
                     indices = native_prompt_indices native_before;
                     body = assign_prompt_indices_from_tail body indices;
                     system_prefix = fst (split_system_prefix native_before)
                 in Inr (system_prefix @ body))))"

definition decide_substitution ::
  "'x lhc_env \<Rightarrow> 'x conversation_item list \<Rightarrow> session_thread_view \<Rightarrow> source_kind_index \<Rightarrow>
     host_assistant_identity option \<Rightarrow> 'x serve_decision" where
  "decide_substitution env native_items view kinds live_identity =
     (case session_view_to_serve_items env view kinds live_identity of
        Inl err \<Rightarrow> Native (lit ''context_translation_failed'')
      | Inr body \<Rightarrow>
          (if body = [] then Native (lit ''empty_lhc_context'')
           else (let body = align_runtime_notes_with_native body native_items;
                     indices = native_prompt_indices native_items;
                     body = assign_prompt_indices_from_tail body indices;
                     system_prefix = fst (split_system_prefix native_items)
                 in Substitute (system_prefix @ body))))"

definition apply_serve_decision ::
  "'x conversation_item list \<Rightarrow> 'x serve_decision \<Rightarrow> 'x conversation_item list \<times> bool" where
  "apply_serve_decision native_items decision =
     (case decision of Substitute items \<Rightarrow> (items, True) | Native _ \<Rightarrow> (native_items, False))"

definition note_last_serve :: "ustr \<Rightarrow> 'x serve_decision \<Rightarrow> ('x, 'a, 's) lhc_world \<Rightarrow> ('x, 'a, 's) lhc_world" where
  "note_last_serve session_id decision w =
     (let outcome = (case decision of
                       Substitute _ \<Rightarrow> \<lparr>ls_substituted = True, ls_reason = None\<rparr>
                     | Native reason \<Rightarrow> \<lparr>ls_substituted = False, ls_reason = Some reason\<rparr>)
      in w\<lparr>lw_last_serve := (lw_last_serve w)(session_id \<mapsto> outcome)\<rparr>)"

definition last_serve_outcome_of :: "ustr \<Rightarrow> ('x, 'a, 's) lhc_world \<Rightarrow> last_serve_outcome option" where
  "last_serve_outcome_of session_id w = lw_last_serve w session_id"

text \<open>The view and the message list are the SDK's answers.\<close>

definition get_classify_context ::
  "ustr + session_thread_view \<Rightarrow> ustr + (ustr \<times> message_kind) list \<Rightarrow>
     ustr + session_thread_view \<times> source_kind_index" where
  "get_classify_context thread_view messages =
     (case thread_view of
        Inl err \<Rightarrow> Inl err
      | Inr view \<Rightarrow>
          (case messages of
             Inr records \<Rightarrow> Inr (view, from_message_records records)
           | Inl reason \<Rightarrow> Inl (lit ''messages_list_failed: '' @ reason)))"

text \<open>What the round trip to the worker brings within the time limit.\<close>

datatype classify_reply = TimedOut | Replied "ustr + session_thread_view \<times> source_kind_index"

text \<open>
  While the request waits for the worker the other tasks of the process go on: \<open>meanwhile\<close> is what they do.
  The outcome is noted after the wait.
\<close>

definition serve_request_context_inner ::
  "'x lhc_env \<Rightarrow> ustr \<Rightarrow> 'x conversation_item list \<Rightarrow> host_assistant_identity option \<Rightarrow> (u64 \<Rightarrow> classify_reply) \<Rightarrow>
     (('x, 'a, 's) lhc_world \<Rightarrow> ('x, 'a, 's) lhc_world) \<Rightarrow> ('x, 'a, 's) lhc_world \<Rightarrow>
     'x serve_decision \<times> ('x, 'a, 's) lhc_world" where
  "serve_request_context_inner env session_id native_items live_identity reply meanwhile w =
     (case lookup_session session_id w of
        None \<Rightarrow> (Native (lit ''no_capture_handle''), w)
      | Some handle \<Rightarrow>
          (case reply handle of
             Replied (Inr (view, kinds)) \<Rightarrow> decide_substitution env native_items view kinds live_identity
           | Replied (Inl err) \<Rightarrow> Native (lit ''get_classify_context_failed'')
           | TimedOut \<Rightarrow> Native (lit ''get_classify_context_timeout''), meanwhile w))"

definition serve_request_context ::
  "'x lhc_env \<Rightarrow> ustr \<Rightarrow> 'x conversation_item list \<Rightarrow> host_assistant_identity option \<Rightarrow> (u64 \<Rightarrow> classify_reply) \<Rightarrow>
     (('x, 'a, 's) lhc_world \<Rightarrow> ('x, 'a, 's) lhc_world) \<Rightarrow> ('x, 'a, 's) lhc_world \<Rightarrow>
     'x serve_decision \<times> ('x, 'a, 's) lhc_world" where
  "serve_request_context env session_id native_items live_identity reply meanwhile w =
     (if \<not> any_capture_active w \<or> \<not> capture_active session_id w then (Native (lit ''lhc_inactive''), w)
      else (let (decision, w) = serve_request_context_inner env session_id native_items live_identity reply meanwhile w
            in (decision, note_last_serve session_id decision w)))"

datatype context_engine = EngineLhc | EngineNative | NoServeTurnYet

definition engine_from_last_serve :: "ustr \<Rightarrow> bool \<Rightarrow> ('x, 'a, 's) lhc_world \<Rightarrow> context_engine \<times> ustr option" where
  "engine_from_last_serve session_id capture w =
     (if \<not> capture then (EngineNative, None)
      else (case last_serve_outcome_of session_id w of
              Some oc \<Rightarrow> if ls_substituted oc then (EngineLhc, None) else (EngineNative, ls_reason oc)
            | None \<Rightarrow> (NoServeTurnYet, None)))"

section \<open>Positions and the split of a body\<close>

lemma position_None_iff: "position P xs = None \<longleftrightarrow> (\<forall>x \<in> set xs. \<not> P x)"
  by (induction xs) auto

lemma position_Some_iff: "position P xs = Some k \<longleftrightarrow> k < length xs \<and> P (xs ! k) \<and> (\<forall>m < k. \<not> P (xs ! m))"
proof (induction xs arbitrary: k)
  case (Cons x xs)
  then show ?case by (cases k) (auto simp: nth_Cons split: nat.splits)
qed simp

lemma position_unique:
  assumes "filter P (xs @ z # ys) = [z]" "P z"
  shows "position P (xs @ z # ys) = Some (length xs)"
proof -
  have "filter P xs = []" using assms by (cases "filter P xs") auto
  then show ?thesis using assms(2) by (auto simp: position_Some_iff nth_append filter_empty_conv)
qed

lemma list_update_remove_insert: "i < length xs \<Longrightarrow> xs[i := z] = vec_insert i z (vec_remove i xs)"
  by (simp add: vec_insert_def vec_remove_def upd_conv_take_nth_drop)

text \<open>What a comparison of items must be for an anchor to be found again: symmetric and transitive.\<close>

locale item_identity =
  fixes same :: "'i \<Rightarrow> 'i \<Rightarrow> bool"
  assumes same_sym: "same a b \<Longrightarrow> same b a"
    and same_trans: "same a b \<Longrightarrow> same b c \<Longrightarrow> same a c"
begin

lemma anchor_found_again:
  assumes "position (\<lambda>b. same b r) xs = Some k"
  shows "position (\<lambda>b. same b (xs ! k)) xs = Some k"
proof -
  have "same (xs ! k) r" using assms by (simp add: position_Some_iff)
  then have "same b (xs ! k) \<longleftrightarrow> same b r" for b using same_sym same_trans by blast
  then show ?thesis using assms by simp
qed

lemma anchor_not_later:
  assumes "position (\<lambda>b. same b (xs ! m)) xs = Some k"
  shows "k \<le> m"
proof (rule ccontr)
  assume "\<not> k \<le> m"
  moreover have "same (xs ! k) (xs ! m)" using assms by (simp add: position_Some_iff)
  then have "same (xs ! m) (xs ! m)" using same_sym same_trans by blast
  ultimately show False using assms by (simp add: position_Some_iff)
qed

end

lemma same_ids_conv:
  "length xs = length ys \<Longrightarrow> list_all (\<lambda>(p, q). tc_id p = tc_id q) (zip xs ys) \<longleftrightarrow> map tc_id xs = map tc_id ys"
  by (induction xs ys rule: list_induct2) auto

lemma same_host_item_Assistant:
  "same_host_item (Assistant x) (Assistant y) \<longleftrightarrow>
     as_content x = as_content y \<and> map tc_id (as_tool_calls x) = map tc_id (as_tool_calls y)"
  by (cases "length (as_tool_calls x) = length (as_tool_calls y)")
     (auto simp: same_host_item_def same_ids_conv dest: map_eq_imp_length_eq)

interpretation host_item: item_identity same_host_item
proof
  fix a b c :: "'a conversation_item"
  show "same_host_item a b \<Longrightarrow> same_host_item b a"
    by (cases a; cases b) (auto simp: same_host_item_Assistant, auto simp: same_host_item_def)
  show "same_host_item a b \<Longrightarrow> same_host_item b c \<Longrightarrow> same_host_item a c"
    by (cases a; cases b; cases c) (auto simp: same_host_item_Assistant, auto simp: same_host_item_def)
qed

definition is_system :: "'x conversation_item \<Rightarrow> bool" where
  "is_system item = (case item of System _ \<Rightarrow> True | _ \<Rightarrow> False)"

lemma split_loop_False: "split_loop items False (p, r) = (p, r @ items)"
  by (induction items arbitrary: r) (auto split: conversation_item.split)

lemma split_loop_True: "split_loop items True (p, []) = (p @ takeWhile is_system items, dropWhile is_system items)"
  by (induction items arbitrary: p)
     (auto simp: is_system_def split_loop_False split: conversation_item.split)

lemma split_system_prefix_conv: "split_system_prefix native = (takeWhile is_system native, dropWhile is_system native)"
  by (simp add: split_system_prefix_def split_loop_True)

section \<open>The alignment loop\<close>

definition is_synthetic :: "'x conversation_item \<Rightarrow> bool" where
  "is_synthetic item = (case item of User u \<Rightarrow> \<not> is_human (usr_reason u) | _ \<Rightarrow> False)"

lemma synthetic_text_unique: "is_synthetic_text n x \<Longrightarrow> is_synthetic_text m x \<longleftrightarrow> m = n"
  by (auto simp: is_synthetic_text_def split: conversation_item.splits)

lemma synthetic_text_synthetic: "is_synthetic_text n x \<Longrightarrow> is_synthetic x"
  by (auto simp: is_synthetic_text_def is_synthetic_def split: conversation_item.splits)

lemma note_synthetic: "runtime_note_text x = Some n \<Longrightarrow> is_synthetic x"
  by (auto simp: runtime_note_text_def is_synthetic_def split: conversation_item.splits if_splits)

text \<open>The ways a turn can go: nothing to replace, behind its anchor, to the front, or in place.\<close>

lemma align_step_shape [consumes 2, case_names keep move front place]:
  assumes "align_step rest body i = (body', i')" "i < length body"
  obtains "body' = body" "i' = i + 1"
      "\<And>n. runtime_note_text (body ! i) = Some n \<Longrightarrow> position (is_synthetic_text n) rest = None"
  | n j k where "runtime_note_text (body ! i) = Some n" "position (is_synthetic_text n) rest = Some j" "j \<noteq> 0"
      "position (\<lambda>b. same_host_item b (rest ! (j - 1))) body = Some k" "i \<le> k" "k < length body"
      "body' = vec_insert k (rest ! j) (vec_remove i body)" "i' = k + 1"
  | n where "runtime_note_text (body ! i) = Some n" "position (is_synthetic_text n) rest = Some 0" "i \<noteq> 0"
      "body' = vec_insert 0 (rest ! 0) (vec_remove i body)" "i' = i + 1"
  | n j where "runtime_note_text (body ! i) = Some n" "position (is_synthetic_text n) rest = Some j"
      "body' = vec_insert i (rest ! j) (vec_remove i body)" "i' = i + 1"
proof (cases "runtime_note_text (body ! i)")
  case None
  then show ?thesis using assms that(1) by (simp add: align_step_def)
next
  case (Some n)
  show ?thesis
  proof (cases "position (is_synthetic_text n) rest")
    case None
    then show ?thesis using assms Some that(1) by (simp add: align_step_def)
  next
    case pos: (Some j)
    show ?thesis
    proof (cases "j = 0")
      case True
      show ?thesis
      proof (cases "i = 0")
        case True
        then show ?thesis using that(4)[OF Some pos] assms Some pos \<open>j = 0\<close>
          by (simp add: align_step_def Let_def list_update_remove_insert)
      next
        case False
        then show ?thesis using that(3)[OF Some] assms Some pos \<open>j = 0\<close> by (simp add: align_step_def Let_def)
      qed
    next
      case False
      show ?thesis
      proof (cases "position (\<lambda>b. same_host_item b (rest ! (j - 1))) body")
        case None
        then show ?thesis using that(4)[OF Some pos] assms Some pos False
          by (simp add: align_step_def Let_def list_update_remove_insert)
      next
        case anchor: (Some k)
        have k: "k < length body" using anchor by (simp add: position_Some_iff)
        show ?thesis
        proof (cases "i \<le> k")
          case True
          then show ?thesis using that(2)[OF Some pos False anchor] k assms Some pos anchor False
            by (simp add: align_step_def Let_def)
        next
          case False
          then show ?thesis using that(4)[OF Some pos] assms Some pos anchor \<open>j \<noteq> 0\<close>
            by (simp add: align_step_def Let_def list_update_remove_insert)
        qed
      qed
    qed
  qed
qed

lemma align_step_drop:
  assumes "align_step rest body i = (body', i')" "i < length body"
  shows "drop i' body' = drop i' body"
  using assms by (cases rule: align_step_shape) (auto simp: vec_insert_def vec_remove_def min_def)

text \<open>The items a turn can touch: the note at the index, and the item of its text that takes its place.\<close>

lemma align_step_items:
  assumes "align_step rest body i = (body', i')" "i < length body"
  obtains "body' = body"
  | n z p where "runtime_note_text (body ! i) = Some n" "is_synthetic_text n z" "z \<in> set rest"
      "body' = vec_insert p z (vec_remove i body)"
  using assms by (cases rule: align_step_shape) (auto simp: position_Some_iff)

lemma filter_insert_remove:
  assumes "i < length xs" "\<not> P z" "\<not> P (xs ! i)"
  shows "filter P (vec_insert p z (vec_remove i xs)) = filter P xs"
proof -
  have "filter P (vec_insert p z ys) = filter P ys" for ys
    using assms(2) by (simp add: vec_insert_def) (metis append_take_drop_id filter_append)
  moreover have "filter P (take i xs @ xs ! i # drop (Suc i) xs) = filter P (vec_remove i xs)"
    using assms(3) by (simp add: vec_remove_def)
  ultimately show ?thesis using assms(1) by (simp add: id_take_nth_drop[symmetric])
qed

lemma set_insert_remove: "set (vec_insert p z (vec_remove i xs)) \<subseteq> insert z (set xs)"
  by (auto simp: vec_insert_def vec_remove_def dest: in_set_takeD in_set_dropD)

lemma align_loop_filter:
  assumes "\<And>x. is_synthetic x \<Longrightarrow> \<not> P x"
  shows "filter P (align_loop rest body i) = filter P body"
proof (induction rest body i rule: align_loop.induct)
  case (1 rest body i)
  show ?case
  proof (cases "i < length body")
    case True
    obtain body' i' where step: "align_step rest body i = (body', i')" by fastforce
    have "filter P body' = filter P body"
      using step True
      by (cases rule: align_step_items)
         (auto intro!: filter_insert_remove True assms intro: synthetic_text_synthetic note_synthetic)
    then show ?thesis using 1 True step by (simp add: align_loop.simps[of rest body i])
  qed (simp add: align_loop.simps)
qed

lemma align_loop_set: "x \<in> set (align_loop rest body i) \<Longrightarrow> x \<in> set body \<or> x \<in> set rest \<and> is_synthetic x"
proof (induction rest body i rule: align_loop.induct)
  case (1 rest body i)
  show ?case
  proof (cases "i < length body")
    case True
    obtain body' i' where step: "align_step rest body i = (body', i')" by fastforce
    have "x \<in> set body' \<Longrightarrow> x \<in> set body \<or> x \<in> set rest \<and> is_synthetic x"
      using step True
      by (cases rule: align_step_items) (use set_insert_remove synthetic_text_synthetic in fastforce)+
    then show ?thesis using 1 True step by (auto simp: align_loop.simps[of rest body i])
  qed (use 1 in \<open>simp add: align_loop.simps\<close>)
qed

lemma align_loop_length: "length (align_loop rest body i) = length body"
proof (induction rest body i rule: align_loop.induct)
  case (1 rest body i)
  then show ?case using length_align_step[of rest body i]
    by (cases "align_step rest body i") (auto simp: align_loop.simps[of rest body i])
qed

section \<open>Aligning again\<close>

definition note_texts :: "'x conversation_item list \<Rightarrow> ustr list" where
  "note_texts items = List.map_filter runtime_note_text items"

lemma notes_simps [simp]:
  "note_texts [] = []" "note_texts (x # xs) = (case runtime_note_text x of Some n \<Rightarrow> n # note_texts xs | None \<Rightarrow> note_texts xs)"
  "note_texts (xs @ ys) = note_texts xs @ note_texts ys"
  by (auto simp: note_texts_def map_filter_def split: option.split)

lemma set_notes: "set (note_texts xs) = {n. \<exists>x \<in> set xs. runtime_note_text x = Some n}"
  by (induction xs) (auto split: option.splits)

lemma notes_drop:
  "i \<le> k \<Longrightarrow> set (note_texts (drop k xs)) \<subseteq> set (note_texts (drop i xs))"
  by (auto simp: set_notes dest: set_drop_subset_set_drop[THEN subsetD])

lemma notes_split:
  "i < length xs \<Longrightarrow> note_texts (drop i xs) =
     (case runtime_note_text (xs ! i) of Some n \<Rightarrow> n # note_texts (drop (Suc i) xs) | None \<Rightarrow> note_texts (drop (Suc i) xs))"
  by (simp add: Cons_nth_drop_Suc[symmetric])

lemma distinct_notes_drop: "distinct (note_texts (drop i xs)) \<Longrightarrow> i \<le> k \<Longrightarrow> distinct (note_texts (drop k xs))"
  by (metis append_take_drop_id distinct_append drop_drop le_add_diff_inverse2 notes_simps(3))

text \<open>The notes ahead of the index have different texts, and no synthetic item has the bare text of one.\<close>

definition separate :: "'x conversation_item list \<Rightarrow> nat \<Rightarrow> bool" where
  "separate body i \<longleftrightarrow>
     distinct (note_texts (drop i body)) \<and>
     (\<forall>n \<in> set (note_texts (drop i body)). \<forall>x \<in> set body. \<not> is_synthetic_text n x)"

lemma separate_note:
  assumes "separate body i" "i < length body" "runtime_note_text (body ! i) = Some n" "i < k"
  shows "n \<notin> set (note_texts (drop k body))" "n \<in> set (note_texts (drop i body))" "\<forall>x \<in> set body. \<not> is_synthetic_text n x"
  using assms notes_drop[of "Suc i" k body] by (auto simp: separate_def notes_split)

lemma separate_step:
  assumes "separate body i" "i < length body" "align_step rest body i = (body', i')"
  shows "separate body' i'"
proof -
  have i: "i < i'" using assms(3) by (rule align_step_advances)
  have rest: "drop i' body' = drop i' body" using assms by (simp add: align_step_drop)
  have sub: "set (note_texts (drop i' body)) \<subseteq> set (note_texts (drop i body))" using i by (simp add: notes_drop)
  have old: "\<not> is_synthetic_text n x" if "n \<in> set (note_texts (drop i' body))" "x \<in> set body" for n x
    using assms(1) that sub by (auto simp: separate_def)
  have "\<not> is_synthetic_text n x" if "n \<in> set (note_texts (drop i' body))" "x \<in> set body'" for n x
    using assms(3,2)
  proof (cases rule: align_step_items)
    case 1
    then show ?thesis using old that by simp
  next
    case (2 m z p)
    have "m \<noteq> n" using separate_note(1)[OF assms(1,2) 2(1) i] that(1) by auto
    then show ?thesis
      using that old 2 set_insert_remove[of p z i body] by (auto simp: synthetic_text_unique)
  qed
  then show ?thesis using assms(1) i rest by (auto simp: separate_def intro: distinct_notes_drop[of i])
qed

lemma align_loop_synthetic_text:
  assumes "n \<notin> set (note_texts (drop i body))" "\<forall>x \<in> set (drop i body). \<not> is_synthetic_text n x"
  shows "filter (is_synthetic_text n) (align_loop rest body i) = filter (is_synthetic_text n) body"
  using assms
proof (induction rest body i rule: align_loop.induct)
  case (1 rest body i)
  show ?case
  proof (cases "i < length body")
    case True
    obtain body' i' where step: "align_step rest body i = (body', i')" by fastforce
    have i: "i < i'" using step by (rule align_step_advances)
    have here: "\<not> is_synthetic_text n (body ! i)" "runtime_note_text (body ! i) \<noteq> Some n"
      using 1(2,3) True by (auto simp: notes_split Cons_nth_drop_Suc[symmetric])
    have "filter (is_synthetic_text n) body' = filter (is_synthetic_text n) body"
      using step True
      by (cases rule: align_step_items)
         (use here in \<open>auto intro!: filter_insert_remove True simp: synthetic_text_unique\<close>)
    moreover have "drop i' body' = drop i' body" using step True by (rule align_step_drop)
    moreover have "set (drop i' body) \<subseteq> set (drop i body)" using i by (simp add: set_drop_subset_set_drop)
    ultimately show ?thesis
      using 1 True step i notes_drop[of i i' body] by (auto simp: align_loop.simps[of rest body i])
  qed (simp add: align_loop.simps)
qed

text \<open>What lies before the index stays, but for one item the loop can still put at the front.\<close>

lemma take_move:
  "i \<le> k \<Longrightarrow> k < length xs \<Longrightarrow>
     take (k + 1) (vec_insert k z (vec_remove i xs)) = take i xs @ take (k - i) (drop (Suc i) xs) @ [z]"
  by (auto simp: vec_insert_def vec_remove_def min_def)

lemma take_align_step:
  assumes "align_step rest body i = (body', i')" "i < length body"
  shows "(\<exists>ys. take i' body' = take i body @ ys) \<or>
     (\<exists>n. runtime_note_text (body ! i) = Some n \<and> position (is_synthetic_text n) rest = Some 0 \<and>
          take i' body' = rest ! 0 # take i body)"
  using assms
proof (cases rule: align_step_shape)
  case keep
  then show ?thesis using assms(2) by (auto simp: take_Suc_conv_app_nth)
next
  case (move n j k)
  then show ?thesis using take_move[of i k body "rest ! j"] by auto
next
  case (front n)
  then show ?thesis using assms(2) by (simp add: vec_insert_def vec_remove_def)
next
  case (place n j)
  then show ?thesis using assms(2) by (auto simp: vec_insert_def vec_remove_def)
qed

lemma align_loop_prefix:
  assumes "separate body i" "i \<le> length body"
  shows "(\<exists>ys. align_loop rest body i = take i body @ ys) \<or>
     (\<exists>n ys. n \<in> set (note_texts (drop i body)) \<and> position (is_synthetic_text n) rest = Some 0 \<and>
        align_loop rest body i = rest ! 0 # take i body @ ys)"
  using assms
proof (induction rest body i rule: align_loop.induct)
  case (1 rest body i)
  show ?case
  proof (cases "i < length body")
    case True
    obtain body' i' where step: "align_step rest body i = (body', i')" by fastforce
    have i: "i < i'" using step by (rule align_step_advances)
    have loop: "align_loop rest body i = align_loop rest body' i'" using True step by (simp add: align_loop.simps[of rest body i])
    have dr: "drop i' body' = drop i' body" using step True by (rule align_step_drop)
    have len: "length body' = length body" using step True by (rule length_align_step)
    have "i' \<le> length body" using step True by (cases rule: align_step_shape) (use True in auto)
    then consider (same) ys where "align_loop rest body' i' = take i' body' @ ys"
      | (front) n ys where "n \<in> set (note_texts (drop i' body))" "position (is_synthetic_text n) rest = Some 0"
          "align_loop rest body' i' = rest ! 0 # take i' body' @ ys"
      using 1(1)[OF True step[symmetric]] separate_step[OF 1(2) True step] len dr by auto
    then show ?thesis
    proof cases
      case same
      then show ?thesis
        using loop take_align_step[OF step True] True by (fastforce simp: notes_split split: option.split)
    next
      case front
      have "n \<in> set (note_texts (drop i body))" using front(1) i notes_drop[of i i' body] by auto
      moreover have "\<exists>zs. take i' body' = take i body @ zs"
      proof (rule ccontr)
        assume "\<not> ?thesis"
        then obtain m where m: "runtime_note_text (body ! i) = Some m" "position (is_synthetic_text m) rest = Some 0"
          using take_align_step[OF step True] by auto
        then have "m = n" using front(2) by (auto simp: position_Some_iff synthetic_text_unique)
        then show False using separate_note(1)[OF 1(2) True m(1) i] front(1) by simp
      qed
      ultimately show ?thesis using front loop by auto
    qed
  next
    case False
    then show ?thesis using 1(3) by (simp add: align_loop.simps)
  qed
qed

lemma same_host_item_synthetic: "is_synthetic_text n z \<Longrightarrow> same_host_item b z \<Longrightarrow> is_synthetic_text n b"
  by (auto simp: same_host_item_def is_synthetic_text_def split: conversation_item.splits)

text \<open>A turn that finds its item right behind what the body has before the index leaves it there.\<close>

lemma align_step_place:
  assumes "i < length body" "runtime_note_text (body ! i) = Some n"
    and "position (is_synthetic_text n) F = Some (length ps)" "F = ps @ z # ys"
    and "ps = take i body \<or> ps = w # take i body \<and> (\<forall>b \<in> set body. \<not> same_host_item b w)"
  shows "align_step F body i = (vec_insert i z (vec_remove i body), i + 1)"
proof -
  have len: "length (take i body) = i" using assms(1) by simp
  have z: "F ! length ps = z" using assms(4) by simp
  consider (here) "ps = []" "i = 0" | (behind) "length ps \<noteq> 0" "0 < i" "F ! (length ps - 1) = body ! (i - 1)"
    | (only) "length ps \<noteq> 0" "i = 0" "position (\<lambda>b. same_host_item b (F ! (length ps - 1))) body = None"
  proof (cases "i = 0")
    case True
    then show ?thesis using assms(4,5) that(1,3) by (auto simp: position_None_iff)
  next
    case False
    then have "F ! (length ps - 1) = body ! (i - 1)" "length ps \<noteq> 0"
      using assms(1,4,5) len by (auto simp: nth_append nth_Cons' min_def)
    then show ?thesis using False that(2) by simp
  qed
  then show ?thesis
  proof cases
    case here
    then show ?thesis
      using assms z by (simp add: align_step_def Let_def list_update_remove_insert)
  next
    case behind
    have early: "k < i" if "position (\<lambda>b. same_host_item b (body ! (i - 1))) body = Some k" for k
      using host_item.anchor_not_later[OF that] behind(2) by simp
    show ?thesis
    proof (cases "position (\<lambda>b. same_host_item b (body ! (i - 1))) body")
      case None
      then show ?thesis using assms(1-3) z behind by (simp add: align_step_def Let_def list_update_remove_insert)
    next
      case (Some k)
      then show ?thesis using early[OF Some] assms(1-3) z behind
        by (simp add: align_step_def Let_def list_update_remove_insert)
    qed
  next
    case only
    then show ?thesis
      using assms(1-3) z by (simp add: align_step_def Let_def list_update_remove_insert)
  qed
qed

lemma filter_insert_one:
  "\<forall>x \<in> set xs. \<not> P x \<Longrightarrow> P z \<Longrightarrow> filter P (vec_insert p z xs) = [z]"
  using set_take_subset[of p xs] set_drop_subset[of p xs]
  by (auto simp: vec_insert_def append_eq_Cons_conv filter_empty_conv)

lemma set_vec_remove: "set (vec_remove i xs) \<subseteq> set xs"
  by (auto simp: vec_remove_def dest: in_set_takeD in_set_dropD)

text \<open>The facts of a turn of the first run that a turn of the second run is compared with.\<close>

lemma first_turn:
  assumes "separate body i" "i < length body" "align_step rest body i = (body', i')"
  shows "align_loop rest body i = align_loop rest body' i'" "drop i' body' = drop i' body"
    "i < i'" "i' \<le> length body'" "separate body' i'"
proof -
  show "align_loop rest body i = align_loop rest body' i'" using assms(2,3) by (simp add: align_loop.simps[of rest body i])
  show "i' \<le> length body'" using assms(3,2) length_align_step[OF assms(3,2)]
    by (cases rule: align_step_shape) (use assms(2) in auto)
qed (use assms align_step_drop align_step_advances separate_step in blast)+

lemma second_turn_text:
  assumes "separate body i" "i < length body" "align_step rest body i = (body', i')"
    and "runtime_note_text (body ! i) = Some n"
  shows "filter (is_synthetic_text n) (align_loop rest body i) = filter (is_synthetic_text n) body'"
  using first_turn[OF assms(1-3)] separate_note[OF assms(1,2,4), of i'] set_drop_subset[of i' body]
  by (auto intro!: align_loop_synthetic_text)

lemma second_turn_item:
  assumes "separate body i" "i < length body" "align_step rest body i = (body', i')"
    and "runtime_note_text (body ! i) = Some n"
    and "is_synthetic_text n z" "body' = vec_insert p z (vec_remove i body)" "align_loop rest body i = ps @ z # ys"
  shows "position (is_synthetic_text n) (align_loop rest body i) = Some (length ps)"
proof -
  have "\<forall>x \<in> set (vec_remove i body). \<not> is_synthetic_text n x"
    using separate_note(3)[OF assms(1,2,4), of "Suc i"] set_vec_remove[of i body] by auto
  then have "filter (is_synthetic_text n) (align_loop rest body i) = [z]"
    using second_turn_text[OF assms(1-4)] assms(5,6) by (simp add: filter_insert_one)
  then show ?thesis using assms(5,7) position_unique[of "is_synthetic_text n" ps z ys] by simp
qed

lemma second_turn_prefix:
  assumes "separate body i" "i < length body" "align_step rest body i = (body', i')"
  obtains ws ys where "align_loop rest body i = ws @ take i' body' @ ys"
    "ws = [] \<or> ws = [rest ! 0] \<and> (\<forall>b \<in> set body. \<not> same_host_item b (rest ! 0)) \<and>
       (\<exists>m \<in> set (note_texts (drop i' body)). is_synthetic_text m (rest ! 0))"
proof -
  note turn = first_turn[OF assms]
  consider ys where "align_loop rest body i = take i' body' @ ys"
    | m ys where "m \<in> set (note_texts (drop i' body))" "is_synthetic_text m (rest ! 0)"
        "align_loop rest body i = rest ! 0 # take i' body' @ ys"
    using align_loop_prefix[OF turn(5,4), of rest] turn(1,2) by (auto simp: position_Some_iff)
  then show ?thesis
  proof cases
    case 1
    then show ?thesis using that[of "[]"] by simp
  next
    case 2
    have "m \<in> set (note_texts (drop i body))" using 2(1) notes_drop[of i i' body] turn(3) by auto
    then have "\<forall>b \<in> set body. \<not> same_host_item b (rest ! 0)"
      using assms(1) 2(2) by (auto simp: separate_def dest: same_host_item_synthetic)
    then show ?thesis using 2 that[of "[rest ! 0]"] by auto
  qed
qed

lemma second_turn_place:
  assumes "separate body i" "i < length body" "align_step rest body i = (body', i')"
    and "runtime_note_text (body ! i) = Some n" "is_synthetic_text n z"
    and "body' = vec_insert i z (vec_remove i body)" "i' = i + 1"
  shows "align_step (align_loop rest body i) body i = (body', i')"
proof -
  obtain ws ys where F: "align_loop rest body i = ws @ take i' body' @ ys"
    and ws: "ws = [] \<or> ws = [rest ! 0] \<and> (\<forall>b \<in> set body. \<not> same_host_item b (rest ! 0))"
    using second_turn_prefix[OF assms(1-3)] by metis
  have F2: "align_loop rest body i = (ws @ take i body) @ z # ys"
    using F assms(2,6,7) take_move[of i i body z] by simp
  show ?thesis
    using align_step_place[OF assms(2,4) second_turn_item[OF assms(1-6) F2] F2, of "rest ! 0"] ws assms(6,7) by auto
qed

lemma second_turn_move:
  assumes "separate body i" "i < length body" "align_step rest body i = (body', i')"
    and "runtime_note_text (body ! i) = Some n" "is_synthetic_text n z"
    and "position (\<lambda>b. same_host_item b r) body = Some k" "i < k"
    and "body' = vec_insert k z (vec_remove i body)" "i' = k + 1"
  shows "align_step (align_loop rest body i) body i = (body', i')"
proof -
  obtain ws ys where F: "align_loop rest body i = ws @ take i' body' @ ys"
    using second_turn_prefix[OF assms(1-3)] by metis
  have k: "k < length body" using assms(6) by (simp add: position_Some_iff)
  define ps where "ps = ws @ take i body @ take (k - i) (drop (Suc i) body)"
  have F2: "align_loop rest body i = ps @ z # ys"
    using F assms(7-9) k take_move[of i k body z] by (simp add: ps_def)
  obtain d where d: "k = Suc (i + d)" using assms(7) less_imp_Suc_add by blast
  then have "take (k - i) (drop (Suc i) body) = take d (drop (Suc i) body) @ [body ! k]"
    using k by (simp add: take_Suc_conv_app_nth)
  then have "ps = (ws @ take i body @ take d (drop (Suc i) body)) @ [body ! k]" by (simp add: ps_def)
  then have "length ps \<noteq> 0" "(ps @ z # ys) ! (length ps - 1) = body ! k"
    by (metis length_append_singleton old.nat.distinct(2), metis append_assoc append_Cons length_append_singleton diff_Suc_1 nth_append_length)
  then show ?thesis
    using assms(4,7-9) second_turn_item[OF assms(1-5,8) F2] host_item.anchor_found_again[OF assms(6)] F2
    by (simp add: align_step_def Let_def)
qed

lemma second_turn_front:
  assumes "separate body i" "i < length body" "align_step rest body i = (body', i')"
    and "runtime_note_text (body ! i) = Some n" "is_synthetic_text n (rest ! 0)" "i \<noteq> 0"
    and "body' = vec_insert 0 (rest ! 0) (vec_remove i body)" "i' = i + 1"
  shows "align_step (align_loop rest body i) body i = (body', i')"
proof -
  obtain ws ys where F: "align_loop rest body i = ws @ take i' body' @ ys"
    and ws: "ws = [] \<or> (\<exists>m \<in> set (note_texts (drop i' body)). is_synthetic_text m (rest ! 0))"
    using second_turn_prefix[OF assms(1-3)] by metis
  have "ws = []"
    using ws assms(5) separate_note(1)[OF assms(1,2,4), of i'] assms(8) by (auto simp: synthetic_text_unique)
  then have F2: "align_loop rest body i = [] @ rest ! 0 # (take i body @ ys)"
    using F assms(2,7,8) by (simp add: vec_insert_def vec_remove_def)
  show ?thesis
    using assms(4,6-8) second_turn_item[OF assms(1-5,7) F2] F2 by (simp add: align_step_def Let_def)
qed

lemma align_step_again:
  assumes "separate body i" "i < length body"
  shows "align_step (align_loop rest body i) body i = align_step rest body i"
proof -
  obtain body' i' where step: "align_step rest body i = (body', i')" by fastforce
  note turn = assms step
  have "align_step (align_loop rest body i) body i = (body', i')" using step assms(2)
  proof (cases rule: align_step_shape)
    case keep
    have "position (is_synthetic_text n) (align_loop rest body i) = None" if "runtime_note_text (body ! i) = Some n" for n
      using second_turn_text[OF turn that] separate_note(3)[OF assms that, of "Suc i"] keep(1)
      by (simp add: position_None_iff) (metis filter_empty_conv)
    then show ?thesis using keep(1,2) by (simp add: align_step_def split: option.split)
  next
    case (move n j k)
    have z: "is_synthetic_text n (rest ! j)" using move(2) by (simp add: position_Some_iff)
    show ?thesis
      using second_turn_place[OF turn move(1) z] second_turn_move[OF turn move(1) z move(4)] move(5-8)
      by (cases "k = i") auto
  next
    case (front n)
    then show ?thesis by (intro second_turn_front[OF turn]) (auto simp: position_Some_iff)
  next
    case (place n j)
    then show ?thesis by (intro second_turn_place[OF turn]) (auto simp: position_Some_iff)
  qed
  then show ?thesis using step by simp
qed

lemma align_loop_again:
  assumes "separate body i"
  shows "align_loop (align_loop rest body i) body i = align_loop rest body i"
  using assms
proof (induction rest body i rule: align_loop.induct)
  case (1 rest body i)
  show ?case
  proof (cases "i < length body")
    case True
    obtain body' i' where step: "align_step rest body i = (body', i')" by fastforce
    have F: "align_loop rest body i = align_loop rest body' i'" using True step by (simp add: align_loop.simps[of rest body i])
    have "align_loop (align_loop rest body i) body i = align_loop (align_loop rest body i) body' i'"
      using True align_step_again[OF 1(2) True, of rest] step by (simp add: align_loop.simps[of _ body i])
    then show ?thesis using 1(1)[OF True step[symmetric]] separate_step[OF 1(2) True step] F by simp
  qed (simp add: align_loop.simps)
qed

section \<open>Prompt indices\<close>

lemma fold_update_nth:
  assumes "distinct (map fst ps)"
  shows "length (fold (\<lambda>(slot, v) b. b[slot := f v (b ! slot)]) ps b) = length b"
    and "k < length b \<Longrightarrow> fold (\<lambda>(slot, v) b. b[slot := f v (b ! slot)]) ps b ! k =
      (case map_of ps k of Some v \<Rightarrow> f v (b ! k) | None \<Rightarrow> b ! k)"
  using assms
proof (induction ps arbitrary: b)
  case (Cons p ps)
  obtain slot v where p: "p = (slot, v)" by fastforce
  { case 1 then show ?case using Cons by (simp add: p) }
  { case 2
    then have "map_of ps slot = None" using p by (simp add: map_of_eq_None_iff)
    then show ?case using Cons 2 by (auto simp: p nth_list_update split: option.split) }
qed simp_all

lemma map_filter_nth: "List.map_filter f xs = List.map_filter (\<lambda>k. f (xs ! k)) [0..<length xs]"
proof -
  have "List.map_filter f xs = List.map_filter f (map ((!) xs) [0..<length xs])" by (simp add: map_nth)
  then show ?thesis by (simp add: map_filter_def filter_map o_def)
qed

lemma map_filter_restrict:
  "(\<And>k. k \<in> set ks \<Longrightarrow> \<not> P k \<Longrightarrow> g k = None) \<Longrightarrow> List.map_filter g ks = List.map_filter g (filter P ks)"
  by (induction ks) (auto simp: map_filter_def)

lemma map_filter_tail:
  assumes "distinct (hs @ ts)" "length ts = length vs"
    and "\<And>k. k \<in> set (hs @ ts) \<Longrightarrow> g k = map_of (zip ts vs) k"
  shows "List.map_filter g (hs @ ts) = vs"
proof -
  have "g k = None" if "k \<in> set hs" for k
  proof -
    have "k \<notin> set ts" using that assms(1) by auto
    then show ?thesis using that assms(3)[of k] by (auto simp: map_of_eq_None_iff dest: set_zip_leftD)
  qed
  then have "List.map_filter g hs = []" by (auto simp: map_filter_def filter_empty_conv)
  moreover have "g (ts ! m) = Some (vs ! m)" if "m < length vs" for m
    using that assms by (simp add: map_of_zip_nth)
  then have "List.map_filter g ts = vs"
    using assms(2) by (auto simp: map_filter_def list_eq_iff_nth_eq all_set_conv_all_nth filter_id_conv)
  ultimately show ?thesis by (simp add: map_filter_def)
qed

text \<open>The slots of the prompts, and the assignment read as a map on slots.\<close>

definition user_slots :: "'x conversation_item list \<Rightarrow> nat list" where
  "user_slots body = filter (\<lambda>idx. is_human_item (body ! idx)) [0..<length body]"

lemma user_slots_facts:
  "distinct (user_slots body)" "length (user_slots body) = length (filter is_human_item body)"
  "k \<in> set (user_slots body) \<longleftrightarrow> k < length body \<and> is_human_item (body ! k)"
proof -
  show "length (user_slots body) = length (filter is_human_item body)"
    unfolding user_slots_def length_filter_conv_card
    by (rule arg_cong[where f = card]) auto
qed (auto simp: user_slots_def)

definition stamps :: "'x conversation_item list \<Rightarrow> usize list \<Rightarrow> nat \<rightharpoonup> usize" where
  "stamps body indices =
     (let tk = min (length (user_slots body)) (length indices)
      in map_of (zip (drop (length (user_slots body) - tk) (user_slots body)) (drop (length indices - tk) indices)))"

lemma assign_conv:
  "assign_prompt_indices_from_tail body indices =
     map (\<lambda>k. case stamps body indices k of Some pi \<Rightarrow> set_prompt_index pi (body ! k) | None \<Rightarrow> body ! k) [0..<length body]"
  (is "?l = map ?f _")
proof (cases "user_slots body = [] \<or> indices = []")
  case True
  then show ?thesis
    by (auto simp: assign_prompt_indices_from_tail_def user_slots_def[symmetric] stamps_def map_nth)
next
  case False
  define tk where "tk = min (length (user_slots body)) (length indices)"
  define ps where "ps = zip (drop (length (user_slots body) - tk) (user_slots body)) (drop (length indices - tk) indices)"
  have "map fst ps = drop (length (user_slots body) - tk) (user_slots body)" by (simp add: ps_def tk_def min_def)
  then have d: "distinct (map fst ps)" by (simp add: user_slots_facts(1) distinct_drop)
  have l: "?l = fold (\<lambda>(slot, pi) b. b[slot := set_prompt_index pi (b ! slot)]) ps body"
    using False by (simp add: assign_prompt_indices_from_tail_def user_slots_def[symmetric] Let_def ps_def tk_def)
  have "stamps body indices = map_of ps" by (simp add: stamps_def ps_def tk_def Let_def)
  then show ?thesis unfolding l by (intro nth_equalityI) (auto simp: fold_update_nth[OF d] split: option.split)
qed

lemma stamps_slot: "stamps body indices k = Some pi \<Longrightarrow> k < length body \<and> is_human_item (body ! k)"
  by (auto simp: stamps_def Let_def dest!: map_of_SomeD set_zip_leftD in_set_dropD simp: user_slots_facts(3))

lemma human_set_prompt_index [simp]:
  "is_human_item (set_prompt_index pi x) = is_human_item x"
  "is_human_item x \<Longrightarrow> human_index (set_prompt_index pi x) = Some pi"
  by (auto simp: is_human_item_def set_prompt_index_def human_index_def split: conversation_item.splits)

text \<open>The indices a body has after the assignment: the last of the native ones, as many as it has prompts.\<close>

lemma native_prompt_indices_assign:
  assumes "\<forall>x \<in> set body. human_index x = None"
  shows "native_prompt_indices (assign_prompt_indices_from_tail body indices) =
    drop (length indices - length (filter is_human_item body)) indices"
proof -
  define h tk where "h = length (user_slots body)" and "tk = min h (length indices)"
  let ?g = "\<lambda>k. human_index (assign_prompt_indices_from_tail body indices ! k)"
  have g: "?g k = stamps body indices k" if "k < length body" for k
    using that assms stamps_slot[of body indices k] by (auto simp: assign_conv split: option.split)
  have "native_prompt_indices (assign_prompt_indices_from_tail body indices) =
        List.map_filter ?g [0..<length body]"
    by (simp add: native_prompt_indices_def map_filter_nth[of human_index] assign_conv)
  also have "\<dots> = List.map_filter ?g (user_slots body)"
    unfolding user_slots_def using g stamps_slot by (intro map_filter_restrict) (auto, fastforce)
  also have "\<dots> = List.map_filter ?g (take (h - tk) (user_slots body) @ drop (h - tk) (user_slots body))" by simp
  also have "\<dots> = drop (length indices - tk) indices"
    using g user_slots_facts(1)[of body] user_slots_facts(3)[of _ body]
    by (intro map_filter_tail) (auto simp: stamps_def h_def tk_def Let_def dest: in_set_takeD in_set_dropD)
  finally show ?thesis by (simp add: tk_def h_def user_slots_facts(2) min_def)
qed

lemma assign_again:
  "assign_prompt_indices_from_tail body (drop (length indices - length (filter is_human_item body)) indices) =
   assign_prompt_indices_from_tail body indices"
  by (simp add: assign_conv stamps_def user_slots_facts(2)[symmetric] Let_def min_def)

text \<open>The loop reads its native items through what the assignment does not change.\<close>

lemma set_prompt_index_same [simp]:
  "same_host_item b (set_prompt_index pi x) = same_host_item b x"
  "is_system (set_prompt_index pi x) = is_system x"
  "is_synthetic_text n (set_prompt_index pi x) = is_synthetic_text n x"
  by (auto simp: set_prompt_index_def same_host_item_def user_item_text_def is_system_def is_synthetic_text_def
      split: conversation_item.splits)

lemma human_not_synthetic: "is_human_item x \<Longrightarrow> \<not> is_synthetic_text n x"
  by (auto simp: is_human_item_def is_synthetic_text_def split: conversation_item.splits)

lemma assign_nth:
  assumes "k < length body"
  shows "same_host_item b (assign_prompt_indices_from_tail body indices ! k) = same_host_item b (body ! k)"
    and "is_system (assign_prompt_indices_from_tail body indices ! k) = is_system (body ! k)"
    and "is_synthetic_text n (assign_prompt_indices_from_tail body indices ! k) = is_synthetic_text n (body ! k)"
    and "is_synthetic_text n (body ! k) \<Longrightarrow> assign_prompt_indices_from_tail body indices ! k = body ! k"
  using assms stamps_slot[of body indices k] human_not_synthetic[of "body ! k" n]
  by (auto simp: assign_conv split: option.split)

lemma length_assign [simp]: "length (assign_prompt_indices_from_tail body indices) = length body"
  by (simp add: assign_conv)

lemma position_cong:
  "length xs = length ys \<Longrightarrow> (\<And>k. k < length ys \<Longrightarrow> P (xs ! k) = Q (ys ! k)) \<Longrightarrow> position P xs = position Q ys"
proof (induction xs ys rule: list_induct2)
  case (Cons x xs y ys)
  have "P x = Q y" using Cons.prems[of 0] by simp
  moreover have "position P xs = position Q ys" using Cons.IH Cons.prems[of "Suc _"] by simp
  ultimately show ?case by simp
qed simp

lemma align_step_assign: "align_step (assign_prompt_indices_from_tail rest indices) body i = align_step rest body i"
proof (cases "runtime_note_text (body ! i)")
  case None
  then show ?thesis by (simp add: align_step_def)
next
  case (Some n)
  have pos: "position (is_synthetic_text n) (assign_prompt_indices_from_tail rest indices) =
             position (is_synthetic_text n) rest"
    by (intro position_cong) (simp_all add: assign_nth)
  show ?thesis
  proof (cases "position (is_synthetic_text n) rest")
    case None
    then show ?thesis using Some pos by (simp add: align_step_def)
  next
    case at: (Some j)
    then have "assign_prompt_indices_from_tail rest indices ! j = rest ! j"
      "(\<lambda>b. same_host_item b (assign_prompt_indices_from_tail rest indices ! (j - 1))) =
       (\<lambda>b. same_host_item b (rest ! (j - 1)))"
      by (auto simp: position_Some_iff assign_nth)
    then show ?thesis using Some pos at by (simp add: align_step_def)
  qed
qed

lemma align_loop_assign: "align_loop (assign_prompt_indices_from_tail rest indices) body i = align_loop rest body i"
proof (induction rest body i rule: align_loop.induct)
  case (1 rest body i)
  then show ?case
    by (cases "align_step rest body i")
       (simp add: align_loop.simps[of "assign_prompt_indices_from_tail rest indices" body i]
         align_loop.simps[of rest body i] align_step_assign)
qed

section \<open>The translation\<close>

lemma emit_part_out:
  "emit_part env r p (st\<lparr>em_out := out @ em_out st\<rparr>) = (emit_part env r p st)\<lparr>em_out := out @ em_out (emit_part env r p st)\<rparr>"
  by (auto simp: emit_part_def Let_def split: assistant_part_type.split option.split)

lemma emit_fold_out:
  "fold (emit_part env r) ps (st\<lparr>em_out := out @ em_out st\<rparr>) =
   (fold (emit_part env r) ps st)\<lparr>em_out := out @ em_out (fold (emit_part env r) ps st)\<rparr>"
  by (induction ps arbitrary: st) (simp_all add: emit_part_out)

lemma emit_assistant_out: "emit_assistant_conserved env a out live = out @ emit_assistant_conserved env a [] live"
proof -
  have "fold (emit_part env r) ps \<lparr>em_text_parts = [], em_tool_calls = [], em_out = out\<rparr> =
    (fold (emit_part env r) ps \<lparr>em_text_parts = [], em_tool_calls = [], em_out = []\<rparr>)
      \<lparr>em_out := out @ em_out (fold (emit_part env r) ps \<lparr>em_text_parts = [], em_tool_calls = [], em_out = []\<rparr>)\<rparr>" for r ps
    using emit_fold_out[of env r ps out "\<lparr>em_text_parts = [], em_tool_calls = [], em_out = []\<rparr>"] by simp
  then show ?thesis by (simp add: emit_assistant_conserved_def Let_def)
qed

text \<open>What one entry of the view stands for when no band is pending.\<close>

definition entry_items :: "'x lhc_env \<Rightarrow> source_kind_index \<Rightarrow> host_assistant_identity option \<Rightarrow> view_entry \<Rightarrow>
    'x conversation_item list" where
  "entry_items env kinds live e =
     (case e of
        ViewUser u \<Rightarrow> if is_band_user u then [] else [translate_user env kinds u]
      | ViewAssistant a \<Rightarrow> emit_assistant_conserved env a [] live
      | ViewToolResult tr \<Rightarrow> [translate_tool_result env tr]
      | ViewModelChange provider model_id \<Rightarrow> [user_meta (lit ''[model change] '' @ provider @ lit ''/'' @ model_id)]
      | ViewThinkingLevelChange level \<Rightarrow> [user_meta (lit ''[thinking level change] '' @ level)])"

lemma synthetic_user_meta [simp]: "is_synthetic (user_meta t)"
  by (simp add: is_synthetic_def user_meta_def user_text_def is_human_def)

lemma filter_flush_bands:
  "(\<And>x. is_synthetic x \<Longrightarrow> \<not> P x) \<Longrightarrow> filter P (flush_bands mode bands out) = filter P out"
  by (auto simp: flush_bands_def filter_empty_conv split: view_translate_mode.split)

lemma filter_translate_entry:
  assumes "\<And>x. is_synthetic x \<Longrightarrow> \<not> P x"
  shows "filter P (fst (translate_entry env kinds mode live e (out, bands))) = filter P out @ filter P (entry_items env kinds live e)"
proof -
  note flush = filter_flush_bands[of P, OF assms]
  show ?thesis
    by (cases e)
       (simp_all add: translate_entry_def entry_items_def flush emit_assistant_out[of env _ "flush_bands mode bands out"])
qed

lemma filter_translate_view:
  assumes "\<And>x. is_synthetic x \<Longrightarrow> \<not> P x"
  shows "filter P (fst (fold (translate_entry env kinds mode live) view (out, bands))) =
    filter P out @ concat (map (\<lambda>e. filter P (entry_items env kinds live e)) view)"
proof (induction view arbitrary: out bands)
  case (Cons e view)
  obtain out' bands' where step: "translate_entry env kinds mode live e (out, bands) = (out', bands')" by fastforce
  then have "filter P out' = filter P out @ filter P (entry_items env kinds live e)"
    using filter_translate_entry[of P, OF assms, of env kinds mode live e out bands] by simp
  then show ?case using Cons[of out' bands'] step by simp
qed simp

definition translated :: "'x lhc_env \<Rightarrow> session_thread_view \<Rightarrow> source_kind_index \<Rightarrow> view_translate_mode \<Rightarrow>
    host_assistant_identity option \<Rightarrow> 'x conversation_item list" where
  "translated env view kinds mode live =
     (let (out, bands) = fold (translate_entry env kinds mode live) view ([], []) in flush_bands mode bands out)"

lemma session_view_to_items_conv: "session_view_to_items env view kinds mode live = Inr (translated env view kinds mode live)"
  by (simp add: session_view_to_items_def translated_def split: prod.split)

lemma filter_translated:
  assumes "\<And>x. is_synthetic x \<Longrightarrow> \<not> P x"
  shows "filter P (translated env view kinds mode live) = concat (map (\<lambda>e. filter P (entry_items env kinds live e)) view)"
  using filter_flush_bands[of P, OF assms] filter_translate_view[of P, OF assms, of env kinds mode live view "[]" "[]"]
  by (auto simp: translated_def split: prod.split)

lemma emit_fold_set:
  "set (em_out (fold (emit_part env r) ps st)) \<subseteq>
     set (em_out st) \<union> {Reasoning item |item p. p \<in> set ps \<and> pt_type p = ThinkingType \<and> emit_thinking r p = Some item}"
proof (induction ps arbitrary: st)
  case (Cons p ps)
  have "set (em_out (emit_part env r p st)) \<subseteq>
     set (em_out st) \<union> {Reasoning item |item. pt_type p = ThinkingType \<and> emit_thinking r p = Some item}"
    by (auto simp: emit_part_def Let_def split: assistant_part_type.split option.split)
  then show ?case using Cons[of "emit_part env r p st"] by fastforce
qed simp

lemma emit_assistant_set:
  assumes "x \<in> set (emit_assistant_conserved env a [] live)"
  obtains b where "x = Assistant b"
  | item p where "x = Reasoning item" "p \<in> set (sa_content a)" "pt_type p = ThinkingType"
      "emit_thinking (case live of Some l \<Rightarrow> matches_live (stored_identity a) l | None \<Rightarrow> False) p = Some item"
  using assms emit_fold_set[of env "case live of Some l \<Rightarrow> matches_live (stored_identity a) l | None \<Rightarrow> False" "sa_content a"
      "\<lparr>em_text_parts = [], em_tool_calls = [], em_out = []\<rparr>"]
  by (auto simp: emit_assistant_conserved_def Let_def split: if_splits)

lemma translated_entry:
  assumes "x \<in> set (translated env view kinds mode live)" "\<not> is_synthetic x"
  obtains e where "e \<in> set view" "x \<in> set (entry_items env kinds live e)"
proof -
  have "x \<in> set (filter (\<lambda>x. \<not> is_synthetic x) (translated env view kinds mode live))" using assms by simp
  then show ?thesis using that by (subst (asm) filter_translated) auto
qed

lemma synthetic_plain: "is_synthetic x \<Longrightarrow> \<not> is_system x \<and> human_index x = None \<and> \<not> is_human_item x"
  by (auto simp: is_synthetic_def is_system_def human_index_def is_human_item_def split: conversation_item.splits)

lemma translated_plain:
  assumes "x \<in> set (translated env view kinds mode live)"
  shows "\<not> is_system x \<and> human_index x = None"
proof (cases "is_synthetic x")
  case False
  then obtain e where "x \<in> set (entry_items env kinds live e)" using assms by (blast elim: translated_entry)
  then show ?thesis
    by (auto simp: entry_items_def translate_user_def translate_tool_result_def user_def user_meta_def user_text_def
        tool_result_def tool_result_with_images_def is_system_def human_index_def
        split: view_entry.splits if_splits option.splits prod.splits elim!: emit_assistant_set)
qed (simp add: synthetic_plain)

section \<open>The body that is sent\<close>

text \<open>\<open>decide_substitution\<close> and \<open>build_writeback_conversation\<close> put the same body together.\<close>

definition merged :: "'x conversation_item list \<Rightarrow> 'x conversation_item list \<Rightarrow> 'x conversation_item list" where
  "merged native body =
     fst (split_system_prefix native) @
     assign_prompt_indices_from_tail (align_runtime_notes_with_native body native) (native_prompt_indices native)"

lemma decide_conv:
  "decide_substitution env native view kinds live =
     (if translated env view kinds Serve live = [] then Native (lit ''empty_lhc_context'')
      else Substitute (merged native (translated env view kinds Serve live)))"
  by (simp add: decide_substitution_def session_view_to_serve_items_def session_view_to_items_conv merged_def Let_def)

lemma build_conv:
  "build_writeback_conversation env native view kinds =
     (if translated env view kinds Writeback None = [] then Inl (lit ''empty_lhc_context'')
      else Inr (merged native (translated env view kinds Writeback None)))"
  by (simp add: build_writeback_conversation_def session_view_to_items_conv merged_def Let_def)

lemma align_set:
  assumes "x \<in> set (align_runtime_notes_with_native body native)"
  shows "x \<in> set body \<or> is_synthetic x"
  using assms align_loop_set
  by (fastforce simp: align_runtime_notes_with_native_def drop_system_copies_def split: prod.splits)

lemma align_filter:
  assumes "\<And>x. is_synthetic x \<Longrightarrow> \<not> P x"
  shows "filter P (align_runtime_notes_with_native body native) = filter P body"
proof -
  have "filter P (drop_system_copies prefix body) = filter P body" for prefix
    unfolding drop_system_copies_def filter_filter
    by (rule filter_cong) (use assms note_synthetic in \<open>auto split: option.splits\<close>)
  then show ?thesis using align_loop_filter[of P, OF assms]
    by (simp add: align_runtime_notes_with_native_def split: prod.split)
qed

lemma takeWhile_dropWhile_append:
  "\<forall>x \<in> set ys. \<not> P x \<Longrightarrow> takeWhile P (takeWhile P xs @ ys) = takeWhile P xs \<and> dropWhile P (takeWhile P xs @ ys) = ys"
  by (induction xs) (cases ys; auto)+

lemma assign_no_system:
  "\<forall>x \<in> set body. \<not> is_system x \<Longrightarrow> \<forall>x \<in> set (assign_prompt_indices_from_tail body indices). \<not> is_system x"
  by (auto simp: all_set_conv_all_nth assign_nth)

lemma map_filter_assign:
  assumes "\<And>pi x. f (set_prompt_index pi x) = f x"
  shows "List.map_filter f (assign_prompt_indices_from_tail body indices) = List.map_filter f body"
proof -
  have "f (assign_prompt_indices_from_tail body indices ! k) = f (body ! k)" if "k < length body" for k
    using that assms by (auto simp: assign_conv split: option.split)
  then have "map f (assign_prompt_indices_from_tail body indices) = map f body" by (auto intro: nth_equalityI)
  then have "List.map_filter id (map f (assign_prompt_indices_from_tail body indices)) = List.map_filter id (map f body)"
    by simp
  then show ?thesis by (simp add: map_filter_def filter_map o_def)
qed

lemma merged_split:
  assumes "\<forall>x \<in> set body. \<not> is_system x"
  shows "takeWhile is_system (merged native body) = takeWhile is_system native"
    and "dropWhile is_system (merged native body) =
      assign_prompt_indices_from_tail (align_runtime_notes_with_native body native) (native_prompt_indices native)"
proof -
  have "\<forall>x \<in> set (align_runtime_notes_with_native body native). \<not> is_system x"
    using assms align_set synthetic_plain by blast
  from takeWhile_dropWhile_append[OF assign_no_system[OF this]]
  show "takeWhile is_system (merged native body) = takeWhile is_system native"
    "dropWhile is_system (merged native body) =
      assign_prompt_indices_from_tail (align_runtime_notes_with_native body native) (native_prompt_indices native)"
    by (simp_all add: merged_def split_system_prefix_conv)
qed

lemma prompt_indices_dropWhile: "native_prompt_indices (dropWhile is_system xs) = native_prompt_indices xs"
  by (induction xs) (auto simp: native_prompt_indices_def map_filter_def human_index_def is_system_def split: conversation_item.splits)

lemma merged_indices:
  assumes "\<forall>x \<in> set body. \<not> is_system x \<and> human_index x = None"
  shows "native_prompt_indices (merged native body) =
    drop (length (native_prompt_indices native) - length (filter is_human_item body)) (native_prompt_indices native)"
proof -
  have "\<forall>x \<in> set (align_runtime_notes_with_native body native). human_index x = None"
    using assms align_set synthetic_plain by blast
  moreover have "filter is_human_item (align_runtime_notes_with_native body native) = filter is_human_item body"
    using synthetic_plain by (intro align_filter) blast
  ultimately show ?thesis
    using assms merged_split(2)[of body native] prompt_indices_dropWhile[of "merged native body"]
    by (simp add: native_prompt_indices_assign)
qed

lemma separate_drop_copies:
  assumes "distinct (note_texts body)" "\<forall>n \<in> set (note_texts body). \<forall>x \<in> set body. \<not> is_synthetic_text n x"
  shows "separate (drop_system_copies prefix body) 0"
proof -
  have "distinct (note_texts (filter Q body))" for Q
    using assms(1) by (induction body) (auto simp: set_notes split: option.splits)
  moreover have "set (note_texts (filter Q body)) \<subseteq> set (note_texts body)" for Q by (auto simp: set_notes)
  ultimately have "separate (filter Q body) 0" for Q
    unfolding separate_def using assms(2) by simp (meson subsetD)
  then show ?thesis by (simp add: drop_system_copies_def)
qed

lemma merged_again:
  assumes "\<forall>x \<in> set body. \<not> is_system x \<and> human_index x = None"
    and "distinct (note_texts body)" "\<forall>n \<in> set (note_texts body). \<forall>x \<in> set body. \<not> is_synthetic_text n x"
  shows "merged (merged native body) body = merged native body"
proof -
  define prefix F where "prefix = takeWhile is_system native"
    and "F = align_runtime_notes_with_native body native"
  let ?A = "assign_prompt_indices_from_tail F (native_prompt_indices native)"
  have split: "takeWhile is_system (merged native body) = prefix" "dropWhile is_system (merged native body) = ?A"
    using merged_split[of body native] assms(1) by (simp_all add: prefix_def F_def)
  have F: "F = align_loop (dropWhile is_system native) (drop_system_copies prefix body) 0"
    by (simp add: F_def align_runtime_notes_with_native_def split_system_prefix_conv prefix_def)
  have "align_runtime_notes_with_native body (merged native body) = F"
    using align_loop_again[OF separate_drop_copies[OF assms(2,3)], of "dropWhile is_system native" prefix]
    by (simp add: align_runtime_notes_with_native_def split_system_prefix_conv split align_loop_assign F)
  moreover have "filter is_human_item F = filter is_human_item body"
    unfolding F_def using synthetic_plain by (intro align_filter) blast
  ultimately have "merged (merged native body) body = prefix @ ?A"
    using merged_indices[OF assms(1), of native] assign_again[of F "native_prompt_indices native"]
    by (simp add: merged_def[of "merged native body"] split_system_prefix_conv split)
  then show ?thesis by (simp add: merged_def split_system_prefix_conv prefix_def F_def)
qed

section \<open>Properties\<close>

definition item_prompt :: "'x conversation_item \<Rightarrow> content_part list option" where
  "item_prompt item = (case item of User u \<Rightarrow> if is_human (usr_reason u) then Some (usr_content u) else None | _ \<Rightarrow> None)"

definition entry_prompt :: "'x lhc_env \<Rightarrow> source_kind_index \<Rightarrow> view_entry \<Rightarrow> content_part list option" where
  "entry_prompt env kinds e =
     (case e of
        ViewUser u \<Rightarrow>
          if is_recorded_user_prompt kinds (su_source_messages u)
          then Some (case su_blocks u of Some bs \<Rightarrow> content_parts_from_blocks env bs | None \<Rightarrow> [TextPart (su_content u)])
          else None
      | _ \<Rightarrow> None)"

definition entry_replies :: "'x lhc_env \<Rightarrow> host_assistant_identity option \<Rightarrow> view_entry \<Rightarrow> 'x conversation_item list" where
  "entry_replies env live e =
     (case e of
        ViewAssistant a \<Rightarrow> emit_assistant_conserved env a [] live
      | ViewToolResult tr \<Rightarrow> [translate_tool_result env tr]
      | _ \<Rightarrow> [])"

definition is_user :: "'x conversation_item \<Rightarrow> bool" where
  "is_user item = (case item of User _ \<Rightarrow> True | _ \<Rightarrow> False)"

lemma synthetic_user: "is_synthetic x \<Longrightarrow> is_user x"
  by (auto simp: is_synthetic_def is_user_def split: conversation_item.splits)

lemma entry_items_not_user: "filter (\<lambda>x. \<not> is_user x) (entry_items env kinds live e) = entry_replies env live e"
proof (cases e)
  case (ViewAssistant a)
  have "\<forall>x \<in> set (emit_assistant_conserved env a [] live). \<not> is_user x"
    by (auto simp: is_user_def elim: emit_assistant_set)
  then show ?thesis by (simp add: ViewAssistant entry_items_def entry_replies_def filter_id_conv)
qed (auto simp: entry_items_def entry_replies_def is_user_def translate_user_def translate_tool_result_def user_def
    user_meta_def user_text_def tool_result_def tool_result_with_images_def split: option.split prod.split)

lemma entry_items_prompt:
  "List.map_filter item_prompt (filter is_human_item (entry_items env kinds live e)) =
     (case entry_prompt env kinds e of Some p \<Rightarrow> [p] | None \<Rightarrow> [])"
proof (cases e)
  case (ViewAssistant a)
  have "\<forall>x \<in> set (emit_assistant_conserved env a [] live). \<not> is_human_item x"
    by (auto simp: is_human_item_def elim: emit_assistant_set)
  then show ?thesis by (simp add: ViewAssistant entry_items_def entry_prompt_def map_filter_def filter_empty_conv)
next
  case (ViewUser u)
  then show ?thesis
    by (auto simp: entry_items_def entry_prompt_def is_human_item_def translate_user_def user_def user_meta_def user_text_def
        item_prompt_def map_filter_def is_human_def is_band_user_def is_recorded_user_prompt_def split: option.split)
qed (auto simp: entry_items_def entry_prompt_def is_human_item_def translate_tool_result_def user_meta_def user_text_def
    tool_result_def tool_result_with_images_def map_filter_def is_human_def split: option.split prod.split)

lemma human_prompt: "item_prompt x \<noteq> None \<longleftrightarrow> is_human_item x"
  by (auto simp: item_prompt_def is_human_item_def split: conversation_item.splits)

lemma human_prompts:
  "List.map_filter item_prompt (filter is_human_item xs) = List.map_filter item_prompt xs"
  "length (filter is_human_item xs) = length (List.map_filter item_prompt xs)"
proof -
  have h: "is_human_item = (\<lambda>x. item_prompt x \<noteq> None)" by (rule ext) (rule human_prompt[symmetric])
  show "List.map_filter item_prompt (filter is_human_item xs) = List.map_filter item_prompt xs"
    "length (filter is_human_item xs) = length (List.map_filter item_prompt xs)"
    unfolding h map_filter_def by simp_all
qed

lemma map_filter_concat: "List.map_filter f (concat xss) = concat (map (List.map_filter f) xss)"
  by (induction xss) (auto simp: map_filter_def)

lemma map_filter_entries: "concat (map (\<lambda>e. case f e of Some p \<Rightarrow> [p] | None \<Rightarrow> []) es) = List.map_filter f es"
  by (induction es) (auto simp: map_filter_def split: option.split)

lemma translated_prompts:
  "List.map_filter item_prompt (translated env view kinds mode live) = List.map_filter (entry_prompt env kinds) view"
proof -
  have "List.map_filter item_prompt (translated env view kinds mode live) =
        List.map_filter item_prompt (filter is_human_item (translated env view kinds mode live))"
    by (simp add: human_prompts(1))
  also have "filter is_human_item (translated env view kinds mode live) =
        concat (map (\<lambda>e. filter is_human_item (entry_items env kinds live e)) view)"
    using synthetic_plain by (intro filter_translated) blast
  finally show ?thesis by (simp add: map_filter_concat o_def entry_items_prompt map_filter_entries)
qed

lemma merged_prompts:
  assumes "\<forall>x \<in> set body. \<not> is_system x"
  shows "List.map_filter item_prompt (dropWhile is_system (merged native body)) = List.map_filter item_prompt body"
proof -
  have "List.map_filter item_prompt (dropWhile is_system (merged native body)) =
        List.map_filter item_prompt (align_runtime_notes_with_native body native)"
    unfolding merged_split(2)[OF assms]
    by (rule map_filter_assign) (auto simp: item_prompt_def set_prompt_index_def split: conversation_item.split)
  also have "\<dots> = List.map_filter item_prompt (filter is_human_item (align_runtime_notes_with_native body native))"
    by (simp add: human_prompts(1))
  also have "filter is_human_item (align_runtime_notes_with_native body native) = filter is_human_item body"
    using synthetic_plain by (intro align_filter) blast
  finally show ?thesis by (simp add: human_prompts(1))
qed

lemma merged_not_user:
  assumes "\<forall>x \<in> set body. \<not> is_system x"
  shows "filter (\<lambda>x. \<not> is_user x) (dropWhile is_system (merged native body)) = filter (\<lambda>x. \<not> is_user x) body"
proof -
  let ?f = "\<lambda>x. if is_user x then None else Some x"
  have conv: "filter (\<lambda>x. \<not> is_user x) xs = List.map_filter ?f xs" for xs :: "'a conversation_item list"
    by (induction xs) (auto simp: map_filter_def)
  have "List.map_filter ?f (dropWhile is_system (merged native body)) =
        List.map_filter ?f (align_runtime_notes_with_native body native)"
    unfolding merged_split(2)[OF assms]
    by (rule map_filter_assign) (auto simp: is_user_def set_prompt_index_def split: conversation_item.split)
  moreover have "filter (\<lambda>x. \<not> is_user x) (align_runtime_notes_with_native body native) = filter (\<lambda>x. \<not> is_user x) body"
    by (intro align_filter) (auto dest: synthetic_user)
  ultimately show ?thesis by (simp add: conv)
qed

text \<open>C32. A request is served from the archive as a whole or not at all. It is left native only when the view
  translates to nothing. Otherwise the body starts with the native system prefix and no system item follows;
  its prompts are the recorded prompts of the view, in order, and carry the last of the native prompt
  indices, as many as there are; and the assistant items, reasoning and tool results are those of the view,
  in order.\<close>

theorem substituted_request:
  "case decide_substitution env native view kinds live of
     Native reason \<Rightarrow> reason = lit ''empty_lhc_context'' \<and> session_view_to_serve_items env view kinds live = Inr []
   | Substitute items \<Rightarrow>
       takeWhile is_system items = takeWhile is_system native \<and>
       filter is_system (dropWhile is_system items) = [] \<and>
       List.map_filter item_prompt (dropWhile is_system items) = List.map_filter (entry_prompt env kinds) view \<and>
       native_prompt_indices items =
         drop (length (native_prompt_indices native) - length (List.map_filter (entry_prompt env kinds) view))
           (native_prompt_indices native) \<and>
       filter (\<lambda>x. \<not> is_user x) (dropWhile is_system items) = concat (map (entry_replies env live) view)"
proof (cases "translated env view kinds Serve live = []")
  case True
  then show ?thesis by (simp add: decide_conv session_view_to_serve_items_def session_view_to_items_conv)
next
  case False
  let ?body = "translated env view kinds Serve live"
  have plain: "\<forall>x \<in> set ?body. \<not> is_system x \<and> human_index x = None" by (blast dest: translated_plain)
  then have sys: "\<forall>x \<in> set ?body. \<not> is_system x" by blast
  have "filter (\<lambda>x. \<not> is_user x) ?body = concat (map (entry_replies env live) view)"
    by (subst filter_translated) (auto simp: entry_items_not_user dest: synthetic_user)
  moreover have "filter is_system (dropWhile is_system (merged native ?body)) = []"
    using sys assign_no_system align_set synthetic_plain unfolding merged_split(2)[OF sys] filter_empty_conv by blast
  ultimately show ?thesis
    using False merged_split(1)[OF sys] merged_prompts[OF sys] merged_not_user[OF sys] merged_indices[OF plain]
    by (simp add: decide_conv translated_prompts human_prompts(2))
qed

text \<open>C31. Writing the view back is a fixpoint: when the runtime notes of the translated view have different texts and
  no other synthetic item of it has the bare text of one, building the conversation again over the body that
  was built, from the same view, gives that body.\<close>

theorem writeback_fixpoint:
  assumes "session_view_to_writeback_items env view kinds = Inr raw"
    and "distinct (note_texts raw)" "\<forall>n \<in> set (note_texts raw). \<forall>x \<in> set raw. \<not> is_synthetic_text n x"
    and "build_writeback_conversation env native view kinds = Inr body"
  shows "build_writeback_conversation env body view kinds = Inr body"
proof -
  have raw: "raw = translated env view kinds Writeback None"
    using assms(1) by (simp add: session_view_to_writeback_items_def session_view_to_items_conv)
  have "\<forall>x \<in> set raw. \<not> is_system x \<and> human_index x = None" unfolding raw by (blast dest: translated_plain)
  then have "merged (merged native raw) raw = merged native raw" using assms(2,3) by (rule merged_again)
  then show ?thesis using assms(4) by (auto simp: build_conv raw split: if_splits)
qed

lemma merged_reasoning:
  assumes "Reasoning r \<in> set (merged native body)" "\<forall>x \<in> set body. \<not> is_system x"
  shows "Reasoning r \<in> set body"
proof -
  have "Reasoning r \<in> set (takeWhile is_system (merged native body)) \<or> Reasoning r \<in> set (dropWhile is_system (merged native body))"
    using assms(1) by (metis Un_iff set_append takeWhile_dropWhile_id)
  then have "Reasoning r \<in> set (dropWhile is_system (merged native body))"
    by (auto simp: is_system_def dest!: set_takeWhileD)
  then have "Reasoning r \<in> set (filter (\<lambda>x. \<not> is_user x) (dropWhile is_system (merged native body)))"
    by (simp add: is_user_def)
  then show ?thesis by (simp add: merged_not_user[OF assms(2)])
qed

lemma matches_live_eq: "matches_live h live \<longleftrightarrow> is_complete h \<and> h = live"
  by (auto simp: matches_live_def intro: host_assistant_identity.equality)

lemma emit_thinking_signature:
  assumes "emit_thinking reemit p = Some item" "rs_encrypted_content item = Some sig"
  shows "reemit \<and> pt_thinking_signature p = Some sig \<and> sig \<noteq> []"
  using assms
  by (cases "pt_thinking_signature p"; cases reemit)
     (auto simp: emit_thinking_def synthesized_reasoning_item_def Let_def split: if_splits)

lemma translated_signature:
  assumes "Reasoning r \<in> set (translated env view kinds mode live)" "rs_encrypted_content r = Some sig"
  obtains l a p where "live = Some l" "is_complete l" "ViewAssistant a \<in> set view" "stored_identity a = l"
    "p \<in> set (sa_content a)" "pt_thinking_signature p = Some sig" "sig \<noteq> []"
proof -
  have "\<not> is_synthetic (Reasoning r)" by (simp add: is_synthetic_def)
  with assms(1) obtain e where e: "e \<in> set view" "Reasoning r \<in> set (entry_items env kinds live e)" by (rule translated_entry)
  then obtain a where a: "e = ViewAssistant a" "Reasoning r \<in> set (emit_assistant_conserved env a [] live)"
    by (auto simp: entry_items_def translate_user_def translate_tool_result_def user_def user_meta_def user_text_def
        tool_result_def tool_result_with_images_def split: view_entry.splits if_splits option.splits prod.splits)
  from a(2) show ?thesis
  proof (cases rule: emit_assistant_set)
    case (2 item p)
    with assms(2) emit_thinking_signature[OF 2(4), of sig] that[of _ a p] e(1) a(1) show ?thesis
      by (auto simp: matches_live_eq split: option.splits)
  qed simp
qed

text \<open>A signed block of reasoning is sent only under the identity it was made with: a reasoning item of a
  substituted request carries a signature only if it is the signature of a part of an assistant message whose
  stored provider, model and interface are complete and those of the live request; a body written back
  carries none.\<close>

lemma signature_under_identity:
  assumes "Reasoning r \<in> set items"
  shows "(decide_substitution env native view kinds live = Substitute items \<longrightarrow>
            (case rs_encrypted_content r of
               None \<Rightarrow> True
             | Some sig \<Rightarrow> (\<exists>l a p. live = Some l \<and> is_complete l \<and> ViewAssistant a \<in> set view \<and> stored_identity a = l \<and>
                              p \<in> set (sa_content a) \<and> pt_thinking_signature p = Some sig))) \<and>
         (build_writeback_conversation env native view kinds = Inr items \<longrightarrow> rs_encrypted_content r = None)"
proof -
  have plain: "\<forall>x \<in> set (translated env view kinds mode live). \<not> is_system x" for mode live
    by (blast dest: translated_plain)
  have "Reasoning r \<in> set (translated env view kinds Serve live)"
    if "decide_substitution env native view kinds live = Substitute items"
    using that assms merged_reasoning[OF _ plain] by (auto simp: decide_conv split: if_splits)
  moreover have "Reasoning r \<in> set (translated env view kinds Writeback None)"
    if "build_writeback_conversation env native view kinds = Inr items"
    using that assms merged_reasoning[OF _ plain] by (auto simp: build_conv split: if_splits)
  ultimately show ?thesis
    using translated_signature[of r env view kinds Serve live] translated_signature[of r env view kinds Writeback None]
    by (cases "rs_encrypted_content r") (auto, metis+)
qed

text \<open>What is recorded of a served request and what the status then says: while no capture of the session is
  active nothing is recorded and the native body is sent; otherwise the status after the call names the archive
  exactly when the request was substituted, else the reason why not, for every reply of the worker and whatever
  the other tasks did during the wait. Shutting the session down forgets the outcome and makes serving inactive.\<close>

lemma serve_status:
  assumes "lhc_reach env sdk w"
    and "serve_request_context env sid native live reply meanwhile w = (decision, w')"
  shows "(if lw_registry w sid = None
          then decision = Native (lit ''lhc_inactive'') \<and> w' = w
          else engine_from_last_serve sid True w' =
                 (case decision of Substitute _ \<Rightarrow> (EngineLhc, None) | Native reason \<Rightarrow> (EngineNative, Some reason))) \<and>
         (apply_serve_decision native decision =
            (case decision of Substitute items \<Rightarrow> (items, True) | Native _ \<Rightarrow> (native, False))) \<and>
         last_serve_outcome_of sid (shutdown_session sid w) = None \<and>
         serve_request_context env sid native live reply meanwhile (shutdown_session sid w) =
           (Native (lit ''lhc_inactive''), shutdown_session sid w)"
proof -
  note inv = reach_reg[OF assms(1)]
  have active: "capture_active sid v \<longleftrightarrow> lw_active v > 0 \<and> lw_registry v sid \<noteq> None" for v :: "('a, 'b, 'c) lhc_world"
    by (simp add: capture_active_def any_capture_active_def is_session_registered_def lookup_session_def lookup_session_snapshot_def)
  have pos: "lw_active w > 0" if "lw_registry w sid \<noteq> None"
    using that reg_invD(1,2)[OF inv] by (auto simp: card_gt_0_iff)
  have down: "lw_registry (shutdown_session sid w) sid = None \<and> lw_last_serve (shutdown_session sid w) sid = None"
  proof (cases "lw_registry w sid")
    case None
    then show ?thesis
      by (simp add: shutdown_session_def clear_last_serve_outcome_def lookup_session_def lookup_session_snapshot_def Let_def)
  next
    case (Some i)
    obtain s where s: "lw_shared w i = Some s" "cs_session_id s = sid" using reg_invD(3)[OF inv Some] by blast
    have "cs_worker_id s = i" using reg_invD(4)[OF inv s(1)] by simp
    then show ?thesis using s Some
      by (simp add: shutdown_session_def clear_last_serve_outcome_def lookup_session_def lookup_session_snapshot_def Let_def
          shutdown_async_def unregister_worker_def on_handle_def)
  qed
  have "engine_from_last_serve sid True w' =
     (case decision of Substitute _ \<Rightarrow> (EngineLhc, None) | Native reason \<Rightarrow> (EngineNative, Some reason))"
    if "lw_registry w sid \<noteq> None"
    using assms(2) that pos[OF that]
    by (auto simp: serve_request_context_def active any_capture_active_def engine_from_last_serve_def last_serve_outcome_of_def
        note_last_serve_def Let_def split: serve_decision.splits prod.splits)
  then show ?thesis
    using assms(2) down
    by (auto simp: serve_request_context_def active any_capture_active_def apply_serve_decision_def last_serve_outcome_of_def)
qed

section \<open>Examples\<close>

definition demo_entry :: "string \<Rightarrow> string \<Rightarrow> view_entry" where
  "demo_entry m t = ViewUser \<lparr>su_content = lit t, su_blocks = None, su_source_messages = [lit m]\<rparr>"

definition demo_kinds :: source_kind_index where
  "demo_kinds = from_message_records [(lit ''n'', OtherKind), (lit ''q'', UserPrompt)]"

definition demo_reminder :: "string \<Rightarrow> unit conversation_item" where
  "demo_reminder t = user_text SystemReminder [TextPart (lit t)]"

definition demo_part :: "assistant_part_type \<Rightarrow> string \<Rightarrow> session_assistant_part" where
  "demo_part ty t =
     \<lparr>pt_type = ty, pt_text = Some (lit t), pt_thinking = Some (lit t), pt_thinking_signature = Some (lit ''sig''),
      pt_tool_name = None, pt_tool_call_id = None, pt_arguments = None, pt_block = None\<rparr>"

definition demo_message :: "assistant_part_type \<Rightarrow> string \<Rightarrow> view_entry" where
  "demo_message ty t =
     ViewAssistant \<lparr>sa_content = [demo_part ty t], sa_provider = Some (lit ''xai''), sa_model = Some (lit ''g''), sa_api = Some (lit ''responses'')\<rparr>"

definition demo_prompt :: "usize \<Rightarrow> unit conversation_item" where
  "demo_prompt k = set_prompt_index k (user (lit ''hi''))"

definition demo_system :: "unit conversation_item" where
  "demo_system = System \<lparr>sys_content = lit ''sys'', sys_reason = Primary\<rparr>"

lemmas demo_serving =
  demo_entry_def demo_kinds_def demo_reminder_def demo_part_def demo_message_def demo_prompt_def demo_system_def

text \<open>The recorded reminder stands ahead of the prompt; it is sent behind it, as the host has it.\<close>

lemma demo_build:
  "build_writeback_conversation demo_lhc [demo_system, demo_prompt 3, demo_prompt 4, demo_reminder ''r'']
     [demo_entry ''n'' ''[runtime note] sys'', demo_entry ''n'' ''[runtime note] r'', demo_entry ''q'' ''hi''] demo_kinds =
   Inr [demo_system, demo_prompt 4, demo_reminder ''r'']"
  by code_simp

theorem writeback_fixpoint_witness:
  "build_writeback_conversation demo_lhc [demo_system, demo_prompt 4, demo_reminder ''r'']
     [demo_entry ''n'' ''[runtime note] sys'', demo_entry ''n'' ''[runtime note] r'', demo_entry ''q'' ''hi''] demo_kinds =
   Inr [demo_system, demo_prompt 4, demo_reminder ''r'']"
proof (rule writeback_fixpoint[OF _ _ _ demo_build])
  let ?raw = "[user_meta (lit ''[runtime note] sys''), user_meta (lit ''[runtime note] r''), user (lit ''hi'')] :: unit conversation_item list"
  show "session_view_to_writeback_items demo_lhc
     [demo_entry ''n'' ''[runtime note] sys'', demo_entry ''n'' ''[runtime note] r'', demo_entry ''q'' ''hi''] demo_kinds = Inr ?raw"
    by code_simp
  show "distinct (note_texts ?raw)" by code_simp
  show "\<forall>n \<in> set (note_texts ?raw). \<forall>x \<in> set ?raw. \<not> is_synthetic_text n x" by code_simp
qed

text \<open>A note recorded twice: building again over the body that was built gives another body.\<close>

definition demo_said :: "unit conversation_item" where
  "demo_said = Assistant \<lparr>as_content = lit ''p'', as_tool_calls = [], as_model_id = Some (lit ''g''),
     as_model_fingerprint = None, as_reasoning_effort = None\<rparr>"

definition demo_repeat :: session_thread_view where
  "demo_repeat = [demo_entry ''n'' ''[runtime note] a'', demo_message TextType ''p'', demo_entry ''n'' ''[runtime note] a'']"

lemma repeated_note_moves:
  "build_writeback_conversation demo_lhc [demo_prompt 0, demo_reminder ''a''] demo_repeat demo_kinds =
     Inr [demo_reminder ''a'', demo_said, demo_reminder ''a'']"
  "build_writeback_conversation demo_lhc [demo_reminder ''a'', demo_said, demo_reminder ''a''] demo_repeat demo_kinds =
     Inr [demo_reminder ''a'', demo_reminder ''a'', demo_said]"
  by code_simp+

text \<open>Two notes ahead of the prompt they follow in the native body: the loop goes on behind the first one it moves
  and passes over the second, which is sent as the record has it, ahead of the prompt.\<close>

lemma second_note_passed_over:
  "decide_substitution demo_lhc [demo_prompt 0, demo_reminder ''a'', demo_reminder ''b'']
     [demo_entry ''n'' ''[runtime note] a'', demo_entry ''n'' ''[runtime note] b'', demo_entry ''q'' ''hi''] demo_kinds None =
   Substitute [user_meta (lit ''[runtime note] b''), demo_prompt 0, demo_reminder ''a'']"
  by code_simp

definition demo_live :: host_assistant_identity where
  "demo_live = \<lparr>hi_provider = lit ''xai'', hi_model = Some (lit ''g''), hi_api = Some (lit ''responses'')\<rparr>"

definition demo_thought :: reasoning_item where
  "demo_thought = (synthesized_reasoning_item (lit ''p''))\<lparr>rs_encrypted_content := Some (lit ''sig'')\<rparr>"

lemma signature_under_identity_witness:
  "decide_substitution demo_lhc [] [demo_message ThinkingType ''p''] demo_kinds (Some demo_live) =
     Substitute [Reasoning demo_thought] \<and>
   decide_substitution demo_lhc [] [demo_message ThinkingType ''p''] demo_kinds None =
     Substitute [Reasoning (synthesized_reasoning_item (lit ''p''))] \<and>
   (\<exists>a. ViewAssistant a \<in> set [demo_message ThinkingType ''p''] \<and> stored_identity a = demo_live)"
proof -
  have live: "decide_substitution demo_lhc [] [demo_message ThinkingType ''p''] demo_kinds (Some demo_live) =
      Substitute [Reasoning demo_thought]" by code_simp
  moreover have "decide_substitution demo_lhc [] [demo_message ThinkingType ''p''] demo_kinds None =
      Substitute [Reasoning (synthesized_reasoning_item (lit ''p''))]" by code_simp
  moreover have "rs_encrypted_content demo_thought = Some (lit ''sig'')" by (simp add: demo_thought_def)
  ultimately show ?thesis
    using signature_under_identity[of demo_thought "[Reasoning demo_thought]" demo_lhc "[]"
        "[demo_message ThinkingType ''p'']" demo_kinds "Some demo_live"] by auto
qed

lemma serve_status_witness:
  "engine_from_last_serve (lit ''s'') True
     (snd (serve_request_context demo_lhc (lit ''s'') [] None (\<lambda>_. TimedOut) id demo_spawned)) =
   (EngineNative, Some (lit ''get_classify_context_timeout''))"
proof -
  have d: "fst (serve_request_context demo_lhc (lit ''s'') [] None (\<lambda>_. TimedOut) id demo_spawned) =
      Native (lit ''get_classify_context_timeout'')"
    by (simp add: serve_request_context_def serve_request_context_inner_def capture_active_def any_capture_active_def
        is_session_registered_def lookup_session_def lookup_session_snapshot_def demo_spawned_eq Let_def)
  show ?thesis
    using serve_status[OF demo_spawned_reach prod.collapse[symmetric], of "lit ''s''" "[]" None "\<lambda>_. TimedOut" id] d
    by (simp add: demo_spawned_eq)
qed

text \<open>A shutdown during the wait: the outcome noted after it is still there when a new capture of the session has
  started, and the status names the archive for a turn the new capture has not served.\<close>

definition demo_restarted :: "(unit, ustr list, unit) lhc_world" where
  "demo_restarted =
     snd (serve_request_context demo_lhc (lit ''s'') [] None (\<lambda>_. Replied (Inr ([demo_entry ''q'' ''hi''], demo_kinds)))
       (\<lambda>w. snd (spawn_capture_with_serving_model True (lit ''s'') [] None (Some ()) None (shutdown_session (lit ''s'') w)))
       demo_spawned)"

lemma late_outcome_survives:
  "lookup_session (lit ''s'') demo_spawned = Some 1 \<and> lookup_session (lit ''s'') demo_restarted = Some 2 \<and>
   engine_from_last_serve (lit ''s'') (capture_active (lit ''s'') demo_restarted) demo_restarted = (EngineLhc, None)"
proof -
  have "decide_substitution demo_lhc [] [demo_entry ''q'' ''hi''] demo_kinds None = Substitute [user (lit ''hi'')]"
    by code_simp
  then show ?thesis
    by (simp add: demo_restarted_def demo_spawned_eq serve_request_context_def serve_request_context_inner_def
        capture_active_def any_capture_active_def is_session_registered_def lookup_session_def lookup_session_snapshot_def
        shutdown_session_def clear_last_serve_outcome_def shutdown_async_def on_handle_def unregister_worker_def try_send_def
        demo_shared_def CAPTURE_QUEUE_CAP_def wrap_inc64_def u64_max_def spawn_capture_with_serving_model_def
        register_inference_sampler_def next_worker_id_def try_register_session_def non_empty_def note_last_serve_def
        engine_from_last_serve_def last_serve_outcome_of_def Let_def)
qed

end
