(* ===== verification/Spec2Isabelle.thy ===== *)
theory Spec2Isabelle
  imports Breaker_Concurrent Patch_Tool Compact_Inter Shell_Paths Grant_Laws Manager_Laws Lhc_Gate Lhc_Clock Lhc_Writeback Lhc_Tee Lhc_Serving
begin

text \<open>
  This development models parts of grok-build, a coding agent written in Rust, that decide what the agent
  may do to the user's machine and what it remembers: the permission rules for its tools, the user's
  standing answers, the automatic mode and the manager that decides on each request, the \<open>apply_patch\<close> tool, the compaction of long conversations, the capture of a session into the LHC archive, and
  the circuit breaker its services use.
  All paths below are relative to \<open>src/crates\<close>.

  \<^bold>\<open>How the parts interact.\<close> A model's answer asks for a tool. The permission policy decides on the access
  (a path, a shell command, a URL), and the manager weighs it with the answers given before, the mode, the classifier and
  the user; \<open>apply_patch\<close> is one of the tools that then change files. The turns of
  the conversation, tool results included, grow until the compaction replaces them by a summary sampled from
  a model; calls to remote services go through circuit breakers and retry policies. Everything said in a
  session is also teed to a capture worker that records it, once, in the session's archive, from which a
  compaction can write a new history back.

  \<^bold>\<open>Conventions.\<close>
  \<^item> \<open>Rust_Prelude\<close>: strings are lists of code points, \<open>Result\<close> is a sum with the error on the left, integer
    operations that wrap or saturate are written out. \<open>Rust_Float\<close> has the binary64 operations the trigger and
    the breaker use, with explicit rounding. \<open>Rust_Path\<close> models \<open>std::path\<close> on Unix and
    \<open>normalize_lexically\<close> of \<open>codegen/xai-grok-paths/src/lib.rs\<close>.
  \<^item> Loops are structural recursions on the data they consume. Where the source bounds a loop (retries,
    wrapper depth 8, transparent prefixes 8, rounds 16, inline shells 8, symbolic links 40) the bound is the
    recursion argument, so no model has fuel of its own: running out is what the source does then.
  \<^item> A panic or an index out of range is \<open>None\<close>; an early return is a branch of the model.
  \<^item> Threads are interleavings of steps: single atomic accesses for the breaker and for the calls of the tee; whole
    operations for the workers of the capture and their registry. Counters that wrap in the source wrap in the model, and theorems that need
    them not to say so.
  \<^item> Code outside the repository is a parameter: the tree-sitter parser (it returns a tree), \<open>glob\<close> patterns,
    URL parsing, Unicode lower case, the file system, \<open>libgit2\<close>, tilde expansion, the model call,
    \<open>tonic\<close> codes, the decimal parser of floating-point numbers, the LHC archive, \<open>blake3\<close> and \<open>serde_json\<close>. What a theorem needs of a parameter is a named hypothesis.

  \<^bold>\<open>Permissions\<close> (\<open>codegen/xai-grok-workspace/src/permission\<close>).
  \<^item> \<open>Perm_Rules\<close> has the data of \<open>types.rs\<close> and the parser of \<open>rules.rs\<close> for rules such as \<open>Bash(git push)\<close>.
    Every pattern can be written and is read back.
  \<^item> \<open>Bash_Words\<close> and \<open>Bash_Tree\<close> model \<open>bash_command_splitting.rs\<close>: a script is decomposed by walks over its
    syntax tree, and each command is freed of wrappers (\<open>timeout\<close>, \<open>env\<close>, ...) and shell prefixes. The walk
    misses no command; peeling is a deterministic relation and its result, when no flag is set, the normal form.
    A theorem exhibits the one blind spot of the round budget. Display breaks only cut the text.
  \<^item> \<open>Perm_Policy\<close> models \<open>policy.rs\<close>: compiled rules, the evaluation of an access, the gate on shell commands,
    narrow allow rules, path forms and the re-check of symbolic links. Both combinations of decisions are
    interpretations of the locale \<open>ranked_combination\<close>. Deny comes before ask before allow whatever the order of
    the rules; an allow on a command is conjunctive over everything the command runs; the gate is at least as
    strict as the rules on every such command; links only escalate; a relative spelling never stands for a path
    outside the working directory. The inductive relation \<open>runs\<close> says which commands a script runs.
  \<^item> \<open>Exec_Risk\<close> is \<open>exec_risk.rs\<close> with \<open>git_content_filters.rs\<close>: which commands could run other programs through an
    option, a variable or the configuration of a checkout. The read-only \<open>git\<close> queries are characterised; where the
    scan of the configuration is clean, every directory it follows \<open>git\<close> to was checked, and lemmas show where the shell goes
    elsewhere; the pins cover every filter.
  \<^item> \<open>Shell_Access\<close> is the file gate of \<open>shell_access.rs\<close>: redirects, operands, changes of directory and inline
    shells of a script, and the paths it writes. \<open>Shell_Paths\<close> shows that on a plainly spelt path that a
    script touches (the inductive relation \<open>touches\<close>) the gate is at least as strict as the file tools are, and exhibits two
    other spellings where it is not. \<open>Edit_Targets\<close>: the targets no grant covers; no spelling of them escapes.
  \<^item> \<open>Safe_Commands\<close>, \<open>Mcp_Names\<close>, \<open>Web_Domains\<close> and \<open>Grants\<close> are \<open>grants.rs\<close>, \<open>grants/bash_grants.rs\<close> and what they use:
    safe and dangerous commands, scopes, environment variables, findings, names of MCP tools, domains, and the
    state of remembered answers with its evaluation and update. \<open>Web_Domains\<close> shows that the table of allowed
    domains means exactly its entries. \<open>Grant_Laws\<close> shows that a rejection stands
    whatever is answered later (the locale \<open>standing_rejection\<close>, interpreted for the three
    kinds of request), what an allowance covers, what a script that runs unprompted has to its name, and that no reply adds more than was
    asked. Lemmas exhibit commands the lists misjudge.
  \<^item> \<open>Gate_Preflight\<close> is \<open>gate_preflight.rs\<close>: the decision on the rules, the command gate and the file gate as one, the
    prompts they force, and which of them the automatic mode may take over.
  \<^item> \<open>Auto_Mode\<close> and \<open>Auto_Classifier\<close> are \<open>auto_mode/mod.rs\<close> and \<open>auto_mode/routine_git.rs\<close>: which commands are routine, the
    built-in classifier, the fast path, the request to the model and the reading of its answer. A script that runs
    unasked consists of listed uses of listed commands (the inductive relation \<open>launches\<close> follows package managers to the program they
    start), an allowance has a finding-free or a model's reason, and nothing the model is shown from outside reads as the
    harness's own. The model, the parser of JSON and the system prompt are the parameters \<open>llm_classifier\<close> and \<open>auto_env\<close>.
  \<^item> \<open>Perm_Manager\<close> is the actor of \<open>manager/mod.rs\<close> with \<open>manager/request_classification.rs\<close>, in which all of this meets: the
    modes, the handler of a request from the look at the requester to the recorded answer, and the event. The
    configuration with the libraries is \<open>manager_config\<close>; what the outside does during a request (the requester that
    goes, the disk, the sandbox, the user) is \<open>request_world\<close>, over which every theorem is general. \<open>Manager_Laws\<close> shows
    that a denial stands in every mode, what is never allowed without the user's yes, that ask rules ask with four
    exceptions, that every request is answered, that an allowance for good is honoured through all later commands but a
    reset, and an invariant over all sequences of commands. Lemmas exhibit ask
    rules that are not honoured.

  \<^bold>\<open>The patch tool\<close> (\<open>codegen/xai-grok-tools/src/implementations/codex/apply_patch\<close>).
  \<^item> \<open>Patch_Parser\<close> is \<open>parser.rs\<close>: strict and lenient boundaries, hunks, chunks. Parsing inverts printing.
  \<^item> \<open>Patch_Apply\<close> is \<open>seek_sequence.rs\<close> and \<open>apply.rs\<close>: the fuzzy search returns the first position at the
    strictest level that matches, and at the end of the file tries the last position only, unlike its comment; replacement chunks amount to a reference splice.
  \<^item> \<open>Patch_Tool\<close> is \<open>tool.rs\<close> with the memory hooks of \<open>types/memory_v2.rs\<close>: nothing is written before every
    hunk was computed and every change passed the preflight, and success means that the calls of all hunks were made in
    order and succeeded, over any file system, and that the report is true.

  \<^bold>\<open>Compaction\<close> (\<open>common/xai-grok-compaction/src\<close>).
  \<^item> \<open>Compact_Item\<close>, \<open>Compact_Select\<close>: items, token sums, and the split that keeps tool results with their
    requests. \<open>Compact_Fit\<close>: the ladder that makes the input fit. \<open>Compact_Summary\<close>: cleaning of what the model
    returned and assembly of the new history. \<open>Compact_History\<close>: filters and the preamble of user queries.
  \<^item> \<open>Compact_Sample\<close>: sampling with retries. \<open>Compact_Trigger\<close>, \<open>Compact_Intra\<close>: when and how a running
    conversation is compacted; the passes interpret the locale \<open>guarded_pass\<close>. \<open>Compact_Inter\<close>: the chunked
    pipeline between conversations.

  \<^bold>\<open>LHC host\<close> (\<open>lhc/grok-lhc-host/src\<close>; \<open>Conversation\<close> has the items of
  \<open>codegen/xai-grok-sampling-types/src/conversation.rs\<close>).
  \<^item> \<open>Lhc_Keys\<close> is \<open>idempotency.rs\<close>: the archive drops an event whose key it has, so an item's key names its
    digest and its occurrence; keys identify events and a tracker seeded from stored keys mints fresh ones.
    \<open>Lhc_Mapping\<close> and \<open>Lhc_Clock\<close> are \<open>mapping.rs\<close>: items to events, and time stamps. \<open>Lhc_Gate\<close> is the
    configuration (\<open>gating.rs\<close>, \<open>runtime_config.rs\<close>) and the single writer of a compaction (\<open>compact.rs\<close>).
  \<^item> \<open>Lhc_Session\<close> (\<open>session.rs\<close>) submits batches; \<open>archive_contract\<close> states what the host relies on of the
    archive. \<open>Lhc_Capture\<close> is the worker of \<open>capture.rs\<close> with \<open>generated_prefix.rs\<close>; its invariant says that
    the tracker is ahead of every key stored or deferred. \<open>Lhc_Archive\<close> shows that live items are recorded
    completely under new keys, that a restart records nothing twice and that a session that gave up stays
    silent; \<open>Lhc_Writeback\<close> that the tracker counts no more than what is stored, so that a written-back
    body and the items after it are recognised.
  \<^item> \<open>Lhc_Registry\<close> is the rest of \<open>capture.rs\<close> and \<open>tee.rs\<close>: queues, threads, the registry and the tee, which
    relies on the registry through the locale \<open>stamped_store\<close>. Starting and ending a worker and a call of the tee are
    one step each there. Two lemmas exhibit a lost sampler and a forgotten replacement. \<open>Lhc_Tee\<close> takes the call and the
    sections under the registry's lock apart into single accesses: a call goes to a binding that was in force while
    it ran, and the cache never has a generation newer than its handle.
  \<^item> \<open>Lhc_Serving\<close> is \<open>serving.rs\<close> with \<open>serve_request_context\<close> of \<open>lib.rs\<close>: the view of the archive is translated
    to items, its runtime notes are aligned with the host's items, and the result is sent in place of the
    native request or written back. It is shown what a substituted request consists of, that writing back is a
    fixpoint when the notes differ (anchors are compared through the locale \<open>item_identity\<close>), that signatures
    go out only under their identity, and what the status says. Lemmas exhibit a repeated note that moves, a
    second note that is passed over and an outcome that outlives a restart.

  \<^bold>\<open>Circuit breaker\<close> (\<open>common/xai-circuit-breaker/src\<close>).
  \<^item> \<open>Breaker_Window\<close>, \<open>Breaker_Config\<close>, \<open>Circuit_Breaker\<close>: the sliding window, configuration and retry
    policies, the state machine and its registry, with an invariant over all reachable states and recovery.
  \<^item> \<open>Breaker_Concurrent\<close>: the same operations as steps of single atomic accesses, interleaved arbitrarily
    under sequential consistency. Probe slots are exact between two resets of their counter, not across one.

  \<^bold>\<open>Properties.\<close> The properties are numbered C1 to C40 and stand in the theory of their component; the one that
  spans the rule parser, the shell decomposition and the policy is below. Where a theorem exhibits a
  behaviour that the comments of the code exclude, its text says so.

  \<^bold>\<open>Not modelled.\<close>
  \<^item> The terminal interface, the session and protocol plumbing, login, telemetry, update, sampling clients and
    the remaining tools: input and output, rendering, or asynchronous glue around other crates.
  \<^item> Of the permissions: the user interface of a prompt, the handle of the manager (channels and atomic mirrors of its
    modes), managed policies and settings files, the gate of the hub, the files the state is kept in.
  \<^item> Of the LHC host: the comparison of served and native histories, status reports, retrieval tools, the calls
    of the SDK's compaction and of the sampler: reports and calls of other crates.
  \<^item> The hunk tracker and the memory index: pure parts not yet modelled.
  \<^item> Tool descriptions, log identifiers, wall-clock waits, serialised forms, and Windows path syntax.
\<close>

section \<open>From a written rule to a rejected script\<close>

text \<open>
  C6. A deny rule written in the settings holds everywhere: the spelling \<open>Bash(p)\<close>, with \<open>p\<close> escaped, is
  parsed, and under any configuration that contains the parsed rule the gate rejects every script that
  runs, as a segment, behind wrappers, or inside an inline shell or a packed \<open>env\<close> within the depth, a
  command that starts with \<open>p\<close>.
\<close>

theorem written_deny_blocks:
  assumes "p \<noteq> []" "\<not> is_ws (hd p)" "\<not> is_ws (last p)" "p \<noteq> lit ''*''"
    "\<not> starts_with p (lit ''domain:'')" "\<not> ends_with p (lit '':*'')"
    "runs env True MAX_INLINE_SHELL_DEPTH script w"
    "form = w \<or> form = nc_words (normalize_command_words w)"
    "starts_with (trim_start (join [32] form)) p"
  shows "\<exists>rule. parse_permission_rule (lit ''Bash'' @ [LPAREN] @ escape_rule_content p @ [RPAREN]) RuleDeny = Inr rule \<and>
    (\<forall>config. rule \<in> set (pc_rules config) \<longrightarrow>
       (\<exists>r. evaluate_bash_command_gate env (compiled_policy_new env config) script = Some (GReject r)))"
proof -
  let ?rule = "\<lparr>rule_action = RuleDeny, rule_tool = FBash, rule_pattern = Some p, rule_pattern_mode = Glob\<rparr>"
  have "tool_name_to_filter (lit ''Bash'') = Some FBash" by (simp add: tool_name_to_filter_def)
  then have parsed: "parse_permission_rule (lit ''Bash'' @ [LPAREN] @ escape_rule_content p @ [RPAREN]) RuleDeny = Inr ?rule"
    using assms(1-6) by (intro parse_escaped_rule) auto
  have "\<exists>r. evaluate_bash_command_gate env (compiled_policy_new env config) script = Some (GReject r)"
    if rule: "?rule \<in> set (pc_rules config)" for config
  proof -
    let ?pol = "compiled_policy_new env config"
    have restricted: "cp_has_bash_command_restrictions ?pol"
      using rule by (auto simp: compiled_policy_new_def list_ex_iff restricts_def intro!: bexI[of _ ?rule])
    have "(?rule, compile_matcher env ?rule) \<in> set (zip (pc_rules (cp_config ?pol)) (cp_matchers ?pol))"
      using rule unfolding zip_compiled by auto
    then obtain r where "evaluate env ?pol (AccBash (join [32] form) :: unit access_kind) = Some (Reject r)"
      using deny_prefix_rejects[of ?rule _ ?pol p "join [32] form" env] assms(9) by auto
    with gate_rejects[OF restricted assms(7,8)] show ?thesis by blast
  qed
  with parsed show ?thesis by blast
qed

theorem written_deny_blocks_witness:
  "\<exists>rule. parse_permission_rule (lit ''Bash(b)'') RuleDeny = Inr rule \<and>
     (\<exists>r. evaluate_bash_command_gate demo_env (compiled_policy_new demo_env (permission_config_new [rule])) (lit ''a&&b'') =
        Some (GReject r))"
proof -
  have "runs demo_env True MAX_INLINE_SHELL_DEPTH (lit ''a&&b'') (pl_words \<lparr>pl_words = [lit ''b''], pl_span_start = 3, pl_span_end = 4\<rparr>)"
    by (rule runs.segment[OF demo_commands]) simp
  then have run: "runs demo_env True MAX_INLINE_SHELL_DEPTH (lit ''a&&b'') [lit ''b'']" by simp
  have t: "lit ''Bash'' @ [LPAREN] @ escape_rule_content (lit ''b'') @ [RPAREN] = lit ''Bash(b)''"
    by (simp add: lit_def escape_rule_content_def escape_char_def)
  have "\<exists>rule. parse_permission_rule (lit ''Bash'' @ [LPAREN] @ escape_rule_content (lit ''b'') @ [RPAREN]) RuleDeny = Inr rule \<and>
    (\<forall>config. rule \<in> set (pc_rules config) \<longrightarrow>
       (\<exists>r. evaluate_bash_command_gate demo_env (compiled_policy_new demo_env config) (lit ''a&&b'') = Some (GReject r)))"
    by (rule written_deny_blocks[OF _ _ _ _ _ _ run, of _ "[lit ''b'']"])
      (simp_all add: lit_def str_eval starts_with_def ends_with_def)
  then show ?thesis unfolding t by (auto simp: permission_config_new_def)
qed

end
